(* ===== verification/Prelude.thy ===== *)
theory Prelude
  imports Main "HOL-Library.Word" "HOL-Library.Multiset"
begin

text \<open>
  Shared vocabulary of the development: the widths of Go's integers, the combinator that
  models \<open>if err := call(); err != nil { return ... }\<close>, and the generic facts on lists and
  words that the components use.

  Go's \<open>uint32\<close> and \<open>uint64\<close> are words of that width, so that \<open>+\<close> and \<open>-\<close> wrap exactly as
  they do in Go. An \<open>int64\<close> is a 64-bit word read with \<open>sint\<close>.
\<close>

named_theorems go_defs
  \<open>definitions of the model that are unfolded together when a handler is executed\<close>
named_theorems err_splits
  \<open>case splits over error results\<close>

type_synonym u32 = "32 word"
type_synonym u64 = "64 word"
type_synonym i64 = "64 word"

text \<open>
  A fallible call against a service, as a state transformer: \<open>Inl\<close> is the Go \<open>error\<close> and
  \<open>Inr\<close> the result. \<open>try_call m h k\<close> runs \<open>m\<close>, continues with \<open>h\<close> on an error and with \<open>k\<close>
  on a result, from the state the call left behind.
\<close>

type_synonym ('s, 'e, 'a) call = "'s \<Rightarrow> ('e + 'a) \<times> 's"

definition try_call ::
  "('s, 'e, 'a) call \<Rightarrow> ('e \<Rightarrow> 's \<Rightarrow> 'r) \<Rightarrow> ('a \<Rightarrow> 's \<Rightarrow> 'r) \<Rightarrow> 's \<Rightarrow> 'r" where
  "try_call m h k s = (case m s of (Inl e, s') \<Rightarrow> h e s' | (Inr a, s') \<Rightarrow> k a s')"

lemma try_call_Inl [simp]: "m s = (Inl e, s') \<Longrightarrow> try_call m h k s = h e s'"
  by (simp add: try_call_def)

lemma try_call_Inr [simp]: "m s = (Inr a, s') \<Longrightarrow> try_call m h k s = k a s'"
  by (simp add: try_call_def)

text \<open>
  With this congruence rule the simplifier executes calls in order and does not rewrite the
  continuations before it reaches them.
\<close>

lemma try_call_cong: "m = m' \<Longrightarrow> s = s' \<Longrightarrow> try_call m h k s = try_call m' h k s'"
  by simp

lemma try_call_cases:
  assumes "\<And>e s'. m s = (Inl e, s') \<Longrightarrow> P (h e s')"
    and "\<And>a s'. m s = (Inr a, s') \<Longrightarrow> P (k a s')"
  shows "P (try_call m h k s)"
  using assms by (auto simp: try_call_def split: prod.split sum.split)

lemma try_call_assoc [simp]:
  "try_call (try_call m (\<lambda>e s. (Inl e, s)) k') h k s = try_call m h (\<lambda>a. try_call (k' a) h k) s"
  by (simp add: try_call_def split: prod.split sum.split)

lemma try_call_if [simp]:
  "try_call (if b then m1 else m2) h k s = (if b then try_call m1 h k s else try_call m2 h k s)"
  by simp

lemma try_call_case_option [simp]:
  "try_call (case x of None \<Rightarrow> m1 | Some a \<Rightarrow> m2 a) h k s =
     (case x of None \<Rightarrow> try_call m1 h k s | Some a \<Rightarrow> try_call (m2 a) h k s)"
  by (simp split: option.split)

lemma try_call_lambda_if [simp]:
  "try_call (\<lambda>s. if b s then m1 s else m2 s) h k s =
     (if b s then try_call m1 h k s else try_call m2 h k s)"
  by (simp add: try_call_def)

lemma try_call_lambda_case_option [simp]:
  "try_call (\<lambda>s. case x s of None \<Rightarrow> m1 s | Some a \<Rightarrow> m2 a s) h k s =
     (case x s of None \<Rightarrow> try_call m1 h k s | Some a \<Rightarrow> try_call (m2 a) h k s)"
  by (simp add: try_call_def split: option.split)

subsection \<open>Words\<close>

lemma unat_Suc_no_wrap: "(x :: 'a::len word) \<noteq> - 1 \<Longrightarrow> unat (x + 1) = Suc (unat x)"
  by (metis add.commute add.right_inverse add_left_cancel unatSuc)

lemma unat_add_no_wrap:
  "unat (x :: 'a::len word) + unat y < 2 ^ LENGTH('a) \<Longrightarrow> unat (x + y) = unat x + unat y"
  by (simp add: unat_word_ariths)

lemma unat_sub_no_wrap: "(y :: 'a::len word) \<le> x \<Longrightarrow> unat (x - y) = unat x - unat y"
  by (simp add: unat_sub)

lemma unat_of_nat_small: "n < 2 ^ LENGTH('a) \<Longrightarrow> unat (of_nat n :: 'a::len word) = n"
  by (simp add: unat_of_nat)

subsection \<open>Lists\<close>

lemma last_n_snoc:
  assumes "length xs \<le> n" and "xs = drop (length ys - n) ys" and "0 < n"
  shows "(if length xs < n then xs @ [y] else tl xs @ [y]) = drop (length (ys @ [y]) - n) (ys @ [y])"
proof (cases "length xs < n")
  case True
  with assms(2) have "length ys < n" by (simp split: if_splits)
  with True assms(2) show ?thesis by simp
next
  case False
  with assms have "n \<le> length ys" by simp
  then have "Suc (length ys) - n = Suc (length ys - n)" by simp
  with False assms(2) \<open>n \<le> length ys\<close> \<open>0 < n\<close> show ?thesis
    by (simp add: tl_drop drop_Suc)
qed

end
