(* ===== verification/Bucket_Window.thy ===== *)
theory Bucket_Window
  imports Prelude
begin

text \<open>
  The circular buffer of ledgers of the RPC server
  (\<open>suban-rpc/.../ledgerbucketwindow/ledgerbucketwindow.go\<close>). The Go struct keeps a slice of
  fixed capacity and the index of its head. The abstract window is the list of buckets from the
  oldest to the newest; the locale \<open>ledger_window\<close> states what a client may rely on, and its
  interpretation on the code's operations discharges these laws.
\<close>

record 'a LedgerBucket =
  LedgerSeq :: u32
  LedgerCloseTimestamp :: i64
  BucketContent :: 'a

text \<open>\<open>bcap\<close> is Go's \<open>cap(w.buckets)\<close>, fixed by \<open>make\<close> and unchanged by \<open>append\<close> below it.\<close>

record 'a LedgerBucketWindow =
  buckets :: "'a LedgerBucket list"
  bcap :: nat
  start :: u32

datatype window_error =
    NotContiguous u32 u32  \<comment> \<open>expected and received ledger sequence\<close>
  | IndexPanic             \<comment> \<open>Go's index out of range panic\<close>

definition NewLedgerBucketWindow :: "u32 \<Rightarrow> 'a LedgerBucketWindow" where
  "NewLedgerBucketWindow retentionWindow =
     \<lparr>buckets = [], bcap = unat retentionWindow, start = 0\<rparr>"

definition Len :: "'a LedgerBucketWindow \<Rightarrow> u32" where
  "Len w = of_nat (length (buckets w))"

definition Append ::
  "'a LedgerBucketWindow \<Rightarrow> 'a LedgerBucket \<Rightarrow>
     window_error + ('a LedgerBucket option \<times> 'a LedgerBucketWindow)" where
  "Append w bucket =
     (let len = Len w; s = unat (start w) in
      if 0 < len \<and> length (buckets w) \<le> s then Inl IndexPanic
      else if 0 < len \<and> LedgerSeq (buckets w ! s) + len \<noteq> LedgerSeq bucket
      then Inl (NotContiguous (LedgerSeq (buckets w ! s) + len) (LedgerSeq bucket))
      else if len < of_nat (bcap w)
      then Inr (None, w\<lparr>buckets := buckets w @ [bucket]\<rparr>)
      else if length (buckets w) \<le> s then Inl IndexPanic
      else Inr (Some (buckets w ! s),
                w\<lparr>buckets := (buckets w)[s := bucket], start := (start w + 1) mod len\<rparr>))"

definition Get :: "'a LedgerBucketWindow \<Rightarrow> u32 \<Rightarrow> window_error + 'a LedgerBucket" where
  "Get w i =
     (let len = Len w in
      if len \<le> i then Inl IndexPanic
      else Inr (buckets w ! unat ((start w + i) mod len)))"

record LedgerInfo =
  Sequence :: u32
  CloseTime :: i64

record LedgerRange =
  FirstLedger :: LedgerInfo
  LastLedger :: LedgerInfo

definition bucket_info :: "'a LedgerBucket \<Rightarrow> LedgerInfo" where
  "bucket_info b = \<lparr>Sequence = LedgerSeq b, CloseTime = LedgerCloseTimestamp b\<rparr>"

definition zero_range :: LedgerRange where
  "zero_range = \<lparr>FirstLedger = \<lparr>Sequence = 0, CloseTime = 0\<rparr>,
                 LastLedger = \<lparr>Sequence = 0, CloseTime = 0\<rparr>\<rparr>"

definition LedgerBucketWindow_GetLedgerRange :: "'a LedgerBucketWindow \<Rightarrow> window_error + LedgerRange" where
  "LedgerBucketWindow_GetLedgerRange w =
     (let len = Len w in
      if len = 0 then Inr zero_range
      else case Get w 0 of
          Inl e \<Rightarrow> Inl e
        | Inr firstBucket \<Rightarrow>
            (case Get w (len - 1) of
                Inl e \<Rightarrow> Inl e
              | Inr lastBucket \<Rightarrow>
                  Inr \<lparr>FirstLedger = bucket_info firstBucket, LastLedger = bucket_info lastBucket\<rparr>))"

definition Reset :: "'a LedgerBucketWindow \<Rightarrow> 'a LedgerBucketWindow" where
  "Reset w = w\<lparr>buckets := [], start := 0\<rparr>"

subsection \<open>The abstract window and the invariant\<close>

definition window_list :: "'a LedgerBucketWindow \<Rightarrow> 'a LedgerBucket list" where
  "window_list w = rotate (unat (start w)) (buckets w)"

definition contiguous :: "'a LedgerBucket list \<Rightarrow> bool" where
  "contiguous bs \<longleftrightarrow> (\<forall>i < length bs. LedgerSeq (bs ! i) = LedgerSeq (bs ! 0) + of_nat i)"

lemma contiguousD:
  "contiguous bs \<Longrightarrow> i < length bs \<Longrightarrow> LedgerSeq (bs ! i) = LedgerSeq (bs ! 0) + of_nat i"
  unfolding contiguous_def by blast

text \<open>
  The capacity is positive (with capacity zero the first \<open>Append\<close> reads \<open>buckets[0]\<close> of an
  empty slice) and at most \<open>2\<^sup>3\<^sup>1\<close> (so that \<open>start + i\<close> in \<open>Get\<close> does not wrap).
\<close>

definition window_ok :: "'a LedgerBucketWindow \<Rightarrow> bool" where
  "window_ok w \<longleftrightarrow>
     0 < bcap w \<and> bcap w \<le> 2 ^ 31 \<and> length (buckets w) \<le> bcap w \<and>
     (length (buckets w) < bcap w \<longrightarrow> start w = 0) \<and>
     unat (start w) < bcap w \<and> contiguous (window_list w)"

lemma bcap_bound: "window_ok w \<Longrightarrow> length (buckets w) < 2 ^ 32 \<and> bcap w < 2 ^ 32"
  by (auto simp: window_ok_def)

lemma unat_Len: "window_ok w \<Longrightarrow> unat (Len w) = length (window_list w)"
  using bcap_bound [of w] by (simp add: Len_def window_list_def unat_of_nat)

lemma length_window_list [simp]: "length (window_list w) = length (buckets w)"
  by (simp add: window_list_def)

lemma window_start_in_range:
  "window_ok w \<Longrightarrow> buckets w \<noteq> [] \<Longrightarrow> unat (start w) < length (buckets w)"
  by (cases "length (buckets w) < bcap w") (auto simp: window_ok_def)

lemma window_list_hd:
  assumes "window_ok w" and "buckets w \<noteq> []"
  shows "window_list w ! 0 = buckets w ! unat (start w)"
  using window_start_in_range [OF assms] assms(2)
  by (simp add: window_list_def nth_rotate)

lemma rotate_replace_head:
  assumes "s < length xs"
  shows "rotate (Suc s mod length xs) (xs[s := y]) = tl (rotate s xs) @ [y]"
proof (rule nth_equalityI)
  show "length (rotate (Suc s mod length xs) (xs[s := y])) = length (tl (rotate s xs) @ [y])"
    using assms by auto
next
  fix i assume "i < length (rotate (Suc s mod length xs) (xs[s := y]))"
  then have i: "i < length xs" by simp
  have l: "rotate (Suc s mod length xs) (xs[s := y]) ! i = xs[s := y] ! ((Suc s + i) mod length xs)"
    using i by (simp add: nth_rotate mod_simps)
  show "rotate (Suc s mod length xs) (xs[s := y]) ! i = (tl (rotate s xs) @ [y]) ! i"
  proof (cases "Suc i = length xs")
    case True
    then have "(Suc s + i) mod length xs = s" using assms by (metis add_Suc_shift mod_add_self2 mod_less)
    moreover have "length (tl (rotate s xs)) = i" using True by simp
    then have "(tl (rotate s xs) @ [y]) ! i = y" by (metis nth_append_length)
    ultimately show ?thesis using l assms by simp
  next
    case False
    with i have lt: "Suc i < length xs" by simp
    have "(Suc s + i) mod length xs \<noteq> s"
    proof (cases "Suc s + i < length xs")
      case False
      then have "(Suc s + i) mod length xs = Suc s + i - length xs"
        using assms lt by (simp add: mod_if)
      then show ?thesis using lt False by simp
    qed simp
    moreover have "i < length (tl (rotate s xs))" using lt by simp
    ultimately show ?thesis using l lt by (simp add: nth_append nth_tl nth_rotate)
  qed
qed

text \<open>Appending keeps the window contiguous exactly when the new sequence follows the last one.\<close>

lemma contiguous_snoc:
  assumes "contiguous bs"
    and "bs \<noteq> [] \<Longrightarrow> LedgerSeq b = LedgerSeq (bs ! 0) + of_nat (length bs)"
  shows "contiguous (bs @ [b])"
  unfolding contiguous_def
proof (intro allI impI)
  fix i assume i: "i < length (bs @ [b])"
  show "LedgerSeq ((bs @ [b]) ! i) = LedgerSeq ((bs @ [b]) ! 0) + of_nat i"
  proof (cases "i < length bs")
    case True
    from contiguousD [OF assms(1) this]
    have "LedgerSeq (bs ! i) = LedgerSeq (bs ! 0) + of_nat i" .
    moreover have "(bs @ [b]) ! i = bs ! i" and "(bs @ [b]) ! 0 = bs ! 0"
      using True by (simp add: nth_append, cases bs, simp_all)
    ultimately show ?thesis by (simp only:)
  next
    case False
    with i have "i = length bs" by simp
    then show ?thesis using assms(2) by (cases "bs = []") (simp_all add: nth_append)
  qed
qed

lemma contiguous_tl: "contiguous bs \<Longrightarrow> contiguous (tl bs)"
proof (cases bs)
  case (Cons x xs)
  assume c: "contiguous bs"
  show ?thesis unfolding contiguous_def
  proof (intro allI impI)
    fix i assume i: "i < length (tl bs)"
    with c Cons have "LedgerSeq (xs ! i) = LedgerSeq x + of_nat (Suc i)"
      and "0 < length xs \<Longrightarrow> LedgerSeq (xs ! 0) = LedgerSeq x + of_nat (Suc 0)"
      unfolding contiguous_def by (metis (mono_tags) length_Cons list.sel(3) not_less_eq nth_Cons_0
          nth_Cons_Suc)+
    with i Cons show "LedgerSeq (tl bs ! i) = LedgerSeq (tl bs ! 0) + of_nat i"
      by (cases xs) (auto simp: algebra_simps)
  qed
qed simp

text \<open>What \<open>Append\<close> does, on the abstract window: the specification the code refines.\<close>

definition append_spec ::
  "nat \<Rightarrow> 'a LedgerBucket list \<Rightarrow> 'a LedgerBucket \<Rightarrow>
     window_error + ('a LedgerBucket option \<times> 'a LedgerBucket list)" where
  "append_spec n bs b =
     (if bs \<noteq> [] \<and> LedgerSeq (hd bs) + of_nat (length bs) \<noteq> LedgerSeq b
      then Inl (NotContiguous (LedgerSeq (hd bs) + of_nat (length bs)) (LedgerSeq b))
      else if length bs < n then Inr (None, bs @ [b])
      else Inr (Some (hd bs), tl bs @ [b]))"

lemma Len_zero_iff: "window_ok w \<Longrightarrow> Len w = 0 \<longleftrightarrow> buckets w = []"
  using unat_Len [of w] by (metis length_0_conv length_window_list unat_eq_zero)

lemma window_hd:
  "window_ok w \<Longrightarrow> buckets w \<noteq> [] \<Longrightarrow> hd (window_list w) = buckets w ! unat (start w)"
  using window_list_hd [of w] by (metis hd_conv_nth length_0_conv length_window_list)

lemma Len_less_cap:
  "window_ok w \<Longrightarrow> Len w < of_nat (bcap w) \<longleftrightarrow> length (buckets w) < bcap w"
  using bcap_bound [of w] by (simp add: Len_def word_less_nat_alt unat_of_nat)

lemma Append_full_step:
  fixes b :: "'a LedgerBucket"
  assumes ok: "window_ok w" and full: "\<not> length (buckets w) < bcap w"
  defines "w' \<equiv> w\<lparr>buckets := (buckets w)[unat (start w) := b], start := (start w + 1) mod Len w\<rparr>"
  shows "window_list w' = tl (window_list w) @ [b]" and "unat (start w') < bcap w"
proof -
  have ne: "buckets w \<noteq> []" and lenc: "length (buckets w) = bcap w"
    using ok full by (auto simp: window_ok_def)
  note s = window_start_in_range [OF ok ne]
  have "unat (start w) + 1 < 2 ^ 32" using s bcap_bound [OF ok] by simp
  then have "unat (start w + 1) = Suc (unat (start w))"
    using unat_add_no_wrap [of "start w" 1] by simp
  then have st: "unat (start w') = Suc (unat (start w)) mod length (buckets w)"
    using unat_Len [OF ok] by (simp add: w'_def unat_mod)
  then show "window_list w' = tl (window_list w) @ [b]"
    using rotate_replace_head [OF s] by (simp add: window_list_def w'_def)
  show "unat (start w') < bcap w" using st lenc ne by (metis length_greater_0_conv mod_less_divisor)
qed

lemma Append_refines:
  assumes ok: "window_ok w"
  shows "(case Append w b of
            Inl e \<Rightarrow> append_spec (bcap w) (window_list w) b = Inl e
          | Inr (ev, w') \<Rightarrow> append_spec (bcap w) (window_list w) b = Inr (ev, window_list w') \<and>
                           window_ok w' \<and> bcap w' = bcap w)"
proof (cases "buckets w = []")
  case True
  with ok show ?thesis
    by (auto simp: Append_def append_spec_def Len_def window_list_def window_ok_def Let_def
        contiguous_def word_less_nat_alt unat_of_nat)
next
  case ne: False
  note s = window_start_in_range [OF ok ne]
  have wl: "window_list w \<noteq> []" using ne by (metis length_0_conv length_window_list)
  have Lpos: "0 < Len w" using ne Len_zero_iff [OF ok] by (simp add: word_neq_0_conv)
  have LenE: "Len w = of_nat (length (window_list w))" by (simp add: Len_def)
  note hd = window_hd [OF ok ne]
  show ?thesis
  proof (cases "LedgerSeq (buckets w ! unat (start w)) + Len w = LedgerSeq b")
    case False
    then show ?thesis using s Lpos wl hd by (simp add: Append_def append_spec_def Let_def LenE)
  next
    case eq: True
    have c: "contiguous (window_list w)" using ok by (simp add: window_ok_def)
    have seq: "LedgerSeq b = LedgerSeq (window_list w ! 0) + of_nat (length (window_list w))"
      using eq hd window_list_hd [OF ok ne] by (simp add: LenE)
    show ?thesis
    proof (cases "length (buckets w) < bcap w")
      case True
      then have st0: "start w = 0" using ok by (simp add: window_ok_def)
      have app: "window_list (w\<lparr>buckets := buckets w @ [b]\<rparr>) = window_list w @ [b]"
        using st0 by (simp add: window_list_def)
      have "window_ok (w\<lparr>buckets := buckets w @ [b]\<rparr>)"
        using True ok contiguous_snoc [OF c seq] app st0 by (auto simp: window_ok_def)
      then show ?thesis using True s eq hd wl app Len_less_cap [OF ok]
        by (simp add: Append_def append_spec_def Let_def LenE)
    next
      case False
      note fs = Append_full_step [OF ok False, of b]
      let ?w = "w\<lparr>buckets := (buckets w)[unat (start w) := b], start := (start w + 1) mod Len w\<rparr>"
      have "contiguous (window_list w @ [b])" by (rule contiguous_snoc [OF c seq])
      then have "contiguous (tl (window_list w) @ [b])"
        using contiguous_tl wl by fastforce
      then have "window_ok ?w" using ok fs False by (auto simp: window_ok_def)
      moreover have "Append w b = Inr (Some (buckets w ! unat (start w)), ?w)"
        using False s eq Len_less_cap [OF ok] by (simp add: Append_def Let_def)
      moreover have "append_spec (bcap w) (window_list w) b
          = Inr (Some (hd (window_list w)), tl (window_list w) @ [b])"
        using False eq hd by (simp add: append_spec_def LenE)
      ultimately show ?thesis using fs(1) hd by simp
    qed
  qed
qed

lemma Get_window_list:
  assumes ok: "window_ok w" and i: "i < Len w"
  shows "Get w i = Inr (window_list w ! unat i)"
proof -
  have il: "unat i < length (buckets w)"
    using i unat_Len [OF ok] by (simp add: word_less_nat_alt)
  then have ne: "buckets w \<noteq> []" by auto
  have "length (buckets w) \<le> 2 ^ 31" using ok by (simp add: window_ok_def)
  then have "unat (start w) + unat i < 2 ^ 32"
    using window_start_in_range [OF ok ne] il by simp
  then have "unat ((start w + i) mod Len w) = (unat (start w) + unat i) mod length (buckets w)"
    using unat_Len [OF ok] unat_add_no_wrap [of "start w" i] by (simp add: unat_mod)
  then show ?thesis using i il by (simp add: Get_def Let_def window_list_def nth_rotate)
qed

lemma window_ok_Reset: "window_ok w \<Longrightarrow> window_ok (Reset w)"
  by (auto simp: window_ok_def Reset_def contiguous_def window_list_def)

lemma window_ok_New:
  "0 < r \<Longrightarrow> unat r \<le> 2 ^ 31 \<Longrightarrow> window_ok (NewLedgerBucketWindow r)"
  by (auto simp: window_ok_def NewLedgerBucketWindow_def contiguous_def window_list_def
      word_less_nat_alt)

lemma contiguous_last:
  assumes "contiguous bs" and "bs \<noteq> []"
  shows "LedgerSeq (hd bs) + of_nat (length bs) = LedgerSeq (last bs) + 1"
proof -
  have "LedgerSeq (last bs) = LedgerSeq (hd bs) + of_nat (length bs - 1)"
    using contiguousD [OF assms(1), of "length bs - 1"] assms(2)
    by (simp add: last_conv_nth hd_conv_nth)
  moreover have "(of_nat (length bs) :: u32) = of_nat (length bs - 1) + 1"
    using assms(2) by (metis Suc_pred' add.commute length_greater_0_conv of_nat_Suc)
  ultimately show ?thesis by simp
qed

lemma contiguous_drop_next:
  assumes "contiguous (seen @ b # bs)" and "drop k seen \<noteq> []"
  shows "LedgerSeq b = LedgerSeq (hd (drop k seen)) + of_nat (length (drop k seen))"
proof -
  have k: "k < length seen" using assms(2) by simp
  have "LedgerSeq (seen ! k) = LedgerSeq ((seen @ b # bs) ! 0) + of_nat k"
    using contiguousD [OF assms(1), of k] k by (simp add: nth_append)
  moreover have "LedgerSeq b = LedgerSeq ((seen @ b # bs) ! 0) + of_nat (length seen)"
    using contiguousD [OF assms(1), of "length seen"] by simp
  ultimately show ?thesis using k by (simp add: hd_drop_conv_nth of_nat_diff)
qed

subsection \<open>The interface clients rely on\<close>

fun append_all ::
  "('w \<Rightarrow> 'a LedgerBucket \<Rightarrow> window_error + ('a LedgerBucket option \<times> 'w)) \<Rightarrow>
     'w \<Rightarrow> 'a LedgerBucket list \<Rightarrow> window_error + 'w" where
  "append_all app w [] = Inr w"
| "append_all app w (b # bs) =
     (case app w b of Inl e \<Rightarrow> Inl e | Inr (_, w') \<Rightarrow> append_all app w' bs)"

fun_cases append_all_ConsE: "append_all app w (b # bs) = Inr w'"

locale ledger_window =
  fixes app :: "'w \<Rightarrow> 'a LedgerBucket \<Rightarrow> window_error + ('a LedgerBucket option \<times> 'w)"
    and get :: "'w \<Rightarrow> u32 \<Rightarrow> window_error + 'a LedgerBucket"
    and len :: "'w \<Rightarrow> u32"
    and reset :: "'w \<Rightarrow> 'w"
    and content :: "'w \<Rightarrow> 'a LedgerBucket list"
    and capacity :: "'w \<Rightarrow> nat"
    and ok :: "'w \<Rightarrow> bool"
  assumes app_refines: "ok w \<Longrightarrow>
      (case app w b of
         Inl e \<Rightarrow> append_spec (capacity w) (content w) b = Inl e
       | Inr (ev, w') \<Rightarrow> append_spec (capacity w) (content w) b = Inr (ev, content w') \<and>
                        ok w' \<and> capacity w' = capacity w)"
    and get_content: "ok w \<Longrightarrow> i < len w \<Longrightarrow> get w i = Inr (content w ! unat i)"
    and len_content: "ok w \<Longrightarrow> unat (len w) = length (content w)"
    and reset_ok: "ok w \<Longrightarrow> ok (reset w)"
    and reset_content: "content (reset w) = []"
    and reset_capacity: "capacity (reset w) = capacity w"
    and content_bound: "ok w \<Longrightarrow> length (content w) \<le> capacity w"
    and capacity_pos: "ok w \<Longrightarrow> 0 < capacity w"
    and content_contiguous: "ok w \<Longrightarrow> contiguous (content w)"
begin

lemma app_Inr:
  assumes "ok w" and "app w b = Inr (ev, w')"
  shows "ok w'" and "capacity w' = capacity w"
    and "append_spec (capacity w) (content w) b = Inr (ev, content w')"
  using app_refines [OF assms(1), of b] assms(2) by simp_all

lemma app_Inl: "ok w \<Longrightarrow> app w b = Inl e \<Longrightarrow> append_spec (capacity w) (content w) b = Inl e"
  using app_refines [of w b] by simp

lemma app_content:
  assumes "ok w" and "app w b = Inr (ev, w')"
  shows "content w' = (if length (content w) < capacity w then content w @ [b]
                       else tl (content w) @ [b])"
  using app_Inr(3) [OF assms] by (auto simp: append_spec_def split: if_splits)

lemma app_succeeds_iff:
  assumes "ok w"
  shows "(\<exists>ev w'. app w b = Inr (ev, w')) \<longleftrightarrow>
         content w = [] \<or> LedgerSeq b = LedgerSeq (hd (content w)) + of_nat (length (content w))"
proof (cases "app w b")
  case (Inl e)
  then show ?thesis using app_Inl [OF assms Inl] by (auto simp: append_spec_def split: if_splits)
next
  case (Inr r)
  then show ?thesis using app_Inr(3) [OF assms, of b "fst r" "snd r"]
    by (cases r) (auto simp: append_spec_def split: if_splits)
qed

lemma append_all_window:
  assumes "ok w" and "content w = drop (length seen - capacity w) seen"
    and "append_all app w bs = Inr w'"
  shows "ok w' \<and> capacity w' = capacity w \<and>
         content w' = drop (length (seen @ bs) - capacity w) (seen @ bs)"
  using assms
proof (induction bs arbitrary: w seen)
  case (Cons b bs)
  then obtain ev w1 where a: "app w b = Inr (ev, w1)" and r: "append_all app w1 bs = Inr w'"
    by (auto split: sum.splits)
  note a1 = app_Inr [OF Cons.prems(1) a]
  have "content w1 = drop (length (seen @ [b]) - capacity w1) (seen @ [b])"
    using app_content [OF Cons.prems(1) a] a1(2) content_bound [OF Cons.prems(1)]
      capacity_pos [OF Cons.prems(1)] Cons.prems(2)
    by (metis last_n_snoc)
  from Cons.IH [OF a1(1) this r] a1(2) show ?case by simp
qed simp

lemma append_all_succeeds:
  assumes "ok w" and "content w = drop (length seen - capacity w) seen"
    and "contiguous (seen @ bs)"
  shows "\<exists>w'. append_all app w bs = Inr w'"
  using assms
proof (induction bs arbitrary: w seen)
  case (Cons b bs)
  have "content w = [] \<or> LedgerSeq b = LedgerSeq (hd (content w)) + of_nat (length (content w))"
    using contiguous_drop_next [OF Cons.prems(3)] Cons.prems(2) by metis
  then obtain ev w1 where a: "app w b = Inr (ev, w1)"
    using app_succeeds_iff [OF Cons.prems(1)] by blast
  have "append_all app w [b] = Inr w1" using a by simp
  from append_all_window [OF Cons.prems(1,2) this] Cons.IH [of w1 "seen @ [b]"] Cons.prems(3)
  have "\<exists>w'. append_all app w1 bs = Inr w'" by simp
  with a show ?case by simp
qed simp

end

interpretation lbw: ledger_window Append Get Len Reset window_list bcap window_ok
proof unfold_locales
  fix w :: "'a LedgerBucketWindow" and b i
  show "window_ok w \<Longrightarrow> unat (Len w) = length (window_list w)" by (rule unat_Len)
  show "window_ok w \<Longrightarrow> i < Len w \<Longrightarrow> Get w i = Inr (window_list w ! unat i)"
    by (rule Get_window_list)
  show "window_ok w \<Longrightarrow> length (window_list w) \<le> bcap w" by (simp add: window_ok_def)
  show "window_ok w \<Longrightarrow> 0 < bcap w" by (simp add: window_ok_def)
  show "window_ok w \<Longrightarrow> contiguous (window_list w)" by (simp add: window_ok_def)
qed (rule Append_refines window_ok_Reset; assumption | simp add: Reset_def window_list_def)+

text \<open>The range that the window reports is that of its oldest and its newest bucket.\<close>

lemma LedgerBucketWindow_GetLedgerRange_ends:
  assumes "window_ok w"
  shows "LedgerBucketWindow_GetLedgerRange w = Inr (if window_list w = [] then zero_range
    else \<lparr>FirstLedger = bucket_info (hd (window_list w)), LastLedger = bucket_info (last (window_list w))\<rparr>)"
proof (cases "window_list w = []")
  case True
  then have "buckets w = []" by (metis length_0_conv length_window_list)
  with True Len_zero_iff [OF assms] show ?thesis by (simp add: LedgerBucketWindow_GetLedgerRange_def Let_def)
next
  case False
  then have ne: "buckets w \<noteq> []" by (auto simp: window_list_def)
  then have pos: "Len w \<noteq> 0" using Len_zero_iff [OF assms] by simp
  have u: "unat (Len w - 1) = length (window_list w) - 1" using pos unat_Len [OF assms] by (simp add: unat_minus_one)
  moreover have "0 < Len w" using pos by (simp add: word_neq_0_conv)
  moreover have "Len w - 1 < Len w" using u ne unat_Len [OF assms] by (simp add: word_less_nat_alt)
  ultimately show ?thesis using False pos
    by (simp add: LedgerBucketWindow_GetLedgerRange_def Get_window_list [OF assms] hd_conv_nth last_conv_nth)
qed

subsection \<open>Properties of the window\<close>

text \<open>
  C29. Refinement of the circular buffer: a window created with retention \<open>r\<close> (between 1 and
  \<open>2\<^sup>3\<^sup>1\<close>) accepts any list of buckets with consecutive ledger sequences, holds exactly the last
  \<open>r\<close> of them, oldest first, and \<open>Get\<close> reads them in that order.
\<close>

theorem window_keeps_last_n:
  assumes "0 < r" and "unat r \<le> 2 ^ 31" and "contiguous bs"
  shows "\<exists>w. append_all Append (NewLedgerBucketWindow r) bs = Inr w \<and>
             window_list w = drop (length bs - unat r) bs \<and>
             (\<forall>i < Len w. Get w i = Inr (drop (length bs - unat r) bs ! unat i))"
proof -
  let ?w = "NewLedgerBucketWindow r :: 'a LedgerBucketWindow"
  have ok: "window_ok ?w" by (rule window_ok_New [OF assms(1,2)])
  have c0: "window_list ?w = drop (length [] - bcap ?w) []"
    by (simp add: NewLedgerBucketWindow_def window_list_def)
  obtain w where w: "append_all Append ?w bs = Inr w"
    using lbw.append_all_succeeds [OF ok c0] assms(3) by auto
  have "window_ok w \<and> window_list w = drop (length bs - unat r) bs"
    using lbw.append_all_window [OF ok c0 w] by (simp add: NewLedgerBucketWindow_def)
  with w lbw.get_content [of w] show ?thesis by auto
qed

theorem window_keeps_last_n_witness:
  "\<exists>w. append_all Append (NewLedgerBucketWindow 2)
         [\<lparr>LedgerSeq = 7, LedgerCloseTimestamp = 0, BucketContent = ''a''\<rparr>,
          \<lparr>LedgerSeq = 8, LedgerCloseTimestamp = 5, BucketContent = ''b''\<rparr>,
          \<lparr>LedgerSeq = 9, LedgerCloseTimestamp = 9, BucketContent = ''c''\<rparr>] = Inr w \<and>
       map LedgerSeq (window_list w) = [8, 9]"
proof -
  let ?bs = "[\<lparr>LedgerSeq = 7, LedgerCloseTimestamp = 0, BucketContent = ''a''\<rparr>,
          \<lparr>LedgerSeq = 8, LedgerCloseTimestamp = 5, BucketContent = ''b''\<rparr>,
          \<lparr>LedgerSeq = 9, LedgerCloseTimestamp = 9, BucketContent = ''c''\<rparr>]"
  have "contiguous ?bs" by (auto simp: contiguous_def less_Suc_eq numeral_3_eq_3)
  then show ?thesis using window_keeps_last_n [of 2 ?bs] by auto
qed

text \<open>
  \<open>Append\<close> accepts a bucket exactly when the window is empty or the bucket's ledger follows
  the newest one; every other bucket is refused with the expected and the received sequence.
\<close>

theorem Append_accepts_exactly_next:
  assumes "window_ok w"
  shows "(window_list w = [] \<or> LedgerSeq b = LedgerSeq (last (window_list w)) + 1 \<longrightarrow>
            (\<exists>ev w'. Append w b = Inr (ev, w') \<and> window_ok w' \<and> last (window_list w') = b)) \<and>
         (window_list w \<noteq> [] \<and> LedgerSeq b \<noteq> LedgerSeq (last (window_list w)) + 1 \<longrightarrow>
            Append w b = Inl (NotContiguous (LedgerSeq (last (window_list w)) + 1) (LedgerSeq b)))"
proof -
  have nxt: "LedgerSeq (hd (window_list w)) + of_nat (length (window_list w))
      = LedgerSeq (last (window_list w)) + 1" if "window_list w \<noteq> []"
    using contiguous_last [OF lbw.content_contiguous [OF assms] that] .
  show ?thesis
  proof (cases "Append w b")
    case (Inl e)
    then show ?thesis using lbw.app_Inl [OF assms Inl] nxt
      by (auto simp: append_spec_def split: if_splits)
  next
    case (Inr r)
    then obtain ev w' where a: "Append w b = Inr (ev, w')" by (cases r) auto
    have "last (window_list w') = b" using lbw.app_content [OF assms a] by simp
    with a lbw.app_Inr [OF assms a] nxt show ?thesis
      by (cases "window_list w = []") (auto simp: append_spec_def split: if_splits)
  qed
qed

theorem Append_accepts_exactly_next_witness:
  "Append (NewLedgerBucketWindow 1 \<lparr>buckets := [\<lparr>LedgerSeq = 7, LedgerCloseTimestamp = 0, BucketContent = ()\<rparr>]\<rparr>)
     \<lparr>LedgerSeq = 9, LedgerCloseTimestamp = 0, BucketContent = ()\<rparr> = Inl (NotContiguous 8 9)"
proof -
  let ?w = "NewLedgerBucketWindow 1 \<lparr>buckets := [\<lparr>LedgerSeq = 7, LedgerCloseTimestamp = 0, BucketContent = ()\<rparr>]\<rparr>"
  have "window_ok ?w" by (simp add: window_ok_def NewLedgerBucketWindow_def contiguous_def window_list_def)
  from Append_accepts_exactly_next [OF this, of "\<lparr>LedgerSeq = 9, LedgerCloseTimestamp = 0, BucketContent = ()\<rparr>"]
  show ?thesis by (simp add: window_list_def NewLedgerBucketWindow_def)
qed

end
