(* ===== verification/Fee_Window.thy ===== *)
theory Fee_Window
  imports Bucket_Window
begin

text \<open>
  Fee statistics of the RPC server (\<open>suban-rpc/.../feewindow/feewindow.go\<close>): the sliding window
  of fees per ledger, the distribution computed from it (mode and nearest-rank percentiles), and
  the ingestion of one ledger into the classic and the Soroban window. The transaction reader is
  the SDK's and enters as the list of results its \<open>Read\<close> returns before \<open>io.EOF\<close>.
\<close>

record FeeDistribution =
  fdMax :: u64
  fdMin :: u64
  fdMode :: u64
  P10 :: u64
  P20 :: u64
  P30 :: u64
  P40 :: u64
  P50 :: u64
  P60 :: u64
  P70 :: u64
  P80 :: u64
  P90 :: u64
  P95 :: u64
  P99 :: u64
  FeeCount :: u32
  LedgerCount :: u32

definition zero_distribution :: FeeDistribution where
  "zero_distribution = \<lparr>fdMax = 0, fdMin = 0, fdMode = 0, P10 = 0, P20 = 0, P30 = 0, P40 = 0,
     P50 = 0, P60 = 0, P70 = 0, P80 = 0, P90 = 0, P95 = 0, P99 = 0, FeeCount = 0, LedgerCount = 0\<rparr>"

record FeeWindow =
  feesPerLedger :: "u64 list LedgerBucketWindow"
  distribution :: FeeDistribution

definition NewFeeWindow :: "u32 \<Rightarrow> FeeWindow" where
  "NewFeeWindow retentionWindow =
     \<lparr>feesPerLedger = NewLedgerBucketWindow retentionWindow, distribution = zero_distribution\<rparr>"

subsection \<open>The distribution\<close>

text \<open>
  The loop over the sorted fees: \<open>mode_loop fees mode lastVal maxRepetitions localRepetitions\<close>
  consumes \<open>fees[1:]\<close> and returns the mode so far with the two counters.
\<close>

fun mode_loop :: "u64 list \<Rightarrow> u64 \<Rightarrow> u64 \<Rightarrow> nat \<Rightarrow> nat \<Rightarrow> u64 \<times> nat \<times> nat" where
  "mode_loop [] mode lastVal maxReps localReps = (mode, maxReps, localReps)"
| "mode_loop (f # fs) mode lastVal maxReps localReps =
     (if f = lastVal then mode_loop fs mode lastVal maxReps (Suc localReps)
      else if localReps > maxReps then mode_loop fs lastVal f localReps 0
      else mode_loop fs mode f maxReps 0)"

definition fee_mode :: "u64 list \<Rightarrow> u64" where
  "fee_mode fees =
     (let (mode, maxReps, localReps) = mode_loop (tl fees) (hd fees) (hd fees) 0 0
      in if localReps > maxReps then last fees else mode)"

definition percentile :: "u64 list \<Rightarrow> u64 \<Rightarrow> window_error + u64" where
  "percentile fees p =
     (let count = of_nat (length fees);
          kth = (p * count + 100 - 1) div 100
      in if unat (kth - 1) < length fees then Inr (fees ! unat (kth - 1)) else Inl IndexPanic)"

fun percentiles :: "u64 list \<Rightarrow> u64 list \<Rightarrow> window_error + u64 list" where
  "percentiles fees [] = Inr []"
| "percentiles fees (p # ps) =
     (case percentile fees p of
        Inl e \<Rightarrow> Inl e
      | Inr v \<Rightarrow> (case percentiles fees ps of Inl e \<Rightarrow> Inl e | Inr vs \<Rightarrow> Inr (v # vs)))"

definition computeFeeDistribution :: "u64 list \<Rightarrow> u32 \<Rightarrow> window_error + FeeDistribution" where
  "computeFeeDistribution unsortedFees ledgerCount =
     (if unsortedFees = [] then Inr zero_distribution
      else let fees = sort unsortedFees in
        case percentiles fees [10, 20, 30, 40, 50, 60, 70, 80, 90, 95, 99] of
          Inl e \<Rightarrow> Inl e
        | Inr vs \<Rightarrow> Inr
            \<lparr>fdMax = last fees, fdMin = hd fees, fdMode = fee_mode fees,
             P10 = vs ! 0, P20 = vs ! 1, P30 = vs ! 2, P40 = vs ! 3, P50 = vs ! 4, P60 = vs ! 5,
             P70 = vs ! 6, P80 = vs ! 7, P90 = vs ! 8, P95 = vs ! 9, P99 = vs ! 10,
             FeeCount = of_nat (length fees), LedgerCount = ledgerCount\<rparr>)"

fun collectFees :: "u64 list LedgerBucketWindow \<Rightarrow> nat list \<Rightarrow> window_error + u64 list" where
  "collectFees w [] = Inr []"
| "collectFees w (i # is) =
     (case Get w (of_nat i) of
        Inl e \<Rightarrow> Inl e
      | Inr b \<Rightarrow> (case collectFees w is of Inl e \<Rightarrow> Inl e | Inr fs \<Rightarrow> Inr (BucketContent b @ fs)))"

definition AppendLedgerFees :: "FeeWindow \<Rightarrow> u64 list LedgerBucket \<Rightarrow> window_error + FeeWindow" where
  "AppendLedgerFees fw fees =
     (case Append (feesPerLedger fw) fees of
        Inl e \<Rightarrow> Inl e
      | Inr (_, w) \<Rightarrow>
          (case collectFees w [0..<unat (Len w)] of
             Inl e \<Rightarrow> Inl e
           | Inr allFees \<Rightarrow>
               (case computeFeeDistribution allFees (Len w) of
                  Inl e \<Rightarrow> Inl e
                | Inr d \<Rightarrow> Inr \<lparr>feesPerLedger = w, distribution = d\<rparr>)))"

definition FeeWindow_Reset :: "FeeWindow \<Rightarrow> FeeWindow" where
  "FeeWindow_Reset fw = \<lparr>feesPerLedger = Reset (feesPerLedger fw), distribution = zero_distribution\<rparr>"

definition GetFeeDistribution :: "FeeWindow \<Rightarrow> FeeDistribution" where
  "GetFeeDistribution fw = distribution fw"

subsection \<open>Ingestion of one ledger\<close>

datatype OperationType = InvokeHostFunction | ExtendFootprintTtl | RestoreFootprint | OtherOperation

record SorobanTransactionMeta =
  ExtV :: nat
  TotalNonRefundableResourceFeeCharged :: i64
  TotalRefundableResourceFeeCharged :: i64

datatype TransactionMeta =
    MetaV3 "SorobanTransactionMeta option"
  | MetaV4 "SorobanTransactionMeta option"
  | MetaOther

record LedgerTransaction =
  FeeCharged :: i64
  Operations :: "OperationType list"
  UnsafeMeta :: TransactionMeta

datatype fee_error =
    ReaderError string
  | NegativeValue string
  | AppendError window_error
  | RollbackError string

definition int64ToUint64 :: "i64 \<Rightarrow> string \<Rightarrow> fee_error + u64" where
  "int64ToUint64 value fieldName = (if sint value < 0 then Inl (NegativeValue fieldName) else Inr value)"

text \<open>
  One iteration of the loop over the transactions of a ledger: skipped, a Soroban inclusion fee
  or a classic fee per operation. Subtraction and division are those of \<open>uint64\<close>.
\<close>

datatype tx_fee = SkipTx | SorobanFee u64 | ClassicFee u64

definition soroban_fee :: "u64 \<Rightarrow> SorobanTransactionMeta option \<Rightarrow> fee_error + tx_fee" where
  "soroban_fee feeCharged sm =
     (case sm of
        None \<Rightarrow> Inr SkipTx
      | Some m \<Rightarrow>
          if ExtV m \<noteq> 1 then Inr SkipTx
          else (case int64ToUint64 (TotalNonRefundableResourceFeeCharged m
                                     + TotalRefundableResourceFeeCharged m) ''resource fee charged'' of
                  Inl e \<Rightarrow> Inl e
                | Inr resourceFeeCharged \<Rightarrow> Inr (SorobanFee (feeCharged - resourceFeeCharged))))"

definition txFee :: "LedgerTransaction \<Rightarrow> fee_error + tx_fee" where
  "txFee tx =
     (case int64ToUint64 (FeeCharged tx) ''fee charged'' of
        Inl e \<Rightarrow> Inl e
      | Inr feeCharged \<Rightarrow>
          (let ops = Operations tx in
           if ops = [] then Inr SkipTx
           else if length ops = 1 \<and> hd ops \<noteq> OtherOperation
           then (case UnsafeMeta tx of
                   MetaV3 sm \<Rightarrow> soroban_fee feeCharged sm
                 | MetaV4 sm \<Rightarrow> soroban_fee feeCharged sm
                 | MetaOther \<Rightarrow> Inr SkipTx)
           else Inr (ClassicFee (feeCharged div of_nat (length ops)))))"

fun ledgerFees ::
  "(fee_error + LedgerTransaction) list \<Rightarrow> u64 list \<Rightarrow> u64 list \<Rightarrow> fee_error + (u64 list \<times> u64 list)" where
  "ledgerFees [] sorobanInclusionFees classicFees = Inr (sorobanInclusionFees, classicFees)"
| "ledgerFees (Inl e # rs) sorobanInclusionFees classicFees = Inl e"
| "ledgerFees (Inr tx # rs) sorobanInclusionFees classicFees =
     (case txFee tx of
        Inl e \<Rightarrow> Inl e
      | Inr SkipTx \<Rightarrow> ledgerFees rs sorobanInclusionFees classicFees
      | Inr (SorobanFee f) \<Rightarrow> ledgerFees rs (sorobanInclusionFees @ [f]) classicFees
      | Inr (ClassicFee f) \<Rightarrow> ledgerFees rs sorobanInclusionFees (classicFees @ [f]))"

text \<open>
  The pair of windows. \<open>rollbacks\<close> counts the calls to \<open>db.Rollback\<close>, whose own error, if any, is
  joined to the error returned.
\<close>

record FeeWindows =
  SorobanInclusionFeeWindow :: FeeWindow
  ClassicFeeWindow :: FeeWindow
  rollbacks :: nat
  rollbackErr :: "string option"

definition NewFeeWindows :: "u32 \<Rightarrow> u32 \<Rightarrow> string option \<Rightarrow> FeeWindows" where
  "NewFeeWindows classicRetention sorobanRetention rbErr =
     \<lparr>SorobanInclusionFeeWindow = NewFeeWindow sorobanRetention,
      ClassicFeeWindow = NewFeeWindow classicRetention, rollbacks = 0, rollbackErr = rbErr\<rparr>"

definition joinRollback :: "fee_error \<Rightarrow> FeeWindows \<Rightarrow> (fee_error list + unit) \<times> FeeWindows" where
  "joinRollback e fw =
     (Inl (e # (case rollbackErr fw of None \<Rightarrow> [] | Some m \<Rightarrow> [RollbackError m])),
      fw\<lparr>rollbacks := Suc (rollbacks fw)\<rparr>)"

record LedgerCloseMeta =
  LedgerSequence :: u32
  LedgerCloseTime :: i64

definition IngestFees ::
  "fee_error + (fee_error + LedgerTransaction) list \<Rightarrow> LedgerCloseMeta \<Rightarrow> FeeWindows \<Rightarrow>
     (fee_error list + unit) \<times> FeeWindows" where
  "IngestFees reader meta fw =
     (case reader of
        Inl e \<Rightarrow> joinRollback e fw
      | Inr txs \<Rightarrow>
          (case ledgerFees txs [] [] of
             Inl e \<Rightarrow> joinRollback e fw
           | Inr (sorobanInclusionFees, classicFees) \<Rightarrow>
               (let bucket = \<lparr>LedgerSeq = LedgerSequence meta,
                              LedgerCloseTimestamp = LedgerCloseTime meta,
                              BucketContent = classicFees\<rparr> in
                case AppendLedgerFees (ClassicFeeWindow fw) bucket of
                  Inl e \<Rightarrow> joinRollback (AppendError e) fw
                | Inr cw \<Rightarrow>
                    (let fw1 = fw\<lparr>ClassicFeeWindow := cw\<rparr> in
                     case AppendLedgerFees (SorobanInclusionFeeWindow fw1)
                            (bucket\<lparr>BucketContent := sorobanInclusionFees\<rparr>) of
                       Inl e \<Rightarrow> joinRollback (AppendError e) fw1
                     | Inr sw \<Rightarrow> (Inr (), fw1\<lparr>SorobanInclusionFeeWindow := sw\<rparr>)))))"

definition FeeWindows_Reset :: "FeeWindows \<Rightarrow> FeeWindows" where
  "FeeWindows_Reset fw =
     fw\<lparr>SorobanInclusionFeeWindow := FeeWindow_Reset (SorobanInclusionFeeWindow fw),
        ClassicFeeWindow := FeeWindow_Reset (ClassicFeeWindow fw)\<rparr>"

subsection \<open>Correctness of the mode\<close>

text \<open>
  The loop invariant: with \<open>done\<close> the fees already read (all at most \<open>lastVal\<close>, which occurs
  \<open>localReps + 1\<close> times), \<open>mode\<close> is the least most frequent value of the fees before the current
  cluster, and occurs \<open>maxReps + 1\<close> times there, unless the current cluster is the first one.
\<close>

definition mode_of :: "'a::linorder list \<Rightarrow> 'a \<Rightarrow> bool" where
  "mode_of xs m \<longleftrightarrow> m \<in> set xs \<and>
     (\<forall>v \<in> set xs. count_list xs v \<le> count_list xs m \<and>
                   (count_list xs v = count_list xs m \<longrightarrow> m \<le> v))"

definition mode_inv :: "u64 list \<Rightarrow> u64 \<Rightarrow> u64 \<Rightarrow> nat \<Rightarrow> nat \<Rightarrow> bool" where
  "mode_inv ds mode lastVal maxReps localReps \<longleftrightarrow>
     (\<forall>x \<in> set ds. x \<le> lastVal) \<and> count_list ds lastVal = Suc localReps \<and>
     (if mode = lastVal then maxReps = 0 \<and> (\<forall>x \<in> set ds. x = lastVal)
      else mode < lastVal \<and> count_list ds mode = Suc maxReps \<and>
           (\<forall>v \<in> set ds. v \<noteq> lastVal \<longrightarrow> count_list ds v \<le> Suc maxReps \<and>
                          (count_list ds v = Suc maxReps \<longrightarrow> mode \<le> v)))"

lemma count_list_snoc [simp]: "count_list (xs @ [x]) y = count_list xs y + (if x = y then 1 else 0)"
  by (induction xs) auto

lemma mode_inv_same:
  "mode_inv ds mode l mx lr \<Longrightarrow> mode_inv (ds @ [l]) mode l mx (Suc lr)"
  by (auto simp: mode_inv_def)

lemma mode_inv_new:
  assumes "mode_inv ds mode l mx lr" and "l < f"
  shows "mode_inv (ds @ [f]) (if lr > mx then l else mode) f (if lr > mx then lr else mx) 0"
proof -
  have nf: "count_list ds f = 0"
    using assms by (metis count_notin leD mode_inv_def)
  show ?thesis
  proof (cases "mode = l")
    case True
    with assms nf show ?thesis by (auto simp: mode_inv_def split: if_splits)
  next
    case False
    with assms nf show ?thesis by (fastforce simp: mode_inv_def split: if_splits)
  qed
qed

lemma mode_loop_inv:
  assumes "mode_inv ds mode l mx lr" and "sorted (l # fs)"
    and "mode_loop fs mode l mx lr = (mode', mx', lr')"
  shows "mode_inv (ds @ fs) mode' (last (l # fs)) mx' lr'"
  using assms
proof (induction fs mode l mx lr arbitrary: ds rule: mode_loop.induct)
  case (2 f fs mode l mx lr)
  show ?case
  proof (cases "f = l")
    case True
    with "2.IH"(1) [OF True mode_inv_same [OF "2.prems"(1)]] "2.prems" show ?thesis by simp
  next
    case False
    with "2.prems"(2) have "l < f" by auto
    note n = mode_inv_new [OF "2.prems"(1) this]
    show ?thesis
    proof (cases "lr > mx")
      case True
      with "2.IH"(2) [OF False True, of "ds @ [f]"] n "2.prems" False show ?thesis by simp
    next
      case nT: False
      with "2.IH"(3) [OF False nT, of "ds @ [f]"] n "2.prems" False show ?thesis by simp
    qed
  qed
qed simp

lemma mode_inv_result:
  assumes "mode_inv ds mode l mx lr" and "l \<in> set ds"
  shows "mode_of ds (if lr > mx then l else mode)"
proof (cases "mode = l")
  case True
  with assms(1) have "\<forall>x \<in> set ds. x = l" by (metis mode_inv_def)
  with True assms(2) show ?thesis unfolding mode_of_def by (metis order_refl)
next
  case False
  have "mode \<in> set ds" using assms(1) False by (metis Zero_not_Suc count_list_0_iff mode_inv_def)
  then show ?thesis
    using assms False by (fastforce simp: mode_inv_def mode_of_def)
qed

lemma fee_mode_correct:
  assumes "fees \<noteq> []" and "sorted fees"
  shows "mode_of fees (fee_mode fees)"
proof -
  obtain x xs where f: "fees = x # xs" using assms(1) by (cases fees) auto
  obtain m mx lr where r: "mode_loop xs x x 0 0 = (m, mx, lr)" by (metis prod_cases3)
  have "mode_inv [x] x x 0 0" by (simp add: mode_inv_def)
  from mode_loop_inv [OF this _ r] assms(2) f have "mode_inv fees m (last fees) mx lr" by simp
  from mode_inv_result [OF this last_in_set [OF assms(1)]]
  have "mode_of fees (if mx < lr then last fees else m)" .
  moreover have "fee_mode fees = (if mx < lr then last fees else m)"
    using r f by (simp add: fee_mode_def)
  ultimately show ?thesis by (simp only:)
qed

lemma mode_of_mset:
  assumes "mset xs = mset ys" shows "mode_of xs m = mode_of ys m"
proof -
  have "count_list xs = count_list ys" using assms by (metis count_mset ext)
  moreover have "set xs = set ys" using assms by (rule mset_eq_setD)
  ultimately show ?thesis by (simp add: mode_of_def)
qed

subsection \<open>Correctness of the percentiles\<close>

text \<open>
  The nearest-rank percentile: \<open>v\<close> is a fee, at least \<open>p\<close> percent of the fees are at most \<open>v\<close>,
  and fewer than \<open>p\<close> percent are below it.
\<close>

definition percentile_of :: "nat \<Rightarrow> 'a::linorder list \<Rightarrow> 'a \<Rightarrow> bool" where
  "percentile_of p xs v \<longleftrightarrow> v \<in> set xs \<and>
     p * length xs \<le> 100 * length (filter (\<lambda>x. x \<le> v) xs) \<and>
     100 * length (filter (\<lambda>x. x < v) xs) < p * length xs"

lemma sorted_rank_le:
  assumes "sorted xs" and "k < length xs"
  shows "Suc k \<le> length (filter (\<lambda>x. x \<le> xs ! k) xs)"
proof -
  have "\<forall>x \<in> set (take (Suc k) xs). x \<le> xs ! k"
    using assms by (auto simp: in_set_conv_nth sorted_iff_nth_mono)
  then have "filter (\<lambda>x. x \<le> xs ! k) (take (Suc k) xs) = take (Suc k) xs" by simp
  then have "length (filter (\<lambda>x. x \<le> xs ! k) (take (Suc k) xs @ drop (Suc k) xs)) \<ge> Suc k"
    using assms(2) by (simp only: filter_append length_append length_take)
  then show ?thesis by simp
qed

lemma sorted_rank_less:
  assumes "sorted xs" and "k < length xs"
  shows "length (filter (\<lambda>x. x < xs ! k) xs) \<le> k"
proof -
  have "\<forall>x \<in> set (drop k xs). \<not> x < xs ! k"
    using assms by (auto simp: in_set_conv_nth not_less intro!: sorted_nth_mono)
  then have "filter (\<lambda>x. x < xs ! k) (drop k xs) = []" by (simp add: filter_empty_conv)
  then have "filter (\<lambda>x. x < xs ! k) (take k xs @ drop k xs) = filter (\<lambda>x. x < xs ! k) (take k xs)"
    by (simp only: filter_append append_Nil2)
  then have "length (filter (\<lambda>x. x < xs ! k) xs) \<le> length (take k xs)"
    by (metis append_take_drop_id length_filter_le)
  then show ?thesis by simp
qed

lemma nearest_rank:
  assumes "0 < p" and "p \<le> (100::nat)" and "0 < n"
  defines "k \<equiv> (p * n + 100 - 1) div 100"
  shows "0 < k" and "k \<le> n" and "p * n \<le> 100 * k" and "100 * (k - 1) < p * n"
proof -
  have pos: "0 < p * n" using assms by simp
  have le: "p * n \<le> 100 * n" using assms(2) by simp
  show "0 < k" and "k \<le> n" and "p * n \<le> 100 * k" and "100 * (k - 1) < p * n"
    using pos le unfolding k_def by linarith+
qed

lemma percentile_correct:
  fixes fees :: "u64 list" and p :: u64
  assumes "sorted fees" and "fees \<noteq> []" and "length fees < 2 ^ 57" and "0 < p" and "p \<le> 99"
  shows "\<exists>v. percentile fees p = Inr v \<and> percentile_of (unat p) fees v"
proof -
  let ?n = "length fees"
  have p: "0 < unat p" "unat p \<le> 99"
    using assms(4,5) by (simp_all add: word_less_nat_alt word_le_nat_alt)
  let ?k = "(unat p * ?n + 100 - 1) div 100"
  note r = nearest_rank [of "unat p" ?n]
  have n: "unat (of_nat ?n :: u64) = ?n" using assms(3) by (simp add: unat_of_nat)
  have b1: "unat p * ?n < 99 * 2 ^ 57" using p assms(3) by (meson le_less_trans mult_le_mono1 mult_less_mono2 zero_less_numeral)
  then have "unat (p * of_nat ?n) = unat p * ?n" by (simp add: unat_word_ariths n)
  moreover have "unat (p * of_nat ?n + 100 - 1) = unat (p * of_nat ?n) + 99"
  proof -
    have "p * of_nat ?n + 100 - 1 = p * of_nat ?n + 99" by simp
    then show ?thesis using b1 calculation by (simp add: unat_word_ariths)
  qed
  ultimately have k: "unat ((p * of_nat ?n + 100 - 1) div 100) = ?k" by (simp add: unat_div)
  have k1: "0 < ?k" "?k \<le> ?n" and lo: "unat p * ?n \<le> 100 * ?k" and hi: "100 * (?k - 1) < unat p * ?n"
    using r p assms(2) by simp_all
  have "unat ((p * of_nat ?n + 100 - 1) div 100 - 1) = ?k - 1"
    using k k1(1) by (simp add: unat_sub word_le_nat_alt)
  then have "percentile fees p = Inr (fees ! (?k - 1))"
    using k1 by (simp add: percentile_def Let_def)
  moreover have "percentile_of (unat p) fees (fees ! (?k - 1))"
    using sorted_rank_le [OF assms(1), of "?k - 1"] sorted_rank_less [OF assms(1), of "?k - 1"] k1 lo hi
    by (auto simp: percentile_of_def)
  ultimately show ?thesis by blast
qed

lemma percentile_of_mset: "mset xs = mset ys \<Longrightarrow> percentile_of p xs v = percentile_of p ys v"
  by (auto simp: percentile_of_def dest: mset_eq_setD mset_eq_length)
    (metis mset_filter size_mset)+

lemma percentiles_correct:
  fixes fees :: "u64 list"
  assumes "sorted fees" and "fees \<noteq> []" and "length fees < 2 ^ 57"
    and "\<forall>p \<in> set ps. 0 < p \<and> p \<le> 99"
  shows "\<exists>vs. percentiles fees ps = Inr vs \<and> list_all2 (\<lambda>p v. percentile_of (unat p) fees v) ps vs"
  using assms(4)
proof (induction ps)
  case (Cons p ps)
  then obtain vs where "percentiles fees ps = Inr vs"
    and "list_all2 (\<lambda>p v. percentile_of (unat p) fees v) ps vs" by auto
  moreover obtain v where "percentile fees p = Inr v" and "percentile_of (unat p) fees v"
    using percentile_correct [OF assms(1-3), of p] Cons.prems by auto
  ultimately show ?case by simp
qed simp

text \<open>What a distribution of the given fees over the given number of ledgers has to satisfy.\<close>

definition distribution_of :: "u64 list \<Rightarrow> u32 \<Rightarrow> FeeDistribution \<Rightarrow> bool" where
  "distribution_of fees n d \<longleftrightarrow>
     (if fees = [] then d = zero_distribution
      else fdMax d = Max (set fees) \<and> fdMin d = Min (set fees) \<and> mode_of fees (fdMode d) \<and>
        percentile_of 10 fees (P10 d) \<and> percentile_of 20 fees (P20 d) \<and>
        percentile_of 30 fees (P30 d) \<and> percentile_of 40 fees (P40 d) \<and>
        percentile_of 50 fees (P50 d) \<and> percentile_of 60 fees (P60 d) \<and>
        percentile_of 70 fees (P70 d) \<and> percentile_of 80 fees (P80 d) \<and>
        percentile_of 90 fees (P90 d) \<and> percentile_of 95 fees (P95 d) \<and>
        percentile_of 99 fees (P99 d) \<and>
        FeeCount d = of_nat (length fees) \<and> LedgerCount d = n)"

lemma sorted_hd_last:
  fixes ys :: "'a::linorder list"
  assumes "sorted ys" and "ys \<noteq> []"
  shows "last ys = Max (set ys)" and "hd ys = Min (set ys)"
proof -
  have "\<forall>y \<in> set ys. y \<le> last ys \<and> hd ys \<le> y"
    using assms by (auto simp: in_set_conv_nth last_conv_nth hd_conv_nth sorted_iff_nth_mono)
  with assms(2) show "last ys = Max (set ys)" and "hd ys = Min (set ys)"
    by (auto intro: Max_eqI [symmetric] Min_eqI [symmetric])
qed

lemma sort_hd_last:
  fixes xs :: "'a::linorder list"
  assumes "xs \<noteq> []"
  shows "last (sort xs) = Max (set xs)" and "hd (sort xs) = Min (set xs)"
  using sorted_hd_last [OF sorted_sort, of xs] assms by (metis set_empty set_sort)+

lemma computeFeeDistribution_correct:
  assumes "length fees < 2 ^ 57"
  shows "\<exists>d. computeFeeDistribution fees n = Inr d \<and> distribution_of fees n d"
proof (cases "fees = []")
  case True
  then show ?thesis by (simp add: computeFeeDistribution_def distribution_of_def)
next
  case False
  let ?ps = "[10, 20, 30, 40, 50, 60, 70, 80, 90, 95, 99] :: u64 list"
  have ne: "sort fees \<noteq> []" using False by (metis set_empty set_sort)
  obtain vs where vs: "percentiles (sort fees) ?ps = Inr vs"
    and all2: "list_all2 (\<lambda>p v. percentile_of (unat p) (sort fees) v) ?ps vs"
    using percentiles_correct [of "sort fees" ?ps] ne assms by auto
  have pm: "percentile_of p (sort fees) v = percentile_of p fees v" for p v
    by (rule percentile_of_mset) simp
  have mm: "mode_of fees (fee_mode (sort fees))"
    using fee_mode_correct [OF ne sorted_sort] mode_of_mset [of "sort fees" fees] by simp
  from all2 obtain v0 v1 v2 v3 v4 v5 v6 v7 v8 v9 v10
    where "vs = [v0, v1, v2, v3, v4, v5, v6, v7, v8, v9, v10]"
    by (auto simp: list_all2_Cons1)
  with vs all2 False mm show ?thesis
    by (simp add: computeFeeDistribution_def distribution_of_def Let_def pm sort_hd_last)
qed

subsection \<open>The window and its distribution\<close>

definition window_fees :: "FeeWindow \<Rightarrow> u64 list" where
  "window_fees fw = concat (map BucketContent (window_list (feesPerLedger fw)))"

lemma collectFees_content:
  assumes "window_ok w" and "\<forall>i \<in> set is. i < length (window_list w)"
  shows "collectFees w is = Inr (concat (map (\<lambda>i. BucketContent (window_list w ! i)) is))"
  using assms(2)
proof (induction "is")
  case (Cons i "is")
  have len: "unat (Len w) = length (window_list w)" by (rule lbw.len_content [OF assms(1)])
  have "length (window_list w) < 2 ^ 32" using bcap_bound [OF assms(1)] by simp
  then have "unat (of_nat i :: u32) = i" using Cons.prems by (simp add: unat_of_nat)
  then have "Get w (of_nat i) = Inr (window_list w ! i)"
    using lbw.get_content [OF assms(1), of "of_nat i"] len Cons.prems by (simp add: word_less_nat_alt)
  with Cons show ?case by simp
qed simp

lemma collectFees_all:
  assumes "window_ok w"
  shows "collectFees w [0..<unat (Len w)] = Inr (concat (map BucketContent (window_list w)))"
proof -
  have "map (\<lambda>i. BucketContent (window_list w ! i)) [0..<length (window_list w)]
      = map BucketContent (window_list w)"
    by (rule nth_equalityI) simp_all
  then show ?thesis
    using collectFees_content [OF assms, of "[0..<unat (Len w)]"] lbw.len_content [OF assms] by simp
qed

lemma AppendLedgerFees_Inr:
  assumes ok: "window_ok (feesPerLedger fw)"
    and acc: "window_list (feesPerLedger fw) = [] \<or>
         LedgerSeq b = LedgerSeq (hd (window_list (feesPerLedger fw)))
                       + of_nat (length (window_list (feesPerLedger fw)))"
    and bnd: "length (window_fees fw) + length (BucketContent b) < 2 ^ 57"
  shows "\<exists>fw'. AppendLedgerFees fw b = Inr fw' \<and> window_ok (feesPerLedger fw') \<and>
      bcap (feesPerLedger fw') = bcap (feesPerLedger fw) \<and>
      window_list (feesPerLedger fw') =
        (if length (window_list (feesPerLedger fw)) < bcap (feesPerLedger fw)
         then window_list (feesPerLedger fw) @ [b] else tl (window_list (feesPerLedger fw)) @ [b]) \<and>
      distribution_of (window_fees fw') (Len (feesPerLedger fw')) (GetFeeDistribution fw')"
proof -
  obtain ev w where a: "Append (feesPerLedger fw) b = Inr (ev, w)"
    using lbw.app_succeeds_iff [OF ok] acc by blast
  note w = lbw.app_Inr [OF ok a] lbw.app_content [OF ok a]
  have le: "length (concat (map BucketContent (tl xs))) \<le> length (concat (map BucketContent xs))"
    for xs :: "u64 list LedgerBucket list" by (cases xs) auto
  have "length (concat (map BucketContent (window_list w))) < 2 ^ 57"
    using bnd le [of "window_list (feesPerLedger fw)"] w(4) by (auto simp: window_fees_def)
  from computeFeeDistribution_correct [OF this, of "Len w"] obtain d
    where d: "computeFeeDistribution (concat (map BucketContent (window_list w))) (Len w) = Inr d"
      and dd: "distribution_of (concat (map BucketContent (window_list w))) (Len w) d" by blast
  have "AppendLedgerFees fw b = Inr \<lparr>feesPerLedger = w, distribution = d\<rparr>"
    using a d collectFees_all [OF w(1)] by (simp add: AppendLedgerFees_def)
  with w dd show ?thesis by (simp add: window_fees_def GetFeeDistribution_def)
qed

text \<open>
  C30. The fee statistics served by the RPC are those of the retained ledgers: appending the next
  ledger to a fee window succeeds, evicts the oldest ledger exactly when the window is full, and
  the stored distribution then has the minimum, the maximum, the least most frequent value and the
  nearest-rank percentiles of all fees of the window (fewer than \<open>2\<^sup>5\<^sup>7\<close> of them, so that
  \<open>p * count\<close> does not wrap).
\<close>

theorem AppendLedgerFees_distribution:
  assumes "window_ok (feesPerLedger fw)"
    and "window_list (feesPerLedger fw) = [] \<or>
         LedgerSeq b = LedgerSeq (last (window_list (feesPerLedger fw))) + 1"
    and "length (window_fees fw) + length (BucketContent b) < 2 ^ 57"
  shows "\<exists>fw'. AppendLedgerFees fw b = Inr fw' \<and> window_ok (feesPerLedger fw') \<and>
      window_list (feesPerLedger fw') =
        (if length (window_list (feesPerLedger fw)) < bcap (feesPerLedger fw)
         then window_list (feesPerLedger fw) @ [b] else tl (window_list (feesPerLedger fw)) @ [b]) \<and>
      distribution_of (window_fees fw') (Len (feesPerLedger fw')) (GetFeeDistribution fw')"
  using AppendLedgerFees_Inr [OF assms(1) _ assms(3)] assms(2)
    contiguous_last [OF lbw.content_contiguous [OF assms(1)]] by fastforce

lemma New_window_facts:
  assumes "0 < r" and "unat r \<le> 2 ^ 31"
  shows "window_ok (feesPerLedger (NewFeeWindow r))"
    and "window_list (feesPerLedger (NewFeeWindow r)) = []" and "window_fees (NewFeeWindow r) = []"
  using window_ok_New [OF assms]
  by (simp_all add: NewFeeWindow_def window_fees_def window_list_def NewLedgerBucketWindow_def)

theorem AppendLedgerFees_distribution_witness:
  "\<exists>fw'. AppendLedgerFees (NewFeeWindow 5)
      \<lparr>LedgerSeq = 3, LedgerCloseTimestamp = 0, BucketContent = [100, 200, 100]\<rparr> = Inr fw' \<and>
    distribution_of [100, 200, 100] (Len (feesPerLedger fw')) (GetFeeDistribution fw')"
proof -
  let ?b = "\<lparr>LedgerSeq = 3, LedgerCloseTimestamp = 0, BucketContent = [100, 200, 100 :: u64]\<rparr>"
  have p: "0 < (5 :: u32)" "unat (5 :: u32) \<le> 2 ^ 31" by simp_all
  note n = New_window_facts [OF p]
  obtain fw' where "AppendLedgerFees (NewFeeWindow 5) ?b = Inr fw'"
    and "window_list (feesPerLedger fw') = [?b]"
    and d: "distribution_of (window_fees fw') (Len (feesPerLedger fw')) (GetFeeDistribution fw')"
    using AppendLedgerFees_distribution [OF n(1), of ?b] n(2,3) by (auto split: if_splits)
  moreover from this(2) have "window_fees fw' = [100, 200, 100]" by (simp add: window_fees_def)
  ultimately show ?thesis by auto
qed

subsection \<open>The two windows stay in step\<close>

definition windows_synced :: "FeeWindows \<Rightarrow> bool" where
  "windows_synced fw \<longleftrightarrow>
     (let c = feesPerLedger (ClassicFeeWindow fw); s = feesPerLedger (SorobanInclusionFeeWindow fw) in
      window_ok c \<and> window_ok s \<and> (window_list c = [] \<longleftrightarrow> window_list s = []) \<and>
      (window_list c \<noteq> [] \<longrightarrow> LedgerSeq (last (window_list c)) = LedgerSeq (last (window_list s))))"

text \<open>The fees of a ledger, read off its transactions without the loop's accumulators.\<close>

definition classic_fees :: "LedgerTransaction list \<Rightarrow> u64 list" where
  "classic_fees txs = [f. Inr (ClassicFee f) \<leftarrow> map txFee txs]"

definition soroban_fees :: "LedgerTransaction list \<Rightarrow> u64 list" where
  "soroban_fees txs = [f. Inr (SorobanFee f) \<leftarrow> map txFee txs]"

lemma ledgerFees_Inr:
  assumes "ledgerFees rs s c = Inr (s', c')"
  shows "\<exists>txs. rs = map Inr txs \<and> s' = s @ soroban_fees txs \<and> c' = c @ classic_fees txs"
  using assms
proof (induction rs s c rule: ledgerFees.induct)
  case (3 tx rs s c)
  obtain r where r: "txFee tx = Inr r" using "3.prems" by (auto split: sum.splits)
  have "\<exists>txs. rs = map Inr txs \<and>
      s' = s @ (case r of SorobanFee f \<Rightarrow> [f] | _ \<Rightarrow> []) @ soroban_fees txs \<and>
      c' = c @ (case r of ClassicFee f \<Rightarrow> [f] | _ \<Rightarrow> []) @ classic_fees txs"
    using "3.IH" "3.prems" r by (cases r) auto
  then obtain txs where "rs = map Inr txs"
      and "s' = s @ (case r of SorobanFee f \<Rightarrow> [f] | _ \<Rightarrow> []) @ soroban_fees txs"
      and "c' = c @ (case r of ClassicFee f \<Rightarrow> [f] | _ \<Rightarrow> []) @ classic_fees txs" by blast
  then show ?case using r
    by (intro exI [of _ "tx # txs"]) (auto simp: soroban_fees_def classic_fees_def split: tx_fee.splits)
qed (auto simp: soroban_fees_def classic_fees_def)

lemma fees_length:
  "length (classic_fees txs) \<le> length txs" "length (soroban_fees txs) \<le> length txs"
  unfolding classic_fees_def soroban_fees_def
  by (induction txs) (auto split: sum.splits tx_fee.splits)

lemma AppendLedgerFees_next:
  assumes ok: "window_ok (feesPerLedger fw)"
    and "length (window_fees fw) + length (BucketContent b) < 2 ^ 57"
  shows "window_list (feesPerLedger fw) = [] \<or>
           LedgerSeq b = LedgerSeq (last (window_list (feesPerLedger fw))) + 1 \<Longrightarrow>
         \<exists>fw'. AppendLedgerFees fw b = Inr fw' \<and> window_ok (feesPerLedger fw') \<and>
               window_list (feesPerLedger fw') \<noteq> [] \<and> last (window_list (feesPerLedger fw')) = b"
    and "\<not> (window_list (feesPerLedger fw) = [] \<or>
            LedgerSeq b = LedgerSeq (last (window_list (feesPerLedger fw))) + 1) \<Longrightarrow>
         \<exists>e. AppendLedgerFees fw b = Inl e"
proof -
  note nxt = contiguous_last [OF lbw.content_contiguous [OF ok]]
  assume a: "window_list (feesPerLedger fw) = [] \<or>
      LedgerSeq b = LedgerSeq (last (window_list (feesPerLedger fw))) + 1"
  show "\<exists>fw'. AppendLedgerFees fw b = Inr fw' \<and> window_ok (feesPerLedger fw') \<and>
      window_list (feesPerLedger fw') \<noteq> [] \<and> last (window_list (feesPerLedger fw')) = b"
  proof -
    have "window_list (feesPerLedger fw) = [] \<or>
         LedgerSeq b = LedgerSeq (hd (window_list (feesPerLedger fw)))
                       + of_nat (length (window_list (feesPerLedger fw)))" using a nxt by metis
    from AppendLedgerFees_Inr [OF ok this assms(2)] show ?thesis by auto
  qed
next
  note nxt = contiguous_last [OF lbw.content_contiguous [OF ok]]
  assume n: "\<not> (window_list (feesPerLedger fw) = [] \<or>
      LedgerSeq b = LedgerSeq (last (window_list (feesPerLedger fw))) + 1)"
  then have "\<nexists>ev w'. Append (feesPerLedger fw) b = Inr (ev, w')"
    using lbw.app_succeeds_iff [OF ok, of b] nxt by auto
  then show "\<exists>e. AppendLedgerFees fw b = Inl e"
    by (auto simp: AppendLedgerFees_def split: sum.splits)
qed

text \<open>
  The classic and the Soroban fee window never drift apart, although they may retain different
  numbers of ledgers: ingesting a ledger either advances both windows to it, the newest buckets
  holding exactly the classic and the Soroban fees of its transactions and no rollback happening,
  or fails, rolls the database back once and leaves both windows as they were.
\<close>

theorem IngestFees_keeps_windows_in_step:
  assumes "windows_synced fw"
    and "\<And>txs. reader = Inr txs \<Longrightarrow>
           length (window_fees (ClassicFeeWindow fw)) + length txs < 2 ^ 57 \<and>
           length (window_fees (SorobanInclusionFeeWindow fw)) + length txs < 2 ^ 57"
    and "IngestFees reader meta fw = (r, fw')"
  shows "windows_synced fw' \<and>
    (case r of
       Inl es \<Rightarrow> fw' = fw\<lparr>rollbacks := Suc (rollbacks fw)\<rparr>
     | Inr _ \<Rightarrow> rollbacks fw' = rollbacks fw \<and>
         (\<exists>txs. reader = Inr (map Inr txs) \<and>
           last (window_list (feesPerLedger (ClassicFeeWindow fw'))) =
             \<lparr>LedgerSeq = LedgerSequence meta, LedgerCloseTimestamp = LedgerCloseTime meta,
              BucketContent = classic_fees txs\<rparr> \<and>
           last (window_list (feesPerLedger (SorobanInclusionFeeWindow fw'))) =
             \<lparr>LedgerSeq = LedgerSequence meta, LedgerCloseTimestamp = LedgerCloseTime meta,
              BucketContent = soroban_fees txs\<rparr>))"
proof -
  have sy: "windows_synced (fw\<lparr>rollbacks := n\<rparr>)" for n
    using assms(1) by (simp add: windows_synced_def Let_def)
  show ?thesis
  proof (cases "\<exists>rs s c. reader = Inr rs \<and> ledgerFees rs [] [] = Inr (s, c)")
    case False
    then have "IngestFees reader meta fw = joinRollback e fw" if
        "reader = Inl e \<or> (\<exists>rs. reader = Inr rs \<and> ledgerFees rs [] [] = Inl e)" for e
      using that by (auto simp: IngestFees_def)
    then show ?thesis using False assms(3) sy
      by (cases reader; cases "ledgerFees (projr reader) [] []") (auto simp: joinRollback_def)
  next
    case True
    then obtain rs s c where rd: "reader = Inr rs" and lf: "ledgerFees rs [] [] = Inr (s, c)" by blast
    from ledgerFees_Inr [OF lf] obtain txs
      where txs: "rs = map Inr txs" "s = soroban_fees txs" "c = classic_fees txs" by auto
    let ?bc = "\<lparr>LedgerSeq = LedgerSequence meta, LedgerCloseTimestamp = LedgerCloseTime meta, BucketContent = c\<rparr>"
    let ?bs = "\<lparr>LedgerSeq = LedgerSequence meta, LedgerCloseTimestamp = LedgerCloseTime meta, BucketContent = s\<rparr>"
    have bnd: "length (window_fees (ClassicFeeWindow fw)) + length (BucketContent ?bc) < 2 ^ 57"
      "length (window_fees (SorobanInclusionFeeWindow fw)) + length (BucketContent ?bs) < 2 ^ 57"
      using assms(2) [OF rd] fees_length [of txs] txs by auto
    have oks: "window_ok (feesPerLedger (ClassicFeeWindow fw))"
      "window_ok (feesPerLedger (SorobanInclusionFeeWindow fw))"
      using assms(1) by (simp_all add: windows_synced_def Let_def)
    note nc = AppendLedgerFees_next [OF oks(1) bnd(1)] and ns = AppendLedgerFees_next [OF oks(2) bnd(2)]
    show ?thesis
    proof (cases "window_list (feesPerLedger (ClassicFeeWindow fw)) = [] \<or>
        LedgerSeq ?bc = LedgerSeq (last (window_list (feesPerLedger (ClassicFeeWindow fw)))) + 1")
      case False
      then obtain e where "AppendLedgerFees (ClassicFeeWindow fw) ?bc = Inl e" using nc(2) by blast
      then show ?thesis using assms(3) rd lf sy
        by (auto simp: IngestFees_def joinRollback_def Let_def)
    next
      case t: True
      then obtain cw where cw: "AppendLedgerFees (ClassicFeeWindow fw) ?bc = Inr cw"
        "window_ok (feesPerLedger cw)" "window_list (feesPerLedger cw) \<noteq> []"
        "last (window_list (feesPerLedger cw)) = ?bc" using nc(1) by blast
      have "window_list (feesPerLedger (SorobanInclusionFeeWindow fw)) = [] \<or>
        LedgerSeq ?bs = LedgerSeq (last (window_list (feesPerLedger (SorobanInclusionFeeWindow fw)))) + 1"
        using t assms(1) by (auto simp: windows_synced_def Let_def)
      then obtain sw where sw: "AppendLedgerFees (SorobanInclusionFeeWindow fw) ?bs = Inr sw"
        "window_ok (feesPerLedger sw)" "window_list (feesPerLedger sw) \<noteq> []"
        "last (window_list (feesPerLedger sw)) = ?bs" using ns(1) by blast
      then show ?thesis using assms(3) rd lf cw txs
        by (auto simp: IngestFees_def Let_def windows_synced_def)
    qed
  qed
qed

theorem IngestFees_keeps_windows_in_step_witness:
  "\<exists>fw'. IngestFees (Inr [Inr \<lparr>FeeCharged = 300, Operations = [OtherOperation, OtherOperation],
                                UnsafeMeta = MetaOther\<rparr>])
        \<lparr>LedgerSequence = 9, LedgerCloseTime = 1\<rparr> (NewFeeWindows 3 7 None) = (Inr (), fw') \<and>
    windows_synced fw' \<and>
    BucketContent (last (window_list (feesPerLedger (ClassicFeeWindow fw')))) = [150]"
proof -
  let ?tx = "\<lparr>FeeCharged = 300, Operations = [OtherOperation, OtherOperation], UnsafeMeta = MetaOther\<rparr>"
  let ?fw = "NewFeeWindows 3 7 None" and ?rd = "Inr [Inr ?tx] :: fee_error + (fee_error + LedgerTransaction) list"
  let ?m = "\<lparr>LedgerSequence = 9, LedgerCloseTime = 1\<rparr>"
  have n: "0 < (3 :: u32)" "unat (3 :: u32) \<le> 2 ^ 31" "0 < (7 :: u32)" "unat (7 :: u32) \<le> 2 ^ 31" by simp_all
  note w3 = New_window_facts [OF n(1,2)] and w7 = New_window_facts [OF n(3,4)]
  have sy: "windows_synced ?fw" using w3 w7 by (simp add: windows_synced_def NewFeeWindows_def)
  have fee: "txFee ?tx = Inr (ClassicFee 150)" by (simp add: txFee_def int64ToUint64_def)
  obtain r fw' where i: "IngestFees ?rd ?m ?fw = (r, fw')" by fastforce
  note step = IngestFees_keeps_windows_in_step [OF sy _ i]
  have "AppendLedgerFees (ClassicFeeWindow ?fw) \<lparr>LedgerSeq = 9, LedgerCloseTimestamp = 1, BucketContent = [150]\<rparr> \<noteq> Inl e" for e
    using AppendLedgerFees_next(1) [OF w3(1), of "\<lparr>LedgerSeq = 9, LedgerCloseTimestamp = 1, BucketContent = [150]\<rparr>"]
      w3 by (auto simp: NewFeeWindows_def)
  moreover have "AppendLedgerFees (SorobanInclusionFeeWindow ?fw) \<lparr>LedgerSeq = 9, LedgerCloseTimestamp = 1, BucketContent = []\<rparr> \<noteq> Inl e" for e
    using AppendLedgerFees_next(1) [OF w7(1), of "\<lparr>LedgerSeq = 9, LedgerCloseTimestamp = 1, BucketContent = []\<rparr>"]
      w7 by (auto simp: NewFeeWindows_def)
  ultimately have r: "r = Inr ()" using i fee by (auto simp: IngestFees_def Let_def split: sum.splits)
  have "BucketContent (last (window_list (feesPerLedger (ClassicFeeWindow fw')))) = classic_fees [?tx]"
    and "windows_synced fw'"
    using step w3(3) w7(3) r by (auto simp: NewFeeWindows_def)
  with i r fee show ?thesis by (auto simp: classic_fees_def)
qed

end
