(* ===== verification/Ingest_Db.thy ===== *)
theory Ingest_Db
  imports Prelude
begin

text \<open>
  The services the ingestion system of Horizon works against, and its database session.

  The database (\<open>internal/db2/history\<close>) is the key value store of \<open>key_value.go\<close> together with
  the ledger rows of \<open>history_ledgers\<close> (in table order), the ingestion state tables and the log of
  trade aggregation rebuilds. A session holds the committed contents, the working copy of an open
  transaction and the identifier of the load test the instance runs. The remaining services, the
  ledger backend, the history archive, the change and transaction processors and the TOID
  arithmetic of the SDK, are not code of the repository and enter as the record \<open>env\<close>.

  Every call to a service may fail: \<open>fails env c n\<close> says whether the \<open>n\<close>-th call, of kind \<open>c\<close>,
  returns an error, and all theorems are about every such \<open>env\<close>. A failing write of the processors
  may leave anything in the working copy (\<open>partialWrites\<close>). \<open>mapOrder\<close> is the order in which Go
  iterates over a map at a given moment, any permutation of its keys.
\<close>

record 'd db =
  lastLedger :: u32
  ingestVersion :: int
  stateInvalid :: bool
  loadTest :: "(string \<times> u32) option"
  historyLedgers :: "u32 list"
  stateTables :: 'd
  tradeRebuilds :: "(u32 \<times> u32) list"

datatype svc_call =
    CBegin | CCommit | CGetLastLedgerIngest | CGetLastLedgerIngestNonBlocking | CGetIngestVersion
  | CGetLatestHistoryLedger | CUpdateLastLedgerIngest | CUpdateIngestVersion
  | CUpdateExpStateInvalid | CGetExpStateInvalid | CTruncateIngestStateTables
  | CGetLoadTestRestoreState | CSetLoadTestRestoreState | CClearLoadTestRestoreState
  | CDeleteRangeAll | CElderLedger | CGetNextLedgerSequence | CTryReaperLock
  | CRebuildTradeAggregationBuckets | CGetLedger | CIsPrepared | CPrepareRange
  | CGetLatestLedgerSequence | CArchiveState | CChangeProcessors | CTransactionProcessors
  | CBackendLatest | CRandom | CVerifyState | CReapLockBegin

datatype ingest_error =
    CallFailed svc_call
  | AlreadyInTransaction
  | NotInTransaction
  | DuplicateLedger
  | UnsupportedProtocol u32
  | BadBucketListHash
  | InvalidRange u32 u32
  | ReingestRangeConflict u32
  | LedgerNotPositive
  | LedgerUnavailable u32
  | LoadTestMismatch
  | Message string

record LedgerMeta =
  metaSequence :: u32
  metaProtocolVersion :: u32
  metaBucketListHash :: nat

record 'd env =
  fails :: "svc_call \<Rightarrow> nat \<Rightarrow> bool"
  isPrepared :: "nat \<Rightarrow> bool"
  backendLedger :: "u32 \<Rightarrow> LedgerMeta option"
  backendLatest :: "nat \<Rightarrow> u32"
  latestCheckpoint :: "nat \<Rightarrow> u32"
  applySnapshot :: "u32 \<Rightarrow> 'd \<Rightarrow> 'd"
  archiveBucketListHash :: "u32 \<Rightarrow> nat"
  applyChanges :: "LedgerMeta \<Rightarrow> 'd \<Rightarrow> 'd"
  emptyState :: 'd
  partialWrites :: "nat \<Rightarrow> 'd db \<Rightarrow> 'd db"
  mapOrder :: "nat \<Rightarrow> u32 list \<Rightarrow> u32 list"
  toid :: "u32 \<Rightarrow> int"
  LedgerRangeInclusive :: "u32 \<Rightarrow> u32 \<Rightarrow> (int \<times> int) option"
  randomRunId :: "nat \<Rightarrow> string"
  MaxSupportedProtocolVersion :: u32
  SkipProtocolVersionCheck :: bool
  maxLedgerPerFlush :: nat
  stateVerificationOnLedger :: "u32 \<Rightarrow> bool"
  disableStateVerification :: bool
  reapFrequency :: u32
  ReapLookupTables :: bool

datatype task = VerifyStateTask u32 nat | ReapHistoryTask | ReapLookupTablesTask

record 'd sys =
  committed :: "'d db"
  tx :: "'d db option"
  runId :: string
  clock :: nat
  spawned :: "task list"

definition CurrentVersion :: int where
  "CurrentVersion = 20"

subsection \<open>Calls\<close>

definition current_db :: "'d sys \<Rightarrow> 'd db" where
  "current_db s = (case tx s of Some w \<Rightarrow> w | None \<Rightarrow> committed s)"

definition write_db :: "('d db \<Rightarrow> 'd db) \<Rightarrow> 'd sys \<Rightarrow> 'd sys" where
  "write_db f s = (case tx s of Some w \<Rightarrow> s\<lparr>tx := Some (f w)\<rparr>
                              | None \<Rightarrow> s\<lparr>committed := f (committed s)\<rparr>)"

definition svc ::
  "'d env \<Rightarrow> svc_call \<Rightarrow> (nat \<Rightarrow> 'd sys \<Rightarrow> (ingest_error + 'a) \<times> 'd sys) \<Rightarrow> ('d sys, ingest_error, 'a) call" where
  "svc env c f s =
     (let n = clock s; s1 = s\<lparr>clock := Suc n\<rparr> in
      if fails env c n then (Inl (CallFailed c), s1) else f n s1)"

definition svc_read :: "'d env \<Rightarrow> svc_call \<Rightarrow> ('d db \<Rightarrow> 'a) \<Rightarrow> ('d sys, ingest_error, 'a) call" where
  "svc_read env c f = svc env c (\<lambda>n s. (Inr (f (current_db s)), s))"

definition svc_write :: "'d env \<Rightarrow> svc_call \<Rightarrow> ('d db \<Rightarrow> 'd db) \<Rightarrow> ('d sys, ingest_error, unit) call" where
  "svc_write env c f = svc env c (\<lambda>n s. (Inr (), write_db f s))"

text \<open>
  The session of the SDK: \<open>Begin\<close> refuses a second transaction; \<open>Commit\<close> ends the transaction
  whether or not it succeeds, and a commit that fails leaves the database unchanged; the deferred
  \<open>Rollback\<close> drops the working copy if a transaction is open.
\<close>

definition Begin :: "'d env \<Rightarrow> ('d sys, ingest_error, unit) call" where
  "Begin env = svc env CBegin (\<lambda>n s.
     (case tx s of Some _ \<Rightarrow> (Inl AlreadyInTransaction, s)
                 | None \<Rightarrow> (Inr (), s\<lparr>tx := Some (committed s)\<rparr>)))"

definition Rollback :: "'d sys \<Rightarrow> 'd sys" where
  "Rollback s = s\<lparr>tx := None\<rparr>"

definition Commit :: "'d env \<Rightarrow> ('d sys, ingest_error, unit) call" where
  "Commit env s =
     (let n = clock s; s1 = s\<lparr>clock := Suc n\<rparr> in
      case tx s of
        None \<Rightarrow> (Inl NotInTransaction, s1)
      | Some w \<Rightarrow> if fails env CCommit n then (Inl (CallFailed CCommit), s1\<lparr>tx := None\<rparr>)
                  else (Inr (), s1\<lparr>tx := None, committed := w\<rparr>))"

subsection \<open>The key value store and the history tables\<close>

definition GetLastLedgerIngest :: "'d env \<Rightarrow> ('d sys, ingest_error, u32) call" where
  "GetLastLedgerIngest env = svc_read env CGetLastLedgerIngest lastLedger"

definition GetLastLedgerIngestNonBlocking :: "'d env \<Rightarrow> ('d sys, ingest_error, u32) call" where
  "GetLastLedgerIngestNonBlocking env = svc_read env CGetLastLedgerIngestNonBlocking lastLedger"

definition GetIngestVersion :: "'d env \<Rightarrow> ('d sys, ingest_error, int) call" where
  "GetIngestVersion env = svc_read env CGetIngestVersion ingestVersion"

definition latest_ledger :: "u32 list \<Rightarrow> u32" where
  "latest_ledger h = fold max h 0"

definition elder_ledger :: "u32 list \<Rightarrow> u32" where
  "elder_ledger h = (case h of [] \<Rightarrow> 0 | x # xs \<Rightarrow> fold min xs x)"

definition GetLatestHistoryLedger :: "'d env \<Rightarrow> ('d sys, ingest_error, u32) call" where
  "GetLatestHistoryLedger env = svc_read env CGetLatestHistoryLedger (\<lambda>d. latest_ledger (historyLedgers d))"

definition ElderLedger :: "'d env \<Rightarrow> ('d sys, ingest_error, u32) call" where
  "ElderLedger env = svc_read env CElderLedger (\<lambda>d. elder_ledger (historyLedgers d))"

text \<open>
  \<open>SELECT sequence FROM history_ledgers WHERE sequence > ?\<close> has no \<open>ORDER BY\<close>: the call returns
  the first matching row in table order.
\<close>

definition GetNextLedgerSequence :: "'d env \<Rightarrow> u32 \<Rightarrow> ('d sys, ingest_error, u32 option) call" where
  "GetNextLedgerSequence env start =
     svc_read env CGetNextLedgerSequence (\<lambda>d. find (\<lambda>x. start < x) (historyLedgers d))"

definition GetExpStateInvalid :: "'d env \<Rightarrow> ('d sys, ingest_error, bool) call" where
  "GetExpStateInvalid env = svc_read env CGetExpStateInvalid stateInvalid"

definition UpdateLastLedgerIngest :: "'d env \<Rightarrow> u32 \<Rightarrow> ('d sys, ingest_error, unit) call" where
  "UpdateLastLedgerIngest env v = svc_write env CUpdateLastLedgerIngest (\<lambda>d. d\<lparr>lastLedger := v\<rparr>)"

definition UpdateIngestVersion :: "'d env \<Rightarrow> int \<Rightarrow> ('d sys, ingest_error, unit) call" where
  "UpdateIngestVersion env v = svc_write env CUpdateIngestVersion (\<lambda>d. d\<lparr>ingestVersion := v\<rparr>)"

definition UpdateExpStateInvalid :: "'d env \<Rightarrow> bool \<Rightarrow> ('d sys, ingest_error, unit) call" where
  "UpdateExpStateInvalid env v = svc_write env CUpdateExpStateInvalid (\<lambda>d. d\<lparr>stateInvalid := v\<rparr>)"

definition TruncateIngestStateTables :: "'d env \<Rightarrow> ('d sys, ingest_error, unit) call" where
  "TruncateIngestStateTables env =
     svc_write env CTruncateIngestStateTables (\<lambda>d. d\<lparr>stateTables := emptyState env\<rparr>)"

definition GetLoadTestRestoreState :: "'d env \<Rightarrow> ('d sys, ingest_error, (string \<times> u32) option) call" where
  "GetLoadTestRestoreState env = svc_read env CGetLoadTestRestoreState loadTest"

definition SetLoadTestRestoreState :: "'d env \<Rightarrow> string \<Rightarrow> u32 \<Rightarrow> ('d sys, ingest_error, unit) call" where
  "SetLoadTestRestoreState env rid l =
     svc_write env CSetLoadTestRestoreState (\<lambda>d. d\<lparr>loadTest := Some (rid, l)\<rparr>)"

definition ClearLoadTestRestoreState :: "'d env \<Rightarrow> ('d sys, ingest_error, unit) call" where
  "ClearLoadTestRestoreState env = svc_write env CClearLoadTestRestoreState (\<lambda>d. d\<lparr>loadTest := None\<rparr>)"

text \<open>\<open>DeleteRangeAll\<close> deletes the rows with a TOID in \<open>[start, end)\<close> and returns their number.\<close>

definition delete_range :: "('d, 'z) env_scheme \<Rightarrow> int \<Rightarrow> int \<Rightarrow> u32 list \<Rightarrow> u32 list" where
  "delete_range env a b h = filter (\<lambda>x. \<not> (a \<le> toid env x \<and> toid env x < b)) h"

definition DeleteRangeAll :: "'d env \<Rightarrow> int \<Rightarrow> int \<Rightarrow> ('d sys, ingest_error, nat) call" where
  "DeleteRangeAll env a b = svc env CDeleteRangeAll (\<lambda>n s.
     (let h = historyLedgers (current_db s); h' = delete_range env a b h in
      (Inr (length h - length h'), write_db (\<lambda>d. d\<lparr>historyLedgers := h'\<rparr>) s)))"

definition RebuildTradeAggregationBuckets :: "'d env \<Rightarrow> u32 \<Rightarrow> u32 \<Rightarrow> ('d sys, ingest_error, unit) call" where
  "RebuildTradeAggregationBuckets env from to =
     svc_write env CRebuildTradeAggregationBuckets
       (\<lambda>d. d\<lparr>tradeRebuilds := tradeRebuilds d @ [(from, to)]\<rparr>)"

subsection \<open>Ledger backend and history archive\<close>

definition GetLedger :: "'d env \<Rightarrow> u32 \<Rightarrow> ('d sys, ingest_error, LedgerMeta) call" where
  "GetLedger env seq = svc env CGetLedger (\<lambda>n s.
     (case backendLedger env seq of
        None \<Rightarrow> (Inl (LedgerUnavailable seq), s)
      | Some m \<Rightarrow> (Inr m, s)))"

definition IsPrepared :: "'d env \<Rightarrow> ('d sys, ingest_error, bool) call" where
  "IsPrepared env = svc env CIsPrepared (\<lambda>n s. (Inr (isPrepared env n), s))"

definition PrepareRange :: "'d env \<Rightarrow> ('d sys, ingest_error, unit) call" where
  "PrepareRange env = svc env CPrepareRange (\<lambda>n s. (Inr (), s))"

definition GetLatestLedgerSequence :: "'d env \<Rightarrow> ('d sys, ingest_error, u32) call" where
  "GetLatestLedgerSequence env = svc env CGetLatestLedgerSequence (\<lambda>n s. (Inr (latestCheckpoint env n), s))"

definition GetBackendLatest :: "'d env \<Rightarrow> ('d sys, ingest_error, u32) call" where
  "GetBackendLatest env = svc env CBackendLatest (\<lambda>n s. (Inr (backendLatest env n), s))"

subsection \<open>Executing calls\<close>

text \<open>
  What each call does inside \<open>try_call\<close>: the error branch when the service fails, the continuation
  otherwise. With these equations the simplifier executes a handler call by call.
\<close>

abbreviation tick :: "'d sys \<Rightarrow> 'd sys" where
  "tick s \<equiv> s\<lparr>clock := Suc (clock s)\<rparr>"

lemma current_db_simps [simp]:
  "current_db (s\<lparr>clock := n\<rparr>) = current_db s"
  "current_db (s\<lparr>tx := Some w\<rparr>) = w"
  "current_db (s\<lparr>tx := None\<rparr>) = committed s"
  "tx s = Some w \<Longrightarrow> current_db s = w"
  "tx s = None \<Longrightarrow> current_db s = committed s"
  by (simp_all add: current_db_def split: option.split)

lemma write_db_simps [simp]:
  "tx s = Some w \<Longrightarrow> write_db f s = s\<lparr>tx := Some (f w)\<rparr>"
  "tx s = None \<Longrightarrow> write_db f s = s\<lparr>committed := f (committed s)\<rparr>"
  by (simp_all add: write_db_def)

lemma try_read [simp]:
  "try_call (svc_read env c f) h k s =
     (if fails env c (clock s) then h (CallFailed c) (tick s) else k (f (current_db s)) (tick s))"
  by (simp add: try_call_def svc_read_def svc_def Let_def)

lemma try_write [simp]:
  "try_call (svc_write env c f) h k s =
     (if fails env c (clock s) then h (CallFailed c) (tick s) else k () (write_db f (tick s)))"
  by (simp add: try_call_def svc_write_def svc_def Let_def)

lemma try_Begin [simp]:
  "tx s = None \<Longrightarrow> try_call (Begin env) h k s =
     (if fails env CBegin (clock s) then h (CallFailed CBegin) (tick s)
      else k () ((tick s)\<lparr>tx := Some (committed s)\<rparr>))"
  by (simp add: try_call_def Begin_def svc_def Let_def)

lemma try_Commit [simp]:
  "tx s = Some w \<Longrightarrow> try_call (Commit env) h k s =
     (if fails env CCommit (clock s) then h (CallFailed CCommit) ((tick s)\<lparr>tx := None\<rparr>)
      else k () ((tick s)\<lparr>tx := None, committed := w\<rparr>))"
  by (simp add: try_call_def Commit_def Let_def)

lemma try_GetLedger [simp]:
  "try_call (GetLedger env q) h k s =
     (if fails env CGetLedger (clock s) then h (CallFailed CGetLedger) (tick s)
      else case backendLedger env q of
             None \<Rightarrow> h (LedgerUnavailable q) (tick s)
           | Some m \<Rightarrow> k m (tick s))"
  by (simp add: try_call_def GetLedger_def svc_def Let_def split: option.split)

lemmas read_defs = GetLastLedgerIngest_def GetLastLedgerIngestNonBlocking_def GetIngestVersion_def
  GetLatestHistoryLedger_def ElderLedger_def GetNextLedgerSequence_def GetExpStateInvalid_def
  GetLoadTestRestoreState_def

lemmas write_defs = UpdateLastLedgerIngest_def UpdateIngestVersion_def UpdateExpStateInvalid_def
  TruncateIngestStateTables_def SetLoadTestRestoreState_def ClearLoadTestRestoreState_def
  RebuildTradeAggregationBuckets_def

declare read_defs [go_defs] write_defs [go_defs]

subsection \<open>The oldest and the newest ledger\<close>

lemma fold_max_Max: "fold max xs (a :: u32) = Max (insert a (set xs))"
  by (metis List.finite_set Max.set_eq_fold list.simps(15))

lemma latest_ledger_Max: "latest_ledger h = Max (insert 0 (set h))"
  by (simp add: latest_ledger_def fold_max_Max)

lemma latest_ledger_ge: "x \<in> set h \<Longrightarrow> x \<le> latest_ledger h"
  by (simp add: latest_ledger_Max)

lemma latest_ledger_mem: "h \<noteq> [] \<Longrightarrow> latest_ledger h \<in> set h"
  by (metis Max_in finite_set insert_iff latest_ledger_Max list.set_intros(1) finite_insert
      insert_not_empty latest_ledger_ge neq_Nil_conv word_le_0_iff)

lemma latest_ledger_zero_iff: "0 \<notin> set h \<Longrightarrow> latest_ledger h = 0 \<longleftrightarrow> h = []"
  using latest_ledger_mem by (metis latest_ledger_def fold_simps(1))

lemma elder_ledger_Min: "h \<noteq> [] \<Longrightarrow> elder_ledger h = Min (set h)"
  by (cases h) (simp_all add: elder_ledger_def Min.set_eq_fold del: list.set)

lemma elder_ledger_mem: "h \<noteq> [] \<Longrightarrow> elder_ledger h \<in> set h \<and> (\<forall>x \<in> set h. elder_ledger h \<le> x)"
  by (simp add: elder_ledger_Min)

end
