(* ===== verification/Processor_Runner.thy ===== *)
theory Processor_Runner
  imports Ingest_Db
begin

text \<open>
  The processor runner (\<open>internal/ingest/processor_runner.go\<close>) and the ledgers processor
  (\<open>processors/ledgers_processor.go\<close>). Modelled are the protocol version and bucket list checks, the
  order in which state tables and history rows are written, the batch of ledger rows with its unique
  index, and the transaction a flush opens for itself when \<open>execInTx\<close> is set. The contents the change
  processors compute from a ledger are the parameters \<open>applyChanges\<close> and \<open>applySnapshot\<close>.
\<close>

definition checkIfProtocolVersionSupported :: "'d env \<Rightarrow> u32 \<Rightarrow> ingest_error option" where
  "checkIfProtocolVersionSupported env v =
     (if SkipProtocolVersionCheck env then None
      else if MaxSupportedProtocolVersion env < v then Some (UnsupportedProtocol v)
      else None)"

text \<open>A write of the processors: an error leaves the working copy in any condition.\<close>

definition svc_process ::
  "'d env \<Rightarrow> svc_call \<Rightarrow> (nat \<Rightarrow> 'd db \<Rightarrow> ingest_error + 'd db) \<Rightarrow> ('d sys, ingest_error, unit) call" where
  "svc_process env c f s =
     (let n = clock s; s1 = s\<lparr>clock := Suc n\<rparr> in
      if fails env c n then (Inl (CallFailed c), write_db (partialWrites env n) s1)
      else case f n (current_db s1) of
             Inl e \<Rightarrow> (Inl e, write_db (partialWrites env n) s1)
           | Inr d \<Rightarrow> (Inr (), write_db (\<lambda>_. d) s1))"

text \<open>
  The ledgers processor collects the ledgers of a batch in a map keyed by sequence and inserts one row
  for each key, in map order; the unique index on the sequence refuses a ledger that is already there.
\<close>

definition LedgersProcessor_ledgers :: "LedgerMeta list \<Rightarrow> u32 list" where
  "LedgersProcessor_ledgers ledgers = remdups (map metaSequence ledgers)"

definition LedgersProcessor_Flush ::
  "'d env \<Rightarrow> u32 list \<Rightarrow> nat \<Rightarrow> 'd db \<Rightarrow> ingest_error + 'd db" where
  "LedgersProcessor_Flush env seqs n d =
     (if \<exists>x \<in> set seqs. x \<in> set (historyLedgers d) then Inl DuplicateLedger
      else Inr (d\<lparr>historyLedgers := historyLedgers d @ mapOrder env n seqs\<rparr>))"

definition RunHistoryArchiveIngestion ::
  "'d env \<Rightarrow> u32 \<Rightarrow> bool \<Rightarrow> u32 \<Rightarrow> nat \<Rightarrow> ('d sys, ingest_error, unit) call" where
  "RunHistoryArchiveIngestion env checkpointLedger skipChecks ledgerProtocolVersion bucketListHash =
     (let unsupported = (if skipChecks then None
                         else checkIfProtocolVersionSupported env ledgerProtocolVersion) in
      case unsupported of
        Some e \<Rightarrow> (\<lambda>s. (Inl e, s))
      | None \<Rightarrow>
          try_call (svc env CArchiveState (\<lambda>n s. (Inr (archiveBucketListHash env checkpointLedger), s)))
            (\<lambda>e s. (Inl e, s))
            (\<lambda>h. if \<not> skipChecks \<and> h \<noteq> bucketListHash then (\<lambda>s. (Inl BadBucketListHash, s))
                 else svc_process env CChangeProcessors
                        (\<lambda>n d. Inr (d\<lparr>stateTables := applySnapshot env checkpointLedger (stateTables d)\<rparr>))))"

definition runChangeProcessorOnLedger :: "'d env \<Rightarrow> LedgerMeta \<Rightarrow> ('d sys, ingest_error, unit) call" where
  "runChangeProcessorOnLedger env ledger =
     svc_process env CChangeProcessors
       (\<lambda>n d. Inr (d\<lparr>stateTables := applyChanges env ledger (stateTables d)\<rparr>))"

fun streamLedgers :: "'d env \<Rightarrow> LedgerMeta list \<Rightarrow> ingest_error option" where
  "streamLedgers env [] = None"
| "streamLedgers env (ledger # ledgers) =
     (case checkIfProtocolVersionSupported env (metaProtocolVersion ledger) of
        Some e \<Rightarrow> Some e
      | None \<Rightarrow> streamLedgers env ledgers)"

definition flushProcessors ::
  "'d env \<Rightarrow> LedgerMeta list \<Rightarrow> bool \<Rightarrow> ('d sys, ingest_error, unit) call" where
  "flushProcessors env ledgers execInTx =
     (let flush = svc_process env CTransactionProcessors
                    (LedgersProcessor_Flush env (LedgersProcessor_ledgers ledgers)) in
      if execInTx then
        try_call (Begin env) (\<lambda>e s. (Inl e, s))
          (\<lambda>_ s. (case try_call flush (\<lambda>e s. (Inl e, s)) (\<lambda>_. Commit env) s of
                    (r, s') \<Rightarrow> (r, Rollback s')))
      else flush)"

definition runTransactionProcessorsOnLedger :: "'d env \<Rightarrow> LedgerMeta \<Rightarrow> ('d sys, ingest_error, unit) call" where
  "runTransactionProcessorsOnLedger env ledger =
     (case streamLedgers env [ledger] of
        Some e \<Rightarrow> (\<lambda>s. (Inl e, s))
      | None \<Rightarrow> flushProcessors env [ledger] False)"

definition RunTransactionProcessorsOnLedgers ::
  "'d env \<Rightarrow> LedgerMeta list \<Rightarrow> bool \<Rightarrow> ('d sys, ingest_error, unit) call" where
  "RunTransactionProcessorsOnLedgers env ledgers execInTx =
     (case streamLedgers env ledgers of
        Some e \<Rightarrow> (\<lambda>s. (Inl e, s))
      | None \<Rightarrow> flushProcessors env ledgers execInTx)"

definition RunAllProcessorsOnLedger :: "'d env \<Rightarrow> LedgerMeta \<Rightarrow> ('d sys, ingest_error, unit) call" where
  "RunAllProcessorsOnLedger env ledger =
     (case checkIfProtocolVersionSupported env (metaProtocolVersion ledger) of
        Some e \<Rightarrow> (\<lambda>s. (Inl e, s))
      | None \<Rightarrow>
          try_call (runChangeProcessorOnLedger env ledger) (\<lambda>e s. (Inl e, s))
            (\<lambda>_. runTransactionProcessorsOnLedger env ledger))"

subsection \<open>Executing the runner inside a transaction\<close>

lemma try_process [simp]:
  "tx s = Some w \<Longrightarrow> try_call (svc_process env c f) h k s =
     (if fails env c (clock s)
      then h (CallFailed c) ((tick s)\<lparr>tx := Some (partialWrites env (clock s) w)\<rparr>)
      else case f (clock s) w of
             Inl e \<Rightarrow> h e ((tick s)\<lparr>tx := Some (partialWrites env (clock s) w)\<rparr>)
           | Inr d \<Rightarrow> k () ((tick s)\<lparr>tx := Some d\<rparr>))"
  by (simp add: try_call_def svc_process_def Let_def split: sum.split)

lemma try_svc_archive [simp]:
  "try_call (svc env c (\<lambda>n s. (Inr (x n), s))) h k s =
     (if fails env c (clock s) then h (CallFailed c) (tick s) else k (x (clock s)) (tick s))"
  by (simp add: try_call_def svc_def Let_def)

lemmas runner_defs = RunHistoryArchiveIngestion_def runChangeProcessorOnLedger_def
  runTransactionProcessorsOnLedger_def RunAllProcessorsOnLedger_def flushProcessors_def
  LedgersProcessor_Flush_def LedgersProcessor_ledgers_def Let_def

end
