(* ===== verification/Fsm.thy ===== *)
theory Fsm
  imports Processor_Runner
begin

text \<open>
  The ingestion state machine (\<open>internal/ingest/fsm.go\<close>, \<open>fsm_history_range_state.go\<close>,
  \<open>fsm_reingest_history_range_state.go\<close>, \<open>db_state.go\<close>, \<open>loadtest.go\<close> and the driver
  \<open>runStateMachine\<close> of \<open>main.go\<close>). Each node's \<open>run\<close> is one definition that executes the same calls
  in the same order and returns the transition together with the error, as the Go method does. The
  three nodes with a loop over ledgers return \<open>None\<close> when the loop never ends (Go's \<open>cur <= to\<close> with
  \<open>to\<close> the largest \<open>uint32\<close>). Logging and metrics are not modelled.
\<close>

subsection \<open>Evaluating the database\<close>

datatype dbState = dbStateEmpty | dbStateValid | dbStateNeedsRebuild | dbStateInconsistent

record dbStateInput =
  LastIngestedLedger :: u32
  IngestVersion :: int
  LastHistoryLedger :: u32
  CurrentVersionIn :: int

definition evaluateDBState :: "dbStateInput \<Rightarrow> dbState" where
  "evaluateDBState input =
     (if LastIngestedLedger input = 0 then dbStateEmpty
      else if IngestVersion input \<noteq> CurrentVersionIn input then dbStateNeedsRebuild
      else if LastHistoryLedger input \<noteq> 0 \<and> LastHistoryLedger input \<noteq> LastIngestedLedger input
      then dbStateInconsistent
      else dbStateValid)"

definition checkDBState :: "'d env \<Rightarrow> int \<Rightarrow> ('d sys, ingest_error, dbState \<times> u32) call" where
  "checkDBState env currentVersion =
     try_call (GetLastLedgerIngestNonBlocking env) (\<lambda>e s. (Inl e, s)) (\<lambda>lastIngestedLedger.
     try_call (GetIngestVersion env) (\<lambda>e s. (Inl e, s)) (\<lambda>version.
     try_call (GetLatestHistoryLedger env) (\<lambda>e s. (Inl e, s)) (\<lambda>lastHistoryLedger s.
       (Inr (evaluateDBState
          \<lparr>LastIngestedLedger = lastIngestedLedger, IngestVersion = version,
           LastHistoryLedger = lastHistoryLedger, CurrentVersionIn = currentVersion\<rparr>,
          lastIngestedLedger), s))))"

subsection \<open>Load test snapshots\<close>

definition checkPendingLoadTest :: "'d env \<Rightarrow> ('d sys, ingest_error, unit) call" where
  "checkPendingLoadTest env =
     try_call (GetLoadTestRestoreState env) (\<lambda>e s. (Inl e, s)) (\<lambda>st s.
       (case st of
          None \<Rightarrow> if runId s \<noteq> [] then (Inl LoadTestMismatch, s) else (Inr (), s)
        | Some (runID, _) \<Rightarrow> if runID \<noteq> runId s then (Inl LoadTestMismatch, s) else (Inr (), s)))"

text \<open>\<open>in_tx env body\<close>: \<open>Begin\<close>, then \<open>body\<close> with the deferred \<open>Rollback\<close>.\<close>

definition in_tx :: "'d env \<Rightarrow> (ingest_error \<Rightarrow> 'd sys \<Rightarrow> 'r \<times> 'd sys) \<Rightarrow> ('d sys \<Rightarrow> 'r \<times> 'd sys) \<Rightarrow> 'd sys \<Rightarrow> 'r \<times> 'd sys" where
  "in_tx env h body =
     try_call (Begin env) h (\<lambda>_ s. (case body s of (r, s') \<Rightarrow> (r, Rollback s')))"

definition loadTestSnapshot_save :: "'d env \<Rightarrow> ('d sys, ingest_error, unit) call" where
  "loadTestSnapshot_save env =
     in_tx env (\<lambda>e s. (Inl e, s)) (\<lambda>s.
       if runId s \<noteq> [] then (Inl LoadTestMismatch, s)
       else
       try_call (GetLastLedgerIngest env) (\<lambda>e s. (Inl e, s)) (\<lambda>lastIngestedLedger.
       try_call (GetLoadTestRestoreState env) (\<lambda>e s. (Inl e, s)) (\<lambda>st.
       case st of
         Some _ \<Rightarrow> (\<lambda>s. (Inl LoadTestMismatch, s))
       | None \<Rightarrow>
           try_call (svc env CRandom (\<lambda>n s. (Inr (randomRunId env n), s))) (\<lambda>e s. (Inl e, s)) (\<lambda>runID.
           try_call (SetLoadTestRestoreState env runID lastIngestedLedger) (\<lambda>e s. (Inl e, s)) (\<lambda>_.
           try_call (Commit env) (\<lambda>e s. (Inl e, s)) (\<lambda>_ s. (Inr (), s\<lparr>runId := runID\<rparr>)))))) s)"

definition restoreSnapshot :: "'d env \<Rightarrow> ('d sys, ingest_error, unit) call" where
  "restoreSnapshot env =
     in_tx env (\<lambda>e s. (Inl e, s))
       (try_call (GetLastLedgerIngest env) (\<lambda>e s. (Inl e, s)) (\<lambda>lastIngestedLedger.
        try_call (GetLoadTestRestoreState env) (\<lambda>e s. (Inl e, s)) (\<lambda>st.
        case st of
          None \<Rightarrow> (\<lambda>s. (Inr (), s))
        | Some (_, restoreLedger) \<Rightarrow>
            if lastIngestedLedger < restoreLedger
            then (\<lambda>s. (Inl (InvalidRange restoreLedger lastIngestedLedger), s))
            else
            let finish =
              try_call (ClearLoadTestRestoreState env) (\<lambda>e s. (Inl e, s)) (\<lambda>_. Commit env) in
            if restoreLedger < lastIngestedLedger
            then (case LedgerRangeInclusive env (restoreLedger + 1) lastIngestedLedger of
                    None \<Rightarrow> (\<lambda>s. (Inl (InvalidRange (restoreLedger + 1) lastIngestedLedger), s))
                  | Some (a, b) \<Rightarrow>
                      try_call (DeleteRangeAll env a b) (\<lambda>e s. (Inl e, s)) (\<lambda>_.
                      try_call (UpdateIngestVersion env 0) (\<lambda>e s. (Inl e, s)) (\<lambda>_. finish)))
            else finish)))"

subsection \<open>Nodes and transitions\<close>

datatype node =
    stopState
  | startState u32
  | buildState u32 bool bool          \<comment> \<open>checkpointLedger, skipChecks, stop\<close>
  | resumeState u32
  | waitForCheckpointState
  | verifyRangeState u32 u32 bool
  | stressTestState
  | historyRangeState u32 u32
  | reingestHistoryRangeState u32 u32 bool

datatype State = NoState | Start | Stop | Build | Resume | WaitForCheckpoint | StressTest | VerifyRange
  | HistoryRange | ReingestHistoryRange

fun GetState :: "node \<Rightarrow> State" where
  "GetState stopState = Stop"
| "GetState (startState _) = Start"
| "GetState (buildState _ _ _) = Build"
| "GetState (resumeState _) = Resume"
| "GetState waitForCheckpointState = WaitForCheckpoint"
| "GetState (verifyRangeState _ _ _) = VerifyRange"
| "GetState stressTestState = StressTest"
| "GetState (historyRangeState _ _) = HistoryRange"
| "GetState (reingestHistoryRangeState _ _ _) = ReingestHistoryRange"

fun State_Name :: "State \<Rightarrow> string" where
  "State_Name Start = ''start''"
| "State_Name Stop = ''stop''"
| "State_Name Build = ''build''"
| "State_Name Resume = ''resume''"
| "State_Name WaitForCheckpoint = ''waitforcheckpoint''"
| "State_Name StressTest = ''stresstest''"
| "State_Name VerifyRange = ''verifyrange''"
| "State_Name HistoryRange = ''historyrange''"
| "State_Name ReingestHistoryRange = ''reingesthistoryrange''"
| "State_Name NoState = ''none''"

record transition =
  next_node :: node
  sleepDuration :: nat   \<comment> \<open>seconds; \<open>defaultSleep\<close> is one second\<close>

definition stop :: transition where
  "stop = \<lparr>next_node = stopState, sleepDuration = 0\<rparr>"
definition start_t :: transition where
  "start_t = \<lparr>next_node = startState 0, sleepDuration = 1\<rparr>"
definition rebuild :: "u32 \<Rightarrow> transition" where
  "rebuild checkpointLedger = \<lparr>next_node = buildState checkpointLedger False False, sleepDuration = 1\<rparr>"
definition resume :: "u32 \<Rightarrow> transition" where
  "resume l = \<lparr>next_node = resumeState l, sleepDuration = 1\<rparr>"
definition resumeImmediately :: "u32 \<Rightarrow> transition" where
  "resumeImmediately l = \<lparr>next_node = resumeState l, sleepDuration = 0\<rparr>"
definition retryResume :: "u32 \<Rightarrow> transition" where
  "retryResume r = \<lparr>next_node = resumeState r, sleepDuration = 1\<rparr>"
definition historyRange :: "u32 \<Rightarrow> u32 \<Rightarrow> transition" where
  "historyRange fromLedger toLedger = \<lparr>next_node = historyRangeState fromLedger toLedger, sleepDuration = 1\<rparr>"
definition waitForCheckPoint :: transition where
  "waitForCheckPoint = \<lparr>next_node = waitForCheckpointState, sleepDuration = 0\<rparr>"

type_synonym 'd outcome = "(transition \<times> ingest_error option) \<times> 'd sys"

definition ret :: "transition \<Rightarrow> 'd sys \<Rightarrow> 'd outcome" where
  "ret t s = ((t, None), s)"
definition ret_err :: "transition \<Rightarrow> ingest_error \<Rightarrow> 'd sys \<Rightarrow> 'd outcome" where
  "ret_err t e s = ((t, Some e), s)"

subsection \<open>The start node\<close>

definition startState_run :: "'d env \<Rightarrow> u32 \<Rightarrow> 'd sys \<Rightarrow> 'd outcome" where
  "startState_run env suggestedCheckpoint =
     in_tx env (ret_err start_t)
     (try_call (GetLastLedgerIngest env) (ret_err start_t) (\<lambda>lastIngestedLedger.
      try_call (checkPendingLoadTest env) (ret_err start_t) (\<lambda>_.
      try_call (GetIngestVersion env) (ret_err start_t) (\<lambda>version.
      if CurrentVersion < version then ret stop
      else
      try_call (GetLatestHistoryLedger env) (ret_err start_t) (\<lambda>lastHistoryLedger.
      let rebuild_or_catchup =
        try_call (if suggestedCheckpoint \<noteq> 0 then (\<lambda>s. (Inr suggestedCheckpoint, s))
                  else GetLatestLedgerSequence env)
          (ret_err start_t)
          (\<lambda>lastCheckpoint.
             if lastHistoryLedger \<noteq> 0 then
               (if lastCheckpoint < lastHistoryLedger then ret waitForCheckPoint
                else if lastHistoryLedger < lastCheckpoint
                then ret (historyRange (lastHistoryLedger + 1) lastCheckpoint)
                else ret (rebuild lastCheckpoint))
             else ret (rebuild lastCheckpoint)) in
      (case evaluateDBState
              \<lparr>LastIngestedLedger = lastIngestedLedger, IngestVersion = version,
               LastHistoryLedger = lastHistoryLedger, CurrentVersionIn = CurrentVersion\<rparr> of
         dbStateEmpty \<Rightarrow> rebuild_or_catchup
       | dbStateNeedsRebuild \<Rightarrow> rebuild_or_catchup
       | dbStateInconsistent \<Rightarrow>
           if lastIngestedLedger < lastHistoryLedger then
             try_call (UpdateLastLedgerIngest env 0) (ret_err start_t) (\<lambda>_.
             try_call (Commit env) (ret_err start_t) (\<lambda>_. ret start_t))
           else ret (historyRange (lastHistoryLedger + 1) lastIngestedLedger)
       | dbStateValid \<Rightarrow> ret (resume lastIngestedLedger)))))))"

subsection \<open>Shared steps\<close>

definition completeIngestion :: "'d env \<Rightarrow> u32 \<Rightarrow> ('d sys, ingest_error, unit) call" where
  "completeIngestion env ledger =
     (if ledger = 0 then (\<lambda>s. (Inl LedgerNotPositive, s))
      else try_call (UpdateLastLedgerIngest env ledger) (\<lambda>e s. (Inl e, s)) (\<lambda>_. Commit env))"

definition maybePrepareRange :: "'d env \<Rightarrow> ('d sys, ingest_error, unit) call" where
  "maybePrepareRange env =
     try_call (IsPrepared env) (\<lambda>e s. (Inl e, s)) (\<lambda>p.
       if p then (\<lambda>s. (Inr (), s)) else PrepareRange env)"

subsection \<open>The build node\<close>

text \<open>The part of \<open>buildState.run\<close> inside its transaction.\<close>

definition buildState_ingest ::
  "'d env \<Rightarrow> u32 \<Rightarrow> bool \<Rightarrow> bool \<Rightarrow> transition \<Rightarrow> u32 \<Rightarrow> nat \<Rightarrow> 'd sys \<Rightarrow> 'd outcome" where
  "buildState_ingest env checkpointLedger skipChecks stopping nextFailState protocolVersion bucketListHash =
     in_tx env (ret_err nextFailState)
     (try_call (GetLastLedgerIngest env) (ret_err nextFailState) (\<lambda>lastIngestedLedger.
      try_call (checkPendingLoadTest env) (ret_err nextFailState) (\<lambda>_.
      try_call (GetIngestVersion env) (ret_err nextFailState) (\<lambda>version.
      if version = CurrentVersion \<and> 0 < lastIngestedLedger then ret nextFailState
      else
      try_call (UpdateLastLedgerIngest env 0) (ret_err nextFailState) (\<lambda>_.
      try_call (UpdateExpStateInvalid env False) (ret_err nextFailState) (\<lambda>_.
      try_call (TruncateIngestStateTables env) (ret_err nextFailState) (\<lambda>_.
      try_call (RunHistoryArchiveIngestion env checkpointLedger skipChecks protocolVersion bucketListHash)
        (ret_err nextFailState) (\<lambda>_.
      try_call (UpdateIngestVersion env CurrentVersion) (ret_err nextFailState) (\<lambda>_.
      try_call (completeIngestion env checkpointLedger) (ret_err nextFailState) (\<lambda>_.
      if stopping then ret stop else ret (resume checkpointLedger)))))))))))"

definition buildState_run :: "'d env \<Rightarrow> u32 \<Rightarrow> bool \<Rightarrow> bool \<Rightarrow> 'd sys \<Rightarrow> 'd outcome" where
  "buildState_run env checkpointLedger skipChecks stopping =
     (let nextFailState = (if stopping then stop else start_t) in
      if checkpointLedger = 0 then ret_err nextFailState (Message ''unexpected checkpointLedger value'')
      else if skipChecks
      then buildState_ingest env checkpointLedger skipChecks stopping nextFailState 0 0
      else
      try_call (maybePrepareRange env) (ret_err nextFailState) (\<lambda>_.
      try_call (GetLedger env checkpointLedger) (ret_err nextFailState) (\<lambda>ledgerCloseMeta.
        buildState_ingest env checkpointLedger skipChecks stopping nextFailState
          (metaProtocolVersion ledgerCloseMeta) (metaBucketListHash ledgerCloseMeta))))"

subsection \<open>The resume node\<close>

definition maybeVerifyState :: "'d env \<Rightarrow> u32 \<Rightarrow> nat \<Rightarrow> 'd sys \<Rightarrow> 'd sys" where
  "maybeVerifyState env lastIngestedLedger expectedBucketListHash =
     try_call (GetExpStateInvalid env) (\<lambda>_ s. s) (\<lambda>invalid s.
       if \<not> invalid \<and> \<not> disableStateVerification env \<and> stateVerificationOnLedger env lastIngestedLedger
       then s\<lparr>spawned := spawned s @ [VerifyStateTask lastIngestedLedger expectedBucketListHash]\<rparr>
       else s)"

definition maybeReapHistory :: "'d env \<Rightarrow> u32 \<Rightarrow> 'd sys \<Rightarrow> 'd sys" where
  "maybeReapHistory env lastIngestedLedger s =
     (if reapFrequency env = 0 \<or> lastIngestedLedger mod reapFrequency env \<noteq> 0 then s
      else s\<lparr>spawned := spawned s @ [ReapHistoryTask]\<rparr>)"

definition maybeReapLookupTables :: "'d env \<Rightarrow> u32 \<Rightarrow> 'd sys \<Rightarrow> 'd sys" where
  "maybeReapLookupTables env lastIngestedLedger s =
     (if \<not> ReapLookupTables env then s
      else try_call (GetBackendLatest env) (\<lambda>_ s. s) (\<lambda>sequence s.
             if sequence \<noteq> lastIngestedLedger then s
             else s\<lparr>spawned := spawned s @ [ReapLookupTablesTask]\<rparr>) s)"

text \<open>The part of \<open>resumeState.run\<close> inside its transaction, once the ledger has been read.\<close>

definition resumeState_ingest :: "'d env \<Rightarrow> u32 \<Rightarrow> LedgerMeta \<Rightarrow> 'd sys \<Rightarrow> 'd outcome" where
  "resumeState_ingest env latest ledgerCloseMeta =
     (let ingestLedger = latest + 1 in
      in_tx env (ret_err (retryResume latest))
      (try_call (GetLastLedgerIngest env) (ret_err (retryResume latest)) (\<lambda>lastIngestedLedger.
       if lastIngestedLedger + 1 < ingestLedger
       then ret_err start_t (Message ''expected ingest ledger to be at most one greater than last ingested ledger in db'')
       else if ingestLedger \<le> lastIngestedLedger then ret (resumeImmediately lastIngestedLedger)
       else
       try_call (checkPendingLoadTest env) (ret_err (retryResume latest)) (\<lambda>_.
       try_call (GetIngestVersion env) (ret_err (retryResume latest)) (\<lambda>version.
       if version \<noteq> CurrentVersion then ret start_t
       else
       try_call (GetLatestHistoryLedger env) (ret_err (retryResume latest)) (\<lambda>lastHistoryLedger.
       if lastHistoryLedger \<noteq> 0 \<and> lastHistoryLedger \<noteq> lastIngestedLedger then ret start_t
       else
       try_call (RunAllProcessorsOnLedger env ledgerCloseMeta) (ret_err (retryResume latest)) (\<lambda>_.
       try_call (RebuildTradeAggregationBuckets env ingestLedger ingestLedger)
         (ret_err (retryResume latest)) (\<lambda>_.
       try_call (completeIngestion env ingestLedger) (ret_err (retryResume latest)) (\<lambda>_ s.
         ret (resumeImmediately ingestLedger)
           (maybeReapLookupTables env ingestLedger
             (maybeReapHistory env ingestLedger
               (maybeVerifyState env ingestLedger (metaBucketListHash ledgerCloseMeta) s))))))))))))"

definition resumeState_run :: "'d env \<Rightarrow> u32 \<Rightarrow> 'd sys \<Rightarrow> 'd outcome" where
  "resumeState_run env latest =
     (if latest = 0
      then ret_err start_t (Message ''unexpected latestSuccessfullyProcessedLedger value'')
      else
      try_call (maybePrepareRange env) (ret_err start_t) (\<lambda>_.
      try_call (GetLedger env (latest + 1)) (ret_err start_t) (\<lambda>ledgerCloseMeta.
        resumeState_ingest env latest ledgerCloseMeta)))"

definition waitForCheckpointState_run :: "'d sys \<Rightarrow> 'd outcome" where
  "waitForCheckpointState_run = ret start_t"

subsection \<open>The history range node\<close>

text \<open>
  The loop of \<open>historyRangeState.run\<close>. An error of the ledger backend commits the batches flushed
  so far (the result of that commit is only logged) before it is returned.
\<close>

partial_function (option) historyRange_loop ::
  "'d env \<Rightarrow> u32 \<Rightarrow> u32 \<Rightarrow> LedgerMeta list \<Rightarrow> 'd sys \<Rightarrow> ((ingest_error + LedgerMeta list) \<times> 'd sys) option" where
  "historyRange_loop env cur to ledgers s =
     (if cur \<le> to then
        (case GetLedger env cur s of
           (Inl e, s1) \<Rightarrow> Some (Inl e, snd (Commit env s1))
         | (Inr ledgerCloseMeta, s1) \<Rightarrow>
             (let ledgers' = ledgers @ [ledgerCloseMeta] in
              if length ledgers' = maxLedgerPerFlush env then
                (case RunTransactionProcessorsOnLedgers env ledgers' False s1 of
                   (Inl e, s2) \<Rightarrow> Some (Inl e, s2)
                 | (Inr _, s2) \<Rightarrow> historyRange_loop env (cur + 1) to [] s2)
              else historyRange_loop env (cur + 1) to ledgers' s1))
      else Some (Inr ledgers, s))"

definition historyRangeState_body :: "'d env \<Rightarrow> u32 \<Rightarrow> u32 \<Rightarrow> 'd sys \<Rightarrow> 'd outcome option" where
  "historyRangeState_body env fromLedger toLedger s =
     (case historyRange_loop env fromLedger toLedger [] s of
        None \<Rightarrow> None
      | Some (Inl e, s1) \<Rightarrow> Some (ret_err start_t e s1)
      | Some (Inr ledgers, s1) \<Rightarrow>
          Some (try_call (if ledgers = [] then (\<lambda>s. (Inr (), s))
                          else RunTransactionProcessorsOnLedgers env ledgers False)
                  (ret_err start_t) (\<lambda>_.
                try_call (Commit env) (ret_err start_t) (\<lambda>_. ret start_t)) s1))"

definition deferRollback :: "'d outcome option \<Rightarrow> 'd outcome option" where
  "deferRollback = map_option (map_prod id Rollback)"

definition historyRangeState_run :: "'d env \<Rightarrow> u32 \<Rightarrow> u32 \<Rightarrow> 'd sys \<Rightarrow> 'd outcome option" where
  "historyRangeState_run env fromLedger toLedger s =
     (if fromLedger = 0 \<or> toLedger = 0 \<or> toLedger < fromLedger
      then Some (ret_err start_t (InvalidRange fromLedger toLedger) s)
      else if maxLedgerPerFlush env < 1
      then Some (ret_err start_t (Message ''invalid maxLedgerPerFlush, must be greater than 0'') s)
      else
      try_call (maybePrepareRange env) (\<lambda>e s. Some (ret_err start_t e s)) (\<lambda>_.
      try_call (Begin env) (\<lambda>e s. Some (ret_err start_t e s)) (\<lambda>_ s. deferRollback (
        try_call (GetLastLedgerIngest env) (\<lambda>e s. Some (ret_err start_t e s)) (\<lambda>_.
        try_call (GetLatestHistoryLedger env) (\<lambda>e s. Some (ret_err start_t e s)) (\<lambda>lastHistoryLedger s.
          if lastHistoryLedger \<noteq> fromLedger - 1 then Some (ret start_t s)
          else historyRangeState_body env fromLedger toLedger s)) s))) s)"

subsection \<open>The reingest node\<close>

partial_function (option) ingestRange_loop ::
  "'d env \<Rightarrow> u32 \<Rightarrow> u32 \<Rightarrow> bool \<Rightarrow> LedgerMeta list \<Rightarrow> 'd sys \<Rightarrow> ((ingest_error + LedgerMeta list) \<times> 'd sys) option" where
  "ingestRange_loop env cur to execBatchInTx ledgers s =
     (if cur \<le> to then
        (case GetLedger env cur s of
           (Inl e, s1) \<Rightarrow> Some (Inl e, s1)
         | (Inr ledgerCloseMeta, s1) \<Rightarrow>
             (let ledgers' = ledgers @ [ledgerCloseMeta] in
              if length ledgers' mod maxLedgerPerFlush env = 0 then
                (case RunTransactionProcessorsOnLedgers env ledgers' execBatchInTx s1 of
                   (Inl e, s2) \<Rightarrow> Some (Inl e, s2)
                 | (Inr _, s2) \<Rightarrow> ingestRange_loop env (cur + 1) to execBatchInTx [] s2)
              else ingestRange_loop env (cur + 1) to execBatchInTx ledgers' s1))
      else Some (Inr ledgers, s))"

definition ingestRange ::
  "'d env \<Rightarrow> u32 \<Rightarrow> u32 \<Rightarrow> bool \<Rightarrow> 'd sys \<Rightarrow> ((ingest_error + unit) \<times> 'd sys) option" where
  "ingestRange env fromLedger toLedger execBatchInTx s =
     (if maxLedgerPerFlush env < 1
      then Some (Inl (Message ''invalid maxLedgerPerFlush, must be greater than 0''), s)
      else case LedgerRangeInclusive env fromLedger toLedger of
        None \<Rightarrow> Some (Inl (InvalidRange fromLedger toLedger), s)
      | Some (a, b) \<Rightarrow>
          try_call (DeleteRangeAll env a b) (\<lambda>e s. Some (Inl e, s)) (\<lambda>_ s.
            (case ingestRange_loop env fromLedger toLedger execBatchInTx [] s of
               None \<Rightarrow> None
             | Some (Inl e, s1) \<Rightarrow> Some (Inl e, s1)
             | Some (Inr ledgers, s1) \<Rightarrow>
                 Some (if ledgers = [] then (Inr (), s1)
                       else RunTransactionProcessorsOnLedgers env ledgers execBatchInTx s1))) s)"

definition reingestHistoryRangeState_run ::
  "'d env \<Rightarrow> u32 \<Rightarrow> u32 \<Rightarrow> bool \<Rightarrow> 'd sys \<Rightarrow> 'd outcome option" where
  "reingestHistoryRangeState_run env fromLedger0 toLedger force s =
     (if fromLedger0 = 0 \<or> toLedger = 0 \<or> toLedger < fromLedger0
      then Some (ret_err stop (InvalidRange fromLedger0 toLedger) s)
      else
      let fromLedger = (if fromLedger0 = 1 then 2 else fromLedger0) in
      if force then
        try_call (PrepareRange env) (\<lambda>e s. Some (ret_err stop e s)) (\<lambda>_.
        try_call (Begin env) (\<lambda>e s. Some (ret_err stop e s)) (\<lambda>_ s. deferRollback (
          try_call (GetLastLedgerIngest env) (\<lambda>e s. Some (ret_err stop e s)) (\<lambda>_ s.
            (case ingestRange env fromLedger toLedger False s of
               None \<Rightarrow> None
             | Some (Inl e, s1) \<Rightarrow>
                 Some (try_call (Commit env) (\<lambda>_. ret_err stop e) (\<lambda>_. ret_err stop e) s1)
             | Some (Inr _, s1) \<Rightarrow>
                 Some (try_call (Commit env) (ret_err stop) (\<lambda>_. ret stop) s1))) s))) s
      else
        try_call (GetLastLedgerIngestNonBlocking env) (\<lambda>e s. Some (ret_err stop e s)) (\<lambda>lastIngestedLedger.
        if 0 < lastIngestedLedger \<and> lastIngestedLedger \<le> toLedger
        then (\<lambda>s. Some (ret_err stop (ReingestRangeConflict lastIngestedLedger) s))
        else
        try_call (PrepareRange env) (\<lambda>e s. Some (ret_err stop e s)) (\<lambda>_ s.
          (case ingestRange env fromLedger toLedger True s of
             None \<Rightarrow> None
           | Some (Inl e, s1) \<Rightarrow> Some (ret_err stop e s1)
           | Some (Inr _, s1) \<Rightarrow> Some (ret stop s1)))) s)"

subsection \<open>The verify range and stress test nodes\<close>

text \<open>
  The loop of \<open>verifyRangeState.run\<close>; it returns the last ledger it read, which the final state
  verification uses. The state verifier (\<open>verify.go\<close>) is the call \<open>CVerifyState\<close>.
\<close>

partial_function (option) verifyRange_loop ::
  "'d env \<Rightarrow> u32 \<Rightarrow> u32 \<Rightarrow> LedgerMeta \<Rightarrow> 'd sys \<Rightarrow> ((ingest_error + LedgerMeta) \<times> 'd sys) option" where
  "verifyRange_loop env sequence to meta s =
     (if sequence \<le> to then
        (case Begin env s of
           (Inl e, s1) \<Rightarrow> Some (Inl e, s1)
         | (Inr _, s1) \<Rightarrow>
        (case GetLedger env sequence s1 of
           (Inl e, s2) \<Rightarrow> Some (Inl e, s2)
         | (Inr m, s2) \<Rightarrow>
        (case RunAllProcessorsOnLedger env m s2 of
           (Inl e, s3) \<Rightarrow> Some (Inl e, s3)
         | (Inr _, s3) \<Rightarrow>
        (case completeIngestion env sequence s3 of
           (Inl e, s4) \<Rightarrow> Some (Inl e, s4)
         | (Inr _, s4) \<Rightarrow> verifyRange_loop env (sequence + 1) to m s4))))
      else Some (Inr meta, s))"

definition verifyState_call :: "'d env \<Rightarrow> ('d sys, ingest_error, unit) call" where
  "verifyState_call env = svc env CVerifyState (\<lambda>n s. (Inr (), s))"

definition verifyRangeState_run ::
  "'d env \<Rightarrow> u32 \<Rightarrow> u32 \<Rightarrow> bool \<Rightarrow> 'd sys \<Rightarrow> 'd outcome option" where
  "verifyRangeState_run env fromLedger toLedger verify s =
     (if fromLedger = 0 \<or> toLedger = 0 \<or> toLedger < fromLedger
      then Some (ret_err stop (InvalidRange fromLedger toLedger) s)
      else
      try_call (Begin env) (\<lambda>e s. Some (ret_err stop e s)) (\<lambda>_ s. deferRollback (
        try_call (GetLastLedgerIngest env) (\<lambda>e s. Some (ret_err stop e s)) (\<lambda>lastIngestedLedger.
        if lastIngestedLedger \<noteq> 0 then (\<lambda>s. Some (ret_err stop (Message ''Database not empty'') s))
        else
        try_call (PrepareRange env) (\<lambda>e s. Some (ret_err stop e s)) (\<lambda>_.
        try_call (GetLedger env fromLedger) (\<lambda>e s. Some (ret_err stop e s)) (\<lambda>m.
        try_call (RunHistoryArchiveIngestion env (metaSequence m) False (metaProtocolVersion m)
                    (metaBucketListHash m)) (\<lambda>e s. Some (ret_err stop e s)) (\<lambda>_.
        try_call (completeIngestion env fromLedger) (\<lambda>e s. Some (ret_err stop e s)) (\<lambda>_ s.
          (case verifyRange_loop env (fromLedger + 1) toLedger m s of
             None \<Rightarrow> None
           | Some (Inl e, s1) \<Rightarrow> Some (ret_err stop e s1)
           | Some (Inr m', s1) \<Rightarrow>
               Some (try_call (RebuildTradeAggregationBuckets env fromLedger toLedger) (ret_err stop) (\<lambda>_.
                     try_call (if verify then verifyState_call env else (\<lambda>s. (Inr (), s)))
                       (ret_err stop) (\<lambda>_. ret stop)) s1))))))) s)) s)"

definition stressTestState_run :: "'d env \<Rightarrow> 'd sys \<Rightarrow> 'd outcome" where
  "stressTestState_run env =
     in_tx env (ret_err stop)
     (try_call (GetLastLedgerIngest env) (ret_err stop) (\<lambda>lastIngestedLedger.
      if lastIngestedLedger \<noteq> 0 then ret_err stop (Message ''Database not empty'')
      else
      let sequence = lastIngestedLedger + 1 in
      try_call (GetLedger env sequence) (ret_err stop) (\<lambda>ledgerCloseMeta.
      try_call (RunAllProcessorsOnLedger env ledgerCloseMeta) (ret_err stop) (\<lambda>_.
      try_call (completeIngestion env sequence) (ret_err stop) (\<lambda>_. ret stop)))))"

subsection \<open>The machine\<close>

fun run :: "'d env \<Rightarrow> node \<Rightarrow> 'd sys \<Rightarrow> 'd outcome option" where
  "run env stopState s = Some (ret_err stop (Message ''Cannot run terminal state'') s)"
| "run env (startState c) s = Some (startState_run env c s)"
| "run env (buildState c sk st) s = Some (buildState_run env c sk st s)"
| "run env (resumeState l) s = Some (resumeState_run env l s)"
| "run env waitForCheckpointState s = Some (waitForCheckpointState_run s)"
| "run env (verifyRangeState a b v) s = verifyRangeState_run env a b v s"
| "run env stressTestState s = Some (stressTestState_run env s)"
| "run env (historyRangeState a b) s = historyRangeState_run env a b s"
| "run env (reingestHistoryRangeState a b f) s = reingestHistoryRangeState_run env a b f s"

text \<open>
  One iteration of \<open>runStateMachine\<close>: the check that no transaction is open, the node, and the
  decision to return (on the stop node, a terminal error, or when the context is cancelled during the
  sleep) or to go on. \<open>isTerminalError\<close> is asked about the absent error too, as in the code.
\<close>

datatype iteration = UnexpectedTransaction | Returned "ingest_error option" | Continue node

record machine_options =
  isTerminalError :: "ingest_error option \<Rightarrow> bool"
  ctxDone :: "nat \<Rightarrow> bool"

definition machine_iteration ::
  "'d env \<Rightarrow> machine_options \<Rightarrow> node \<Rightarrow> 'd sys \<Rightarrow> (iteration \<times> 'd sys) option" where
  "machine_iteration env opts cur s =
     (if tx s \<noteq> None then Some (UnexpectedTransaction, s)
      else case run env cur s of
        None \<Rightarrow> None
      | Some ((next, err), s') \<Rightarrow>
          Some (if next_node next = stopState \<or> isTerminalError opts err then (Returned err, s')
                else if ctxDone opts (clock s') then (Returned None, s')
                else (Continue (next_node next), s')))"

fun runStateMachine ::
  "nat \<Rightarrow> 'd env \<Rightarrow> machine_options \<Rightarrow> node \<Rightarrow> 'd sys \<Rightarrow> (iteration \<times> 'd sys) option" where
  "runStateMachine 0 env opts cur s = Some (Continue cur, s)"
| "runStateMachine (Suc n) env opts cur s =
     (case machine_iteration env opts cur s of
        None \<Rightarrow> None
      | Some (Continue next, s') \<Rightarrow> runStateMachine n env opts next s'
      | Some r \<Rightarrow> Some r)"

end
