(* ===== verification/Fsm_Inv.thy ===== *)
theory Fsm_Inv
  imports Fsm
begin

text \<open>
  What one run of a node does to the database: each effect lemma says that the committed database is
  unchanged or changed in exactly one way, under exactly the guards of the code, whatever calls fail.
  The invariants of the ingestion system, the exclusion of other instances during a load test and the
  absence of leaked transactions follow from them.
\<close>

lemma in_tx_eq:
  "tx s = None \<Longrightarrow> in_tx env h body s =
     (if fails env CBegin (clock s) then h (CallFailed CBegin) (tick s)
      else map_prod id Rollback (body ((tick s)\<lparr>tx := Some (committed s)\<rparr>)))"
  by (simp add: in_tx_def split: prod.split)

definition load_mismatch :: "(string \<times> u32) option \<Rightarrow> string \<Rightarrow> bool" where
  "load_mismatch lt rid \<longleftrightarrow> (case lt of None \<Rightarrow> rid \<noteq> [] | Some (r, _) \<Rightarrow> r \<noteq> rid)"

lemma try_checkPendingLoadTest [simp]:
  "try_call (checkPendingLoadTest env) h k s =
     (if fails env CGetLoadTestRestoreState (clock s)
      then h (CallFailed CGetLoadTestRestoreState) (tick s)
      else if load_mismatch (loadTest (current_db s)) (runId s) then h LoadTestMismatch (tick s)
      else k () (tick s))"
  by (simp add: checkPendingLoadTest_def go_defs load_mismatch_def try_call_def svc_read_def svc_def
      Let_def split: option.splits)

lemma try_maybePrepareRange [simp]:
  "try_call (maybePrepareRange env) h k s =
     (if fails env CIsPrepared (clock s) then h (CallFailed CIsPrepared) (tick s)
      else if isPrepared env (clock s) then k () (tick s)
      else if fails env CPrepareRange (Suc (clock s))
      then h (CallFailed CPrepareRange) (tick (tick s)) else k () (tick (tick s)))"
  by (simp add: maybePrepareRange_def IsPrepared_def PrepareRange_def)

lemmas node_defs = startState_run_def buildState_run_def resumeState_run_def
  waitForCheckpointState_run_def stressTestState_run_def completeIngestion_def
  ret_def ret_err_def PrepareRange_def GetLatestLedgerSequence_def in_tx_eq go_defs Rollback_def Let_def

text \<open>The instance may write: no load test is running, or its own.\<close>

definition load_guard :: "'d sys \<Rightarrow> bool" where
  "load_guard s \<longleftrightarrow> \<not> load_mismatch (loadTest (committed s)) (runId s)"

lemma start_effect:
  assumes "tx s = None" and "startState_run env c s = (r, s')"
  shows "tx s' = None \<and> runId s' = runId s \<and>
    (committed s' = committed s \<or>
     load_guard s \<and> committed s' = (committed s)\<lparr>lastLedger := 0\<rparr>)"
  using assms
  by (simp add: node_defs cong: try_call_cong split: if_splits dbState.splits)
     (auto simp: load_guard_def)

lemma try_completeIngestion [simp]:
  "tx s = Some w \<Longrightarrow> try_call (completeIngestion env l) h k s =
     (if l = 0 then h LedgerNotPositive s
      else if fails env CUpdateLastLedgerIngest (clock s) then h (CallFailed CUpdateLastLedgerIngest) (tick s)
      else if fails env CCommit (Suc (clock s))
      then h (CallFailed CCommit) (s\<lparr>clock := Suc (Suc (clock s)), tx := None\<rparr>)
      else k () (s\<lparr>clock := Suc (Suc (clock s)), tx := None, committed := w\<lparr>lastLedger := l\<rparr>\<rparr>))"
  by (simp add: completeIngestion_def go_defs)

lemma build_ingest_effect:
  assumes "tx s = None" and "c \<noteq> 0" and "buildState_ingest env c sk st nf pv bh s = (r, s')"
  shows "tx s' = None \<and> runId s' = runId s \<and>
    (committed s' = committed s \<or>
     load_guard s \<and>
     \<not> (ingestVersion (committed s) = CurrentVersion \<and> 0 < lastLedger (committed s)) \<and>
     committed s' = (committed s)\<lparr>lastLedger := c, stateInvalid := False, ingestVersion := CurrentVersion,
       stateTables := applySnapshot env c (emptyState env)\<rparr>)"
  using assms
  by (simp add: buildState_ingest_def in_tx_eq go_defs Rollback_def ret_def ret_err_def
      RunHistoryArchiveIngestion_def Let_def cong: try_call_cong split: if_splits option.splits)
     (auto simp: load_guard_def)

lemma build_effect:
  assumes "tx s = None" and "buildState_run env c sk st s = (r, s')"
  shows "tx s' = None \<and> runId s' = runId s \<and>
    (committed s' = committed s \<or>
     load_guard s \<and> c \<noteq> 0 \<and>
     \<not> (ingestVersion (committed s) = CurrentVersion \<and> 0 < lastLedger (committed s)) \<and>
     committed s' = (committed s)\<lparr>lastLedger := c, stateInvalid := False, ingestVersion := CurrentVersion,
       stateTables := applySnapshot env c (emptyState env)\<rparr>)"
proof -
  have *: "\<exists>nf pv bh n. buildState_ingest env c sk st nf pv bh (s\<lparr>clock := n\<rparr>) = (r, s')"
    if "c \<noteq> 0" and ch: "\<not> (tx s' = None \<and> runId s' = runId s \<and> committed s' = committed s)"
  proof (cases sk)
    case True
    then have "buildState_ingest env c sk st (if st then stop else start_t) 0 0 (s\<lparr>clock := clock s\<rparr>) = (r, s')"
      using assms(2) that(1) by (simp add: buildState_run_def)
    then show ?thesis by blast
  next
    case False
    with assms that show ?thesis
      by (auto simp: buildState_run_def ret_err_def Let_def cong: try_call_cong split: if_splits option.splits)
  qed
  have z: "c = 0 \<Longrightarrow> tx s' = None \<and> runId s' = runId s \<and> committed s' = committed s"
    using assms by (auto simp: buildState_run_def ret_err_def Let_def)
  show ?thesis
  proof (cases "tx s' = None \<and> runId s' = runId s \<and> committed s' = committed s")
    case False
    with z have c: "c \<noteq> 0" by blast
    with * False obtain nf pv bh n
      where "buildState_ingest env c sk st nf pv bh (s\<lparr>clock := n\<rparr>) = (r, s')" by blast
    from build_ingest_effect [OF _ c this] assms(1) c show ?thesis by (simp add: load_guard_def)
  qed simp
qed

lemma try_RunAllProcessorsOnLedger [simp]:
  "tx s = Some w \<Longrightarrow> try_call (RunAllProcessorsOnLedger env m) h k s =
     (let w1 = w\<lparr>stateTables := applyChanges env m (stateTables w)\<rparr>; n = clock s in
      case checkIfProtocolVersionSupported env (metaProtocolVersion m) of
        Some e \<Rightarrow> h e s
      | None \<Rightarrow>
          if fails env CChangeProcessors n
          then h (CallFailed CChangeProcessors) (s\<lparr>clock := Suc n, tx := Some (partialWrites env n w)\<rparr>)
          else if fails env CTransactionProcessors (Suc n)
          then h (CallFailed CTransactionProcessors)
                 (s\<lparr>clock := Suc (Suc n), tx := Some (partialWrites env (Suc n) w1)\<rparr>)
          else if metaSequence m \<in> set (historyLedgers w)
          then h DuplicateLedger (s\<lparr>clock := Suc (Suc n), tx := Some (partialWrites env (Suc n) w1)\<rparr>)
          else k () (s\<lparr>clock := Suc (Suc n), tx := Some (w1\<lparr>historyLedgers :=
                 historyLedgers w @ mapOrder env (Suc n) [metaSequence m]\<rparr>)\<rparr>))"
  by (simp add: runner_defs split: option.split)

lemma maybe_tasks_frame [simp]:
  "committed (maybeVerifyState env l h s) = committed s" "tx (maybeVerifyState env l h s) = tx s"
  "runId (maybeVerifyState env l h s) = runId s"
  "committed (maybeReapHistory env l s) = committed s" "tx (maybeReapHistory env l s) = tx s"
  "runId (maybeReapHistory env l s) = runId s"
  "committed (maybeReapLookupTables env l s) = committed s" "tx (maybeReapLookupTables env l s) = tx s"
  "runId (maybeReapLookupTables env l s) = runId s"
  by (simp_all add: maybeVerifyState_def maybeReapHistory_def maybeReapLookupTables_def go_defs
      GetBackendLatest_def split: if_splits)


lemma resume_guard:
  fixes a b :: u32
  assumes "\<not> a + 1 < b" and "\<not> b \<le> a"
  shows "b = a + 1 \<and> b \<noteq> 0"
proof -
  have ab: "unat a < unat b" using assms(2) by (simp add: word_le_nat_alt)
  moreover have "unat b < 2 ^ 32" using unsigned_less [of b] by simp
  ultimately have "unat a + 1 < 2 ^ 32" by simp
  then have "unat (a + 1) = Suc (unat a)"
    using unat_add_no_wrap [of a 1] by simp
  moreover have "unat b \<le> unat (a + 1)" using assms(1) by (simp add: word_less_nat_alt)
  ultimately have "b = a + 1" using ab by (simp add: word_unat_eq_iff)
  moreover have "b \<noteq> 0" using ab by auto
  ultimately show ?thesis by simp
qed

text \<open>The database \<open>d\<close> advanced from ledger \<open>l\<close> to the next one, with the guards of \<open>resumeState.run\<close>.\<close>

definition resume_advance :: "'d env \<Rightarrow> u32 \<Rightarrow> 'd db \<Rightarrow> 'd db \<Rightarrow> bool" where
  "resume_advance env l d d' \<longleftrightarrow>
     l \<noteq> 0 \<and> l + 1 \<noteq> 0 \<and> lastLedger d = l \<and> ingestVersion d = CurrentVersion \<and>
     (latest_ledger (historyLedgers d) = 0 \<or> latest_ledger (historyLedgers d) = l) \<and>
     (\<exists>m n. backendLedger env (l + 1) = Some m \<and> metaSequence m \<notin> set (historyLedgers d) \<and>
        d' = d\<lparr>lastLedger := l + 1, stateTables := applyChanges env m (stateTables d),
               historyLedgers := historyLedgers d @ mapOrder env n [metaSequence m],
               tradeRebuilds := tradeRebuilds d @ [(l + 1, l + 1)]\<rparr>)"

lemma resume_advanceI:
  assumes "\<not> lastLedger d + 1 < l + 1" and "\<not> l + 1 \<le> lastLedger d" and "l \<noteq> 0"
    and "ingestVersion d = CurrentVersion"
    and "latest_ledger (historyLedgers d) = 0 \<or> latest_ledger (historyLedgers d) = lastLedger d"
    and "backendLedger env (l + 1) = Some m" and "metaSequence m \<notin> set (historyLedgers d)"
  shows "resume_advance env l d (d\<lparr>stateTables := applyChanges env m (stateTables d),
     historyLedgers := historyLedgers d @ mapOrder env n [metaSequence m],
     tradeRebuilds := tradeRebuilds d @ [(l + 1, l + 1)], lastLedger := l + 1\<rparr>)"
  using assms resume_guard [OF assms(1,2)] unfolding resume_advance_def
  by (intro conjI exI [of _ m] exI [of _ n]) auto

lemma resume_ingest_effect:
  assumes "tx s = None" and "l \<noteq> 0" and "backendLedger env (l + 1) = Some m"
    and "resumeState_ingest env l m s = (r, s')"
  shows "tx s' = None \<and> runId s' = runId s \<and>
    (committed s' = committed s \<or>
     load_guard s \<and> r = (resumeImmediately (l + 1), None) \<and>
     resume_advance env l (committed s) (committed s'))"
  using assms
  by (simp add: resumeState_ingest_def in_tx_eq go_defs Rollback_def ret_def ret_err_def Let_def
      cong: try_call_cong split: if_splits option.splits)
    (auto simp: load_guard_def intro!: resume_advanceI)

lemma resume_effect:
  assumes "tx s = None" and "resumeState_run env l s = (r, s')"
  shows "tx s' = None \<and> runId s' = runId s \<and>
    (committed s' = committed s \<or>
     load_guard s \<and> r = (resumeImmediately (l + 1), None) \<and>
     resume_advance env l (committed s) (committed s'))"
proof (cases "tx s' = None \<and> runId s' = runId s \<and> committed s' = committed s")
  case False
  with assms have l: "l \<noteq> 0" by (auto simp: resumeState_run_def ret_err_def)
  obtain m n where m: "backendLedger env (l + 1) = Some m"
    and i: "resumeState_ingest env l m (s\<lparr>clock := n\<rparr>) = (r, s')"
    using assms False l
    by (auto simp: resumeState_run_def ret_err_def cong: try_call_cong split: if_splits option.splits)
  from resume_ingest_effect [OF _ l m i] assms(1) show ?thesis by (simp add: load_guard_def)
qed simp

end
