(* ===== verification/Fsm_Ranges.thy ===== *)
theory Fsm_Ranges
  imports Fsm_Inv
begin

text \<open>
  The nodes that loop over a range of ledgers. The loops are total because the backend has no ledger
  0, where a range up to the largest \<open>uint32\<close> would wrap to; with that, each loop returns, and the rows
  it has written when it returns are exactly the ledgers of the flushed batches.
\<close>

definition ledger_state :: "'d env \<Rightarrow> u32 \<Rightarrow> 'd" where
  "ledger_state env q = applySnapshot env q (emptyState env)"

text \<open>
  What the model relies on from the services: the backend answers with the ledger asked for and has
  no ledger 0; iterating over a map visits every key once; the changes of a ledger lead from the state
  at the previous ledger to the state at this one, states being what the history archive has.
\<close>

definition env_ok :: "'d env \<Rightarrow> bool" where
  "env_ok env \<longleftrightarrow>
     (\<forall>q m. backendLedger env q = Some m \<longrightarrow> q \<noteq> 0 \<and> metaSequence m = q) \<and>
     (\<forall>n xs. mset (mapOrder env n xs) = mset xs) \<and>
     (\<forall>q m. q \<noteq> 0 \<longrightarrow> backendLedger env (q + 1) = Some m \<longrightarrow>
        applyChanges env m (ledger_state env q) = ledger_state env (q + 1))"

lemma env_okD:
  assumes "env_ok env"
  shows "backendLedger env q = Some m \<Longrightarrow> q \<noteq> 0 \<and> metaSequence m = q"
    and "mset (mapOrder env n xs) = mset xs"
    and "q \<noteq> 0 \<Longrightarrow> backendLedger env (q + 1) = Some m \<Longrightarrow>
           applyChanges env m (ledger_state env q) = ledger_state env (q + 1)"
  using assms by (auto simp: env_ok_def)

lemma mapOrder_set [simp]: "env_ok env \<Longrightarrow> set (mapOrder env n xs) = set xs"
  using env_okD(2) mset_eq_setD by blast

lemma mapOrder_distinct [simp]: "env_ok env \<Longrightarrow> distinct (mapOrder env n xs) = distinct xs"
  using env_okD(2) mset_eq_imp_distinct_iff by blast

subsection \<open>Runs of ledger sequences\<close>

definition seqs :: "nat \<Rightarrow> nat \<Rightarrow> u32 list" where
  "seqs a b = map of_nat [a..<b]"

lemma set_seqs: "b \<le> 2 ^ 32 \<Longrightarrow> set (seqs a b) = {x. a \<le> unat x \<and> unat x < b}"
proof -
  assume "b \<le> 2 ^ 32"
  then have "unat (of_nat n :: u32) = n" if "n < b" for n using that by (simp add: unat_of_nat)
  moreover have "x \<in> set (seqs a b)" if "a \<le> unat x" "unat x < b" for x
  proof -
    have "x = of_nat (unat x)" by simp
    then show ?thesis using that unfolding seqs_def by (auto intro!: image_eqI [of _ _ "unat x"] simp del: of_nat_unat)
  qed
  ultimately show ?thesis by (auto simp: seqs_def)
qed

lemma seqs_Suc: "a \<le> b \<Longrightarrow> seqs a (Suc b) = seqs a b @ [of_nat b]"
  by (simp add: seqs_def)

lemma distinct_seqs: "b \<le> 2 ^ 32 \<Longrightarrow> distinct (seqs a b)"
  by (auto simp: seqs_def distinct_map inj_on_def dest!: arg_cong [where f = unat])
     (simp add: unat_of_nat)

lemma seqs_append: "a \<le> b \<Longrightarrow> b \<le> c \<Longrightarrow> seqs a b @ seqs b c = seqs a c"
  by (metis le_add_diff_inverse map_append seqs_def upt_add_eq_append)

lemma set_seqs_range: "set (seqs (unat a) (Suc (unat b))) = {a..b}"
proof -
  have "unat b < 2 ^ 32" using unsigned_less [of b] by simp
  then show ?thesis by (auto simp: set_seqs word_le_nat_alt)
qed

subsection \<open>Flushing a batch inside a transaction\<close>

text \<open>\<open>d'\<close> is \<open>d\<close> with one new row for each ledger from \<open>p\<close> to before \<open>q\<close>, in some order.\<close>

definition history_ext :: "nat \<Rightarrow> nat \<Rightarrow> 'd db \<Rightarrow> 'd db \<Rightarrow> bool" where
  "history_ext p q d d' \<longleftrightarrow> (\<exists>h. mset h = mset (seqs p q) \<and> set h \<inter> set (historyLedgers d) = {} \<and>
     d' = d\<lparr>historyLedgers := historyLedgers d @ h\<rparr>)"

lemma history_ext_refl [simp]: "history_ext p p d d"
  by (simp add: history_ext_def seqs_def)

lemma history_ext_trans:
  assumes "history_ext p q d d'" and "history_ext q r d' d''" and "p \<le> q" and "q \<le> r"
  shows "history_ext p r d d''"
proof -
  obtain h h' where "mset h = mset (seqs p q)" "set h \<inter> set (historyLedgers d) = {}"
    "d' = d\<lparr>historyLedgers := historyLedgers d @ h\<rparr>" "mset h' = mset (seqs q r)"
    "set h' \<inter> set (historyLedgers d') = {}" "d'' = d'\<lparr>historyLedgers := historyLedgers d' @ h'\<rparr>"
    using assms(1,2) unfolding history_ext_def by blast
  then have "mset (h @ h') = mset (seqs p r) \<and> set (h @ h') \<inter> set (historyLedgers d) = {} \<and>
      d'' = d\<lparr>historyLedgers := historyLedgers d @ (h @ h')\<rparr>"
    by (auto simp flip: seqs_append [OF assms(3,4)])
  then show ?thesis unfolding history_ext_def by blast
qed

lemma flush_history_ext:
  assumes "env_ok env" and "map metaSequence ls = seqs p (p + length ls)" and "p + length ls \<le> 2 ^ 32"
    and "LedgersProcessor_Flush env (LedgersProcessor_ledgers ls) n d = Inr d'"
  shows "history_ext p (p + length ls) d d'"
  using assms distinct_seqs [OF assms(3), of p] unfolding history_ext_def
  by (intro exI [of _ "mapOrder env n (seqs p (p + length ls))"])
     (auto simp: LedgersProcessor_Flush_def LedgersProcessor_ledgers_def env_okD(2)
      distinct_remdups_id split: if_splits)

text \<open>
  A flush writes all of its batch or none: with its own transaction it commits the batch or leaves the
  database unchanged, inside the node's transaction it extends the working copy.
\<close>

lemma RunTransactionProcessorsOnLedgers_effect:
  assumes "env_ok env" and "map metaSequence ls = seqs p (p + length ls)" and "p + length ls \<le> 2 ^ 32"
    and "RunTransactionProcessorsOnLedgers env ls inTx s = (r, s')" and "inTx \<longleftrightarrow> tx s = None"
  shows "runId s' = runId s \<and> (tx s' = None \<longleftrightarrow> tx s = None) \<and> (tx s \<noteq> None \<longrightarrow> committed s' = committed s) \<and>
    (case r of Inr _ \<Rightarrow> history_ext p (p + length ls) (current_db s) (current_db s')
             | Inl _ \<Rightarrow> committed s' = committed s)"
proof (cases "tx s")
  case None
  with assms show ?thesis
    by (auto simp: RunTransactionProcessorsOnLedgers_def flushProcessors_def Rollback_def Commit_def Let_def
        intro: flush_history_ext cong: try_call_cong split: if_splits option.splits sum.splits prod.splits)
next
  case (Some w)
  with assms show ?thesis
    by (auto simp: RunTransactionProcessorsOnLedgers_def flushProcessors_def svc_process_def Let_def
        intro: flush_history_ext split: if_splits option.splits sum.splits)
qed

subsection \<open>The batching loop\<close>

lemma GetLedger_cases:
  assumes "env_ok env"
  obtains e where "GetLedger env q s = (Inl e, tick s)"
  | m where "GetLedger env q s = (Inr m, tick s)" and "q \<noteq> 0" and "metaSequence m = q"
  using env_okD(1) [OF assms, of q]
  by (cases "fails env CGetLedger (clock s)"; cases "backendLedger env q")
     (simp_all add: GetLedger_def svc_def Let_def)

text \<open>
  Position of a loop: the ledgers before \<open>p\<close> are flushed, the batch \<open>ls\<close> holds the ledgers from \<open>p\<close>
  on, and \<open>cur\<close> is the next one (0 when the range ends at the largest \<open>uint32\<close>).
\<close>

definition loop_pos :: "nat \<Rightarrow> LedgerMeta list \<Rightarrow> u32 \<Rightarrow> u32 \<Rightarrow> bool" where
  "loop_pos p ls cur to \<longleftrightarrow> map metaSequence ls = seqs p (p + length ls) \<and>
     cur = of_nat (p + length ls) \<and> p + length ls \<le> Suc (unat to)"

lemma loop_pos_bound: "loop_pos p ls cur to \<Longrightarrow> p + length ls \<le> 2 ^ 32 \<and> Suc (unat to) \<le> 2 ^ 32"
proof -
  assume "loop_pos p ls cur to"
  moreover have "unat to < 2 ^ 32" using unsigned_less [of to] by simp
  ultimately show ?thesis by (simp add: loop_pos_def)
qed

lemma loop_pos_start: "from \<le> to \<Longrightarrow> loop_pos (unat from) [] from to"
  by (simp add: loop_pos_def seqs_def word_le_nat_alt)

lemma loop_pos_step:
  assumes "loop_pos p ls cur to" and "cur \<le> to" and "cur \<noteq> 0" and "metaSequence m = cur"
  shows "p + length ls < 2 ^ 32 \<and> p + length ls \<le> unat to \<and> loop_pos p (ls @ [m]) (cur + 1) to"
proof -
  have b: "p + length ls < 2 ^ 32"
    using loop_pos_bound [OF assms(1)] assms(1,3) by (cases "p + length ls = 2 ^ 32") (auto simp: loop_pos_def)
  with assms(1,2) have "p + length ls \<le> unat to"
    by (simp add: loop_pos_def word_le_nat_alt unat_of_nat del: of_nat_add)
  with b assms show ?thesis by (simp add: loop_pos_def seqs_Suc add.commute)
qed

lemma loop_pos_done: "loop_pos p ls cur to \<Longrightarrow> \<not> cur \<le> to \<Longrightarrow> p + length ls = Suc (unat to)"
  using loop_pos_bound [of p ls cur to]
  by (cases "p + length ls = 2 ^ 32") (auto simp: loop_pos_def word_le_nat_alt unat_of_nat simp del: of_nat_add)

lemma loop_pos_flush: "loop_pos p ls cur to \<Longrightarrow> loop_pos (p + length ls) [] cur to"
  by (simp add: loop_pos_def seqs_def)

text \<open>
  The history range node and the reingest node share the shape of their loop: read the next ledger,
  add it to the batch, flush a full batch. The locale states that shape and what a client wants to
  know of it as a relation \<open>Q p s res\<close> between the position of the last flush, the state and the
  result; inside it the loop is shown to return, with a result in that relation.
\<close>

locale batch_loop =
  fixes loop :: "'d env \<Rightarrow> u32 \<Rightarrow> u32 \<Rightarrow> LedgerMeta list \<Rightarrow> 'd sys \<Rightarrow> ((ingest_error + LedgerMeta list) \<times> 'd sys) option"
    and full :: "'d env \<Rightarrow> nat \<Rightarrow> bool"
    and inTx :: bool
    and onError :: "'d env \<Rightarrow> 'd sys \<Rightarrow> 'd sys"
    and ready :: "'d sys \<Rightarrow> bool"
    and Q :: "nat \<Rightarrow> u32 \<Rightarrow> 'd sys \<Rightarrow> ((ingest_error + LedgerMeta list) \<times> 'd sys) \<Rightarrow> bool"
  assumes loop_eq: "loop env cur to ls s =
     (if cur \<le> to then
        (case GetLedger env cur s of
           (Inl e, s1) \<Rightarrow> Some (Inl e, onError env s1)
         | (Inr m, s1) \<Rightarrow>
              if full env (Suc (length ls)) then
                (case RunTransactionProcessorsOnLedgers env (ls @ [m]) inTx s1 of
                   (Inl e, s2) \<Rightarrow> Some (Inl e, s2)
                 | (Inr _, s2) \<Rightarrow> loop env (cur + 1) to [] s2)
              else loop env (cur + 1) to (ls @ [m]) s1)
      else Some (Inr ls, s))"
    and ready_tick: "ready (tick s) = ready s"
    and Q_tick: "Q p to (tick s) res = Q p to s res"
    and Q_done: "ready s \<Longrightarrow> loop_pos p ls (to + 1) to \<Longrightarrow> p + length ls = Suc (unat to) \<Longrightarrow> Q p to s (Inr ls, s)"
    and Q_error: "ready s \<Longrightarrow> p \<le> Suc (unat to) \<Longrightarrow> Q p to s (Inl e, onError env (tick s))"
    and Q_flush_error: "env_ok env \<Longrightarrow> ready s \<Longrightarrow> loop_pos p ls cur to \<Longrightarrow>
       RunTransactionProcessorsOnLedgers env ls inTx s = (Inl e, s') \<Longrightarrow> Q p to s (Inl e, s')"
    and Q_flush: "env_ok env \<Longrightarrow> ready s \<Longrightarrow> loop_pos p ls cur to \<Longrightarrow>
       RunTransactionProcessorsOnLedgers env ls inTx s = (Inr u, s') \<Longrightarrow>
       ready s' \<and> (Q (p + length ls) to s' res \<longrightarrow> Q p to s res)"
begin

lemma loop_returns:
  assumes env: "env_ok env" and "loop_pos p ls cur to" and "ready s"
  shows "\<exists>res. loop env cur to ls s = Some res \<and> Q p to s res"
  using assms(2-)
proof (induction "2 ^ 32 - (p + length ls)" arbitrary: p ls cur s rule: less_induct)
  case less
  note pos = less.prems(1) and ready = less.prems(2)
  show ?case
  proof (cases "cur \<le> to")
    case False
    have "p + length ls = Suc (unat to)" using loop_pos_done [OF pos False] .
    then have "Q p to s (Inr ls, s)" using Q_done [OF ready] pos by (simp add: loop_pos_def)
    with False show ?thesis by (simp add: loop_eq [of env cur])
  next
    case True
    have p: "p \<le> Suc (unat to)" using pos by (simp add: loop_pos_def)
    show ?thesis
    proof (cases rule: GetLedger_cases [OF env, of cur s])
      case (1 e)
      with True Q_error [OF ready p] show ?thesis by (simp add: loop_eq [of env cur])
    next
      case (2 m)
      let ?ls = "ls @ [m]"
      note step = loop_pos_step [OF pos True 2(2,3)]
      then have pos': "loop_pos p ?ls (cur + 1) to" by blast
      have less1: "2 ^ 32 - (p + length ?ls) < 2 ^ 32 - (p + length ls)"
        using step by (simp del: One_nat_def) linarith
      have ready': "ready (tick s)" using ready ready_tick by simp
      show ?thesis
      proof (cases "full env (Suc (length ls))")
        case False
        with 2 True less.hyps [OF less1 pos' ready'] show ?thesis by (simp add: loop_eq [of env cur] Q_tick)
      next
        case flush: True
        obtain r s2 where run: "RunTransactionProcessorsOnLedgers env ?ls inTx (tick s) = (r, s2)"
          by fastforce
        show ?thesis
        proof (cases r)
          case (Inl e)
          with run 2 True flush Q_flush_error [OF env ready' pos'] show ?thesis
            by (simp add: loop_eq [of env cur] Q_tick)
        next
          case (Inr u)
          have less2: "2 ^ 32 - (p + length ?ls + length []) < 2 ^ 32 - (p + length ls)" using less1 by simp
          note flushed = Q_flush [OF env ready' pos' run [unfolded Inr]]
          obtain res where "loop env (cur + 1) to [] s2 = Some res" "Q (p + length ?ls) to s2 res"
            using less.hyps [OF less2 loop_pos_flush [OF pos']] flushed by blast
          with run 2 True flush Inr flushed show ?thesis by (auto simp: loop_eq [of env cur] Q_tick)
        qed
      qed
    qed
  qed
qed

end

lemma loop_flush_effect:
  assumes "env_ok env" and "loop_pos p ls cur to"
    and "RunTransactionProcessorsOnLedgers env ls inTx s = (r, s')" and "inTx \<longleftrightarrow> tx s = None"
  shows "p \<le> Suc (unat to) \<and> p + length ls \<le> Suc (unat to) \<and> runId s' = runId s \<and>
    (tx s' = None \<longleftrightarrow> tx s = None) \<and> (tx s \<noteq> None \<longrightarrow> committed s' = committed s) \<and>
    (case r of Inr _ \<Rightarrow> history_ext p (p + length ls) (current_db s) (current_db s')
             | Inl _ \<Rightarrow> committed s' = committed s)"
  using RunTransactionProcessorsOnLedgers_effect [OF assms(1) _ _ assms(3,4)] assms(2)
    loop_pos_bound [OF assms(2)] by (simp add: loop_pos_def)

subsection \<open>The loop of the history range node\<close>

definition range_result :: "nat \<Rightarrow> u32 \<Rightarrow> 'd sys \<Rightarrow> ((ingest_error + LedgerMeta list) \<times> 'd sys) \<Rightarrow> bool" where
  "range_result p to s res \<longleftrightarrow> (case res of (r, s') \<Rightarrow>
     runId s' = runId s \<and>
     (\<exists>q. p \<le> q \<and> q \<le> Suc (unat to) \<and>
       (case r of
          Inr ls \<Rightarrow> tx s' \<noteq> None \<and> committed s' = committed s \<and>
                    loop_pos q ls (to + 1) to \<and> q + length ls = Suc (unat to) \<and>
                    history_ext p q (current_db s) (current_db s')
        | Inl _ \<Rightarrow> committed s' = committed s \<or> history_ext p q (current_db s) (committed s'))))"

lemma range_result_tick [simp]: "range_result p to (tick s) res = range_result p to s res"
  by (cases res; cases "fst res") (simp_all add: range_result_def)

lemma range_result_step:
  assumes "range_result q to s' res" and "history_ext p q (current_db s) (current_db s')"
    and "committed s' = committed s" and "runId s' = runId s" and "p \<le> q"
  shows "range_result p to s res"
proof -
  obtain r s1 where res: "res = (r, s1)" by fastforce
  obtain t where "q \<le> t" and t: "p \<le> t" "t \<le> Suc (unat to)" and
    r: "case r of
          Inr ls \<Rightarrow> tx s1 \<noteq> None \<and> committed s1 = committed s' \<and>
                    loop_pos t ls (to + 1) to \<and> t + length ls = Suc (unat to) \<and>
                    history_ext q t (current_db s') (current_db s1)
        | Inl _ \<Rightarrow> committed s1 = committed s' \<or> history_ext q t (current_db s') (committed s1)"
    using assms(1,5) unfolding range_result_def res by auto
  note ext = history_ext_trans [OF assms(2) _ assms(5) \<open>q \<le> t\<close>]
  show ?thesis
    using assms(1,3,4) r t ext unfolding range_result_def res
    by (cases r) (auto intro!: exI [of _ t])
qed

interpretation hr: batch_loop historyRange_loop "\<lambda>env n. n = maxLedgerPerFlush env" False
  "\<lambda>env s. snd (Commit env s)" "\<lambda>s. tx s \<noteq> None" range_result
proof
  fix env :: "'a env" and s s' :: "'a sys" and p cur to ls e u res
  show "historyRange_loop env cur to ls s = (if cur \<le> to then
        (case GetLedger env cur s of
           (Inl e, s1) \<Rightarrow> Some (Inl e, snd (Commit env s1))
         | (Inr m, s1) \<Rightarrow>
              if Suc (length ls) = maxLedgerPerFlush env then
                (case RunTransactionProcessorsOnLedgers env (ls @ [m]) False s1 of
                   (Inl e, s2) \<Rightarrow> Some (Inl e, s2)
                 | (Inr _, s2) \<Rightarrow> historyRange_loop env (cur + 1) to [] s2)
              else historyRange_loop env (cur + 1) to (ls @ [m]) s1)
      else Some (Inr ls, s))"
    by (subst historyRange_loop.simps) (simp split: prod.split sum.split)
  show "tx s \<noteq> None \<Longrightarrow> loop_pos p ls (to + 1) to \<Longrightarrow> p + length ls = Suc (unat to) \<Longrightarrow>
      range_result p to s (Inr ls, s)"
    by (auto simp: range_result_def intro!: exI [of _ p])
  show "tx s \<noteq> None \<Longrightarrow> p \<le> Suc (unat to) \<Longrightarrow> range_result p to s (Inl e, snd (Commit env (tick s)))"
    by (auto simp: range_result_def Commit_def Let_def intro!: exI [of _ p])
  assume "env_ok env" "tx s \<noteq> None" "loop_pos p ls cur to"
  note eff = loop_flush_effect [OF this(1,3)] and tx = this(2)
  show "RunTransactionProcessorsOnLedgers env ls False s = (Inl e, s') \<Longrightarrow> range_result p to s (Inl e, s')"
    using eff tx by (fastforce simp: range_result_def intro!: exI [of _ p])
  show "RunTransactionProcessorsOnLedgers env ls False s = (Inr u, s') \<Longrightarrow>
      tx s' \<noteq> None \<and> (range_result (p + length ls) to s' res \<longrightarrow> range_result p to s res)"
    using eff [of False s "Inr u" s'] tx by (auto intro: range_result_step)
qed simp_all

subsection \<open>The loop of the reingest node\<close>

definition ingest_result :: "nat \<Rightarrow> u32 \<Rightarrow> 'd sys \<Rightarrow> ((ingest_error + LedgerMeta list) \<times> 'd sys) \<Rightarrow> bool" where
  "ingest_result p to s res \<longleftrightarrow> (case res of (r, s') \<Rightarrow>
     runId s' = runId s \<and> (tx s' = None \<longleftrightarrow> tx s = None) \<and> (tx s \<noteq> None \<longrightarrow> committed s' = committed s) \<and>
     (\<exists>q. p \<le> q \<and> q \<le> Suc (unat to) \<and>
       (case r of
          Inr ls \<Rightarrow> loop_pos q ls (to + 1) to \<and> q + length ls = Suc (unat to) \<and>
                    history_ext p q (current_db s) (current_db s')
        | Inl _ \<Rightarrow> tx s = None \<longrightarrow> history_ext p q (committed s) (committed s'))))"

lemma ingest_result_tick [simp]: "ingest_result p to (tick s) res = ingest_result p to s res"
  by (cases res; cases "fst res") (simp_all add: ingest_result_def)

lemma ingest_result_step:
  assumes "ingest_result q to s' res" and "history_ext p q (current_db s) (current_db s')"
    and "runId s' = runId s" and "tx s' = None \<longleftrightarrow> tx s = None" and "tx s \<noteq> None \<longrightarrow> committed s' = committed s"
    and "p \<le> q"
  shows "ingest_result p to s res"
proof -
  obtain r s1 where res: "res = (r, s1)" by fastforce
  obtain t where "q \<le> t" and t: "p \<le> t" "t \<le> Suc (unat to)" and
    r: "case r of
          Inr ls \<Rightarrow> loop_pos t ls (to + 1) to \<and> t + length ls = Suc (unat to) \<and>
                    history_ext q t (current_db s') (current_db s1)
        | Inl _ \<Rightarrow> tx s' = None \<longrightarrow> history_ext q t (committed s') (committed s1)"
    using assms(1,6) unfolding ingest_result_def res by auto
  note ext = history_ext_trans [OF assms(2) _ assms(6) \<open>q \<le> t\<close>]
  show ?thesis
    using assms(1,3,4,5) r t ext unfolding ingest_result_def res
    by (cases r) (auto intro!: exI [of _ t])
qed

interpretation ir: batch_loop "\<lambda>env cur to. ingestRange_loop env cur to inTx"
  "\<lambda>env n. n mod maxLedgerPerFlush env = 0" inTx "\<lambda>env s. s" "\<lambda>s. inTx \<longleftrightarrow> tx s = None" ingest_result
  for inTx :: bool
proof
  fix env :: "'a env" and s s' :: "'a sys" and p cur to ls e u res
  show "ingestRange_loop env cur to inTx ls s = (if cur \<le> to then
        (case GetLedger env cur s of
           (Inl e, s1) \<Rightarrow> Some (Inl e, s1)
         | (Inr m, s1) \<Rightarrow>
              if Suc (length ls) mod maxLedgerPerFlush env = 0 then
                (case RunTransactionProcessorsOnLedgers env (ls @ [m]) inTx s1 of
                   (Inl e, s2) \<Rightarrow> Some (Inl e, s2)
                 | (Inr _, s2) \<Rightarrow> ingestRange_loop env (cur + 1) to inTx [] s2)
              else ingestRange_loop env (cur + 1) to inTx (ls @ [m]) s1)
      else Some (Inr ls, s))"
    by (subst ingestRange_loop.simps) (simp split: prod.split sum.split)
  show "inTx \<longleftrightarrow> tx s = None \<Longrightarrow> loop_pos p ls (to + 1) to \<Longrightarrow> p + length ls = Suc (unat to) \<Longrightarrow>
      ingest_result p to s (Inr ls, s)"
    by (auto simp: ingest_result_def intro!: exI [of _ p])
  show "inTx \<longleftrightarrow> tx s = None \<Longrightarrow> p \<le> Suc (unat to) \<Longrightarrow> ingest_result p to s (Inl e, tick s)"
    by (auto simp: ingest_result_def intro!: exI [of _ p])
  assume "env_ok env" "inTx \<longleftrightarrow> tx s = None" "loop_pos p ls cur to"
  note eff = loop_flush_effect [OF this(1,3)  _ this(2)] and tx = this(2)
  show "RunTransactionProcessorsOnLedgers env ls inTx s = (Inl e, s') \<Longrightarrow> ingest_result p to s (Inl e, s')"
    using eff tx by (fastforce simp: ingest_result_def intro!: exI [of _ p])
  show "RunTransactionProcessorsOnLedgers env ls inTx s = (Inr u, s') \<Longrightarrow>
      (inTx \<longleftrightarrow> tx s' = None) \<and> (ingest_result (p + length ls) to s' res \<longrightarrow> ingest_result p to s res)"
    using eff [of "Inr u" s'] tx by (auto intro: ingest_result_step)
qed simp_all

subsection \<open>The history range node\<close>

lemma range_result_InrD:
  assumes "range_result p to s (Inr ls, s1)"
  obtains q where "p \<le> q" "q \<le> Suc (unat to)" "runId s1 = runId s" "tx s1 \<noteq> None" "committed s1 = committed s"
    "loop_pos q ls (to + 1) to" "q + length ls = Suc (unat to)" "history_ext p q (current_db s) (current_db s1)"
  using assms by (auto simp: range_result_def)

text \<open>
  The body commits the whole range, or, when the backend fails, the batches flushed before the failing
  ledger, or nothing. It returns without an error only when the whole range is committed.
\<close>

definition range_committed :: "u32 \<Rightarrow> u32 \<Rightarrow> 'd db \<Rightarrow> 'd db \<Rightarrow> bool" where
  "range_committed from to d d' \<longleftrightarrow> (\<exists>q. unat from \<le> q \<and> q \<le> Suc (unat to) \<and> history_ext (unat from) q d d')"

lemma range_committedI: "from \<le> to \<Longrightarrow> history_ext (unat from) (Suc (unat to)) d d' \<Longrightarrow> range_committed from to d d'"
  unfolding range_committed_def by (intro exI [of _ "Suc (unat to)"]) (simp add: word_le_nat_alt)

lemma historyRange_last_batch:
  assumes "env_ok env" and "loop_pos q ls (to + 1) to" and "q + length ls = Suc (unat to)"
    and "tx s = Some w" and "history_ext (unat from) q d w" and "unat from \<le> q"
    and "try_call (if ls = [] then (\<lambda>s. (Inr (), s)) else RunTransactionProcessorsOnLedgers env ls False)
           (ret_err start_t) (\<lambda>_. try_call (Commit env) (ret_err start_t) (\<lambda>_. ret start_t)) s = (r, s')"
  shows "runId s' = runId s \<and>
    (committed s' = committed s \<and> snd r \<noteq> None \<or>
     history_ext (unat from) (Suc (unat to)) d (committed s') \<and> r = (start_t, None))"
proof (cases "ls = []")
  case True
  with assms show ?thesis by (auto simp: ret_def ret_err_def split: if_splits)
next
  case False
  obtain r1 s1 where run: "RunTransactionProcessorsOnLedgers env ls False s = (r1, s1)" by fastforce
  have eff: "runId s1 = runId s" "tx s1 \<noteq> None" "committed s1 = committed s"
    "r1 = Inr () \<Longrightarrow> history_ext q (q + length ls) w (current_db s1)"
    using loop_flush_effect [OF assms(1,2) run] assms(4) by auto
  show ?thesis
  proof (cases r1)
    case (Inl e)
    with run eff False assms(7) show ?thesis by (auto simp: try_call_def ret_err_def)
  next
    case (Inr u)
    then have "history_ext (unat from) (Suc (unat to)) d (current_db s1)"
      using history_ext_trans [OF assms(5) _ assms(6)] eff(4) assms(3) by simp
    with Inr run eff False assms(7) show ?thesis
      by (auto simp: ret_def ret_err_def split: if_splits)
  qed
qed

lemma historyRange_body_effect:
  assumes "env_ok env" and "from \<le> to" and "tx s = Some d"
  shows "\<exists>r s'. historyRangeState_body env from to s = Some (r, s') \<and> runId s' = runId s \<and>
    (committed s' = committed s \<and> snd r \<noteq> None \<or> range_committed from to d (committed s') \<and> snd r \<noteq> None \<or>
     history_ext (unat from) (Suc (unat to)) d (committed s') \<and> r = (start_t, None))"
proof -
  obtain r s1 where loop: "historyRange_loop env from to [] s = Some (r, s1)"
    and res: "range_result (unat from) to s (r, s1)"
    using hr.loop_returns [OF assms(1) loop_pos_start [OF assms(2)]] assms(3) by force
  show ?thesis
  proof (cases r)
    case (Inl e)
    with loop res assms(3) show ?thesis
      by (auto simp: historyRangeState_body_def range_result_def range_committed_def ret_err_def)
  next
    case (Inr ls)
    with res obtain q where q: "unat from \<le> q" "runId s1 = runId s" "tx s1 \<noteq> None" "committed s1 = committed s"
      "loop_pos q ls (to + 1) to" "q + length ls = Suc (unat to)"
      and ext: "history_ext (unat from) q d (current_db s1)"
      using assms(3) by (auto elim!: range_result_InrD)
    obtain w where w: "tx s1 = Some w" using q(3) by blast
    have "history_ext (unat from) q d w" using ext w by simp
    note last = historyRange_last_batch [OF assms(1) q(5,6) w this q(1)]
    obtain r' s' where fin: "try_call
        (if ls = [] then (\<lambda>s. (Inr (), s)) else RunTransactionProcessorsOnLedgers env ls False)
        (ret_err start_t) (\<lambda>_. try_call (Commit env) (ret_err start_t) (\<lambda>_. ret start_t)) s1 = (r', s')"
      by fastforce
    then have "historyRangeState_body env from to s = Some (r', s')"
      using loop Inr by (simp add: historyRangeState_body_def)
    with last [OF fin] q(2,4) show ?thesis by auto
  qed
qed

lemma deferRollback_Some: "deferRollback (Some (r, s)) = Some (r, Rollback s)"
  by (simp add: deferRollback_def)

lemma historyRange_effect:
  assumes "env_ok env" and "tx s = None"
  shows "\<exists>r s'. historyRangeState_run env from to s = Some (r, s') \<and> tx s' = None \<and> runId s' = runId s \<and>
    (committed s' = committed s \<or>
     from \<noteq> 0 \<and> from \<le> to \<and> latest_ledger (historyLedgers (committed s)) = from - 1 \<and>
     range_committed from to (committed s) (committed s')) \<and>
    (snd r = None \<longrightarrow> latest_ledger (historyLedgers (committed s)) \<noteq> from - 1 \<and> committed s' = committed s \<or>
       history_ext (unat from) (Suc (unat to)) (committed s) (committed s'))"
proof -
  define Good where "Good x \<longleftrightarrow> (\<exists>r s'. x = Some (r, s') \<and> tx s' = None \<and> runId s' = runId s \<and>
    (committed s' = committed s \<or>
     from \<noteq> 0 \<and> from \<le> to \<and> latest_ledger (historyLedgers (committed s)) = from - 1 \<and>
     range_committed from to (committed s) (committed s')) \<and>
    (snd r = None \<longrightarrow> latest_ledger (historyLedgers (committed s)) \<noteq> from - 1 \<and> committed s' = committed s \<or>
       history_ext (unat from) (Suc (unat to)) (committed s) (committed s')))" for x :: "'a outcome option"
  have Good_Some: "Good (Some (r, s')) \<longleftrightarrow> tx s' = None \<and> runId s' = runId s \<and>
    (committed s' = committed s \<or>
     from \<noteq> 0 \<and> from \<le> to \<and> latest_ledger (historyLedgers (committed s)) = from - 1 \<and>
     range_committed from to (committed s) (committed s')) \<and>
    (snd r = None \<longrightarrow> latest_ledger (historyLedgers (committed s)) \<noteq> from - 1 \<and> committed s' = committed s \<or>
       history_ext (unat from) (Suc (unat to)) (committed s) (committed s'))" for r s'
    by (simp add: Good_def)
  have body: "Good (deferRollback (historyRangeState_body env from to s2))"
    if "from \<le> to" and "from \<noteq> 0" and "latest_ledger (historyLedgers (committed s)) = from - 1"
      and "tx s2 = Some (committed s)" and "committed s2 = committed s" and "runId s2 = runId s" for s2
    using historyRange_body_effect [OF assms(1) that(1,4)] range_committedI [OF that(1)] that
    by (fastforce simp: Good_Some deferRollback_Some Rollback_def)
  have "Good (historyRangeState_run env from to s)"
    using assms(2) unfolding historyRangeState_run_def
    by (auto simp: ret_err_def ret_def Rollback_def go_defs not_less body Good_Some deferRollback_Some
        cong: try_call_cong)
  then show ?thesis by (simp add: Good_def)
qed

subsection \<open>The reingest node\<close>

text \<open>
  What the code relies on from the TOID arithmetic of the SDK: the range it computes for two ledgers
  holds exactly the identifiers of the ledgers between them, and there is none for an empty range.
\<close>

definition toid_ok :: "'d env \<Rightarrow> bool" where
  "toid_ok env \<longleftrightarrow> (\<forall>a b. case LedgerRangeInclusive env a b of
       None \<Rightarrow> True
     | Some (x, y) \<Rightarrow> a \<le> b \<and> (\<forall>q. q \<noteq> 0 \<longrightarrow> (x \<le> toid env q \<and> toid env q < y \<longleftrightarrow> a \<le> q \<and> q \<le> b)))"

definition drop_range :: "u32 \<Rightarrow> u32 \<Rightarrow> 'd db \<Rightarrow> 'd db" where
  "drop_range a b d = d\<lparr>historyLedgers := filter (\<lambda>x. \<not> (a \<le> x \<and> x \<le> b)) (historyLedgers d)\<rparr>"

lemma delete_range_drop:
  assumes "toid_ok env" and "LedgerRangeInclusive env a b = Some (x, y)" and "0 \<notin> set (historyLedgers d)"
  shows "a \<le> b \<and> d\<lparr>historyLedgers := delete_range env x y (historyLedgers d)\<rparr> = drop_range a b d"
proof -
  have *: "a \<le> b \<and> (\<forall>q. q \<noteq> 0 \<longrightarrow> (x \<le> toid env q \<and> toid env q < y \<longleftrightarrow> a \<le> q \<and> q \<le> b))"
    using assms(1,2) unfolding toid_ok_def by (smt (verit) case_prod_conv option.simps(5))
  then have "delete_range env x y (historyLedgers d) = filter (\<lambda>x. \<not> (a \<le> x \<and> x \<le> b)) (historyLedgers d)"
    unfolding delete_range_def by (intro filter_cong refl) (use assms(3) in metis)
  with * show ?thesis by (simp add: drop_range_def)
qed

lemma try_DeleteRangeAll [simp]:
  "try_call (DeleteRangeAll env a b) h k s =
     (if fails env CDeleteRangeAll (clock s) then h (CallFailed CDeleteRangeAll) (tick s)
      else k (length (historyLedgers (current_db s)) - length (delete_range env a b (historyLedgers (current_db s))))
             (write_db (\<lambda>d. d\<lparr>historyLedgers := delete_range env a b (historyLedgers (current_db s))\<rparr>) (tick s)))"
  by (simp add: try_call_def DeleteRangeAll_def svc_def Let_def)

definition replaced_upto :: "u32 \<Rightarrow> u32 \<Rightarrow> nat \<Rightarrow> 'd db \<Rightarrow> 'd db \<Rightarrow> bool" where
  "replaced_upto from to q d d' \<longleftrightarrow> from \<le> to \<and> unat from \<le> q \<and> q \<le> Suc (unat to) \<and>
     history_ext (unat from) q (drop_range from to d) d'"

text \<open>
  The loop and the last batch, after the deletion: all rows of the range are written, or, without an
  enclosing transaction, the rows of the batches committed before the error.
\<close>

definition ingest_rest ::
  "'d env \<Rightarrow> u32 \<Rightarrow> u32 \<Rightarrow> bool \<Rightarrow> 'd sys \<Rightarrow> ((ingest_error + unit) \<times> 'd sys) option" where
  "ingest_rest env from to inTx s =
     (case ingestRange_loop env from to inTx [] s of
        None \<Rightarrow> None
      | Some (Inl e, s1) \<Rightarrow> Some (Inl e, s1)
      | Some (Inr ledgers, s1) \<Rightarrow>
          Some (if ledgers = [] then (Inr (), s1)
                else RunTransactionProcessorsOnLedgers env ledgers inTx s1))"

lemma ingest_rest_effect:
  assumes "env_ok env" and "from \<le> to" and "inTx \<longleftrightarrow> tx s = None"
  shows "\<exists>r s' q. ingest_rest env from to inTx s = Some (r, s') \<and> runId s' = runId s \<and>
    (tx s' = None \<longleftrightarrow> tx s = None) \<and> (tx s \<noteq> None \<longrightarrow> committed s' = committed s) \<and>
    unat from \<le> q \<and> q \<le> Suc (unat to) \<and>
    (r = Inr () \<longrightarrow> q = Suc (unat to) \<and> history_ext (unat from) q (current_db s) (current_db s')) \<and>
    (tx s = None \<longrightarrow> history_ext (unat from) q (committed s) (committed s'))"
proof -
  obtain r s1 where loop: "ingestRange_loop env from to inTx [] s = Some (r, s1)"
    and res: "ingest_result (unat from) to s (r, s1)"
    using ir.loop_returns [OF assms(1) loop_pos_start [OF assms(2)] assms(3)] by fastforce
  then obtain q where q: "unat from \<le> q" "q \<le> Suc (unat to)" "runId s1 = runId s" "tx s1 = None \<longleftrightarrow> tx s = None"
    "tx s \<noteq> None \<longrightarrow> committed s1 = committed s"
    and r: "case r of Inr ls \<Rightarrow> loop_pos q ls (to + 1) to \<and> q + length ls = Suc (unat to) \<and>
                    history_ext (unat from) q (current_db s) (current_db s1)
        | Inl _ \<Rightarrow> tx s = None \<longrightarrow> history_ext (unat from) q (committed s) (committed s1)"
    by (auto simp: ingest_result_def)
  show ?thesis
  proof (cases r)
    case (Inl e)
    with loop q r show ?thesis by (auto simp: ingest_rest_def intro!: exI [of _ q])
  next
    case (Inr ls)
    show ?thesis
    proof (cases "ls = []")
      case True
      with Inr loop q r show ?thesis by (auto simp: ingest_rest_def intro!: exI [of _ q])
    next
      case False
      obtain r2 s2 where run: "RunTransactionProcessorsOnLedgers env ls inTx s1 = (r2, s2)" by fastforce
      have eff: "runId s2 = runId s1" "tx s2 = None \<longleftrightarrow> tx s1 = None" "tx s1 \<noteq> None \<longrightarrow> committed s2 = committed s1"
        "case r2 of Inr _ \<Rightarrow> history_ext q (q + length ls) (current_db s1) (current_db s2)
                  | Inl _ \<Rightarrow> committed s2 = committed s1"
        using loop_flush_effect [OF assms(1) _ run] r Inr q(4) assms(3) by auto
      show ?thesis
      proof (cases r2)
        case (Inl e)
        with Inr False loop run q r eff show ?thesis by (auto simp: ingest_rest_def intro!: exI [of _ q])
      next
        case r2: (Inr u)
        have "history_ext (unat from) (q + length ls) (current_db s) (current_db s2)"
          using history_ext_trans [OF _ _ q(1), of _ "current_db s1"] r Inr r2 eff(4) by auto
        with Inr r2 False loop run q r eff show ?thesis
          by (auto simp: ingest_rest_def intro!: exI [of _ "Suc (unat to)"])
      qed
    qed
  qed
qed

lemma ingestRange_effect:
  assumes "env_ok env" and "toid_ok env" and "inTx \<longleftrightarrow> tx s = None" and "0 \<notin> set (historyLedgers (current_db s))"
  shows "\<exists>r s'. ingestRange env from to inTx s = Some (r, s') \<and> runId s' = runId s \<and>
    (tx s' = None \<longleftrightarrow> tx s = None) \<and> (tx s \<noteq> None \<longrightarrow> committed s' = committed s) \<and>
    (r = Inr () \<longrightarrow> replaced_upto from to (Suc (unat to)) (current_db s) (current_db s')) \<and>
    (tx s = None \<longrightarrow> committed s' = committed s \<or> (\<exists>q. replaced_upto from to q (committed s) (committed s')))"
proof (cases "maxLedgerPerFlush env < 1 \<or> LedgerRangeInclusive env from to = None \<or>
    fails env CDeleteRangeAll (clock s)")
  case True
  then show ?thesis by (auto simp: ingestRange_def split: option.split)
next
  case False
  then obtain x y where xy: "LedgerRangeInclusive env from to = Some (x, y)" by auto
  define s1 where "s1 = write_db (\<lambda>d. d\<lparr>historyLedgers := delete_range env x y (historyLedgers (current_db s))\<rparr>) (tick s)"
  have run: "ingestRange env from to inTx s = ingest_rest env from to inTx s1"
    using False xy by (simp add: ingestRange_def ingest_rest_def s1_def not_less)
  have le: "from \<le> to" and drop: "current_db s1 = drop_range from to (current_db s)"
    using delete_range_drop [OF assms(2) xy assms(4)] by (auto simp: s1_def current_db_def write_db_def split: option.split)
  have s1: "runId s1 = runId s" "tx s1 = None \<longleftrightarrow> tx s = None" "tx s \<noteq> None \<longrightarrow> committed s1 = committed s"
    by (auto simp: s1_def write_db_def split: option.split)
  from ingest_rest_effect [OF assms(1) le, of inTx s1] obtain r s' q where
    "ingest_rest env from to inTx s1 = Some (r, s')" "runId s' = runId s1"
    "tx s' = None \<longleftrightarrow> tx s1 = None" "tx s1 \<noteq> None \<longrightarrow> committed s' = committed s1"
    "unat from \<le> q" "q \<le> Suc (unat to)"
    "r = Inr () \<longrightarrow> q = Suc (unat to) \<and> history_ext (unat from) q (current_db s1) (current_db s')"
    "tx s1 = None \<longrightarrow> history_ext (unat from) q (committed s1) (committed s')"
    using assms(3) s1(2) by auto
  with run le drop s1 show ?thesis by (auto simp: replaced_upto_def)
qed

definition first_ledger :: "u32 \<Rightarrow> u32" where
  "first_ledger from = (if from = 1 then 2 else from)"

lemma reingest_effect:
  assumes "env_ok env" and "toid_ok env" and "tx s = None" and "0 \<notin> set (historyLedgers (committed s))"
  shows "\<exists>err s'. reingestHistoryRangeState_run env from to False s = Some ((stop, err), s') \<and>
    tx s' = None \<and> runId s' = runId s \<and>
    (committed s' = committed s \<or>
     (lastLedger (committed s) = 0 \<or> to < lastLedger (committed s)) \<and>
     (\<exists>q. replaced_upto (first_ledger from) to q (committed s) (committed s'))) \<and>
    (err = None \<longrightarrow> (lastLedger (committed s) = 0 \<or> to < lastLedger (committed s)) \<and>
       replaced_upto (first_ledger from) to (Suc (unat to)) (committed s) (committed s'))"
proof -
  have ing: "\<exists>r s'. ingestRange env (first_ledger from) to True (s\<lparr>clock := n\<rparr>) = Some (r, s') \<and> runId s' = runId s \<and>
    tx s' = None \<and>
    (r = Inr () \<longrightarrow> replaced_upto (first_ledger from) to (Suc (unat to)) (committed s) (committed s')) \<and>
    (committed s' = committed s \<or> (\<exists>q. replaced_upto (first_ledger from) to q (committed s) (committed s')))" for n
    using ingestRange_effect [OF assms(1,2), of True "s\<lparr>clock := n\<rparr>" "first_ledger from" to] assms(3,4)
    by (auto simp: current_db_def)
  have read: "lastLedger (current_db s) = lastLedger (committed s)" using assms(3) by simp
  show ?thesis
  proof (cases "from = 0 \<or> to = 0 \<or> to < from \<or> fails env CGetLastLedgerIngestNonBlocking (clock s) \<or>
      0 < lastLedger (committed s) \<and> lastLedger (committed s) \<le> to \<or> fails env CPrepareRange (Suc (clock s))")
    case True
    with assms(3) show ?thesis
      by (auto simp: reingestHistoryRangeState_run_def ret_err_def go_defs PrepareRange_def read Let_def)
  next
    case False
    obtain r s' where i: "ingestRange env (first_ledger from) to True (s\<lparr>clock := Suc (Suc (clock s))\<rparr>) = Some (r, s')"
      "runId s' = runId s" "tx s' = None"
      "r = Inr () \<longrightarrow> replaced_upto (first_ledger from) to (Suc (unat to)) (committed s) (committed s')"
      "committed s' = committed s \<or> (\<exists>q. replaced_upto (first_ledger from) to q (committed s) (committed s'))"
      using ing by blast
    have "reingestHistoryRangeState_run env from to False s =
        Some (case r of Inl e \<Rightarrow> ret_err stop e s' | Inr _ \<Rightarrow> ret stop s')"
      using False i(1) unfolding reingestHistoryRangeState_run_def first_ledger_def [symmetric] Let_def
      by (auto simp: go_defs PrepareRange_def read split: sum.split)
    moreover have "lastLedger (committed s) = 0 \<or> to < lastLedger (committed s)"
      using False by (auto simp: not_le word_gt_0)
    ultimately show ?thesis using i by (cases r) (auto simp: ret_def ret_err_def)
  qed
qed

lemma reingest_force_success:
  assumes "env_ok env" and "toid_ok env" and "tx s = None" and "0 \<notin> set (historyLedgers (committed s))"
    and "reingestHistoryRangeState_run env from to True s = Some ((t, None), s')"
  shows "tx s' = None \<and> replaced_upto (first_ledger from) to (Suc (unat to)) (committed s) (committed s')"
proof -
  let ?s = "s\<lparr>tx := Some (committed s), clock := Suc (Suc (Suc (clock s)))\<rparr>"
  obtain r s1 where i: "ingestRange env (first_ledger from) to False ?s = Some (r, s1)" "tx s1 \<noteq> None"
      "r = Inr () \<longrightarrow> replaced_upto (first_ledger from) to (Suc (unat to)) (committed s) (current_db s1)"
    using ingestRange_effect [OF assms(1,2), of False ?s "first_ledger from" to] assms(4)
    by (auto simp: current_db_def)
  from i(2) obtain w where w: "tx s1 = Some w" by blast
  have "r = Inr () \<and> tx s' = None \<and> committed s' = w"
    using assms(3,5) i(1) w
    unfolding reingestHistoryRangeState_run_def first_ledger_def [symmetric] Let_def
    by (cases r) (auto simp: ret_err_def ret_def deferRollback_Some Rollback_def go_defs PrepareRange_def
        cong: try_call_cong split: if_splits)
  with i(3) w show ?thesis by simp
qed

end
