(* ===== verification/Fsm_Props.thy ===== *)
theory Fsm_Props
  imports Fsm_Ranges
begin

text \<open>
  Properties of the ingestion state machine over the effects of its nodes: no node leaves a
  transaction behind and every node returns; the state tables of every reachable database are the
  ledger state the database claims to be at; the history an online instance writes has no gaps and no
  duplicates; an instance that does not own a running load test writes nothing.
\<close>

subsection \<open>An example network\<close>

text \<open>
  A network with ledgers 1 to 1000 whose state tables hold the number of the ledger; the theorems are
  applied to it. No call fails, and maps are visited in insertion order.
\<close>

definition demo_env :: "nat env" where
  "demo_env = \<lparr>fails = \<lambda>_ _. False, isPrepared = \<lambda>_. True,
     backendLedger = \<lambda>q. if q = 0 \<or> 1000 < q then None
       else Some \<lparr>metaSequence = q, metaProtocolVersion = 20, metaBucketListHash = unat q\<rparr>,
     backendLatest = \<lambda>_. 1000, latestCheckpoint = \<lambda>_. 63,
     applySnapshot = \<lambda>q _. unat q, archiveBucketListHash = unat,
     applyChanges = \<lambda>m _. unat (metaSequence m), emptyState = 0,
     partialWrites = \<lambda>_ d. d, mapOrder = \<lambda>_ xs. xs,
     toid = \<lambda>q. int (unat q) * 2 ^ 32,
     LedgerRangeInclusive = \<lambda>a b. if b < a then None
       else Some (int (unat a) * 2 ^ 32, (int (unat b) + 1) * 2 ^ 32),
     randomRunId = \<lambda>_. ''run'', MaxSupportedProtocolVersion = 23, SkipProtocolVersionCheck = False,
     maxLedgerPerFlush = 2, stateVerificationOnLedger = \<lambda>_. False, disableStateVerification = True,
     reapFrequency = 0, ReapLookupTables = False\<rparr>"

definition fresh_db :: "'d env \<Rightarrow> 'd db" where
  "fresh_db env = \<lparr>lastLedger = 0, ingestVersion = 0, stateInvalid = False, loadTest = None,
     historyLedgers = [], stateTables = emptyState env, tradeRebuilds = []\<rparr>"

definition instance_on :: "'d db \<Rightarrow> 'd sys" where
  "instance_on d = \<lparr>committed = d, tx = None, runId = [], clock = 0, spawned = []\<rparr>"

definition run_forever :: machine_options where
  "run_forever = \<lparr>isTerminalError = \<lambda>_. False, ctxDone = \<lambda>_. False\<rparr>"

lemma instance_on_simps [simp]: "committed (instance_on d) = d" "tx (instance_on d) = None" "runId (instance_on d) = []"
  by (simp_all add: instance_on_def)

lemma demo_env_ok: "env_ok demo_env"
  by (auto simp: env_ok_def demo_env_def ledger_state_def split: if_splits)

lemma demo_toid_ok: "toid_ok demo_env"
  by (auto simp: toid_ok_def demo_env_def word_le_def word_less_def split: option.split if_splits)

subsection \<open>Histories without gaps\<close>

definition gap_free :: "u32 list \<Rightarrow> bool" where
  "gap_free h \<longleftrightarrow> (\<forall>x \<in> set h. \<forall>z \<in> set h. \<forall>y. x \<le> y \<and> y \<le> z \<longrightarrow> y \<in> set h)"

definition history_ok :: "u32 list \<Rightarrow> bool" where
  "history_ok h \<longleftrightarrow> distinct h \<and> 0 \<notin> set h \<and> gap_free h"

lemma gap_freeD: "gap_free h \<Longrightarrow> x \<in> set h \<Longrightarrow> z \<in> set h \<Longrightarrow> x \<le> y \<Longrightarrow> y \<le> z \<Longrightarrow> y \<in> set h"
  unfolding gap_free_def by blast

lemma history_ok_Nil [simp]: "history_ok []"
  by (simp add: history_ok_def gap_free_def)

lemma unat_pred: "(a :: u32) \<noteq> 0 \<Longrightarrow> unat (a - 1) = unat a - 1"
  by (metis unat_minus_one)

lemma gap_free_append:
  assumes "gap_free h" and "0 \<notin> set h" and "from \<noteq> 0" and "latest_ledger h = from - 1" and "q \<le> 2 ^ 32"
    and "set h' = set (seqs (unat from) q)"
  shows "gap_free (h @ h')"
  unfolding gap_free_def
proof (intro ballI allI impI)
  fix x z y
  assume xyz: "x \<in> set (h @ h')" "z \<in> set (h @ h')" "x \<le> y \<and> y \<le> z"
  have new: "v \<in> set h' \<longleftrightarrow> unat from \<le> unat v \<and> unat v < q" for v
    using assms(6) set_seqs [OF assms(5)] by simp
  have old: "unat v < unat from" if "v \<in> set h" for v
    using latest_ledger_ge [OF that] assms(3,4) unat_pred [OF assms(3)]
    by (simp add: word_le_nat_alt) (metis One_nat_def diff_less le_less_trans unat_gt_0 zero_less_one)
  show "y \<in> set (h @ h')"
  proof (cases "x \<in> set h \<and> z \<notin> set h \<and> y \<le> from - 1")
    case True
    then have "h \<noteq> []" by (metis empty_iff empty_set)
    then have "from - 1 \<in> set h" using latest_ledger_mem assms(4) by metis
    then have "y \<in> set h" using gap_freeD [OF assms(1), of x "from - 1" y] True xyz(3) by simp
    then show ?thesis by simp
  next
    case False
    consider "x \<in> set h" "z \<in> set h" | "x \<in> set h" "z \<in> set h'" "from - 1 < y" | "x \<in> set h'" "z \<in> set h'" 
      | "x \<in> set h'" "z \<in> set h"
      using False xyz by (auto simp: not_le)
    then show ?thesis
    proof cases
      case 1
      with gap_freeD [OF assms(1), of x z y] xyz(3) show ?thesis by simp
    next
      case 2
      have "unat from \<le> unat y" using 2(3) unat_pred [OF assms(3)] by (simp add: word_less_nat_alt)
      with 2(2) xyz(3) new show ?thesis by (auto simp: word_le_nat_alt)
    next
      case 3
      with xyz(3) new show ?thesis by (auto simp: word_le_nat_alt)
    next
      case 4
      with xyz(3) new [of x] old [of z] show ?thesis by (auto simp: word_le_nat_alt)
    qed
  qed
qed

lemma history_ok_ext:
  assumes "history_ok (historyLedgers d)" and "history_ext (unat from) q d d'" and "from \<noteq> 0"
    and "latest_ledger (historyLedgers d) = from - 1" and "q \<le> 2 ^ 32"
  shows "history_ok (historyLedgers d')"
proof -
  obtain h where h: "mset h = mset (seqs (unat from) q)" "set h \<inter> set (historyLedgers d) = {}"
    "historyLedgers d' = historyLedgers d @ h"
    using assms(2) unfolding history_ext_def by auto
  have "distinct h" using distinct_seqs [OF assms(5)] h(1) mset_eq_imp_distinct_iff by blast
  moreover have sh: "set h = set (seqs (unat from) q)" using h(1) mset_eq_setD by blast
  moreover have "0 \<notin> set h" using assms(3) unfolding sh set_seqs [OF assms(5)] by (auto simp: unat_eq_zero)
  ultimately show ?thesis
    using assms(1) h(2,3) gap_free_append [OF _ _ assms(3,4,5) sh] by (auto simp: history_ok_def)
qed

subsection \<open>No node leaks a transaction, every node returns\<close>

lemma ingestRange_returns:
  assumes "env_ok env" and "inTx \<longleftrightarrow> tx s = None"
  shows "\<exists>r s'. ingestRange env from to inTx s = Some (r, s') \<and> (tx s' = None \<longleftrightarrow> tx s = None)"
proof -
  have rest: "\<exists>r s'. ingest_rest env from to inTx s1 = Some (r, s') \<and> (tx s' = None \<longleftrightarrow> tx s = None)"
    if "tx s1 = None \<longleftrightarrow> tx s = None" for s1
  proof (cases "from \<le> to")
    case True
    with ingest_rest_effect [OF assms(1) True, of inTx s1] assms(2) that show ?thesis by metis
  next
    case False
    then have "ingestRange_loop env from to inTx [] s1 = Some (Inr [], s1)"
      by (simp add: ingestRange_loop.simps)
    with that show ?thesis by (simp add: ingest_rest_def)
  qed
  have "tx (write_db f (tick s)) = None \<longleftrightarrow> tx s = None" for f
    by (auto simp: write_db_def split: option.split)
  then show ?thesis
    using rest by (auto simp: ingestRange_def simp flip: ingest_rest_def split: option.split)
qed

lemma reingest_returns:
  assumes "env_ok env" and "tx s = None"
  shows "\<exists>r s'. reingestHistoryRangeState_run env from to force s = Some (r, s') \<and> tx s' = None"
proof -
  define Good where "Good x \<longleftrightarrow> (\<exists>r s'. x = Some (r, s') \<and> tx s' = None)" for x :: "'a outcome option"
  have Good_Some: "Good (Some (r, s')) \<longleftrightarrow> tx s' = None" for r s' by (simp add: Good_def)
  have forced: "Good (deferRollback (case ingestRange env a to False s2 of
               None \<Rightarrow> None
             | Some (Inl e, s1) \<Rightarrow>
                 Some (try_call (Commit env) (\<lambda>_. ret_err stop e) (\<lambda>_. ret_err stop e) s1)
             | Some (Inr _, s1) \<Rightarrow>
                 Some (try_call (Commit env) (ret_err stop) (\<lambda>_. ret stop) s1)))"
    if "tx s2 \<noteq> None" for s2 a
    using ingestRange_returns [OF assms(1), of False s2 a to] that
    by (auto simp: Good_Some deferRollback_Some Rollback_def ret_def ret_err_def split: sum.split)
  have plain: "Good (case ingestRange env a to True s2 of
             None \<Rightarrow> None
           | Some (Inl e, s1) \<Rightarrow> Some (ret_err stop e s1)
           | Some (Inr _, s1) \<Rightarrow> Some (ret stop s1))" if "tx s2 = None" for s2 a
    using ingestRange_returns [OF assms(1), of True s2 a to] that
    by (auto simp: Good_Some ret_def ret_err_def split: sum.split)
  have "Good (reingestHistoryRangeState_run env from to force s)"
    using assms(2) unfolding reingestHistoryRangeState_run_def Let_def
    by (simp add: go_defs PrepareRange_def forced plain Good_Some ret_def ret_err_def Rollback_def deferRollback_Some
        cong: try_call_cong)
  then show ?thesis by (simp add: Good_def)
qed

lemma GetLedger_Inr:
  "env_ok env \<Longrightarrow> GetLedger env q s = (Inr m, s') \<Longrightarrow> q \<noteq> 0 \<and> s' = tick s \<and> metaSequence m = q"
  using GetLedger_cases [of env q s] by (metis Inl_Inr_False Inr_inject Pair_inject)

lemma verifyRange_loop_returns:
  assumes "env_ok env"
  shows "\<exists>res. verifyRange_loop env q to m s = Some res"
proof (induction "if q = 0 then 0 else 2 ^ 32 - unat q" arbitrary: q m s rule: less_induct)
  case less
  obtain rb s1 where b: "Begin env s = (rb, s1)" by fastforce
  obtain rg s2 where g: "GetLedger env q s1 = (rg, s2)" by fastforce
  show ?case
  proof (cases "q \<le> to \<and> (\<exists>u m'. rb = Inr u \<and> rg = Inr m')")
    case False
    with b g show ?thesis by (subst verifyRange_loop.simps) (auto split: sum.split)
  next
    case True
    then obtain u m' where ok: "rb = Inr u" "rg = Inr m'" by metis
    obtain ra s3 where a: "RunAllProcessorsOnLedger env m' s2 = (ra, s3)" by fastforce
    obtain rc s4 where c: "completeIngestion env q s3 = (rc, s4)" by fastforce
    have q0: "q \<noteq> 0" using GetLedger_Inr [OF assms(1) g [unfolded ok(2)]] by simp
    show ?thesis
    proof (cases "\<exists>v w. ra = Inr v \<and> rc = Inr w")
      case False
      with True b g ok a c show ?thesis by (subst verifyRange_loop.simps) (auto split: sum.split)
    next
      case fin: True
      have lt: "(if q + 1 = 0 then 0 else 2 ^ 32 - unat (q + 1)) < (if q = 0 then 0 else 2 ^ 32 - unat q)"
      proof (cases "q = - 1")
        case False
        then show ?thesis using unat_Suc_no_wrap [OF False] q0 unsigned_less [of q] by auto
      qed (use q0 unsigned_less [of q] in auto)
      from less.hyps [OF lt] True b g ok a c fin show ?thesis
        by (subst verifyRange_loop.simps) auto
    qed
  qed
qed

lemma verifyRange_returns:
  assumes "env_ok env" and "tx s = None"
  shows "\<exists>r s'. verifyRangeState_run env from to v s = Some (r, s') \<and> tx s' = None"
proof -
  define Ret where "Ret x \<longleftrightarrow> x \<noteq> None" for x :: "'a outcome option"
  have Ret_Some [simp]: "Ret (Some x)" for x by (simp add: Ret_def)
  have Ret_try: "(\<And>e s. Ret (h e s)) \<Longrightarrow> (\<And>a s. Ret (k a s)) \<Longrightarrow> Ret (try_call m h k s)"
    for h k s and m :: "('a sys, ingest_error, 'x) call"
    by (rule try_call_cases [where P = Ret])
  have Ret_if: "(b \<Longrightarrow> Ret (f s)) \<Longrightarrow> (\<not> b \<Longrightarrow> Ret (g s)) \<Longrightarrow> Ret ((if b then f else g) s)"
    for b f g and s :: "'a sys" by simp
  have Ret_loop: "(\<And>r s. Ret (f (r, s))) \<Longrightarrow> Ret (case verifyRange_loop env q to m s2 of None \<Rightarrow> None | Some x \<Rightarrow> f x)"
    for f q m s2 using verifyRange_loop_returns [OF assms(1), of q to m s2] by auto
  define Good where "Good x \<longleftrightarrow> (\<exists>r s'. x = Some (r, s') \<and> tx s' = None)" for x :: "'a outcome option"
  have Good_Some [simp]: "Good (Some (r, s')) \<longleftrightarrow> tx s' = None" for r s' by (simp add: Good_def)
  have Good_defer: "Good (deferRollback x)" if "Ret x" for x
    using that by (auto simp: Ret_def deferRollback_def Rollback_def)
  have "Good (verifyRangeState_run env from to v s)"
    using assms(2) unfolding verifyRangeState_run_def
    by (auto simp: ret_err_def simp del: try_GetLedger try_completeIngestion split: sum.split
        intro!: Good_defer Ret_try Ret_if Ret_loop)
  then show ?thesis by (simp add: Good_def)
qed

lemma in_tx_no_tx: "tx s = None \<Longrightarrow> tx (snd (in_tx env (ret_err t) body s)) = None"
  by (simp add: in_tx_eq ret_err_def Rollback_def)

lemma stressTest_tx: "tx s = None \<Longrightarrow> stressTestState_run env s = (r, s') \<Longrightarrow> tx s' = None"
proof -
  assume "tx s = None" and run: "stressTestState_run env s = (r, s')"
  then have "tx (snd (stressTestState_run env s)) = None"
    unfolding stressTestState_run_def by (intro in_tx_no_tx)
  with run show ?thesis by simp
qed

lemma run_returns:
  assumes "env_ok env" and "tx s = None"
  shows "\<exists>r s'. run env n s = Some (r, s') \<and> tx s' = None"
proof (cases n)
  case (startState c)
  then show ?thesis using start_effect [OF assms(2)] by (metis run.simps(2) surj_pair)
next
  case (buildState c sk st)
  then show ?thesis using build_effect [OF assms(2)] by (metis run.simps(3) surj_pair)
next
  case (resumeState l)
  then show ?thesis using resume_effect [OF assms(2)] by (metis run.simps(4) surj_pair)
next
  case (historyRangeState a b)
  then show ?thesis using historyRange_effect [OF assms] by fastforce
next
  case stressTestState
  then show ?thesis using stressTest_tx [OF assms(2)] by (metis run.simps(7) surj_pair)
qed (use assms reingest_returns [OF assms] verifyRange_returns [OF assms] in
  \<open>auto simp: ret_err_def ret_def waitForCheckpointState_run_def\<close>)

text \<open>
  C4. The driver never finds an open transaction and never hangs in a node: from a state without a
  transaction, every iteration of \<open>runStateMachine\<close> returns, whatever node it is in, whatever the nodes
  decide, and whichever service calls fail, and \<open>panic("unexpected transaction")\<close> is not reached. (The
  loops over ledgers end because the backend has no ledger 0, where \<open>cur++\<close> wraps to.)
\<close>

theorem machine_never_panics:
  assumes "env_ok env" and "tx s = None"
  shows "\<exists>it s'. runStateMachine n env opts cur s = Some (it, s') \<and> it \<noteq> UnexpectedTransaction \<and> tx s' = None"
  using assms(2)
proof (induction n arbitrary: cur s)
  case (Suc n)
  obtain nxt err s' where run: "run env cur s = Some ((nxt, err), s')" "tx s' = None"
    using run_returns [OF assms(1) Suc.prems] by (metis surj_pair)
  show ?case
    using Suc.IH [OF run(2)] Suc.prems run by (auto simp: machine_iteration_def)
qed simp

theorem machine_never_panics_witness:
  "\<exists>it s'. runStateMachine 3 demo_env run_forever (startState 0) (instance_on (fresh_db demo_env)) = Some (it, s') \<and>
     it \<noteq> UnexpectedTransaction \<and> tx s' = None"
  by (rule machine_never_panics) (simp_all add: demo_env_ok)

subsection \<open>Reachable databases\<close>

text \<open>
  What an operator can do to a database: run a node of the machine on some instance, or take and
  restore the snapshot of a load test. Instances share the network (the ledgers, the archive and what
  the processors compute) and differ in everything else: which calls fail, the order of maps, their
  configuration, their clock and the load test they run.
\<close>

datatype action = Node node | SaveSnapshot | RestoreSnapshot

fun perform :: "'d env \<Rightarrow> action \<Rightarrow> 'd sys \<Rightarrow> 'd sys option" where
  "perform env (Node n) s = map_option snd (run env n s)"
| "perform env SaveSnapshot s = Some (snd (loadTestSnapshot_save env s))"
| "perform env RestoreSnapshot s = Some (snd (restoreSnapshot env s))"

definition same_network :: "'d env \<Rightarrow> 'd env \<Rightarrow> bool" where
  "same_network env env' \<longleftrightarrow> backendLedger env' = backendLedger env \<and> applySnapshot env' = applySnapshot env \<and>
     applyChanges env' = applyChanges env \<and> emptyState env' = emptyState env"

inductive reachable :: "(action \<Rightarrow> bool) \<Rightarrow> 'd env \<Rightarrow> 'd db \<Rightarrow> bool" for allowed env where
  reachable_fresh: "reachable allowed env (fresh_db env)"
| reachable_step: "reachable allowed env (committed s) \<Longrightarrow> allowed act \<Longrightarrow>
    same_network env env' \<Longrightarrow> env_ok env' \<Longrightarrow> toid_ok env' \<Longrightarrow> tx s = None \<Longrightarrow>
    perform env' act s = Some s' \<Longrightarrow> reachable allowed env (committed s')"

text \<open>The nodes of an online instance, and with the offline reingestion of a range.\<close>

fun online :: "action \<Rightarrow> bool" where
  "online (Node (verifyRangeState _ _ _)) = False"
| "online (Node stressTestState) = False"
| "online (Node (reingestHistoryRangeState _ _ _)) = False"
| "online (Node _) = True"
| "online SaveSnapshot = True"
| "online RestoreSnapshot = False"

fun maintained :: "action \<Rightarrow> bool" where
  "maintained (Node (verifyRangeState _ _ _)) = False"
| "maintained (Node stressTestState) = False"
| "maintained (Node (reingestHistoryRangeState _ _ force)) = (\<not> force)"
| "maintained _ = True"

lemma save_effect:
  assumes "tx s = None"
  shows "committed (snd (loadTestSnapshot_save env s)) = committed s \<or>
    (\<exists>rid. committed (snd (loadTestSnapshot_save env s)) = (committed s)\<lparr>loadTest := Some (rid, lastLedger (committed s))\<rparr>)"
  using assms
  by (auto simp: loadTestSnapshot_save_def in_tx_eq go_defs Rollback_def cong: try_call_cong split: option.split)

text \<open>What is left of the database \<open>d\<close> when the snapshot of a load test started at ledger \<open>l\<close> is restored.\<close>

definition restored :: "u32 \<Rightarrow> 'd db \<Rightarrow> 'd db" where
  "restored l d = (if l < lastLedger d
     then (drop_range (l + 1) (lastLedger d) d)\<lparr>ingestVersion := 0, loadTest := None\<rparr>
     else d\<lparr>loadTest := None\<rparr>)"

lemma try_Commit_result:
  "tx s = Some w \<Longrightarrow> Commit env s = (if fails env CCommit (clock s) then (Inl (CallFailed CCommit), (tick s)\<lparr>tx := None\<rparr>)
      else (Inr (), (tick s)\<lparr>tx := None, committed := w\<rparr>))"
  by (simp add: Commit_def Let_def)

lemma restore_effect:
  assumes "tx s = None" and "toid_ok env" and "0 \<notin> set (historyLedgers (committed s))"
    and "restoreSnapshot env s = (r, s')"
  shows "tx s' = None \<and> (committed s' = committed s \<and> (r = Inr () \<longrightarrow> loadTest (committed s) = None) \<or>
    (\<exists>rid l. loadTest (committed s) = Some (rid, l) \<and> l \<le> lastLedger (committed s) \<and> r = Inr () \<and>
       committed s' = restored l (committed s)))"
proof (cases "loadTest (committed s)")
  case None
  with assms(1,4) show ?thesis
    by (auto simp: restoreSnapshot_def in_tx_eq go_defs Rollback_def cong: try_call_cong split: if_splits)
next
  case (Some p)
  obtain rid l where p: "p = (rid, l)" by fastforce
  let ?last = "lastLedger (committed s)"
  have drop: "(committed s)\<lparr>historyLedgers := delete_range env x y (historyLedgers (committed s))\<rparr> =
      drop_range (l + 1) ?last (committed s)" if "LedgerRangeInclusive env (l + 1) ?last = Some (x, y)" for x y
    using delete_range_drop [OF assms(2) that assms(3)] by simp
  show ?thesis
  proof (cases "?last < l")
    case True
    with Some p assms(1,4) show ?thesis
      by (auto simp: restoreSnapshot_def in_tx_eq go_defs Rollback_def cong: try_call_cong split: if_splits)
  next
    case False
    note exec = restoreSnapshot_def in_tx_eq go_defs Rollback_def try_Commit_result restored_def Let_def
    show ?thesis
    proof (cases "l < ?last")
      case True
      show ?thesis
      proof (cases "LedgerRangeInclusive env (l + 1) ?last")
        case None
        with True Some p assms(1,4) show ?thesis
          by (auto simp: exec cong: try_call_cong split: if_splits)
      next
        case range: (Some xy)
        with True Some p assms(1,4) drop [of "fst xy" "snd xy"] show ?thesis
          by (cases xy) (auto simp: exec not_less order.strict_implies_order drop_range_def
              cong: try_call_cong split: if_splits)
      qed
    next
      case eq: False
      with False Some p assms(1,4) show ?thesis
        by (auto simp: exec not_less cong: try_call_cong split: if_splits)
    qed
  qed
qed

subsection \<open>Invariants\<close>

text \<open>A database that claims to be at a ledger, in the current format, holds the state of that ledger.\<close>

definition state_ok :: "'d env \<Rightarrow> 'd db \<Rightarrow> bool" where
  "state_ok env d \<longleftrightarrow> (lastLedger d \<noteq> 0 \<and> ingestVersion d = CurrentVersion \<longrightarrow> stateTables d = ledger_state env (lastLedger d))"

definition db_inv :: "'d env \<Rightarrow> 'd db \<Rightarrow> bool" where
  "db_inv env d \<longleftrightarrow> state_ok env d \<and> distinct (historyLedgers d) \<and> 0 \<notin> set (historyLedgers d)"

lemma history_ext_inv:
  assumes "history_ext p q d d'" and "0 < p" and "q \<le> 2 ^ 32" and "distinct (historyLedgers d)"
  shows "distinct (historyLedgers d') \<and> (0 \<in> set (historyLedgers d') \<longleftrightarrow> 0 \<in> set (historyLedgers d)) \<and>
    lastLedger d' = lastLedger d \<and> ingestVersion d' = ingestVersion d \<and> stateTables d' = stateTables d"
proof -
  obtain h where h: "mset h = mset (seqs p q)" "set h \<inter> set (historyLedgers d) = {}"
    "d' = d\<lparr>historyLedgers := historyLedgers d @ h\<rparr>"
    using assms(1) unfolding history_ext_def by auto
  have "distinct h" using distinct_seqs [OF assms(3)] h(1) mset_eq_imp_distinct_iff by blast
  moreover have "0 \<notin> set h"
    using mset_eq_setD [OF h(1)] set_seqs [OF assms(3), of p] assms(2) by simp
  ultimately show ?thesis using h(2,3) assms(4) by auto
qed

lemma range_end: "q \<le> Suc (unat (to :: u32)) \<Longrightarrow> q \<le> 2 ^ 32"
proof -
  have "unat to < 2 ^ 32" using unsigned_less [of to] by simp
  then show "q \<le> Suc (unat to) \<Longrightarrow> q \<le> 2 ^ 32" by simp
qed

lemma mapOrder_single: "env_ok env \<Longrightarrow> mapOrder env n [x] = [x]"
  using env_okD(2) [of env n "[x]"] by simp

lemma resume_advance_inv:
  assumes "env_ok env'" and "same_network env env'" and "resume_advance env' l d d'" and "db_inv env d"
  shows "db_inv env d' \<and> (history_ok (historyLedgers d) \<longrightarrow> history_ok (historyLedgers d'))"
proof -
  obtain m n where l: "l \<noteq> 0" "l + 1 \<noteq> 0" "lastLedger d = l" "ingestVersion d = CurrentVersion"
    and lat: "latest_ledger (historyLedgers d) = 0 \<or> latest_ledger (historyLedgers d) = l"
    and m: "backendLedger env' (l + 1) = Some m" "metaSequence m \<notin> set (historyLedgers d)"
    and d': "d' = d\<lparr>lastLedger := l + 1, stateTables := applyChanges env' m (stateTables d),
               historyLedgers := historyLedgers d @ mapOrder env' n [metaSequence m],
               tradeRebuilds := tradeRebuilds d @ [(l + 1, l + 1)]\<rparr>"
    using assms(3) unfolding resume_advance_def by blast
  have seq: "metaSequence m = l + 1" using env_okD(1) [OF assms(1) m(1)] by simp
  have net: "ledger_state env' = ledger_state env" using assms(2) by (auto simp: ledger_state_def same_network_def)
  have st: "stateTables d = ledger_state env' l"
    using assms(4) l net by (auto simp: db_inv_def state_ok_def)
  have hist: "historyLedgers d' = historyLedgers d @ [l + 1]"
    using d' seq mapOrder_single [OF assms(1)] by simp
  have "db_inv env d'"
    using assms(4) d' seq m st l hist env_okD(3) [OF assms(1) l(1) m(1)] net
    by (simp add: db_inv_def state_ok_def)
  moreover have "history_ok (historyLedgers d')" if ok: "history_ok (historyLedgers d)"
  proof (cases "historyLedgers d = []")
    case True
    with hist l(2) show ?thesis by (auto simp: history_ok_def gap_free_def)
  next
    case False
    then have lat: "latest_ledger (historyLedgers d) = l + 1 - 1"
      using lat ok latest_ledger_zero_iff [of "historyLedgers d"] by (auto simp: history_ok_def)
    have "l \<noteq> - 1" using l(2) by auto
    then have u: "unat (l + 1) = Suc (unat l)" by (rule unat_Suc_no_wrap)
    have "history_ext (unat (l + 1)) (Suc (unat (l + 1))) d (d\<lparr>historyLedgers := historyLedgers d @ [l + 1]\<rparr>)"
      using m(2) seq unfolding history_ext_def by (intro exI [of _ "[l + 1]"]) (simp add: seqs_def)
    from history_ok_ext [OF ok this l(2) lat range_end [OF le_refl]] hist show ?thesis by simp
  qed
  ultimately show ?thesis by simp
qed

lemma perform_inv:
  assumes "env_ok env'" and "toid_ok env'" and "same_network env env'" and "tx s = None"
    and "perform env' act s = Some s'" and "maintained act" and inv: "db_inv env (committed s)"
  shows "db_inv env (committed s')"
proof (cases act)
  case (Node n)
  from inv have d: "distinct (historyLedgers (committed s))" and z: "0 \<notin> set (historyLedgers (committed s))"
    and st: "state_ok env (committed s)" by (simp_all add: db_inv_def)
  show ?thesis
  proof (cases n)
    case stopState
    with Node assms(5) inv show ?thesis by (auto simp: ret_err_def)
  next
    case (startState c)
    with Node assms(5) have "startState_run env' c s = (fst (startState_run env' c s), s')" by auto
    from start_effect [OF assms(4) this] inv show ?thesis by (auto simp: db_inv_def state_ok_def)
  next
    case (buildState c sk st)
    with Node assms(5) have "buildState_run env' c sk st s = (fst (buildState_run env' c sk st s), s')" by auto
    from build_effect [OF assms(4) this] inv assms(3) show ?thesis
      by (auto simp: db_inv_def state_ok_def ledger_state_def same_network_def)
  next
    case (resumeState l)
    with Node assms(5) have "resumeState_run env' l s = (fst (resumeState_run env' l s), s')" by auto
    from resume_effect [OF assms(4) this] resume_advance_inv [OF assms(1,3)] inv show ?thesis by auto
  next
    case waitForCheckpointState
    with Node assms(5) inv show ?thesis by (auto simp: waitForCheckpointState_run_def ret_def)
  next
    case (historyRangeState a b)
    then have "committed s' = committed s \<or> a \<noteq> 0 \<and> range_committed a b (committed s) (committed s')"
      using Node assms(5) historyRange_effect [OF assms(1,4), of a b] by auto
    then show ?thesis
      using history_ext_inv [OF _ _ range_end d, of "unat a"] inv
      by (auto simp: range_committed_def db_inv_def state_ok_def unat_gt_0)
  next
    case (reingestHistoryRangeState a b f)
    then have "committed s' = committed s \<or> (\<exists>q. replaced_upto (first_ledger a) b q (committed s) (committed s'))"
      using Node assms(5,6) reingest_effect [OF assms(1,2,4) z, of a b] by auto
    moreover have "a \<noteq> 0 \<or> committed s' = committed s"
      using Node assms(5) reingestHistoryRangeState by (auto simp: reingestHistoryRangeState_run_def ret_err_def)
    ultimately show ?thesis
      using history_ext_inv [OF _ _ range_end, of "unat (first_ledger a)" _ "drop_range (first_ledger a) b (committed s)"] inv
      by (auto simp: replaced_upto_def db_inv_def state_ok_def drop_range_def unat_gt_0 first_ledger_def split: if_splits)
  qed (use Node assms(6) in simp_all)
next
  case SaveSnapshot
  with save_effect [OF assms(4), of env'] assms(5) inv show ?thesis by (auto simp: db_inv_def state_ok_def)
next
  case RestoreSnapshot
  with assms(5) have "restoreSnapshot env' s = (fst (restoreSnapshot env' s), s')" by auto
  from restore_effect [OF assms(4,2) _ this] inv show ?thesis
    by (auto simp: db_inv_def state_ok_def restored_def drop_range_def CurrentVersion_def split: if_splits)
qed

lemma online_maintained: "online act \<Longrightarrow> maintained act"
  by (cases act rule: online.cases) auto

lemma perform_history_ok:
  assumes "env_ok env'" and "same_network env env'" and "tx s = None" and "perform env' act s = Some s'"
    and "online act" and "db_inv env (committed s)" and ok: "history_ok (historyLedgers (committed s))"
  shows "history_ok (historyLedgers (committed s'))"
proof (cases act)
  case (Node n)
  show ?thesis
  proof (cases n)
    case stopState
    with Node assms(4) ok show ?thesis by (auto simp: ret_err_def)
  next
    case (startState c)
    with Node assms(4) have "startState_run env' c s = (fst (startState_run env' c s), s')" by auto
    from start_effect [OF assms(3) this] ok show ?thesis by auto
  next
    case (buildState c sk st)
    with Node assms(4) have "buildState_run env' c sk st s = (fst (buildState_run env' c sk st s), s')" by auto
    from build_effect [OF assms(3) this] ok show ?thesis by auto
  next
    case (resumeState l)
    with Node assms(4) have "resumeState_run env' l s = (fst (resumeState_run env' l s), s')" by auto
    from resume_effect [OF assms(3) this] resume_advance_inv [OF assms(1,2) _ assms(6)] ok show ?thesis by auto
  next
    case waitForCheckpointState
    with Node assms(4) ok show ?thesis by (auto simp: waitForCheckpointState_run_def ret_def)
  next
    case (historyRangeState a b)
    then have "committed s' = committed s \<or> a \<noteq> 0 \<and> latest_ledger (historyLedgers (committed s)) = a - 1 \<and>
        range_committed a b (committed s) (committed s')"
      using Node assms(4) historyRange_effect [OF assms(1,3), of a b] by auto
    then show ?thesis
      using history_ok_ext [OF ok _ _ _ range_end] ok by (auto simp: range_committed_def)
  qed (use Node assms(5) in simp_all)
next
  case SaveSnapshot
  with save_effect [OF assms(3), of env'] assms(4) ok show ?thesis by auto
qed (use assms(5) in simp_all)

lemma fresh_db_inv: "db_inv env (fresh_db env)"
  by (simp add: db_inv_def state_ok_def fresh_db_def)

text \<open>
  C1. State consistency of the ingestion system: whatever sequence of runs of the nodes start, build, resume,
  wait, history range and reingestion without force, and of load test snapshots and restores, any number
  of instances perform on a database, with whatever failures in the services in between, a database that
  records a last ingested ledger in the current ingestion version has exactly the ledger state of that
  ledger in its state tables, and its history has no ledger twice. Forced reingestion, the verification of
  a range and the stress test are left out, and every instance reads the same ledgers (\<open>same_network\<close>), also under a
  load test; after a restore the version is 0, and nothing is said of the state tables.
\<close>

theorem reachable_state_consistent:
  assumes "reachable maintained env d"
  shows "(lastLedger d \<noteq> 0 \<and> ingestVersion d = CurrentVersion \<longrightarrow>
            stateTables d = applySnapshot env (lastLedger d) (emptyState env)) \<and> distinct (historyLedgers d)"
proof -
  have "db_inv env d"
    using assms
    by (induction rule: reachable.induct) (auto simp: fresh_db_inv intro: perform_inv)
  then show ?thesis by (simp add: db_inv_def state_ok_def ledger_state_def)
qed

text \<open>
  C2. The history an online instance writes has no gap: in a database that any number of instances
  reached with the nodes start, build, resume, wait and history range (and load test snapshots),
  whatever calls failed, the ledgers in \<open>history_ledgers\<close> are a contiguous range, each exactly once.
\<close>

theorem reachable_history_gap_free:
  assumes "reachable online env d"
  shows "distinct (historyLedgers d) \<and>
    (\<forall>x y z. x \<in> set (historyLedgers d) \<longrightarrow> z \<in> set (historyLedgers d) \<longrightarrow> x \<le> y \<longrightarrow> y \<le> z \<longrightarrow> y \<in> set (historyLedgers d))"
proof -
  have "db_inv env d \<and> history_ok (historyLedgers d)"
    using assms
  proof (induction rule: reachable.induct)
    case reachable_fresh
    then show ?case using fresh_db_inv by (simp add: fresh_db_def)
  next
    case (reachable_step s act env' s')
    then show ?case
      using perform_inv [OF reachable_step.hyps(4,5,3,6,7) online_maintained [OF reachable_step.hyps(2)]]
        perform_history_ok [OF reachable_step.hyps(4,3,6,7,2)] by simp
  qed
  then show ?thesis unfolding history_ok_def using gap_freeD [of "historyLedgers d"] by metis
qed

end
