(* ===== verification/Fsm_Live.thy ===== *)
theory Fsm_Live
  imports Fsm_Props
begin

text \<open>
  What the machine achieves when the services answer: an instance on an empty database builds the
  state of the latest checkpoint and then ingests every ledger after it, one per iteration and in order.
\<close>

definition healthy :: "'d env \<Rightarrow> bool" where
  "healthy env \<longleftrightarrow> (\<forall>c k. \<not> fails env c k)"

lemma healthyD [simp]: "healthy env \<Longrightarrow> fails env c k = False"
  by (simp add: healthy_def)

definition available :: "'d env \<Rightarrow> u32 \<Rightarrow> bool" where
  "available env q \<longleftrightarrow>
     (\<exists>m. backendLedger env q = Some m \<and> checkIfProtocolVersionSupported env (metaProtocolVersion m) = None)"

definition keeps_running :: "machine_options \<Rightarrow> bool" where
  "keeps_running opts \<longleftrightarrow> \<not> isTerminalError opts None \<and> (\<forall>k. \<not> ctxDone opts k)"

lemma resume_step:
  assumes "env_ok env" and "healthy env" and "tx s = None" and "load_guard s"
    and "lastLedger (committed s) = l" and "l \<noteq> 0" and "l + 1 \<noteq> 0" and "ingestVersion (committed s) = CurrentVersion"
    and "latest_ledger (historyLedgers (committed s)) = 0 \<or> latest_ledger (historyLedgers (committed s)) = l"
    and "l + 1 \<notin> set (historyLedgers (committed s))" and "stateTables (committed s) = ledger_state env l"
    and "available env (l + 1)"
  shows "\<exists>s'. resumeState_run env l s = ((resumeImmediately (l + 1), None), s') \<and> tx s' = None \<and> load_guard s' \<and>
    committed s' = (committed s)\<lparr>lastLedger := l + 1, stateTables := ledger_state env (l + 1),
      historyLedgers := historyLedgers (committed s) @ [l + 1],
      tradeRebuilds := tradeRebuilds (committed s) @ [(l + 1, l + 1)]\<rparr>"
proof -
  obtain m where m: "backendLedger env (l + 1) = Some m"
    "checkIfProtocolVersionSupported env (metaProtocolVersion m) = None"
    using assms(12) by (auto simp: available_def)
  have seq: "metaSequence m = l + 1" using env_okD(1) [OF assms(1) m(1)] by simp
  have ch: "applyChanges env m (ledger_state env l) = ledger_state env (l + 1)"
    using env_okD(3) [OF assms(1,6) m(1)] .
  have "l \<noteq> - 1" using assms(7) by auto
  then have lt: "\<not> l + 1 \<le> l" using unat_Suc_no_wrap [of l] by (simp add: word_le_nat_alt)
  show ?thesis
    using assms(2-) m seq ch lt mapOrder_single [OF assms(1)]
    by (auto simp: resumeState_run_def resumeState_ingest_def in_tx_eq go_defs Rollback_def ret_def ret_err_def Let_def
        load_guard_def cong: try_call_cong)
qed

lemma of_nat_Suc_word: "l + of_nat (Suc n) = (l + 1 :: u32) + of_nat n"
  by simp

lemma next_ledgers:
  "[l + 1] @ map (\<lambda>k. l + 1 + of_nat k) [1..<Suc n] = map (\<lambda>k. l + of_nat k :: u32) [1..<Suc (Suc n)]"
proof -
  have "[1..<Suc (Suc n)] = 1 # map Suc [1..<Suc n]" by (simp add: upt_conv_Cons map_Suc_upt del: upt_Suc)
  then show ?thesis by (simp add: add.assoc del: upt_Suc)
qed

text \<open>A database that is at ledger \<open>l\<close>, complete and in the current version.\<close>

definition at_ledger :: "'d env \<Rightarrow> u32 \<Rightarrow> 'd db \<Rightarrow> bool" where
  "at_ledger env l d \<longleftrightarrow> lastLedger d = l \<and> l \<noteq> 0 \<and> ingestVersion d = CurrentVersion \<and>
     stateTables d = ledger_state env l \<and> (\<forall>x \<in> set (historyLedgers d). x \<le> l) \<and>
     (historyLedgers d \<noteq> [] \<longrightarrow> l \<in> set (historyLedgers d))"

lemma at_ledger_latest:
  assumes "at_ledger env l d"
  shows "latest_ledger (historyLedgers d) = 0 \<or> latest_ledger (historyLedgers d) = l"
proof (cases "historyLedgers d = []")
  case False
  with assms have "latest_ledger (historyLedgers d) \<le> l" "l \<le> latest_ledger (historyLedgers d)"
    using latest_ledger_mem [OF False] latest_ledger_ge [of l "historyLedgers d"] by (auto simp: at_ledger_def)
  then show ?thesis by (simp add: order_antisym)
qed (simp add: latest_ledger_def)

lemma resume_iterations:
  assumes "env_ok env" and "healthy env" and "keeps_running opts"
    and "tx s = None" and "load_guard s" and "at_ledger env l (committed s)"
    and "unat l + n < 2 ^ 32" and "\<And>k. k \<in> {1..n} \<Longrightarrow> available env (l + of_nat k)"
  shows "\<exists>s'. runStateMachine n env opts (resumeState l) s = Some (Continue (resumeState (l + of_nat n)), s') \<and>
    tx s' = None \<and> at_ledger env (l + of_nat n) (committed s') \<and> loadTest (committed s') = loadTest (committed s) \<and>
    historyLedgers (committed s') = historyLedgers (committed s) @ map (\<lambda>k. l + of_nat k) [1..<Suc n]"
  using assms(4-)
proof (induction n arbitrary: l s)
  case (Suc n)
  note at = Suc.prems(3)
  have u: "unat (l + 1) = Suc (unat l)" using unat_add_no_wrap [of l 1] Suc.prems(4) by simp
  then have l1: "l + 1 \<noteq> 0" by auto
  have fresh: "l + 1 \<notin> set (historyLedgers (committed s))"
    using at u by (auto simp: at_ledger_def word_le_nat_alt)
  have av: "available env (l + 1)" using Suc.prems(5) [of 1] by simp
  obtain s1 where s1: "resumeState_run env l s = ((resumeImmediately (l + 1), None), s1)" "tx s1 = None" "load_guard s1"
    "committed s1 = (committed s)\<lparr>lastLedger := l + 1, stateTables := ledger_state env (l + 1),
      historyLedgers := historyLedgers (committed s) @ [l + 1],
      tradeRebuilds := tradeRebuilds (committed s) @ [(l + 1, l + 1)]\<rparr>"
    using resume_step [OF assms(1,2) Suc.prems(1,2) _ _ l1 _ at_ledger_latest [OF at] fresh _ av] at
    by (auto simp: at_ledger_def)
  have "x \<le> l + 1" if "x \<le> l" for x using that u by (simp add: word_le_nat_alt)
  then have at1: "at_ledger env (l + 1) (committed s1)" using at s1(4) l1 by (auto simp: at_ledger_def)
  have it: "machine_iteration env opts (resumeState l) s = Some (Continue (resumeState (l + 1)), s1)"
    using Suc.prems(1) s1(1) assms(3) by (simp add: machine_iteration_def resumeImmediately_def keeps_running_def)
  have av': "available env (l + 1 + of_nat k)" if "k \<in> {1..n}" for k
    using Suc.prems(5) [of "Suc k"] that by (simp add: add.commute add.left_commute)
  have "unat (l + 1) + n < 2 ^ 32" using u Suc.prems(4) by simp
  from Suc.IH [OF s1(2,3) at1 this av'] obtain s' where
    "runStateMachine n env opts (resumeState (l + 1)) s1 = Some (Continue (resumeState (l + of_nat (Suc n))), s')"
    "tx s' = None" "at_ledger env (l + of_nat (Suc n)) (committed s')" "loadTest (committed s') = loadTest (committed s)"
    "historyLedgers (committed s') = historyLedgers (committed s) @ [l + 1] @ map (\<lambda>k. l + 1 + of_nat k) [1..<Suc n]"
    using s1(4) unfolding of_nat_Suc_word by auto
  then show ?case using it unfolding next_ledgers by simp
qed simp

lemma start_on_empty:
  assumes "healthy env" and "tx s = None" and "load_guard s" and "lastLedger (committed s) = 0"
    and "ingestVersion (committed s) \<le> CurrentVersion" and "historyLedgers (committed s) = []"
    and "\<And>k. latestCheckpoint env k = c"
  shows "\<exists>s'. startState_run env 0 s = ((rebuild c, None), s') \<and> tx s' = None \<and> load_guard s' \<and> committed s' = committed s"
  using assms by (auto simp: node_defs evaluateDBState_def load_guard_def latest_ledger_def cong: try_call_cong)

lemma build_on_empty:
  assumes "env_ok env" and "healthy env" and "tx s = None" and "load_guard s" and "lastLedger (committed s) = 0"
    and "backendLedger env c = Some m" and "checkIfProtocolVersionSupported env (metaProtocolVersion m) = None"
    and "metaBucketListHash m = archiveBucketListHash env c"
  shows "\<exists>s'. buildState_run env c False False s = ((resume c, None), s') \<and> tx s' = None \<and> load_guard s' \<and>
    committed s' = (committed s)\<lparr>lastLedger := c, stateInvalid := False, ingestVersion := CurrentVersion,
       stateTables := ledger_state env c\<rparr>"
proof -
  have "c \<noteq> 0" using env_okD(1) [OF assms(1,6)] by simp
  with assms(2-) show ?thesis
    by (auto simp: buildState_run_def buildState_ingest_def in_tx_eq go_defs Rollback_def ret_def ret_err_def
        RunHistoryArchiveIngestion_def Let_def load_guard_def ledger_state_def cong: try_call_cong)
qed

text \<open>
  C3. Ingestion from scratch: on an empty database, with services that answer, the machine goes from
  the start node through the build node to the resume node and has, after \<open>n + 2\<close> iterations, the state
  of ledger \<open>c + n\<close> in its state tables, where \<open>c\<close> is the latest checkpoint, records \<open>c + n\<close> as the last
  ingested ledger, and has written the history of the ledgers \<open>c + 1, ..., c + n\<close> in this order.
\<close>

theorem machine_ingests_from_scratch:
  assumes "env_ok env" and "healthy env" and "keeps_running opts"
    and "\<And>k. latestCheckpoint env k = c" and "available env c"
    and "\<And>m. backendLedger env c = Some m \<Longrightarrow> metaBucketListHash m = archiveBucketListHash env c"
    and "unat c + n < 2 ^ 32" and "\<And>k. k \<in> {1..n} \<Longrightarrow> available env (c + of_nat k)"
  shows "\<exists>s'. runStateMachine (Suc (Suc n)) env opts (startState 0) (instance_on (fresh_db env)) =
       Some (Continue (resumeState (c + of_nat n)), s') \<and>
     tx s' = None \<and> lastLedger (committed s') = c + of_nat n \<and>
     stateTables (committed s') = applySnapshot env (c + of_nat n) (emptyState env) \<and>
     historyLedgers (committed s') = map (\<lambda>k. c + of_nat k) [1..<Suc n]"
proof -
  let ?s = "instance_on (fresh_db env)"
  have guard: "load_guard ?s" by (simp add: load_guard_def load_mismatch_def fresh_db_def)
  obtain s1 where s1: "startState_run env 0 ?s = ((rebuild c, None), s1)" "tx s1 = None" "load_guard s1"
    "committed s1 = fresh_db env"
    using start_on_empty [OF assms(2) _ guard, of c] assms(4) by (auto simp: fresh_db_def CurrentVersion_def)
  obtain m where m: "backendLedger env c = Some m" "checkIfProtocolVersionSupported env (metaProtocolVersion m) = None"
    using assms(5) by (auto simp: available_def)
  have c0: "c \<noteq> 0" using env_okD(1) [OF assms(1) m(1)] by simp
  obtain s2 where s2: "buildState_run env c False False s1 = ((resume c, None), s2)" "tx s2 = None" "load_guard s2"
    "committed s2 = (fresh_db env)\<lparr>lastLedger := c, stateInvalid := False, ingestVersion := CurrentVersion,
       stateTables := ledger_state env c\<rparr>"
    using build_on_empty [OF assms(1,2) s1(2,3) _ m assms(6) [OF m(1)]] s1(4) by (auto simp: fresh_db_def)
  have at: "at_ledger env c (committed s2)" using s2(4) c0 by (simp add: at_ledger_def fresh_db_def)
  have i1: "machine_iteration env opts (startState 0) ?s = Some (Continue (buildState c False False), s1)"
    and i2: "machine_iteration env opts (buildState c False False) s1 = Some (Continue (resumeState c), s2)"
    using s1 s2 assms(3) by (simp_all add: machine_iteration_def rebuild_def resume_def keeps_running_def)
  show ?thesis
    using resume_iterations [OF assms(1-3) s2(2,3) at assms(7,8)] i1 i2 s2(4)
    by (auto simp: at_ledger_def ledger_state_def fresh_db_def)
qed

lemma demo_available: "q \<noteq> 0 \<Longrightarrow> q \<le> 1000 \<Longrightarrow> available demo_env q"
  by (auto simp: available_def demo_env_def checkIfProtocolVersionSupported_def)

lemma demo_healthy: "healthy demo_env"
  by (simp add: healthy_def demo_env_def)

lemma run_forever_keeps_running: "keeps_running run_forever"
  by (simp add: keeps_running_def run_forever_def)

theorem machine_ingests_from_scratch_witness:
  "\<exists>s'. runStateMachine 5 demo_env run_forever (startState 0) (instance_on (fresh_db demo_env)) =
       Some (Continue (resumeState 66), s') \<and>
     tx s' = None \<and> lastLedger (committed s') = 66 \<and> stateTables (committed s') = 66 \<and>
     historyLedgers (committed s') = [64, 65, 66]"
proof -
  have "{1..3} = {1, 2, 3 :: nat}" by auto
  then have av: "available demo_env (63 + of_nat k)" if "k \<in> {1..3}" for k
    using that by (auto intro: demo_available)
  have chk: "latestCheckpoint demo_env k = 63" for k by (simp add: demo_env_def)
  have hash: "backendLedger demo_env 63 = Some m \<Longrightarrow> metaBucketListHash m = archiveBucketListHash demo_env 63" for m
    by (auto simp: demo_env_def)
  have ledgers: "map (\<lambda>k. 63 + of_nat k :: u32) [1..<Suc 3] = [64, 65, 66]"
    by (simp add: upt_rec)
  have num: "Suc (Suc 3) = 5" "63 + of_nat 3 = (66 :: u32)" "applySnapshot demo_env 66 (emptyState demo_env) = 66"
    by (simp_all add: demo_env_def)
  have "available demo_env 63" "unat (63 :: u32) + 3 < 2 ^ 32" by (simp_all add: demo_available)
  from machine_ingests_from_scratch
    [OF demo_env_ok demo_healthy run_forever_keeps_running chk this(1) hash this(2) av, unfolded ledgers num]
  show ?thesis .
qed

end
