(* ===== verification/Fsm_Claims.thy ===== *)
theory Fsm_Claims
  imports Fsm_Live
begin

text \<open>
  The contracts of the single nodes, of the reingest command and of the load test snapshots, with
  the instances that show the hypotheses of the reachability theorems can be met.
\<close>

subsection \<open>A reachable database of the example network\<close>

lemma demo_step:
  assumes "reachable allowed demo_env (committed s)" and "allowed (Node n)" and "tx s = None"
    and "run demo_env n s = Some (r, s')"
  shows "reachable allowed demo_env (committed s')"
  using reachable_step [OF assms(1,2) _ demo_env_ok demo_toid_ok assms(3), of s'] assms(4)
  by (simp add: same_network_def)

lemma demo_reachable:
  assumes "\<And>n. online (Node n) \<Longrightarrow> allowed (Node n)"
  shows "\<exists>d. reachable allowed demo_env d \<and> lastLedger d = 64 \<and> ingestVersion d = CurrentVersion \<and> historyLedgers d = [64]"
proof -
  let ?s = "instance_on (fresh_db demo_env)"
  have guard: "load_guard ?s" by (simp add: load_guard_def load_mismatch_def fresh_db_def)
  obtain m where m: "backendLedger demo_env 63 = Some m" "metaBucketListHash m = archiveBucketListHash demo_env 63"
    "checkIfProtocolVersionSupported demo_env (metaProtocolVersion m) = None"
    by (simp add: demo_env_def checkIfProtocolVersionSupported_def)
  obtain s1 where s1: "buildState_run demo_env 63 False False ?s = ((resume 63, None), s1)" "tx s1 = None" "load_guard s1"
    "committed s1 = (fresh_db demo_env)\<lparr>lastLedger := 63, stateInvalid := False, ingestVersion := CurrentVersion,
       stateTables := ledger_state demo_env 63\<rparr>"
    using build_on_empty [OF demo_env_ok demo_healthy _ guard _ m(1,3,2)] by (auto simp: fresh_db_def)
  have r1: "reachable allowed demo_env (committed s1)"
    by (rule demo_step [of _ ?s "buildState 63 False False"]) (use s1(1) assms in \<open>auto intro: reachable_fresh\<close>)
  obtain s2 where s2: "resumeState_run demo_env 63 s1 = ((resumeImmediately 64, None), s2)"
    "committed s2 = (committed s1)\<lparr>lastLedger := 64, stateTables := ledger_state demo_env 64,
      historyLedgers := historyLedgers (committed s1) @ [64],
      tradeRebuilds := tradeRebuilds (committed s1) @ [(64, 64)]\<rparr>"
    using resume_step [OF demo_env_ok demo_healthy s1(2,3), of 63] s1(4) demo_available [of 64]
    by (auto simp: fresh_db_def latest_ledger_def)
  have "reachable allowed demo_env (committed s2)"
    by (rule demo_step [OF r1 _ s1(2), of "resumeState 63"]) (use s2(1) assms in auto)
  with s1(4) s2(2) show ?thesis by (auto simp: fresh_db_def)
qed

theorem reachable_state_consistent_witness:
  "\<exists>d. reachable maintained demo_env d \<and> lastLedger d = 64 \<and> stateTables d = 64 \<and> distinct (historyLedgers d)"
proof -
  obtain d where d: "reachable maintained demo_env d" "lastLedger d = 64" "ingestVersion d = CurrentVersion"
    using demo_reachable [of maintained] online_maintained by blast
  with reachable_state_consistent [OF d(1)] show ?thesis by (auto simp: demo_env_def)
qed

theorem reachable_history_gap_free_witness:
  "\<exists>d. reachable online demo_env d \<and> historyLedgers d = [64] \<and>
    (\<forall>y. 64 \<le> y \<and> y \<le> 64 \<longrightarrow> y \<in> set (historyLedgers d))"
proof -
  obtain d where d: "reachable online demo_env d" "historyLedgers d = [64]"
    using demo_reachable [of online] by blast
  have "64 \<in> set (historyLedgers d)" using d(2) by simp
  then have "\<forall>y. 64 \<le> y \<and> y \<le> 64 \<longrightarrow> y \<in> set (historyLedgers d)"
    using reachable_history_gap_free [OF d(1)] by blast
  with d show ?thesis by blast
qed

subsection \<open>The resume node\<close>

text \<open>
  C5. One ledger or nothing: a run of the resume node either leaves the database exactly as it was, or
  it advances it by exactly one ledger, and it does the second only when the database was at the
  ledger the node expects, in the current version, with a history that ends there or is empty, and the
  instance may write; then state tables, history row, trade aggregation and last ingested ledger
  change together and the node continues from the new ledger. Failing calls, and processors that fail
  half way and leave arbitrary writes behind, never leave a partial ledger.
\<close>

theorem resume_one_ledger_or_nothing:
  assumes "env_ok env" and "tx s = None" and "resumeState_run env l s = (r, s')"
  shows "committed s' = committed s \<or>
    (\<exists>m. backendLedger env (l + 1) = Some m \<and> r = (resumeImmediately (l + 1), None) \<and>
       lastLedger (committed s) = l \<and> ingestVersion (committed s) = CurrentVersion \<and>
       (loadTest (committed s) = None \<and> runId s = [] \<or> (\<exists>b. loadTest (committed s) = Some (runId s, b))) \<and>
       latest_ledger (historyLedgers (committed s)) \<in> {0, l} \<and>
       committed s' = (committed s)\<lparr>lastLedger := l + 1,
         stateTables := applyChanges env m (stateTables (committed s)),
         historyLedgers := historyLedgers (committed s) @ [l + 1],
         tradeRebuilds := tradeRebuilds (committed s) @ [(l + 1, l + 1)]\<rparr>)"
proof (cases "committed s' = committed s")
  case False
  then have g: "load_guard s" and r: "r = (resumeImmediately (l + 1), None)"
    and adv: "resume_advance env l (committed s) (committed s')"
    using resume_effect [OF assms(2,3)] by blast+
  have lt: "loadTest (committed s) = None \<and> runId s = [] \<or> (\<exists>b. loadTest (committed s) = Some (runId s, b))"
    using g by (auto simp: load_guard_def load_mismatch_def split: option.splits)
  obtain m n where m: "backendLedger env (l + 1) = Some m"
    and c: "lastLedger (committed s) = l" "ingestVersion (committed s) = CurrentVersion"
      "latest_ledger (historyLedgers (committed s)) \<in> {0, l}"
      "committed s' = (committed s)\<lparr>lastLedger := l + 1,
         stateTables := applyChanges env m (stateTables (committed s)),
         historyLedgers := historyLedgers (committed s) @ mapOrder env n [metaSequence m],
         tradeRebuilds := tradeRebuilds (committed s) @ [(l + 1, l + 1)]\<rparr>"
    using adv unfolding resume_advance_def by blast
  have "metaSequence m = l + 1" using env_okD(1) [OF assms(1) m] by simp
  with m c r lt mapOrder_single [OF assms(1)] show ?thesis by simp
qed simp

definition demo_db63 :: "nat db" where
  "demo_db63 = (fresh_db demo_env)\<lparr>lastLedger := 63, ingestVersion := CurrentVersion, stateTables := 63\<rparr>"

lemma demo_at_63: "at_ledger demo_env 63 demo_db63" "load_guard (instance_on demo_db63)"
  by (simp_all add: demo_db63_def fresh_db_def at_ledger_def ledger_state_def load_guard_def load_mismatch_def demo_env_def)

theorem resume_one_ledger_or_nothing_witness:
  "\<exists>r s'. resumeState_run demo_env 63 (instance_on demo_db63) = (r, s') \<and> r = (resumeImmediately 64, None) \<and>
     lastLedger (committed s') = 64 \<and> historyLedgers (committed s') = [64] \<and> tradeRebuilds (committed s') = [(64, 64)]"
proof -
  obtain r s' where run: "resumeState_run demo_env 63 (instance_on demo_db63) = (r, s')" by fastforce
  have "committed s' \<noteq> demo_db63"
    using resume_step [OF demo_env_ok demo_healthy _ demo_at_63(2), of 63] run demo_at_63(1) demo_available [of 64]
    by (auto simp: at_ledger_def demo_db63_def fresh_db_def latest_ledger_def)
  with resume_one_ledger_or_nothing [OF demo_env_ok _ run] run show ?thesis
    by (auto simp: demo_db63_def fresh_db_def)
qed

subsection \<open>The start node\<close>

text \<open>
  The start node decides soundly: when it hands over without an error, it resumes only at the
  recorded last ledger of a non-empty database in the current version whose history ends there or is
  empty; it asks for a history range only if that range starts right after the last ledger of the
  history and is not empty; it rebuilds from a checkpoint only when the database records no ledger or
  is older than the current version; it stops only when the database was written by a newer version.
\<close>

theorem start_decides_soundly:
  assumes "tx s = None" and "startState_run env sc s = ((t, None), s')"
  shows "case next_node t of
      resumeState l \<Rightarrow> l \<noteq> 0 \<and> lastLedger (committed s) = l \<and> ingestVersion (committed s) = CurrentVersion \<and>
        latest_ledger (historyLedgers (committed s)) \<in> {0, l}
    | historyRangeState a b \<Rightarrow> a = latest_ledger (historyLedgers (committed s)) + 1 \<and> latest_ledger (historyLedgers (committed s)) < b
    | buildState c sk st \<Rightarrow> \<not> sk \<and> \<not> st \<and> (lastLedger (committed s) = 0 \<or> ingestVersion (committed s) < CurrentVersion) \<and>
        latest_ledger (historyLedgers (committed s)) \<in> {0, c}
    | stopState \<Rightarrow> CurrentVersion < ingestVersion (committed s)
    | startState c \<Rightarrow> c = 0 \<and> committed s' = (committed s)\<lparr>lastLedger := 0\<rparr> \<and>
        lastLedger (committed s) < latest_ledger (historyLedgers (committed s))
    | waitForCheckpointState \<Rightarrow> lastLedger (committed s) = 0 \<or> ingestVersion (committed s) < CurrentVersion
    | _ \<Rightarrow> False"
  using assms
  by (simp add: node_defs evaluateDBState_def cong: try_call_cong split: if_splits)
     (auto simp: stop_def start_t_def rebuild_def resume_def historyRange_def waitForCheckPoint_def not_less)

theorem start_decides_soundly_witness:
  "\<exists>t s'. startState_run demo_env 0 (instance_on demo_db63) = ((t, None), s') \<and> next_node t = resumeState 63 \<and>
     lastLedger demo_db63 = 63"
proof -
  have run: "startState_run demo_env 0 (instance_on demo_db63) =
      ((resume 63, None), snd (startState_run demo_env 0 (instance_on demo_db63)))"
    by (simp add: node_defs evaluateDBState_def demo_db63_def fresh_db_def instance_on_def load_mismatch_def
        latest_ledger_def CurrentVersion_def demo_env_def cong: try_call_cong)
  from start_decides_soundly [OF _ run] have "lastLedger demo_db63 = 63" by (simp add: resume_def)
  with run show ?thesis by (auto simp: resume_def)
qed

subsection \<open>Load tests\<close>

text \<open>
  While a load test runs, its database belongs to it: an instance that does not run that load
  test (or that runs one the database does not know) changes nothing in its start, build and resume
  nodes, whatever else happens; its build and resume nodes and a start node that would correct the
  database return an error or leave it alone.
\<close>

theorem load_test_excludes_others:
  assumes "tx s = None" and "loadTest (committed s) = Some (rid, b) \<and> rid \<noteq> runId s \<or> loadTest (committed s) = None \<and> runId s \<noteq> []"
    and "run env n s = Some (r, s')" and "GetState n \<in> {Start, Build, Resume}"
  shows "committed s' = committed s"
proof -
  have g: "\<not> load_guard s" using assms(2) by (auto simp: load_guard_def load_mismatch_def)
  consider c where "n = startState c" | c sk st where "n = buildState c sk st" | l where "n = resumeState l"
    using assms(4) by (cases n) auto
  then show ?thesis
  proof cases
    case 1
    with start_effect [OF assms(1)] g assms(3) show ?thesis by fastforce
  next
    case 2
    with build_effect [OF assms(1)] g assms(3) show ?thesis by fastforce
  next
    case 3
    with resume_effect [OF assms(1)] g assms(3) show ?thesis by fastforce
  qed
qed

theorem load_test_excludes_others_witness:
  "\<exists>r s'. run demo_env (resumeState 63) (instance_on (demo_db63\<lparr>loadTest := Some (''other'', 63)\<rparr>)) = Some (r, s') \<and>
     committed s' = demo_db63\<lparr>loadTest := Some (''other'', 63)\<rparr>"
proof -
  let ?s = "instance_on (demo_db63\<lparr>loadTest := Some (''other'', 63)\<rparr>)"
  obtain r s' where run: "run demo_env (resumeState 63) ?s = Some (r, s')"
    using run_returns [OF demo_env_ok] by fastforce
  from load_test_excludes_others [OF _ _ run] show ?thesis using run by simp
qed

lemma save_on_idle:
  assumes "healthy env" and "tx s = None" and "runId s = []" and "loadTest (committed s) = None"
  shows "\<exists>s' rid. loadTestSnapshot_save env s = (Inr (), s') \<and> tx s' = None \<and> runId s' = rid \<and>
    committed s' = (committed s)\<lparr>loadTest := Some (rid, lastLedger (committed s))\<rparr>"
  using assms by (auto simp: loadTestSnapshot_save_def in_tx_eq go_defs Rollback_def cong: try_call_cong)

lemma filter_loaded:
  assumes "\<forall>x \<in> set h. x \<le> (l :: u32)" and "unat l + n < 2 ^ 32" and "0 < n"
  shows "filter (\<lambda>x. \<not> (l + 1 \<le> x \<and> x \<le> l + of_nat n)) (h @ map (\<lambda>k. l + of_nat k) [1..<Suc n]) = h"
proof -
  have u: "unat (l + of_nat k) = unat l + k" if "k \<le> n" for k
  proof -
    have "unat (of_nat k :: u32) = k" using that assms(2) by (simp add: unat_of_nat)
    then show ?thesis using unat_add_no_wrap [of l "of_nat k"] that assms(2) by simp
  qed
  have "\<not> l + 1 \<le> x" if "x \<in> set h" for x
    using assms(1) that u [of 1] \<open>0 < n\<close> by (auto simp: word_le_nat_alt)
  moreover have "l + 1 \<le> l + of_nat k \<and> l + of_nat k \<le> l + of_nat n" if "k \<in> {1..<Suc n}" for k
    using u [of k] u [of 1] u [of n] that by (simp add: word_le_nat_alt)
  ultimately show ?thesis by (auto simp: filter_empty_conv simp del: upt_Suc)
qed

lemma restore_succeeds:
  assumes "healthy env" and "tx s = None" and "loadTest (committed s) = Some (rid, l)" and "l \<le> lastLedger (committed s)"
    and "l < lastLedger (committed s) \<Longrightarrow> LedgerRangeInclusive env (l + 1) (lastLedger (committed s)) \<noteq> None"
  shows "\<exists>s'. restoreSnapshot env s = (Inr (), s')"
proof (cases "l < lastLedger (committed s)")
  case True
  with assms(5) obtain x y where "LedgerRangeInclusive env (l + 1) (lastLedger (committed s)) = Some (x, y)" by auto
  with True assms(1-4) show ?thesis
    by (auto simp: restoreSnapshot_def in_tx_eq go_defs Rollback_def Commit_def Let_def cong: try_call_cong)
next
  case False
  with assms(1-4) show ?thesis
    by (auto simp: restoreSnapshot_def in_tx_eq go_defs Rollback_def Commit_def Let_def cong: try_call_cong)
qed

text \<open>
  C7. A load test can be undone, when the services answer: on a database at ledger \<open>l\<close>, the snapshot is taken, \<open>n\<close> ledgers are
  ingested under it, and restoring succeeds. After that the history is exactly what it was before, no load
  test is recorded, and, if anything was ingested, the ingestion version is 0, so that the next start
  rebuilds the state tables instead of using those of the load test; with \<open>n = 0\<close> the whole database is
  what it was. The TOID package has to have a range of identifiers for the ledgers that were ingested.
\<close>

theorem load_test_round_trip:
  assumes "env_ok env" and "toid_ok env" and "healthy env" and "keeps_running opts"
    and "tx s = None" and "runId s = []" and "loadTest (committed s) = None"
    and "at_ledger env l (committed s)" and "0 \<notin> set (historyLedgers (committed s))"
    and "unat l + n < 2 ^ 32" and "\<And>k. k \<in> {1..n} \<Longrightarrow> available env (l + of_nat k)"
    and "0 < n \<Longrightarrow> LedgerRangeInclusive env (l + 1) (l + of_nat n) \<noteq> None"
  shows "\<exists>s1 s2 s3. loadTestSnapshot_save env s = (Inr (), s1) \<and>
    runStateMachine n env opts (resumeState l) s1 = Some (Continue (resumeState (l + of_nat n)), s2) \<and>
    restoreSnapshot env s2 = (Inr (), s3) \<and>
    historyLedgers (committed s3) = historyLedgers (committed s) \<and> loadTest (committed s3) = None \<and>
    (if n = 0 then committed s3 = committed s else ingestVersion (committed s3) = 0)"
proof -
  obtain s1 rid where s1: "loadTestSnapshot_save env s = (Inr (), s1)" "tx s1 = None" "runId s1 = rid"
    "committed s1 = (committed s)\<lparr>loadTest := Some (rid, l)\<rparr>"
    using save_on_idle [OF assms(3,5-7)] assms(8) by (auto simp: at_ledger_def)
  have g: "load_guard s1" using s1(3,4) by (simp add: load_guard_def load_mismatch_def)
  have at1: "at_ledger env l (committed s1)" using assms(8) s1(4) by (simp add: at_ledger_def)
  obtain s2 where s2: "runStateMachine n env opts (resumeState l) s1 = Some (Continue (resumeState (l + of_nat n)), s2)"
    "tx s2 = None" "at_ledger env (l + of_nat n) (committed s2)" "loadTest (committed s2) = Some (rid, l)"
    "historyLedgers (committed s2) = historyLedgers (committed s) @ map (\<lambda>k. l + of_nat k) [1..<Suc n]"
    using resume_iterations [OF assms(1,3,4) s1(2) g at1 assms(10,11)] s1(4) by auto
  have u: "unat (l + of_nat k) = unat l + k" if "k \<le> n" for k
    using unat_add_no_wrap [of l "of_nat k"] that assms(10) unat_of_nat_small [of k, where 'a = 32] by simp
  have zero: "0 \<notin> set (historyLedgers (committed s2))"
  proof -
    have "l + of_nat k \<noteq> 0" if "1 \<le> k" and "k < Suc n" for k
    proof
      assume "l + of_nat k = 0"
      then have "unat (l + of_nat k) = 0" by simp
      with u [of k] that show False by simp
    qed
    then have "0 \<notin> set (map (\<lambda>k. l + of_nat k) [1..<Suc n])" by (fastforce simp del: upt_Suc)
    then show ?thesis unfolding s2(5) using assms(9) by (simp del: upt_Suc)
  qed
  have lt: "l < l + of_nat n \<longleftrightarrow> 0 < n" using u [of n] by (auto simp: word_less_nat_alt)
  have "historyLedgers (committed s3) = historyLedgers (committed s) \<and> loadTest (committed s3) = None \<and>
       (if n = 0 then committed s3 = committed s else ingestVersion (committed s3) = 0)"
    if r: "restoreSnapshot env s2 = (Inr (), s3)" for s3
  proof -
    have c3: "committed s3 = restored l (committed s2)"
      using restore_effect [OF s2(2) assms(2) zero r] s2(4) by auto
    show ?thesis
    proof (cases "n = 0")
      case True
      then have "committed s2 = (committed s)\<lparr>loadTest := Some (rid, l)\<rparr>" using s2(1) s1(4) by simp
      then have "committed s3 = (committed s)\<lparr>loadTest := None\<rparr>"
        using c3 assms(8) by (simp add: restored_def at_ledger_def)
      also have "\<dots> = committed s" using assms(7) by (cases "committed s") simp
      finally show ?thesis using True assms(7) by simp
    next
      case False
      with c3 s2(3,5) lt filter_loaded [of "historyLedgers (committed s)" l n] assms(8,10) show ?thesis
        by (auto simp: restored_def at_ledger_def drop_range_def simp del: upt_Suc)
    qed
  qed
  moreover have "\<exists>s3. restoreSnapshot env s2 = (Inr (), s3)"
    using s2(3) lt assms(12) u [of n] by (intro restore_succeeds [OF assms(3) s2(2,4)]) (auto simp: at_ledger_def word_le_nat_alt)
  ultimately show ?thesis using s1(1) s2(1) by blast
qed

theorem load_test_round_trip_witness:
  "\<exists>s1 s2 s3. loadTestSnapshot_save demo_env (instance_on demo_db63) = (Inr (), s1) \<and>
    runStateMachine 2 demo_env run_forever (resumeState 63) s1 = Some (Continue (resumeState 65), s2) \<and>
    restoreSnapshot demo_env s2 = (Inr (), s3) \<and>
    historyLedgers (committed s3) = [] \<and> loadTest (committed s3) = None \<and> ingestVersion (committed s3) = 0"
proof -
  have "{1..2} = {1, 2 :: nat}" by auto
  then have av: "available demo_env (63 + of_nat k)" if "k \<in> {1..2}" for k
    using that by (auto intro: demo_available)
  have db: "loadTest demo_db63 = None" "historyLedgers demo_db63 = []" by (simp_all add: demo_db63_def fresh_db_def)
  have r: "LedgerRangeInclusive demo_env (63 + 1) (63 + of_nat 2) \<noteq> None" by (simp add: demo_env_def)
  have "unat (63 :: u32) + 2 < 2 ^ 32" by simp
  from load_test_round_trip [OF demo_env_ok demo_toid_ok demo_healthy run_forever_keeps_running _ _ _ _ _ this av r,
      of "instance_on demo_db63"] show ?thesis using demo_at_63(1) db by simp
qed

subsection \<open>Ranges\<close>

lemma history_ext_set:
  "history_ext p q d d' \<Longrightarrow> set (historyLedgers d') = set (historyLedgers d) \<union> set (seqs p q)"
  by (auto simp: history_ext_def dest: mset_eq_setD)

lemma replaced_all:
  assumes "replaced_upto a b (Suc (unat b)) d d'"
  shows "a \<le> b \<and> set (historyLedgers d') = set (historyLedgers d) \<union> {a..b} \<and> d' = d\<lparr>historyLedgers := historyLedgers d'\<rparr>"
proof -
  have ext: "history_ext (unat a) (Suc (unat b)) (drop_range a b d) d'" and "a \<le> b"
    using assms by (auto simp: replaced_upto_def)
  have "d' = d\<lparr>historyLedgers := historyLedgers d'\<rparr>" using ext by (auto simp: history_ext_def drop_range_def)
  moreover have "{x \<in> set (historyLedgers d). \<not> (a \<le> x \<and> x \<le> b)} \<union> {a..b} = set (historyLedgers d) \<union> {a..b}"
    by auto
  ultimately show ?thesis
    using \<open>a \<le> b\<close> history_ext_set [OF ext] by (simp add: drop_range_def set_seqs_range)
qed

lemma replaced_distinct:
  assumes "replaced_upto a b q d d'" and "a \<noteq> 0" and "distinct (historyLedgers d)"
  shows "distinct (historyLedgers d')"
  using assms history_ext_inv [of "unat a" q "drop_range a b d" d', OF _ _ range_end]
  by (auto simp: replaced_upto_def drop_range_def unat_gt_0)

text \<open>
  C6. Reingestion replaces exactly the range: when \<open>reingest range\<close> succeeds, forced or not, the
  history has every ledger of the requested range (from ledger 2 on when it starts at 1), no ledger
  twice, every other row it had before, and nothing else in the database has changed. Unforced, it
  succeeds only below the last ingested ledger (or on a database that has none).
\<close>

theorem reingest_replaces_range:
  assumes "env_ok env" and "toid_ok env" and "tx s = None"
    and "0 \<notin> set (historyLedgers (committed s))" and "distinct (historyLedgers (committed s))"
    and "reingestHistoryRangeState_run env from to force s = Some ((t, None), s')"
  shows "let from' = (if from = 1 then 2 else from) in
    committed s' = (committed s)\<lparr>historyLedgers := historyLedgers (committed s')\<rparr> \<and>
    set (historyLedgers (committed s')) = set (historyLedgers (committed s)) \<union> {from'..to} \<and>
    distinct (historyLedgers (committed s')) \<and> from' \<le> to \<and>
    (\<not> force \<longrightarrow> lastLedger (committed s) = 0 \<or> to < lastLedger (committed s))"
proof -
  have rep: "replaced_upto (first_ledger from) to (Suc (unat to)) (committed s) (committed s')"
    using reingest_force_success [OF assms(1-4)] reingest_effect [OF assms(1-4), of "from" to] assms(6)
    by (cases force) auto
  have "from \<noteq> 0" using assms(6) by (auto simp: reingestHistoryRangeState_run_def ret_err_def)
  then have "first_ledger from \<noteq> 0" by (simp add: first_ledger_def)
  from replaced_all [OF rep] replaced_distinct [OF rep this assms(5)]
  show ?thesis
    using reingest_effect [OF assms(1-4), of "from" to] assms(6)
    by (cases force) (auto simp: Let_def first_ledger_def)
qed

lemma demo_reingest:
  "\<exists>s'. reingestHistoryRangeState_run demo_env 1 3 False (instance_on demo_db63) = Some ((stop, None), s')"
  by (simp add: reingestHistoryRangeState_run_def ingestRange_def ingestRange_loop.simps demo_env_def demo_db63_def
      fresh_db_def instance_on_def go_defs PrepareRange_def GetLedger_def svc_def RunTransactionProcessorsOnLedgers_def
      checkIfProtocolVersionSupported_def runner_defs ret_def Rollback_def delete_range_def Commit_def
      cong: try_call_cong)

theorem reingest_replaces_range_witness:
  "\<exists>s'. reingestHistoryRangeState_run demo_env 1 3 False (instance_on demo_db63) = Some ((stop, None), s') \<and>
     set (historyLedgers (committed s')) = {2..3} \<and> distinct (historyLedgers (committed s')) \<and>
     lastLedger (committed s') = 63"
proof -
  obtain s' where run: "reingestHistoryRangeState_run demo_env 1 3 False (instance_on demo_db63) = Some ((stop, None), s')"
    using demo_reingest by blast
  have db: "historyLedgers demo_db63 = []" "lastLedger demo_db63 = 63" by (simp_all add: demo_db63_def fresh_db_def)
  have eq: "committed s' = demo_db63\<lparr>historyLedgers := historyLedgers (committed s')\<rparr>"
    and h: "set (historyLedgers (committed s')) = {2..3} \<and> distinct (historyLedgers (committed s'))"
    using reingest_replaces_range [OF demo_env_ok demo_toid_ok _ _ _ run] db by (simp_all add: Let_def)
  have "lastLedger (committed s') = 63" using arg_cong [OF eq, of lastLedger] db(2) by simp
  with h show ?thesis using run by blast
qed

text \<open>
  A history range is filled without a gap: when the history range node returns without an error
  from a database whose history ends right before the range, every ledger of the range has one new
  row and nothing else has changed. When it returns an error, the history is what it was or has grown
  by the first ledgers of the range, so that the next attempt starts right after them. A node whose
  range does not start right after the history changes nothing.
\<close>

theorem history_range_fills_prefix:
  assumes "env_ok env" and "tx s = None"
  shows "\<exists>t err s'. historyRangeState_run env from to s = Some ((t, err), s') \<and>
    (committed s' = committed s \<or>
     from \<noteq> 0 \<and> latest_ledger (historyLedgers (committed s)) = from - 1 \<and>
     (\<exists>q h. unat from \<le> q \<and> q \<le> Suc (unat to) \<and> mset h = mset (map of_nat [unat from..<q]) \<and>
        committed s' = (committed s)\<lparr>historyLedgers := historyLedgers (committed s) @ h\<rparr>)) \<and>
    (err = None \<and> latest_ledger (historyLedgers (committed s)) = from - 1 \<longrightarrow>
       set (historyLedgers (committed s')) = set (historyLedgers (committed s)) \<union> {from..to} \<and>
       (distinct (historyLedgers (committed s)) \<longrightarrow> distinct (historyLedgers (committed s'))))"
proof -
  obtain r s' where run: "historyRangeState_run env from to s = Some (r, s')"
    and eff: "committed s' = committed s \<or>
     from \<noteq> 0 \<and> from \<le> to \<and> latest_ledger (historyLedgers (committed s)) = from - 1 \<and>
     range_committed from to (committed s) (committed s')"
    and ok: "snd r = None \<longrightarrow> latest_ledger (historyLedgers (committed s)) \<noteq> from - 1 \<and> committed s' = committed s \<or>
       history_ext (unat from) (Suc (unat to)) (committed s) (committed s')"
    using historyRange_effect [OF assms, of "from" to] by (elim exE conjE) (rule that)
  have "from \<noteq> 0" if "snd r = None"
    using run that by (auto simp: historyRangeState_run_def ret_err_def)
  then have "set (historyLedgers (committed s')) = set (historyLedgers (committed s)) \<union> {from..to} \<and>
       (distinct (historyLedgers (committed s)) \<longrightarrow> distinct (historyLedgers (committed s')))"
    if "snd r = None" and "latest_ledger (historyLedgers (committed s)) = from - 1"
    using that ok history_ext_set [of "unat from" "Suc (unat to)" "committed s" "committed s'"]
      set_seqs_range [of "from" to] range_end [OF order_refl, of to]
      history_ext_inv [of "unat from" "Suc (unat to)" "committed s" "committed s'"] by (auto simp: unat_gt_0)
  moreover have "committed s' = committed s \<or>
     from \<noteq> 0 \<and> latest_ledger (historyLedgers (committed s)) = from - 1 \<and>
     (\<exists>q h. unat from \<le> q \<and> q \<le> Suc (unat to) \<and> mset h = mset (map of_nat [unat from..<q]) \<and>
        committed s' = (committed s)\<lparr>historyLedgers := historyLedgers (committed s) @ h\<rparr>)"
    using eff unfolding range_committed_def history_ext_def seqs_def by blast
  ultimately show ?thesis using run by (intro exI [of _ "fst r"] exI [of _ "snd r"] exI [of _ s']) auto
qed

lemma demo_history_range:
  "\<exists>s'. historyRangeState_run demo_env 1 3 (instance_on (fresh_db demo_env)) = Some ((start_t, None), s')"
  by (simp add: historyRangeState_run_def historyRangeState_body_def historyRange_loop.simps demo_env_def
      fresh_db_def instance_on_def go_defs maybePrepareRange_def IsPrepared_def GetLedger_def svc_def svc_process_def
      RunTransactionProcessorsOnLedgers_def Begin_def latest_ledger_def
      checkIfProtocolVersionSupported_def runner_defs ret_def Rollback_def Commit_def deferRollback_Some
      cong: try_call_cong)

theorem history_range_fills_prefix_witness:
  "\<exists>s'. historyRangeState_run demo_env 1 3 (instance_on (fresh_db demo_env)) = Some ((start_t, None), s') \<and>
     set (historyLedgers (committed s')) = {1..3} \<and> distinct (historyLedgers (committed s'))"
proof -
  have db: "historyLedgers (fresh_db demo_env) = []" by (simp add: fresh_db_def)
  obtain s' where "historyRangeState_run demo_env 1 3 (instance_on (fresh_db demo_env)) = Some ((start_t, None), s')"
    using demo_history_range by blast
  with history_range_fills_prefix [OF demo_env_ok, of "instance_on (fresh_db demo_env)" 1 3] db show ?thesis
    by (auto simp: latest_ledger_def)
qed

end
