(* ===== verification/Reaper.thy ===== *)
theory Reaper
  imports Fsm_Claims
begin

text \<open>
  The history reaper (\<open>internal/ingest/reap.go\<close>): the deletion of the ledgers outside the retention
  window, in batches of one transaction each, guarded by the \<open>pending\<close> flag of the instance and the
  advisory lock in the database. The reaper works on its own database session, whose transaction is the
  field \<open>tx\<close> here; metrics, logging and the sleep between batches are left out.
\<close>

record ReapConfig =
  RetentionCount :: u32
  BatchSize :: u32

text \<open>
  \<open>lockAcquired\<close> is the answer of \<open>pg_try_advisory_xact_lock\<close>, \<open>reapPending\<close> the \<open>atomic.Bool\<close>.
\<close>

definition deleteBatch :: "'d env \<Rightarrow> u32 \<Rightarrow> u32 \<Rightarrow> ('d sys, ingest_error, nat) call" where
  "deleteBatch env batchStartSeq batchEndSeq =
     (case LedgerRangeInclusive env batchStartSeq batchEndSeq of
        None \<Rightarrow> (\<lambda>s. (Inl (InvalidRange batchStartSeq batchEndSeq), s))
      | Some (batchStart, batchEnd) \<Rightarrow>
          in_tx env (\<lambda>e s. (Inl e, s))
            (try_call (DeleteRangeAll env batchStart batchEnd) (\<lambda>e s. (Inl e, s)) (\<lambda>cnt.
             try_call (Commit env) (\<lambda>e s. (Inl e, s)) (\<lambda>_ s. (Inr cnt, s)))))"

partial_function (option) clearBefore_loop ::
  "'d env \<Rightarrow> u32 \<Rightarrow> u32 \<Rightarrow> u32 \<Rightarrow> nat \<Rightarrow> 'd sys \<Rightarrow> (nat \<times> ingest_error option \<times> 'd sys) option" where
  "clearBefore_loop env batchSize endSeq batchStartSeq sm s =
     (if batchStartSeq < endSeq then
        (let batchEndSeq = (if endSeq \<le> batchStartSeq + batchSize then endSeq - 1 else batchStartSeq + batchSize) in
         case deleteBatch env batchStartSeq batchEndSeq s of
           (Inl e, s1) \<Rightarrow> Some (sm, Some e, s1)
         | (Inr cnt, s1) \<Rightarrow>
             if cnt = 0 then
               (case GetNextLedgerSequence env batchStartSeq s1 of
                  (Inl e, s2) \<Rightarrow> Some (sm + cnt, Some e, s2)
                | (Inr None, s2) \<Rightarrow> Some (sm + cnt, None, s2)
                | (Inr (Some next), s2) \<Rightarrow> clearBefore_loop env batchSize endSeq next (sm + cnt) s2)
             else clearBefore_loop env batchSize endSeq (batchStartSeq + (batchSize + 1)) (sm + cnt) s1)
      else Some (sm, None, s))"

definition clearBefore ::
  "'d env \<Rightarrow> ReapConfig \<Rightarrow> u32 \<Rightarrow> u32 \<Rightarrow> 'd sys \<Rightarrow> (nat \<times> ingest_error option \<times> 'd sys) option" where
  "clearBefore env config startSeq endSeq s =
     (if BatchSize config = 0 then Some (0, Some (Message ''invalid batch size for reaping''), s)
      else clearBefore_loop env (BatchSize config) endSeq startSeq 0 s)"

record reaper =
  reapPending :: bool
  reapConfig :: ReapConfig

text \<open>
  The deferred \<open>pending.Store(false)\<close> runs on every return after the compare-and-swap succeeded, so
  that the flag is the same before and after the call.
\<close>

definition reapLocked ::
  "'d env \<Rightarrow> (nat \<Rightarrow> bool) \<Rightarrow> ReapConfig \<Rightarrow> 'd sys \<Rightarrow> (ingest_error option \<times> 'd sys) option" where
  "reapLocked env lockAcquired config =
     try_call (svc env CReapLockBegin (\<lambda>n s. (Inr (), s))) (\<lambda>e s. Some (Some e, s)) (\<lambda>_.
     try_call (svc env CTryReaperLock (\<lambda>n s. (Inr (lockAcquired n), s))) (\<lambda>e s. Some (Some e, s)) (\<lambda>acquired.
     if \<not> acquired then (\<lambda>s. Some (None, s))
     else
     try_call (GetLatestHistoryLedger env) (\<lambda>e s. Some (Some e, s)) (\<lambda>latest.
     try_call (ElderLedger env) (\<lambda>e s. Some (Some e, s)) (\<lambda>oldest s.
       let targetElder = latest - RetentionCount config + 1 in
       if latest \<le> RetentionCount config \<or> targetElder < oldest then Some (None, s)
       else map_option snd (clearBefore env config oldest targetElder s)))))"

definition DeleteUnretainedHistory ::
  "'d env \<Rightarrow> (nat \<Rightarrow> bool) \<Rightarrow> reaper \<Rightarrow> 'd sys \<Rightarrow> (ingest_error option \<times> reaper \<times> 'd sys) option" where
  "DeleteUnretainedHistory env lockAcquired r s =
     (if RetentionCount (reapConfig r) = 0 then Some (None, r, s)
      else if reapPending r then Some (None, r, s)
      else map_option (\<lambda>(e, s'). (e, r\<lparr>reapPending := False\<rparr>, s'))
        (reapLocked env lockAcquired (reapConfig r) s))"

subsection \<open>Batches\<close>

text \<open>The rows that are left when the ledgers from \<open>a\<close> to \<open>b\<close> are gone.\<close>

abbreviation without :: "u32 \<Rightarrow> u32 \<Rightarrow> u32 list \<Rightarrow> u32 list" where
  "without a b h \<equiv> filter (\<lambda>x. \<not> (a \<le> x \<and> x \<le> b)) h"

lemma deleteBatch_effect:
  assumes "toid_ok env" and "tx s = None" and "0 \<notin> set (historyLedgers (committed s))"
    and "deleteBatch env a b s = (r, s')"
  shows "tx s' = None \<and>
    (case r of
       Inl _ \<Rightarrow> committed s' = committed s
     | Inr cnt \<Rightarrow> a \<le> b \<and> committed s' = drop_range a b (committed s) \<and>
         cnt = length (historyLedgers (committed s)) - length (without a b (historyLedgers (committed s))))"
proof (cases "LedgerRangeInclusive env a b")
  case None
  with assms show ?thesis by (auto simp: deleteBatch_def)
next
  case (Some xy)
  obtain x y where xy: "xy = (x, y)" by fastforce
  note drop = delete_range_drop [OF assms(1) Some [unfolded xy] assms(3)]
  from drop have "delete_range env x y (historyLedgers (committed s)) = without a b (historyLedgers (committed s))"
    using arg_cong [of _ _ historyLedgers, OF conjunct2 [OF drop]] by (simp add: drop_range_def)
  with assms(2,4) Some xy drop show ?thesis
    by (auto simp: deleteBatch_def in_tx_eq Rollback_def cong: try_call_cong split: if_splits)
qed

lemma filter_shorter: "filter P h \<noteq> h \<Longrightarrow> length (filter P h) < length h"
  by (induction h) (auto simp: le_imp_less_Suc split: if_splits)

subsection \<open>The loop\<close>

text \<open>
  The loop ends: a batch that deletes rows leaves fewer of them, and a batch that deletes none moves on
  to a later ledger. Whatever calls fail, only rows from \<open>start\<close> to before \<open>end\<close> are deleted.
\<close>

lemma GetNextLedgerSequence_run:
  "tx s = None \<Longrightarrow> GetNextLedgerSequence env q s =
     (if fails env CGetNextLedgerSequence (clock s) then (Inl (CallFailed CGetNextLedgerSequence), tick s)
      else (Inr (find (\<lambda>x. q < x) (historyLedgers (committed s))), tick s))"
  by (simp add: GetNextLedgerSequence_def svc_read_def svc_def Let_def)

lemma find_greater: "find (\<lambda>x. (q :: u32) < x) h = Some x \<Longrightarrow> x \<in> set h \<and> q < x"
  by (metis find_Some_iff nth_mem)

definition batch_end :: "u32 \<Rightarrow> u32 \<Rightarrow> u32 \<Rightarrow> u32" where
  "batch_end batchSize endSeq a = (if endSeq \<le> a + batchSize then endSeq - 1 else a + batchSize)"

lemma batch_end_less: "a < endSeq \<Longrightarrow> batch_end n endSeq a < endSeq"
proof -
  assume "a < endSeq"
  then have "endSeq \<noteq> 0" by auto
  then have "endSeq - 1 < endSeq" by (simp add: word_less_nat_alt unat_pred unat_gt_0)
  then show ?thesis by (auto simp: batch_end_def)
qed

lemma drop_range_lower:
  "b < e \<Longrightarrow> filter (\<lambda>x. e \<le> x) (historyLedgers (drop_range a b d)) = filter (\<lambda>x. e \<le> x) (historyLedgers d)"
  by (auto simp: drop_range_def intro!: filter_cong)

text \<open>\<open>d'\<close> is \<open>d\<close> with some rows below \<open>e\<close> deleted.\<close>

definition reaped_below :: "u32 \<Rightarrow> 'd db \<Rightarrow> 'd db \<Rightarrow> bool" where
  "reaped_below e d d' \<longleftrightarrow> (\<exists>P. (\<forall>x. e \<le> x \<longrightarrow> P x) \<and> d' = d\<lparr>historyLedgers := filter P (historyLedgers d)\<rparr>)"

lemma reaped_below_refl [simp]: "reaped_below e d d"
  unfolding reaped_below_def by (intro exI [of _ "\<lambda>_. True"]) simp

lemma reaped_below_trans:
  "reaped_below e d d' \<Longrightarrow> reaped_below e d' d'' \<Longrightarrow> reaped_below e d d''"
  unfolding reaped_below_def
proof (elim exE conjE)
  fix P Q
  assume "\<forall>x. e \<le> x \<longrightarrow> P x" "\<forall>x. e \<le> x \<longrightarrow> Q x" "d' = d\<lparr>historyLedgers := filter P (historyLedgers d)\<rparr>"
    "d'' = d'\<lparr>historyLedgers := filter Q (historyLedgers d')\<rparr>"
  then show "\<exists>R. (\<forall>x. e \<le> x \<longrightarrow> R x) \<and> d'' = d\<lparr>historyLedgers := filter R (historyLedgers d)\<rparr>"
    by (intro exI [of _ "\<lambda>x. P x \<and> Q x"]) (simp add: filter_filter conj_commute)
qed

lemma reaped_below_drop: "b < e \<Longrightarrow> reaped_below e d (drop_range a b d)"
  unfolding reaped_below_def drop_range_def
  by (intro exI [of _ "\<lambda>x. \<not> (a \<le> x \<and> x \<le> b)"]) auto

lemma reaped_below_zero: "reaped_below e d d' \<Longrightarrow> 0 \<notin> set (historyLedgers d) \<Longrightarrow> 0 \<notin> set (historyLedgers d')"
  by (auto simp: reaped_below_def)

lemma clearBefore_loop_returns:
  assumes "toid_ok env" and "tx s = None" and "0 \<notin> set (historyLedgers (committed s))"
  shows "\<exists>n err s'. clearBefore_loop env bs e a tot s = Some (n, err, s') \<and> tx s' = None \<and>
    reaped_below e (committed s) (committed s')"
  using assms(2,3)
proof (induction "(length (historyLedgers (committed s)), 2 ^ 32 - unat a)" arbitrary: a tot s
    rule: wf_induct_rule [OF wf_lex_prod [OF wf_less wf_less], case_names less])
  case (less a s tot)
  note tx = less.prems(1) and nz = less.prems(2)
  show ?case
  proof (cases "a < e")
    case False
    then show ?thesis using tx by (subst clearBefore_loop.simps) simp
  next
    case True
    let ?b = "batch_end bs e a" and ?h = "historyLedgers (committed s)"
    have be: "?b < e" using batch_end_less [OF True] .
    obtain r s1 where del: "deleteBatch env a ?b s = (r, s1)" by fastforce
    note unf = clearBefore_loop.simps [of env bs e a tot s, folded batch_end_def]
    note eff = deleteBatch_effect [OF assms(1) tx nz del]
    show ?thesis
    proof (cases r)
      case (Inl err)
      with eff del True show ?thesis by (subst unf) simp
    next
      case (Inr cnt)
      with eff have tx1: "tx s1 = None" and c1: "committed s1 = drop_range a ?b (committed s)"
        and cnt: "cnt = length ?h - length (without a ?b ?h)" by auto
      have below: "reaped_below e (committed s) (committed s1)" using c1 reaped_below_drop [OF be] by simp
      have nz1: "0 \<notin> set (historyLedgers (committed s1))" using reaped_below_zero [OF below nz] .
      show ?thesis
      proof (cases "cnt = 0")
        case False
        then have "length (historyLedgers (committed s1)) < length ?h" using c1 cnt by (simp add: drop_range_def)
        then have "((length (historyLedgers (committed s1)), 2 ^ 32 - unat (a + (bs + 1))), (length ?h, 2 ^ 32 - unat a))
            \<in> less_than <*lex*> less_than" by simp
        from less.hyps [OF _ tx1 nz1, of "a + (bs + 1)" "tot + cnt"] this below False Inr del True
        show ?thesis by (subst unf) (auto intro: reaped_below_trans)
      next
        case zero: True
        show ?thesis
        proof (cases "fails env CGetNextLedgerSequence (clock s1) \<or> find (\<lambda>x. a < x) (historyLedgers (committed s1)) = None")
          case True
          with zero Inr del \<open>a < e\<close> tx1 below show ?thesis
            by (subst unf) (auto simp: GetNextLedgerSequence_run)
        next
          case False
          then obtain nxt where nxt: "find (\<lambda>x. a < x) (historyLedgers (committed s1)) = Some nxt" by auto
          then have "unat a < unat nxt" using find_greater by (auto simp: word_less_nat_alt)
          moreover have "unat nxt < 2 ^ 32" using unsigned_less [of nxt] by simp
          moreover have "length (historyLedgers (committed s1)) \<le> length ?h" using c1 by (simp add: drop_range_def)
          ultimately have "((length (historyLedgers (committed (tick s1))), 2 ^ 32 - unat nxt), (length ?h, 2 ^ 32 - unat a))
            \<in> less_than <*lex*> less_than" by auto
          from less.hyps [OF _ _ _, of "tick s1" nxt "tot + cnt"] this nz1 tx1 below zero False nxt Inr del True
          show ?thesis by (subst unf) (auto simp: GetNextLedgerSequence_run intro: reaped_below_trans)
        qed
      qed
    qed
  qed
qed

text \<open>
  On a history without gaps the batch that starts at the oldest row always deletes something, so that
  the loop walks from batch to batch and never looks for the next row while one below \<open>e\<close> is left.
\<close>

definition none_below :: "u32 \<Rightarrow> 'd db \<Rightarrow> bool" where
  "none_below e d \<longleftrightarrow> (\<forall>x \<in> set (historyLedgers d). e \<le> x)"

definition starts_at :: "u32 \<Rightarrow> u32 \<Rightarrow> 'd db \<Rightarrow> bool" where
  "starts_at a e d \<longleftrightarrow> (\<forall>y. a \<le> y \<and> y < e \<longrightarrow> y \<in> set (historyLedgers d)) \<and>
     (\<forall>x \<in> set (historyLedgers d). x < e \<longrightarrow> a \<le> x)"

lemma none_below_reaped: "none_below e d \<Longrightarrow> reaped_below e d d' \<Longrightarrow> none_below e d'"
  by (auto simp: none_below_def reaped_below_def)

lemma next_batch:
  assumes "a < e" and "starts_at a e d" and "a \<le> batch_end bs e a"
  shows "none_below e (drop_range a (batch_end bs e a) d) \<or>
    starts_at (a + (bs + 1)) e (drop_range a (batch_end bs e a) d)"
proof (cases "e \<le> a + bs")
  case True
  have "e \<noteq> 0" using assms(1) by auto
  then have "x \<le> e - 1 \<longleftrightarrow> x < e" for x
    by (simp add: word_le_nat_alt word_less_nat_alt unat_pred) (metis Suc_pred less_Suc_eq_le unat_gt_0)
  with True assms(2) show ?thesis
    by (auto simp: none_below_def starts_at_def drop_range_def batch_end_def not_less not_le)
next
  case False
  then have b: "batch_end bs e a = a + bs" "a \<le> a + bs" "a + bs < e" using assms(3) by (auto simp: batch_end_def)
  then have "a + bs \<noteq> - 1" by (metis word_order.extremum_strict)
  then have "unat (a + bs + 1) = Suc (unat (a + bs))" by (rule unat_Suc_no_wrap)
  then have step: "x < a + (bs + 1) \<longleftrightarrow> x \<le> a + bs" for x
    by (simp add: add.assoc word_le_nat_alt word_less_nat_alt less_Suc_eq_le)
  then have "a + (bs + 1) \<le> x \<longleftrightarrow> a + bs < x" for x by (metis not_le)
  with b assms(2) show ?thesis
    by (auto simp: starts_at_def drop_range_def not_le)
qed

lemma clearBefore_loop_complete:
  assumes "toid_ok env" and "tx s = None" and "0 \<notin> set (historyLedgers (committed s))"
    and "none_below e (committed s) \<or> starts_at a e (committed s)"
    and "clearBefore_loop env bs e a tot s = Some (n, None, s')"
  shows "none_below e (committed s')"
  using assms(2-)
proof (induction "length (historyLedgers (committed s))" arbitrary: a tot s rule: less_induct)
  case less
  note tx = less.prems(1) and nz = less.prems(2)
  note ret = clearBefore_loop_returns [OF assms(1) tx nz, of bs e a tot]
  show ?case
  proof (cases "none_below e (committed s)")
    case True
    with ret less.prems(4) show ?thesis by (auto intro: none_below_reaped)
  next
    case False
    then have st: "starts_at a e (committed s)" using less.prems(3) by blast
    with False have ae: "a < e" by (auto simp: none_below_def starts_at_def not_le dest: le_less_trans)
    let ?b = "batch_end bs e a" and ?h = "historyLedgers (committed s)"
    obtain r s1 where del: "deleteBatch env a ?b s = (r, s1)" by fastforce
    note unf = clearBefore_loop.simps [of env bs e a tot s, folded batch_end_def]
    obtain cnt where r: "r = Inr cnt" using less.prems(4) ae del by (cases r) (simp_all add: unf)
    have eff: "tx s1 = None" "a \<le> ?b" "committed s1 = drop_range a ?b (committed s)"
      "cnt = length ?h - length (without a ?b ?h)"
      using deleteBatch_effect [OF assms(1) tx nz del] r by auto
    have "a \<in> set ?h" using st ae by (simp add: starts_at_def)
    then have "without a ?b ?h \<noteq> ?h" using eff(2) by (auto simp: filter_id_conv)
    then have "length (without a ?b ?h) < length ?h" by (rule filter_shorter)
    then have shorter: "length (historyLedgers (committed s1)) < length ?h" and "cnt \<noteq> 0"
      unfolding eff(3,4) by (simp_all add: drop_range_def)
    then have loop: "clearBefore_loop env bs e (a + (bs + 1)) (tot + cnt) s1 = Some (n, None, s')"
      using less.prems(4) ae del r by (simp add: unf)
    have nz1: "0 \<notin> set (historyLedgers (committed s1))" using nz eff(3) by (simp add: drop_range_def)
    show ?thesis
      by (rule less.hyps [OF shorter eff(1) nz1 _ loop]) (use next_batch [OF ae st eff(2)] eff(3) in simp)
  qed
qed

subsection \<open>The retention window\<close>

lemma target_elder:
  assumes "\<not> latest \<le> (c :: u32)" and "c \<noteq> 0"
  shows "latest - c + 1 \<le> x \<longleftrightarrow> unat latest < unat x + unat c" and "unat (latest - c + 1) \<le> unat latest"
proof -
  have c: "c < latest" using assms(1) by simp
  then have u: "unat (latest - c) = unat latest - unat c" by (intro unat_sub_no_wrap) simp
  have "0 < unat c" "unat c < unat latest" using assms(2) c by (simp_all add: unat_gt_0 word_less_nat_alt)
  moreover have "unat latest < 2 ^ 32" using unsigned_less [of latest] by simp
  ultimately have "unat (latest - c + 1) = unat latest - unat c + 1"
    using unat_add_no_wrap [of "latest - c" 1] u by simp
  with \<open>0 < unat c\<close> \<open>unat c < unat latest\<close>
  show "latest - c + 1 \<le> x \<longleftrightarrow> unat latest < unat x + unat c" "unat (latest - c + 1) \<le> unat latest"
    by (auto simp: word_le_nat_alt)
qed

lemma reaped_none_below:
  assumes "reaped_below e d d'" and "none_below e d'"
  shows "d' = d\<lparr>historyLedgers := filter (\<lambda>x. e \<le> x) (historyLedgers d)\<rparr>"
proof -
  obtain P where P: "\<forall>x. e \<le> x \<longrightarrow> P x" "d' = d\<lparr>historyLedgers := filter P (historyLedgers d)\<rparr>"
    using assms(1) by (auto simp: reaped_below_def)
  then have "filter P (historyLedgers d) = filter (\<lambda>x. e \<le> x) (historyLedgers d)"
    using assms(2) by (intro filter_cong) (auto simp: none_below_def)
  with P(2) show ?thesis by simp
qed

lemma starts_at_elder:
  assumes "history_ok (historyLedgers d)" and "historyLedgers d \<noteq> []"
    and "elder_ledger (historyLedgers d) \<le> e" and "unat e \<le> unat (latest_ledger (historyLedgers d))"
  shows "starts_at (elder_ledger (historyLedgers d)) e d"
proof -
  note lat = latest_ledger_mem [OF assms(2)] and eld = elder_ledger_mem [OF assms(2)]
  have "gap_free (historyLedgers d)" using assms(1) by (simp add: history_ok_def)
  have "y \<in> set (historyLedgers d)" if "elder_ledger (historyLedgers d) \<le> y" and "y < e" for y
  proof -
    have "y \<le> latest_ledger (historyLedgers d)" using that(2) assms(4) by (simp add: word_le_nat_alt word_less_nat_alt)
    then show ?thesis
      by (rule gap_freeD [OF \<open>gap_free (historyLedgers d)\<close> conjunct1 [OF eld] lat that(1)])
  qed
  then show ?thesis using eld by (simp add: starts_at_def)
qed

text \<open>The rows the retention count keeps: the last \<open>c\<close> ledgers up to the newest one.\<close>

definition retained :: "u32 \<Rightarrow> u32 list \<Rightarrow> u32 list" where
  "retained c h = filter (\<lambda>x. unat (latest_ledger h) < unat x + unat c) h"

lemma retained_all:
  assumes "0 \<notin> set h" and "c \<noteq> 0" and "latest_ledger h \<le> c \<or> latest_ledger h - c + 1 < elder_ledger h"
  shows "retained c h = h"
proof -
  have "unat (latest_ledger h) < unat x + unat c" if "x \<in> set h" for x
  proof (cases "latest_ledger h \<le> c")
    case True
    moreover have "0 < unat x" using that assms(1) by (metis unat_gt_0)
    ultimately show ?thesis by (simp add: word_le_nat_alt)
  next
    case False
    then have "latest_ledger h - c + 1 < elder_ledger h" using assms(3) by simp
    moreover have "elder_ledger h \<le> x" using that elder_ledger_mem [of h] by fastforce
    ultimately have "latest_ledger h - c + 1 \<le> x" by simp
    then show ?thesis using target_elder(1) [OF False assms(2)] by simp
  qed
  then show ?thesis by (simp add: retained_def filter_id_conv)
qed

lemma clearBefore_retains:
  assumes "toid_ok env" and "tx s = None" and "history_ok h" and "h = historyLedgers (committed s)"
    and "RetentionCount config = c" and "c \<noteq> 0"
    and "\<not> latest_ledger h \<le> c" and "\<not> latest_ledger h - c + 1 < elder_ledger h"
  shows "\<exists>n err s'. clearBefore env config (elder_ledger h) (latest_ledger h - c + 1) s = Some (n, err, s') \<and> tx s' = None \<and>
    reaped_below (latest_ledger h - c + 1) (committed s) (committed s') \<and>
    (err = None \<longrightarrow> historyLedgers (committed s') = retained c h)"
proof (cases "BatchSize config = 0")
  case True
  then show ?thesis using assms(2) by (simp add: clearBefore_def)
next
  case False
  let ?e = "latest_ledger h - c + 1"
  have nz: "0 \<notin> set (historyLedgers (committed s))" using assms(3,4) by (simp add: history_ok_def)
  obtain n err s' where run: "clearBefore_loop env (BatchSize config) ?e (elder_ledger h) 0 s = Some (n, err, s')"
    and eff: "tx s' = None" "reaped_below ?e (committed s) (committed s')"
    using clearBefore_loop_returns [OF assms(1,2) nz] by blast
  have "historyLedgers (committed s') = retained c h" if "err = None"
  proof -
    have "h \<noteq> []" using assms(7) by (auto simp: latest_ledger_def)
    then have "starts_at (elder_ledger h) ?e (committed s)"
      using starts_at_elder [of "committed s" ?e] assms(3,4,8) target_elder(2) [OF assms(7,6)] by simp
    then have "none_below ?e (committed s')"
      using clearBefore_loop_complete [OF assms(1,2) nz _ run [unfolded that]] by simp
    from reaped_none_below [OF eff(2) this] show ?thesis
      using target_elder(1) [OF assms(7,6)] assms(4) by (simp add: retained_def)
  qed
  with run eff False show ?thesis by (simp add: clearBefore_def)
qed

text \<open>
  C31. Retention: the reaper deletes only ledgers outside the retention window. From any database with a
  contiguous history, and whatever calls fail on the way, it returns, releases the \<open>pending\<close> flag it
  took and leaves no transaction; every row among the last \<open>RetentionCount\<close> ledgers is still there, and
  nothing but history rows has changed. When it holds the lock and returns no error, exactly those
  rows are left, in their order. With a retention count of 0 nothing is ever deleted.
\<close>

theorem reaper_keeps_retention_window:
  assumes "toid_ok env" and "tx s = None" and "history_ok (historyLedgers (committed s))"
  shows "\<exists>err r' s'. DeleteUnretainedHistory env lock r s = Some (err, r', s') \<and>
    r' = r \<and> tx s' = None \<and>
    (\<exists>P. committed s' = (committed s)\<lparr>historyLedgers := filter P (historyLedgers (committed s))\<rparr> \<and>
       (\<forall>x. RetentionCount (reapConfig r) = 0 \<or>
          unat (latest_ledger (historyLedgers (committed s))) < unat x + unat (RetentionCount (reapConfig r)) \<longrightarrow> P x)) \<and>
    (err = None \<and> RetentionCount (reapConfig r) \<noteq> 0 \<and> \<not> reapPending r \<and> (\<forall>n. lock n) \<longrightarrow>
       historyLedgers (committed s') = retained (RetentionCount (reapConfig r)) (historyLedgers (committed s)))"
proof -
  let ?h = "historyLedgers (committed s)" and ?c = "RetentionCount (reapConfig r)"
  define window where "window x \<longleftrightarrow> ?c = 0 \<or> unat (latest_ledger ?h) < unat x + unat ?c" for x :: u32
  define Good where "Good strict x \<longleftrightarrow> (\<exists>err s'. x = Some (err, s') \<and> tx s' = None \<and>
    (\<exists>P. committed s' = (committed s)\<lparr>historyLedgers := filter P ?h\<rparr> \<and> (\<forall>x. window x \<longrightarrow> P x)) \<and>
    (err = None \<and> strict \<longrightarrow> historyLedgers (committed s') = retained ?c ?h))" for strict and x :: "(ingest_error option \<times> 'a sys) option"
  have same: "\<exists>P. committed s = (committed s)\<lparr>historyLedgers := filter P ?h\<rparr> \<and> (\<forall>x. window x \<longrightarrow> P x)"
    by (intro exI [of _ "\<lambda>_. True"]) simp
  have unchanged: "Good strict (Some (err, s2))"
    if "tx s2 = None" "committed s2 = committed s" "err = None \<Longrightarrow> strict \<Longrightarrow> retained ?c ?h = ?h" for strict err s2
    using that same by (auto simp: Good_def)
  have clear: "Good strict (map_option snd (clearBefore env (reapConfig r) (elder_ledger ?h) (latest_ledger ?h - ?c + 1) s2))"
    if s2: "tx s2 = None" "committed s2 = committed s" and c: "?c \<noteq> 0"
      and enough: "\<not> latest_ledger ?h \<le> ?c" "\<not> latest_ledger ?h - ?c + 1 < elder_ledger ?h" for strict s2
  proof -
    obtain n err s' where run: "clearBefore env (reapConfig r) (elder_ledger ?h) (latest_ledger ?h - ?c + 1) s2 = Some (n, err, s')"
      "tx s' = None" "reaped_below (latest_ledger ?h - ?c + 1) (committed s) (committed s')"
      "err = None \<longrightarrow> historyLedgers (committed s') = retained ?c ?h"
      using clearBefore_retains [OF assms(1) s2(1) assms(3), of "reapConfig r" ?c] s2(2) c enough by auto
    then show ?thesis using target_elder(1) [OF enough(1) c] c by (auto simp: Good_def reaped_below_def window_def)
  qed
  let ?strict = "?c \<noteq> 0 \<and> \<not> reapPending r \<and> (\<forall>n. lock n)"
  have nz: "0 \<notin> set ?h" using assms(3) by (simp add: history_ok_def)
  show ?thesis
  proof (cases "?c = 0 \<or> reapPending r")
    case True
    with assms(2) same show ?thesis by (auto simp: DeleteUnretainedHistory_def window_def)
  next
    case False
    have "Good ?strict (reapLocked env lock (reapConfig r) s)"
      using False assms(2) retained_all [OF nz] unfolding reapLocked_def
      by (auto simp: go_defs Let_def intro!: unchanged clear cong: try_call_cong)
    moreover have "r\<lparr>reapPending := False\<rparr> = r" using False by (cases r) simp
    ultimately show ?thesis using False by (auto simp: Good_def window_def DeleteUnretainedHistory_def)
  qed
qed

definition demo_reaper :: reaper where
  "demo_reaper = \<lparr>reapPending = False, reapConfig = \<lparr>RetentionCount = 5, BatchSize = 1\<rparr>\<rparr>"

definition history_db :: "u32 list \<Rightarrow> nat db" where
  "history_db h = (fresh_db demo_env)\<lparr>historyLedgers := h\<rparr>"

lemma history_ok_upto:
  assumes "n \<le> 2 ^ 32"
  shows "history_ok (map of_nat [1..<n])"
  using set_seqs [OF assms, of 1] distinct_seqs [OF assms, of 1]
  by (auto simp: history_ok_def gap_free_def seqs_def word_le_nat_alt)

lemma demo_reap:
  "\<exists>s'. DeleteUnretainedHistory demo_env (\<lambda>_. True) demo_reaper (instance_on (history_db [1, 2, 3, 4, 5, 6, 7, 8])) =
       Some (None, demo_reaper, s')"
  by (simp add: DeleteUnretainedHistory_def reapLocked_def clearBefore_def clearBefore_loop.simps deleteBatch_def
      in_tx_eq Rollback_def DeleteRangeAll_def delete_range_def svc_def svc_read_def Begin_def Commit_def
      demo_reaper_def demo_env_def history_db_def fresh_db_def instance_on_def go_defs latest_ledger_def
      elder_ledger_def Let_def)

theorem reaper_keeps_retention_window_witness:
  "\<exists>s'. DeleteUnretainedHistory demo_env (\<lambda>_. True) demo_reaper (instance_on (history_db [1, 2, 3, 4, 5, 6, 7, 8])) =
       Some (None, demo_reaper, s') \<and> tx s' = None \<and> historyLedgers (committed s') = [4, 5, 6, 7, 8]"
proof -
  have "map of_nat [1..<9] = [1, 2, 3, 4, 5, 6, 7, 8 :: u32]" by (simp add: upt_rec)
  then have ok: "history_ok [1, 2, 3, 4, 5, 6, 7, 8]" using history_ok_upto [of 9] by simp
  obtain s' where "DeleteUnretainedHistory demo_env (\<lambda>_. True) demo_reaper (instance_on (history_db [1, 2, 3, 4, 5, 6, 7, 8])) =
       Some (None, demo_reaper, s')" using demo_reap by blast
  moreover have "retained 5 [1, 2, 3, 4, 5, 6, 7, 8] = [4, 5, 6, 7, 8]" by (simp add: retained_def latest_ledger_def)
  ultimately show ?thesis
    using reaper_keeps_retention_window [OF demo_toid_ok, of "instance_on (history_db [1, 2, 3, 4, 5, 6, 7, 8])"
        "\<lambda>_. True" demo_reaper] ok
    by (auto simp: demo_reaper_def history_db_def)
qed

subsection \<open>Rows that are not in order\<close>

lemma deleteBatch_succeeds:
  assumes "healthy env" "tx s = None" "LedgerRangeInclusive env a b \<noteq> None"
  shows "\<exists>cnt s1. deleteBatch env a b s = (Inr cnt, s1)"
  using assms by (auto simp: deleteBatch_def in_tx_eq Rollback_def DeleteRangeAll_def Begin_def Commit_def svc_def Let_def go_defs split: option.splits)

text \<open>When every service answers the loop succeeds, and it never goes back to a row below the one it starts from.\<close>

definition spans :: "'d env \<Rightarrow> u32 \<Rightarrow> bool" where
  "spans env e \<longleftrightarrow> (\<forall>a b. a \<le> b \<and> b < e \<longrightarrow> LedgerRangeInclusive env a b \<noteq> None)"

lemma batch_no_wrap:
  assumes "a < e" "unat e + unat bs + 1 < 2 ^ 32"
  shows "a \<le> batch_end bs e a" "a < a + (bs + 1)" "unat (a + (bs + 1)) = unat a + unat bs + 1"
proof -
  have u: "unat (a + bs) = unat a + unat bs" "unat (a + (bs + 1)) = unat a + unat bs + 1"
    using assms unat_add_no_wrap [of a bs] unat_add_no_wrap [of "a + bs" 1] by (simp_all add: word_less_nat_alt add.assoc)
  have "unat (e - 1) = unat e - 1" using assms(1) by (auto simp: unat_sub_no_wrap word_less_nat_alt word_le_nat_alt)
  with u assms(1) show "a \<le> batch_end bs e a" "a < a + (bs + 1)" "unat (a + (bs + 1)) = unat a + unat bs + 1"
    by (auto simp: batch_end_def word_le_nat_alt word_less_nat_alt)
qed

lemma clearBefore_loop_keeps:
  assumes env: "toid_ok env" "healthy env" "spans env e" and bs: "unat e + unat bs + 1 < 2 ^ 32"
  shows "clearBefore_loop env bs e a tot s = Some (n, err, s') \<Longrightarrow> tx s = None \<Longrightarrow> 0 \<notin> set (historyLedgers (committed s)) \<Longrightarrow>
    err = None \<and> (\<forall>x\<in>set (historyLedgers (committed s)). x < a \<longrightarrow> x \<in> set (historyLedgers (committed s')))"
proof (induction "(length (historyLedgers (committed s)), 2 ^ 32 - unat a)" arbitrary: a tot s
    rule: wf_induct_rule [OF wf_lex_prod [OF wf_less wf_less], case_names less])
  case (less a s tot)
  show ?case
  proof (cases "a < e")
    case False
    then show ?thesis using less.prems(1) by (subst (asm) clearBefore_loop.simps) auto
  next
    case True
    let ?b = "batch_end bs e a" and ?h = "historyLedgers (committed s)"
    note b = batch_no_wrap [OF True bs]
    obtain cnt s1 where del: "deleteBatch env a ?b s = (Inr cnt, s1)"
      using deleteBatch_succeeds [OF env(2) less.prems(2), of a ?b] env(3) b(1) batch_end_less [OF True] by (auto simp: spans_def)
    note unf = clearBefore_loop.simps [of env bs e a tot s, folded batch_end_def]
    have eff: "tx s1 = None" "committed s1 = drop_range a ?b (committed s)" "cnt = length ?h - length (without a ?b ?h)"
      using deleteBatch_effect [OF env(1) less.prems(2,3) del] by simp_all
    then have h1: "historyLedgers (committed s1) = without a ?b ?h" by (simp add: drop_range_def)
    have nz1: "0 \<notin> set (historyLedgers (committed s1))" using less.prems(3) h1 by simp
    have next_start: "err = None \<and> (\<forall>x\<in>set ?h. x < a \<longrightarrow> x \<in> set (historyLedgers (committed s')))"
      if "clearBefore_loop env bs e a' tot' s2 = Some (n, err, s')" "a < a'" "tx s2 = None" "committed s2 = committed s1"
        "((length (historyLedgers (committed s2)), 2 ^ 32 - unat a'), (length ?h, 2 ^ 32 - unat a)) \<in> {(x, y). x < y} <*lex*> {(x, y). x < y}" for a' tot' s2
      using less.hyps [OF that(5,1,3)] that(2,4) nz1 h1 by auto
    show ?thesis
    proof (cases "cnt = 0")
      case False
      with less.prems(1) True del have "clearBefore_loop env bs e (a + (bs + 1)) (tot + cnt) s1 = Some (n, err, s')" by (simp add: unf)
      then show ?thesis by (rule next_start [OF _ b(2) eff(1) refl]) (use False eff(3) h1 in simp)
    next
      case zero: True
      have g: "GetNextLedgerSequence env a s1 = (Inr (find (\<lambda>x. a < x) (historyLedgers (committed s1))), tick s1)"
        using env(2) eff(1) by (simp add: GetNextLedgerSequence_run)
      show ?thesis
      proof (cases "find (\<lambda>x. a < x) (historyLedgers (committed s1))")
        case None
        with less.prems(1) True del zero g h1 show ?thesis by (auto simp: unf)
      next
        case (Some nxt)
        then have nx: "a < nxt" using find_greater by blast
        have u: "unat a < unat nxt" "unat nxt < 2 ^ 32" using nx unsigned_less [of nxt] by (simp_all add: word_less_nat_alt)
        from less.prems(1) True del zero g Some have run: "clearBefore_loop env bs e nxt (tot + cnt) (tick s1) = Some (n, err, s')" by (simp add: unf)
        have "length (historyLedgers (committed s1)) \<le> length ?h" using h1 by simp
        then show ?thesis by (intro next_start [OF run nx]) (use eff(1) u in auto)
      qed
    qed
  qed
qed

text \<open>A batch that deletes rows is followed by the next one, and one that deletes none by the first row stored that is above its start.\<close>

lemma find_filtered: "find P (filter Q xs) = find (\<lambda>x. Q x \<and> P x) xs"
  by (induction xs) auto

lemma clearBefore_loop_skips:
  assumes env: "toid_ok env" "healthy env" "spans env e" and bs: "unat e + unat bs + 1 < 2 ^ 32"
    and s: "tx s = None" "0 \<notin> set (historyLedgers (committed s))" and a: "a \<in> set (historyLedgers (committed s))"
    and gap: "unat a + 2 * unat bs + 1 < unat e" "\<And>x. x \<in> set (historyLedgers (committed s)) \<Longrightarrow> \<not> (unat a + unat bs < unat x \<and> unat x \<le> unat a + 2 * unat bs + 1)"
    and nxt: "find (\<lambda>x. unat a + unat bs + 1 < unat x) (historyLedgers (committed s)) = Some v"
    and u: "u \<in> set (historyLedgers (committed s))" "unat a + unat bs < unat u" "u < v"
  shows "\<exists>n s'. clearBefore_loop env bs e a tot s = Some (n, None, s') \<and> u \<in> set (historyLedgers (committed s'))"
proof -
  let ?h = "historyLedgers (committed s)" and ?a1 = "a + (bs + 1)"
  have ae: "a < e" using gap(1) by (simp add: word_less_nat_alt)
  note w = batch_no_wrap [OF ae bs]
  have ab: "unat (a + bs) = unat a + unat bs" using gap(1) bs by (simp add: unat_add_no_wrap)
  have b1: "batch_end bs e a = a + bs" using gap(1) ab by (simp add: batch_end_def word_le_nat_alt)
  have a1: "?a1 < e" using gap(1) w(3) by (simp add: word_less_nat_alt)
  note w1 = batch_no_wrap [OF a1 bs]
  have ab1: "unat (?a1 + bs) = unat a + 2 * unat bs + 1" using gap(1) bs w(3) unat_add_no_wrap [of ?a1 bs] by simp
  have b2: "batch_end bs e ?a1 = ?a1 + bs" using gap(1) ab1 by (simp add: batch_end_def word_le_nat_alt)
  obtain cnt s1 where d1: "deleteBatch env a (a + bs) s = (Inr cnt, s1)"
    using deleteBatch_succeeds [OF env(2) s(1), of a "a + bs"] env(3) w(1) batch_end_less [OF ae, of bs] b1 by (auto simp: spans_def)
  have e1: "tx s1 = None" "committed s1 = drop_range a (a + bs) (committed s)" "cnt = length ?h - length (without a (a + bs) ?h)"
    using deleteBatch_effect [OF env(1) s d1] by simp_all
  then have h1: "historyLedgers (committed s1) = without a (a + bs) ?h" by (simp add: drop_range_def)
  have "without a (a + bs) ?h \<noteq> ?h" using a w(1) b1 by (auto simp: filter_id_conv)
  then have c1: "cnt \<noteq> 0" using filter_shorter [of _ ?h] e1(3) by fastforce
  have nz1: "0 \<notin> set (historyLedgers (committed s1))" using s(2) h1 by simp
  obtain cnt2 s2 where d2: "deleteBatch env ?a1 (?a1 + bs) s1 = (Inr cnt2, s2)"
    using deleteBatch_succeeds [OF env(2) e1(1), of ?a1 "?a1 + bs"] env(3) w1(1) batch_end_less [OF a1, of bs] b2 by (auto simp: spans_def)
  have none: "without ?a1 (?a1 + bs) (historyLedgers (committed s1)) = historyLedgers (committed s1)"
  proof -
    have "\<not> (?a1 \<le> x \<and> x \<le> ?a1 + bs)" if "x \<in> set ?h" for x using gap(2) [OF that] w(3) ab1 unfolding word_le_nat_alt by linarith
    then show ?thesis unfolding h1 by (intro filter_True) simp
  qed
  have e2: "tx s2 = None" "historyLedgers (committed s2) = historyLedgers (committed s1)" "cnt2 = 0"
    using deleteBatch_effect [OF env(1) e1(1) nz1 d2] none by (simp_all add: drop_range_def)
  have "find (\<lambda>x. ?a1 < x) (historyLedgers (committed s2)) = find (\<lambda>x. unat a + unat bs + 1 < unat x) ?h"
    unfolding e2(2) h1 find_filtered using w(3) ab by (intro find_cong) (auto simp: word_less_nat_alt word_le_nat_alt)
  then have g: "GetNextLedgerSequence env ?a1 s2 = (Inr (Some v), tick s2)" using nxt env(2) e2(1) by (simp add: GetNextLedgerSequence_run)
  have run: "clearBefore_loop env bs e a tot s = clearBefore_loop env bs e v (tot + cnt + cnt2) (tick s2)"
    using ae a1 d1 d2 c1 e2(3) g
    by (simp add: clearBefore_loop.simps [of env bs e a tot s, folded batch_end_def] b1 clearBefore_loop.simps [of env bs e ?a1 _ s1, folded batch_end_def] b2)
  have nz2: "0 \<notin> set (historyLedgers (committed (tick s2)))" "tx (tick s2) = None" using nz1 e2 by simp_all
  obtain n err s' where r: "clearBefore_loop env bs e v (tot + cnt + cnt2) (tick s2) = Some (n, err, s')"
    using clearBefore_loop_returns [OF env(1) nz2(2,1)] by blast
  have "u \<in> set (historyLedgers (committed (tick s2)))" using u(1,2) e2(2) h1 ab by (simp add: word_le_nat_alt)
  then show ?thesis using clearBefore_loop_keeps [OF env bs r nz2(2,1)] r run u(3) by auto
qed

text \<open>
  C36. The order the reaper relies on is not there: \<open>GetNextLedgerSequence\<close> has no \<open>ORDER BY\<close>, and rows are stored in the order in which a map was iterated. Take any history with a gap after its
  first batch: no ledger of the second batch is there. When the first row stored above the start of the second batch is not the least one, the reaper, with every service answering, succeeds and yet leaves
  every ledger of the history between the gap and that row, also one that is out of the retention window.
\<close>

theorem reaper_skips_unsorted_row:
  fixes env :: "'d env" and r :: reaper and s :: "'d sys"
  defines "h \<equiv> historyLedgers (committed s)" and "c \<equiv> RetentionCount (reapConfig r)" and "n \<equiv> unat (BatchSize (reapConfig r))"
  assumes env: "toid_ok env" "healthy env" "spans env (latest_ledger h)" and lock: "\<And>k. lock k" "\<not> reapPending r" and s: "tx s = None" "0 \<notin> set h"
    and config: "0 < n" "c \<noteq> 0" "unat c < unat (latest_ledger h)" "unat (latest_ledger h) + n + 1 < 2 ^ 32"
    and gap: "unat (elder_ledger h) + 2 * n + unat c < unat (latest_ledger h)" "\<And>x. x \<in> set h \<Longrightarrow> \<not> (unat (elder_ledger h) + n < unat x \<and> unat x \<le> unat (elder_ledger h) + 2 * n + 1)"
    and unsorted: "find (\<lambda>x. unat (elder_ledger h) + n + 1 < unat x) h = Some v" "u \<in> set h" "unat (elder_ledger h) + n < unat u" "u < v"
    and old: "unat u + unat c \<le> unat (latest_ledger h)"
  shows "\<exists>s'. DeleteUnretainedHistory env lock r s = Some (None, r, s') \<and> u \<in> set (historyLedgers (committed s')) \<and> u \<notin> set (retained c h)"
proof -
  let ?e = "latest_ledger h - c + 1"
  have c: "\<not> latest_ledger h \<le> c" using config(3) by (simp add: word_le_nat_alt)
  note t = target_elder [OF c config(2)]
  have ue: "unat ?e = unat (latest_ledger h) - unat c + 1"
  proof -
    have "unat (latest_ledger h) < 2 ^ 32" using unsigned_less [of "latest_ledger h"] by simp
    moreover have "0 < unat c" using config(2) by (simp add: unat_gt_0)
    moreover have "unat (latest_ledger h - c) = unat (latest_ledger h) - unat c" using config(3) by (simp add: unat_sub_no_wrap word_le_nat_alt)
    ultimately show ?thesis using config(3) unat_add_no_wrap [of "latest_ledger h - c" 1] by simp
  qed
  have ne: "h \<noteq> []" using unsorted(2) by auto
  have sp: "spans env ?e" using env(3) t(2) by (auto simp: spans_def word_less_nat_alt)
  have lt: "\<not> ?e < elder_ledger h" using ue gap(1) by (simp add: word_less_nat_alt)
  have bs: "unat ?e + unat (BatchSize (reapConfig r)) + 1 < 2 ^ 32" using t(2) config(4) n_def by simp
  have loop: "\<exists>m s'. clearBefore_loop env (BatchSize (reapConfig r)) ?e (elder_ledger h) 0 s2 = Some (m, None, s') \<and> u \<in> set (historyLedgers (committed s'))"
    if "tx s2 = None" "committed s2 = committed s" for s2
    by (rule clearBefore_loop_skips [OF env(1,2) sp bs that(1), where v = v])
      (use that s gap ue unsorted config(3) elder_ledger_mem [OF ne] in \<open>auto simp: h_def [symmetric] n_def [symmetric]\<close>)
  have "BatchSize (reapConfig r) \<noteq> 0" using config(1) by (auto simp: n_def)
  moreover obtain s2 where "reapLocked env lock (reapConfig r) s = map_option snd (clearBefore env (reapConfig r) (elder_ledger h) ?e s2)" and s2: "tx s2 = None" "committed s2 = committed s"
    using c lt s(1) env(2) lock(1) by (simp add: reapLocked_def go_defs Let_def h_def c_def)
  ultimately have "\<exists>s'. reapLocked env lock (reapConfig r) s = Some (None, s') \<and> u \<in> set (historyLedgers (committed s'))"
    using loop [OF s2] by (auto simp: clearBefore_def)
  moreover have "r\<lparr>reapPending := False\<rparr> = r" using lock(2) by (cases r) simp
  moreover have "u \<notin> set (retained c h)" using old by (simp add: retained_def)
  ultimately show ?thesis using lock(2) config(2) by (auto simp: DeleteUnretainedHistory_def c_def)
qed

theorem reaper_skips_unsorted_row_witness:
  "\<exists>s'. DeleteUnretainedHistory demo_env (\<lambda>_. True) demo_reaper (instance_on (history_db [1, 9, 5, 20])) = Some (None, demo_reaper, s') \<and>
     5 \<in> set (historyLedgers (committed s')) \<and> retained 5 [1, 9, 5, 20] = [20]"
proof -
  let ?s = "instance_on (history_db [1, 9, 5, 20])"
  have h: "historyLedgers (committed ?s) = [1, 9, 5, 20]" "latest_ledger [1, 9, 5, 20] = 20" "elder_ledger [1, 9, 5, 20] = 1" "tx ?s = None"
    "RetentionCount (reapConfig demo_reaper) = 5" "BatchSize (reapConfig demo_reaper) = 1" "\<not> reapPending demo_reaper"
    by (simp_all add: history_db_def instance_on_def latest_ledger_def elder_ledger_def demo_reaper_def)
  have env: "healthy demo_env" "spans demo_env 20" by (auto simp: healthy_def spans_def demo_env_def)
  have rows: "\<not> (unat (1 :: u32) + unat (1 :: u32) < unat x \<and> unat x \<le> unat (1 :: u32) + 2 * unat (1 :: u32) + 1)" if "x \<in> set [1, 9, 5, 20 :: u32]" for x
    using that by auto
  have "\<exists>s'. DeleteUnretainedHistory demo_env (\<lambda>_. True) demo_reaper ?s = Some (None, demo_reaper, s') \<and> 5 \<in> set (historyLedgers (committed s')) \<and> 5 \<notin> set (retained 5 [1, 9, 5, 20])"
    by (rule reaper_skips_unsorted_row [where env = demo_env and r = demo_reaper and s = ?s and lock = "\<lambda>_. True" and u = 5 and v = 9, unfolded h, OF demo_toid_ok env _ _ _ _ _ _ _ _ _ rows])
      (simp_all add: h)
  then show ?thesis by (simp add: retained_def h(2))
qed

end
