(* ===== verification/Parallel.thy ===== *)
theory Parallel
  imports Fsm_Claims
begin

text \<open>
  Reingestion of ranges: the sequential \<open>system.ReingestRange\<close> with its validation and retries
  (\<open>internal/ingest/main.go\<close>) and the parallel one, which cuts the ranges into jobs and hands them to
  workers (\<open>internal/ingest/parallel.go\<close>). The workers are a step relation over the jobs sent, running,
  finished and failed; any number of them may run at a time, in any order.
\<close>

record ledgerRange =
  StartSequence :: u32
  EndSequence :: u32

datatype range_error =
    StartAfterEnd ledgerRange
  | StartsAtGenesis ledgerRange
  | NotSorted ledgerRange ledgerRange

fun validateRanges_after :: "ledgerRange option \<Rightarrow> ledgerRange list \<Rightarrow> range_error option" where
  "validateRanges_after prev [] = None"
| "validateRanges_after prev (cur # rs) =
     (if EndSequence cur < StartSequence cur then Some (StartAfterEnd cur)
      else if StartSequence cur = 0 then Some (StartsAtGenesis cur)
      else case prev of
             None \<Rightarrow> validateRanges_after (Some cur) rs
           | Some p \<Rightarrow> if StartSequence cur \<le> EndSequence p then Some (NotSorted p cur)
                       else validateRanges_after (Some cur) rs)"

definition validateRanges :: "ledgerRange list \<Rightarrow> range_error option" where
  "validateRanges ledgerRanges = validateRanges_after None ledgerRanges"

subsection \<open>The sequential command\<close>

text \<open>
  A run of the machine on the reingest node; the node always hands over to the stop node, so one
  iteration is the whole run. \<open>None\<close> is a run that does not return.
\<close>

definition reingest_once ::
  "'d env \<Rightarrow> bool \<Rightarrow> ledgerRange \<Rightarrow> 'd sys \<Rightarrow> (ingest_error option \<times> 'd sys) option" where
  "reingest_once env force cur s =
     (case runStateMachine 1 env \<lparr>isTerminalError = \<lambda>_. False, ctxDone = \<lambda>_. False\<rparr>
             (reingestHistoryRangeState (StartSequence cur) (EndSequence cur) force) s of
        Some (Returned err, s') \<Rightarrow> Some (err, s')
      | _ \<Rightarrow> None)"

fun reingest_retry ::
  "'d env \<Rightarrow> bool \<Rightarrow> nat \<Rightarrow> ledgerRange \<Rightarrow> 'd sys \<Rightarrow> (ingest_error option \<times> 'd sys) option" where
  "reingest_retry env force 0 cur s = reingest_once env force cur s"
| "reingest_retry env force (Suc n) cur s =
     (case reingest_once env force cur s of
        Some (Some e, s') \<Rightarrow> reingest_retry env force n cur s'
      | r \<Rightarrow> r)"

datatype reingest_error = BadRange range_error | IngestError ingest_error

fun reingest_ranges ::
  "'d env \<Rightarrow> nat \<Rightarrow> bool \<Rightarrow> bool \<Rightarrow> ledgerRange list \<Rightarrow> 'd sys \<Rightarrow> (reingest_error option \<times> 'd sys) option" where
  "reingest_ranges env retries force rebuildTradeAgg [] s = Some (None, s)"
| "reingest_ranges env retries force rebuildTradeAgg (cur # rs) s =
     (case reingest_retry env force retries cur s of
        None \<Rightarrow> None
      | Some (Some e, s') \<Rightarrow> Some (Some (IngestError e), s')
      | Some (None, s') \<Rightarrow>
          if rebuildTradeAgg then
            (case RebuildTradeAggregationBuckets env (StartSequence cur) (EndSequence cur) s' of
               (Inl e, s'') \<Rightarrow> Some (Some (IngestError e), s'')
             | (Inr _, s'') \<Rightarrow> reingest_ranges env retries force rebuildTradeAgg rs s'')
          else reingest_ranges env retries force rebuildTradeAgg rs s')"

definition ReingestRange ::
  "'d env \<Rightarrow> nat \<Rightarrow> ledgerRange list \<Rightarrow> bool \<Rightarrow> bool \<Rightarrow> 'd sys \<Rightarrow> (reingest_error option \<times> 'd sys) option" where
  "ReingestRange env maxReingestRetries ledgerRanges force rebuildTradeAgg s =
     (case validateRanges ledgerRanges of
        Some e \<Rightarrow> Some (Some (BadRange e), s)
      | None \<Rightarrow> reingest_ranges env maxReingestRetries force rebuildTradeAgg ledgerRanges s)"

subsection \<open>Batch sizes and jobs\<close>

record ParallelSystems =
  workerCount :: u64
  minBatchSize :: u64
  maxBatchSize :: u64

definition HistoryCheckpointLedgerInterval :: nat where
  "HistoryCheckpointLedgerInterval = 64"

definition newParallelSystems :: "u64 \<Rightarrow> u64 \<Rightarrow> u64 \<Rightarrow> string + ParallelSystems" where
  "newParallelSystems workers minBatch maxBatch =
     (if workers < 1 then Inl ''workerCount must be > 0''
      else if minBatch \<noteq> 0 \<and> minBatch < of_nat HistoryCheckpointLedgerInterval
      then Inl ''minBatchSize must be at least the checkpoint interval''
      else if minBatch \<noteq> 0 \<and> maxBatch \<noteq> 0 \<and> maxBatch < minBatch
      then Inl ''maxBatchSize cannot be less than minBatchSize''
      else Inr \<lparr>workerCount = workers, minBatchSize = minBatch, maxBatchSize = maxBatch\<rparr>)"

text \<open>\<open>None\<close> is Go's division by zero, when the low 32 bits of the worker count are 0.\<close>

definition calculateParallelLedgerBatchSize :: "ParallelSystems \<Rightarrow> u32 \<Rightarrow> u32 option" where
  "calculateParallelLedgerBatchSize ps rangeSize =
     (if (ucast (workerCount ps) :: u32) = 0 then None
      else
      let b0 = rangeSize div ucast (workerCount ps);
          b1 = (if 0 < minBatchSize ps then max b0 (ucast (minBatchSize ps)) else b0);
          b2 = (if 0 < maxBatchSize ps then min b1 (ucast (maxBatchSize ps)) else b1);
          interval = of_nat HistoryCheckpointLedgerInterval in
      Some (if interval < b2 then b2 div interval * interval else interval))"

definition totalRangeSize :: "ledgerRange list \<Rightarrow> u32" where
  "totalRangeSize rs = fold (\<lambda>r n. n + (EndSequence r - StartSequence r + 1)) rs 0"

text \<open>The inner loop of \<open>enqueueReingestTasks\<close>: the jobs of one range, from \<open>subRangeFrom\<close> on.\<close>

partial_function (option) enqueue_sub :: "u32 \<Rightarrow> u32 \<Rightarrow> u32 \<Rightarrow> ledgerRange list option" where
  "enqueue_sub batchSize endSequence subRangeFrom =
     (if subRangeFrom < endSequence then
        (let t = subRangeFrom + (batchSize - 1);
             subRangeTo = (if endSequence < t then endSequence else t) in
         Option.bind (enqueue_sub batchSize endSequence (subRangeTo + 1))
           (\<lambda>js. Some (\<lparr>StartSequence = subRangeFrom, EndSequence = subRangeTo\<rparr> # js)))
      else Some [])"

fun enqueueReingestTasks :: "u32 \<Rightarrow> ledgerRange list \<Rightarrow> ledgerRange list option" where
  "enqueueReingestTasks batchSize [] = Some []"
| "enqueueReingestTasks batchSize (cur # rs) =
     Option.bind (enqueue_sub batchSize (EndSequence cur) (StartSequence cur)) (\<lambda>js.
     Option.bind (enqueueReingestTasks batchSize rs) (\<lambda>js'. Some (js @ js')))"

definition lowestLedger :: "ledgerRange list \<Rightarrow> u32" where
  "lowestLedger sent = fold (\<lambda>j n. if StartSequence j < n then StartSequence j else n) sent (- 1)"

subsection \<open>What the jobs cover\<close>

definition covered :: "ledgerRange list \<Rightarrow> u32 set" where
  "covered js = (\<Union>j \<in> set js. {StartSequence j..EndSequence j})"

lemma covered_simps [simp]:
  "covered [] = {}" "covered (j # js) = {StartSequence j..EndSequence j} \<union> covered js"
  "covered (js @ js') = covered js \<union> covered js'"
  by (auto simp: covered_def)

text \<open>Jobs that follow each other, each with at most \<open>b\<close> ledgers, the first one starting at \<open>f\<close> and none after \<open>e\<close>.\<close>

fun jobs_from :: "nat \<Rightarrow> u32 \<Rightarrow> nat \<Rightarrow> ledgerRange list \<Rightarrow> bool" where
  "jobs_from b e f [] = True"
| "jobs_from b e f (j # js) \<longleftrightarrow> unat (StartSequence j) = f \<and> StartSequence j \<le> EndSequence j \<and> EndSequence j \<le> e \<and>
     unat (EndSequence j) - f < b \<and> jobs_from b e (Suc (unat (EndSequence j))) js"

lemma interval_split:
  fixes f t e :: u32
  assumes "f \<le> t" and "t < e"
  shows "{f..t} \<union> {t + 1..e} = {f..e}" and "{f..t} \<union> ({t + 1..e} - {e}) = {f..e} - {e}"
proof -
  have "t \<noteq> - 1" using assms(2) by (metis word_order.extremum_strict)
  then have "t + 1 \<le> x \<longleftrightarrow> t < x" for x
    using unat_Suc_no_wrap [of t] by (simp add: word_le_nat_alt word_less_nat_alt Suc_le_eq)
  then have "{t + 1..e} = {t<..e}"
    by (intro set_eqI) (simp only: atLeastAtMost_iff greaterThanAtMost_iff)
  then show all: "{f..t} \<union> {t + 1..e} = {f..e}" using ivl_disj_un_two(8) [of f t e] assms by simp
  have "e \<notin> {f..t}" using assms(2) by (simp add: not_le)
  then have "{f..t} \<union> ({t + 1..e} - {e}) = ({f..t} \<union> {t + 1..e}) - {e}" by blast
  then show "{f..t} \<union> ({t + 1..e} - {e}) = {f..e} - {e}" unfolding all .
qed

lemma enqueue_sub_covers:
  assumes "b \<noteq> 0" and "unat e + unat b < 2 ^ 32" and "f \<le> e"
  shows "\<exists>js. enqueue_sub b e f = Some js \<and> jobs_from (unat b) e (unat f) js \<and>
    covered js = (if (unat e - unat f) mod unat b = 0 then {f..e} - {e} else {f..e})"
  using assms(3)
proof (induction "unat e - unat f" arbitrary: f rule: less_induct)
  case less
  have b: "unat (b - 1) = unat b - 1" "0 < unat b" using assms(1) by (simp_all add: unat_pred unat_gt_0)
  show ?case
  proof (cases "f < e")
    case False
    with less.prems have "f = e" by simp
    then show ?thesis by (subst enqueue_sub.simps) simp
  next
    case True
    let ?t = "f + (b - 1)"
    have fe: "unat f < unat e" using True by (simp add: word_less_nat_alt)
    have t: "unat ?t = unat f + (unat b - 1)"
      using unat_add_no_wrap [of f "b - 1"] b fe assms(2) by simp
    show ?thesis
    proof (cases "?t < e")
      case False
      then have last: "(if e < ?t then e else ?t) = e" by auto
      have "unat (e + 1) = Suc (unat e)" using unat_add_no_wrap [of e 1] assms(2) b by simp
      then have "\<not> e + 1 < e" by (simp add: word_less_nat_alt)
      then have stop: "enqueue_sub b e (e + 1) = Some []" by (subst enqueue_sub.simps) simp
      have "unat e - unat f < unat b" using False t b by (simp add: word_less_nat_alt)
      moreover have "(unat e - unat f) mod unat b \<noteq> 0" using calculation fe by simp
      ultimately show ?thesis
        using True last stop by (subst enqueue_sub.simps) (simp add: Let_def)
    next
      case inner: True
      have t1: "unat (?t + 1) = unat f + unat b"
        using unat_add_no_wrap [of ?t 1] t b assms(2) fe inner by (simp add: word_less_nat_alt)
      have le: "?t + 1 \<le> e" using t1 inner t b by (simp add: word_le_nat_alt word_less_nat_alt)
      have "unat e - unat (?t + 1) < unat e - unat f" using t1 b fe by simp
      from less.hyps [OF this le] obtain js where js: "enqueue_sub b e (?t + 1) = Some js"
        "jobs_from (unat b) e (unat (?t + 1)) js"
        "covered js = (if (unat e - unat (?t + 1)) mod unat b = 0 then {?t + 1..e} - {e} else {?t + 1..e})"
        by blast
      have m: "(unat e - unat (?t + 1)) mod unat b = (unat e - unat f) mod unat b"
      proof -
        have "unat e - unat f = (unat e - unat (?t + 1)) + unat b" using t1 le by (simp add: word_le_nat_alt)
        then show ?thesis by simp
      qed
      have ft: "f \<le> ?t" using t by (simp add: word_le_nat_alt)
      have "\<not> e < ?t" using inner by simp
      then have run: "enqueue_sub b e f = Some (\<lparr>StartSequence = f, EndSequence = ?t\<rparr> # js)"
        using True js(1) by (subst enqueue_sub.simps) (simp add: Let_def)
      moreover have "jobs_from (unat b) e (unat f) (\<lparr>StartSequence = f, EndSequence = ?t\<rparr> # js)"
        using js(2) t t1 b ft inner by simp
      moreover have "covered (\<lparr>StartSequence = f, EndSequence = ?t\<rparr> # js) =
          (if (unat e - unat f) mod unat b = 0 then {f..e} - {e} else {f..e})"
        using js(3) m interval_split [OF ft inner] by simp
      ultimately show ?thesis by blast
    qed
  qed
qed

definition ranges_ok :: "ledgerRange list \<Rightarrow> bool" where
  "ranges_ok rs \<longleftrightarrow> (\<forall>r \<in> set rs. StartSequence r \<noteq> 0 \<and> StartSequence r \<le> EndSequence r) \<and>
     sorted_wrt (\<lambda>r r'. EndSequence r < StartSequence r') rs"

lemma ranges_ok_Cons:
  "ranges_ok (r # rs) \<longleftrightarrow> StartSequence r \<noteq> 0 \<and> StartSequence r \<le> EndSequence r \<and>
     (\<forall>r' \<in> set rs. EndSequence r < StartSequence r') \<and> ranges_ok rs"
  by (auto simp: ranges_ok_def)

lemma validateRanges_after_iff:
  "validateRanges_after prev rs = None \<longleftrightarrow>
     ranges_ok rs \<and> (\<forall>p r. prev = Some p \<longrightarrow> r \<in> set rs \<longrightarrow> EndSequence p < StartSequence r)"
proof (induction rs arbitrary: prev)
  case Nil
  show ?case by (simp add: ranges_ok_def)
next
  case (Cons r rs)
  show ?case
    by (cases prev) (auto simp: Cons.IH ranges_ok_Cons not_less not_le dest: less_le_trans order.strict_trans)
qed

text \<open>
  Validation of ranges is exact: \<open>validateRanges\<close> accepts a list of ranges if and only if every range
  is non-empty and starts after ledger 0 and each range ends before the next one starts, so that the
  ranges are in ascending order and pairwise disjoint.
\<close>

theorem validateRanges_exact:
  "validateRanges rs = None \<longleftrightarrow>
     (\<forall>r \<in> set rs. StartSequence r \<noteq> 0 \<and> StartSequence r \<le> EndSequence r) \<and>
     sorted_wrt (\<lambda>r r'. EndSequence r < StartSequence r') rs"
  by (simp add: validateRanges_def validateRanges_after_iff ranges_ok_def)

theorem validateRanges_exact_witness:
  "validateRanges [\<lparr>StartSequence = 1, EndSequence = 5\<rparr>, \<lparr>StartSequence = 7, EndSequence = 7\<rparr>] = None \<and>
   validateRanges [\<lparr>StartSequence = 1, EndSequence = 5\<rparr>, \<lparr>StartSequence = 5, EndSequence = 7\<rparr>] \<noteq> None"
  using validateRanges_exact by simp

definition skipped :: "u32 \<Rightarrow> ledgerRange \<Rightarrow> u32 set" where
  "skipped b r = (if (unat (EndSequence r) - unat (StartSequence r)) mod unat b = 0 then {EndSequence r} else {})"

lemma jobs_from_bounds:
  "jobs_from b e f js \<Longrightarrow> j \<in> set js \<Longrightarrow>
     f \<le> unat (StartSequence j) \<and> StartSequence j \<le> EndSequence j \<and> EndSequence j \<le> e \<and>
     unat (EndSequence j) - unat (StartSequence j) < b"
  by (induction b e f js rule: jobs_from.induct) (fastforce simp: word_le_nat_alt)+

lemma jobs_from_sorted:
  "jobs_from b e f js \<Longrightarrow> sorted_wrt (\<lambda>j k. EndSequence j < StartSequence k) js"
proof (induction b e f js rule: jobs_from.induct)
  case (2 b e f j js)
  then have "EndSequence j < StartSequence k" if "k \<in> set js" for k
    using jobs_from_bounds [of b e "Suc (unat (EndSequence j))" js k] that by (simp add: word_less_nat_alt)
  with 2 show ?case by simp
qed simp

lemma enqueue_covers:
  assumes "ranges_ok rs" and "b \<noteq> 0" and "\<forall>r \<in> set rs. unat (EndSequence r) + unat b < 2 ^ 32"
  shows "\<exists>js. enqueueReingestTasks b rs = Some js \<and>
    covered js = (\<Union>r \<in> set rs. {StartSequence r..EndSequence r} - skipped b r) \<and>
    sorted_wrt (\<lambda>j k. EndSequence j < StartSequence k) js \<and>
    (\<forall>j \<in> set js. StartSequence j \<le> EndSequence j \<and> unat (EndSequence j) - unat (StartSequence j) < unat b \<and>
       (\<exists>r \<in> set rs. StartSequence r \<le> StartSequence j \<and> EndSequence j \<le> EndSequence r))"
  using assms(1,3)
proof (induction rs)
  case (Cons r rs)
  from Cons obtain js' where js': "enqueueReingestTasks b rs = Some js'"
    "covered js' = (\<Union>r \<in> set rs. {StartSequence r..EndSequence r} - skipped b r)"
    "sorted_wrt (\<lambda>j k. EndSequence j < StartSequence k) js'"
    "\<forall>j \<in> set js'. StartSequence j \<le> EndSequence j \<and> unat (EndSequence j) - unat (StartSequence j) < unat b \<and>
       (\<exists>r \<in> set rs. StartSequence r \<le> StartSequence j \<and> EndSequence j \<le> EndSequence r)"
    by (auto simp: ranges_ok_Cons)
  obtain js where js: "enqueue_sub b (EndSequence r) (StartSequence r) = Some js"
    "jobs_from (unat b) (EndSequence r) (unat (StartSequence r)) js"
    "covered js = {StartSequence r..EndSequence r} - skipped b r"
    using enqueue_sub_covers [OF assms(2), of "EndSequence r" "StartSequence r"] Cons.prems
    by (auto simp: ranges_ok_Cons skipped_def)
  note bnd = jobs_from_bounds [OF js(2)]
  have "EndSequence j < StartSequence k" if jk: "j \<in> set js" "k \<in> set js'" for j k
  proof -
    obtain r' where "r' \<in> set rs" "StartSequence r' \<le> StartSequence k" using js'(4) jk(2) by blast
    moreover have "EndSequence j \<le> EndSequence r" using bnd [OF jk(1)] by simp
    ultimately show ?thesis using Cons.prems(1) by (auto simp: ranges_ok_Cons dest: le_less_trans less_le_trans)
  qed
  then have "sorted_wrt (\<lambda>j k. EndSequence j < StartSequence k) (js @ js')"
    using jobs_from_sorted [OF js(2)] js'(3) by (auto simp: sorted_wrt_append)
  with js js' bnd show ?case by (auto simp: word_le_nat_alt)
qed simp

text \<open>
  C34. The jobs of a parallel reingestion, exactly: for validated ranges and a batch size that does not
  overflow, \<open>enqueueReingestTasks\<close> returns; its jobs are in ascending order and disjoint, none has more
  than \<open>batchSize\<close> ledgers or leaves its range, and together they cover the ranges, except that the last
  ledger of a range is in no job when its distance to the first one is a multiple of the batch size. In
  particular a range of a single ledger gets no job at all.
\<close>

theorem jobs_cover_ranges_but_last:
  assumes "validateRanges rs = None" and "b \<noteq> 0" and "\<forall>r \<in> set rs. unat (EndSequence r) + unat b < 2 ^ 32"
  shows "\<exists>js. enqueueReingestTasks b rs = Some js \<and>
    (\<Union>j \<in> set js. {StartSequence j..EndSequence j}) = (\<Union>r \<in> set rs. {StartSequence r..EndSequence r} -
       (if (unat (EndSequence r) - unat (StartSequence r)) mod unat b = 0 then {EndSequence r} else {})) \<and>
    sorted_wrt (\<lambda>j k. EndSequence j < StartSequence k) js \<and>
    (\<forall>j \<in> set js. StartSequence j \<le> EndSequence j \<and> unat (EndSequence j) - unat (StartSequence j) < unat b)"
proof -
  have "ranges_ok rs" using assms(1) by (simp add: validateRanges_def validateRanges_after_iff)
  from enqueue_covers [OF this assms(2,3)] show ?thesis unfolding covered_def skipped_def by blast
qed

theorem jobs_cover_ranges_but_last_witness:
  "\<exists>js. enqueueReingestTasks 64 [\<lparr>StartSequence = 100, EndSequence = 164\<rparr>, \<lparr>StartSequence = 200, EndSequence = 200\<rparr>] = Some js \<and>
     (\<Union>j \<in> set js. {StartSequence j..EndSequence j}) = {100..164} - {164}"
  using jobs_cover_ranges_but_last
    [of "[\<lparr>StartSequence = 100, EndSequence = 164\<rparr>, \<lparr>StartSequence = 200, EndSequence = 200\<rparr>]" 64]
  by (auto simp: validateRanges_def)

subsection \<open>The sequential command replaces its ranges\<close>

text \<open>\<open>d'\<close> is \<open>d\<close> with other rows for the ledgers of \<open>R\<close>, and \<open>ts\<close> rebuilt.\<close>

definition touched :: "u32 set \<Rightarrow> (u32 \<times> u32) list \<Rightarrow> 'd db \<Rightarrow> 'd db \<Rightarrow> bool" where
  "touched R ts d d' \<longleftrightarrow> (\<exists>h. d' = d\<lparr>historyLedgers := h, tradeRebuilds := tradeRebuilds d @ ts\<rparr> \<and>
     distinct h \<and> 0 \<notin> set h \<and> (\<forall>x. x \<notin> R \<longrightarrow> (x \<in> set h \<longleftrightarrow> x \<in> set (historyLedgers d))))"

lemma touchedE:
  assumes "touched R ts d d'"
  obtains h where "d' = d\<lparr>historyLedgers := h, tradeRebuilds := tradeRebuilds d @ ts\<rparr>" "distinct h" "0 \<notin> set h"
    "\<And>x. x \<notin> R \<Longrightarrow> x \<in> set h \<longleftrightarrow> x \<in> set (historyLedgers d)"
  using assms unfolding touched_def by blast

lemma touched_trans:
  assumes "touched R ts d d'" and "touched R' ts' d' d''"
  shows "touched (R \<union> R') (ts @ ts') d d''"
proof -
  obtain h where h: "d' = d\<lparr>historyLedgers := h, tradeRebuilds := tradeRebuilds d @ ts\<rparr>"
      "\<And>x. x \<notin> R \<Longrightarrow> x \<in> set h \<longleftrightarrow> x \<in> set (historyLedgers d)"
    using touchedE [OF assms(1)] by metis
  obtain h' where h': "d'' = d'\<lparr>historyLedgers := h', tradeRebuilds := tradeRebuilds d' @ ts'\<rparr>" "distinct h'" "0 \<notin> set h'"
      "\<And>x. x \<notin> R' \<Longrightarrow> x \<in> set h' \<longleftrightarrow> x \<in> set (historyLedgers d')"
    using touchedE [OF assms(2)] by metis
  show ?thesis unfolding touched_def
    using h h' by (intro exI [of _ h']) simp
qed

definition range_set :: "ledgerRange \<Rightarrow> u32 set" where
  "range_set r = {first_ledger (StartSequence r)..EndSequence r}"

definition rows_ok :: "'d db \<Rightarrow> bool" where
  "rows_ok d \<longleftrightarrow> distinct (historyLedgers d) \<and> 0 \<notin> set (historyLedgers d)"

lemma touched_refl: "rows_ok d \<Longrightarrow> touched R [] d d"
  unfolding touched_def by (intro exI [of _ "historyLedgers d"]) (simp add: rows_ok_def)

lemma touched_rows_ok: "touched R ts d d' \<Longrightarrow> rows_ok d'"
  by (erule touchedE) (simp add: rows_ok_def)

lemma touched_kept: "touched R ts d d' \<Longrightarrow> x \<notin> R \<Longrightarrow> x \<in> set (historyLedgers d') \<longleftrightarrow> x \<in> set (historyLedgers d)"
  by (erule touchedE) simp

lemma replaced_touched:
  assumes "replaced_upto a b q d d'" and "a \<noteq> 0" and "rows_ok d"
  shows "touched {a..b} [] d d'"
proof -
  have r: "a \<le> b" "q \<le> Suc (unat b)" "history_ext (unat a) q (drop_range a b d) d'"
    using assms(1) by (auto simp: replaced_upto_def)
  have q: "q \<le> 2 ^ 32" using range_end [OF r(2)] .
  have "distinct (historyLedgers d')" "0 \<notin> set (historyLedgers d')"
    using history_ext_inv [OF r(3) _ q] assms(2,3) by (auto simp: rows_ok_def drop_range_def unat_gt_0)
  moreover have "set (seqs (unat a) q) \<subseteq> {a..b}"
    using set_seqs [OF q, of "unat a"] r(2) by (auto simp: word_le_nat_alt)
  then have "x \<in> set (historyLedgers d') \<longleftrightarrow> x \<in> set (historyLedgers d)" if "x \<notin> {a..b}" for x
    using history_ext_set [OF r(3)] that by (auto simp: drop_range_def)
  moreover have "d' = d\<lparr>historyLedgers := historyLedgers d', tradeRebuilds := tradeRebuilds d @ []\<rparr>"
    using r(3) by (auto simp: history_ext_def drop_range_def)
  ultimately show ?thesis unfolding touched_def by (intro exI [of _ "historyLedgers d'"]) blast
qed

lemma reingest_once_effect:
  assumes "env_ok env" and "toid_ok env" and "tx s = None" and "rows_ok (committed s)"
  shows "\<exists>err s'. reingest_once env False cur s = Some (err, s') \<and> tx s' = None \<and>
    touched (range_set cur) [] (committed s) (committed s') \<and>
    (err = None \<longrightarrow> range_set cur \<subseteq> set (historyLedgers (committed s')))"
proof -
  let ?from = "StartSequence cur" and ?to = "EndSequence cur"
  have nz: "0 \<notin> set (historyLedgers (committed s))" using assms(4) by (simp add: rows_ok_def)
  obtain err s' where run: "reingestHistoryRangeState_run env ?from ?to False s = Some ((stop, err), s')" "tx s' = None"
    and eff: "committed s' = committed s \<or> (\<exists>q. replaced_upto (first_ledger ?from) ?to q (committed s) (committed s'))"
      "err = None \<longrightarrow> replaced_upto (first_ledger ?from) ?to (Suc (unat ?to)) (committed s) (committed s')"
    using reingest_effect [OF assms(1-3) nz, of ?from ?to] by blast
  have "reingest_once env False cur s = Some (err, s')"
    using run(1) assms(3) by (simp add: reingest_once_def machine_iteration_def stop_def)
  moreover have nz1: "first_ledger ?from \<noteq> 0 \<or> committed s' = committed s"
    using run(1) by (auto simp: reingestHistoryRangeState_run_def ret_err_def first_ledger_def)
  then have "touched (range_set cur) [] (committed s) (committed s')"
    using eff(1) replaced_touched [OF _ _ assms(4)] touched_refl [OF assms(4)] by (auto simp: range_set_def)
  moreover have "range_set cur \<subseteq> set (historyLedgers (committed s'))" if "err = None"
    using replaced_all [OF mp [OF eff(2) that]] by (simp add: range_set_def)
  ultimately show ?thesis using run(2) by blast
qed

lemma reingest_retry_effect:
  assumes "env_ok env" and "toid_ok env" and "tx s = None" and "rows_ok (committed s)"
  shows "\<exists>err s'. reingest_retry env False n cur s = Some (err, s') \<and> tx s' = None \<and>
    touched (range_set cur) [] (committed s) (committed s') \<and>
    (err = None \<longrightarrow> range_set cur \<subseteq> set (historyLedgers (committed s')))"
  using assms(3,4)
proof (induction n arbitrary: s)
  case 0
  then show ?case using reingest_once_effect [OF assms(1,2)] by simp
next
  case (Suc n)
  obtain err s1 where one: "reingest_once env False cur s = Some (err, s1)" "tx s1 = None"
    "touched (range_set cur) [] (committed s) (committed s1)"
    "err = None \<longrightarrow> range_set cur \<subseteq> set (historyLedgers (committed s1))"
    using reingest_once_effect [OF assms(1,2) Suc.prems] by blast
  show ?case
  proof (cases err)
    case None
    with one show ?thesis by simp
  next
    case (Some e)
    from Suc.IH [OF one(2) touched_rows_ok [OF one(3)]] Some one(1) touched_trans [OF one(3)] show ?thesis
      by fastforce
  qed
qed

lemma rebuild_touched:
  assumes "tx s1 = None" and "touched R ts d (committed s1)"
    and "RebuildTradeAggregationBuckets env a b s1 = (res, s2)"
  shows "tx s2 = None \<and> historyLedgers (committed s2) = historyLedgers (committed s1) \<and>
    touched R (ts @ (if res = Inr () then [(a, b)] else [])) d (committed s2)"
proof -
  let ?c = "committed s1"
  have "touched {} [(a, b)] ?c (?c\<lparr>tradeRebuilds := tradeRebuilds ?c @ [(a, b)]\<rparr>)"
    using touched_rows_ok [OF assms(2)] unfolding touched_def rows_ok_def
    by (intro exI [of _ "historyLedgers ?c"]) simp
  from touched_trans [OF assms(2) this] assms(1-3) show ?thesis
    by (auto simp: RebuildTradeAggregationBuckets_def svc_write_def svc_def Let_def split: if_splits)
qed

lemma reingest_ranges_effect:
  assumes "env_ok env" and "toid_ok env" and "tx s = None" and "rows_ok (committed s)"
  shows "\<exists>err s' ts. reingest_ranges env n False rb rs s = Some (err, s') \<and> tx s' = None \<and>
    touched (\<Union>r \<in> set rs. range_set r) ts (committed s) (committed s') \<and>
    (err = None \<longrightarrow> (\<Union>r \<in> set rs. range_set r) \<subseteq> set (historyLedgers (committed s')) \<and>
       ts = (if rb then map (\<lambda>r. (StartSequence r, EndSequence r)) rs else []))"
  using assms(3,4)
proof (induction rs arbitrary: s)
  case Nil
  then show ?case using touched_refl by fastforce
next
  case (Cons r rs)
  obtain err s1 where one: "reingest_retry env False n r s = Some (err, s1)" "tx s1 = None"
    "touched (range_set r) [] (committed s) (committed s1)"
    "err = None \<longrightarrow> range_set r \<subseteq> set (historyLedgers (committed s1))"
    using reingest_retry_effect [OF assms(1,2) Cons.prems] by blast
  show ?case
  proof (cases err)
    case (Some e)
    then show ?thesis
      using one touched_trans [OF one(3) touched_refl [OF touched_rows_ok [OF one(3)]], of "\<Union>r \<in> set rs. range_set r"]
      by auto
  next
    case None
    obtain res s2 where rebuild: "(if rb then RebuildTradeAggregationBuckets env (StartSequence r) (EndSequence r) s1 else (Inr (), s1)) = (res, s2)"
      by fastforce
    have s2: "tx s2 = None \<and> touched (range_set r) (if res = Inr () \<and> rb then [(StartSequence r, EndSequence r)] else [])
        (committed s) (committed s2) \<and> historyLedgers (committed s2) = historyLedgers (committed s1)"
    proof (cases rb)
      case True
      then have "RebuildTradeAggregationBuckets env (StartSequence r) (EndSequence r) s1 = (res, s2)" using rebuild by simp
      from rebuild_touched [OF one(2,3) this] True show ?thesis by simp
    next
      case False
      then have "s2 = s1" using rebuild by simp
      with one(2,3) False show ?thesis by simp
    qed
    show ?thesis
    proof (cases res)
      case (Inl e)
      then have t: "touched (range_set r) [] (committed s) (committed s2)" using s2 by simp
      have rb: "rb" using Inl rebuild by (cases rb) simp_all
      have "reingest_ranges env n False rb (r # rs) s = Some (Some (IngestError e), s2)"
        using None Inl rebuild one(1) rb by simp
      moreover have "touched (\<Union>r \<in> set (r # rs). range_set r) [] (committed s) (committed s2)"
        using touched_trans [OF t touched_refl [OF touched_rows_ok [OF t]], of "\<Union>r \<in> set rs. range_set r"] by simp
      ultimately show ?thesis using s2 by blast
    next
      case (Inr u)
      obtain err' s' ts where rest: "reingest_ranges env n False rb rs s2 = Some (err', s')" "tx s' = None"
        "touched (\<Union>r \<in> set rs. range_set r) ts (committed s2) (committed s')"
        "err' = None \<longrightarrow> (\<Union>r \<in> set rs. range_set r) \<subseteq> set (historyLedgers (committed s')) \<and>
           ts = (if rb then map (\<lambda>r. (StartSequence r, EndSequence r)) rs else [])"
        using Cons.IH [OF conjunct1 [OF s2] touched_rows_ok [OF conjunct1 [OF conjunct2 [OF s2]]]]
        by (elim exE conjE) (rule that)
      have run: "reingest_ranges env n False rb (r # rs) s = Some (err', s')"
        using None Inr rebuild one(1) rest(1) by (cases rb) auto
      have "range_set r \<subseteq> set (historyLedgers (committed s'))" if "err' = None"
      proof
        fix x
        assume "x \<in> range_set r"
        then have "x \<in> set (historyLedgers (committed s2))" using one(4) None s2 by auto
        then show "x \<in> set (historyLedgers (committed s'))"
          using rest(4) that touched_kept [OF rest(3), of x] by (cases "x \<in> (\<Union>r \<in> set rs. range_set r)") auto
      qed
      moreover have "touched (\<Union>r \<in> set (r # rs). range_set r) ((if rb then [(StartSequence r, EndSequence r)] else []) @ ts)
          (committed s) (committed s')"
        using touched_trans [OF conjunct1 [OF conjunct2 [OF s2]] rest(3)] Inr by simp
      ultimately show ?thesis
        using run rest(2,4) by (intro exI [of _ err'] exI [of _ s'] exI conjI) (assumption | simp)+
    qed
  qed
qed

text \<open>
  Sequential reingestion: \<open>ReingestRange\<close> without \<open>force\<close> always returns. A list of ranges that does
  not validate changes nothing. When it returns no error, the history has every ledger of every range
  (from ledger 2 on), no ledger twice, and outside the ranges exactly the rows it had, and the trade
  aggregations of every range have been rebuilt in order if asked for. Whatever failed and was retried,
  rows outside the ranges and all other tables are untouched.
\<close>

theorem ReingestRange_replaces_ranges:
  assumes "env_ok env" and "toid_ok env" and "tx s = None"
    and "distinct (historyLedgers (committed s))" and "0 \<notin> set (historyLedgers (committed s))"
  shows "\<exists>err s' ts. ReingestRange env retries rs False rb s = Some (err, s') \<and> tx s' = None \<and>
    (validateRanges rs \<noteq> None \<longrightarrow> err \<noteq> None \<and> committed s' = committed s) \<and>
    distinct (historyLedgers (committed s')) \<and>
    (\<forall>x. (\<forall>r \<in> set rs. x < StartSequence r \<or> EndSequence r < x) \<longrightarrow>
       (x \<in> set (historyLedgers (committed s')) \<longleftrightarrow> x \<in> set (historyLedgers (committed s)))) \<and>
    committed s' = (committed s)\<lparr>historyLedgers := historyLedgers (committed s'),
      tradeRebuilds := tradeRebuilds (committed s) @ ts\<rparr> \<and>
    (err = None \<longrightarrow>
       (\<forall>r \<in> set rs. \<forall>x. 2 \<le> x \<and> StartSequence r \<le> x \<and> x \<le> EndSequence r \<longrightarrow> x \<in> set (historyLedgers (committed s'))) \<and>
       ts = (if rb then map (\<lambda>r. (StartSequence r, EndSequence r)) rs else []))"
proof -
  have rows: "rows_ok (committed s)" using assms(4,5) by (simp add: rows_ok_def)
  have same: "committed s = (committed s)\<lparr>historyLedgers := historyLedgers (committed s),
      tradeRebuilds := tradeRebuilds (committed s) @ []\<rparr>" by simp
  show ?thesis
  proof (cases "validateRanges rs")
    case (Some e)
    then have "ReingestRange env retries rs False rb s = Some (Some (BadRange e), s)" by (simp add: ReingestRange_def)
    with assms(3,4) same show ?thesis by (intro exI [of _ "Some (BadRange e)"] exI [of _ s] exI [of _ "[]"]) simp
  next
    case None
    obtain err s' ts where run: "reingest_ranges env retries False rb rs s = Some (err, s')" "tx s' = None"
      and t: "touched (\<Union>r \<in> set rs. range_set r) ts (committed s) (committed s')"
      and ok: "err = None \<longrightarrow> (\<Union>r \<in> set rs. range_set r) \<subseteq> set (historyLedgers (committed s')) \<and>
         ts = (if rb then map (\<lambda>r. (StartSequence r, EndSequence r)) rs else [])"
      using reingest_ranges_effect [OF assms(1-3) rows, of retries rb rs] by (elim exE conjE) (rule that)
    have out: "x \<in> set (historyLedgers (committed s')) \<longleftrightarrow> x \<in> set (historyLedgers (committed s))"
      if "\<forall>r \<in> set rs. x < StartSequence r \<or> EndSequence r < x" for x
    proof (rule touched_kept [OF t])
      have "x \<notin> range_set r" if "r \<in> set rs" "x < StartSequence r \<or> EndSequence r < x" for r
        using that(2) by (auto simp: range_set_def first_ledger_def word_less_nat_alt word_le_nat_alt split: if_splits)
      then show "x \<notin> (\<Union>r \<in> set rs. range_set r)" using that by blast
    qed
    have db: "committed s' = (committed s)\<lparr>historyLedgers := historyLedgers (committed s'),
      tradeRebuilds := tradeRebuilds (committed s) @ ts\<rparr>"
      using t by (rule touchedE) simp
    have dist: "distinct (historyLedgers (committed s'))" using touched_rows_ok [OF t] by (simp add: rows_ok_def)
    have "x \<in> set (historyLedgers (committed s'))"
      if "err = None" "r \<in> set rs" "2 \<le> x \<and> StartSequence r \<le> x \<and> x \<le> EndSequence r" for r x
    proof -
      have "x \<in> range_set r" using that(3) by (simp add: range_set_def first_ledger_def)
      with ok that(1,2) show ?thesis by blast
    qed
    moreover have "ReingestRange env retries rs False rb s = Some (err, s')" using None run(1) by (simp add: ReingestRange_def)
    ultimately show ?thesis
      using run(2) None dist out db ok by (intro exI [of _ err] exI [of _ s'] exI [of _ ts] conjI) (assumption | simp | blast)+
  qed
qed

lemma demo_ReingestRange:
  "\<exists>s'. ReingestRange demo_env 0 [\<lparr>StartSequence = 1, EndSequence = 3\<rparr>] False True (instance_on demo_db63) = Some (None, s')"
  using demo_reingest
  by (auto simp: ReingestRange_def validateRanges_def reingest_once_def machine_iteration_def stop_def
      RebuildTradeAggregationBuckets_def svc_write_def svc_def Let_def healthyD [OF demo_healthy])

theorem ReingestRange_replaces_ranges_witness:
  "\<exists>s'. ReingestRange demo_env 0 [\<lparr>StartSequence = 1, EndSequence = 3\<rparr>] False True (instance_on demo_db63) = Some (None, s') \<and>
     {2, 3} \<subseteq> set (historyLedgers (committed s')) \<and> 4 \<notin> set (historyLedgers (committed s')) \<and>
     distinct (historyLedgers (committed s'))"
proof -
  obtain s' where run: "ReingestRange demo_env 0 [\<lparr>StartSequence = 1, EndSequence = 3\<rparr>] False True (instance_on demo_db63) = Some (None, s')"
    using demo_ReingestRange by blast
  have "historyLedgers demo_db63 = []" by (simp add: demo_db63_def fresh_db_def)
  then show ?thesis
    using ReingestRange_replaces_ranges [OF demo_env_ok demo_toid_ok, of "instance_on demo_db63" 0
        "[\<lparr>StartSequence = 1, EndSequence = 3\<rparr>]" True] run
    by auto
qed

subsection \<open>The parallel command\<close>

text \<open>
  The state of a parallel reingestion: the jobs the enqueuing loop has not sent yet, the jobs the
  workers hold, the jobs that succeeded, the jobs that failed, the number of workers that have not
  returned, the closed \<open>stop\<close> channel and \<open>lowestRangeErr\<close>. The channel is unbuffered: a job that is sent
  is taken by an idle worker in the same step. A \<open>select\<close> with both cases ready takes either, so a
  worker may take a job after \<open>stop\<close> was closed.
\<close>

record parallel_run =
  unsent :: "ledgerRange list"
  running :: "ledgerRange list"
  succeeded :: "ledgerRange list"
  failed :: "ledgerRange list"
  liveWorkers :: nat
  stopped :: bool
  enqueuing :: bool
  lowestRangeErr :: "ledgerRange option"

definition parallel_start :: "nat \<Rightarrow> ledgerRange list \<Rightarrow> parallel_run" where
  "parallel_start workers jobs = \<lparr>unsent = jobs, running = [], succeeded = [], failed = [],
     liveWorkers = workers, stopped = False, enqueuing = True, lowestRangeErr = None\<rparr>"

definition record_error :: "ledgerRange \<Rightarrow> ledgerRange option \<Rightarrow> ledgerRange option" where
  "record_error r low = (case low of
       None \<Rightarrow> Some r
     | Some l \<Rightarrow> if StartSequence r < StartSequence l then Some r else Some l)"

inductive parallel_step :: "parallel_run \<Rightarrow> parallel_run \<Rightarrow> bool" where
  job_sent: "enqueuing p \<Longrightarrow> unsent p = j # js \<Longrightarrow> length (running p) < liveWorkers p \<Longrightarrow>
     parallel_step p (p\<lparr>unsent := js, running := running p @ [j]\<rparr>)"
| job_done: "running p = xs @ j # ys \<Longrightarrow>
     parallel_step p (p\<lparr>running := xs @ ys, succeeded := succeeded p @ [j]\<rparr>)"
| job_failed: "running p = xs @ j # ys \<Longrightarrow>
     parallel_step p (p\<lparr>running := xs @ ys, failed := failed p @ [j], liveWorkers := liveWorkers p - 1,
       stopped := True, lowestRangeErr := record_error j (lowestRangeErr p)\<rparr>)"
| enqueue_stopped: "enqueuing p \<Longrightarrow> stopped p \<Longrightarrow> parallel_step p (p\<lparr>enqueuing := False\<rparr>)"
| all_sent: "enqueuing p \<Longrightarrow> unsent p = [] \<Longrightarrow> parallel_step p (p\<lparr>enqueuing := False, stopped := True\<rparr>)"
| worker_stopped: "stopped p \<Longrightarrow> length (running p) < liveWorkers p \<Longrightarrow>
     parallel_step p (p\<lparr>liveWorkers := liveWorkers p - 1\<rparr>)"

inductive_cases parallel_stepE: "parallel_step p p'"

text \<open>\<open>wg.Wait()\<close> has returned and the enqueuing loop has ended.\<close>

definition parallel_finished :: "parallel_run \<Rightarrow> bool" where
  "parallel_finished p \<longleftrightarrow> \<not> enqueuing p \<and> liveWorkers p = 0 \<and> running p = []"

text \<open>The result of the command: no error, or the ledger from which the user is told to restart.\<close>

definition recommended_restart :: "parallel_run \<Rightarrow> u32 option" where
  "recommended_restart p = map_option StartSequence (lowestRangeErr p)"

definition parallel_inv :: "ledgerRange list \<Rightarrow> parallel_run \<Rightarrow> bool" where
  "parallel_inv jobs p \<longleftrightarrow> (\<exists>sent. jobs = sent @ unsent p \<and>
     mset sent = mset (running p) + mset (succeeded p) + mset (failed p)) \<and>
     length (running p) \<le> liveWorkers p \<and>
     (case lowestRangeErr p of
        None \<Rightarrow> failed p = [] \<and> (enqueuing p \<or> unsent p = [])
      | Some l \<Rightarrow> l \<in> set (failed p) \<and> (\<forall>j \<in> set (failed p). StartSequence l \<le> StartSequence j)) \<and>
     (stopped p \<longrightarrow> failed p \<noteq> [] \<or> unsent p = []) \<and> (liveWorkers p = 0 \<or> \<not> enqueuing p \<longrightarrow> stopped p)"

lemma parallel_inv_start: "0 < w \<Longrightarrow> parallel_inv jobs (parallel_start w jobs)"
  by (simp add: parallel_inv_def parallel_start_def)

lemma parallel_inv_step:
  assumes "parallel_step p p'" and "parallel_inv jobs p"
  shows "parallel_inv jobs p'"
  using assms
proof (induction rule: parallel_step.induct)
  case (job_sent p j js)
  then obtain sent where "jobs = (sent @ [j]) @ js" "mset (sent @ [j]) = mset (running p @ [j]) + mset (succeeded p) + mset (failed p)"
    by (auto simp: parallel_inv_def)
  with job_sent show ?case unfolding parallel_inv_def by (auto split: option.splits)
next
  case (job_failed p xs j ys)
  then have "case record_error j (lowestRangeErr p) of None \<Rightarrow> False
     | Some l \<Rightarrow> l \<in> set (failed p @ [j]) \<and> (\<forall>k \<in> set (failed p @ [j]). StartSequence l \<le> StartSequence k)"
    by (auto simp: parallel_inv_def record_error_def not_less split: option.splits dest: order.strict_trans2)
  moreover have "\<exists>sent. jobs = sent @ unsent p \<and> mset sent = mset (xs @ ys) + mset (succeeded p) + mset (failed p @ [j])"
    using job_failed by (auto simp: parallel_inv_def)
  moreover have "length (xs @ ys) \<le> liveWorkers p - 1" using job_failed by (auto simp: parallel_inv_def)
  ultimately show ?case unfolding parallel_inv_def by (simp split: option.splits)
qed (auto simp: parallel_inv_def split: option.splits)

lemma parallel_inv_reachable:
  "parallel_step\<^sup>*\<^sup>* (parallel_start w jobs) p \<Longrightarrow> 0 < w \<Longrightarrow> parallel_inv jobs p"
  by (induction rule: rtranclp_induct) (auto intro: parallel_inv_start parallel_inv_step)

lemma parallel_progress:
  assumes "parallel_inv jobs p" and "\<not> parallel_finished p"
  shows "\<exists>p'. parallel_step p p'"
proof (cases "running p")
  case (Cons j js)
  then show ?thesis using job_done [of p "[]"] by auto
next
  case idle: Nil
  show ?thesis
  proof (cases "enqueuing p")
    case True
    show ?thesis
    proof (cases "unsent p")
      case Nil
      with True show ?thesis using all_sent by blast
    next
      case (Cons j js)
      show ?thesis
      proof (cases "liveWorkers p")
        case 0
        with assms(1) True show ?thesis using enqueue_stopped by (auto simp: parallel_inv_def)
      next
        case (Suc n)
        with True Cons idle show ?thesis using job_sent [of p j js] by auto
      qed
    qed
  next
    case False
    then have "stopped p" "0 < liveWorkers p" using assms idle by (auto simp: parallel_inv_def parallel_finished_def)
    with idle show ?thesis using worker_stopped [of p] by auto
  qed
qed

text \<open>
  C33. The recommended restart range is safe: the workers of a parallel reingestion never deadlock, and
  when they are done, either no error was recorded and every job succeeded exactly once, or the ledger
  the user is told to restart from is the start of a failed job and every job that starts before it has
  succeeded, so that no ledger below it that was to be reingested is missing. This holds for every
  number of workers and every interleaving of their successes and failures.
\<close>

theorem parallel_restart_sound:
  assumes "parallel_step\<^sup>*\<^sup>* (parallel_start w jobs) p" and "0 < w"
    and "sorted_wrt (\<lambda>j k. EndSequence j < StartSequence k) jobs" and "\<forall>j \<in> set jobs. StartSequence j \<le> EndSequence j"
  shows "(parallel_finished p \<or> (\<exists>p'. parallel_step p p')) \<and>
    (parallel_finished p \<longrightarrow>
       (case recommended_restart p of
          None \<Rightarrow> mset (succeeded p) = mset jobs
        | Some q \<Rightarrow> (\<exists>j \<in> set (failed p). StartSequence j = q) \<and>
            (\<forall>j \<in> set jobs. StartSequence j < q \<longrightarrow> j \<in> set (succeeded p))))"
proof (intro conjI impI)
  note inv = parallel_inv_reachable [OF assms(1,2)]
  show "parallel_finished p \<or> (\<exists>p'. parallel_step p p')" using parallel_progress [OF inv] by blast
  assume fin: "parallel_finished p"
  obtain sent where sent: "jobs = sent @ unsent p" "mset sent = mset (succeeded p) + mset (failed p)"
    using inv fin by (auto simp: parallel_inv_def parallel_finished_def)
  show "case recommended_restart p of
          None \<Rightarrow> mset (succeeded p) = mset jobs
        | Some q \<Rightarrow> (\<exists>j \<in> set (failed p). StartSequence j = q) \<and>
            (\<forall>j \<in> set jobs. StartSequence j < q \<longrightarrow> j \<in> set (succeeded p))"
  proof (cases "lowestRangeErr p")
    case None
    with inv fin sent show ?thesis by (auto simp: parallel_inv_def parallel_finished_def recommended_restart_def)
  next
    case (Some l)
    have l: "l \<in> set (failed p)" and low: "\<forall>j \<in> set (failed p). StartSequence l \<le> StartSequence j"
      using inv Some by (auto simp: parallel_inv_def)
    have set_sent: "set sent = set (succeeded p) \<union> set (failed p)"
      using arg_cong [OF sent(2), of set_mset] by simp
    have "j \<in> set (succeeded p)" if "j \<in> set jobs" "StartSequence j < StartSequence l" for j
    proof -
      have "j \<notin> set (unsent p)"
      proof
        assume "j \<in> set (unsent p)"
        then have "EndSequence l < StartSequence j" using assms(3) l set_sent unfolding sent(1) by (auto simp: sorted_wrt_append)
        moreover have "StartSequence l \<le> EndSequence l" using assms(4) l set_sent unfolding sent(1) by auto
        ultimately show False using that(2) by simp
      qed
      then have "j \<in> set sent" using that(1) sent(1) by auto
      moreover have "j \<notin> set (failed p)" using low that(2) by (auto simp: not_le)
      ultimately show ?thesis using set_sent by blast
    qed
    with Some l show ?thesis by (auto simp: recommended_restart_def)
  qed
qed

definition demo_jobs :: "ledgerRange list" where
  "demo_jobs = [\<lparr>StartSequence = 1, EndSequence = 64\<rparr>, \<lparr>StartSequence = 65, EndSequence = 128\<rparr>]"

lemma demo_parallel_run:
  "\<exists>p. parallel_step\<^sup>*\<^sup>* (parallel_start 1 demo_jobs) p \<and> parallel_finished p \<and> recommended_restart p = Some 65"
proof -
  let ?j = "\<lparr>StartSequence = 1, EndSequence = 64\<rparr>" and ?k = "\<lparr>StartSequence = 65, EndSequence = 128\<rparr>"
  let ?p = "\<lparr>unsent = [], running = [], succeeded = [?j], failed = [?k], liveWorkers = 0, stopped = True,
    enqueuing = False, lowestRangeErr = Some ?k\<rparr>"
  have 1: "parallel_step (parallel_start 1 demo_jobs) ((parallel_start 1 demo_jobs)\<lparr>unsent := [?k], running := [?j]\<rparr>)"
    using job_sent [of "parallel_start 1 demo_jobs" ?j "[?k]"] by (simp add: parallel_start_def demo_jobs_def)
  have 2: "parallel_step ((parallel_start 1 demo_jobs)\<lparr>unsent := [?k], running := [?j]\<rparr>)
      ((parallel_start 1 demo_jobs)\<lparr>unsent := [?k], succeeded := [?j]\<rparr>)"
    using job_done [of "(parallel_start 1 demo_jobs)\<lparr>unsent := [?k], running := [?j]\<rparr>" "[]" ?j "[]"]
    by (simp add: parallel_start_def)
  have 3: "parallel_step ((parallel_start 1 demo_jobs)\<lparr>unsent := [?k], succeeded := [?j]\<rparr>)
      ((parallel_start 1 demo_jobs)\<lparr>unsent := [], running := [?k], succeeded := [?j]\<rparr>)"
    using job_sent [of "(parallel_start 1 demo_jobs)\<lparr>unsent := [?k], succeeded := [?j]\<rparr>" ?k "[]"]
    by (simp add: parallel_start_def)
  have 4: "parallel_step ((parallel_start 1 demo_jobs)\<lparr>unsent := [], running := [?k], succeeded := [?j]\<rparr>)
      (?p\<lparr>enqueuing := True\<rparr>)"
    using job_failed [of "(parallel_start 1 demo_jobs)\<lparr>unsent := [], running := [?k], succeeded := [?j]\<rparr>" "[]" ?k "[]"]
    by (simp add: parallel_start_def record_error_def)
  have 5: "parallel_step (?p\<lparr>enqueuing := True\<rparr>) ?p"
    using enqueue_stopped [of "?p\<lparr>enqueuing := True\<rparr>"] by simp
  have "parallel_step\<^sup>*\<^sup>* (parallel_start 1 demo_jobs) ?p"
    using 1 2 3 4 5 by (meson converse_rtranclp_into_rtranclp rtranclp.rtrancl_refl)
  then show ?thesis by (intro exI [of _ ?p]) (simp add: parallel_finished_def recommended_restart_def)
qed

theorem parallel_restart_sound_witness:
  "\<exists>p. parallel_step\<^sup>*\<^sup>* (parallel_start 1 demo_jobs) p \<and> parallel_finished p \<and> recommended_restart p = Some 65 \<and>
     \<lparr>StartSequence = 1, EndSequence = 64\<rparr> \<in> set (succeeded p)"
proof -
  obtain p where p: "parallel_step\<^sup>*\<^sup>* (parallel_start 1 demo_jobs) p" "parallel_finished p" "recommended_restart p = Some 65"
    using demo_parallel_run by blast
  with parallel_restart_sound [OF p(1)] show ?thesis by (auto simp: demo_jobs_def)
qed

text \<open>
  C35. The batch size of a parallel reingestion, for every configuration that \<open>newParallelSystems\<close> accepts with worker count, minimum and maximum below 2^32: it is computed without a division by zero and is a
  positive multiple of the checkpoint interval of 64 ledgers. It is short of the minimum by less than 64, it is at most the maximum or 64, whichever is greater, and it is at most the greatest of the minimum, 64 and
  the share of a worker, the size of the range divided by the number of workers. Unless the maximum is below that share, it is short of the share by less than 64.
\<close>

theorem batch_size_checkpoint_aligned:
  fixes rangeSize :: u32
  assumes "newParallelSystems w mn mx = Inr ps" and "w < 2 ^ 32" "mn < 2 ^ 32" "mx < 2 ^ 32"
  defines "share \<equiv> unat rangeSize div unat w"
  shows "\<exists>b. calculateParallelLedgerBatchSize ps rangeSize = Some b \<and> 64 dvd unat b \<and> 64 \<le> unat b \<and> unat mn < unat b + 64 \<and>
    (mx \<noteq> 0 \<longrightarrow> unat b \<le> max 64 (unat mx)) \<and> unat b \<le> max 64 (max (unat mn) share) \<and> (mx = 0 \<or> share \<le> unat mx \<longrightarrow> share < unat b + 64)"
proof -
  have ps: "ps = \<lparr>workerCount = w, minBatchSize = mn, maxBatchSize = mx\<rparr>" and w0: "w \<noteq> 0" and mm: "mx \<noteq> 0 \<Longrightarrow> unat mn \<le> unat mx"
    using assms(1) by (auto simp: newParallelSystems_def word_less_nat_alt split: if_splits)
  have low: "unat (ucast x :: u32) = unat x" if "x < 2 ^ 32" for x :: u64
    using that by (simp add: unsigned_ucast_eq take_bit_eq_mod word_less_nat_alt)
  note low = low [OF assms(2)] low [OF assms(3)] low [OF assms(4)]
  have cw: "(ucast w :: u32) \<noteq> 0" using low(1) w0 by (metis unat_eq_0)
  define b1 :: u32 where "b1 = (if 0 < mn then max (rangeSize div ucast w) (ucast mn) else rangeSize div ucast w)"
  define b2 where "b2 = (if 0 < mx then min b1 (ucast mx) else b1)"
  have "unat (rangeSize div ucast w) = share" using low(1) by (simp add: unat_div share_def)
  then have u1: "unat b1 = max share (unat mn)" using low(2) by (auto simp: b1_def max_def word_le_nat_alt word_gt_0)
  have u2: "unat b2 = (if mx = 0 then unat b1 else min (unat b1) (unat mx))" using low(3) by (auto simp: b2_def min_def word_le_nat_alt word_gt_0)
  have res: "calculateParallelLedgerBatchSize ps rangeSize = Some (if 64 < b2 then b2 div 64 * 64 else 64)"
    using cw by (auto simp: calculateParallelLedgerBatchSize_def ps Let_def b1_def b2_def HistoryCheckpointLedgerInterval_def)
  have "unat b2 < 2 ^ 32" using unsigned_less [of b2] by simp
  then have "unat b2 div 64 * 64 < 2 ^ 32" by (meson div_times_less_eq_dividend le_less_trans)
  then have r: "unat (b2 div 64 * 64) = unat b2 div 64 * 64" using unat_mult_lem [of "b2 div 64" 64] by (simp add: unat_div)
  define bsize :: u32 where "bsize = (if 64 < b2 then b2 div 64 * 64 else 64)"
  define b :: nat where "b = (if 64 < unat b2 then unat b2 div 64 * 64 else 64)"
  have ub: "unat bsize = b" using r by (simp add: b_def bsize_def word_less_nat_alt)
  have "64 dvd b" "64 \<le> b" "unat b2 < b + 64" "b \<le> max 64 (unat b2)"
    using mod_less_divisor [of 64 "unat b2"] div_mult_mod_eq [of "unat b2" 64] by (auto simp: b_def)
  moreover have "unat mn \<le> unat b2" "unat b2 \<le> max (unat mn) share" "mx \<noteq> 0 \<Longrightarrow> unat b2 \<le> unat mx" "mx = 0 \<or> share \<le> unat mx \<Longrightarrow> share \<le> unat b2"
    using u1 u2 mm by auto
  ultimately show ?thesis using res by (intro exI [of _ bsize]) (auto simp: ub bsize_def [symmetric] max_def split: if_splits)
qed

text \<open>With a minimum of 100 and a small range the batch has 64 ledgers.\<close>

theorem batch_size_checkpoint_aligned_witness:
  "\<exists>b. calculateParallelLedgerBatchSize \<lparr>workerCount = 3, minBatchSize = 100, maxBatchSize = 200\<rparr> 90 = Some b \<and>
     64 dvd unat b \<and> 64 \<le> unat b \<and> 100 < unat b + 64 \<and> unat b \<le> 100"
  using batch_size_checkpoint_aligned [of 3 100 200 "\<lparr>workerCount = 3, minBatchSize = 100, maxBatchSize = 200\<rparr>" 90]
  by (auto simp: newParallelSystems_def HistoryCheckpointLedgerInterval_def)

end
