(* ===== verification/Submission_List.thy ===== *)
theory Submission_List
  imports Prelude "HOL-Library.AList"
begin

text \<open>
  The list of open submissions (\<open>internal/txsub/open_submission_list.go\<close>, with the types of
  \<open>internal/txsub/main.go\<close> and \<open>errors.go\<close>). A listener is a Go channel: an address in a store of
  channels, each with its capacity, the values it buffers and whether it has been closed. Sending on a
  closed channel, closing a closed or nil channel and adding an unbuffered listener panic; a send on a
  channel whose buffer is full (or on a nil channel) blocks forever, with the lock of the list held. All
  of these are values of \<open>chan_fault\<close>. The map of submissions is an association list with distinct keys;
  the order in which a loop over the map visits it is an argument of the operation.
\<close>

subsection \<open>Channels\<close>

record 'r channel =
  chanCap :: nat
  chanBuf :: "'r list"
  chanClosed :: bool

type_synonym 'r chans = "nat \<Rightarrow> 'r channel option"

datatype chan_fault = SendOnClosed | SendBlocks | CloseOfClosed | CloseOfNil | UnbufferedListener

definition chan_make :: "nat \<Rightarrow> 'r channel" where
  "chan_make n = \<lparr>chanCap = n, chanBuf = [], chanClosed = False\<rparr>"

definition chan_send :: "nat \<Rightarrow> 'r \<Rightarrow> 'r chans \<Rightarrow> chan_fault + 'r chans" where
  "chan_send l r cs = (case cs l of
       None \<Rightarrow> Inl SendBlocks
     | Some c \<Rightarrow> if chanClosed c then Inl SendOnClosed
                 else if length (chanBuf c) < chanCap c then Inr (cs(l \<mapsto> c\<lparr>chanBuf := chanBuf c @ [r]\<rparr>))
                 else Inl SendBlocks)"

definition chan_close :: "nat \<Rightarrow> 'r chans \<Rightarrow> chan_fault + 'r chans" where
  "chan_close l cs = (case cs l of
       None \<Rightarrow> Inl CloseOfNil
     | Some c \<Rightarrow> if chanClosed c then Inl CloseOfClosed else Inr (cs(l \<mapsto> c\<lparr>chanClosed := True\<rparr>)))"

text \<open>The loop \<open>for _, l := range os.Listeners { l <- r; close(l) }\<close>.\<close>

fun deliver :: "nat list \<Rightarrow> 'r \<Rightarrow> 'r chans \<Rightarrow> chan_fault + 'r chans" where
  "deliver [] r cs = Inr cs"
| "deliver (l # ls) r cs =
     (case chan_send l r cs of
        Inl f \<Rightarrow> Inl f
      | Inr cs1 \<Rightarrow> (case chan_close l cs1 of
                      Inl f \<Rightarrow> Inl f
                    | Inr cs2 \<Rightarrow> deliver ls r cs2))"

subsection \<open>Results\<close>

text \<open>
  The errors of the package: the sentinel errors, the rejection of a transaction with the result and
  diagnostic events of stellar-core, and any other error, as a message with the error it wraps.
\<close>

datatype txsub_error =
    ErrNoResults | ErrCanceled | ErrTimeout
  | FailedTransactionError string string
  | OtherError string string

definition ErrBadSequence :: txsub_error where
  "ErrBadSequence = FailedTransactionError ''AAAAAAAAAAD////7AAAAAA=='' ''''"

text \<open>The columns of a history transaction that the package reads; \<open>no_transaction\<close> is the zero value.\<close>

record HistoryTransaction =
  TransactionHash :: string
  InnerTransactionHash :: "string option"
  TxResult :: string

definition no_transaction :: HistoryTransaction where
  "no_transaction = \<lparr>TransactionHash = '''', InnerTransactionHash = None, TxResult = ''''\<rparr>"

record Result =
  Err :: "txsub_error option"
  Transaction :: HistoryTransaction

definition timeout_result :: Result where
  "timeout_result = \<lparr>Err = Some ErrTimeout, Transaction = no_transaction\<rparr>"

subsection \<open>The list\<close>

record openSubmission =
  Hash :: string
  SubmittedAt :: int
  Listeners :: "nat list"

record submissionList =
  submissions :: "(string \<times> openSubmission) list"
  chans :: "Result chans"

definition Add :: "string \<Rightarrow> nat \<Rightarrow> int \<Rightarrow> submissionList \<Rightarrow> chan_fault + submissionList" where
  "Add hash l now s =
     (if (case chans s l of None \<Rightarrow> 0 | Some c \<Rightarrow> chanCap c) = 0 then Inl UnbufferedListener
      else let os = (case map_of (submissions s) hash of
                       None \<Rightarrow> \<lparr>Hash = hash, SubmittedAt = now, Listeners = []\<rparr>
                     | Some os \<Rightarrow> os) in
           Inr (s\<lparr>submissions := AList.update hash (os\<lparr>Listeners := Listeners os @ [l]\<rparr>) (submissions s)\<rparr>))"

definition Finish :: "string \<Rightarrow> Result \<Rightarrow> submissionList \<Rightarrow> chan_fault + submissionList" where
  "Finish hash r s = (case map_of (submissions s) hash of
       None \<Rightarrow> Inr s
     | Some os \<Rightarrow> (case deliver (Listeners os) r (chans s) of
           Inl f \<Rightarrow> Inl f
         | Inr cs \<Rightarrow> Inr (s\<lparr>submissions := AList.delete hash (submissions s), chans := cs\<rparr>)))"

text \<open>\<open>now h\<close> is the clock when the loop visits the submission of \<open>h\<close>.\<close>

fun Clean_loop :: "int \<Rightarrow> (string \<Rightarrow> int) \<Rightarrow> string list \<Rightarrow> submissionList \<Rightarrow> chan_fault + submissionList" where
  "Clean_loop maxAge now [] s = Inr s"
| "Clean_loop maxAge now (h # hs) s = (case map_of (submissions s) h of
       None \<Rightarrow> Clean_loop maxAge now hs s
     | Some os \<Rightarrow>
         if now h - SubmittedAt os > maxAge then
           (let s1 = s\<lparr>submissions := AList.delete (Hash os) (submissions s)\<rparr> in
            case deliver (Listeners os) timeout_result (chans s1) of
              Inl f \<Rightarrow> Inl f
            | Inr cs \<Rightarrow> Clean_loop maxAge now hs (s1\<lparr>chans := cs\<rparr>))
         else Clean_loop maxAge now hs s)"

definition Clean :: "int \<Rightarrow> string list \<Rightarrow> (string \<Rightarrow> int) \<Rightarrow> submissionList \<Rightarrow> chan_fault + nat \<times> submissionList" where
  "Clean maxAge order now s = (case Clean_loop maxAge now order s of
       Inl f \<Rightarrow> Inl f
     | Inr s' \<Rightarrow> Inr (length (submissions s'), s'))"

definition Pending :: "string list \<Rightarrow> submissionList \<Rightarrow> string list" where
  "Pending order s = filter (\<lambda>h. map_of (submissions s) h \<noteq> None) order"

definition NewDefaultSubmissionList :: "Result chans \<Rightarrow> submissionList" where
  "NewDefaultSubmissionList cs = \<lparr>submissions = [], chans = cs\<rparr>"

subsection \<open>What an open submission list promises\<close>

text \<open>
  The waiting listeners of a hash, with the time of its first submission. A set of answers \<open>ans\<close> settles
  the submissions it names: each of their listeners is closed with that one result in its buffer, every
  other channel is as it was, and the other submissions are still waiting.
\<close>

type_synonym waiting = "string \<Rightarrow> (int \<times> nat list) option"

definition open_chan :: "'r channel option \<Rightarrow> bool" where
  "open_chan c \<longleftrightarrow> (\<exists>n>0. c = Some (chan_make n))"

definition answered :: "'r \<Rightarrow> 'r channel option \<Rightarrow> 'r channel option" where
  "answered r = map_option (\<lambda>c. c\<lparr>chanBuf := [r], chanClosed := True\<rparr>)"

definition unresolved :: "(string \<Rightarrow> 'r option) \<Rightarrow> waiting \<Rightarrow> waiting" where
  "unresolved ans w = (\<lambda>h. if ans h = None then w h else None)"

definition settles :: "(string \<Rightarrow> 'r option) \<Rightarrow> waiting \<Rightarrow> 'r chans \<Rightarrow> 'r chans \<Rightarrow> bool" where
  "settles ans w cs cs' \<longleftrightarrow>
     (\<forall>h t ls l. w h = Some (t, ls) \<longrightarrow> l \<in> set ls \<longrightarrow>
        cs' l = (case ans h of None \<Rightarrow> cs l | Some r \<Rightarrow> answered r (cs l))) \<and>
     (\<forall>l. (\<forall>h t ls. w h = Some (t, ls) \<longrightarrow> l \<notin> set ls) \<longrightarrow> cs' l = cs l)"

definition well_waiting :: "waiting \<Rightarrow> 'r chans \<Rightarrow> bool" where
  "well_waiting w cs \<longleftrightarrow>
     (\<forall>h t ls. w h = Some (t, ls) \<longrightarrow> ls \<noteq> [] \<and> distinct ls \<and> (\<forall>l\<in>set ls. open_chan (cs l))) \<and>
     (\<forall>h h' t t' ls ls' l. w h = Some (t, ls) \<longrightarrow> w h' = Some (t', ls') \<longrightarrow> l \<in> set ls \<longrightarrow> l \<in> set ls' \<longrightarrow> h = h')"

definition expired :: "int \<Rightarrow> (string \<Rightarrow> int) \<Rightarrow> waiting \<Rightarrow> string \<Rightarrow> Result option" where
  "expired maxAge now w h = (case w h of
       None \<Rightarrow> None
     | Some (t, ls) \<Rightarrow> if now h - t > maxAge then Some timeout_result else None)"

locale open_submission_list =
  fixes inv :: "'s \<Rightarrow> bool"
    and waiting :: "'s \<Rightarrow> waiting"
    and channels :: "'s \<Rightarrow> Result chans"
    and add :: "string \<Rightarrow> nat \<Rightarrow> int \<Rightarrow> 's \<Rightarrow> chan_fault + 's"
    and finish :: "string \<Rightarrow> Result \<Rightarrow> 's \<Rightarrow> chan_fault + 's"
    and clean :: "int \<Rightarrow> string list \<Rightarrow> (string \<Rightarrow> int) \<Rightarrow> 's \<Rightarrow> chan_fault + nat \<times> 's"
    and pending :: "string list \<Rightarrow> 's \<Rightarrow> string list"
  assumes inv_waiting: "inv s \<Longrightarrow> well_waiting (waiting s) (channels s) \<and> finite (dom (waiting s))"
    and add_law: "inv s \<Longrightarrow> open_chan (channels s l) \<Longrightarrow>
      (\<And>h t ls. waiting s h = Some (t, ls) \<Longrightarrow> l \<notin> set ls) \<Longrightarrow>
      \<exists>s'. add h l now s = Inr s' \<and> inv s' \<and> channels s' = channels s \<and>
        waiting s' = (waiting s)(h \<mapsto> (case waiting s h of None \<Rightarrow> (now, [l]) | Some (t, ls) \<Rightarrow> (t, ls @ [l])))"
    and finish_law: "inv s \<Longrightarrow> \<exists>s'. finish h r s = Inr s' \<and> inv s' \<and>
        waiting s' = unresolved [h \<mapsto> r] (waiting s) \<and>
        settles [h \<mapsto> r] (waiting s) (channels s) (channels s')"
    and clean_law: "inv s \<Longrightarrow> dom (waiting s) \<subseteq> set order \<Longrightarrow>
      \<exists>s'. clean maxAge order clock s = Inr (card (dom (waiting s')), s') \<and> inv s' \<and>
        waiting s' = unresolved (expired maxAge clock (waiting s)) (waiting s) \<and>
        settles (expired maxAge clock (waiting s)) (waiting s) (channels s) (channels s')"
    and pending_law: "inv s \<Longrightarrow> dom (waiting s) \<subseteq> set order \<Longrightarrow> set (pending order s) = dom (waiting s)"

subsection \<open>Settling\<close>

lemma settles_waiting:
  "settles ans w cs cs' \<Longrightarrow> w h = Some (t, ls) \<Longrightarrow> l \<in> set ls \<Longrightarrow>
     cs' l = (case ans h of None \<Rightarrow> cs l | Some r \<Rightarrow> answered r (cs l))"
  by (auto simp: settles_def)

lemma settles_other:
  "settles ans w cs cs' \<Longrightarrow> (\<And>h t ls. w h = Some (t, ls) \<Longrightarrow> l \<notin> set ls) \<Longrightarrow> cs' l = cs l"
  unfolding settles_def by blast

lemma settlesI:
  assumes "\<And>h t ls l. w h = Some (t, ls) \<Longrightarrow> l \<in> set ls \<Longrightarrow>
      cs' l = (case ans h of None \<Rightarrow> cs l | Some r \<Rightarrow> answered r (cs l))"
    and "\<And>l. (\<And>h t ls. w h = Some (t, ls) \<Longrightarrow> l \<notin> set ls) \<Longrightarrow> cs' l = cs l"
  shows "settles ans w cs cs'"
  using assms unfolding settles_def by blast

lemma unresolved_Some: "unresolved ans w h = Some x \<longleftrightarrow> ans h = None \<and> w h = Some x"
  by (simp add: unresolved_def)

lemma unresolved_comp: "unresolved b (unresolved a w) = unresolved (b ++ a) w"
  by (auto simp: unresolved_def fun_eq_iff map_add_def split: option.splits)

lemma unresolved_empty [simp]: "unresolved Map.empty w = w"
  by (simp add: unresolved_def)

lemma settles_refl [simp]: "settles Map.empty w cs cs"
  by (auto intro: settlesI)

lemma well_waitingD:
  assumes "well_waiting w cs" "w h = Some (t, ls)"
  shows "ls \<noteq> []" "distinct ls" "l \<in> set ls \<Longrightarrow> open_chan (cs l)"
    "w h' = Some (t', ls') \<Longrightarrow> l \<in> set ls \<Longrightarrow> l \<in> set ls' \<Longrightarrow> h = h'"
  using assms unfolding well_waiting_def by blast+

lemma well_waitingI:
  assumes "\<And>h t ls. w h = Some (t, ls) \<Longrightarrow> ls \<noteq> [] \<and> distinct ls \<and> (\<forall>l\<in>set ls. open_chan (cs l))"
    and "\<And>h h' t t' ls ls' l. w h = Some (t, ls) \<Longrightarrow> w h' = Some (t', ls') \<Longrightarrow> l \<in> set ls \<Longrightarrow> l \<in> set ls' \<Longrightarrow> h = h'"
  shows "well_waiting w cs"
  using assms unfolding well_waiting_def by blast

lemma settles_comp:
  assumes w: "well_waiting w cs"
    and a: "settles a w cs cs1" and b: "settles b (unresolved a w) cs1 cs2"
  shows "settles (b ++ a) w cs cs2"
proof (rule settlesI)
  fix h t ls l assume h: "w h = Some (t, ls)" "l \<in> set ls"
  note cs1 = settles_waiting [OF a h]
  show "cs2 l = (case (b ++ a) h of None \<Rightarrow> cs l | Some r \<Rightarrow> answered r (cs l))"
  proof (cases "a h")
    case None
    then have "unresolved a w h = Some (t, ls)" using h by (simp add: unresolved_Some)
    from settles_waiting [OF b this h(2)] cs1 None show ?thesis
      by (simp add: map_add_def split: option.split)
  next
    case (Some r)
    have "cs2 l = cs1 l"
    proof (rule settles_other [OF b])
      fix h' t' ls' assume h': "unresolved a w h' = Some (t', ls')"
      show "l \<notin> set ls'"
      proof
        assume "l \<in> set ls'"
        moreover have "w h' = Some (t', ls')" using h' by (simp add: unresolved_Some)
        ultimately have "h = h'" using well_waitingD(4) [OF w h(1) _ h(2)] by blast
        with h' Some show False by (simp add: unresolved_Some)
      qed
    qed
    with cs1 Some show ?thesis by simp
  qed
next
  fix l assume l: "\<And>h t ls. w h = Some (t, ls) \<Longrightarrow> l \<notin> set ls"
  then have "cs1 l = cs l" by (rule settles_other [OF a])
  moreover have "cs2 l = cs1 l" by (rule settles_other [OF b]) (auto simp: unresolved_Some l)
  ultimately show "cs2 l = cs l" by simp
qed

lemma well_waiting_settled:
  assumes w: "well_waiting w cs" and s: "settles ans w cs cs'"
  shows "well_waiting (unresolved ans w) cs'"
proof (rule well_waitingI)
  fix h t ls assume h: "unresolved ans w h = Some (t, ls)"
  then have h': "w h = Some (t, ls)" "ans h = None" by (simp_all add: unresolved_Some)
  have "open_chan (cs' l)" if "l \<in> set ls" for l
    using settles_waiting [OF s h'(1) that] well_waitingD(3) [OF w h'(1) that] h'(2) by simp
  then show "ls \<noteq> [] \<and> distinct ls \<and> (\<forall>l\<in>set ls. open_chan (cs' l))"
    using well_waitingD(1,2) [OF w h'(1)] by blast
next
  fix h h' t t' ls ls' l
  assume "unresolved ans w h = Some (t, ls)" "unresolved ans w h' = Some (t', ls')" "l \<in> set ls" "l \<in> set ls'"
  then show "h = h'" using well_waitingD(4) [OF w] by (simp add: unresolved_Some)
qed

subsection \<open>The list keeps its promise\<close>

definition waitingOf :: "submissionList \<Rightarrow> waiting" where
  "waitingOf s h = map_option (\<lambda>os. (SubmittedAt os, Listeners os)) (map_of (submissions s) h)"

definition list_inv :: "submissionList \<Rightarrow> bool" where
  "list_inv s \<longleftrightarrow> distinct (map fst (submissions s)) \<and>
     (\<forall>h os. map_of (submissions s) h = Some os \<longrightarrow> Hash os = h) \<and>
     well_waiting (waitingOf s) (chans s)"

lemma list_invD:
  assumes "list_inv s"
  shows "distinct (map fst (submissions s))" "map_of (submissions s) h = Some os \<Longrightarrow> Hash os = h"
    "well_waiting (waitingOf s) (chans s)"
  using assms by (simp_all add: list_inv_def)

lemma waitingOf_Some:
  "waitingOf s h = Some (t, ls) \<longleftrightarrow>
     (\<exists>os. map_of (submissions s) h = Some os \<and> SubmittedAt os = t \<and> Listeners os = ls)"
  by (auto simp: waitingOf_def)

lemma waitingOf_None: "waitingOf s h = None \<longleftrightarrow> map_of (submissions s) h = None"
  by (simp add: waitingOf_def)

lemma dom_waitingOf: "dom (waitingOf s) = fst ` set (submissions s)"
  by (auto simp: dom_def waitingOf_def map_of_eq_None_iff)

lemma card_waitingOf: "list_inv s \<Longrightarrow> card (dom (waitingOf s)) = length (submissions s)"
  using distinct_card [of "map fst (submissions s)"] by (simp add: dom_waitingOf list_inv_def)

lemma deliver_open:
  assumes "distinct ls" "\<And>l. l \<in> set ls \<Longrightarrow> open_chan (cs l)"
  shows "deliver ls r cs = Inr (\<lambda>l. if l \<in> set ls then answered r (cs l) else cs l)"
  using assms
proof (induction ls arbitrary: cs)
  case (Cons l ls)
  obtain n where n: "0 < n" "cs l = Some (chan_make n)"
    using Cons.prems(2) by (force simp: open_chan_def)
  let ?cs = "cs(l := answered r (cs l))"
  have "deliver (l # ls) r cs = deliver ls r ?cs"
    using n by (simp add: chan_send_def chan_close_def chan_make_def answered_def)
  also have "\<dots> = Inr (\<lambda>k. if k \<in> set ls then answered r (?cs k) else ?cs k)"
    using Cons.prems by (intro Cons.IH) auto
  also have "\<dots> = Inr (\<lambda>k. if k \<in> set (l # ls) then answered r (cs k) else cs k)"
    using Cons.prems(1) by (auto simp: fun_eq_iff)
  finally show ?case .
qed simp

text \<open>Removing a submission and answering its listeners, which both \<open>Finish\<close> and \<open>Clean\<close> do.\<close>

lemma remove_and_answer:
  assumes inv: "list_inv s" and os: "map_of (submissions s) h = Some os"
  shows "\<exists>cs. deliver (Listeners os) r (chans s) = Inr cs \<and>
    (let s' = s\<lparr>submissions := AList.delete h (submissions s), chans := cs\<rparr> in
     list_inv s' \<and> waitingOf s' = unresolved [h \<mapsto> r] (waitingOf s) \<and>
     settles [h \<mapsto> r] (waitingOf s) (chans s) (chans s'))"
proof -
  let ?cs = "\<lambda>l. if l \<in> set (Listeners os) then answered r (chans s l) else chans s l"
  let ?s = "s\<lparr>submissions := AList.delete h (submissions s), chans := ?cs\<rparr>"
  note w = list_invD(3) [OF inv]
  have wh: "waitingOf s h = Some (SubmittedAt os, Listeners os)" using os by (simp add: waitingOf_Some)
  have d: "deliver (Listeners os) r (chans s) = Inr ?cs"
    using well_waitingD(2,3) [OF w wh] by (rule deliver_open)
  have ws: "waitingOf ?s = unresolved [h \<mapsto> r] (waitingOf s)"
    by (auto simp: waitingOf_def unresolved_def fun_eq_iff delete_conv)
  have st: "settles [h \<mapsto> r] (waitingOf s) (chans s) ?cs"
  proof (rule settlesI)
    fix h' t ls l assume a: "waitingOf s h' = Some (t, ls)" "l \<in> set ls"
    show "?cs l = (case [h \<mapsto> r] h' of None \<Rightarrow> chans s l | Some r \<Rightarrow> answered r (chans s l))"
      using well_waitingD(4) [OF w a(1) wh a(2)] a wh by auto
  next
    fix l assume "\<And>h t ls. waitingOf s h = Some (t, ls) \<Longrightarrow> l \<notin> set ls"
    from this [OF wh] show "?cs l = chans s l" by simp
  qed
  have "list_inv ?s"
    using list_invD(1,2) [OF inv] well_waiting_settled [OF w st] ws
    by (auto simp: list_inv_def distinct_delete delete_conv split: if_splits)
  with d ws st show ?thesis by (intro exI [of _ ?cs]) (simp add: Let_def)
qed

lemma Finish_law:
  assumes "list_inv s"
  shows "\<exists>s'. Finish h r s = Inr s' \<and> list_inv s' \<and> waitingOf s' = unresolved [h \<mapsto> r] (waitingOf s) \<and>
    settles [h \<mapsto> r] (waitingOf s) (chans s) (chans s')"
proof (cases "map_of (submissions s) h")
  case None
  then have n: "waitingOf s h = None" by (simp add: waitingOf_None)
  then have "unresolved [h \<mapsto> r] (waitingOf s) = waitingOf s"
    by (auto simp: unresolved_def fun_eq_iff)
  moreover have "settles [h \<mapsto> r] (waitingOf s) (chans s) (chans s)"
    by (rule settlesI) (use n in \<open>auto split: option.splits if_splits\<close>)
  ultimately show ?thesis using None assms by (simp add: Finish_def)
next
  case (Some os)
  from remove_and_answer [OF assms Some, of r] show ?thesis
    using Some by (auto simp: Finish_def Let_def)
qed

lemma expired_unresolved:
  assumes "ans h \<noteq> None \<or> h \<notin> dom w"
  shows "expired a now (unresolved ans w) h = None"
  using assms by (auto simp: expired_def unresolved_def domIff split: option.split)

lemma Clean_loop_law:
  assumes "list_inv s"
  shows "\<exists>s'. Clean_loop a now hs s = Inr s' \<and> list_inv s' \<and>
    (let ans = (\<lambda>h. if h \<in> set hs then expired a now (waitingOf s) h else None) in
     waitingOf s' = unresolved ans (waitingOf s) \<and> settles ans (waitingOf s) (chans s) (chans s'))"
  using assms
proof (induction hs arbitrary: s)
  case Nil
  then show ?case by simp
next
  case (Cons h hs)
  let ?ans = "\<lambda>s hs h. if h \<in> set hs then expired a now (waitingOf s) h else None"
  show ?case
  proof (cases "expired a now (waitingOf s) h")
    case None
    have e: "?ans s (h # hs) = ?ans s hs" using None by (auto simp: fun_eq_iff)
    have l: "Clean_loop a now (h # hs) s = Clean_loop a now hs s"
      using None by (auto simp: expired_def waitingOf_def split: option.splits if_splits)
    from Cons.IH [OF Cons.prems] show ?thesis by (simp only: e l)
  next
    case (Some r)
    then obtain os where os: "map_of (submissions s) h = Some os" "now h - SubmittedAt os > a"
      and r: "r = timeout_result"
      by (auto simp: expired_def waitingOf_def split: option.splits if_splits)
    obtain cs where cs: "deliver (Listeners os) r (chans s) = Inr cs"
      and s: "let s' = s\<lparr>submissions := AList.delete h (submissions s), chans := cs\<rparr> in
        list_inv s' \<and> waitingOf s' = unresolved [h \<mapsto> r] (waitingOf s) \<and>
        settles [h \<mapsto> r] (waitingOf s) (chans s) (chans s')"
      using remove_and_answer [OF Cons.prems os(1), of r] by blast
    let ?s1 = "s\<lparr>submissions := AList.delete h (submissions s), chans := cs\<rparr>"
    from s have s1: "list_inv ?s1" "waitingOf ?s1 = unresolved [h \<mapsto> r] (waitingOf s)"
      "settles [h \<mapsto> r] (waitingOf s) (chans s) (chans ?s1)"
      by (simp_all only: Let_def)
    have l: "Clean_loop a now (h # hs) s = Clean_loop a now hs ?s1"
      using os cs r list_invD(2) [OF Cons.prems os(1)] by simp
    define later where "later = ?ans ?s1 hs"
    have e: "later ++ [h \<mapsto> r] = ?ans s (h # hs)"
    proof
      fix k show "(later ++ [h \<mapsto> r]) k = ?ans s (h # hs) k"
        using Some s1(2) by (auto simp: later_def map_add_def expired_def unresolved_def)
    qed
    from Cons.IH [OF s1(1), folded later_def] obtain s' where s': "Clean_loop a now hs ?s1 = Inr s'"
      "list_inv s'" "waitingOf s' = unresolved later (waitingOf ?s1)"
      "settles later (waitingOf ?s1) (chans ?s1) (chans s')" unfolding Let_def by blast
    have "waitingOf s' = unresolved (?ans s (h # hs)) (waitingOf s)"
      unfolding s'(3) s1(2) unresolved_comp e ..
    moreover have "settles (?ans s (h # hs)) (waitingOf s) (chans s) (chans s')"
      using settles_comp [OF list_invD(3) [OF Cons.prems] s1(3) s'(4) [unfolded s1(2)]] unfolding e .
    ultimately show ?thesis using l s'(1,2) by (simp add: Let_def)
  qed
qed

lemma Clean_law:
  assumes inv: "list_inv s" and d: "dom (waitingOf s) \<subseteq> set order"
  shows "\<exists>s'. Clean a order now s = Inr (card (dom (waitingOf s')), s') \<and> list_inv s' \<and>
    waitingOf s' = unresolved (expired a now (waitingOf s)) (waitingOf s) \<and>
    settles (expired a now (waitingOf s)) (waitingOf s) (chans s) (chans s')"
proof -
  have "(\<lambda>h. if h \<in> set order then expired a now (waitingOf s) h else None) = expired a now (waitingOf s)"
    using d by (auto simp: fun_eq_iff expired_def split: option.split)
  with Clean_loop_law [OF inv, of a now order] show ?thesis
    by (auto simp: Clean_def Let_def simp flip: card_waitingOf)
qed

lemma Add_law:
  assumes inv: "list_inv s" and l: "open_chan (chans s l)"
    and new: "\<And>h t ls. waitingOf s h = Some (t, ls) \<Longrightarrow> l \<notin> set ls"
  shows "\<exists>s'. Add h l now s = Inr s' \<and> list_inv s' \<and> chans s' = chans s \<and>
    waitingOf s' = (waitingOf s)(h \<mapsto> (case waitingOf s h of None \<Rightarrow> (now, [l]) | Some (t, ls) \<Rightarrow> (t, ls @ [l])))"
proof -
  define os where "os = (case map_of (submissions s) h of
      None \<Rightarrow> \<lparr>Hash = h, SubmittedAt = now, Listeners = []\<rparr> | Some os \<Rightarrow> os)"
  let ?s = "s\<lparr>submissions := AList.update h (os\<lparr>Listeners := Listeners os @ [l]\<rparr>) (submissions s)\<rparr>"
  have add: "Add h l now s = Inr ?s"
    using l by (auto simp: Add_def os_def [symmetric] open_chan_def chan_make_def)
  have w: "waitingOf ?s =
      (waitingOf s)(h \<mapsto> (case waitingOf s h of None \<Rightarrow> (now, [l]) | Some (t, ls) \<Rightarrow> (t, ls @ [l])))"
    by (auto simp: waitingOf_def fun_eq_iff update_conv os_def split: option.split)
  have "well_waiting (waitingOf ?s) (chans s)"
  proof (rule well_waitingI)
    fix h' t ls assume "waitingOf ?s h' = Some (t, ls)"
    then show "ls \<noteq> [] \<and> distinct ls \<and> (\<forall>l\<in>set ls. open_chan (chans s l))"
      unfolding w using well_waitingD(1-3) [OF list_invD(3) [OF inv]] new l
      by (auto split: if_splits option.splits)
  next
    fix h1 h2 t1 t2 ls1 ls2 k
    assume "waitingOf ?s h1 = Some (t1, ls1)" "waitingOf ?s h2 = Some (t2, ls2)" "k \<in> set ls1" "k \<in> set ls2"
    then show "h1 = h2"
      unfolding w using well_waitingD(4) [OF list_invD(3) [OF inv]] new
      by (fastforce split: if_splits option.splits)
  qed
  moreover have "Hash os = h" using list_invD(2) [OF inv] by (auto simp: os_def split: option.split)
  ultimately have "list_inv ?s"
    using list_invD(1,2) [OF inv] by (auto simp: list_inv_def distinct_update update_conv split: if_splits)
  with add w show ?thesis by simp
qed

interpretation sl: open_submission_list list_inv waitingOf chans Add Finish Clean Pending
proof unfold_locales
  show "well_waiting (waitingOf s) (chans s) \<and> finite (dom (waitingOf s))" if "list_inv s" for s
    using that by (simp add: list_inv_def dom_waitingOf)
  show "set (Pending order s) = dom (waitingOf s)" if "dom (waitingOf s) \<subseteq> set order" for s order
    using that by (auto simp: Pending_def waitingOf_def)
qed (rule Add_law Finish_law Clean_law; assumption)+

end
