(* ===== verification/Codes.thy ===== *)
theory Codes
  imports Prelude
begin

text \<open>
  The strings Horizon reports for transaction and operation results (\<open>internal/codes/main.go\<close>). The
  result codes of the XDR definitions are one datatype per type the code switches over, with the
  constants it names and one constructor for every other value, which the switch falls through.
  \<open>None\<close> is \<open>ErrUnknownCode\<close>.
\<close>

definition OpSuccess :: string where "OpSuccess = ''op_success''"
definition OpMalformed :: string where "OpMalformed = ''op_malformed''"
definition OpUnderfunded :: string where "OpUnderfunded = ''op_underfunded''"
definition OpLowReserve :: string where "OpLowReserve = ''op_low_reserve''"
definition OpLineFull :: string where "OpLineFull = ''op_line_full''"
definition OpNoIssuer :: string where "OpNoIssuer = ''op_no_issuer''"
definition OpNoTrust :: string where "OpNoTrust = ''op_no_trust''"
definition OpNotAuthorized :: string where "OpNotAuthorized = ''op_not_authorized''"
definition OpDoesNotExist :: string where "OpDoesNotExist = ''op_does_not_exist''"
definition OpTrustlineFrozen :: string where "OpTrustlineFrozen = ''op_trustline_frozen''"

lemmas op_strings = OpSuccess_def OpMalformed_def OpUnderfunded_def OpLowReserve_def OpLineFull_def
  OpNoIssuer_def OpNoTrust_def OpNotAuthorized_def OpDoesNotExist_def OpTrustlineFrozen_def

subsection \<open>The switch\<close>

datatype TransactionResultCode =
    TxFeeBumpInnerSuccess | TxFeeBumpInnerFailed | TxNotSupported | TxSuccess | TxFailed
    | TxTooEarly | TxTooLate | TxMissingOperation | TxBadSeq | TxBadAuth | TxInsufficientBalance
    | TxNoAccount | TxInsufficientFee | TxBadAuthExtra | TxInternalError | TxBadSponsorship
    | TxBadMinSeqAgeOrGap | TxMalformed | TxSorobanInvalid | TxFrozenKeyAccessed
    | TransactionResultCode_other int

primrec TransactionResultCode_String :: "TransactionResultCode \<Rightarrow> string option" where
  "TransactionResultCode_String TxFeeBumpInnerSuccess = Some ''tx_fee_bump_inner_success''"
| "TransactionResultCode_String TxFeeBumpInnerFailed = Some ''tx_fee_bump_inner_failed''"
| "TransactionResultCode_String TxNotSupported = Some ''tx_not_supported''"
| "TransactionResultCode_String TxSuccess = Some ''tx_success''"
| "TransactionResultCode_String TxFailed = Some ''tx_failed''"
| "TransactionResultCode_String TxTooEarly = Some ''tx_too_early''"
| "TransactionResultCode_String TxTooLate = Some ''tx_too_late''"
| "TransactionResultCode_String TxMissingOperation = Some ''tx_missing_operation''"
| "TransactionResultCode_String TxBadSeq = Some ''tx_bad_seq''"
| "TransactionResultCode_String TxBadAuth = Some ''tx_bad_auth''"
| "TransactionResultCode_String TxInsufficientBalance = Some ''tx_insufficient_balance''"
| "TransactionResultCode_String TxNoAccount = Some ''tx_no_source_account''"
| "TransactionResultCode_String TxInsufficientFee = Some ''tx_insufficient_fee''"
| "TransactionResultCode_String TxBadAuthExtra = Some ''tx_bad_auth_extra''"
| "TransactionResultCode_String TxInternalError = Some ''tx_internal_error''"
| "TransactionResultCode_String TxBadSponsorship = Some ''tx_bad_sponsorship''"
| "TransactionResultCode_String TxBadMinSeqAgeOrGap = Some ''tx_bad_minseq_age_or_gap''"
| "TransactionResultCode_String TxMalformed = Some ''tx_malformed''"
| "TransactionResultCode_String TxSorobanInvalid = Some ''tx_soroban_invalid''"
| "TransactionResultCode_String TxFrozenKeyAccessed = Some ''tx_frozen_key_accessed''"
| "TransactionResultCode_String (TransactionResultCode_other n) = None"

datatype OperationResultCode =
    OpInner | OpBadAuth | OpNoAccount | OpNotSupported | OpTooManySubentries | OpExceededWorkLimit
    | OpTooManySponsoring | OperationResultCode_other int

primrec OperationResultCode_String :: "OperationResultCode \<Rightarrow> string option" where
  "OperationResultCode_String OpInner = Some ''op_inner''"
| "OperationResultCode_String OpBadAuth = Some ''op_bad_auth''"
| "OperationResultCode_String OpNoAccount = Some ''op_no_source_account''"
| "OperationResultCode_String OpNotSupported = Some ''op_not_supported''"
| "OperationResultCode_String OpTooManySubentries = Some ''op_too_many_subentries''"
| "OperationResultCode_String OpExceededWorkLimit = Some ''op_exceeded_work_limit''"
| "OperationResultCode_String OpTooManySponsoring = Some ''op_too_many_sponsoring''"
| "OperationResultCode_String (OperationResultCode_other n) = None"

datatype CreateAccountResultCode =
    CreateAccountSuccess | CreateAccountMalformed | CreateAccountUnderfunded
    | CreateAccountLowReserve | CreateAccountAlreadyExist | CreateAccountResultCode_other int

primrec CreateAccountResultCode_String :: "CreateAccountResultCode \<Rightarrow> string option" where
  "CreateAccountResultCode_String CreateAccountSuccess = Some OpSuccess"
| "CreateAccountResultCode_String CreateAccountMalformed = Some OpMalformed"
| "CreateAccountResultCode_String CreateAccountUnderfunded = Some OpUnderfunded"
| "CreateAccountResultCode_String CreateAccountLowReserve = Some OpLowReserve"
| "CreateAccountResultCode_String CreateAccountAlreadyExist = Some ''op_already_exists''"
| "CreateAccountResultCode_String (CreateAccountResultCode_other n) = None"

datatype PaymentResultCode =
    PaymentSuccess | PaymentMalformed | PaymentUnderfunded | PaymentSrcNoTrust
    | PaymentSrcNotAuthorized | PaymentNoDestination | PaymentNoTrust | PaymentNotAuthorized
    | PaymentLineFull | PaymentNoIssuer | PaymentResultCode_other int

primrec PaymentResultCode_String :: "PaymentResultCode \<Rightarrow> string option" where
  "PaymentResultCode_String PaymentSuccess = Some OpSuccess"
| "PaymentResultCode_String PaymentMalformed = Some OpMalformed"
| "PaymentResultCode_String PaymentUnderfunded = Some OpUnderfunded"
| "PaymentResultCode_String PaymentSrcNoTrust = Some ''op_src_no_trust''"
| "PaymentResultCode_String PaymentSrcNotAuthorized = Some ''op_src_not_authorized''"
| "PaymentResultCode_String PaymentNoDestination = Some ''op_no_destination''"
| "PaymentResultCode_String PaymentNoTrust = Some OpNoTrust"
| "PaymentResultCode_String PaymentNotAuthorized = Some OpNotAuthorized"
| "PaymentResultCode_String PaymentLineFull = Some OpLineFull"
| "PaymentResultCode_String PaymentNoIssuer = Some OpNoIssuer"
| "PaymentResultCode_String (PaymentResultCode_other n) = None"

datatype PathPaymentStrictReceiveResultCode =
    PathPaymentStrictReceiveSuccess | PathPaymentStrictReceiveMalformed
    | PathPaymentStrictReceiveUnderfunded | PathPaymentStrictReceiveSrcNoTrust
    | PathPaymentStrictReceiveSrcNotAuthorized | PathPaymentStrictReceiveNoDestination
    | PathPaymentStrictReceiveNoTrust | PathPaymentStrictReceiveNotAuthorized
    | PathPaymentStrictReceiveLineFull | PathPaymentStrictReceiveNoIssuer
    | PathPaymentStrictReceiveTooFewOffers | PathPaymentStrictReceiveOfferCrossSelf
    | PathPaymentStrictReceiveOverSendmax | PathPaymentStrictReceiveResultCode_other int

primrec PathPaymentStrictReceiveResultCode_String :: "PathPaymentStrictReceiveResultCode \<Rightarrow> string option" where
  "PathPaymentStrictReceiveResultCode_String PathPaymentStrictReceiveSuccess = Some OpSuccess"
| "PathPaymentStrictReceiveResultCode_String PathPaymentStrictReceiveMalformed = Some OpMalformed"
| "PathPaymentStrictReceiveResultCode_String PathPaymentStrictReceiveUnderfunded = Some OpUnderfunded"
| "PathPaymentStrictReceiveResultCode_String PathPaymentStrictReceiveSrcNoTrust = Some ''op_src_no_trust''"
| "PathPaymentStrictReceiveResultCode_String PathPaymentStrictReceiveSrcNotAuthorized = Some ''op_src_not_authorized''"
| "PathPaymentStrictReceiveResultCode_String PathPaymentStrictReceiveNoDestination = Some ''op_no_destination''"
| "PathPaymentStrictReceiveResultCode_String PathPaymentStrictReceiveNoTrust = Some OpNoTrust"
| "PathPaymentStrictReceiveResultCode_String PathPaymentStrictReceiveNotAuthorized = Some OpNotAuthorized"
| "PathPaymentStrictReceiveResultCode_String PathPaymentStrictReceiveLineFull = Some OpLineFull"
| "PathPaymentStrictReceiveResultCode_String PathPaymentStrictReceiveNoIssuer = Some OpNoIssuer"
| "PathPaymentStrictReceiveResultCode_String PathPaymentStrictReceiveTooFewOffers = Some ''op_too_few_offers''"
| "PathPaymentStrictReceiveResultCode_String PathPaymentStrictReceiveOfferCrossSelf = Some ''op_cross_self''"
| "PathPaymentStrictReceiveResultCode_String PathPaymentStrictReceiveOverSendmax = Some ''op_over_source_max''"
| "PathPaymentStrictReceiveResultCode_String (PathPaymentStrictReceiveResultCode_other n) = None"

datatype ManageBuyOfferResultCode =
    ManageBuyOfferSuccess | ManageBuyOfferMalformed | ManageBuyOfferSellNoTrust
    | ManageBuyOfferBuyNoTrust | ManageBuyOfferSellNotAuthorized | ManageBuyOfferBuyNotAuthorized
    | ManageBuyOfferLineFull | ManageBuyOfferUnderfunded | ManageBuyOfferCrossSelf
    | ManageBuyOfferSellNoIssuer | ManageBuyOfferBuyNoIssuer | ManageBuyOfferNotFound
    | ManageBuyOfferLowReserve | ManageBuyOfferResultCode_other int

primrec ManageBuyOfferResultCode_String :: "ManageBuyOfferResultCode \<Rightarrow> string option" where
  "ManageBuyOfferResultCode_String ManageBuyOfferSuccess = Some OpSuccess"
| "ManageBuyOfferResultCode_String ManageBuyOfferMalformed = Some OpMalformed"
| "ManageBuyOfferResultCode_String ManageBuyOfferSellNoTrust = Some ''op_sell_no_trust''"
| "ManageBuyOfferResultCode_String ManageBuyOfferBuyNoTrust = Some ''op_buy_no_trust''"
| "ManageBuyOfferResultCode_String ManageBuyOfferSellNotAuthorized = Some ''sell_not_authorized''"
| "ManageBuyOfferResultCode_String ManageBuyOfferBuyNotAuthorized = Some ''buy_not_authorized''"
| "ManageBuyOfferResultCode_String ManageBuyOfferLineFull = Some OpLineFull"
| "ManageBuyOfferResultCode_String ManageBuyOfferUnderfunded = Some OpUnderfunded"
| "ManageBuyOfferResultCode_String ManageBuyOfferCrossSelf = Some ''op_cross_self''"
| "ManageBuyOfferResultCode_String ManageBuyOfferSellNoIssuer = Some ''op_sell_no_issuer''"
| "ManageBuyOfferResultCode_String ManageBuyOfferBuyNoIssuer = Some ''buy_no_issuer''"
| "ManageBuyOfferResultCode_String ManageBuyOfferNotFound = Some ''op_offer_not_found''"
| "ManageBuyOfferResultCode_String ManageBuyOfferLowReserve = Some OpLowReserve"
| "ManageBuyOfferResultCode_String (ManageBuyOfferResultCode_other n) = None"

datatype ManageSellOfferResultCode =
    ManageSellOfferSuccess | ManageSellOfferMalformed | ManageSellOfferSellNoTrust
    | ManageSellOfferBuyNoTrust | ManageSellOfferSellNotAuthorized
    | ManageSellOfferBuyNotAuthorized | ManageSellOfferLineFull | ManageSellOfferUnderfunded
    | ManageSellOfferCrossSelf | ManageSellOfferSellNoIssuer | ManageSellOfferBuyNoIssuer
    | ManageSellOfferNotFound | ManageSellOfferLowReserve | ManageSellOfferResultCode_other int

primrec ManageSellOfferResultCode_String :: "ManageSellOfferResultCode \<Rightarrow> string option" where
  "ManageSellOfferResultCode_String ManageSellOfferSuccess = Some OpSuccess"
| "ManageSellOfferResultCode_String ManageSellOfferMalformed = Some OpMalformed"
| "ManageSellOfferResultCode_String ManageSellOfferSellNoTrust = Some ''op_sell_no_trust''"
| "ManageSellOfferResultCode_String ManageSellOfferBuyNoTrust = Some ''op_buy_no_trust''"
| "ManageSellOfferResultCode_String ManageSellOfferSellNotAuthorized = Some ''sell_not_authorized''"
| "ManageSellOfferResultCode_String ManageSellOfferBuyNotAuthorized = Some ''buy_not_authorized''"
| "ManageSellOfferResultCode_String ManageSellOfferLineFull = Some OpLineFull"
| "ManageSellOfferResultCode_String ManageSellOfferUnderfunded = Some OpUnderfunded"
| "ManageSellOfferResultCode_String ManageSellOfferCrossSelf = Some ''op_cross_self''"
| "ManageSellOfferResultCode_String ManageSellOfferSellNoIssuer = Some ''op_sell_no_issuer''"
| "ManageSellOfferResultCode_String ManageSellOfferBuyNoIssuer = Some ''buy_no_issuer''"
| "ManageSellOfferResultCode_String ManageSellOfferNotFound = Some ''op_offer_not_found''"
| "ManageSellOfferResultCode_String ManageSellOfferLowReserve = Some OpLowReserve"
| "ManageSellOfferResultCode_String (ManageSellOfferResultCode_other n) = None"

datatype SetOptionsResultCode =
    SetOptionsSuccess | SetOptionsLowReserve | SetOptionsTooManySigners | SetOptionsBadFlags
    | SetOptionsInvalidInflation | SetOptionsCantChange | SetOptionsUnknownFlag
    | SetOptionsThresholdOutOfRange | SetOptionsBadSigner | SetOptionsInvalidHomeDomain
    | SetOptionsAuthRevocableRequired | SetOptionsResultCode_other int

primrec SetOptionsResultCode_String :: "SetOptionsResultCode \<Rightarrow> string option" where
  "SetOptionsResultCode_String SetOptionsSuccess = Some OpSuccess"
| "SetOptionsResultCode_String SetOptionsLowReserve = Some OpLowReserve"
| "SetOptionsResultCode_String SetOptionsTooManySigners = Some ''op_too_many_signers''"
| "SetOptionsResultCode_String SetOptionsBadFlags = Some ''op_bad_flags''"
| "SetOptionsResultCode_String SetOptionsInvalidInflation = Some ''op_invalid_inflation''"
| "SetOptionsResultCode_String SetOptionsCantChange = Some ''op_cant_change''"
| "SetOptionsResultCode_String SetOptionsUnknownFlag = Some ''op_unknown_flag''"
| "SetOptionsResultCode_String SetOptionsThresholdOutOfRange = Some ''op_threshold_out_of_range''"
| "SetOptionsResultCode_String SetOptionsBadSigner = Some ''op_bad_signer''"
| "SetOptionsResultCode_String SetOptionsInvalidHomeDomain = Some ''op_invalid_home_domain''"
| "SetOptionsResultCode_String SetOptionsAuthRevocableRequired = Some ''op_auth_revocable_required''"
| "SetOptionsResultCode_String (SetOptionsResultCode_other n) = None"

datatype ChangeTrustResultCode =
    ChangeTrustSuccess | ChangeTrustMalformed | ChangeTrustNoIssuer | ChangeTrustInvalidLimit
    | ChangeTrustLowReserve | ChangeTrustSelfNotAllowed | ChangeTrustTrustLineMissing
    | ChangeTrustCannotDelete | ChangeTrustNotAuthMaintainLiabilities
    | ChangeTrustResultCode_other int

primrec ChangeTrustResultCode_String :: "ChangeTrustResultCode \<Rightarrow> string option" where
  "ChangeTrustResultCode_String ChangeTrustSuccess = Some OpSuccess"
| "ChangeTrustResultCode_String ChangeTrustMalformed = Some OpMalformed"
| "ChangeTrustResultCode_String ChangeTrustNoIssuer = Some OpNoIssuer"
| "ChangeTrustResultCode_String ChangeTrustInvalidLimit = Some ''op_invalid_limit''"
| "ChangeTrustResultCode_String ChangeTrustLowReserve = Some OpLowReserve"
| "ChangeTrustResultCode_String ChangeTrustSelfNotAllowed = Some ''op_self_not_allowed''"
| "ChangeTrustResultCode_String ChangeTrustTrustLineMissing = Some ''op_trust_line_missing''"
| "ChangeTrustResultCode_String ChangeTrustCannotDelete = Some ''op_cannot_delete''"
| "ChangeTrustResultCode_String ChangeTrustNotAuthMaintainLiabilities = Some ''op_not_aut_maintain_liabilities''"
| "ChangeTrustResultCode_String (ChangeTrustResultCode_other n) = None"

datatype AllowTrustResultCode =
    AllowTrustSuccess | AllowTrustMalformed | AllowTrustNoTrustLine | AllowTrustTrustNotRequired
    | AllowTrustCantRevoke | AllowTrustSelfNotAllowed | AllowTrustLowReserve
    | AllowTrustResultCode_other int

primrec AllowTrustResultCode_String :: "AllowTrustResultCode \<Rightarrow> string option" where
  "AllowTrustResultCode_String AllowTrustSuccess = Some OpSuccess"
| "AllowTrustResultCode_String AllowTrustMalformed = Some OpMalformed"
| "AllowTrustResultCode_String AllowTrustNoTrustLine = Some OpNoTrust"
| "AllowTrustResultCode_String AllowTrustTrustNotRequired = Some ''op_not_required''"
| "AllowTrustResultCode_String AllowTrustCantRevoke = Some ''op_cant_revoke''"
| "AllowTrustResultCode_String AllowTrustSelfNotAllowed = Some ''op_self_not_allowed''"
| "AllowTrustResultCode_String AllowTrustLowReserve = Some OpLowReserve"
| "AllowTrustResultCode_String (AllowTrustResultCode_other n) = None"

datatype AccountMergeResultCode =
    AccountMergeSuccess | AccountMergeMalformed | AccountMergeNoAccount | AccountMergeImmutableSet
    | AccountMergeHasSubEntries | AccountMergeSeqnumTooFar | AccountMergeDestFull
    | AccountMergeIsSponsor | AccountMergeResultCode_other int

primrec AccountMergeResultCode_String :: "AccountMergeResultCode \<Rightarrow> string option" where
  "AccountMergeResultCode_String AccountMergeSuccess = Some OpSuccess"
| "AccountMergeResultCode_String AccountMergeMalformed = Some OpMalformed"
| "AccountMergeResultCode_String AccountMergeNoAccount = Some ''op_no_account''"
| "AccountMergeResultCode_String AccountMergeImmutableSet = Some ''op_immutable_set''"
| "AccountMergeResultCode_String AccountMergeHasSubEntries = Some ''op_has_sub_entries''"
| "AccountMergeResultCode_String AccountMergeSeqnumTooFar = Some ''op_seq_num_too_far''"
| "AccountMergeResultCode_String AccountMergeDestFull = Some ''op_dest_full''"
| "AccountMergeResultCode_String AccountMergeIsSponsor = Some ''op_is_sponsor''"
| "AccountMergeResultCode_String (AccountMergeResultCode_other n) = None"

datatype InflationResultCode =
    InflationSuccess | InflationNotTime | InflationResultCode_other int

primrec InflationResultCode_String :: "InflationResultCode \<Rightarrow> string option" where
  "InflationResultCode_String InflationSuccess = Some OpSuccess"
| "InflationResultCode_String InflationNotTime = Some ''op_not_time''"
| "InflationResultCode_String (InflationResultCode_other n) = None"

datatype ManageDataResultCode =
    ManageDataSuccess | ManageDataNotSupportedYet | ManageDataNameNotFound | ManageDataLowReserve
    | ManageDataInvalidName | ManageDataResultCode_other int

primrec ManageDataResultCode_String :: "ManageDataResultCode \<Rightarrow> string option" where
  "ManageDataResultCode_String ManageDataSuccess = Some OpSuccess"
| "ManageDataResultCode_String ManageDataNotSupportedYet = Some ''op_not_supported_yet''"
| "ManageDataResultCode_String ManageDataNameNotFound = Some ''op_data_name_not_found''"
| "ManageDataResultCode_String ManageDataLowReserve = Some OpLowReserve"
| "ManageDataResultCode_String ManageDataInvalidName = Some ''op_data_invalid_name''"
| "ManageDataResultCode_String (ManageDataResultCode_other n) = None"

datatype BumpSequenceResultCode =
    BumpSequenceSuccess | BumpSequenceBadSeq | BumpSequenceResultCode_other int

primrec BumpSequenceResultCode_String :: "BumpSequenceResultCode \<Rightarrow> string option" where
  "BumpSequenceResultCode_String BumpSequenceSuccess = Some OpSuccess"
| "BumpSequenceResultCode_String BumpSequenceBadSeq = Some ''op_bad_seq''"
| "BumpSequenceResultCode_String (BumpSequenceResultCode_other n) = None"

datatype PathPaymentStrictSendResultCode =
    PathPaymentStrictSendSuccess | PathPaymentStrictSendMalformed
    | PathPaymentStrictSendUnderfunded | PathPaymentStrictSendSrcNoTrust
    | PathPaymentStrictSendSrcNotAuthorized | PathPaymentStrictSendNoDestination
    | PathPaymentStrictSendNoTrust | PathPaymentStrictSendNotAuthorized
    | PathPaymentStrictSendLineFull | PathPaymentStrictSendNoIssuer
    | PathPaymentStrictSendTooFewOffers | PathPaymentStrictSendOfferCrossSelf
    | PathPaymentStrictSendUnderDestmin | PathPaymentStrictSendResultCode_other int

primrec PathPaymentStrictSendResultCode_String :: "PathPaymentStrictSendResultCode \<Rightarrow> string option" where
  "PathPaymentStrictSendResultCode_String PathPaymentStrictSendSuccess = Some OpSuccess"
| "PathPaymentStrictSendResultCode_String PathPaymentStrictSendMalformed = Some OpMalformed"
| "PathPaymentStrictSendResultCode_String PathPaymentStrictSendUnderfunded = Some OpUnderfunded"
| "PathPaymentStrictSendResultCode_String PathPaymentStrictSendSrcNoTrust = Some ''op_src_no_trust''"
| "PathPaymentStrictSendResultCode_String PathPaymentStrictSendSrcNotAuthorized = Some ''op_src_not_authorized''"
| "PathPaymentStrictSendResultCode_String PathPaymentStrictSendNoDestination = Some ''op_no_destination''"
| "PathPaymentStrictSendResultCode_String PathPaymentStrictSendNoTrust = Some OpNoTrust"
| "PathPaymentStrictSendResultCode_String PathPaymentStrictSendNotAuthorized = Some OpNotAuthorized"
| "PathPaymentStrictSendResultCode_String PathPaymentStrictSendLineFull = Some OpLineFull"
| "PathPaymentStrictSendResultCode_String PathPaymentStrictSendNoIssuer = Some OpNoIssuer"
| "PathPaymentStrictSendResultCode_String PathPaymentStrictSendTooFewOffers = Some ''op_too_few_offers''"
| "PathPaymentStrictSendResultCode_String PathPaymentStrictSendOfferCrossSelf = Some ''op_cross_self''"
| "PathPaymentStrictSendResultCode_String PathPaymentStrictSendUnderDestmin = Some ''op_under_dest_min''"
| "PathPaymentStrictSendResultCode_String (PathPaymentStrictSendResultCode_other n) = None"

datatype CreateClaimableBalanceResultCode =
    CreateClaimableBalanceSuccess | CreateClaimableBalanceMalformed
    | CreateClaimableBalanceLowReserve | CreateClaimableBalanceNoTrust
    | CreateClaimableBalanceNotAuthorized | CreateClaimableBalanceUnderfunded
    | CreateClaimableBalanceResultCode_other int

primrec CreateClaimableBalanceResultCode_String :: "CreateClaimableBalanceResultCode \<Rightarrow> string option" where
  "CreateClaimableBalanceResultCode_String CreateClaimableBalanceSuccess = Some OpSuccess"
| "CreateClaimableBalanceResultCode_String CreateClaimableBalanceMalformed = Some OpMalformed"
| "CreateClaimableBalanceResultCode_String CreateClaimableBalanceLowReserve = Some OpLowReserve"
| "CreateClaimableBalanceResultCode_String CreateClaimableBalanceNoTrust = Some OpNoTrust"
| "CreateClaimableBalanceResultCode_String CreateClaimableBalanceNotAuthorized = Some OpNotAuthorized"
| "CreateClaimableBalanceResultCode_String CreateClaimableBalanceUnderfunded = Some ''op_underfunded''"
| "CreateClaimableBalanceResultCode_String (CreateClaimableBalanceResultCode_other n) = None"

datatype ClaimClaimableBalanceResultCode =
    ClaimClaimableBalanceSuccess | ClaimClaimableBalanceDoesNotExist
    | ClaimClaimableBalanceCannotClaim | ClaimClaimableBalanceLineFull
    | ClaimClaimableBalanceNoTrust | ClaimClaimableBalanceNotAuthorized
    | ClaimClaimableBalanceTrustlineFrozen | ClaimClaimableBalanceResultCode_other int

primrec ClaimClaimableBalanceResultCode_String :: "ClaimClaimableBalanceResultCode \<Rightarrow> string option" where
  "ClaimClaimableBalanceResultCode_String ClaimClaimableBalanceSuccess = Some OpSuccess"
| "ClaimClaimableBalanceResultCode_String ClaimClaimableBalanceDoesNotExist = Some OpDoesNotExist"
| "ClaimClaimableBalanceResultCode_String ClaimClaimableBalanceCannotClaim = Some ''op_cannot_claim''"
| "ClaimClaimableBalanceResultCode_String ClaimClaimableBalanceLineFull = Some OpLineFull"
| "ClaimClaimableBalanceResultCode_String ClaimClaimableBalanceNoTrust = Some OpNoTrust"
| "ClaimClaimableBalanceResultCode_String ClaimClaimableBalanceNotAuthorized = Some OpNotAuthorized"
| "ClaimClaimableBalanceResultCode_String ClaimClaimableBalanceTrustlineFrozen = Some OpTrustlineFrozen"
| "ClaimClaimableBalanceResultCode_String (ClaimClaimableBalanceResultCode_other n) = None"

datatype BeginSponsoringFutureReservesResultCode =
    BeginSponsoringFutureReservesSuccess | BeginSponsoringFutureReservesMalformed
    | BeginSponsoringFutureReservesAlreadySponsored | BeginSponsoringFutureReservesRecursive
    | BeginSponsoringFutureReservesResultCode_other int

primrec BeginSponsoringFutureReservesResultCode_String :: "BeginSponsoringFutureReservesResultCode \<Rightarrow> string option" where
  "BeginSponsoringFutureReservesResultCode_String BeginSponsoringFutureReservesSuccess = Some OpSuccess"
| "BeginSponsoringFutureReservesResultCode_String BeginSponsoringFutureReservesMalformed = Some OpMalformed"
| "BeginSponsoringFutureReservesResultCode_String BeginSponsoringFutureReservesAlreadySponsored = Some ''op_already_sponsored''"
| "BeginSponsoringFutureReservesResultCode_String BeginSponsoringFutureReservesRecursive = Some ''op_recursive''"
| "BeginSponsoringFutureReservesResultCode_String (BeginSponsoringFutureReservesResultCode_other n) = None"

datatype EndSponsoringFutureReservesResultCode =
    EndSponsoringFutureReservesSuccess | EndSponsoringFutureReservesNotSponsored
    | EndSponsoringFutureReservesResultCode_other int

primrec EndSponsoringFutureReservesResultCode_String :: "EndSponsoringFutureReservesResultCode \<Rightarrow> string option" where
  "EndSponsoringFutureReservesResultCode_String EndSponsoringFutureReservesSuccess = Some OpSuccess"
| "EndSponsoringFutureReservesResultCode_String EndSponsoringFutureReservesNotSponsored = Some ''op_not_sponsored''"
| "EndSponsoringFutureReservesResultCode_String (EndSponsoringFutureReservesResultCode_other n) = None"

datatype RevokeSponsorshipResultCode =
    RevokeSponsorshipSuccess | RevokeSponsorshipDoesNotExist | RevokeSponsorshipNotSponsor
    | RevokeSponsorshipLowReserve | RevokeSponsorshipOnlyTransferable | RevokeSponsorshipMalformed
    | RevokeSponsorshipResultCode_other int

primrec RevokeSponsorshipResultCode_String :: "RevokeSponsorshipResultCode \<Rightarrow> string option" where
  "RevokeSponsorshipResultCode_String RevokeSponsorshipSuccess = Some OpSuccess"
| "RevokeSponsorshipResultCode_String RevokeSponsorshipDoesNotExist = Some OpDoesNotExist"
| "RevokeSponsorshipResultCode_String RevokeSponsorshipNotSponsor = Some ''op_not_sponsor''"
| "RevokeSponsorshipResultCode_String RevokeSponsorshipLowReserve = Some OpLowReserve"
| "RevokeSponsorshipResultCode_String RevokeSponsorshipOnlyTransferable = Some ''op_only_transferable''"
| "RevokeSponsorshipResultCode_String RevokeSponsorshipMalformed = Some OpMalformed"
| "RevokeSponsorshipResultCode_String (RevokeSponsorshipResultCode_other n) = None"

datatype ClawbackResultCode =
    ClawbackSuccess | ClawbackMalformed | ClawbackNotClawbackEnabled | ClawbackNoTrust
    | ClawbackUnderfunded | ClawbackResultCode_other int

primrec ClawbackResultCode_String :: "ClawbackResultCode \<Rightarrow> string option" where
  "ClawbackResultCode_String ClawbackSuccess = Some OpSuccess"
| "ClawbackResultCode_String ClawbackMalformed = Some OpMalformed"
| "ClawbackResultCode_String ClawbackNotClawbackEnabled = Some ''op_not_clawback_enabled''"
| "ClawbackResultCode_String ClawbackNoTrust = Some OpNoTrust"
| "ClawbackResultCode_String ClawbackUnderfunded = Some OpUnderfunded"
| "ClawbackResultCode_String (ClawbackResultCode_other n) = None"

datatype ClawbackClaimableBalanceResultCode =
    ClawbackClaimableBalanceSuccess | ClawbackClaimableBalanceDoesNotExist
    | ClawbackClaimableBalanceNotIssuer | ClawbackClaimableBalanceNotClawbackEnabled
    | ClawbackClaimableBalanceResultCode_other int

primrec ClawbackClaimableBalanceResultCode_String :: "ClawbackClaimableBalanceResultCode \<Rightarrow> string option" where
  "ClawbackClaimableBalanceResultCode_String ClawbackClaimableBalanceSuccess = Some OpSuccess"
| "ClawbackClaimableBalanceResultCode_String ClawbackClaimableBalanceDoesNotExist = Some OpDoesNotExist"
| "ClawbackClaimableBalanceResultCode_String ClawbackClaimableBalanceNotIssuer = Some OpNoIssuer"
| "ClawbackClaimableBalanceResultCode_String ClawbackClaimableBalanceNotClawbackEnabled = Some ''op_not_clawback_enabled''"
| "ClawbackClaimableBalanceResultCode_String (ClawbackClaimableBalanceResultCode_other n) = None"

datatype SetTrustLineFlagsResultCode =
    SetTrustLineFlagsSuccess | SetTrustLineFlagsMalformed | SetTrustLineFlagsNoTrustLine
    | SetTrustLineFlagsCantRevoke | SetTrustLineFlagsInvalidState | SetTrustLineFlagsLowReserve
    | SetTrustLineFlagsResultCode_other int

primrec SetTrustLineFlagsResultCode_String :: "SetTrustLineFlagsResultCode \<Rightarrow> string option" where
  "SetTrustLineFlagsResultCode_String SetTrustLineFlagsSuccess = Some OpSuccess"
| "SetTrustLineFlagsResultCode_String SetTrustLineFlagsMalformed = Some OpMalformed"
| "SetTrustLineFlagsResultCode_String SetTrustLineFlagsNoTrustLine = Some OpNoTrust"
| "SetTrustLineFlagsResultCode_String SetTrustLineFlagsCantRevoke = Some ''op_cant_revoke''"
| "SetTrustLineFlagsResultCode_String SetTrustLineFlagsInvalidState = Some ''op_invalid_state''"
| "SetTrustLineFlagsResultCode_String SetTrustLineFlagsLowReserve = Some OpLowReserve"
| "SetTrustLineFlagsResultCode_String (SetTrustLineFlagsResultCode_other n) = None"

datatype LiquidityPoolDepositResultCode =
    LiquidityPoolDepositSuccess | LiquidityPoolDepositMalformed | LiquidityPoolDepositNoTrust
    | LiquidityPoolDepositNotAuthorized | LiquidityPoolDepositUnderfunded
    | LiquidityPoolDepositLineFull | LiquidityPoolDepositBadPrice | LiquidityPoolDepositPoolFull
    | LiquidityPoolDepositTrustlineFrozen | LiquidityPoolDepositResultCode_other int

primrec LiquidityPoolDepositResultCode_String :: "LiquidityPoolDepositResultCode \<Rightarrow> string option" where
  "LiquidityPoolDepositResultCode_String LiquidityPoolDepositSuccess = Some OpSuccess"
| "LiquidityPoolDepositResultCode_String LiquidityPoolDepositMalformed = Some OpMalformed"
| "LiquidityPoolDepositResultCode_String LiquidityPoolDepositNoTrust = Some OpNoTrust"
| "LiquidityPoolDepositResultCode_String LiquidityPoolDepositNotAuthorized = Some OpNotAuthorized"
| "LiquidityPoolDepositResultCode_String LiquidityPoolDepositUnderfunded = Some OpUnderfunded"
| "LiquidityPoolDepositResultCode_String LiquidityPoolDepositLineFull = Some OpLineFull"
| "LiquidityPoolDepositResultCode_String LiquidityPoolDepositBadPrice = Some ''op_bad_price''"
| "LiquidityPoolDepositResultCode_String LiquidityPoolDepositPoolFull = Some ''op_pool_full''"
| "LiquidityPoolDepositResultCode_String LiquidityPoolDepositTrustlineFrozen = Some OpTrustlineFrozen"
| "LiquidityPoolDepositResultCode_String (LiquidityPoolDepositResultCode_other n) = None"

datatype LiquidityPoolWithdrawResultCode =
    LiquidityPoolWithdrawSuccess | LiquidityPoolWithdrawMalformed | LiquidityPoolWithdrawNoTrust
    | LiquidityPoolWithdrawUnderfunded | LiquidityPoolWithdrawLineFull
    | LiquidityPoolWithdrawUnderMinimum | LiquidityPoolWithdrawTrustlineFrozen
    | LiquidityPoolWithdrawResultCode_other int

primrec LiquidityPoolWithdrawResultCode_String :: "LiquidityPoolWithdrawResultCode \<Rightarrow> string option" where
  "LiquidityPoolWithdrawResultCode_String LiquidityPoolWithdrawSuccess = Some OpSuccess"
| "LiquidityPoolWithdrawResultCode_String LiquidityPoolWithdrawMalformed = Some OpMalformed"
| "LiquidityPoolWithdrawResultCode_String LiquidityPoolWithdrawNoTrust = Some OpNoTrust"
| "LiquidityPoolWithdrawResultCode_String LiquidityPoolWithdrawUnderfunded = Some OpUnderfunded"
| "LiquidityPoolWithdrawResultCode_String LiquidityPoolWithdrawLineFull = Some OpLineFull"
| "LiquidityPoolWithdrawResultCode_String LiquidityPoolWithdrawUnderMinimum = Some ''op_under_minimum''"
| "LiquidityPoolWithdrawResultCode_String LiquidityPoolWithdrawTrustlineFrozen = Some OpTrustlineFrozen"
| "LiquidityPoolWithdrawResultCode_String (LiquidityPoolWithdrawResultCode_other n) = None"

datatype InvokeHostFunctionResultCode =
    InvokeHostFunctionSuccess | InvokeHostFunctionMalformed | InvokeHostFunctionTrapped
    | InvokeHostFunctionResourceLimitExceeded | InvokeHostFunctionEntryArchived
    | InvokeHostFunctionInsufficientRefundableFee | InvokeHostFunctionResultCode_other int

primrec InvokeHostFunctionResultCode_String :: "InvokeHostFunctionResultCode \<Rightarrow> string option" where
  "InvokeHostFunctionResultCode_String InvokeHostFunctionSuccess = Some OpSuccess"
| "InvokeHostFunctionResultCode_String InvokeHostFunctionMalformed = Some OpMalformed"
| "InvokeHostFunctionResultCode_String InvokeHostFunctionTrapped = Some ''function_trapped''"
| "InvokeHostFunctionResultCode_String InvokeHostFunctionResourceLimitExceeded = Some ''resource_limit_exceeded''"
| "InvokeHostFunctionResultCode_String InvokeHostFunctionEntryArchived = Some ''entry_archived''"
| "InvokeHostFunctionResultCode_String InvokeHostFunctionInsufficientRefundableFee = Some ''insufficient_refundable_fee''"
| "InvokeHostFunctionResultCode_String (InvokeHostFunctionResultCode_other n) = None"

datatype ExtendFootprintTtlResultCode =
    ExtendFootprintTtlSuccess | ExtendFootprintTtlMalformed
    | ExtendFootprintTtlResourceLimitExceeded | ExtendFootprintTtlInsufficientRefundableFee
    | ExtendFootprintTtlResultCode_other int

primrec ExtendFootprintTtlResultCode_String :: "ExtendFootprintTtlResultCode \<Rightarrow> string option" where
  "ExtendFootprintTtlResultCode_String ExtendFootprintTtlSuccess = Some OpSuccess"
| "ExtendFootprintTtlResultCode_String ExtendFootprintTtlMalformed = Some OpMalformed"
| "ExtendFootprintTtlResultCode_String ExtendFootprintTtlResourceLimitExceeded = Some ''resource_limit_exceeded''"
| "ExtendFootprintTtlResultCode_String ExtendFootprintTtlInsufficientRefundableFee = Some ''insufficient_refundable_fee''"
| "ExtendFootprintTtlResultCode_String (ExtendFootprintTtlResultCode_other n) = None"

datatype RestoreFootprintResultCode =
    RestoreFootprintSuccess | RestoreFootprintMalformed | RestoreFootprintResourceLimitExceeded
    | RestoreFootprintInsufficientRefundableFee | RestoreFootprintResultCode_other int

primrec RestoreFootprintResultCode_String :: "RestoreFootprintResultCode \<Rightarrow> string option" where
  "RestoreFootprintResultCode_String RestoreFootprintSuccess = Some OpSuccess"
| "RestoreFootprintResultCode_String RestoreFootprintMalformed = Some OpMalformed"
| "RestoreFootprintResultCode_String RestoreFootprintResourceLimitExceeded = Some ''resource_limit_exceeded''"
| "RestoreFootprintResultCode_String RestoreFootprintInsufficientRefundableFee = Some ''insufficient_refundable_fee''"
| "RestoreFootprintResultCode_String (RestoreFootprintResultCode_other n) = None"

datatype xdr_code =
    TransactionCode TransactionResultCode
  | OperationCode OperationResultCode
  | CreateAccountCode CreateAccountResultCode
  | PaymentCode PaymentResultCode
  | PathPaymentStrictReceiveCode PathPaymentStrictReceiveResultCode
  | ManageBuyOfferCode ManageBuyOfferResultCode
  | ManageSellOfferCode ManageSellOfferResultCode
  | SetOptionsCode SetOptionsResultCode
  | ChangeTrustCode ChangeTrustResultCode
  | AllowTrustCode AllowTrustResultCode
  | AccountMergeCode AccountMergeResultCode
  | InflationCode InflationResultCode
  | ManageDataCode ManageDataResultCode
  | BumpSequenceCode BumpSequenceResultCode
  | PathPaymentStrictSendCode PathPaymentStrictSendResultCode
  | CreateClaimableBalanceCode CreateClaimableBalanceResultCode
  | ClaimClaimableBalanceCode ClaimClaimableBalanceResultCode
  | BeginSponsoringFutureReservesCode BeginSponsoringFutureReservesResultCode
  | EndSponsoringFutureReservesCode EndSponsoringFutureReservesResultCode
  | RevokeSponsorshipCode RevokeSponsorshipResultCode
  | ClawbackCode ClawbackResultCode
  | ClawbackClaimableBalanceCode ClawbackClaimableBalanceResultCode
  | SetTrustLineFlagsCode SetTrustLineFlagsResultCode
  | LiquidityPoolDepositCode LiquidityPoolDepositResultCode
  | LiquidityPoolWithdrawCode LiquidityPoolWithdrawResultCode
  | InvokeHostFunctionCode InvokeHostFunctionResultCode
  | ExtendFootprintTtlCode ExtendFootprintTtlResultCode
  | RestoreFootprintCode RestoreFootprintResultCode

primrec String :: "xdr_code \<Rightarrow> string option" where
  "String (TransactionCode c) = TransactionResultCode_String c"
| "String (OperationCode c) = OperationResultCode_String c"
| "String (CreateAccountCode c) = CreateAccountResultCode_String c"
| "String (PaymentCode c) = PaymentResultCode_String c"
| "String (PathPaymentStrictReceiveCode c) = PathPaymentStrictReceiveResultCode_String c"
| "String (ManageBuyOfferCode c) = ManageBuyOfferResultCode_String c"
| "String (ManageSellOfferCode c) = ManageSellOfferResultCode_String c"
| "String (SetOptionsCode c) = SetOptionsResultCode_String c"
| "String (ChangeTrustCode c) = ChangeTrustResultCode_String c"
| "String (AllowTrustCode c) = AllowTrustResultCode_String c"
| "String (AccountMergeCode c) = AccountMergeResultCode_String c"
| "String (InflationCode c) = InflationResultCode_String c"
| "String (ManageDataCode c) = ManageDataResultCode_String c"
| "String (BumpSequenceCode c) = BumpSequenceResultCode_String c"
| "String (PathPaymentStrictSendCode c) = PathPaymentStrictSendResultCode_String c"
| "String (CreateClaimableBalanceCode c) = CreateClaimableBalanceResultCode_String c"
| "String (ClaimClaimableBalanceCode c) = ClaimClaimableBalanceResultCode_String c"
| "String (BeginSponsoringFutureReservesCode c) = BeginSponsoringFutureReservesResultCode_String c"
| "String (EndSponsoringFutureReservesCode c) = EndSponsoringFutureReservesResultCode_String c"
| "String (RevokeSponsorshipCode c) = RevokeSponsorshipResultCode_String c"
| "String (ClawbackCode c) = ClawbackResultCode_String c"
| "String (ClawbackClaimableBalanceCode c) = ClawbackClaimableBalanceResultCode_String c"
| "String (SetTrustLineFlagsCode c) = SetTrustLineFlagsResultCode_String c"
| "String (LiquidityPoolDepositCode c) = LiquidityPoolDepositResultCode_String c"
| "String (LiquidityPoolWithdrawCode c) = LiquidityPoolWithdrawResultCode_String c"
| "String (InvokeHostFunctionCode c) = InvokeHostFunctionResultCode_String c"
| "String (ExtendFootprintTtlCode c) = ExtendFootprintTtlResultCode_String c"
| "String (RestoreFootprintCode c) = RestoreFootprintResultCode_String c"

subsection \<open>Results of operations\<close>

text \<open>
  The union \<open>OperationResultTr\<close>: the type of the operation with its result, of which the code is kept.
  A passive offer has the result type of a sell offer.
\<close>

datatype OperationResultTr =
    CreateAccountTr CreateAccountResultCode
  | PaymentTr PaymentResultCode
  | PathPaymentStrictReceiveTr PathPaymentStrictReceiveResultCode
  | ManageBuyOfferTr ManageBuyOfferResultCode
  | ManageSellOfferTr ManageSellOfferResultCode
  | CreatePassiveSellOfferTr ManageSellOfferResultCode
  | SetOptionsTr SetOptionsResultCode
  | ChangeTrustTr ChangeTrustResultCode
  | AllowTrustTr AllowTrustResultCode
  | AccountMergeTr AccountMergeResultCode
  | InflationTr InflationResultCode
  | ManageDataTr ManageDataResultCode
  | BumpSequenceTr BumpSequenceResultCode
  | PathPaymentStrictSendTr PathPaymentStrictSendResultCode
  | CreateClaimableBalanceTr CreateClaimableBalanceResultCode
  | ClaimClaimableBalanceTr ClaimClaimableBalanceResultCode
  | BeginSponsoringFutureReservesTr BeginSponsoringFutureReservesResultCode
  | EndSponsoringFutureReservesTr EndSponsoringFutureReservesResultCode
  | RevokeSponsorshipTr RevokeSponsorshipResultCode
  | ClawbackTr ClawbackResultCode
  | ClawbackClaimableBalanceTr ClawbackClaimableBalanceResultCode
  | SetTrustLineFlagsTr SetTrustLineFlagsResultCode
  | LiquidityPoolDepositTr LiquidityPoolDepositResultCode
  | LiquidityPoolWithdrawTr LiquidityPoolWithdrawResultCode
  | InvokeHostFunctionTr InvokeHostFunctionResultCode
  | ExtendFootprintTtlTr ExtendFootprintTtlResultCode
  | RestoreFootprintTr RestoreFootprintResultCode
  | OtherTr int

record OperationResult =
  oprCode :: OperationResultCode
  oprTr :: "OperationResultTr option"

datatype codes_error = ErrUnknownCode | MustTrPanic

text \<open>\<open>ic\<close> of the code: the inner code as an interface value, \<open>None\<close> the untouched \<open>nil\<close>.\<close>

primrec inner_code :: "OperationResultTr \<Rightarrow> xdr_code option" where
  "inner_code (CreateAccountTr c) = Some (CreateAccountCode c)"
| "inner_code (PaymentTr c) = Some (PaymentCode c)"
| "inner_code (PathPaymentStrictReceiveTr c) = Some (PathPaymentStrictReceiveCode c)"
| "inner_code (ManageBuyOfferTr c) = Some (ManageBuyOfferCode c)"
| "inner_code (ManageSellOfferTr c) = Some (ManageSellOfferCode c)"
| "inner_code (CreatePassiveSellOfferTr c) = Some (ManageSellOfferCode c)"
| "inner_code (SetOptionsTr c) = Some (SetOptionsCode c)"
| "inner_code (ChangeTrustTr c) = Some (ChangeTrustCode c)"
| "inner_code (AllowTrustTr c) = Some (AllowTrustCode c)"
| "inner_code (AccountMergeTr c) = Some (AccountMergeCode c)"
| "inner_code (InflationTr c) = Some (InflationCode c)"
| "inner_code (ManageDataTr c) = Some (ManageDataCode c)"
| "inner_code (BumpSequenceTr c) = Some (BumpSequenceCode c)"
| "inner_code (PathPaymentStrictSendTr c) = Some (PathPaymentStrictSendCode c)"
| "inner_code (CreateClaimableBalanceTr c) = Some (CreateClaimableBalanceCode c)"
| "inner_code (ClaimClaimableBalanceTr c) = Some (ClaimClaimableBalanceCode c)"
| "inner_code (BeginSponsoringFutureReservesTr c) = Some (BeginSponsoringFutureReservesCode c)"
| "inner_code (EndSponsoringFutureReservesTr c) = Some (EndSponsoringFutureReservesCode c)"
| "inner_code (RevokeSponsorshipTr c) = Some (RevokeSponsorshipCode c)"
| "inner_code (ClawbackTr c) = Some (ClawbackCode c)"
| "inner_code (ClawbackClaimableBalanceTr c) = Some (ClawbackClaimableBalanceCode c)"
| "inner_code (SetTrustLineFlagsTr c) = Some (SetTrustLineFlagsCode c)"
| "inner_code (LiquidityPoolDepositTr c) = Some (LiquidityPoolDepositCode c)"
| "inner_code (LiquidityPoolWithdrawTr c) = Some (LiquidityPoolWithdrawCode c)"
| "inner_code (InvokeHostFunctionTr c) = Some (InvokeHostFunctionCode c)"
| "inner_code (ExtendFootprintTtlTr c) = Some (ExtendFootprintTtlCode c)"
| "inner_code (RestoreFootprintTr c) = Some (RestoreFootprintCode c)"
| "inner_code (OtherTr n) = None"

definition String_result :: "xdr_code option \<Rightarrow> codes_error + string" where
  "String_result ic = (case ic of None \<Rightarrow> Inl ErrUnknownCode
     | Some c \<Rightarrow> (case String c of None \<Rightarrow> Inl ErrUnknownCode | Some s \<Rightarrow> Inr s))"

definition ForOperationResult :: "OperationResult \<Rightarrow> codes_error + string" where
  "ForOperationResult opr =
     (if oprCode opr \<noteq> OpInner then String_result (Some (OperationCode (oprCode opr)))
      else case oprTr opr of
             None \<Rightarrow> Inl MustTrPanic
           | Some ir \<Rightarrow> String_result (inner_code ir))"

subsection \<open>Unambiguous strings\<close>

lemma TransactionResultCode_inj:
  "TransactionResultCode_String c = TransactionResultCode_String c' \<Longrightarrow>
     TransactionResultCode_String c \<noteq> None \<Longrightarrow> c = c'"
  by (cases c; cases c') (simp_all add: op_strings)

lemma OperationResultCode_inj:
  "OperationResultCode_String c = OperationResultCode_String c' \<Longrightarrow>
     OperationResultCode_String c \<noteq> None \<Longrightarrow> c = c'"
  by (cases c; cases c') (simp_all add: op_strings)

lemma CreateAccountResultCode_inj:
  "CreateAccountResultCode_String c = CreateAccountResultCode_String c' \<Longrightarrow>
     CreateAccountResultCode_String c \<noteq> None \<Longrightarrow> c = c'"
  by (cases c; cases c') (simp_all add: op_strings)

lemma PaymentResultCode_inj:
  "PaymentResultCode_String c = PaymentResultCode_String c' \<Longrightarrow>
     PaymentResultCode_String c \<noteq> None \<Longrightarrow> c = c'"
  by (cases c; cases c') (simp_all add: op_strings)

lemma PathPaymentStrictReceiveResultCode_inj:
  "PathPaymentStrictReceiveResultCode_String c = PathPaymentStrictReceiveResultCode_String c' \<Longrightarrow>
     PathPaymentStrictReceiveResultCode_String c \<noteq> None \<Longrightarrow> c = c'"
  by (cases c; cases c') (simp_all add: op_strings)

lemma ManageBuyOfferResultCode_inj:
  "ManageBuyOfferResultCode_String c = ManageBuyOfferResultCode_String c' \<Longrightarrow>
     ManageBuyOfferResultCode_String c \<noteq> None \<Longrightarrow> c = c'"
  by (cases c; cases c') (simp_all add: op_strings)

lemma ManageSellOfferResultCode_inj:
  "ManageSellOfferResultCode_String c = ManageSellOfferResultCode_String c' \<Longrightarrow>
     ManageSellOfferResultCode_String c \<noteq> None \<Longrightarrow> c = c'"
  by (cases c; cases c') (simp_all add: op_strings)

lemma SetOptionsResultCode_inj:
  "SetOptionsResultCode_String c = SetOptionsResultCode_String c' \<Longrightarrow>
     SetOptionsResultCode_String c \<noteq> None \<Longrightarrow> c = c'"
  by (cases c; cases c') (simp_all add: op_strings)

lemma ChangeTrustResultCode_inj:
  "ChangeTrustResultCode_String c = ChangeTrustResultCode_String c' \<Longrightarrow>
     ChangeTrustResultCode_String c \<noteq> None \<Longrightarrow> c = c'"
  by (cases c; cases c') (simp_all add: op_strings)

lemma AllowTrustResultCode_inj:
  "AllowTrustResultCode_String c = AllowTrustResultCode_String c' \<Longrightarrow>
     AllowTrustResultCode_String c \<noteq> None \<Longrightarrow> c = c'"
  by (cases c; cases c') (simp_all add: op_strings)

lemma AccountMergeResultCode_inj:
  "AccountMergeResultCode_String c = AccountMergeResultCode_String c' \<Longrightarrow>
     AccountMergeResultCode_String c \<noteq> None \<Longrightarrow> c = c'"
  by (cases c; cases c') (simp_all add: op_strings)

lemma InflationResultCode_inj:
  "InflationResultCode_String c = InflationResultCode_String c' \<Longrightarrow>
     InflationResultCode_String c \<noteq> None \<Longrightarrow> c = c'"
  by (cases c; cases c') (simp_all add: op_strings)

lemma ManageDataResultCode_inj:
  "ManageDataResultCode_String c = ManageDataResultCode_String c' \<Longrightarrow>
     ManageDataResultCode_String c \<noteq> None \<Longrightarrow> c = c'"
  by (cases c; cases c') (simp_all add: op_strings)

lemma BumpSequenceResultCode_inj:
  "BumpSequenceResultCode_String c = BumpSequenceResultCode_String c' \<Longrightarrow>
     BumpSequenceResultCode_String c \<noteq> None \<Longrightarrow> c = c'"
  by (cases c; cases c') (simp_all add: op_strings)

lemma PathPaymentStrictSendResultCode_inj:
  "PathPaymentStrictSendResultCode_String c = PathPaymentStrictSendResultCode_String c' \<Longrightarrow>
     PathPaymentStrictSendResultCode_String c \<noteq> None \<Longrightarrow> c = c'"
  by (cases c; cases c') (simp_all add: op_strings)

lemma CreateClaimableBalanceResultCode_inj:
  "CreateClaimableBalanceResultCode_String c = CreateClaimableBalanceResultCode_String c' \<Longrightarrow>
     CreateClaimableBalanceResultCode_String c \<noteq> None \<Longrightarrow> c = c'"
  by (cases c; cases c') (simp_all add: op_strings)

lemma ClaimClaimableBalanceResultCode_inj:
  "ClaimClaimableBalanceResultCode_String c = ClaimClaimableBalanceResultCode_String c' \<Longrightarrow>
     ClaimClaimableBalanceResultCode_String c \<noteq> None \<Longrightarrow> c = c'"
  by (cases c; cases c') (simp_all add: op_strings)

lemma BeginSponsoringFutureReservesResultCode_inj:
  "BeginSponsoringFutureReservesResultCode_String c = BeginSponsoringFutureReservesResultCode_String c' \<Longrightarrow>
     BeginSponsoringFutureReservesResultCode_String c \<noteq> None \<Longrightarrow> c = c'"
  by (cases c; cases c') (simp_all add: op_strings)

lemma EndSponsoringFutureReservesResultCode_inj:
  "EndSponsoringFutureReservesResultCode_String c = EndSponsoringFutureReservesResultCode_String c' \<Longrightarrow>
     EndSponsoringFutureReservesResultCode_String c \<noteq> None \<Longrightarrow> c = c'"
  by (cases c; cases c') (simp_all add: op_strings)

lemma RevokeSponsorshipResultCode_inj:
  "RevokeSponsorshipResultCode_String c = RevokeSponsorshipResultCode_String c' \<Longrightarrow>
     RevokeSponsorshipResultCode_String c \<noteq> None \<Longrightarrow> c = c'"
  by (cases c; cases c') (simp_all add: op_strings)

lemma ClawbackResultCode_inj:
  "ClawbackResultCode_String c = ClawbackResultCode_String c' \<Longrightarrow>
     ClawbackResultCode_String c \<noteq> None \<Longrightarrow> c = c'"
  by (cases c; cases c') (simp_all add: op_strings)

lemma ClawbackClaimableBalanceResultCode_inj:
  "ClawbackClaimableBalanceResultCode_String c = ClawbackClaimableBalanceResultCode_String c' \<Longrightarrow>
     ClawbackClaimableBalanceResultCode_String c \<noteq> None \<Longrightarrow> c = c'"
  by (cases c; cases c') (simp_all add: op_strings)

lemma SetTrustLineFlagsResultCode_inj:
  "SetTrustLineFlagsResultCode_String c = SetTrustLineFlagsResultCode_String c' \<Longrightarrow>
     SetTrustLineFlagsResultCode_String c \<noteq> None \<Longrightarrow> c = c'"
  by (cases c; cases c') (simp_all add: op_strings)

lemma LiquidityPoolDepositResultCode_inj:
  "LiquidityPoolDepositResultCode_String c = LiquidityPoolDepositResultCode_String c' \<Longrightarrow>
     LiquidityPoolDepositResultCode_String c \<noteq> None \<Longrightarrow> c = c'"
  by (cases c; cases c') (simp_all add: op_strings)

lemma LiquidityPoolWithdrawResultCode_inj:
  "LiquidityPoolWithdrawResultCode_String c = LiquidityPoolWithdrawResultCode_String c' \<Longrightarrow>
     LiquidityPoolWithdrawResultCode_String c \<noteq> None \<Longrightarrow> c = c'"
  by (cases c; cases c') (simp_all add: op_strings)

lemma InvokeHostFunctionResultCode_inj:
  "InvokeHostFunctionResultCode_String c = InvokeHostFunctionResultCode_String c' \<Longrightarrow>
     InvokeHostFunctionResultCode_String c \<noteq> None \<Longrightarrow> c = c'"
  by (cases c; cases c') (simp_all add: op_strings)

lemma ExtendFootprintTtlResultCode_inj:
  "ExtendFootprintTtlResultCode_String c = ExtendFootprintTtlResultCode_String c' \<Longrightarrow>
     ExtendFootprintTtlResultCode_String c \<noteq> None \<Longrightarrow> c = c'"
  by (cases c; cases c') (simp_all add: op_strings)

lemma RestoreFootprintResultCode_inj:
  "RestoreFootprintResultCode_String c = RestoreFootprintResultCode_String c' \<Longrightarrow>
     RestoreFootprintResultCode_String c \<noteq> None \<Longrightarrow> c = c'"
  by (cases c; cases c') (simp_all add: op_strings)

lemmas code_inj = TransactionResultCode_inj OperationResultCode_inj CreateAccountResultCode_inj
  PaymentResultCode_inj PathPaymentStrictReceiveResultCode_inj ManageBuyOfferResultCode_inj
  ManageSellOfferResultCode_inj SetOptionsResultCode_inj ChangeTrustResultCode_inj
  AllowTrustResultCode_inj AccountMergeResultCode_inj InflationResultCode_inj
  ManageDataResultCode_inj BumpSequenceResultCode_inj PathPaymentStrictSendResultCode_inj
  CreateClaimableBalanceResultCode_inj ClaimClaimableBalanceResultCode_inj
  BeginSponsoringFutureReservesResultCode_inj EndSponsoringFutureReservesResultCode_inj
  RevokeSponsorshipResultCode_inj ClawbackResultCode_inj ClawbackClaimableBalanceResultCode_inj
  SetTrustLineFlagsResultCode_inj LiquidityPoolDepositResultCode_inj
  LiquidityPoolWithdrawResultCode_inj InvokeHostFunctionResultCode_inj
  ExtendFootprintTtlResultCode_inj RestoreFootprintResultCode_inj

definition outer_strings :: "string list" where
  "outer_strings = [''op_inner'', ''op_bad_auth'', ''op_no_source_account'', ''op_not_supported'',
     ''op_too_many_subentries'', ''op_exceeded_work_limit'', ''op_too_many_sponsoring'']"

lemma OperationResultCode_outer: "OperationResultCode_String c = Some s \<Longrightarrow> s \<in> set outer_strings"
  by (cases c) (auto simp: outer_strings_def)

lemma CreateAccountResultCode_inner:
  "CreateAccountResultCode_String c = Some s \<Longrightarrow> s \<notin> set outer_strings"
  by (cases c) (auto simp: outer_strings_def op_strings)

lemma PaymentResultCode_inner:
  "PaymentResultCode_String c = Some s \<Longrightarrow> s \<notin> set outer_strings"
  by (cases c) (auto simp: outer_strings_def op_strings)

lemma PathPaymentStrictReceiveResultCode_inner:
  "PathPaymentStrictReceiveResultCode_String c = Some s \<Longrightarrow> s \<notin> set outer_strings"
  by (cases c) (auto simp: outer_strings_def op_strings)

lemma ManageBuyOfferResultCode_inner:
  "ManageBuyOfferResultCode_String c = Some s \<Longrightarrow> s \<notin> set outer_strings"
  by (cases c) (auto simp: outer_strings_def op_strings)

lemma ManageSellOfferResultCode_inner:
  "ManageSellOfferResultCode_String c = Some s \<Longrightarrow> s \<notin> set outer_strings"
  by (cases c) (auto simp: outer_strings_def op_strings)

lemma SetOptionsResultCode_inner:
  "SetOptionsResultCode_String c = Some s \<Longrightarrow> s \<notin> set outer_strings"
  by (cases c) (auto simp: outer_strings_def op_strings)

lemma ChangeTrustResultCode_inner:
  "ChangeTrustResultCode_String c = Some s \<Longrightarrow> s \<notin> set outer_strings"
  by (cases c) (auto simp: outer_strings_def op_strings)

lemma AllowTrustResultCode_inner:
  "AllowTrustResultCode_String c = Some s \<Longrightarrow> s \<notin> set outer_strings"
  by (cases c) (auto simp: outer_strings_def op_strings)

lemma AccountMergeResultCode_inner:
  "AccountMergeResultCode_String c = Some s \<Longrightarrow> s \<notin> set outer_strings"
  by (cases c) (auto simp: outer_strings_def op_strings)

lemma InflationResultCode_inner:
  "InflationResultCode_String c = Some s \<Longrightarrow> s \<notin> set outer_strings"
  by (cases c) (auto simp: outer_strings_def op_strings)

lemma ManageDataResultCode_inner:
  "ManageDataResultCode_String c = Some s \<Longrightarrow> s \<notin> set outer_strings"
  by (cases c) (auto simp: outer_strings_def op_strings)

lemma BumpSequenceResultCode_inner:
  "BumpSequenceResultCode_String c = Some s \<Longrightarrow> s \<notin> set outer_strings"
  by (cases c) (auto simp: outer_strings_def op_strings)

lemma PathPaymentStrictSendResultCode_inner:
  "PathPaymentStrictSendResultCode_String c = Some s \<Longrightarrow> s \<notin> set outer_strings"
  by (cases c) (auto simp: outer_strings_def op_strings)

lemma CreateClaimableBalanceResultCode_inner:
  "CreateClaimableBalanceResultCode_String c = Some s \<Longrightarrow> s \<notin> set outer_strings"
  by (cases c) (auto simp: outer_strings_def op_strings)

lemma ClaimClaimableBalanceResultCode_inner:
  "ClaimClaimableBalanceResultCode_String c = Some s \<Longrightarrow> s \<notin> set outer_strings"
  by (cases c) (auto simp: outer_strings_def op_strings)

lemma BeginSponsoringFutureReservesResultCode_inner:
  "BeginSponsoringFutureReservesResultCode_String c = Some s \<Longrightarrow> s \<notin> set outer_strings"
  by (cases c) (auto simp: outer_strings_def op_strings)

lemma EndSponsoringFutureReservesResultCode_inner:
  "EndSponsoringFutureReservesResultCode_String c = Some s \<Longrightarrow> s \<notin> set outer_strings"
  by (cases c) (auto simp: outer_strings_def op_strings)

lemma RevokeSponsorshipResultCode_inner:
  "RevokeSponsorshipResultCode_String c = Some s \<Longrightarrow> s \<notin> set outer_strings"
  by (cases c) (auto simp: outer_strings_def op_strings)

lemma ClawbackResultCode_inner:
  "ClawbackResultCode_String c = Some s \<Longrightarrow> s \<notin> set outer_strings"
  by (cases c) (auto simp: outer_strings_def op_strings)

lemma ClawbackClaimableBalanceResultCode_inner:
  "ClawbackClaimableBalanceResultCode_String c = Some s \<Longrightarrow> s \<notin> set outer_strings"
  by (cases c) (auto simp: outer_strings_def op_strings)

lemma SetTrustLineFlagsResultCode_inner:
  "SetTrustLineFlagsResultCode_String c = Some s \<Longrightarrow> s \<notin> set outer_strings"
  by (cases c) (auto simp: outer_strings_def op_strings)

lemma LiquidityPoolDepositResultCode_inner:
  "LiquidityPoolDepositResultCode_String c = Some s \<Longrightarrow> s \<notin> set outer_strings"
  by (cases c) (auto simp: outer_strings_def op_strings)

lemma LiquidityPoolWithdrawResultCode_inner:
  "LiquidityPoolWithdrawResultCode_String c = Some s \<Longrightarrow> s \<notin> set outer_strings"
  by (cases c) (auto simp: outer_strings_def op_strings)

lemma InvokeHostFunctionResultCode_inner:
  "InvokeHostFunctionResultCode_String c = Some s \<Longrightarrow> s \<notin> set outer_strings"
  by (cases c) (auto simp: outer_strings_def op_strings)

lemma ExtendFootprintTtlResultCode_inner:
  "ExtendFootprintTtlResultCode_String c = Some s \<Longrightarrow> s \<notin> set outer_strings"
  by (cases c) (auto simp: outer_strings_def op_strings)

lemma RestoreFootprintResultCode_inner:
  "RestoreFootprintResultCode_String c = Some s \<Longrightarrow> s \<notin> set outer_strings"
  by (cases c) (auto simp: outer_strings_def op_strings)

lemmas code_inner = CreateAccountResultCode_inner PaymentResultCode_inner PathPaymentStrictReceiveResultCode_inner
  ManageBuyOfferResultCode_inner ManageSellOfferResultCode_inner SetOptionsResultCode_inner
  ChangeTrustResultCode_inner AllowTrustResultCode_inner AccountMergeResultCode_inner
  InflationResultCode_inner ManageDataResultCode_inner BumpSequenceResultCode_inner
  PathPaymentStrictSendResultCode_inner CreateClaimableBalanceResultCode_inner
  ClaimClaimableBalanceResultCode_inner BeginSponsoringFutureReservesResultCode_inner
  EndSponsoringFutureReservesResultCode_inner RevokeSponsorshipResultCode_inner
  ClawbackResultCode_inner ClawbackClaimableBalanceResultCode_inner
  SetTrustLineFlagsResultCode_inner LiquidityPoolDepositResultCode_inner
  LiquidityPoolWithdrawResultCode_inner InvokeHostFunctionResultCode_inner
  ExtendFootprintTtlResultCode_inner RestoreFootprintResultCode_inner

lemma CreateAccountResultCode_success: "CreateAccountResultCode_String c = Some OpSuccess \<longleftrightarrow> c = CreateAccountSuccess"
  by (cases c) (simp_all add: op_strings)

lemma PaymentResultCode_success: "PaymentResultCode_String c = Some OpSuccess \<longleftrightarrow> c = PaymentSuccess"
  by (cases c) (simp_all add: op_strings)

lemma PathPaymentStrictReceiveResultCode_success: "PathPaymentStrictReceiveResultCode_String c = Some OpSuccess \<longleftrightarrow> c = PathPaymentStrictReceiveSuccess"
  by (cases c) (simp_all add: op_strings)

lemma ManageBuyOfferResultCode_success: "ManageBuyOfferResultCode_String c = Some OpSuccess \<longleftrightarrow> c = ManageBuyOfferSuccess"
  by (cases c) (simp_all add: op_strings)

lemma ManageSellOfferResultCode_success: "ManageSellOfferResultCode_String c = Some OpSuccess \<longleftrightarrow> c = ManageSellOfferSuccess"
  by (cases c) (simp_all add: op_strings)

lemma SetOptionsResultCode_success: "SetOptionsResultCode_String c = Some OpSuccess \<longleftrightarrow> c = SetOptionsSuccess"
  by (cases c) (simp_all add: op_strings)

lemma ChangeTrustResultCode_success: "ChangeTrustResultCode_String c = Some OpSuccess \<longleftrightarrow> c = ChangeTrustSuccess"
  by (cases c) (simp_all add: op_strings)

lemma AllowTrustResultCode_success: "AllowTrustResultCode_String c = Some OpSuccess \<longleftrightarrow> c = AllowTrustSuccess"
  by (cases c) (simp_all add: op_strings)

lemma AccountMergeResultCode_success: "AccountMergeResultCode_String c = Some OpSuccess \<longleftrightarrow> c = AccountMergeSuccess"
  by (cases c) (simp_all add: op_strings)

lemma InflationResultCode_success: "InflationResultCode_String c = Some OpSuccess \<longleftrightarrow> c = InflationSuccess"
  by (cases c) (simp_all add: op_strings)

lemma ManageDataResultCode_success: "ManageDataResultCode_String c = Some OpSuccess \<longleftrightarrow> c = ManageDataSuccess"
  by (cases c) (simp_all add: op_strings)

lemma BumpSequenceResultCode_success: "BumpSequenceResultCode_String c = Some OpSuccess \<longleftrightarrow> c = BumpSequenceSuccess"
  by (cases c) (simp_all add: op_strings)

lemma PathPaymentStrictSendResultCode_success: "PathPaymentStrictSendResultCode_String c = Some OpSuccess \<longleftrightarrow> c = PathPaymentStrictSendSuccess"
  by (cases c) (simp_all add: op_strings)

lemma CreateClaimableBalanceResultCode_success: "CreateClaimableBalanceResultCode_String c = Some OpSuccess \<longleftrightarrow> c = CreateClaimableBalanceSuccess"
  by (cases c) (simp_all add: op_strings)

lemma ClaimClaimableBalanceResultCode_success: "ClaimClaimableBalanceResultCode_String c = Some OpSuccess \<longleftrightarrow> c = ClaimClaimableBalanceSuccess"
  by (cases c) (simp_all add: op_strings)

lemma BeginSponsoringFutureReservesResultCode_success: "BeginSponsoringFutureReservesResultCode_String c = Some OpSuccess \<longleftrightarrow> c = BeginSponsoringFutureReservesSuccess"
  by (cases c) (simp_all add: op_strings)

lemma EndSponsoringFutureReservesResultCode_success: "EndSponsoringFutureReservesResultCode_String c = Some OpSuccess \<longleftrightarrow> c = EndSponsoringFutureReservesSuccess"
  by (cases c) (simp_all add: op_strings)

lemma RevokeSponsorshipResultCode_success: "RevokeSponsorshipResultCode_String c = Some OpSuccess \<longleftrightarrow> c = RevokeSponsorshipSuccess"
  by (cases c) (simp_all add: op_strings)

lemma ClawbackResultCode_success: "ClawbackResultCode_String c = Some OpSuccess \<longleftrightarrow> c = ClawbackSuccess"
  by (cases c) (simp_all add: op_strings)

lemma ClawbackClaimableBalanceResultCode_success: "ClawbackClaimableBalanceResultCode_String c = Some OpSuccess \<longleftrightarrow> c = ClawbackClaimableBalanceSuccess"
  by (cases c) (simp_all add: op_strings)

lemma SetTrustLineFlagsResultCode_success: "SetTrustLineFlagsResultCode_String c = Some OpSuccess \<longleftrightarrow> c = SetTrustLineFlagsSuccess"
  by (cases c) (simp_all add: op_strings)

lemma LiquidityPoolDepositResultCode_success: "LiquidityPoolDepositResultCode_String c = Some OpSuccess \<longleftrightarrow> c = LiquidityPoolDepositSuccess"
  by (cases c) (simp_all add: op_strings)

lemma LiquidityPoolWithdrawResultCode_success: "LiquidityPoolWithdrawResultCode_String c = Some OpSuccess \<longleftrightarrow> c = LiquidityPoolWithdrawSuccess"
  by (cases c) (simp_all add: op_strings)

lemma InvokeHostFunctionResultCode_success: "InvokeHostFunctionResultCode_String c = Some OpSuccess \<longleftrightarrow> c = InvokeHostFunctionSuccess"
  by (cases c) (simp_all add: op_strings)

lemma ExtendFootprintTtlResultCode_success: "ExtendFootprintTtlResultCode_String c = Some OpSuccess \<longleftrightarrow> c = ExtendFootprintTtlSuccess"
  by (cases c) (simp_all add: op_strings)

lemma RestoreFootprintResultCode_success: "RestoreFootprintResultCode_String c = Some OpSuccess \<longleftrightarrow> c = RestoreFootprintSuccess"
  by (cases c) (simp_all add: op_strings)

lemmas code_success = CreateAccountResultCode_success PaymentResultCode_success
  PathPaymentStrictReceiveResultCode_success ManageBuyOfferResultCode_success
  ManageSellOfferResultCode_success SetOptionsResultCode_success ChangeTrustResultCode_success
  AllowTrustResultCode_success AccountMergeResultCode_success InflationResultCode_success
  ManageDataResultCode_success BumpSequenceResultCode_success
  PathPaymentStrictSendResultCode_success CreateClaimableBalanceResultCode_success
  ClaimClaimableBalanceResultCode_success BeginSponsoringFutureReservesResultCode_success
  EndSponsoringFutureReservesResultCode_success RevokeSponsorshipResultCode_success
  ClawbackResultCode_success ClawbackClaimableBalanceResultCode_success
  SetTrustLineFlagsResultCode_success LiquidityPoolDepositResultCode_success
  LiquidityPoolWithdrawResultCode_success InvokeHostFunctionResultCode_success
  ExtendFootprintTtlResultCode_success RestoreFootprintResultCode_success

text \<open>The type of the operation, the discriminant of the union.\<close>

primrec operation_type :: "OperationResultTr \<Rightarrow> int" where
  "operation_type (CreateAccountTr c) = 0"
| "operation_type (PaymentTr c) = 1"
| "operation_type (PathPaymentStrictReceiveTr c) = 2"
| "operation_type (ManageBuyOfferTr c) = 12"
| "operation_type (ManageSellOfferTr c) = 3"
| "operation_type (CreatePassiveSellOfferTr c) = 4"
| "operation_type (SetOptionsTr c) = 5"
| "operation_type (ChangeTrustTr c) = 6"
| "operation_type (AllowTrustTr c) = 7"
| "operation_type (AccountMergeTr c) = 8"
| "operation_type (InflationTr c) = 9"
| "operation_type (ManageDataTr c) = 10"
| "operation_type (BumpSequenceTr c) = 11"
| "operation_type (PathPaymentStrictSendTr c) = 13"
| "operation_type (CreateClaimableBalanceTr c) = 14"
| "operation_type (ClaimClaimableBalanceTr c) = 15"
| "operation_type (BeginSponsoringFutureReservesTr c) = 16"
| "operation_type (EndSponsoringFutureReservesTr c) = 17"
| "operation_type (RevokeSponsorshipTr c) = 18"
| "operation_type (ClawbackTr c) = 19"
| "operation_type (ClawbackClaimableBalanceTr c) = 20"
| "operation_type (SetTrustLineFlagsTr c) = 21"
| "operation_type (LiquidityPoolDepositTr c) = 22"
| "operation_type (LiquidityPoolWithdrawTr c) = 23"
| "operation_type (InvokeHostFunctionTr c) = 24"
| "operation_type (ExtendFootprintTtlTr c) = 25"
| "operation_type (RestoreFootprintTr c) = 26"
| "operation_type (OtherTr n) = n"

text \<open>The operation was applied: its result carries the success code of its type.\<close>

primrec operation_applied :: "OperationResultTr \<Rightarrow> bool" where
  "operation_applied (CreateAccountTr c) \<longleftrightarrow> c = CreateAccountSuccess"
| "operation_applied (PaymentTr c) \<longleftrightarrow> c = PaymentSuccess"
| "operation_applied (PathPaymentStrictReceiveTr c) \<longleftrightarrow> c = PathPaymentStrictReceiveSuccess"
| "operation_applied (ManageBuyOfferTr c) \<longleftrightarrow> c = ManageBuyOfferSuccess"
| "operation_applied (ManageSellOfferTr c) \<longleftrightarrow> c = ManageSellOfferSuccess"
| "operation_applied (CreatePassiveSellOfferTr c) \<longleftrightarrow> c = ManageSellOfferSuccess"
| "operation_applied (SetOptionsTr c) \<longleftrightarrow> c = SetOptionsSuccess"
| "operation_applied (ChangeTrustTr c) \<longleftrightarrow> c = ChangeTrustSuccess"
| "operation_applied (AllowTrustTr c) \<longleftrightarrow> c = AllowTrustSuccess"
| "operation_applied (AccountMergeTr c) \<longleftrightarrow> c = AccountMergeSuccess"
| "operation_applied (InflationTr c) \<longleftrightarrow> c = InflationSuccess"
| "operation_applied (ManageDataTr c) \<longleftrightarrow> c = ManageDataSuccess"
| "operation_applied (BumpSequenceTr c) \<longleftrightarrow> c = BumpSequenceSuccess"
| "operation_applied (PathPaymentStrictSendTr c) \<longleftrightarrow> c = PathPaymentStrictSendSuccess"
| "operation_applied (CreateClaimableBalanceTr c) \<longleftrightarrow> c = CreateClaimableBalanceSuccess"
| "operation_applied (ClaimClaimableBalanceTr c) \<longleftrightarrow> c = ClaimClaimableBalanceSuccess"
| "operation_applied (BeginSponsoringFutureReservesTr c) \<longleftrightarrow> c = BeginSponsoringFutureReservesSuccess"
| "operation_applied (EndSponsoringFutureReservesTr c) \<longleftrightarrow> c = EndSponsoringFutureReservesSuccess"
| "operation_applied (RevokeSponsorshipTr c) \<longleftrightarrow> c = RevokeSponsorshipSuccess"
| "operation_applied (ClawbackTr c) \<longleftrightarrow> c = ClawbackSuccess"
| "operation_applied (ClawbackClaimableBalanceTr c) \<longleftrightarrow> c = ClawbackClaimableBalanceSuccess"
| "operation_applied (SetTrustLineFlagsTr c) \<longleftrightarrow> c = SetTrustLineFlagsSuccess"
| "operation_applied (LiquidityPoolDepositTr c) \<longleftrightarrow> c = LiquidityPoolDepositSuccess"
| "operation_applied (LiquidityPoolWithdrawTr c) \<longleftrightarrow> c = LiquidityPoolWithdrawSuccess"
| "operation_applied (InvokeHostFunctionTr c) \<longleftrightarrow> c = InvokeHostFunctionSuccess"
| "operation_applied (ExtendFootprintTtlTr c) \<longleftrightarrow> c = ExtendFootprintTtlSuccess"
| "operation_applied (RestoreFootprintTr c) \<longleftrightarrow> c = RestoreFootprintSuccess"
| "operation_applied (OtherTr n) \<longleftrightarrow> False"

lemma String_result_Inr: "String_result ic = Inr s \<longleftrightarrow> (\<exists>c. ic = Some c \<and> String c = Some s)"
  by (auto simp: String_result_def split: option.splits)

lemma inner_code_inj:
  assumes "inner_code tr = Some c" "inner_code tr' = Some c'" "String c = Some s" "String c' = Some s"
    and "operation_type tr = operation_type tr'"
  shows "tr = tr'"
proof -
  have "String c = String c'" "String c \<noteq> None"
    using assms by simp_all
  then show ?thesis
    using assms(1,2,5) by (cases tr; cases tr') (auto intro!: code_inj)
qed

lemma inner_code_inner: "inner_code tr = Some c \<Longrightarrow> String c = Some s \<Longrightarrow> s \<notin> set outer_strings"
  by (cases tr) (auto dest: code_inner)

lemma inner_code_success:
  "(\<exists>c. inner_code tr = Some c \<and> String c = Some OpSuccess) \<longleftrightarrow> operation_applied tr"
  by (cases tr) (simp_all add: code_success)

lemma ForOperationResult_Inr:
  "ForOperationResult r = Inr s \<longleftrightarrow>
     (if oprCode r \<noteq> OpInner then OperationResultCode_String (oprCode r) = Some s
      else \<exists>tr c. oprTr r = Some tr \<and> inner_code tr = Some c \<and> String c = Some s)"
  by (auto simp: ForOperationResult_def String_result_Inr split: option.splits)

text \<open>
  Two results of the same operation type for which the same string is reported are the same: no
  two result codes share a string, neither within a type of operation nor between the codes of the
  operation envelope and those of its inner result.
\<close>
theorem operation_string_unambiguous:
  assumes "ForOperationResult r = Inr s" "ForOperationResult r' = Inr s"
    and "oprCode r = OpInner \<Longrightarrow> oprCode r' = OpInner \<Longrightarrow>
           map_option operation_type (oprTr r) = map_option operation_type (oprTr r')"
  shows "oprCode r = oprCode r' \<and> (oprCode r = OpInner \<longrightarrow> oprTr r = oprTr r')"
proof (cases "oprCode r = OpInner"; cases "oprCode r' = OpInner")
  assume i: "oprCode r = OpInner" "oprCode r' = OpInner"
  then obtain tr c tr' c' where t: "oprTr r = Some tr" "inner_code tr = Some c" "String c = Some s"
      "oprTr r' = Some tr'" "inner_code tr' = Some c'" "String c' = Some s"
    using assms(1,2) by (auto simp: ForOperationResult_Inr)
  then have "tr = tr'"
    using assms(3) i inner_code_inj by fastforce
  with i t show ?thesis by simp
next
  assume "oprCode r \<noteq> OpInner" "oprCode r' \<noteq> OpInner"
  then have "OperationResultCode_String (oprCode r) = Some s"
    "OperationResultCode_String (oprCode r') = Some s"
    using assms(1,2) by (simp_all add: ForOperationResult_Inr)
  then have "oprCode r = oprCode r'" by (intro OperationResultCode_inj) simp_all
  with \<open>oprCode r \<noteq> OpInner\<close> show ?thesis by simp
next
  assume "oprCode r = OpInner" "oprCode r' \<noteq> OpInner"
  with assms(1,2) show ?thesis
    by (auto simp: ForOperationResult_Inr dest: OperationResultCode_outer inner_code_inner)
next
  assume "oprCode r \<noteq> OpInner" "oprCode r' = OpInner"
  with assms(1,2) show ?thesis
    by (auto simp: ForOperationResult_Inr dest: OperationResultCode_outer inner_code_inner)
qed

definition underfunded_payment :: OperationResult where
  "underfunded_payment = \<lparr>oprCode = OpInner, oprTr = Some (PaymentTr PaymentUnderfunded)\<rparr>"

theorem operation_string_unambiguous_witness:
  "ForOperationResult underfunded_payment = Inr ''op_underfunded'' \<and>
   oprCode underfunded_payment = OpInner \<and>
   oprTr underfunded_payment = oprTr (underfunded_payment\<lparr>oprCode := OpInner\<rparr>)"
proof -
  have f: "ForOperationResult underfunded_payment = Inr ''op_underfunded''"
    by (simp add: underfunded_payment_def ForOperationResult_Inr op_strings)
  have f': "ForOperationResult (underfunded_payment\<lparr>oprCode := OpInner\<rparr>) = Inr ''op_underfunded''"
    by (simp add: underfunded_payment_def ForOperationResult_Inr op_strings)
  from operation_string_unambiguous [OF f f'] f show ?thesis
    by (simp add: underfunded_payment_def)
qed

text \<open>
  The string \<open>op_success\<close> is reported exactly for the operations that were applied, and an
  envelope code or an unknown inner code is never reported as success.
\<close>
theorem op_success_iff_applied:
  "ForOperationResult r = Inr OpSuccess \<longleftrightarrow>
     oprCode r = OpInner \<and> (\<exists>tr. oprTr r = Some tr \<and> operation_applied tr)"
proof (cases "oprCode r = OpInner")
  case True
  then show ?thesis
    by (simp add: ForOperationResult_Inr inner_code_success)
next
  case False
  then show ?thesis
    by (cases "oprCode r") (simp_all add: ForOperationResult_Inr op_strings)
qed

end
