(* ===== verification/Txsub.thy ===== *)
theory Txsub
  imports Submission_List Codes Hex
begin

text \<open>
  The transaction submission system (\<open>internal/txsub\<close>: \<open>system.go\<close>, \<open>results.go\<close>, \<open>errors.go\<close>,
  \<open>submitter.go\<close>, \<open>main.go\<close>). What the code calls outside the repository is a parameter: the XDR
  package (\<open>xdr_api\<close>) and the answer of stellar-core. The database is the record \<open>horizonDB\<close> of the
  answers it gives at one moment; \<open>Submit\<close> reads it at several moments, so a run of it is given by those.
\<close>

subsection \<open>The interfaces\<close>

record 'x xdr_api =
  SafeUnmarshalBase64 :: "string \<Rightarrow> string + 'x"
  Successful :: "'x \<Rightarrow> bool"
  resultCode :: "'x \<Rightarrow> TransactionResultCode"
  GetInnerResultPair :: "'x \<Rightarrow> (8 word list \<times> TransactionResultCode) option"
  OperationResults :: "'x \<Rightarrow> OperationResult list option"

record horizonDB =
  GetLatestHistoryLedger :: "string + u32"
  PreFilteredTransactionByHash :: "string \<Rightarrow> string + HistoryTransaction"
  TransactionByHash :: "string \<Rightarrow> string + HistoryTransaction"
  AllTransactionsByHashesSinceLedger :: "string list \<Rightarrow> u32 \<Rightarrow> string + HistoryTransaction list"
  GetSequenceNumbers :: "string list \<Rightarrow> string + (string \<rightharpoonup> u64)"
  BeginTx :: "string option"
  NoRows :: "string \<Rightarrow> bool"

record TransactionEnvelope =
  SourceAddress :: string
  SeqNum :: i64
  MinSeqNum :: "i64 option"

subsection \<open>Results and errors\<close>

definition txResultFromHistory :: "'x xdr_api \<Rightarrow> HistoryTransaction \<Rightarrow> HistoryTransaction \<times> txsub_error option" where
  "txResultFromHistory api tx =
     (tx, case SafeUnmarshalBase64 api (TxResult tx) of
            Inl e \<Rightarrow> Some (OtherError ''could not unmarshall transaction result'' e)
          | Inr txResult \<Rightarrow> if \<not> Successful api txResult then Some (FailedTransactionError (TxResult tx) '''')
                            else None)"

definition txResultByHash ::
  "'x xdr_api \<Rightarrow> horizonDB \<Rightarrow> string \<Rightarrow> HistoryTransaction \<times> txsub_error option" where
  "txResultByHash api db hash = (case PreFilteredTransactionByHash db hash of
       Inr hr \<Rightarrow> txResultFromHistory api hr
     | Inl e \<Rightarrow>
         if \<not> NoRows db e
         then (no_transaction, Some (OtherError ''server error, could not query prefiltered transaction by hash'' e))
         else (case TransactionByHash db hash of
             Inr hr \<Rightarrow> txResultFromHistory api hr
           | Inl e' \<Rightarrow>
               if \<not> NoRows db e'
               then (no_transaction, Some (OtherError ''server error, could not query history transaction by hash'' e'))
               else (no_transaction, Some ErrNoResults)))"

text \<open>\<open>FailedTransactionError.Result\<close>, and the codes it is reported with.\<close>

definition fte_Result :: "'x xdr_api \<Rightarrow> string \<Rightarrow> string + 'x" where
  "fte_Result api resultXDR = SafeUnmarshalBase64 api resultXDR"

record ResultCodes =
  Code :: string
  InnerCode :: string

datatype codes_failure = BadXDR string | CodesError codes_error

definition code_string :: "TransactionResultCode \<Rightarrow> codes_failure + string" where
  "code_string c = (case String_result (Some (TransactionCode c)) of Inl e \<Rightarrow> Inl (CodesError e) | Inr s \<Rightarrow> Inr s)"

definition TransactionResultCodes :: "'x xdr_api \<Rightarrow> string \<Rightarrow> string \<Rightarrow> codes_failure + ResultCodes" where
  "TransactionResultCodes api resultXDR transactionHash = (case fte_Result api resultXDR of
       Inl e \<Rightarrow> Inl (BadXDR e)
     | Inr r \<Rightarrow> (case GetInnerResultPair api r of
           Some (innerHash, innerCode) \<Rightarrow>
             if transactionHash = hex_encode innerHash
             then map_sum id (\<lambda>c. \<lparr>Code = c, InnerCode = ''''\<rparr>) (code_string innerCode)
             else (case code_string innerCode of
                 Inl e \<Rightarrow> Inl e
               | Inr inner \<Rightarrow> map_sum id (\<lambda>c. \<lparr>Code = c, InnerCode = inner\<rparr>) (code_string (resultCode api r)))
         | None \<Rightarrow> map_sum id (\<lambda>c. \<lparr>Code = c, InnerCode = ''''\<rparr>) (code_string (resultCode api r))))"

fun operation_codes :: "OperationResult list \<Rightarrow> codes_failure + string list" where
  "operation_codes [] = Inr []"
| "operation_codes (opr # oprs) = (case ForOperationResult opr of
       Inl e \<Rightarrow> Inl (CodesError e)
     | Inr s \<Rightarrow> map_sum id ((#) s) (operation_codes oprs))"

definition OperationResultCodes :: "'x xdr_api \<Rightarrow> string \<Rightarrow> codes_failure + string list" where
  "OperationResultCodes api resultXDR = (case fte_Result api resultXDR of
       Inl e \<Rightarrow> Inl (BadXDR e)
     | Inr r \<Rightarrow> (case OperationResults api r of None \<Rightarrow> Inr [] | Some oprs \<Rightarrow> operation_codes oprs))"

text \<open>\<open>SubmissionResult.IsBadSeq\<close> of a submission that ended with an error.\<close>

definition IsBadSeq :: "'x xdr_api \<Rightarrow> txsub_error option \<Rightarrow> txsub_error + bool" where
  "IsBadSeq api err = (case err of
       Some (FailedTransactionError resultXDR diagnostics) \<Rightarrow>
         (case fte_Result api resultXDR of
            Inl e \<Rightarrow> Inl (OtherError '''' e)
          | Inr r \<Rightarrow> Inr (resultCode api r = TxBadSeq))
     | _ \<Rightarrow> Inr False)"

subsection \<open>The submitter\<close>

datatype TXStatus = TXStatusError | TXStatusPending | TXStatusDuplicate | TXStatusTryAgainLater | OtherStatus string

record TXResponse =
  Exception :: string
  CoreError :: string
  Status :: TXStatus
  DiagnosticEvents :: string
  IsException :: bool

definition submitter_Submit :: "(string \<Rightarrow> string + TXResponse) \<Rightarrow> string \<Rightarrow> txsub_error option" where
  "submitter_Submit SubmitTx rawTx = (case SubmitTx rawTx of
       Inl e \<Rightarrow> Some (OtherError ''failed to submit'' e)
     | Inr cresp \<Rightarrow>
         if IsException cresp then Some (OtherError ''stellar-core exception: '' (Exception cresp))
         else (case Status cresp of
             TXStatusError \<Rightarrow> Some (FailedTransactionError (CoreError cresp) (DiagnosticEvents cresp))
           | TXStatusPending \<Rightarrow> None
           | TXStatusDuplicate \<Rightarrow> None
           | TXStatusTryAgainLater \<Rightarrow> None
           | OtherStatus st \<Rightarrow> Some (OtherError ''Unrecognized stellar-core status response: '' st)))"

subsection \<open>The system\<close>

record System =
  initialized :: bool
  tickInProgress :: bool
  SubmissionTimeout :: int
  openSubs :: submissionList
  nextChan :: nat
  FailedSubmissions :: nat
  SuccessfulSubmissions :: nat
  OpenSubmissions :: nat

definition Init :: "System \<Rightarrow> System" where
  "Init sys = (if initialized sys then sys
     else sys\<lparr>initialized := True, FailedSubmissions := 0, SuccessfulSubmissions := 0, OpenSubmissions := 0,
              SubmissionTimeout := (if SubmissionTimeout sys = 0 then 30 * 10 ^ 9 else SubmissionTimeout sys)\<rparr>)"

definition NewSystem :: "int \<Rightarrow> System" where
  "NewSystem timeout = \<lparr>initialized = False, tickInProgress = False, SubmissionTimeout = timeout,
     openSubs = NewDefaultSubmissionList Map.empty, nextChan = 0, FailedSubmissions = 0,
     SuccessfulSubmissions = 0, OpenSubmissions = 0\<rparr>"

definition submitOnce ::
  "(string \<Rightarrow> string + TXResponse) \<Rightarrow> string \<Rightarrow> System \<Rightarrow> txsub_error option \<times> System" where
  "submitOnce SubmitTx rawTx sys = (case submitter_Submit SubmitTx rawTx of
       None \<Rightarrow> (None, sys\<lparr>SuccessfulSubmissions := SuccessfulSubmissions sys + 1\<rparr>)
     | Some e \<Rightarrow> (Some e, sys\<lparr>FailedSubmissions := FailedSubmissions sys + 1\<rparr>))"

text \<open>\<open>response <- r; close(response)\<close>\<close>

definition finish :: "nat \<Rightarrow> Result \<Rightarrow> System \<Rightarrow> chan_fault + System" where
  "finish response r sys = (case deliver [response] r (chans (openSubs sys)) of
       Inl f \<Rightarrow> Inl f
     | Inr cs \<Rightarrow> Inr (sys\<lparr>openSubs := (openSubs sys)\<lparr>chans := cs\<rparr>\<rparr>))"

text \<open>
  The polls of \<open>waitUntilAccountSequence\<close>: the database and the ledger status each time round the loop,
  and what ends the select: the context, with its error, or the timer.
\<close>

datatype ctx_error = Canceled | DeadlineExceeded

record poll =
  pollDb :: horizonDB
  CoreLatest :: "32 word"
  HistoryLatest :: "32 word"
  ctxErr :: "ctx_error option"

definition isSyncedUp :: "poll \<Rightarrow> bool" where
  "isSyncedUp p \<longleftrightarrow> sint (CoreLatest p) \<le> sint (HistoryLatest p)"

definition deriveTxSubError :: "ctx_error \<Rightarrow> txsub_error" where
  "deriveTxSubError e = (if e = Canceled then ErrCanceled else ErrTimeout)"

definition sequence_reached :: "string \<Rightarrow> u64 \<Rightarrow> poll \<Rightarrow> bool" where
  "sequence_reached sourceAddress seq p = (case GetSequenceNumbers (pollDb p) [sourceAddress] of
       Inl e \<Rightarrow> False
     | Inr sequenceNumbers \<Rightarrow>
         (let num = (case sequenceNumbers sourceAddress of None \<Rightarrow> 0 | Some n \<Rightarrow> n) in
          num \<ge> seq \<or> isSyncedUp p))"

partial_function (option) waitUntilAccountSequence ::
  "(nat \<Rightarrow> poll) \<Rightarrow> string \<Rightarrow> u64 \<Rightarrow> nat \<Rightarrow> txsub_error option option" where
  "waitUntilAccountSequence polls sourceAddress seq i =
     (if sequence_reached sourceAddress seq (polls i) then Some None
      else case ctxErr (polls i) of
             Some e \<Rightarrow> Some (Some (deriveTxSubError e))
           | None \<Rightarrow> waitUntilAccountSequence polls sourceAddress seq (i + 1))"

record submit_run =
  firstDb :: horizonDB
  core :: "string \<Rightarrow> string + TXResponse"
  pollAt :: "nat \<Rightarrow> poll"
  secondDb :: horizonDB

definition bad_sequence :: "TransactionEnvelope \<Rightarrow> bool" where
  "bad_sequence envelope \<longleftrightarrow> sint (SeqNum envelope) < 0 \<or>
     (case MinSeqNum envelope of
        None \<Rightarrow> False
      | Some minSeqNum \<Rightarrow> sint minSeqNum < 0 \<or> sint minSeqNum \<ge> sint (SeqNum envelope))"

abbreviation failure :: "txsub_error \<Rightarrow> Result" where
  "failure e \<equiv> \<lparr>Err = Some e, Transaction = no_transaction\<rparr>"

text \<open>
  The channel that \<open>Submit\<close> returns is the next fresh one, \<open>nextChan\<close> of the system it is called on. The
  value \<open>None\<close> is a call that polls the account sequence forever.
\<close>

definition Submit :: "'x xdr_api \<Rightarrow> submit_run \<Rightarrow> string \<Rightarrow> TransactionEnvelope \<Rightarrow> string \<Rightarrow> int \<Rightarrow>
  System \<Rightarrow> (chan_fault + System) option" where
  "Submit api run rawTx envelope hash now sys0 =
     (let sys = Init sys0; resultCh = nextChan sys;
          sys1 = sys\<lparr>nextChan := resultCh + 1,
                     openSubs := (openSubs sys)\<lparr>chans := (chans (openSubs sys))(resultCh \<mapsto> chan_make 1)\<rparr>\<rparr> in
      if bad_sequence envelope then Some (finish resultCh (failure ErrBadSequence) sys1)
      else case txResultByHash api (firstDb run) hash of
        (tx, None) \<Rightarrow> Some (finish resultCh \<lparr>Err = None, Transaction = tx\<rparr> sys1)
      | (tx, Some err) \<Rightarrow>
          if err \<noteq> ErrNoResults then Some (finish resultCh \<lparr>Err = Some err, Transaction = tx\<rparr> sys1)
          else case submitOnce (core run) rawTx sys1 of
            (Some srErr, sys2) \<Rightarrow> (case IsBadSeq api (Some srErr) of
                Inl e \<Rightarrow> Some (finish resultCh (failure e) sys2)
              | Inr False \<Rightarrow> Some (finish resultCh (failure srErr) sys2)
              | Inr True \<Rightarrow>
                  (case waitUntilAccountSequence (pollAt run) (SourceAddress envelope) (SeqNum envelope) 0 of
                     None \<Rightarrow> None
                   | Some (Some e) \<Rightarrow> Some (finish resultCh (failure e) sys2)
                   | Some None \<Rightarrow> (case txResultByHash api (secondDb run) hash of
                         (tx2, Some e) \<Rightarrow> Some (finish resultCh (failure srErr) sys2)
                       | (tx2, None) \<Rightarrow> Some (finish resultCh \<lparr>Err = None, Transaction = tx2\<rparr> sys2))))
          | (None, sys2) \<Rightarrow>
              Some (map_sum id (\<lambda>p. sys2\<lparr>openSubs := p\<rparr>) (Add hash resultCh now (openSubs sys2))))"

subsection \<open>Ticks\<close>

definition setTickInProgress :: "System \<Rightarrow> bool \<times> System" where
  "setTickInProgress sys = (if tickInProgress sys then (False, sys) else (True, sys\<lparr>tickInProgress := True\<rparr>))"

definition unsetTickInProgress :: "System \<Rightarrow> System" where
  "unsetTickInProgress sys = sys\<lparr>tickInProgress := False\<rparr>"

definition sinceLedgerSeq :: "u32 \<Rightarrow> u32" where
  "sinceLedgerSeq latestLedger = (let since = latestLedger - 60 in if sint since < 0 then 0 else since)"

text \<open>The transactions of the pending hashes; \<open>None\<close> when the tick gives up.\<close>

definition tick_query :: "horizonDB \<Rightarrow> string list \<Rightarrow> HistoryTransaction list option" where
  "tick_query db hashes =
     (if hashes = [] then Some []
      else case GetLatestHistoryLedger db of
          Inl e \<Rightarrow> None
        | Inr latestLedger \<Rightarrow> (case AllTransactionsByHashesSinceLedger db hashes (sinceLedgerSeq latestLedger) of
              Inl e \<Rightarrow> if \<not> NoRows db e then None else Some []
            | Inr txs \<Rightarrow> Some txs))"

definition txMap_of :: "HistoryTransaction list \<Rightarrow> (string \<rightharpoonup> HistoryTransaction)" where
  "txMap_of txs = foldl (\<lambda>m tx. let m' = m(TransactionHash tx \<mapsto> tx) in
     case InnerTransactionHash tx of None \<Rightarrow> m' | Some h \<Rightarrow> m'(h \<mapsto> tx)) Map.empty txs"

text \<open>The result a transaction of the history is finished with, if any.\<close>

definition tick_answer :: "'x xdr_api \<Rightarrow> HistoryTransaction \<Rightarrow> Result option" where
  "tick_answer api tx = (case snd (txResultFromHistory api tx) of
       None \<Rightarrow> Some \<lparr>Err = None, Transaction = tx\<rparr>
     | Some (FailedTransactionError x d) \<Rightarrow> Some \<lparr>Err = Some (FailedTransactionError x d), Transaction = tx\<rparr>
     | Some e \<Rightarrow> None)"

fun tick_loop :: "(string \<Rightarrow> Result \<Rightarrow> 's \<Rightarrow> chan_fault + 's) \<Rightarrow> 'x xdr_api \<Rightarrow> (string \<rightharpoonup> HistoryTransaction) \<Rightarrow>
  string list \<Rightarrow> 's \<Rightarrow> chan_fault + 's" where
  "tick_loop fin api txMap [] s = Inr s"
| "tick_loop fin api txMap (hash # hashes) s = (case txMap hash of
       None \<Rightarrow> tick_loop fin api txMap hashes s
     | Some tx \<Rightarrow> (case tick_answer api tx of
           None \<Rightarrow> tick_loop fin api txMap hashes s
         | Some r \<Rightarrow> (case fin hash r s of Inl f \<Rightarrow> Inl f | Inr s' \<Rightarrow> tick_loop fin api txMap hashes s')))"

definition tick_body :: "'x xdr_api \<Rightarrow> horizonDB \<Rightarrow> string list \<Rightarrow> string list \<Rightarrow> (string \<Rightarrow> int) \<Rightarrow>
  System \<Rightarrow> chan_fault + System" where
  "tick_body api db order1 order2 now sys =
     (if BeginTx db \<noteq> None then Inr sys
      else let hashes = Pending order1 (openSubs sys) in
        case tick_query db hashes of
          None \<Rightarrow> Inr sys
        | Some txs \<Rightarrow> (case tick_loop Finish api (txMap_of txs) hashes (openSubs sys) of
              Inl f \<Rightarrow> Inl f
            | Inr p \<Rightarrow> (case Clean (SubmissionTimeout sys) order2 now p of
                  Inl f \<Rightarrow> Inl f
                | Inr (stillOpen, p') \<Rightarrow> Inr (sys\<lparr>openSubs := p', OpenSubmissions := stillOpen\<rparr>))))"

definition Tick :: "'x xdr_api \<Rightarrow> horizonDB \<Rightarrow> string list \<Rightarrow> string list \<Rightarrow> (string \<Rightarrow> int) \<Rightarrow>
  System \<Rightarrow> chan_fault + System" where
  "Tick api db order1 order2 now sys = (case setTickInProgress (Init sys) of
       (False, sys1) \<Rightarrow> Inr sys1
     | (True, sys1) \<Rightarrow> map_sum id unsetTickInProgress (tick_body api db order1 order2 now sys1))"

subsection \<open>What a tick settles\<close>

text \<open>The answers of one pass over the pending hashes, and then of the cleaning after it.\<close>

definition found_answers :: "'x xdr_api \<Rightarrow> (string \<rightharpoonup> HistoryTransaction) \<Rightarrow> string list \<Rightarrow> string \<Rightarrow> Result option" where
  "found_answers api txMap hashes h =
     (if h \<in> set hashes then Option.bind (txMap h) (tick_answer api) else None)"

context open_submission_list
begin

lemma tick_loop_settles:
  assumes "inv s"
  shows "\<exists>s'. tick_loop finish api txMap hashes s = Inr s' \<and> inv s' \<and>
    waiting s' = unresolved (found_answers api txMap hashes) (waiting s) \<and>
    settles (found_answers api txMap hashes) (waiting s) (channels s) (channels s')"
  using assms
proof (induction hashes arbitrary: s)
  case Nil
  have "found_answers api txMap [] = Map.empty" by (simp add: found_answers_def fun_eq_iff)
  with Nil show ?case by simp
next
  case (Cons h hs)
  show ?case
  proof (cases "Option.bind (txMap h) (tick_answer api)")
    case None
    have e: "found_answers api txMap (h # hs) = found_answers api txMap hs"
      using None by (auto simp: found_answers_def fun_eq_iff)
    have l: "tick_loop finish api txMap (h # hs) s = tick_loop finish api txMap hs s"
      using None by (auto split: option.splits)
    from Cons.IH [OF Cons.prems] show ?thesis by (simp only: e l)
  next
    case (Some r)
    obtain s1 where s1: "finish h r s = Inr s1" "inv s1" "waiting s1 = unresolved [h \<mapsto> r] (waiting s)"
      "settles [h \<mapsto> r] (waiting s) (channels s) (channels s1)"
      using finish_law [OF Cons.prems] by blast
    have l: "tick_loop finish api txMap (h # hs) s = tick_loop finish api txMap hs s1"
      using Some s1(1) by (auto simp: bind_eq_Some_conv)
    have e: "found_answers api txMap hs ++ [h \<mapsto> r] = found_answers api txMap (h # hs)"
      using Some by (auto simp: found_answers_def fun_eq_iff map_add_def)
    obtain s' where s': "tick_loop finish api txMap hs s1 = Inr s'" "inv s'"
      "waiting s' = unresolved (found_answers api txMap hs) (waiting s1)"
      "settles (found_answers api txMap hs) (waiting s1) (channels s1) (channels s')"
      using Cons.IH [OF s1(2)] by blast
    have "waiting s' = unresolved (found_answers api txMap (h # hs)) (waiting s)"
      unfolding s'(3) s1(3) unresolved_comp e ..
    moreover have "settles (found_answers api txMap (h # hs)) (waiting s) (channels s) (channels s')"
      using settles_comp [OF conjunct1 [OF inv_waiting [OF Cons.prems]] s1(4) s'(4) [unfolded s1(3)]]
      unfolding e .
    ultimately show ?thesis using l s'(1,2) by simp
  qed
qed

text \<open>A whole pass: the answers found in the history go first, then the submissions that are too old.\<close>

lemma tick_pass_settles:
  assumes inv: "inv s" and o1: "dom (waiting s) \<subseteq> set order1" and o2: "dom (waiting s) \<subseteq> set order2"
    and found: "found = found_answers api txMap (pending order1 s)"
  shows "\<exists>s1 s2. tick_loop finish api txMap (pending order1 s) s = Inr s1 \<and>
    clean maxAge order2 now s1 = Inr (card (dom (waiting s2)), s2) \<and> inv s2 \<and>
    (let ans = expired maxAge now (waiting s) ++ found in
     waiting s2 = unresolved ans (waiting s) \<and> settles ans (waiting s) (channels s) (channels s2))"
proof -
  obtain s1 where s1: "tick_loop finish api txMap (pending order1 s) s = Inr s1" "inv s1"
    "waiting s1 = unresolved found (waiting s)" "settles found (waiting s) (channels s) (channels s1)"
    using tick_loop_settles [OF inv] unfolding found by blast
  have "dom (waiting s1) \<subseteq> set order2" using o2 by (auto simp: s1(3) unresolved_def split: if_splits)
  from clean_law [OF s1(2) this] obtain s2 where s2: "clean maxAge order2 now s1 = Inr (card (dom (waiting s2)), s2)"
    "inv s2" "waiting s2 = unresolved (expired maxAge now (waiting s1)) (waiting s1)"
    "settles (expired maxAge now (waiting s1)) (waiting s1) (channels s1) (channels s2)" by blast
  have e: "expired maxAge now (waiting s1) ++ found = expired maxAge now (waiting s) ++ found"
    by (auto simp: fun_eq_iff map_add_def expired_def s1(3) unresolved_def split: option.split)
  have "waiting s2 = unresolved (expired maxAge now (waiting s) ++ found) (waiting s)"
    unfolding s2(3) using e by (simp add: s1(3) unresolved_comp)
  moreover have "settles (expired maxAge now (waiting s) ++ found) (waiting s) (channels s) (channels s2)"
    using settles_comp [OF conjunct1 [OF inv_waiting [OF inv]] s1(4), of "expired maxAge now (waiting s1)"] s2(4)
    unfolding e by (simp only: s1(3))
  ultimately show ?thesis using s1(1) s2(1,2) by (auto simp: Let_def)
qed

end

end
