(* ===== verification/Txsub_Props.thy ===== *)
theory Txsub_Props
  imports Txsub
begin

text \<open>
  Properties of the submission system. A call of \<open>Submit\<close> changes the shared state in one step, since its
  channel is private until it is added to the list; a tick is a sequence of steps, each under the lock of
  the list, between which submissions may happen. The step relation has one rule for each of these. It has two
  more parameters that the system does not store: \<open>H\<close> gives for each channel the hash it was submitted with, and
  \<open>D\<close> is the set of the databases, one for each moment, that submissions and ticks have read.
\<close>

subsection \<open>Steps\<close>

inductive txsub_step :: "'x xdr_api \<Rightarrow> (nat \<Rightarrow> string) \<Rightarrow> horizonDB set \<Rightarrow> System \<Rightarrow> System \<Rightarrow> bool" for api H D where
  submit: "Submit api run rawTx envelope hash now sys = Some (Inr sys') \<Longrightarrow> H (nextChan sys) = hash \<Longrightarrow>
    firstDb run \<in> D \<Longrightarrow> secondDb run \<in> D \<Longrightarrow> txsub_step api H D sys sys'"
| tick_begins: "setTickInProgress (Init sys) = (True, sys') \<Longrightarrow> txsub_step api H D sys sys'"
| tick_finishes: "db \<in> D \<Longrightarrow> tick_query db hashes = Some txs \<Longrightarrow> txMap_of txs hash = Some tx \<Longrightarrow>
    tick_answer api tx = Some r \<Longrightarrow> Finish hash r (openSubs sys) = Inr p \<Longrightarrow> txsub_step api H D sys (sys\<lparr>openSubs := p\<rparr>)"
| tick_cleans: "dom (waitingOf (openSubs sys)) \<subseteq> set order \<Longrightarrow>
    Clean (SubmissionTimeout sys) order now (openSubs sys) = Inr (stillOpen, p) \<Longrightarrow>
    txsub_step api H D sys (sys\<lparr>openSubs := p, OpenSubmissions := stillOpen\<rparr>)"
| tick_ends: "txsub_step api H D sys (unsetTickInProgress sys)"

inductive_cases txsub_stepE: "txsub_step api H D sys sys'"

text \<open>The result of the transaction decodes to a success.\<close>

definition successful_tx :: "'x xdr_api \<Rightarrow> HistoryTransaction \<Rightarrow> bool" where
  "successful_tx api tx \<longleftrightarrow> snd (txResultFromHistory api tx) = None"

text \<open>
  A database has the transaction under a hash: it is the answer to a lookup of the hash, or it is among the recent transactions and has the hash as its own
  or as that of its inner transaction.
\<close>

definition in_history :: "horizonDB set \<Rightarrow> string \<Rightarrow> HistoryTransaction \<Rightarrow> bool" where
  "in_history D h tx \<longleftrightarrow> (\<exists>db\<in>D. PreFilteredTransactionByHash db h = Inr tx \<or> TransactionByHash db h = Inr tx \<or>
     (\<exists>hs since txs. AllTransactionsByHashesSinceLedger db hs since = Inr txs \<and> tx \<in> set txs \<and>
        (TransactionHash tx = h \<or> InnerTransactionHash tx = Some h)))"

definition truthful :: "'x xdr_api \<Rightarrow> horizonDB set \<Rightarrow> string \<Rightarrow> Result \<Rightarrow> bool" where
  "truthful api D h r \<longleftrightarrow> (Err r = None \<longrightarrow> successful_tx api (Transaction r) \<and> in_history D h (Transaction r))"

definition listens :: "System \<Rightarrow> string \<Rightarrow> nat \<Rightarrow> bool" where
  "listens sys h l \<longleftrightarrow> (\<exists>t ls. waitingOf (openSubs sys) h = Some (t, ls) \<and> l \<in> set ls)"

definition got :: "System \<Rightarrow> nat \<Rightarrow> Result \<Rightarrow> bool" where
  "got sys l r \<longleftrightarrow> chans (openSubs sys) l = Some \<lparr>chanCap = 1, chanBuf = [r], chanClosed = True\<rparr>"

definition sys_inv :: "'x xdr_api \<Rightarrow> (nat \<Rightarrow> string) \<Rightarrow> horizonDB set \<Rightarrow> System \<Rightarrow> bool" where
  "sys_inv api H D sys \<longleftrightarrow> list_inv (openSubs sys) \<and>
     (\<forall>l \<ge> nextChan sys. chans (openSubs sys) l = None) \<and>
     (\<forall>l < nextChan sys. chans (openSubs sys) l = Some (chan_make 1) \<and> (\<exists>h. listens sys h l) \<or>
        (\<exists>r. got sys l r \<and> truthful api D (H l) r)) \<and>
     (\<forall>h l. listens sys h l \<longrightarrow> h = H l)"

lemma sys_invD:
  assumes "sys_inv api H D sys"
  shows "list_inv (openSubs sys)"
    and "nextChan sys \<le> l \<Longrightarrow> chans (openSubs sys) l = None"
    and "l < nextChan sys \<Longrightarrow> chans (openSubs sys) l = Some (chan_make 1) \<and> (\<exists>h. listens sys h l) \<or>
        (\<exists>r. got sys l r \<and> truthful api D (H l) r)"
    and "listens sys h l \<Longrightarrow> h = H l"
  using assms by (simp_all add: sys_inv_def)

lemma listens_open: "sys_inv api H D sys \<Longrightarrow> listens sys h l \<Longrightarrow> open_chan (chans (openSubs sys) l)"
  using well_waitingD(3) [OF list_invD(3)] by (fastforce simp: sys_inv_def listens_def)

lemma listens_less: "sys_inv api H D sys \<Longrightarrow> listens sys h l \<Longrightarrow> l < nextChan sys"
  using listens_open [of api H D sys h l] sys_invD(2) [of api H D sys l] by (auto simp: open_chan_def intro: leI ccontr)

lemma listens_unique: "sys_inv api H D sys \<Longrightarrow> listens sys h l \<Longrightarrow> listens sys h' l \<Longrightarrow> h = h'"
  unfolding listens_def using well_waitingD(4) [OF list_invD(3) [OF sys_invD(1)]] by blast

lemma open_not_got: "sys_inv api H D sys \<Longrightarrow> listens sys h l \<Longrightarrow> \<not> got sys l r"
  by (drule (1) listens_open) (auto simp: open_chan_def got_def chan_make_def)

lemma listens_fresh: "sys_inv api H D sys \<Longrightarrow> listens sys h l \<Longrightarrow> chans (openSubs sys) l = Some (chan_make 1)"
  using sys_invD(3) [OF _ listens_less] open_not_got by blast

lemma sys_inv_cong:
  "openSubs sys' = openSubs sys \<Longrightarrow> nextChan sys' = nextChan sys \<Longrightarrow> sys_inv api H D sys' = sys_inv api H D sys"
  by (simp add: sys_inv_def listens_def got_def)

subsection \<open>Every step keeps the invariant\<close>

lemma sys_inv_settled:
  assumes inv: "sys_inv api H D sys" and p: "list_inv p"
    and w: "waitingOf p = unresolved ans (waitingOf (openSubs sys))"
    and st: "settles ans (waitingOf (openSubs sys)) (chans (openSubs sys)) (chans p)"
    and ok: "\<And>h r. ans h = Some r \<Longrightarrow> truthful api D h r"
  shows "sys_inv api H D (sys\<lparr>openSubs := p\<rparr>)"
  unfolding sys_inv_def
proof (intro conjI allI impI)
  let ?sys = "sys\<lparr>openSubs := p\<rparr>"
  have other: "chans p l = chans (openSubs sys) l" if "\<And>h. \<not> listens sys h l" for l
    by (rule settles_other [OF st]) (use that in \<open>auto simp: listens_def\<close>)
  show "list_inv (openSubs ?sys)" using p by simp
  fix l
  show "chans (openSubs ?sys) l = None" if l: "nextChan ?sys \<le> l"
  proof -
    have "\<not> listens sys h l" for h using listens_less [OF inv] l by fastforce
    with other sys_invD(2) [OF inv] l show ?thesis by simp
  qed
  assume l: "l < nextChan ?sys"
  show "chans (openSubs ?sys) l = Some (chan_make 1) \<and> (\<exists>h. listens ?sys h l) \<or> (\<exists>r. got ?sys l r \<and> truthful api D (H l) r)"
  proof (cases "\<exists>h. listens sys h l")
    case False
    with other have "chans p l = chans (openSubs sys) l" by blast
    moreover have "\<exists>r. got sys l r \<and> truthful api D (H l) r"
      using sys_invD(3) [OF inv, of l] l False by auto
    ultimately show ?thesis by (auto simp: got_def)
  next
    case True
    then obtain h t ls where h: "waitingOf (openSubs sys) h = Some (t, ls)" "l \<in> set ls"
      by (auto simp: listens_def)
    then have hash: "h = H l" using sys_invD(4) [OF inv, of h l] by (auto simp: listens_def)
    have fresh: "chans (openSubs sys) l = Some (chan_make 1)"
      using True listens_fresh [OF inv] by blast
    show ?thesis
    proof (cases "ans h")
      case None
      then have "listens ?sys h l" using h w by (auto simp: listens_def unresolved_Some)
      moreover have "chans p l = Some (chan_make 1)" using settles_waiting [OF st h] None fresh by simp
      ultimately show ?thesis by auto
    next
      case (Some r)
      then have "chans p l = answered r (Some (chan_make 1))"
        using settles_waiting [OF st h] fresh by simp
      then have "got ?sys l r" by (simp add: got_def answered_def chan_make_def)
      with ok [OF Some] hash show ?thesis by blast
    qed
  qed
next
  fix h l assume "listens (sys\<lparr>openSubs := p\<rparr>) h l"
  then have "listens sys h l" using w by (auto simp: listens_def unresolved_def split: if_splits)
  then show "h = H l" by (rule sys_invD(4) [OF inv])
qed

lemma txMap_of_hash:
  assumes "txMap_of txs h = Some tx"
  shows "tx \<in> set txs \<and> (TransactionHash tx = h \<or> InnerTransactionHash tx = Some h)"
  using assms
proof (induction txs rule: rev_induct)
  case Nil
  then show ?case by (simp add: txMap_of_def)
next
  case (snoc t txs)
  have "txMap_of (txs @ [t]) = (let m' = (txMap_of txs)(TransactionHash t \<mapsto> t) in
      case InnerTransactionHash t of None \<Rightarrow> m' | Some i \<Rightarrow> m'(i \<mapsto> t))" by (simp add: txMap_of_def)
  with snoc show ?case by (auto simp: Let_def split: option.splits if_splits)
qed

lemma tick_query_history:
  assumes "db \<in> D" "tick_query db hashes = Some txs" "txMap_of txs h = Some tx"
  shows "in_history D h tx"
proof -
  note tx = txMap_of_hash [OF assms(3)]
  then have "txs \<noteq> []" by auto
  with assms(2) obtain since where "AllTransactionsByHashesSinceLedger db hashes since = Inr txs"
    by (auto simp: tick_query_def split: if_splits sum.splits)
  with assms(1) tx show ?thesis unfolding in_history_def by blast
qed

lemma tick_answer_truthful: "tick_answer api tx = Some r \<Longrightarrow> in_history D h tx \<Longrightarrow> truthful api D h r"
  by (auto simp: tick_answer_def truthful_def successful_tx_def split: option.splits txsub_error.splits)

lemma expired_truthful: "expired a now w h = Some r \<Longrightarrow> truthful api D h r"
  by (auto simp: expired_def truthful_def timeout_result_def split: option.splits if_splits)

lemma Init_simps [simp]: "openSubs (Init sys) = openSubs sys" "nextChan (Init sys) = nextChan sys"
    "tickInProgress (Init sys) = tickInProgress sys"
  by (simp_all add: Init_def)

text \<open>The system with the fresh channel of a submission.\<close>

definition with_channel :: "System \<Rightarrow> System" where
  "with_channel sys0 = (let sys = Init sys0 in sys\<lparr>nextChan := nextChan sys + 1,
     openSubs := (openSubs sys)\<lparr>chans := (chans (openSubs sys))(nextChan sys \<mapsto> chan_make 1)\<rparr>\<rparr>)"

lemma with_channel_eq: "with_channel sys = (Init sys)\<lparr>nextChan := nextChan sys + 1,
    openSubs := (openSubs sys)\<lparr>chans := (chans (openSubs sys))(nextChan sys \<mapsto> chan_make 1)\<rparr>\<rparr>"
  by (simp add: with_channel_def Let_def)

definition same_list :: "System \<Rightarrow> System \<Rightarrow> bool" where
  "same_list sys sys' \<longleftrightarrow> openSubs sys' = openSubs sys \<and> nextChan sys' = nextChan sys"

lemma waitingOf_chans [simp]: "waitingOf (p\<lparr>chans := cs\<rparr>) = waitingOf p"
  by (simp add: waitingOf_def fun_eq_iff)

lemma list_inv_fresh:
  assumes inv: "sys_inv api H D sys"
  shows "list_inv ((openSubs sys)\<lparr>chans := (chans (openSubs sys))(nextChan sys := c)\<rparr>)"
proof -
  let ?cs = "(chans (openSubs sys))(nextChan sys := c)"
  have "well_waiting (waitingOf (openSubs sys)) ?cs"
  proof (rule well_waitingI)
    fix h t ls assume h: "waitingOf (openSubs sys) h = Some (t, ls)"
    have "nextChan sys \<notin> set ls" using listens_less [OF inv, of h "nextChan sys"] h by (auto simp: listens_def)
    then show "ls \<noteq> [] \<and> distinct ls \<and> (\<forall>l\<in>set ls. open_chan (?cs l))"
      using well_waitingD(1-3) [OF list_invD(3) [OF sys_invD(1) [OF inv]] h] by auto
  qed (use well_waitingD(4) [OF list_invD(3) [OF sys_invD(1) [OF inv]]] in blast)
  then show ?thesis using list_invD(1,2) [OF sys_invD(1) [OF inv]] by (simp add: list_inv_def)
qed

lemma finish_effect:
  assumes inv: "sys_inv api H D sys" and s: "same_list (with_channel sys) s"
  shows "\<exists>sys'. finish (nextChan sys) r s = Inr sys' \<and> got sys' (nextChan sys) r \<and>
    (\<forall>h l. listens sys' h l \<longleftrightarrow> listens sys h l) \<and> nextChan sys' = nextChan sys + 1 \<and>
    (truthful api D (H (nextChan sys)) r \<longrightarrow> sys_inv api H D sys')"
proof -
  let ?c = "\<lparr>chanCap = 1, chanBuf = [r], chanClosed = True\<rparr>"
  let ?cs = "(chans (openSubs sys))(nextChan sys \<mapsto> ?c)"
  let ?sys = "s\<lparr>openSubs := (openSubs sys)\<lparr>chans := ?cs\<rparr>\<rparr>"
  have s': "openSubs s = (openSubs sys)\<lparr>chans := (chans (openSubs sys))(nextChan sys \<mapsto> chan_make 1)\<rparr>"
    "nextChan s = nextChan sys + 1"
    using s by (simp_all add: same_list_def with_channel_def Let_def)
  have f: "finish (nextChan sys) r s = Inr ?sys"
    by (simp add: finish_def s' chan_send_def chan_close_def chan_make_def)
  have g: "got ?sys (nextChan sys) r" by (simp add: got_def)
  have l: "listens ?sys h l \<longleftrightarrow> listens sys h l" for h l by (simp add: listens_def)
  have o: "got ?sys k r' \<longleftrightarrow> got sys k r'" if "k \<noteq> nextChan sys" for k r' using that by (simp add: got_def)
  have "sys_inv api H D ?sys" if t: "truthful api D (H (nextChan sys)) r"
    unfolding sys_inv_def
  proof (intro conjI allI impI)
    show "list_inv (openSubs ?sys)" using list_inv_fresh [OF inv] by simp
    show "chans (openSubs ?sys) k = None" if "nextChan ?sys \<le> k" for k
      using that sys_invD(2) [OF inv] s'(2) by simp
    fix k assume k: "k < nextChan ?sys"
    show "chans (openSubs ?sys) k = Some (chan_make 1) \<and> (\<exists>h. listens ?sys h k) \<or> (\<exists>r. got ?sys k r \<and> truthful api D (H k) r)"
    proof (cases "k = nextChan sys")
      case True
      with g t show ?thesis by blast
    next
      case False
      with k s'(2) have "k < nextChan sys" by simp
      from sys_invD(3) [OF inv this] False show ?thesis unfolding l o [OF False] by simp
    qed
  next
    fix h k assume "listens ?sys h k"
    then show "h = H k" using l sys_invD(4) [OF inv] by blast
  qed
  with f g l s'(2) show ?thesis by simp
qed

lemma Add_effect:
  assumes inv: "sys_inv api H D sys" and s: "same_list (with_channel sys) s"
  shows "\<exists>p. Add hash (nextChan sys) now (openSubs s) = Inr p \<and>
    (\<forall>h l. listens (s\<lparr>openSubs := p\<rparr>) h l \<longleftrightarrow> listens sys h l \<or> h = hash \<and> l = nextChan sys) \<and>
    (\<forall>r. \<not> got (s\<lparr>openSubs := p\<rparr>) (nextChan sys) r) \<and> (H (nextChan sys) = hash \<longrightarrow> sys_inv api H D (s\<lparr>openSubs := p\<rparr>))"
proof -
  have s': "openSubs s = (openSubs sys)\<lparr>chans := (chans (openSubs sys))(nextChan sys \<mapsto> chan_make 1)\<rparr>"
    "nextChan s = nextChan sys + 1"
    using s by (simp_all add: same_list_def with_channel_def Let_def)
  have w: "waitingOf (openSubs s) = waitingOf (openSubs sys)" by (simp add: s'(1))
  have new: "nextChan sys \<notin> set ls" if "waitingOf (openSubs s) h = Some (t, ls)" for h t ls
    using listens_less [OF inv, of h "nextChan sys"] that w by (auto simp: listens_def)
  have "list_inv (openSubs s)" "open_chan (chans (openSubs s) (nextChan sys))"
    using list_inv_fresh [OF inv] by (simp_all add: s'(1) open_chan_def) blast
  from sl.add_law [OF this, of hash now] new obtain p where p: "Add hash (nextChan sys) now (openSubs s) = Inr p"
    "list_inv p" "chans p = chans (openSubs s)"
    "waitingOf p = (waitingOf (openSubs s))(hash \<mapsto>
       (case waitingOf (openSubs s) hash of None \<Rightarrow> (now, [nextChan sys]) | Some (t, ls) \<Rightarrow> (t, ls @ [nextChan sys])))"
    by blast
  let ?sys = "s\<lparr>openSubs := p\<rparr>"
  have l: "listens ?sys h k \<longleftrightarrow> listens sys h k \<or> h = hash \<and> k = nextChan sys" for h k
    by (auto simp: listens_def p(4) w split: option.splits)
  have c: "chans p = (chans (openSubs sys))(nextChan sys \<mapsto> chan_make 1)" by (simp add: p(3) s'(1))
  have n: "\<not> got ?sys (nextChan sys) r" for r by (simp add: got_def c chan_make_def)
  have "sys_inv api H D ?sys" if hash: "H (nextChan sys) = hash"
    unfolding sys_inv_def
  proof (intro conjI allI impI)
    show "list_inv (openSubs ?sys)" using p(2) by simp
    show "chans (openSubs ?sys) k = None" if "nextChan ?sys \<le> k" for k
      using that sys_invD(2) [OF inv] s'(2) c by simp
    fix k assume k: "k < nextChan ?sys"
    show "chans (openSubs ?sys) k = Some (chan_make 1) \<and> (\<exists>h. listens ?sys h k) \<or> (\<exists>r. got ?sys k r \<and> truthful api D (H k) r)"
    proof (cases "k = nextChan sys")
      case True
      then show ?thesis using l c by auto
    next
      case False
      with k s'(2) have "k < nextChan sys" by simp
      from sys_invD(3) [OF inv this] False show ?thesis unfolding l by (auto simp: got_def c)
    qed
  next
    fix h k assume "listens ?sys h k"
    then show "h = H k" using l sys_invD(4) [OF inv] hash by blast
  qed
  with p(1) l n show ?thesis by blast
qed

subsection \<open>Submissions\<close>

lemma txResultByHash_success: "txResultByHash api db hash = (tx, None) \<Longrightarrow> db \<in> D \<Longrightarrow> successful_tx api tx \<and> in_history D hash tx"
  by (auto simp: txResultByHash_def txResultFromHistory_def successful_tx_def in_history_def split: sum.splits if_splits)

text \<open>Stellar-core took a transaction that is not in the history: its submitter waits.\<close>

definition submit_waits :: "'x xdr_api \<Rightarrow> submit_run \<Rightarrow> string \<Rightarrow> TransactionEnvelope \<Rightarrow> string \<Rightarrow> bool" where
  "submit_waits api run rawTx envelope hash \<longleftrightarrow> \<not> bad_sequence envelope \<and>
     snd (txResultByHash api (firstDb run) hash) = Some ErrNoResults \<and> submitter_Submit (core run) rawTx = None"

text \<open>
  Stellar-core rejected it with a bad sequence number, and the account reached the sequence number of the
  transaction, or the history caught up with stellar-core, before the request ended.
\<close>

definition looked_up_again :: "'x xdr_api \<Rightarrow> submit_run \<Rightarrow> string \<Rightarrow> TransactionEnvelope \<Rightarrow> string \<Rightarrow> bool" where
  "looked_up_again api run rawTx envelope hash \<longleftrightarrow>
     snd (txResultByHash api (firstDb run) hash) = Some ErrNoResults \<and>
     submitter_Submit (core run) rawTx \<noteq> None \<and> IsBadSeq api (submitter_Submit (core run) rawTx) = Inr True \<and>
     waitUntilAccountSequence (pollAt run) (SourceAddress envelope) (SeqNum envelope) 0 = Some None"

definition submit_succeeds :: "'x xdr_api \<Rightarrow> submit_run \<Rightarrow> string \<Rightarrow> TransactionEnvelope \<Rightarrow> string \<Rightarrow> bool" where
  "submit_succeeds api run rawTx envelope hash \<longleftrightarrow> \<not> bad_sequence envelope \<and>
     (snd (txResultByHash api (firstDb run) hash) = None \<or>
      looked_up_again api run rawTx envelope hash \<and> snd (txResultByHash api (secondDb run) hash) = None)"

lemma same_list_submitOnce: "submitOnce c rawTx s = (e, s') \<Longrightarrow> same_list s s'"
  by (auto simp: submitOnce_def same_list_def split: option.splits)

lemma submitOnce_result: "submitOnce c rawTx s = (e, s') \<Longrightarrow> submitter_Submit c rawTx = e"
  by (auto simp: submitOnce_def split: option.splits)

lemma same_list_refl [simp]: "same_list s s"
  by (simp add: same_list_def)

lemma truthful_failure [simp]: "truthful api D h \<lparr>Err = Some e, Transaction = tx\<rparr>"
  by (simp add: truthful_def)

lemmas submit_defs = submit_waits_def submit_succeeds_def looked_up_again_def

lemma Submit_cases:
  assumes "Submit api run rawTx envelope hash now sys = Some res" and dbs: "firstDb run \<in> D" "secondDb run \<in> D"
  obtains (answered) r s where "same_list (with_channel sys) s" "res = finish (nextChan sys) r s"
      "truthful api D hash r" "\<not> submit_waits api run rawTx envelope hash"
      "Err r = None \<longleftrightarrow> submit_succeeds api run rawTx envelope hash"
    | (waits) s where "same_list (with_channel sys) s"
      "res = map_sum id (\<lambda>p. s\<lparr>openSubs := p\<rparr>) (Add hash (nextChan sys) now (openSubs s))"
      "submit_waits api run rawTx envelope hash" "\<not> submit_succeeds api run rawTx envelope hash"
proof (cases "bad_sequence envelope")
  case True
  show thesis
    by (rule answered [of "with_channel sys" "failure ErrBadSequence"])
      (use assms True in \<open>simp_all add: Submit_def with_channel_def submit_defs Let_def\<close>)
next
  case bad: False
  obtain tx e where first: "txResultByHash api (firstDb run) hash = (tx, e)" by force
  have res: "Some res = (case e of
        None \<Rightarrow> Some (finish (nextChan sys) \<lparr>Err = None, Transaction = tx\<rparr> (with_channel sys))
      | Some err \<Rightarrow>
          if err \<noteq> ErrNoResults then Some (finish (nextChan sys) \<lparr>Err = Some err, Transaction = tx\<rparr> (with_channel sys))
          else case submitOnce (core run) rawTx (with_channel sys) of
            (Some srErr, sys2) \<Rightarrow> (case IsBadSeq api (Some srErr) of
                Inl e \<Rightarrow> Some (finish (nextChan sys) (failure e) sys2)
              | Inr False \<Rightarrow> Some (finish (nextChan sys) (failure srErr) sys2)
              | Inr True \<Rightarrow>
                  (case waitUntilAccountSequence (pollAt run) (SourceAddress envelope) (SeqNum envelope) 0 of
                     None \<Rightarrow> None
                   | Some (Some e) \<Rightarrow> Some (finish (nextChan sys) (failure e) sys2)
                   | Some None \<Rightarrow> (case txResultByHash api (secondDb run) hash of
                         (tx2, Some e) \<Rightarrow> Some (finish (nextChan sys) (failure srErr) sys2)
                       | (tx2, None) \<Rightarrow> Some (finish (nextChan sys) \<lparr>Err = None, Transaction = tx2\<rparr> sys2))))
          | (None, sys2) \<Rightarrow>
              Some (map_sum id (\<lambda>p. sys2\<lparr>openSubs := p\<rparr>) (Add hash (nextChan sys) now (openSubs sys2))))"
    using assms bad first unfolding Submit_def Let_def Init_simps with_channel_eq [symmetric] by simp
  show thesis
  proof (cases "e = Some ErrNoResults")
    case False
    show thesis
      by (rule answered [of "with_channel sys" "\<lparr>Err = e, Transaction = tx\<rparr>"])
        (use res False first bad txResultByHash_success [OF _ dbs(1)] in
          \<open>auto simp: submit_defs truthful_def split: option.splits\<close>)
  next
    case none: True
    obtain sr sys2 where sub: "submitOnce (core run) rawTx (with_channel sys) = (sr, sys2)" by force
    note sl = same_list_submitOnce [OF sub] and sr = submitOnce_result [OF sub]
    show thesis
    proof (cases sr)
      case None
      show thesis
        by (rule waits [OF sl]) (use res none None first sub sr bad in \<open>simp_all add: submit_defs\<close>)
    next
      case (Some srErr)
      let ?w = "waitUntilAccountSequence (pollAt run) (SourceAddress envelope) (SeqNum envelope) 0"
      have nw: "\<not> submit_waits api run rawTx envelope hash" using sr Some by (simp add: submit_defs)
      have ss: "submit_succeeds api run rawTx envelope hash \<longleftrightarrow>
          IsBadSeq api (Some srErr) = Inr True \<and> ?w = Some None \<and> snd (txResultByHash api (secondDb run) hash) = None"
        using first none bad sr Some by (simp add: submit_defs)
      show thesis
      proof (cases "submit_succeeds api run rawTx envelope hash")
        case True
        then obtain tx2 where tx2: "txResultByHash api (secondDb run) hash = (tx2, None)"
          unfolding ss by (cases "txResultByHash api (secondDb run) hash") auto
        show thesis
          by (rule answered [OF sl, of "\<lparr>Err = None, Transaction = tx2\<rparr>"])
            (use res none Some sub True nw tx2 ss txResultByHash_success [OF tx2 dbs(2)] in \<open>simp_all add: truthful_def\<close>)
      next
        case False
        then have "\<exists>e. res = finish (nextChan sys) (failure e) sys2"
          using res none Some sub unfolding ss
          by (auto split: sum.splits bool.splits option.splits prod.splits)
        then obtain e where "res = finish (nextChan sys) (failure e) sys2" ..
        then show thesis by (rule answered [OF sl]) (use False nw in simp_all)
      qed
    qed
  qed
qed

lemma Submit_inv:
  assumes inv: "sys_inv api H D sys" and sub: "Submit api run rawTx envelope hash now sys = Some res"
    and hash: "H (nextChan sys) = hash" and dbs: "firstDb run \<in> D" "secondDb run \<in> D"
  shows "\<exists>sys'. res = Inr sys' \<and> sys_inv api H D sys'"
  using sub dbs
proof (cases rule: Submit_cases)
  case (answered r s)
  with finish_effect [OF inv answered(1), of r] hash show ?thesis by blast
next
  case (waits s)
  with Add_effect [OF inv waits(1), of hash now] hash show ?thesis by auto
qed

subsection \<open>Ticks\<close>

lemma tick_loop_steps:
  assumes "tick_loop Finish api (txMap_of txs) hashes (openSubs sys) = Inr p" and db: "db \<in> D" "tick_query db pending = Some txs"
  shows "(txsub_step api H D)\<^sup>*\<^sup>* sys (sys\<lparr>openSubs := p\<rparr>)"
  using assms(1)
proof (induction hashes arbitrary: sys)
  case (Cons h hs)
  show ?case
  proof (cases "Option.bind (txMap_of txs h) (tick_answer api)")
    case None
    then have "tick_loop Finish api (txMap_of txs) hs (openSubs sys) = Inr p"
      using Cons.prems by (auto split: option.splits)
    then show ?thesis by (rule Cons.IH)
  next
    case (Some r)
    then obtain tx q where tx: "txMap_of txs h = Some tx" "tick_answer api tx = Some r" "Finish h r (openSubs sys) = Inr q"
      "tick_loop Finish api (txMap_of txs) hs q = Inr p"
      using Cons.prems by (auto simp: bind_eq_Some_conv split: sum.splits)
    have "(txsub_step api H D)\<^sup>*\<^sup>* (sys\<lparr>openSubs := q\<rparr>) (sys\<lparr>openSubs := p\<rparr>)"
      using Cons.IH [of "sys\<lparr>openSubs := q\<rparr>"] tx(4) by simp
    with tick_finishes [OF db tx(1-3)] show ?thesis by (rule converse_rtranclp_into_rtranclp)
  qed
next
  case Nil
  then have "sys\<lparr>openSubs := p\<rparr> = sys" by (cases sys) simp
  then show ?case by simp
qed

text \<open>The answers a tick gives: what it finds in the history, and a timeout for what is too old.\<close>

definition tick_answers :: "'x xdr_api \<Rightarrow> horizonDB \<Rightarrow> string list \<Rightarrow> (string \<Rightarrow> int) \<Rightarrow> System \<Rightarrow> string \<Rightarrow> Result option" where
  "tick_answers api db order now sys =
     (if BeginTx db \<noteq> None then Map.empty
      else case tick_query db (Pending order (openSubs sys)) of
          None \<Rightarrow> Map.empty
        | Some txs \<Rightarrow> expired (SubmissionTimeout (Init sys)) now (waitingOf (openSubs sys)) ++
            found_answers api (txMap_of txs) (Pending order (openSubs sys)))"

lemma Tick_settles:
  assumes inv: "sys_inv api H D sys" and idle: "\<not> tickInProgress sys"
    and o1: "dom (waitingOf (openSubs sys)) \<subseteq> set order1" and o2: "dom (waitingOf (openSubs sys)) \<subseteq> set order2"
    and ans: "ans = tick_answers api db order1 now sys" and db: "db \<in> D"
  shows "\<exists>sys'. Tick api db order1 order2 now sys = Inr sys' \<and> (txsub_step api H D)\<^sup>*\<^sup>* sys sys' \<and>
    waitingOf (openSubs sys') = unresolved ans (waitingOf (openSubs sys)) \<and>
    settles ans (waitingOf (openSubs sys)) (chans (openSubs sys)) (chans (openSubs sys'))"
proof -
  let ?s0 = "(Init sys)\<lparr>tickInProgress := True\<rparr>"
  have begins: "txsub_step api H D sys ?s0"
    by (rule tick_begins) (use idle in \<open>simp add: setTickInProgress_def\<close>)
  have tick: "Tick api db order1 order2 now sys = map_sum id unsetTickInProgress (tick_body api db order1 order2 now ?s0)"
    using idle by (simp add: Tick_def setTickInProgress_def)
  have gives_up: ?thesis if "tick_body api db order1 order2 now ?s0 = Inr ?s0" "ans = Map.empty"
    using that tick begins tick_ends [of api H D ?s0]
    by (auto simp: unsetTickInProgress_def intro: converse_rtranclp_into_rtranclp)
  show ?thesis
  proof (cases "BeginTx db \<noteq> None \<or> tick_query db (Pending order1 (openSubs sys)) = None")
    case True
    show ?thesis by (rule gives_up) (use True in \<open>auto simp: tick_body_def ans tick_answers_def\<close>)
  next
    case False
    then obtain txs where txs: "BeginTx db = None" "tick_query db (Pending order1 (openSubs sys)) = Some txs" by auto
    let ?p = "openSubs sys"
    let ?found = "found_answers api (txMap_of txs) (Pending order1 ?p)"
    have a: "ans = expired (SubmissionTimeout (Init sys)) now (waitingOf ?p) ++ ?found"
      using txs by (simp add: ans tick_answers_def)
    from sl.tick_pass_settles [OF sys_invD(1) [OF inv] o1 o2 refl, of api "txMap_of txs" "SubmissionTimeout (Init sys)" now]
    obtain p1 p2 where p: "tick_loop Finish api (txMap_of txs) (Pending order1 ?p) ?p = Inr p1"
      "Clean (SubmissionTimeout (Init sys)) order2 now p1 = Inr (card (dom (waitingOf p2)), p2)"
      "waitingOf p2 = unresolved ans (waitingOf ?p)" "settles ans (waitingOf ?p) (chans ?p) (chans p2)"
      unfolding a Let_def by blast
    let ?s1 = "?s0\<lparr>openSubs := p1\<rparr>" and ?s2 = "?s0\<lparr>openSubs := p2, OpenSubmissions := card (dom (waitingOf p2))\<rparr>"
    have w1: "waitingOf p1 = unresolved ?found (waitingOf ?p)"
      using sl.tick_loop_settles [OF sys_invD(1) [OF inv], of api "txMap_of txs" "Pending order1 ?p"] p(1) by auto
    have "dom (waitingOf p1) \<subseteq> set order2"
      using o2 unfolding w1 by (auto simp: unresolved_def split: if_splits)
    then have c: "txsub_step api H D ?s1 ?s2"
      using tick_cleans [of ?s1 order2 now "card (dom (waitingOf p2))" p2 api H D] p(2) by simp
    have "(txsub_step api H D)\<^sup>*\<^sup>* sys ?s1"
      using tick_loop_steps [of api txs "Pending order1 ?p" ?s0 p1, OF _ db txs(2), of H] p(1) begins
      by (auto intro: converse_rtranclp_into_rtranclp)
    then have "(txsub_step api H D)\<^sup>*\<^sup>* sys (unsetTickInProgress ?s2)"
      using c tick_ends [of api H D ?s2] by (meson rtranclp.rtrancl_into_rtrancl)
    moreover have "Tick api db order1 order2 now sys = Inr (unsetTickInProgress ?s2)"
      using tick txs p(1,2) by (simp add: tick_body_def)
    ultimately show ?thesis using p(3,4) by (auto simp: unsetTickInProgress_def)
  qed
qed

lemma sys_inv_step: "txsub_step api H D sys sys' \<Longrightarrow> sys_inv api H D sys \<Longrightarrow> sys_inv api H D sys'"
proof (induction rule: txsub_step.induct)
  case (submit run rawTx envelope hash now sys sys')
  then show ?case using Submit_inv by fastforce
next
  case (tick_begins sys sys')
  then have "openSubs sys' = openSubs sys" "nextChan sys' = nextChan sys"
    by (auto simp: setTickInProgress_def split: if_splits)
  with tick_begins.prems show ?case using sys_inv_cong by metis
next
  case (tick_finishes db hashes txs hash tx r sys p)
  then have "truthful api D hash r" using tick_answer_truthful tick_query_history by blast
  with tick_finishes show ?case
    using sl.finish_law [OF sys_invD(1) [OF tick_finishes.prems], of hash r]
      sys_inv_settled [OF tick_finishes.prems, of p "[hash \<mapsto> r]"]
    by (fastforce split: if_splits)
next
  case (tick_cleans sys order now stillOpen p)
  then have "sys_inv api H D (sys\<lparr>openSubs := p\<rparr>)"
    using sl.clean_law [OF sys_invD(1) [OF tick_cleans.prems] tick_cleans.hyps(1), of "SubmissionTimeout sys" now]
      sys_inv_settled [OF tick_cleans.prems, of p] expired_truthful
    by fastforce
  then show ?case by (subst sys_inv_cong [of _ "sys\<lparr>openSubs := p\<rparr>"]) simp_all
next
  case (tick_ends sys)
  then show ?case by (subst sys_inv_cong [of _ sys]) (simp_all add: unsetTickInProgress_def)
qed

lemma sys_inv_New: "sys_inv api H D (NewSystem timeout)"
  by (simp add: sys_inv_def NewSystem_def NewDefaultSubmissionList_def list_inv_def well_waiting_def waitingOf_def listens_def)

lemma sys_inv_reachable: "(txsub_step api H D)\<^sup>*\<^sup>* (NewSystem timeout) sys \<Longrightarrow> sys_inv api H D sys"
  by (induction rule: rtranclp_induct) (auto intro: sys_inv_New sys_inv_step)

subsection \<open>Properties\<close>

lemma sys_inv_mono:
  assumes "sys_inv api H D sys" "D \<subseteq> D'" "\<And>l. l < nextChan sys \<Longrightarrow> H' l = H l"
  shows "sys_inv api H' D' sys"
proof -
  have "truthful api D' h r" if "truthful api D h r" for h r using that assms(2) unfolding truthful_def in_history_def by blast
  moreover have "h = H' l" if "listens sys h l" for h l
    using sys_invD(4) [OF assms(1) that] assms(3) [OF listens_less [OF assms(1) that]] by simp
  ultimately show ?thesis using assms(1,3) unfolding sys_inv_def by metis
qed

text \<open>
  C8. Exactly one answer per submission. In every state the system can reach, with submissions
  interleaved in any way with the steps of ticks: the channel of every submission so far is either
  waiting in the list under the hash it was submitted with, open and empty, or it has been closed with exactly one
  result and is in the list no more; a result without an error carries a transaction that one of the databases read so far has
  under the hash of this submission (as its own hash or as that of its inner transaction), and whose result decodes to a success. No operation panics or blocks: a submission that returns has changed the
  state without a fault, and so has every tick, which ends in a state reached by these steps.
\<close>

theorem every_submission_answered_once:
  assumes "(txsub_step api H D)\<^sup>*\<^sup>* (NewSystem timeout) sys"
    and "dom (waitingOf (openSubs sys)) \<subseteq> set order1" "dom (waitingOf (openSubs sys)) \<subseteq> set order2"
  shows "(\<forall>l < nextChan sys.
      (\<forall>h. listens sys h l \<longleftrightarrow> h = H l) \<and> chans (openSubs sys) l = Some (chan_make 1) \<or>
      (\<forall>h. \<not> listens sys h l) \<and> (\<exists>!r. got sys l r) \<and>
        (\<forall>r. got sys l r \<longrightarrow> Err r = None \<longrightarrow> successful_tx api (Transaction r) \<and> in_history D (H l) (Transaction r))) \<and>
    (\<forall>f. Submit api run rawTx envelope hash now sys \<noteq> Some (Inl f)) \<and>
    (\<exists>sys'. Tick api db order1 order2 clock sys = Inr sys' \<and> (txsub_step api H (insert db D))\<^sup>*\<^sup>* sys sys' \<or>
       tickInProgress sys \<and> Tick api db order1 order2 clock sys = Inr (Init sys))"
proof (intro conjI allI impI)
  note inv = sys_inv_reachable [OF assms(1)]
  fix l assume l: "l < nextChan sys"
  show "(\<forall>h. listens sys h l \<longleftrightarrow> h = H l) \<and> chans (openSubs sys) l = Some (chan_make 1) \<or>
      (\<forall>h. \<not> listens sys h l) \<and> (\<exists>!r. got sys l r) \<and>
        (\<forall>r. got sys l r \<longrightarrow> Err r = None \<longrightarrow> successful_tx api (Transaction r) \<and> in_history D (H l) (Transaction r))"
  proof (cases "\<exists>h. listens sys h l")
    case True
    with sys_invD(4) [OF inv] listens_fresh [OF inv] show ?thesis by blast
  next
    case False
    then obtain r where r: "got sys l r" "truthful api D (H l) r" using sys_invD(3) [OF inv l] by blast
    then have "got sys l r' \<longleftrightarrow> r' = r" for r' by (auto simp: got_def)
    with r(2) False show ?thesis by (simp add: truthful_def)
  qed
next
  fix f show "Submit api run rawTx envelope hash now sys \<noteq> Some (Inl f)"
  proof
    assume fault: "Submit api run rawTx envelope hash now sys = Some (Inl f)"
    have "sys_inv api (H(nextChan sys := hash)) UNIV sys" by (rule sys_inv_mono [OF sys_inv_reachable [OF assms(1)]]) simp_all
    from Submit_inv [OF this fault] show False by simp
  qed
next
  show "\<exists>sys'. Tick api db order1 order2 clock sys = Inr sys' \<and> (txsub_step api H (insert db D))\<^sup>*\<^sup>* sys sys' \<or>
      tickInProgress sys \<and> Tick api db order1 order2 clock sys = Inr (Init sys)"
  proof (cases "tickInProgress sys")
    case True
    then show ?thesis by (simp add: Tick_def setTickInProgress_def)
  next
    case False
    have "sys_inv api H (insert db D) sys" by (rule sys_inv_mono [OF sys_inv_reachable [OF assms(1)]]) auto
    from Tick_settles [OF this False assms(2,3) refl insertI1] show ?thesis by blast
  qed
qed

text \<open>An XDR package with the results \<open>ok\<close> and \<open>seq\<close>, and a database with one transaction.\<close>

definition demo_api :: "bool xdr_api" where
  "demo_api = \<lparr>SafeUnmarshalBase64 = (\<lambda>x. if x = ''ok'' then Inr True else if x = ''seq'' then Inr False else Inl ''bad''),
     Successful = id, resultCode = (\<lambda>b. if b then TxSuccess else TxBadSeq),
     GetInnerResultPair = (\<lambda>b. None), OperationResults = (\<lambda>b. None)\<rparr>"

definition demo_tx :: HistoryTransaction where
  "demo_tx = \<lparr>TransactionHash = ''a'', InnerTransactionHash = None, TxResult = ''ok''\<rparr>"

definition empty_db :: horizonDB where
  "empty_db = \<lparr>GetLatestHistoryLedger = Inr 100, PreFilteredTransactionByHash = (\<lambda>h. Inl ''no rows''),
     TransactionByHash = (\<lambda>h. Inl ''no rows''), AllTransactionsByHashesSinceLedger = (\<lambda>hs n. Inr []),
     GetSequenceNumbers = (\<lambda>as. Inr (\<lambda>a. Some 7)), BeginTx = None, NoRows = (\<lambda>e. e = ''no rows'')\<rparr>"

definition full_db :: horizonDB where
  "full_db = empty_db\<lparr>TransactionByHash := (\<lambda>h. if h = ''a'' then Inr demo_tx else Inl ''no rows''),
     AllTransactionsByHashesSinceLedger := (\<lambda>hs n. if ''a'' \<in> set hs then Inr [demo_tx] else Inr [])\<rparr>"

definition demo_core :: "TXStatus \<Rightarrow> string \<Rightarrow> string + TXResponse" where
  "demo_core st rawTx = Inr \<lparr>Exception = '''', CoreError = ''seq'', Status = st,
       DiagnosticEvents = '''', IsException = False\<rparr>"

definition demo_envelope :: TransactionEnvelope where
  "demo_envelope = \<lparr>SourceAddress = ''G'', SeqNum = 5, MinSeqNum = None\<rparr>"

definition demo_run :: "TXStatus \<Rightarrow> submit_run" where
  "demo_run st = \<lparr>firstDb = empty_db, core = demo_core st,
     pollAt = (\<lambda>i. \<lparr>pollDb = empty_db, CoreLatest = 9, HistoryLatest = 8, ctxErr = None\<rparr>), secondDb = full_db\<rparr>"

definition demo_sys :: System where
  "demo_sys = (case Submit demo_api (demo_run TXStatusPending) ''tx'' demo_envelope ''a'' 10 (NewSystem 0) of
     Some (Inr sys) \<Rightarrow> sys | _ \<Rightarrow> NewSystem 0)"

lemmas demo_defs = demo_api_def demo_tx_def empty_db_def full_db_def demo_core_def demo_envelope_def demo_run_def

lemma demo_Submit:
  "Submit demo_api (demo_run TXStatusPending) ''tx'' demo_envelope ''a'' 10 (NewSystem 0) =
     Some (Inr \<lparr>initialized = True, tickInProgress = False, SubmissionTimeout = 30 * 10 ^ 9,
       openSubs = \<lparr>submissions = [(''a'', \<lparr>Hash = ''a'', SubmittedAt = 10, Listeners = [0]\<rparr>)],
                   chans = [0 \<mapsto> chan_make 1]\<rparr>,
       nextChan = 1, FailedSubmissions = 0, SuccessfulSubmissions = 1, OpenSubmissions = 0\<rparr>)"
  by (simp add: Submit_def demo_defs bad_sequence_def Init_def NewSystem_def NewDefaultSubmissionList_def
      txResultByHash_def submitOnce_def submitter_Submit_def Add_def chan_make_def Let_def)

lemma demo_sys_eq: "Submit demo_api (demo_run TXStatusPending) ''tx'' demo_envelope ''a'' 10 (NewSystem 0) = Some (Inr demo_sys)"
  by (simp only: demo_sys_def demo_Submit option.case sum.case)

text \<open>The hashes of the submissions, and the databases that were read.\<close>

definition demo_hash :: "nat \<Rightarrow> string" where
  "demo_hash l = ''a''"

definition demo_dbs :: "horizonDB set" where
  "demo_dbs = {empty_db, full_db}"

lemma demo_sys_reachable: "(txsub_step demo_api demo_hash demo_dbs)\<^sup>*\<^sup>* (NewSystem 0) demo_sys"
  by (rule r_into_rtranclp) (rule submit [OF demo_sys_eq], simp_all add: demo_hash_def demo_dbs_def demo_run_def)

lemma demo_waiting: "waitingOf (openSubs demo_sys) = [''a'' \<mapsto> (10, [0])]" "nextChan demo_sys = 1"
    "tickInProgress demo_sys = False" "SubmissionTimeout (Init demo_sys) = 30000000000"
    "openSubs demo_sys = \<lparr>submissions = [(''a'', \<lparr>Hash = ''a'', SubmittedAt = 10, Listeners = [0]\<rparr>)],
                   chans = [0 \<mapsto> chan_make 1]\<rparr>"
  by (simp_all add: demo_sys_def demo_Submit waitingOf_def fun_eq_iff Init_def)

text \<open>The system after a tick that finds the transaction of the submission.\<close>

definition demo_answered :: System where
  "demo_answered = (case Tick demo_api full_db [''a''] [''a''] (\<lambda>h. 20) demo_sys of Inr sys \<Rightarrow> sys | Inl f \<Rightarrow> demo_sys)"

lemma demo_answered_reachable: "(txsub_step demo_api demo_hash demo_dbs)\<^sup>*\<^sup>* (NewSystem 0) demo_answered"
proof -
  have d: "dom (waitingOf (openSubs demo_sys)) \<subseteq> set [''a'']" by (simp add: demo_waiting(1))
  have idle: "\<not> tickInProgress demo_sys" by (simp add: demo_waiting(3))
  have "full_db \<in> demo_dbs" by (simp add: demo_dbs_def)
  from Tick_settles [OF sys_inv_reachable [OF demo_sys_reachable] idle d d refl this, of "\<lambda>h. 20"]
  have "(txsub_step demo_api demo_hash demo_dbs)\<^sup>*\<^sup>* demo_sys demo_answered" by (auto simp: demo_answered_def)
  with demo_sys_reachable show ?thesis by (rule rtranclp_trans)
qed

lemma demo_answered_eq: "waitingOf (openSubs demo_answered) = Map.empty" "nextChan demo_answered = 1"
    "got demo_answered 0 \<lparr>Err = None, Transaction = demo_tx\<rparr>"
  by (simp_all add: demo_answered_def Tick_def setTickInProgress_def tick_body_def tick_query_def Pending_def demo_waiting full_db_def empty_db_def Init_def
      txMap_of_def tick_answer_def txResultFromHistory_def demo_tx_def demo_api_def Finish_def Clean_def got_def waitingOf_def unsetTickInProgress_def
      chan_make_def chan_send_def chan_close_def fun_eq_iff)

theorem every_submission_answered_once_witness:
  "(\<forall>h. listens demo_sys h 0 \<longleftrightarrow> h = ''a'') \<and> chans (openSubs demo_sys) 0 = Some (chan_make 1) \<and>
   got demo_answered 0 \<lparr>Err = None, Transaction = demo_tx\<rparr> \<and> successful_tx demo_api demo_tx \<and> in_history demo_dbs ''a'' demo_tx"
proof -
  have "dom (waitingOf (openSubs demo_sys)) \<subseteq> set [''a'']" by (simp add: demo_waiting(1))
  note demo = conjunct1 [OF every_submission_answered_once [OF demo_sys_reachable this this]]
  have "listens demo_sys ''a'' 0" by (simp add: listens_def demo_waiting(1))
  moreover have "0 < nextChan demo_sys" by (simp add: demo_waiting(2))
  ultimately have waits: "(\<forall>h. listens demo_sys h 0 \<longleftrightarrow> h = ''a'') \<and> chans (openSubs demo_sys) 0 = Some (chan_make 1)"
    using demo [rule_format, of 0] by (auto simp: demo_hash_def)
  have "dom (waitingOf (openSubs demo_answered)) \<subseteq> set [''a'']" by (simp add: demo_answered_eq(1))
  note done' = conjunct1 [OF every_submission_answered_once [OF demo_answered_reachable this this]]
  have "\<not> chans (openSubs demo_answered) 0 = Some (chan_make 1)" using demo_answered_eq(3) by (simp add: got_def chan_make_def)
  then have "successful_tx demo_api demo_tx \<and> in_history demo_dbs ''a'' demo_tx"
    using done' [rule_format, of 0] demo_answered_eq(2,3) by (fastforce simp: demo_hash_def)
  with waits demo_answered_eq(3) show ?thesis by blast
qed

text \<open>
  A tick settles exactly what it can. From every reachable state in which no tick is running, a tick
  returns; when the database answers, every waiting hash for which the history has a transaction with a
  readable result (under its hash or its inner hash) has all of its listeners answered with that
  transaction, as a success or with the failure of its result, every other hash whose first submission
  is older than the timeout has them answered with a timeout, and every other submission and channel is
  left as it was. When the database fails nothing is answered.
\<close>

theorem tick_settles_found_and_expired:
  assumes "(txsub_step api H D)\<^sup>*\<^sup>* (NewSystem timeout) sys" "\<not> tickInProgress sys"
    and "dom (waitingOf (openSubs sys)) \<subseteq> set order1" "dom (waitingOf (openSubs sys)) \<subseteq> set order2"
    and "waitingOf (openSubs sys) hash = Some (t, ls)" "l \<in> set ls"
  shows "\<exists>sys'. Tick api db order1 order2 now sys = Inr sys' \<and>
    (case (if BeginTx db \<noteq> None then None else tick_query db (Pending order1 (openSubs sys))) of
       None \<Rightarrow> listens sys' hash l
     | Some txs \<Rightarrow>
         (case Option.bind (txMap_of txs hash) (tick_answer api) of
            Some r \<Rightarrow> got sys' l r \<and> waitingOf (openSubs sys') hash = None
          | None \<Rightarrow>
              if now hash - t > SubmissionTimeout (Init sys)
              then got sys' l timeout_result \<and> waitingOf (openSubs sys') hash = None
              else waitingOf (openSubs sys') hash = Some (t, ls) \<and> chans (openSubs sys') l = Some (chan_make 1)))"
proof -
  note inv = sys_inv_reachable [OF assms(1)]
  define ans where "ans = tick_answers api db order1 now sys"
  obtain sys' where sys': "Tick api db order1 order2 now sys = Inr sys'"
    "waitingOf (openSubs sys') = unresolved ans (waitingOf (openSubs sys))"
    "settles ans (waitingOf (openSubs sys)) (chans (openSubs sys)) (chans (openSubs sys'))"
    using Tick_settles [OF sys_inv_mono [OF inv subset_insertI] assms(2-4) ans_def insertI1] by blast
  have fresh: "chans (openSubs sys) l = Some (chan_make 1)"
    by (rule listens_fresh [OF inv]) (use assms(5,6) in \<open>auto simp: listens_def\<close>)
  have none: "waitingOf (openSubs sys') hash = Some (t, ls) \<and> chans (openSubs sys') l = Some (chan_make 1)" if "ans hash = None"
    using that assms(5) settles_waiting [OF sys'(3) assms(5,6)] fresh sys'(2) by (simp add: unresolved_Some)
  have some: "got sys' l r \<and> waitingOf (openSubs sys') hash = None" if "ans hash = Some r" for r
    using that settles_waiting [OF sys'(3) assms(5,6)] fresh sys'(2)
    by (simp add: got_def answered_def chan_make_def unresolved_def)
  have p: "hash \<in> set (Pending order1 (openSubs sys))"
    using sl.pending_law [OF sys_invD(1) [OF inv] assms(3)] assms(5) by blast
  show ?thesis
  proof (cases "BeginTx db \<noteq> None \<or> tick_query db (Pending order1 (openSubs sys)) = None")
    case True
    then have "ans hash = None" by (auto simp: ans_def tick_answers_def)
    with none sys'(1) True assms(6) show ?thesis by (auto simp: listens_def)
  next
    case False
    then obtain txs where txs: "BeginTx db = None" "tick_query db (Pending order1 (openSubs sys)) = Some txs" by auto
    then have a: "ans hash = (case Option.bind (txMap_of txs hash) (tick_answer api) of
        Some r \<Rightarrow> Some r
      | None \<Rightarrow> if now hash - t > SubmissionTimeout (Init sys) then Some timeout_result else None)"
      using p assms(5) by (cases "Option.bind (txMap_of txs hash) (tick_answer api)")
        (simp_all add: ans_def tick_answers_def map_add_def found_answers_def expired_def)
    show ?thesis
      using sys'(1) txs some none a by (auto split: option.split if_splits)
  qed
qed

theorem tick_settles_found_and_expired_witness:
  "\<exists>sys'. Tick demo_api full_db [''a''] [''a''] (\<lambda>h. 20) demo_sys = Inr sys' \<and>
     got sys' 0 \<lparr>Err = None, Transaction = demo_tx\<rparr> \<and> waitingOf (openSubs sys') ''a'' = None"
proof -
  have d: "dom (waitingOf (openSubs demo_sys)) \<subseteq> set [''a'']" by (simp add: demo_waiting(1))
  have q: "tick_query full_db (Pending [''a''] (openSubs demo_sys)) = Some [demo_tx]"
    by (simp add: tick_query_def Pending_def demo_waiting(5) full_db_def empty_db_def)
  have b: "BeginTx full_db = None" by (simp add: full_db_def empty_db_def)
  have a: "Option.bind (txMap_of [demo_tx] ''a'') (tick_answer demo_api) = Some \<lparr>Err = None, Transaction = demo_tx\<rparr>"
    by (simp add: txMap_of_def tick_answer_def txResultFromHistory_def demo_tx_def demo_api_def)
  have w: "waitingOf (openSubs demo_sys) ''a'' = Some (10, [0])" "(0::nat) \<in> set [0]"
    by (simp_all add: demo_waiting(1))
  have t: "\<not> tickInProgress demo_sys" by (simp add: demo_waiting(3))
  from tick_settles_found_and_expired [OF demo_sys_reachable t d d w, of full_db "\<lambda>h. 20"]
  show ?thesis by (simp add: q b a)
qed

text \<open>
  What a submission does, for every outcome of the calls it makes: its channel is added to the list,
  under the hash of the transaction, exactly when the sequence numbers make sense, the history does not
  know the transaction and stellar-core took it; otherwise it is answered at once. The answer is free of
  an error exactly when a successful transaction was found in the history, at first or, after
  stellar-core has reported a bad sequence number, once the account has caught up. Other listeners are
  left alone.
\<close>

theorem submit_waits_or_answers:
  assumes "(txsub_step api H D)\<^sup>*\<^sup>* (NewSystem timeout) sys"
    and "Submit api run rawTx envelope hash now sys = Some res"
  shows "\<exists>sys'. res = Inr sys' \<and> nextChan sys' = nextChan sys + 1 \<and>
    (\<forall>h l. listens sys' h l \<longleftrightarrow> listens sys h l \<or>
       submit_waits api run rawTx envelope hash \<and> h = hash \<and> l = nextChan sys) \<and>
    ((\<exists>r. got sys' (nextChan sys) r) \<longleftrightarrow> \<not> submit_waits api run rawTx envelope hash) \<and>
    ((\<exists>r. got sys' (nextChan sys) r \<and> Err r = None) \<longleftrightarrow> submit_succeeds api run rawTx envelope hash)"
  using assms(2) UNIV_I UNIV_I
proof (cases rule: Submit_cases)
  case (answered r s)
  obtain sys' where sys': "finish (nextChan sys) r s = Inr sys'" "got sys' (nextChan sys) r"
    "\<And>h l. listens sys' h l \<longleftrightarrow> listens sys h l" "nextChan sys' = nextChan sys + 1"
    using finish_effect [OF sys_inv_reachable [OF assms(1)] answered(1), of r] by blast
  have "got sys' (nextChan sys) r' \<longleftrightarrow> r' = r" for r'
    using sys'(2) by (auto simp: got_def)
  with sys' answered(2,4,5) show ?thesis by (intro exI [of _ sys']) simp
next
  case (waits s)
  have "nextChan s = nextChan sys + 1"
    using waits(1) by (simp add: same_list_def with_channel_def Let_def)
  with Add_effect [OF sys_inv_reachable [OF assms(1)] waits(1), of hash now] waits(2-4) show ?thesis
    by auto
qed

theorem submit_waits_or_answers_witness:
  "\<exists>sys'. Submit demo_api (demo_run TXStatusPending) ''tx'' demo_envelope ''a'' 10 (NewSystem 0) = Some (Inr sys') \<and>
     listens sys' ''a'' 0 \<and> \<not> (\<exists>r. got sys' 0 r)"
proof -
  have "submit_waits demo_api (demo_run TXStatusPending) ''tx'' demo_envelope ''a''"
    by (simp add: submit_waits_def demo_defs bad_sequence_def txResultByHash_def submitter_Submit_def)
  moreover have "nextChan (NewSystem 0) = 0" by (simp add: NewSystem_def)
  ultimately show ?thesis
    using submit_waits_or_answers [OF rtranclp.rtrancl_refl demo_sys_eq] demo_sys_eq by auto
qed

text \<open>The wait ends at the first poll that decides it.\<close>

lemma wait_first_decisive:
  "waitUntilAccountSequence polls addr seq 0 = Some res \<longleftrightarrow>
     (\<exists>i. (\<forall>j<i. \<not> sequence_reached addr seq (polls j) \<and> ctxErr (polls j) = None) \<and>
          (if sequence_reached addr seq (polls i) then res = None
           else \<exists>e. ctxErr (polls i) = Some e \<and> res = Some (deriveTxSubError e)))"
    (is "?L = ?R")
proof -
  let ?quiet = "\<lambda>j. \<not> sequence_reached addr seq (polls j) \<and> ctxErr (polls j) = None"
  let ?here = "\<lambda>i. if sequence_reached addr seq (polls i) then res = None
    else \<exists>e. ctxErr (polls i) = Some e \<and> res = Some (deriveTxSubError e)"
  have here: "waitUntilAccountSequence polls addr seq i = Some res \<longleftrightarrow> ?here i" if "\<not> ?quiet i" for i
    using that by (subst waitUntilAccountSequence.simps) (auto split: option.split)
  have skip: "waitUntilAccountSequence polls addr seq i = waitUntilAccountSequence polls addr seq (i + n)"
    if "\<And>j. i \<le> j \<Longrightarrow> j < i + n \<Longrightarrow> ?quiet j" for i n
    using that
  proof (induction n arbitrary: i)
    case (Suc n)
    have "waitUntilAccountSequence polls addr seq i = waitUntilAccountSequence polls addr seq (i + 1)"
      using Suc.prems [of i] by (subst waitUntilAccountSequence.simps) simp
    also have "\<dots> = waitUntilAccountSequence polls addr seq (i + 1 + n)"
      by (rule Suc.IH) (use Suc.prems in simp)
    finally show ?case by simp
  qed simp
  have decides: "\<exists>i. \<not> (\<not> sequence_reached a q (ps i) \<and> ctxErr (ps i) = None)"
    if "waitUntilAccountSequence ps a q k = Some y" for ps a q k y
  proof (rule waitUntilAccountSequence.raw_induct [OF _ that])
    fix wait and ps :: "nat \<Rightarrow> poll" and a q k y
    assume IH: "\<And>ps a q k y. wait ps a q k = Some y \<Longrightarrow> \<exists>i. \<not> (\<not> sequence_reached a q (ps i) \<and> ctxErr (ps i) = None)"
      and eq: "(if sequence_reached a q (ps k) then Some None
        else case ctxErr (ps k) of Some e \<Rightarrow> Some (Some (deriveTxSubError e)) | None \<Rightarrow> wait ps a q (k + 1)) = Some y"
    show "\<exists>i. \<not> (\<not> sequence_reached a q (ps i) \<and> ctxErr (ps i) = None)"
      using eq IH [of ps a q "k + 1" y] by (cases "ctxErr (ps k)") (auto split: if_splits)
  qed
  show ?thesis
  proof
    assume ?L
    define i where "i = (LEAST i. \<not> ?quiet i)"
    have i: "\<not> ?quiet i" unfolding i_def using decides [OF \<open>?L\<close>] by (rule LeastI_ex)
    have q: "?quiet j" if "j < i" for j using not_less_Least [of j "\<lambda>i. \<not> ?quiet i"] that unfolding i_def by blast
    have "?here i" using here [OF i] skip [of 0 i] q \<open>?L\<close> by simp
    with q show ?R by blast
  next
    assume ?R
    then obtain i where i: "\<And>j. j < i \<Longrightarrow> ?quiet j" "?here i" by blast
    then have "\<not> ?quiet i" by (auto split: if_splits)
    with here [OF this] skip [of 0 i] i show ?L by simp
  qed
qed

lemma sequence_reached_iff:
  "sequence_reached addr seq p \<longleftrightarrow> (\<exists>nums. GetSequenceNumbers (pollDb p) [addr] = Inr nums \<and>
     ((\<exists>n. nums addr = Some n \<and> unat seq \<le> unat n) \<or> seq = 0 \<or> sint (CoreLatest p) \<le> sint (HistoryLatest p)))"
  by (auto simp: sequence_reached_def isSyncedUp_def Let_def word_le_nat_alt unat_eq_0 split: sum.splits option.splits)

text \<open>
  C9. The wait for an account sequence, in terms of what the polls see. It returns without an error exactly when some poll gets an answer from the database in which the account's sequence number is
  at least that of the transaction (0 for an account that the database does not have), or (for an answer of any kind) the ingested history is at or past the latest ledger of stellar-core, while the request was still alive at each poll before it. It returns an error
  exactly when the request ends at a poll and no poll up to that one saw either; the error says whether the request was canceled or timed out. So it returns at all exactly when there is such a poll.
\<close>

theorem wait_ends_at_first_decisive_poll:
  defines "seen \<equiv> \<lambda>addr seq p. \<exists>nums. GetSequenceNumbers (pollDb p) [addr] = Inr nums \<and>
     ((\<exists>n. nums addr = Some n \<and> unat seq \<le> unat n) \<or> seq = 0 \<or> sint (CoreLatest p) \<le> sint (HistoryLatest p))"
  shows "(waitUntilAccountSequence polls addr seq 0 = Some None \<longleftrightarrow>
       (\<exists>i. seen addr seq (polls i) \<and> (\<forall>j<i. ctxErr (polls j) = None))) \<and>
    (waitUntilAccountSequence polls addr seq 0 = Some (Some e) \<longleftrightarrow>
       (\<exists>i c. ctxErr (polls i) = Some c \<and> e = (if c = Canceled then ErrCanceled else ErrTimeout) \<and>
          (\<forall>j<i. ctxErr (polls j) = None) \<and> (\<forall>j\<le>i. \<not> seen addr seq (polls j)))) \<and>
    (waitUntilAccountSequence polls addr seq 0 = None \<longleftrightarrow> (\<forall>i. \<not> seen addr seq (polls i) \<and> ctxErr (polls i) = None))"
proof -
  have seen: "sequence_reached a q p = seen a q p" for a q p by (simp add: seen_def sequence_reached_iff)
  let ?quiet = "\<lambda>j. \<not> seen addr seq (polls j) \<and> ctxErr (polls j) = None"
  note first = wait_first_decisive [of polls addr seq, unfolded seen]
  have least: "\<exists>i. P i \<and> (\<forall>j<i. \<not> P j)" if "P k" for P and k :: nat using that exists_least_iff [of P] by blast
  have none: "waitUntilAccountSequence polls addr seq 0 = Some None \<longleftrightarrow> (\<exists>i. seen addr seq (polls i) \<and> (\<forall>j<i. ctxErr (polls j) = None))" (is "?L \<longleftrightarrow> ?R")
  proof
    assume ?L
    then show ?R unfolding first by (auto split: if_splits)
  next
    assume ?R
    then obtain k where k: "seen addr seq (polls k)" "\<forall>j<k. ctxErr (polls j) = None" by blast
    from least [of "\<lambda>i. seen addr seq (polls i)", OF k(1)] obtain i where i: "seen addr seq (polls i)" "\<forall>j<i. \<not> seen addr seq (polls j)" by blast
    then have "i \<le> k" using k(1) by (meson not_le_imp_less)
    with i k(2) show ?L unfolding first by (intro exI [of _ i]) auto
  qed
  have error: "waitUntilAccountSequence polls addr seq 0 = Some (Some e) \<longleftrightarrow> (\<exists>i c. ctxErr (polls i) = Some c \<and> e = (if c = Canceled then ErrCanceled else ErrTimeout) \<and>
      (\<forall>j<i. ctxErr (polls j) = None) \<and> (\<forall>j\<le>i. \<not> seen addr seq (polls j)))" (is "?L \<longleftrightarrow> ?R")
  proof
    assume ?L
    then obtain i c where "\<forall>j<i. ?quiet j" "\<not> seen addr seq (polls i)" "ctxErr (polls i) = Some c" "e = deriveTxSubError c"
      unfolding first by (auto split: if_splits)
    then show ?R by (intro exI [of _ i] exI [of _ c]) (auto simp: deriveTxSubError_def le_less)
  next
    assume ?R
    then obtain i c where "ctxErr (polls i) = Some c" "e = deriveTxSubError c" "\<forall>j<i. ctxErr (polls j) = None" "\<forall>j\<le>i. \<not> seen addr seq (polls j)"
      by (auto simp: deriveTxSubError_def)
    then show ?L unfolding first by (intro exI [of _ i]) auto
  qed
  have "waitUntilAccountSequence polls addr seq 0 = None \<longleftrightarrow> (\<forall>i. ?quiet i)"
  proof (rule iffI)
    assume none: "waitUntilAccountSequence polls addr seq 0 = None"
    show "\<forall>i. ?quiet i"
    proof (rule ccontr)
      assume "\<not> (\<forall>i. ?quiet i)"
      then obtain k where "\<not> ?quiet k" by blast
      from least [of "\<lambda>i. \<not> ?quiet i", OF this] obtain i where "\<not> ?quiet i" "\<forall>j<i. ?quiet j" by blast
      then have "waitUntilAccountSequence polls addr seq 0 = Some (if seen addr seq (polls i) then None else map_option deriveTxSubError (ctxErr (polls i)))"
        unfolding first by (intro exI [of _ i]) auto
      with none show False by simp
    qed
  next
    assume quiet: "\<forall>i. ?quiet i"
    have "waitUntilAccountSequence polls addr seq 0 \<noteq> Some res" for res using first [of res] quiet by auto
    then show "waitUntilAccountSequence polls addr seq 0 = None" by (meson option.exhaust)
  qed
  with none error show ?thesis by blast
qed

definition slow_polls :: "nat \<Rightarrow> poll" where
  "slow_polls i = \<lparr>pollDb = empty_db, CoreLatest = 9, HistoryLatest = of_nat i, ctxErr = None\<rparr>"

theorem wait_ends_at_first_decisive_poll_witness:
  "waitUntilAccountSequence slow_polls ''G'' 8 0 = Some None"
proof -
  have "GetSequenceNumbers (pollDb (slow_polls 9)) [''G''] = Inr (\<lambda>a. Some 7)" "sint (CoreLatest (slow_polls 9)) \<le> sint (HistoryLatest (slow_polls 9))"
    "\<forall>j<9. ctxErr (slow_polls j) = None" by (simp_all add: slow_polls_def empty_db_def)
  then show ?thesis using wait_ends_at_first_decisive_poll [of slow_polls "''G''" 8] by blast
qed

end
