(* ===== verification/Decimal.thy ===== *)
theory Decimal
  imports Prelude
begin

text \<open>
  Decimal numerals as the Go standard library prints and reads them: \<open>big.Int.String\<close> and
  \<open>big.Int.SetString(s, 10)\<close>, and the range checks of \<open>strconv.ParseInt\<close> and \<open>strconv.ParseUint\<close> on
  top of them. The components that store amounts as strings or read cursors share them.
\<close>

definition digit_char :: "nat \<Rightarrow> char" where
  "digit_char n = char_of (48 + n)"

fun nat_string :: "nat \<Rightarrow> string" where
  "nat_string n = (if n < 10 then [digit_char n] else nat_string (n div 10) @ [digit_char (n mod 10)])"

declare nat_string.simps [simp del]

definition Int_String :: "int \<Rightarrow> string" where
  "Int_String i = (if i < 0 then CHR ''-'' # nat_string (nat (- i)) else nat_string (nat i))"

definition digit_value :: "char \<Rightarrow> nat option" where
  "digit_value c = (let n = of_char c in if 48 \<le> n \<and> n \<le> (57 :: nat) then Some (n - 48) else None)"

fun parse_digits :: "nat \<Rightarrow> string \<Rightarrow> nat option" where
  "parse_digits acc [] = Some acc"
| "parse_digits acc (c # cs) = (case digit_value c of None \<Rightarrow> None | Some d \<Rightarrow> parse_digits (10 * acc + d) cs)"

definition Uint_SetString :: "string \<Rightarrow> nat option" where
  "Uint_SetString s = (if s = [] then None else parse_digits 0 s)"

definition Int_SetString :: "string \<Rightarrow> int option" where
  "Int_SetString s = (case s of
       [] \<Rightarrow> None
     | c # cs \<Rightarrow>
         if c = CHR ''-'' then map_option (\<lambda>n. - int n) (Uint_SetString cs)
         else if c = CHR ''+'' then map_option int (Uint_SetString cs)
         else map_option int (Uint_SetString s))"

text \<open>\<open>strconv.ParseInt(s, 10, bits)\<close> and \<open>strconv.ParseUint(s, 10, bits)\<close>: no error is \<open>Some\<close>.\<close>

definition ParseInt :: "nat \<Rightarrow> string \<Rightarrow> int option" where
  "ParseInt bits s = (case Int_SetString s of
       None \<Rightarrow> None
     | Some i \<Rightarrow> if - (2 ^ (bits - 1)) \<le> i \<and> i < 2 ^ (bits - 1) then Some i else None)"

definition ParseUint :: "nat \<Rightarrow> string \<Rightarrow> nat option" where
  "ParseUint bits s = (case Uint_SetString s of
       None \<Rightarrow> None
     | Some n \<Rightarrow> if n < 2 ^ bits then Some n else None)"

subsection \<open>Printing and reading are inverse\<close>

lemma digit_value_char: "n < 10 \<Longrightarrow> digit_value (digit_char n) = Some n"
  by (simp add: digit_value_def digit_char_def Let_def)

lemma parse_digits_append:
  "parse_digits acc (xs @ ys) = Option.bind (parse_digits acc xs) (\<lambda>a. parse_digits a ys)"
  by (induction xs arbitrary: acc) (auto split: option.split)

lemma parse_nat_string: "parse_digits 0 (nat_string n) = Some n"
proof (induction n rule: nat_string.induct)
  case (1 n)
  show ?case
    by (cases "n < 10") (use 1 in \<open>simp_all add: nat_string.simps [of n] parse_digits_append digit_value_char\<close>)
qed

lemma nat_string_Cons: "\<exists>d cs. d < 10 \<and> nat_string n = digit_char d # cs"
proof (induction n rule: nat_string.induct)
  case (1 n)
  show ?case
    by (cases "n < 10") (use 1 in \<open>auto simp: nat_string.simps [of n]\<close>)
qed

lemma digit_char_not_sign: "d < 10 \<Longrightarrow> digit_char d \<noteq> CHR ''-'' \<and> digit_char d \<noteq> CHR ''+'' \<and> digit_char d \<noteq> CHR ''_''"
  by (auto simp: digit_char_def dest: arg_cong [where f = "of_char :: char \<Rightarrow> nat"])

lemma Uint_SetString_nat_string [simp]: "Uint_SetString (nat_string n) = Some n"
  using nat_string_Cons [of n] by (auto simp: Uint_SetString_def parse_nat_string)

lemma Int_SetString_String [simp]: "Int_SetString (Int_String i) = Some i"
proof (cases "i < 0")
  case True
  then show ?thesis by (simp add: Int_String_def Int_SetString_def)
next
  case False
  obtain d cs where d: "d < 10" "nat_string (nat i) = digit_char d # cs" using nat_string_Cons by blast
  have "Int_SetString (nat_string (nat i)) = map_option int (Uint_SetString (nat_string (nat i)))"
    using digit_char_not_sign [OF d(1)] by (simp add: Int_SetString_def d(2))
  with False show ?thesis by (simp add: Int_String_def)
qed

lemma Int_String_inj: "Int_String i = Int_String j \<longleftrightarrow> i = j"
  by (metis Int_SetString_String option.inject)

lemma Int_String_zero: "Int_String i = ''0'' \<longleftrightarrow> i = 0"
proof -
  have "''0'' = Int_String 0" by (simp add: Int_String_def nat_string.simps digit_char_def eq_commute [of "CHR ''0''"] char_of_eq_iff)
  then show ?thesis by (simp only: Int_String_inj)
qed

lemma nat_string_digits: "set (nat_string n) \<subseteq> digit_char ` {..<10}"
proof (induction n rule: nat_string.induct)
  case (1 n)
  show ?case
    by (cases "n < 10") (use 1 in \<open>auto simp: nat_string.simps [of n]\<close>)
qed

end
