(* ===== verification/Asset_Stats.thy ===== *)
theory Asset_Stats
  imports Decimal
begin

text \<open>
  The statistics of classic assets (\<open>internal/ingest/processors/asset_stats_set.go\<close>, the part of
  \<open>asset_stats_processor.go\<close> that is about them, and the rows of \<open>internal/db2/history/main.go\<close>): the set
  of deltas that the changes of a ledger add up to, and the update of the table \<open>exp_asset_stats\<close> with
  it. The five fields that the structs \<open>delta\<close>, \<open>assetStatBalances\<close>, \<open>ExpAssetStatAccounts\<close> and
  \<open>ExpAssetStatBalances\<close> have in common are the values of \<open>category\<close>, and each struct is a function
  of it; \<open>big.Int\<close> is \<open>int\<close>, counts are \<open>int32\<close> and wrap.
  What is read from the XDR package is the record \<open>asset_api\<close>. Where the code wraps an error in
  several messages on the way up, the model keeps the innermost.
\<close>

subsection \<open>Ledger entries\<close>

datatype Asset = AssetTypeNative | AssetTypeCreditAlphanum4 string string | AssetTypeCreditAlphanum12 string string

datatype TrustLineAsset = PlainAsset Asset | AssetTypePoolShare string

record TrustLineEntry =
  tlAsset :: TrustLineAsset
  tlFlags :: u32
  tlBalance :: i64

record ClaimableBalanceEntry =
  cbAsset :: Asset
  cbAmount :: i64

datatype LiquidityPoolEntry = ConstantProduct Asset Asset i64 i64 | OtherPool int

datatype LiquidityPoolType = LiquidityPoolConstantProduct | OtherPoolType int

text \<open>
  Of a contract data entry the code reads the contract itself (the pointer \<open>Contract.ContractId\<close>); its
  key and value are read by the functions of the \<open>sac\<close> package.
\<close>

record ContractDataEntry =
  cdContractId :: "string option"
  cdKey :: string
  cdVal :: string

record TtlEntry =
  ttlKeyHash :: string
  LiveUntilLedgerSeq :: u32

datatype LedgerEntry =
    TrustLineData TrustLineEntry
  | LiquidityPoolData LiquidityPoolEntry
  | ClaimableBalanceData ClaimableBalanceEntry
  | ContractData ContractDataEntry
  | TtlData TtlEntry
  | OtherData nat

datatype LedgerEntryType =
    LedgerEntryTypeTrustline
  | LedgerEntryTypeLiquidityPool
  | LedgerEntryTypeClaimableBalance
  | LedgerEntryTypeContractData
  | LedgerEntryTypeTtl
  | OtherEntryType

record change =
  Type :: LedgerEntryType
  Pre :: "LedgerEntry option"
  Post :: "LedgerEntry option"

record assetStatKey =
  assetType :: int
  assetCode :: string
  assetIssuer :: string

record asset_api =
  Extract :: "Asset \<Rightarrow> string + assetStatKey"
  IsAuthorized :: "u32 \<Rightarrow> bool"
  IsAuthorizedToMaintainLiabilitiesFlag :: "u32 \<Rightarrow> bool"
  GetLiquidityPoolType :: "LiquidityPoolEntry option \<Rightarrow> LiquidityPoolEntry option \<Rightarrow> string + LiquidityPoolType"

datatype stats_error = StateError string | WrapError string string | PlainError string | Panic

text \<open>The pointers \<open>Data.TrustLine\<close>, \<open>Data.LiquidityPool\<close> and \<open>Data.ClaimableBalance\<close> of an entry.\<close>

fun data_TrustLine :: "LedgerEntry \<Rightarrow> TrustLineEntry option" where
  "data_TrustLine (TrustLineData e) = Some e"
| "data_TrustLine _ = None"

fun data_LiquidityPool :: "LedgerEntry \<Rightarrow> LiquidityPoolEntry option" where
  "data_LiquidityPool (LiquidityPoolData e) = Some e"
| "data_LiquidityPool _ = None"

fun data_ClaimableBalance :: "LedgerEntry \<Rightarrow> ClaimableBalanceEntry option" where
  "data_ClaimableBalance (ClaimableBalanceData e) = Some e"
| "data_ClaimableBalance _ = None"

subsection \<open>Deltas\<close>

datatype category = Authorized | AuthorizedToMaintainLiabilities | Unauthorized | ClaimableBalances | LiquidityPools

definition categories :: "category list" where
  "categories = [Authorized, AuthorizedToMaintainLiabilities, Unauthorized, ClaimableBalances, LiquidityPools]"

type_synonym delta = "category \<Rightarrow> i64"

definition no_delta :: delta where
  "no_delta c = 0"

definition add_to :: "category \<Rightarrow> i64 \<Rightarrow> delta \<Rightarrow> delta" where
  "add_to c amount d = d(c := d c + amount)"

definition flag_category :: "asset_api \<Rightarrow> u32 \<Rightarrow> category" where
  "flag_category api flags =
     (if IsAuthorized api flags then Authorized
      else if IsAuthorizedToMaintainLiabilitiesFlag api flags then AuthorizedToMaintainLiabilities
      else Unauthorized)"

definition addByFlags :: "asset_api \<Rightarrow> u32 \<Rightarrow> i64 \<Rightarrow> delta \<Rightarrow> delta" where
  "addByFlags api flags amount d = add_to (flag_category api flags) amount d"

definition delta_isEmpty :: "delta \<Rightarrow> bool" where
  "delta_isEmpty d = list_all (\<lambda>c. d c = 0) categories"

record assetStatValue =
  balances :: "category \<Rightarrow> int"
  accounts :: "category \<Rightarrow> 32 word"

definition newAssetStatValue :: assetStatValue where
  "newAssetStatValue = \<lparr>balances = (\<lambda>c. 0), accounts = (\<lambda>c. 0)\<rparr>"

definition balances_IsZero :: "(category \<Rightarrow> int) \<Rightarrow> bool" where
  "balances_IsZero b = list_all (\<lambda>c. b c = 0) categories"

definition accounts_IsZero :: "(category \<Rightarrow> 32 word) \<Rightarrow> bool" where
  "accounts_IsZero a = list_all (\<lambda>c. a c = 0) categories"

definition balances_Add :: "(category \<Rightarrow> int) \<Rightarrow> (category \<Rightarrow> int) \<Rightarrow> category \<Rightarrow> int" where
  "balances_Add a b c = a c + b c"

definition accounts_Add :: "(category \<Rightarrow> 32 word) \<Rightarrow> (category \<Rightarrow> 32 word) \<Rightarrow> category \<Rightarrow> 32 word" where
  "accounts_Add a b c = a c + b c"

type_synonym AssetStatSet = "assetStatKey \<Rightarrow> assetStatValue option"

definition NewAssetStatSet :: AssetStatSet where
  "NewAssetStatSet = Map.empty"

definition addDelta :: "asset_api \<Rightarrow> Asset \<Rightarrow> delta \<Rightarrow> delta \<Rightarrow> AssetStatSet \<Rightarrow> stats_error + AssetStatSet" where
  "addDelta api asset deltaBalances deltaAccounts s =
     (if delta_isEmpty deltaBalances \<and> delta_isEmpty deltaAccounts then Inr s
      else case Extract api asset of
          Inl e \<Rightarrow> Inl (WrapError ''could not extract asset info from trustline'' e)
        | Inr key \<Rightarrow>
            let current = (case s key of None \<Rightarrow> newAssetStatValue | Some v \<Rightarrow> v);
                current' = \<lparr>balances = balances_Add (balances current) (\<lambda>c. sint (deltaBalances c)),
                            accounts = accounts_Add (accounts current) (\<lambda>c. ucast (deltaAccounts c))\<rparr> in
            if balances_IsZero (balances current') \<and> accounts_IsZero (accounts current')
            then Inr (s(key := None)) else Inr (s(key \<mapsto> current')))"

definition AddTrustline :: "asset_api \<Rightarrow> change \<Rightarrow> AssetStatSet \<Rightarrow> stats_error + AssetStatSet" where
  "AddTrustline api ch s =
     (let pre = Option.bind (Pre ch) data_TrustLine; post = Option.bind (Post ch) data_TrustLine;
          step = (\<lambda>amount e d. case e of None \<Rightarrow> d | Some line \<Rightarrow> addByFlags api (tlFlags line) (amount line) d);
          deltaAccounts = step (\<lambda>line. 1) post (step (\<lambda>line. - 1) pre no_delta);
          deltaBalances = step tlBalance post (step (\<lambda>line. - tlBalance line) pre no_delta) in
      case (case post of Some line \<Rightarrow> Some (tlAsset line) | None \<Rightarrow> map_option tlAsset pre) of
        None \<Rightarrow> Inl (StateError ''both pre and post trustlines cannot be nil'')
      | Some (AssetTypePoolShare p) \<Rightarrow> Inr s
      | Some (PlainAsset asset) \<Rightarrow>
          if asset = AssetTypeNative then Inr s else addDelta api asset deltaBalances deltaAccounts s)"

definition pool_delta :: "(LiquidityPoolEntry \<Rightarrow> i64) \<Rightarrow> LiquidityPoolEntry option \<Rightarrow> LiquidityPoolEntry option \<Rightarrow> delta" where
  "pool_delta f pre post =
     (let d = (case pre of None \<Rightarrow> no_delta | Some p \<Rightarrow> add_to LiquidityPools (- f p) no_delta) in
      case post of None \<Rightarrow> d | Some p \<Rightarrow> add_to LiquidityPools (f p) d)"

text \<open>
  The body \<open>ConstantProduct\<close> of a pool; the values of another kind of pool, for which the pointer is nil,
  are not reached.
\<close>

fun pool_AssetA :: "LiquidityPoolEntry \<Rightarrow> Asset" where
  "pool_AssetA (ConstantProduct a b ra rb) = a"
| "pool_AssetA (OtherPool n) = AssetTypeNative"

fun pool_AssetB :: "LiquidityPoolEntry \<Rightarrow> Asset" where
  "pool_AssetB (ConstantProduct a b ra rb) = b"
| "pool_AssetB (OtherPool n) = AssetTypeNative"

fun pool_ReserveA :: "LiquidityPoolEntry \<Rightarrow> i64" where
  "pool_ReserveA (ConstantProduct a b ra rb) = ra"
| "pool_ReserveA (OtherPool n) = 0"

fun pool_ReserveB :: "LiquidityPoolEntry \<Rightarrow> i64" where
  "pool_ReserveB (ConstantProduct a b ra rb) = rb"
| "pool_ReserveB (OtherPool n) = 0"

definition AddLiquidityPool :: "asset_api \<Rightarrow> change \<Rightarrow> AssetStatSet \<Rightarrow> stats_error + AssetStatSet" where
  "AddLiquidityPool api ch s =
     (let pre = Option.bind (Pre ch) data_LiquidityPool; post = Option.bind (Post ch) data_LiquidityPool in
      case (case post of Some p \<Rightarrow> Some p | None \<Rightarrow> pre) of
        None \<Rightarrow> Inl (StateError ''both pre and post liquidity pools cannot be nil'')
      | Some pool \<Rightarrow> (case GetLiquidityPoolType api pre post of
            Inl e \<Rightarrow> Inl (StateError e)
          | Inr (OtherPoolType t) \<Rightarrow> Inl (WrapError ''Unknown liquidity pool type'' (Int_String t))
          | Inr LiquidityPoolConstantProduct \<Rightarrow>
              let num = pool_delta (\<lambda>p. 1) pre post;
                  add = (\<lambda>asset reserve s. if asset \<noteq> AssetTypeNative
                           then addDelta api asset (pool_delta reserve pre post) num s else Inr s) in
              (case add (pool_AssetA pool) pool_ReserveA s of
                 Inl e \<Rightarrow> Inl e
               | Inr s1 \<Rightarrow> add (pool_AssetB pool) pool_ReserveB s1)))"

definition AddClaimableBalance :: "asset_api \<Rightarrow> change \<Rightarrow> AssetStatSet \<Rightarrow> stats_error + AssetStatSet" where
  "AddClaimableBalance api ch s =
     (let pre = Option.bind (Pre ch) data_ClaimableBalance; post = Option.bind (Post ch) data_ClaimableBalance;
          acc = (\<lambda>sign e d. case e of None \<Rightarrow> d | Some cb \<Rightarrow> add_to ClaimableBalances (sign cb) d);
          deltaAccounts = acc (\<lambda>cb. 1) post (acc (\<lambda>cb. - 1) pre no_delta);
          deltaBalances = acc cbAmount post (acc (\<lambda>cb. - cbAmount cb) pre no_delta) in
      case (case post of Some cb \<Rightarrow> Some (cbAsset cb) | None \<Rightarrow> map_option cbAsset pre) of
        None \<Rightarrow> Inl (StateError ''both pre and post claimable balances cannot be nil'')
      | Some asset \<Rightarrow>
          if asset = AssetTypeNative then Inr s else addDelta api asset deltaBalances deltaAccounts s)"

text \<open>What \<open>ProcessChange\<close> does to this set; the entries of contracts do not touch it.\<close>

definition classic_change :: "asset_api \<Rightarrow> change \<Rightarrow> AssetStatSet \<Rightarrow> stats_error + AssetStatSet" where
  "classic_change api ch s = (case Type ch of
       LedgerEntryTypeLiquidityPool \<Rightarrow> AddLiquidityPool api ch s
     | LedgerEntryTypeClaimableBalance \<Rightarrow> AddClaimableBalance api ch s
     | LedgerEntryTypeTrustline \<Rightarrow> AddTrustline api ch s
     | _ \<Rightarrow> Inr s)"

subsection \<open>The table\<close>

record ExpAssetStat =
  statKey :: assetStatKey
  Accounts :: "category \<Rightarrow> 32 word"
  Balances :: "category \<Rightarrow> string"

definition balances_String :: "(category \<Rightarrow> int) \<Rightarrow> category \<Rightarrow> string" where
  "balances_String b c = Int_String (b c)"

definition ConvertToHistoryObject :: "assetStatKey \<Rightarrow> assetStatValue \<Rightarrow> ExpAssetStat" where
  "ConvertToHistoryObject key v =
     \<lparr>statKey = key, Accounts = accounts v, Balances = balances_String (balances v)\<rparr>"

text \<open>\<open>AssetStatSet.All\<close>, for an order in which the map is visited.\<close>

definition AssetStatSet_All :: "assetStatKey list \<Rightarrow> AssetStatSet \<Rightarrow> ExpAssetStat list" where
  "AssetStatSet_All order s = List.map_filter (\<lambda>key. map_option (ConvertToHistoryObject key) (s key)) order"

definition balances_Parse :: "(category \<Rightarrow> string) \<Rightarrow> stats_error + (category \<Rightarrow> int)" where
  "balances_Parse b = (case List.find (\<lambda>c. Int_SetString (b c) = None)
       [Authorized, AuthorizedToMaintainLiabilities, ClaimableBalances, LiquidityPools, Unauthorized] of
       Some c \<Rightarrow> Inl (WrapError ''Error parsing: '' (b c))
     | None \<Rightarrow> Inr (\<lambda>c. the (Int_SetString (b c))))"

type_synonym stats_table = "assetStatKey \<Rightarrow> ExpAssetStat option"

text \<open>The calls on the table, with the error each of them may return instead of its result.\<close>

datatype stats_call = GetAssetStat | InsertAssetStat | RemoveAssetStat | UpdateAssetStat

type_synonym stats_faults = "stats_call \<Rightarrow> assetStatKey \<Rightarrow> string option"

text \<open>
  The statements that change a row, with the number of rows they affect: an insert always one, an update
  and a removal the row of the key when it is there. \<open>exactly_one\<close> is the check after them.
\<close>

definition insert_row :: "ExpAssetStat \<Rightarrow> stats_table \<Rightarrow> nat \<times> stats_table" where
  "insert_row d t = (1, t(statKey d \<mapsto> d))"

definition update_row :: "ExpAssetStat \<Rightarrow> stats_table \<Rightarrow> nat \<times> stats_table" where
  "update_row d t = (if t (statKey d) = None then (0, t) else (1, t(statKey d \<mapsto> d)))"

definition remove_row :: "assetStatKey \<Rightarrow> stats_table \<Rightarrow> nat \<times> stats_table" where
  "remove_row key t = (if t key = None then (0, t) else (1, t(key := None)))"

definition exactly_one :: "nat \<times> 't \<Rightarrow> stats_error + 't" where
  "exactly_one r = (if fst r \<noteq> 1 then Inl (StateError ''rows affected (expected exactly 1) when adjusting asset stat'')
     else Inr (snd r))"

text \<open>The first count that is negative although there is no row, in the order of the checks.\<close>

definition negative_count :: "(category \<Rightarrow> 32 word) \<Rightarrow> category option" where
  "negative_count a = List.find (\<lambda>c. sint (a c) < 0) categories"

definition updateAssetStat :: "stats_faults \<Rightarrow> ExpAssetStat \<Rightarrow> stats_table \<Rightarrow> stats_error + stats_table" where
  "updateAssetStat flt d t =
     (let key = statKey d in
      case flt GetAssetStat key of
        Some e \<Rightarrow> Inl (WrapError ''could not fetch asset stat from db'' e)
      | None \<Rightarrow> (case t key of
            None \<Rightarrow>
              if negative_count (Accounts d) \<noteq> None
              then Inl (StateError ''accounts negative but DB entry does not exist for asset'')
              else (case flt InsertAssetStat key of
                  Some e \<Rightarrow> Inl (WrapError ''could not insert asset stat'' e)
                | None \<Rightarrow> exactly_one (insert_row d t))
          | Some stat \<Rightarrow> (case balances_Parse (Balances stat) of
                Inl e \<Rightarrow> Inl e
              | Inr statBalances \<Rightarrow> (case balances_Parse (Balances d) of
                    Inl e \<Rightarrow> Inl e
                  | Inr deltaBalances \<Rightarrow>
                      let bal = balances_Add statBalances deltaBalances;
                          acc = accounts_Add (Accounts stat) (Accounts d) in
                      if accounts_IsZero acc then
                        if \<not> balances_IsZero bal
                        then Inl (StateError ''Removing asset stat by final amount non-zero'')
                        else (case flt RemoveAssetStat key of
                            Some e \<Rightarrow> Inl (WrapError ''could not remove asset stat'' e)
                          | None \<Rightarrow> exactly_one (remove_row key t))
                      else (case flt UpdateAssetStat key of
                          Some e \<Rightarrow> Inl (WrapError ''could not update asset stat'' e)
                        | None \<Rightarrow> exactly_one (update_row \<lparr>statKey = key, Accounts = acc, Balances = balances_String bal\<rparr> t))))))"

fun updateAssetStats :: "stats_faults \<Rightarrow> ExpAssetStat list \<Rightarrow> stats_table \<Rightarrow> stats_error + stats_table" where
  "updateAssetStats flt [] t = Inr t"
| "updateAssetStats flt (d # ds) t = (case updateAssetStat flt d t of
       Inl e \<Rightarrow> Inl e
     | Inr t' \<Rightarrow> updateAssetStats flt ds t')"

text \<open>The batch insert used when the entries come from a history archive.\<close>

definition InsertAssetStats :: "string option \<Rightarrow> ExpAssetStat list \<Rightarrow> stats_table \<Rightarrow> string + stats_table" where
  "InsertAssetStats fault ds t =
     (if ds = [] then Inr t
      else case fault of
          Some e \<Rightarrow> Inl e
        | None \<Rightarrow>
            if distinct (map statKey ds) \<and> list_all (\<lambda>d. t (statKey d) = None) ds
            then Inr (fold (\<lambda>d t. t(statKey d \<mapsto> d)) ds t)
            else Inl ''duplicate key value violates unique constraint'')"

end
