(* ===== verification/Contract_Stats.thy ===== *)
theory Contract_Stats
  imports Asset_Stats
begin

text \<open>
  The statistics of the assets that contracts hold (\<open>internal/ingest/processors/contract_asset_stats.go\<close>),
  the whole of the asset statistics processor (\<open>asset_stats_processor.go\<close>) and the statements it runs
  (\<open>internal/db2/history/asset_stats.go\<close>). What the code reads with the \<open>sac\<close> and XDR packages and the
  hash is the record \<open>sac_api\<close>; a table is the list of its rows and keeps the unique columns of the
  schema. Go visits a map in any order: the order is an argument (\<open>map_orders\<close>). A statement returns its
  result or an error, which \<open>faults\<close> decides; after an error the transaction is rolled back, so an error
  carries no tables.
\<close>

subsection \<open>What is read of contract entries\<close>

record sac_api =
  AssetFromContractData :: "LedgerEntry \<Rightarrow> Asset option"
  ContractBalanceFromContractData :: "LedgerEntry \<Rightarrow> (string \<times> int) option"
  AssetToContractDataLedgerKey :: "string \<Rightarrow> string"
  Asset_ContractID :: "Asset \<Rightarrow> string + string"
  LedgerKey :: "LedgerEntry \<Rightarrow> string + string"
  MarshalBinary :: "string \<Rightarrow> string + string"
  Sum256 :: "string \<Rightarrow> string"

definition getKeyHash :: "sac_api \<Rightarrow> LedgerEntry \<Rightarrow> stats_error + string" where
  "getKeyHash sac e = (case LedgerKey sac e of
       Inl x \<Rightarrow> Inl (WrapError ''could not extract ledger key'' x)
     | Inr lk \<Rightarrow> (case MarshalBinary sac lk of
           Inl x \<Rightarrow> Inl (WrapError ''could not marshal key'' x)
         | Inr bin \<Rightarrow> Inr (Sum256 sac bin)))"

text \<open>\<open>Data.MustContractData().Contract.ContractId\<close> and \<open>Data.MustTtl()\<close>; both panic on another entry.\<close>

fun MustContractData :: "LedgerEntry \<Rightarrow> stats_error + ContractDataEntry" where
  "MustContractData (ContractData e) = Inr e"
| "MustContractData _ = Inl Panic"

fun MustTtl :: "LedgerEntry \<Rightarrow> stats_error + TtlEntry" where
  "MustTtl (TtlData e) = Inr e"
| "MustTtl _ = Inl Panic"

subsection \<open>Rows\<close>

record ContractStat =
  ActiveBalance :: string
  ActiveHolders :: "32 word"

record ContractAssetBalance =
  KeyHash :: string
  ContractID :: string
  Amount :: string
  ExpirationLedger :: u32

record AssetContract =
  acKeyHash :: string
  acContractID :: string
  acAsset :: assetStatKey
  acExpirationLedger :: u32

record stats_db =
  exp_asset_stats :: stats_table
  asset_contracts :: "AssetContract list"
  contract_asset_balances :: "ContractAssetBalance list"
  contract_asset_stats :: "string \<Rightarrow> ContractStat option"

datatype db_call =
    ClassicCall stats_call assetStatKey
  | InsertAssetStatsCall
  | InsertContractAssetStatsCall
  | InsertAssetContractsCall
  | InsertContractAssetBalancesCall
  | RemoveContractAssetBalancesCall
  | UpdateContractAssetBalanceAmountsCall
  | UpdateContractAssetBalanceExpirationsCall
  | UpdateAssetContractExpirationsCall
  | DeleteContractAssetBalancesExpiringAtCall
  | DeleteAssetContractsExpiringAtCall
  | GetContractAssetStatCall string
  | InsertContractAssetStatCall string
  | RemoveAssetContractStatCall string
  | UpdateContractAssetStatCall string

type_synonym faults = "db_call \<Rightarrow> string option"

subsection \<open>The statements\<close>

definition InsertAssetContracts :: "faults \<Rightarrow> AssetContract list \<Rightarrow> AssetContract list \<Rightarrow> string + AssetContract list" where
  "InsertAssetContracts flt rows t =
     (if rows = [] then Inr t
      else case flt InsertAssetContractsCall of
          Some e \<Rightarrow> Inl e
        | None \<Rightarrow>
            if distinct (map acKeyHash (t @ rows)) \<and> distinct (map acContractID (t @ rows)) \<and>
               distinct (map acAsset (t @ rows))
            then Inr (t @ rows) else Inl ''duplicate key value violates unique constraint'')"

definition InsertContractAssetBalances ::
    "faults \<Rightarrow> ContractAssetBalance list \<Rightarrow> ContractAssetBalance list \<Rightarrow> string + ContractAssetBalance list" where
  "InsertContractAssetBalances flt rows t =
     (if rows = [] then Inr t
      else case flt InsertContractAssetBalancesCall of
          Some e \<Rightarrow> Inl e
        | None \<Rightarrow>
            if distinct (map KeyHash (t @ rows))
            then Inr (t @ rows) else Inl ''duplicate key value violates unique constraint'')"

definition RemoveContractAssetBalances ::
    "faults \<Rightarrow> string list \<Rightarrow> ContractAssetBalance list \<Rightarrow> string + ContractAssetBalance list" where
  "RemoveContractAssetBalances flt keys t =
     (if keys = [] then Inr t
      else case flt RemoveContractAssetBalancesCall of
          Some e \<Rightarrow> Inl e
        | None \<Rightarrow> Inr (filter (\<lambda>r. KeyHash r \<notin> set keys) t))"

definition maxUpdateBatchSize :: nat where
  "maxUpdateBatchSize = 30000"

text \<open>The loop around the updates: statements of at most \<open>maxUpdateBatchSize\<close> values, until none is left.\<close>

function in_batches :: "('a list \<Rightarrow> 't \<Rightarrow> 't) \<Rightarrow> 'a list \<Rightarrow> 't \<Rightarrow> 't" where
  "in_batches f vs t =
     (if vs = [] then t else in_batches f (drop maxUpdateBatchSize vs) (f (take maxUpdateBatchSize vs) t))"
  by pat_completeness auto
termination by (relation "measure (\<lambda>(f, vs, t). length vs)") (auto simp: maxUpdateBatchSize_def)

declare in_batches.simps [simp del]

definition set_amounts :: "(string \<times> string) list \<Rightarrow> ContractAssetBalance list \<Rightarrow> ContractAssetBalance list" where
  "set_amounts vs t = map (\<lambda>r. case map_of vs (KeyHash r) of None \<Rightarrow> r | Some a \<Rightarrow> r\<lparr>Amount := a\<rparr>) t"

definition set_expirations :: "(string \<times> u32) list \<Rightarrow> ContractAssetBalance list \<Rightarrow> ContractAssetBalance list" where
  "set_expirations vs t =
     map (\<lambda>r. case map_of vs (KeyHash r) of None \<Rightarrow> r | Some x \<Rightarrow> r\<lparr>ExpirationLedger := x\<rparr>) t"

definition set_contract_expirations :: "(string \<times> u32) list \<Rightarrow> AssetContract list \<Rightarrow> AssetContract list" where
  "set_contract_expirations vs t =
     map (\<lambda>r. case map_of vs (acKeyHash r) of None \<Rightarrow> r | Some x \<Rightarrow> r\<lparr>acExpirationLedger := x\<rparr>) t"

definition run_batches :: "string option \<Rightarrow> ('a list \<Rightarrow> 't \<Rightarrow> 't) \<Rightarrow> 'a list \<Rightarrow> 't \<Rightarrow> string + 't" where
  "run_batches fault f vs t =
     (if vs = [] then Inr t else case fault of Some e \<Rightarrow> Inl e | None \<Rightarrow> Inr (in_batches f vs t))"

definition UpdateContractAssetBalanceAmounts ::
    "faults \<Rightarrow> string list \<Rightarrow> string list \<Rightarrow> ContractAssetBalance list \<Rightarrow> string + ContractAssetBalance list" where
  "UpdateContractAssetBalanceAmounts flt keys amounts t =
     run_batches (flt UpdateContractAssetBalanceAmountsCall) set_amounts (zip keys amounts) t"

definition UpdateContractAssetBalanceExpirations ::
    "faults \<Rightarrow> string list \<Rightarrow> u32 list \<Rightarrow> ContractAssetBalance list \<Rightarrow> string + ContractAssetBalance list" where
  "UpdateContractAssetBalanceExpirations flt keys expirationLedgers t =
     run_batches (flt UpdateContractAssetBalanceExpirationsCall) set_expirations (zip keys expirationLedgers) t"

definition UpdateAssetContractExpirations ::
    "faults \<Rightarrow> string list \<Rightarrow> u32 list \<Rightarrow> AssetContract list \<Rightarrow> string + AssetContract list" where
  "UpdateAssetContractExpirations flt keys expirationLedgers t =
     run_batches (flt UpdateAssetContractExpirationsCall) set_contract_expirations (zip keys expirationLedgers) t"

definition DeleteContractAssetBalancesExpiringAt ::
    "faults \<Rightarrow> u32 \<Rightarrow> ContractAssetBalance list \<Rightarrow> string + ContractAssetBalance list \<times> ContractAssetBalance list" where
  "DeleteContractAssetBalancesExpiringAt flt ledger t = (case flt DeleteContractAssetBalancesExpiringAtCall of
       Some e \<Rightarrow> Inl e
     | None \<Rightarrow> Inr (filter (\<lambda>r. ExpirationLedger r = ledger) t, filter (\<lambda>r. ExpirationLedger r \<noteq> ledger) t))"

definition DeleteAssetContractsExpiringAt :: "faults \<Rightarrow> u32 \<Rightarrow> AssetContract list \<Rightarrow> string + AssetContract list" where
  "DeleteAssetContractsExpiringAt flt ledger t = (case flt DeleteAssetContractsExpiringAtCall of
       Some e \<Rightarrow> Inl e
     | None \<Rightarrow> Inr (filter (\<lambda>r. acExpirationLedger r \<noteq> ledger) t))"

type_synonym contract_stats = "string \<Rightarrow> ContractStat option"

definition InsertContractAssetStats :: "faults \<Rightarrow> (string \<times> ContractStat) list \<Rightarrow> contract_stats \<Rightarrow> string + contract_stats" where
  "InsertContractAssetStats flt rows t =
     (if rows = [] then Inr t
      else case flt InsertContractAssetStatsCall of
          Some e \<Rightarrow> Inl e
        | None \<Rightarrow>
            if distinct (map fst rows) \<and> list_all (\<lambda>r. t (fst r) = None) rows
            then Inr (t ++ map_of rows) else Inl ''duplicate key value violates unique constraint'')"

text \<open>Statements on one row of \<open>contract_asset_stats\<close>, with the number of rows they affect.\<close>

definition InsertContractAssetStat :: "string \<Rightarrow> ContractStat \<Rightarrow> contract_stats \<Rightarrow> nat \<times> contract_stats" where
  "InsertContractAssetStat cid row t = (1, t(cid \<mapsto> row))"

definition UpdateContractAssetStat :: "string \<Rightarrow> ContractStat \<Rightarrow> contract_stats \<Rightarrow> nat \<times> contract_stats" where
  "UpdateContractAssetStat cid row t = (if t cid = None then (0, t) else (1, t(cid \<mapsto> row)))"

definition RemoveAssetContractStat :: "string \<Rightarrow> contract_stats \<Rightarrow> nat \<times> contract_stats" where
  "RemoveAssetContractStat cid t = (if t cid = None then (0, t) else (1, t(cid := None)))"

subsection \<open>The set of contract statistics\<close>

record assetContractStatValue =
  activeBalance :: int
  activeHolders :: "32 word"

record ContractAssetStatSet =
  createdAssetContracts :: "Asset list"
  contractAssetStats :: "string \<Rightarrow> assetContractStatValue option"
  createdBalances :: "ContractAssetBalance list"
  removedBalances :: "string list"
  updatedBalances :: "string \<Rightarrow> int option"
  removedExpirationEntries :: "string \<Rightarrow> u32 option"
  createdExpirationEntries :: "string \<Rightarrow> u32 option"
  updatedExpirationEntries :: "string \<Rightarrow> (u32 \<times> u32) option"
  currentLedger :: u32

definition NewContractAssetStatSet ::
    "(string \<Rightarrow> u32 option) \<Rightarrow> (string \<Rightarrow> u32 option) \<Rightarrow> (string \<Rightarrow> (u32 \<times> u32) option) \<Rightarrow> u32 \<Rightarrow> ContractAssetStatSet" where
  "NewContractAssetStatSet removed created updated ledger =
     \<lparr>createdAssetContracts = [], contractAssetStats = Map.empty, createdBalances = [], removedBalances = [],
      updatedBalances = Map.empty, removedExpirationEntries = removed, createdExpirationEntries = created,
      updatedExpirationEntries = updated, currentLedger = ledger\<rparr>"

definition ConvertToContractStat :: "assetContractStatValue \<Rightarrow> ContractStat" where
  "ConvertToContractStat v = \<lparr>ActiveBalance = Int_String (activeBalance v), ActiveHolders = activeHolders v\<rparr>"

definition getContractAssetStat :: "string \<Rightarrow> ContractAssetStatSet \<Rightarrow> assetContractStatValue" where
  "getContractAssetStat contractID s = (case contractAssetStats s contractID of
       None \<Rightarrow> \<lparr>activeBalance = 0, activeHolders = 0\<rparr>
     | Some stat \<Rightarrow> stat)"

definition maybeAddContractAssetStat ::
    "string \<Rightarrow> assetContractStatValue \<Rightarrow> ContractAssetStatSet \<Rightarrow> ContractAssetStatSet" where
  "maybeAddContractAssetStat contractID stat s =
     (if activeHolders stat = 0 \<and> activeBalance stat = 0
      then s\<lparr>contractAssetStats := (contractAssetStats s)(contractID := None)\<rparr>
      else s\<lparr>contractAssetStats := (contractAssetStats s)(contractID \<mapsto> stat)\<rparr>)"

text \<open>The three lines around each change of a statistic: read it, change it, write it back.\<close>

definition adjust :: "string \<Rightarrow> 32 word \<Rightarrow> int \<Rightarrow> ContractAssetStatSet \<Rightarrow> ContractAssetStatSet" where
  "adjust contractID holders amt s =
     (let stat = getContractAssetStat contractID s in
      maybeAddContractAssetStat contractID
        \<lparr>activeBalance = activeBalance stat + amt, activeHolders = activeHolders stat + holders\<rparr> s)"

definition ingestAssetContractMetadata ::
    "sac_api \<Rightarrow> change \<Rightarrow> ContractAssetStatSet \<Rightarrow> stats_error + bool \<times> ContractAssetStatSet" where
  "ingestAssetContractMetadata sac ch s = (case (Pre ch, Post ch) of
       (None, Some post) \<Rightarrow> (case AssetFromContractData sac post of
           None \<Rightarrow> Inr (False, s)
         | Some asset \<Rightarrow> (case getKeyHash sac post of
               Inl e \<Rightarrow> Inl e
             | Inr keyHash \<Rightarrow> (case createdExpirationEntries s keyHash of
                   None \<Rightarrow> Inr (False, s)
                 | Some expirationLedger \<Rightarrow>
                     if expirationLedger < currentLedger s then Inr (False, s)
                     else (case MustContractData post of
                         Inl e \<Rightarrow> Inl e
                       | Inr cd \<Rightarrow> (case cdContractId cd of
                             None \<Rightarrow> Inr (False, s)
                           | Some cid \<Rightarrow> Inr (True, s\<lparr>createdAssetContracts := createdAssetContracts s @ [asset]\<rparr>))))))
     | _ \<Rightarrow> Inr (False, s))"

definition created_balance :: "sac_api \<Rightarrow> LedgerEntry \<Rightarrow> ContractAssetStatSet \<Rightarrow> stats_error + ContractAssetStatSet" where
  "created_balance sac post s = (case MustContractData post of
       Inl e \<Rightarrow> Inl e
     | Inr cd \<Rightarrow> (case cdContractId cd of
           None \<Rightarrow> Inr s
         | Some contractID \<Rightarrow> (case ContractBalanceFromContractData sac post of
               None \<Rightarrow> Inr s
             | Some (holder, postAmt) \<Rightarrow> (case getKeyHash sac post of
                   Inl e \<Rightarrow> Inl e
                 | Inr keyHash \<Rightarrow> (case createdExpirationEntries s keyHash of
                       None \<Rightarrow> Inr s
                     | Some expirationLedger \<Rightarrow>
                         if expirationLedger < currentLedger s then Inr s
                         else Inr (adjust contractID 1 postAmt
                           (s\<lparr>createdBalances := createdBalances s @
                               [\<lparr>KeyHash = keyHash, ContractID = contractID, Amount = Int_String postAmt,
                                 ExpirationLedger = expirationLedger\<rparr>]\<rparr>)))))))"

definition removed_balance :: "sac_api \<Rightarrow> LedgerEntry \<Rightarrow> ContractAssetStatSet \<Rightarrow> stats_error + ContractAssetStatSet" where
  "removed_balance sac pre s = (case MustContractData pre of
       Inl e \<Rightarrow> Inl e
     | Inr cd \<Rightarrow> (case cdContractId cd of
           None \<Rightarrow> Inr s
         | Some contractID \<Rightarrow> (case getKeyHash sac pre of
               Inl e \<Rightarrow> Inl e
             | Inr keyHash \<Rightarrow>
                 let s1 = s\<lparr>removedBalances := removedBalances s @ [keyHash]\<rparr> in
                 (case ContractBalanceFromContractData sac pre of
                   None \<Rightarrow> Inr s1
                 | Some (holder, preAmt) \<Rightarrow> (case removedExpirationEntries s keyHash of
                       None \<Rightarrow> Inr s1
                     | Some expirationLedger \<Rightarrow>
                         if expirationLedger < currentLedger s then Inr s1
                         else Inr (adjust contractID (- 1) (- preAmt) s1))))))"

definition updated_balance ::
    "sac_api \<Rightarrow> LedgerEntry \<Rightarrow> LedgerEntry \<Rightarrow> ContractAssetStatSet \<Rightarrow> stats_error + ContractAssetStatSet" where
  "updated_balance sac pre post s = (case MustContractData pre of
       Inl e \<Rightarrow> Inl e
     | Inr cd \<Rightarrow> (case cdContractId cd of
           None \<Rightarrow> Inr s
         | Some contractID \<Rightarrow> (case ContractBalanceFromContractData sac pre of
               None \<Rightarrow> Inr s
             | Some (holder, amt) \<Rightarrow> (case ContractBalanceFromContractData sac post of
                   None \<Rightarrow> Inr s
                 | Some (postHolder, postAmt) \<Rightarrow>
                     if postHolder \<noteq> holder then Inr s
                     else if postAmt - amt = 0 then Inr s
                     else (case getKeyHash sac post of
                         Inl e \<Rightarrow> Inl e
                       | Inr keyHash \<Rightarrow>
                           Inr (adjust contractID 0 (postAmt - amt)
                             (s\<lparr>updatedBalances := (updatedBalances s)(keyHash \<mapsto> postAmt)\<rparr>)))))))"

definition ingestContractAssetBalance :: "sac_api \<Rightarrow> change \<Rightarrow> ContractAssetStatSet \<Rightarrow> stats_error + ContractAssetStatSet" where
  "ingestContractAssetBalance sac ch s = (case (Pre ch, Post ch) of
       (None, Some post) \<Rightarrow> created_balance sac post s
     | (Some pre, None) \<Rightarrow> removed_balance sac pre s
     | (Some pre, Some post) \<Rightarrow> updated_balance sac pre post s
     | (None, None) \<Rightarrow> Inl (PlainError ''unexpected change''))"

definition AddContractData :: "sac_api \<Rightarrow> change \<Rightarrow> ContractAssetStatSet \<Rightarrow> stats_error + ContractAssetStatSet" where
  "AddContractData sac ch s = (case ingestAssetContractMetadata sac ch s of
       Inl e \<Rightarrow> Inl e
     | Inr (found, s') \<Rightarrow> if found then Inr s' else ingestContractAssetBalance sac ch s')"

fun AddContractDatas :: "sac_api \<Rightarrow> change list \<Rightarrow> ContractAssetStatSet \<Rightarrow> stats_error + ContractAssetStatSet" where
  "AddContractDatas sac [] s = Inr s"
| "AddContractDatas sac (ch # chs) s = (case AddContractData sac ch s of
       Inl e \<Rightarrow> Inl e
     | Inr s' \<Rightarrow> AddContractDatas sac chs s')"

definition created_contract_row :: "asset_api \<Rightarrow> sac_api \<Rightarrow> ContractAssetStatSet \<Rightarrow> Asset \<Rightarrow> stats_error + AssetContract" where
  "created_contract_row api sac s asset = (case Asset_ContractID sac asset of
       Inl e \<Rightarrow> Inl (PlainError e)
     | Inr contractID \<Rightarrow> (case Extract api asset of
           Inl e \<Rightarrow> Inl (WrapError ''could not extract asset info from asset'' e)
         | Inr key \<Rightarrow> (case MarshalBinary sac (AssetToContractDataLedgerKey sac contractID) of
               Inl e \<Rightarrow> Inl (WrapError ''could not marshal key'' e)
             | Inr bin \<Rightarrow> (case createdExpirationEntries s (Sum256 sac bin) of
                   None \<Rightarrow> Inl (PlainError ''could not find expiration ledger entry for asset contract'')
                 | Some expirationLedger \<Rightarrow>
                     Inr \<lparr>acKeyHash = Sum256 sac bin, acContractID = contractID, acAsset = key,
                          acExpirationLedger = expirationLedger\<rparr>))))"

fun created_contract_rows ::
    "asset_api \<Rightarrow> sac_api \<Rightarrow> ContractAssetStatSet \<Rightarrow> Asset list \<Rightarrow> stats_error + AssetContract list" where
  "created_contract_rows api sac s [] = Inr []"
| "created_contract_rows api sac s (asset # assets) = (case created_contract_row api sac s asset of
       Inl e \<Rightarrow> Inl e
     | Inr row \<Rightarrow> (case created_contract_rows api sac s assets of
           Inl e \<Rightarrow> Inl e
         | Inr rows \<Rightarrow> Inr (row # rows)))"

definition GetCreatedAssetContracts :: "asset_api \<Rightarrow> sac_api \<Rightarrow> ContractAssetStatSet \<Rightarrow> stats_error + AssetContract list" where
  "GetCreatedAssetContracts api sac s = created_contract_rows api sac s (createdAssetContracts s)"

definition GetContractStats :: "string list \<Rightarrow> ContractAssetStatSet \<Rightarrow> (string \<times> ContractStat) list" where
  "GetContractStats order s =
     List.map_filter (\<lambda>cid. map_option (\<lambda>v. (cid, ConvertToContractStat v)) (contractAssetStats s cid)) order"

fun expire_rows :: "ContractAssetBalance list \<Rightarrow> ContractAssetStatSet \<Rightarrow> stats_error + ContractAssetStatSet" where
  "expire_rows [] s = Inr s"
| "expire_rows (row # rows) s =
     (if updatedExpirationEntries s (KeyHash row) \<noteq> None then expire_rows rows s
      else case Int_SetString (Amount row) of
          None \<Rightarrow> Inl (PlainError ''contract balance has invalid amount'')
        | Some amt \<Rightarrow> expire_rows rows (adjust (ContractID row) (- 1) (- amt) s))"

definition ingestExpiredBalances ::
    "faults \<Rightarrow> ContractAssetBalance list \<Rightarrow> ContractAssetStatSet \<Rightarrow> stats_error + ContractAssetBalance list \<times> ContractAssetStatSet" where
  "ingestExpiredBalances flt t s = (case DeleteContractAssetBalancesExpiringAt flt (currentLedger s - 1) t of
       Inl e \<Rightarrow> Inl (WrapError ''Error fetching contract asset balances'' e)
     | Inr (rows, t') \<Rightarrow> (case expire_rows rows s of
           Inl e \<Rightarrow> Inl e
         | Inr s' \<Rightarrow> Inr (t', s')))"

subsection \<open>The processor\<close>

record AssetStatsProcessor =
  p_currentLedger :: u32
  assetStatSet :: AssetStatSet
  contractDataChanges :: "change list"
  p_removed :: "string \<Rightarrow> u32 option"
  p_created :: "string \<Rightarrow> u32 option"
  p_updated :: "string \<Rightarrow> (u32 \<times> u32) option"
  ingestFromHistoryArchive :: bool

definition NewAssetStatsProcessor :: "bool \<Rightarrow> u32 \<Rightarrow> AssetStatsProcessor" where
  "NewAssetStatsProcessor fromArchive ledger =
     \<lparr>p_currentLedger = ledger, assetStatSet = NewAssetStatSet, contractDataChanges = [],
      p_removed = Map.empty, p_created = Map.empty, p_updated = Map.empty, ingestFromHistoryArchive = fromArchive\<rparr>"

definition checkTTLChangeIsCompacted :: "change \<Rightarrow> AssetStatsProcessor \<Rightarrow> stats_error + unit" where
  "checkTTLChangeIsCompacted ch p =
     (case (case Pre ch of Some e \<Rightarrow> MustTtl e
            | None \<Rightarrow> (case Post ch of Some e \<Rightarrow> MustTtl e | None \<Rightarrow> Inl Panic)) of
        Inl e \<Rightarrow> Inl e
      | Inr ttl \<Rightarrow>
          if p_removed p (ttlKeyHash ttl) \<noteq> None \<or> p_created p (ttlKeyHash ttl) \<noteq> None \<or>
             p_updated p (ttlKeyHash ttl) \<noteq> None
          then Inl (PlainError ''ttl change is not compacted'') else Inr ())"

definition addExpirationChange :: "change \<Rightarrow> AssetStatsProcessor \<Rightarrow> stats_error + AssetStatsProcessor" where
  "addExpirationChange ch p = (case checkTTLChangeIsCompacted ch p of
       Inl e \<Rightarrow> Inl e
     | Inr _ \<Rightarrow> (case (Pre ch, Post ch) of
           (None, Some e) \<Rightarrow> (case MustTtl e of
               Inl x \<Rightarrow> Inl x
             | Inr post \<Rightarrow> Inr (p\<lparr>p_created := (p_created p)(ttlKeyHash post \<mapsto> LiveUntilLedgerSeq post)\<rparr>))
         | (Some e, None) \<Rightarrow> (case MustTtl e of
               Inl x \<Rightarrow> Inl x
             | Inr pre \<Rightarrow> Inr (p\<lparr>p_removed := (p_removed p)(ttlKeyHash pre \<mapsto> LiveUntilLedgerSeq pre)\<rparr>))
         | (Some e, Some e') \<Rightarrow> (case (MustTtl e, MustTtl e') of
               (Inr pre, Inr post) \<Rightarrow>
                 if LiveUntilLedgerSeq pre = LiveUntilLedgerSeq post then Inr p
                 else if LiveUntilLedgerSeq post < p_currentLedger p
                 then Inl (PlainError ''post TTL is less than current ledger'')
                 else if LiveUntilLedgerSeq pre < p_currentLedger p then Inr p
                 else Inr (p\<lparr>p_updated := (p_updated p)(ttlKeyHash pre \<mapsto>
                             (LiveUntilLedgerSeq pre, LiveUntilLedgerSeq post))\<rparr>)
             | _ \<Rightarrow> Inl Panic)
         | (None, None) \<Rightarrow> Inl (PlainError ''unexpected change'')))"

text \<open>The calls on the set of classic statistics, and what is kept of contract data.\<close>

definition with_set :: "AssetStatsProcessor \<Rightarrow> stats_error + AssetStatSet \<Rightarrow> stats_error + AssetStatsProcessor" where
  "with_set p r = (case r of Inl e \<Rightarrow> Inl e | Inr s \<Rightarrow> Inr (p\<lparr>assetStatSet := s\<rparr>))"

definition keepContractData :: "sac_api \<Rightarrow> change \<Rightarrow> AssetStatsProcessor \<Rightarrow> stats_error + AssetStatsProcessor" where
  "keepContractData sac ch p = (case (case Post ch of Some e \<Rightarrow> Some e | None \<Rightarrow> Pre ch) of
       None \<Rightarrow> Inl Panic
     | Some ledgerEntry \<Rightarrow>
         if AssetFromContractData sac ledgerEntry = None \<and> ContractBalanceFromContractData sac ledgerEntry = None
         then Inr p else Inr (p\<lparr>contractDataChanges := contractDataChanges p @ [ch]\<rparr>))"

definition ProcessChange ::
    "asset_api \<Rightarrow> sac_api \<Rightarrow> change \<Rightarrow> AssetStatsProcessor \<Rightarrow> stats_error + AssetStatsProcessor" where
  "ProcessChange api sac ch p = (case Type ch of
       LedgerEntryTypeLiquidityPool \<Rightarrow> with_set p (AddLiquidityPool api ch (assetStatSet p))
     | LedgerEntryTypeClaimableBalance \<Rightarrow> with_set p (AddClaimableBalance api ch (assetStatSet p))
     | LedgerEntryTypeTrustline \<Rightarrow> with_set p (AddTrustline api ch (assetStatSet p))
     | LedgerEntryTypeContractData \<Rightarrow> keepContractData sac ch p
     | LedgerEntryTypeTtl \<Rightarrow> addExpirationChange ch p
     | OtherEntryType \<Rightarrow> Inr p)"

fun ProcessChanges ::
    "asset_api \<Rightarrow> sac_api \<Rightarrow> change list \<Rightarrow> AssetStatsProcessor \<Rightarrow> stats_error + AssetStatsProcessor" where
  "ProcessChanges api sac [] p = Inr p"
| "ProcessChanges api sac (ch # chs) p = (case ProcessChange api sac ch p of
       Inl e \<Rightarrow> Inl e
     | Inr p' \<Rightarrow> ProcessChanges api sac chs p')"

subsection \<open>Writing to the tables\<close>

text \<open>The orders in which the maps are visited.\<close>

record map_orders =
  asset_order :: "assetStatKey list"
  amount_order :: "string list"
  expiration_order :: "string list"
  contract_order :: "string list"

definition wrap :: "string \<Rightarrow> string + 'a \<Rightarrow> stats_error + 'a" where
  "wrap m r = (case r of Inl e \<Rightarrow> Inl (WrapError m e) | Inr x \<Rightarrow> Inr x)"

definition updateContractAssetBalanceAmounts ::
    "faults \<Rightarrow> string list \<Rightarrow> (string \<Rightarrow> int option) \<Rightarrow> ContractAssetBalance list \<Rightarrow> stats_error + ContractAssetBalance list" where
  "updateContractAssetBalanceAmounts flt order updated t =
     (let keys = filter (\<lambda>k. updated k \<noteq> None) order; amounts = map (\<lambda>k. Int_String (the (updated k))) keys in
      wrap ''Error updating contract asset balance amounts'' (UpdateContractAssetBalanceAmounts flt keys amounts t))"

definition updateContractDataExpirations :: "faults \<Rightarrow> string list \<Rightarrow> (string \<Rightarrow> (u32 \<times> u32) option) \<Rightarrow>
    ContractAssetBalance list \<Rightarrow> AssetContract list \<Rightarrow> stats_error + ContractAssetBalance list \<times> AssetContract list" where
  "updateContractDataExpirations flt order updated t contracts =
     (let keys = filter (\<lambda>k. updated k \<noteq> None) order; expirationLedgers = map (\<lambda>k. snd (the (updated k))) keys in
      case wrap ''Error updating contract asset balance expirations''
          (UpdateContractAssetBalanceExpirations flt keys expirationLedgers t) of
        Inl e \<Rightarrow> Inl e
      | Inr t' \<Rightarrow> (case wrap ''Error updating asset contract expirations''
            (UpdateAssetContractExpirations flt keys expirationLedgers contracts) of
          Inl e \<Rightarrow> Inl e
        | Inr contracts' \<Rightarrow> Inr (t', contracts')))"

definition addContractAssetStat :: "assetContractStatValue \<Rightarrow> ContractStat \<Rightarrow> stats_error + ContractStat" where
  "addContractAssetStat d row = (case Int_SetString (ActiveBalance row) of
       None \<Rightarrow> Inl (PlainError ''Error parsing'')
     | Some b \<Rightarrow> Inr \<lparr>ActiveBalance = Int_String (b + activeBalance d),
                      ActiveHolders = ActiveHolders row + activeHolders d\<rparr>)"

definition updateAssetContractStats :: "faults \<Rightarrow> string \<Rightarrow> assetContractStatValue \<Rightarrow>
    contract_stats \<Rightarrow> stats_error + contract_stats" where
  "updateAssetContractStats flt cid d t = (case flt (GetContractAssetStatCall cid) of
       Some e \<Rightarrow> Inl (WrapError ''error querying asset by contract id'' e)
     | None \<Rightarrow> (case t cid of
           None \<Rightarrow> (case flt (InsertContractAssetStatCall cid) of
               Some e \<Rightarrow> Inl (WrapError ''error inserting asset contract stat'' e)
             | None \<Rightarrow> exactly_one (InsertContractAssetStat cid (ConvertToContractStat d) t))
         | Some stat \<Rightarrow> (case addContractAssetStat d stat of
               Inl e \<Rightarrow> Inl e
             | Inr stat' \<Rightarrow>
                 if stat' = \<lparr>ActiveBalance = ''0'', ActiveHolders = 0\<rparr>
                 then (case flt (RemoveAssetContractStatCall cid) of
                     Some e \<Rightarrow> Inl (WrapError ''could not update asset stat'' e)
                   | None \<Rightarrow> exactly_one (RemoveAssetContractStat cid t))
                 else (case flt (UpdateContractAssetStatCall cid) of
                     Some e \<Rightarrow> Inl (WrapError ''could not update asset stat'' e)
                   | None \<Rightarrow> exactly_one (UpdateContractAssetStat cid stat' t)))))"

fun updateContractAssetStats :: "faults \<Rightarrow> string list \<Rightarrow> (string \<Rightarrow> assetContractStatValue option) \<Rightarrow>
    contract_stats \<Rightarrow> stats_error + contract_stats" where
  "updateContractAssetStats flt [] stats t = Inr t"
| "updateContractAssetStats flt (cid # cids) stats t = (case stats cid of
       None \<Rightarrow> updateContractAssetStats flt cids stats t
     | Some d \<Rightarrow> (case updateAssetContractStats flt cid d t of
           Inl e \<Rightarrow> Inl e
         | Inr t' \<Rightarrow> updateContractAssetStats flt cids stats t'))"

text \<open>\<open>updateDB\<close> when the entries come from a history archive: only inserts.\<close>

definition insert_archive :: "faults \<Rightarrow> asset_api \<Rightarrow> sac_api \<Rightarrow> map_orders \<Rightarrow> AssetStatsProcessor \<Rightarrow>
    ContractAssetStatSet \<Rightarrow> stats_db \<Rightarrow> stats_error + stats_db" where
  "insert_archive flt api sac ord p s db =
     (case wrap ''Error inserting asset stats'' (InsertAssetStats (flt InsertAssetStatsCall)
          (AssetStatSet_All (asset_order ord) (assetStatSet p)) (exp_asset_stats db)) of
        Inl e \<Rightarrow> Inl e
      | Inr t \<Rightarrow> (case wrap ''Error inserting asset contract stats''
            (InsertContractAssetStats flt (GetContractStats (contract_order ord) s) (contract_asset_stats db)) of
          Inl e \<Rightarrow> Inl e
      | Inr stats \<Rightarrow> (case wrap ''Error inserting asset contract stats''
            (InsertContractAssetBalances flt (createdBalances s) (contract_asset_balances db)) of
          Inl e \<Rightarrow> Inl e
      | Inr bals \<Rightarrow> (case GetCreatedAssetContracts api sac s of
          Inl e \<Rightarrow> Inl e
      | Inr rows \<Rightarrow> (case wrap ''Error inserting asset contracts'' (InsertAssetContracts flt rows (asset_contracts db)) of
          Inl e \<Rightarrow> Inl e
      | Inr contracts \<Rightarrow>
          Inr \<lparr>exp_asset_stats = t, asset_contracts = contracts, contract_asset_balances = bals,
               contract_asset_stats = stats\<rparr>)))))"

definition updateDB :: "faults \<Rightarrow> asset_api \<Rightarrow> sac_api \<Rightarrow> map_orders \<Rightarrow> AssetStatsProcessor \<Rightarrow>
    ContractAssetStatSet \<Rightarrow> stats_db \<Rightarrow> stats_error + stats_db" where
  "updateDB flt api sac ord p s db =
     (if ingestFromHistoryArchive p then insert_archive flt api sac ord p s db
      else case updateAssetStats (\<lambda>call key. flt (ClassicCall call key))
          (AssetStatSet_All (asset_order ord) (assetStatSet p)) (exp_asset_stats db) of
        Inl e \<Rightarrow> Inl e
      | Inr t \<Rightarrow> (case GetCreatedAssetContracts api sac s of
          Inl e \<Rightarrow> Inl e
      | Inr rows \<Rightarrow> (case wrap ''Error inserting asset contracts'' (InsertAssetContracts flt rows (asset_contracts db)) of
          Inl e \<Rightarrow> Inl e
      | Inr contracts1 \<Rightarrow> (case wrap ''Error removing contract asset balances''
            (RemoveContractAssetBalances flt (removedBalances s) (contract_asset_balances db)) of
          Inl e \<Rightarrow> Inl e
      | Inr bal1 \<Rightarrow> (case updateContractAssetBalanceAmounts flt (amount_order ord) (updatedBalances s) bal1 of
          Inl e \<Rightarrow> Inl e
      | Inr bal2 \<Rightarrow> (case wrap ''Error inserting contract asset balances''
            (InsertContractAssetBalances flt (createdBalances s) bal2) of
          Inl e \<Rightarrow> Inl e
      | Inr bal3 \<Rightarrow> (case updateContractDataExpirations flt (expiration_order ord) (p_updated p) bal3 contracts1 of
          Inl e \<Rightarrow> Inl e
      | Inr (bal4, contracts2) \<Rightarrow> (case ingestExpiredBalances flt bal4 s of
          Inl e \<Rightarrow> Inl e
      | Inr (bal5, s') \<Rightarrow> (case wrap ''Error fetching contract asset balances''
            (DeleteAssetContractsExpiringAt flt (p_currentLedger p - 1) contracts2) of
          Inl e \<Rightarrow> Inl e
      | Inr contracts3 \<Rightarrow> (case updateContractAssetStats flt (contract_order ord) (contractAssetStats s')
            (contract_asset_stats db) of
          Inl e \<Rightarrow> Inl e
      | Inr stats \<Rightarrow>
          Inr \<lparr>exp_asset_stats = t, asset_contracts = contracts3, contract_asset_balances = bal5,
               contract_asset_stats = stats\<rparr>))))))))))"

definition AssetStatsProcessor_Commit :: "faults \<Rightarrow> asset_api \<Rightarrow> sac_api \<Rightarrow> map_orders \<Rightarrow> AssetStatsProcessor \<Rightarrow> stats_db \<Rightarrow> stats_error + stats_db" where
  "AssetStatsProcessor_Commit flt api sac ord p db =
     (case AddContractDatas sac (contractDataChanges p)
          (NewContractAssetStatSet (p_removed p) (p_created p) (p_updated p) (p_currentLedger p)) of
        Inl e \<Rightarrow> Inl e
      | Inr s \<Rightarrow> updateDB flt api sac ord p s db)"

end
