(* ===== verification/Asset_Stats_Props.thy ===== *)
theory Asset_Stats_Props
  imports Contract_Stats
begin

text \<open>
  The table of asset statistics is an aggregate of the ledger: what the processor computes from the
  changes of a ledger is the difference of two aggregates, and applying it to the table of the first gives
  the table of the second. The specification is over a multiset of ledger entries.
\<close>

subsection \<open>The aggregates of a ledger\<close>

text \<open>What an entry holds: the assets it counts for, in which category, with which amount.\<close>

fun holds :: "asset_api \<Rightarrow> LedgerEntry \<Rightarrow> (Asset \<times> category \<times> i64) list" where
  "holds api (TrustLineData e) = (case tlAsset e of
       AssetTypePoolShare p \<Rightarrow> []
     | PlainAsset a \<Rightarrow> if a = AssetTypeNative then [] else [(a, flag_category api (tlFlags e), tlBalance e)])"
| "holds api (LiquidityPoolData p) =
     filter (\<lambda>(a, c, x). a \<noteq> AssetTypeNative)
       [(pool_AssetA p, LiquidityPools, pool_ReserveA p), (pool_AssetB p, LiquidityPools, pool_ReserveB p)]"
| "holds api (ClaimableBalanceData e) =
     (if cbAsset e = AssetTypeNative then [] else [(cbAsset e, ClaimableBalances, cbAmount e)])"
| "holds api (ContractData e) = []"
| "holds api (TtlData e) = []"
| "holds api (OtherData n) = []"

definition entry_sum :: "asset_api \<Rightarrow> (i64 \<Rightarrow> int) \<Rightarrow> assetStatKey \<Rightarrow> category \<Rightarrow> LedgerEntry \<Rightarrow> int" where
  "entry_sum api f k c e = (\<Sum>(a, c', x)\<leftarrow>holds api e. if Extract api a = Inr k \<and> c' = c then f x else 0)"

definition holders :: "asset_api \<Rightarrow> LedgerEntry multiset \<Rightarrow> assetStatKey \<Rightarrow> category \<Rightarrow> int" where
  "holders api L k c = (\<Sum>e\<in>#L. entry_sum api (\<lambda>x. 1) k c e)"

definition amount :: "asset_api \<Rightarrow> LedgerEntry multiset \<Rightarrow> assetStatKey \<Rightarrow> category \<Rightarrow> int" where
  "amount api L k c = (\<Sum>e\<in>#L. entry_sum api sint k c e)"

subsection \<open>Changes of a ledger\<close>

fun entry_type :: "LedgerEntry \<Rightarrow> LedgerEntryType" where
  "entry_type (TrustLineData e) = LedgerEntryTypeTrustline"
| "entry_type (LiquidityPoolData p) = LedgerEntryTypeLiquidityPool"
| "entry_type (ClaimableBalanceData e) = LedgerEntryTypeClaimableBalance"
| "entry_type (ContractData e) = LedgerEntryTypeContractData"
| "entry_type (TtlData e) = LedgerEntryTypeTtl"
| "entry_type (OtherData n) = OtherEntryType"

fun same_asset :: "LedgerEntry \<Rightarrow> LedgerEntry \<Rightarrow> bool" where
  "same_asset (TrustLineData e) (TrustLineData e') = (tlAsset e = tlAsset e')"
| "same_asset (LiquidityPoolData p) (LiquidityPoolData p') =
     (pool_AssetA p = pool_AssetA p' \<and> pool_AssetB p = pool_AssetB p')"
| "same_asset (ClaimableBalanceData e) (ClaimableBalanceData e') = (cbAsset e = cbAsset e')"
| "same_asset e e' = True"

fun pool_known :: "LedgerEntry \<Rightarrow> bool" where
  "pool_known (LiquidityPoolData (OtherPool n)) = False"
| "pool_known e = True"

definition entry_ok :: "asset_api \<Rightarrow> LedgerEntry \<Rightarrow> bool" where
  "entry_ok api e \<longleftrightarrow> pool_known e \<and> list_all (\<lambda>(a, c, x). 0 \<le> sint x) (holds api e)"

text \<open>
  A change a ledger can have: it creates, updates or removes an entry of its type, whose amounts are not
  negative; an update keeps the asset.
\<close>

definition change_ok :: "asset_api \<Rightarrow> change \<Rightarrow> bool" where
  "change_ok api ch \<longleftrightarrow> (Pre ch \<noteq> None \<or> Post ch \<noteq> None) \<and>
     pred_option (\<lambda>e. entry_type e = Type ch \<and> entry_ok api e) (Pre ch) \<and>
     pred_option (\<lambda>e. entry_type e = Type ch \<and> entry_ok api e) (Post ch) \<and>
     (case (Pre ch, Post ch) of (Some e, Some e') \<Rightarrow> same_asset e e' | _ \<Rightarrow> True)"

fun ledger_after :: "asset_api \<Rightarrow> change list \<Rightarrow> LedgerEntry multiset \<Rightarrow> LedgerEntry multiset option" where
  "ledger_after api [] L = Some L"
| "ledger_after api (ch # chs) L =
     (if change_ok api ch \<and> pred_option (\<lambda>e. e \<in># L) (Pre ch)
      then ledger_after api chs (L - mset (case Pre ch of None \<Rightarrow> [] | Some e \<Rightarrow> [e]) +
             mset (case Post ch of None \<Rightarrow> [] | Some e \<Rightarrow> [e]))
      else None)"

text \<open>What the processor relies on of the XDR package.\<close>

definition api_ok :: "asset_api \<Rightarrow> bool" where
  "api_ok api \<longleftrightarrow> (\<forall>a. a \<noteq> AssetTypeNative \<longrightarrow> (\<exists>k. Extract api a = Inr k)) \<and>
     (\<forall>pre post. (pre \<noteq> None \<or> post \<noteq> None) \<longrightarrow>
        pred_option (\<lambda>p. \<exists>a b ra rb. p = ConstantProduct a b ra rb) pre \<longrightarrow>
        pred_option (\<lambda>p. \<exists>a b ra rb. p = ConstantProduct a b ra rb) post \<longrightarrow>
        GetLiquidityPoolType api pre post = Inr LiquidityPoolConstantProduct)"

subsection \<open>The set of deltas\<close>

definition cnt :: "AssetStatSet \<Rightarrow> assetStatKey \<Rightarrow> category \<Rightarrow> 32 word" where
  "cnt s k c = (case s k of None \<Rightarrow> 0 | Some v \<Rightarrow> accounts v c)"

definition bal :: "AssetStatSet \<Rightarrow> assetStatKey \<Rightarrow> category \<Rightarrow> int" where
  "bal s k c = (case s k of None \<Rightarrow> 0 | Some v \<Rightarrow> balances v c)"

definition no_zero_rows :: "AssetStatSet \<Rightarrow> bool" where
  "no_zero_rows s \<longleftrightarrow> (\<forall>k v. s k = Some v \<longrightarrow> (\<exists>c. accounts v c \<noteq> 0 \<or> balances v c \<noteq> 0))"

lemma all_categories: "list_all P categories \<longleftrightarrow> (\<forall>c. P c)"
proof
  assume "list_all P categories"
  then show "\<forall>c. P c" by (auto simp: categories_def intro: category.exhaust) (metis category.exhaust)
qed (simp add: categories_def)

lemma addDelta_effect:
  assumes "Extract api a = Inr key" "no_zero_rows s"
  shows "\<exists>s'. addDelta api a db da s = Inr s' \<and> no_zero_rows s' \<and>
    (\<forall>k c. cnt s' k c = cnt s k c + (if k = key then ucast (da c) else 0)) \<and>
    (\<forall>k c. bal s' k c = bal s k c + (if k = key then sint (db c) else 0))"
proof (cases "delta_isEmpty db \<and> delta_isEmpty da")
  case True
  then have "db c = 0" "da c = 0" for c by (simp_all add: delta_isEmpty_def all_categories)
  with True assms(2) show ?thesis by (auto simp: addDelta_def)
next
  case False
  define b where "b = (\<lambda>c. bal s key c + sint (db c))"
  define n where "n = (\<lambda>c. cnt s key c + ucast (da c))"
  have v: "balances_Add (balances (case s key of None \<Rightarrow> newAssetStatValue | Some v \<Rightarrow> v)) (\<lambda>c. sint (db c)) = b"
      "accounts_Add (accounts (case s key of None \<Rightarrow> newAssetStatValue | Some v \<Rightarrow> v)) (\<lambda>c. ucast (da c)) = n"
    by (auto simp: b_def n_def bal_def cnt_def fun_eq_iff balances_Add_def accounts_Add_def newAssetStatValue_def
        split: option.split)
  define z where "z \<longleftrightarrow> (\<forall>c. b c = 0) \<and> (\<forall>c. n c = 0)"
  let ?s = "if z then s(key := None) else s(key \<mapsto> \<lparr>balances = b, accounts = n\<rparr>)"
  have "addDelta api a db da s = Inr ?s"
    using False assms(1)
    by (auto simp: addDelta_def v Let_def z_def balances_IsZero_def accounts_IsZero_def all_categories)
  moreover have "no_zero_rows ?s" using assms(2) by (auto simp: no_zero_rows_def z_def)
  moreover have "cnt ?s k c = cnt s k c + (if k = key then ucast (da c) else 0)"
      "bal ?s k c = bal s k c + (if k = key then sint (db c) else 0)" for k c
    by (auto simp: cnt_def bal_def z_def n_def b_def)
  ultimately show ?thesis by blast
qed

lemma sint_sub_nonneg:
  fixes x y :: i64 assumes "0 \<le> sint x" "0 \<le> sint y"
  shows "sint (y - x) = sint y - sint x"
proof -
  have "sint x < 2 ^ 63" "sint y < 2 ^ 63" using sint_lt [of x] sint_lt [of y] by simp_all
  then have "signed_take_bit 63 (sint y - sint x) = sint y - sint x"
    using assms by (intro signed_take_bit_int_eq_self) simp_all
  then show ?thesis by (simp add: sint_word_ariths)
qed

subsection \<open>A change adds the difference of its entries\<close>

definition adds :: "AssetStatSet \<Rightarrow> (assetStatKey \<Rightarrow> category \<Rightarrow> int) \<Rightarrow> (assetStatKey \<Rightarrow> category \<Rightarrow> int) \<Rightarrow>
  AssetStatSet \<Rightarrow> bool" where
  "adds s dn db s' \<longleftrightarrow> no_zero_rows s' \<and>
     (\<forall>k c. cnt s' k c = cnt s k c + of_int (dn k c)) \<and> (\<forall>k c. bal s' k c = bal s k c + db k c)"

lemma adds_refl: "no_zero_rows s \<Longrightarrow> adds s (\<lambda>k c. 0) (\<lambda>k c. 0) s"
  by (simp add: adds_def)

lemma adds_trans:
  "adds s dn db s1 \<Longrightarrow> adds s1 dn' db' s2 \<Longrightarrow> adds s (\<lambda>k c. dn k c + dn' k c) (\<lambda>k c. db k c + db' k c) s2"
  by (simp add: adds_def)

text \<open>The fields a change adds to: the amount of the entry after it, less that of the entry before it.\<close>

definition weigh :: "bool \<Rightarrow> 'a::zero \<Rightarrow> 'a" where
  "weigh b x = (if b then x else 0)"

lemma ucast_weigh: "ucast (weigh p 1 - weigh q 1 :: i64) = (of_int (weigh p 1 - weigh q 1) :: 32 word)"
proof -
  have "ucast (- 1 :: i64) = (- 1 :: 32 word)" by code_simp
  then show ?thesis by (simp add: weigh_def)
qed

lemma sint_weigh:
  assumes "0 \<le> sint (x :: i64)" "0 \<le> sint (y :: i64)"
  shows "sint (weigh p y - weigh q x) = weigh p (sint y) - weigh q (sint x)"
  using sint_sub_nonneg [of "weigh q x" "weigh p y"] assms by (auto simp: weigh_def)

lemma addDelta_adds:
  assumes "Extract api a = Inr key" "no_zero_rows s" "0 \<le> sint x" "0 \<le> sint y"
    and "\<And>c. da c = weigh (P c) 1 - weigh (Q c) 1" "\<And>c. db c = weigh (P c) y - weigh (Q c) x"
  shows "\<exists>s'. addDelta api a db da s = Inr s' \<and>
    adds s (\<lambda>k c. weigh (k = key) (weigh (P c) 1 - weigh (Q c) 1))
      (\<lambda>k c. weigh (k = key) (weigh (P c) (sint y) - weigh (Q c) (sint x))) s'"
proof -
  obtain s' where "addDelta api a db da s = Inr s'" "no_zero_rows s'"
      "\<And>k c. cnt s' k c = cnt s k c + (if k = key then ucast (da c) else 0)"
      "\<And>k c. bal s' k c = bal s k c + (if k = key then sint (db c) else 0)"
    using addDelta_effect [OF assms(1,2), of db da] by blast
  then show ?thesis
    by (auto simp: adds_def assms(5,6) ucast_weigh sint_weigh [OF assms(3,4)] weigh_def [of "k = key" for k])
qed

definition opt_sum :: "asset_api \<Rightarrow> (i64 \<Rightarrow> int) \<Rightarrow> LedgerEntry option \<Rightarrow> assetStatKey \<Rightarrow> category \<Rightarrow> int" where
  "opt_sum api f e k c = (case e of None \<Rightarrow> 0 | Some e \<Rightarrow> entry_sum api f k c e)"

definition adds_change :: "asset_api \<Rightarrow> change \<Rightarrow> AssetStatSet \<Rightarrow> AssetStatSet \<Rightarrow> bool" where
  "adds_change api ch s s' \<longleftrightarrow>
     adds s (\<lambda>k c. opt_sum api (\<lambda>x. 1) (Post ch) k c - opt_sum api (\<lambda>x. 1) (Pre ch) k c)
       (\<lambda>k c. opt_sum api sint (Post ch) k c - opt_sum api sint (Pre ch) k c) s'"

text \<open>A change of one holding, for which both sums have the same shape.\<close>

lemma single_adds_change:
  assumes "Extract api a = Inr key" "no_zero_rows s" "0 \<le> sint x" "0 \<le> sint y"
    and "\<And>c. da c = weigh (P c) 1 - weigh (Q c) 1" "\<And>c. db c = weigh (P c) y - weigh (Q c) x"
    and "\<And>f k c. opt_sum api f (Post ch) k c = weigh (k = key) (weigh (P c) (f y))"
    and "\<And>f k c. opt_sum api f (Pre ch) k c = weigh (k = key) (weigh (Q c) (f x))"
  shows "\<exists>s'. addDelta api a db da s = Inr s' \<and> adds_change api ch s s'"
proof -
  have "weigh (k = key) (weigh (P c) u - weigh (Q c) v) =
      weigh (k = key) (weigh (P c) u) - weigh (k = key) (weigh (Q c) v)" for k c and u v :: int
    by (simp add: weigh_def)
  with addDelta_adds [OF assms(1-6)] show ?thesis unfolding adds_change_def assms(7,8) by simp
qed

lemma entry_sum_TrustLine:
  "entry_sum api f k c (TrustLineData e) = (case tlAsset e of
       AssetTypePoolShare p \<Rightarrow> 0
     | PlainAsset a \<Rightarrow> weigh (a \<noteq> AssetTypeNative \<and> Extract api a = Inr k \<and> flag_category api (tlFlags e) = c) (f (tlBalance e)))"
  by (auto simp: entry_sum_def weigh_def split: TrustLineAsset.split)

lemma entry_sum_ClaimableBalance:
  "entry_sum api f k c (ClaimableBalanceData e) =
     weigh (cbAsset e \<noteq> AssetTypeNative \<and> Extract api (cbAsset e) = Inr k \<and> c = ClaimableBalances) (f (cbAmount e))"
  by (auto simp: entry_sum_def weigh_def)

lemma entry_sum_LiquidityPool:
  "entry_sum api f k c (LiquidityPoolData p) =
     weigh (pool_AssetA p \<noteq> AssetTypeNative \<and> Extract api (pool_AssetA p) = Inr k \<and> c = LiquidityPools) (f (pool_ReserveA p)) +
     weigh (pool_AssetB p \<noteq> AssetTypeNative \<and> Extract api (pool_AssetB p) = Inr k \<and> c = LiquidityPools) (f (pool_ReserveB p))"
  by (auto simp: entry_sum_def weigh_def)

lemma no_holding_adds:
  assumes "no_zero_rows s" "\<And>f k c. opt_sum api f (Post ch) k c = 0" "\<And>f k c. opt_sum api f (Pre ch) k c = 0"
  shows "adds_change api ch s s"
  using adds_refl [OF assms(1)] unfolding adds_change_def assms(2,3) by simp

lemma change_data:
  assumes "change_ok api ch" "\<And>e. entry_type e = Type ch \<Longrightarrow> \<exists>x. e = C x \<and> data e = Some x"
  obtains pre post where "Pre ch = map_option C pre" "Post ch = map_option C post"
    "Option.bind (Pre ch) data = pre" "Option.bind (Post ch) data = post" "pre \<noteq> None \<or> post \<noteq> None"
    "pred_option (\<lambda>x. entry_ok api (C x)) pre" "pred_option (\<lambda>x. entry_ok api (C x)) post"
    "\<forall>x y. pre = Some x \<longrightarrow> post = Some y \<longrightarrow> same_asset (C x) (C y)"
proof -
  have d: "\<exists>o'. e = map_option C o' \<and> Option.bind e data = o' \<and> pred_option (\<lambda>x. entry_ok api (C x)) o'"
    if "pred_option (\<lambda>e. entry_type e = Type ch \<and> entry_ok api e) e" for e
  proof (cases e)
    case (Some a)
    with that obtain x where "a = C x" "data a = Some x" "entry_ok api a" using assms(2) by auto
    with Some show ?thesis by auto
  qed simp
  obtain pre where pre: "Pre ch = map_option C pre" "Option.bind (Pre ch) data = pre"
      "pred_option (\<lambda>x. entry_ok api (C x)) pre"
    using d [of "Pre ch"] assms(1) unfolding change_ok_def by blast
  obtain post where post: "Post ch = map_option C post" "Option.bind (Post ch) data = post"
      "pred_option (\<lambda>x. entry_ok api (C x)) post"
    using d [of "Post ch"] assms(1) unfolding change_ok_def by blast
  show thesis
    by (rule that [OF pre(1) post(1) pre(2) post(2) _ pre(3) post(3)])
      (use assms(1) pre(1) post(1) in \<open>auto simp: change_ok_def\<close>)
qed

lemma api_okD:
  assumes "api_ok api"
  shows "a \<noteq> AssetTypeNative \<Longrightarrow> \<exists>k. Extract api a = Inr k"
    "pre \<noteq> None \<or> post \<noteq> None \<Longrightarrow> pred_option (\<lambda>p. \<exists>a b ra rb. p = ConstantProduct a b ra rb) pre \<Longrightarrow>
     pred_option (\<lambda>p. \<exists>a b ra rb. p = ConstantProduct a b ra rb) post \<Longrightarrow>
     GetLiquidityPoolType api pre post = Inr LiquidityPoolConstantProduct"
  using assms unfolding api_ok_def by blast+

lemma AddTrustline_adds:
  assumes api: "api_ok api" and ok: "change_ok api ch" and t: "Type ch = LedgerEntryTypeTrustline"
    and s: "no_zero_rows s"
  shows "\<exists>s'. AddTrustline api ch s = Inr s' \<and> adds_change api ch s s'"
proof -
  have "\<exists>x. e = TrustLineData x \<and> data_TrustLine e = Some x" if "entry_type e = Type ch" for e
    using that t by (cases e) auto
  from ok this obtain pre post where p: "Pre ch = map_option TrustLineData pre" "Post ch = map_option TrustLineData post"
    "Option.bind (Pre ch) data_TrustLine = pre" "Option.bind (Post ch) data_TrustLine = post"
    "pre \<noteq> None \<or> post \<noteq> None"
    "pred_option (\<lambda>x. entry_ok api (TrustLineData x)) pre" "pred_option (\<lambda>x. entry_ok api (TrustLineData x)) post"
    "\<forall>x y. pre = Some x \<longrightarrow> post = Some y \<longrightarrow> same_asset (TrustLineData x) (TrustLineData y)"
    by (rule change_data)
  define asset where "asset = tlAsset (case post of Some e \<Rightarrow> e | None \<Rightarrow> the pre)"
  have a: "pre = Some e \<or> post = Some e \<Longrightarrow> tlAsset e = asset" for e
    using p(5,8) by (auto simp: asset_def split: option.splits)
  let ?P = "\<lambda>e c. pred_option (\<lambda>e. flag_category api (tlFlags e) = c) e \<and> e \<noteq> None"
  let ?x = "\<lambda>e. case e of None \<Rightarrow> 0 | Some e \<Rightarrow> tlBalance e"
  have run: "AddTrustline api ch s = (case asset of AssetTypePoolShare q \<Rightarrow> Inr s
      | PlainAsset a \<Rightarrow> if a = AssetTypeNative then Inr s
          else addDelta api a (\<lambda>c. weigh (?P post c) (?x post) - weigh (?P pre c) (?x pre))
                 (\<lambda>c. weigh (?P post c) 1 - weigh (?P pre c) 1) s)"
    unfolding AddTrustline_def p(3,4) Let_def asset_def using p(5)
    by (auto simp: addByFlags_def add_to_def no_delta_def weigh_def fun_eq_iff
        split: option.split TrustLineAsset.split intro!: arg_cong3 [where f = "addDelta api a" for a])
  show ?thesis
  proof (cases "\<exists>a. asset = PlainAsset a \<and> a \<noteq> AssetTypeNative")
    case False
    have "opt_sum api f (map_option TrustLineData e) k c = 0" if "pre = e \<or> post = e" for e f k c
      using that False a by (cases e) (auto simp: opt_sum_def entry_sum_TrustLine weigh_def split: TrustLineAsset.split)
    then have "adds_change api ch s s" by (intro no_holding_adds [OF s]) (auto simp: p(1,2))
    with run False show ?thesis by (auto split: TrustLineAsset.split)
  next
    case True
    then obtain a key where key: "asset = PlainAsset a" "a \<noteq> AssetTypeNative" "Extract api a = Inr key"
      using api_okD(1) [OF api] by blast
    have sum: "opt_sum api f (map_option TrustLineData e) k c = weigh (k = key) (weigh (?P e c) (f (?x e)))"
      if "pre = e \<or> post = e" for e f k c
      using that key a by (cases e) (auto simp: opt_sum_def entry_sum_TrustLine weigh_def)
    have nonneg: "0 \<le> sint (?x e)" if "pre = e \<or> post = e" for e
      using that p(6,7) key a by (cases e) (auto simp: entry_ok_def)
    show ?thesis
      unfolding run key(1) using key(2)
      by (simp, intro single_adds_change [OF key(3) s nonneg nonneg]) (simp_all add: p(1,2) sum)
  qed
qed

lemma AddClaimableBalance_adds:
  assumes api: "api_ok api" and ok: "change_ok api ch" and t: "Type ch = LedgerEntryTypeClaimableBalance"
    and s: "no_zero_rows s"
  shows "\<exists>s'. AddClaimableBalance api ch s = Inr s' \<and> adds_change api ch s s'"
proof -
  have "\<exists>x. e = ClaimableBalanceData x \<and> data_ClaimableBalance e = Some x" if "entry_type e = Type ch" for e
    using that t by (cases e) auto
  from ok this obtain pre post where p: "Pre ch = map_option ClaimableBalanceData pre"
    "Post ch = map_option ClaimableBalanceData post" "Option.bind (Pre ch) data_ClaimableBalance = pre"
    "Option.bind (Post ch) data_ClaimableBalance = post" "pre \<noteq> None \<or> post \<noteq> None"
    "pred_option (\<lambda>x. entry_ok api (ClaimableBalanceData x)) pre"
    "pred_option (\<lambda>x. entry_ok api (ClaimableBalanceData x)) post"
    "\<forall>x y. pre = Some x \<longrightarrow> post = Some y \<longrightarrow> same_asset (ClaimableBalanceData x) (ClaimableBalanceData y)"
    by (rule change_data)
  define asset where "asset = cbAsset (case post of Some e \<Rightarrow> e | None \<Rightarrow> the pre)"
  have a: "pre = Some e \<or> post = Some e \<Longrightarrow> cbAsset e = asset" for e
    using p(5,8) by (auto simp: asset_def split: option.splits)
  let ?P = "\<lambda>e c. e \<noteq> None \<and> c = ClaimableBalances"
  let ?x = "\<lambda>e. case e of None \<Rightarrow> 0 | Some e \<Rightarrow> cbAmount e"
  have run: "AddClaimableBalance api ch s = (if asset = AssetTypeNative then Inr s
      else addDelta api asset (\<lambda>c. weigh (?P post c) (?x post) - weigh (?P pre c) (?x pre))
             (\<lambda>c. weigh (?P post c) 1 - weigh (?P pre c) 1) s)"
    unfolding AddClaimableBalance_def p(3,4) Let_def asset_def using p(5)
    by (auto simp: add_to_def no_delta_def weigh_def fun_eq_iff
        split: option.split intro!: arg_cong3 [where f = "addDelta api a" for a])
  show ?thesis
  proof (cases "asset = AssetTypeNative")
    case True
    have "opt_sum api f (map_option ClaimableBalanceData e) k c = 0" if "pre = e \<or> post = e" for e f k c
      using that True a by (cases e) (auto simp: opt_sum_def entry_sum_ClaimableBalance weigh_def)
    then have "adds_change api ch s s" by (intro no_holding_adds [OF s]) (auto simp: p(1,2))
    with run True show ?thesis by simp
  next
    case False
    then obtain key where key: "Extract api asset = Inr key" using api_okD(1) [OF api] by blast
    have sum: "opt_sum api f (map_option ClaimableBalanceData e) k c = weigh (k = key) (weigh (?P e c) (f (?x e)))"
      if "pre = e \<or> post = e" for e f k c
      using that key a False by (cases e) (auto simp: opt_sum_def entry_sum_ClaimableBalance weigh_def)
    have nonneg: "0 \<le> sint (?x e)" if "pre = e \<or> post = e" for e
      using that p(6,7) False a by (cases e) (auto simp: entry_ok_def)
    show ?thesis
      unfolding run using False
      by (simp, intro single_adds_change [OF key s nonneg nonneg]) (simp_all add: p(1,2) sum)
  qed
qed

text \<open>One of the two assets of a pool.\<close>

definition side_sum :: "asset_api \<Rightarrow> (LiquidityPoolEntry \<Rightarrow> Asset) \<Rightarrow> (LiquidityPoolEntry \<Rightarrow> int) \<Rightarrow>
  LiquidityPoolEntry option \<Rightarrow> assetStatKey \<Rightarrow> category \<Rightarrow> int" where
  "side_sum api side f pool k c = (case pool of None \<Rightarrow> 0 | Some p \<Rightarrow>
     weigh (side p \<noteq> AssetTypeNative \<and> Extract api (side p) = Inr k \<and> c = LiquidityPools) (f p))"

lemma pool_side_adds:
  assumes api: "api_ok api" and s: "no_zero_rows s"
    and side: "\<forall>p. pre = Some p \<or> post = Some p \<longrightarrow>
      side p = asset \<and> (asset \<noteq> AssetTypeNative \<longrightarrow> 0 \<le> sint (reserve p))"
  shows "\<exists>s'. (if asset \<noteq> AssetTypeNative
      then addDelta api asset (pool_delta reserve pre post) (pool_delta (\<lambda>p. 1) pre post) s else Inr s) = Inr s' \<and>
    adds s (\<lambda>k c. side_sum api side (\<lambda>p. 1) post k c - side_sum api side (\<lambda>p. 1) pre k c)
      (\<lambda>k c. side_sum api side (\<lambda>p. sint (reserve p)) post k c - side_sum api side (\<lambda>p. sint (reserve p)) pre k c) s'"
    (is "\<exists>s'. ?run = _ \<and> adds s ?dn ?db s'")
proof (cases "asset = AssetTypeNative")
  case True
  then have "?dn = (\<lambda>k c. 0)" "?db = (\<lambda>k c. 0)"
    using side by (auto simp: fun_eq_iff weigh_def side_sum_def split: option.split)
  with True adds_refl [OF s] show ?thesis by simp
next
  case False
  then obtain key where key: "Extract api asset = Inr key" using api_okD(1) [OF api] by blast
  let ?P = "\<lambda>p c. p \<noteq> None \<and> c = LiquidityPools" and ?x = "\<lambda>p. case p of None \<Rightarrow> 0 | Some p \<Rightarrow> reserve p"
  have d: "pool_delta reserve pre post c = weigh (?P post c) (?x post) - weigh (?P pre c) (?x pre)"
    "pool_delta (\<lambda>p. 1) pre post c = weigh (?P post c) 1 - weigh (?P pre c) 1" for c
    by (auto simp: pool_delta_def add_to_def no_delta_def weigh_def Let_def split: option.split)
  have n: "0 \<le> sint (?x p)" if "pre = p \<or> post = p" for p
    using that side False by (cases p) auto
  have f: "side_sum api side f p k c = weigh (k = key) (weigh (?P p c) (case p of None \<Rightarrow> 0 | Some p \<Rightarrow> f p))"
    if "pre = p \<or> post = p" for f p k c
    using that side False key by (cases p) (auto simp: weigh_def side_sum_def)
  have "?dn = (\<lambda>k c. weigh (k = key) (weigh (?P post c) 1 - weigh (?P pre c) 1))"
    "?db = (\<lambda>k c. weigh (k = key) (weigh (?P post c) (sint (?x post)) - weigh (?P pre c) (sint (?x pre))))"
    by (auto simp: f fun_eq_iff weigh_def split: option.split)
  with addDelta_adds [OF key s n n d(2,1)] False show ?thesis by simp
qed

lemma AddLiquidityPool_adds:
  assumes api: "api_ok api" and ok: "change_ok api ch" and t: "Type ch = LedgerEntryTypeLiquidityPool"
    and s: "no_zero_rows s"
  shows "\<exists>s'. AddLiquidityPool api ch s = Inr s' \<and> adds_change api ch s s'"
proof -
  have "\<exists>x. e = LiquidityPoolData x \<and> data_LiquidityPool e = Some x" if "entry_type e = Type ch" for e
    using that t by (cases e) auto
  from ok this obtain pre post where p: "Pre ch = map_option LiquidityPoolData pre"
    "Post ch = map_option LiquidityPoolData post" "Option.bind (Pre ch) data_LiquidityPool = pre"
    "Option.bind (Post ch) data_LiquidityPool = post" "pre \<noteq> None \<or> post \<noteq> None"
    "pred_option (\<lambda>x. entry_ok api (LiquidityPoolData x)) pre"
    "pred_option (\<lambda>x. entry_ok api (LiquidityPoolData x)) post"
    "\<forall>x y. pre = Some x \<longrightarrow> post = Some y \<longrightarrow> same_asset (LiquidityPoolData x) (LiquidityPoolData y)"
    by (rule change_data)
  have "entry_ok api (LiquidityPoolData q) \<Longrightarrow> \<exists>a b ra rb. q = ConstantProduct a b ra rb" for q
    by (cases q) (auto simp: entry_ok_def)
  then have lp: "GetLiquidityPoolType api pre post = Inr LiquidityPoolConstantProduct"
    using p(5-7) by (intro api_okD(2) [OF api]) (auto simp: option.pred_set)
  define pool where "pool = (case post of Some q \<Rightarrow> q | None \<Rightarrow> the pre)"
  have a: "pool_AssetA q = pool_AssetA pool" "pool_AssetB q = pool_AssetB pool" if "pre = Some q \<or> post = Some q" for q
    using that p(8) by (auto simp: pool_def split: option.splits)
  have nonneg: "pool_AssetA pool \<noteq> AssetTypeNative \<Longrightarrow> 0 \<le> sint (pool_ReserveA q)"
    "pool_AssetB pool \<noteq> AssetTypeNative \<Longrightarrow> 0 \<le> sint (pool_ReserveB q)" if "pre = Some q \<or> post = Some q" for q
    using that a [OF that] p(6,7) by (auto simp: entry_ok_def split: if_splits)
  have sides: "\<forall>q. pre = Some q \<or> post = Some q \<longrightarrow> pool_AssetA q = pool_AssetA pool \<and>
      (pool_AssetA pool \<noteq> AssetTypeNative \<longrightarrow> 0 \<le> sint (pool_ReserveA q))"
    "\<forall>q. pre = Some q \<or> post = Some q \<longrightarrow> pool_AssetB q = pool_AssetB pool \<and>
      (pool_AssetB pool \<noteq> AssetTypeNative \<longrightarrow> 0 \<le> sint (pool_ReserveB q))"
    using a nonneg by blast+
  let ?d = "\<lambda>side f k c. side_sum api side f post k c - side_sum api side f pre k c"
  obtain s1 where s1: "(if pool_AssetA pool \<noteq> AssetTypeNative
      then addDelta api (pool_AssetA pool) (pool_delta pool_ReserveA pre post) (pool_delta (\<lambda>p. 1) pre post) s else Inr s) = Inr s1"
    and d1: "adds s (?d pool_AssetA (\<lambda>p. 1)) (?d pool_AssetA (\<lambda>p. sint (pool_ReserveA p))) s1"
    using pool_side_adds [OF api s sides(1)] by (elim exE conjE)
  have z1: "no_zero_rows s1" using d1 by (simp add: adds_def)
  obtain s2 where s2: "(if pool_AssetB pool \<noteq> AssetTypeNative
      then addDelta api (pool_AssetB pool) (pool_delta pool_ReserveB pre post) (pool_delta (\<lambda>p. 1) pre post) s1 else Inr s1) = Inr s2"
    and d2: "adds s1 (?d pool_AssetB (\<lambda>p. 1)) (?d pool_AssetB (\<lambda>p. sint (pool_ReserveB p))) s2"
    using pool_side_adds [OF api z1 sides(2)] by (elim exE conjE)
  have sel: "(case post of Some q \<Rightarrow> Some q | None \<Rightarrow> pre) = Some pool"
    using p(5) by (auto simp: pool_def split: option.splits)
  have "AddLiquidityPool api ch s = Inr s2"
    unfolding AddLiquidityPool_def p(3,4) Let_def sel lp
    by (simp only: option.case sum.case LiquidityPoolType.case s1 s2)
  moreover have "opt_sum api f (map_option LiquidityPoolData q) k c =
      side_sum api pool_AssetA (\<lambda>p. f (pool_ReserveA p)) q k c + side_sum api pool_AssetB (\<lambda>p. f (pool_ReserveB p)) q k c"
    for f q k c by (simp add: opt_sum_def entry_sum_LiquidityPool side_sum_def split: option.split)
  then have "adds_change api ch s s2"
    using adds_trans [OF d1 d2] unfolding adds_change_def p(1,2) by (simp add: algebra_simps)
  ultimately show ?thesis by blast
qed

lemma no_classic_holding: "entry_type e \<noteq> LedgerEntryTypeTrustline \<Longrightarrow> entry_type e \<noteq> LedgerEntryTypeLiquidityPool \<Longrightarrow>
    entry_type e \<noteq> LedgerEntryTypeClaimableBalance \<Longrightarrow> entry_sum api f k c e = 0"
  by (cases e) (simp_all add: entry_sum_def)

lemma classic_change_adds:
  assumes "api_ok api" "change_ok api ch" "no_zero_rows s"
  shows "\<exists>s'. classic_change api ch s = Inr s' \<and> adds_change api ch s s'"
proof -
  have other: "adds_change api ch s s" if "Type ch \<notin> {LedgerEntryTypeTrustline, LedgerEntryTypeLiquidityPool, LedgerEntryTypeClaimableBalance}"
  proof -
    have "opt_sum api f e k c = 0" if "pred_option (\<lambda>e. entry_type e = Type ch \<and> entry_ok api e) e" for f e k c
      using that \<open>Type ch \<notin> _\<close> by (cases e) (auto simp: opt_sum_def intro!: no_classic_holding)
    then show ?thesis using assms(2) by (intro no_holding_adds [OF assms(3)]) (auto simp: change_ok_def)
  qed
  show ?thesis
    by (cases "Type ch") (use assms other in \<open>simp_all add: classic_change_def AddTrustline_adds AddClaimableBalance_adds AddLiquidityPool_adds\<close>)
qed

lemma sum_mset_change:
  fixes f :: "'a \<Rightarrow> int"
  assumes "pred_option (\<lambda>e. e \<in># L) pre"
  shows "(\<Sum>e\<in>#L - mset (case pre of None \<Rightarrow> [] | Some e \<Rightarrow> [e]) + mset (case post of None \<Rightarrow> [] | Some e \<Rightarrow> [e]). f e) =
    (\<Sum>e\<in>#L. f e) + ((case post of None \<Rightarrow> 0 | Some e \<Rightarrow> f e) - (case pre of None \<Rightarrow> 0 | Some e \<Rightarrow> f e))"
proof -
  have "(\<Sum>e\<in>#L. f e) = f x + (\<Sum>e\<in>#L - {#x#}. f e)" if "x \<in># L" for x
    using that by (metis insert_DiffM image_mset_add_mset sum_mset.add_mset)
  with assms show ?thesis by (auto split: option.split)
qed

text \<open>
  What the processor requires of the TTL changes: at most one for a key, as the change compactor leaves
  them, and no update to a ledger in the past.
\<close>

definition ttl_key :: "change \<Rightarrow> string option" where
  "ttl_key ch = (case (case Pre ch of Some e \<Rightarrow> Some e | None \<Rightarrow> Post ch) of
       Some (TtlData e) \<Rightarrow> Some (ttlKeyHash e)
     | _ \<Rightarrow> None)"

definition ttl_update_ok :: "u32 \<Rightarrow> change \<Rightarrow> bool" where
  "ttl_update_ok ledger ch = (case (Pre ch, Post ch) of
       (Some (TtlData e), Some (TtlData e')) \<Rightarrow>
         LiveUntilLedgerSeq e = LiveUntilLedgerSeq e' \<or> ledger \<le> LiveUntilLedgerSeq e'
     | _ \<Rightarrow> True)"

definition ttl_compacted :: "u32 \<Rightarrow> change list \<Rightarrow> bool" where
  "ttl_compacted ledger chs \<longleftrightarrow> distinct (List.map_filter ttl_key chs) \<and> list_all (ttl_update_ok ledger) chs"

definition ttl_keys :: "AssetStatsProcessor \<Rightarrow> string set" where
  "ttl_keys p = dom (p_removed p) \<union> dom (p_created p) \<union> dom (p_updated p)"

lemma not_in_ttl_keys:
  "k \<notin> ttl_keys p \<longleftrightarrow> p_removed p k = None \<and> p_created p k = None \<and> p_updated p k = None"
  by (auto simp: ttl_keys_def)

lemma addExpirationChange_ok:
  assumes "Type ch = LedgerEntryTypeTtl" "change_ok api ch" "ttl_update_ok (p_currentLedger p) ch"
    and "\<forall>k. ttl_key ch = Some k \<longrightarrow> k \<notin> ttl_keys p"
  shows "\<exists>p'. addExpirationChange ch p = Inr p' \<and> assetStatSet p' = assetStatSet p \<and>
    p_currentLedger p' = p_currentLedger p \<and> ttl_keys p' \<subseteq> ttl_keys p \<union> set_option (ttl_key ch)"
proof -
  have ty: "entry_type e = LedgerEntryTypeTtl \<longleftrightarrow> (\<exists>d. e = TtlData d)" for e by (cases e) simp_all
  show ?thesis
    using assms
    by (cases "Pre ch"; cases "Post ch";
        auto simp: change_ok_def ty ttl_key_def ttl_update_ok_def not_in_ttl_keys addExpirationChange_def
          checkTTLChangeIsCompacted_def not_le; auto simp: ttl_keys_def)
qed

lemma ProcessChange_classic:
  assumes "change_ok api ch" "classic_change api ch (assetStatSet p) = Inr s'" "ttl_update_ok (p_currentLedger p) ch"
    and "\<forall>k. ttl_key ch = Some k \<longrightarrow> k \<notin> ttl_keys p"
  shows "\<exists>p'. ProcessChange api sac ch p = Inr p' \<and> assetStatSet p' = s' \<and> p_currentLedger p' = p_currentLedger p \<and>
    ttl_keys p' \<subseteq> ttl_keys p \<union> set_option (ttl_key ch)"
proof (cases "Type ch = LedgerEntryTypeTtl")
  case True
  with assms(2) have "s' = assetStatSet p" by (simp add: classic_change_def)
  with addExpirationChange_ok [OF True assms(1,3,4)] True show ?thesis by (simp add: ProcessChange_def)
next
  case False
  have "Pre ch \<noteq> None \<or> Post ch \<noteq> None" using assms(1) by (simp add: change_ok_def)
  with False assms(2) show ?thesis
    by (cases "Type ch")
      (auto simp: ProcessChange_def classic_change_def with_set_def keepContractData_def ttl_keys_def split: option.split)
qed

lemma ProcessChanges_adds:
  assumes "api_ok api" "ledger_after api chs L = Some L'" "no_zero_rows (assetStatSet p)"
    and "distinct (List.map_filter ttl_key chs)" "list_all (ttl_update_ok (p_currentLedger p)) chs"
    and "ttl_keys p \<inter> set (List.map_filter ttl_key chs) = {}"
  shows "\<exists>p'. ProcessChanges api sac chs p = Inr p' \<and>
    adds (assetStatSet p) (\<lambda>k c. holders api L' k c - holders api L k c) (\<lambda>k c. amount api L' k c - amount api L k c)
      (assetStatSet p')"
  using assms(2-)
proof (induction chs arbitrary: L p)
  case Nil
  then show ?case by (simp add: adds_refl)
next
  case (Cons ch chs)
  let ?L = "L - mset (case Pre ch of None \<Rightarrow> [] | Some e \<Rightarrow> [e]) + mset (case Post ch of None \<Rightarrow> [] | Some e \<Rightarrow> [e])"
  let ?s = "assetStatSet p"
  have ok: "change_ok api ch" "pred_option (\<lambda>e. e \<in># L) (Pre ch)" "ledger_after api chs ?L = Some L'"
    using Cons.prems(1) by (simp_all split: if_splits)
  obtain s1 where s1: "classic_change api ch ?s = Inr s1" "adds_change api ch ?s s1"
    using classic_change_adds [OF assms(1) ok(1) Cons.prems(2)] by blast
  have ttl: "ttl_update_ok (p_currentLedger p) ch" "\<forall>k. ttl_key ch = Some k \<longrightarrow> k \<notin> ttl_keys p"
    using Cons.prems(4,5) by (auto simp: List.map_filter_simps)
  obtain p1 where p1: "ProcessChange api sac ch p = Inr p1" "assetStatSet p1 = s1"
    "p_currentLedger p1 = p_currentLedger p" "ttl_keys p1 \<subseteq> ttl_keys p \<union> set_option (ttl_key ch)"
    using ProcessChange_classic [OF ok(1) s1(1) ttl] by blast
  have z: "no_zero_rows (assetStatSet p1)" using s1(2) p1(2) by (simp add: adds_change_def adds_def)
  have r: "distinct (List.map_filter ttl_key chs)" "list_all (ttl_update_ok (p_currentLedger p1)) chs"
    "ttl_keys p1 \<inter> set (List.map_filter ttl_key chs) = {}"
    using Cons.prems(3,4,5) p1(3,4) by (auto simp: List.map_filter_simps split: option.splits)
  obtain p2 where p2: "ProcessChanges api sac chs p1 = Inr p2"
    "adds s1 (\<lambda>k c. holders api L' k c - holders api ?L k c) (\<lambda>k c. amount api L' k c - amount api ?L k c) (assetStatSet p2)"
    using Cons.IH [OF ok(3) z r] p1(2) by blast
  have h: "holders api ?L k c = holders api L k c + (opt_sum api (\<lambda>x. 1) (Post ch) k c - opt_sum api (\<lambda>x. 1) (Pre ch) k c)"
    "amount api ?L k c = amount api L k c + (opt_sum api sint (Post ch) k c - opt_sum api sint (Pre ch) k c)" for k c
    unfolding holders_def amount_def opt_sum_def by (rule sum_mset_change [OF ok(2)])+
  have "adds ?s (\<lambda>k c. holders api L' k c - holders api L k c) (\<lambda>k c. amount api L' k c - amount api L k c) (assetStatSet p2)"
    using adds_trans [OF s1(2) [unfolded adds_change_def] p2(2)] unfolding h by (simp add: algebra_simps)
  with p1(1) p2(1) show ?case by simp
qed

subsection \<open>The table\<close>

text \<open>The rows of a table are the counts and amounts, and an asset that no entry holds has no row.\<close>

definition represents :: "stats_table \<Rightarrow> (assetStatKey \<Rightarrow> category \<Rightarrow> int) \<Rightarrow> (assetStatKey \<Rightarrow> category \<Rightarrow> int) \<Rightarrow> bool" where
  "represents t N B \<longleftrightarrow> (\<forall>k. case t k of
       None \<Rightarrow> \<forall>c. N k c = 0 \<and> B k c = 0
     | Some row \<Rightarrow> statKey row = k \<and> (\<exists>c. N k c \<noteq> 0) \<and>
         (\<forall>c. Accounts row c = of_int (N k c)) \<and> (\<forall>c. Balances row c = Int_String (B k c)))"

text \<open>Counts that fit \<open>int32\<close>; without a holder there is no amount.\<close>

definition bounded :: "(assetStatKey \<Rightarrow> category \<Rightarrow> int) \<Rightarrow> (assetStatKey \<Rightarrow> category \<Rightarrow> int) \<Rightarrow> bool" where
  "bounded N B \<longleftrightarrow> (\<forall>k c. 0 \<le> N k c \<and> N k c < 2 ^ 31 \<and> (N k c = 0 \<longrightarrow> B k c = 0))"

lemma balances_Parse_String: "balances_Parse (\<lambda>c. Int_String (b c)) = Inr b"
  by (simp add: balances_Parse_def)

lemma of_int_zero_iff:
  assumes "0 \<le> n" "n < 2 ^ 31"
  shows "(of_int n :: 32 word) = 0 \<longleftrightarrow> n = 0"
proof -
  have "uint (of_int n :: 32 word) = n" using assms by (simp add: uint_word_of_int)
  then show ?thesis unfolding word_uint_eq_iff by simp
qed

lemma of_int_nonneg: "0 \<le> n \<Longrightarrow> n < 2 ^ 31 \<Longrightarrow> 0 \<le> sint (of_int n :: 32 word)"
  by (simp add: int_word_sint)

lemma find_None_iff': "List.find P xs = None \<longleftrightarrow> list_all (\<lambda>x. \<not> P x) xs"
  by (auto simp: find_None_iff list_all_iff)

lemma represents_update:
  assumes "represents t N B"
    and "case new of None \<Rightarrow> \<forall>c. n c = 0 \<and> b c = 0
      | Some row \<Rightarrow> statKey row = k \<and> (\<exists>c. n c \<noteq> 0) \<and> (\<forall>c. Accounts row c = of_int (n c)) \<and>
          (\<forall>c. Balances row c = Int_String (b c))"
  shows "represents (t(k := new)) (N(k := n)) (B(k := b))"
  unfolding represents_def
proof
  fix k'
  show "case (t(k := new)) k' of None \<Rightarrow> \<forall>c. (N(k := n)) k' c = 0 \<and> (B(k := b)) k' c = 0
      | Some row \<Rightarrow> statKey row = k' \<and> (\<exists>c. (N(k := n)) k' c \<noteq> 0) \<and>
         (\<forall>c. Accounts row c = of_int ((N(k := n)) k' c)) \<and> (\<forall>c. Balances row c = Int_String ((B(k := b)) k' c))"
    using assms(2) assms(1) [unfolded represents_def, rule_format, of k']
    by (cases "k' = k") (simp_all cong: option.case_cong)
qed

lemma accounts_IsZero_zero: "accounts_IsZero (\<lambda>c. 0)"
  by (simp add: accounts_IsZero_def all_categories)

lemmas row_ops = exactly_one_def insert_row_def update_row_def remove_row_def

lemma updateAssetStat_step:
  assumes rep: "represents t N B" and bd: "bounded N B" "bounded N' B'"
    and v: "\<And>c. accounts v c = of_int (N' k c - N k c)" "\<And>c. balances v c = B' k c - B k c"
    and nz: "\<exists>c. accounts v c \<noteq> 0 \<or> balances v c \<noteq> 0"
  shows "(\<exists>t'. updateAssetStat flt (ConvertToHistoryObject k v) t = Inr t' \<and> represents t' (N(k := N' k)) (B(k := B' k))) \<or>
    (\<exists>call e m. flt call k = Some e \<and> updateAssetStat flt (ConvertToHistoryObject k v) t = Inl (WrapError m e))"
    (is "_ \<or> ?fault")
proof (cases "\<exists>call e. flt call k = Some e \<and> ?fault")
  case False
  show ?thesis
  proof (cases "t k")
    case None
    then have z: "N k c = 0" "B k c = 0" for c using rep [unfolded represents_def, rule_format, of k] by simp_all
    have acc: "accounts v c = of_int (N' k c)" "balances v c = B' k c" for c using v z by simp_all
    have neg: "negative_count (accounts v) = None"
      using bd(2) by (simp add: negative_count_def find_None_iff' all_categories acc bounded_def of_int_nonneg not_less)
    have "\<exists>c. N' k c \<noteq> 0"
    proof (rule ccontr)
      assume "\<not> ?thesis"
      with nz bd(2) show False by (simp add: acc bounded_def)
    qed
    then have "represents (t(k \<mapsto> ConvertToHistoryObject k v)) (N(k := N' k)) (B(k := B' k))"
      by (intro represents_update [OF rep]) (simp add: ConvertToHistoryObject_def acc balances_String_def)
    then show ?thesis
      using None neg by (auto simp: updateAssetStat_def ConvertToHistoryObject_def row_ops split: option.split)
  next
    case (Some row)
    then have row: "\<And>c. Accounts row c = of_int (N k c)" "Balances row = (\<lambda>c. Int_String (B k c))"
      using rep [unfolded represents_def, rule_format, of k] by auto
    have bal: "balances_Add (\<lambda>c. B k c) (balances v) = B' k"
      by (simp add: balances_Add_def v fun_eq_iff)
    have acc: "accounts_Add (Accounts row) (accounts v) = (\<lambda>c. of_int (N' k c))"
      by (simp add: accounts_Add_def v row fun_eq_iff)
    have zero: "accounts_IsZero (\<lambda>c. of_int (N' k c)) \<longleftrightarrow> (\<forall>c. N' k c = 0)"
      using bd(2) by (simp add: accounts_IsZero_def all_categories bounded_def of_int_zero_iff)
    have zb: "(\<forall>c. N' k c = 0) \<Longrightarrow> balances_IsZero (B' k)"
      using bd(2) by (simp add: balances_IsZero_def all_categories bounded_def)
    let ?new = "if \<forall>c. N' k c = 0 then None
      else Some \<lparr>statKey = k, Accounts = (\<lambda>c. of_int (N' k c)), Balances = balances_String (B' k)\<rparr>"
    have "represents (t(k := ?new)) (N(k := N' k)) (B(k := B' k))"
      using bd(2) by (intro represents_update [OF rep]) (auto simp: balances_String_def bounded_def)
    moreover have "updateAssetStat flt (ConvertToHistoryObject k v) t = Inr (t(k := ?new)) \<or> ?fault"
      using Some zb accounts_IsZero_zero
      by (auto simp: updateAssetStat_def ConvertToHistoryObject_def Let_def row(2) balances_Parse_String
          balances_String_def [abs_def] bal acc zero row_ops split: option.split)
    ultimately show ?thesis by blast
  qed
qed blast

lemma updateAssetStats_list:
  assumes "represents t N B" "bounded N B" "bounded N' B'" "distinct order"
    and "\<And>k. k \<in> set order \<Longrightarrow> \<exists>v. s k = Some v \<and> (\<forall>c. accounts v c = of_int (N' k c - N k c)) \<and>
      (\<forall>c. balances v c = B' k c - B k c) \<and> (\<exists>c. accounts v c \<noteq> 0 \<or> balances v c \<noteq> 0)"
  shows "(\<exists>t'. updateAssetStats flt (AssetStatSet_All order s) t = Inr t' \<and>
      represents t' (\<lambda>k. if k \<in> set order then N' k else N k) (\<lambda>k. if k \<in> set order then B' k else B k)) \<or>
    (\<exists>call k e m. flt call k = Some e \<and> updateAssetStats flt (AssetStatSet_All order s) t = Inl (WrapError m e))"
  using assms
proof (induction order arbitrary: t N B)
  case Nil
  then show ?case by (simp add: AssetStatSet_All_def List.map_filter_simps)
next
  case (Cons k order)
  obtain v where v: "s k = Some v" "\<And>c. accounts v c = of_int (N' k c - N k c)" "\<And>c. balances v c = B' k c - B k c"
    "\<exists>c. accounts v c \<noteq> 0 \<or> balances v c \<noteq> 0" using Cons.prems(5) [OF list.set_intros(1)] by blast
  have all: "AssetStatSet_All (k # order) s = ConvertToHistoryObject k v # AssetStatSet_All order s"
    using v(1) by (simp add: AssetStatSet_All_def List.map_filter_simps)
  let ?N = "N(k := N' k)" and ?B = "B(k := B' k)"
  from updateAssetStat_step [OF Cons.prems(1-3) v(2-4), of flt] show ?case
  proof
    assume "\<exists>t'. updateAssetStat flt (ConvertToHistoryObject k v) t = Inr t' \<and> represents t' ?N ?B"
    then obtain t1 where t1: "updateAssetStat flt (ConvertToHistoryObject k v) t = Inr t1" "represents t1 ?N ?B" by blast
    have b: "bounded ?N ?B" using Cons.prems(2,3) by (simp add: bounded_def)
    have o: "\<exists>v. s k' = Some v \<and> (\<forall>c. accounts v c = of_int (N' k' c - ?N k' c)) \<and>
        (\<forall>c. balances v c = B' k' c - ?B k' c) \<and> (\<exists>c. accounts v c \<noteq> 0 \<or> balances v c \<noteq> 0)"
      if "k' \<in> set order" for k'
    proof -
      have "k' \<noteq> k" using that Cons.prems(4) by auto
      then show ?thesis using Cons.prems(5) [of k'] that by simp
    qed
    have e: "(\<lambda>k'. if k' \<in> set order then N' k' else ?N k') = (\<lambda>k'. if k' \<in> set (k # order) then N' k' else N k')"
      "(\<lambda>k'. if k' \<in> set order then B' k' else ?B k') = (\<lambda>k'. if k' \<in> set (k # order) then B' k' else B k')"
      by (simp_all add: fun_eq_iff)
    have "distinct order" using Cons.prems(4) by simp
    from Cons.IH [OF t1(2) b Cons.prems(3) this o] show ?case
      unfolding all e using t1(1) by simp
  next
    assume "\<exists>call e m. flt call k = Some e \<and> updateAssetStat flt (ConvertToHistoryObject k v) t = Inl (WrapError m e)"
    then show ?case unfolding all by auto
  qed
qed

lemma entry_sum_nonneg: "0 \<le> entry_sum api (\<lambda>x. 1) k c e"
  unfolding entry_sum_def by (rule sum_list_nonneg) auto

lemma entry_sum_zero: "entry_sum api (\<lambda>x. 1) k c e = 0 \<Longrightarrow> entry_sum api f k c e = 0"
proof (cases e)
  case (LiquidityPoolData p)
  then show "entry_sum api (\<lambda>x. 1) k c e = 0 \<Longrightarrow> ?thesis"
    by (auto simp: entry_sum_LiquidityPool weigh_def split: if_splits)
qed (auto simp: entry_sum_TrustLine entry_sum_ClaimableBalance entry_sum_def weigh_def
    split: TrustLineAsset.splits if_splits)

lemma holders_nonneg: "0 \<le> holders api L k c"
  unfolding holders_def by (induction L) (simp_all add: entry_sum_nonneg)

lemma holders_zero: "holders api L k c = 0 \<Longrightarrow> amount api L k c = 0"
proof (induction L)
  case (add e L)
  then have "entry_sum api (\<lambda>x. 1) k c e + holders api L k c = 0" by (simp add: holders_def)
  then have "entry_sum api (\<lambda>x. 1) k c e = 0" "holders api L k c = 0"
    using entry_sum_nonneg [of api k c e] holders_nonneg [of api L k c] by linarith+
  with add.IH show ?case by (simp add: amount_def entry_sum_zero)
qed (simp add: amount_def)

lemma bounded_ledger: "(\<And>k c. holders api L k c < 2 ^ 31) \<Longrightarrow> bounded (holders api L) (amount api L)"
  using holders_nonneg holders_zero by (simp add: bounded_def)

lemma represents_empty: "represents Map.empty (holders api {#}) (amount api {#})"
  by (simp add: represents_def holders_def amount_def)

lemma no_zero_New: "no_zero_rows NewAssetStatSet" "cnt NewAssetStatSet k c = 0" "bal NewAssetStatSet k c = 0"
  by (simp_all add: no_zero_rows_def NewAssetStatSet_def cnt_def bal_def)

lemma of_int_diff_zero:
  assumes "(of_int (n' - n) :: 32 word) = 0" "0 \<le> n" "n < 2 ^ 31" "0 \<le> n'" "n' < 2 ^ 31"
  shows "n' = n"
proof -
  have "(of_int n' :: 32 word) = of_int n" using assms(1) by simp
  then have "uint (of_int n' :: 32 word) = uint (of_int n :: 32 word)" by (rule arg_cong)
  with assms(2-) show ?thesis by (simp add: uint_word_of_int)
qed

text \<open>
  C10. The asset statistics follow the ledger. Let the table be the statistics of a ledger: for every
  asset that some trust line, liquidity pool or claimable balance holds, one row with the number of
  holders in each category and the sum of their amounts, and no row for any other asset. Then processing
  any sequence of changes that leads to another ledger succeeds, and updating the table with the
  result, in whatever order its map is visited, gives the statistics of that ledger; the update fails
  only with the error of a database call, and never with one of its own consistency errors. The counts
  of both ledgers are assumed to fit 31 bits, and the TTL changes among the changes to be compacted.
\<close>

theorem asset_stats_track_ledger:
  assumes "api_ok api" "ledger_after api chs L = Some L'"
    and "represents t (holders api L) (amount api L)"
    and "\<And>k c. holders api L k c < 2 ^ 31" "\<And>k c. holders api L' k c < 2 ^ 31" "ttl_compacted ledger chs"
  shows "\<exists>p. ProcessChanges api sac chs (NewAssetStatsProcessor fromArchive ledger) = Inr p \<and>
    (\<forall>order. distinct order \<and> set order = dom (assetStatSet p) \<longrightarrow>
      (\<exists>t'. updateAssetStats flt (AssetStatSet_All order (assetStatSet p)) t = Inr t' \<and>
         represents t' (holders api L') (amount api L')) \<or>
      (\<exists>call k e m. flt call k = Some e \<and>
         updateAssetStats flt (AssetStatSet_All order (assetStatSet p)) t = Inl (WrapError m e)))"
proof -
  let ?N = "holders api L" and ?N' = "holders api L'" and ?B = "amount api L" and ?B' = "amount api L'"
  note b = bounded_ledger [OF assms(4)] bounded_ledger [OF assms(5)]
  let ?p = "NewAssetStatsProcessor fromArchive ledger"
  have new: "assetStatSet ?p = NewAssetStatSet" "p_currentLedger ?p = ledger" "ttl_keys ?p = {}"
    by (simp_all add: NewAssetStatsProcessor_def ttl_keys_def)
  obtain p where p: "ProcessChanges api sac chs ?p = Inr p"
    and a': "adds NewAssetStatSet (\<lambda>k c. ?N' k c - ?N k c) (\<lambda>k c. ?B' k c - ?B k c) (assetStatSet p)"
    using ProcessChanges_adds [OF assms(1,2), of ?p sac] assms(6) by (auto simp: new no_zero_New ttl_compacted_def)
  define s where "s = assetStatSet p"
  note a = a' [folded s_def]
  have cb: "cnt s k c = of_int (?N' k c - ?N k c)" "bal s k c = ?B' k c - ?B k c" for k c
    using a by (simp_all add: adds_def no_zero_New)
  have nz: "no_zero_rows s" using a by (simp add: adds_def)
  have row: "\<exists>v. s k = Some v \<and> (\<forall>c. accounts v c = of_int (?N' k c - ?N k c)) \<and>
      (\<forall>c. balances v c = ?B' k c - ?B k c) \<and> (\<exists>c. accounts v c \<noteq> 0 \<or> balances v c \<noteq> 0)" if "k \<in> dom s" for k
  proof -
    obtain v where v: "s k = Some v" using \<open>k \<in> dom s\<close> by blast
    then have "accounts v c = of_int (?N' k c - ?N k c)" "balances v c = ?B' k c - ?B k c" for c
      using cb [of k c] by (simp_all add: cnt_def bal_def)
    moreover have "\<exists>c. accounts v c \<noteq> 0 \<or> balances v c \<noteq> 0" using v nz by (simp add: no_zero_rows_def)
    ultimately show ?thesis using v by blast
  qed
  have same: "?N' k = ?N k" "?B' k = ?B k" if "k \<notin> dom s" for k
  proof -
    have "s k = None" using that by blast
    then have z: "of_int (?N' k c - ?N k c) = (0 :: 32 word)" "?B' k c - ?B k c = 0" for c
      using cb [of k c] by (simp_all add: cnt_def bal_def)
    show "?N' k = ?N k" by (rule ext) (use z(1) assms(4,5) holders_nonneg in \<open>blast intro: of_int_diff_zero\<close>)
    show "?B' k = ?B k" using z(2) by (simp add: fun_eq_iff)
  qed
  show ?thesis
  proof (intro exI [of _ p] conjI p allI impI, fold s_def)
    fix order assume o: "distinct order \<and> set order = dom s"
    have e: "(\<lambda>k. if k \<in> set order then ?N' k else ?N k) = ?N'" "(\<lambda>k. if k \<in> set order then ?B' k else ?B k) = ?B'"
      using o same by (auto simp: fun_eq_iff)
    show "(\<exists>t'. updateAssetStats flt (AssetStatSet_All order s) t = Inr t' \<and> represents t' ?N' ?B') \<or>
      (\<exists>call k e m. flt call k = Some e \<and> updateAssetStats flt (AssetStatSet_All order s) t = Inl (WrapError m e))"
      using updateAssetStats_list [OF assms(3) b, of order s flt] o row unfolding e by blast
  qed
qed

text \<open>A first trust line for an asset, on an empty ledger.\<close>

definition asset_demo_api :: asset_api where
  "asset_demo_api = \<lparr>Extract = (\<lambda>a. case a of AssetTypeNative \<Rightarrow> Inr \<lparr>assetType = 0, assetCode = [], assetIssuer = []\<rparr>
       | AssetTypeCreditAlphanum4 c i \<Rightarrow> Inr \<lparr>assetType = 1, assetCode = c, assetIssuer = i\<rparr>
       | AssetTypeCreditAlphanum12 c i \<Rightarrow> Inr \<lparr>assetType = 2, assetCode = c, assetIssuer = i\<rparr>),
     IsAuthorized = (\<lambda>f. f = 1), IsAuthorizedToMaintainLiabilitiesFlag = (\<lambda>f. f = 2),
     GetLiquidityPoolType = (\<lambda>pre post. Inr LiquidityPoolConstantProduct)\<rparr>"

definition demo_sac :: sac_api where
  "demo_sac = \<lparr>AssetFromContractData = (\<lambda>e. None),
     ContractBalanceFromContractData = (\<lambda>e. case e of
       ContractData d \<Rightarrow> map_option (\<lambda>n. (cdKey d, n)) (Int_SetString (cdVal d)) | _ \<Rightarrow> None),
     AssetToContractDataLedgerKey = (\<lambda>cid. cid), Asset_ContractID = (\<lambda>a. Inr ''C''),
     LedgerKey = (\<lambda>e. case e of ContractData d \<Rightarrow> Inr (cdKey d) | _ \<Rightarrow> Inl ''key''),
     MarshalBinary = Inr, Sum256 = (\<lambda>b. b)\<rparr>"

definition asset_demo_line :: TrustLineEntry where
  "asset_demo_line = \<lparr>tlAsset = PlainAsset (AssetTypeCreditAlphanum4 ''EUR'' ''GA''), tlFlags = 1, tlBalance = 100\<rparr>"

definition asset_demo_change :: change where
  "asset_demo_change = \<lparr>Type = LedgerEntryTypeTrustline, Pre = None, Post = Some (TrustLineData asset_demo_line)\<rparr>"

lemma asset_demo_api_ok: "api_ok asset_demo_api"
  unfolding api_ok_def
proof (intro conjI allI impI)
  fix a show "\<exists>k. Extract asset_demo_api a = Inr k" by (cases a) (simp_all add: asset_demo_api_def)
qed (simp add: asset_demo_api_def)

lemma asset_demo_holders: "holders asset_demo_api {#} k c < 2 ^ 31" "holders asset_demo_api {#TrustLineData asset_demo_line#} k c < 2 ^ 31"
  by (simp_all add: holders_def entry_sum_def asset_demo_line_def)

lemma asset_demo_after: "ledger_after asset_demo_api [asset_demo_change] {#} = Some {#TrustLineData asset_demo_line#}"
  by (simp add: asset_demo_change_def asset_demo_line_def change_ok_def entry_ok_def)

lemma asset_demo_ttl: "ttl_compacted 7 [asset_demo_change]"
  by (simp add: ttl_compacted_def ttl_key_def ttl_update_ok_def asset_demo_change_def List.map_filter_simps)

theorem asset_stats_track_ledger_witness:
  "\<exists>p. ProcessChanges asset_demo_api demo_sac [asset_demo_change] (NewAssetStatsProcessor False 7) = Inr p \<and>
    (\<forall>order. distinct order \<and> set order = dom (assetStatSet p) \<longrightarrow>
      (\<exists>t'. updateAssetStats (\<lambda>call k. None) (AssetStatSet_All order (assetStatSet p)) Map.empty = Inr t' \<and>
         represents t' (holders asset_demo_api {#TrustLineData asset_demo_line#}) (amount asset_demo_api {#TrustLineData asset_demo_line#})))"
  using asset_stats_track_ledger [OF asset_demo_api_ok asset_demo_after represents_empty asset_demo_holders asset_demo_ttl,
      of demo_sac False "\<lambda>call k. None"] by simp

end
