(* ===== verification/Contract_Stats_Props.thy ===== *)
theory Contract_Stats_Props
  imports Asset_Stats_Props
begin

text \<open>
  The statistics of a contract are an aggregate of the balances table: \<open>Commit\<close> changes both, from the same
  changes but through different statements, and keeps them in step. The proof goes through \<open>pending\<close>, the
  balances table as the deletions, updates and insertions collected so far would leave it.
\<close>

subsection \<open>Updates in batches\<close>

locale batched_update =
  fixes f :: "(string \<times> 'v) list \<Rightarrow> 't \<Rightarrow> 't"
  assumes no_values: "\<And>t. f [] t = t"
    and split: "\<And>xs ys t. distinct (map fst (xs @ ys)) \<Longrightarrow> f (xs @ ys) t = f ys (f xs t)"
begin

lemma one_statement: "distinct (map fst vs) \<Longrightarrow> in_batches f vs t = f vs t"
proof (induction "length vs" arbitrary: vs t rule: less_induct)
  case less
  show ?case
  proof (cases "vs = []")
    case True
    then show ?thesis using no_values [of t] by (simp add: in_batches.simps)
  next
    case False
    let ?a = "take maxUpdateBatchSize vs" and ?b = "drop maxUpdateBatchSize vs"
    have d: "distinct (map fst (?a @ ?b))" "distinct (map fst ?b)"
      using less.prems by (simp_all add: drop_map [symmetric] del: drop_map)
    have "in_batches f vs t = in_batches f ?b (f ?a t)" using False by (subst in_batches.simps) simp
    also have "\<dots> = f ?b (f ?a t)" using False d(2) by (intro less.hyps) (simp_all add: maxUpdateBatchSize_def)
    also have "\<dots> = f (?a @ ?b) t" using split [OF d(1)] by simp
    finally show ?thesis by simp
  qed
qed

lemma run: "distinct (map fst vs) \<Longrightarrow> run_batches fault f vs t = Inr (f vs t) \<or> (\<exists>e. fault = Some e \<and> run_batches fault f vs t = Inl e)"
  by (auto simp: run_batches_def one_statement no_values split: option.split)

end

lemma map_of_disjoint: "distinct (map fst (xs @ ys)) \<Longrightarrow> map_of xs k = Some v \<Longrightarrow> map_of ys k = None"
  by (auto simp: map_of_eq_None_iff dest!: map_of_SomeD) (metis disjoint_iff fst_conv image_eqI)

interpretation amounts: batched_update set_amounts
proof
  fix xs ys :: "(string \<times> string) list" and t assume d: "distinct (map fst (xs @ ys))"
  show "set_amounts (xs @ ys) t = set_amounts ys (set_amounts xs t)"
    using map_of_disjoint [OF d] by (auto simp: set_amounts_def map_add_def split: option.split)
qed (simp add: set_amounts_def)

interpretation expirations: batched_update set_expirations
proof
  fix xs ys :: "(string \<times> u32) list" and t assume d: "distinct (map fst (xs @ ys))"
  show "set_expirations (xs @ ys) t = set_expirations ys (set_expirations xs t)"
    using map_of_disjoint [OF d] by (auto simp: set_expirations_def map_add_def split: option.split)
qed (simp add: set_expirations_def)

interpretation contract_expirations: batched_update set_contract_expirations
proof
  fix xs ys :: "(string \<times> u32) list" and t assume d: "distinct (map fst (xs @ ys))"
  show "set_contract_expirations (xs @ ys) t = set_contract_expirations ys (set_contract_expirations xs t)"
    using map_of_disjoint [OF d] by (auto simp: set_contract_expirations_def map_add_def split: option.split)
qed (simp add: set_contract_expirations_def)

subsection \<open>The aggregate of a balances table\<close>

definition amount_of :: "ContractAssetBalance \<Rightarrow> int" where
  "amount_of r = the (Int_SetString (Amount r))"

definition total_of :: "ContractAssetBalance list \<Rightarrow> string \<Rightarrow> int" where
  "total_of t cid = (\<Sum>r\<leftarrow>t. if ContractID r = cid then amount_of r else 0)"

definition holders_of :: "ContractAssetBalance list \<Rightarrow> string \<Rightarrow> 32 word" where
  "holders_of t cid = (\<Sum>r\<leftarrow>t. if ContractID r = cid then 1 else 0)"

text \<open>The statistics table has a row for every contract with a balance, with its total and its count.\<close>

definition stats_agree :: "ContractAssetBalance list \<Rightarrow> contract_stats \<Rightarrow> bool" where
  "stats_agree t stats \<longleftrightarrow> (\<forall>cid. stats cid =
     (if holders_of t cid = 0 \<and> total_of t cid = 0 then None
      else Some \<lparr>ActiveBalance = Int_String (total_of t cid), ActiveHolders = holders_of t cid\<rparr>))"

definition balances_ok :: "ContractAssetBalance list \<Rightarrow> bool" where
  "balances_ok t \<longleftrightarrow> distinct (map KeyHash t) \<and> (\<forall>r\<in>set t. Int_SetString (Amount r) \<noteq> None)"

lemma aggregate_append [simp]:
  "total_of (xs @ ys) cid = total_of xs cid + total_of ys cid"
  "holders_of (xs @ ys) cid = holders_of xs cid + holders_of ys cid"
  by (simp_all add: total_of_def holders_of_def)

lemma aggregate_Cons [simp]:
  "total_of (r # t) cid = (if ContractID r = cid then amount_of r else 0) + total_of t cid"
  "holders_of (r # t) cid = (if ContractID r = cid then 1 else 0) + holders_of t cid"
  "total_of [] cid = 0" "holders_of [] cid = 0"
  by (simp_all add: total_of_def holders_of_def)

lemma aggregate_split:
  "total_of t cid = total_of (filter P t) cid + total_of (filter (\<lambda>r. \<not> P r) t) cid"
  "holders_of t cid = holders_of (filter P t) cid + holders_of (filter (\<lambda>r. \<not> P r) t) cid"
  by (induction t) simp_all

lemma filter_key:
  assumes "distinct (map KeyHash t)" "r \<in> set t"
  shows "filter (\<lambda>x. KeyHash x = KeyHash r) t = [r]"
  using assms
proof (induction t)
  case (Cons x t)
  show ?case
  proof (cases "x = r")
    case True
    then have "\<forall>y\<in>set t. KeyHash y \<noteq> KeyHash r" using Cons.prems(1) by (auto simp: image_iff)
    with True show ?thesis by (simp add: filter_empty_conv)
  next
    case False
    with Cons show ?thesis by (auto simp: image_iff)
  qed
qed simp

lemma aggregate_remove:
  assumes "distinct (map KeyHash t)" "r \<in> set t"
  shows "total_of (filter (\<lambda>x. KeyHash x \<noteq> KeyHash r) t) cid = total_of t cid - (if ContractID r = cid then amount_of r else 0)"
    and "holders_of (filter (\<lambda>x. KeyHash x \<noteq> KeyHash r) t) cid = holders_of t cid - (if ContractID r = cid then 1 else 0)"
  using aggregate_split [of t cid "\<lambda>x. KeyHash x = KeyHash r"] filter_key [OF assms] by auto

definition set_amount :: "string \<Rightarrow> int \<Rightarrow> ContractAssetBalance \<Rightarrow> ContractAssetBalance" where
  "set_amount k a r = (if KeyHash r = k then r\<lparr>Amount := Int_String a\<rparr> else r)"

lemma aggregate_set_amount:
  assumes "distinct (map KeyHash t)" "r \<in> set t"
  shows "total_of (map (set_amount (KeyHash r) a) t) cid = total_of t cid + (if ContractID r = cid then a - amount_of r else 0)"
    and "holders_of (map (set_amount (KeyHash r) a) t) cid = holders_of t cid"
proof -
  let ?u = "map (set_amount (KeyHash r) a) t"
  have other: "filter (\<lambda>x. KeyHash x \<noteq> KeyHash r) ?u = filter (\<lambda>x. KeyHash x \<noteq> KeyHash r) t"
    by (induction t) (auto simp: set_amount_def)
  have "filter (\<lambda>x. KeyHash x = KeyHash r) ?u = map (set_amount (KeyHash r) a) (filter (\<lambda>x. KeyHash x = KeyHash r) t)"
    by (induction t) (auto simp: set_amount_def)
  then have one: "filter (\<lambda>x. KeyHash x = KeyHash r) ?u = [r\<lparr>Amount := Int_String a\<rparr>]"
    by (simp add: filter_key [OF assms] set_amount_def)
  show "total_of ?u cid = total_of t cid + (if ContractID r = cid then a - amount_of r else 0)"
    using aggregate_split(1) [of ?u cid "\<lambda>x. KeyHash x = KeyHash r"] aggregate_remove(1) [OF assms, of cid] other one
    by (simp add: amount_of_def)
  show "holders_of ?u cid = holders_of t cid"
    using aggregate_split(2) [of ?u cid "\<lambda>x. KeyHash x = KeyHash r"] aggregate_remove(2) [OF assms, of cid] other one
    by simp
qed

subsection \<open>The statistics collected so far\<close>

definition dtotal :: "ContractAssetStatSet \<Rightarrow> string \<Rightarrow> int" where
  "dtotal s cid = activeBalance (getContractAssetStat cid s)"

definition dholders :: "ContractAssetStatSet \<Rightarrow> string \<Rightarrow> 32 word" where
  "dholders s cid = activeHolders (getContractAssetStat cid s)"

definition no_zero_stats :: "ContractAssetStatSet \<Rightarrow> bool" where
  "no_zero_stats s \<longleftrightarrow> (\<forall>cid v. contractAssetStats s cid = Some v \<longrightarrow> activeHolders v \<noteq> 0 \<or> activeBalance v \<noteq> 0)"

lemma adjust_adds:
  "dtotal (adjust cid h a s) c = dtotal s c + (if c = cid then a else 0)"
  "dholders (adjust cid h a s) c = dholders s c + (if c = cid then h else 0)"
  by (auto simp: dtotal_def dholders_def adjust_def maybeAddContractAssetStat_def getContractAssetStat_def Let_def
      split: option.split)

lemma adjust_no_zero: "no_zero_stats s \<Longrightarrow> no_zero_stats (adjust cid h a s)"
  by (auto simp: no_zero_stats_def adjust_def maybeAddContractAssetStat_def Let_def)

lemma adjust_dom: "dom (contractAssetStats (adjust cid h a s)) \<subseteq> insert cid (dom (contractAssetStats s))"
  by (auto simp: adjust_def maybeAddContractAssetStat_def Let_def)

lemma adjust_fields [simp]:
  "createdBalances (adjust cid h a s) = createdBalances s" "removedBalances (adjust cid h a s) = removedBalances s"
  "updatedBalances (adjust cid h a s) = updatedBalances s" "createdAssetContracts (adjust cid h a s) = createdAssetContracts s"
  "removedExpirationEntries (adjust cid h a s) = removedExpirationEntries s"
  "createdExpirationEntries (adjust cid h a s) = createdExpirationEntries s"
  "updatedExpirationEntries (adjust cid h a s) = updatedExpirationEntries s" "currentLedger (adjust cid h a s) = currentLedger s"
  by (simp_all add: adjust_def maybeAddContractAssetStat_def Let_def)

lemma dtotal_cong: "contractAssetStats s = contractAssetStats s' \<Longrightarrow> dtotal s = dtotal s' \<and> dholders s = dholders s'"
  by (simp add: dtotal_def dholders_def getContractAssetStat_def fun_eq_iff)

subsection \<open>The balances table the collected changes will leave\<close>

definition pending :: "ContractAssetBalance list \<Rightarrow> ContractAssetStatSet \<Rightarrow> ContractAssetBalance list" where
  "pending t s = map (\<lambda>r. case updatedBalances s (KeyHash r) of None \<Rightarrow> r | Some a \<Rightarrow> r\<lparr>Amount := Int_String a\<rparr>)
     (filter (\<lambda>r. KeyHash r \<notin> set (removedBalances s)) t) @ createdBalances s"

definition touched :: "ContractAssetStatSet \<Rightarrow> string set" where
  "touched s = set (removedBalances s) \<union> dom (updatedBalances s) \<union> KeyHash ` set (createdBalances s)"

lemma pending_adjust [simp]: "pending t (adjust cid h a s) = pending t s"
  by (simp add: pending_def)

lemma touched_adjust [simp]: "touched (adjust cid h a s) = touched s"
  by (simp add: touched_def)

lemma pending_removed:
  assumes "k \<notin> touched s"
  shows "pending t (s\<lparr>removedBalances := removedBalances s @ [k]\<rparr>) = filter (\<lambda>r. KeyHash r \<noteq> k) (pending t s)"
proof -
  have "filter (\<lambda>r. KeyHash r \<noteq> k) (createdBalances s) = createdBalances s"
    using assms by (auto simp: touched_def filter_id_conv)
  moreover have "filter (\<lambda>r. KeyHash r \<noteq> k) (map f (filter P t)) = map f (filter (\<lambda>r. KeyHash r \<noteq> k \<and> P r) t)"
    if "\<And>r. KeyHash (f r) = KeyHash r" for f :: "ContractAssetBalance \<Rightarrow> ContractAssetBalance" and P
    using that by (simp add: filter_map comp_def conj_commute)
  ultimately show ?thesis by (simp add: pending_def split: option.split)
qed

lemma pending_updated:
  assumes "k \<notin> touched s"
  shows "pending t (s\<lparr>updatedBalances := (updatedBalances s)(k \<mapsto> a)\<rparr>) = map (set_amount k a) (pending t s)"
proof -
  have "map (set_amount k a) (createdBalances s) = createdBalances s"
    using assms by (intro map_idI) (auto simp: touched_def set_amount_def)
  then show ?thesis using assms by (auto simp: pending_def set_amount_def touched_def split: option.split)
qed

lemma pending_created: "pending t (s\<lparr>createdBalances := createdBalances s @ [r]\<rparr>) = pending t s @ [r]"
  by (simp add: pending_def)

lemma pending_keys: "KeyHash ` set (pending t s) \<subseteq> KeyHash ` set t \<union> KeyHash ` set (createdBalances s)"
  by (auto simp: pending_def split: option.splits)

lemma pending_untouched: "r \<in> set t \<Longrightarrow> KeyHash r \<notin> touched s \<Longrightarrow> r \<in> set (pending t s)"
  by (auto simp: pending_def touched_def image_iff intro!: bexI [of _ r] split: option.split)

text \<open>The invariant while the changes are added.\<close>

definition tracks :: "ContractAssetBalance list \<Rightarrow> ContractAssetStatSet \<Rightarrow> bool" where
  "tracks t s \<longleftrightarrow> (\<forall>cid. total_of (pending t s) cid = total_of t cid + dtotal s cid) \<and>
     (\<forall>cid. holders_of (pending t s) cid = holders_of t cid + dholders s cid) \<and>
     balances_ok (pending t s) \<and> no_zero_stats s"

subsection \<open>Changes that fit the table\<close>

definition contract_entry :: "sac_api \<Rightarrow> string \<Rightarrow> LedgerEntry \<Rightarrow> bool" where
  "contract_entry sac k e \<longleftrightarrow> getKeyHash sac e = Inr k \<and> (\<exists>d. e = ContractData d)"

text \<open>The contract, the holder and the amount of a balance.\<close>

fun balance_of :: "sac_api \<Rightarrow> LedgerEntry \<Rightarrow> (string \<times> string \<times> int) option" where
  "balance_of sac (ContractData d) = (case cdContractId d of
       None \<Rightarrow> None
     | Some cid \<Rightarrow> map_option (\<lambda>(h, a). (cid, h, a)) (ContractBalanceFromContractData sac (ContractData d)))"
| "balance_of sac e = None"

definition in_table :: "ContractAssetBalance list \<Rightarrow> string \<Rightarrow> string \<Rightarrow> int \<Rightarrow> bool" where
  "in_table t k cid a \<longleftrightarrow> (\<exists>r\<in>set t. KeyHash r = k \<and> ContractID r = cid \<and> Int_SetString (Amount r) = Some a)"

text \<open>
  A created entry is not in the balances table. A removed entry that is in the table is a balance with
  that contract and amount, and was live until this ledger or later; one that is not in the table is no
  live balance. An entry whose amount changes is in the table with the amount it had.
\<close>

definition change_fits :: "sac_api \<Rightarrow> u32 \<Rightarrow> (string \<Rightarrow> u32 option) \<Rightarrow> ContractAssetBalance list \<Rightarrow> string \<Rightarrow> change \<Rightarrow> bool" where
  "change_fits sac ledger removed t k ch = (case (Pre ch, Post ch) of
       (None, None) \<Rightarrow> False
     | (None, Some post) \<Rightarrow> contract_entry sac k post \<and> k \<notin> KeyHash ` set t
     | (Some pre, None) \<Rightarrow> contract_entry sac k pre \<and>
         (if k \<in> KeyHash ` set t
          then (case balance_of sac pre of None \<Rightarrow> False | Some (cid, h, a) \<Rightarrow> in_table t k cid a) \<and>
               (case removed k of None \<Rightarrow> False | Some x \<Rightarrow> ledger \<le> x)
          else balance_of sac pre = None \<or> (case removed k of None \<Rightarrow> True | Some x \<Rightarrow> x < ledger))
     | (Some pre, Some post) \<Rightarrow> contract_entry sac k pre \<and> contract_entry sac k post \<and>
         (case (balance_of sac pre, ContractBalanceFromContractData sac post) of
            (Some (cid, h, a), Some (h', a')) \<Rightarrow> h' = h \<and> a' \<noteq> a \<longrightarrow> in_table t k cid a
          | _ \<Rightarrow> True))"

definition contract_ids :: "change \<Rightarrow> string set" where
  "contract_ids ch = {cid. \<exists>d. cdContractId d = Some cid \<and> (Pre ch = Some (ContractData d) \<or> Post ch = Some (ContractData d))}"

text \<open>What adding a change keeps: the environment of the set, and where its keys and contracts come from.\<close>

definition extends :: "string \<Rightarrow> string set \<Rightarrow> ContractAssetStatSet \<Rightarrow> ContractAssetStatSet \<Rightarrow> bool" where
  "extends k cids s s' \<longleftrightarrow> touched s' \<subseteq> insert k (touched s) \<and>
     dom (contractAssetStats s') \<subseteq> cids \<union> dom (contractAssetStats s) \<and>
     ContractID ` set (createdBalances s') \<subseteq> cids \<union> ContractID ` set (createdBalances s) \<and>
     (\<forall>r\<in>set (createdBalances s'). r \<in> set (createdBalances s) \<or> currentLedger s \<le> ExpirationLedger r) \<and>
     removedExpirationEntries s' = removedExpirationEntries s \<and> createdExpirationEntries s' = createdExpirationEntries s \<and>
     updatedExpirationEntries s' = updatedExpirationEntries s \<and> currentLedger s' = currentLedger s"

lemma extends_refl: "extends k cids s s"
  by (auto simp: extends_def)

lemma created_balance_tracks:
  assumes "tracks t s" "k \<notin> touched s" "contract_entry sac k post" "k \<notin> KeyHash ` set t"
  shows "\<exists>s'. created_balance sac post s = Inr s' \<and> tracks t s' \<and> extends k {cid. \<exists>d. post = ContractData d \<and> cdContractId d = Some cid} s s'"
proof -
  obtain d where d: "post = ContractData d" and k: "getKeyHash sac post = Inr k" using assms(3) by (auto simp: contract_entry_def)
  show ?thesis
  proof (cases "\<exists>cid h a x. cdContractId d = Some cid \<and> ContractBalanceFromContractData sac post = Some (h, a) \<and>
      createdExpirationEntries s k = Some x \<and> \<not> x < currentLedger s")
    case False
    then have "created_balance sac post s = Inr s" using d k by (auto simp: created_balance_def split: option.split)
    with assms(1) show ?thesis by (auto intro: extends_refl)
  next
    case True
    then obtain cid h a x where b: "cdContractId d = Some cid" "ContractBalanceFromContractData sac post = Some (h, a)"
      "createdExpirationEntries s k = Some x" "\<not> x < currentLedger s" by blast
    let ?r = "\<lparr>KeyHash = k, ContractID = cid, Amount = Int_String a, ExpirationLedger = x\<rparr>"
    let ?s = "s\<lparr>createdBalances := createdBalances s @ [?r]\<rparr>"
    have eq: "created_balance sac post s = Inr (adjust cid 1 a ?s)" using d k b by (simp add: created_balance_def)
    have same: "dtotal ?s = dtotal s" "dholders ?s = dholders s" using dtotal_cong [of ?s s] by simp_all
    have "k \<notin> KeyHash ` set (pending t s)" using pending_keys [of t s] assms(2,4) by (auto simp: touched_def)
    then have "tracks t (adjust cid 1 a ?s)"
      using assms(1) by (auto simp: tracks_def pending_created adjust_adds same amount_of_def balances_ok_def
          adjust_no_zero no_zero_stats_def [of ?s] no_zero_stats_def [of s])
    moreover have "extends k {cid. \<exists>d. post = ContractData d \<and> cdContractId d = Some cid} s (adjust cid 1 a ?s)"
      using adjust_dom [of cid 1 a ?s] d b by (auto simp: extends_def touched_def not_less)
    ultimately show ?thesis using eq by blast
  qed
qed

lemma removed_balance_tracks:
  assumes "tracks t s" "k \<notin> touched s"
    and "change_fits sac (currentLedger s) (removedExpirationEntries s) t k ch" "Pre ch = Some pre" "Post ch = None"
  shows "\<exists>s'. removed_balance sac pre s = Inr s' \<and> tracks t s' \<and> extends k (contract_ids ch) s s'"
proof -
  obtain d where d: "pre = ContractData d" and k: "getKeyHash sac pre = Inr k"
    using assms(3-5) by (auto simp: change_fits_def contract_entry_def)
  show ?thesis
  proof (cases "cdContractId d")
    case None
    then have "removed_balance sac pre s = Inr s" using d by (simp add: removed_balance_def)
    with assms(1) show ?thesis by (auto intro: extends_refl)
  next
    case (Some cid)
    let ?s = "s\<lparr>removedBalances := removedBalances s @ [k]\<rparr>"
    have same: "dtotal ?s = dtotal s" "dholders ?s = dholders s" using dtotal_cong [of ?s s] by simp_all
    have nz: "no_zero_stats ?s" using assms(1) by (simp add: tracks_def no_zero_stats_def)
    have ok: "balances_ok (pending t ?s)"
      using assms(1,2) by (auto simp: tracks_def balances_ok_def pending_removed distinct_map_filter)
    have cid: "cid \<in> contract_ids ch" using Some assms(4) d by (auto simp: contract_ids_def)
    have ext: "extends k (contract_ids ch) s ?s" "extends k (contract_ids ch) s (adjust cid h a ?s)" for h a
      using adjust_dom [of cid h a ?s] cid by (auto simp: extends_def touched_def)
    show ?thesis
    proof (cases "k \<in> KeyHash ` set t")
      case False
      then have "k \<notin> KeyHash ` set (pending t s)" using pending_keys [of t s] assms(2) by (auto simp: touched_def)
      then have "filter (\<lambda>r. KeyHash r \<noteq> k) (pending t s) = pending t s" by (auto simp: filter_id_conv)
      then have "tracks t ?s" using assms(1,2) ok nz by (simp add: tracks_def pending_removed same)
      moreover have "removed_balance sac pre s = Inr ?s"
        using False assms(3-5) d k Some by (auto simp: change_fits_def removed_balance_def Let_def split: option.splits)
      ultimately show ?thesis using ext by blast
    next
      case True
      then obtain h a x where b: "ContractBalanceFromContractData sac pre = Some (h, a)" "in_table t k cid a"
        "removedExpirationEntries s k = Some x" "\<not> x < currentLedger s"
        using assms(3-5) d Some by (auto simp: change_fits_def split: option.splits prod.splits)
      obtain r where r: "r \<in> set t" "KeyHash r = k" "ContractID r = cid" "Int_SetString (Amount r) = Some a"
        using b(2) by (auto simp: in_table_def)
      then have mem: "r \<in> set (pending t s)" using assms(2) by (intro pending_untouched) simp_all
      have dist: "distinct (map KeyHash (pending t s))" using assms(1) by (simp add: tracks_def balances_ok_def)
      have "tracks t (adjust cid (- 1) (- a) ?s)"
        using assms(1,2) ok aggregate_remove [OF dist mem] r(2-4) adjust_no_zero [OF nz]
        by (simp add: tracks_def pending_removed adjust_adds same amount_of_def)
      moreover have "removed_balance sac pre s = Inr (adjust cid (- 1) (- a) ?s)"
        using d k Some b by (simp add: removed_balance_def)
      ultimately show ?thesis using ext by blast
    qed
  qed
qed

lemma updated_balance_tracks:
  assumes "tracks t s" "k \<notin> touched s"
    and "change_fits sac (currentLedger s) (removedExpirationEntries s) t k ch" "Pre ch = Some pre" "Post ch = Some post"
  shows "\<exists>s'. updated_balance sac pre post s = Inr s' \<and> tracks t s' \<and> extends k (contract_ids ch) s s'"
proof -
  obtain d where d: "pre = ContractData d" and k: "getKeyHash sac post = Inr k"
    using assms(3-5) by (auto simp: change_fits_def contract_entry_def)
  show ?thesis
  proof (cases "\<exists>cid h a a'. cdContractId d = Some cid \<and> ContractBalanceFromContractData sac pre = Some (h, a) \<and>
      ContractBalanceFromContractData sac post = Some (h, a') \<and> a' \<noteq> a")
    case False
    then have "updated_balance sac pre post s = Inr s" using d by (auto simp: updated_balance_def split: option.split)
    with assms(1) show ?thesis by (auto intro: extends_refl)
  next
    case True
    then obtain cid h a a' where b: "cdContractId d = Some cid" "ContractBalanceFromContractData sac pre = Some (h, a)"
      "ContractBalanceFromContractData sac post = Some (h, a')" "a' \<noteq> a" by blast
    let ?s = "s\<lparr>updatedBalances := (updatedBalances s)(k \<mapsto> a')\<rparr>"
    have same: "dtotal ?s = dtotal s" "dholders ?s = dholders s" using dtotal_cong [of ?s s] by simp_all
    have nz: "no_zero_stats ?s" using assms(1) by (simp add: tracks_def no_zero_stats_def)
    have "in_table t k cid a" using assms(3-5) d b by (simp add: change_fits_def)
    then obtain r where r: "r \<in> set t" "KeyHash r = k" "ContractID r = cid" "Int_SetString (Amount r) = Some a"
      by (auto simp: in_table_def)
    then have mem: "r \<in> set (pending t s)" using assms(2) by (intro pending_untouched) simp_all
    have dist: "distinct (map KeyHash (pending t s))" using assms(1) by (simp add: tracks_def balances_ok_def)
    have key: "KeyHash \<circ> set_amount k a' = KeyHash" by (auto simp: set_amount_def fun_eq_iff)
    have ok: "balances_ok (pending t ?s)"
      using assms(1,2) by (auto simp: tracks_def balances_ok_def pending_updated key) (simp add: set_amount_def split: if_splits)
    have "tracks t (adjust cid 0 (a' - a) ?s)"
      using assms(1,2) ok aggregate_set_amount [OF dist mem, of a'] r(2-4) adjust_no_zero [OF nz]
      by (simp add: tracks_def pending_updated adjust_adds same amount_of_def)
    moreover have "updated_balance sac pre post s = Inr (adjust cid 0 (a' - a) ?s)"
      using d k b by (simp add: updated_balance_def)
    moreover have "extends k (contract_ids ch) s (adjust cid 0 (a' - a) ?s)"
      using adjust_dom [of cid 0 "a' - a" ?s] b(1) d assms(4) by (auto simp: extends_def touched_def contract_ids_def)
    ultimately show ?thesis by blast
  qed
qed

lemma ingestAssetContractMetadata_tracks:
  assumes "tracks t s" "change_fits sac (currentLedger s) (removedExpirationEntries s) t k ch"
  shows "\<exists>found s'. ingestAssetContractMetadata sac ch s = Inr (found, s') \<and> tracks t s' \<and> extends k (contract_ids ch) s s' \<and>
    (\<not> found \<longrightarrow> s' = s)"
proof -
  have "dtotal (s\<lparr>createdAssetContracts := cs\<rparr>) = dtotal s" "dholders (s\<lparr>createdAssetContracts := cs\<rparr>) = dholders s" for cs
    using dtotal_cong [of "s\<lparr>createdAssetContracts := cs\<rparr>" s] by simp_all
  then have "tracks t (s\<lparr>createdAssetContracts := cs\<rparr>)" for cs
    using assms(1) by (simp add: tracks_def pending_def no_zero_stats_def)
  moreover have "extends k (contract_ids ch) s (s\<lparr>createdAssetContracts := cs\<rparr>)" for cs
    by (auto simp: extends_def touched_def)
  ultimately show ?thesis
    using assms extends_refl [of k "contract_ids ch" s]
    by (cases "Pre ch"; cases "Post ch")
      (auto simp: ingestAssetContractMetadata_def change_fits_def contract_entry_def split: option.split)
qed

lemma extends_mono: "extends k A s s' \<Longrightarrow> A \<subseteq> B \<Longrightarrow> extends k B s s'"
  unfolding extends_def by blast

lemma AddContractData_tracks:
  assumes "tracks t s" "k \<notin> touched s" "change_fits sac (currentLedger s) (removedExpirationEntries s) t k ch"
  shows "\<exists>s'. AddContractData sac ch s = Inr s' \<and> tracks t s' \<and> extends k (contract_ids ch) s s'"
proof -
  obtain found s1 where m: "ingestAssetContractMetadata sac ch s = Inr (found, s1)" "tracks t s1" "extends k (contract_ids ch) s s1"
    "\<not> found \<longrightarrow> s1 = s" using ingestAssetContractMetadata_tracks [OF assms(1,3)] by blast
  show ?thesis
  proof (cases found)
    case True
    with m show ?thesis by (simp add: AddContractData_def)
  next
    case False
    then have eq: "AddContractData sac ch s = ingestContractAssetBalance sac ch s" using m by (simp add: AddContractData_def)
    show ?thesis
    proof (cases "Pre ch"; cases "Post ch")
      fix post assume c: "Pre ch = None" "Post ch = Some post"
      then have "contract_entry sac k post" "k \<notin> KeyHash ` set t" using assms(3) by (simp_all add: change_fits_def)
      from created_balance_tracks [OF assms(1,2) this] show ?thesis
        unfolding eq ingestContractAssetBalance_def using c by (fastforce intro: extends_mono simp: contract_ids_def)
    next
      fix pre assume "Pre ch = Some pre" "Post ch = None"
      then show ?thesis using removed_balance_tracks [OF assms] by (simp add: eq ingestContractAssetBalance_def)
    next
      fix pre post assume "Pre ch = Some pre" "Post ch = Some post"
      then show ?thesis using updated_balance_tracks [OF assms] by (simp add: eq ingestContractAssetBalance_def)
    next
      assume "Pre ch = None" "Post ch = None"
      then show ?thesis using assms(3) by (simp add: change_fits_def)
    qed
  qed
qed

lemma AddContractDatas_tracks:
  assumes "tracks t s" "length ks = length chs" "distinct ks" "touched s \<inter> set ks = {}"
    and "list_all2 (change_fits sac (currentLedger s) (removedExpirationEntries s) t) ks chs"
  shows "\<exists>s'. AddContractDatas sac chs s = Inr s' \<and> tracks t s' \<and>
    touched s' \<subseteq> set ks \<union> touched s \<and>
    dom (contractAssetStats s') \<subseteq> (\<Union>ch\<in>set chs. contract_ids ch) \<union> dom (contractAssetStats s) \<and>
    ContractID ` set (createdBalances s') \<subseteq> (\<Union>ch\<in>set chs. contract_ids ch) \<union> ContractID ` set (createdBalances s) \<and>
    (\<forall>r\<in>set (createdBalances s'). r \<in> set (createdBalances s) \<or> currentLedger s \<le> ExpirationLedger r) \<and>
    updatedExpirationEntries s' = updatedExpirationEntries s \<and> currentLedger s' = currentLedger s"
  using assms(2,1,3-)
proof (induction ks chs arbitrary: s rule: list_induct2)
  case Nil
  then show ?case by auto
next
  case (Cons k ks ch chs)
  obtain s1 where s1: "AddContractData sac ch s = Inr s1" "tracks t s1" "extends k (contract_ids ch) s s1"
    using AddContractData_tracks [of t s k sac ch] Cons.prems by auto
  have "touched s1 \<inter> set ks = {}" using s1(3) Cons.prems(2,3) by (auto simp: extends_def)
  moreover have "list_all2 (change_fits sac (currentLedger s1) (removedExpirationEntries s1) t) ks chs"
    using s1(3) Cons.prems(4) by (simp add: extends_def)
  ultimately obtain s2 where s2: "AddContractDatas sac chs s1 = Inr s2" "tracks t s2" "touched s2 \<subseteq> set ks \<union> touched s1"
    "dom (contractAssetStats s2) \<subseteq> (\<Union>ch\<in>set chs. contract_ids ch) \<union> dom (contractAssetStats s1)"
    "ContractID ` set (createdBalances s2) \<subseteq> (\<Union>ch\<in>set chs. contract_ids ch) \<union> ContractID ` set (createdBalances s1)"
    "\<forall>r\<in>set (createdBalances s2). r \<in> set (createdBalances s1) \<or> currentLedger s1 \<le> ExpirationLedger r"
    "updatedExpirationEntries s2 = updatedExpirationEntries s1" "currentLedger s2 = currentLedger s1"
    using Cons.IH [of s1] s1(2) Cons.prems(2) by auto
  have e: "touched s1 \<subseteq> insert k (touched s)" "dom (contractAssetStats s1) \<subseteq> contract_ids ch \<union> dom (contractAssetStats s)"
    "ContractID ` set (createdBalances s1) \<subseteq> contract_ids ch \<union> ContractID ` set (createdBalances s)"
    "\<forall>r\<in>set (createdBalances s1). r \<in> set (createdBalances s) \<or> currentLedger s \<le> ExpirationLedger r"
    "updatedExpirationEntries s1 = updatedExpirationEntries s" "currentLedger s1 = currentLedger s"
    using s1(3) by (auto simp: extends_def)
  show ?case
  proof (intro exI [of _ s2] conjI)
    show "AddContractDatas sac (ch # chs) s = Inr s2" using s1(1) s2(1) by simp
    show "\<forall>r\<in>set (createdBalances s2). r \<in> set (createdBalances s) \<or> currentLedger s \<le> ExpirationLedger r"
      using s2(6) e(4,6) by auto
    show "touched s2 \<subseteq> set (k # ks) \<union> touched s" using s2(3) e(1) by simp blast
    show "dom (contractAssetStats s2) \<subseteq> (\<Union>ch\<in>set (ch # chs). contract_ids ch) \<union> dom (contractAssetStats s)"
      using s2(4) e(2) by simp blast
    show "ContractID ` set (createdBalances s2) \<subseteq> (\<Union>ch\<in>set (ch # chs). contract_ids ch) \<union> ContractID ` set (createdBalances s)"
      using s2(5) e(3) by simp blast
  qed (use s2(2,7,8) e(5,6) in simp_all)
qed

subsection \<open>Writing to the tables\<close>

definition stat_row :: "32 word \<Rightarrow> int \<Rightarrow> ContractStat option" where
  "stat_row n b = (if n = 0 \<and> b = 0 then None else Some \<lparr>ActiveBalance = Int_String b, ActiveHolders = n\<rparr>)"

lemma stats_agree_iff: "stats_agree t stats \<longleftrightarrow> (\<forall>cid. stats cid = stat_row (holders_of t cid) (total_of t cid))"
  by (simp add: stats_agree_def stat_row_def)

lemma updateAssetContractStats_step:
  assumes "t cid = stat_row n b" "activeHolders d \<noteq> 0 \<or> activeBalance d \<noteq> 0"
  shows "updateAssetContractStats flt cid d t = Inr (t(cid := stat_row (n + activeHolders d) (b + activeBalance d))) \<or>
    (\<exists>call e m. flt call = Some e \<and> updateAssetContractStats flt cid d t = Inl (WrapError m e))"
proof (cases "n = 0 \<and> b = 0")
  case True
  with assms show ?thesis
    by (auto simp: updateAssetContractStats_def stat_row_def ConvertToContractStat_def exactly_one_def
        InsertContractAssetStat_def split: option.split)
next
  case False
  with assms(1) show ?thesis
    by (auto simp: updateAssetContractStats_def stat_row_def addContractAssetStat_def exactly_one_def Int_String_zero
        RemoveAssetContractStat_def UpdateContractAssetStat_def split: option.split)
qed

lemma updateContractAssetStats_all:
  assumes "distinct order" "\<forall>cid v. stats cid = Some v \<longrightarrow> activeHolders v \<noteq> 0 \<or> activeBalance v \<noteq> 0"
    and "\<forall>cid. t cid = stat_row (n cid) (b cid)"
  shows "(\<exists>t'. updateContractAssetStats flt order stats t = Inr t' \<and>
      (\<forall>cid. t' cid = (if cid \<in> set order then (case stats cid of None \<Rightarrow> t cid
          | Some d \<Rightarrow> stat_row (n cid + activeHolders d) (b cid + activeBalance d)) else t cid))) \<or>
    (\<exists>call e m. flt call = Some e \<and> updateContractAssetStats flt order stats t = Inl (WrapError m e))"
  using assms(1,3)
proof (induction order arbitrary: t n b)
  case (Cons cid order)
  show ?case
  proof (cases "stats cid")
    case None
    with Cons.IH [of t n b] Cons.prems show ?thesis by auto
  next
    case (Some d)
    let ?n = "n(cid := n cid + activeHolders d)" and ?b = "b(cid := b cid + activeBalance d)"
    let ?t = "t(cid := stat_row (?n cid) (?b cid))"
    have "activeHolders d \<noteq> 0 \<or> activeBalance d \<noteq> 0" using assms(2) Some by simp
    then consider "updateAssetContractStats flt cid d t = Inr ?t"
      | "\<exists>call e m. flt call = Some e \<and> updateAssetContractStats flt cid d t = Inl (WrapError m e)"
      using updateAssetContractStats_step [of t cid "n cid" "b cid" d flt] Cons.prems(2) by auto
    then show ?thesis
    proof cases
      case 1
      have "\<forall>c. ?t c = stat_row (?n c) (?b c)" using Cons.prems(2) by simp
      moreover have "distinct order" using Cons.prems(1) by simp
      ultimately have "(\<exists>t'. updateContractAssetStats flt order stats ?t = Inr t' \<and>
          (\<forall>c. t' c = (if c \<in> set order then (case stats c of None \<Rightarrow> ?t c
             | Some d \<Rightarrow> stat_row (?n c + activeHolders d) (?b c + activeBalance d)) else ?t c))) \<or>
        (\<exists>call e m. flt call = Some e \<and> updateContractAssetStats flt order stats ?t = Inl (WrapError m e))"
        by (intro Cons.IH)
      then show ?thesis
      proof (elim disjE exE conjE)
        fix t' assume t': "updateContractAssetStats flt order stats ?t = Inr t'"
          "\<forall>c. t' c = (if c \<in> set order then (case stats c of None \<Rightarrow> ?t c
             | Some d \<Rightarrow> stat_row (?n c + activeHolders d) (?b c + activeBalance d)) else ?t c)"
        have "t' c = (if c \<in> set (cid # order) then (case stats c of None \<Rightarrow> t c
             | Some d \<Rightarrow> stat_row (n c + activeHolders d) (b c + activeBalance d)) else t c)" for c
          using t'(2) [rule_format, of c] Some Cons.prems(1) by (auto split: option.split)
        with t'(1) show ?thesis using 1 Some by auto
      qed (use 1 Some in \<open>auto\<close>)
    next
      case 2
      with Some show ?thesis by auto
    qed
  qed
qed simp

lemma expire_rows_tracks:
  assumes "\<forall>r\<in>set rows. updatedExpirationEntries s (KeyHash r) = None \<and> Int_SetString (Amount r) \<noteq> None" "no_zero_stats s"
  shows "\<exists>s'. expire_rows rows s = Inr s' \<and> no_zero_stats s' \<and>
    (\<forall>cid. dtotal s' cid = dtotal s cid - total_of rows cid \<and> dholders s' cid = dholders s cid - holders_of rows cid) \<and>
    dom (contractAssetStats s') \<subseteq> ContractID ` set rows \<union> dom (contractAssetStats s)"
  using assms
proof (induction rows arbitrary: s)
  case (Cons r rows)
  obtain a where a: "Int_SetString (Amount r) = Some a" "updatedExpirationEntries s (KeyHash r) = None" using Cons.prems(1) by auto
  let ?s = "adjust (ContractID r) (- 1) (- a) s"
  obtain s' where s': "expire_rows rows ?s = Inr s'" "no_zero_stats s'"
    "\<forall>cid. dtotal s' cid = dtotal ?s cid - total_of rows cid \<and> dholders s' cid = dholders ?s cid - holders_of rows cid"
    "dom (contractAssetStats s') \<subseteq> ContractID ` set rows \<union> dom (contractAssetStats ?s)"
    using Cons.IH [of ?s] Cons.prems adjust_no_zero by auto
  have "dom (contractAssetStats s') \<subseteq> ContractID ` set (r # rows) \<union> dom (contractAssetStats s)"
    using s'(4) adjust_dom [of "ContractID r" "- 1" "- a" s] by (simp add: subset_iff) blast
  moreover have "expire_rows (r # rows) s = Inr s'" using a s'(1) by simp
  ultimately show ?case using s'(2,3) a by (intro exI [of _ s']) (auto simp: adjust_adds amount_of_def)
qed simp

lemma set_expirations_keeps:
  "map KeyHash (set_expirations vs t) = map KeyHash t" "total_of (set_expirations vs t) cid = total_of t cid"
  "holders_of (set_expirations vs t) cid = holders_of t cid" "map Amount (set_expirations vs t) = map Amount t"
  "map ContractID (set_expirations vs t) = map ContractID t"
  by (induction t) (auto simp: set_expirations_def amount_of_def split: option.split)

lemma set_expirations_updated:
  "r \<in> set (set_expirations vs t) \<Longrightarrow> map_of vs (KeyHash r) = Some x \<Longrightarrow> ExpirationLedger r = x"
  by (auto simp: set_expirations_def split: option.splits)

lemma balances_ok_set_expirations: "balances_ok t \<Longrightarrow> balances_ok (set_expirations vs t)"
proof -
  assume ok: "balances_ok t"
  have "Amount ` set (set_expirations vs t) = Amount ` set t"
    using arg_cong [OF set_expirations_keeps(4), of set vs t] by simp
  with ok show ?thesis unfolding balances_ok_def set_expirations_keeps(1) by (metis imageE imageI)
qed

text \<open>The invariant of the processor that the updates of expirations rely on.\<close>

lemma addExpirationChange_future:
  assumes "addExpirationChange ch p = Inr p'" "\<forall>k x y. p_updated p k = Some (x, y) \<longrightarrow> p_currentLedger p \<le> y"
  shows "p_currentLedger p' = p_currentLedger p \<and> ingestFromHistoryArchive p' = ingestFromHistoryArchive p \<and>
    (\<forall>k x y. p_updated p' k = Some (x, y) \<longrightarrow> p_currentLedger p' \<le> y)"
  using assms by (auto simp: addExpirationChange_def not_less split: sum.splits option.splits if_splits prod.splits)

lemma ProcessChanges_future:
  assumes "ProcessChanges api sac chs p = Inr p'" "\<forall>k x y. p_updated p k = Some (x, y) \<longrightarrow> p_currentLedger p \<le> y"
  shows "p_currentLedger p' = p_currentLedger p \<and> ingestFromHistoryArchive p' = ingestFromHistoryArchive p \<and>
    (\<forall>k x y. p_updated p' k = Some (x, y) \<longrightarrow> p_currentLedger p' \<le> y)"
  using assms
proof (induction chs arbitrary: p)
  case (Cons ch chs)
  then obtain p1 where p1: "ProcessChange api sac ch p = Inr p1" "ProcessChanges api sac chs p1 = Inr p'"
    by (auto split: sum.splits)
  have "p_currentLedger p1 = p_currentLedger p \<and> ingestFromHistoryArchive p1 = ingestFromHistoryArchive p \<and>
    (\<forall>k x y. p_updated p1 k = Some (x, y) \<longrightarrow> p_currentLedger p1 \<le> y)"
  proof (cases "Type ch = LedgerEntryTypeTtl")
    case True
    then have "addExpirationChange ch p = Inr p1" using p1(1) by (simp add: ProcessChange_def)
    from addExpirationChange_future [OF this Cons.prems(2)] show ?thesis .
  next
    case False
    then show ?thesis using p1(1) Cons.prems(2)
      by (cases "Type ch") (auto simp: ProcessChange_def with_set_def keepContractData_def split: sum.splits option.splits if_splits)
  qed
  note e = this
  from Cons.IH [OF p1(2) conjunct2 [OF conjunct2 [OF e]]] e show ?case by metis
qed simp

text \<open>The orders visit every key: those of the changes, of the updated expirations, and of the contracts.\<close>

definition orders_cover :: "map_orders \<Rightarrow> string list \<Rightarrow> AssetStatsProcessor \<Rightarrow> stats_db \<Rightarrow> bool" where
  "orders_cover ord ks p db \<longleftrightarrow> distinct (amount_order ord) \<and> set ks \<subseteq> set (amount_order ord) \<and>
     distinct (expiration_order ord) \<and> dom (p_updated p) \<subseteq> set (expiration_order ord) \<and>
     distinct (contract_order ord) \<and>
     ContractID ` set (contract_asset_balances db) \<union> (\<Union>ch\<in>set (contractDataChanges p). contract_ids ch) \<subseteq> set (contract_order ord)"

text \<open>The asset contracts created in the ledger can be inserted.\<close>

definition contracts_fit :: "asset_api \<Rightarrow> sac_api \<Rightarrow> AssetStatsProcessor \<Rightarrow> stats_db \<Rightarrow> bool" where
  "contracts_fit api sac p db \<longleftrightarrow> (\<forall>s. AddContractDatas sac (contractDataChanges p)
       (NewContractAssetStatSet (p_removed p) (p_created p) (p_updated p) (p_currentLedger p)) = Inr s \<longrightarrow>
     (\<exists>rows contracts. GetCreatedAssetContracts api sac s = Inr rows \<and>
        InsertAssetContracts (\<lambda>call. None) rows (asset_contracts db) = Inr contracts))"

definition faulty :: "faults \<Rightarrow> stats_error + 'a \<Rightarrow> bool" where
  "faulty flt r \<longleftrightarrow> (\<exists>call e m. flt call = Some e \<and> r = Inl (WrapError m e))"

text \<open>A stage of a computation that does not fail gives its result.\<close>

lemma stage:
  assumes "x = Inr v \<or> faulty flt x" "\<not> faulty flt r" "\<And>e. x = Inl e \<Longrightarrow> r = Inl e"
  shows "x = Inr v"
  using assms by (auto simp: faulty_def)

lemma stage_ex:
  assumes "(\<exists>v. x = Inr v \<and> P v) \<or> faulty flt x" "\<not> faulty flt r" "\<And>e. x = Inl e \<Longrightarrow> r = Inl e"
  shows "\<exists>v. x = Inr v \<and> P v"
  using assms unfolding faulty_def by blast

lemma InsertAssetContracts_ok:
  assumes "InsertAssetContracts (\<lambda>call. None) rows t = Inr t'"
  shows "wrap m (InsertAssetContracts flt rows t) = Inr t' \<or> faulty flt (wrap m (InsertAssetContracts flt rows t))"
  using assms by (auto simp: InsertAssetContracts_def wrap_def faulty_def split: option.split if_splits)

lemma Remove_ok:
  "wrap m (RemoveContractAssetBalances flt keys t) = Inr (filter (\<lambda>r. KeyHash r \<notin> set keys) t) \<or>
   faulty flt (wrap m (RemoveContractAssetBalances flt keys t))"
  by (auto simp: RemoveContractAssetBalances_def wrap_def faulty_def split: option.split)

lemma Insert_ok:
  assumes "distinct (map KeyHash (t @ rows))"
  shows "wrap m (InsertContractAssetBalances flt rows t) = Inr (t @ rows) \<or> faulty flt (wrap m (InsertContractAssetBalances flt rows t))"
  using assms by (auto simp: InsertContractAssetBalances_def wrap_def faulty_def split: option.split)

lemma DeleteContracts_ok:
  "wrap m (DeleteAssetContractsExpiringAt flt ledger t) = Inr (filter (\<lambda>r. acExpirationLedger r \<noteq> ledger) t) \<or>
   faulty flt (wrap m (DeleteAssetContractsExpiringAt flt ledger t))"
  by (auto simp: DeleteAssetContractsExpiringAt_def wrap_def faulty_def split: option.split)

lemma visited: "distinct order \<Longrightarrow> distinct (map fst (zip (filter P order) (map f (filter P order))))"
  by simp

lemma map_of_visited:
  assumes "dom u \<subseteq> set order"
  shows "map_of (zip (filter (\<lambda>k. u k \<noteq> None) order) (map (\<lambda>k. f (the (u k))) (filter (\<lambda>k. u k \<noteq> None) order))) k = map_option f (u k)"
  using assms by (auto simp: map_of_zip_map domIff split: option.split)

lemma updateAmounts_ok:
  assumes "distinct order" "dom u \<subseteq> set order"
  shows "updateContractAssetBalanceAmounts flt order u t =
      Inr (map (\<lambda>r. case u (KeyHash r) of None \<Rightarrow> r | Some a \<Rightarrow> r\<lparr>Amount := Int_String a\<rparr>) t) \<or>
    faulty flt (updateContractAssetBalanceAmounts flt order u t)"
proof -
  have "set_amounts (zip (filter (\<lambda>k. u k \<noteq> None) order) (map (\<lambda>k. Int_String (the (u k))) (filter (\<lambda>k. u k \<noteq> None) order))) t =
      map (\<lambda>r. case u (KeyHash r) of None \<Rightarrow> r | Some a \<Rightarrow> r\<lparr>Amount := Int_String a\<rparr>) t"
    unfolding set_amounts_def map_of_visited [OF assms(2)] by (simp split: option.split)
  with amounts.run [OF visited [OF assms(1), of "\<lambda>k. u k \<noteq> None" "\<lambda>k. Int_String (the (u k))"],
      of "flt UpdateContractAssetBalanceAmountsCall" t]
  show ?thesis
    by (auto simp: updateContractAssetBalanceAmounts_def UpdateContractAssetBalanceAmounts_def Let_def wrap_def faulty_def)
qed

lemma updateExpirations_ok:
  assumes "distinct order" "dom u \<subseteq> set order"
  shows "(\<exists>v. updateContractDataExpirations flt order u t contracts = Inr v \<and>
      (\<exists>vs. fst v = set_expirations vs t \<and> (\<forall>k. map_of vs k = map_option snd (u k)))) \<or>
    faulty flt (updateContractDataExpirations flt order u t contracts)"
proof -
  let ?vs = "zip (filter (\<lambda>k. u k \<noteq> None) order) (map (\<lambda>k. snd (the (u k))) (filter (\<lambda>k. u k \<noteq> None) order))"
  have d: "distinct (map fst ?vs)" by (rule visited [OF assms(1)])
  have "\<forall>k. map_of ?vs k = map_option snd (u k)" using map_of_visited [OF assms(2)] by blast
  then show ?thesis
    using expirations.run [OF d, of "flt UpdateContractAssetBalanceExpirationsCall" t]
      contract_expirations.run [OF d, of "flt UpdateAssetContractExpirationsCall" contracts]
    by (auto simp: updateContractDataExpirations_def UpdateContractAssetBalanceExpirations_def
        UpdateAssetContractExpirations_def Let_def wrap_def faulty_def)
qed

lemma ingestExpired_ok:
  assumes "balances_ok t" "currentLedger s = ledger" "0 < ledger" "no_zero_stats s"
    and "\<forall>r\<in>set t. updatedExpirationEntries s (KeyHash r) \<noteq> None \<longrightarrow> ledger \<le> ExpirationLedger r"
  shows "(\<exists>v. ingestExpiredBalances flt t s = Inr v \<and>
      fst v = filter (\<lambda>r. ExpirationLedger r \<noteq> ledger - 1) t \<and> no_zero_stats (snd v) \<and>
      (\<forall>cid. total_of (fst v) cid = total_of t cid - dtotal s cid + dtotal (snd v) cid \<and>
         holders_of (fst v) cid = holders_of t cid - dholders s cid + dholders (snd v) cid) \<and>
      dom (contractAssetStats (snd v)) \<subseteq> ContractID ` set t \<union> dom (contractAssetStats s)) \<or>
    faulty flt (ingestExpiredBalances flt t s)"
proof -
  let ?e = "filter (\<lambda>r. ExpirationLedger r = ledger - 1) t"
  have "ledger \<noteq> 0" using assms(3) by blast
  then have "ledger - 1 < ledger" unfolding word_less_nat_alt by (rule measure_unat)
  then have "\<not> ledger \<le> ExpirationLedger r" if "r \<in> set ?e" for r using that by (simp add: not_le)
  then have "\<forall>r\<in>set ?e. updatedExpirationEntries s (KeyHash r) = None" using assms(5) by (metis (no_types, lifting) filter_is_subset subsetD)
  then have "\<forall>r\<in>set ?e. updatedExpirationEntries s (KeyHash r) = None \<and> Int_SetString (Amount r) \<noteq> None"
    using assms(1) by (auto simp: balances_ok_def)
  from expire_rows_tracks [OF this assms(4)] obtain s' where s': "expire_rows ?e s = Inr s'" "no_zero_stats s'"
    "\<forall>cid. dtotal s' cid = dtotal s cid - total_of ?e cid \<and> dholders s' cid = dholders s cid - holders_of ?e cid"
    "dom (contractAssetStats s') \<subseteq> ContractID ` set ?e \<union> dom (contractAssetStats s)" by blast
  show ?thesis
  proof (cases "flt DeleteContractAssetBalancesExpiringAtCall")
    case None
    then have "ingestExpiredBalances flt t s = Inr (filter (\<lambda>r. ExpirationLedger r \<noteq> ledger - 1) t, s')"
      using s'(1) by (simp add: ingestExpiredBalances_def DeleteContractAssetBalancesExpiringAt_def assms(2))
    moreover have "dom (contractAssetStats s') \<subseteq> ContractID ` set t \<union> dom (contractAssetStats s)" using s'(4) by auto
    ultimately show ?thesis
      using s'(2,3) aggregate_split [of t _ "\<lambda>r. ExpirationLedger r = ledger - 1"] by simp
  qed (auto simp: ingestExpiredBalances_def DeleteContractAssetBalancesExpiringAt_def faulty_def)
qed

lemma covered: "D \<subseteq> A \<union> B \<Longrightarrow> A \<subseteq> T \<union> C \<Longrightarrow> C \<subseteq> U \<Longrightarrow> B \<subseteq> U \<Longrightarrow> T \<union> U \<subseteq> S \<Longrightarrow> D \<subseteq> S"
  by blast

lemma updateStats_ok:
  assumes "stats_agree t stats" "no_zero_stats s" "distinct order" "dom (contractAssetStats s) \<subseteq> set order"
    and "\<forall>cid. total_of t' cid = total_of t cid + dtotal s cid \<and> holders_of t' cid = holders_of t cid + dholders s cid"
  shows "(\<exists>stats'. updateContractAssetStats flt order (contractAssetStats s) stats = Inr stats' \<and> stats_agree t' stats') \<or>
    faulty flt (updateContractAssetStats flt order (contractAssetStats s) stats)"
proof -
  have a: "\<forall>cid. stats cid = stat_row (holders_of t cid) (total_of t cid)" using assms(1) by (simp add: stats_agree_iff)
  have z: "\<forall>cid v. contractAssetStats s cid = Some v \<longrightarrow> activeHolders v \<noteq> 0 \<or> activeBalance v \<noteq> 0"
    using assms(2) by (simp add: no_zero_stats_def)
  have "(if cid \<in> set order then (case contractAssetStats s cid of None \<Rightarrow> stats cid
      | Some d \<Rightarrow> stat_row (holders_of t cid + activeHolders d) (total_of t cid + activeBalance d)) else stats cid) =
      stat_row (holders_of t' cid) (total_of t' cid)" for cid
    using assms(4) assms(5) [rule_format, of cid] a
    by (cases "contractAssetStats s cid") (auto simp: dtotal_def dholders_def getContractAssetStat_def)
  then show ?thesis
    using updateContractAssetStats_all [OF assms(3) z a, of flt] by (auto simp: stats_agree_iff faulty_def)
qed

text \<open>\<open>updateDB\<close> from the collection of the expired balances on.\<close>

definition updateDB_rest :: "faults \<Rightarrow> map_orders \<Rightarrow> AssetStatsProcessor \<Rightarrow> ContractAssetStatSet \<Rightarrow> stats_db \<Rightarrow> stats_table \<Rightarrow>
    ContractAssetBalance list \<times> AssetContract list \<Rightarrow> stats_error + stats_db" where
  "updateDB_rest flt ord p s db t b = (case ingestExpiredBalances flt (fst b) s of
       Inl e \<Rightarrow> Inl e
     | Inr (bal5, s') \<Rightarrow> (case wrap ''Error fetching contract asset balances''
           (DeleteAssetContractsExpiringAt flt (p_currentLedger p - 1) (snd b)) of
         Inl e \<Rightarrow> Inl e
       | Inr contracts3 \<Rightarrow> (case updateContractAssetStats flt (contract_order ord) (contractAssetStats s')
             (contract_asset_stats db) of
           Inl e \<Rightarrow> Inl e
         | Inr stats \<Rightarrow> Inr \<lparr>exp_asset_stats = t, asset_contracts = contracts3, contract_asset_balances = bal5,
             contract_asset_stats = stats\<rparr>)))"

lemma updateDB_first:
  assumes "\<not> ingestFromHistoryArchive p" "\<not> faulty flt (updateDB flt api sac ord p s db)"
    and "updateAssetStats (\<lambda>call key. flt (ClassicCall call key))
      (AssetStatSet_All (asset_order ord) (assetStatSet p)) (exp_asset_stats db) = Inr t"
    and "GetCreatedAssetContracts api sac s = Inr rows" "InsertAssetContracts (\<lambda>call. None) rows (asset_contracts db) = Inr contracts"
    and "distinct (amount_order ord)" "dom (updatedBalances s) \<subseteq> set (amount_order ord)"
    and "distinct (expiration_order ord)" "dom (p_updated p) \<subseteq> set (expiration_order ord)"
    and "balances_ok (pending (contract_asset_balances db) s)"
  shows "\<exists>b vs. updateDB flt api sac ord p s db = updateDB_rest flt ord p s db t b \<and>
    fst b = set_expirations vs (pending (contract_asset_balances db) s) \<and> (\<forall>k. map_of vs k = map_option snd (p_updated p k))"
proof -
  let ?T = "contract_asset_balances db"
  let ?b1 = "filter (\<lambda>r. KeyHash r \<notin> set (removedBalances s)) ?T"
  let ?b2 = "map (\<lambda>r. case updatedBalances s (KeyHash r) of None \<Rightarrow> r | Some a \<Rightarrow> r\<lparr>Amount := Int_String a\<rparr>) ?b1"
  have b3: "?b2 @ createdBalances s = pending ?T s" by (simp add: pending_def)
  note run = updateDB_def assms(1,3,4)
  have i1: "wrap ''Error inserting asset contracts'' (InsertAssetContracts flt rows (asset_contracts db)) = Inr contracts"
    by (rule stage [OF InsertAssetContracts_ok [OF assms(5)] assms(2)]) (simp add: run)
  have i2: "wrap ''Error removing contract asset balances'' (RemoveContractAssetBalances flt (removedBalances s) ?T) = Inr ?b1"
    by (rule stage [OF Remove_ok assms(2)]) (simp add: run i1)
  have i3: "updateContractAssetBalanceAmounts flt (amount_order ord) (updatedBalances s) ?b1 = Inr ?b2"
    by (rule stage [OF updateAmounts_ok [OF assms(6,7)] assms(2)]) (simp add: run i1 i2)
  have i4: "wrap ''Error inserting contract asset balances'' (InsertContractAssetBalances flt (createdBalances s) ?b2) = Inr (pending ?T s)"
    by (rule stage [OF Insert_ok [of ?b2 "createdBalances s", unfolded b3] assms(2)])
      (use assms(10) in \<open>simp_all add: run i1 i2 i3 balances_ok_def\<close>)
  have "\<exists>b. updateContractDataExpirations flt (expiration_order ord) (p_updated p) (pending ?T s) contracts = Inr b \<and>
      (\<exists>vs. fst b = set_expirations vs (pending ?T s) \<and> (\<forall>k. map_of vs k = map_option snd (p_updated p k)))"
    by (rule stage_ex [OF updateExpirations_ok [OF assms(8,9)] assms(2)]) (simp add: run i1 i2 i3 i4)
  then obtain b vs where i5: "updateContractDataExpirations flt (expiration_order ord) (p_updated p) (pending ?T s) contracts = Inr b"
    and vs: "fst b = set_expirations vs (pending ?T s)" "\<forall>k. map_of vs k = map_option snd (p_updated p k)" by blast
  have "updateDB flt api sac ord p s db = updateDB_rest flt ord p s db t b"
    by (simp add: run i1 i2 i3 i4 i5 updateDB_rest_def split_beta)
  with vs show ?thesis by blast
qed

lemma updateDB_second:
  assumes "\<not> faulty flt (updateDB_rest flt ord p s db t b)" "p_currentLedger p = ledger" "currentLedger s = ledger" "0 < ledger"
    and "balances_ok (fst b)" "no_zero_stats s" "stats_agree T (contract_asset_stats db)"
    and "\<forall>r\<in>set (fst b). updatedExpirationEntries s (KeyHash r) \<noteq> None \<longrightarrow> ledger \<le> ExpirationLedger r"
    and "\<forall>cid. total_of (fst b) cid = total_of T cid + dtotal s cid" "\<forall>cid. holders_of (fst b) cid = holders_of T cid + dholders s cid"
    and "distinct (contract_order ord)" "ContractID ` set (fst b) \<union> dom (contractAssetStats s) \<subseteq> set (contract_order ord)"
  shows "\<exists>db'. updateDB_rest flt ord p s db t b = Inr db' \<and> exp_asset_stats db' = t \<and>
    stats_agree (contract_asset_balances db') (contract_asset_stats db') \<and> balances_ok (contract_asset_balances db') \<and>
    (\<forall>r\<in>set (contract_asset_balances db'). ExpirationLedger r \<noteq> ledger - 1)"
proof -
  have "\<exists>v. ingestExpiredBalances flt (fst b) s = Inr v \<and>
      fst v = filter (\<lambda>r. ExpirationLedger r \<noteq> ledger - 1) (fst b) \<and> no_zero_stats (snd v) \<and>
      (\<forall>cid. total_of (fst v) cid = total_of (fst b) cid - dtotal s cid + dtotal (snd v) cid \<and>
         holders_of (fst v) cid = holders_of (fst b) cid - dholders s cid + dholders (snd v) cid) \<and>
      dom (contractAssetStats (snd v)) \<subseteq> ContractID ` set (fst b) \<union> dom (contractAssetStats s)"
    by (rule stage_ex [OF ingestExpired_ok [OF assms(5,3,4,6,8)] assms(1)]) (simp add: updateDB_rest_def)
  then obtain v where i6: "ingestExpiredBalances flt (fst b) s = Inr v"
    and v: "fst v = filter (\<lambda>r. ExpirationLedger r \<noteq> ledger - 1) (fst b)" "no_zero_stats (snd v)"
      "\<forall>cid. total_of (fst v) cid = total_of (fst b) cid - dtotal s cid + dtotal (snd v) cid \<and>
         holders_of (fst v) cid = holders_of (fst b) cid - dholders s cid + dholders (snd v) cid"
      "dom (contractAssetStats (snd v)) \<subseteq> ContractID ` set (fst b) \<union> dom (contractAssetStats s)" by blast
  let ?c = "filter (\<lambda>r. acExpirationLedger r \<noteq> p_currentLedger p - 1) (snd b)"
  have i7: "wrap ''Error fetching contract asset balances'' (DeleteAssetContractsExpiringAt flt (p_currentLedger p - 1) (snd b)) = Inr ?c"
    by (rule stage [OF DeleteContracts_ok assms(1)]) (simp add: updateDB_rest_def i6 split_beta)
  have agg: "\<forall>cid. total_of (fst v) cid = total_of T cid + dtotal (snd v) cid \<and> holders_of (fst v) cid = holders_of T cid + dholders (snd v) cid"
    using v(3) assms(9,10) by simp
  have "\<exists>st. updateContractAssetStats flt (contract_order ord) (contractAssetStats (snd v)) (contract_asset_stats db) = Inr st \<and>
      stats_agree (fst v) st"
    by (rule stage_ex [OF updateStats_ok [OF assms(7) v(2) assms(11) subset_trans [OF v(4) assms(12)] agg] assms(1)])
      (simp add: updateDB_rest_def i6 i7 split_beta)
  then obtain st where i8: "updateContractAssetStats flt (contract_order ord) (contractAssetStats (snd v)) (contract_asset_stats db) = Inr st"
    "stats_agree (fst v) st" by blast
  have "updateDB_rest flt ord p s db t b = Inr \<lparr>exp_asset_stats = t, asset_contracts = ?c, contract_asset_balances = fst v, contract_asset_stats = st\<rparr>"
    by (simp add: updateDB_rest_def i6 i7 i8(1) split_beta)
  moreover have "balances_ok (fst v)" using assms(5) v(1) by (auto simp: balances_ok_def distinct_map_filter)
  ultimately show ?thesis using i8(2) v(1) by auto
qed

text \<open>
  C11. The statistics of contracts follow their balances. Let every row of the statistics table be the
  total and the count of the balances of its contract, with no row for a contract without balances. Take
  any changes of a ledger that fit the balances table, with every key changed at most once. Then the
  processor either writes all of it, in whatever order it visits its maps, and the statistics are again
  the totals and counts of the balances, among which none expired with the previous ledger, or it
  fails with the error of a database statement. Counts are those of \<open>int32\<close>.
\<close>

theorem contract_stats_follow_balances:
  assumes "ProcessChanges api sac chs (NewAssetStatsProcessor False ledger) = Inr p" "0 < ledger"
    and "stats_agree (contract_asset_balances db) (contract_asset_stats db)" "balances_ok (contract_asset_balances db)"
    and "distinct ks" "list_all2 (change_fits sac ledger (p_removed p) (contract_asset_balances db)) ks (contractDataChanges p)"
    and "orders_cover ord ks p db" "contracts_fit api sac p db"
    and "updateAssetStats (\<lambda>call key. flt (ClassicCall call key))
      (AssetStatSet_All (asset_order ord) (assetStatSet p)) (exp_asset_stats db) = Inr t"
  shows "(\<exists>db'. AssetStatsProcessor_Commit flt api sac ord p db = Inr db' \<and> exp_asset_stats db' = t \<and>
      stats_agree (contract_asset_balances db') (contract_asset_stats db') \<and> balances_ok (contract_asset_balances db') \<and>
      (\<forall>r\<in>set (contract_asset_balances db'). ExpirationLedger r \<noteq> ledger - 1)) \<or>
    (\<exists>call e m. flt call = Some e \<and> AssetStatsProcessor_Commit flt api sac ord p db = Inl (WrapError m e))"
proof -
  let ?T = "contract_asset_balances db" and ?commit = "AssetStatsProcessor_Commit flt api sac ord p db"
  define s0 where "s0 = NewContractAssetStatSet (p_removed p) (p_created p) (p_updated p) (p_currentLedger p)"
  have p: "p_currentLedger p = ledger" "\<not> ingestFromHistoryArchive p" "\<forall>k x y. p_updated p k = Some (x, y) \<longrightarrow> ledger \<le> y"
    using ProcessChanges_future [OF assms(1)] by (auto simp: NewAssetStatsProcessor_def)
  have s0: "touched s0 = {}" "contractAssetStats s0 = Map.empty" "createdBalances s0 = []" "currentLedger s0 = ledger"
    "updatedExpirationEntries s0 = p_updated p" "removedExpirationEntries s0 = p_removed p" "pending ?T s0 = ?T"
    by (simp_all add: s0_def NewContractAssetStatSet_def touched_def pending_def p)
  have "tracks ?T s0" using assms(4) s0(2,7) by (simp add: tracks_def no_zero_stats_def dtotal_def dholders_def getContractAssetStat_def)
  from AddContractDatas_tracks [OF this, of ks "contractDataChanges p" sac] assms(5,6) obtain s where
    s: "AddContractDatas sac (contractDataChanges p) s0 = Inr s" "tracks ?T s" "touched s \<subseteq> set ks"
      "dom (contractAssetStats s) \<subseteq> (\<Union>ch\<in>set (contractDataChanges p). contract_ids ch)"
      "ContractID ` set (createdBalances s) \<subseteq> (\<Union>ch\<in>set (contractDataChanges p). contract_ids ch)"
      "updatedExpirationEntries s = p_updated p" "currentLedger s = ledger"
    by (auto simp: s0 list_all2_lengthD)
  obtain rows contracts where c: "GetCreatedAssetContracts api sac s = Inr rows"
    "InsertAssetContracts (\<lambda>call. None) rows (asset_contracts db) = Inr contracts"
    using assms(8) s(1) unfolding contracts_fit_def s0_def by blast
  have commit: "?commit = updateDB flt api sac ord p s db"
    using s(1) by (simp add: AssetStatsProcessor_Commit_def s0_def)
  have tr: "no_zero_stats s" "\<forall>cid. total_of (pending ?T s) cid = total_of ?T cid + dtotal s cid"
    "\<forall>cid. holders_of (pending ?T s) cid = holders_of ?T cid + dholders s cid" "balances_ok (pending ?T s)"
    using s(2) by (auto simp: tracks_def)
  have ord: "distinct (amount_order ord)" "dom (updatedBalances s) \<subseteq> set (amount_order ord)"
    "distinct (expiration_order ord)" "dom (p_updated p) \<subseteq> set (expiration_order ord)" "distinct (contract_order ord)"
    using assms(7) s(3) by (auto simp: orders_cover_def touched_def)
  show ?thesis
  proof (cases "faulty flt ?commit")
    case False
    note nf = this [unfolded commit]
    obtain b vs where b: "updateDB flt api sac ord p s db = updateDB_rest flt ord p s db t b"
      "fst b = set_expirations vs (pending ?T s)" "\<forall>k. map_of vs k = map_option snd (p_updated p k)"
      using updateDB_first [OF p(2) nf assms(9) c ord(1-4) tr(4)] by blast
    have live: "\<forall>r\<in>set (fst b). updatedExpirationEntries s (KeyHash r) \<noteq> None \<longrightarrow> ledger \<le> ExpirationLedger r"
      using b(2,3) p(3) set_expirations_updated s(6) by fastforce
    have "ContractID ` set (fst b) = ContractID ` set (pending ?T s)"
      using arg_cong [OF set_expirations_keeps(5), of set vs "pending ?T s"] b(2) by simp
    also have "\<dots> \<subseteq> ContractID ` set ?T \<union> ContractID ` set (createdBalances s)"
      by (auto simp: pending_def split: option.split)
    finally have cov: "ContractID ` set (fst b) \<union> dom (contractAssetStats s) \<subseteq> set (contract_order ord)"
      using covered [OF subset_refl _ s(5,4)] assms(7) by (simp only: orders_cover_def)
    show ?thesis
      using updateDB_second [OF nf [unfolded b(1)] p(1) s(7) assms(2) _ tr(1) assms(3) live _ _ ord(5) cov] tr(2-4)
      unfolding commit b by (simp add: balances_ok_set_expirations set_expirations_keeps)
  qed (auto simp: faulty_def)
qed

subsection \<open>Two ledgers in a row\<close>

text \<open>
  A contract \<open>C\<close> with one balance that is live until ledger 6, and the two things that can happen to it in
  ledger 7: it is evicted, or it is restored.
\<close>

definition evicted :: LedgerEntry where
  "evicted = ContractData \<lparr>cdContractId = Some ''C'', cdKey = ''k'', cdVal = ''5''\<rparr>"

definition evicted_ttl :: LedgerEntry where
  "evicted_ttl = TtlData \<lparr>ttlKeyHash = ''k'', LiveUntilLedgerSeq = 6\<rparr>"

definition evicted_changes :: "change list" where
  "evicted_changes = [\<lparr>Type = LedgerEntryTypeContractData, Pre = Some evicted, Post = None\<rparr>,
     \<lparr>Type = LedgerEntryTypeTtl, Pre = Some evicted_ttl, Post = None\<rparr>]"

definition before_eviction :: stats_db where
  "before_eviction = \<lparr>exp_asset_stats = Map.empty, asset_contracts = [],
     contract_asset_balances = [\<lparr>KeyHash = ''k'', ContractID = ''C'', Amount = ''5'', ExpirationLedger = 6\<rparr>],
     contract_asset_stats = [''C'' \<mapsto> \<lparr>ActiveBalance = ''5'', ActiveHolders = 1\<rparr>]\<rparr>"

definition demo_orders :: map_orders where
  "demo_orders = \<lparr>asset_order = [], amount_order = [''k''], expiration_order = [''k''], contract_order = [''C'']\<rparr>"

lemma demo_amount: "Int_SetString ''5'' = Some 5" "Int_String 5 = ''5''"
  by code_simp+

definition restored_changes :: "change list" where
  "restored_changes = [\<lparr>Type = LedgerEntryTypeContractData, Pre = None, Post = Some evicted\<rparr>,
     \<lparr>Type = LedgerEntryTypeTtl, Pre = None, Post = Some (TtlData \<lparr>ttlKeyHash = ''k'', LiveUntilLedgerSeq = 100\<rparr>)\<rparr>]"

lemma demo_agree: "stats_agree (contract_asset_balances before_eviction) (contract_asset_stats before_eviction)"
  by (auto simp: demo_amount stats_agree_def before_eviction_def holders_of_def total_of_def amount_of_def)

lemmas demo_run = asset_demo_api_def demo_sac_def evicted_def evicted_ttl_def evicted_changes_def restored_changes_def
  before_eviction_def demo_orders_def demo_amount

lemmas processor_run = ProcessChange_def keepContractData_def addExpirationChange_def checkTTLChangeIsCompacted_def
  NewAssetStatsProcessor_def NewAssetStatSet_def AssetStatsProcessor_Commit_def NewContractAssetStatSet_def
  AddContractData_def ingestAssetContractMetadata_def ingestContractAssetBalance_def removed_balance_def created_balance_def
  getKeyHash_def adjust_def maybeAddContractAssetStat_def getContractAssetStat_def Let_def

lemmas tables_run = updateDB_def GetCreatedAssetContracts_def InsertAssetContracts_def
  RemoveContractAssetBalances_def updateContractAssetBalanceAmounts_def UpdateContractAssetBalanceAmounts_def run_batches_def
  InsertContractAssetBalances_def updateContractDataExpirations_def UpdateContractAssetBalanceExpirations_def
  UpdateAssetContractExpirations_def ingestExpiredBalances_def DeleteContractAssetBalancesExpiringAt_def
  DeleteAssetContractsExpiringAt_def wrap_def

text \<open>The same contract when the balance is paid into.\<close>

definition paid_changes :: "change list" where
  "paid_changes = [\<lparr>Type = LedgerEntryTypeContractData, Pre = Some evicted,
     Post = Some (ContractData \<lparr>cdContractId = Some ''C'', cdKey = ''k'', cdVal = ''9''\<rparr>)\<rparr>]"

definition paid_processor :: AssetStatsProcessor where
  "paid_processor = \<lparr>p_currentLedger = 7, assetStatSet = Map.empty, contractDataChanges = paid_changes,
     p_removed = Map.empty, p_created = Map.empty, p_updated = Map.empty, ingestFromHistoryArchive = False\<rparr>"

lemma paid_amount: "Int_SetString ''9'' = Some 9" "Int_String 9 = ''9''"
  by code_simp+

lemma paid_process: "ProcessChanges asset_demo_api demo_sac paid_changes (NewAssetStatsProcessor False 7) = Inr paid_processor"
  by (simp add: paid_changes_def paid_processor_def demo_run paid_amount processor_run)

lemma paid_fits: "list_all2 (change_fits demo_sac 7 (p_removed paid_processor) (contract_asset_balances before_eviction))
    [''k''] (contractDataChanges paid_processor)"
  by (simp add: paid_processor_def paid_changes_def demo_run paid_amount change_fits_def contract_entry_def getKeyHash_def in_table_def)

lemma paid_orders: "orders_cover demo_orders [''k''] paid_processor before_eviction"
  by (auto simp: orders_cover_def demo_run paid_processor_def paid_changes_def contract_ids_def)

lemma paid_contracts: "contracts_fit asset_demo_api demo_sac paid_processor before_eviction"
  by (simp add: contracts_fit_def demo_run paid_amount paid_processor_def paid_changes_def processor_run updated_balance_def
      GetCreatedAssetContracts_def InsertAssetContracts_def)

lemma paid_ok: "balances_ok (contract_asset_balances before_eviction)"
  by (simp add: balances_ok_def before_eviction_def demo_amount)

lemma paid_classic: "updateAssetStats (\<lambda>call key. None) (AssetStatSet_All (asset_order demo_orders) (assetStatSet paid_processor))
    (exp_asset_stats before_eviction) = Inr Map.empty"
  by (simp add: demo_run paid_processor_def AssetStatSet_All_def List.map_filter_simps)

theorem contract_stats_follow_balances_witness:
  "\<exists>db'. AssetStatsProcessor_Commit (\<lambda>call. None) asset_demo_api demo_sac demo_orders paid_processor before_eviction = Inr db' \<and>
      exp_asset_stats db' = Map.empty \<and> stats_agree (contract_asset_balances db') (contract_asset_stats db') \<and>
      balances_ok (contract_asset_balances db') \<and> (\<forall>r\<in>set (contract_asset_balances db'). ExpirationLedger r \<noteq> 6)"
  using contract_stats_follow_balances [OF paid_process _ demo_agree paid_ok _ paid_fits paid_orders paid_contracts,
      of "\<lambda>call. None" Map.empty] paid_classic by simp

subsection \<open>Balances that expired with the previous ledger\<close>

text \<open>The changes that evict a balance, and those that restore it.\<close>

definition evictions :: "ContractDataEntry \<Rightarrow> string \<Rightarrow> u32 \<Rightarrow> change list" where
  "evictions d k x = [\<lparr>Type = LedgerEntryTypeContractData, Pre = Some (ContractData d), Post = None\<rparr>,
     \<lparr>Type = LedgerEntryTypeTtl, Pre = Some (TtlData \<lparr>ttlKeyHash = k, LiveUntilLedgerSeq = x\<rparr>), Post = None\<rparr>]"

definition restorations :: "ContractDataEntry \<Rightarrow> string \<Rightarrow> u32 \<Rightarrow> change list" where
  "restorations d k x = [\<lparr>Type = LedgerEntryTypeContractData, Pre = None, Post = Some (ContractData d)\<rparr>,
     \<lparr>Type = LedgerEntryTypeTtl, Pre = None, Post = Some (TtlData \<lparr>ttlKeyHash = k, LiveUntilLedgerSeq = x\<rparr>)\<rparr>]"

lemma evictions_processed:
  assumes "contract_entry sac k (ContractData d)" "balance_of sac (ContractData d) = Some (cid, h, a)" "x < ledger"
    and "chs = evictions d k x \<or> chs = rev (evictions d k x)"
  shows "\<exists>p s. ProcessChanges api sac chs (NewAssetStatsProcessor False ledger) = Inr p \<and> assetStatSet p = Map.empty \<and> p_updated p = Map.empty \<and> p_currentLedger p = ledger \<and>
    \<not> ingestFromHistoryArchive p \<and>
    AddContractDatas sac (contractDataChanges p) (NewContractAssetStatSet (p_removed p) (p_created p) (p_updated p) (p_currentLedger p)) = Inr s \<and>
    s = (NewContractAssetStatSet [k \<mapsto> x] Map.empty Map.empty ledger)\<lparr>removedBalances := [k]\<rparr>"
  using assms by (auto simp: evictions_def contract_entry_def processor_run split: option.splits)

lemma restorations_processed:
  assumes "contract_entry sac k (ContractData d)" "balance_of sac (ContractData d) = Some (cid, h, a)" "AssetFromContractData sac (ContractData d) = None" "ledger \<le> x"
    and "chs = restorations d k x \<or> chs = rev (restorations d k x)"
  shows "\<exists>p s. ProcessChanges api sac chs (NewAssetStatsProcessor False ledger) = Inr p \<and> assetStatSet p = Map.empty \<and> \<not> ingestFromHistoryArchive p \<and>
    AddContractDatas sac (contractDataChanges p) (NewContractAssetStatSet (p_removed p) (p_created p) (p_updated p) (p_currentLedger p)) = Inr s \<and>
    createdAssetContracts s = [] \<and> removedBalances s = [] \<and> updatedBalances s = Map.empty \<and>
    createdBalances s = [\<lparr>KeyHash = k, ContractID = cid, Amount = Int_String a, ExpirationLedger = x\<rparr>]"
  using assms by (auto simp: restorations_def contract_entry_def processor_run split: option.splits)

lemma no_classic: "AssetStatSet_All order Map.empty = []"
  by (induction order) (simp_all add: AssetStatSet_All_def List.map_filter_simps)

lemma aggregate_evicted:
  assumes "balances_ok t" "r \<in> set t"
  shows "holders_of (filter (\<lambda>r'. KeyHash r' \<noteq> KeyHash r) t) (ContractID r) + 1 = holders_of t (ContractID r)"
proof -
  obtain xs ys where t: "t = xs @ r # ys" using assms(2) by (meson split_list)
  have "KeyHash r \<notin> KeyHash ` set xs" "KeyHash r \<notin> KeyHash ` set ys" using assms(1) t by (auto simp: balances_ok_def)
  then have "KeyHash r' \<noteq> KeyHash r" if "r' \<in> set xs \<union> set ys" for r' using that by (metis UnE image_eqI)
  then have "filter (\<lambda>r'. KeyHash r' \<noteq> KeyHash r) xs = xs" "filter (\<lambda>r'. KeyHash r' \<noteq> KeyHash r) ys = ys" by (simp_all add: filter_id_conv)
  then have "filter (\<lambda>r'. KeyHash r' \<noteq> KeyHash r) t = xs @ ys" by (simp add: t)
  then show ?thesis by (simp add: t)
qed

text \<open>
  C39. The exception to it: a balance that expired with the previous ledger and is evicted in this one. Whatever the tables are, when their statistics agree with their balances and the evicted balance is the only one that
  expired, the commit deletes its row before the expired rows are collected, and ignores its change because it is no longer live, so nothing takes it out of the statistics: no statistic changes, the holders of the
  contract are one more than its balances, and the statistics no longer agree with the balances.
\<close>

theorem evicted_balance_stays_counted:
  assumes agree: "stats_agree (contract_asset_balances db) (contract_asset_stats db)" "balances_ok (contract_asset_balances db)"
    and row: "r \<in> set (contract_asset_balances db)" "ExpirationLedger r = ledger - 1" "0 < ledger"
    and only: "\<And>r'. r' \<in> set (contract_asset_balances db) \<Longrightarrow> ExpirationLedger r' = ledger - 1 \<Longrightarrow> r' = r"
    and entry: "contract_entry sac (KeyHash r) (ContractData d)" "balance_of sac (ContractData d) = Some (ContractID r, h, a)"
    and chs: "chs = evictions d (KeyHash r) (ledger - 1) \<or> chs = rev (evictions d (KeyHash r) (ledger - 1))"
  shows "\<exists>p db'. ProcessChanges api sac chs (NewAssetStatsProcessor False ledger) = Inr p \<and> AssetStatsProcessor_Commit (\<lambda>call. None) api sac ord p db = Inr db' \<and>
    contract_asset_balances db' = filter (\<lambda>r'. KeyHash r' \<noteq> KeyHash r) (contract_asset_balances db) \<and> contract_asset_stats db' = contract_asset_stats db \<and>
    holders_of (contract_asset_balances db') (ContractID r) + 1 = holders_of (contract_asset_balances db) (ContractID r) \<and>
    \<not> stats_agree (contract_asset_balances db') (contract_asset_stats db')"
proof -
  let ?T = "contract_asset_balances db" and ?T' = "filter (\<lambda>r'. KeyHash r' \<noteq> KeyHash r) (contract_asset_balances db)" and ?cid = "ContractID r"
  have "ledger - 1 < ledger" using row(3) by (simp add: word_less_nat_alt unat_sub_no_wrap word_le_nat_alt)
  from evictions_processed [OF entry this chs] obtain p s where p: "ProcessChanges api sac chs (NewAssetStatsProcessor False ledger) = Inr p" "assetStatSet p = Map.empty" "p_updated p = Map.empty"
    "p_currentLedger p = ledger" "\<not> ingestFromHistoryArchive p"
    "AddContractDatas sac (contractDataChanges p) (NewContractAssetStatSet (p_removed p) (p_created p) (p_updated p) (p_currentLedger p)) = Inr s"
    "s = (NewContractAssetStatSet [KeyHash r \<mapsto> ledger - 1] Map.empty Map.empty ledger)\<lparr>removedBalances := [KeyHash r]\<rparr>"
    by blast
  have gone: "filter (\<lambda>r'. ExpirationLedger r' = ledger - 1) ?T' = []" "filter (\<lambda>r'. ExpirationLedger r' \<noteq> ledger - 1) ?T' = ?T'"
  proof -
    have "ExpirationLedger r' \<noteq> ledger - 1" if "r' \<in> set ?T'" for r' using only that by auto
    then show "filter (\<lambda>r'. ExpirationLedger r' = ledger - 1) ?T' = []" "filter (\<lambda>r'. ExpirationLedger r' \<noteq> ledger - 1) ?T' = ?T'"
      by (blast intro: filter_False filter_True)+
  qed
  have no_stats: "updateContractAssetStats flt cids Map.empty t = Inr t" for flt cids t by (induction cids) simp_all
  obtain db' where db': "AssetStatsProcessor_Commit (\<lambda>call. None) api sac ord p db = Inr db'" "contract_asset_balances db' = ?T'" "contract_asset_stats db' = contract_asset_stats db"
    using p(2-7) gone no_stats by (simp add: AssetStatsProcessor_Commit_def tables_run no_classic NewContractAssetStatSet_def)
  have h: "holders_of ?T' ?cid + 1 = holders_of ?T ?cid" by (rule aggregate_evicted [OF agree(2) row(1)])
  then have "\<not> stats_agree ?T' (contract_asset_stats db)" using agree(1) unfolding stats_agree_def
    by (metis (no_types, lifting) ContractStat.select_convs(2) add_cancel_left_right option.inject option.simps(3) zero_neq_one)
  with p(1) db' h show ?thesis by auto
qed

theorem evicted_balance_stays_counted_witness:
  "\<exists>p db'. ProcessChanges asset_demo_api demo_sac evicted_changes (NewAssetStatsProcessor False 7) = Inr p \<and>
     AssetStatsProcessor_Commit (\<lambda>call. None) asset_demo_api demo_sac demo_orders p before_eviction = Inr db' \<and>
     contract_asset_balances db' = [] \<and> contract_asset_stats db' ''C'' = Some \<lparr>ActiveBalance = ''5'', ActiveHolders = 1\<rparr>"
proof -
  let ?d = "\<lparr>cdContractId = Some ''C'', cdKey = ''k'', cdVal = ''5''\<rparr>" and ?r = "\<lparr>KeyHash = ''k'', ContractID = ''C'', Amount = ''5'', ExpirationLedger = 6\<rparr>"
  have entry: "contract_entry demo_sac (KeyHash ?r) (ContractData ?d)" "balance_of demo_sac (ContractData ?d) = Some (ContractID ?r, ''k'', 5)"
    by (simp_all add: contract_entry_def demo_run getKeyHash_def)
  have T: "contract_asset_balances before_eviction = [?r]" "contract_asset_stats before_eviction ''C'' = Some \<lparr>ActiveBalance = ''5'', ActiveHolders = 1\<rparr>"
    by (simp_all add: before_eviction_def)
  have row: "?r \<in> set [?r]" "ExpirationLedger ?r = 7 - 1" "0 < (7 :: u32)" "\<And>r'. r' \<in> set [?r] \<Longrightarrow> ExpirationLedger r' = 7 - 1 \<Longrightarrow> r' = ?r" by simp_all
  have chs: "evicted_changes = evictions ?d (KeyHash ?r) (7 - 1)" by (simp add: evicted_changes_def evictions_def evicted_def evicted_ttl_def)
  from evicted_balance_stays_counted [OF demo_agree paid_ok, unfolded T(1), OF row entry disjI1 [OF chs], where api = asset_demo_api and ord = demo_orders]
  obtain p db' where "ProcessChanges asset_demo_api demo_sac evicted_changes (NewAssetStatsProcessor False 7) = Inr p"
    "AssetStatsProcessor_Commit (\<lambda>call. None) asset_demo_api demo_sac demo_orders p before_eviction = Inr db'"
    "contract_asset_balances db' = filter (\<lambda>r'. KeyHash r' \<noteq> KeyHash ?r) [?r]" "contract_asset_stats db' = contract_asset_stats before_eviction"
    by blast
  with T(2) show ?thesis by auto
qed

text \<open>
  C40. A balance whose row is still in the table when it is created makes the processor fail, so a balance that expired with the previous ledger and is restored in this one does: the rows of the expired balances are
  deleted only after the created ones are inserted, and the key is unique. No statement fails by itself, and whatever the tables and the balance are, the commit returns the error of the unique constraint.
\<close>

theorem restored_balance_rejected:
  assumes row: "r \<in> set (contract_asset_balances db)" "ExpirationLedger r = ledger - 1" and live: "ledger \<le> x"
    and entry: "contract_entry sac (KeyHash r) (ContractData d)" "balance_of sac (ContractData d) = Some (cid, h, a)" "AssetFromContractData sac (ContractData d) = None"
    and chs: "chs = restorations d (KeyHash r) x \<or> chs = rev (restorations d (KeyHash r) x)"
  shows "\<exists>p. ProcessChanges api sac chs (NewAssetStatsProcessor False ledger) = Inr p \<and> AssetStatsProcessor_Commit (\<lambda>call. None) api sac ord p db =
    Inl (WrapError ''Error inserting contract asset balances'' ''duplicate key value violates unique constraint'')"
proof -
  obtain p s where p: "ProcessChanges api sac chs (NewAssetStatsProcessor False ledger) = Inr p" "assetStatSet p = Map.empty" "\<not> ingestFromHistoryArchive p"
    "AddContractDatas sac (contractDataChanges p) (NewContractAssetStatSet (p_removed p) (p_created p) (p_updated p) (p_currentLedger p)) = Inr s"
    "createdAssetContracts s = []" "removedBalances s = []" "updatedBalances s = Map.empty" "createdBalances s = [\<lparr>KeyHash = KeyHash r, ContractID = cid, Amount = Int_String a, ExpirationLedger = x\<rparr>]"
    using restorations_processed [OF entry live chs] by blast
  with row(1) show ?thesis by (auto simp: AssetStatsProcessor_Commit_def tables_run no_classic)
qed

theorem restored_balance_rejected_witness:
  "\<exists>p. ProcessChanges asset_demo_api demo_sac restored_changes (NewAssetStatsProcessor False 7) = Inr p \<and>
     AssetStatsProcessor_Commit (\<lambda>call. None) asset_demo_api demo_sac demo_orders p before_eviction =
       Inl (WrapError ''Error inserting contract asset balances'' ''duplicate key value violates unique constraint'')"
proof -
  let ?d = "\<lparr>cdContractId = Some ''C'', cdKey = ''k'', cdVal = ''5''\<rparr>" and ?r = "\<lparr>KeyHash = ''k'', ContractID = ''C'', Amount = ''5'', ExpirationLedger = 6\<rparr>"
  have "contract_entry demo_sac (KeyHash ?r) (ContractData ?d)" "balance_of demo_sac (ContractData ?d) = Some (''C'', ''k'', 5)" "AssetFromContractData demo_sac (ContractData ?d) = None"
    by (simp_all add: contract_entry_def demo_run getKeyHash_def)
  moreover have "?r \<in> set (contract_asset_balances before_eviction)" "ExpirationLedger ?r = 7 - 1" by (simp_all add: before_eviction_def)
  moreover have "restored_changes = restorations ?d (KeyHash ?r) 100" by (simp add: restored_changes_def restorations_def evicted_def)
  ultimately show ?thesis using restored_balance_rejected [where r = ?r and sac = demo_sac and d = ?d and ledger = 7 and x = 100] by simp
qed

end
