(* ===== verification/Order_Book.thy ===== *)
theory Order_Book
  imports Asset_Stats Hex
begin

text \<open>
  Offers and liquidity pools, from the ledger to the path finder: the processors that write the changes of a
  ledger to the tables (\<open>internal/ingest/processors/offers_processor.go\<close>,
  \<open>liquidity_pools_change_processor.go\<close>), the queries on the tables
  (\<open>internal/db2/history/offers.go\<close>, \<open>liquidity_pools.go\<close>), and the stream that keeps the in memory order book
  in step with them (\<open>internal/ingest/orderbook.go\<close>, \<open>verify.go\<close>). A removed entry stays in its table as a row
  marked as deleted, until it is compacted away. The order book graph is another package: its
  operations are the record \<open>obgraph\<close>. The floating point price of an offer row is left out.
\<close>

subsection \<open>Entries and rows\<close>

record OfferEntry =
  SellerId :: string
  OfferId :: int
  Selling :: Asset
  Buying :: Asset
  OfferAmount :: i64
  PriceN :: "32 word"
  PriceD :: "32 word"
  OfferFlags :: "32 word"

record Offer =
  SellerID :: string
  OfferID :: int
  SellingAsset :: Asset
  BuyingAsset :: Asset
  offerAmount :: i64
  Pricen :: "32 word"
  Priced :: "32 word"
  offerFlags :: "32 word"
  offerDeleted :: bool
  offerModified :: u32
  offerSponsor :: "string option"

record PoolEntry =
  LiquidityPoolId :: "8 word list"
  PoolType :: int
  PoolAssetA :: Asset
  PoolAssetB :: Asset
  PoolFee :: "32 word"
  PoolReserveA :: i64
  PoolReserveB :: i64
  TotalPoolShares :: i64
  PoolSharesTrustLineCount :: i64

record LiquidityPool =
  PoolID :: string
  poolType :: int
  Fee :: "32 word"
  TrustlineCount :: i64
  ShareCount :: i64
  AssetReserves :: "(Asset \<times> i64) list"
  poolModified :: u32
  poolDeleted :: bool

text \<open>A ledger entry: the data, the ledger that last modified it, and its sponsor.\<close>

record 'd ledger_entry =
  Data :: 'd
  LastModifiedLedgerSeq :: u32
  SponsoringID :: "string option"

record 'd entry_change =
  PreEntry :: "'d ledger_entry option"
  PostEntry :: "'d ledger_entry option"

definition offer_row :: "OfferEntry ledger_entry \<Rightarrow> Offer" where
  "offer_row entry = (let offer = Data entry in
     \<lparr>SellerID = SellerId offer, OfferID = OfferId offer, SellingAsset = Selling offer, BuyingAsset = Buying offer,
      offerAmount = OfferAmount offer, Pricen = PriceN offer, Priced = PriceD offer, offerFlags = OfferFlags offer,
      offerDeleted = False, offerModified = LastModifiedLedgerSeq entry, offerSponsor = SponsoringID entry\<rparr>)"

definition offerToXDR :: "Offer \<Rightarrow> OfferEntry" where
  "offerToXDR row =
     \<lparr>SellerId = SellerID row, OfferId = OfferID row, Selling = SellingAsset row, Buying = BuyingAsset row,
      OfferAmount = offerAmount row, PriceN = Pricen row, PriceD = Priced row, OfferFlags = offerFlags row\<rparr>"

definition PoolIDToString :: "8 word list \<Rightarrow> string" where
  "PoolIDToString poolID = hex_encode poolID"

definition pool_row :: "PoolEntry ledger_entry \<Rightarrow> LiquidityPool" where
  "pool_row entry = (let pool = Data entry in
     \<lparr>PoolID = PoolIDToString (LiquidityPoolId pool), poolType = PoolType pool, Fee = PoolFee pool,
      TrustlineCount = PoolSharesTrustLineCount pool, ShareCount = TotalPoolShares pool,
      AssetReserves = [(PoolAssetA pool, PoolReserveA pool), (PoolAssetB pool, PoolReserveB pool)],
      poolModified = LastModifiedLedgerSeq entry, poolDeleted = False\<rparr>)"

definition liquidityPoolToXDR :: "LiquidityPool \<Rightarrow> string + PoolEntry" where
  "liquidityPoolToXDR row =
     (if length (AssetReserves row) \<noteq> 2 then Inl ''unexpected number of asset reserves''
      else case hex_decode (PoolID row) of
          None \<Rightarrow> Inl ''Error decoding pool ID''
        | Some pid \<Rightarrow>
            if length pid \<noteq> 32 then Inl ''Error decoding pool ID, incorrect length''
            else Inr \<lparr>LiquidityPoolId = pid, PoolType = poolType row,
                      PoolAssetA = fst (AssetReserves row ! 0), PoolAssetB = fst (AssetReserves row ! 1), PoolFee = Fee row,
                      PoolReserveA = snd (AssetReserves row ! 0), PoolReserveB = snd (AssetReserves row ! 1),
                      TotalPoolShares = ShareCount row, PoolSharesTrustLineCount = TrustlineCount row\<rparr>)"

subsection \<open>Statements on the tables\<close>

text \<open>
  The tables of offers and of pools have the same statements; \<open>key\<close> is the primary key of a row. A failing
  statement is the error in place of the result, and the transaction is rolled back.
\<close>

definition batchInsert :: "('r \<Rightarrow> 'k) \<Rightarrow> 'r list \<Rightarrow> 'r list \<Rightarrow> string + 'r list" where
  "batchInsert key rows t =
     (if distinct (map key (t @ rows)) then Inr (t @ rows) else Inl ''duplicate key value violates unique constraint'')"

definition upsertRow :: "('r \<Rightarrow> 'k) \<Rightarrow> 'r \<Rightarrow> 'r list \<Rightarrow> 'r list" where
  "upsertRow key row t =
     (if key row \<in> key ` set t then map (\<lambda>r. if key r = key row then row else r) t else t @ [row])"

definition upsertRows :: "('r \<Rightarrow> 'k) \<Rightarrow> 'r list \<Rightarrow> 'r list \<Rightarrow> string + 'r list" where
  "upsertRows key rows t =
     (if distinct (map key rows) then Inr (fold (upsertRow key) rows t)
      else Inl ''ON CONFLICT DO UPDATE command cannot affect row a second time'')"

definition compactRows :: "('r \<Rightarrow> bool) \<Rightarrow> ('r \<Rightarrow> u32) \<Rightarrow> u32 \<Rightarrow> 'r list \<Rightarrow> 'r list" where
  "compactRows deleted modified cutOffSequence t = filter (\<lambda>r. \<not> (deleted r \<and> modified r \<le> cutOffSequence)) t"

definition updatedRows :: "('r \<Rightarrow> u32) \<Rightarrow> u32 \<Rightarrow> 'r list \<Rightarrow> 'r list" where
  "updatedRows modified newerThanSequence t = filter (\<lambda>r. newerThanSequence < modified r) t"

text \<open>What the ingestion system has written, as far as the stream reads it.\<close>

record book_db =
  offers :: "Offer list"
  liquidity_pools :: "LiquidityPool list"
  offer_compaction :: u32
  pool_compaction :: u32
  last_ingested :: u32
  last_history :: u32
  state_invalid :: bool

definition GetUpdatedOffers :: "u32 \<Rightarrow> book_db \<Rightarrow> Offer list" where
  "GetUpdatedOffers newerThanSequence db = updatedRows offerModified newerThanSequence (offers db)"

definition GetUpdatedLiquidityPools :: "u32 \<Rightarrow> book_db \<Rightarrow> LiquidityPool list" where
  "GetUpdatedLiquidityPools newerThanSequence db = updatedRows poolModified newerThanSequence (liquidity_pools db)"

definition CompactOffers :: "u32 \<Rightarrow> book_db \<Rightarrow> book_db" where
  "CompactOffers cutOff db =
     db\<lparr>offers := compactRows offerDeleted offerModified cutOff (offers db), offer_compaction := cutOff\<rparr>"

definition CompactLiquidityPools :: "u32 \<Rightarrow> book_db \<Rightarrow> book_db" where
  "CompactLiquidityPools cutOff db =
     db\<lparr>liquidity_pools := compactRows poolDeleted poolModified cutOff (liquidity_pools db), pool_compaction := cutOff\<rparr>"

definition offersBatchSize :: nat where
  "offersBatchSize = 50000"

text \<open>One batch of \<open>StreamAllOffers\<close>, and the loop: it ends when a batch leaves the last identifier as it is.\<close>

definition streamAllOffersBatch :: "int \<Rightarrow> nat \<Rightarrow> book_db \<Rightarrow> Offer list" where
  "streamAllOffersBatch lastId limit db =
     take limit (sort_key OfferID (filter (\<lambda>r. \<not> offerDeleted r \<and> lastId < OfferID r) (offers db)))"

lemma streamAllOffersBatch_after: "r \<in> set (streamAllOffersBatch lastId limit db) \<Longrightarrow> lastId < OfferID r \<and> r \<in> set (offers db)"
  unfolding streamAllOffersBatch_def by (drule in_set_takeD) simp

function StreamAllOffers :: "int \<Rightarrow> book_db \<Rightarrow> Offer list" where
  "StreamAllOffers lastID db =
     (let batch = streamAllOffersBatch lastID offersBatchSize db in
      if batch = [] then [] else batch @ StreamAllOffers (OfferID (last batch)) db)"
  by pat_completeness auto
termination
proof (relation "measure (\<lambda>(lastID, db). length (filter (\<lambda>r. lastID < OfferID r) (offers db)))", goal_cases)
  case (2 lastID db batch)
  let ?r = "last batch"
  have r: "lastID < OfferID ?r" "?r \<in> set (offers db)"
    using streamAllOffersBatch_after [of ?r lastID offersBatchSize db] 2 by simp_all
  have "length (filter (\<lambda>r. OfferID ?r < OfferID r) (filter (\<lambda>r. lastID < OfferID r) (offers db))) <
      length (filter (\<lambda>r. lastID < OfferID r) (offers db))"
    by (rule length_filter_less [of ?r]) (use r in simp_all)
  moreover have "filter (\<lambda>r. OfferID ?r < OfferID r) (filter (\<lambda>r. lastID < OfferID r) (offers db)) =
      filter (\<lambda>r. OfferID ?r < OfferID r) (offers db)"
    using r(1) by (auto intro!: filter_cong)
  ultimately show ?case by simp
qed simp

declare StreamAllOffers.simps [simp del]

definition StreamAllLiquidityPools :: "book_db \<Rightarrow> LiquidityPool list" where
  "StreamAllLiquidityPools db = filter (\<lambda>r. \<not> poolDeleted r) (liquidity_pools db)"

subsection \<open>The processors\<close>

definition maxBatchSize :: nat where
  "maxBatchSize = 100000"

definition compactionWindow :: u32 where
  "compactionWindow = 100"

record OffersProcessor =
  op_sequence :: u32
  batchUpdateOffers :: "Offer list"
  insertBatch :: "Offer list"

definition NewOffersProcessor :: "u32 \<Rightarrow> OffersProcessor" where
  "NewOffersProcessor sequence = \<lparr>op_sequence = sequence, batchUpdateOffers = [], insertBatch = []\<rparr>"

definition flushCache :: "OffersProcessor \<Rightarrow> book_db \<Rightarrow> string + OffersProcessor \<times> book_db" where
  "flushCache p db = (case batchInsert OfferID (insertBatch p) (offers db) of
       Inl e \<Rightarrow> Inl ''Error executing OffersBatchInsertBuilder''
     | Inr t \<Rightarrow> (case (if batchUpdateOffers p = [] then Inr t else upsertRows OfferID (batchUpdateOffers p) t) of
           Inl e \<Rightarrow> Inl e
         | Inr t' \<Rightarrow> Inr (p\<lparr>batchUpdateOffers := [], insertBatch := []\<rparr>, db\<lparr>offers := t'\<rparr>)))"

definition Offers_ProcessChange ::
    "OfferEntry entry_change \<Rightarrow> OffersProcessor \<Rightarrow> book_db \<Rightarrow> string + OffersProcessor \<times> book_db" where
  "Offers_ProcessChange ch p db =
     (case (PreEntry ch, PostEntry ch) of
        (None, None) \<Rightarrow> Inl ''Invalid io.Change: change.Pre == nil && change.Post == nil''
      | (pre, post) \<Rightarrow>
          let p = (case (pre, post) of
              (None, Some e) \<Rightarrow> p\<lparr>insertBatch := insertBatch p @ [offer_row e]\<rparr>
            | (Some e, Some e') \<Rightarrow> p\<lparr>batchUpdateOffers := batchUpdateOffers p @ [offer_row e']\<rparr>
            | (Some e, None) \<Rightarrow> p\<lparr>batchUpdateOffers := batchUpdateOffers p @
                [(offer_row e)\<lparr>offerDeleted := True, offerModified := op_sequence p\<rparr>]\<rparr>
            | (None, None) \<Rightarrow> p) in
          if maxBatchSize < length (insertBatch p) + length (batchUpdateOffers p) then flushCache p db else Inr (p, db))"

fun Offers_ProcessChanges ::
    "OfferEntry entry_change list \<Rightarrow> OffersProcessor \<Rightarrow> book_db \<Rightarrow> string + OffersProcessor \<times> book_db" where
  "Offers_ProcessChanges [] p db = Inr (p, db)"
| "Offers_ProcessChanges (ch # chs) p db = (case Offers_ProcessChange ch p db of
       Inl e \<Rightarrow> Inl e
     | Inr (p', db') \<Rightarrow> Offers_ProcessChanges chs p' db')"

definition Offers_Commit :: "OffersProcessor \<Rightarrow> book_db \<Rightarrow> string + book_db" where
  "Offers_Commit p db = (case flushCache p db of
       Inl e \<Rightarrow> Inl e
     | Inr (p', db') \<Rightarrow>
         if compactionWindow < op_sequence p' then Inr (CompactOffers (op_sequence p' - compactionWindow) db') else Inr db')"

record LiquidityPoolsChangeProcessor =
  lps :: "LiquidityPool list"
  lp_sequence :: u32

definition NewLiquidityPoolsChangeProcessor :: "u32 \<Rightarrow> LiquidityPoolsChangeProcessor" where
  "NewLiquidityPoolsChangeProcessor sequence = \<lparr>lps = [], lp_sequence = sequence\<rparr>"

definition Pools_Commit ::
    "LiquidityPoolsChangeProcessor \<Rightarrow> book_db \<Rightarrow> string + LiquidityPoolsChangeProcessor \<times> book_db" where
  "Pools_Commit p db =
     (case (if lps p = [] then Inr (liquidity_pools db) else upsertRows PoolID (lps p) (liquidity_pools db)) of
        Inl e \<Rightarrow> Inl e
      | Inr t \<Rightarrow>
          let db = db\<lparr>liquidity_pools := t\<rparr> in
          Inr (p\<lparr>lps := []\<rparr>,
            if compactionWindow < lp_sequence p then CompactLiquidityPools (lp_sequence p - compactionWindow) db else db))"

text \<open>A change without \<open>Post\<close> that is no removal dereferences nil; \<open>Inl\<close> stands for that panic too.\<close>

definition Pools_ProcessChange :: "PoolEntry entry_change \<Rightarrow> LiquidityPoolsChangeProcessor \<Rightarrow> book_db \<Rightarrow>
    string + LiquidityPoolsChangeProcessor \<times> book_db" where
  "Pools_ProcessChange ch p db =
     (case (case (PreEntry ch, PostEntry ch) of
          (None, Some e) \<Rightarrow> Some (pool_row e)
        | (Some e, None) \<Rightarrow> Some ((pool_row e)\<lparr>poolDeleted := True, poolModified := lp_sequence p\<rparr>)
        | (Some e, Some e') \<Rightarrow> Some (pool_row e')
        | (None, None) \<Rightarrow> None) of
        None \<Rightarrow> Inl ''panic''
      | Some row \<Rightarrow>
          let p = p\<lparr>lps := lps p @ [row]\<rparr> in
          if maxBatchSize < length (lps p) then Pools_Commit p db else Inr (p, db))"

fun Pools_ProcessChanges :: "PoolEntry entry_change list \<Rightarrow> LiquidityPoolsChangeProcessor \<Rightarrow> book_db \<Rightarrow>
    string + LiquidityPoolsChangeProcessor \<times> book_db" where
  "Pools_ProcessChanges [] p db = Inr (p, db)"
| "Pools_ProcessChanges (ch # chs) p db = (case Pools_ProcessChange ch p db of
       Inl e \<Rightarrow> Inl e
     | Inr (p', db') \<Rightarrow> Pools_ProcessChanges chs p' db')"

text \<open>The part of the ingestion of a ledger that is about these tables: both processors, and the ledger number.\<close>

definition ingest_book ::
    "u32 \<Rightarrow> OfferEntry entry_change list \<Rightarrow> PoolEntry entry_change list \<Rightarrow> book_db \<Rightarrow> string + book_db" where
  "ingest_book sequence ochs pchs db =
     (case Offers_ProcessChanges ochs (NewOffersProcessor sequence) db of
        Inl e \<Rightarrow> Inl e
      | Inr (po, db1) \<Rightarrow> (case Pools_ProcessChanges pchs (NewLiquidityPoolsChangeProcessor sequence) db1 of
          Inl e \<Rightarrow> Inl e
      | Inr (pl, db2) \<Rightarrow> (case Offers_Commit po db2 of
          Inl e \<Rightarrow> Inl e
      | Inr db3 \<Rightarrow> (case Pools_Commit pl db3 of
          Inl e \<Rightarrow> Inl e
      | Inr (pl', db4) \<Rightarrow> Inr (db4\<lparr>last_ingested := sequence\<rparr>)))))"

subsection \<open>The order book stream\<close>

text \<open>
  The operations of the graph: changes are queued until \<open>Apply\<close>, \<open>Discard\<close> drops the queue, \<open>Clear\<close> empties
  both. \<open>Verify\<close> returns what the graph holds, or the error of its own checks.
\<close>

record 'g obgraph =
  Clear :: "'g \<Rightarrow> 'g"
  Discard :: "'g \<Rightarrow> 'g"
  AddOffers :: "OfferEntry \<Rightarrow> 'g \<Rightarrow> 'g"
  RemoveOffer :: "int \<Rightarrow> 'g \<Rightarrow> 'g"
  AddLiquidityPools :: "PoolEntry \<Rightarrow> 'g \<Rightarrow> 'g"
  RemoveLiquidityPool :: "PoolEntry \<Rightarrow> 'g \<Rightarrow> 'g"
  Apply :: "u32 \<Rightarrow> 'g \<Rightarrow> string + 'g"
  Verify :: "'g \<Rightarrow> string + OfferEntry list \<times> PoolEntry list"
  MarshalOffer :: "OfferEntry \<Rightarrow> string + string"
  MarshalPool :: "PoolEntry \<Rightarrow> string + string"

record 'g OrderBookStream =
  graph :: 'g
  lastLedger :: u32
  lastVerification :: int

definition NewOrderBookStream :: "'g \<Rightarrow> int \<Rightarrow> 'g OrderBookStream" where
  "NewOrderBookStream g now = \<lparr>graph = g, lastLedger = 0, lastVerification = now\<rparr>"

text \<open>The queries of the stream. One that fails returns its error, after having delivered some rows.\<close>

datatype book_query =
    BeginTx
  | GetExpStateInvalid
  | GetLatestHistoryLedger
  | GetLastLedgerIngestNonBlocking
  | GetOfferCompactionSequence
  | GetLiquidityPoolCompactionSequence
  | StreamOffers
  | StreamPools
  | UpdatedOffers
  | UpdatedPools
  | VerifyOffers
  | VerifyPools

type_synonym book_faults = "book_query \<Rightarrow> (string \<times> nat) option"

record ingestionStatus =
  HistoryConsistentWithState :: bool
  StateInvalid :: bool
  LastIngestedLedger :: u32
  LastOfferCompactionLedger :: u32
  LastLiquidityPoolCompactionLedger :: u32

definition book_read :: "book_faults \<Rightarrow> book_query \<Rightarrow> 'a \<Rightarrow> string + 'a" where
  "book_read flt q x = (case flt q of None \<Rightarrow> Inr x | Some (e, n) \<Rightarrow> Inl e)"

definition getIngestionStatus :: "book_faults \<Rightarrow> book_db \<Rightarrow> string + ingestionStatus" where
  "getIngestionStatus flt db = (case book_read flt GetExpStateInvalid (state_invalid db) of
       Inl e \<Rightarrow> Inl e
     | Inr invalid \<Rightarrow> (case book_read flt GetLatestHistoryLedger (last_history db) of
         Inl e \<Rightarrow> Inl e
     | Inr lastHistoryLedger \<Rightarrow> (case book_read flt GetLastLedgerIngestNonBlocking (last_ingested db) of
         Inl e \<Rightarrow> Inl e
     | Inr lastIngested \<Rightarrow> (case book_read flt GetOfferCompactionSequence (offer_compaction db) of
         Inl e \<Rightarrow> Inl e
     | Inr offerCompaction \<Rightarrow> (case book_read flt GetLiquidityPoolCompactionSequence (pool_compaction db) of
         Inl e \<Rightarrow> Inl e
     | Inr poolCompaction \<Rightarrow>
         Inr \<lparr>HistoryConsistentWithState = (lastIngested = lastHistoryLedger \<or> lastHistoryLedger = 0), StateInvalid = invalid,
              LastIngestedLedger = lastIngested, LastOfferCompactionLedger = offerCompaction,
              LastLiquidityPoolCompactionLedger = poolCompaction\<rparr>)))))"

definition needs_reset :: "ingestionStatus \<Rightarrow> 'g OrderBookStream \<Rightarrow> bool" where
  "needs_reset status o' =
     (if StateInvalid status then True
      else if \<not> HistoryConsistentWithState status then True
      else if LastIngestedLedger status < lastLedger o' then True
      else if 0 < lastLedger o' \<and> lastLedger o' < LastOfferCompactionLedger status then True
      else if LastOfferCompactionLedger status \<noteq> LastLiquidityPoolCompactionLedger status then True
      else lastLedger o' = 0)"

fun add_pools :: "'g obgraph \<Rightarrow> LiquidityPool list \<Rightarrow> 'g \<Rightarrow> 'g \<times> string option" where
  "add_pools G [] g = (g, None)"
| "add_pools G (row # rows) g = (case liquidityPoolToXDR row of
       Inl e \<Rightarrow> (g, Some e)
     | Inr pool \<Rightarrow> add_pools G rows (AddLiquidityPools G pool g))"

fun update_pools :: "'g obgraph \<Rightarrow> LiquidityPool list \<Rightarrow> 'g \<Rightarrow> 'g \<times> string option" where
  "update_pools G [] g = (g, None)"
| "update_pools G (row # rows) g = (case liquidityPoolToXDR row of
       Inl e \<Rightarrow> (g, Some e)
     | Inr pool \<Rightarrow>
         update_pools G rows (if poolDeleted row then RemoveLiquidityPool G pool g else AddLiquidityPools G pool g))"

definition update_offer :: "'g obgraph \<Rightarrow> Offer \<Rightarrow> 'g \<Rightarrow> 'g" where
  "update_offer G row g = (if offerDeleted row then RemoveOffer G (OfferID row) g else AddOffers G (offerToXDR row) g)"

text \<open>Both ways to bring the graph up to date end with \<open>Apply\<close>, and with the deferred \<open>Discard\<close>.\<close>

definition apply_and_discard :: "'g obgraph \<Rightarrow> u32 \<Rightarrow> 'g OrderBookStream \<Rightarrow> 'g OrderBookStream \<times> string option" where
  "apply_and_discard G ledger o' = (case Apply G ledger (graph o') of
       Inl e \<Rightarrow> (o'\<lparr>graph := Discard G (graph o')\<rparr>, Some e)
     | Inr g \<Rightarrow> (o'\<lparr>graph := Discard G g, lastLedger := ledger\<rparr>, None))"

definition load_all :: "'g obgraph \<Rightarrow> book_faults \<Rightarrow> book_db \<Rightarrow> u32 \<Rightarrow> 'g OrderBookStream \<Rightarrow> 'g OrderBookStream \<times> string option" where
  "load_all G flt db ledger o' =
     (let rows = StreamAllOffers 0 db;
          add = (\<lambda>rows g. fold (\<lambda>row. AddOffers G (offerToXDR row)) rows g) in
      case flt StreamOffers of
        Some (e, n) \<Rightarrow> (o'\<lparr>graph := Discard G (add (take n rows) (graph o'))\<rparr>, Some e)
      | None \<Rightarrow>
          let g1 = add rows (graph o'); pools = StreamAllLiquidityPools db in
          (case flt StreamPools of
             Some (e, n) \<Rightarrow> (o'\<lparr>graph := Discard G (fst (add_pools G (take n pools) g1))\<rparr>, Some e)
           | None \<Rightarrow> (case add_pools G pools g1 of
                 (g2, Some e) \<Rightarrow> (o'\<lparr>graph := Discard G g2\<rparr>, Some e)
               | (g2, None) \<Rightarrow> apply_and_discard G ledger (o'\<lparr>graph := g2\<rparr>))))"

definition load_updates :: "'g obgraph \<Rightarrow> book_faults \<Rightarrow> book_db \<Rightarrow> u32 \<Rightarrow> 'g OrderBookStream \<Rightarrow> 'g OrderBookStream \<times> string option" where
  "load_updates G flt db ledger o' = (case book_read flt UpdatedOffers (GetUpdatedOffers (lastLedger o') db) of
       Inl e \<Rightarrow> (o'\<lparr>graph := Discard G (graph o')\<rparr>, Some e)
     | Inr rows \<Rightarrow> (case book_read flt UpdatedPools (GetUpdatedLiquidityPools (lastLedger o') db) of
           Inl e \<Rightarrow> (o'\<lparr>graph := Discard G (graph o')\<rparr>, Some e)
         | Inr pools \<Rightarrow> (case update_pools G pools (fold (update_offer G) rows (graph o')) of
               (g, Some e) \<Rightarrow> (o'\<lparr>graph := Discard G g\<rparr>, Some e)
             | (g, None) \<Rightarrow> apply_and_discard G ledger (o'\<lparr>graph := g\<rparr>))))"

text \<open>\<open>update\<close>: the stream afterwards, whether the graph was reset, and the error.\<close>

definition update_book :: "'g obgraph \<Rightarrow> book_faults \<Rightarrow> book_db \<Rightarrow> ingestionStatus \<Rightarrow> 'g OrderBookStream \<Rightarrow>
    'g OrderBookStream \<times> bool \<times> string option" where
  "update_book G flt db status o' =
     (if needs_reset status o' then
        let o1 = o'\<lparr>graph := Clear G (graph o'), lastLedger := 0\<rparr> in
        if StateInvalid status \<or> \<not> HistoryConsistentWithState status then (o1, True, None)
        else (let (o2, err) = load_all G flt db (LastIngestedLedger status) o1 in (o2, True, err))
      else if LastIngestedLedger status = lastLedger o' then (o', False, None)
      else (let (o2, err) = load_updates G flt db (LastIngestedLedger status) o' in (o2, False, err)))"

subsubsection \<open>Verification\<close>

fun same_offers :: "'g obgraph \<Rightarrow> Offer list \<Rightarrow> OfferEntry list \<Rightarrow> string + bool" where
  "same_offers G (row # rows) (entry # entries) = (case MarshalOffer G entry of
       Inl e \<Rightarrow> Inl e
     | Inr entryBase64 \<Rightarrow> (case MarshalOffer G (offerToXDR row) of
           Inl e \<Rightarrow> Inl e
         | Inr rowBase64 \<Rightarrow> if entryBase64 \<noteq> rowBase64 then Inr False else same_offers G rows entries))"
| "same_offers G rows entries = Inr True"

definition verifyAllOffers :: "'g obgraph \<Rightarrow> book_faults \<Rightarrow> book_db \<Rightarrow> OfferEntry list \<Rightarrow> string + bool" where
  "verifyAllOffers G flt db entries = (case book_read flt VerifyOffers (StreamAllOffers 0 db) of
       Inl e \<Rightarrow> Inl e
     | Inr rows \<Rightarrow>
         if length entries \<noteq> length rows then Inr False
         else same_offers G (sort_key OfferID rows) (sort_key OfferId entries))"

fun same_pools :: "'g obgraph \<Rightarrow> LiquidityPool list \<Rightarrow> PoolEntry list \<Rightarrow> string + bool" where
  "same_pools G (row # rows) (entry # entries) = (case liquidityPoolToXDR row of
       Inl e \<Rightarrow> Inl e
     | Inr pool \<Rightarrow> (case MarshalPool G entry of
           Inl e \<Rightarrow> Inl e
         | Inr entryBase64 \<Rightarrow> (case MarshalPool G pool of
               Inl e \<Rightarrow> Inl e
             | Inr rowBase64 \<Rightarrow> if entryBase64 \<noteq> rowBase64 then Inr False else same_pools G rows entries)))"
| "same_pools G rows entries = Inr True"

text \<open>The order of strings, byte by byte.\<close>

fun string_le :: "string \<Rightarrow> string \<Rightarrow> bool" where
  "string_le [] ys = True"
| "string_le (x # xs) [] = False"
| "string_le (x # xs) (y # ys) =
     (let m = of_char x; n = (of_char y :: nat) in m < n \<or> m = n \<and> string_le xs ys)"

fun insert_by :: "('a \<Rightarrow> string) \<Rightarrow> 'a \<Rightarrow> 'a list \<Rightarrow> 'a list" where
  "insert_by f x [] = [x]"
| "insert_by f x (y # ys) = (if string_le (f x) (f y) then x # y # ys else y # insert_by f x ys)"

definition sort_by :: "('a \<Rightarrow> string) \<Rightarrow> 'a list \<Rightarrow> 'a list" where
  "sort_by f xs = foldr (insert_by f) xs []"

definition verifyAllLiquidityPools :: "'g obgraph \<Rightarrow> book_faults \<Rightarrow> book_db \<Rightarrow> PoolEntry list \<Rightarrow> string + bool" where
  "verifyAllLiquidityPools G flt db entries = (case book_read flt VerifyPools (StreamAllLiquidityPools db) of
       Inl e \<Rightarrow> Inl e
     | Inr rows \<Rightarrow>
         if length entries \<noteq> length rows then Inr False
         else same_pools G (sort_by PoolID rows) (sort_by (\<lambda>p. PoolIDToString (LiquidityPoolId p)) entries))"

definition verificationFrequency :: int where
  "verificationFrequency = 3600000000000"

text \<open>The check of the graph against the tables; \<open>cancelled\<close> is \<open>isCancelledError\<close> of an error.\<close>

definition verify_book :: "'g obgraph \<Rightarrow> book_faults \<Rightarrow> (string \<Rightarrow> bool) \<Rightarrow> int \<Rightarrow> book_db \<Rightarrow> 'g OrderBookStream \<Rightarrow> 'g OrderBookStream" where
  "verify_book G flt cancelled now db o' = (case Verify G (graph o') of
       Inl e \<Rightarrow> o'\<lparr>lastVerification := now, lastLedger := 0\<rparr>
     | Inr (entries, pools) \<Rightarrow> (case verifyAllOffers G flt db entries of
           Inl e \<Rightarrow> if \<not> cancelled e then o'
             else (case verifyAllLiquidityPools G flt db pools of
                 Inl e' \<Rightarrow> if \<not> cancelled e' then o' else o'\<lparr>lastVerification := now, lastLedger := 0\<rparr>
               | Inr poolsOk \<Rightarrow> o'\<lparr>lastVerification := now, lastLedger := 0\<rparr>)
         | Inr offersOk \<Rightarrow> (case verifyAllLiquidityPools G flt db pools of
               Inl e' \<Rightarrow> if \<not> cancelled e' then o' else o'\<lparr>lastVerification := now, lastLedger := 0\<rparr>
             | Inr poolsOk \<Rightarrow>
                 if \<not> offersOk \<or> \<not> poolsOk then o'\<lparr>lastVerification := now, lastLedger := 0\<rparr>
                 else o'\<lparr>lastVerification := now\<rparr>)))"

definition Update :: "'g obgraph \<Rightarrow> book_faults \<Rightarrow> (string \<Rightarrow> bool) \<Rightarrow> int \<Rightarrow> int \<Rightarrow> book_db \<Rightarrow> 'g OrderBookStream \<Rightarrow>
    'g OrderBookStream \<times> string option" where
  "Update G flt cancelled now jitter db o' = (case book_read flt BeginTx () of
       Inl e \<Rightarrow> (o', Some e)
     | Inr _ \<Rightarrow> (case getIngestionStatus flt db of
           Inl e \<Rightarrow> (o', Some e)
         | Inr status \<Rightarrow> (case update_book G flt db status o' of
               (o1, reset, Some e) \<Rightarrow> (o1, Some e)
             | (o1, True, None) \<Rightarrow> (o1, None)
             | (o1, False, None) \<Rightarrow>
                 if 0 < lastLedger o1 \<and> verificationFrequency + jitter \<le> now - lastVerification o1
                 then (verify_book G flt cancelled now db o1, None)
                 else (o1, None))))"

end
