(* ===== verification/Keyed_Table.thy ===== *)
theory Keyed_Table
  imports Order_Book
begin

text \<open>
  Tables with a primary key: a table is the list of its rows, in no particular order, and what it says about a
  key is the row with that key. The locale \<open>keyed\<close> has what the statements do to it: inserts, upserts and
  deletions. The tables of offers, pools, accounts, data entries, trust lines and claimable balances are instances.
\<close>

definition overlay :: "('k \<Rightarrow> 'r option) \<Rightarrow> ('k \<Rightarrow> 'r option) \<Rightarrow> 'k \<Rightarrow> 'r option" where
  "overlay new m k = (case new k of None \<Rightarrow> m k | Some r \<Rightarrow> Some r)"

lemma overlay_upd: "overlay (m(k \<mapsto> r)) n = (overlay m n)(k \<mapsto> r)"
  by (auto simp: overlay_def fun_eq_iff)

lemma dom_overlay: "dom (overlay m n) = dom m \<union> dom n"
  by (auto simp: overlay_def split: option.splits)

lemma overlay_simps [simp]: "overlay Map.empty m = m" "overlay (\<lambda>k. None) m = m"
  "overlay a (overlay b m) = overlay (overlay a b) m"
  by (auto simp: overlay_def fun_eq_iff split: option.split)

locale keyed =
  fixes key :: "'r \<Rightarrow> 'k"
begin

definition row :: "'r list \<Rightarrow> 'k \<Rightarrow> 'r option" where
  "row t k = List.find (\<lambda>r. key r = k) t"

lemma row_Nil [simp]: "row [] = Map.empty"
  by (simp add: row_def fun_eq_iff)

lemma row_Cons: "row (r # t) k = (if key r = k then Some r else row t k)"
  by (simp add: row_def)

lemma row_append: "row (t @ u) k = (case row t k of None \<Rightarrow> row u k | Some r \<Rightarrow> Some r)"
  by (induction t) (simp_all add: row_Cons)

lemma row_SomeD: "row t k = Some r \<Longrightarrow> r \<in> set t \<and> key r = k"
  by (auto simp: row_def find_Some_iff)

lemma row_None_iff: "row t k = None \<longleftrightarrow> k \<notin> key ` set t"
  by (auto simp: row_def find_None_iff)

lemma row_Some_iff: "distinct (map key t) \<Longrightarrow> row t k = Some r \<longleftrightarrow> r \<in> set t \<and> key r = k"
  by (induction t) (auto simp: row_Cons)

lemma row_filter:
  assumes "distinct (map key t)"
  shows "row (filter P t) k = (case row t k of None \<Rightarrow> None | Some r \<Rightarrow> if P r then Some r else None)"
  using assms by (induction t) (auto simp: row_Cons row_None_iff [THEN iffD2] split: option.split)

lemma row_fresh:
  assumes "key r \<notin> key ` set (a @ b)"
  shows "row (a @ r # b) = (row (a @ b))(key r \<mapsto> r)"
proof -
  have "row a (key r) = None" "row b (key r) = None" using assms by (simp_all add: row_None_iff image_Un)
  then show ?thesis by (auto simp: fun_eq_iff row_append row_Cons split: option.split)
qed

lemma keys_row: "key ` set t = dom (row t)"
proof (rule set_eqI)
  show "k \<in> key ` set t \<longleftrightarrow> k \<in> dom (row t)" for k using row_None_iff [of t k] by (simp add: domIff)
qed

lemma row_insert:
  assumes "distinct (map key (t @ rows))"
  shows "row (t @ rows) = overlay (row rows) (row t)"
proof
  fix k
  have "row t k = None \<or> row rows k = None" using assms by (auto simp: row_None_iff)
  then show "row (t @ rows) k = overlay (row rows) (row t) k" by (auto simp: row_append overlay_def split: option.split)
qed

lemma row_upsert: "row (upsertRow key r t) k = (if k = key r then Some r else row t k)"
proof (cases "key r \<in> key ` set t")
  case True
  have "row (map (\<lambda>x. if key x = key r then r else x) t) k =
      (case row t k of None \<Rightarrow> None | Some x \<Rightarrow> Some (if k = key r then r else x))" for t
    by (induction t) (auto simp: row_Cons)
  moreover have "row t (key r) \<noteq> None" using True by (simp add: row_None_iff)
  ultimately show ?thesis using True by (auto simp: upsertRow_def split: option.split)
next
  case False
  then have "row t (key r) = None" by (simp add: row_None_iff)
  with False show ?thesis by (auto simp: upsertRow_def row_append row_Cons split: option.split)
qed

lemma distinct_upsert: "distinct (map key t) \<Longrightarrow> distinct (map key (upsertRow key r t))"
proof -
  have "map key (map (\<lambda>x. if key x = key r then r else x) t) = map key t" by (induction t) auto
  then show "distinct (map key t) \<Longrightarrow> distinct (map key (upsertRow key r t))"
    by (auto simp: upsertRow_def simp del: map_map)
qed

lemma row_upserts:
  assumes "distinct (map key rows)"
  shows "row (fold (upsertRow key) rows t) = overlay (row rows) (row t)"
  using assms
proof (induction rows arbitrary: t)
  case (Cons r rows)
  have none: "row rows (key r) = None" using Cons.prems by (simp add: row_None_iff)
  have "row (fold (upsertRow key) (r # rows) t) = overlay (row rows) (row (upsertRow key r t))"
    using Cons by simp
  also have "\<dots> = overlay (row (r # rows)) (row t)"
    using none by (auto simp: fun_eq_iff overlay_def row_upsert row_Cons split: option.split)
  finally show ?case .
qed simp

lemma distinct_upserts: "distinct (map key t) \<Longrightarrow> distinct (map key (fold (upsertRow key) rows t))"
  by (induction rows arbitrary: t) (simp_all add: distinct_upsert)

end

end
