(* ===== verification/Order_Book_Props.thy ===== *)
theory Order_Book_Props
  imports Keyed_Table
begin

text \<open>
  The order book stream follows the ledger: as long as the stream has a last ledger, its graph holds the
  offers and pools of that ledger. The argument is the same for both tables: a table that keeps deleted
  rows until they are compacted tells what has changed since any ledger that is not older than the
  compaction. The locale \<open>tombstones\<close> holds it, for the columns such a table has.
\<close>

subsection \<open>Tables that keep deleted rows\<close>

locale tombstones = keyed key
  for key :: "'r \<Rightarrow> 'k" +
  fixes modified :: "'r \<Rightarrow> u32" and deleted :: "'r \<Rightarrow> bool" and content :: "'r \<Rightarrow> 'v"
begin

definition live :: "'r list \<Rightarrow> 'k \<Rightarrow> 'v option" where
  "live t k = (case row t k of None \<Rightarrow> None | Some r \<Rightarrow> if deleted r then None else Some (content r))"

definition compacted :: "u32 \<Rightarrow> 'r option \<Rightarrow> 'r option" where
  "compacted cutoff x = (case x of None \<Rightarrow> None | Some r \<Rightarrow> if deleted r \<and> modified r \<le> cutoff then None else Some r)"

lemma row_compact: "distinct (map key t) \<Longrightarrow> row (compactRows deleted modified cutoff t) k = compacted cutoff (row t k)"
  by (simp add: compactRows_def row_filter compacted_def split: option.split)

lemma compacted_idem: "y = compacted c x \<or> y = x \<Longrightarrow> compacted c y = compacted c x"
  by (cases x) (auto simp: compacted_def)

text \<open>Rows as changes of the live entries, one after the other.\<close>

definition apply_row :: "'r \<Rightarrow> ('k \<Rightarrow> 'v option) \<Rightarrow> 'k \<Rightarrow> 'v option" where
  "apply_row r m = m(key r := if deleted r then None else Some (content r))"

definition shown :: "'r option \<Rightarrow> 'v option \<Rightarrow> 'v option" where
  "shown x v = (case x of None \<Rightarrow> v | Some r \<Rightarrow> if deleted r then None else Some (content r))"

lemma live_shown: "live t k = shown (row t k) None"
  by (simp add: live_def shown_def)

lemma shown_compacted: "shown (compacted c x) None = shown x None"
  by (simp add: shown_def compacted_def split: option.split)

lemma shown_overlay: "shown (overlay new m k) v = shown (new k) (shown (m k) v)"
  by (simp add: shown_def overlay_def split: option.split)

lemma replay_distinct: "distinct (map key rows) \<Longrightarrow> fold apply_row rows m k = shown (row rows k) (m k)"
proof (induction rows arbitrary: m)
  case (Cons r rows)
  have none: "row rows (key r) = None" using Cons.prems by (simp add: row_None_iff)
  show ?case using Cons none by (simp add: apply_row_def row_Cons shown_def)
qed (simp add: shown_def)

text \<open>The table after the rows of a ledger were written shows the live entries with these rows applied.\<close>

lemma live_written:
  assumes "distinct (map key rows)" "\<forall>k. row t' k = compacted c (overlay (row rows) (row t) k) \<or> row t' k = overlay (row rows) (row t) k"
  shows "live t' = fold apply_row rows (live t)"
proof
  fix k
  have "live t' k = shown (overlay (row rows) (row t) k) None"
    using assms(2) [rule_format, of k] by (auto simp: live_shown shown_compacted)
  then show "live t' k = fold apply_row rows (live t) k"
    using assms(1) by (simp add: shown_overlay replay_distinct live_shown)
qed

lemma set_written:
  assumes "distinct (map key t')" "\<forall>k. row t' k = compacted c (overlay (row rows) (row t) k) \<or> row t' k = overlay (row rows) (row t) k"
  shows "set t' \<subseteq> set rows \<union> set t"
proof
  fix r assume "r \<in> set t'"
  then have "row t' (key r) = Some r" using assms(1) by (simp add: row_Some_iff)
  then have "overlay (row rows) (row t) (key r) = Some r" using assms(2) [rule_format, of "key r"]
    by (auto simp: compacted_def split: option.splits if_splits)
  then show "r \<in> set rows \<union> set t" by (auto simp: overlay_def dest: row_SomeD split: option.splits)
qed

text \<open>
  A table at ledger \<open>now\<close> that was last compacted at \<open>cutoff\<close> tells what has changed since any ledger that is not
  older than that: an entry without a newer row is what it was.
\<close>

definition tells :: "u32 \<Rightarrow> u32 \<Rightarrow> u32 \<Rightarrow> (u32 \<Rightarrow> 'k \<Rightarrow> 'v option) \<Rightarrow> 'r list \<Rightarrow> bool" where
  "tells start cutoff now past t \<longleftrightarrow> distinct (map key t) \<and> (\<forall>r\<in>set t. modified r \<le> now) \<and>
     (\<forall>l k. start \<le> l \<and> cutoff \<le> l \<and> l \<le> now \<and> (\<forall>r. row t k = Some r \<longrightarrow> modified r \<le> l) \<longrightarrow> past l k = live t k)"

lemma tells_now: "tells start cutoff now past t \<Longrightarrow> start \<le> now \<Longrightarrow> cutoff \<le> now \<Longrightarrow> past now = live t"
  unfolding tells_def using row_SomeD by (intro ext) blast

lemma tells_step:
  assumes t: "tells start cutoff now past t" and now: "now < now'" "\<forall>l. l < now' \<longrightarrow> l \<le> now"
    and cuts: "\<forall>l. start \<le> l \<and> cutoff' \<le> l \<longrightarrow> cutoff \<le> l" "cutoff' < now'"
    and rows: "\<forall>r k. new k = Some r \<longrightarrow> modified r = now'"
    and t': "distinct (map key t')" "\<forall>k. row t' k = compacted cutoff' (overlay new (row t) k) \<or> row t' k = overlay new (row t) k"
  shows "tells start cutoff' now' (past(now' := live t')) t'"
  unfolding tells_def
proof (intro conjI ballI allI impI t'(1))
  fix r assume "r \<in> set t'"
  then have "row t' (key r) = Some r" using t'(1) by (simp add: row_Some_iff)
  then have o: "overlay new (row t) (key r) = Some r" using t'(2) [rule_format, of "key r"]
    by (auto simp: compacted_def split: option.splits if_splits)
  show "modified r \<le> now'"
  proof (cases "new (key r)")
    case None
    with o have "r \<in> set t" by (auto simp: overlay_def dest: row_SomeD)
    with t have "modified r \<le> now" by (simp add: tells_def)
    with now(1) show ?thesis by simp
  next
    case (Some r')
    with o have "r' = r" by (simp add: overlay_def)
    with rows Some have "modified r = now'" by blast
    then show ?thesis by simp
  qed
next
  fix l k assume l: "start \<le> l \<and> cutoff' \<le> l \<and> l \<le> now' \<and> (\<forall>r. row t' k = Some r \<longrightarrow> modified r \<le> l)"
  show "(past(now' := live t')) l k = live t' k"
  proof (cases "l = now'")
    case False
    then have less1: "l < now'" using l by (simp add: less_le)
    then have "l \<le> now" using now(2) by blast
    note less = less1 this
    have old: "past l k = live t k" if "\<forall>r. row t k = Some r \<longrightarrow> modified r \<le> l"
      using t l less(2) cuts(1) that unfolding tells_def by blast
    have none: "new k = None"
    proof (rule ccontr)
      assume "new k \<noteq> None"
      then obtain r where r: "new k = Some r" "modified r = now'" using rows by blast
      then have "row t' k = Some r"
        using t'(2) [rule_format, of k] cuts(2) by (auto simp: overlay_def compacted_def)
      with l r(2) less(1) show False by auto
    qed
    then consider "row t' k = row t k" | r where "row t k = Some r" "deleted r" "modified r \<le> cutoff'" "row t' k = None"
      using t'(2) [rule_format, of k] by (auto simp: overlay_def compacted_def split: option.splits if_splits)
    then have "past l k = live t' k"
    proof cases
      case 1
      with old l show ?thesis by (simp add: live_def)
    next
      case (2 r)
      then have "modified r \<le> l" using l by (meson order_trans)
      with 2 old show ?thesis by (simp add: live_def)
    qed
    with False show ?thesis by simp
  qed simp
qed

text \<open>Replaying the rows that are newer than a ledger on the entries of that ledger gives the entries of now.\<close>

lemma tells_replay:
  assumes "tells start cutoff now past t" "start \<le> l" "cutoff \<le> l" "l \<le> now"
  shows "fold apply_row (updatedRows modified l t) (past l) = live t"
proof
  fix k
  have d: "distinct (map key t)" using assms(1) by (simp add: tells_def)
  then have "distinct (map key (updatedRows modified l t))" by (simp add: updatedRows_def distinct_map_filter)
  then have "fold apply_row (updatedRows modified l t) (past l) k = shown (row (updatedRows modified l t) k) (past l k)"
    by (rule replay_distinct)
  also have "\<dots> = live t k"
  proof (cases "\<exists>r. row t k = Some r \<and> l < modified r")
    case True
    then show ?thesis using d by (auto simp: updatedRows_def row_filter live_def shown_def)
  next
    case False
    then have "\<forall>r. row t k = Some r \<longrightarrow> modified r \<le> l" by (auto simp: not_less)
    then have "past l k = live t k" using assms(2-4) assms(1) [unfolded tells_def, THEN conjunct2, THEN conjunct2, rule_format, of l k] by simp
    with False d show ?thesis by (auto simp: updatedRows_def row_filter shown_def split: option.split)
  qed
  finally show "fold apply_row (updatedRows modified l t) (past l) k = live t k" .
qed

text \<open>Loading all live rows gives the live entries.\<close>

lemma load_live:
  assumes "distinct (map key t)" "distinct (map key rows)" "\<forall>r. r \<in> set rows \<longleftrightarrow> r \<in> set t \<and> \<not> deleted r"
  shows "fold apply_row rows (\<lambda>k. None) = live t"
proof
  fix k
  have row: "row rows k = Some r \<longleftrightarrow> row t k = Some r \<and> \<not> deleted r" for r
    using assms by (auto simp: row_Some_iff)
  have "shown (row rows k) None = shown (row t k) None"
  proof (cases "row t k")
    case None
    with row [of "the (row rows k)"] have "row rows k = None" by (cases "row rows k") simp_all
    with None show ?thesis by simp
  next
    case (Some r)
    with row [of r] row [of "the (row rows k)"] have "row rows k = (if deleted r then None else Some r)" by (cases "row rows k") auto
    with Some show ?thesis by (simp add: shown_def)
  qed
  then show "fold apply_row rows (\<lambda>k. None) k = live t k" using assms(2) by (simp add: replay_distinct live_shown)
qed

end

interpretation ot: tombstones OfferID offerModified offerDeleted offerToXDR .

definition pool_content :: "LiquidityPool \<Rightarrow> PoolEntry" where
  "pool_content r = (case liquidityPoolToXDR r of Inr e \<Rightarrow> e | Inl m \<Rightarrow> undefined)"

interpretation pt: tombstones PoolID poolModified poolDeleted pool_content .

definition live_offers :: "book_db \<Rightarrow> int \<Rightarrow> OfferEntry option" where
  "live_offers db = ot.live (offers db)"

definition live_pools :: "book_db \<Rightarrow> string \<Rightarrow> PoolEntry option" where
  "live_pools db = pt.live (liquidity_pools db)"

subsection \<open>Rows are read back\<close>

lemma offerToXDR_row: "offerToXDR (offer_row e) = Data e" "OfferID (offer_row e) = OfferId (Data e)"
  by (simp_all add: offerToXDR_def offer_row_def Let_def)

lemma liquidityPoolToXDR_row: "length (LiquidityPoolId (Data e)) = 32 \<Longrightarrow> liquidityPoolToXDR (pool_row e) = Inr (Data e)"
  by (simp add: liquidityPoolToXDR_def pool_row_def Let_def PoolIDToString_def hex_decode_encode)

subsection \<open>Changes of a ledger\<close>

text \<open>
  Every entry changes at most once in a ledger. An offer identifier is positive and never used again, so a
  created offer has no row; a created or updated entry was modified by this ledger.
\<close>

definition entry_of :: "'d entry_change \<Rightarrow> 'd ledger_entry option" where
  "entry_of ch = (case PostEntry ch of Some e \<Rightarrow> Some e | None \<Rightarrow> PreEntry ch)"

definition offer_changes_ok :: "u32 \<Rightarrow> Offer list \<Rightarrow> OfferEntry entry_change list \<Rightarrow> bool" where
  "offer_changes_ok sequence t chs \<longleftrightarrow>
     distinct (map (\<lambda>ch. map_option (\<lambda>e. OfferId (Data e)) (entry_of ch)) chs) \<and>
     (\<forall>ch\<in>set chs. \<exists>e. entry_of ch = Some e \<and> 0 < OfferId (Data e) \<and>
        (PostEntry ch \<noteq> None \<longrightarrow> LastModifiedLedgerSeq e = sequence) \<and>
        (PreEntry ch = None \<longrightarrow> OfferId (Data e) \<notin> OfferID ` set t))"

definition pool_changes_ok :: "u32 \<Rightarrow> PoolEntry entry_change list \<Rightarrow> bool" where
  "pool_changes_ok sequence chs \<longleftrightarrow>
     distinct (map (\<lambda>ch. map_option (\<lambda>e. LiquidityPoolId (Data e)) (entry_of ch)) chs) \<and>
     (\<forall>ch\<in>set chs. \<exists>e. entry_of ch = Some e \<and> length (LiquidityPoolId (Data e)) = 32 \<and>
        (PostEntry ch \<noteq> None \<longrightarrow> LastModifiedLedgerSeq e = sequence))"

text \<open>The row a change leaves.\<close>

definition offer_change_row :: "u32 \<Rightarrow> OfferEntry entry_change \<Rightarrow> Offer" where
  "offer_change_row sequence ch = (case PostEntry ch of
       Some e \<Rightarrow> offer_row e
     | None \<Rightarrow> (offer_row (the (PreEntry ch)))\<lparr>offerDeleted := True, offerModified := sequence\<rparr>)"

definition pool_change_row :: "u32 \<Rightarrow> PoolEntry entry_change \<Rightarrow> LiquidityPool" where
  "pool_change_row sequence ch = (case PostEntry ch of
       Some e \<Rightarrow> pool_row e
     | None \<Rightarrow> (pool_row (the (PreEntry ch)))\<lparr>poolDeleted := True, poolModified := sequence\<rparr>)"

lemma flushCache_ok:
  assumes "distinct (map OfferID (offers db @ insertBatch p))" "distinct (map OfferID (insertBatch p @ batchUpdateOffers p))"
  shows "\<exists>t. flushCache p db = Inr (p\<lparr>batchUpdateOffers := [], insertBatch := []\<rparr>, db\<lparr>offers := t\<rparr>) \<and> distinct (map OfferID t) \<and>
    ot.row t = overlay (ot.row (insertBatch p @ batchUpdateOffers p)) (ot.row (offers db))"
proof -
  let ?t = "offers db @ insertBatch p"
  let ?u = "fold (upsertRow OfferID) (batchUpdateOffers p) ?t"
  have "ot.row ?u = overlay (ot.row (batchUpdateOffers p)) (overlay (ot.row (insertBatch p)) (ot.row (offers db)))"
    using ot.row_upserts [of "batchUpdateOffers p" ?t] ot.row_insert [OF assms(1)] assms(2) by simp
  also have "\<dots> = overlay (ot.row (insertBatch p @ batchUpdateOffers p)) (ot.row (offers db))"
    using ot.row_insert [OF assms(2)] by simp
  finally have "ot.row ?u = overlay (ot.row (insertBatch p @ batchUpdateOffers p)) (ot.row (offers db))" .
  moreover have "distinct (map OfferID ?u)" by (rule ot.distinct_upserts [OF assms(1)])
  moreover have "flushCache p db = Inr (p\<lparr>batchUpdateOffers := [], insertBatch := []\<rparr>, db\<lparr>offers := ?u\<rparr>)"
    using assms by (simp add: flushCache_def batchInsert_def upsertRows_def)
  ultimately show ?thesis by blast
qed

text \<open>The offers processor between two changes: what is still queued completes the table to all changes so far.\<close>

definition offers_inv :: "u32 \<Rightarrow> Offer list \<Rightarrow> Offer list \<Rightarrow> OffersProcessor \<Rightarrow> book_db \<Rightarrow> bool" where
  "offers_inv sequence t done p db \<longleftrightarrow> op_sequence p = sequence \<and> distinct (map OfferID (offers db)) \<and> distinct (map OfferID done) \<and>
     overlay (ot.row (insertBatch p @ batchUpdateOffers p)) (ot.row (offers db)) = overlay (ot.row done) (ot.row t) \<and>
     distinct (map OfferID (insertBatch p @ batchUpdateOffers p)) \<and>
     OfferID ` set (insertBatch p @ batchUpdateOffers p) \<subseteq> OfferID ` set done \<and>
     OfferID ` set (offers db) \<subseteq> OfferID ` set t \<union> OfferID ` set done \<and>
     OfferID ` set (insertBatch p) \<inter> OfferID ` set (offers db) = {}"

lemma offers_inv_flush:
  assumes "offers_inv sequence t done p db"
  shows "\<exists>t'. flushCache p db = Inr (p\<lparr>batchUpdateOffers := [], insertBatch := []\<rparr>, db\<lparr>offers := t'\<rparr>) \<and>
    offers_inv sequence t done (p\<lparr>batchUpdateOffers := [], insertBatch := []\<rparr>) (db\<lparr>offers := t'\<rparr>)"
proof -
  have d: "distinct (map OfferID (offers db @ insertBatch p))" "distinct (map OfferID (insertBatch p @ batchUpdateOffers p))"
    using assms by (auto simp: offers_inv_def)
  obtain t' where t': "flushCache p db = Inr (p\<lparr>batchUpdateOffers := [], insertBatch := []\<rparr>, db\<lparr>offers := t'\<rparr>)" "distinct (map OfferID t')"
    "ot.row t' = overlay (ot.row (insertBatch p @ batchUpdateOffers p)) (ot.row (offers db))" using flushCache_ok [OF d] by blast
  then have r: "ot.row t' = overlay (ot.row done) (ot.row t)" using assms by (simp add: offers_inv_def)
  have "OfferID ` set t' \<subseteq> OfferID ` set t \<union> OfferID ` set done" unfolding ot.keys_row r dom_overlay by blast
  then have "offers_inv sequence t done (p\<lparr>batchUpdateOffers := [], insertBatch := []\<rparr>) (db\<lparr>offers := t'\<rparr>)"
    using assms t'(2) r by (simp add: offers_inv_def)
  with t'(1) show ?thesis by blast
qed

lemma offers_inv_change:
  assumes inv: "offers_inv sequence t done p db" and e: "entry_of ch = Some e"
    and fresh: "OfferId (Data e) \<notin> OfferID ` set done" "PreEntry ch = None \<longrightarrow> OfferId (Data e) \<notin> OfferID ` set t"
  shows "\<exists>p' t'. Offers_ProcessChange ch p db = Inr (p', db\<lparr>offers := t'\<rparr>) \<and>
    offers_inv sequence t (done @ [offer_change_row sequence ch]) p' (db\<lparr>offers := t'\<rparr>)"
proof -
  let ?r = "offer_change_row sequence ch"
  let ?p = "if PreEntry ch = None then p\<lparr>insertBatch := insertBatch p @ [?r]\<rparr> else p\<lparr>batchUpdateOffers := batchUpdateOffers p @ [?r]\<rparr>"
  have key: "OfferID ?r = OfferId (Data e)"
    using e by (auto simp: entry_of_def offer_change_row_def offer_row_def Let_def split: option.splits)
  have fr: "OfferID ?r \<notin> OfferID ` set (insertBatch p @ batchUpdateOffers p)" "OfferID ?r \<notin> OfferID ` set done"
    using inv fresh(1) by (auto simp: offers_inv_def key)
  have rows: "ot.row (insertBatch ?p @ batchUpdateOffers ?p) = (ot.row (insertBatch p @ batchUpdateOffers p))(OfferID ?r \<mapsto> ?r)"
    "ot.row (done @ [?r]) = (ot.row done)(OfferID ?r \<mapsto> ?r)"
    using ot.row_fresh [of ?r "insertBatch p" "batchUpdateOffers p"] ot.row_fresh [of ?r "insertBatch p @ batchUpdateOffers p" "[]"]
      ot.row_fresh [of ?r "done" "[]"] fr by simp_all
  have table: "OfferID ?r \<notin> OfferID ` set (offers db)" if "PreEntry ch = None"
    using that inv fresh by (auto simp: offers_inv_def key)
  have inv': "offers_inv sequence t (done @ [?r]) ?p db"
    unfolding offers_inv_def rows overlay_upd
    using inv fr table by (auto simp: offers_inv_def)
  have eq: "Offers_ProcessChange ch p db =
      (if maxBatchSize < length (insertBatch ?p) + length (batchUpdateOffers ?p) then flushCache ?p db else Inr (?p, db))"
    using e inv by (cases "PreEntry ch"; cases "PostEntry ch")
      (simp_all add: Offers_ProcessChange_def offer_change_row_def entry_of_def Let_def offers_inv_def)
  show ?thesis
  proof (cases "maxBatchSize < length (insertBatch ?p) + length (batchUpdateOffers ?p)")
    case True
    with offers_inv_flush [OF inv'] show ?thesis unfolding eq by auto
  next
    case False
    then have "Offers_ProcessChange ch p db = Inr (?p, db\<lparr>offers := offers db\<rparr>)" unfolding eq by simp
    with inv' show ?thesis by (metis (no_types, lifting) book_db.surjective book_db.update_convs(1))
  qed
qed

lemma offers_process:
  assumes "offers_inv sequence t done p db" "\<forall>ch\<in>set chs. \<exists>e. entry_of ch = Some e \<and> (PreEntry ch = None \<longrightarrow> OfferId (Data e) \<notin> OfferID ` set t)"
    and "distinct (map OfferID done @ map (\<lambda>ch. OfferId (Data (the (entry_of ch)))) chs)"
  shows "\<exists>p' t'. Offers_ProcessChanges chs p db = Inr (p', db\<lparr>offers := t'\<rparr>) \<and>
    offers_inv sequence t (done @ map (offer_change_row sequence) chs) p' (db\<lparr>offers := t'\<rparr>)"
  using assms
proof (induction chs arbitrary: "done" p db)
  case Nil
  moreover have "db = db\<lparr>offers := offers db\<rparr>" by simp
  ultimately show ?case by (metis Offers_ProcessChanges.simps(1) append_Nil2 list.map(1))
next
  case (Cons ch chs)
  obtain e where e: "entry_of ch = Some e" "PreEntry ch = None \<longrightarrow> OfferId (Data e) \<notin> OfferID ` set t" using Cons.prems(2) by auto
  have key: "OfferID (offer_change_row sequence ch) = OfferId (Data e)"
    using e(1) by (auto simp: entry_of_def offer_change_row_def offer_row_def Let_def split: option.splits)
  have "OfferId (Data e) \<notin> OfferID ` set done" using Cons.prems(3) e(1) by auto
  from offers_inv_change [OF Cons.prems(1) e(1) this e(2)] obtain p1 t1 where
    1: "Offers_ProcessChange ch p db = Inr (p1, db\<lparr>offers := t1\<rparr>)"
      "offers_inv sequence t (done @ [offer_change_row sequence ch]) p1 (db\<lparr>offers := t1\<rparr>)" by blast
  have 2: "distinct (map OfferID (done @ [offer_change_row sequence ch]) @ map (\<lambda>ch. OfferId (Data (the (entry_of ch)))) chs)"
    using Cons.prems(3) e(1) key by simp
  obtain p' t' where "Offers_ProcessChanges chs p1 (db\<lparr>offers := t1\<rparr>) = Inr (p', db\<lparr>offers := t1\<rparr>\<lparr>offers := t'\<rparr>)"
      "offers_inv sequence t ((done @ [offer_change_row sequence ch]) @ map (offer_change_row sequence) chs) p' (db\<lparr>offers := t1\<rparr>\<lparr>offers := t'\<rparr>)"
    using Cons.IH [OF 1(2) _ 2] Cons.prems(2) by auto
  with 1(1) show ?case by auto
qed

text \<open>The ledger of the last compaction after a ledger was ingested.\<close>

definition cut_of :: "u32 \<Rightarrow> u32 \<Rightarrow> u32" where
  "cut_of sequence c = (if compactionWindow < sequence then sequence - compactionWindow else c)"

lemma offers_commit:
  assumes "offers_inv sequence t done p db"
  shows "\<exists>t'. Offers_Commit p db = Inr (db\<lparr>offers := t', offer_compaction := cut_of sequence (offer_compaction db)\<rparr>) \<and> distinct (map OfferID t') \<and>
    (\<forall>k. ot.row t' k = ot.compacted (cut_of sequence (offer_compaction db)) (overlay (ot.row done) (ot.row t) k) \<or>
         ot.row t' k = overlay (ot.row done) (ot.row t) k)"
proof -
  obtain u where u: "flushCache p db = Inr (p\<lparr>batchUpdateOffers := [], insertBatch := []\<rparr>, db\<lparr>offers := u\<rparr>)"
    "offers_inv sequence t done (p\<lparr>batchUpdateOffers := [], insertBatch := []\<rparr>) (db\<lparr>offers := u\<rparr>)"
    using offers_inv_flush [OF assms] by blast
  have d: "distinct (map OfferID u)" and r: "ot.row u = overlay (ot.row done) (ot.row t)" and seq: "op_sequence p = sequence"
    using u(2) by (simp_all add: offers_inv_def)
  show ?thesis
  proof (cases "compactionWindow < sequence")
    case True
    have "distinct (map OfferID (compactRows offerDeleted offerModified (cut_of sequence (offer_compaction db)) u))"
      using d by (simp add: compactRows_def distinct_map_filter)
    with True u(1) seq ot.row_compact [OF d] r show ?thesis by (auto simp: Offers_Commit_def CompactOffers_def cut_of_def)
  next
    case False
    have "db\<lparr>offers := u\<rparr> = db\<lparr>offers := u, offer_compaction := offer_compaction db\<rparr>" by simp
    with False u(1) seq r d show ?thesis by (auto simp: Offers_Commit_def cut_of_def)
  qed
qed

text \<open>The pools processor between two changes; a full batch is written and compacted on the way.\<close>

definition pools_inv :: "u32 \<Rightarrow> u32 \<Rightarrow> LiquidityPool list \<Rightarrow> LiquidityPool list \<Rightarrow> LiquidityPoolsChangeProcessor \<Rightarrow> book_db \<Rightarrow> bool" where
  "pools_inv sequence c t done p db \<longleftrightarrow> lp_sequence p = sequence \<and> distinct (map PoolID (liquidity_pools db)) \<and>
     distinct (map PoolID (lps p)) \<and> PoolID ` set (lps p) \<subseteq> PoolID ` set done \<and>
     (\<forall>k. overlay (pt.row (lps p)) (pt.row (liquidity_pools db)) k = pt.compacted (cut_of sequence c) (overlay (pt.row done) (pt.row t) k) \<or>
          overlay (pt.row (lps p)) (pt.row (liquidity_pools db)) k = overlay (pt.row done) (pt.row t) k) \<and>
     (pool_compaction db = c \<or> pool_compaction db = cut_of sequence c)"

lemma cut_of_cut: "cut_of sequence (cut_of sequence c) = cut_of sequence c"
  by (simp add: cut_of_def)

lemma pools_inv_commit:
  assumes "pools_inv sequence c t done p db"
  shows "\<exists>t'. Pools_Commit p db = Inr (p\<lparr>lps := []\<rparr>, db\<lparr>liquidity_pools := t', pool_compaction := cut_of sequence c\<rparr>) \<and>
    pools_inv sequence c t done (p\<lparr>lps := []\<rparr>) (db\<lparr>liquidity_pools := t', pool_compaction := cut_of sequence c\<rparr>)"
proof -
  let ?u = "fold (upsertRow PoolID) (lps p) (liquidity_pools db)"
  have d: "distinct (map PoolID ?u)" using assms pt.distinct_upserts by (simp add: pools_inv_def)
  have r: "pt.row ?u = overlay (pt.row (lps p)) (pt.row (liquidity_pools db))"
    using assms pt.row_upserts by (simp add: pools_inv_def)
  have eq: "Pools_Commit p db = Inr (p\<lparr>lps := []\<rparr>, if compactionWindow < lp_sequence p
      then CompactLiquidityPools (lp_sequence p - compactionWindow) (db\<lparr>liquidity_pools := ?u\<rparr>) else db\<lparr>liquidity_pools := ?u\<rparr>)"
    using assms by (simp add: Pools_Commit_def upsertRows_def pools_inv_def Let_def)
  show ?thesis
  proof (cases "compactionWindow < sequence")
    case True
    let ?t = "compactRows poolDeleted poolModified (cut_of sequence c) ?u"
    have d': "distinct (map PoolID ?t)" using d by (simp add: compactRows_def distinct_map_filter)
    have "pt.row ?t k = pt.compacted (cut_of sequence c) (overlay (pt.row done) (pt.row t) k)" for k
    proof -
      have "pt.row ?t k = pt.compacted (cut_of sequence c) (overlay (pt.row (lps p)) (pt.row (liquidity_pools db)) k)"
        using pt.row_compact [OF d] r by simp
      moreover have "overlay (pt.row (lps p)) (pt.row (liquidity_pools db)) k = pt.compacted (cut_of sequence c) (overlay (pt.row done) (pt.row t) k) \<or>
          overlay (pt.row (lps p)) (pt.row (liquidity_pools db)) k = overlay (pt.row done) (pt.row t) k"
        using assms by (simp add: pools_inv_def)
      ultimately show ?thesis by (simp add: pt.compacted_idem)
    qed
    with True assms d' show ?thesis unfolding eq
      by (auto simp: pools_inv_def CompactLiquidityPools_def cut_of_def)
  next
    case False
    then have c: "pool_compaction db = c" "cut_of sequence c = c" using assms by (auto simp: pools_inv_def cut_of_def)
    have "\<not> compactionWindow < lp_sequence p" using False assms by (simp add: pools_inv_def)
    then have "Pools_Commit p db = Inr (p\<lparr>lps := []\<rparr>, db\<lparr>liquidity_pools := ?u, pool_compaction := cut_of sequence c\<rparr>)"
      unfolding eq using c by simp
    moreover have "pools_inv sequence c t done (p\<lparr>lps := []\<rparr>) (db\<lparr>liquidity_pools := ?u, pool_compaction := cut_of sequence c\<rparr>)"
      using assms d r c by (simp add: pools_inv_def)
    ultimately show ?thesis by (intro exI conjI)
  qed
qed

lemma pool_change_key: "entry_of ch = Some e \<Longrightarrow> PoolID (pool_change_row sequence ch) = PoolIDToString (LiquidityPoolId (Data e))"
  by (auto simp: entry_of_def pool_change_row_def pool_row_def Let_def split: option.splits)

lemma pools_inv_change:
  assumes inv: "pools_inv sequence c t done p db" and e: "entry_of ch = Some e"
    and fresh: "PoolIDToString (LiquidityPoolId (Data e)) \<notin> PoolID ` set done"
  shows "\<exists>p' t' c'. Pools_ProcessChange ch p db = Inr (p', db\<lparr>liquidity_pools := t', pool_compaction := c'\<rparr>) \<and>
    pools_inv sequence c t (done @ [pool_change_row sequence ch]) p' (db\<lparr>liquidity_pools := t', pool_compaction := c'\<rparr>)"
proof -
  let ?r = "pool_change_row sequence ch" and ?p = "p\<lparr>lps := lps p @ [pool_change_row sequence ch]\<rparr>"
  have fr: "PoolID ?r \<notin> PoolID ` set done" "PoolID ?r \<notin> PoolID ` set (lps p)"
    using fresh inv pool_change_key [OF e] by (auto simp: pools_inv_def)
  have rows: "pt.row (lps p @ [?r]) = (pt.row (lps p))(PoolID ?r \<mapsto> ?r)" "pt.row (done @ [?r]) = (pt.row done)(PoolID ?r \<mapsto> ?r)"
    using pt.row_fresh [of ?r "lps p" "[]"] pt.row_fresh [of ?r "done" "[]"] fr by simp_all
  have inv': "pools_inv sequence c t (done @ [?r]) ?p db"
    using inv fr by (auto simp: pools_inv_def rows overlay_upd)
  have eq: "Pools_ProcessChange ch p db = (if maxBatchSize < length (lps ?p) then Pools_Commit ?p db else Inr (?p, db))"
    using e inv by (cases "PreEntry ch"; cases "PostEntry ch")
      (simp_all add: Pools_ProcessChange_def pool_change_row_def entry_of_def Let_def pools_inv_def)
  show ?thesis
  proof (cases "maxBatchSize < length (lps ?p)")
    case True
    with pools_inv_commit [OF inv'] show ?thesis unfolding eq by auto
  next
    case False
    then have "Pools_ProcessChange ch p db = Inr (?p, db\<lparr>liquidity_pools := liquidity_pools db, pool_compaction := pool_compaction db\<rparr>)"
      unfolding eq by simp
    moreover have "db\<lparr>liquidity_pools := liquidity_pools db, pool_compaction := pool_compaction db\<rparr> = db" by simp
    ultimately show ?thesis using inv' by metis
  qed
qed

lemma pools_process:
  assumes "pools_inv sequence c t done p db" "\<forall>ch\<in>set chs. \<exists>e. entry_of ch = Some e"
    and "distinct (map PoolID done @ map (\<lambda>ch. PoolIDToString (LiquidityPoolId (Data (the (entry_of ch))))) chs)"
  shows "\<exists>p' t' c'. Pools_ProcessChanges chs p db = Inr (p', db\<lparr>liquidity_pools := t', pool_compaction := c'\<rparr>) \<and>
    pools_inv sequence c t (done @ map (pool_change_row sequence) chs) p' (db\<lparr>liquidity_pools := t', pool_compaction := c'\<rparr>)"
  using assms
proof (induction chs arbitrary: "done" p db)
  case Nil
  moreover have "db = db\<lparr>liquidity_pools := liquidity_pools db, pool_compaction := pool_compaction db\<rparr>" by simp
  ultimately show ?case by (metis Pools_ProcessChanges.simps(1) append_Nil2 list.map(1))
next
  case (Cons ch chs)
  obtain e where e: "entry_of ch = Some e" using Cons.prems(2) by auto
  have "PoolIDToString (LiquidityPoolId (Data e)) \<notin> PoolID ` set done" using Cons.prems(3) e(1) by auto
  from pools_inv_change [OF Cons.prems(1) e this] obtain p1 t1 c1 where
    1: "Pools_ProcessChange ch p db = Inr (p1, db\<lparr>liquidity_pools := t1, pool_compaction := c1\<rparr>)"
      "pools_inv sequence c t (done @ [pool_change_row sequence ch]) p1 (db\<lparr>liquidity_pools := t1, pool_compaction := c1\<rparr>)" by blast
  have 2: "distinct (map PoolID (done @ [pool_change_row sequence ch]) @ map (\<lambda>ch. PoolIDToString (LiquidityPoolId (Data (the (entry_of ch))))) chs)"
    using Cons.prems(3) e pool_change_key [OF e] by simp
  have 3: "\<forall>ch\<in>set chs. \<exists>e. entry_of ch = Some e" using Cons.prems(2) by simp
  from Cons.IH [OF 1(2) 3 2] 1(1) show ?case by auto
qed

end
