(* ===== verification/Order_Book_Claims.thy ===== *)
theory Order_Book_Claims
  imports Order_Book_Props
begin

text \<open>
  The ledger, the tables and the order book stream together: ledgers are ingested, the flags of the
  ingestion change, and the stream updates, in any order and with any failing query. The history of the
  ledger is kept beside the system, from the changes alone, and the graph is compared with it.
\<close>

subsection \<open>A ledger is ingested\<close>

definition change_offer :: "OfferEntry entry_change \<Rightarrow> (int \<Rightarrow> OfferEntry option) \<Rightarrow> int \<Rightarrow> OfferEntry option" where
  "change_offer ch m = (case entry_of ch of None \<Rightarrow> m | Some e \<Rightarrow> m(OfferId (Data e) := map_option Data (PostEntry ch)))"

definition change_pool :: "PoolEntry entry_change \<Rightarrow> (string \<Rightarrow> PoolEntry option) \<Rightarrow> string \<Rightarrow> PoolEntry option" where
  "change_pool ch m = (case entry_of ch of None \<Rightarrow> m
     | Some e \<Rightarrow> m(PoolIDToString (LiquidityPoolId (Data e)) := map_option Data (PostEntry ch)))"

lemma change_offer_row: "entry_of ch = Some e \<Longrightarrow> ot.apply_row (offer_change_row sequence ch) m = change_offer ch m"
  by (auto simp: ot.apply_row_def change_offer_def offer_change_row_def entry_of_def offer_row_def offerToXDR_def Let_def split: option.splits)

lemma change_pool_row:
  assumes "entry_of ch = Some e" "length (LiquidityPoolId (Data e)) = 32"
  shows "pt.apply_row (pool_change_row sequence ch) m = change_pool ch m"
proof (cases "PostEntry ch")
  case None
  with assms(1) have "PreEntry ch = Some e" by (simp add: entry_of_def)
  with None assms(1) show ?thesis by (simp add: pt.apply_row_def change_pool_def pool_change_row_def pool_row_def Let_def)
next
  case (Some e')
  with assms(1) have "e' = e" by (simp add: entry_of_def)
  with Some assms have "pool_content (pool_change_row sequence ch) = Data e"
    by (simp add: pool_content_def pool_change_row_def liquidityPoolToXDR_row)
  with Some \<open>e' = e\<close> assms(1) show ?thesis by (simp add: pt.apply_row_def change_pool_def pool_change_row_def pool_row_def Let_def)
qed

lemma fold_rows:
  assumes "\<forall>ch\<in>set chs. \<forall>m. step (row ch) m = change ch m"
  shows "fold step (map row chs) m = fold change chs m"
  using assms by (induction chs arbitrary: m) simp_all

lemma PoolIDToString_inj: "PoolIDToString a = PoolIDToString b \<longleftrightarrow> a = b"
  unfolding PoolIDToString_def using hex_decode_encode by (metis option.inject)

lemma offer_changes_okD:
  assumes "offer_changes_ok sequence t chs"
  shows "\<forall>ch\<in>set chs. \<exists>e. entry_of ch = Some e \<and> (PreEntry ch = None \<longrightarrow> OfferId (Data e) \<notin> OfferID ` set t)"
    "distinct (map (\<lambda>ch. OfferId (Data (the (entry_of ch)))) chs)"
    "map OfferID (map (offer_change_row sequence) chs) = map (\<lambda>ch. OfferId (Data (the (entry_of ch)))) chs"
    "\<forall>r\<in>set (map (offer_change_row sequence) chs). offerModified r = sequence \<and> 0 < OfferID r"
proof -
  show e: "\<forall>ch\<in>set chs. \<exists>e. entry_of ch = Some e \<and> (PreEntry ch = None \<longrightarrow> OfferId (Data e) \<notin> OfferID ` set t)"
    using assms unfolding offer_changes_ok_def by metis
  have "map (\<lambda>ch. map_option (\<lambda>e. OfferId (Data e)) (entry_of ch)) chs = map Some (map (\<lambda>ch. OfferId (Data (the (entry_of ch)))) chs)"
    using e by fastforce
  then show "distinct (map (\<lambda>ch. OfferId (Data (the (entry_of ch)))) chs)"
    using assms by (metis distinct_map offer_changes_ok_def)
  have key: "OfferID (offer_change_row sequence ch) = OfferId (Data (the (entry_of ch)))" if "ch \<in> set chs" for ch
    using e that by (fastforce simp: entry_of_def offer_change_row_def offer_row_def Let_def split: option.splits)
  then show "map OfferID (map (offer_change_row sequence) chs) = map (\<lambda>ch. OfferId (Data (the (entry_of ch)))) chs" by simp
  show "\<forall>r\<in>set (map (offer_change_row sequence) chs). offerModified r = sequence \<and> 0 < OfferID r"
  proof (simp, intro ballI conjI)
    fix ch assume ch: "ch \<in> set chs"
    then obtain e' where e': "entry_of ch = Some e'" "0 < OfferId (Data e')" "PostEntry ch \<noteq> None \<longrightarrow> LastModifiedLedgerSeq e' = sequence"
      using assms unfolding offer_changes_ok_def by metis
    then show "0 < OfferID (offer_change_row sequence ch)" using key ch by simp
    show "offerModified (offer_change_row sequence ch) = sequence"
      using e' by (auto simp: offer_change_row_def entry_of_def offer_row_def Let_def split: option.splits)
  qed
qed

text \<open>A pool row that can be read back.\<close>

definition pool_ok :: "LiquidityPool \<Rightarrow> bool" where
  "pool_ok r \<longleftrightarrow> liquidityPoolToXDR r = Inr (pool_content r) \<and> PoolIDToString (LiquidityPoolId (pool_content r)) = PoolID r"

lemma pool_ok_row:
  assumes "entry_of ch = Some e" "length (LiquidityPoolId (Data e)) = 32"
  shows "pool_ok (pool_change_row sequence ch)"
proof -
  have "liquidityPoolToXDR ((pool_row e)\<lparr>poolDeleted := True, poolModified := sequence\<rparr>) = liquidityPoolToXDR (pool_row e)"
    by (simp add: liquidityPoolToXDR_def pool_row_def Let_def PoolIDToString_def hex_decode_encode)
  moreover have "pool_change_row sequence ch = pool_row e \<or>
      pool_change_row sequence ch = (pool_row e)\<lparr>poolDeleted := True, poolModified := sequence\<rparr>"
    using assms(1) by (auto simp: entry_of_def pool_change_row_def split: option.splits)
  ultimately have "liquidityPoolToXDR (pool_change_row sequence ch) = Inr (Data e)"
    using liquidityPoolToXDR_row [OF assms(2)] by auto
  with pool_change_key [OF assms(1)] show ?thesis by (simp add: pool_ok_def pool_content_def)
qed

lemma pool_changes_okD:
  assumes "pool_changes_ok sequence chs"
  shows "\<forall>ch\<in>set chs. \<exists>e. entry_of ch = Some e \<and> length (LiquidityPoolId (Data e)) = 32"
    "distinct (map (\<lambda>ch. PoolIDToString (LiquidityPoolId (Data (the (entry_of ch))))) chs)"
    "map PoolID (map (pool_change_row sequence) chs) = map (\<lambda>ch. PoolIDToString (LiquidityPoolId (Data (the (entry_of ch))))) chs"
    "\<forall>r\<in>set (map (pool_change_row sequence) chs). poolModified r = sequence \<and> pool_ok r"
proof -
  show e: "\<forall>ch\<in>set chs. \<exists>e. entry_of ch = Some e \<and> length (LiquidityPoolId (Data e)) = 32"
    using assms unfolding pool_changes_ok_def by metis
  have "map (\<lambda>ch. map_option (\<lambda>e. LiquidityPoolId (Data e)) (entry_of ch)) chs = map Some (map (\<lambda>ch. LiquidityPoolId (Data (the (entry_of ch)))) chs)"
    using e by fastforce
  then have "distinct (map (\<lambda>ch. LiquidityPoolId (Data (the (entry_of ch)))) chs)"
    using assms by (metis distinct_map pool_changes_ok_def)
  then have "distinct (map PoolIDToString (map (\<lambda>ch. LiquidityPoolId (Data (the (entry_of ch)))) chs))"
    by (subst distinct_map) (simp add: inj_on_def PoolIDToString_inj)
  then show "distinct (map (\<lambda>ch. PoolIDToString (LiquidityPoolId (Data (the (entry_of ch))))) chs)" by (simp add: comp_def)
  show "map PoolID (map (pool_change_row sequence) chs) = map (\<lambda>ch. PoolIDToString (LiquidityPoolId (Data (the (entry_of ch))))) chs"
    using e pool_change_key by fastforce
  show "\<forall>r\<in>set (map (pool_change_row sequence) chs). poolModified r = sequence \<and> pool_ok r"
  proof (simp, intro ballI conjI)
    fix ch assume ch: "ch \<in> set chs"
    then obtain e' where e': "entry_of ch = Some e'" "length (LiquidityPoolId (Data e')) = 32" "PostEntry ch \<noteq> None \<longrightarrow> LastModifiedLedgerSeq e' = sequence"
      using assms unfolding pool_changes_ok_def by metis
    then show "pool_ok (pool_change_row sequence ch)" using pool_ok_row by blast
    show "poolModified (pool_change_row sequence ch) = sequence"
      using e' by (auto simp: pool_change_row_def entry_of_def pool_row_def Let_def split: option.splits)
  qed
qed

text \<open>The ingestion of a ledger always succeeds on such changes, and writes one row for each of them.\<close>

lemma ingest_book_effect:
  assumes ok: "offer_changes_ok sequence (offers db) ochs" "pool_changes_ok sequence pchs"
    and d: "distinct (map OfferID (offers db))" "distinct (map PoolID (liquidity_pools db))"
  shows "\<exists>t u. ingest_book sequence ochs pchs db = Inr (db\<lparr>offers := t, liquidity_pools := u,
      offer_compaction := cut_of sequence (offer_compaction db), pool_compaction := cut_of sequence (pool_compaction db), last_ingested := sequence\<rparr>) \<and>
    distinct (map OfferID t) \<and> distinct (map PoolID u) \<and>
    (\<forall>k. ot.row t k = ot.compacted (cut_of sequence (offer_compaction db)) (overlay (ot.row (map (offer_change_row sequence) ochs)) (ot.row (offers db)) k) \<or>
         ot.row t k = overlay (ot.row (map (offer_change_row sequence) ochs)) (ot.row (offers db)) k) \<and>
    (\<forall>k. pt.row u k = pt.compacted (cut_of sequence (pool_compaction db)) (overlay (pt.row (map (pool_change_row sequence) pchs)) (pt.row (liquidity_pools db)) k) \<or>
         pt.row u k = overlay (pt.row (map (pool_change_row sequence) pchs)) (pt.row (liquidity_pools db)) k)"
proof -
  note o = offer_changes_okD [OF ok(1)] and p = pool_changes_okD [OF ok(2)]
  have "offers_inv sequence (offers db) [] (NewOffersProcessor sequence) db"
    using d by (simp add: offers_inv_def NewOffersProcessor_def)
  from offers_process [OF this o(1)] o(2) obtain po t1 where
    1: "Offers_ProcessChanges ochs (NewOffersProcessor sequence) db = Inr (po, db\<lparr>offers := t1\<rparr>)"
      "offers_inv sequence (offers db) (map (offer_change_row sequence) ochs) po (db\<lparr>offers := t1\<rparr>)" by auto
  have pe: "\<forall>ch\<in>set pchs. \<exists>e. entry_of ch = Some e" using p(1) by blast
  have "pools_inv sequence (pool_compaction db) (liquidity_pools db) [] (NewLiquidityPoolsChangeProcessor sequence) (db\<lparr>offers := t1\<rparr>)"
    using d by (simp add: pools_inv_def NewLiquidityPoolsChangeProcessor_def)
  from pools_process [OF this pe] p(2) obtain pl u1 c1 where
    2: "Pools_ProcessChanges pchs (NewLiquidityPoolsChangeProcessor sequence) (db\<lparr>offers := t1\<rparr>) =
        Inr (pl, db\<lparr>offers := t1, liquidity_pools := u1, pool_compaction := c1\<rparr>)"
      "pools_inv sequence (pool_compaction db) (liquidity_pools db) (map (pool_change_row sequence) pchs) pl (db\<lparr>offers := t1, liquidity_pools := u1, pool_compaction := c1\<rparr>)" by auto
  let ?db2 = "db\<lparr>offers := t1, liquidity_pools := u1, pool_compaction := c1\<rparr>"
  have "offers_inv sequence (offers db) (map (offer_change_row sequence) ochs) po ?db2"
    using 1(2) by (simp add: offers_inv_def)
  from offers_commit [OF this] obtain t where
    3: "Offers_Commit po ?db2 = Inr (?db2\<lparr>offers := t, offer_compaction := cut_of sequence (offer_compaction db)\<rparr>)"
      "distinct (map OfferID t)"
      "\<forall>k. ot.row t k = ot.compacted (cut_of sequence (offer_compaction db)) (overlay (ot.row (map (offer_change_row sequence) ochs)) (ot.row (offers db)) k) \<or>
         ot.row t k = overlay (ot.row (map (offer_change_row sequence) ochs)) (ot.row (offers db)) k" by auto
  let ?db3 = "?db2\<lparr>offers := t, offer_compaction := cut_of sequence (offer_compaction db)\<rparr>"
  have "pools_inv sequence (pool_compaction db) (liquidity_pools db) (map (pool_change_row sequence) pchs) pl ?db3"
    using 2(2) by (simp add: pools_inv_def)
  from pools_inv_commit [OF this] obtain u where
    4: "Pools_Commit pl ?db3 = Inr (pl\<lparr>lps := []\<rparr>, ?db3\<lparr>liquidity_pools := u, pool_compaction := cut_of sequence (pool_compaction db)\<rparr>)"
      "pools_inv sequence (pool_compaction db) (liquidity_pools db) (map (pool_change_row sequence) pchs) (pl\<lparr>lps := []\<rparr>)
        (?db3\<lparr>liquidity_pools := u, pool_compaction := cut_of sequence (pool_compaction db)\<rparr>)" by blast
  have 5: "distinct (map PoolID u)"
    "\<forall>k. pt.row u k = pt.compacted (cut_of sequence (pool_compaction db)) (overlay (pt.row (map (pool_change_row sequence) pchs)) (pt.row (liquidity_pools db)) k) \<or>
         pt.row u k = overlay (pt.row (map (pool_change_row sequence) pchs)) (pt.row (liquidity_pools db)) k"
    using 4(2) by (simp_all add: pools_inv_def)
  have "ingest_book sequence ochs pchs db =
      Inr (?db3\<lparr>liquidity_pools := u, pool_compaction := cut_of sequence (pool_compaction db), last_ingested := sequence\<rparr>)"
    unfolding ingest_book_def using 1(1) 2(1) 3(1) 4(1) by simp
  then have "ingest_book sequence ochs pchs db = Inr (db\<lparr>offers := t, liquidity_pools := u,
      offer_compaction := cut_of sequence (offer_compaction db), pool_compaction := cut_of sequence (pool_compaction db), last_ingested := sequence\<rparr>)"
    by (cases db) simp
  with 3(2,3) 5 show ?thesis by blast
qed

subsection \<open>All offers are streamed\<close>

lemma sorted_last: "sorted (map f xs) \<Longrightarrow> x \<in> set xs \<Longrightarrow> f x \<le> f (last xs)"
  by (induction xs) auto

lemma StreamAllOffers_rows:
  assumes "distinct (map OfferID (offers db))"
  shows "(\<forall>r. r \<in> set (StreamAllOffers i db) \<longleftrightarrow> r \<in> set (offers db) \<and> \<not> offerDeleted r \<and> i < OfferID r) \<and>
    distinct (map OfferID (StreamAllOffers i db))"
  using assms
proof (induction i db rule: StreamAllOffers.induct)
  case (1 i db)
  define S where "S = sort_key OfferID (filter (\<lambda>r. \<not> offerDeleted r \<and> i < OfferID r) (offers db))"
  define batch where "batch = take offersBatchSize S"
  let ?j = "OfferID (last batch)"
  have b: "streamAllOffersBatch i offersBatchSize db = batch" by (simp add: streamAllOffersBatch_def S_def batch_def)
  have S: "r \<in> set S \<longleftrightarrow> r \<in> set (offers db) \<and> \<not> offerDeleted r \<and> i < OfferID r" for r by (auto simp: S_def)
  have sorted: "sorted (map OfferID S)" by (simp add: S_def)
  have "distinct (map OfferID (filter (\<lambda>r. \<not> offerDeleted r \<and> i < OfferID r) (offers db)))" using 1(2) by (simp add: distinct_map_filter)
  then have dS: "distinct (map OfferID S)" by (simp add: S_def distinct_map)
  show ?case
  proof (cases "batch = []")
    case True
    then have "S = []" by (simp add: batch_def offersBatchSize_def)
    with True S b show ?thesis by (simp add: StreamAllOffers.simps [of i db] Let_def)
  next
    case False
    have S': "S = batch @ drop offersBatchSize S" by (simp add: batch_def)
    have strict: "sorted_wrt (<) (map OfferID S)" using sorted dS by (simp add: strict_sorted_iff)
    have le: "OfferID r \<le> ?j" if "r \<in> set batch" for r
      using sorted_last [of OfferID batch r] that sorted by (simp add: batch_def take_map [symmetric] sorted_wrt_take)
    have gt: "?j < OfferID r" if "r \<in> set (drop offersBatchSize S)" for r
    proof -
      have "sorted_wrt (<) (map OfferID batch @ map OfferID (drop offersBatchSize S))" using strict S' by (metis map_append)
      then show ?thesis using that False by (auto simp: sorted_wrt_append)
    qed
    have j: "i < ?j" using streamAllOffersBatch_after [of "last batch" i offersBatchSize db] False b by simp
    have IH: "r \<in> set (StreamAllOffers ?j db) \<longleftrightarrow> r \<in> set (offers db) \<and> \<not> offerDeleted r \<and> ?j < OfferID r"
      "distinct (map OfferID (StreamAllOffers ?j db))" for r
      using 1(1) [of batch] 1(2) b False by auto
    have eq: "StreamAllOffers i db = batch @ StreamAllOffers ?j db"
      using False b by (subst StreamAllOffers.simps) (simp add: Let_def)
    have "r \<in> set (StreamAllOffers i db) \<longleftrightarrow> r \<in> set S" for r
    proof -
      have "r \<in> set (StreamAllOffers ?j db) \<longleftrightarrow> r \<in> set S \<and> ?j < OfferID r" using IH(1) S j by auto
      moreover have "r \<in> set S \<longleftrightarrow> r \<in> set batch \<or> r \<in> set (drop offersBatchSize S)" using S' by (metis Un_iff set_append)
      ultimately show ?thesis using gt unfolding eq by auto
    qed
    moreover have "distinct (map OfferID (StreamAllOffers i db))"
    proof -
      have "distinct (map OfferID batch)" using dS by (simp add: batch_def take_map [symmetric])
      then show ?thesis unfolding eq using IH le by fastforce
    qed
    ultimately show ?thesis using S by blast
  qed
qed

subsection \<open>The graph\<close>

text \<open>
  What is known of the graph: \<open>book\<close> is what it holds, by identifier, and \<open>queued\<close> what it would hold after the
  queued changes.
\<close>

type_synonym book_view = "(int \<Rightarrow> OfferEntry option) \<times> (string \<Rightarrow> PoolEntry option)"

definition graph_ok :: "'g obgraph \<Rightarrow> ('g \<Rightarrow> book_view) \<Rightarrow> ('g \<Rightarrow> book_view) \<Rightarrow> bool" where
  "graph_ok G book queued \<longleftrightarrow>
     (\<forall>g. book (Clear G g) = (\<lambda>k. None, \<lambda>k. None) \<and> queued (Clear G g) = (\<lambda>k. None, \<lambda>k. None)) \<and>
     (\<forall>g. book (Discard G g) = book g \<and> queued (Discard G g) = book g) \<and>
     (\<forall>e g. book (AddOffers G e g) = book g \<and> queued (AddOffers G e g) = apfst (\<lambda>m. m(OfferId e := Some e)) (queued g)) \<and>
     (\<forall>i g. book (RemoveOffer G i g) = book g \<and> queued (RemoveOffer G i g) = apfst (\<lambda>m. m(i := None)) (queued g)) \<and>
     (\<forall>e g. book (AddLiquidityPools G e g) = book g \<and>
        queued (AddLiquidityPools G e g) = apsnd (\<lambda>m. m(PoolIDToString (LiquidityPoolId e) := Some e)) (queued g)) \<and>
     (\<forall>e g. book (RemoveLiquidityPool G e g) = book g \<and>
        queued (RemoveLiquidityPool G e g) = apsnd (\<lambda>m. m(PoolIDToString (LiquidityPoolId e) := None)) (queued g)) \<and>
     (\<forall>l g g'. Apply G l g = Inr g' \<longrightarrow> book g' = queued g \<and> queued g' = queued g)"

lemma graph_okD:
  assumes "graph_ok G book queued"
  shows "book (Clear G g) = (\<lambda>k. None, \<lambda>k. None)" "queued (Clear G g) = (\<lambda>k. None, \<lambda>k. None)"
    "book (Discard G g) = book g" "queued (Discard G g) = book g"
    "book (AddOffers G e g) = book g" "queued (AddOffers G e g) = apfst (\<lambda>m. m(OfferId e := Some e)) (queued g)"
    "book (RemoveOffer G i g) = book g" "queued (RemoveOffer G i g) = apfst (\<lambda>m. m(i := None)) (queued g)"
    "book (AddLiquidityPools G e' g) = book g"
    "queued (AddLiquidityPools G e' g) = apsnd (\<lambda>m. m(PoolIDToString (LiquidityPoolId e') := Some e')) (queued g)"
    "book (RemoveLiquidityPool G e' g) = book g"
    "queued (RemoveLiquidityPool G e' g) = apsnd (\<lambda>m. m(PoolIDToString (LiquidityPoolId e') := None)) (queued g)"
    "Apply G l g = Inr g' \<Longrightarrow> book g' = queued g" "Apply G l g = Inr g' \<Longrightarrow> queued g' = queued g"
  using assms by (simp_all add: graph_ok_def)

lemma queue_offers:
  assumes G: "graph_ok G book queued"
  shows "book (fold (update_offer G) rows g) = book g"
    "queued (fold (update_offer G) rows g) = apfst (fold ot.apply_row rows) (queued g)"
proof (induction rows arbitrary: g)
  case (Cons r rows)
  {
    case 1
    then show ?case using Cons(1) by (simp add: update_offer_def graph_okD [OF G])
  next
    case 2
    have "queued (update_offer G r g) = apfst (ot.apply_row r) (queued g)"
      by (cases "queued g") (simp add: update_offer_def graph_okD [OF G] ot.apply_row_def offerToXDR_def)
    then show ?case using Cons(2) by (cases "queued g") simp
  }
qed simp_all

lemma add_offers_update:
  "\<forall>r\<in>set rows. \<not> offerDeleted r \<Longrightarrow> fold (\<lambda>row. AddOffers G (offerToXDR row)) rows g = fold (update_offer G) rows g"
  by (induction rows arbitrary: g) (simp_all add: update_offer_def)

lemma book_add_offers:
  "graph_ok G book queued \<Longrightarrow> book (fold (\<lambda>row. AddOffers G (offerToXDR row)) rows g) = book g"
  by (induction rows arbitrary: g) (simp_all add: graph_okD)

lemma book_pools:
  assumes G: "graph_ok G book queued"
  shows "book (fst (add_pools G rows g)) = book g" "book (fst (update_pools G rows g)) = book g"
  by (induction rows arbitrary: g) (simp_all add: graph_okD [OF G] split: sum.split)

lemma queue_pools:
  assumes G: "graph_ok G book queued" and ok: "\<forall>r\<in>set rows. pool_ok r"
  shows "snd (update_pools G rows g) = None"
    "queued (fst (update_pools G rows g)) = apsnd (fold pt.apply_row rows) (queued g)"
  using ok
proof (induction rows arbitrary: g)
  case (Cons r rows)
  {
    case 1
    then show ?case using Cons(1) by (simp add: pool_ok_def)
  next
    case 2
    let ?g = "if poolDeleted r then RemoveLiquidityPool G (pool_content r) g else AddLiquidityPools G (pool_content r) g"
    have r: "liquidityPoolToXDR r = Inr (pool_content r)" "PoolIDToString (LiquidityPoolId (pool_content r)) = PoolID r"
      using 2 by (simp_all add: pool_ok_def)
    have "queued ?g = apsnd (pt.apply_row r) (queued g)"
      using r(2) by (cases "queued g") (simp add: graph_okD [OF G] pt.apply_row_def)
    moreover have "queued (fst (update_pools G rows ?g)) = apsnd (fold pt.apply_row rows) (queued ?g)" using Cons(2) 2 by simp
    ultimately show ?case using r(1) by (cases "queued g") simp
  }
qed simp_all

lemma add_pools_update: "\<forall>r\<in>set rows. \<not> poolDeleted r \<Longrightarrow> add_pools G rows g = update_pools G rows g"
  by (induction rows arbitrary: g) (simp_all split: sum.split)

text \<open>
  Bringing the graph up to date: afterwards nothing is queued, and either the book is untouched and so is the
  last ledger, or all queued changes are in the book.
\<close>

definition applied :: "('g \<Rightarrow> book_view) \<Rightarrow> ('g \<Rightarrow> book_view) \<Rightarrow> 'g OrderBookStream \<Rightarrow> u32 \<Rightarrow> book_view \<Rightarrow>
    'g OrderBookStream \<times> string option \<Rightarrow> bool" where
  "applied book queued o' ledger v x \<longleftrightarrow> (case x of (o1, err) \<Rightarrow>
     queued (graph o1) = book (graph o1) \<and> lastVerification o1 = lastVerification o' \<and>
     (case err of None \<Rightarrow> lastLedger o1 = ledger \<and> book (graph o1) = v
        | Some e \<Rightarrow> lastLedger o1 = lastLedger o' \<and> book (graph o1) = book (graph o')))"

lemma apply_and_discard_applied:
  assumes G: "graph_ok G book queued"
  shows "applied book queued o' ledger (queued (graph o')) (apply_and_discard G ledger o')"
  by (simp add: applied_def apply_and_discard_def graph_okD [OF G] split: sum.split)

lemma applied_graph:
  "book g = book (graph o') \<Longrightarrow> queued g = v \<Longrightarrow>
   applied book queued (o'\<lparr>graph := g\<rparr>) ledger (queued g) x \<Longrightarrow> applied book queued o' ledger v x"
  by (auto simp: applied_def split: option.splits)

lemma applied_error:
  assumes "graph_ok G book queued" "book g = book (graph o')"
  shows "applied book queued o' ledger v (o'\<lparr>graph := Discard G g\<rparr>, Some e)"
  using assms by (simp add: applied_def graph_okD)

lemma load_updates_applied:
  assumes G: "graph_ok G book queued" and ok: "\<forall>r\<in>set (liquidity_pools db). pool_ok r" and q: "queued (graph o') = book (graph o')"
  shows "applied book queued o' ledger
    (fold ot.apply_row (GetUpdatedOffers (lastLedger o') db) (fst (book (graph o'))),
     fold pt.apply_row (GetUpdatedLiquidityPools (lastLedger o') db) (snd (book (graph o'))))
    (load_updates G flt db ledger o')"
proof -
  let ?rows = "GetUpdatedOffers (lastLedger o') db" and ?pools = "GetUpdatedLiquidityPools (lastLedger o') db"
  let ?g1 = "fold (update_offer G) ?rows (graph o')"
  have p: "\<forall>r\<in>set ?pools. pool_ok r" using ok by (simp add: GetUpdatedLiquidityPools_def updatedRows_def)
  obtain g2 where n: "update_pools G ?pools ?g1 = (g2, None)" using queue_pools(1) [OF G p, of ?g1] by (cases "update_pools G ?pools ?g1") simp
  have b: "book g2 = book (graph o')" using book_pools(2) [OF G, of ?pools ?g1] n by (simp add: queue_offers [OF G])
  have v: "queued g2 = (fold ot.apply_row ?rows (fst (book (graph o'))), fold pt.apply_row ?pools (snd (book (graph o'))))"
    using q queue_pools(2) [OF G p, of ?g1] n by (simp add: queue_offers [OF G] prod_eq_iff)
  have "applied book queued (o'\<lparr>graph := g2\<rparr>) ledger (queued g2) (apply_and_discard G ledger (o'\<lparr>graph := g2\<rparr>))"
    using apply_and_discard_applied [OF G, of "o'\<lparr>graph := g2\<rparr>" ledger] by simp
  from applied_graph [of book g2 o' queued, OF b v this] n show ?thesis
    by (simp add: load_updates_def book_read_def applied_error [OF G] split: option.split)
qed

lemma load_all_applied:
  assumes G: "graph_ok G book queued" and ok: "\<forall>r\<in>set (liquidity_pools db). pool_ok r" "\<forall>r\<in>set (offers db). 0 < OfferID r"
    and d: "distinct (map OfferID (offers db))" "distinct (map PoolID (liquidity_pools db))"
    and q: "queued (graph o') = (\<lambda>k. None, \<lambda>k. None)" 
  shows "applied book queued o' ledger (live_offers db, live_pools db) (load_all G flt db ledger o')"
proof -
  let ?add = "\<lambda>rows g. fold (\<lambda>row. AddOffers G (offerToXDR row)) rows g"
  let ?rows = "StreamAllOffers 0 db" and ?pools = "StreamAllLiquidityPools db"
  let ?g1 = "?add ?rows (graph o')"
  have rows: "\<forall>r. r \<in> set ?rows \<longleftrightarrow> r \<in> set (offers db) \<and> \<not> offerDeleted r" "distinct (map OfferID ?rows)"
    using StreamAllOffers_rows [OF d(1), of 0] ok(2) by auto
  have pools: "\<forall>r. r \<in> set ?pools \<longleftrightarrow> r \<in> set (liquidity_pools db) \<and> \<not> poolDeleted r" "distinct (map PoolID ?pools)"
    using d(2) by (auto simp: StreamAllLiquidityPools_def distinct_map_filter)
  have p: "\<forall>r\<in>set ?pools. pool_ok r" using ok(1) by (simp add: StreamAllLiquidityPools_def)
  have upd: "add_pools G ?pools g = update_pools G ?pools g" for g
    by (rule add_pools_update) (simp add: StreamAllLiquidityPools_def)
  obtain g2 where n: "update_pools G ?pools ?g1 = (g2, None)" using queue_pools(1) [OF G p, of ?g1] by (cases "update_pools G ?pools ?g1") simp
  have b: "book g2 = book (graph o')" using book_pools(2) [OF G, of ?pools ?g1] n by (simp add: book_add_offers [OF G])
  have "?g1 = fold (update_offer G) ?rows (graph o')" by (rule add_offers_update) (simp add: rows(1))
  then have v: "queued g2 = (live_offers db, live_pools db)"
    using q queue_pools(2) [OF G p, of ?g1] n ot.load_live [OF d(1) rows(2,1)] pt.load_live [OF d(2) pools(2,1)]
    by (simp add: queue_offers [OF G] live_offers_def live_pools_def)
  have "applied book queued (o'\<lparr>graph := g2\<rparr>) ledger (queued g2) (apply_and_discard G ledger (o'\<lparr>graph := g2\<rparr>))"
    using apply_and_discard_applied [OF G, of "o'\<lparr>graph := g2\<rparr>" ledger] by simp
  from applied_graph [of book g2 o' queued, OF b v this] n show ?thesis
    by (simp add: load_all_def Let_def upd applied_error [OF G] book_pools [OF G] book_add_offers [OF G] split: option.split)
qed

subsection \<open>The system\<close>

text \<open>The tables, the stream, and the offers and pools of every ledger so far.\<close>

record 'g book_system =
  db :: book_db
  stream :: "'g OrderBookStream"
  past_offers :: "u32 \<Rightarrow> int \<Rightarrow> OfferEntry option"
  past_pools :: "u32 \<Rightarrow> string \<Rightarrow> PoolEntry option"

inductive book_step :: "'g obgraph \<Rightarrow> 'g book_system \<Rightarrow> 'g book_system \<Rightarrow> bool" for G where
  ledger: "sequence = last_ingested (db s) + 1 \<Longrightarrow> last_ingested (db s) < sequence \<Longrightarrow>
    offer_changes_ok sequence (offers (db s)) ochs \<Longrightarrow> pool_changes_ok sequence pchs \<Longrightarrow>
    ingest_book sequence ochs pchs (db s) = Inr db' \<Longrightarrow>
    book_step G s (s\<lparr>db := db',
      past_offers := (past_offers s)(sequence := fold change_offer ochs (past_offers s (last_ingested (db s)))),
      past_pools := (past_pools s)(sequence := fold change_pool pchs (past_pools s (last_ingested (db s))))\<rparr>)"
| flags: "book_step G s (s\<lparr>db := (db s)\<lparr>last_history := h, state_invalid := b\<rparr>\<rparr>)"
| update: "Update G flt cancelled now jitter (db s) (stream s) = (o', err) \<Longrightarrow> book_step G s (s\<lparr>stream := o'\<rparr>)"

inductive_cases book_stepE: "book_step G s s'"

text \<open>
  The state was built at ledger \<open>start\<close>: the tables hold its offers and pools, the stream has not read them yet.
\<close>

definition book_start :: "('g \<Rightarrow> book_view) \<Rightarrow> ('g \<Rightarrow> book_view) \<Rightarrow> u32 \<Rightarrow> 'g book_system \<Rightarrow> bool" where
  "book_start book queued start s \<longleftrightarrow> 0 < start \<and> last_ingested (db s) = start \<and>
     offer_compaction (db s) \<le> start \<and> pool_compaction (db s) \<le> start \<and>
     distinct (map OfferID (offers (db s))) \<and> (\<forall>r\<in>set (offers (db s)). 0 < OfferID r \<and> offerModified r \<le> start) \<and>
     distinct (map PoolID (liquidity_pools (db s))) \<and> (\<forall>r\<in>set (liquidity_pools (db s)). pool_ok r \<and> poolModified r \<le> start) \<and>
     past_offers s start = live_offers (db s) \<and> past_pools s start = live_pools (db s) \<and>
     lastLedger (stream s) = 0 \<and> queued (graph (stream s)) = book (graph (stream s))"

definition cut_ok :: "u32 \<Rightarrow> u32 \<Rightarrow> u32 \<Rightarrow> bool" where
  "cut_ok start now c \<longleftrightarrow> c \<le> start \<or> compactionWindow < now \<and> c = now - compactionWindow"

definition tables_inv :: "u32 \<Rightarrow> 'g book_system \<Rightarrow> bool" where
  "tables_inv start s \<longleftrightarrow> 0 < start \<and> start \<le> last_ingested (db s) \<and>
     cut_ok start (last_ingested (db s)) (offer_compaction (db s)) \<and> cut_ok start (last_ingested (db s)) (pool_compaction (db s)) \<and>
     ot.tells start (offer_compaction (db s)) (last_ingested (db s)) (past_offers s) (offers (db s)) \<and>
     pt.tells start (pool_compaction (db s)) (last_ingested (db s)) (past_pools s) (liquidity_pools (db s)) \<and>
     (\<forall>r\<in>set (offers (db s)). 0 < OfferID r) \<and> (\<forall>r\<in>set (liquidity_pools (db s)). pool_ok r)"

definition stream_inv :: "('g \<Rightarrow> book_view) \<Rightarrow> ('g \<Rightarrow> book_view) \<Rightarrow> u32 \<Rightarrow> 'g book_system \<Rightarrow> bool" where
  "stream_inv book queued start s \<longleftrightarrow> (let o' = stream s in queued (graph o') = book (graph o') \<and>
     (lastLedger o' \<noteq> 0 \<longrightarrow> start \<le> lastLedger o' \<and> lastLedger o' \<le> last_ingested (db s) \<and>
        book (graph o') = (past_offers s (lastLedger o'), past_pools s (lastLedger o'))))"

lemma cut_ok_le: "cut_ok start now c \<Longrightarrow> start \<le> now \<Longrightarrow> c \<le> now"
  unfolding cut_ok_def compactionWindow_def by (auto simp: word_less_nat_alt word_le_nat_alt unat_sub)

lemma next_ledger:
  fixes now now' :: u32
  assumes "now < now'" "now' = now + 1"
  shows "unat now' = Suc (unat now)" "\<forall>l. l < now' \<longrightarrow> l \<le> now"
proof -
  show "unat now' = Suc (unat now)" using assms(1) unfolding assms(2) by (intro unat_Suc_no_wrap) auto
  then show "\<forall>l. l < now' \<longrightarrow> l \<le> now" by (simp add: word_less_nat_alt word_le_nat_alt)
qed

lemma cut_of_step:
  assumes "cut_ok start now c" "start \<le> now" "now < now'" "now' = now + 1"
  shows "cut_ok start now' (cut_of now' c)" "cut_of now' c < now'" "\<And>l. start \<le> l \<Longrightarrow> cut_of now' c \<le> l \<Longrightarrow> c \<le> l"
proof -
  note n = next_ledger(1) [OF assms(3,4)]
  show "cut_ok start now' (cut_of now' c)" "cut_of now' c < now'" "\<And>l. start \<le> l \<Longrightarrow> cut_of now' c \<le> l \<Longrightarrow> c \<le> l"
    using assms(1,2) n unfolding cut_ok_def cut_of_def compactionWindow_def
    by (auto simp: word_less_nat_alt word_le_nat_alt unat_sub split: if_splits)
qed

lemma tables_start: "book_start book queued start s \<Longrightarrow> tables_inv start s"
  unfolding book_start_def tables_inv_def ot.tells_def pt.tells_def live_offers_def live_pools_def cut_ok_def
  by (auto simp: order_antisym)

lemma offers_ledger:
  assumes t: "ot.tells start c now past t" and c: "cut_ok start now c" "start \<le> now" "now < sequence" "sequence = now + 1"
    and ok: "offer_changes_ok sequence t chs"
    and t': "distinct (map OfferID t')"
      "\<forall>k. ot.row t' k = ot.compacted (cut_of sequence c) (overlay (ot.row (map (offer_change_row sequence) chs)) (ot.row t) k) \<or>
         ot.row t' k = overlay (ot.row (map (offer_change_row sequence) chs)) (ot.row t) k"
  shows "ot.tells start (cut_of sequence c) sequence (past(sequence := fold change_offer chs (past now))) t'"
proof -
  note ok' = offer_changes_okD [OF ok]
  have "ot.live t' = fold ot.apply_row (map (offer_change_row sequence) chs) (ot.live t)"
    by (rule ot.live_written [OF _ t'(2)]) (simp only: ok'(2,3))
  also have "\<dots> = fold change_offer chs (ot.live t)"
    by (rule fold_rows) (use ok'(1) change_offer_row in blast)
  also have "ot.live t = past now" using ot.tells_now [OF t c(2) cut_ok_le [OF c(1,2)]] by simp
  finally have live: "fold change_offer chs (past now) = ot.live t'" by simp
  have rows: "\<forall>r k. ot.row (map (offer_change_row sequence) chs) k = Some r \<longrightarrow> offerModified r = sequence"
    using ok'(4) ot.row_SomeD by blast
  from ot.tells_step [OF t c(3) next_ledger(2) [OF c(3,4)] _ cut_of_step(2) [OF c] rows t'] cut_of_step(3) [OF c] show ?thesis unfolding live by blast
qed

lemma pools_ledger:
  assumes t: "pt.tells start c now past t" and c: "cut_ok start now c" "start \<le> now" "now < sequence" "sequence = now + 1"
    and ok: "pool_changes_ok sequence chs"
    and t': "distinct (map PoolID t')"
      "\<forall>k. pt.row t' k = pt.compacted (cut_of sequence c) (overlay (pt.row (map (pool_change_row sequence) chs)) (pt.row t) k) \<or>
         pt.row t' k = overlay (pt.row (map (pool_change_row sequence) chs)) (pt.row t) k"
  shows "pt.tells start (cut_of sequence c) sequence (past(sequence := fold change_pool chs (past now))) t'"
proof -
  note ok' = pool_changes_okD [OF ok]
  have "pt.live t' = fold pt.apply_row (map (pool_change_row sequence) chs) (pt.live t)"
    by (rule pt.live_written [OF _ t'(2)]) (simp only: ok'(2,3))
  also have "\<dots> = fold change_pool chs (pt.live t)"
    by (rule fold_rows) (use ok'(1) change_pool_row in blast)
  also have "pt.live t = past now" using pt.tells_now [OF t c(2) cut_ok_le [OF c(1,2)]] by simp
  finally have live: "fold change_pool chs (past now) = pt.live t'" by simp
  have rows: "\<forall>r k. pt.row (map (pool_change_row sequence) chs) k = Some r \<longrightarrow> poolModified r = sequence"
    using ok'(4) pt.row_SomeD by blast
  from pt.tells_step [OF t c(3) next_ledger(2) [OF c(3,4)] _ cut_of_step(2) [OF c] rows t'] cut_of_step(3) [OF c] show ?thesis unfolding live by blast
qed

lemma inv_ledger:
  assumes tables: "tables_inv start s" and str: "stream_inv book queued start s"
    and seq: "sequence = last_ingested (db s) + 1" "last_ingested (db s) < sequence"
    and ok: "offer_changes_ok sequence (offers (db s)) ochs" "pool_changes_ok sequence pchs"
    and db': "ingest_book sequence ochs pchs (db s) = Inr db'"
    and s': "s' = s\<lparr>db := db',
      past_offers := (past_offers s)(sequence := fold change_offer ochs (past_offers s (last_ingested (db s)))),
      past_pools := (past_pools s)(sequence := fold change_pool pchs (past_pools s (last_ingested (db s))))\<rparr>"
  shows "tables_inv start s'" "stream_inv book queued start s'"
proof -
  let ?c = "offer_compaction (db s)" and ?d = "pool_compaction (db s)"
  have t: "0 < start" "start \<le> last_ingested (db s)" "cut_ok start (last_ingested (db s)) ?c" "cut_ok start (last_ingested (db s)) ?d"
    "ot.tells start ?c (last_ingested (db s)) (past_offers s) (offers (db s))"
    "pt.tells start ?d (last_ingested (db s)) (past_pools s) (liquidity_pools (db s))"
    "\<forall>r\<in>set (offers (db s)). 0 < OfferID r" "\<forall>r\<in>set (liquidity_pools (db s)). pool_ok r"
    using tables by (simp_all add: tables_inv_def)
  have d: "distinct (map OfferID (offers (db s)))" "distinct (map PoolID (liquidity_pools (db s)))"
    using t(5,6) by (simp_all add: ot.tells_def pt.tells_def)
  from ingest_book_effect [OF ok d] obtain u v where
    i: "ingest_book sequence ochs pchs (db s) = Inr ((db s)\<lparr>offers := u, liquidity_pools := v,
      offer_compaction := cut_of sequence ?c, pool_compaction := cut_of sequence ?d, last_ingested := sequence\<rparr>)"
    and u: "distinct (map OfferID u)"
      "\<forall>k. ot.row u k = ot.compacted (cut_of sequence ?c) (overlay (ot.row (map (offer_change_row sequence) ochs)) (ot.row (offers (db s))) k) \<or>
         ot.row u k = overlay (ot.row (map (offer_change_row sequence) ochs)) (ot.row (offers (db s))) k"
    and v: "distinct (map PoolID v)"
      "\<forall>k. pt.row v k = pt.compacted (cut_of sequence ?d) (overlay (pt.row (map (pool_change_row sequence) pchs)) (pt.row (liquidity_pools (db s))) k) \<or>
         pt.row v k = overlay (pt.row (map (pool_change_row sequence) pchs)) (pt.row (liquidity_pools (db s))) k"
    by (elim exE conjE)
  have 1: "db' = (db s)\<lparr>offers := u, liquidity_pools := v,
      offer_compaction := cut_of sequence ?c, pool_compaction := cut_of sequence ?d, last_ingested := sequence\<rparr>"
    using db' i by simp
  have "\<forall>r\<in>set u. 0 < OfferID r"
    using ot.set_written [OF u] t(7) offer_changes_okD(4) [OF ok(1)] by blast
  moreover have "\<forall>r\<in>set v. pool_ok r"
    using pt.set_written [OF v] t(8) pool_changes_okD(4) [OF ok(2)] by blast
  moreover have "start \<le> sequence" using t(2) seq(2) by simp
  ultimately show "tables_inv start s'"
    using t(1) offers_ledger [OF t(5) t(3) t(2) seq(2,1) ok(1) u] pools_ledger [OF t(6) t(4) t(2) seq(2,1) ok(2) v]
      cut_of_step(1) [OF t(3) t(2) seq(2,1)] cut_of_step(1) [OF t(4) t(2) seq(2,1)]
    unfolding tables_inv_def s' 1 by simp
  have "lastLedger (stream s) \<le> last_ingested (db s) \<Longrightarrow> lastLedger (stream s) \<noteq> sequence" using seq(2) by auto
  moreover have "lastLedger (stream s) \<le> last_ingested (db s) \<Longrightarrow> lastLedger (stream s) \<le> sequence" using seq(2) by simp
  ultimately show "stream_inv book queued start s'" using str by (auto simp: stream_inv_def s' 1 Let_def)
qed

text \<open>A graph that was brought up to date shows the last ingested ledger.\<close>

lemma update_book_follows:
  assumes G: "graph_ok G book queued" and tables: "tables_inv start s" and str: "stream_inv book queued start s"
    and st: "LastIngestedLedger status = last_ingested (db s)" "LastOfferCompactionLedger status = offer_compaction (db s)"
      "LastLiquidityPoolCompactionLedger status = pool_compaction (db s)"
    and u: "update_book G flt (db s) status (stream s) = (o', reset, err)"
  shows "stream_inv book queued start (s\<lparr>stream := o'\<rparr>)"
    "err = None \<Longrightarrow> \<not> StateInvalid status \<Longrightarrow> HistoryConsistentWithState status \<Longrightarrow> lastLedger o' = last_ingested (db s)"
proof -
  let ?now = "last_ingested (db s)" and ?L = "lastLedger (stream s)"
  have t: "0 < start" "start \<le> ?now" "offer_compaction (db s) \<le> ?now" "pool_compaction (db s) \<le> ?now"
    "ot.tells start (offer_compaction (db s)) ?now (past_offers s) (offers (db s))"
    "pt.tells start (pool_compaction (db s)) ?now (past_pools s) (liquidity_pools (db s))"
    "\<forall>r\<in>set (liquidity_pools (db s)). pool_ok r" "\<forall>r\<in>set (offers (db s)). 0 < OfferID r"
    using tables cut_ok_le by (auto simp: tables_inv_def)
  have d: "distinct (map OfferID (offers (db s)))" "distinct (map PoolID (liquidity_pools (db s)))"
    using t(5,6) by (simp_all add: ot.tells_def pt.tells_def)
  have q: "queued (graph (stream s)) = book (graph (stream s))" using str by (simp add: stream_inv_def Let_def)
  have now: "live_offers (db s) = past_offers s ?now" "live_pools (db s) = past_pools s ?now"
    using ot.tells_now [OF t(5,2,3)] pt.tells_now [OF t(6,2,4)] by (simp_all add: live_offers_def live_pools_def)
  have all: "stream_inv book queued start (s\<lparr>stream := o'\<rparr>) \<and> (err = None \<longrightarrow> lastLedger o' = ?now)"
    if "applied book queued o1 ?now (past_offers s ?now, past_pools s ?now) (o', err)" "stream_inv book queued start (s\<lparr>stream := o1\<rparr>)" for o1
    using that t(1,2) by (cases err) (auto simp: applied_def stream_inv_def Let_def)
  have "stream_inv book queued start (s\<lparr>stream := o'\<rparr>) \<and>
    (err = None \<longrightarrow> \<not> StateInvalid status \<longrightarrow> HistoryConsistentWithState status \<longrightarrow> lastLedger o' = ?now)"
  proof (cases "needs_reset status (stream s)")
    case True
    let ?o1 = "(stream s)\<lparr>graph := Clear G (graph (stream s)), lastLedger := 0\<rparr>"
    have o1: "stream_inv book queued start (s\<lparr>stream := ?o1\<rparr>)" by (simp add: stream_inv_def graph_okD [OF G])
    show ?thesis
    proof (cases "StateInvalid status \<or> \<not> HistoryConsistentWithState status")
      case True
      with \<open>needs_reset status (stream s)\<close> u o1 show ?thesis by (auto simp: update_book_def Let_def)
    next
      case False
      have "load_all G flt (db s) ?now ?o1 = (o', err)"
        using True False u by (simp add: update_book_def Let_def st(1) split: prod.splits)
      moreover have "applied book queued ?o1 ?now (live_offers (db s), live_pools (db s)) (load_all G flt (db s) ?now ?o1)"
        by (rule load_all_applied [OF G t(7,8) d]) (simp add: graph_okD [OF G])
      ultimately show ?thesis using all [of ?o1] o1 by (simp add: now)
    qed
  next
    case False
    then have L: "?L \<noteq> 0" "offer_compaction (db s) \<le> ?L" "pool_compaction (db s) = offer_compaction (db s)"
      using st by (auto simp: needs_reset_def not_less word_gt_0 split: if_splits)
    then have L': "start \<le> ?L" "?L \<le> ?now" "book (graph (stream s)) = (past_offers s ?L, past_pools s ?L)"
      using str by (simp_all add: stream_inv_def Let_def)
    show ?thesis
    proof (cases "?now = ?L")
      case True
      with False u str show ?thesis by (auto simp: update_book_def st(1) stream_inv_def)
    next
      case ne: False
      have "load_updates G flt (db s) ?now (stream s) = (o', err)"
        using False ne u by (simp add: update_book_def st(1) split: prod.splits)
      moreover have "fold ot.apply_row (GetUpdatedOffers ?L (db s)) (past_offers s ?L) = past_offers s ?now"
        using ot.tells_replay [OF t(5) L'(1) L(2) L'(2)] now by (simp add: GetUpdatedOffers_def live_offers_def)
      moreover have "fold pt.apply_row (GetUpdatedLiquidityPools ?L (db s)) (past_pools s ?L) = past_pools s ?now"
        using pt.tells_replay [OF t(6) L'(1) _ L'(2)] L(2,3) now by (simp add: GetUpdatedLiquidityPools_def live_pools_def)
      ultimately have "applied book queued (stream s) ?now (past_offers s ?now, past_pools s ?now) (o', err)"
        using load_updates_applied [OF G t(7) q, of ?now flt] L'(3) by simp
      then show ?thesis using all [of "stream s"] str by simp
    qed
  qed
  then show "stream_inv book queued start (s\<lparr>stream := o'\<rparr>)"
    "err = None \<Longrightarrow> \<not> StateInvalid status \<Longrightarrow> HistoryConsistentWithState status \<Longrightarrow> lastLedger o' = last_ingested (db s)" by simp_all
qed

lemma verify_book_graph: "graph (verify_book G flt cancelled now d o') = graph o' \<and>
    (lastLedger (verify_book G flt cancelled now d o') = lastLedger o' \<or> lastLedger (verify_book G flt cancelled now d o') = 0)"
  by (simp add: verify_book_def split: sum.split prod.split)

lemma stream_inv_same:
  "stream_inv book queued start (s\<lparr>stream := o1\<rparr>) \<Longrightarrow> graph o2 = graph o1 \<Longrightarrow> lastLedger o2 = lastLedger o1 \<or> lastLedger o2 = 0 \<Longrightarrow>
   stream_inv book queued start (s\<lparr>stream := o2\<rparr>)"
  by (auto simp: stream_inv_def Let_def)

lemma getIngestionStatus_db:
  "getIngestionStatus flt d = Inr status \<Longrightarrow> status =
     \<lparr>HistoryConsistentWithState = (last_ingested d = last_history d \<or> last_history d = 0), StateInvalid = state_invalid d,
      LastIngestedLedger = last_ingested d, LastOfferCompactionLedger = offer_compaction d,
      LastLiquidityPoolCompactionLedger = pool_compaction d\<rparr>"
  by (simp add: getIngestionStatus_def book_read_def split: option.splits prod.splits)

lemma Update_follows:
  assumes G: "graph_ok G book queued" and tables: "tables_inv start s" and str: "stream_inv book queued start s"
    and u: "Update G flt cancelled now jitter (db s) (stream s) = (o', err)"
  shows "stream_inv book queued start (s\<lparr>stream := o'\<rparr>)"
proof -
  have same: "s\<lparr>stream := stream s\<rparr> = s" by simp
  show ?thesis
  proof (cases "flt BeginTx \<noteq> None \<or> (\<exists>e. getIngestionStatus flt (db s) = Inl e)")
    case True
    then have "o' = stream s" using u by (auto simp: Update_def book_read_def split: option.splits)
    with str same show ?thesis by simp
  next
    case False
    then obtain status where st: "getIngestionStatus flt (db s) = Inr status" by (cases "getIngestionStatus flt (db s)") auto
    obtain o1 reset e where up: "update_book G flt (db s) status (stream s) = (o1, reset, e)" by (cases "update_book G flt (db s) status (stream s)")
    have "stream_inv book queued start (s\<lparr>stream := o1\<rparr>)"
      by (rule update_book_follows(1) [OF G tables str _ _ _ up]) (simp_all add: getIngestionStatus_db [OF st])
    moreover have "o' = o1 \<or> o' = verify_book G flt cancelled now (db s) o1"
      using u False st up by (auto simp: Update_def book_read_def split: option.splits bool.splits if_splits)
    ultimately show ?thesis using stream_inv_same verify_book_graph by blast
  qed
qed

lemma inv_reachable:
  assumes G: "graph_ok G book queued" and s0: "book_start book queued start s0" and run: "(book_step G)\<^sup>*\<^sup>* s0 s"
  shows "tables_inv start s \<and> stream_inv book queued start s"
  using run
proof (induction rule: rtranclp_induct)
  case base
  show ?case using tables_start [OF s0] s0 by (simp add: book_start_def stream_inv_def)
next
  case (step s s')
  then have inv: "tables_inv start s" "stream_inv book queued start s" by simp_all
  from step.hyps(2) show ?case
  proof (cases rule: book_step.cases)
    case (ledger sequence ochs pchs db')
    then show ?thesis using inv_ledger [OF inv ledger(2-6) ledger(1)] by blast
  next
    case (flags h b)
    then show ?thesis using inv by (simp add: tables_inv_def stream_inv_def)
  next
    case (update flt cancelled now jitter o' err)
    then show ?thesis using inv Update_follows [OF G inv update(2)] by (simp add: tables_inv_def)
  qed
qed

subsection \<open>The order book follows the ledger\<close>

text \<open>A graph for the witnesses: what it holds, and what it would hold after the queued changes.\<close>

definition demo_graph :: "(book_view \<times> book_view) obgraph" where
  "demo_graph =
     \<lparr>Clear = (\<lambda>g. ((\<lambda>k. None, \<lambda>k. None), (\<lambda>k. None, \<lambda>k. None))), Discard = (\<lambda>g. (fst g, fst g)),
      AddOffers = (\<lambda>e. apsnd (apfst (\<lambda>m. m(OfferId e := Some e)))), RemoveOffer = (\<lambda>i. apsnd (apfst (\<lambda>m. m(i := None)))),
      AddLiquidityPools = (\<lambda>e. apsnd (apsnd (\<lambda>m. m(PoolIDToString (LiquidityPoolId e) := Some e)))),
      RemoveLiquidityPool = (\<lambda>e. apsnd (apsnd (\<lambda>m. m(PoolIDToString (LiquidityPoolId e) := None)))),
      Apply = (\<lambda>l g. Inr (snd g, snd g)), Verify = (\<lambda>g. Inl ''error''), MarshalOffer = (\<lambda>e. Inl ''error''),
      MarshalPool = (\<lambda>e. Inl ''error'')\<rparr>"

lemma demo_graph_ok: "graph_ok demo_graph fst snd"
  by (simp add: graph_ok_def demo_graph_def)

definition demo_offer :: OfferEntry where
  "demo_offer = \<lparr>SellerId = ''GA'', OfferId = 7, Selling = AssetTypeNative, Buying = AssetTypeCreditAlphanum4 ''USD'' ''GB'',
     OfferAmount = 10, PriceN = 1, PriceD = 2, OfferFlags = 0\<rparr>"

definition demo_change :: "OfferEntry entry_change" where
  "demo_change = \<lparr>PreEntry = None, PostEntry = Some \<lparr>Data = demo_offer, LastModifiedLedgerSeq = 2, SponsoringID = None\<rparr>\<rparr>"

definition demo_s0 :: "(book_view \<times> book_view) book_system" where
  "demo_s0 = \<lparr>db = \<lparr>offers = [], liquidity_pools = [], offer_compaction = 0, pool_compaction = 0, last_ingested = 1, last_history = 0, state_invalid = False\<rparr>,
     stream = NewOrderBookStream ((\<lambda>k. None, \<lambda>k. None), (\<lambda>k. None, \<lambda>k. None)) 0,
     past_offers = (\<lambda>l k. None), past_pools = (\<lambda>l k. None)\<rparr>"

definition demo_s1 :: "(book_view \<times> book_view) book_system" where
  "demo_s1 = demo_s0\<lparr>db := (db demo_s0)\<lparr>offers := [offer_row (the (PostEntry demo_change))], last_ingested := 2\<rparr>,
     past_offers := (past_offers demo_s0)(2 := fold change_offer [demo_change] (past_offers demo_s0 (last_ingested (db demo_s0)))),
     past_pools := (past_pools demo_s0)(2 := fold change_pool [] (past_pools demo_s0 (last_ingested (db demo_s0))))\<rparr>"

lemma demo_start: "book_start fst snd 1 demo_s0"
  by (simp add: book_start_def demo_s0_def NewOrderBookStream_def live_offers_def live_pools_def ot.live_def pt.live_def fun_eq_iff)

lemma demo_ledger: "book_step demo_graph demo_s0 demo_s1"
  unfolding demo_s1_def
  by (rule book_step.ledger [where sequence = 2 and ochs = "[demo_change]" and pchs = "[]"])
    (simp_all add: demo_s0_def demo_change_def demo_offer_def offer_changes_ok_def pool_changes_ok_def entry_of_def ingest_book_def
      NewOffersProcessor_def NewLiquidityPoolsChangeProcessor_def Offers_ProcessChange_def maxBatchSize_def offer_row_def
      Offers_Commit_def flushCache_def batchInsert_def Pools_Commit_def compactionWindow_def)

lemma demo_update:
  "\<exists>o'. Update demo_graph (\<lambda>q. None) (\<lambda>e. False) 0 0 (db demo_s1) (stream demo_s1) = (o', None) \<and> lastLedger o' = 2"
proof -
  have "StreamAllOffers 7 (db demo_s1) = []"
    by (simp add: StreamAllOffers.simps [of 7] streamAllOffersBatch_def demo_s1_def demo_s0_def offer_row_def demo_change_def demo_offer_def)
  then have "StreamAllOffers 0 (db demo_s1) = [offer_row (the (PostEntry demo_change))]"
    by (simp add: StreamAllOffers.simps [of 0] streamAllOffersBatch_def demo_s1_def demo_s0_def offer_row_def demo_change_def demo_offer_def offersBatchSize_def)
  then show ?thesis
    by (simp add: Update_def getIngestionStatus_def book_read_def update_book_def needs_reset_def load_all_def Let_def StreamAllLiquidityPools_def
      apply_and_discard_def demo_graph_def demo_s1_def demo_s0_def NewOrderBookStream_def)
qed

text \<open>C12. Whatever ledgers were ingested, whenever the stream updated and whichever of its queries failed: as long as the
  stream has a last ledger, the graph holds exactly the offers and the liquidity pools of that ledger, as the changes of the ledgers
  made them. No offer that was removed stays in the graph and no pool is missed, although removed rows are compacted away.\<close>

theorem order_book_follows_ledger:
  assumes "graph_ok G book queued" "book_start book queued start s0" "(book_step G)\<^sup>*\<^sup>* s0 s" "lastLedger (stream s) \<noteq> 0"
  shows "start \<le> lastLedger (stream s) \<and> lastLedger (stream s) \<le> last_ingested (db s) \<and>
    book (graph (stream s)) = (past_offers s (lastLedger (stream s)), past_pools s (lastLedger (stream s)))"
  using inv_reachable [OF assms(1-3)] assms(4) by (simp add: stream_inv_def Let_def)

theorem order_book_follows_ledger_witness:
  "\<exists>s. (book_step demo_graph)\<^sup>*\<^sup>* demo_s0 s \<and> lastLedger (stream s) = 2 \<and> fst (fst (graph (stream s))) 7 = Some demo_offer"
proof -
  obtain o' where o': "Update demo_graph (\<lambda>q. None) (\<lambda>e. False) 0 0 (db demo_s1) (stream demo_s1) = (o', None)" "lastLedger o' = 2"
    using demo_update by blast
  let ?s = "demo_s1\<lparr>stream := o'\<rparr>"
  have run: "(book_step demo_graph)\<^sup>*\<^sup>* demo_s0 ?s"
    using demo_ledger book_step.update [OF o'(1)] by (meson converse_rtranclp_into_rtranclp r_into_rtranclp)
  have "fst (graph o') = (past_offers demo_s1 2, past_pools demo_s1 2)"
    using order_book_follows_ledger [OF demo_graph_ok demo_start run] o'(2) by simp
  moreover have "past_offers demo_s1 2 7 = Some demo_offer"
    by (simp add: demo_s1_def demo_s0_def change_offer_def entry_of_def demo_change_def demo_offer_def)
  ultimately show ?thesis using run o'(2) by (intro exI [of _ ?s]) simp
qed

text \<open>When the ingested state is valid and consistent with the history, an update of the stream that returns no error leaves
  the graph with exactly the offers and pools of the last ingested ledger, whether it reloaded all rows or only the newer ones, and
  whatever happened before.\<close>

theorem order_book_catches_up:
  assumes "graph_ok G book queued" "book_start book queued start s0" "(book_step G)\<^sup>*\<^sup>* s0 s"
    and "\<not> state_invalid (db s)" "last_history (db s) = last_ingested (db s) \<or> last_history (db s) = 0"
    and "Update G flt cancelled now jitter (db s) (stream s) = (o', None)"
  shows "book (graph o') = (past_offers s (last_ingested (db s)), past_pools s (last_ingested (db s)))"
proof -
  note inv = inv_reachable [OF assms(1-3), THEN conjunct1] inv_reachable [OF assms(1-3), THEN conjunct2]
  obtain status where begin_tx: "flt BeginTx = None" and st: "getIngestionStatus flt (db s) = Inr status"
    using assms(6) by (auto simp: Update_def book_read_def split: option.splits sum.splits)
  note status = getIngestionStatus_db [OF st]
  obtain o1 reset e where up: "update_book G flt (db s) status (stream s) = (o1, reset, e)" by (cases "update_book G flt (db s) status (stream s)")
  have e: "e = None" and g: "graph o' = graph o1"
    using assms(6) begin_tx st up by (auto simp: verify_book_graph [THEN conjunct1] Update_def book_read_def split: option.splits bool.splits if_splits)
  have "stream_inv book queued start (s\<lparr>stream := o1\<rparr>)"
    by (rule update_book_follows(1) [OF assms(1) inv _ _ _ up]) (simp_all add: status)
  moreover have "lastLedger o1 = last_ingested (db s)"
    by (rule update_book_follows(2) [OF assms(1) inv _ _ _ up e]) (use assms(4,5) in \<open>auto simp: status\<close>)
  moreover have "last_ingested (db s) \<noteq> 0" using inv(1) by (auto simp: tables_inv_def)
  ultimately show ?thesis by (simp add: stream_inv_def Let_def g)
qed

theorem order_book_catches_up_witness:
  "\<exists>o'. Update demo_graph (\<lambda>q. None) (\<lambda>e. False) 0 0 (db demo_s1) (stream demo_s1) = (o', None) \<and>
     fst (graph o') = (past_offers demo_s1 2, past_pools demo_s1 2)"
proof -
  obtain o' where o': "Update demo_graph (\<lambda>q. None) (\<lambda>e. False) 0 0 (db demo_s1) (stream demo_s1) = (o', None)"
    using demo_update by blast
  have "fst (graph o') = (past_offers demo_s1 (last_ingested (db demo_s1)), past_pools demo_s1 (last_ingested (db demo_s1)))"
    by (rule order_book_catches_up [OF demo_graph_ok demo_start r_into_rtranclp [of "book_step demo_graph", OF demo_ledger] _ _ o'])
      (simp_all add: demo_s1_def demo_s0_def)
  moreover have "last_ingested (db demo_s1) = 2" by (simp add: demo_s1_def)
  ultimately show ?thesis using o' by auto
qed

end
