(* ===== verification/State_Tables.thy ===== *)
theory State_Tables
  imports Order_Book "HOL-Library.AList"
begin

text \<open>
  The tables of accounts, signers, data entries, trust lines and claimable balances, and the processors that
  write the changes of a ledger to them (\<open>internal/ingest/processors/accounts_processor.go\<close>,
  \<open>signers_processor.go\<close>, \<open>account_data_processor.go\<close>, \<open>trust_lines_processor.go\<close>,
  \<open>claimable_balances_change_processor.go\<close>; the statements are in \<open>internal/db2/history\<close>). A ledger entry of the XDR package
  is the record of what its accessors return: an extension that is missing has the default values, and
  an account or a contract is its address. What the package computes is the record \<open>entry_api\<close>. Each
  statement may fail, which \<open>table_faults\<close> decides; an error rolls the transaction back, so it carries no tables.
\<close>

subsection \<open>Entries\<close>

record xSigner =
  sg_Key :: string
  sg_Weight :: u32
  sg_Sponsor :: "string option"

record xAccountEntry =
  xa_AccountId :: string
  xa_Balance :: i64
  xa_SeqNum :: i64
  xa_NumSubEntries :: u32
  xa_InflationDest :: "string option"
  xa_Flags :: u32
  xa_HomeDomain :: string
  xa_MasterKeyWeight :: "8 word"
  xa_ThresholdLow :: "8 word"
  xa_ThresholdMedium :: "8 word"
  xa_ThresholdHigh :: "8 word"
  xa_Signers :: "xSigner list"
  xa_Buying :: i64
  xa_Selling :: i64
  xa_NumSponsored :: u32
  xa_NumSponsoring :: u32
  xa_V3 :: "(u32 \<times> u64) option"

record xDataEntry =
  xd_AccountId :: string
  xd_DataName :: string
  xd_DataValue :: "8 word list"

datatype xTrustLineAsset = TLAsset Asset | TLPoolShare "8 word list"

record xTrustLineEntry =
  xt_AccountId :: string
  xt_Asset :: xTrustLineAsset
  xt_Balance :: i64
  xt_Limit :: i64
  xt_Flags :: u32
  xt_Buying :: i64
  xt_Selling :: i64

record 'p xClaimant =
  xc_Destination :: string
  xc_Predicate :: 'p

record 'p xClaimableBalanceEntry =
  xb_BalanceId :: "8 word list"
  xb_Claimants :: "'p xClaimant list"
  xb_Asset :: Asset
  xb_Amount :: i64
  xb_Flags :: u32

text \<open>The accessors \<open>SeqLedger\<close> and \<open>SeqTime\<close> are zero without the extension.\<close>

definition SeqLedger :: "xAccountEntry \<Rightarrow> u32" where
  "SeqLedger a = (case xa_V3 a of None \<Rightarrow> 0 | Some (l, t) \<Rightarrow> l)"

definition SeqTime :: "xAccountEntry \<Rightarrow> u64" where
  "SeqTime a = (case xa_V3 a of None \<Rightarrow> 0 | Some (l, t) \<Rightarrow> t)"

text \<open>
  What is called of the XDR package. The maps of \<open>SignerSummary\<close> and \<open>SponsorPerSigner\<close> are association lists
  in the order in which a loop visits them.
\<close>

record 'p entry_api =
  AccountChangedExceptSigners :: "xAccountEntry entry_change \<Rightarrow> string + bool"
  SignerSummary :: "xAccountEntry \<Rightarrow> (string \<times> 32 word) list"
  SponsorPerSigner :: "xAccountEntry \<Rightarrow> (string \<times> string) list"
  DataLedgerKey :: "string \<Rightarrow> string \<Rightarrow> string + string"
  TrustLineLedgerKey :: "string \<Rightarrow> xTrustLineAsset \<Rightarrow> string + string"
  ExtractAsset :: "Asset \<Rightarrow> string + assetStatKey"
  NewCreditAsset :: "string \<Rightarrow> string \<Rightarrow> string + Asset"
  MarshalHex :: "8 word list \<Rightarrow> string + string"
  SafeUnmarshalHex :: "string \<Rightarrow> string + 8 word list"
  SortSignersByKey :: "xSigner list \<Rightarrow> xSigner list"
  SortClaimantsByDestination :: "'p xClaimant list \<Rightarrow> 'p xClaimant list"

subsection \<open>Rows\<close>

record AccountEntry =
  a_AccountID :: string
  a_Balance :: i64
  a_BuyingLiabilities :: i64
  a_SellingLiabilities :: i64
  a_SequenceNumber :: i64
  a_SequenceLedger :: "i64 option"
  a_SequenceTime :: "i64 option"
  a_NumSubEntries :: u32
  a_InflationDestination :: string
  a_HomeDomain :: string
  a_Flags :: u32
  a_MasterWeight :: "8 word"
  a_ThresholdLow :: "8 word"
  a_ThresholdMedium :: "8 word"
  a_ThresholdHigh :: "8 word"
  a_LastModifiedLedger :: u32
  a_Sponsor :: "string option"
  a_NumSponsored :: u32
  a_NumSponsoring :: u32

record AccountSigner =
  s_Account :: string
  s_Signer :: string
  s_Weight :: "32 word"
  s_Sponsor :: "string option"

record AccountData =
  d_LedgerKey :: string
  d_AccountID :: string
  d_Name :: string
  d_Value :: "8 word list"
  d_LastModifiedLedger :: u32
  d_Sponsor :: "string option"

record TrustLine =
  t_AccountID :: string
  t_AssetType :: int
  t_AssetIssuer :: string
  t_AssetCode :: string
  t_Balance :: i64
  t_LedgerKey :: string
  t_Limit :: i64
  t_LiquidityPoolID :: string
  t_BuyingLiabilities :: i64
  t_SellingLiabilities :: i64
  t_Flags :: u32
  t_LastModifiedLedger :: u32
  t_Sponsor :: "string option"

record 'p ClaimableBalance =
  b_BalanceID :: string
  b_Claimants :: "'p xClaimant list"
  b_Asset :: Asset
  b_Amount :: i64
  b_Sponsor :: "string option"
  b_LastModifiedLedger :: u32
  b_Flags :: u32

record ClaimableBalanceClaimant =
  c_BalanceID :: string
  c_Destination :: string
  c_LastModifiedLedger :: u32

record 'p state_db =
  accounts_t :: "AccountEntry list"
  accounts_signers_t :: "AccountSigner list"
  accounts_data_t :: "AccountData list"
  trust_lines_t :: "TrustLine list"
  claimable_balances_t :: "'p ClaimableBalance list"
  claimants_t :: "ClaimableBalanceClaimant list"

text \<open>\<open>zero.IntFrom\<close>: null for zero.\<close>

definition IntFrom :: "i64 \<Rightarrow> i64 option" where
  "IntFrom n = (if n = 0 then None else Some n)"

definition account_row :: "xAccountEntry ledger_entry \<Rightarrow> AccountEntry" where
  "account_row entry = (let account = Data entry in
     \<lparr>a_AccountID = xa_AccountId account, a_Balance = xa_Balance account, a_BuyingLiabilities = xa_Buying account,
      a_SellingLiabilities = xa_Selling account, a_SequenceNumber = xa_SeqNum account,
      a_SequenceLedger = IntFrom (ucast (SeqLedger account)), a_SequenceTime = IntFrom (SeqTime account),
      a_NumSubEntries = xa_NumSubEntries account,
      a_InflationDestination = (case xa_InflationDest account of None \<Rightarrow> [] | Some d \<Rightarrow> d),
      a_HomeDomain = xa_HomeDomain account, a_Flags = xa_Flags account, a_MasterWeight = xa_MasterKeyWeight account,
      a_ThresholdLow = xa_ThresholdLow account, a_ThresholdMedium = xa_ThresholdMedium account,
      a_ThresholdHigh = xa_ThresholdHigh account, a_LastModifiedLedger = LastModifiedLedgerSeq entry,
      a_Sponsor = SponsoringID entry, a_NumSponsored = xa_NumSponsored account, a_NumSponsoring = xa_NumSponsoring account\<rparr>)"

definition accountDataKeyToString :: "'p entry_api \<Rightarrow> string \<Rightarrow> string \<Rightarrow> stats_error + string" where
  "accountDataKeyToString api account name = (case DataLedgerKey api account name of
       Inl e \<Rightarrow> Inl (PlainError e)
     | Inr key \<Rightarrow> Inr key)"

text \<open>The row of a data entry, with the column \<open>ledger_key\<close> that the statements add.\<close>

definition data_row :: "'p entry_api \<Rightarrow> xDataEntry ledger_entry \<Rightarrow> stats_error + AccountData" where
  "data_row api entry = (let data = Data entry in
     case accountDataKeyToString api (xd_AccountId data) (xd_DataName data) of
       Inl e \<Rightarrow> Inl e
     | Inr key \<Rightarrow> Inr \<lparr>d_LedgerKey = key, d_AccountID = xd_AccountId data, d_Name = xd_DataName data,
         d_Value = xd_DataValue data, d_LastModifiedLedger = LastModifiedLedgerSeq entry, d_Sponsor = SponsoringID entry\<rparr>)"

definition data_key :: "'p entry_api \<Rightarrow> xDataEntry ledger_entry \<Rightarrow> stats_error + string" where
  "data_key api entry = accountDataKeyToString api (xd_AccountId (Data entry)) (xd_DataName (Data entry))"

definition trustLineLedgerKey :: "'p entry_api \<Rightarrow> xTrustLineEntry \<Rightarrow> stats_error + string" where
  "trustLineLedgerKey api line = (case TrustLineLedgerKey api (xt_AccountId line) (xt_Asset line) of
       Inl e \<Rightarrow> Inl (WrapError ''Error extracting ledger key'' e)
     | Inr key \<Rightarrow> Inr key)"

text \<open>The asset types of the XDR definitions that the code names.\<close>

definition AssetTypeAssetTypeNative :: int where
  "AssetTypeAssetTypeNative = 0"

definition AssetTypeAssetTypePoolShare :: int where
  "AssetTypeAssetTypePoolShare = 3"

definition xdrToTrustline :: "'p entry_api \<Rightarrow> xTrustLineEntry ledger_entry \<Rightarrow> stats_error + TrustLine" where
  "xdrToTrustline api entry = (let line = Data entry in
     case trustLineLedgerKey api line of
       Inl e \<Rightarrow> Inl e
     | Inr key \<Rightarrow> (case (case xt_Asset line of
           TLPoolShare pool \<Rightarrow> Inr (AssetTypeAssetTypePoolShare, [], [], PoolIDToString pool)
         | TLAsset asset \<Rightarrow> (case ExtractAsset api asset of
               Inl e \<Rightarrow> Inl (WrapError ''Error extracting asset from trustline'' e)
             | Inr k \<Rightarrow> Inr (assetType k, assetCode k, assetIssuer k, []))) of
           Inl e \<Rightarrow> Inl e
         | Inr (typ, code, issuer, poolID) \<Rightarrow>
             Inr \<lparr>t_AccountID = xt_AccountId line, t_AssetType = typ, t_AssetIssuer = issuer, t_AssetCode = code,
               t_Balance = xt_Balance line, t_LedgerKey = key, t_Limit = xt_Limit line, t_LiquidityPoolID = poolID,
               t_BuyingLiabilities = xt_Buying line, t_SellingLiabilities = xt_Selling line, t_Flags = xt_Flags line,
               t_LastModifiedLedger = LastModifiedLedgerSeq entry, t_Sponsor = SponsoringID entry\<rparr>))"

definition buildClaimants :: "'p xClaimant list \<Rightarrow> 'p xClaimant list" where
  "buildClaimants claimants = map (\<lambda>c. \<lparr>xc_Destination = xc_Destination c, xc_Predicate = xc_Predicate c\<rparr>) claimants"

definition balance_key :: "'p entry_api \<Rightarrow> 'p xClaimableBalanceEntry ledger_entry \<Rightarrow> stats_error + string" where
  "balance_key api entry = (case MarshalHex api (xb_BalanceId (Data entry)) of
       Inl e \<Rightarrow> Inl (PlainError e)
     | Inr key \<Rightarrow> Inr key)"

definition balance_row :: "'p entry_api \<Rightarrow> 'p xClaimableBalanceEntry ledger_entry \<Rightarrow> stats_error + 'p ClaimableBalance" where
  "balance_row api entry = (let cBalance = Data entry in
     case balance_key api entry of
       Inl e \<Rightarrow> Inl e
     | Inr key \<Rightarrow> Inr \<lparr>b_BalanceID = key, b_Claimants = buildClaimants (xb_Claimants cBalance), b_Asset = xb_Asset cBalance,
         b_Amount = xb_Amount cBalance, b_Sponsor = SponsoringID entry, b_LastModifiedLedger = LastModifiedLedgerSeq entry,
         b_Flags = xb_Flags cBalance\<rparr>)"

text \<open>The rows of the claimants of a balance.\<close>

definition claimant_rows :: "'p ClaimableBalance \<Rightarrow> ClaimableBalanceClaimant list" where
  "claimant_rows cb = map (\<lambda>c. \<lparr>c_BalanceID = b_BalanceID cb, c_Destination = xc_Destination c,
     c_LastModifiedLedger = b_LastModifiedLedger cb\<rparr>) (b_Claimants cb)"

definition claimant_key :: "ClaimableBalanceClaimant \<Rightarrow> string \<times> string" where
  "claimant_key r = (c_BalanceID r, c_Destination r)"

definition signer_key :: "AccountSigner \<Rightarrow> string \<times> string" where
  "signer_key r = (s_Account r, s_Signer r)"

subsection \<open>Statements\<close>

datatype state_table = AccountsT | SignersT | DataT | TrustLinesT | BalancesT | ClaimantsT

datatype statement = InsertStmt | UpsertStmt | RemoveStmt

type_synonym table_faults = "state_table \<Rightarrow> statement \<Rightarrow> string option"

text \<open>A statement that may fail; an error of the database is wrapped by the caller.\<close>

definition stmt :: "string option \<Rightarrow> string + 'a \<Rightarrow> stats_error + 'a" where
  "stmt fault result = (case fault of
       Some e \<Rightarrow> Inl (WrapError ''error executing statement'' e)
     | None \<Rightarrow> (case result of Inl e \<Rightarrow> Inl (WrapError ''error executing statement'' e) | Inr x \<Rightarrow> Inr x))"

text \<open>A deletion by a list of keys, with the number of rows it affects.\<close>

definition removeRows :: "('r \<Rightarrow> 'k) \<Rightarrow> 'k list \<Rightarrow> 'r list \<Rightarrow> nat \<times> 'r list" where
  "removeRows key ks t = (length (filter (\<lambda>r. key r \<in> set ks) t), filter (\<lambda>r. key r \<notin> set ks) t)"

text \<open>The deletion the processors make: as many rows as keys must be affected.\<close>

definition removeExactly :: "string option \<Rightarrow> ('r \<Rightarrow> 'k) \<Rightarrow> 'k list \<Rightarrow> 'r list \<Rightarrow> stats_error + 'r list" where
  "removeExactly fault key ks t = (case stmt fault (Inr (removeRows key ks t)) of
       Inl e \<Rightarrow> Inl e
     | Inr (rowsAffected, t') \<Rightarrow>
         if rowsAffected \<noteq> length ks then Inl (StateError ''rows affected when removing'') else Inr t')"

subsection \<open>Batches\<close>

text \<open>What a processor has collected: rows to insert and to update, and keys to remove.\<close>

record ('r, 'k) row_batch =
  b_insert :: "'r list"
  b_update :: "'r list"
  b_remove :: "'k list"

definition empty_batch :: "('r, 'k) row_batch" where
  "empty_batch = \<lparr>b_insert = [], b_update = [], b_remove = []\<rparr>"

definition batch_size :: "('r, 'k) row_batch \<Rightarrow> nat" where
  "batch_size b = length (b_insert b) + length (b_update b) + length (b_remove b)"

text \<open>
  The switch over the kinds of a change that the processors share. \<open>neither\<close> is the error, or the panic, for a change
  that has no entry at all.
\<close>

definition add_change :: "stats_error \<Rightarrow> ('e ledger_entry \<Rightarrow> stats_error + 'r) \<Rightarrow> ('e ledger_entry \<Rightarrow> stats_error + 'k) \<Rightarrow>
    'e entry_change \<Rightarrow> ('r, 'k) row_batch \<Rightarrow> stats_error + ('r, 'k) row_batch" where
  "add_change neither row key ch b = (case (PreEntry ch, PostEntry ch) of
       (None, Some post) \<Rightarrow> (case row post of Inl e \<Rightarrow> Inl e | Inr r \<Rightarrow> Inr (b\<lparr>b_insert := b_insert b @ [r]\<rparr>))
     | (Some pre, Some post) \<Rightarrow> (case row post of Inl e \<Rightarrow> Inl e | Inr r \<Rightarrow> Inr (b\<lparr>b_update := b_update b @ [r]\<rparr>))
     | (Some pre, None) \<Rightarrow> (case key pre of Inl e \<Rightarrow> Inl e | Inr k \<Rightarrow> Inr (b\<lparr>b_remove := b_remove b @ [k]\<rparr>))
     | (None, None) \<Rightarrow> Inl neither)"

text \<open>\<open>Commit\<close> of the processors with one table: insert, then update, then remove.\<close>

definition commit_batch :: "(statement \<Rightarrow> string option) \<Rightarrow> ('r \<Rightarrow> 'k) \<Rightarrow> ('r, 'k) row_batch \<Rightarrow> 'r list \<Rightarrow> stats_error + 'r list" where
  "commit_batch flt key b t = (case stmt (flt InsertStmt) (batchInsert key (b_insert b) t) of
       Inl e \<Rightarrow> Inl e
     | Inr t1 \<Rightarrow> (case (if b_update b = [] then Inr t1 else stmt (flt UpsertStmt) (upsertRows key (b_update b) t1)) of
           Inl e \<Rightarrow> Inl e
         | Inr t2 \<Rightarrow> if b_remove b = [] then Inr t2 else removeExactly (flt RemoveStmt) key (b_remove b) t2))"

text \<open>One change: collect it, and commit when the batch has grown too large.\<close>

definition process_row :: "(statement \<Rightarrow> string option) \<Rightarrow> ('r \<Rightarrow> 'k) \<Rightarrow> stats_error + ('r, 'k) row_batch \<Rightarrow> 'r list \<Rightarrow>
    stats_error + ('r, 'k) row_batch \<times> 'r list" where
  "process_row flt key b t = (case b of
       Inl e \<Rightarrow> Inl e
     | Inr b \<Rightarrow>
         if maxBatchSize < batch_size b
         then (case commit_batch flt key b t of Inl e \<Rightarrow> Inl e | Inr t' \<Rightarrow> Inr (empty_batch, t'))
         else Inr (b, t))"

subsection \<open>The processors with one table\<close>

type_synonym AccountsProcessor = "(AccountEntry, string) row_batch"

definition account_key :: "xAccountEntry ledger_entry \<Rightarrow> stats_error + string" where
  "account_key entry = Inr (xa_AccountId (Data entry))"

definition Accounts_ProcessChange :: "'p entry_api \<Rightarrow> table_faults \<Rightarrow> xAccountEntry entry_change \<Rightarrow> AccountsProcessor \<Rightarrow>
    AccountEntry list \<Rightarrow> stats_error + AccountsProcessor \<times> AccountEntry list" where
  "Accounts_ProcessChange api flt ch p t = (case AccountChangedExceptSigners api ch of
       Inl e \<Rightarrow> Inl (WrapError ''Error running change.AccountChangedExceptSigners'' e)
     | Inr changed \<Rightarrow>
         if \<not> changed then Inr (p, t)
         else process_row (flt AccountsT) a_AccountID
           (add_change (PlainError ''Invalid io.Change: change.Pre == nil && change.Post == nil'')
             (\<lambda>e. Inr (account_row e)) account_key ch p) t)"

definition Accounts_Commit :: "table_faults \<Rightarrow> AccountsProcessor \<Rightarrow> AccountEntry list \<Rightarrow> stats_error + AccountEntry list" where
  "Accounts_Commit flt p t = commit_batch (flt AccountsT) a_AccountID p t"

type_synonym AccountDataProcessor = "(AccountData, string) row_batch"

text \<open>
  The keys of the rows are computed when a row is inserted, and by the statements otherwise; both are the
  same function, here applied when the change is collected.
\<close>

definition AccountData_ProcessChange :: "'p entry_api \<Rightarrow> table_faults \<Rightarrow> xDataEntry entry_change \<Rightarrow> AccountDataProcessor \<Rightarrow>
    AccountData list \<Rightarrow> stats_error + AccountDataProcessor \<times> AccountData list" where
  "AccountData_ProcessChange api flt ch p t =
     process_row (flt DataT) d_LedgerKey (add_change Panic (data_row api) (data_key api) ch p) t"

definition AccountData_Commit :: "table_faults \<Rightarrow> AccountDataProcessor \<Rightarrow> AccountData list \<Rightarrow> stats_error + AccountData list" where
  "AccountData_Commit flt p t = commit_batch (flt DataT) d_LedgerKey p t"

type_synonym TrustLinesProcessor = "(TrustLine, string) row_batch"

definition TrustLines_ProcessChange :: "'p entry_api \<Rightarrow> table_faults \<Rightarrow> xTrustLineEntry entry_change \<Rightarrow> TrustLinesProcessor \<Rightarrow>
    TrustLine list \<Rightarrow> stats_error + TrustLinesProcessor \<times> TrustLine list" where
  "TrustLines_ProcessChange api flt ch p t =
     process_row (flt TrustLinesT) t_LedgerKey
       (add_change (PlainError ''Invalid io.Change: change.Pre == nil && change.Post == nil'')
         (xdrToTrustline api) (\<lambda>e. trustLineLedgerKey api (Data e)) ch p) t"

definition TrustLines_Commit :: "table_faults \<Rightarrow> TrustLinesProcessor \<Rightarrow> TrustLine list \<Rightarrow> stats_error + TrustLine list" where
  "TrustLines_Commit flt p t = commit_batch (flt TrustLinesT) t_LedgerKey p t"

subsection \<open>Claimable balances\<close>

text \<open>The balances and, in a table of their own, their claimants.\<close>

record 'p ClaimableBalancesProcessor =
  cb_batch :: "('p ClaimableBalance, string) row_batch"
  cb_claimants :: "ClaimableBalanceClaimant list"

definition NewClaimableBalancesProcessor :: "'p ClaimableBalancesProcessor" where
  "NewClaimableBalancesProcessor = \<lparr>cb_batch = empty_batch, cb_claimants = []\<rparr>"

definition UpsertClaimableBalances :: "table_faults \<Rightarrow> 'p ClaimableBalance list \<Rightarrow>
    'p ClaimableBalance list \<times> ClaimableBalanceClaimant list \<Rightarrow> stats_error + 'p ClaimableBalance list \<times> ClaimableBalanceClaimant list" where
  "UpsertClaimableBalances flt cbs = (\<lambda>(t, u). case stmt (flt BalancesT UpsertStmt) (upsertRows b_BalanceID cbs t) of
       Inl e \<Rightarrow> Inl e
     | Inr t' \<Rightarrow> (case stmt (flt ClaimantsT UpsertStmt) (upsertRows claimant_key (concat (map claimant_rows cbs)) u) of
           Inl e \<Rightarrow> Inl e
         | Inr u' \<Rightarrow> Inr (t', u')))"

definition Balances_Commit :: "table_faults \<Rightarrow> 'p ClaimableBalancesProcessor \<Rightarrow>
    'p ClaimableBalance list \<times> ClaimableBalanceClaimant list \<Rightarrow> stats_error + 'p ClaimableBalance list \<times> ClaimableBalanceClaimant list" where
  "Balances_Commit flt p = (\<lambda>(t, u). let b = cb_batch p in
     case stmt (flt ClaimantsT InsertStmt) (batchInsert claimant_key (cb_claimants p) u) of
       Inl e \<Rightarrow> Inl e
     | Inr u1 \<Rightarrow> (case stmt (flt BalancesT InsertStmt) (batchInsert b_BalanceID (b_insert b) t) of
         Inl e \<Rightarrow> Inl e
     | Inr t1 \<Rightarrow> (case (if b_update b = [] then Inr (t1, u1) else UpsertClaimableBalances flt (b_update b) (t1, u1)) of
         Inl e \<Rightarrow> Inl e
     | Inr (t2, u2) \<Rightarrow>
         if b_remove b = [] then Inr (t2, u2)
         else (case removeExactly (flt BalancesT RemoveStmt) b_BalanceID (b_remove b) t2 of
             Inl e \<Rightarrow> Inl e
           | Inr t3 \<Rightarrow> (case stmt (flt ClaimantsT RemoveStmt) (Inr (removeRows c_BalanceID (b_remove b) u2)) of
               Inl e \<Rightarrow> Inl e
             | Inr (rowsAffected, u3) \<Rightarrow> Inr (t3, u3))))))"

definition Balances_ProcessChange :: "'p entry_api \<Rightarrow> table_faults \<Rightarrow> 'p xClaimableBalanceEntry entry_change \<Rightarrow>
    'p ClaimableBalancesProcessor \<Rightarrow> 'p ClaimableBalance list \<times> ClaimableBalanceClaimant list \<Rightarrow>
    stats_error + 'p ClaimableBalancesProcessor \<times> 'p ClaimableBalance list \<times> ClaimableBalanceClaimant list" where
  "Balances_ProcessChange api flt ch p tu = (case add_change Panic (balance_row api) (balance_key api) ch (cb_batch p) of
       Inl e \<Rightarrow> Inl e
     | Inr b \<Rightarrow>
         let p = \<lparr>cb_batch = b, cb_claimants = cb_claimants p @
               (if PreEntry ch = None then claimant_rows (last (b_insert b)) else [])\<rparr> in
         if maxBatchSize < batch_size b + length (cb_claimants p)
         then (case Balances_Commit flt p tu of Inl e \<Rightarrow> Inl e | Inr tu' \<Rightarrow> Inr (NewClaimableBalancesProcessor, tu'))
         else Inr (p, tu))"

subsection \<open>Signers\<close>

text \<open>
  The difference of the signers of an account: those that were removed or changed, and the weights and sponsors
  of those that were added or changed. A missing key of a map of strings reads as the empty string.
\<close>

definition lookup_string :: "(string \<times> string) list \<Rightarrow> string \<Rightarrow> string" where
  "lookup_string m k = (case map_of m k of None \<Rightarrow> [] | Some v \<Rightarrow> v)"

fun signers_diff :: "(string \<times> 32 word) list \<Rightarrow> (string \<times> string) list \<Rightarrow> string list \<Rightarrow>
    (string \<times> 32 word) list \<Rightarrow> (string \<times> string) list \<Rightarrow> string list \<times> (string \<times> 32 word) list \<times> (string \<times> string) list" where
  "signers_diff [] preSponsors removed post postSponsors = (removed, post, postSponsors)"
| "signers_diff ((signer, preWeight) # pre) preSponsors removed post postSponsors =
     (if map_of post signer = Some preWeight \<and> lookup_string preSponsors signer = lookup_string postSponsors signer
      then signers_diff pre preSponsors removed (AList.delete signer post) (AList.delete signer postSponsors)
      else signers_diff pre preSponsors (removed @ [signer]) post postSponsors)"

definition accountSignersDiff :: "'p entry_api \<Rightarrow> xAccountEntry entry_change \<Rightarrow>
    string list \<times> (string \<times> 32 word) list \<times> (string \<times> string) list" where
  "accountSignersDiff api ch =
     (let summary = (\<lambda>e. case e of None \<Rightarrow> [] | Some x \<Rightarrow> SignerSummary api (Data x));
          sponsors = (\<lambda>e. case e of None \<Rightarrow> [] | Some x \<Rightarrow> SponsorPerSigner api (Data x)) in
      signers_diff (summary (PreEntry ch)) (sponsors (PreEntry ch)) [] (summary (PostEntry ch)) (sponsors (PostEntry ch)))"

definition removeAccountSigners :: "table_faults \<Rightarrow> string \<Rightarrow> string list \<Rightarrow> AccountSigner list \<Rightarrow> stats_error + AccountSigner list" where
  "removeAccountSigners flt account signers t =
     (case stmt (flt SignersT RemoveStmt) (Inr (removeRows signer_key (map (Pair account) signers) t)) of
        Inl e \<Rightarrow> Inl e
      | Inr (rowsAffected, t') \<Rightarrow>
          if rowsAffected \<noteq> length signers then Inl (StateError ''signers not found when removing'') else Inr t')"

definition addAccountSigners :: "string \<Rightarrow> (string \<times> 32 word) list \<Rightarrow> (string \<times> string) list \<Rightarrow> AccountSigner list" where
  "addAccountSigners account signerSummary sponsorsPerSigner =
     map (\<lambda>(signer, weight). \<lparr>s_Account = account, s_Signer = signer, s_Weight = weight,
       s_Sponsor = (if signer \<noteq> account then map_of sponsorsPerSigner signer else None)\<rparr>) signerSummary"

definition Signers_Commit :: "table_faults \<Rightarrow> AccountSigner list \<Rightarrow> AccountSigner list \<Rightarrow> stats_error + AccountSigner list" where
  "Signers_Commit flt p t = stmt (flt SignersT InsertStmt) (batchInsert signer_key p t)"

text \<open>The batch \<open>p\<close> are the rows to insert. The entry whose account is read is there, since something was removed or added.\<close>

definition Signers_ProcessChange :: "'p entry_api \<Rightarrow> table_faults \<Rightarrow> xAccountEntry entry_change \<Rightarrow> AccountSigner list \<Rightarrow>
    AccountSigner list \<Rightarrow> stats_error + AccountSigner list \<times> AccountSigner list" where
  "Signers_ProcessChange api flt ch p t = (case accountSignersDiff api ch of
       (removed, signerSummary, sponsorsPerSigner) \<Rightarrow>
         if removed = [] \<and> signerSummary = [] then Inr (p, t)
         else (case (if removed = [] then Inr t
               else (case PreEntry ch of None \<Rightarrow> Inl Panic
                 | Some pre \<Rightarrow> removeAccountSigners flt (xa_AccountId (Data pre)) removed t)) of
             Inl e \<Rightarrow> Inl e
           | Inr t1 \<Rightarrow> (case (if signerSummary = [] then Inr p
                 else (case PostEntry ch of None \<Rightarrow> Inl Panic
                   | Some post \<Rightarrow> Inr (p @ addAccountSigners (xa_AccountId (Data post)) signerSummary sponsorsPerSigner))) of
               Inl e \<Rightarrow> Inl e
             | Inr p1 \<Rightarrow>
                 if maxBatchSize < length p1
                 then (case Signers_Commit flt p1 t1 of Inl e \<Rightarrow> Inl e | Inr t2 \<Rightarrow> Inr ([], t2))
                 else Inr (p1, t1))))"

subsection \<open>A ledger\<close>

text \<open>A processor over all changes of its type, and the commit at the end.\<close>

fun process_all :: "('c \<Rightarrow> 'p \<Rightarrow> 't \<Rightarrow> stats_error + 'p \<times> 't) \<Rightarrow> 'c list \<Rightarrow> 'p \<Rightarrow> 't \<Rightarrow> stats_error + 'p \<times> 't" where
  "process_all f [] p t = Inr (p, t)"
| "process_all f (ch # chs) p t = (case f ch p t of Inl e \<Rightarrow> Inl e | Inr (p', t') \<Rightarrow> process_all f chs p' t')"

definition run_processor :: "('c \<Rightarrow> 'p \<Rightarrow> 't \<Rightarrow> stats_error + 'p \<times> 't) \<Rightarrow> ('p \<Rightarrow> 't \<Rightarrow> stats_error + 't) \<Rightarrow> 'p \<Rightarrow> 'c list \<Rightarrow>
    't \<Rightarrow> stats_error + 't" where
  "run_processor f commit p chs t = (case process_all f chs p t of Inl e \<Rightarrow> Inl e | Inr (p', t') \<Rightarrow> commit p' t')"

record 'p state_changes =
  account_changes :: "xAccountEntry entry_change list"
  data_changes :: "xDataEntry entry_change list"
  line_changes :: "xTrustLineEntry entry_change list"
  balance_changes :: "'p xClaimableBalanceEntry entry_change list"

text \<open>The processors of a ledger for these tables, in their order; each has its own tables.\<close>

definition ingest_state :: "'p entry_api \<Rightarrow> table_faults \<Rightarrow> 'p state_changes \<Rightarrow> 'p state_db \<Rightarrow> stats_error + 'p state_db" where
  "ingest_state api flt chs db =
     (case run_processor (AccountData_ProcessChange api flt) (AccountData_Commit flt) empty_batch (data_changes chs) (accounts_data_t db) of
        Inl e \<Rightarrow> Inl e
      | Inr ds \<Rightarrow> (case run_processor (Accounts_ProcessChange api flt) (Accounts_Commit flt) empty_batch (account_changes chs) (accounts_t db) of
          Inl e \<Rightarrow> Inl e
      | Inr as \<Rightarrow> (case run_processor (Signers_ProcessChange api flt) (Signers_Commit flt) [] (account_changes chs) (accounts_signers_t db) of
          Inl e \<Rightarrow> Inl e
      | Inr ss \<Rightarrow> (case run_processor (TrustLines_ProcessChange api flt) (TrustLines_Commit flt) empty_batch (line_changes chs) (trust_lines_t db) of
          Inl e \<Rightarrow> Inl e
      | Inr ts \<Rightarrow> (case run_processor (Balances_ProcessChange api flt) (Balances_Commit flt) NewClaimableBalancesProcessor (balance_changes chs)
            (claimable_balances_t db, claimants_t db) of
          Inl e \<Rightarrow> Inl e
      | Inr (bs, cs) \<Rightarrow>
          Inr \<lparr>accounts_t = as, accounts_signers_t = ss, accounts_data_t = ds, trust_lines_t = ts, claimable_balances_t = bs,
            claimants_t = cs\<rparr>)))))"

end
