(* ===== verification/State_Verifier.thy ===== *)
theory State_Verifier
  imports State_Tables Contract_Stats Ingest_Db "HOL-Library.Product_Lexorder" "HOL-Library.List_Lexorder" "HOL-Library.Char_ord"
begin

text \<open>
  The state verifier (\<open>internal/ingest/verify.go\<close>): it reads the ledger entries of a checkpoint in batches,
  builds the same entries from the rows of the state tables, compares them, counts, and compares the asset
  statistics it has computed from the entries with the tables of statistics. The rows and entries are those of
  \<open>State_Tables\<close>, \<open>Order_Book\<close>, \<open>Asset_Stats\<close> and \<open>Contract_Stats\<close>. Errors keep the innermost message.
\<close>

subsection \<open>Entries\<close>

datatype 'p entry_data =
    AccountE xAccountEntry
  | DataE xDataEntry
  | OfferE OfferEntry
  | TrustLineE xTrustLineEntry
  | ClaimableBalanceE "'p xClaimableBalanceEntry"
  | LiquidityPoolE PoolEntry
  | ContractDataE ContractDataEntry
  | TtlE TtlEntry
  | OtherE nat

type_synonym 'p entry = "'p entry_data ledger_entry"

text \<open>
  What is called of the XDR package here. The package panics on an address or a signer key that is not valid
  (\<open>MustAddress\<close>, \<open>MustSigner\<close>). \<open>EntryKey\<close> is the encoded \<open>LedgerKey\<close> of an entry.
\<close>

record 'p verify_api =
  IsAddress :: "string \<Rightarrow> bool"
  IsSignerKey :: "string \<Rightarrow> bool"
  Normalize :: "'p entry \<Rightarrow> 'p entry"
  EntryKey :: "'p entry \<Rightarrow> string + string"
  MarshalEntry :: "'p entry \<Rightarrow> string + string"

subsection \<open>The comparison\<close>

text \<open>The reader is what its next calls of \<open>Read\<close> return before the end of the file.\<close>

record 'p StateVerifier =
  stateReader :: "(string + 'p entry) list"
  readEntries :: nat
  readingDone :: bool
  currentEntries :: "(string \<times> 'p entry) list"

definition NewStateVerifier :: "(string + 'p entry) list \<Rightarrow> 'p StateVerifier" where
  "NewStateVerifier reader = \<lparr>stateReader = reader, readEntries = 0, readingDone = False, currentEntries = []\<rparr>"

definition checkUnreadEntries :: "'p StateVerifier \<Rightarrow> stats_error + unit" where
  "checkUnreadEntries v = (if currentEntries v \<noteq> [] then Inl (StateError ''Entries not found locally'') else Inr ())"

fun read_entries :: "'p verify_api \<Rightarrow> nat \<Rightarrow> 'p entry list \<Rightarrow> 'p StateVerifier \<Rightarrow> stats_error + 'p entry list \<times> 'p StateVerifier" where
  "read_entries va 0 entries v = Inr (entries, v)"
| "read_entries va (Suc n) entries v = (case stateReader v of
       [] \<Rightarrow> Inr (entries, v\<lparr>readingDone := True\<rparr>)
     | Inl e # reader \<Rightarrow> Inl (PlainError e)
     | Inr entry # reader \<Rightarrow> (case EntryKey va entry of
           Inl e \<Rightarrow> Inl (WrapError ''Error marshaling ledgerKey'' e)
         | Inr key \<Rightarrow>
             read_entries va n (entries @ [Normalize va entry])
               (v\<lparr>stateReader := reader, currentEntries := AList.update key (Normalize va entry) (currentEntries v),
                  readEntries := readEntries v + 1\<rparr>)))"

definition GetLedgerEntries :: "'p verify_api \<Rightarrow> nat \<Rightarrow> 'p StateVerifier \<Rightarrow> stats_error + 'p entry list \<times> 'p StateVerifier" where
  "GetLedgerEntries va n v = (case checkUnreadEntries v of
       Inl e \<Rightarrow> Inl e
     | Inr _ \<Rightarrow> read_entries va n [] (v\<lparr>currentEntries := []\<rparr>))"

definition Write :: "'p verify_api \<Rightarrow> 'p entry \<Rightarrow> 'p StateVerifier \<Rightarrow> stats_error + 'p StateVerifier" where
  "Write va entry v = (let actualEntry = Normalize va entry in
     case MarshalEntry va actualEntry of
       Inl e \<Rightarrow> Inl (WrapError ''Error marshaling actualEntry'' e)
     | Inr actualEntryMarshaled \<Rightarrow> (case EntryKey va actualEntry of
         Inl e \<Rightarrow> Inl (WrapError ''Error marshaling ledgerKey'' e)
     | Inr key \<Rightarrow> (case map_of (currentEntries v) key of
         None \<Rightarrow> Inl (StateError ''Cannot find entry in currentEntries map'')
     | Some expectedEntry \<Rightarrow> (case MarshalEntry va expectedEntry of
         Inl e \<Rightarrow> Inl (WrapError ''Error marshaling expectedEntry'' e)
     | Inr expectedEntryMarshaled \<Rightarrow>
         if actualEntryMarshaled \<noteq> expectedEntryMarshaled
         then Inl (StateError ''Entry does not match the fetched entry'')
         else Inr (v\<lparr>currentEntries := AList.delete key (currentEntries v)\<rparr>)))))"

definition Verify :: "nat \<Rightarrow> 'p StateVerifier \<Rightarrow> stats_error + unit" where
  "Verify countAll v = (case checkUnreadEntries v of
       Inl e \<Rightarrow> Inl e
     | Inr _ \<Rightarrow>
         if \<not> readingDone v then Inl (PlainError ''There are unread entries in state reader'')
         else if readEntries v \<noteq> countAll then Inl (StateError ''Number of entries read does not match'')
         else Inr ())"

subsection \<open>The tables\<close>

record 'p verify_db =
  state_t :: "'p state_db"
  offers_t :: "Offer list"
  pools_t :: "LiquidityPool list"
  stats_t :: stats_db

datatype verify_query =
    GetAccountsByIDs | SignersForAccounts | GetAccountDataByKeys | GetOffersByIDs | GetTrustLinesByKeys
  | GetClaimableBalancesByID | GetClaimantsByClaimableBalances | GetLiquidityPoolsByID | CountQuery | GetAssetStatsQuery
  | GetContractAssetBalancesQuery

text \<open>The error a query returns instead of its rows, for the calls made in one batch.\<close>

type_synonym query_faults = "verify_query \<Rightarrow> string option"

definition run_query :: "query_faults \<Rightarrow> verify_query \<Rightarrow> 'a \<Rightarrow> stats_error + 'a" where
  "run_query flt q rows = (case flt q of Some e \<Rightarrow> Inl (WrapError ''Error running query'' e) | None \<Rightarrow> Inr rows)"

definition rowsByKeys :: "('r \<Rightarrow> 'k) \<Rightarrow> 'k list \<Rightarrow> 'r list \<Rightarrow> 'r list" where
  "rowsByKeys key ks t = filter (\<lambda>r. key r \<in> set ks) t"

definition currentOffers :: "Offer list \<Rightarrow> Offer list" where
  "currentOffers t = filter (\<lambda>r. \<not> offerDeleted r) t"

definition currentPools :: "LiquidityPool list \<Rightarrow> LiquidityPool list" where
  "currentPools t = filter (\<lambda>r. \<not> poolDeleted r) t"

text \<open>The claimants of a balance, ordered by destination as the query orders them.\<close>

definition claimantsOf :: "string \<Rightarrow> ClaimableBalanceClaimant list \<Rightarrow> ClaimableBalanceClaimant list" where
  "claimantsOf i t = sort_key c_Destination (filter (\<lambda>r. c_BalanceID r = i) t)"

subsection \<open>Rows back to entries\<close>

definition addLedgerEntrySponsor :: "'p verify_api \<Rightarrow> string option \<Rightarrow> stats_error + string option" where
  "addLedgerEntrySponsor va sponsor = (case sponsor of
       None \<Rightarrow> Inr None
     | Some s \<Rightarrow> if IsAddress va s then Inr (Some s) else Inl Panic)"

definition make_entry :: "'p verify_api \<Rightarrow> 'p entry_data \<Rightarrow> u32 \<Rightarrow> string option \<Rightarrow> stats_error + 'p entry" where
  "make_entry va d l sponsor = (case addLedgerEntrySponsor va sponsor of
       Inl e \<Rightarrow> Inl e
     | Inr s \<Rightarrow> Inr \<lparr>Data = d, LastModifiedLedgerSeq = l, SponsoringID = s\<rparr>)"

text \<open>The maps the signer rows are collected in; a missing key has the zero value.\<close>

record signer_maps =
  masterWeightMap :: "string \<Rightarrow> 32 word"
  signersMap :: "string \<Rightarrow> xSigner list"
  sponsoringSignersMap :: "string \<Rightarrow> string \<Rightarrow> string"

definition no_signers :: signer_maps where
  "no_signers = \<lparr>masterWeightMap = (\<lambda>_. 0), signersMap = (\<lambda>_. []), sponsoringSignersMap = (\<lambda>_ _. [])\<rparr>"

fun group_signers :: "'p verify_api \<Rightarrow> AccountSigner list \<Rightarrow> signer_maps \<Rightarrow> stats_error + signer_maps" where
  "group_signers va [] m = Inr m"
| "group_signers va (row # rows) m =
     (if s_Account row = s_Signer row
      then group_signers va rows (m\<lparr>masterWeightMap := (masterWeightMap m)(s_Account row := s_Weight row)\<rparr>)
      else if \<not> IsSignerKey va (s_Signer row) then Inl Panic
      else group_signers va rows
        (m\<lparr>signersMap := (signersMap m)(s_Account row := signersMap m (s_Account row) @
               [\<lparr>sg_Key = s_Signer row, sg_Weight = s_Weight row, sg_Sponsor = None\<rparr>]),
           sponsoringSignersMap := (sponsoringSignersMap m)(s_Account row :=
             (sponsoringSignersMap m (s_Account row))(s_Signer row := (case s_Sponsor row of None \<Rightarrow> [] | Some s \<Rightarrow> s)))\<rparr>))"

definition account_entry :: "'p entry_api \<Rightarrow> 'p verify_api \<Rightarrow> signer_maps \<Rightarrow> AccountEntry \<Rightarrow> stats_error + 'p entry" where
  "account_entry api va m row =
     (if a_InflationDestination row \<noteq> [] \<and> \<not> IsAddress va (a_InflationDestination row) then Inl Panic
      else if ucast (a_MasterWeight row) \<noteq> masterWeightMap m (a_AccountID row)
      then Inl (StateError ''Master key weight in account does not match'')
      else let sponsors = sponsoringSignersMap m (a_AccountID row);
               signers = SortSignersByKey api (signersMap m (a_AccountID row)) in
        if \<exists>s\<in>set signers. sponsors (sg_Key s) \<noteq> [] \<and> \<not> IsAddress va (sponsors (sg_Key s)) then Inl Panic
        else if \<not> IsAddress va (a_AccountID row) then Inl Panic
        else make_entry va (AccountE
          \<lparr>xa_AccountId = a_AccountID row, xa_Balance = a_Balance row, xa_SeqNum = a_SequenceNumber row,
           xa_NumSubEntries = a_NumSubEntries row,
           xa_InflationDest = (if a_InflationDestination row = [] then None else Some (a_InflationDestination row)),
           xa_Flags = a_Flags row, xa_HomeDomain = a_HomeDomain row, xa_MasterKeyWeight = a_MasterWeight row,
           xa_ThresholdLow = a_ThresholdLow row, xa_ThresholdMedium = a_ThresholdMedium row, xa_ThresholdHigh = a_ThresholdHigh row,
           xa_Signers = map (\<lambda>s. s\<lparr>sg_Sponsor := (if sponsors (sg_Key s) = [] then None else Some (sponsors (sg_Key s)))\<rparr>) signers,
           xa_Buying = a_BuyingLiabilities row, xa_Selling = a_SellingLiabilities row,
           xa_NumSponsored = a_NumSponsored row, xa_NumSponsoring = a_NumSponsoring row,
           xa_V3 = (case (a_SequenceLedger row, a_SequenceTime row) of (Some l, Some t) \<Rightarrow> Some (ucast l, t) | _ \<Rightarrow> None)\<rparr>)
          (a_LastModifiedLedger row) (a_Sponsor row))"

definition data_entry :: "'p verify_api \<Rightarrow> AccountData \<Rightarrow> stats_error + 'p entry" where
  "data_entry va row = (if \<not> IsAddress va (d_AccountID row) then Inl Panic
     else make_entry va (DataE \<lparr>xd_AccountId = d_AccountID row, xd_DataName = d_Name row, xd_DataValue = d_Value row\<rparr>)
       (d_LastModifiedLedger row) (d_Sponsor row))"

definition offer_entry :: "'p verify_api \<Rightarrow> Offer \<Rightarrow> stats_error + 'p entry" where
  "offer_entry va row = (if \<not> IsAddress va (SellerID row) then Inl Panic
     else make_entry va (OfferE (offerToXDR row)) (offerModified row) (offerSponsor row))"

text \<open>
  \<open>hex.Decode\<close> into an array of 32 bytes: it fails at a character that is not hexadecimal, panics when it gets beyond
  the array, fails for an odd length, and leaves zeros behind what it has decoded.
\<close>

definition hex_Decode32 :: "string \<Rightarrow> stats_error + 8 word list" where
  "hex_Decode32 src =
     (if hex_decode (take (2 * min 33 (length src div 2)) src) = None then Inl (WrapError ''Error decoding liquidity pool id'' src)
      else if 32 < length src div 2 then Inl Panic
      else if odd (length src) then Inl (WrapError ''Error decoding liquidity pool id'' src)
      else (case hex_decode src of
          None \<Rightarrow> Inl (WrapError ''Error decoding liquidity pool id'' src)
        | Some bs \<Rightarrow> Inr (bs @ replicate (32 - length bs) 0)))"

definition trustLineToXDR :: "'p entry_api \<Rightarrow> 'p verify_api \<Rightarrow> TrustLine \<Rightarrow> stats_error + 'p entry" where
  "trustLineToXDR api va row =
     (case (if t_AssetType row = AssetTypeAssetTypePoolShare
            then (case hex_Decode32 (t_LiquidityPoolID row) of Inl e \<Rightarrow> Inl e | Inr pool \<Rightarrow> Inr (TLPoolShare pool))
            else if t_AssetType row = AssetTypeAssetTypeNative then Inr (TLAsset AssetTypeNative)
            else (case NewCreditAsset api (t_AssetCode row) (t_AssetIssuer row) of
                Inl e \<Rightarrow> Inl (WrapError ''Error decoding credit asset'' e)
              | Inr asset \<Rightarrow> Inr (TLAsset asset))) of
        Inl e \<Rightarrow> Inl e
      | Inr asset \<Rightarrow>
          if \<not> IsAddress va (t_AccountID row) then Inl Panic
          else make_entry va (TrustLineE
            \<lparr>xt_AccountId = t_AccountID row, xt_Asset = asset, xt_Balance = t_Balance row, xt_Limit = t_Limit row,
             xt_Flags = t_Flags row, xt_Buying = t_BuyingLiabilities row, xt_Selling = t_SellingLiabilities row\<rparr>)
            (t_LastModifiedLedger row) (t_Sponsor row))"

text \<open>
  A balance and its claimants: the table of claimants must have the same ones, in the order of their destinations. A difference
  in number is a state error, a difference in one of them is not.
\<close>

definition claimable_balance_entry :: "'p entry_api \<Rightarrow> 'p verify_api \<Rightarrow> ClaimableBalanceClaimant list \<Rightarrow> 'p ClaimableBalance \<Rightarrow>
    stats_error + 'p entry" where
  "claimable_balance_entry api va cbClaimants row =
     (if \<exists>c\<in>set (b_Claimants row). \<not> IsAddress va (xc_Destination c) then Inl Panic
      else let claimants = SortClaimantsByDestination api (b_Claimants row) in
        if length claimants \<noteq> length cbClaimants then Inl (StateError ''claimable_balance_claimants length does not match'')
        else if \<exists>(claimant, r)\<in>set (zip claimants cbClaimants).
            xc_Destination claimant \<noteq> c_Destination r \<or> b_LastModifiedLedger row \<noteq> c_LastModifiedLedger r
        then Inl (PlainError ''claimable_balance_claimants table does not match'')
        else (case SafeUnmarshalHex api (b_BalanceID row) of
            Inl e \<Rightarrow> Inl (PlainError e)
          | Inr balanceID \<Rightarrow>
              make_entry va (ClaimableBalanceE \<lparr>xb_BalanceId = balanceID, xb_Claimants = claimants, xb_Asset = b_Asset row,
                xb_Amount = b_Amount row, xb_Flags = b_Flags row\<rparr>) (b_LastModifiedLedger row) (b_Sponsor row)))"

text \<open>The entry of a pool has no extension, which is the same as one without a sponsor.\<close>

definition pool_entry :: "LiquidityPool \<Rightarrow> stats_error + 'p entry" where
  "pool_entry row = (case liquidityPoolToXDR row of
       Inl e \<Rightarrow> Inl (WrapError ''Invalid liquidity pool row'' e)
     | Inr pool \<Rightarrow> Inr \<lparr>Data = LiquidityPoolE pool, LastModifiedLedgerSeq = poolModified row, SponsoringID = None\<rparr>)"


subsection \<open>The rows of a batch\<close>

text \<open>
  The loop over the rows of a query: convert, write, and add to the asset statistics. An error of the statistics is a state
  error.
\<close>

fun write_rows :: "'p verify_api \<Rightarrow> ('r \<Rightarrow> stats_error + 'p entry) \<Rightarrow> ('p entry \<Rightarrow> AssetStatSet \<Rightarrow> stats_error + AssetStatSet) \<Rightarrow>
    'r list \<Rightarrow> 'p StateVerifier \<times> AssetStatSet \<Rightarrow> stats_error + 'p StateVerifier \<times> AssetStatSet" where
  "write_rows va toEntry add [] vs = Inr vs"
| "write_rows va toEntry add (row # rows) (v, s) = (case toEntry row of
       Inl e \<Rightarrow> Inl e
     | Inr entry \<Rightarrow> (case Write va entry v of
         Inl e \<Rightarrow> Inl e
     | Inr v' \<Rightarrow> (case add entry s of
         Inl e \<Rightarrow> Inl (StateError ''could not add to asset stats'')
     | Inr s' \<Rightarrow> write_rows va toEntry add rows (v', s'))))"

definition no_stats :: "'p entry \<Rightarrow> AssetStatSet \<Rightarrow> stats_error + AssetStatSet" where
  "no_stats entry s = Inr s"

definition addAccountsToStateVerifier :: "'p entry_api \<Rightarrow> 'p verify_api \<Rightarrow> query_faults \<Rightarrow> 'p verify_db \<Rightarrow> string list \<Rightarrow>
    'p StateVerifier \<times> AssetStatSet \<Rightarrow> stats_error + 'p StateVerifier \<times> AssetStatSet" where
  "addAccountsToStateVerifier api va flt db ids vs =
     (if ids = [] then Inr vs
      else case run_query flt GetAccountsByIDs (rowsByKeys a_AccountID ids (accounts_t (state_t db))) of
          Inl e \<Rightarrow> Inl e
        | Inr rows \<Rightarrow> (case run_query flt SignersForAccounts (rowsByKeys s_Account ids (accounts_signers_t (state_t db))) of
            Inl e \<Rightarrow> Inl e
        | Inr signerRows \<Rightarrow> (case group_signers va signerRows no_signers of
            Inl e \<Rightarrow> Inl e
        | Inr m \<Rightarrow> write_rows va (account_entry api va m) no_stats rows vs)))"

fun map_error :: "('a \<Rightarrow> stats_error + 'b) \<Rightarrow> 'a list \<Rightarrow> stats_error + 'b list" where
  "map_error f [] = Inr []"
| "map_error f (x # xs) = (case f x of Inl e \<Rightarrow> Inl e | Inr y \<Rightarrow> (case map_error f xs of Inl e \<Rightarrow> Inl e | Inr ys \<Rightarrow> Inr (y # ys)))"

definition addDataToStateVerifier :: "'p entry_api \<Rightarrow> 'p verify_api \<Rightarrow> query_faults \<Rightarrow> 'p verify_db \<Rightarrow> (string \<times> string) list \<Rightarrow>
    'p StateVerifier \<times> AssetStatSet \<Rightarrow> stats_error + 'p StateVerifier \<times> AssetStatSet" where
  "addDataToStateVerifier api va flt db lkeys vs =
     (if lkeys = [] then Inr vs
      else case map_error (\<lambda>(a, n). accountDataKeyToString api a n) lkeys of
          Inl e \<Rightarrow> Inl e
        | Inr keys \<Rightarrow> (case run_query flt GetAccountDataByKeys (rowsByKeys d_LedgerKey keys (accounts_data_t (state_t db))) of
            Inl e \<Rightarrow> Inl e
        | Inr rows \<Rightarrow> write_rows va (data_entry va) no_stats rows vs))"

definition addOffersToStateVerifier :: "'p verify_api \<Rightarrow> query_faults \<Rightarrow> 'p verify_db \<Rightarrow> int list \<Rightarrow>
    'p StateVerifier \<times> AssetStatSet \<Rightarrow> stats_error + 'p StateVerifier \<times> AssetStatSet" where
  "addOffersToStateVerifier va flt db ids vs =
     (if ids = [] then Inr vs
      else case run_query flt GetOffersByIDs (rowsByKeys OfferID ids (currentOffers (offers_t db))) of
          Inl e \<Rightarrow> Inl e
        | Inr rows \<Rightarrow> write_rows va (offer_entry va) no_stats rows vs)"

text \<open>What the statistics read of an entry.\<close>

definition stats_view :: "'p entry \<Rightarrow> LedgerEntry" where
  "stats_view entry = (case Data entry of
       TrustLineE line \<Rightarrow> TrustLineData \<lparr>tlAsset = (case xt_Asset line of TLAsset a \<Rightarrow> PlainAsset a | TLPoolShare p \<Rightarrow> AssetTypePoolShare (PoolIDToString p)),
         tlFlags = xt_Flags line, tlBalance = xt_Balance line\<rparr>
     | ClaimableBalanceE cb \<Rightarrow> ClaimableBalanceData \<lparr>cbAsset = xb_Asset cb, cbAmount = xb_Amount cb\<rparr>
     | LiquidityPoolE p \<Rightarrow> LiquidityPoolData (ConstantProduct (PoolAssetA p) (PoolAssetB p) (PoolReserveA p) (PoolReserveB p))
     | ContractDataE c \<Rightarrow> ContractData c
     | TtlE t \<Rightarrow> TtlData t
     | _ \<Rightarrow> OtherData 0)"

definition post_change :: "LedgerEntryType \<Rightarrow> 'p entry \<Rightarrow> change" where
  "post_change typ entry = \<lparr>Type = typ, Pre = None, Post = Some (stats_view entry)\<rparr>"

definition addTrustLinesToStateVerifier :: "'p entry_api \<Rightarrow> 'p verify_api \<Rightarrow> asset_api \<Rightarrow> query_faults \<Rightarrow> 'p verify_db \<Rightarrow>
    (string \<times> xTrustLineAsset) list \<Rightarrow> 'p StateVerifier \<times> AssetStatSet \<Rightarrow> stats_error + 'p StateVerifier \<times> AssetStatSet" where
  "addTrustLinesToStateVerifier api va aa flt db keys vs =
     (if keys = [] then Inr vs
      else case map_error (\<lambda>(a, x). case TrustLineLedgerKey api a x of
            Inl e \<Rightarrow> Inl (WrapError ''Error running ledgerKey.SetTrustline'' e) | Inr k \<Rightarrow> Inr k) keys of
          Inl e \<Rightarrow> Inl e
        | Inr ledgerKeyStrings \<Rightarrow> (case run_query flt GetTrustLinesByKeys (rowsByKeys t_LedgerKey ledgerKeyStrings (trust_lines_t (state_t db))) of
            Inl e \<Rightarrow> Inl e
        | Inr rows \<Rightarrow> write_rows va (trustLineToXDR api va) (\<lambda>e. AddTrustline aa (post_change LedgerEntryTypeTrustline e)) rows vs))"

definition addClaimableBalanceToStateVerifier :: "'p entry_api \<Rightarrow> 'p verify_api \<Rightarrow> asset_api \<Rightarrow> query_faults \<Rightarrow> 'p verify_db \<Rightarrow>
    8 word list list \<Rightarrow> 'p StateVerifier \<times> AssetStatSet \<Rightarrow> stats_error + 'p StateVerifier \<times> AssetStatSet" where
  "addClaimableBalanceToStateVerifier api va aa flt db ids vs =
     (if ids = [] then Inr vs
      else case map_error (\<lambda>i. case MarshalHex api i of Inl e \<Rightarrow> Inl (PlainError e) | Inr h \<Rightarrow> Inr h) ids of
          Inl e \<Rightarrow> Inl e
        | Inr idStrings \<Rightarrow> (case run_query flt GetClaimableBalancesByID (rowsByKeys b_BalanceID idStrings (claimable_balances_t (state_t db))) of
            Inl e \<Rightarrow> Inl e
        | Inr cBalances \<Rightarrow> (case run_query flt GetClaimantsByClaimableBalances (rowsByKeys c_BalanceID idStrings (claimants_t (state_t db))) of
            Inl e \<Rightarrow> Inl e
        | Inr cBalancesClaimants \<Rightarrow>
            write_rows va (\<lambda>row. claimable_balance_entry api va (claimantsOf (b_BalanceID row) cBalancesClaimants) row)
              (\<lambda>e. AddClaimableBalance aa (post_change LedgerEntryTypeClaimableBalance e)) cBalances vs)))"

definition addLiquidityPoolsToStateVerifier :: "'p verify_api \<Rightarrow> asset_api \<Rightarrow> query_faults \<Rightarrow> 'p verify_db \<Rightarrow>
    8 word list list \<Rightarrow> 'p StateVerifier \<times> AssetStatSet \<Rightarrow> stats_error + 'p StateVerifier \<times> AssetStatSet" where
  "addLiquidityPoolsToStateVerifier va aa flt db ids vs =
     (if ids = [] then Inr vs
      else case run_query flt GetLiquidityPoolsByID (rowsByKeys PoolID (map PoolIDToString ids) (currentPools (pools_t db))) of
          Inl e \<Rightarrow> Inl e
        | Inr rows \<Rightarrow> write_rows va pool_entry (\<lambda>e. AddLiquidityPool aa (post_change LedgerEntryTypeLiquidityPool e)) rows vs)"

subsection \<open>The batches of a checkpoint\<close>

text \<open>What the loop over the entries of a batch collects.\<close>

record 'p batch_keys =
  bk_accounts :: "string list"
  bk_data :: "(string \<times> string) list"
  bk_offers :: "int list"
  bk_lines :: "(string \<times> xTrustLineAsset) list"
  bk_balances :: "8 word list list"
  bk_pools :: "8 word list list"

definition no_keys :: "'p batch_keys" where
  "no_keys = \<lparr>bk_accounts = [], bk_data = [], bk_offers = [], bk_lines = [], bk_balances = [], bk_pools = []\<rparr>"

text \<open>What is kept over all batches: the verifier, the statistics, the contract data, the expirations and the two counts.\<close>

record 'p verify_state =
  verifier :: "'p StateVerifier"
  assetStats :: AssetStatSet
  contractDataEntries :: "'p entry list"
  expirationEntries :: "string \<Rightarrow> u32 option"
  total_contract_data :: nat
  total_ttl :: nat

fun sort_entries :: "'p verify_api \<Rightarrow> 'p entry list \<Rightarrow> 'p batch_keys \<Rightarrow> 'p verify_state \<Rightarrow> stats_error + 'p batch_keys \<times> 'p verify_state" where
  "sort_entries va [] ks st = Inr (ks, st)"
| "sort_entries va (entry # entries) ks st = (case Data entry of
       AccountE a \<Rightarrow> sort_entries va entries (ks\<lparr>bk_accounts := bk_accounts ks @ [xa_AccountId a]\<rparr>) st
     | DataE d \<Rightarrow> sort_entries va entries (ks\<lparr>bk_data := bk_data ks @ [(xd_AccountId d, xd_DataName d)]\<rparr>) st
     | OfferE off \<Rightarrow> sort_entries va entries (ks\<lparr>bk_offers := bk_offers ks @ [OfferId off]\<rparr>) st
     | TrustLineE l \<Rightarrow> sort_entries va entries (ks\<lparr>bk_lines := bk_lines ks @ [(xt_AccountId l, xt_Asset l)]\<rparr>) st
     | ClaimableBalanceE b \<Rightarrow> sort_entries va entries (ks\<lparr>bk_balances := bk_balances ks @ [xb_BalanceId b]\<rparr>) st
     | LiquidityPoolE p \<Rightarrow> sort_entries va entries (ks\<lparr>bk_pools := bk_pools ks @ [LiquidityPoolId p]\<rparr>) st
     | ContractDataE c \<Rightarrow> (case Write va entry (verifier st) of
           Inl e \<Rightarrow> Inl e
         | Inr v \<Rightarrow> sort_entries va entries ks (st\<lparr>verifier := v, contractDataEntries := contractDataEntries st @ [entry],
             total_contract_data := total_contract_data st + 1\<rparr>))
     | TtlE t \<Rightarrow> (case Write va entry (verifier st) of
           Inl e \<Rightarrow> Inl e
         | Inr v \<Rightarrow> sort_entries va entries ks (st\<lparr>verifier := v, total_ttl := total_ttl st + 1,
             expirationEntries := (expirationEntries st)(ttlKeyHash t \<mapsto> LiveUntilLedgerSeq t)\<rparr>))
     | OtherE n \<Rightarrow> Inl (PlainError ''GetLedgerEntries return unexpected type''))"

definition add_batch :: "'p entry_api \<Rightarrow> 'p verify_api \<Rightarrow> asset_api \<Rightarrow> query_faults \<Rightarrow> 'p verify_db \<Rightarrow> 'p batch_keys \<Rightarrow>
    'p StateVerifier \<times> AssetStatSet \<Rightarrow> stats_error + 'p StateVerifier \<times> AssetStatSet" where
  "add_batch api va aa flt db ks vs0 =
     (case addAccountsToStateVerifier api va flt db (bk_accounts ks) vs0 of
        Inl e \<Rightarrow> Inl e
      | Inr vs1 \<Rightarrow> (case addDataToStateVerifier api va flt db (bk_data ks) vs1 of
          Inl e \<Rightarrow> Inl e
      | Inr vs2 \<Rightarrow> (case addOffersToStateVerifier va flt db (bk_offers ks) vs2 of
          Inl e \<Rightarrow> Inl e
      | Inr vs3 \<Rightarrow> (case addTrustLinesToStateVerifier api va aa flt db (bk_lines ks) vs3 of
          Inl e \<Rightarrow> Inl e
      | Inr vs4 \<Rightarrow> (case addClaimableBalanceToStateVerifier api va aa flt db (bk_balances ks) vs4 of
          Inl e \<Rightarrow> Inl e
      | Inr vs5 \<Rightarrow> addLiquidityPoolsToStateVerifier va aa flt db (bk_pools ks) vs5)))))"

definition verify_batch :: "'p entry_api \<Rightarrow> 'p verify_api \<Rightarrow> asset_api \<Rightarrow> query_faults \<Rightarrow> 'p verify_db \<Rightarrow> 'p entry list \<Rightarrow>
    'p verify_state \<Rightarrow> stats_error + 'p verify_state" where
  "verify_batch api va aa flt db entries st = (case sort_entries va entries no_keys st of
       Inl e \<Rightarrow> Inl e
     | Inr (ks, st1) \<Rightarrow> (case add_batch api va aa flt db ks (verifier st1, assetStats st1) of
         Inl e \<Rightarrow> Inl e
     | Inr (v, s) \<Rightarrow> Inr (st1\<lparr>verifier := v, assetStats := s\<rparr>)))"

definition verifyBatchSize :: nat where
  "verifyBatchSize = 50000"

text \<open>The loop over the batches; \<open>flt n\<close> are the faults of the \<open>n\<close>-th one. It ends since every batch but the last reads an entry.\<close>

lemma read_entries_reader:
  "read_entries va n es v = Inr (es', v') \<Longrightarrow> length (stateReader v') + length es' = length (stateReader v) + length es"
  by (induction va n es v rule: read_entries.induct) (auto split: list.splits sum.splits)

function verify_batches :: "'p entry_api \<Rightarrow> 'p verify_api \<Rightarrow> asset_api \<Rightarrow> (nat \<Rightarrow> query_faults) \<Rightarrow> nat \<Rightarrow> 'p verify_db \<Rightarrow> nat \<Rightarrow>
    'p verify_state \<Rightarrow> stats_error + 'p verify_state" where
  "verify_batches api va aa flt sz db n st = (case GetLedgerEntries va sz (verifier st) of
       Inl e \<Rightarrow> Inl e
     | Inr (entries, v) \<Rightarrow>
         if entries = [] then Inr (st\<lparr>verifier := v\<rparr>)
         else (case verify_batch api va aa (flt n) db entries (st\<lparr>verifier := v\<rparr>) of
             Inl e \<Rightarrow> Inl e
           | Inr st' \<Rightarrow> verify_batches api va aa flt sz db (n + 1) st'))"
  by pat_completeness auto

lemma Write_reader: "Write va e v = Inr v' \<Longrightarrow> stateReader v' = stateReader v \<and> readEntries v' = readEntries v \<and> readingDone v' = readingDone v"
  by (auto simp: Write_def Let_def split: sum.splits option.splits if_splits)

lemma write_rows_reader: "write_rows va f add rows vs = Inr vs' \<Longrightarrow> stateReader (fst vs') = stateReader (fst vs) \<and>
    readEntries (fst vs') = readEntries (fst vs) \<and> readingDone (fst vs') = readingDone (fst vs)"
  by (induction va f add rows vs rule: write_rows.induct) (auto split: sum.splits dest: Write_reader)


text \<open>What the steps of a batch do not touch.\<close>

definition same_reader :: "'p StateVerifier \<Rightarrow> 'p StateVerifier \<Rightarrow> bool" where
  "same_reader v v' \<longleftrightarrow> stateReader v' = stateReader v \<and> readEntries v' = readEntries v \<and> readingDone v' = readingDone v"

lemma same_reader_trans: "same_reader a b \<Longrightarrow> same_reader b c \<Longrightarrow> same_reader a c"
  by (simp add: same_reader_def)

lemma add_reader:
  "addAccountsToStateVerifier api va flt db k1 vs = Inr vs' \<Longrightarrow> same_reader (fst vs) (fst vs')"
  "addDataToStateVerifier api va flt db k2 vs = Inr vs' \<Longrightarrow> same_reader (fst vs) (fst vs')"
  "addOffersToStateVerifier va flt db k3 vs = Inr vs' \<Longrightarrow> same_reader (fst vs) (fst vs')"
  "addTrustLinesToStateVerifier api va aa flt db k4 vs = Inr vs' \<Longrightarrow> same_reader (fst vs) (fst vs')"
  "addClaimableBalanceToStateVerifier api va aa flt db k5 vs = Inr vs' \<Longrightarrow> same_reader (fst vs) (fst vs')"
  "addLiquidityPoolsToStateVerifier va aa flt db k6 vs = Inr vs' \<Longrightarrow> same_reader (fst vs) (fst vs')"
  by (simp_all add: addAccountsToStateVerifier_def addDataToStateVerifier_def addOffersToStateVerifier_def
      addTrustLinesToStateVerifier_def addClaimableBalanceToStateVerifier_def addLiquidityPoolsToStateVerifier_def same_reader_def
      split: sum.splits if_splits) (simp_all add: write_rows_reader)

lemma add_batch_reader: "add_batch api va aa flt db ks vs = Inr vs' \<Longrightarrow> same_reader (fst vs) (fst vs')"
  unfolding add_batch_def by (auto split: sum.splits dest!: add_reader simp: same_reader_def)

lemma sort_entries_reader: "sort_entries va es ks st = Inr (ks', st') \<Longrightarrow> same_reader (verifier st) (verifier st')"
  by (induction va es ks st rule: sort_entries.induct)
    (auto simp: same_reader_def split: entry_data.splits sum.splits dest!: Write_reader)

lemma verify_batch_reader: "verify_batch api va aa flt db es st = Inr st' \<Longrightarrow> same_reader (verifier st) (verifier st')"
  unfolding verify_batch_def
  by (auto split: sum.splits prod.splits dest!: sort_entries_reader add_batch_reader simp: same_reader_def)

lemma GetLedgerEntries_reader:
  "GetLedgerEntries va n v = Inr (es, v') \<Longrightarrow> length (stateReader v') + length es = length (stateReader v)"
  by (auto simp: GetLedgerEntries_def split: sum.splits dest!: read_entries_reader)

termination verify_batches
proof (relation "measure (\<lambda>(api, va, aa, flt, sz, db, n, st). length (stateReader (verifier st)))")
  fix api :: "'p entry_api" and va :: "'p verify_api" and aa flt sz and db :: "'p verify_db" and n :: nat and st :: "'p verify_state"
    and x es v st'
  assume a: "GetLedgerEntries va sz (verifier st) = Inr x" "(es, v) = x" "es \<noteq> []"
    "verify_batch api va aa (flt n) db es (st\<lparr>verifier := v\<rparr>) = Inr st'"
  then have "length (stateReader v) < length (stateReader (verifier st))" using GetLedgerEntries_reader [of va sz "verifier st" es v] by (cases es) auto
  with verify_batch_reader [OF a(4)]
  show "((api, va, aa, flt, sz, db, n + 1, st'), api, va, aa, flt, sz, db, n, st) \<in>
      measure (\<lambda>(api, va, aa, flt, sz, db, n, st). length (stateReader (verifier st)))"
    by (simp add: same_reader_def)
qed simp


subsection \<open>The asset statistics\<close>

record AssetAndContractStat =
  acsStat :: ExpAssetStat
  acsContracts :: ContractStat
  acsContractID :: "string option"

definition AssetAndContractStat_Equals :: "AssetAndContractStat \<Rightarrow> AssetAndContractStat \<Rightarrow> bool" where
  "AssetAndContractStat_Equals e x \<longleftrightarrow> acsContractID e = acsContractID x \<and> statKey (acsStat e) = statKey (acsStat x) \<and>
     list_all (\<lambda>c. Accounts (acsStat e) c = Accounts (acsStat x) c \<and> Balances (acsStat e) c = Balances (acsStat x) c) categories \<and>
     acsContracts e = acsContracts x"

definition zero_ContractStat :: ContractStat where
  "zero_ContractStat = \<lparr>ActiveBalance = ''0'', ActiveHolders = 0\<rparr>"

definition zero_ExpAssetStat :: "assetStatKey \<Rightarrow> ExpAssetStat" where
  "zero_ExpAssetStat k = \<lparr>statKey = k, Accounts = (\<lambda>_. 0), Balances = (\<lambda>_. ''0'')\<rparr>"

text \<open>The key of the map of expected statistics.\<close>

definition stat_name :: "assetStatKey \<Rightarrow> string" where
  "stat_name k = assetCode k @ '':'' @ assetIssuer k"

text \<open>
  The rows of \<open>GetAssetStats\<close>: the statistics joined with the contracts of their assets and the statistics of these. \<open>keys\<close> are
  the keys of the first table; what is null reads as zero.
\<close>

definition joined_row :: "stats_db \<Rightarrow> ExpAssetStat \<Rightarrow> AssetContract option \<Rightarrow> AssetAndContractStat" where
  "joined_row db stat c = \<lparr>acsStat = stat,
     acsContracts = (case c of None \<Rightarrow> zero_ContractStat
       | Some x \<Rightarrow> (case contract_asset_stats db (acContractID x) of None \<Rightarrow> zero_ContractStat | Some y \<Rightarrow> y)),
     acsContractID = map_option acContractID c\<rparr>"

definition asset_rows :: "assetStatKey list \<Rightarrow> stats_db \<Rightarrow> AssetAndContractStat list" where
  "asset_rows keys db =
     concat (map (\<lambda>key. case exp_asset_stats db key of
         None \<Rightarrow> []
       | Some stat \<Rightarrow> (case filter (\<lambda>c. acAsset c = key) (asset_contracts db) of
             [] \<Rightarrow> [joined_row db stat None]
           | cs \<Rightarrow> map (\<lambda>c. joined_row db stat (Some c)) cs)) keys) @
     map (\<lambda>c. joined_row db (zero_ExpAssetStat (acAsset c)) (Some c)) (filter (\<lambda>c. exp_asset_stats db (acAsset c) = None) (asset_contracts db))"

text \<open>The order of the rows, which is also what a cursor says. A cursor is parsed: its issuer and its code must be valid.\<close>

definition stat_order :: "AssetAndContractStat \<Rightarrow> string \<times> string" where
  "stat_order r = (assetCode (statKey (acsStat r)), assetIssuer (statKey (acsStat r)))"

definition parseAssetStatsCursor :: "'p verify_api \<Rightarrow> string \<times> string \<Rightarrow> stats_error + string \<times> string" where
  "parseAssetStatsCursor va cursor = (case cursor of (code, issuer) \<Rightarrow>
     if CHR ''_'' \<in> set code \<or> \<not> IsAddress va issuer \<or> code = [] \<or> 12 < length code then Inl (PlainError ''invalid asset stats cursor'')
     else Inr (code, issuer))"

definition assetStatsBatchSize :: nat where
  "assetStatsBatchSize = 500"

definition after_cursor :: "(string \<times> string) option \<Rightarrow> AssetAndContractStat list \<Rightarrow> AssetAndContractStat list" where
  "after_cursor cursor rows = (case cursor of None \<Rightarrow> rows | Some c \<Rightarrow> filter (\<lambda>r. c < stat_order r) rows)"

definition GetAssetStats :: "'p verify_api \<Rightarrow> query_faults \<Rightarrow> AssetAndContractStat list \<Rightarrow> (string \<times> string) option \<Rightarrow> nat \<Rightarrow>
    stats_error + AssetAndContractStat list" where
  "GetAssetStats va flt rows cursor limit =
     (case (case cursor of None \<Rightarrow> Inr None | Some c \<Rightarrow> (case parseAssetStatsCursor va c of Inl e \<Rightarrow> Inl e | Inr d \<Rightarrow> Inr (Some d))) of
        Inl e \<Rightarrow> Inl e
      | Inr cursor' \<Rightarrow> run_query flt GetAssetStatsQuery (take limit (sort_key stat_order (after_cursor cursor' rows))))"

text \<open>A page of rows against the map of expected statistics.\<close>

fun check_page :: "AssetAndContractStat list \<Rightarrow> (string \<times> AssetAndContractStat) list \<Rightarrow> stats_error + (string \<times> AssetAndContractStat) list" where
  "check_page [] all = Inr all"
| "check_page (assetStat # stats) all = (let key = stat_name (statKey (acsStat assetStat)) in
     case map_of all key of
       None \<Rightarrow> Inl (StateError ''db contains asset stat which is missing from HAS'')
     | Some fromSet \<Rightarrow>
         if \<not> AssetAndContractStat_Equals fromSet assetStat then Inl (StateError ''db asset stat does not match asset stat from HAS'')
         else check_page stats (AList.delete key all))"

function check_pages :: "'p verify_api \<Rightarrow> (nat \<Rightarrow> query_faults) \<Rightarrow> AssetAndContractStat list \<Rightarrow> nat \<Rightarrow> (string \<times> string) option \<Rightarrow>
    (string \<times> AssetAndContractStat) list \<Rightarrow> stats_error + (string \<times> AssetAndContractStat) list" where
  "check_pages va flt rows n cursor all = (case GetAssetStats va (flt n) rows cursor assetStatsBatchSize of
       Inl e \<Rightarrow> Inl e
     | Inr stats \<Rightarrow>
         if stats = [] then Inr all
         else (case check_page stats all of
             Inl e \<Rightarrow> Inl e
           | Inr all' \<Rightarrow> check_pages va flt rows (n + 1) (Some (stat_order (last stats))) all'))"
  by pat_completeness auto

lemma GetAssetStats_page:
  assumes "GetAssetStats va flt rows cursor limit = Inr stats"
  shows "stats = take limit (sort_key stat_order (after_cursor cursor rows))"
  using assms by (auto simp: GetAssetStats_def run_query_def parseAssetStatsCursor_def split: option.splits sum.splits if_splits prod.splits)

lemma next_page_smaller:
  assumes "r \<in> set (after_cursor cursor rows)"
  shows "length (after_cursor (Some (stat_order r)) rows) < length (after_cursor cursor rows)"
proof (cases cursor)
  case None
  then show ?thesis using assms length_filter_less [of r rows "\<lambda>x. stat_order r < stat_order x"] by (simp add: after_cursor_def)
next
  case (Some c)
  then have r: "r \<in> set (filter (\<lambda>x. c < stat_order x) rows)" using assms by (simp add: after_cursor_def)
  have "filter (\<lambda>x. stat_order r < stat_order x) rows = filter (\<lambda>x. stat_order r < stat_order x) (filter (\<lambda>x. c < stat_order x) rows)"
    unfolding filter_filter by (rule filter_cong) (use r in auto)
  with Some length_filter_less [OF r, of "\<lambda>x. stat_order r < stat_order x"] show ?thesis by (simp add: after_cursor_def)
qed

termination check_pages
proof (relation "measure (\<lambda>(va, flt, rows, n, cursor, all). length (after_cursor cursor rows))")
  fix va :: "'p verify_api" and flt rows and n :: nat and cursor all stats all'
  assume a: "GetAssetStats va (flt n) rows cursor assetStatsBatchSize = Inr stats" "stats \<noteq> []"
  then have "last stats \<in> set (after_cursor cursor rows)"
    using GetAssetStats_page [OF a(1)] last_in_set [OF a(2)] by (metis in_set_takeD set_sort)
  then show "((va, flt, rows, n + 1, Some (stat_order (last stats)), all'), va, flt, rows, n, cursor, all) \<in>
      measure (\<lambda>(va, flt, rows, n, cursor, all). length (after_cursor cursor rows))"
    using next_page_smaller by simp
qed simp

text \<open>The expected statistics of all assets, and the balances of the contracts that have statistics.\<close>

definition add_asset_contract :: "(string \<times> ContractStat) list \<Rightarrow> AssetContract \<Rightarrow> (string \<times> AssetAndContractStat) list \<Rightarrow>
    (string \<times> AssetAndContractStat) list" where
  "add_asset_contract contractToStats c all = (let key = stat_name (acAsset c);
       entry = (case map_of all key of
           Some x \<Rightarrow> x
         | None \<Rightarrow> \<lparr>acsStat = zero_ExpAssetStat \<lparr>assetType = (if 4 < length (assetCode (acAsset c)) then 2 else 1),
               assetCode = assetCode (acAsset c), assetIssuer = assetIssuer (acAsset c)\<rparr>,
             acsContracts = zero_ContractStat, acsContractID = None\<rparr>) in
     AList.update key (entry\<lparr>acsContractID := Some (acContractID c),
       acsContracts := (case map_of contractToStats (acContractID c) of None \<Rightarrow> zero_ContractStat | Some y \<Rightarrow> y)\<rparr>) all)"

definition extractAssetStatsAndBalances :: "asset_api \<Rightarrow> sac_api \<Rightarrow> assetStatKey list \<Rightarrow> string list \<Rightarrow> AssetStatSet \<Rightarrow> ContractAssetStatSet \<Rightarrow>
    stats_error + (string \<times> AssetAndContractStat) list \<times> ContractAssetBalance list" where
  "extractAssetStatsAndBalances aa sac order corder s cs =
     (let classic = fold (\<lambda>stat. AList.update (stat_name (statKey stat)) \<lparr>acsStat = stat, acsContracts = zero_ContractStat, acsContractID = None\<rparr>)
            (AssetStatSet_All order s) [];
          contractToStats = GetContractStats corder cs in
      case GetCreatedAssetContracts aa sac cs of
        Inl e \<Rightarrow> Inl e
      | Inr contracts \<Rightarrow> Inr (fold (add_asset_contract contractToStats) contracts classic,
          filter (\<lambda>b. ContractID b \<in> fst ` set contractToStats) (createdBalances cs)))"

text \<open>
  The balances, in batches: only the rows that are found are compared.
\<close>

definition check_balance_rows :: "ContractAssetBalance list \<Rightarrow> ContractAssetBalance list \<Rightarrow> stats_error + unit" where
  "check_balance_rows part rows =
     (let byKey = map_of (rev (map (\<lambda>b. (KeyHash b, b)) part));
          expected = (\<lambda>k. case byKey k of None \<Rightarrow> \<lparr>KeyHash = [], ContractID = [], Amount = [], ExpirationLedger = 0\<rparr> | Some b \<Rightarrow> b) in
      if \<exists>row\<in>set rows. ContractID row \<noteq> ContractID (expected (KeyHash row)) \<or>
           ExpirationLedger row \<noteq> ExpirationLedger (expected (KeyHash row)) \<or> Amount row \<noteq> Amount (expected (KeyHash row))
      then Inl (StateError ''contract balance does not match'') else Inr ())"

function checkContractBalances :: "(nat \<Rightarrow> query_faults) \<Rightarrow> ContractAssetBalance list \<Rightarrow> nat \<Rightarrow> ContractAssetBalance list \<Rightarrow> stats_error + unit" where
  "checkContractBalances flt t n bs =
     (if bs = [] then Inr ()
      else let part = take assetStatsBatchSize bs in
        case run_query (flt n) GetContractAssetBalancesQuery (rowsByKeys KeyHash (map KeyHash part) t) of
          Inl e \<Rightarrow> Inl e
        | Inr rows \<Rightarrow> (case check_balance_rows part rows of
            Inl e \<Rightarrow> Inl e
          | Inr _ \<Rightarrow> checkContractBalances flt t (n + 1) (drop assetStatsBatchSize bs)))"
  by pat_completeness auto

termination checkContractBalances
  by (relation "measure (\<lambda>(flt, t, n, bs). length bs)") (auto simp: assetStatsBatchSize_def)

definition checkAssetStats :: "'p verify_api \<Rightarrow> asset_api \<Rightarrow> sac_api \<Rightarrow> assetStatKey list \<Rightarrow> string list \<Rightarrow> assetStatKey list \<Rightarrow>
    (nat \<Rightarrow> query_faults) \<Rightarrow> stats_db \<Rightarrow> AssetStatSet \<Rightarrow> ContractAssetStatSet \<Rightarrow> stats_error + unit" where
  "checkAssetStats va aa sac order corder keys flt db s cs = (case extractAssetStatsAndBalances aa sac order corder s cs of
       Inl e \<Rightarrow> Inl e
     | Inr (all, bs) \<Rightarrow> (case check_pages va flt (asset_rows keys db) 0 None all of
         Inl e \<Rightarrow> Inl e
     | Inr rest \<Rightarrow>
         if rest \<noteq> [] then Inl (StateError ''HAS contains more asset stats than db'')
         else checkContractBalances flt (contract_asset_balances db) 0 bs))"


subsection \<open>A verification\<close>

definition StateVerifierExpectedIngestionVersion :: int where
  "StateVerifierExpectedIngestionVersion = 20"

datatype verify_outcome = Canceled string | StateCorrect

text \<open>
  What a run meets outside the tables: whether another one is running, the calls that may fail, the polls of the archive
  (\<open>LatestLedger n\<close> is the answer of the \<open>n\<close>-th one, \<open>ctxDone n\<close> that the context ends in the wait after it), the reader, and the order in which
  the maps are visited.
\<close>

record 'p verify_env =
  alreadyRunning :: bool
  BeginTxFault :: "string option"
  LastLedgerIngest :: "string + u32"
  runOnLedger :: "u32 \<Rightarrow> bool"
  StateVerificationLock :: "string + bool"
  LatestLedger :: "nat \<Rightarrow> string + u32"
  ctxDone :: "nat \<Rightarrow> bool"
  GetState :: "string + (string + 'p entry) list"
  BucketListFault :: "string option"
  queryFaults :: "nat \<Rightarrow> query_faults"
  statKeys :: "assetStatKey list"
  visitAssets :: "assetStatKey list"
  visitContracts :: "string list"

text \<open>The wait for the checkpoint: twelve polls at most. \<open>None\<close> is to go on.\<close>

function wait_published :: "'p verify_env \<Rightarrow> u32 \<Rightarrow> nat \<Rightarrow> stats_error + verify_outcome option" where
  "wait_published env ledgerSequence retries = (case LatestLedger env retries of
       Inl e \<Rightarrow> Inl (WrapError ''Error getting the latest ledger sequence'' e)
     | Inr historyLatestSequence \<Rightarrow>
         if ledgerSequence < historyLatestSequence then Inr (Some (Canceled ''Current ledger is old''))
         else if ledgerSequence = historyLatestSequence then Inr None
         else if ctxDone env retries then Inr (Some (Canceled ''State verifier shut down''))
         else if 12 \<le> retries + 1 then Inr (Some (Canceled ''Checkpoint not published''))
         else wait_published env ledgerSequence (retries + 1))"
  by pat_completeness auto

termination wait_published
  by (relation "measure (\<lambda>(env, l, n). 12 - n)") auto

definition count_rows :: "'p verify_db \<Rightarrow> nat" where
  "count_rows db = length (accounts_t (state_t db)) + length (accounts_data_t (state_t db)) + length (currentOffers (offers_t db)) +
     length (trust_lines_t (state_t db)) + length (claimable_balances_t (state_t db)) + length (currentPools (pools_t db))"

text \<open>The checks once there is a reader: the batches, the counts, and the statistics.\<close>

definition new_verify_state :: "(string + 'p entry) list \<Rightarrow> 'p verify_state" where
  "new_verify_state reader = \<lparr>verifier = NewStateVerifier reader, assetStats = NewAssetStatSet, contractDataEntries = [],
     expirationEntries = Map.empty, total_contract_data = 0, total_ttl = 0\<rparr>"

definition check_state :: "'p entry_api \<Rightarrow> 'p verify_api \<Rightarrow> asset_api \<Rightarrow> sac_api \<Rightarrow> 'p verify_env \<Rightarrow> u32 \<Rightarrow> (string + 'p entry) list \<Rightarrow> 'p verify_db \<Rightarrow>
    stats_error + unit" where
  "check_state api va aa sac env ledgerSequence reader db =
     (case verify_batches api va aa (queryFaults env) verifyBatchSize db 0 (new_verify_state reader) of
        Inl e \<Rightarrow> Inl e
      | Inr st \<Rightarrow> (case AddContractDatas sac (map (post_change LedgerEntryTypeContractData) (contractDataEntries st))
            (NewContractAssetStatSet Map.empty (expirationEntries st) Map.empty ledgerSequence) of
          Inl e \<Rightarrow> Inl e
      | Inr cs \<Rightarrow> (case run_query (queryFaults env 0) CountQuery (count_rows db) of
          Inl e \<Rightarrow> Inl e
      | Inr countAll \<Rightarrow> (case Verify (countAll + total_contract_data st + total_ttl st) (verifier st) of
          Inl e \<Rightarrow> Inl e
      | Inr _ \<Rightarrow> checkAssetStats va aa sac (visitAssets env) (visitContracts env) (statKeys env) (queryFaults env) (stats_t db) (assetStats st) cs))))"

definition verifyState :: "'p entry_api \<Rightarrow> 'p verify_api \<Rightarrow> asset_api \<Rightarrow> sac_api \<Rightarrow> 'p verify_env \<Rightarrow> bool \<Rightarrow> u32 \<Rightarrow> 'p verify_db \<Rightarrow>
    stats_error + verify_outcome" where
  "verifyState api va aa sac env verifyAgainstLatestCheckpoint checkpointSequence db =
     (if alreadyRunning env then Inr (Canceled ''State verification is already running'')
      else if StateVerifierExpectedIngestionVersion \<noteq> CurrentVersion then Inr (Canceled ''State verification expected version'')
      else if BeginTxFault env \<noteq> None then Inl (WrapError ''Error starting transaction'' (the (BeginTxFault env)))
      else case LastLedgerIngest env of
          Inl e \<Rightarrow> Inl (WrapError ''Error running historyQ.GetLastLedgerIngestNonBlocking'' e)
        | Inr ledgerSequence \<Rightarrow>
            if \<not> runOnLedger env ledgerSequence then Inr (Canceled ''Current ledger is not eligible for state verification'')
            else if ledgerSequence \<noteq> checkpointSequence then Inr (Canceled ''Current ledger does not match checkpoint sequence'')
            else (case StateVerificationLock env of
                Inl e \<Rightarrow> Inl (WrapError ''Error acquiring state verification lock'' e)
              | Inr ok \<Rightarrow>
                  if \<not> ok then Inr (Canceled ''State verification is already in progress'')
                  else (case (if verifyAgainstLatestCheckpoint then wait_published env ledgerSequence 0 else Inr None) of
                      Inl e \<Rightarrow> Inl e
                    | Inr (Some canceled) \<Rightarrow> Inr canceled
                    | Inr None \<Rightarrow> (case GetState env of
                        Inl e \<Rightarrow> Inl (WrapError ''Error running GetState'' e)
                      | Inr reader \<Rightarrow>
                          if BucketListFault env \<noteq> None then Inl (StateError (the (BucketListFault env)))
                          else (case check_state api va aa sac env ledgerSequence reader db of
                              Inl e \<Rightarrow> Inl e
                            | Inr _ \<Rightarrow> Inr StateCorrect)))))"

declare verify_batches.simps [simp del] check_pages.simps [simp del] checkContractBalances.simps [simp del] wait_published.simps [simp del]

end
