(* ===== verification/Batch_Table.thy ===== *)
theory Batch_Table
  imports Keyed_Table State_Tables
begin

text \<open>
  What a processor does to its table, once for all tables: between two changes, the rows and keys it has collected
  complete the table to all the changes so far, and a commit writes them. A statement that fails is the only
  way not to get there, and its error is not a state error.
\<close>

subsection \<open>Results that only a fault can spoil\<close>

definition unless_fault :: "bool \<Rightarrow> stats_error + 'a \<Rightarrow> ('a \<Rightarrow> bool) \<Rightarrow> bool" where
  "unless_fault faulty r P = (case r of Inr x \<Rightarrow> P x | Inl e \<Rightarrow> faulty \<and> (\<forall>m. e \<noteq> StateError m))"

named_theorems outcome \<open>rules for results that only a fault can spoil\<close>

lemma unless_fault_Inr [simp]: "unless_fault F (Inr x) P = P x"
  by (simp add: unless_fault_def)

lemma unless_fault_Inl [simp]: "unless_fault F (Inl e) P \<longleftrightarrow> F \<and> (\<forall>m. e \<noteq> StateError m)"
  by (simp add: unless_fault_def)

lemma unless_fault_bind [outcome]:
  "unless_fault F r P \<Longrightarrow> (\<And>x. P x \<Longrightarrow> unless_fault F (f x) Q) \<Longrightarrow> unless_fault F (case r of Inl e \<Rightarrow> Inl e | Inr x \<Rightarrow> f x) Q"
  by (cases r) simp_all

lemma unless_fault_mono [outcome]: "unless_fault F r P \<Longrightarrow> (\<And>x. P x \<Longrightarrow> Q x) \<Longrightarrow> unless_fault F r Q"
  by (cases r) simp_all

lemma unless_fault_stmt: "r = Inr x \<Longrightarrow> (fault \<noteq> None \<Longrightarrow> F) \<Longrightarrow> P x \<Longrightarrow> unless_fault F (stmt fault r) P"
  by (auto simp: unless_fault_def stmt_def split: option.split)

definition faulty :: "table_faults \<Rightarrow> bool" where
  "faulty flt \<longleftrightarrow> (\<exists>tb st. flt tb st \<noteq> None)"

lemma faultyI: "flt tb st \<noteq> None \<Longrightarrow> faulty flt"
  by (auto simp: faulty_def)

subsection \<open>Batches\<close>

definition changed_by :: "('k \<times> 'r option) list \<Rightarrow> ('k \<Rightarrow> 'r option) \<Rightarrow> 'k \<Rightarrow> 'r option" where
  "changed_by cs m k = (case map_of cs k of None \<Rightarrow> m k | Some x \<Rightarrow> x)"

lemma changed_by_snoc: "k \<notin> fst ` set cs \<Longrightarrow> changed_by (cs @ [(k, x)]) m = (changed_by cs m)(k := x)"
proof
  fix k' assume k: "k \<notin> fst ` set cs"
  then have "map_of cs k = None" by (simp add: map_of_eq_None_iff)
  then show "changed_by (cs @ [(k, x)]) m k' = ((changed_by cs m)(k := x)) k'"
    by (auto simp: changed_by_def map_add_def split: option.split)
qed

lemma changed_by_other: "k \<notin> fst ` set cs \<Longrightarrow> changed_by cs m k = m k"
  by (simp add: changed_by_def map_of_eq_None_iff [THEN iffD2])

context keyed
begin

definition batch_keys :: "('r, 'k) row_batch \<Rightarrow> 'k list" where
  "batch_keys b = map key (b_insert b @ b_update b) @ b_remove b"

definition pend :: "('r, 'k) row_batch \<Rightarrow> ('k \<Rightarrow> 'r option) \<Rightarrow> 'k \<Rightarrow> 'r option" where
  "pend b m k = (if k \<in> set (b_remove b) then None else overlay (row (b_insert b @ b_update b)) m k)"

definition batch_inv :: "'r list \<Rightarrow> ('k \<times> 'r option) list \<Rightarrow> ('r, 'k) row_batch \<Rightarrow> 'r list \<Rightarrow> bool" where
  "batch_inv t0 done b t \<longleftrightarrow> distinct (map key t) \<and> distinct (batch_keys b) \<and> set (batch_keys b) \<subseteq> fst ` set done \<and>
     (\<forall>k. pend b (row t) k = changed_by done (row t0) k) \<and>
     (\<forall>r\<in>set (b_insert b). row t (key r) = None) \<and> (\<forall>k\<in>set (b_remove b). row t k \<noteq> None)"

lemma pend_empty [simp]: "pend empty_batch m = m"
  by (auto simp: pend_def empty_batch_def)

lemma batch_inv_start: "distinct (map key t) \<Longrightarrow> batch_inv t [] empty_batch t"
  by (simp add: batch_inv_def batch_keys_def empty_batch_def changed_by_def pend_def)

lemma pend_other: "k \<notin> set (batch_keys b) \<Longrightarrow> pend b m k = m k"
proof -
  assume "k \<notin> set (batch_keys b)"
  then have "k \<notin> set (b_remove b)" "row (b_insert b @ b_update b) k = None" by (auto simp: batch_keys_def row_None_iff)
  then show ?thesis by (simp add: pend_def overlay_def)
qed

lemma length_removed:
  assumes "distinct (map key t)" "distinct ks" "\<forall>k\<in>set ks. row t k \<noteq> None"
  shows "length (filter (\<lambda>r. key r \<in> set ks) t) = length ks"
proof -
  have "set (map key (filter (\<lambda>r. key r \<in> set ks) t)) = set ks"
    using assms(3) by (auto simp: row_None_iff)
  moreover have "distinct (map key (filter (\<lambda>r. key r \<in> set ks) t))" using assms(1) by (simp add: distinct_map_filter)
  ultimately show ?thesis using assms(2) by (metis distinct_card length_map)
qed

lemma row_removed:
  "distinct (map key t) \<Longrightarrow> row (filter (\<lambda>r. key r \<notin> set ks) t) k = (if k \<in> set ks then None else row t k)"
  by (auto simp: row_filter split: option.split dest: row_SomeD)

lemma removeExactly_rows:
  assumes "distinct (map key t)" "distinct ks" "\<forall>k\<in>set ks. row t k \<noteq> None" "fault \<noteq> None \<Longrightarrow> F"
  shows "unless_fault F (removeExactly fault key ks t)
    (\<lambda>t'. distinct (map key t') \<and> (\<forall>k. row t' k = (if k \<in> set ks then None else row t k)))"
  unfolding removeExactly_def
  by (rule unless_fault_bind [OF unless_fault_stmt [where P = "\<lambda>x. x = removeRows key ks t"]])
    (use assms in \<open>auto simp: removeRows_def length_removed row_removed distinct_map_filter\<close>)

lemma insert_rows:
  assumes "distinct (map key t)" "distinct (map key rows)" "\<forall>r\<in>set rows. row t (key r) = None" "fault \<noteq> None \<Longrightarrow> F"
  shows "unless_fault F (stmt fault (batchInsert key rows t)) (\<lambda>t'. distinct (map key t') \<and> row t' = overlay (row rows) (row t))"
proof -
  have "\<forall>k\<in>key ` set rows. k \<notin> key ` set t" using assms(3) by (simp add: row_None_iff)
  then have "key ` set t \<inter> key ` set rows = {}" by (metis disjoint_iff)
  then have "distinct (map key (t @ rows))" using assms(1,2) by simp
  then show ?thesis using assms(4) row_insert by (intro unless_fault_stmt) (auto simp: batchInsert_def)
qed

lemma upsert_rows:
  assumes "distinct (map key t)" "distinct (map key rows)" "fault \<noteq> None \<Longrightarrow> F"
  shows "unless_fault F (if rows = [] then Inr t else stmt fault (upsertRows key rows t))
    (\<lambda>t'. distinct (map key t') \<and> row t' = overlay (row rows) (row t))"
proof (cases "rows = []")
  case False
  then show ?thesis using assms row_upserts distinct_upserts
    by (simp, intro unless_fault_stmt [where x = "fold (upsertRow key) rows t"]) (auto simp: upsertRows_def)
qed (use assms in simp)

text \<open>What a commit relies on, and what is in the table once the rows are written.\<close>

lemma batch_inv_parts:
  assumes "batch_inv t0 done b t"
  shows "distinct (map key t)" "distinct (map key (b_insert b))" "distinct (map key (b_update b))" "distinct (b_remove b)"
    "\<forall>r\<in>set (b_insert b). row t (key r) = None"
  using assms by (auto simp: batch_inv_def batch_keys_def)

lemma batch_inv_written:
  assumes inv: "batch_inv t0 done b t" and t2: "row t2 = overlay (row (b_update b)) (overlay (row (b_insert b)) (row t))"
  shows "(if k \<in> set (b_remove b) then None else row t2 k) = changed_by done (row t0) k" "\<forall>k\<in>set (b_remove b). row t2 k \<noteq> None"
proof -
  have d: "distinct (map key (b_insert b @ b_update b))" "set (b_remove b) \<inter> key ` set (b_insert b @ b_update b) = {}"
    using inv by (auto simp: batch_inv_def batch_keys_def)
  have row2: "row t2 = overlay (row (b_insert b @ b_update b)) (row t)" using row_insert [OF d(1)] t2 by simp
  have "pend b (row t) k = changed_by done (row t0) k" using inv by (simp add: batch_inv_def)
  then show "(if k \<in> set (b_remove b) then None else row t2 k) = changed_by done (row t0) k"
    by (auto simp: row2 pend_def split: if_splits)
  show "\<forall>k\<in>set (b_remove b). row t2 k \<noteq> None"
  proof
    fix k assume k: "k \<in> set (b_remove b)"
    then have "row (b_insert b @ b_update b) k = None" using d(2) by (auto simp: row_None_iff)
    with inv k show "row t2 k \<noteq> None" by (simp add: row2 overlay_def batch_inv_def)
  qed
qed

lemma batch_inv_other: "batch_inv t0 done b t \<Longrightarrow> k \<notin> fst ` set done \<Longrightarrow> row t k = row t0 k"
proof -
  assume inv: "batch_inv t0 done b t" and new: "k \<notin> fst ` set done"
  then have "k \<notin> set (batch_keys b)" by (auto simp: batch_inv_def)
  from inv pend_other [OF this] changed_by_other [OF new] show ?thesis by (metis batch_inv_def)
qed

lemma batch_inv_empty: "distinct (map key t) \<Longrightarrow> row t = changed_by done (row t0) \<Longrightarrow> batch_inv t0 done empty_batch t"
  by (simp add: batch_inv_def batch_keys_def empty_batch_def pend_def)

lemma commit_rows:
  assumes inv: "batch_inv t0 done b t" and flt: "\<And>s. flt s \<noteq> None \<Longrightarrow> F"
  shows "unless_fault F (commit_batch flt key b t) (\<lambda>t'. distinct (map key t') \<and> row t' = changed_by done (row t0))"
  unfolding commit_batch_def
proof (rule unless_fault_bind [OF insert_rows])
  note d = batch_inv_parts [OF inv]
  show "distinct (map key t)" "distinct (map key (b_insert b))" "\<forall>r\<in>set (b_insert b). row t (key r) = None" using d by auto
  fix t1 assume t1: "distinct (map key t1) \<and> row t1 = overlay (row (b_insert b)) (row t)"
  show "unless_fault F (case if b_update b = [] then Inr t1 else stmt (flt UpsertStmt) (upsertRows key (b_update b) t1) of
      Inl e \<Rightarrow> Inl e | Inr t2 \<Rightarrow> if b_remove b = [] then Inr t2 else removeExactly (flt RemoveStmt) key (b_remove b) t2)
    (\<lambda>t'. distinct (map key t') \<and> row t' = changed_by done (row t0))"
  proof (rule unless_fault_bind [OF upsert_rows [OF _ d(3)]])
    fix t2 assume t2: "distinct (map key t2) \<and> row t2 = overlay (row (b_update b)) (row t1)"
    with t1 have row2: "row t2 = overlay (row (b_update b)) (overlay (row (b_insert b)) (row t))" by simp
    note fin = batch_inv_written [OF inv row2]
    show "unless_fault F (if b_remove b = [] then Inr t2 else removeExactly (flt RemoveStmt) key (b_remove b) t2)
        (\<lambda>t'. distinct (map key t') \<and> row t' = changed_by done (row t0))"
    proof (cases "b_remove b = []")
      case True
      then show ?thesis using t2 fin(1) by (auto simp: fun_eq_iff)
    next
      case False
      then show ?thesis
        using removeExactly_rows [OF _ d(4) fin(2), of "flt RemoveStmt" F] t2 flt fin(1)
        by (simp, elim unless_fault_mono) (auto simp: fun_eq_iff)
    qed
  qed (use t1 flt in auto)
qed (use flt in auto)

text \<open>A change with the key it is about and the row it leaves, and what it must fit to.\<close>

definition change_is :: "('e ledger_entry \<Rightarrow> stats_error + 'r) \<Rightarrow> ('e ledger_entry \<Rightarrow> stats_error + 'k) \<Rightarrow> 'r list \<Rightarrow>
    'e entry_change \<Rightarrow> 'k \<times> 'r option \<Rightarrow> bool" where
  "change_is rowof keyof t0 ch c \<longleftrightarrow> (case (PreEntry ch, PostEntry ch) of
       (None, Some e) \<Rightarrow> (\<exists>r. rowof e = Inr r \<and> c = (key r, Some r) \<and> row t0 (key r) = None)
     | (Some e', Some e) \<Rightarrow> (\<exists>r. rowof e = Inr r \<and> c = (key r, Some r))
     | (Some e, None) \<Rightarrow> (\<exists>k. keyof e = Inr k \<and> c = (k, None) \<and> row t0 k \<noteq> None)
     | (None, None) \<Rightarrow> False)"

lemma batch_inv_put:
  assumes inv: "batch_inv t0 done b t" and new: "key r \<notin> fst ` set done"
    and b': "b' = b\<lparr>b_insert := b_insert b @ [r]\<rparr> \<and> row t0 (key r) = None \<or> b' = b\<lparr>b_update := b_update b @ [r]\<rparr>"
  shows "batch_inv t0 (done @ [(key r, Some r)]) b' t"
proof -
  have nb: "key r \<notin> set (batch_keys b)" using inv new by (auto simp: batch_inv_def)
  then have nb': "key r \<notin> key ` set (b_insert b @ b_update b)" "key r \<notin> set (b_remove b)" by (simp_all add: batch_keys_def image_Un)
  have rows: "row (b_insert b' @ b_update b') = (row (b_insert b @ b_update b))(key r \<mapsto> r)"
    using b' row_fresh [of r "b_insert b" "b_update b"] row_fresh [of r "b_insert b @ b_update b" "[]"] nb'(1) by auto
  have rem: "b_remove b' = b_remove b" using b' by auto
  have none: "row t (key r) = None" if "row t0 (key r) = None"
    using batch_inv_other [OF inv new] that by simp
  have "pend b' (row t) k = changed_by (done @ [(key r, Some r)]) (row t0) k" for k
  proof -
    have "pend b (row t) k = changed_by done (row t0) k" using inv by (simp add: batch_inv_def)
    then show ?thesis using nb'(2) by (auto simp: pend_def rows rem overlay_upd changed_by_snoc [OF new] split: if_splits)
  qed
  moreover have "distinct (batch_keys b')" "set (batch_keys b') \<subseteq> insert (key r) (fst ` set done)"
  proof -
    have m: "mset (batch_keys b') = mset (key r # batch_keys b)" using b' by (auto simp: batch_keys_def)
    show "distinct (batch_keys b')" using mset_eq_imp_distinct_iff [OF m] inv nb by (simp add: batch_inv_def)
    show "set (batch_keys b') \<subseteq> insert (key r) (fst ` set done)" using mset_eq_setD [OF m] inv by (auto simp: batch_inv_def)
  qed
  moreover have "\<forall>r\<in>set (b_insert b'). row t (key r) = None" using inv b' none by (auto simp: batch_inv_def)
  ultimately show ?thesis using inv by (simp add: batch_inv_def rem)
qed

lemma batch_inv_remove:
  assumes inv: "batch_inv t0 done b t" and new: "k \<notin> fst ` set done" and there: "row t0 k \<noteq> None"
  shows "batch_inv t0 (done @ [(k, None)]) (b\<lparr>b_remove := b_remove b @ [k]\<rparr>) t"
proof -
  have nb: "k \<notin> set (batch_keys b)" using inv new by (auto simp: batch_inv_def)
  have "row t k \<noteq> None" using batch_inv_other [OF inv new] there by simp
  moreover have "pend (b\<lparr>b_remove := b_remove b @ [k]\<rparr>) (row t) k' = changed_by (done @ [(k, None)]) (row t0) k'" for k'
  proof -
    have "pend b (row t) k' = changed_by done (row t0) k'" using inv by (simp add: batch_inv_def)
    then show ?thesis by (auto simp: pend_def changed_by_snoc [OF new] split: if_splits)
  qed
  ultimately show ?thesis using inv nb by (auto simp: batch_inv_def batch_keys_def)
qed

lemma batch_inv_same:
  assumes inv: "batch_inv t0 done b t" and new: "k \<notin> fst ` set done" and same: "row t0 k = x"
  shows "batch_inv t0 (done @ [(k, x)]) b t"
proof -
  have "changed_by (done @ [(k, x)]) (row t0) = changed_by done (row t0)"
    using same by (auto simp: changed_by_snoc [OF new] changed_by_other [OF new] fun_eq_iff)
  then show ?thesis using inv by (auto simp: batch_inv_def)
qed

lemma process_row_inv:
  assumes "batch_inv t0 done b t" "\<And>s. flt s \<noteq> None \<Longrightarrow> F"
  shows "unless_fault F (process_row flt key (Inr b) t) (\<lambda>(b', t'). batch_inv t0 done b' t')"
proof (cases "maxBatchSize < batch_size b")
  case True
  have "unless_fault F (case commit_batch flt key b t of Inl e \<Rightarrow> Inl e | Inr t' \<Rightarrow> Inr (empty_batch, t'))
      (\<lambda>(b', t'). batch_inv t0 done b' t')"
    by (rule unless_fault_bind [OF commit_rows [OF assms]]) (simp_all add: batch_inv_empty)
  with True show ?thesis by (simp add: process_row_def)
next
  case False
  with assms(1) show ?thesis by (simp add: process_row_def)
qed

lemma process_change_inv:
  assumes inv: "batch_inv t0 done b t" and ch: "change_is rowof keyof t0 ch c" and new: "fst c \<notin> fst ` set done"
    and flt: "\<And>s. flt s \<noteq> None \<Longrightarrow> F"
  shows "unless_fault F (process_row flt key (add_change n rowof keyof ch b) t) (\<lambda>(b', t'). batch_inv t0 (done @ [c]) b' t')"
proof -
  have "\<exists>b'. add_change n rowof keyof ch b = Inr b' \<and> batch_inv t0 (done @ [c]) b' t"
  proof (cases "PreEntry ch"; cases "PostEntry ch")
    fix e assume pp: "PreEntry ch = None" "PostEntry ch = Some e"
    then obtain r where "rowof e = Inr r" "c = (key r, Some r)" "row t0 (key r) = None" using ch by (auto simp: change_is_def)
    with pp new batch_inv_put [OF inv, of r "b\<lparr>b_insert := b_insert b @ [r]\<rparr>"] show ?thesis by (simp add: add_change_def)
  next
    fix e' e assume pp: "PreEntry ch = Some e'" "PostEntry ch = Some e"
    then obtain r where "rowof e = Inr r" "c = (key r, Some r)" using ch by (auto simp: change_is_def)
    with pp new batch_inv_put [OF inv, of r "b\<lparr>b_update := b_update b @ [r]\<rparr>"] show ?thesis by (simp add: add_change_def)
  next
    fix e assume pp: "PreEntry ch = Some e" "PostEntry ch = None"
    then obtain k where "keyof e = Inr k" "c = (k, None)" "row t0 k \<noteq> None" using ch by (auto simp: change_is_def)
    with pp new batch_inv_remove [OF inv, of k] show ?thesis by (simp add: add_change_def)
  qed (use ch in \<open>simp add: change_is_def\<close>)
  then show ?thesis using process_row_inv [OF _ flt] by auto
qed

end

text \<open>A processor keeps its invariant over all changes of a ledger when it does over each.\<close>

lemma process_all_inv:
  assumes step: "\<And>ch c done p t. I done p t \<Longrightarrow> R ch c \<Longrightarrow> fst c \<notin> fst ` set done \<Longrightarrow>
      unless_fault F (f ch p t) (\<lambda>(p', t'). I (done @ [c]) p' t')"
    and "list_all2 R chs cs" "distinct (map fst (done @ cs))" "I done p t"
  shows "unless_fault F (process_all f chs p t) (\<lambda>(p', t'). I (done @ cs) p' t')"
  using assms(2-4)
proof (induction chs cs arbitrary: "done" p t rule: list_all2_induct)
  case (Cons ch chs c cs)
  have "fst c \<notin> fst ` set done" using Cons.prems(1) by auto
  from step [OF Cons.prems(2) Cons.hyps(1) this]
  have "unless_fault F (case f ch p t of Inl e \<Rightarrow> Inl e | Inr (p', t') \<Rightarrow> process_all f chs p' t') (\<lambda>(p', t'). I ((done @ [c]) @ cs) p' t')"
    by (rule unless_fault_bind) (use Cons.IH [of "done @ [c]"] Cons.prems(1) in auto)
  then show ?case by simp
qed simp

end
