(* ===== verification/State_Tables_Props.thy ===== *)
theory State_Tables_Props
  imports Batch_Table Order_Book_Props
begin

text \<open>
  The state tables hold the ledger: when they do before a ledger and the changes of the ledger fit to it, they do
  after it. A ledger is a map from identifiers to entries for each type of entry. The locale \<open>entry_table\<close> is what
  the tables with one row per entry have in common.
\<close>

subsection \<open>Ledgers and their changes\<close>

definition ledger_after :: "('e ledger_entry \<Rightarrow> 'i) \<Rightarrow> 'e entry_change list \<Rightarrow> ('i \<Rightarrow> 'e ledger_entry option) \<Rightarrow> 'i \<Rightarrow> 'e ledger_entry option" where
  "ledger_after ident chs L = fold (\<lambda>ch L. L(ident (the (entry_of ch)) := PostEntry ch)) chs L"

text \<open>Every entry changes at most once, from what it was.\<close>

definition changes_fit :: "('e ledger_entry \<Rightarrow> 'i) \<Rightarrow> ('e ledger_entry \<Rightarrow> bool) \<Rightarrow> ('i \<Rightarrow> 'e ledger_entry option) \<Rightarrow> 'e entry_change list \<Rightarrow> bool" where
  "changes_fit ident valid L chs \<longleftrightarrow> distinct (map (\<lambda>ch. ident (the (entry_of ch))) chs) \<and>
     (\<forall>ch\<in>set chs. \<exists>e. entry_of ch = Some e \<and> PreEntry ch = L (ident e) \<and> (\<forall>e'. PostEntry ch = Some e' \<longrightarrow> valid e'))"

definition ledger_ok :: "('e ledger_entry \<Rightarrow> 'i) \<Rightarrow> ('e ledger_entry \<Rightarrow> bool) \<Rightarrow> ('i \<Rightarrow> 'e ledger_entry option) \<Rightarrow> bool" where
  "ledger_ok ident valid L \<longleftrightarrow> (\<forall>i e. L i = Some e \<longrightarrow> ident e = i \<and> valid e)"

definition id_changes :: "('e ledger_entry \<Rightarrow> 'i) \<Rightarrow> 'e entry_change list \<Rightarrow> ('i \<times> 'e ledger_entry option) list" where
  "id_changes ident chs = map (\<lambda>ch. (ident (the (entry_of ch)), PostEntry ch)) chs"

lemma fold_changed_by: "distinct (map fst cs) \<Longrightarrow> fold (\<lambda>c m. m(fst c := snd c)) cs m = changed_by cs m"
proof (induction cs arbitrary: m)
  case (Cons c cs)
  have "map_of cs (fst c) = None" using Cons.prems by (simp add: map_of_eq_None_iff)
  with Cons show ?case by (auto simp: changed_by_def fun_eq_iff split: option.split)
qed (simp add: changed_by_def fun_eq_iff)

lemma ledger_after_changed:
  assumes "changes_fit ident valid L chs"
  shows "ledger_after ident chs L = changed_by (id_changes ident chs) L" "distinct (map fst (id_changes ident chs))"
proof -
  show d: "distinct (map fst (id_changes ident chs))"
    using assms by (simp add: changes_fit_def id_changes_def comp_def)
  have "ledger_after ident chs L = fold (\<lambda>c m. m(fst c := snd c)) (id_changes ident chs) L"
    by (simp add: ledger_after_def id_changes_def fold_map comp_def)
  then show "ledger_after ident chs L = changed_by (id_changes ident chs) L" using fold_changed_by [OF d] by simp
qed

lemma change_valid:
  assumes "changes_fit ident valid L chs" "ledger_ok ident valid L" "ch \<in> set chs"
  obtains e where "entry_of ch = Some e" "PreEntry ch = L (ident e)" "valid e" "\<And>e'. PostEntry ch = Some e' \<Longrightarrow> e' = e"
proof -
  obtain e where e: "entry_of ch = Some e" "PreEntry ch = L (ident e)" "\<And>e'. PostEntry ch = Some e' \<Longrightarrow> valid e'"
    using assms(1,3) unfolding changes_fit_def by blast
  have "valid e"
  proof (cases "PostEntry ch")
    case None
    with e(1) have "PreEntry ch = Some e" by (simp add: entry_of_def)
    with e(2) assms(2) show ?thesis unfolding ledger_ok_def by metis
  next
    case (Some e')
    with e(1) have "e' = e" by (simp add: entry_of_def)
    with Some e(3) show ?thesis by blast
  qed
  moreover have "e' = e" if "PostEntry ch = Some e'" for e' using that e(1) by (simp add: entry_of_def)
  ultimately show ?thesis using that e by blast
qed

lemma ledger_ok_after:
  assumes fit: "changes_fit ident valid L chs" and ok: "ledger_ok ident valid L"
  shows "ledger_ok ident valid (ledger_after ident chs L)"
  unfolding ledger_ok_def
proof (intro allI impI)
  fix i e assume i: "ledger_after ident chs L i = Some e"
  show "ident e = i \<and> valid e"
  proof (cases "map_of (id_changes ident chs) i")
    case None
    then have "L i = Some e" using i ledger_after_changed(1) [OF fit] by (simp add: changed_by_def)
    then show ?thesis using ok by (simp add: ledger_ok_def)
  next
    case (Some x)
    then have "x = Some e" using i ledger_after_changed(1) [OF fit] by (simp add: changed_by_def)
    then obtain ch where ch: "ch \<in> set chs" "i = ident (the (entry_of ch))" "PostEntry ch = Some e"
      using map_of_SomeD [OF Some] by (auto simp: id_changes_def)
    from change_valid [OF fit ok ch(1)] obtain e' where "entry_of ch = Some e'" "valid e'" "e = e'" using ch(3) by metis
    then show ?thesis using ch(2) by simp
  qed
qed

subsection \<open>Tables with one row per entry\<close>

text \<open>The rows of a table are those of the entries of a ledger.\<close>

definition table_holds :: "('r \<Rightarrow> 'k) \<Rightarrow> ('e ledger_entry \<Rightarrow> stats_error + 'r) \<Rightarrow> 'r list \<Rightarrow> ('i \<Rightarrow> 'e ledger_entry option) \<Rightarrow> bool" where
  "table_holds key rowof t L \<longleftrightarrow> distinct (map key t) \<and> (\<forall>r. r \<in> set t \<longleftrightarrow> (\<exists>i e. L i = Some e \<and> rowof e = Inr r))"

locale entry_table = keyed key
  for key :: "'r \<Rightarrow> 'k" +
  fixes ident :: "'e ledger_entry \<Rightarrow> 'i" and col :: "'i \<Rightarrow> 'k"
    and rowof :: "'e ledger_entry \<Rightarrow> stats_error + 'r" and keyof :: "'e ledger_entry \<Rightarrow> stats_error + 'k"
    and valid :: "'e ledger_entry \<Rightarrow> bool"
  assumes row_key: "\<And>e. valid e \<Longrightarrow> \<exists>r. rowof e = Inr r \<and> key r = col (ident e)"
    and key_col: "\<And>e. valid e \<Longrightarrow> keyof e = Inr (col (ident e))"
    and col_inj: "\<And>e e'. valid e \<Longrightarrow> valid e' \<Longrightarrow> col (ident e) = col (ident e') \<Longrightarrow> ident e = ident e'"
begin

abbreviation holds :: "'r list \<Rightarrow> ('i \<Rightarrow> 'e ledger_entry option) \<Rightarrow> bool" where
  "holds \<equiv> table_holds key rowof"

definition the_row :: "'e ledger_entry \<Rightarrow> 'r" where
  "the_row e = projr (rowof e)"

lemma the_row: "valid e \<Longrightarrow> rowof e = Inr (the_row e)" "valid e \<Longrightarrow> key (the_row e) = col (ident e)"
  using row_key [of e] by (auto simp: the_row_def)

lemma row_holds:
  assumes "holds t L" "ledger_ok ident valid L" "valid e"
  shows "row t (col (ident e)) = map_option the_row (L (ident e))"
proof (cases "L (ident e)")
  case (Some e')
  then have e': "ident e' = ident e" "valid e'" using assms(2) by (auto simp: ledger_ok_def)
  then have "the_row e' \<in> set t" using assms(1) Some the_row(1) [of e'] by (auto simp: table_holds_def)
  moreover have "key (the_row e') = col (ident e)" using the_row(2) [OF e'(2)] e'(1) by simp
  ultimately have "row t (col (ident e)) = Some (the_row e')" using assms(1) by (simp add: table_holds_def row_Some_iff)
  with Some show ?thesis by simp
next
  case None
  have "row t (col (ident e)) = None"
  proof (rule ccontr)
    assume "row t (col (ident e)) \<noteq> None"
    then obtain r where r0: "row t (col (ident e)) = Some r" by auto
    then have r: "r \<in> set t" "key r = col (ident e)" using row_SomeD [OF r0] by simp_all
    then obtain i e' where e': "L i = Some e'" "rowof e' = Inr r" using assms(1) by (auto simp: table_holds_def)
    then have v: "ident e' = i" "valid e'" using assms(2) by (auto simp: ledger_ok_def)
    have "col (ident e') = col (ident e)" using the_row [OF v(2)] e'(2) r(2) by simp
    from col_inj [OF v(2) assms(3) this] have "i = ident e" using v(1) by simp
    with e'(1) None show False by simp
  qed
  with None show ?thesis by simp
qed

definition row_changes :: "'e entry_change list \<Rightarrow> ('k \<times> 'r option) list" where
  "row_changes chs = map (\<lambda>ch. (col (ident (the (entry_of ch))), map_option the_row (PostEntry ch))) chs"

text \<open>A change fits to the table, and the row of an entry that is changed is the one it had.\<close>

definition fit_change :: "'r list \<Rightarrow> 'e entry_change \<Rightarrow> 'k \<times> 'r option \<Rightarrow> bool" where
  "fit_change t ch c \<longleftrightarrow> change_is rowof keyof t ch c \<and>
     (\<forall>pre. PreEntry ch = Some pre \<longrightarrow> (\<exists>r. rowof pre = Inr r \<and> row t (fst c) = Some r))"

lemma fit_changes:
  assumes h: "holds t L" and ok: "ledger_ok ident valid L" and fit: "changes_fit ident valid L chs"
  shows "list_all2 (fit_change t) chs (row_changes chs)" "distinct (map fst (row_changes chs))"
proof -
  have one: "fit_change t ch (col (ident (the (entry_of ch))), map_option the_row (PostEntry ch))" if ch: "ch \<in> set chs" for ch
  proof -
    from change_valid [OF fit ok ch] obtain e where e: "entry_of ch = Some e" "PreEntry ch = L (ident e)" "valid e"
      and post: "\<And>e'. PostEntry ch = Some e' \<Longrightarrow> e' = e" by blast
    have r: "row t (col (ident e)) = map_option the_row (PreEntry ch)" using row_holds [OF h ok e(3)] e(2) by simp
    have pre: "rowof p = Inr (the_row p) \<and> keyof p = Inr (col (ident e))" if "PreEntry ch = Some p" for p
    proof -
      have "ident p = ident e \<and> valid p" using that e(2) ok by (auto simp: ledger_ok_def)
      then show ?thesis using the_row [of p] key_col [of p] by simp
    qed
    show ?thesis
    proof (cases "PostEntry ch")
      case None
      then have p: "PreEntry ch = Some e" using e(1) by (simp add: entry_of_def)
      with None e(1,3) r pre [OF p] show ?thesis by (simp add: fit_change_def change_is_def)
    next
      case (Some e')
      with post have q: "PostEntry ch = Some e" by simp
      show ?thesis
      proof (cases "PreEntry ch")
        case None
        with q e(1,3) r the_row [OF e(3)] show ?thesis by (simp add: fit_change_def change_is_def)
      next
        case (Some p)
        with q e(1,3) r the_row [OF e(3)] pre [OF Some] show ?thesis by (simp add: fit_change_def change_is_def)
      qed
    qed
  qed
  then show "list_all2 (fit_change t) chs (row_changes chs)"
    by (auto simp: row_changes_def list_all2_conv_all_nth)
  have "inj_on col (set (map (\<lambda>ch. ident (the (entry_of ch))) chs))"
  proof (rule inj_onI)
    fix x y assume x: "x \<in> set (map (\<lambda>ch. ident (the (entry_of ch))) chs)" "y \<in> set (map (\<lambda>ch. ident (the (entry_of ch))) chs)"
      and eq: "col x = col y"
    have v: "\<exists>e. z = ident e \<and> valid e" if z: "z \<in> set (map (\<lambda>ch. ident (the (entry_of ch))) chs)" for z
    proof -
      obtain ch where "ch \<in> set chs" "z = ident (the (entry_of ch))" using z by auto
      then show ?thesis using change_valid [OF fit ok] by (metis option.sel)
    qed
    obtain e e' where "x = ident e" "valid e" "y = ident e'" "valid e'" using v [OF x(1)] v [OF x(2)] by blast
    then show "x = y" using col_inj eq by blast
  qed
  then show "distinct (map fst (row_changes chs))"
    using fit by (simp add: changes_fit_def row_changes_def comp_def distinct_map) (simp add: inj_on_def)
qed

lemma holds_after:
  assumes h: "holds t L" and ok: "ledger_ok ident valid L" and fit: "changes_fit ident valid L chs"
    and t': "distinct (map key t')" "row t' = changed_by (row_changes chs) (row t)"
  shows "holds t' (ledger_after ident chs L)"
proof -
  note after = ledger_after_changed [OF fit] and ok' = ledger_ok_after [OF fit ok] and d = fit_changes(2) [OF h ok fit]
  have lookup: "row t' (col (ident e)) = map_option the_row (ledger_after ident chs L (ident e))" if v: "valid e" for e
  proof (cases "\<exists>ch\<in>set chs. ident (the (entry_of ch)) = ident e")
    case True
    then obtain ch where ch: "ch \<in> set chs" "ident (the (entry_of ch)) = ident e" by blast
    then have "(col (ident e), map_option the_row (PostEntry ch)) \<in> set (row_changes chs)" by (force simp: row_changes_def)
    then have "map_of (row_changes chs) (col (ident e)) = Some (map_option the_row (PostEntry ch))" using d by (simp add: map_of_eq_Some_iff)
    moreover have "(ident e, PostEntry ch) \<in> set (id_changes ident chs)" using ch by (force simp: id_changes_def)
    then have "map_of (id_changes ident chs) (ident e) = Some (PostEntry ch)" using after(2) by (simp add: map_of_eq_Some_iff)
    ultimately show ?thesis by (simp add: t'(2) after(1) changed_by_def)
  next
    case False
    then have "map_of (id_changes ident chs) (ident e) = None" by (auto simp: map_of_eq_None_iff id_changes_def)
    moreover have "map_of (row_changes chs) (col (ident e)) = None"
    proof (rule ccontr)
      assume "map_of (row_changes chs) (col (ident e)) \<noteq> None"
      then obtain ch where ch: "ch \<in> set chs" "col (ident (the (entry_of ch))) = col (ident e)"
        by (auto simp: map_of_eq_None_iff row_changes_def)
      obtain e' where "entry_of ch = Some e'" "valid e'" using change_valid [OF fit ok ch(1)] by metis
      with ch col_inj [OF _ v] have "ident (the (entry_of ch)) = ident e" by simp
      with ch(1) False show False by blast
    qed
    ultimately show ?thesis using row_holds [OF h ok v] by (simp add: t'(2) after(1) changed_by_def)
  qed
  have "r \<in> set t' \<longleftrightarrow> (\<exists>i e. ledger_after ident chs L i = Some e \<and> rowof e = Inr r)" for r
  proof
    assume "r \<in> set t'"
    then have r: "row t' (key r) = Some r" using t'(1) by (simp add: row_Some_iff)
    have "\<exists>e. valid e \<and> key r = col (ident e)"
    proof (cases "map_of (row_changes chs) (key r)")
      case None
      then have "row t (key r) = Some r" using r by (simp add: t'(2) changed_by_def)
      then have "r \<in> set t" using row_SomeD by blast
      then obtain i e where e: "L i = Some e" "rowof e = Inr r" using h by (auto simp: table_holds_def)
      then have "valid e" using ok by (auto simp: ledger_ok_def)
      with the_row [OF this] e(2) show ?thesis by auto
    next
      case (Some x)
      then obtain ch where ch: "ch \<in> set chs" "key r = col (ident (the (entry_of ch)))"
        using map_of_SomeD [OF Some] by (auto simp: row_changes_def)
      then show ?thesis using change_valid [OF fit ok ch(1)] by (metis option.sel)
    qed
    then obtain e where e: "valid e" "key r = col (ident e)" by blast
    with lookup r have "map_option the_row (ledger_after ident chs L (ident e)) = Some r" by simp
    then obtain e' where e': "ledger_after ident chs L (ident e) = Some e'" "r = the_row e'" by auto
    then have "valid e'" using ok' by (auto simp: ledger_ok_def)
    with the_row(1) e' show "\<exists>i e. ledger_after ident chs L i = Some e \<and> rowof e = Inr r" by blast
  next
    assume "\<exists>i e. ledger_after ident chs L i = Some e \<and> rowof e = Inr r"
    then obtain i e where e: "ledger_after ident chs L i = Some e" "rowof e = Inr r" by blast
    then have v: "ident e = i" "valid e" using ok' by (auto simp: ledger_ok_def)
    then have "r = the_row e" using e(2) the_row(1) by simp
    then have "row t' (col (ident e)) = Some r" using lookup [OF v(2)] e(1) v(1) by simp
    then show "r \<in> set t'" using row_SomeD by blast
  qed
  then show ?thesis using t'(1) by (simp add: table_holds_def)
qed

text \<open>A run of a processor over the changes of a ledger.\<close>

lemma run_table:
  assumes h: "holds t L" and ok: "ledger_ok ident valid L" and fit: "changes_fit ident valid L chs"
    and keeps: "\<forall>ch\<in>set chs. K ch"
    and step: "\<And>ch c done b u. batch_inv t done b u \<Longrightarrow> fit_change t ch c \<and> K ch \<Longrightarrow> fst c \<notin> fst ` set done \<Longrightarrow>
      unless_fault F (f ch b u) (\<lambda>(b', u'). batch_inv t (done @ [c]) b' u')"
    and flt: "\<And>s. flt s \<noteq> None \<Longrightarrow> F"
  shows "unless_fault F (run_processor f (commit_batch flt key) empty_batch chs t) (\<lambda>t'. holds t' (ledger_after ident chs L))"
proof -
  have start: "batch_inv t [] empty_batch t" using h by (intro batch_inv_start) (simp add: table_holds_def)
  have R: "list_all2 (\<lambda>ch c. fit_change t ch c \<and> K ch) chs (row_changes chs)"
    using fit_changes(1) [OF h ok fit] keeps by (simp add: list_all2_conv_all_nth)
  have "unless_fault F (process_all f chs empty_batch t) (\<lambda>(b', t'). batch_inv t (row_changes chs) b' t')"
    using process_all_inv [where I = "batch_inv t" and R = "\<lambda>ch c. fit_change t ch c \<and> K ch" and f = f and F = F, OF step R _ start]
      fit_changes(2) [OF h ok fit] by simp
  then show ?thesis unfolding run_processor_def
  proof (rule unless_fault_bind)
    fix x :: "('r, 'k) row_batch \<times> 'r list" assume x: "case x of (b', t') \<Rightarrow> batch_inv t (row_changes chs) b' t'"
    obtain b' t' where bt: "x = (b', t')" by (cases x)
    with x have inv: "batch_inv t (row_changes chs) b' t'" by simp
    show "unless_fault F (case x of (p', t') \<Rightarrow> commit_batch flt key p' t') (\<lambda>t'. holds t' (ledger_after ident chs L))"
      unfolding bt prod.case
      by (rule unless_fault_mono [OF commit_rows [OF inv flt]]) (auto intro: holds_after [OF h ok fit])
  qed
qed

end

end
