(* ===== verification/Entry_Tables.thy ===== *)
theory Entry_Tables
  imports State_Tables_Props
begin

text \<open>
  The tables of accounts, data entries and trust lines as instances of \<open>entry_table\<close>, on the assumptions about the
  XDR package that the code relies on.
\<close>

subsection \<open>What the XDR package promises\<close>

text \<open>
  \<open>AccountChangedExceptSigners\<close> is false only for an entry that was there and is still there, with the same
  ledger of its last modification and the same account but for its signers.
\<close>

definition accounts_api_ok :: "'p entry_api \<Rightarrow> bool" where
  "accounts_api_ok api \<longleftrightarrow> (\<forall>ch. \<exists>b. AccountChangedExceptSigners api ch = Inr b \<and>
     (\<not> b \<longrightarrow> (\<exists>pre post. PreEntry ch = Some pre \<and> PostEntry ch = Some post \<and>
        LastModifiedLedgerSeq pre = LastModifiedLedgerSeq post \<and>
        (Data pre)\<lparr>xa_Signers := []\<rparr> = (Data post)\<lparr>xa_Signers := []\<rparr>)))"

text \<open>The keys of data entries with a valid account and name are their encodings.\<close>

definition data_api_ok :: "'p entry_api \<Rightarrow> bool" where
  "data_api_ok api \<longleftrightarrow>
     (\<forall>a n. length a = 56 \<and> length n \<le> 64 \<longrightarrow> (\<exists>k. DataLedgerKey api a n = Inr k)) \<and>
     (\<forall>a n a' n' k. DataLedgerKey api a n = Inr k \<and> DataLedgerKey api a' n' = Inr k \<longrightarrow> a = a' \<and> n = n')"

text \<open>The assets of trust lines: pool shares have an identifier of 32 bytes, credit assets have a code and an issuer.\<close>

definition valid_asset :: "Asset \<Rightarrow> bool" where
  "valid_asset a \<longleftrightarrow> (case a of AssetTypeNative \<Rightarrow> True
     | AssetTypeCreditAlphanum4 c i \<Rightarrow> length i = 56 \<and> 0 < length c \<and> length c \<le> 4
     | AssetTypeCreditAlphanum12 c i \<Rightarrow> length i = 56 \<and> 4 < length c \<and> length c \<le> 12)"

definition valid_line_asset :: "xTrustLineAsset \<Rightarrow> bool" where
  "valid_line_asset a \<longleftrightarrow> (case a of TLPoolShare p \<Rightarrow> length p = 32 | TLAsset x \<Rightarrow> valid_asset x \<and> x \<noteq> AssetTypeNative)"

text \<open>\<open>Extract\<close> gives the type, the code and the issuer of an asset; the types are 0, 1 and 2.\<close>

definition extracted :: "Asset \<Rightarrow> assetStatKey" where
  "extracted a = (case a of AssetTypeNative \<Rightarrow> \<lparr>assetType = 0, assetCode = [], assetIssuer = []\<rparr>
     | AssetTypeCreditAlphanum4 c i \<Rightarrow> \<lparr>assetType = 1, assetCode = c, assetIssuer = i\<rparr>
     | AssetTypeCreditAlphanum12 c i \<Rightarrow> \<lparr>assetType = 2, assetCode = c, assetIssuer = i\<rparr>)"

definition lines_api_ok :: "'p entry_api \<Rightarrow> bool" where
  "lines_api_ok api \<longleftrightarrow>
     (\<forall>a x. length a = 56 \<and> valid_line_asset x \<longrightarrow> (\<exists>k. TrustLineLedgerKey api a x = Inr k)) \<and>
     (\<forall>a x a' x' k. TrustLineLedgerKey api a x = Inr k \<and> TrustLineLedgerKey api a' x' = Inr k \<longrightarrow> a = a' \<and> x = x') \<and>
     (\<forall>x. valid_asset x \<longrightarrow> ExtractAsset api x = Inr (extracted x))"

subsection \<open>Accounts\<close>

definition account_id :: "xAccountEntry ledger_entry \<Rightarrow> string" where
  "account_id e = xa_AccountId (Data e)"

text \<open>
  The signers of a valid account have distinct keys, none of them its own, and their sponsors are addresses. The
  sequence extension, when it is there, has been written by a transaction.
\<close>

definition valid_account :: "xAccountEntry ledger_entry \<Rightarrow> bool" where
  "valid_account e \<longleftrightarrow> length (account_id e) = 56 \<and> distinct (account_id e # map sg_Key (xa_Signers (Data e))) \<and>
     (\<forall>s\<in>set (xa_Signers (Data e)). sg_Sponsor s \<noteq> Some []) \<and> xa_InflationDest (Data e) \<noteq> Some [] \<and>
     (\<forall>l t. xa_V3 (Data e) = Some (l, t) \<longrightarrow> l \<noteq> 0 \<and> t \<noteq> 0)"

text \<open>An entry that was modified in the same ledger has the same sponsor.\<close>

definition sponsor_kept :: "'e entry_change \<Rightarrow> bool" where
  "sponsor_kept ch \<longleftrightarrow> (\<forall>pre post. PreEntry ch = Some pre \<and> PostEntry ch = Some post \<and>
     LastModifiedLedgerSeq pre = LastModifiedLedgerSeq post \<longrightarrow> SponsoringID pre = SponsoringID post)"

interpretation accounts: entry_table a_AccountID account_id id "\<lambda>e. Inr (account_row e)" account_key valid_account
  by unfold_locales (simp_all add: account_row_def account_key_def account_id_def Let_def)

lemma same_account_row:
  assumes "LastModifiedLedgerSeq pre = LastModifiedLedgerSeq post" "SponsoringID pre = SponsoringID post"
    "(Data pre)\<lparr>xa_Signers := []\<rparr> = (Data post)\<lparr>xa_Signers := []\<rparr>"
  shows "account_row pre = account_row post"
proof -
  have row: "account_row \<lparr>Data = (Data e)\<lparr>xa_Signers := []\<rparr>, LastModifiedLedgerSeq = LastModifiedLedgerSeq e,
      SponsoringID = SponsoringID e\<rparr> = account_row e" for e
    by (simp add: account_row_def Let_def SeqLedger_def SeqTime_def)
  show ?thesis using row [of pre] row [of post] assms by simp
qed

lemma accounts_step:
  assumes api: "accounts_api_ok api" and inv: "accounts.batch_inv t done b u" and fit: "accounts.fit_change t ch c"
    and new: "fst c \<notin> fst ` set done" and kept: "sponsor_kept ch"
  shows "unless_fault (faulty flt) (Accounts_ProcessChange api flt ch b u) (\<lambda>(b', u'). accounts.batch_inv t (done @ [c]) b' u')"
proof -
  obtain changed where ch: "AccountChangedExceptSigners api ch = Inr changed"
    "\<not> changed \<Longrightarrow> \<exists>pre post. PreEntry ch = Some pre \<and> PostEntry ch = Some post \<and>
        LastModifiedLedgerSeq pre = LastModifiedLedgerSeq post \<and> (Data pre)\<lparr>xa_Signers := []\<rparr> = (Data post)\<lparr>xa_Signers := []\<rparr>"
    using api unfolding accounts_api_ok_def by blast
  have isc: "accounts.change_is (\<lambda>e. Inr (account_row e)) account_key t ch c" using fit by (simp add: accounts.fit_change_def)
  show ?thesis
  proof (cases changed)
    case True
    with accounts.process_change_inv [OF inv isc new, of "flt AccountsT" "faulty flt"] ch(1) show ?thesis
      by (auto simp: Accounts_ProcessChange_def intro: faultyI)
  next
    case False
    then obtain pre post where pp: "PreEntry ch = Some pre" "PostEntry ch = Some post"
      and same: "LastModifiedLedgerSeq pre = LastModifiedLedgerSeq post" "(Data pre)\<lparr>xa_Signers := []\<rparr> = (Data post)\<lparr>xa_Signers := []\<rparr>"
      using ch(2) by blast
    have "account_row pre = account_row post" using same_account_row same kept pp unfolding sponsor_kept_def by blast
    then have "accounts.row t (fst c) = snd c"
      using pp isc fit by (auto simp: accounts.fit_change_def accounts.change_is_def)
    with accounts.batch_inv_same [OF inv new] have "accounts.batch_inv t (done @ [c]) b u" by (cases c) simp
    with False ch(1) show ?thesis by (simp add: Accounts_ProcessChange_def)
  qed
qed

subsection \<open>Data entries\<close>

definition data_id :: "xDataEntry ledger_entry \<Rightarrow> string \<times> string" where
  "data_id e = (xd_AccountId (Data e), xd_DataName (Data e))"

definition valid_data :: "'p entry_api \<Rightarrow> xDataEntry ledger_entry \<Rightarrow> bool" where
  "valid_data api e \<longleftrightarrow> data_api_ok api \<and> length (fst (data_id e)) = 56 \<and> length (snd (data_id e)) \<le> 64"

definition data_col :: "'p entry_api \<Rightarrow> string \<times> string \<Rightarrow> string" where
  "data_col api = (\<lambda>(a, n). projr (DataLedgerKey api a n))"

lemma valid_data_key: "valid_data api e \<Longrightarrow> DataLedgerKey api (fst (data_id e)) (snd (data_id e)) = Inr (data_col api (data_id e))"
  unfolding valid_data_def data_api_ok_def data_col_def case_prod_beta by (metis sum.sel(2))

interpretation data_t: entry_table d_LedgerKey data_id "data_col api" "data_row api" "data_key api" "valid_data api"
  for api :: "'p entry_api"
proof
  fix e assume v: "valid_data api e"
  show "\<exists>r. data_row api e = Inr r \<and> d_LedgerKey r = data_col api (data_id e)" "data_key api e = Inr (data_col api (data_id e))"
    using valid_data_key [OF v] by (simp_all add: data_row_def data_key_def accountDataKeyToString_def data_id_def Let_def)
  fix e' assume v': "valid_data api e'" and "data_col api (data_id e) = data_col api (data_id e')"
  then have "DataLedgerKey api (fst (data_id e')) (snd (data_id e')) = Inr (data_col api (data_id e))"
    using valid_data_key [OF v'] by simp
  then show "data_id e = data_id e'" using v valid_data_key [OF v] unfolding valid_data_def data_api_ok_def by (metis prod_eq_iff)
qed

subsection \<open>Trust lines\<close>

definition line_id :: "xTrustLineEntry ledger_entry \<Rightarrow> string \<times> xTrustLineAsset" where
  "line_id e = (xt_AccountId (Data e), xt_Asset (Data e))"

definition valid_line :: "'p entry_api \<Rightarrow> xTrustLineEntry ledger_entry \<Rightarrow> bool" where
  "valid_line api e \<longleftrightarrow> lines_api_ok api \<and> length (fst (line_id e)) = 56 \<and> valid_line_asset (snd (line_id e))"

definition line_col :: "'p entry_api \<Rightarrow> string \<times> xTrustLineAsset \<Rightarrow> string" where
  "line_col api = (\<lambda>(a, x). projr (TrustLineLedgerKey api a x))"

definition line_key :: "'p entry_api \<Rightarrow> xTrustLineEntry ledger_entry \<Rightarrow> stats_error + string" where
  "line_key api e = trustLineLedgerKey api (Data e)"

lemma valid_line_key: "valid_line api e \<Longrightarrow> TrustLineLedgerKey api (fst (line_id e)) (snd (line_id e)) = Inr (line_col api (line_id e))"
  unfolding valid_line_def lines_api_ok_def line_col_def case_prod_beta by (metis sum.sel(2))

lemma valid_line_row:
  assumes "valid_line api e"
  shows "\<exists>r. xdrToTrustline api e = Inr r \<and> t_LedgerKey r = line_col api (line_id e)"
proof -
  have key: "trustLineLedgerKey api (Data e) = Inr (line_col api (line_id e))"
    using valid_line_key [OF assms] by (simp add: trustLineLedgerKey_def line_id_def)
  show ?thesis
  proof (cases "xt_Asset (Data e)")
    case (TLAsset x)
    then have "ExtractAsset api x = Inr (extracted x)"
      using assms by (auto simp: valid_line_def lines_api_ok_def line_id_def valid_line_asset_def)
    with TLAsset key show ?thesis by (simp add: xdrToTrustline_def Let_def)
  qed (use key in \<open>simp add: xdrToTrustline_def Let_def\<close>)
qed

interpretation lines: entry_table t_LedgerKey line_id "line_col api" "xdrToTrustline api" "line_key api" "valid_line api"
  for api :: "'p entry_api"
proof
  fix e assume v: "valid_line api e"
  show "\<exists>r. xdrToTrustline api e = Inr r \<and> t_LedgerKey r = line_col api (line_id e)" by (rule valid_line_row [OF v])
  show "line_key api e = Inr (line_col api (line_id e))"
    using valid_line_key [OF v] by (simp add: line_key_def trustLineLedgerKey_def line_id_def)
  fix e' assume v': "valid_line api e'" and "line_col api (line_id e) = line_col api (line_id e')"
  then have "TrustLineLedgerKey api (fst (line_id e')) (snd (line_id e')) = Inr (line_col api (line_id e))"
    using valid_line_key [OF v'] by simp
  then show "line_id e = line_id e'" using v valid_line_key [OF v] unfolding valid_line_def lines_api_ok_def by (metis prod_eq_iff)
qed

subsection \<open>A ledger\<close>

lemma accounts_run:
  assumes "accounts_api_ok api" "table_holds a_AccountID (\<lambda>e. Inr (account_row e)) t L" "ledger_ok account_id valid_account L"
    "changes_fit account_id valid_account L chs" "\<forall>ch\<in>set chs. sponsor_kept ch"
  shows "unless_fault (faulty flt) (run_processor (Accounts_ProcessChange api flt) (Accounts_Commit flt) empty_batch chs t)
    (\<lambda>t'. table_holds a_AccountID (\<lambda>e. Inr (account_row e)) t' (ledger_after account_id chs L))"
proof -
  have c: "Accounts_Commit flt = commit_batch (flt AccountsT) a_AccountID" by (simp add: Accounts_Commit_def fun_eq_iff)
  show ?thesis unfolding c
    by (rule accounts.run_table [OF assms(2-5)]) (auto intro: faultyI accounts_step [OF assms(1)])
qed

lemma data_run:
  assumes "table_holds d_LedgerKey (data_row api) t L" "ledger_ok data_id (valid_data api) L" "changes_fit data_id (valid_data api) L chs"
  shows "unless_fault (faulty flt) (run_processor (AccountData_ProcessChange api flt) (AccountData_Commit flt) empty_batch chs t)
    (\<lambda>t'. table_holds d_LedgerKey (data_row api) t' (ledger_after data_id chs L))"
proof -
  have c: "AccountData_Commit flt = commit_batch (flt DataT) d_LedgerKey" by (simp add: AccountData_Commit_def fun_eq_iff)
  show ?thesis unfolding c
    by (rule data_t.run_table [OF assms, where K = "\<lambda>_. True"]) (auto simp: AccountData_ProcessChange_def data_t.fit_change_def
      intro: faultyI data_t.process_change_inv)
qed

lemma lines_run:
  assumes "table_holds t_LedgerKey (xdrToTrustline api) t L" "ledger_ok line_id (valid_line api) L" "changes_fit line_id (valid_line api) L chs"
  shows "unless_fault (faulty flt) (run_processor (TrustLines_ProcessChange api flt) (TrustLines_Commit flt) empty_batch chs t)
    (\<lambda>t'. table_holds t_LedgerKey (xdrToTrustline api) t' (ledger_after line_id chs L))"
proof -
  have c: "TrustLines_Commit flt = commit_batch (flt TrustLinesT) t_LedgerKey" by (simp add: TrustLines_Commit_def fun_eq_iff)
  have k: "(\<lambda>e. trustLineLedgerKey api (Data e)) = line_key api" by (simp add: line_key_def fun_eq_iff)
  show ?thesis unfolding c
    by (rule lines.run_table [OF assms, where K = "\<lambda>_. True"]) (auto simp: TrustLines_ProcessChange_def k lines.fit_change_def
      intro: faultyI lines.process_change_inv)
qed

end
