(* ===== verification/Signer_Table.thy ===== *)
theory Signer_Table
  imports Entry_Tables
begin

text \<open>
  The table of signers: a row for every signer of every account, and one for its master key when that has a weight. The
  processor deletes the rows that go away at once and inserts the new ones in batches.
\<close>

subsection \<open>The rows of an account\<close>

definition signers_of :: "xAccountEntry \<Rightarrow> AccountSigner list" where
  "signers_of a =
     (if xa_MasterKeyWeight a = 0 then []
      else [\<lparr>s_Account = xa_AccountId a, s_Signer = xa_AccountId a, s_Weight = ucast (xa_MasterKeyWeight a), s_Sponsor = None\<rparr>]) @
     map (\<lambda>s. \<lparr>s_Account = xa_AccountId a, s_Signer = sg_Key s, s_Weight = sg_Weight s, s_Sponsor = sg_Sponsor s\<rparr>) (xa_Signers a)"

text \<open>
  \<open>SignerSummary\<close> has the master key, if it has a weight, and the signers; \<open>SponsorPerSigner\<close> has the signers that have a sponsor.
  Both are maps: a key occurs once.
\<close>

definition signers_api_ok :: "'p entry_api \<Rightarrow> bool" where
  "signers_api_ok api \<longleftrightarrow> (\<forall>a. distinct (xa_AccountId a # map sg_Key (xa_Signers a)) \<longrightarrow>
     distinct (map fst (SignerSummary api a)) \<and> distinct (map fst (SponsorPerSigner api a)) \<and>
     set (SignerSummary api a) = (if xa_MasterKeyWeight a = 0 then {} else {(xa_AccountId a, ucast (xa_MasterKeyWeight a))}) \<union>
       (\<lambda>s. (sg_Key s, sg_Weight s)) ` set (xa_Signers a) \<and>
     set (SponsorPerSigner api a) = {(sg_Key s, d) |s d. s \<in> set (xa_Signers a) \<and> sg_Sponsor s = Some d})"

text \<open>The rows in the order in which the maps are visited.\<close>

definition api_rows :: "'p entry_api \<Rightarrow> xAccountEntry \<Rightarrow> AccountSigner list" where
  "api_rows api a = addAccountSigners (xa_AccountId a) (SignerSummary api a) (SponsorPerSigner api a)"

lemma signer_sponsor:
  assumes api: "signers_api_ok api" and v: "valid_account e" and s: "s \<in> set (xa_Signers (Data e))"
  shows "map_of (SponsorPerSigner api (Data e)) (sg_Key s) = sg_Sponsor s"
proof -
  have d: "distinct (xa_AccountId (Data e) # map sg_Key (xa_Signers (Data e)))" using v by (simp add: valid_account_def account_id_def)
  have m: "distinct (map fst (SponsorPerSigner api (Data e)))"
    "set (SponsorPerSigner api (Data e)) = {(sg_Key s, d) |s d. s \<in> set (xa_Signers (Data e)) \<and> sg_Sponsor s = Some d}"
    using api d unfolding signers_api_ok_def by blast+
  have inj: "s' = s" if "s' \<in> set (xa_Signers (Data e))" "sg_Key s' = sg_Key s" for s'
    using d that s by (auto simp: distinct_map dest: inj_onD)
  show ?thesis
  proof (cases "sg_Sponsor s")
    case None
    have "sg_Key s \<notin> fst ` set (SponsorPerSigner api (Data e))" unfolding m(2) using inj None by force
    with None show ?thesis by (simp add: map_of_eq_None_iff)
  next
    case (Some x)
    then have "(sg_Key s, x) \<in> set (SponsorPerSigner api (Data e))" using s unfolding m(2) by blast
    with Some m(1) show ?thesis by (simp add: map_of_eq_Some_iff)
  qed
qed

lemma api_rows_set:
  assumes api: "signers_api_ok api" and v: "valid_account e"
  shows "set (api_rows api (Data e)) = set (signers_of (Data e))" "distinct (map s_Signer (api_rows api (Data e)))"
    "\<forall>r\<in>set (api_rows api (Data e)). s_Account r = account_id e \<and> s_Sponsor r \<noteq> Some []"
proof -
  have d: "distinct (xa_AccountId (Data e) # map sg_Key (xa_Signers (Data e)))" using v by (simp add: valid_account_def account_id_def)
  have m: "distinct (map fst (SignerSummary api (Data e)))"
    "set (SignerSummary api (Data e)) = (if xa_MasterKeyWeight (Data e) = 0 then {}
        else {(xa_AccountId (Data e), ucast (xa_MasterKeyWeight (Data e)))}) \<union> (\<lambda>s. (sg_Key s, sg_Weight s)) ` set (xa_Signers (Data e))"
    using api d unfolding signers_api_ok_def by blast+
  have ne: "sg_Key s \<noteq> xa_AccountId (Data e)" if "s \<in> set (xa_Signers (Data e))" for s using d imageI [OF that, of sg_Key] by auto
  show eq: "set (api_rows api (Data e)) = set (signers_of (Data e))"
    unfolding api_rows_def addAccountSigners_def set_map m(2) image_Un
    by (auto simp: signers_of_def ne signer_sponsor [OF api v] image_iff)
  show "distinct (map s_Signer (api_rows api (Data e)))"
    using m(1) by (simp add: api_rows_def addAccountSigners_def comp_def case_prod_beta)
  have sp: "\<forall>s\<in>set (xa_Signers (Data e)). sg_Sponsor s \<noteq> Some []" using v by (simp add: valid_account_def)
  show "\<forall>r\<in>set (api_rows api (Data e)). s_Account r = account_id e \<and> s_Sponsor r \<noteq> Some []"
    unfolding eq using sp by (auto simp: signers_of_def account_id_def)
qed

subsection \<open>The difference\<close>

definition signer_same :: "(string \<times> 32 word) list \<Rightarrow> (string \<times> string) list \<Rightarrow> (string \<times> string) list \<Rightarrow> string \<times> 32 word \<Rightarrow> bool" where
  "signer_same post preS postS = (\<lambda>(k, w). map_of post k = Some w \<and> lookup_string preS k = lookup_string postS k)"

lemma delete_filter: "AList.delete k m = filter (\<lambda>x. fst x \<noteq> k) m"
  by (auto simp: AList.delete_eq case_prod_beta intro: filter_cong)

lemma signer_same_delete:
  assumes "fst x \<noteq> k"
  shows "signer_same (AList.delete k post) preS (AList.delete k postS) x = signer_same post preS postS x"
  using assms by (cases x) (simp add: signer_same_def lookup_string_def delete_conv' restrict_map_def)

lemma signers_diff_eq:
  assumes "distinct (map fst pre)"
  shows "signers_diff pre preS rem post postS =
    (rem @ map fst (filter (\<lambda>x. \<not> signer_same post preS postS x) pre),
     filter (\<lambda>y. fst y \<notin> fst ` set (filter (signer_same post preS postS) pre)) post,
     filter (\<lambda>y. fst y \<notin> fst ` set (filter (signer_same post preS postS) pre)) postS)"
  using assms
proof (induction pre arbitrary: rem post postS)
  case (Cons x pre)
  obtain k w where x: "x = (k, w)" by (cases x)
  have cong: "filter (\<lambda>y. P (signer_same (AList.delete k post) preS (AList.delete k postS) y)) pre =
      filter (\<lambda>y. P (signer_same post preS postS y)) pre" for P post postS
  proof (rule filter_cong)
    fix y assume "y \<in> set pre"
    then have "fst y \<noteq> k" using Cons.prems x by auto
    then show "P (signer_same (AList.delete k post) preS (AList.delete k postS) y) = P (signer_same post preS postS y)"
      by (simp add: signer_same_delete)
  qed simp
  show ?case
  proof (cases "signer_same post preS postS x")
    case True
    then have "signers_diff (x # pre) preS rem post postS = signers_diff pre preS rem (AList.delete k post) (AList.delete k postS)"
      by (simp add: x signer_same_def)
    also have "\<dots> = (rem @ map fst (filter (\<lambda>x. \<not> signer_same post preS postS x) pre),
       filter (\<lambda>y. fst y \<notin> fst ` set (filter (signer_same post preS postS) pre)) (AList.delete k post),
       filter (\<lambda>y. fst y \<notin> fst ` set (filter (signer_same post preS postS) pre)) (AList.delete k postS))"
      using Cons cong [where P = Not] cong [where P = "\<lambda>b. b"] by (simp del: set_filter)
    finally show ?thesis using True by (simp add: x delete_filter conj_commute)
  next
    case False
    then have "signers_diff (x # pre) preS rem post postS = signers_diff pre preS (rem @ [k]) post postS"
      by (auto simp: x signer_same_def)
    with Cons False show ?thesis by (simp add: x)
  qed
qed simp


text \<open>In terms of rows: what is removed are the rows that are not there after the change, what is added are those that were not before.\<close>

definition signer_row :: "string \<Rightarrow> (string \<times> string) list \<Rightarrow> string \<times> 32 word \<Rightarrow> AccountSigner" where
  "signer_row a S = (\<lambda>(k, w). \<lparr>s_Account = a, s_Signer = k, s_Weight = w, s_Sponsor = (if k \<noteq> a then map_of S k else None)\<rparr>)"

definition sponsors_ok :: "string \<Rightarrow> (string \<times> string) list \<Rightarrow> bool" where
  "sponsors_ok a S \<longleftrightarrow> [] \<notin> snd ` set S \<and> a \<notin> fst ` set S"

lemma addAccountSigners_rows: "addAccountSigners a m S = map (signer_row a S) m"
  by (simp add: addAccountSigners_def signer_row_def)

lemma lookup_sponsor:
  assumes "sponsors_ok a S" "sponsors_ok a S'"
  shows "lookup_string S k = lookup_string S' k \<longleftrightarrow> (if k \<noteq> a then map_of S k else None) = (if k \<noteq> a then map_of S' k else None)"
proof -
  have "map_of S k \<noteq> Some []" "map_of S' k \<noteq> Some []" "map_of S a = None" "map_of S' a = None"
    using assms by (force simp: sponsors_ok_def map_of_eq_None_iff dest: map_of_SomeD)+
  then show ?thesis by (auto simp: lookup_string_def split: option.splits)
qed

lemma signer_same_iff:
  assumes "distinct (map fst post)" "sponsors_ok a preS" "sponsors_ok a postS"
  shows "signer_same post preS postS x \<longleftrightarrow> signer_row a preS x \<in> set (addAccountSigners a post postS)"
proof -
  obtain k w where x: "x = (k, w)" by (cases x)
  have "map_of post k = Some w \<longleftrightarrow> (k, w) \<in> set post" using assms(1) by simp
  moreover have "signer_row a preS x \<in> set (addAccountSigners a post postS) \<longleftrightarrow>
      (k, w) \<in> set post \<and> (if k \<noteq> a then map_of preS k else None) = (if k \<noteq> a then map_of postS k else None)"
    unfolding addAccountSigners_rows set_map image_iff x signer_row_def prod.case by force
  ultimately show ?thesis by (simp add: x signer_same_def lookup_sponsor [OF assms(2,3)])
qed

lemma added_rows:
  assumes "distinct (map fst post)" "sponsors_ok a preS" "sponsors_ok a postS"
    and K: "K = fst ` set (filter (signer_same post preS postS) pre)"
  shows "addAccountSigners a (filter (\<lambda>y. fst y \<notin> K) post) (filter (\<lambda>y. fst y \<notin> K) postS) =
    filter (\<lambda>r. r \<notin> set (addAccountSigners a pre preS)) (addAccountSigners a post postS)"
proof -
  have row: "signer_row a (filter (\<lambda>y. fst y \<notin> K) postS) y = signer_row a postS y" if "fst y \<notin> K" for y
  proof -
    have "map_of (filter (\<lambda>z. fst z \<notin> K) m) k = map_of m k" if "k \<notin> K" for m :: "(string \<times> string) list" and k
      using that by (induction m) auto
    with that show ?thesis by (cases y) (simp add: signer_row_def)
  qed
  have "fst y \<in> K \<longleftrightarrow> signer_row a postS y \<in> set (addAccountSigners a pre preS)" if y: "y \<in> set post" for y
  proof
    assume "fst y \<in> K"
    then obtain x where x: "x \<in> set pre" "signer_same post preS postS x" "fst y = fst x" by (auto simp: K)
    then obtain z where z: "z \<in> set post" "signer_row a preS x = signer_row a postS z"
      using signer_same_iff [OF assms(1-3)] by (auto simp: addAccountSigners_rows)
    then have "fst z = fst y" using x(3) by (simp add: signer_row_def case_prod_beta)
    then have "z = y" using z(1) y assms(1) by (simp add: distinct_map inj_on_def)
    with x(1) z(2) show "signer_row a postS y \<in> set (addAccountSigners a pre preS)" by (simp add: addAccountSigners_rows image_iff) metis
  next
    assume "signer_row a postS y \<in> set (addAccountSigners a pre preS)"
    then obtain x where x: "x \<in> set pre" "signer_row a postS y = signer_row a preS x" by (auto simp: addAccountSigners_rows)
    then have "signer_row a preS x \<in> set (addAccountSigners a post postS)" using y by (simp add: addAccountSigners_rows image_iff) metis
    then have "signer_same post preS postS x" using signer_same_iff [OF assms(1-3)] by simp
    then have "fst x \<in> K" using x(1) by (simp add: K)
    moreover have "fst y = fst x" using x(2) by (simp add: signer_row_def case_prod_beta)
    ultimately show "fst y \<in> K" by simp
  qed
  then have "filter (\<lambda>r. r \<notin> set (addAccountSigners a pre preS)) (addAccountSigners a post postS) =
      map (signer_row a postS) (filter (\<lambda>y. fst y \<notin> K) post)"
    by (simp add: addAccountSigners_rows filter_map comp_def cong: filter_cong)
  then show ?thesis using row by (simp add: addAccountSigners_rows)
qed

lemma removed_rows:
  assumes "distinct (map fst post)" "sponsors_ok a preS" "sponsors_ok a postS"
  shows "map fst (filter (\<lambda>x. \<not> signer_same post preS postS x) pre) =
    map s_Signer (filter (\<lambda>r. r \<notin> set (addAccountSigners a post postS)) (addAccountSigners a pre preS))"
proof -
  have "s_Signer \<circ> signer_row a preS = fst" by (simp add: fun_eq_iff signer_row_def case_prod_beta)
  then show ?thesis
    by (simp add: addAccountSigners_rows [of a pre] filter_map signer_same_iff [OF assms] comp_def)
qed

text \<open>The rows before and after a change.\<close>

definition rows_of :: "'p entry_api \<Rightarrow> xAccountEntry ledger_entry option \<Rightarrow> AccountSigner list" where
  "rows_of api x = (case x of None \<Rightarrow> [] | Some e \<Rightarrow> api_rows api (Data e))"

lemma accountSignersDiff_rows:
  assumes api: "signers_api_ok api"
    and v: "\<And>e. PreEntry ch = Some e \<or> PostEntry ch = Some e \<Longrightarrow> valid_account e \<and> account_id e = a"
  obtains S where "accountSignersDiff api ch =
      (map s_Signer (filter (\<lambda>r. r \<notin> set (rows_of api (PostEntry ch))) (rows_of api (PreEntry ch))),
       fst S, snd S)" "addAccountSigners a (fst S) (snd S) =
       filter (\<lambda>r. r \<notin> set (rows_of api (PreEntry ch))) (rows_of api (PostEntry ch))"
proof -
  define m where "m = (\<lambda>x :: xAccountEntry ledger_entry option. case x of None \<Rightarrow> [] | Some e \<Rightarrow> SignerSummary api (Data e))"
  define s where "s = (\<lambda>x :: xAccountEntry ledger_entry option. case x of None \<Rightarrow> [] | Some e \<Rightarrow> SponsorPerSigner api (Data e))"
  have ok: "distinct (map fst (m x)) \<and> sponsors_ok a (s x) \<and> addAccountSigners a (m x) (s x) = rows_of api x"
    if "x = PreEntry ch \<or> x = PostEntry ch" for x
  proof (cases x)
    case (Some e)
    with that v have e: "valid_account e" "account_id e = a" by auto
    have d: "distinct (xa_AccountId (Data e) # map sg_Key (xa_Signers (Data e)))" and sp: "\<forall>s\<in>set (xa_Signers (Data e)). sg_Sponsor s \<noteq> Some []"
      using e(1) by (simp_all add: valid_account_def account_id_def)
    have S: "distinct (map fst (SignerSummary api (Data e)))"
      "set (SponsorPerSigner api (Data e)) = {(sg_Key s, d) |s d. s \<in> set (xa_Signers (Data e)) \<and> sg_Sponsor s = Some d}"
      using api d unfolding signers_api_ok_def by blast+
    have "sponsors_ok a (SponsorPerSigner api (Data e))"
      using d sp e(2) unfolding sponsors_ok_def S(2) by (auto simp: account_id_def)
    with S(1) Some e(2) show ?thesis by (simp add: rows_of_def api_rows_def account_id_def m_def s_def)
  qed (simp add: sponsors_ok_def rows_of_def addAccountSigners_def m_def s_def)
  define K where "K = fst ` set (filter (signer_same (m (PostEntry ch)) (s (PreEntry ch)) (s (PostEntry ch))) (m (PreEntry ch)))"
  have "accountSignersDiff api ch = signers_diff (m (PreEntry ch)) (s (PreEntry ch)) [] (m (PostEntry ch)) (s (PostEntry ch))"
    by (simp add: accountSignersDiff_def Let_def m_def s_def)
  then have diff: "accountSignersDiff api ch =
      (map s_Signer (filter (\<lambda>r. r \<notin> set (rows_of api (PostEntry ch))) (rows_of api (PreEntry ch))),
       filter (\<lambda>y. fst y \<notin> K) (m (PostEntry ch)), filter (\<lambda>y. fst y \<notin> K) (s (PostEntry ch)))"
    using signers_diff_eq [of "m (PreEntry ch)"] removed_rows [of "m (PostEntry ch)" a "s (PreEntry ch)" "s (PostEntry ch)" "m (PreEntry ch)"] ok
    by (simp add: K_def)
  have "addAccountSigners a (filter (\<lambda>y. fst y \<notin> K) (m (PostEntry ch))) (filter (\<lambda>y. fst y \<notin> K) (s (PostEntry ch))) =
      filter (\<lambda>r. r \<notin> set (rows_of api (PreEntry ch))) (rows_of api (PostEntry ch))"
    using added_rows [of "m (PostEntry ch)" a "s (PreEntry ch)" "s (PostEntry ch)" K "m (PreEntry ch)"] ok by (simp add: K_def)
  with diff show ?thesis
    by (intro that [of "(filter (\<lambda>y. fst y \<notin> K) (m (PostEntry ch)), filter (\<lambda>y. fst y \<notin> K) (s (PostEntry ch)))"]) simp_all
qed


subsection \<open>The table\<close>

text \<open>The table and the rows still to be inserted hold the signers of all accounts.\<close>

definition signers_hold :: "AccountSigner list \<Rightarrow> (string \<Rightarrow> xAccountEntry ledger_entry option) \<Rightarrow> bool" where
  "signers_hold t L \<longleftrightarrow> distinct (map signer_key t) \<and>
     (\<forall>r. r \<in> set t \<longleftrightarrow> (\<exists>e. L (s_Account r) = Some e \<and> r \<in> set (signers_of (Data e))))"

definition signers_inv :: "(string \<Rightarrow> xAccountEntry ledger_entry option) \<Rightarrow> (string \<times> xAccountEntry ledger_entry option) list \<Rightarrow>
    AccountSigner list \<Rightarrow> AccountSigner list \<Rightarrow> bool" where
  "signers_inv L done p t \<longleftrightarrow> signers_hold (t @ p) (changed_by done L) \<and> s_Account ` set p \<subseteq> fst ` set done"

text \<open>The rows of one account are replaced, the others stay.\<close>

lemma signers_hold_replace:
  assumes h: "signers_hold (t @ p) M" and pend: "a \<notin> s_Account ` set p" and M: "M a = pre"
    and pre: "\<And>e. pre = Some e \<Longrightarrow> set A = set (signers_of (Data e))" "pre = None \<Longrightarrow> A = []"
    and post: "\<And>e. post = Some e \<Longrightarrow> set B = set (signers_of (Data e))" "post = None \<Longrightarrow> B = []"
    and acc: "\<forall>r\<in>set A \<union> set B. s_Account r = a" and dis: "distinct (map s_Signer A)" "distinct (map s_Signer B)"
    and t': "t' = filter (\<lambda>r. signer_key r \<notin> set (map (Pair a) (map s_Signer (filter (\<lambda>r. r \<notin> set B) A)))) t"
  shows "signers_hold (t' @ p @ filter (\<lambda>r. r \<notin> set A) B) (M(a := post))"
    "length (filter (\<lambda>r. signer_key r \<in> set (map (Pair a) (map s_Signer (filter (\<lambda>r. r \<notin> set B) A)))) t) =
      length (filter (\<lambda>r. r \<notin> set B) A)"
proof -
  have tp: "r \<in> set t \<union> set p \<longleftrightarrow> (\<exists>e. M (s_Account r) = Some e \<and> r \<in> set (signers_of (Data e)))" for r
    using h by (simp add: signers_hold_def)
  have A: "r \<in> set A \<longleftrightarrow> r \<in> set t \<and> s_Account r = a" for r
  proof -
    have "r \<in> set A \<longleftrightarrow> s_Account r = a \<and> (\<exists>e. M (s_Account r) = Some e \<and> r \<in> set (signers_of (Data e)))"
    proof (cases pre)
      case None
      then show ?thesis using M pre(2) by auto
    next
      case (Some e)
      have Ma: "M a = Some e" using M Some by simp
      have "s_Account r = a" if "r \<in> set A" using acc that by blast
      then show ?thesis unfolding pre(1) [OF Some] using Ma by (cases "s_Account r = a") auto
    qed
    moreover have "s_Account r \<noteq> a" if "r \<in> set p" using pend imageI [OF that, of s_Account] by metis
    ultimately show ?thesis unfolding tp [symmetric] by blast
  qed
  have inj: "r = r'" if "r \<in> set C" "r' \<in> set C" "s_Signer r = s_Signer r'" "distinct (map s_Signer C)" for r r' C
    using that by (simp add: distinct_map inj_on_def)
  have key: "signer_key r \<in> set (map (Pair a) (map s_Signer (filter (\<lambda>r. r \<notin> set B) A))) \<longleftrightarrow> s_Account r = a \<and> r \<notin> set B"
    if r: "r \<in> set t" for r
  proof
    assume "signer_key r \<in> set (map (Pair a) (map s_Signer (filter (\<lambda>r. r \<notin> set B) A)))"
    then obtain r' where r': "r' \<in> set A" "r' \<notin> set B" "s_Account r = a" "s_Signer r = s_Signer r'" by (auto simp: signer_key_def)
    with r have "r \<in> set A" by (simp add: A)
    with inj [OF this r'(1,4) dis(1)] r' show "s_Account r = a \<and> r \<notin> set B" by simp
  next
    assume "s_Account r = a \<and> r \<notin> set B"
    with r show "signer_key r \<in> set (map (Pair a) (map s_Signer (filter (\<lambda>r. r \<notin> set B) A)))" by (simp add: signer_key_def A)
  qed
  have t'_eq: "t' = filter (\<lambda>r. \<not> (s_Account r = a \<and> r \<notin> set B)) t" unfolding t' by (rule filter_cong) (simp_all only: key)
  have postB: "s_Account r = a \<and> r \<in> set B \<longleftrightarrow> (\<exists>e. post = Some e \<and> s_Account r = a \<and> r \<in> set (signers_of (Data e)))" for r
  proof (cases post)
    case (Some e)
    with post(1) [OF Some] show ?thesis by auto
  qed (use post(2) in simp)
  have rows: "r \<in> set (t' @ p @ filter (\<lambda>r. r \<notin> set A) B) \<longleftrightarrow>
      (\<exists>e. (M(a := post)) (s_Account r) = Some e \<and> r \<in> set (signers_of (Data e)))" for r
  proof (cases "s_Account r = a")
    case True
    have "r \<notin> set p" using True pend imageI [of r "set p" s_Account] by metis
    moreover have "r \<in> set B \<longleftrightarrow> (\<exists>e. (M(a := post)) (s_Account r) = Some e \<and> r \<in> set (signers_of (Data e)))"
      using postB [of r] True by simp
    ultimately show ?thesis using True A [of r] unfolding t'_eq by auto
  next
    case False
    have "r \<notin> set B" using acc False by blast
    then show ?thesis using tp [of r] False unfolding t'_eq by auto
  qed
  have d: "distinct (map signer_key (t @ p))" using h by (simp add: signers_hold_def)
  have "distinct (map signer_key (t' @ p))" using d by (auto simp: t'_eq distinct_map_filter)
  moreover have "distinct (map signer_key (filter (\<lambda>r. r \<notin> set A) B))"
  proof -
    have "distinct (map s_Signer (filter (\<lambda>r. r \<notin> set A) B))" using dis(2) by (rule distinct_map_filter)
    then show ?thesis by (auto simp: distinct_map inj_on_def signer_key_def)
  qed
  moreover have "signer_key r \<noteq> signer_key r'" if r: "r \<in> set (t' @ p)" "r' \<in> set (filter (\<lambda>r. r \<notin> set A) B)" for r r'
  proof
    assume k: "signer_key r = signer_key r'"
    then have a: "s_Account r = a" "s_Signer r = s_Signer r'" using r(2) acc by (auto simp: signer_key_def)
    then have "r \<in> set t" "r \<in> set B" using r(1) pend by (auto simp: t'_eq)
    then have "r = r'" "r \<in> set A" using inj [OF _ _ a(2) dis(2)] r(2) a(1) by (simp_all add: A)
    with r(2) show False by simp
  qed
  ultimately have "distinct (map signer_key ((t' @ p) @ filter (\<lambda>r. r \<notin> set A) B))"
    unfolding map_append [of _ "t' @ p"] distinct_append by (auto simp: image_iff)
  with rows show "signers_hold (t' @ p @ filter (\<lambda>r. r \<notin> set A) B) (M(a := post))" by (simp add: signers_hold_def)
  have "filter (\<lambda>r. signer_key r \<in> set (map (Pair a) (map s_Signer (filter (\<lambda>r. r \<notin> set B) A)))) t =
      filter (\<lambda>r. s_Account r = a \<and> r \<notin> set B) t" by (rule filter_cong) (simp_all only: key)
  moreover have "distinct t" "distinct A" using d dis(1) by (auto simp: distinct_map)
  then have "length (filter (\<lambda>r. s_Account r = a \<and> r \<notin> set B) t) = card {r \<in> set A. r \<notin> set B}"
    "length (filter (\<lambda>r. r \<notin> set B) A) = card {r \<in> set A. r \<notin> set B}"
    by (simp_all add: distinct_card [symmetric] A conj_assoc)
  ultimately show "length (filter (\<lambda>r. signer_key r \<in> set (map (Pair a) (map s_Signer (filter (\<lambda>r. r \<notin> set B) A)))) t) =
      length (filter (\<lambda>r. r \<notin> set B) A)" by simp
qed


text \<open>One change, the commit, and all changes of a ledger.\<close>

lemma signers_commit:
  assumes "signers_hold (t @ p) M"
  shows "unless_fault (faulty flt) (Signers_Commit flt p t) (\<lambda>t'. signers_hold t' M)"
  unfolding Signers_Commit_def
  by (rule unless_fault_stmt [where x = "t @ p"])
    (use assms in \<open>auto simp: batchInsert_def signers_hold_def intro: faultyI\<close>)

lemma rows_of_ok:
  assumes "signers_api_ok api" "\<And>e. x = Some e \<Longrightarrow> valid_account e \<and> account_id e = a"
  shows "\<And>e. x = Some e \<Longrightarrow> set (rows_of api x) = set (signers_of (Data e))" "x = None \<Longrightarrow> rows_of api x = []"
    "\<forall>r\<in>set (rows_of api x). s_Account r = a" "distinct (map s_Signer (rows_of api x))"
proof -
  show "x = None \<Longrightarrow> rows_of api x = []" by (simp add: rows_of_def)
  show "set (rows_of api x) = set (signers_of (Data e))" if "x = Some e" for e
    using that assms(2) [OF that] api_rows_set(1) [OF assms(1), of e] by (simp add: rows_of_def)
  show "\<forall>r\<in>set (rows_of api x). s_Account r = a" "distinct (map s_Signer (rows_of api x))"
  proof (atomize (full), cases x)
    case (Some e)
    with assms(2) [OF Some] api_rows_set(2,3) [OF assms(1), of e]
    show "(\<forall>r\<in>set (rows_of api x). s_Account r = a) \<and> distinct (map s_Signer (rows_of api x))" by (simp add: rows_of_def)
  qed (simp add: rows_of_def)
qed

lemma signers_step:
  assumes api: "signers_api_ok api" and inv: "signers_inv L done p t" and new: "a \<notin> fst ` set done" and pre: "L a = PreEntry ch"
    and v: "\<And>e. PreEntry ch = Some e \<or> PostEntry ch = Some e \<Longrightarrow> valid_account e \<and> account_id e = a"
  shows "unless_fault (faulty flt) (Signers_ProcessChange api flt ch p t) (\<lambda>(p', t'). signers_inv L (done @ [(a, PostEntry ch)]) p' t')"
proof -
  let ?A = "rows_of api (PreEntry ch)" and ?B = "rows_of api (PostEntry ch)"
  let ?removed = "map s_Signer (filter (\<lambda>r. r \<notin> set ?B) ?A)"
  let ?M = "changed_by (done @ [(a, PostEntry ch)]) L"
  obtain S where diff: "accountSignersDiff api ch = (?removed, fst S, snd S)"
    and add: "addAccountSigners a (fst S) (snd S) = filter (\<lambda>r. r \<notin> set ?A) ?B"
    using accountSignersDiff_rows [OF api v] by metis
  have pa: "a \<notin> s_Account ` set p" using inv new by (auto simp: signers_inv_def)
  have h: "signers_hold (t @ p) (changed_by done L)" using inv by (simp add: signers_inv_def)
  have "\<forall>r\<in>set ?A \<union> set ?B. s_Account r = a" using rows_of_ok(3) [OF api, of _ a] v by blast
  note acc = this
  have dis: "distinct (map s_Signer ?A)" "distinct (map s_Signer ?B)" using rows_of_ok(4) [OF api, of _ a] v by blast+
  let ?t = "filter (\<lambda>r. signer_key r \<notin> set (map (Pair a) ?removed)) t" and ?p = "p @ filter (\<lambda>r. r \<notin> set ?A) ?B"
  have rows: "\<And>e. PreEntry ch = Some e \<Longrightarrow> set ?A = set (signers_of (Data e))" "PreEntry ch = None \<Longrightarrow> ?A = []"
    "\<And>e. PostEntry ch = Some e \<Longrightarrow> set ?B = set (signers_of (Data e))" "PostEntry ch = None \<Longrightarrow> ?B = []"
    using rows_of_ok(1,2) [OF api, of _ a] v by blast+
  have Ma: "changed_by done L a = PreEntry ch" using changed_by_other [OF new] pre by simp
  note rep = signers_hold_replace [OF h pa Ma rows acc dis refl]
  have hold: "signers_hold (?t @ ?p) ?M" using rep(1) by (simp add: changed_by_snoc [OF new])
  have accs: "s_Account ` set ?p \<subseteq> fst ` set (done @ [(a, PostEntry ch)])" using inv acc by (auto simp: signers_inv_def)
  have rem: "unless_fault (faulty flt) (if ?removed = [] then Inr t else (case PreEntry ch of None \<Rightarrow> Inl Panic
      | Some pre \<Rightarrow> removeAccountSigners flt (xa_AccountId (Data pre)) ?removed t)) (\<lambda>t1. t1 = ?t)"
  proof (cases "?removed = []")
    case True
    then have "?t = t" by (simp only: list.map list.set) simp
    with True show ?thesis by simp
  next
    case False
    then obtain e where e: "PreEntry ch = Some e" using rows(2) by (cases "PreEntry ch") auto
    then have "xa_AccountId (Data e) = a" using v by (simp add: account_id_def)
    moreover have "unless_fault (faulty flt) (removeAccountSigners flt a ?removed t) (\<lambda>t1. t1 = ?t)"
      unfolding removeAccountSigners_def
      by (rule unless_fault_bind [OF unless_fault_stmt [where P = "\<lambda>x. x = removeRows signer_key (map (Pair a) ?removed) t"]])
        (use rep(2) in \<open>auto simp: removeRows_def intro: faultyI\<close>)
    ultimately show ?thesis using False e by simp
  qed
  have ins: "(if fst S = [] then Inr p else (case PostEntry ch of None \<Rightarrow> Inl Panic
      | Some post \<Rightarrow> Inr (p @ addAccountSigners (xa_AccountId (Data post)) (fst S) (snd S)))) = Inr ?p"
  proof (cases "fst S = []")
    case True
    then have "filter (\<lambda>r. r \<notin> set ?A) ?B = []" using add by (simp add: addAccountSigners_def)
    with True show ?thesis by simp
  next
    case False
    then have "?B \<noteq> []" using add by (auto simp: addAccountSigners_def)
    then obtain e where e: "PostEntry ch = Some e" using rows(4) by (cases "PostEntry ch") auto
    then have "xa_AccountId (Data e) = a" using v by (simp add: account_id_def)
    with False e add show ?thesis by simp
  qed
  have fin: "unless_fault (faulty flt) (if maxBatchSize < length ?p
      then (case Signers_Commit flt ?p ?t of Inl e \<Rightarrow> Inl e | Inr t2 \<Rightarrow> Inr ([], t2)) else Inr (?p, ?t))
      (\<lambda>(p', t'). signers_inv L (done @ [(a, PostEntry ch)]) p' t')"
  proof (cases "maxBatchSize < length ?p")
    case True
    have "unless_fault (faulty flt) (case Signers_Commit flt ?p ?t of Inl e \<Rightarrow> Inl e | Inr t2 \<Rightarrow> Inr ([], t2))
        (\<lambda>(p', t'). signers_inv L (done @ [(a, PostEntry ch)]) p' t')"
      by (rule unless_fault_bind [OF signers_commit [OF hold]]) (simp add: signers_inv_def)
    with True show ?thesis by simp
  next
    case False
    with hold accs show ?thesis by (simp add: signers_inv_def)
  qed
  show ?thesis
  proof (cases "?removed = [] \<and> fst S = []")
    case True
    then have "?t = t" "?p = p" using ins by (simp_all only: list.map list.set) simp_all
    with hold accs True show ?thesis by (simp add: Signers_ProcessChange_def diff signers_inv_def)
  next
    case False
    have "unless_fault (faulty flt) (case (if ?removed = [] then Inr t else (case PreEntry ch of None \<Rightarrow> Inl Panic
        | Some pre \<Rightarrow> removeAccountSigners flt (xa_AccountId (Data pre)) ?removed t)) of Inl e \<Rightarrow> Inl e
        | Inr t1 \<Rightarrow> (if maxBatchSize < length ?p then (case Signers_Commit flt ?p t1 of Inl e \<Rightarrow> Inl e | Inr t2 \<Rightarrow> Inr ([], t2))
          else Inr (?p, t1))) (\<lambda>(p', t'). signers_inv L (done @ [(a, PostEntry ch)]) p' t')"
      by (rule unless_fault_bind [OF rem], erule ssubst, rule fin)
    with False show ?thesis unfolding Signers_ProcessChange_def diff prod.case ins sum.case by (simp only: if_False)
  qed
qed

lemma signers_run:
  assumes api: "signers_api_ok api" and h: "signers_hold t L" and ok: "ledger_ok account_id valid_account L"
    and fit: "changes_fit account_id valid_account L chs"
  shows "unless_fault (faulty flt) (run_processor (Signers_ProcessChange api flt) (Signers_Commit flt) [] chs t)
    (\<lambda>t'. signers_hold t' (ledger_after account_id chs L))"
proof -
  let ?R = "\<lambda>(ch :: xAccountEntry entry_change) c. L (fst c) = PreEntry ch \<and> snd c = PostEntry ch \<and>
    (\<forall>e. PreEntry ch = Some e \<or> PostEntry ch = Some e \<longrightarrow> valid_account e \<and> account_id e = fst c)"
  have one: "?R ch (account_id (the (entry_of ch)), PostEntry ch)" if ch: "ch \<in> set chs" for ch
  proof -
    from change_valid [OF fit ok ch] obtain e where e: "entry_of ch = Some e" "PreEntry ch = L (account_id e)" "valid_account e"
      "\<And>e'. PostEntry ch = Some e' \<Longrightarrow> e' = e" by blast
    have "valid_account p \<and> account_id p = account_id e" if "PreEntry ch = Some p" for p
      using that e(2) ok by (metis ledger_ok_def)
    with e show ?thesis by auto
  qed
  have all: "list_all2 ?R chs (id_changes account_id chs)" unfolding id_changes_def list_all2_map2 by (rule list.rel_refl_strong) (rule one)
  have start: "signers_inv L [] [] t" using h by (simp add: signers_inv_def changed_by_def [abs_def])
  have "unless_fault (faulty flt) (process_all (Signers_ProcessChange api flt) chs [] t)
      (\<lambda>(p', t'). signers_inv L ([] @ id_changes account_id chs) p' t')"
  proof (rule process_all_inv [where R = ?R])
    fix ch :: "xAccountEntry entry_change" and c d p t assume "signers_inv L d p t" "?R ch c" "fst c \<notin> fst ` set d"
    with signers_step [OF api, of L d p t "fst c" ch] show "unless_fault (faulty flt) (Signers_ProcessChange api flt ch p t)
        (\<lambda>(p', t'). signers_inv L (d @ [c]) p' t')" by (cases c) simp
  qed (use all start ledger_after_changed(2) [OF fit] in simp_all)
  then show ?thesis unfolding run_processor_def
  proof (rule unless_fault_bind)
    fix x :: "AccountSigner list \<times> AccountSigner list"
    assume x: "case x of (p', t') \<Rightarrow> signers_inv L ([] @ id_changes account_id chs) p' t'"
    then have "signers_hold (snd x @ fst x) (ledger_after account_id chs L)"
      by (simp add: signers_inv_def case_prod_beta ledger_after_changed(1) [OF fit])
    then show "unless_fault (faulty flt) (case x of (p', t') \<Rightarrow> Signers_Commit flt p' t')
        (\<lambda>t'. signers_hold t' (ledger_after account_id chs L))"
      using signers_commit by (simp add: case_prod_beta)
  qed
qed

end
