(* ===== verification/Balance_Tables.thy ===== *)
theory Balance_Tables
  imports Entry_Tables
begin

text \<open>
  The tables of claimable balances and of their claimants. The second has a row for every claimant of every balance;
  it is written by the same commits.
\<close>

subsection \<open>Balances\<close>

definition balance_id :: "'p xClaimableBalanceEntry ledger_entry \<Rightarrow> 8 word list" where
  "balance_id e = xb_BalanceId (Data e)"

text \<open>\<open>MarshalHex\<close> is the hexadecimal encoding of the XDR of an identifier.\<close>

definition balances_api_ok :: "'p entry_api \<Rightarrow> bool" where
  "balances_api_ok api \<longleftrightarrow> (\<forall>i. \<exists>h. MarshalHex api i = Inr h \<and> SafeUnmarshalHex api h = Inr i)"

definition valid_balance :: "'p entry_api \<Rightarrow> 'p xClaimableBalanceEntry ledger_entry \<Rightarrow> bool" where
  "valid_balance api e \<longleftrightarrow> balances_api_ok api \<and> distinct (map xc_Destination (xb_Claimants (Data e)))"

definition balance_col :: "'p entry_api \<Rightarrow> 8 word list \<Rightarrow> string" where
  "balance_col api i = projr (MarshalHex api i)"

lemma balance_col: "balances_api_ok api \<Longrightarrow> MarshalHex api i = Inr (balance_col api i) \<and> SafeUnmarshalHex api (balance_col api i) = Inr i"
  unfolding balances_api_ok_def balance_col_def by (metis sum.sel(2))

interpretation balances: entry_table b_BalanceID balance_id "balance_col api" "balance_row api" "balance_key api" "valid_balance api"
  for api :: "'p entry_api"
proof
  fix e assume "valid_balance api e"
  then have api: "balances_api_ok api" by (simp add: valid_balance_def)
  show "\<exists>r. balance_row api e = Inr r \<and> b_BalanceID r = balance_col api (balance_id e)"
    "balance_key api e = Inr (balance_col api (balance_id e))"
    using balance_col [OF api] by (simp_all add: balance_row_def balance_key_def balance_id_def Let_def)
  fix e' assume "valid_balance api e'" "balance_col api (balance_id e) = balance_col api (balance_id e')"
  then show "balance_id e = balance_id e'" using balance_col [OF api] by (metis sum.inject(2))
qed

subsection \<open>Claimants\<close>

interpretation claims: keyed claimant_key .

definition destinations :: "'p ClaimableBalance \<Rightarrow> string list" where
  "destinations cb = map xc_Destination (b_Claimants cb)"

text \<open>The claimants of what a table of balances says.\<close>

definition claim_map :: "(string \<Rightarrow> 'p ClaimableBalance option) \<Rightarrow> string \<times> string \<Rightarrow> ClaimableBalanceClaimant option" where
  "claim_map m = (\<lambda>(i, d). case m i of None \<Rightarrow> None | Some cb \<Rightarrow> claims.row (claimant_rows cb) (i, d))"

lemma claimant_keys: "map claimant_key (claimant_rows cb) = map (Pair (b_BalanceID cb)) (destinations cb)"
  by (simp add: claimant_rows_def claimant_key_def destinations_def)

lemma claim_row_None: "claims.row (claimant_rows cb) (i, d) = None \<longleftrightarrow> \<not> (i = b_BalanceID cb \<and> d \<in> set (destinations cb))"
proof -
  have "claimant_key ` set (claimant_rows cb) = Pair (b_BalanceID cb) ` set (destinations cb)"
    using arg_cong [OF claimant_keys, of set] by simp
  then show ?thesis by (auto simp: claims.row_None_iff)
qed

lemma rows_concat:
  assumes "distinct (map b_BalanceID rs)"
  shows "claims.row (concat (map claimant_rows rs)) x = claim_map (balances.row rs) x"
  using assms
proof (induction rs)
  case (Cons r rs)
  obtain i d where x: "x = (i, d)" by (cases x)
  show ?case
  proof (cases "i = b_BalanceID r")
    case True
    then have "balances.row rs i = None" using Cons.prems by (simp add: balances.row_None_iff)
    with Cons True show ?thesis by (simp add: x claims.row_append balances.row_Cons claim_map_def split: option.split)
  next
    case False
    then have "claims.row (claimant_rows r) (i, d) = None" by (simp add: claim_row_None)
    with Cons False show ?thesis by (simp add: x claims.row_append balances.row_Cons claim_map_def)
  qed
qed (simp add: claim_map_def case_prod_beta)

lemma rows_concat_eq: "distinct (map b_BalanceID rs) \<Longrightarrow> claims.row (concat (map claimant_rows rs)) = claim_map (balances.row rs)"
  by (rule ext) (rule rows_concat)

lemma distinct_concat_claims:
  assumes "distinct (map b_BalanceID rs)" "\<forall>r\<in>set rs. distinct (destinations r)"
  shows "distinct (map claimant_key (concat (map claimant_rows rs)))"
  using assms
proof (induction rs)
  case (Cons r rs)
  have "c_BalanceID c = b_BalanceID r'" if "c \<in> set (claimant_rows r')" for c r' using that by (auto simp: claimant_rows_def)
  note id = this
  have "claimant_key c \<noteq> claimant_key c'" if c: "c \<in> set (claimant_rows r)" "c' \<in> set (concat (map claimant_rows rs))" for c c'
  proof -
    obtain r' where r': "r' \<in> set rs" "c' \<in> set (claimant_rows r')" using c(2) by auto
    then have "b_BalanceID r' \<noteq> b_BalanceID r" using Cons.prems(1) imageI [OF r'(1), of b_BalanceID] by (metis distinct.simps(2) image_set list.simps(9))
    with id [OF c(1)] id [OF r'(2)] show ?thesis by (simp add: claimant_key_def)
  qed
  moreover have "distinct (map claimant_key (claimant_rows r))" using Cons.prems(2) by (simp add: claimant_keys distinct_map inj_on_def)
  moreover have "claimant_key ` set (claimant_rows r) \<inter> claimant_key ` set (concat (map claimant_rows rs)) = {}"
    using calculation(1) unfolding disjoint_iff by (metis imageE)
  ultimately show ?case using Cons by simp
qed simp

lemma claim_map_overlay:
  assumes "\<And>i new old. m i = Some new \<Longrightarrow> n i = Some old \<Longrightarrow> destinations new = destinations old \<and> b_BalanceID new = i"
  shows "overlay (claim_map m) (claim_map n) = claim_map (overlay m n)"
proof
  fix x :: "string \<times> string"
  obtain i d where x: "x = (i, d)" by (cases x)
  show "overlay (claim_map m) (claim_map n) x = claim_map (overlay m n) x"
  proof (cases "m i")
    case (Some new)
    have "claims.row (claimant_rows old) (i, d) = None" if "claims.row (claimant_rows new) (i, d) = None" "n i = Some old" for old
      using that assms [OF Some that(2)] by (simp add: claim_row_None)
    with Some show ?thesis by (auto simp: x overlay_def claim_map_def split: option.split)
  qed (simp add: x overlay_def claim_map_def)
qed

subsection \<open>The commit\<close>

text \<open>The table of claimants is that of the balances.\<close>

definition claims_hold :: "'p ClaimableBalance list \<Rightarrow> ClaimableBalanceClaimant list \<Rightarrow> bool" where
  "claims_hold t u \<longleftrightarrow> distinct (map claimant_key u) \<and> claims.row u = claim_map (balances.row t)"

definition balances_inv :: "'p ClaimableBalance list \<Rightarrow> (string \<times> 'p ClaimableBalance option) list \<Rightarrow> 'p ClaimableBalancesProcessor \<Rightarrow>
    'p ClaimableBalance list \<times> ClaimableBalanceClaimant list \<Rightarrow> bool" where
  "balances_inv t0 done p = (\<lambda>(t, u). balances.batch_inv t0 done (cb_batch p) t \<and> claims_hold t u \<and>
     cb_claimants p = concat (map claimant_rows (b_insert (cb_batch p))) \<and>
     (\<forall>r\<in>set (b_insert (cb_batch p)) \<union> set (b_update (cb_batch p)). distinct (destinations r)) \<and>
     (\<forall>r\<in>set (b_update (cb_batch p)). \<exists>old. balances.row t (b_BalanceID r) = Some old \<and> destinations old = destinations r))"

lemma claims_insert:
  assumes c: "claims_hold t u" and d: "distinct (map b_BalanceID rows)" "\<forall>r\<in>set rows. distinct (destinations r)"
    and new: "\<forall>r\<in>set rows. balances.row t (b_BalanceID r) = None" and "flt \<noteq> None \<Longrightarrow> F"
  shows "unless_fault F (stmt flt (batchInsert claimant_key (concat (map claimant_rows rows)) u))
    (\<lambda>u'. distinct (map claimant_key u') \<and> claims.row u' = claim_map (overlay (balances.row rows) (balances.row t)))"
proof (rule unless_fault_mono [OF claims.insert_rows])
  show "distinct (map claimant_key u)" using c by (simp add: claims_hold_def)
  show "distinct (map claimant_key (concat (map claimant_rows rows)))" by (rule distinct_concat_claims [OF d])
  have "\<exists>r\<in>set rows. c_BalanceID x = b_BalanceID r" if "x \<in> set (concat (map claimant_rows rows))" for x
    using that by (auto simp: claimant_rows_def)
  then show "\<forall>r\<in>set (concat (map claimant_rows rows)). claims.row u (claimant_key r) = None"
    using c new by (fastforce simp: claims_hold_def claim_map_def claimant_key_def)
  fix u' assume u': "distinct (map claimant_key u') \<and> claims.row u' = overlay (claims.row (concat (map claimant_rows rows))) (claims.row u)"
  have "overlay (claim_map (balances.row rows)) (claim_map (balances.row t)) = claim_map (overlay (balances.row rows) (balances.row t))"
  proof (rule claim_map_overlay)
    fix i r old assume r: "balances.row rows i = Some r" and old: "balances.row t i = Some old"
    from balances.row_SomeD [OF r] new old show "destinations r = destinations old \<and> b_BalanceID r = i" by auto
  qed
  then show "distinct (map claimant_key u') \<and> claims.row u' = claim_map (overlay (balances.row rows) (balances.row t))"
    using u' c rows_concat_eq [OF d(1)] by (simp add: claims_hold_def)
qed (use assms in simp)


lemma claims_upsert:
  assumes u: "distinct (map claimant_key u)" "claims.row u = claim_map (balances.row t)"
    and d: "distinct (map b_BalanceID rows)" "\<forall>r\<in>set rows. distinct (destinations r)"
    and old: "\<forall>r\<in>set rows. \<exists>old. balances.row t (b_BalanceID r) = Some old \<and> destinations old = destinations r"
    and flt: "flt \<noteq> None \<Longrightarrow> F"
  shows "unless_fault F (stmt flt (upsertRows claimant_key (concat (map claimant_rows rows)) u))
    (\<lambda>u'. distinct (map claimant_key u') \<and> claims.row u' = claim_map (overlay (balances.row rows) (balances.row t)))"
proof (cases "rows = []")
  case True
  then show ?thesis using u flt by (auto intro!: unless_fault_stmt [where x = u] simp: upsertRows_def)
next
  case False
  let ?c = "concat (map claimant_rows rows)"
  have dc: "distinct (map claimant_key ?c)" by (rule distinct_concat_claims [OF d])
  have row: "claims.row (fold (upsertRow claimant_key) ?c u) = claim_map (overlay (balances.row rows) (balances.row t))"
  proof -
    have "overlay (claim_map (balances.row rows)) (claim_map (balances.row t)) = claim_map (overlay (balances.row rows) (balances.row t))"
    proof (rule claim_map_overlay)
      fix i r o' assume r: "balances.row rows i = Some r" and o': "balances.row t i = Some o'"
      from balances.row_SomeD [OF r] old o' show "destinations r = destinations o' \<and> b_BalanceID r = i" by auto
    qed
    with claims.row_upserts [OF dc] rows_concat_eq [OF d(1)] u(2) show ?thesis by simp
  qed
  show ?thesis
    by (rule unless_fault_stmt [where x = "fold (upsertRow claimant_key) ?c u"])
      (use dc row claims.distinct_upserts [OF u(1)] flt in \<open>auto simp: upsertRows_def\<close>)
qed


text \<open>The update of both tables, and the removal from both.\<close>

lemma upsert_balances:
  assumes t: "distinct (map b_BalanceID t)" and u: "distinct (map claimant_key u)" "claims.row u = claim_map (balances.row t)"
    and d: "distinct (map b_BalanceID rows)" "\<forall>r\<in>set rows. distinct (destinations r)"
    and old: "\<forall>r\<in>set rows. \<exists>old. balances.row t (b_BalanceID r) = Some old \<and> destinations old = destinations r"
  shows "unless_fault (faulty flt) (if rows = [] then Inr (t, u) else UpsertClaimableBalances flt rows (t, u))
    (\<lambda>(t', u'). distinct (map b_BalanceID t') \<and> balances.row t' = overlay (balances.row rows) (balances.row t) \<and>
      distinct (map claimant_key u') \<and> claims.row u' = claim_map (balances.row t'))"
proof (cases "rows = []")
  case True
  with t u show ?thesis by simp
next
  case False
  have "unless_fault (faulty flt) (UpsertClaimableBalances flt rows (t, u))
    (\<lambda>(t', u'). distinct (map b_BalanceID t') \<and> balances.row t' = overlay (balances.row rows) (balances.row t) \<and>
      distinct (map claimant_key u') \<and> claims.row u' = claim_map (balances.row t'))"
    unfolding UpsertClaimableBalances_def prod.case
  proof (rule unless_fault_bind)
    show "unless_fault (faulty flt) (stmt (flt BalancesT UpsertStmt) (upsertRows b_BalanceID rows t))
        (\<lambda>t'. distinct (map b_BalanceID t') \<and> balances.row t' = overlay (balances.row rows) (balances.row t))"
      using balances.upsert_rows [OF t d(1), of "flt BalancesT UpsertStmt" "faulty flt"] False by (simp add: faultyI)
    fix t' :: "'a ClaimableBalance list"
    assume t': "distinct (map b_BalanceID t') \<and> balances.row t' = overlay (balances.row rows) (balances.row t)"
    show "unless_fault (faulty flt) (case stmt (flt ClaimantsT UpsertStmt) (upsertRows claimant_key (concat (map claimant_rows rows)) u) of
        Inl e \<Rightarrow> Inl e | Inr u' \<Rightarrow> Inr (t', u'))
      (\<lambda>(t', u'). distinct (map b_BalanceID t') \<and> balances.row t' = overlay (balances.row rows) (balances.row t) \<and>
        distinct (map claimant_key u') \<and> claims.row u' = claim_map (balances.row t'))"
      by (rule unless_fault_bind [OF claims_upsert [OF u d old]]) (use t' in \<open>auto intro: faultyI\<close>)
  qed
  with False show ?thesis by simp
qed

lemma claims_removed:
  assumes u: "distinct (map claimant_key u)" "claims.row u = claim_map m"
  shows "claims.row (filter (\<lambda>r. c_BalanceID r \<notin> ks) u) = claim_map (\<lambda>k. if k \<in> ks then None else m k)"
proof
  fix x :: "string \<times> string"
  obtain i d where x: "x = (i, d)" by (cases x)
  have "c_BalanceID r = i" if "claims.row u x = Some r" for r
    using claims.row_SomeD [OF that] by (simp add: x claimant_key_def)
  then show "claims.row (filter (\<lambda>r. c_BalanceID r \<notin> ks) u) x = claim_map (\<lambda>k. if k \<in> ks then None else m k) x"
    unfolding claims.row_filter [OF u(1)] using fun_cong [OF u(2), of x] by (auto simp: x claim_map_def split: option.split)
qed

lemma balances_remove:
  assumes t: "distinct (map b_BalanceID t)" and c: "claims_hold t u" and ks: "distinct ks" "\<forall>k\<in>set ks. balances.row t k \<noteq> None"
    and m: "\<And>k. (if k \<in> set ks then None else balances.row t k) = m k"
  shows "unless_fault (faulty flt) (if ks = [] then Inr (t, u)
      else (case removeExactly (flt BalancesT RemoveStmt) b_BalanceID ks t of
          Inl e \<Rightarrow> Inl e
        | Inr t3 \<Rightarrow> (case stmt (flt ClaimantsT RemoveStmt) (Inr (removeRows c_BalanceID ks u)) of
            Inl e \<Rightarrow> Inl e
          | Inr (rowsAffected, u3) \<Rightarrow> Inr (t3, u3))))
    (\<lambda>(t', u'). distinct (map b_BalanceID t') \<and> balances.row t' = m \<and> claims_hold t' u')"
proof (cases "ks = []")
  case True
  then have "balances.row t = m" using m by (simp add: fun_eq_iff)
  with True t c show ?thesis by simp
next
  case False
  have u: "distinct (map claimant_key u)" "claims.row u = claim_map (balances.row t)" using c by (simp_all add: claims_hold_def)
  have m': "(\<lambda>k. if k \<in> set ks then None else balances.row t k) = m" using m by (rule ext)
  have "unless_fault (faulty flt) (case removeExactly (flt BalancesT RemoveStmt) b_BalanceID ks t of
          Inl e \<Rightarrow> Inl e
        | Inr t3 \<Rightarrow> (case stmt (flt ClaimantsT RemoveStmt) (Inr (removeRows c_BalanceID ks u)) of
            Inl e \<Rightarrow> Inl e
          | Inr (rowsAffected, u3) \<Rightarrow> Inr (t3, u3)))
    (\<lambda>(t', u'). distinct (map b_BalanceID t') \<and> balances.row t' = m \<and> claims_hold t' u')"
  proof (rule unless_fault_bind [OF balances.removeExactly_rows [OF t ks]], simp add: faultyI)
    fix t3 :: "'a ClaimableBalance list"
    assume t3: "distinct (map b_BalanceID t3) \<and> (\<forall>k. balances.row t3 k = (if k \<in> set ks then None else balances.row t k))"
    then have row3: "balances.row t3 = m" using m by (simp add: fun_eq_iff)
    show "unless_fault (faulty flt) (case stmt (flt ClaimantsT RemoveStmt) (Inr (removeRows c_BalanceID ks u)) of
            Inl e \<Rightarrow> Inl e
          | Inr (rowsAffected, u3) \<Rightarrow> Inr (t3, u3))
      (\<lambda>(t', u'). distinct (map b_BalanceID t') \<and> balances.row t' = m \<and> claims_hold t' u')"
      by (rule unless_fault_bind [OF unless_fault_stmt [where P = "\<lambda>x. x = removeRows c_BalanceID ks u"]])
        (use t3 row3 claims_removed [OF u, of "set ks", unfolded m'] u(1) in
          \<open>auto simp: removeRows_def claims_hold_def distinct_map_filter intro: faultyI\<close>)
  qed
  with False show ?thesis by simp
qed

lemma balances_commit:
  assumes inv: "balances_inv t0 done p (t, u)"
  shows "unless_fault (faulty flt) (Balances_Commit flt p (t, u))
    (\<lambda>(t', u'). distinct (map b_BalanceID t') \<and> balances.row t' = changed_by done (balances.row t0) \<and> claims_hold t' u')"
proof -
  let ?b = "cb_batch p"
  have bi: "balances.batch_inv t0 done ?b t" and c: "claims_hold t u" and cl: "cb_claimants p = concat (map claimant_rows (b_insert ?b))"
    and good: "\<forall>r\<in>set (b_insert ?b). distinct (destinations r)" "\<forall>r\<in>set (b_update ?b). distinct (destinations r)"
    and old: "\<forall>r\<in>set (b_update ?b). \<exists>old. balances.row t (b_BalanceID r) = Some old \<and> destinations old = destinations r"
    using inv by (auto simp: balances_inv_def)
  note d = balances.batch_inv_parts [OF bi]
  show ?thesis unfolding Balances_Commit_def prod.case Let_def cl
  proof (rule unless_fault_bind [OF claims_insert [OF c d(2) good(1) d(5)]], simp add: faultyI,
      rule unless_fault_bind [OF balances.insert_rows [OF d(1,2,5)]], simp add: faultyI)
    fix u1 and t1 :: "'a ClaimableBalance list"
    assume u1: "distinct (map claimant_key u1) \<and> claims.row u1 = claim_map (overlay (balances.row (b_insert ?b)) (balances.row t))"
      and t1: "distinct (map b_BalanceID t1) \<and> balances.row t1 = overlay (balances.row (b_insert ?b)) (balances.row t)"
    have old1: "\<forall>r\<in>set (b_update ?b). \<exists>old. balances.row t1 (b_BalanceID r) = Some old \<and> destinations old = destinations r"
    proof
      fix r assume r: "r \<in> set (b_update ?b)"
      have "b_BalanceID r \<notin> b_BalanceID ` set (b_insert ?b)" using bi imageI [OF r, of b_BalanceID]
        unfolding balances.batch_inv_def balances.batch_keys_def map_append distinct_append set_append set_map by blast
      then have "balances.row (b_insert ?b) (b_BalanceID r) = None" by (simp add: balances.row_None_iff)
      with old r t1 show "\<exists>old. balances.row t1 (b_BalanceID r) = Some old \<and> destinations old = destinations r"
        by (simp add: overlay_def)
    qed
    have u1': "distinct (map claimant_key u1)" "claims.row u1 = claim_map (balances.row t1)" and t1': "distinct (map b_BalanceID t1)"
      using u1 t1 by simp_all
    show "unless_fault (faulty flt) (case if b_update ?b = [] then Inr (t1, u1) else UpsertClaimableBalances flt (b_update ?b) (t1, u1) of
          Inl e \<Rightarrow> Inl e
        | Inr (t2, u2) \<Rightarrow> if b_remove ?b = [] then Inr (t2, u2)
          else (case removeExactly (flt BalancesT RemoveStmt) b_BalanceID (b_remove ?b) t2 of
              Inl e \<Rightarrow> Inl e
            | Inr t3 \<Rightarrow> (case stmt (flt ClaimantsT RemoveStmt) (Inr (removeRows c_BalanceID (b_remove ?b) u2)) of
                Inl e \<Rightarrow> Inl e
              | Inr (rowsAffected, u3) \<Rightarrow> Inr (t3, u3))))
      (\<lambda>(t', u'). distinct (map b_BalanceID t') \<and> balances.row t' = changed_by done (balances.row t0) \<and> claims_hold t' u')"
    proof (rule unless_fault_bind [OF upsert_balances [OF t1' u1' d(3) good(2) old1]])
      fix x :: "'a ClaimableBalance list \<times> ClaimableBalanceClaimant list"
      assume x: "case x of (t', u') \<Rightarrow> distinct (map b_BalanceID t') \<and> balances.row t' = overlay (balances.row (b_update ?b)) (balances.row t1) \<and>
        distinct (map claimant_key u') \<and> claims.row u' = claim_map (balances.row t')"
      obtain t2 u2 where tu: "x = (t2, u2)" by (cases x)
      have row2: "balances.row t2 = overlay (balances.row (b_update ?b)) (overlay (balances.row (b_insert ?b)) (balances.row t))"
        using x t1 tu by simp
      note fin = balances.batch_inv_written [OF bi row2]
      show "unless_fault (faulty flt) (case x of (t2, u2) \<Rightarrow> if b_remove ?b = [] then Inr (t2, u2)
          else (case removeExactly (flt BalancesT RemoveStmt) b_BalanceID (b_remove ?b) t2 of
              Inl e \<Rightarrow> Inl e
            | Inr t3 \<Rightarrow> (case stmt (flt ClaimantsT RemoveStmt) (Inr (removeRows c_BalanceID (b_remove ?b) u2)) of
                Inl e \<Rightarrow> Inl e
              | Inr (rowsAffected, u3) \<Rightarrow> Inr (t3, u3))))
        (\<lambda>(t', u'). distinct (map b_BalanceID t') \<and> balances.row t' = changed_by done (balances.row t0) \<and> claims_hold t' u')"
        unfolding tu prod.case
        by (rule balances_remove) (use x tu fin d(4) in \<open>auto simp: claims_hold_def fun_eq_iff\<close>)
    qed
  qed
qed


subsection \<open>A ledger\<close>

text \<open>The claimants of a balance never change.\<close>

definition claimants_kept :: "'p xClaimableBalanceEntry entry_change \<Rightarrow> bool" where
  "claimants_kept ch \<longleftrightarrow> (\<forall>pre post. PreEntry ch = Some pre \<and> PostEntry ch = Some post \<longrightarrow>
     xb_Claimants (Data pre) = xb_Claimants (Data post))"

definition valid_change :: "('e ledger_entry \<Rightarrow> bool) \<Rightarrow> 'e entry_change \<Rightarrow> bool" where
  "valid_change valid ch \<longleftrightarrow> (\<forall>e. PostEntry ch = Some e \<longrightarrow> valid e)"

lemma balance_row_destinations: "balance_row api e = Inr r \<Longrightarrow> destinations r = map xc_Destination (xb_Claimants (Data e))"
  by (auto simp: balance_row_def destinations_def buildClaimants_def Let_def split: sum.splits)

lemma balances_collect:
  assumes inv: "balances_inv t0 done p (t, u)" and fit: "balances.fit_change api t0 ch c" and new: "fst c \<notin> fst ` set done"
    and kept: "claimants_kept ch" "valid_change (valid_balance api) ch"
  shows "\<exists>b. add_change Panic (balance_row api) (balance_key api) ch (cb_batch p) = Inr b \<and>
    balances_inv t0 (done @ [c]) \<lparr>cb_batch = b, cb_claimants = cb_claimants p @
      (if PreEntry ch = None then claimant_rows (last (b_insert b)) else [])\<rparr> (t, u)"
proof -
  let ?b = "cb_batch p"
  have bi: "balances.batch_inv t0 done ?b t" using inv by (simp add: balances_inv_def)
  have isc: "balances.change_is (balance_row api) (balance_key api) t0 ch c"
    and pre: "\<And>e. PreEntry ch = Some e \<Longrightarrow> \<exists>r. balance_row api e = Inr r \<and> balances.row t0 (fst c) = Some r"
    using fit by (auto simp: balances.fit_change_def)
  have dest: "distinct (destinations r)" if "PostEntry ch = Some e" "balance_row api e = Inr r" for e r
    using that kept(2) balance_row_destinations [OF that(2)] by (simp add: valid_change_def valid_balance_def)
  show ?thesis
  proof (cases "PreEntry ch"; cases "PostEntry ch")
    fix e assume pp: "PreEntry ch = None" "PostEntry ch = Some e"
    then obtain r where r: "balance_row api e = Inr r" "c = (b_BalanceID r, Some r)" "balances.row t0 (b_BalanceID r) = None"
      using isc by (auto simp: balances.change_is_def)
    have "balances.batch_inv t0 (done @ [c]) (?b\<lparr>b_insert := b_insert ?b @ [r]\<rparr>) t"
      using balances.batch_inv_put [OF bi, of r] new r by simp
    with inv pp r dest [OF pp(2) r(1)] show ?thesis by (simp add: add_change_def balances_inv_def)
  next
    fix e' e assume pp: "PreEntry ch = Some e'" "PostEntry ch = Some e"
    then obtain r where r: "balance_row api e = Inr r" "c = (b_BalanceID r, Some r)" using isc by (auto simp: balances.change_is_def)
    obtain o' where o': "balance_row api e' = Inr o'" "balances.row t0 (fst c) = Some o'" using pre [OF pp(1)] by blast
    have "destinations o' = destinations r"
      using balance_row_destinations [OF o'(1)] balance_row_destinations [OF r(1)] kept(1) pp by (simp add: claimants_kept_def)
    then have "\<exists>old. balances.row t (b_BalanceID r) = Some old \<and> destinations old = destinations r"
      using balances.batch_inv_other [OF bi new] o'(2) r(2) by simp
    moreover have "balances.batch_inv t0 (done @ [c]) (?b\<lparr>b_update := b_update ?b @ [r]\<rparr>) t"
      using balances.batch_inv_put [OF bi, of r] new r by simp
    ultimately show ?thesis using inv pp r dest [OF pp(2) r(1)] by (auto simp: add_change_def balances_inv_def)
  next
    fix e assume pp: "PreEntry ch = Some e" "PostEntry ch = None"
    then obtain k where k: "balance_key api e = Inr k" "c = (k, None)" "balances.row t0 k \<noteq> None" using isc by (auto simp: balances.change_is_def)
    have "balances.batch_inv t0 (done @ [c]) (?b\<lparr>b_remove := b_remove ?b @ [k]\<rparr>) t"
      using balances.batch_inv_remove [OF bi] new k by simp
    with inv pp k show ?thesis by (simp add: add_change_def balances_inv_def)
  qed (use isc in \<open>simp add: balances.change_is_def\<close>)
qed

lemma balances_inv_empty:
  assumes "distinct (map b_BalanceID t)" "balances.row t = changed_by done (balances.row t0)" "claims_hold t u"
  shows "balances_inv t0 done NewClaimableBalancesProcessor (t, u)"
  using balances.batch_inv_empty [OF assms(1,2)] assms(3)
  by (simp add: balances_inv_def NewClaimableBalancesProcessor_def) (simp add: empty_batch_def)

lemma balances_step:
  assumes inv: "balances_inv t0 done p (t, u)" and fit: "balances.fit_change api t0 ch c" and new: "fst c \<notin> fst ` set done"
    and kept: "claimants_kept ch" "valid_change (valid_balance api) ch"
  shows "unless_fault (faulty flt) (Balances_ProcessChange api flt ch p (t, u)) (\<lambda>(p', tu'). balances_inv t0 (done @ [c]) p' tu')"
proof -
  obtain b where b: "add_change Panic (balance_row api) (balance_key api) ch (cb_batch p) = Inr b"
    and inv': "balances_inv t0 (done @ [c]) \<lparr>cb_batch = b, cb_claimants = cb_claimants p @
      (if PreEntry ch = None then claimant_rows (last (b_insert b)) else [])\<rparr> (t, u)"
    using balances_collect [OF assms] by blast
  define p' where "p' = \<lparr>cb_batch = b, cb_claimants = cb_claimants p @
      (if PreEntry ch = None then claimant_rows (last (b_insert b)) else [])\<rparr>"
  have "unless_fault (faulty flt) (case Balances_Commit flt p' (t, u) of Inl e \<Rightarrow> Inl e | Inr tu' \<Rightarrow> Inr (NewClaimableBalancesProcessor, tu'))
      (\<lambda>(p', tu'). balances_inv t0 (done @ [c]) p' tu')"
    by (rule unless_fault_bind [OF balances_commit [OF inv' [folded p'_def]]]) (auto intro: balances_inv_empty)
  with inv' [folded p'_def] show ?thesis unfolding Balances_ProcessChange_def b sum.case Let_def p'_def [symmetric] by simp
qed

text \<open>The rows of the claimants, as a set.\<close>

definition claimants_hold :: "ClaimableBalanceClaimant list \<Rightarrow> 'p ClaimableBalance list \<Rightarrow> bool" where
  "claimants_hold u t \<longleftrightarrow> distinct (map claimant_key u) \<and> set u = (\<Union>cb\<in>set t. set (claimant_rows cb))"

lemma claims_hold_iff:
  assumes t: "distinct (map b_BalanceID t)" "\<forall>cb\<in>set t. distinct (destinations cb)"
  shows "claims_hold t u \<longleftrightarrow> claimants_hold u t"
proof -
  let ?c = "concat (map claimant_rows t)"
  have d: "distinct (map claimant_key ?c)" by (rule distinct_concat_claims [OF t])
  have "claims.row u = claims.row ?c \<longleftrightarrow> set u = set ?c" if "distinct (map claimant_key u)"
  proof
    assume "claims.row u = claims.row ?c"
    then show "set u = set ?c" using claims.row_Some_iff [OF that] claims.row_Some_iff [OF d] by (metis set_eqI)
  next
    assume "set u = set ?c"
    then have "claims.row u k = Some r \<longleftrightarrow> claims.row ?c k = Some r" for k r
      using claims.row_Some_iff [OF that] claims.row_Some_iff [OF d] by metis
    then show "claims.row u = claims.row ?c" by (metis ext option.exhaust)
  qed
  then show ?thesis using rows_concat_eq [OF t(1)] by (auto simp: claims_hold_def claimants_hold_def)
qed

lemma balances_run:
  assumes h: "table_holds b_BalanceID (balance_row api) t L" and u: "claimants_hold u t"
    and ok: "ledger_ok balance_id (valid_balance api) L" and fit: "changes_fit balance_id (valid_balance api) L chs"
    and kept: "\<forall>ch\<in>set chs. claimants_kept ch"
  shows "unless_fault (faulty flt) (run_processor (Balances_ProcessChange api flt) (Balances_Commit flt) NewClaimableBalancesProcessor chs (t, u))
    (\<lambda>(t', u'). table_holds b_BalanceID (balance_row api) t' (ledger_after balance_id chs L) \<and> claimants_hold u' t')"
proof -
  have good: "\<forall>cb\<in>set t. distinct (destinations cb)" if hM: "table_holds b_BalanceID (balance_row api) t M" and okM: "ledger_ok balance_id (valid_balance api) M" for t M
  proof
    fix cb assume "cb \<in> set t"
    then obtain i e where e: "M i = Some e" "balance_row api e = Inr cb" using hM unfolding table_holds_def by blast
    then have "valid_balance api e" using okM by (auto simp: ledger_ok_def)
    with balance_row_destinations [OF e(2)] show "distinct (destinations cb)" by (simp add: valid_balance_def)
  qed
  let ?R = "\<lambda>ch c. balances.fit_change api t ch c \<and> claimants_kept ch \<and> valid_change (valid_balance api) ch"
  have "\<forall>ch\<in>set chs. valid_change (valid_balance api) ch"
    using fit by (auto simp: changes_fit_def valid_change_def entry_of_def)
  with kept balances.fit_changes(1) [OF h ok fit] have R: "list_all2 ?R chs (balances.row_changes api chs)"
    by (simp add: list_all2_conv_all_nth)
  have dt: "distinct (map b_BalanceID t)" using h by (simp add: table_holds_def)
  have start: "balances_inv t [] NewClaimableBalancesProcessor (t, u)"
    by (rule balances_inv_empty) (use dt u claims_hold_iff [OF dt good [OF h ok]] in \<open>auto simp: changed_by_def fun_eq_iff\<close>)
  have "unless_fault (faulty flt) (process_all (Balances_ProcessChange api flt) chs NewClaimableBalancesProcessor (t, u))
      (\<lambda>(p', tu'). balances_inv t ([] @ balances.row_changes api chs) p' tu')"
    by (rule process_all_inv [where R = ?R, OF _ R])
      (use start balances.fit_changes(2) [OF h ok fit] in \<open>auto intro: balances_step\<close>)
  then show ?thesis unfolding run_processor_def
  proof (rule unless_fault_bind)
    fix x :: "'a ClaimableBalancesProcessor \<times> 'a ClaimableBalance list \<times> ClaimableBalanceClaimant list"
    assume x: "case x of (p', tu') \<Rightarrow> balances_inv t ([] @ balances.row_changes api chs) p' tu'"
    obtain p' t' u' where ptu: "x = (p', t', u')" by (cases x)
    with x have inv: "balances_inv t (balances.row_changes api chs) p' (t', u')" by simp
    show "unless_fault (faulty flt) (case x of (p', t') \<Rightarrow> Balances_Commit flt p' t')
        (\<lambda>(t', u'). table_holds b_BalanceID (balance_row api) t' (ledger_after balance_id chs L) \<and> claimants_hold u' t')"
      unfolding ptu prod.case
    proof (rule unless_fault_mono [OF balances_commit [OF inv]])
      fix y :: "'a ClaimableBalance list \<times> ClaimableBalanceClaimant list"
      assume y: "case y of (t', u') \<Rightarrow> distinct (map b_BalanceID t') \<and>
        balances.row t' = changed_by (balances.row_changes api chs) (balances.row t) \<and> claims_hold t' u'"
      then have h': "table_holds b_BalanceID (balance_row api) (fst y) (ledger_after balance_id chs L)"
        by (intro balances.holds_after [OF h ok fit]) (auto simp: case_prod_beta)
      with y claims_hold_iff [OF _ good [OF h' ledger_ok_after [OF fit ok]], of "snd y"]
      show "case y of (t', u') \<Rightarrow> table_holds b_BalanceID (balance_row api) t' (ledger_after balance_id chs L) \<and> claimants_hold u' t'"
        by (auto simp: case_prod_beta)
    qed
  qed
qed

end
