(* ===== verification/State_Tables_Claims.thy ===== *)
theory State_Tables_Claims
  imports Signer_Table Balance_Tables "HOL-Library.List_Lexorder" "HOL-Library.Char_ord"
begin

text \<open>
  All state tables of accounts, data entries, trust lines and claimable balances follow the ledger. The assumptions about
  the XDR package hold of \<open>plain_api\<close>, which has them with plain encodings.
\<close>

subsection \<open>The ledger and the tables\<close>

record 'p ledger_state =
  ls_accounts :: "string \<Rightarrow> xAccountEntry ledger_entry option"
  ls_data :: "string \<times> string \<Rightarrow> xDataEntry ledger_entry option"
  ls_lines :: "string \<times> xTrustLineAsset \<Rightarrow> xTrustLineEntry ledger_entry option"
  ls_balances :: "8 word list \<Rightarrow> 'p xClaimableBalanceEntry ledger_entry option"

definition state_api_ok :: "'p entry_api \<Rightarrow> bool" where
  "state_api_ok api \<longleftrightarrow> accounts_api_ok api \<and> signers_api_ok api \<and> data_api_ok api \<and> lines_api_ok api \<and> balances_api_ok api"

definition state_valid :: "'p entry_api \<Rightarrow> 'p ledger_state \<Rightarrow> bool" where
  "state_valid api st \<longleftrightarrow> ledger_ok account_id valid_account (ls_accounts st) \<and> ledger_ok data_id (valid_data api) (ls_data st) \<and>
     ledger_ok line_id (valid_line api) (ls_lines st) \<and> ledger_ok balance_id (valid_balance api) (ls_balances st)"

text \<open>The changes of one ledger: every entry changes at most once, from what it was to a valid entry.\<close>

definition state_changes_ok :: "'p entry_api \<Rightarrow> 'p ledger_state \<Rightarrow> 'p state_changes \<Rightarrow> bool" where
  "state_changes_ok api st chs \<longleftrightarrow>
     changes_fit account_id valid_account (ls_accounts st) (account_changes chs) \<and> (\<forall>ch\<in>set (account_changes chs). sponsor_kept ch) \<and>
     changes_fit data_id (valid_data api) (ls_data st) (data_changes chs) \<and>
     changes_fit line_id (valid_line api) (ls_lines st) (line_changes chs) \<and>
     changes_fit balance_id (valid_balance api) (ls_balances st) (balance_changes chs) \<and> (\<forall>ch\<in>set (balance_changes chs). claimants_kept ch)"

definition state_after :: "'p state_changes \<Rightarrow> 'p ledger_state \<Rightarrow> 'p ledger_state" where
  "state_after chs st = \<lparr>ls_accounts = ledger_after account_id (account_changes chs) (ls_accounts st),
     ls_data = ledger_after data_id (data_changes chs) (ls_data st), ls_lines = ledger_after line_id (line_changes chs) (ls_lines st),
     ls_balances = ledger_after balance_id (balance_changes chs) (ls_balances st)\<rparr>"

definition db_holds :: "'p entry_api \<Rightarrow> 'p state_db \<Rightarrow> 'p ledger_state \<Rightarrow> bool" where
  "db_holds api db st \<longleftrightarrow>
     table_holds a_AccountID (\<lambda>e. Inr (account_row e)) (accounts_t db) (ls_accounts st) \<and>
     signers_hold (accounts_signers_t db) (ls_accounts st) \<and>
     table_holds d_LedgerKey (data_row api) (accounts_data_t db) (ls_data st) \<and>
     table_holds t_LedgerKey (xdrToTrustline api) (trust_lines_t db) (ls_lines st) \<and>
     table_holds b_BalanceID (balance_row api) (claimable_balances_t db) (ls_balances st) \<and>
     claimants_hold (claimants_t db) (claimable_balances_t db)"

lemma state_valid_after: "state_valid api st \<Longrightarrow> state_changes_ok api st chs \<Longrightarrow> state_valid api (state_after chs st)"
  by (simp add: state_valid_def state_changes_ok_def state_after_def ledger_ok_after)

lemma ingest_state_holds:
  assumes api: "state_api_ok api" and h: "db_holds api db st" and v: "state_valid api st" and chs: "state_changes_ok api st chs"
  shows "unless_fault (faulty flt) (ingest_state api flt chs db) (\<lambda>db'. db_holds api db' (state_after chs st))"
  unfolding ingest_state_def
proof (rule unless_fault_bind [OF data_run], rule_tac [4] unless_fault_bind [OF accounts_run],
    rule_tac [9] unless_fault_bind [OF signers_run], rule_tac [13] unless_fault_bind [OF lines_run],
    rule_tac [16] unless_fault_bind [OF balances_run])
qed (use api h v chs in \<open>auto simp: state_api_ok_def db_holds_def state_valid_def state_changes_ok_def state_after_def\<close>)

subsection \<open>A package with plain encodings\<close>

definition plain_asset :: "Asset \<Rightarrow> string + string" where
  "plain_asset a = (case a of AssetTypeNative \<Rightarrow> Inr ''0''
     | AssetTypeCreditAlphanum4 c i \<Rightarrow> if length i = 56 then Inr (''1'' @ i @ c) else Inl ''issuer''
     | AssetTypeCreditAlphanum12 c i \<Rightarrow> if length i = 56 then Inr (''2'' @ i @ c) else Inl ''issuer'')"

definition plain_bytes :: "8 word list \<Rightarrow> string" where
  "plain_bytes = map (\<lambda>b. char_of (unat b))"

definition bytes_plain :: "string \<Rightarrow> 8 word list" where
  "bytes_plain = map (\<lambda>c. word_of_nat (of_char c))"

definition plain_api :: "'p entry_api" where
  "plain_api =
    \<lparr>AccountChangedExceptSigners = (\<lambda>ch. Inr (case (PreEntry ch, PostEntry ch) of
        (Some pre, Some post) \<Rightarrow> \<not> (LastModifiedLedgerSeq pre = LastModifiedLedgerSeq post \<and>
          (Data pre)\<lparr>xa_Signers := []\<rparr> = (Data post)\<lparr>xa_Signers := []\<rparr>)
      | _ \<Rightarrow> True)),
     SignerSummary = (\<lambda>a. (if xa_MasterKeyWeight a = 0 then [] else [(xa_AccountId a, ucast (xa_MasterKeyWeight a))]) @
        map (\<lambda>s. (sg_Key s, sg_Weight s)) (xa_Signers a)),
     SponsorPerSigner = (\<lambda>a. concat (map (\<lambda>s. case sg_Sponsor s of None \<Rightarrow> [] | Some d \<Rightarrow> [(sg_Key s, d)]) (xa_Signers a))),
     DataLedgerKey = (\<lambda>a n. if length a = 56 then Inr (a @ n) else Inl ''account''),
     TrustLineLedgerKey = (\<lambda>a x. if length a \<noteq> 56 then Inl ''account''
        else (case x of TLPoolShare p \<Rightarrow> Inr (a @ ''3'' @ plain_bytes p)
          | TLAsset y \<Rightarrow> (case plain_asset y of Inl e \<Rightarrow> Inl e | Inr k \<Rightarrow> Inr (a @ k)))),
     ExtractAsset = (\<lambda>a. Inr (extracted a)),
     NewCreditAsset = (\<lambda>c i. if length i \<noteq> 56 then Inl ''issuer''
        else if 0 < length c \<and> length c \<le> 4 then Inr (AssetTypeCreditAlphanum4 c i)
        else if 4 < length c \<and> length c \<le> 12 then Inr (AssetTypeCreditAlphanum12 c i) else Inl ''code''),
     MarshalHex = (\<lambda>i. Inr (plain_bytes i)),
     SafeUnmarshalHex = (\<lambda>h. Inr (bytes_plain h)),
     SortSignersByKey = sort_key sg_Key,
     SortClaimantsByDestination = sort_key xc_Destination\<rparr>"

lemma bytes_plain [simp]: "bytes_plain (plain_bytes i) = i"
proof -
  have "of_char (char_of (unat b) :: char) = unat b" for b :: "8 word"
  proof -
    have "unat b < 2 ^ LENGTH(8)" by (rule unsigned_less)
    then show ?thesis by (simp add: of_char_of)
  qed
  then show ?thesis by (simp add: bytes_plain_def plain_bytes_def comp_def)
qed

lemma plain_asset_inj: "plain_asset x = Inr k \<Longrightarrow> plain_asset y = Inr k \<Longrightarrow> x = y"
  by (auto simp: plain_asset_def split: Asset.splits if_splits)

lemma plain_asset_hd: "plain_asset x = Inr k \<Longrightarrow> k \<noteq> ''3'' @ b"
  by (auto simp: plain_asset_def split: Asset.splits if_splits)

lemma plain_lines: "lines_api_ok plain_api"
proof -
  have inj: "a = a' \<and> x = x'" if k: "TrustLineLedgerKey plain_api a x = Inr k" "TrustLineLedgerKey plain_api a' x' = Inr k" for a a' x x' k
  proof -
    have eq: "\<exists>z. k = a @ z \<and> length a = 56 \<and> (case x of TLPoolShare p \<Rightarrow> z = ''3'' @ plain_bytes p | TLAsset y \<Rightarrow> plain_asset y = Inr z)"
      if "TrustLineLedgerKey plain_api a x = Inr k" for a x
      using that by (auto simp: plain_api_def split: if_splits xTrustLineAsset.splits sum.splits)
    obtain z z' where z: "k = a @ z" "length a = 56" "case x of TLPoolShare p \<Rightarrow> z = ''3'' @ plain_bytes p | TLAsset y \<Rightarrow> plain_asset y = Inr z"
      "k = a' @ z'" "length a' = 56" "case x' of TLPoolShare p \<Rightarrow> z' = ''3'' @ plain_bytes p | TLAsset y \<Rightarrow> plain_asset y = Inr z'"
      using eq [OF k(1)] eq [OF k(2)] by blast
    have b: "p = q" if "plain_bytes p = plain_bytes q" for p q using arg_cong [OF that, of bytes_plain] by simp
    have "a = a'" "z = z'" using z by auto
    with z(3,6) b show ?thesis
      by (auto split: xTrustLineAsset.splits dest: plain_asset_inj plain_asset_hd)
  qed
  moreover have "\<exists>k. TrustLineLedgerKey plain_api a x = Inr k" if "length a = 56" "valid_line_asset x" for a x
    using that by (auto simp: plain_api_def valid_line_asset_def valid_asset_def plain_asset_def split: xTrustLineAsset.splits Asset.splits)
  moreover have "ExtractAsset plain_api x = Inr (extracted x)" for x by (simp add: plain_api_def)
  ultimately show ?thesis unfolding lines_api_ok_def by blast
qed

lemma plain_signers: "signers_api_ok plain_api"
  unfolding signers_api_ok_def
proof (intro allI impI)
  fix a :: xAccountEntry assume d: "distinct (xa_AccountId a # map sg_Key (xa_Signers a))"
  have f: "fst ` set (case sg_Sponsor s of None \<Rightarrow> [] | Some d \<Rightarrow> [(sg_Key s, d)]) \<subseteq> {sg_Key s}" for s :: xSigner by (auto split: option.split)
  have "distinct (map fst (concat (map (\<lambda>s. case sg_Sponsor s of None \<Rightarrow> [] | Some d \<Rightarrow> [(sg_Key s, d)]) ss)))" if "distinct (map sg_Key ss)" for ss :: "xSigner list"
    using that
  proof (induction ss)
    case (Cons s ss)
    have "fst ` set (concat (map (\<lambda>s. case sg_Sponsor s of None \<Rightarrow> [] | Some d \<Rightarrow> [(sg_Key s, d)]) ss)) \<subseteq> sg_Key ` set ss"
      using f by fastforce
    with Cons show ?case by (auto split: option.split)
  qed simp
  with d show "distinct (map fst (SignerSummary plain_api a)) \<and> distinct (map fst (SponsorPerSigner plain_api a)) \<and>
     set (SignerSummary plain_api a) = (if xa_MasterKeyWeight a = 0 then {} else {(xa_AccountId a, ucast (xa_MasterKeyWeight a))}) \<union>
       (\<lambda>s. (sg_Key s, sg_Weight s)) ` set (xa_Signers a) \<and>
     set (SponsorPerSigner plain_api a) = {(sg_Key s, d) |s d. s \<in> set (xa_Signers a) \<and> sg_Sponsor s = Some d}"
    by (auto simp: plain_api_def comp_def split: option.splits)
qed

lemma plain_api_ok: "state_api_ok plain_api"
proof -
  have "accounts_api_ok plain_api" unfolding accounts_api_ok_def by (auto simp: plain_api_def split: option.split)
  moreover have "data_api_ok plain_api" unfolding data_api_ok_def by (auto simp: plain_api_def split: if_splits)
  moreover have "balances_api_ok plain_api" unfolding balances_api_ok_def by (simp add: plain_api_def)
  ultimately show ?thesis using plain_lines plain_signers by (simp add: state_api_ok_def)
qed

subsection \<open>The property\<close>

text \<open>
  C13. The tables of accounts, signers, data entries, trust lines, claimable balances and claimants are a copy of the ledger: if they hold
  a ledger, then after the processors have ingested the changes of the next one, with batches of any size on the way, they hold exactly
  the rows of its entries, one row for each. The only way to fail is a database statement that fails, and then the error is not the
  state error that would mark the state as invalid.
\<close>

theorem state_tables_track_ledger:
  assumes "state_api_ok api" "db_holds api db st" "state_valid api st" "state_changes_ok api st chs"
  shows "case ingest_state api flt chs db of
      Inr db' \<Rightarrow> db_holds api db' (state_after chs st) \<and> state_valid api (state_after chs st)
    | Inl e \<Rightarrow> faulty flt \<and> (\<forall>m. e \<noteq> StateError m)"
  using ingest_state_holds [OF assms, of flt] state_valid_after [OF assms(3,4)]
  by (auto simp: unless_fault_def split: sum.splits)

definition wit_account :: "8 word \<Rightarrow> xSigner list \<Rightarrow> u32 \<Rightarrow> xAccountEntry ledger_entry" where
  "wit_account w ss l = \<lparr>Data = \<lparr>xa_AccountId = replicate 56 (CHR ''G''), xa_Balance = 10, xa_SeqNum = 1, xa_NumSubEntries = 1, xa_InflationDest = None,
     xa_Flags = 0, xa_HomeDomain = [], xa_MasterKeyWeight = w, xa_ThresholdLow = 0, xa_ThresholdMedium = 0, xa_ThresholdHigh = 0,
     xa_Signers = ss, xa_Buying = 0, xa_Selling = 0, xa_NumSponsored = 0, xa_NumSponsoring = 0, xa_V3 = None\<rparr>,
     LastModifiedLedgerSeq = l, SponsoringID = None\<rparr>"

definition wit_data :: "xDataEntry ledger_entry" where
  "wit_data = \<lparr>Data = \<lparr>xd_AccountId = replicate 56 (CHR ''G''), xd_DataName = ''n'', xd_DataValue = [1]\<rparr>,
     LastModifiedLedgerSeq = 2, SponsoringID = None\<rparr>"

definition wit_line :: "xTrustLineEntry ledger_entry" where
  "wit_line = \<lparr>Data = \<lparr>xt_AccountId = replicate 56 (CHR ''G''), xt_Asset = TLPoolShare (replicate 32 7), xt_Balance = 5, xt_Limit = 9, xt_Flags = 1,
     xt_Buying = 0, xt_Selling = 0\<rparr>, LastModifiedLedgerSeq = 2, SponsoringID = Some ''S''\<rparr>"

definition wit_balance :: "unit xClaimableBalanceEntry ledger_entry" where
  "wit_balance = \<lparr>Data = \<lparr>xb_BalanceId = [1, 2], xb_Claimants = [\<lparr>xc_Destination = ''A'', xc_Predicate = ()\<rparr>, \<lparr>xc_Destination = ''B'', xc_Predicate = ()\<rparr>],
     xb_Asset = AssetTypeNative, xb_Amount = 3, xb_Flags = 0\<rparr>, LastModifiedLedgerSeq = 2, SponsoringID = None\<rparr>"

definition wit_changes :: "unit state_changes" where
  "wit_changes = \<lparr>account_changes = [\<lparr>PreEntry = None, PostEntry = Some (wit_account 1 [\<lparr>sg_Key = ''K'', sg_Weight = 2, sg_Sponsor = Some ''S''\<rparr>] 2)\<rparr>],
     data_changes = [\<lparr>PreEntry = None, PostEntry = Some wit_data\<rparr>], line_changes = [\<lparr>PreEntry = None, PostEntry = Some wit_line\<rparr>],
     balance_changes = [\<lparr>PreEntry = None, PostEntry = Some wit_balance\<rparr>]\<rparr>"

definition empty_state :: "'p ledger_state" where
  "empty_state = \<lparr>ls_accounts = \<lambda>_. None, ls_data = \<lambda>_. None, ls_lines = \<lambda>_. None, ls_balances = \<lambda>_. None\<rparr>"

definition empty_db :: "'p state_db" where
  "empty_db = \<lparr>accounts_t = [], accounts_signers_t = [], accounts_data_t = [], trust_lines_t = [], claimable_balances_t = [], claimants_t = []\<rparr>"

lemma empty_holds: "db_holds api empty_db empty_state" "state_valid api empty_state"
  by (simp_all add: db_holds_def empty_db_def empty_state_def table_holds_def signers_hold_def claimants_hold_def state_valid_def ledger_ok_def)

lemma wit_changes_ok: "state_changes_ok plain_api empty_state wit_changes"
  using plain_api_ok [where 'a = unit]
  by (simp add: state_changes_ok_def wit_changes_def empty_state_def changes_fit_def sponsor_kept_def claimants_kept_def entry_of_def
      wit_account_def wit_data_def wit_line_def wit_balance_def valid_account_def valid_data_def valid_line_def valid_balance_def
      account_id_def data_id_def line_id_def valid_line_asset_def state_api_ok_def numeral_nat)

theorem state_tables_track_ledger_witness:
  "\<exists>db'. ingest_state plain_api (\<lambda>_ _. None) wit_changes empty_db = Inr db' \<and> db_holds plain_api db' (state_after wit_changes empty_state)"
  using state_tables_track_ledger [OF plain_api_ok empty_holds wit_changes_ok, of "\<lambda>_ _. None"]
  by (auto simp: faulty_def split: sum.splits)

end
