(* ===== verification/State_Verifier_Props.thy ===== *)
theory State_Verifier_Props
  imports State_Verifier State_Tables_Claims "HOL-Library.Multiset"
begin

text \<open>
  What a successful verification shows: the rows of all state tables, read back one by one, are the entries of the checkpoint. The
  batches, the lookups by key and the final count together amount to that comparison.
\<close>

subsection \<open>The tables read back\<close>

definition read_account :: "'p entry_api \<Rightarrow> 'p verify_api \<Rightarrow> 'p verify_db \<Rightarrow> AccountEntry \<Rightarrow> stats_error + 'p entry" where
  "read_account api va db row =
     (case group_signers va (filter (\<lambda>r. s_Account r = a_AccountID row) (accounts_signers_t (state_t db))) no_signers of
        Inl e \<Rightarrow> Inl e
      | Inr m \<Rightarrow> account_entry api va m row)"

definition read_balance :: "'p entry_api \<Rightarrow> 'p verify_api \<Rightarrow> 'p verify_db \<Rightarrow> 'p ClaimableBalance \<Rightarrow> stats_error + 'p entry" where
  "read_balance api va db row = claimable_balance_entry api va (claimantsOf (b_BalanceID row) (claimants_t (state_t db))) row"

definition table_entries :: "'p entry_api \<Rightarrow> 'p verify_api \<Rightarrow> 'p verify_db \<Rightarrow> (stats_error + 'p entry) list" where
  "table_entries api va db =
     map (read_account api va db) (accounts_t (state_t db)) @ map (data_entry va) (accounts_data_t (state_t db)) @
     map (offer_entry va) (currentOffers (offers_t db)) @ map (trustLineToXDR api va) (trust_lines_t (state_t db)) @
     map (read_balance api va db) (claimable_balances_t (state_t db)) @ map pool_entry (currentPools (pools_t db))"

definition in_tables :: "'p entry \<Rightarrow> bool" where
  "in_tables e \<longleftrightarrow> (case Data e of ContractDataE c \<Rightarrow> False | TtlE t \<Rightarrow> False | _ \<Rightarrow> True)"

text \<open>
  What the XDR package promises: the encoding of normalized entries is injective, and normalizing changes neither the key nor the type of
  an entry.
\<close>

definition verify_api_ok :: "'p verify_api \<Rightarrow> bool" where
  "verify_api_ok va \<longleftrightarrow>
     (\<forall>e e' b. MarshalEntry va (Normalize va e) = Inr b \<and> MarshalEntry va (Normalize va e') = Inr b \<longrightarrow> Normalize va e = Normalize va e') \<and>
     (\<forall>e. EntryKey va (Normalize va e) = EntryKey va e) \<and> (\<forall>e. in_tables (Normalize va e) = in_tables e) \<and>
     (\<forall>e. Normalize va (Normalize va e) = Normalize va e)"

subsection \<open>What is written is consumed\<close>

definition normalized :: "'p verify_api \<Rightarrow> 'p StateVerifier \<Rightarrow> bool" where
  "normalized va v \<longleftrightarrow> distinct (map fst (currentEntries v)) \<and> (\<forall>e\<in>snd ` set (currentEntries v). \<exists>x. e = Normalize va x)"

definition consumes :: "'p verify_api \<Rightarrow> 'p entry list \<Rightarrow> 'p StateVerifier \<Rightarrow> 'p StateVerifier \<Rightarrow> bool" where
  "consumes va es v v' \<longleftrightarrow> same_reader v v' \<and>
     (normalized va v \<longrightarrow> normalized va v' \<and>
        mset (map snd (currentEntries v)) = mset (map (Normalize va) es) + mset (map snd (currentEntries v')))"

lemma consumes_Nil: "consumes va [] v v"
  by (simp add: consumes_def same_reader_def)

lemma consumes_trans: "consumes va es v v' \<Longrightarrow> consumes va es' v' v'' \<Longrightarrow> consumes va (es @ es') v v''"
  by (auto simp: consumes_def same_reader_def)

lemma mset_delete:
  assumes "distinct (map fst m)" "map_of m k = Some x"
  shows "mset m = add_mset (k, x) (mset (AList.delete k m))"
  using assms
proof (induction m)
  case (Cons p m)
  have "filter (\<lambda>x. fst x \<noteq> fst p) m = m"
  proof (rule filter_True, rule ballI)
    fix x assume "x \<in> set m"
    then have "fst x \<in> set (map fst m)" by simp
    with Cons.prems(1) show "fst x \<noteq> fst p" by (metis distinct.simps(2) list.simps(9))
  qed
  then have "{#x \<in># mset m. fst x \<noteq> fst p#} = mset m" by (metis mset_filter)
  with Cons show ?case by (cases p) (auto simp: delete_filter split: if_splits)
qed simp

lemma Write_consumes:
  assumes ok: "verify_api_ok va" and w: "Write va e v = Inr v'"
  shows "consumes va [e] v v'"
proof -
  obtain b k x where b: "MarshalEntry va (Normalize va e) = Inr b" and k: "map_of (currentEntries v) k = Some x" "MarshalEntry va x = Inr b"
    and v': "v' = v\<lparr>currentEntries := AList.delete k (currentEntries v)\<rparr>"
    using w by (auto simp: Write_def Let_def split: sum.splits option.splits if_splits)
  have "normalized va v' \<and> mset (map snd (currentEntries v)) = mset (map (Normalize va) [e]) + mset (map snd (currentEntries v'))"
    if n: "normalized va v"
  proof
    obtain y where "x = Normalize va y" using n map_of_SomeD [OF k(1)] unfolding normalized_def by force
    with ok b k(2) have x: "x = Normalize va e" unfolding verify_api_ok_def by metis
    have "mset (currentEntries v) = add_mset (k, x) (mset (currentEntries v'))"
      using mset_delete [OF _ k(1)] n v' by (simp add: normalized_def)
    then have "image_mset snd (mset (currentEntries v)) = image_mset snd (add_mset (k, x) (mset (currentEntries v')))" by simp
    then show "mset (map snd (currentEntries v)) = mset (map (Normalize va) [e]) + mset (map snd (currentEntries v'))" using x by simp
    show "normalized va v'"
      using n unfolding normalized_def v' by (auto simp: delete_filter distinct_map_filter)
  qed
  with Write_reader [OF w] show ?thesis by (simp add: consumes_def same_reader_def)
qed

lemma write_rows_consumes:
  assumes ok: "verify_api_ok va"
  shows "write_rows va f add rows vs = Inr vs' \<Longrightarrow> \<exists>es. map f rows = map Inr es \<and> consumes va es (fst vs) (fst vs')"
proof (induction rows arbitrary: vs)
  case Nil
  then show ?case by (simp add: consumes_Nil)
next
  case (Cons row rows)
  obtain v s where vs: "vs = (v, s)" by (cases vs)
  obtain e v1 s1 where e: "f row = Inr e" "Write va e v = Inr v1" "write_rows va f add rows (v1, s1) = Inr vs'"
    using Cons.prems by (auto simp: vs split: sum.splits)
  obtain es where es: "map f rows = map Inr es" "consumes va es v1 (fst vs')" using Cons.IH [OF e(3)] by auto
  have "consumes va (e # es) v (fst vs')" using consumes_trans [OF Write_consumes [OF ok e(2)] es(2)] by simp
  with es(1) e(1) vs show ?case by (intro exI [of _ "e # es"]) simp
qed

subsection \<open>One batch\<close>

text \<open>The signers of an account do not depend on the other accounts of the batch.\<close>

definition agree_at :: "string \<Rightarrow> signer_maps \<Rightarrow> signer_maps \<Rightarrow> bool" where
  "agree_at a m m' \<longleftrightarrow> masterWeightMap m a = masterWeightMap m' a \<and> signersMap m a = signersMap m' a \<and>
     sponsoringSignersMap m a = sponsoringSignersMap m' a"

lemma group_signers_local:
  assumes "group_signers va rows m = Inr x" "agree_at a m m'"
  shows "\<exists>x'. group_signers va (filter (\<lambda>r. s_Account r = a) rows) m' = Inr x' \<and> agree_at a x x'"
  using assms
proof (induction va rows m arbitrary: m' rule: group_signers.induct)
  case (2 va row rows m)
  show ?case
  proof (cases "s_Account row = s_Signer row")
    case True
    with 2 show ?thesis by (auto simp: agree_at_def)
  next
    case False
    with 2 show ?thesis by (auto simp: agree_at_def split: if_splits)
  qed
qed simp

lemma account_entry_agree: "agree_at (a_AccountID row) m m' \<Longrightarrow> account_entry api va m row = account_entry api va m' row"
  by (simp add: account_entry_def agree_at_def Let_def)

lemma batch_account:
  assumes "group_signers va (rowsByKeys s_Account ids t) no_signers = Inr m" "a_AccountID row \<in> set ids" "t = accounts_signers_t (state_t db)"
  shows "account_entry api va m row = read_account api va db row"
proof -
  have f: "filter (\<lambda>r. s_Account r = a_AccountID row) (rowsByKeys s_Account ids t) = filter (\<lambda>r. s_Account r = a_AccountID row) t"
    using assms(2) unfolding rowsByKeys_def filter_filter by (intro filter_cong) auto
  obtain m' where "group_signers va (filter (\<lambda>r. s_Account r = a_AccountID row) t) no_signers = Inr m'" "agree_at (a_AccountID row) m m'"
    using group_signers_local [OF assms(1), of "a_AccountID row" no_signers] unfolding f by (auto simp: agree_at_def)
  with assms(3) show ?thesis using account_entry_agree by (simp add: read_account_def)
qed

lemma batch_balance:
  "b_BalanceID row \<in> set ids \<Longrightarrow> claimantsOf (b_BalanceID row) (rowsByKeys c_BalanceID ids t) = claimantsOf (b_BalanceID row) t"
  unfolding claimantsOf_def rowsByKeys_def filter_filter by (intro arg_cong [where f = "sort_key c_Destination"] filter_cong) auto

text \<open>The entries that a batch reads from the tables.\<close>

definition reads :: "'p entry_api \<Rightarrow> 'p verify_api \<Rightarrow> 'p verify_db \<Rightarrow> 'p entry list \<Rightarrow> bool" where
  "reads api va db es \<longleftrightarrow> Inr ` set es \<subseteq> set (table_entries api va db) \<and> (\<forall>e\<in>set es. in_tables e)"

lemma reads_append: "reads api va db es \<Longrightarrow> reads api va db es' \<Longrightarrow> reads api va db (es @ es')"
  by (auto simp: reads_def)

lemma make_entry_kind: "make_entry va d l s = Inr e \<Longrightarrow> Data e = d"
  by (auto simp: make_entry_def split: sum.splits)

lemma entry_kinds:
  "account_entry api va m r1 = Inr e \<Longrightarrow> in_tables e" "data_entry va r2 = Inr e \<Longrightarrow> in_tables e"
  "offer_entry va r3 = Inr e \<Longrightarrow> in_tables e" "trustLineToXDR api va r4 = Inr e \<Longrightarrow> in_tables e"
  "claimable_balance_entry api va cs r5 = Inr e \<Longrightarrow> in_tables e" "pool_entry r6 = Inr e \<Longrightarrow> in_tables e"
proof -
  show "account_entry api va m r1 = Inr e \<Longrightarrow> in_tables e"
    unfolding account_entry_def Let_def by (auto simp: in_tables_def split: if_splits dest!: make_entry_kind)
  show "data_entry va r2 = Inr e \<Longrightarrow> in_tables e" "offer_entry va r3 = Inr e \<Longrightarrow> in_tables e"
    unfolding data_entry_def offer_entry_def by (auto simp: in_tables_def split: if_splits dest!: make_entry_kind)
  show "trustLineToXDR api va r4 = Inr e \<Longrightarrow> in_tables e"
    unfolding trustLineToXDR_def by (auto simp: in_tables_def split: if_splits sum.splits dest!: make_entry_kind)
  show "claimable_balance_entry api va cs r5 = Inr e \<Longrightarrow> in_tables e"
    unfolding claimable_balance_entry_def Let_def by (auto simp: in_tables_def split: if_splits sum.splits dest!: make_entry_kind)
  show "pool_entry r6 = Inr e \<Longrightarrow> in_tables e"
    unfolding pool_entry_def by (auto simp: in_tables_def split: sum.splits)
qed

lemma table_entry_kind:
  assumes "Inr e \<in> set (table_entries api va db)"
  shows "in_tables e"
proof -
  have k: "read_account api va db r = Inr e \<Longrightarrow> in_tables e" "read_balance api va db r' = Inr e \<Longrightarrow> in_tables e" for r r'
    by (auto simp: read_account_def read_balance_def split: sum.splits intro: entry_kinds)
  show ?thesis
    using assms unfolding table_entries_def set_append set_map by (elim UnE imageE) (metis k entry_kinds)+
qed

lemma readsI: "map f rows = map Inr es \<Longrightarrow> f ` set rows \<subseteq> set (table_entries api va db) \<Longrightarrow> reads api va db es"
proof -
  assume m: "map f rows = map Inr es" and f: "f ` set rows \<subseteq> set (table_entries api va db)"
  have "Inr ` set es = f ` set rows" using arg_cong [OF m, of set] by simp
  then have sub: "Inr ` set es \<subseteq> set (table_entries api va db)" using f by simp
  moreover have "in_tables e" if "e \<in> set es" for e
    by (rule table_entry_kind) (rule subsetD [OF sub imageI [OF that]])
  ultimately show ?thesis by (simp add: reads_def)
qed


text \<open>Each of the six loops reads entries of the tables and consumes them.\<close>

definition added :: "'p entry_api \<Rightarrow> 'p verify_api \<Rightarrow> 'p verify_db \<Rightarrow> 'p StateVerifier \<times> AssetStatSet \<Rightarrow> 'p StateVerifier \<times> AssetStatSet \<Rightarrow> bool" where
  "added api va db vs vs' \<longleftrightarrow> (\<exists>es. reads api va db es \<and> consumes va es (fst vs) (fst vs'))"

lemma added_refl: "added api va db vs vs"
  unfolding added_def by (intro exI [of _ "[]"]) (simp add: consumes_Nil reads_def)

lemma added_trans: "added api va db a b \<Longrightarrow> added api va db b c \<Longrightarrow> added api va db a c"
  unfolding added_def by (blast intro: reads_append consumes_trans)

lemma verifier_added_rows:
  assumes "verify_api_ok va" "write_rows va f add rows vs = Inr vs'" "\<And>r. r \<in> set rows \<Longrightarrow> f r \<in> set (table_entries api va db)"
  shows "added api va db vs vs'"
proof -
  obtain es where es: "map f rows = map Inr es" "consumes va es (fst vs) (fst vs')" using write_rows_consumes [OF assms(1,2)] by blast
  from readsI [OF es(1)] assms(3) have "reads api va db es" by blast
  with es(2) show ?thesis unfolding added_def by blast
qed

lemma added_accounts:
  assumes ok: "verify_api_ok va" and r: "addAccountsToStateVerifier api va flt db ids vs = Inr vs'"
  shows "added api va db vs vs'"
proof (cases "ids = []")
  case True
  with r show ?thesis by (simp add: addAccountsToStateVerifier_def added_refl)
next
  case False
  then obtain m where m: "group_signers va (rowsByKeys s_Account ids (accounts_signers_t (state_t db))) no_signers = Inr m"
    "write_rows va (account_entry api va m) no_stats (rowsByKeys a_AccountID ids (accounts_t (state_t db))) vs = Inr vs'"
    using r by (auto simp: addAccountsToStateVerifier_def run_query_def split: sum.splits option.splits)
  show ?thesis
  proof (rule verifier_added_rows [OF ok m(2)])
    fix row assume row: "row \<in> set (rowsByKeys a_AccountID ids (accounts_t (state_t db)))"
    then have "account_entry api va m row = read_account api va db row" by (intro batch_account [OF m(1)]) (auto simp: rowsByKeys_def)
    with row show "account_entry api va m row \<in> set (table_entries api va db)" by (simp add: table_entries_def rowsByKeys_def)
  qed
qed

lemma added_balances:
  assumes ok: "verify_api_ok va" and r: "addClaimableBalanceToStateVerifier api va aa flt db ids vs = Inr vs'"
  shows "added api va db vs vs'"
proof (cases "ids = []")
  case True
  with r show ?thesis by (simp add: addClaimableBalanceToStateVerifier_def added_refl)
next
  case False
  then obtain ks where m: "write_rows va (\<lambda>row. claimable_balance_entry api va (claimantsOf (b_BalanceID row) (rowsByKeys c_BalanceID ks (claimants_t (state_t db)))) row)
      (\<lambda>e. AddClaimableBalance aa (post_change LedgerEntryTypeClaimableBalance e)) (rowsByKeys b_BalanceID ks (claimable_balances_t (state_t db))) vs = Inr vs'"
    using r by (auto simp: addClaimableBalanceToStateVerifier_def run_query_def split: sum.splits option.splits)
  show ?thesis
  proof (rule verifier_added_rows [OF ok m])
    fix row assume row: "row \<in> set (rowsByKeys b_BalanceID ks (claimable_balances_t (state_t db)))"
    then have "claimantsOf (b_BalanceID row) (rowsByKeys c_BalanceID ks (claimants_t (state_t db))) = claimantsOf (b_BalanceID row) (claimants_t (state_t db))"
      by (intro batch_balance) (auto simp: rowsByKeys_def)
    with row show "claimable_balance_entry api va (claimantsOf (b_BalanceID row) (rowsByKeys c_BalanceID ks (claimants_t (state_t db)))) row
        \<in> set (table_entries api va db)" by (simp add: table_entries_def rowsByKeys_def read_balance_def)
  qed
qed

lemma added_others:
  assumes ok: "verify_api_ok va"
  shows "addDataToStateVerifier api va flt db k2 vs = Inr vs' \<Longrightarrow> added api va db vs vs'"
    "addOffersToStateVerifier va flt db k3 vs = Inr vs' \<Longrightarrow> added api va db vs vs'"
    "addTrustLinesToStateVerifier api va aa flt db k4 vs = Inr vs' \<Longrightarrow> added api va db vs vs'"
    "addLiquidityPoolsToStateVerifier va aa flt db k6 vs = Inr vs' \<Longrightarrow> added api va db vs vs'"
  by (auto simp: addDataToStateVerifier_def addOffersToStateVerifier_def addTrustLinesToStateVerifier_def addLiquidityPoolsToStateVerifier_def
      run_query_def rowsByKeys_def table_entries_def added_refl split: if_splits sum.splits option.splits elim!: verifier_added_rows [OF ok])

lemma added_batch:
  assumes ok: "verify_api_ok va" and r: "add_batch api va aa flt db ks vs = Inr vs'"
  shows "added api va db vs vs'"
proof -
  obtain vs1 vs2 vs3 vs4 vs5 where
    "addAccountsToStateVerifier api va flt db (bk_accounts ks) vs = Inr vs1" "addDataToStateVerifier api va flt db (bk_data ks) vs1 = Inr vs2"
    "addOffersToStateVerifier va flt db (bk_offers ks) vs2 = Inr vs3" "addTrustLinesToStateVerifier api va aa flt db (bk_lines ks) vs3 = Inr vs4"
    "addClaimableBalanceToStateVerifier api va aa flt db (bk_balances ks) vs4 = Inr vs5"
    "addLiquidityPoolsToStateVerifier va aa flt db (bk_pools ks) vs5 = Inr vs'"
    using r unfolding add_batch_def by (auto split: sum.splits)
  note steps = this
  from added_trans [OF added_trans [OF added_trans [OF added_accounts [OF ok steps(1)] added_others(1) [OF ok steps(2)]] added_others(2) [OF ok steps(3)]]
      added_trans [OF added_trans [OF added_others(3) [OF ok steps(4)] added_balances [OF ok steps(5)]] added_others(4) [OF ok steps(6)]]]
  show ?thesis .
qed

text \<open>The entries of contracts are written as they are.\<close>

lemma sort_entries_consumes:
  assumes ok: "verify_api_ok va"
  shows "sort_entries va es ks st = Inr (ks', st') \<Longrightarrow> \<exists>cs. consumes va cs (verifier st) (verifier st') \<and> (\<forall>e\<in>set cs. \<not> in_tables e) \<and>
    total_contract_data st' + total_ttl st' = total_contract_data st + total_ttl st + length cs"
proof (induction es arbitrary: ks st)
  case Nil
  then show ?case by (intro exI [of _ "[]"]) (simp add: consumes_Nil)
next
  case (Cons e es)
  have step: "\<exists>cs. consumes va cs (verifier st) (verifier st') \<and> (\<forall>e\<in>set cs. \<not> in_tables e) \<and>
      total_contract_data st' + total_ttl st' = total_contract_data st + total_ttl st + length cs"
    if w: "Write va e (verifier st) = Inr v" and s: "sort_entries va es ks1 st1 = Inr (ks', st')" and v: "verifier st1 = v"
      and t: "total_contract_data st1 + total_ttl st1 = total_contract_data st + total_ttl st + 1" and k: "\<not> in_tables e" for v st1 ks1
  proof -
    obtain cs where cs: "consumes va cs v (verifier st')" "\<forall>e\<in>set cs. \<not> in_tables e"
      "total_contract_data st' + total_ttl st' = total_contract_data st1 + total_ttl st1 + length cs" using Cons.IH [OF s] v by auto
    from consumes_trans [OF Write_consumes [OF ok w] cs(1)] cs(2,3) t k show ?thesis by (intro exI [of _ "e # cs"]) simp
  qed
  show ?case
  proof (cases "Data e")
    case (ContractDataE c)
    then obtain v where v: "Write va e (verifier st) = Inr v" "sort_entries va es ks (st\<lparr>verifier := v,
        contractDataEntries := contractDataEntries st @ [e], total_contract_data := total_contract_data st + 1\<rparr>) = Inr (ks', st')"
      using Cons.prems by (auto split: sum.splits)
    with ContractDataE show ?thesis by (intro step [OF v]) (simp_all add: in_tables_def)
  next
    case (TtlE t)
    then obtain v where v: "Write va e (verifier st) = Inr v" "sort_entries va es ks (st\<lparr>verifier := v, total_ttl := total_ttl st + 1,
        expirationEntries := (expirationEntries st)(ttlKeyHash t \<mapsto> LiveUntilLedgerSeq t)\<rparr>) = Inr (ks', st')"
      using Cons.prems by (auto split: sum.splits)
    with TtlE show ?thesis by (intro step [OF v]) (simp_all add: in_tables_def)
  qed (use Cons.prems Cons.IH in auto)
qed


subsection \<open>All batches\<close>

text \<open>
  Between batches: \<open>done\<close> are the entries read so far; what has been written are entries \<open>es\<close> of the tables and entries
  \<open>cs\<close> of contracts, and what is still open is in the verifier.
\<close>

definition verify_facts :: "'p entry_api \<Rightarrow> 'p verify_api \<Rightarrow> 'p verify_db \<Rightarrow> (string + 'p entry) list \<Rightarrow> 'p verify_state \<Rightarrow>
    'p entry list \<Rightarrow> 'p entry list \<Rightarrow> 'p entry list \<Rightarrow> bool" where
  "verify_facts api va db reader st done es cs \<longleftrightarrow> normalized va (verifier st) \<and> reader = map Inr done @ stateReader (verifier st) \<and>
     readEntries (verifier st) = length done \<and> reads api va db es \<and> (\<forall>e\<in>set cs. \<not> in_tables e) \<and>
     total_contract_data st + total_ttl st = length cs \<and> (readingDone (verifier st) \<longrightarrow> stateReader (verifier st) = []) \<and>
     mset (map (Normalize va) done) = mset (map (Normalize va) (es @ cs)) + mset (map snd (currentEntries (verifier st)))"

definition verify_inv :: "'p entry_api \<Rightarrow> 'p verify_api \<Rightarrow> 'p verify_db \<Rightarrow> (string + 'p entry) list \<Rightarrow> 'p verify_state \<Rightarrow> bool" where
  "verify_inv api va db reader st \<longleftrightarrow> (\<exists>done es cs. verify_facts api va db reader st done es cs)"

text \<open>The entries a reader returns have different keys.\<close>

definition reader_distinct :: "'p verify_api \<Rightarrow> (string + 'p entry) list \<Rightarrow> bool" where
  "reader_distinct va reader \<longleftrightarrow> (\<forall>es rest. reader = map Inr es @ rest \<longrightarrow> distinct (map (EntryKey va) es))"

definition open_keys :: "'p verify_api \<Rightarrow> 'p entry list \<Rightarrow> 'p StateVerifier \<Rightarrow> bool" where
  "open_keys va seen v \<longleftrightarrow> Inr ` fst ` set (currentEntries v) \<subseteq> EntryKey va ` set seen"

lemma update_new: "k \<notin> fst ` set m \<Longrightarrow> AList.update k x m = m @ [(k, x)]"
  by (induction m) auto

lemma read_entries_spec:
  assumes "read_entries va n acc v = Inr (es, v')" "normalized va v"
    "reader_distinct va (map Inr seen @ stateReader v)" "open_keys va seen v"
  shows "\<exists>new. es = acc @ map (Normalize va) new \<and> stateReader v = map Inr new @ stateReader v' \<and> readEntries v' = readEntries v + length new \<and>
    normalized va v' \<and> (readingDone v' \<longrightarrow> readingDone v \<or> stateReader v' = []) \<and>
    mset (map snd (currentEntries v')) = mset (map (Normalize va) new) + mset (map snd (currentEntries v))"
  using assms
proof (induction va n acc v arbitrary: seen rule: read_entries.induct)
  case (1 va acc v)
  then show ?case by simp
next
  case (2 va n acc v)
  show ?case
  proof (cases "stateReader v")
    case Nil
    with "2.prems" show ?thesis by (auto simp: normalized_def)
  next
    case (Cons x reader)
    then obtain e where x: "x = Inr e" using "2.prems"(1) by (cases x) auto
    obtain k where k: "EntryKey va e = Inr k" using "2.prems"(1) Cons x by (auto split: sum.splits)
    have rd: "reader_distinct va (map Inr (seen @ [e]) @ reader)" using "2.prems"(3) Cons x by simp
    then have "EntryKey va e \<notin> EntryKey va ` set seen" unfolding reader_distinct_def by (auto dest!: spec [of _ "seen @ [e]"])
    then have nk: "k \<notin> fst ` set (currentEntries v)" using "2.prems"(4) k unfolding open_keys_def by (metis imageI subsetD)
    let ?v = "v\<lparr>stateReader := reader, currentEntries := currentEntries v @ [(k, Normalize va e)], readEntries := readEntries v + 1\<rparr>"
    have r: "read_entries va n (acc @ [Normalize va e]) ?v = Inr (es, v')" using "2.prems"(1) Cons x k update_new [OF nk] by simp
    have n: "normalized va ?v" using "2.prems"(2) nk by (auto simp: normalized_def)
    have o: "open_keys va (seen @ [e]) ?v" using "2.prems"(4) k by (auto simp: open_keys_def)
    from "2.IH" [OF Cons x k, of "seen @ [e]"] r n o rd update_new [OF nk]
    obtain new where new: "es = (acc @ [Normalize va e]) @ map (Normalize va) new" "reader = map Inr new @ stateReader v'"
      "readEntries v' = readEntries v + 1 + length new" "normalized va v'" "readingDone v' \<longrightarrow> readingDone v \<or> stateReader v' = []"
      "mset (map snd (currentEntries v')) = mset (map (Normalize va) new) + mset (map snd (currentEntries v @ [(k, Normalize va e)]))"
      by auto
    then show ?thesis using Cons x by (intro exI [of _ "e # new"]) simp
  qed
qed

lemma GetLedgerEntries_spec:
  assumes "GetLedgerEntries va n v = Inr (es, v')" "reader_distinct va (map Inr seen @ stateReader v)"
  shows "currentEntries v = [] \<and> (\<exists>new. es = map (Normalize va) new \<and> stateReader v = map Inr new @ stateReader v' \<and>
    readEntries v' = readEntries v + length new \<and> normalized va v' \<and> (readingDone v' \<longrightarrow> readingDone v \<or> stateReader v' = []) \<and>
    mset (map snd (currentEntries v')) = mset (map (Normalize va) new))"
proof -
  have c: "currentEntries v = []" and r: "read_entries va n [] (v\<lparr>currentEntries := []\<rparr>) = Inr (es, v')"
    using assms(1) by (auto simp: GetLedgerEntries_def checkUnreadEntries_def split: if_splits)
  from read_entries_spec [OF r, of seen] assms(2) show ?thesis using c by (auto simp: normalized_def open_keys_def)
qed

lemma verify_batch_inv:
  assumes ok: "verify_api_ok va" and inv: "verify_inv api va db reader st" and b: "verify_batch api va aa flt db entries st = Inr st'"
  shows "verify_inv api va db reader st'"
proof -
  obtain ks st1 v s where s1: "sort_entries va entries no_keys st = Inr (ks, st1)"
    and a: "add_batch api va aa flt db ks (verifier st1, assetStats st1) = Inr (v, s)" and st': "st' = st1\<lparr>verifier := v, assetStats := s\<rparr>"
    using b by (auto simp: verify_batch_def split: sum.splits prod.splits)
  obtain cs1 where cs1: "consumes va cs1 (verifier st) (verifier st1)" "\<forall>e\<in>set cs1. \<not> in_tables e"
    "total_contract_data st1 + total_ttl st1 = total_contract_data st + total_ttl st + length cs1"
    using sort_entries_consumes [OF ok s1] by blast
  obtain es1 where es1: "reads api va db es1" "consumes va es1 (verifier st1) v" using added_batch [OF ok a] by (auto simp: added_def)
  obtain d es cs where d: "verify_facts api va db reader st d es cs" using inv unfolding verify_inv_def by blast
  have c: "same_reader (verifier st) v" "normalized va v"
    "mset (map snd (currentEntries (verifier st))) = mset (map (Normalize va) (cs1 @ es1)) + mset (map snd (currentEntries v))"
    using consumes_trans [OF cs1(1) es1(2)] d by (auto simp: consumes_def verify_facts_def)
  have "mset (map (Normalize va) d) = mset (map (Normalize va) ((es @ es1) @ cs @ cs1)) + mset (map snd (currentEntries v))"
    using d c(3) by (simp add: verify_facts_def ac_simps)
  then have "verify_facts api va db reader st' d (es @ es1) (cs @ cs1)"
    using c d cs1 es1 by (auto simp: verify_facts_def st' same_reader_def reads_append)
  then show ?thesis unfolding verify_inv_def by blast
qed

lemma verify_batches_inv:
  assumes ok: "verify_api_ok va" and rd: "reader_distinct va reader"
  shows "verify_inv api va db reader st \<Longrightarrow> verify_batches api va aa flt sz db n st = Inr st' \<Longrightarrow> verify_inv api va db reader st'"
proof (induction "length (stateReader (verifier st))" arbitrary: st n rule: less_induct)
  case less
  obtain d es cs where d: "verify_facts api va db reader st d es cs" using less.prems(1) unfolding verify_inv_def by blast
  obtain entries v where g: "GetLedgerEntries va sz (verifier st) = Inr (entries, v)" using less.prems(2) verify_batches.simps [of api va aa flt sz db n st]
    by (auto split: sum.splits)
  obtain new where new: "currentEntries (verifier st) = []" "entries = map (Normalize va) new" "stateReader (verifier st) = map Inr new @ stateReader v"
    "readEntries v = readEntries (verifier st) + length new" "normalized va v" "readingDone v \<longrightarrow> readingDone (verifier st) \<or> stateReader v = []"
    "mset (map snd (currentEntries v)) = mset (map (Normalize va) new)"
    using GetLedgerEntries_spec [OF g, of d] rd d unfolding verify_facts_def by auto
  have "verify_facts api va db reader (st\<lparr>verifier := v\<rparr>) (d @ new) es cs" using d new by (auto simp: verify_facts_def)
  then have inv: "verify_inv api va db reader (st\<lparr>verifier := v\<rparr>)" unfolding verify_inv_def by blast
  show ?case
  proof (cases "entries = []")
    case True
    with less.prems(2) g inv verify_batches.simps [of api va aa flt sz db n st] show ?thesis by simp
  next
    case False
    then obtain st1 where st1: "verify_batch api va aa (flt n) db entries (st\<lparr>verifier := v\<rparr>) = Inr st1"
      "verify_batches api va aa flt sz db (n + 1) st1 = Inr st'"
      using less.prems(2) g verify_batches.simps [of api va aa flt sz db n st] by (auto split: sum.splits)
    have "length (stateReader (verifier st1)) < length (stateReader (verifier st))"
      using verify_batch_reader [OF st1(1)] new(2,3) False by (auto simp: same_reader_def)
    from less.hyps [OF this verify_batch_inv [OF ok inv st1(1)] st1(2)] show ?thesis .
  qed
qed


subsection \<open>The property\<close>

lemma mset_eq_of_sub:
  assumes d: "distinct xs" and s: "set xs \<subseteq> set ys" and l: "length xs = length ys"
  shows "mset xs = mset ys"
proof -
  have c: "card (set xs) = length xs" using d by (rule distinct_card)
  have "card (set ys) \<le> length ys" by (rule card_length)
  moreover have "card (set xs) \<le> card (set ys)" using s by (simp add: card_mono)
  ultimately have eq: "card (set ys) = length ys" "card (set xs) = card (set ys)" using c l by simp_all
  then have "distinct ys" "set xs = set ys" using s by (simp_all add: card_distinct card_subset_eq)
  with d show ?thesis by (simp add: set_eq_iff_mset_eq_distinct)
qed

lemma batches_read_tables:
  assumes ok: "verify_api_ok va" and rd: "reader_distinct va reader"
    and b: "verify_batches api va aa flt sz db 0 (new_verify_state reader) = Inr st"
    and v: "Verify (count_rows db + total_contract_data st + total_ttl st) (verifier st) = Inr ()"
  shows "\<exists>es. reader = map Inr es \<and>
    mset (map (map_sum id (Normalize va)) (table_entries api va db)) = mset (map (Inr \<circ> Normalize va) (filter in_tables es))"
proof -
  have "verify_facts api va db reader (new_verify_state reader) [] [] []"
    by (simp add: verify_facts_def new_verify_state_def NewStateVerifier_def normalized_def reads_def)
  then have "verify_inv api va db reader (new_verify_state reader)" unfolding verify_inv_def by blast
  from verify_batches_inv [OF ok rd this b] obtain es rows cs where f: "verify_facts api va db reader st es rows cs"
    unfolding verify_inv_def by blast
  have v': "currentEntries (verifier st) = []" "readingDone (verifier st)" "readEntries (verifier st) = count_rows db + total_contract_data st + total_ttl st"
    using v by (auto simp: Verify_def checkUnreadEntries_def split: if_splits)
  have es: "reader = map Inr es" "mset (map (Normalize va) es) = mset (map (Normalize va) (rows @ cs))" "length rows = count_rows db"
  proof -
    show "reader = map Inr es" using f v' by (simp add: verify_facts_def)
    show m: "mset (map (Normalize va) es) = mset (map (Normalize va) (rows @ cs))" using f v' by (simp add: verify_facts_def)
    have "length es = length rows + length cs" using mset_eq_length [OF m] by simp
    with f v' show "length rows = count_rows db" by (simp add: verify_facts_def)
  qed
  have keep: "in_tables (Normalize va e) = in_tables e" and key: "EntryKey va (Normalize va e) = EntryKey va e" for e
    using ok by (simp_all add: verify_api_ok_def)
  have kind: "\<forall>e\<in>set rows. in_tables e" "\<forall>e\<in>set cs. \<not> in_tables e" "Inr ` set rows \<subseteq> set (table_entries api va db)"
    using f by (simp_all add: verify_facts_def reads_def)
  have "filter in_tables (map (Normalize va) (rows @ cs)) = map (Normalize va) rows"
    using kind(1,2) by (simp add: filter_map comp_def keep)
  moreover have "filter in_tables (map (Normalize va) es) = map (Normalize va) (filter in_tables es)" by (simp add: filter_map comp_def keep)
  ultimately have m: "mset (map (Normalize va) (filter in_tables es)) = mset (map (Normalize va) rows)"
    using arg_cong [OF es(2), of "filter_mset in_tables"] by (metis mset_filter)
  have "distinct (map (EntryKey va) es)" using rd es(1) unfolding reader_distinct_def by (metis append_Nil2)
  then have "distinct (map (Normalize va) es)" by (auto simp: distinct_map inj_on_def) (metis key)
  then have "distinct (map (Normalize va) rows)" using es(2) mset_eq_imp_distinct_iff [OF es(2)] by simp
  then have "distinct (map Inr rows)" by (auto simp: distinct_map inj_on_def)
  then have "mset (map Inr rows) = mset (table_entries api va db)"
    by (rule mset_eq_of_sub) (use kind(3) es(3) in \<open>auto simp: table_entries_def count_rows_def\<close>)
  then have "image_mset (map_sum id (Normalize va)) (mset (table_entries api va db)) = image_mset (map_sum id (Normalize va)) (mset (map Inr rows))" by simp
  also have "\<dots> = image_mset Inr (mset (map (Normalize va) rows))" by (simp add: image_mset.compositionality comp_def)
  also have "\<dots> = mset (map (Inr \<circ> Normalize va) (filter in_tables es))" by (simp only: m [symmetric]) (simp add: image_mset.compositionality comp_def)
  finally show ?thesis using es(1) by auto
qed


lemma wait_published_outcome: "wait_published env seq n \<noteq> Inr (Some StateCorrect)"
  by (induction env seq n rule: wait_published.induct) (subst wait_published.simps, auto split: sum.split)

text \<open>
  C14. A state that the verifier finds correct is the state of the checkpoint: the rows of the six tables, each read back on its own, give exactly
  the entries of the checkpoint, up to the normal form, with no row too many, none missing, and none that cannot be read. This holds whatever the size of the
  checkpoint, although the verifier compares batches, looks rows up by keys taken from the checkpoint, and only counts the rows at the end.
\<close>

theorem verified_state_matches_checkpoint:
  assumes "verify_api_ok va" "\<And>reader. GetState env = Inr reader \<Longrightarrow> reader_distinct va reader"
    and "verifyState api va aa sac env latest checkpoint db = Inr StateCorrect"
  shows "\<exists>es. GetState env = Inr (map Inr es) \<and>
    mset (map (map_sum id (Normalize va)) (table_entries api va db)) = mset (map (Inr \<circ> Normalize va) (filter in_tables es))"
proof -
  obtain seq reader where r: "GetState env = Inr reader" "check_state api va aa sac env seq reader db = Inr ()"
    using assms(3) wait_published_outcome [of env _ 0] by (auto simp: verifyState_def split: if_splits sum.splits option.splits)
  obtain st where "verify_batches api va aa (queryFaults env) verifyBatchSize db 0 (new_verify_state reader) = Inr st"
    "Verify (count_rows db + total_contract_data st + total_ttl st) (verifier st) = Inr ()"
    using r(2) by (auto simp: check_state_def run_query_def split: sum.splits option.splits)
  from batches_read_tables [OF assms(1) assms(2) [OF r(1)] this] r(1) show ?thesis by auto
qed

text \<open>A package that can encode data entries, in a simple way, and nothing else.\<close>

definition unary :: "nat \<Rightarrow> string" where
  "unary n = replicate n (CHR ''1'') @ ''0''"

definition plain_verify_api :: "unit verify_api" where
  "plain_verify_api =
     \<lparr>IsAddress = (\<lambda>s. length s = 56), IsSignerKey = (\<lambda>s. length s = 56), Normalize = (\<lambda>e. e),
      EntryKey = (\<lambda>e. case Data e of DataE d \<Rightarrow> DataLedgerKey (plain_api :: unit entry_api) (xd_AccountId d) (xd_DataName d) | _ \<Rightarrow> Inl ''type''),
      MarshalEntry = (\<lambda>e. case Data e of
          DataE d \<Rightarrow> if length (xd_AccountId d) \<noteq> 56 then Inl ''account''
            else Inr (xd_AccountId d @ unary (length (xd_DataName d)) @ xd_DataName d @ unary (length (xd_DataValue d)) @ plain_bytes (xd_DataValue d) @
              unary (unat (LastModifiedLedgerSeq e)) @ (case SponsoringID e of None \<Rightarrow> ''n'' | Some s \<Rightarrow> ''s'' @ s))
        | _ \<Rightarrow> Inl ''type'')\<rparr>"

lemma unary_append: "unary n @ xs = unary m @ ys \<longleftrightarrow> n = m \<and> xs = ys"
proof (induction n arbitrary: m)
  case 0
  then show ?case by (cases m) (auto simp: unary_def)
next
  case (Suc n)
  then show ?case by (cases m) (auto simp: unary_def)
qed

lemma plain_bytes_inj: "plain_bytes p = plain_bytes q \<longleftrightarrow> p = q"
  using bytes_plain by metis

lemma plain_verify_api_ok: "verify_api_ok plain_verify_api"
proof -
  have "e = e'" if m: "MarshalEntry plain_verify_api e = Inr b" "MarshalEntry plain_verify_api e' = Inr b" for e e' :: "unit entry" and b
  proof -
    obtain d d' where d: "Data e = DataE d" "Data e' = DataE d'" "length (xd_AccountId d) = 56" "length (xd_AccountId d') = 56"
      using m by (auto simp: plain_verify_api_def split: entry_data.splits if_splits)
    have "b = xd_AccountId d @ unary (length (xd_DataName d)) @ xd_DataName d @ unary (length (xd_DataValue d)) @ plain_bytes (xd_DataValue d) @
        unary (unat (LastModifiedLedgerSeq e)) @ (case SponsoringID e of None \<Rightarrow> ''n'' | Some s \<Rightarrow> ''s'' @ s)"
      "b = xd_AccountId d' @ unary (length (xd_DataName d')) @ xd_DataName d' @ unary (length (xd_DataValue d')) @ plain_bytes (xd_DataValue d') @
        unary (unat (LastModifiedLedgerSeq e')) @ (case SponsoringID e' of None \<Rightarrow> ''n'' | Some s \<Rightarrow> ''s'' @ s)"
      using m d by (simp_all add: plain_verify_api_def)
    then have eq: "xd_AccountId d = xd_AccountId d'" "xd_DataName d = xd_DataName d'" "plain_bytes (xd_DataValue d) = plain_bytes (xd_DataValue d')"
      "LastModifiedLedgerSeq e = LastModifiedLedgerSeq e'" "SponsoringID e = SponsoringID e'"
      using d(3,4) unary_append [of _ "[]" _ "[]"] by (auto simp: unary_append plain_bytes_def word_eq_iff_unsigned [where ?'a = nat] split: option.splits)
    have "d = d'" using eq(1-3) plain_bytes_inj by simp
    with d(1,2) eq(4,5) show ?thesis by simp
  qed
  then show ?thesis by (auto simp: verify_api_ok_def plain_verify_api_def)
qed

definition wit_db :: "unit verify_db" where
  "wit_db = \<lparr>state_t = empty_db\<lparr>accounts_data_t := [projr (data_row (plain_api :: unit entry_api) wit_data)]\<rparr>, offers_t = [], pools_t = [],
     stats_t = \<lparr>exp_asset_stats = Map.empty, asset_contracts = [], contract_asset_balances = [], contract_asset_stats = Map.empty\<rparr>\<rparr>"

definition wit_env :: "unit verify_env" where
  "wit_env = \<lparr>alreadyRunning = False, BeginTxFault = None, LastLedgerIngest = Inr 63, runOnLedger = (\<lambda>_. True), StateVerificationLock = Inr True,
     LatestLedger = (\<lambda>n. Inr 63), ctxDone = (\<lambda>_. False),
     GetState = Inr [Inr \<lparr>Data = DataE (Data wit_data), LastModifiedLedgerSeq = 2, SponsoringID = None\<rparr>],
     BucketListFault = None, queryFaults = (\<lambda>_ _. None), statKeys = [], visitAssets = [], visitContracts = []\<rparr>"

definition wit_asset_api :: asset_api where
  "wit_asset_api = \<lparr>Extract = (\<lambda>a. Inr (extracted a)), IsAuthorized = (\<lambda>f. f = 1), IsAuthorizedToMaintainLiabilitiesFlag = (\<lambda>f. f = 2),
     GetLiquidityPoolType = (\<lambda>_ _. Inr LiquidityPoolConstantProduct)\<rparr>"

definition wit_sac_api :: sac_api where
  "wit_sac_api = \<lparr>AssetFromContractData = (\<lambda>_. None), ContractBalanceFromContractData = (\<lambda>_. None), AssetToContractDataLedgerKey = (\<lambda>c. c),
     Asset_ContractID = (\<lambda>_. Inl ''no contract''), LedgerKey = (\<lambda>_. Inl ''no key''), MarshalBinary = Inr, Sum256 = (\<lambda>x. x)\<rparr>"

definition wit_entry :: "unit entry" where
  "wit_entry = \<lparr>Data = DataE (Data wit_data), LastModifiedLedgerSeq = 2, SponsoringID = None\<rparr>"

lemma read_entries_rec:
  "n \<noteq> 0 \<Longrightarrow> read_entries va n entries v = (case stateReader v of
       [] \<Rightarrow> Inr (entries, v\<lparr>readingDone := True\<rparr>)
     | Inl e # reader \<Rightarrow> Inl (PlainError e)
     | Inr entry # reader \<Rightarrow> (case EntryKey va entry of
           Inl e \<Rightarrow> Inl (WrapError ''Error marshaling ledgerKey'' e)
         | Inr key \<Rightarrow> read_entries va (n - 1) (entries @ [Normalize va entry])
               (v\<lparr>stateReader := reader, currentEntries := AList.update key (Normalize va entry) (currentEntries v),
                  readEntries := readEntries v + 1\<rparr>)))"
  by (cases n) (auto split: list.split sum.split)

lemma wit_batches:
  "verify_batches plain_api plain_verify_api wit_asset_api (\<lambda>_ _. None) verifyBatchSize wit_db 0 (new_verify_state [Inr wit_entry]) =
    Inr ((new_verify_state [])\<lparr>verifier := \<lparr>stateReader = [], readEntries = 1, readingDone = True, currentEntries = []\<rparr>\<rparr>)"
proof -
  let ?key = "replicate 56 (CHR ''G'') @ ''n''"
  let ?v = "\<lparr>stateReader = [], readEntries = 1, readingDone = True, currentEntries = [(?key, wit_entry)]\<rparr> :: unit StateVerifier"
  let ?w = "\<lparr>stateReader = [], readEntries = 1, readingDone = True, currentEntries = []\<rparr> :: unit StateVerifier"
  have key: "EntryKey plain_verify_api wit_entry = Inr ?key"
    by (simp add: plain_verify_api_def wit_entry_def wit_data_def plain_api_def)
  have norm: "Normalize plain_verify_api e = e" for e by (simp add: plain_verify_api_def)
  have g1: "GetLedgerEntries plain_verify_api verifyBatchSize (NewStateVerifier [Inr wit_entry]) = Inr ([wit_entry], ?v)"
    by (simp add: GetLedgerEntries_def checkUnreadEntries_def NewStateVerifier_def verifyBatchSize_def read_entries_rec key norm)
  have g2: "GetLedgerEntries plain_verify_api verifyBatchSize ?w = Inr ([], ?w)"
    by (simp add: GetLedgerEntries_def checkUnreadEntries_def verifyBatchSize_def read_entries_rec)
  have b: "verify_batch plain_api plain_verify_api wit_asset_api (\<lambda>_. None) wit_db [wit_entry] ((new_verify_state [Inr wit_entry])\<lparr>verifier := ?v\<rparr>) =
      Inr ((new_verify_state [])\<lparr>verifier := ?w\<rparr>)"
    by (simp add: verify_batch_def wit_entry_def new_verify_state_def add_batch_def addAccountsToStateVerifier_def addDataToStateVerifier_def
        addOffersToStateVerifier_def addTrustLinesToStateVerifier_def addClaimableBalanceToStateVerifier_def addLiquidityPoolsToStateVerifier_def
        no_keys_def accountDataKeyToString_def run_query_def rowsByKeys_def wit_db_def empty_db_def data_row_def data_entry_def make_entry_def
        addLedgerEntrySponsor_def Write_def Let_def no_stats_def plain_verify_api_def plain_api_def wit_data_def)
  have sel: "verifier (new_verify_state r) = NewStateVerifier r" for r :: "(string + unit entry) list" by (simp add: new_verify_state_def)
  have e: "verify_batches plain_api plain_verify_api wit_asset_api (\<lambda>_ _. None) verifyBatchSize wit_db (0 + 1) ((new_verify_state [])\<lparr>verifier := ?w\<rparr>) =
      Inr ((new_verify_state [])\<lparr>verifier := ?w\<rparr>)"
    by (subst verify_batches.simps) (simp add: g2 [simplified])
  show ?thesis by (subst verify_batches.simps) (simp only: sel g1 sum.case prod.case b e list.simps if_False)
qed

lemma wit_verified: "verifyState plain_api plain_verify_api wit_asset_api wit_sac_api wit_env True 63 wit_db = Inr StateCorrect"
proof -
  have w: "wait_published wit_env 63 0 = Inr None" by (subst wait_published.simps) (simp add: wit_env_def)
  have p: "check_pages plain_verify_api (\<lambda>_ _. None) [] 0 None [] = Inr []"
    by (subst check_pages.simps) (simp add: GetAssetStats_def run_query_def after_cursor_def)
  have b: "checkContractBalances (\<lambda>_ _. None) [] 0 [] = Inr ()" by (subst checkContractBalances.simps) simp
  have qf: "queryFaults wit_env = (\<lambda>_ _. None)" by (simp add: wit_env_def)
  have c: "check_state plain_api plain_verify_api wit_asset_api wit_sac_api wit_env 63 [Inr wit_entry] wit_db = Inr ()"
    unfolding check_state_def qf wit_batches sum.case
    using p b by (simp add: wit_env_def new_verify_state_def run_query_def count_rows_def Verify_def checkUnreadEntries_def
        wit_db_def empty_db_def checkAssetStats_def extractAssetStatsAndBalances_def AssetStatSet_All_def GetContractStats_def
        GetCreatedAssetContracts_def NewContractAssetStatSet_def asset_rows_def currentOffers_def currentPools_def map_filter_def)
  show ?thesis using w c
    by (simp add: verifyState_def StateVerifierExpectedIngestionVersion_def CurrentVersion_def) (simp add: wit_env_def wit_entry_def)
qed

theorem verified_state_matches_checkpoint_witness:
  "\<exists>es. GetState wit_env = Inr (map Inr es) \<and>
    mset (map (map_sum id (Normalize plain_verify_api)) (table_entries plain_api plain_verify_api wit_db)) =
      mset (map (Inr \<circ> Normalize plain_verify_api) (filter in_tables es))"
proof (rule verified_state_matches_checkpoint [OF plain_verify_api_ok _ wit_verified])
  fix reader assume "GetState wit_env = Inr reader"
  then have "reader = [Inr wit_entry]" by (simp add: wit_env_def wit_entry_def)
  then show "reader_distinct plain_verify_api reader" by (auto simp: reader_distinct_def Cons_eq_append_conv Cons_eq_map_conv)
qed

end
