(* ===== verification/Stats_Check.thy ===== *)
theory Stats_Check
  imports State_Verifier_Props
begin

text \<open>
  The check of the asset statistics: the loop over pages is one pass over all rows, and it accepts exactly when the rows are
  those that were computed from the checkpoint. Of the balances of contracts it compares those that have a row.
\<close>

subsection \<open>Pages\<close>

lemma check_page_append: "check_page (xs @ ys) all = (case check_page xs all of Inl e \<Rightarrow> Inl e | Inr all' \<Rightarrow> check_page ys all')"
  by (induction xs all rule: check_page.induct) (simp_all add: Let_def split: option.split)

lemma strictly_sorted: "distinct (map f xs) \<Longrightarrow> sorted_wrt (\<lambda>a b. f a < f b) (sort_key f xs)"
proof -
  assume d: "distinct (map f xs)"
  have "distinct (map f (sort_key f xs))" using d by (metis mset_map mset_sort mset_eq_imp_distinct_iff)
  then have "sorted_wrt (<) (map f (sort_key f xs))" by (simp add: strict_sorted_iff)
  then show ?thesis by (simp add: sorted_wrt_map)
qed

lemma next_rows:
  assumes d: "distinct (map stat_order rows)" and s: "sort_key stat_order (after_cursor cursor rows) = page @ rest" and p: "page \<noteq> []"
  shows "sort_key stat_order (after_cursor (Some (stat_order (last page))) rows) = rest"
proof -
  let ?S = "after_cursor cursor rows" and ?c = "stat_order (last page)"
  have dS: "distinct (map stat_order ?S)" using d by (cases cursor) (simp_all add: after_cursor_def distinct_map_filter)
  have ws: "sorted_wrt (\<lambda>a b. stat_order a < stat_order b) (page @ rest)" using strictly_sorted [OF dS] s by simp
  have lt: "stat_order x \<le> ?c" if "x \<in> set page" for x
  proof -
    have "page = butlast page @ [last page]" using p by simp
    then have "sorted_wrt (\<lambda>a b. stat_order a < stat_order b) (butlast page @ [last page])" using ws by (metis sorted_wrt_append)
    with that p show ?thesis by (metis append_butlast_last_id in_set_butlastD list.set_intros(1) order.refl order.strict_implies_order set_ConsD sorted_wrt_append
          Un_iff set_append empty_iff list.set(1))
  qed
  have gt: "?c < stat_order x" if "x \<in> set rest" for x using ws that p by (auto simp: sorted_wrt_append)
  have last: "last page \<in> set ?S" using s p by (metis Un_iff last_in_set set_append set_sort)
  have "filter (\<lambda>r. ?c < stat_order r) rows = filter (\<lambda>r. ?c < stat_order r) ?S"
  proof (cases cursor)
    case (Some c)
    then have "c < ?c" using last by (simp add: after_cursor_def)
    then show ?thesis unfolding Some after_cursor_def option.case filter_filter by (intro filter_cong) auto
  qed (simp add: after_cursor_def)
  then have "sort_key stat_order (after_cursor (Some ?c) rows) = filter (\<lambda>r. ?c < stat_order r) (sort_key stat_order ?S)"
    by (simp add: after_cursor_def filter_sort)
  also have "\<dots> = rest" using lt gt unfolding s by (auto simp: filter_empty_conv not_less intro: filter_True)
  finally show ?thesis .
qed

text \<open>A cursor made from a row can be parsed.\<close>

definition good_cursors :: "'p verify_api \<Rightarrow> AssetAndContractStat list \<Rightarrow> bool" where
  "good_cursors va rows \<longleftrightarrow> (\<forall>r\<in>set rows. parseAssetStatsCursor va (stat_order r) = Inr (stat_order r))"

lemma check_pages_one_pass:
  assumes d: "distinct (map stat_order rows)" and g: "good_cursors va rows" and q: "\<And>n. flt n GetAssetStatsQuery = None"
  shows "(case cursor of None \<Rightarrow> True | Some c \<Rightarrow> \<exists>r\<in>set rows. c = stat_order r) \<Longrightarrow>
    check_pages va flt rows n cursor all = check_page (sort_key stat_order (after_cursor cursor rows)) all"
proof (induction "length (after_cursor cursor rows)" arbitrary: cursor n all rule: less_induct)
  case less
  let ?S = "sort_key stat_order (after_cursor cursor rows)"
  have c: "(case cursor of None \<Rightarrow> Inr None | Some c \<Rightarrow> (case parseAssetStatsCursor va c of Inl e \<Rightarrow> Inl e | Inr d \<Rightarrow> Inr (Some d))) = Inr cursor"
    using less.prems g by (auto simp: good_cursors_def split: option.splits)
  have page: "GetAssetStats va (flt n) rows cursor assetStatsBatchSize = Inr (take assetStatsBatchSize ?S)"
    unfolding GetAssetStats_def c by (simp add: run_query_def q)
  show ?case
  proof (cases "?S = []")
    case True
    then show ?thesis by (subst check_pages.simps) (simp add: page)
  next
    case False
    let ?p = "take assetStatsBatchSize ?S" and ?r = "drop assetStatsBatchSize ?S"
    have p: "?p \<noteq> []" using False by (simp add: assetStatsBatchSize_def)
    have s: "?S = ?p @ ?r" by simp
    have last: "last ?p \<in> set (after_cursor cursor rows)" using last_in_set [OF p] by (metis in_set_takeD set_sort)
    then have inr: "last ?p \<in> set rows" by (cases cursor) (auto simp: after_cursor_def)
    have ih: "check_pages va flt rows (n + 1) (Some (stat_order (last ?p))) all' = check_page ?r all'" for all'
      using less.hyps [OF next_page_smaller [OF last]] next_rows [OF d s p] inr by auto
    have "check_pages va flt rows n cursor all = (case check_page ?p all of Inl e \<Rightarrow> Inl e | Inr all' \<Rightarrow> check_page ?r all')"
      using p by (subst check_pages.simps) (simp add: page ih [unfolded Suc_eq_plus1 [symmetric]] split: sum.split)
    then show ?thesis using check_page_append [of ?p ?r all] by simp
  qed
qed

text \<open>What one pass accepts.\<close>

definition row_name :: "AssetAndContractStat \<Rightarrow> string" where
  "row_name r = stat_name (statKey (acsStat r))"

definition stats_agree :: "AssetAndContractStat list \<Rightarrow> (string \<times> AssetAndContractStat) list \<Rightarrow> bool" where
  "stats_agree rows all \<longleftrightarrow> distinct (map row_name rows) \<and> row_name ` set rows = fst ` set all \<and>
     (\<forall>r\<in>set rows. \<exists>e. map_of all (row_name r) = Some e \<and> AssetAndContractStat_Equals e r)"

lemma check_page_iff: "check_page rows all = Inr [] \<longleftrightarrow> stats_agree rows all"
proof (induction rows arbitrary: all)
  case Nil
  then show ?case by (auto simp: stats_agree_def)
next
  case (Cons r rows)
  let ?k = "row_name r"
  have del: "map_of (AList.delete ?k all) k = (if k = ?k then None else map_of all k)" for k by (simp add: delete_conv')
  have dom: "fst ` set (AList.delete ?k all) = fst ` set all - {?k}"
    using arg_cong [OF delete_keys [of ?k all], of set] by simp
  have "stats_agree (r # rows) all \<longleftrightarrow> (\<exists>e. map_of all ?k = Some e \<and> AssetAndContractStat_Equals e r \<and> stats_agree rows (AList.delete ?k all))"
    (is "?l \<longleftrightarrow> ?r")
  proof
    assume l: ?l
    then obtain e where e: "map_of all ?k = Some e" "AssetAndContractStat_Equals e r" by (auto simp: stats_agree_def)
    have nk: "?k \<notin> row_name ` set rows" using l by (simp add: stats_agree_def)
    have "insert ?k (row_name ` set rows) = fst ` set all" using l by (simp add: stats_agree_def)
    with nk have "row_name ` set rows = fst ` set all - {?k}" by blast
    moreover have "\<exists>e. map_of (AList.delete ?k all) (row_name x) = Some e \<and> AssetAndContractStat_Equals e x" if x: "x \<in> set rows" for x
    proof -
      have "row_name x \<noteq> ?k" using nk imageI [OF x, of row_name] by metis
      then show ?thesis using l x by (simp add: stats_agree_def del)
    qed
    ultimately have "stats_agree rows (AList.delete ?k all)" using l by (simp add: stats_agree_def dom)
    with e show ?r by blast
  next
    assume ?r
    then obtain e where e: "map_of all ?k = Some e" "AssetAndContractStat_Equals e r" and s: "stats_agree rows (AList.delete ?k all)" by blast
    have nk: "?k \<notin> row_name ` set rows" and ks: "row_name ` set rows = fst ` set all - {?k}" using s by (auto simp: stats_agree_def dom)
    have "?k \<in> fst ` set all" using map_of_SomeD [OF e(1)] by force
    then have "row_name ` set (r # rows) = fst ` set all" using ks by auto
    moreover have "\<exists>e. map_of all (row_name x) = Some e \<and> AssetAndContractStat_Equals e x" if x: "x \<in> set rows" for x
      using s x unfolding stats_agree_def del by (metis option.distinct(1))
    ultimately show ?l using e s nk by (auto simp: stats_agree_def)
  qed
  moreover have "check_page (r # rows) all = Inr [] \<longleftrightarrow>
      (\<exists>e. map_of all ?k = Some e \<and> AssetAndContractStat_Equals e r \<and> check_page rows (AList.delete ?k all) = Inr [])"
    by (auto simp: row_name_def Let_def split: option.split)
  ultimately show ?case using Cons.IH by simp
qed

lemma stats_agree_sort: "stats_agree (sort_key f rows) all \<longleftrightarrow> stats_agree rows all"
proof -
  have "distinct (map row_name (sort_key f rows)) = distinct (map row_name rows)"
    by (rule mset_eq_imp_distinct_iff) simp
  then show ?thesis by (simp add: stats_agree_def)
qed

subsection \<open>Balances of contracts\<close>

definition same_balance :: "ContractAssetBalance \<Rightarrow> ContractAssetBalance \<Rightarrow> bool" where
  "same_balance row b \<longleftrightarrow> ContractID row = ContractID b \<and> ExpirationLedger row = ExpirationLedger b \<and> Amount row = Amount b"

lemma check_balance_rows_iff:
  assumes d: "distinct (map KeyHash part)"
  shows "check_balance_rows part (rowsByKeys KeyHash (map KeyHash part) t) = Inr () \<longleftrightarrow>
    (\<forall>row\<in>set t. \<forall>b\<in>set part. KeyHash row = KeyHash b \<longrightarrow> same_balance row b)"
proof -
  have "map fst (rev (map (\<lambda>b. (KeyHash b, b)) part)) = rev (map KeyHash part)" by (simp add: rev_map comp_def)
  then have "distinct (map fst (rev (map (\<lambda>b. (KeyHash b, b)) part)))" using d by (simp only: distinct_rev)
  then have m: "map_of (rev (map (\<lambda>b. (KeyHash b, b)) part)) (KeyHash b) = Some b" if "b \<in> set part" for b
    using that by (intro map_of_is_SomeI) auto
  define E where "E k = (case map_of (rev (map (\<lambda>b. (KeyHash b, b)) part)) k of
    None \<Rightarrow> \<lparr>KeyHash = [], ContractID = [], Amount = [], ExpirationLedger = 0\<rparr> | Some b \<Rightarrow> b)" for k
  have e: "E (KeyHash b) = b" if "b \<in> set part" for b using m [OF that] by (simp add: E_def)
  have "check_balance_rows part (rowsByKeys KeyHash (map KeyHash part) t) = Inr () \<longleftrightarrow>
      (\<forall>row\<in>set t. KeyHash row \<in> KeyHash ` set part \<longrightarrow> same_balance row (E (KeyHash row)))"
    unfolding check_balance_rows_def Let_def E_def [symmetric] by (auto simp: rowsByKeys_def same_balance_def)
  also have "\<dots> \<longleftrightarrow> (\<forall>row\<in>set t. \<forall>b\<in>set part. KeyHash row = KeyHash b \<longrightarrow> same_balance row b)"
  proof (intro ball_cong refl iffI ballI impI)
    fix row b assume "KeyHash row \<in> KeyHash ` set part \<longrightarrow> same_balance row (E (KeyHash row))" "b \<in> set part" "KeyHash row = KeyHash b"
    then show "same_balance row b" using e by simp
  next
    fix row assume h: "\<forall>b\<in>set part. KeyHash row = KeyHash b \<longrightarrow> same_balance row b" "KeyHash row \<in> KeyHash ` set part"
    then obtain b where "b \<in> set part" "KeyHash row = KeyHash b" by blast
    then show "same_balance row (E (KeyHash row))" using e h(1) by simp
  qed
  finally show ?thesis .
qed

lemma checkContractBalances_iff:
  assumes "distinct (map KeyHash bs)" "\<And>n. flt n GetContractAssetBalancesQuery = None"
  shows "checkContractBalances flt t n bs = Inr () \<longleftrightarrow> (\<forall>row\<in>set t. \<forall>b\<in>set bs. KeyHash row = KeyHash b \<longrightarrow> same_balance row b)"
  using assms(1)
proof (induction "length bs" arbitrary: bs n rule: less_induct)
  case less
  show ?case
  proof (cases "bs = []")
    case True
    then show ?thesis by (subst checkContractBalances.simps) simp
  next
    case False
    let ?p = "take assetStatsBatchSize bs" and ?r = "drop assetStatsBatchSize bs"
    have s: "set bs = set ?p \<union> set ?r" by (metis append_take_drop_id set_append)
    have d: "distinct (map KeyHash ?p)" "distinct (map KeyHash ?r)" using less.prems by (simp_all add: take_map [symmetric] drop_map [symmetric])
    have "length ?r < length bs" using False by (simp add: assetStatsBatchSize_def)
    from less.hyps [OF this d(2)] check_balance_rows_iff [OF d(1), of t] False
    show ?thesis by (subst checkContractBalances.simps) (auto simp: Let_def run_query_def assms(2) s split: sum.split)
  qed
qed


subsection \<open>The property\<close>

text \<open>
  C16. What the check of the asset statistics, page by page with a cursor, compares. When no statement fails, the rows have distinct keys and their paging tokens parse as cursors, it succeeds if and only if there is
  exactly one row for every asset that has statistics according to the checkpoint, and none for another, each equal to what was computed, and every row of a contract balance whose key the
  checkpoint has is equal to that balance. Neither a balance of the checkpoint that has no row nor a row whose key the checkpoint lacks is noticed.
\<close>

theorem asset_stats_check_exact:
  assumes x: "extractAssetStatsAndBalances aa sac order corder s cs = Inr (all, bs)" and d: "distinct (map stat_order (asset_rows keys db))"
    and g: "good_cursors va (asset_rows keys db)" and b: "distinct (map KeyHash bs)" and q: "\<forall>n q. flt n q = None"
  shows "checkAssetStats va aa sac order corder keys flt db s cs = Inr () \<longleftrightarrow> stats_agree (asset_rows keys db) all \<and>
    (\<forall>row\<in>set (contract_asset_balances db). \<forall>b\<in>set bs. KeyHash row = KeyHash b \<longrightarrow> same_balance row b)"
proof -
  have "check_pages va flt (asset_rows keys db) 0 None all = check_page (sort_key stat_order (asset_rows keys db)) all"
    using check_pages_one_pass [OF d g, of flt None 0 all] q by (simp add: after_cursor_def)
  then have pages: "check_pages va flt (asset_rows keys db) 0 None all = Inr [] \<longleftrightarrow> stats_agree (asset_rows keys db) all"
    by (simp add: check_page_iff stats_agree_sort)
  have "checkAssetStats va aa sac order corder keys flt db s cs = Inr () \<longleftrightarrow>
      check_pages va flt (asset_rows keys db) 0 None all = Inr [] \<and> checkContractBalances flt (contract_asset_balances db) 0 bs = Inr ()"
    by (auto simp: checkAssetStats_def x split: sum.splits)
  with pages checkContractBalances_iff [OF b, of flt "contract_asset_balances db" 0] q show ?thesis by simp
qed

definition wit_key :: assetStatKey where
  "wit_key = \<lparr>assetType = 1, assetCode = ''USD'', assetIssuer = replicate 56 (CHR ''G'')\<rparr>"

definition wit_value :: assetStatValue where
  "wit_value = \<lparr>balances = (\<lambda>c. if c = Authorized then 7 else 0), accounts = (\<lambda>c. if c = Authorized then 1 else 0)\<rparr>"

definition wit_stats :: stats_db where
  "wit_stats = \<lparr>exp_asset_stats = [wit_key \<mapsto> ConvertToHistoryObject wit_key wit_value], asset_contracts = [], contract_asset_balances = [],
     contract_asset_stats = Map.empty\<rparr>"

definition wit_balance_row :: ContractAssetBalance where
  "wit_balance_row = \<lparr>KeyHash = ''h'', ContractID = ''c'', Amount = ''5'', ExpirationLedger = 90\<rparr>"

definition wit_set :: ContractAssetStatSet where
  "wit_set = (NewContractAssetStatSet Map.empty Map.empty Map.empty 63)\<lparr>createdBalances := [wit_balance_row],
     contractAssetStats := [''c'' \<mapsto> \<lparr>activeBalance = 5, activeHolders = 1\<rparr>]\<rparr>"

text \<open>The statistics agree, and the one balance of the checkpoint that has no row is not reported.\<close>

theorem asset_stats_check_exact_witness:
  "checkAssetStats plain_verify_api wit_asset_api wit_sac_api [wit_key] [''c''] [wit_key] (\<lambda>_ _. None) wit_stats [wit_key \<mapsto> wit_value] wit_set = Inr ()"
proof -
  let ?row = "\<lparr>acsStat = ConvertToHistoryObject wit_key wit_value, acsContracts = zero_ContractStat, acsContractID = None\<rparr>"
  have x: "extractAssetStatsAndBalances wit_asset_api wit_sac_api [wit_key] [''c''] [wit_key \<mapsto> wit_value] wit_set =
      Inr ([(stat_name wit_key, ?row)], [wit_balance_row])"
    by (simp add: extractAssetStatsAndBalances_def AssetStatSet_All_def GetContractStats_def GetCreatedAssetContracts_def wit_set_def
        NewContractAssetStatSet_def map_filter_def ConvertToHistoryObject_def wit_balance_row_def)
  have rows: "asset_rows [wit_key] wit_stats = [?row]" by (simp add: asset_rows_def wit_stats_def joined_row_def)
  have "stats_agree [?row] [(stat_name wit_key, ?row)]"
    by (simp add: stats_agree_def row_name_def ConvertToHistoryObject_def AssetAndContractStat_Equals_def list_all_iff)
  moreover have "good_cursors plain_verify_api [?row]"
    by (simp add: good_cursors_def parseAssetStatsCursor_def stat_order_def ConvertToHistoryObject_def wit_key_def plain_verify_api_def)
  ultimately show ?thesis
    using asset_stats_check_exact [OF x, where keys = "[wit_key]" and db = wit_stats and va = plain_verify_api and flt = "\<lambda>_ _. None"]
    by (simp add: rows) (simp add: wit_stats_def)
qed

end
