(* ===== verification/State_Read_Back.thy ===== *)
theory State_Read_Back
  imports State_Verifier_Props
begin

text \<open>
  The processors and the verifier agree on the meaning of the rows: tables that hold a ledger read back as that ledger. This is
  what makes a verification succeed, and it fixes what is lost in the rows: the order of signers and claimants, which the
  normal form sorts.
\<close>

subsection \<open>Sorting\<close>

lemma sort_unique:
  assumes "sorted (map f zs)" "mset zs = mset xs" "distinct (map f xs)"
  shows "sort_key f xs = zs"
proof (rule properties_for_sort_key)
  show "mset zs = mset xs" by fact
  show "sorted (map f zs)" by fact
  have one: "filter (\<lambda>x. f k = f x) ys = [k]" if "distinct (map f ys)" "k \<in> set ys" for k ys
    using that
  proof (induction ys)
    case (Cons y ys)
    show ?case
    proof (cases "k = y")
      case True
      have "filter (\<lambda>x. f k = f x) ys = []" using Cons.prems(1) True by (auto simp: filter_empty_conv)
      with True show ?thesis by simp
    next
      case False
      then have "k \<in> set ys" using Cons.prems(2) by simp
      then have "f k \<noteq> f y" using Cons.prems(1) by (auto simp: image_iff)
      with Cons \<open>k \<in> set ys\<close> show ?thesis by simp
    qed
  qed simp
  have d: "distinct (map f zs)" "set zs = set xs" using assms(2,3) by (metis mset_map mset_eq_imp_distinct_iff, metis mset_eq_setD)
  show "filter (\<lambda>x. f k = f x) zs = filter (\<lambda>x. f k = f x) xs" if "k \<in> set zs" for k
    using one [OF d(1)] one [OF assms(3)] that d(2) by simp
qed

subsection \<open>What the XDR package promises\<close>

text \<open>
  Addresses of 56 characters are valid; the signers and claimants are sorted by their strings; \<open>NewCreditAsset\<close> builds an asset from
  its code and issuer; the normal form sorts.
\<close>

definition sorted_entry :: "'p entry \<Rightarrow> 'p entry" where
  "sorted_entry e = e\<lparr>Data := (case Data e of
       AccountE a \<Rightarrow> AccountE (a\<lparr>xa_Signers := sort_key sg_Key (xa_Signers a)\<rparr>)
     | ClaimableBalanceE b \<Rightarrow> ClaimableBalanceE (b\<lparr>xb_Claimants := sort_key xc_Destination (xb_Claimants b)\<rparr>)
     | d \<Rightarrow> d)\<rparr>"

definition read_api_ok :: "'p entry_api \<Rightarrow> 'p verify_api \<Rightarrow> bool" where
  "read_api_ok api va \<longleftrightarrow> (\<forall>s. length s = 56 \<longrightarrow> IsAddress va s) \<and>
     (\<forall>ss. distinct (map sg_Key ss) \<longrightarrow> SortSignersByKey api ss = sort_key sg_Key ss) \<and>
     (\<forall>cs. distinct (map xc_Destination cs) \<longrightarrow> SortClaimantsByDestination api cs = sort_key xc_Destination cs) \<and>
     (\<forall>x. valid_asset x \<and> x \<noteq> AssetTypeNative \<longrightarrow> NewCreditAsset api (assetCode (extracted x)) (assetIssuer (extracted x)) = Inr x) \<and>
     (\<forall>e. Normalize va e = sorted_entry e)"

text \<open>The addresses in an entry.\<close>

definition sponsor_readable :: "'e ledger_entry \<Rightarrow> bool" where
  "sponsor_readable e \<longleftrightarrow> (\<forall>s. SponsoringID e = Some s \<longrightarrow> length s = 56)"

definition account_readable :: "'p verify_api \<Rightarrow> xAccountEntry ledger_entry \<Rightarrow> bool" where
  "account_readable va e \<longleftrightarrow> sponsor_readable e \<and> (\<forall>d. xa_InflationDest (Data e) = Some d \<longrightarrow> length d = 56) \<and>
     (\<forall>s\<in>set (xa_Signers (Data e)). IsSignerKey va (sg_Key s) \<and> (\<forall>d. sg_Sponsor s = Some d \<longrightarrow> length d = 56))"

definition balance_readable :: "'p xClaimableBalanceEntry ledger_entry \<Rightarrow> bool" where
  "balance_readable e \<longleftrightarrow> sponsor_readable e \<and> (\<forall>c\<in>set (xb_Claimants (Data e)). length (xc_Destination c) = 56)"

definition state_readable :: "'p verify_api \<Rightarrow> 'p ledger_state \<Rightarrow> bool" where
  "state_readable va st \<longleftrightarrow> (\<forall>e\<in>ran (ls_accounts st). account_readable va e) \<and> (\<forall>e\<in>ran (ls_data st). sponsor_readable e) \<and>
     (\<forall>e\<in>ran (ls_lines st). sponsor_readable e) \<and> (\<forall>e\<in>ran (ls_balances st). balance_readable e)"

text \<open>An entry of one type as an entry.\<close>

definition as_entry :: "('e \<Rightarrow> 'p entry_data) \<Rightarrow> 'e ledger_entry \<Rightarrow> 'p entry" where
  "as_entry C e = \<lparr>Data = C (Data e), LastModifiedLedgerSeq = LastModifiedLedgerSeq e, SponsoringID = SponsoringID e\<rparr>"

lemma make_entry_as:
  "read_api_ok api va \<Longrightarrow> sponsor_readable e \<Longrightarrow> make_entry va d (LastModifiedLedgerSeq e) (SponsoringID e) =
    Inr \<lparr>Data = d, LastModifiedLedgerSeq = LastModifiedLedgerSeq e, SponsoringID = SponsoringID e\<rparr>"
  by (auto simp: make_entry_def addLedgerEntrySponsor_def read_api_ok_def sponsor_readable_def split: option.split)

text \<open>\<open>reads_back\<close>: the rows of a table give the entries of the ledger, and only these.\<close>

definition reads_back :: "'p verify_api \<Rightarrow> ('r \<Rightarrow> stats_error + 'p entry) \<Rightarrow> ('e \<Rightarrow> 'p entry_data) \<Rightarrow> 'r list \<Rightarrow> ('i \<Rightarrow> 'e ledger_entry option) \<Rightarrow> bool" where
  "reads_back va f C t L \<longleftrightarrow> (\<lambda>r. map_sum id (Normalize va) (f r)) ` set t = (\<lambda>e. Inr (Normalize va (as_entry C e))) ` ran L"

lemma reads_backI:
  assumes h: "table_holds key rowof t L" and f: "\<And>i e r. L i = Some e \<Longrightarrow> rowof e = Inr r \<Longrightarrow>
      map_sum id (Normalize va) (f r) = Inr (Normalize va (as_entry C e))"
    and total: "\<And>i e. L i = Some e \<Longrightarrow> \<exists>r. rowof e = Inr r"
  shows "reads_back va f C t L"
  unfolding reads_back_def
proof (intro equalityI subsetI)
  fix x assume "x \<in> (\<lambda>r. map_sum id (Normalize va) (f r)) ` set t"
  then obtain r where r: "r \<in> set t" "x = map_sum id (Normalize va) (f r)" by blast
  then obtain i e where e: "L i = Some e" "rowof e = Inr r" using h unfolding table_holds_def by blast
  with f [OF e] r(2) show "x \<in> (\<lambda>e. Inr (Normalize va (as_entry C e))) ` ran L" by (auto simp: ran_def)
next
  fix x :: "stats_error + 'e entry" assume "x \<in> (\<lambda>e. Inr (Normalize va (as_entry C e))) ` ran L"
  then obtain i e where e: "L i = Some e" "x = Inr (Normalize va (as_entry C e))" by (auto simp: ran_def)
  obtain r where r: "rowof e = Inr r" using total [OF e(1)] by blast
  have "r \<in> set t" using h e(1) r unfolding table_holds_def by blast
  with f [OF e(1) r] e(2) show "x \<in> (\<lambda>r. map_sum id (Normalize va) (f r)) ` set t" by (metis imageI)
qed

subsection \<open>Data entries and trust lines\<close>

lemma read_data:
  assumes ok: "read_api_ok api va" and r: "data_row api e = Inr r" and v: "valid_data api e" "sponsor_readable e"
  shows "data_entry va r = Inr (as_entry DataE e)"
proof -
  have addr: "IsAddress va (xd_AccountId (Data e))" using ok v(1) by (simp add: read_api_ok_def valid_data_def data_id_def)
  show ?thesis using r addr make_entry_as [OF ok v(2)]
    by (auto simp: data_row_def data_entry_def as_entry_def Let_def split: sum.splits)
qed

lemma length_hex_encode: "length (hex_encode bs) = 2 * length bs"
  by (induction bs) simp_all

lemma hex_Decode32_encode: "length p = 32 \<Longrightarrow> hex_Decode32 (PoolIDToString p) = Inr p"
  by (simp add: hex_Decode32_def PoolIDToString_def length_hex_encode hex_decode_encode)

lemma read_line:
  assumes ok: "read_api_ok api va" and r: "xdrToTrustline api e = Inr r" and v: "valid_line api e" "sponsor_readable e"
  shows "trustLineToXDR api va r = Inr (as_entry TrustLineE e)"
proof -
  have addr: "IsAddress va (xt_AccountId (Data e))" using ok v(1) by (simp add: read_api_ok_def valid_line_def line_id_def)
  have va: "valid_line_asset (xt_Asset (Data e))" and la: "lines_api_ok api" using v(1) by (simp_all add: valid_line_def line_id_def)
  show ?thesis
  proof (cases "xt_Asset (Data e)")
    case (TLPoolShare p)
    then have "length p = 32" using va by (simp add: valid_line_asset_def)
    with hex_Decode32_encode r TLPoolShare addr make_entry_as [OF ok v(2)] show ?thesis
      by (auto simp: xdrToTrustline_def trustLineToXDR_def as_entry_def Let_def split: sum.splits)
  next
    case (TLAsset x)
    then have x: "valid_asset x" "x \<noteq> AssetTypeNative" using va by (simp_all add: valid_line_asset_def)
    have "ExtractAsset api x = Inr (extracted x)" using la x(1) by (simp add: lines_api_ok_def)
    moreover have "NewCreditAsset api (assetCode (extracted x)) (assetIssuer (extracted x)) = Inr x" using ok x by (simp add: read_api_ok_def)
    moreover have "assetType (extracted x) \<noteq> AssetTypeAssetTypePoolShare" "assetType (extracted x) \<noteq> AssetTypeAssetTypeNative"
      using x by (auto simp: extracted_def AssetTypeAssetTypePoolShare_def AssetTypeAssetTypeNative_def split: Asset.splits)
    ultimately show ?thesis using r TLAsset addr make_entry_as [OF ok v(2)]
      by (auto simp: xdrToTrustline_def trustLineToXDR_def as_entry_def Let_def split: sum.splits)
  qed
qed


subsection \<open>Accounts\<close>

lemma group_signers_rows:
  assumes "\<forall>r\<in>set rows. s_Account r = a" "\<forall>r\<in>set rows. s_Signer r \<noteq> a \<longrightarrow> IsSignerKey va (s_Signer r)" "distinct (map s_Signer rows)"
  shows "\<exists>m'. group_signers va rows m = Inr m' \<and>
    masterWeightMap m' a = (case List.find (\<lambda>r. s_Signer r = a) rows of None \<Rightarrow> masterWeightMap m a | Some r \<Rightarrow> s_Weight r) \<and>
    signersMap m' a = signersMap m a @ map (\<lambda>r. \<lparr>sg_Key = s_Signer r, sg_Weight = s_Weight r, sg_Sponsor = None\<rparr>) (filter (\<lambda>r. s_Signer r \<noteq> a) rows) \<and>
    (\<forall>r\<in>set rows. s_Signer r \<noteq> a \<longrightarrow> sponsoringSignersMap m' a (s_Signer r) = (case s_Sponsor r of None \<Rightarrow> [] | Some s \<Rightarrow> s)) \<and>
    (\<forall>k. k \<notin> set (map s_Signer rows) \<longrightarrow> sponsoringSignersMap m' a k = sponsoringSignersMap m a k)"
  using assms
proof (induction rows arbitrary: m)
  case (Cons r rows)
  have r: "s_Account r = a" using Cons.prems(1) by simp
  have nr: "s_Signer r \<notin> set (map s_Signer rows)" using Cons.prems(3) by simp
  have prems: "\<forall>r\<in>set rows. s_Account r = a" "\<forall>r\<in>set rows. s_Signer r \<noteq> a \<longrightarrow> IsSignerKey va (s_Signer r)" "distinct (map s_Signer rows)"
    using Cons.prems by simp_all
  show ?case
  proof (cases "s_Signer r = a")
    case True
    have none: "List.find (\<lambda>x. s_Signer x = a) rows = None" using nr True by (auto simp: find_None_iff image_iff)
    show ?thesis using Cons.IH [OF prems, of "m\<lparr>masterWeightMap := (masterWeightMap m)(a := s_Weight r)\<rparr>"] none True r by auto
  next
    case False
    define m1 where "m1 = m\<lparr>signersMap := (signersMap m)(a := signersMap m a @ [\<lparr>sg_Key = s_Signer r, sg_Weight = s_Weight r, sg_Sponsor = None\<rparr>]),
      sponsoringSignersMap := (sponsoringSignersMap m)(a := (sponsoringSignersMap m a)(s_Signer r := (case s_Sponsor r of None \<Rightarrow> [] | Some s \<Rightarrow> s)))\<rparr>"
    have m1: "masterWeightMap m1 = masterWeightMap m" "signersMap m1 a = signersMap m a @ [\<lparr>sg_Key = s_Signer r, sg_Weight = s_Weight r, sg_Sponsor = None\<rparr>]"
      "sponsoringSignersMap m1 a = (sponsoringSignersMap m a)(s_Signer r := (case s_Sponsor r of None \<Rightarrow> [] | Some s \<Rightarrow> s))" by (simp_all add: m1_def)
    have step: "group_signers va (r # rows) m = group_signers va rows m1" using False r Cons.prems(2) by (auto simp: m1_def)
    show ?thesis using Cons.IH [OF prems, of m1] False nr unfolding step m1 by auto
  qed
qed simp

lemma signers_of_rows:
  assumes v: "valid_account e"
  shows "distinct (map s_Signer (signers_of (Data e)))" "\<forall>r\<in>set (signers_of (Data e)). s_Account r = account_id e"
    "filter (\<lambda>r. s_Signer r \<noteq> account_id e) (signers_of (Data e)) = map (\<lambda>s. \<lparr>s_Account = account_id e, s_Signer = sg_Key s,
      s_Weight = sg_Weight s, s_Sponsor = sg_Sponsor s\<rparr>) (xa_Signers (Data e))"
proof -
  have d: "distinct (account_id e # map sg_Key (xa_Signers (Data e)))" using v by (simp add: valid_account_def)
  have ne: "sg_Key s \<noteq> account_id e" if "s \<in> set (xa_Signers (Data e))" for s using d imageI [OF that, of sg_Key] by auto
  show "distinct (map s_Signer (signers_of (Data e)))" using d by (auto simp: signers_of_def account_id_def comp_def)
  show "\<forall>r\<in>set (signers_of (Data e)). s_Account r = account_id e" by (auto simp: signers_of_def account_id_def)
  have "filter (\<lambda>r. s_Signer r \<noteq> account_id e) (map (\<lambda>s. \<lparr>s_Account = account_id e, s_Signer = sg_Key s,
      s_Weight = sg_Weight s, s_Sponsor = sg_Sponsor s\<rparr>) (xa_Signers (Data e))) = map (\<lambda>s. \<lparr>s_Account = account_id e, s_Signer = sg_Key s,
      s_Weight = sg_Weight s, s_Sponsor = sg_Sponsor s\<rparr>) (xa_Signers (Data e))"
    by (rule filter_True) (auto simp: ne)
  then show "filter (\<lambda>r. s_Signer r \<noteq> account_id e) (signers_of (Data e)) = map (\<lambda>s. \<lparr>s_Account = account_id e, s_Signer = sg_Key s,
      s_Weight = sg_Weight s, s_Sponsor = sg_Sponsor s\<rparr>) (xa_Signers (Data e))"
    by (simp add: signers_of_def account_id_def)
qed

text \<open>The rows of an account in the table, whatever their order.\<close>

lemma account_signers:
  assumes h: "signers_hold t L" and L: "L (account_id e) = Some e" and v: "valid_account e"
  shows "mset (filter (\<lambda>r. s_Account r = account_id e) t) = mset (signers_of (Data e))"
proof -
  have "distinct (map signer_key (filter (\<lambda>r. s_Account r = account_id e) t))" using h by (simp add: signers_hold_def distinct_map_filter)
  then have "distinct (filter (\<lambda>r. s_Account r = account_id e) t)" by (simp add: distinct_map)
  moreover have "distinct (signers_of (Data e))" using signers_of_rows(1) [OF v] by (simp add: distinct_map)
  moreover have "set (filter (\<lambda>r. s_Account r = account_id e) t) = set (signers_of (Data e))"
    using h L signers_of_rows(2) [OF v] by (auto simp: signers_hold_def)
  ultimately show ?thesis by (metis set_eq_iff_mset_eq_distinct)
qed

text \<open>What the loop over the signer rows collects for an account.\<close>

lemma account_signer_maps:
  assumes ok: "read_api_ok api va" and h: "signers_hold t L" and L: "L (account_id e) = Some e"
    and v: "valid_account e" "account_readable va e"
  obtains m where "group_signers va (filter (\<lambda>r. s_Account r = account_id e) t) no_signers = Inr m"
    "masterWeightMap m (account_id e) = ucast (xa_MasterKeyWeight (Data e))"
    "SortSignersByKey api (signersMap m (account_id e)) = map (\<lambda>s. s\<lparr>sg_Sponsor := None\<rparr>) (sort_key sg_Key (xa_Signers (Data e)))"
    "\<And>s. s \<in> set (xa_Signers (Data e)) \<Longrightarrow> sponsoringSignersMap m (account_id e) (sg_Key s) = (case sg_Sponsor s of None \<Rightarrow> [] | Some d \<Rightarrow> d)"
proof -
  let ?a = "account_id e" and ?S = "xa_Signers (Data e)"
  let ?g = "\<lambda>s. \<lparr>s_Account = ?a, s_Signer = sg_Key s, s_Weight = sg_Weight s, s_Sponsor = sg_Sponsor s\<rparr>"
  let ?f = "\<lambda>r. \<lparr>sg_Key = s_Signer r, sg_Weight = s_Weight r, sg_Sponsor = None\<rparr>"
  define R where "R = filter (\<lambda>r. s_Account r = ?a) t"
  have R: "mset R = mset (signers_of (Data e))" unfolding R_def by (rule account_signers [OF h L v(1)])
  have setR: "set R = set (signers_of (Data e))" using R by (rule mset_eq_setD)
  have dR: "distinct (map s_Signer R)"
    using signers_of_rows(1) [OF v(1)] mset_eq_imp_distinct_iff [of "map s_Signer R" "map s_Signer (signers_of (Data e))"] R by simp
  have key: "\<forall>r\<in>set R. s_Signer r \<noteq> ?a \<longrightarrow> IsSignerKey va (s_Signer r)"
    unfolding setR using v(2) by (auto simp: signers_of_def account_readable_def account_id_def)
  have acc: "\<forall>r\<in>set R. s_Account r = ?a" by (simp add: R_def)
  have z: "masterWeightMap no_signers ?a = 0" "signersMap no_signers ?a = []" by (simp_all add: no_signers_def)
  obtain m where m: "group_signers va R no_signers = Inr m"
    "masterWeightMap m ?a = (case List.find (\<lambda>r. s_Signer r = ?a) R of None \<Rightarrow> 0 | Some r \<Rightarrow> s_Weight r)"
    "signersMap m ?a = map ?f (filter (\<lambda>r. s_Signer r \<noteq> ?a) R)"
    "\<forall>r\<in>set R. s_Signer r \<noteq> ?a \<longrightarrow> sponsoringSignersMap m ?a (s_Signer r) = (case s_Sponsor r of None \<Rightarrow> [] | Some s \<Rightarrow> s)"
    using group_signers_rows [OF acc key dR, of no_signers] unfolding z append_Nil by blast
  have ne: "sg_Key s \<noteq> ?a" if "s \<in> set ?S" for s using v(1) imageI [OF that, of sg_Key] by (auto simp: valid_account_def)
  have dS: "distinct (map sg_Key ?S)" using v(1) by (simp add: valid_account_def)
  have weight: "s_Weight r = ucast (xa_MasterKeyWeight (Data e))" if "r \<in> set R" "s_Signer r = ?a" for r
    using that ne unfolding setR by (auto simp: signers_of_def account_id_def split: if_splits)
  have "xa_MasterKeyWeight (Data e) = 0" if "\<forall>r\<in>set R. s_Signer r \<noteq> ?a"
    using that unfolding setR by (auto simp: signers_of_def account_id_def split: if_splits)
  then have master: "masterWeightMap m ?a = ucast (xa_MasterKeyWeight (Data e))"
    using weight unfolding m(2) by (auto simp: find_None_iff find_Some_iff split: option.split)
  have "mset (filter (\<lambda>r. s_Signer r \<noteq> ?a) R) = mset (map ?g ?S)"
    using signers_of_rows(3) [OF v(1)] R by (metis mset_filter)
  then have ms: "mset (signersMap m ?a) = mset (map (?f \<circ> ?g) ?S)" unfolding m(3) by (simp add: multiset.map_comp)
  have "mset (map sg_Key (signersMap m ?a)) = mset (map sg_Key ?S)" by (simp add: ms multiset.map_comp comp_def)
  then have d: "distinct (map sg_Key (signersMap m ?a))" using dS by (metis mset_eq_imp_distinct_iff)
  have strip: "s\<lparr>sg_Sponsor := None\<rparr> = ?f (?g s)" for s by (cases s) simp
  have "SortSignersByKey api (signersMap m ?a) = sort_key sg_Key (signersMap m ?a)" using ok d by (simp add: read_api_ok_def)
  also have "\<dots> = map (\<lambda>s. s\<lparr>sg_Sponsor := None\<rparr>) (sort_key sg_Key ?S)"
    by (rule sort_unique [OF _ _ d]) (simp_all add: ms strip comp_def)
  finally have sorted: "SortSignersByKey api (signersMap m ?a) = map (\<lambda>s. s\<lparr>sg_Sponsor := None\<rparr>) (sort_key sg_Key ?S)" .
  have spons: "sponsoringSignersMap m ?a (sg_Key s) = (case sg_Sponsor s of None \<Rightarrow> [] | Some d \<Rightarrow> d)" if "s \<in> set ?S" for s
  proof -
    have "?g s \<in> set R" using that unfolding setR by (auto simp: signers_of_def account_id_def)
    with m(4) ne [OF that] show ?thesis by fastforce
  qed
  from that [OF m(1) [unfolded R_def] master sorted spons] show thesis .
qed

lemma ucast_up_down: "ucast (ucast (l :: 32 word) :: 64 word) = l" "(ucast l :: 64 word) = 0 \<longleftrightarrow> l = 0"
proof -
  show u: "ucast (ucast l :: 64 word) = l" for l :: "32 word" by (rule bit_word_eqI) (simp add: bit_simps)
  show "(ucast l :: 64 word) = 0 \<longleftrightarrow> l = 0" using u [of l] by auto
qed

lemma read_account_back:
  assumes ok: "read_api_ok api va" and h: "signers_hold (accounts_signers_t (state_t db)) L" and L: "L (account_id e) = Some e"
    and v: "valid_account e" "account_readable va e"
  shows "read_account api va db (account_row e) = Inr (sorted_entry (as_entry AccountE e))"
proof -
  obtain m where m: "group_signers va (filter (\<lambda>r. s_Account r = account_id e) (accounts_signers_t (state_t db))) no_signers = Inr m"
    "masterWeightMap m (account_id e) = ucast (xa_MasterKeyWeight (Data e))"
    "SortSignersByKey api (signersMap m (account_id e)) = map (\<lambda>s. s\<lparr>sg_Sponsor := None\<rparr>) (sort_key sg_Key (xa_Signers (Data e)))"
    "\<And>s. s \<in> set (xa_Signers (Data e)) \<Longrightarrow> sponsoringSignersMap m (account_id e) (sg_Key s) = (case sg_Sponsor s of None \<Rightarrow> [] | Some d \<Rightarrow> d)"
    using account_signer_maps [OF ok h L v] by blast
  have id: "a_AccountID (account_row e) = account_id e" by (simp add: account_row_def account_id_def Let_def)
  have addr: "IsAddress va (account_id e)" using ok v(1) by (simp add: read_api_ok_def valid_account_def)
  have infl: "\<not> (a_InflationDestination (account_row e) \<noteq> [] \<and> \<not> IsAddress va (a_InflationDestination (account_row e)))"
    using ok v(2) by (auto simp: read_api_ok_def account_readable_def account_row_def Let_def split: option.split)
  have mw: "a_MasterWeight (account_row e) = xa_MasterKeyWeight (Data e)" by (simp add: account_row_def Let_def)
  have spons: "IsAddress va (sponsoringSignersMap m (account_id e) (sg_Key s))"
    if "s \<in> set (xa_Signers (Data e))" "sponsoringSignersMap m (account_id e) (sg_Key s) \<noteq> []" for s
    using m(4) [OF that(1)] that v(2) ok by (auto simp: read_api_ok_def account_readable_def split: option.splits)
  have signers: "map (\<lambda>s. s\<lparr>sg_Sponsor := (if sponsoringSignersMap m (account_id e) (sg_Key s) = [] then None
        else Some (sponsoringSignersMap m (account_id e) (sg_Key s)))\<rparr>)
      (map (\<lambda>s. s\<lparr>sg_Sponsor := None\<rparr>) (sort_key sg_Key (xa_Signers (Data e)))) = sort_key sg_Key (xa_Signers (Data e))"
    unfolding map_map
  proof (rule map_idI)
    fix s assume "s \<in> set (sort_key sg_Key (xa_Signers (Data e)))"
    then have s: "s \<in> set (xa_Signers (Data e))" by simp
    then have "sg_Sponsor s \<noteq> Some []" using v(1) by (simp add: valid_account_def)
    with m(4) [OF s] show "((\<lambda>s. s\<lparr>sg_Sponsor := (if sponsoringSignersMap m (account_id e) (sg_Key s) = [] then None
        else Some (sponsoringSignersMap m (account_id e) (sg_Key s)))\<rparr>) \<circ> (\<lambda>s. s\<lparr>sg_Sponsor := None\<rparr>)) s = s"
      by (cases s) (auto split: option.splits)
  qed
  have no_panic: "\<not> (\<exists>s\<in>set (SortSignersByKey api (signersMap m (account_id e))). sponsoringSignersMap m (account_id e) (sg_Key s) \<noteq> [] \<and>
      \<not> IsAddress va (sponsoringSignersMap m (account_id e) (sg_Key s)))" using spons unfolding m(3) by auto
  have v3: "(case (a_SequenceLedger (account_row e), a_SequenceTime (account_row e)) of (Some l, Some t) \<Rightarrow> Some (ucast l, t) | _ \<Rightarrow> None) = xa_V3 (Data e)"
    using v(1) by (auto simp: account_row_def Let_def IntFrom_def SeqLedger_def SeqTime_def valid_account_def ucast_up_down split: option.splits)
  have dest: "(if a_InflationDestination (account_row e) = [] then None else Some (a_InflationDestination (account_row e))) = xa_InflationDest (Data e)"
    using v(1) by (auto simp: account_row_def Let_def valid_account_def split: option.split)
  have sp: "sponsor_readable e" using v(2) by (simp add: account_readable_def)
  have "account_entry api va m (account_row e) = Inr (sorted_entry (as_entry AccountE e))"
    unfolding account_entry_def Let_def id m(2) mw v3 dest if_not_P [OF infl] if_not_P [OF no_panic [unfolded m(3)]] m(3) signers
    using addr make_entry_as [OF ok sp] by (simp add: account_row_def Let_def sorted_entry_def as_entry_def) (cases "Data e", simp add: account_id_def)
  then show ?thesis by (simp add: read_account_def id m(1))
qed

subsection \<open>Claimable balances\<close>

lemma buildClaimants_id [simp]: "buildClaimants cs = cs"
  by (induction cs) (simp_all add: buildClaimants_def)

lemma balance_claimants:
  assumes h: "claimants_hold u t" and d: "distinct (map b_BalanceID t)" and row: "row \<in> set t" and v: "distinct (map xc_Destination (b_Claimants row))"
  shows "claimantsOf (b_BalanceID row) u = map (\<lambda>c. \<lparr>c_BalanceID = b_BalanceID row, c_Destination = xc_Destination c,
    c_LastModifiedLedger = b_LastModifiedLedger row\<rparr>) (sort_key xc_Destination (b_Claimants row))"
proof -
  let ?R = "filter (\<lambda>r. c_BalanceID r = b_BalanceID row) u"
  have dc: "distinct (map c_Destination (claimant_rows row))" using v by (simp add: claimant_rows_def comp_def)
  have "row' = row" if "row' \<in> set t" "b_BalanceID row' = b_BalanceID row" for row'
    using d row that by (simp add: distinct_map inj_on_def)
  moreover have "c_BalanceID r = b_BalanceID row'" if "r \<in> set (claimant_rows row')" for r and row' :: "'a ClaimableBalance"
    using that by (auto simp: claimant_rows_def)
  ultimately have s: "set ?R = set (claimant_rows row)" using h row by (fastforce simp: claimants_hold_def)
  have dk: "distinct (map claimant_key ?R)" using h by (simp add: claimants_hold_def distinct_map_filter)
  have "distinct ?R" "distinct (claimant_rows row)" using dk dc by (simp_all only: distinct_map)
  then have "mset ?R = mset (claimant_rows row)" using s by (metis set_eq_iff_mset_eq_distinct)
  moreover have "distinct (map c_Destination ?R)" using dk by (auto simp: distinct_map inj_on_def claimant_key_def)
  ultimately show ?thesis unfolding claimantsOf_def
    by (intro sort_unique) (simp_all add: claimant_rows_def comp_def)
qed

lemma zip_map_self: "(x, y) \<in> set (zip xs (map f xs)) \<longleftrightarrow> x \<in> set xs \<and> y = f x"
  by (induction xs) auto

lemma read_balance_back:
  assumes ok: "read_api_ok api va" and h: "claimants_hold (claimants_t (state_t db)) t" and d: "distinct (map b_BalanceID t)"
    and r: "balance_row api e = Inr row" "row \<in> set t" and v: "valid_balance api e" "balance_readable e"
  shows "read_balance api va db row = Inr (sorted_entry (as_entry ClaimableBalanceE e))"
proof -
  have rw: "b_Claimants row = xb_Claimants (Data e)" "b_BalanceID row = balance_col api (balance_id e)" "b_Asset row = xb_Asset (Data e)"
    "b_Amount row = xb_Amount (Data e)" "b_Flags row = xb_Flags (Data e)" "b_LastModifiedLedger row = LastModifiedLedgerSeq e" "b_Sponsor row = SponsoringID e"
    using r(1) by (auto simp: balance_row_def balance_key_def balance_col_def balance_id_def Let_def split: sum.splits)
  have dd: "distinct (map xc_Destination (xb_Claimants (Data e)))" using v(1) by (simp add: valid_balance_def)
  have id: "SafeUnmarshalHex api (balance_col api (balance_id e)) = Inr (xb_BalanceId (Data e))"
    using v(1) balance_col [of api] by (simp add: valid_balance_def balance_id_def)
  have addr: "\<not> (\<exists>c\<in>set (xb_Claimants (Data e)). \<not> IsAddress va (xc_Destination c))" using ok v(2) by (auto simp: read_api_ok_def balance_readable_def)
  have cl: "SortClaimantsByDestination api (xb_Claimants (Data e)) = sort_key xc_Destination (xb_Claimants (Data e))"
    using ok dd by (simp add: read_api_ok_def)
  have sp: "sponsor_readable e" using v(2) by (simp add: balance_readable_def)
  note claimants = balance_claimants [OF h d r(2), unfolded rw, OF dd]
  show ?thesis
    unfolding read_balance_def claimable_balance_entry_def rw claimants if_not_P [OF addr] cl Let_def id
    using make_entry_as [OF ok sp]
    by (simp add: zip_map_self split_beta' sorted_entry_def as_entry_def del: set_zip) (cases "Data e", auto simp: zip_map_self)
qed

subsection \<open>The tables of a ledger\<close>

lemma Normalize_sorted:
  assumes "read_api_ok api va"
  shows "Normalize va (sorted_entry e) = Normalize va e"
proof -
  have "sorted_entry (sorted_entry e) = sorted_entry e" by (cases "Data e") (simp_all add: sorted_entry_def sort_key_id_if_sorted)
  with assms show ?thesis by (simp add: read_api_ok_def)
qed

lemma ledger_ok_at: "ledger_ok ident valid L \<Longrightarrow> L i = Some e \<Longrightarrow> ident e = i \<and> valid e"
  by (simp add: ledger_ok_def)

lemma held_state_reads_back:
  assumes ok: "read_api_ok api va" and h: "db_holds api (state_t db) st" and v: "state_valid api st" and rd: "state_readable va st"
  shows "reads_back va (read_account api va db) AccountE (accounts_t (state_t db)) (ls_accounts st)"
    "reads_back va (data_entry va) DataE (accounts_data_t (state_t db)) (ls_data st)"
    "reads_back va (trustLineToXDR api va) TrustLineE (trust_lines_t (state_t db)) (ls_lines st)"
    "reads_back va (read_balance api va db) ClaimableBalanceE (claimable_balances_t (state_t db)) (ls_balances st)"
proof -
  note t = h [unfolded db_holds_def]
  show "reads_back va (read_account api va db) AccountE (accounts_t (state_t db)) (ls_accounts st)"
  proof (rule reads_backI)
    show "table_holds a_AccountID (\<lambda>e. Inr (account_row e)) (accounts_t (state_t db)) (ls_accounts st)" using t by blast
    fix i e r assume e: "ls_accounts st i = Some e" and r: "Inr (account_row e) = (Inr r :: stats_error + _)"
    have ve: "account_id e = i" "valid_account e" using v e by (auto simp: state_valid_def dest: ledger_ok_at)
    have "read_account api va db (account_row e) = Inr (sorted_entry (as_entry AccountE e))"
      using read_account_back [OF ok, of db "ls_accounts st" e] t e ve rd ranI [of "ls_accounts st", OF e] by (simp add: state_readable_def)
    with r show "map_sum id (Normalize va) (read_account api va db r) = Inr (Normalize va (as_entry AccountE e))"
      by (simp add: Normalize_sorted [OF ok])
  qed auto
  show "reads_back va (data_entry va) DataE (accounts_data_t (state_t db)) (ls_data st)"
  proof (rule reads_backI)
    show "table_holds d_LedgerKey (data_row api) (accounts_data_t (state_t db)) (ls_data st)" using t by blast
    fix i e r assume e: "ls_data st i = Some e"
    have ve: "valid_data api e" "sponsor_readable e" using v e rd ranI [of "ls_data st", OF e] by (auto simp: state_valid_def state_readable_def dest: ledger_ok_at)
    then show "\<exists>r. data_row api e = Inr r" using data_t.row_key by blast
    assume r: "data_row api e = Inr r"
    from read_data [OF ok r ve] show "map_sum id (Normalize va) (data_entry va r) = Inr (Normalize va (as_entry DataE e))" by simp
  qed
  show "reads_back va (trustLineToXDR api va) TrustLineE (trust_lines_t (state_t db)) (ls_lines st)"
  proof (rule reads_backI)
    show "table_holds t_LedgerKey (xdrToTrustline api) (trust_lines_t (state_t db)) (ls_lines st)" using t by blast
    fix i e r assume e: "ls_lines st i = Some e"
    have ve: "valid_line api e" "sponsor_readable e" using v e rd ranI [of "ls_lines st", OF e] by (auto simp: state_valid_def state_readable_def dest: ledger_ok_at)
    then show "\<exists>r. xdrToTrustline api e = Inr r" using lines.row_key by blast
    assume r: "xdrToTrustline api e = Inr r"
    from read_line [OF ok r ve] show "map_sum id (Normalize va) (trustLineToXDR api va r) = Inr (Normalize va (as_entry TrustLineE e))" by simp
  qed
  show "reads_back va (read_balance api va db) ClaimableBalanceE (claimable_balances_t (state_t db)) (ls_balances st)"
  proof (rule reads_backI)
    show h': "table_holds b_BalanceID (balance_row api) (claimable_balances_t (state_t db)) (ls_balances st)" using t by blast
    fix i e r assume e: "ls_balances st i = Some e"
    have ve: "valid_balance api e" "balance_readable e" using v e rd ranI [of "ls_balances st", OF e] by (auto simp: state_valid_def state_readable_def dest: ledger_ok_at)
    then show "\<exists>r. balance_row api e = Inr r" using balances.row_key by blast
    assume r: "balance_row api e = Inr r"
    have rt: "r \<in> set (claimable_balances_t (state_t db))" "distinct (map b_BalanceID (claimable_balances_t (state_t db)))"
      using h' e r unfolding table_holds_def by blast+
    have ch: "claimants_hold (claimants_t (state_t db)) (claimable_balances_t (state_t db))" using t by blast
    show "map_sum id (Normalize va) (read_balance api va db r) = Inr (Normalize va (as_entry ClaimableBalanceE e))"
      using read_balance_back [OF ok ch rt(2) r rt(1) ve] by (simp add: Normalize_sorted [OF ok])
  qed
qed

text \<open>
  C15. What the processors write, the verifier reads back: after the changes of a ledger have been ingested, the rows of accounts with their signers, of data entries, of
  trust lines and of claimable balances with their claimants convert, without an error, to exactly the entries of the new ledger in their normal form. So the rows lose
  nothing but the order of signers and claimants, and an ingestion without faults never gives a state that the verifier rejects for one of these entries.
\<close>

theorem ingested_state_reads_back:
  assumes "state_api_ok api" "read_api_ok api va" "db_holds api (state_t db) st" "state_valid api st" "state_changes_ok api st chs"
    and "state_readable va (state_after chs st)" "ingest_state api flt chs (state_t db) = Inr s'"
  shows "reads_back va (read_account api va (db\<lparr>state_t := s'\<rparr>)) AccountE (accounts_t s') (ls_accounts (state_after chs st)) \<and>
    reads_back va (data_entry va) DataE (accounts_data_t s') (ls_data (state_after chs st)) \<and>
    reads_back va (trustLineToXDR api va) TrustLineE (trust_lines_t s') (ls_lines (state_after chs st)) \<and>
    reads_back va (read_balance api va (db\<lparr>state_t := s'\<rparr>)) ClaimableBalanceE (claimable_balances_t s') (ls_balances (state_after chs st))"
proof -
  have "db_holds api s' (state_after chs st)" using ingest_state_holds [OF assms(1,3-5), of flt] assms(7) by simp
  then show ?thesis
    using held_state_reads_back [OF assms(2), of "db\<lparr>state_t := s'\<rparr>" "state_after chs st"] state_valid_after [OF assms(4,5)] assms(6) by simp
qed

text \<open>A ledger with an account, its signer, a data entry, a trust line and a balance.\<close>

definition sorting_api :: "unit verify_api" where
  "sorting_api = plain_verify_api\<lparr>Normalize := sorted_entry\<rparr>"

definition wit_addr :: "char \<Rightarrow> string" where
  "wit_addr c = replicate 56 c"

definition back_changes :: "unit state_changes" where
  "back_changes = \<lparr>account_changes = [\<lparr>PreEntry = None, PostEntry = Some (wit_account 1 [\<lparr>sg_Key = wit_addr (CHR ''K''), sg_Weight = 2, sg_Sponsor = Some (wit_addr (CHR ''S''))\<rparr>,
       \<lparr>sg_Key = wit_addr (CHR ''B''), sg_Weight = 3, sg_Sponsor = None\<rparr>] 2)\<rparr>],
     data_changes = [\<lparr>PreEntry = None, PostEntry = Some wit_data\<rparr>], line_changes = [\<lparr>PreEntry = None, PostEntry = Some (wit_line\<lparr>SponsoringID := None\<rparr>)\<rparr>],
     balance_changes = [\<lparr>PreEntry = None, PostEntry = Some (wit_balance\<lparr>Data := (Data wit_balance)\<lparr>xb_Claimants :=
       [\<lparr>xc_Destination = wit_addr (CHR ''B''), xc_Predicate = ()\<rparr>, \<lparr>xc_Destination = wit_addr (CHR ''A''), xc_Predicate = ()\<rparr>]\<rparr>\<rparr>)\<rparr>]\<rparr>"

lemma wit_addr_simps [simp]: "length (wit_addr c) = 56" "wit_addr c \<noteq> []" "(wit_addr c = wit_addr d) = (c = d)" "replicate 56 c = wit_addr c"
  by (simp_all add: wit_addr_def)

lemma back_changes_ok: "state_changes_ok plain_api empty_state back_changes"
  using plain_api_ok [where 'a = unit]
  by (simp add: state_changes_ok_def back_changes_def empty_state_def changes_fit_def sponsor_kept_def claimants_kept_def entry_of_def
      wit_account_def wit_data_def wit_line_def wit_balance_def valid_account_def valid_data_def valid_line_def valid_balance_def
      account_id_def data_id_def line_id_def valid_line_asset_def state_api_ok_def)

lemma sorting_api_ok: "read_api_ok plain_api sorting_api"
  by (auto simp: read_api_ok_def sorting_api_def plain_verify_api_def plain_api_def extracted_def valid_asset_def split: Asset.splits)

lemma back_readable: "state_readable sorting_api (state_after back_changes empty_state)"
  by (simp add: state_readable_def state_after_def back_changes_def empty_state_def ledger_after_def entry_of_def account_readable_def balance_readable_def
      sponsor_readable_def wit_account_def wit_data_def wit_line_def wit_balance_def sorting_api_def plain_verify_api_def)

theorem ingested_state_reads_back_witness:
  "\<exists>s'. ingest_state plain_api (\<lambda>_ _. None) back_changes empty_db = Inr s' \<and>
    reads_back sorting_api (read_account plain_api sorting_api (wit_db\<lparr>state_t := s'\<rparr>)) AccountE (accounts_t s') (ls_accounts (state_after back_changes empty_state)) \<and>
    reads_back sorting_api (read_balance plain_api sorting_api (wit_db\<lparr>state_t := s'\<rparr>)) ClaimableBalanceE (claimable_balances_t s')
      (ls_balances (state_after back_changes empty_state))"
proof -
  obtain s' where s': "ingest_state plain_api (\<lambda>_ _. None) back_changes empty_db = Inr s'"
    using ingest_state_holds [OF plain_api_ok empty_holds back_changes_ok, of "\<lambda>_ _. None"]
    by (auto simp: unless_fault_def faulty_def split: sum.splits)
  have e: "state_t (wit_db\<lparr>state_t := empty_db\<rparr>) = empty_db" by simp
  note r = ingested_state_reads_back [OF plain_api_ok sorting_api_ok, of "wit_db\<lparr>state_t := empty_db\<rparr>", unfolded e,
      OF empty_holds back_changes_ok back_readable s']
  from r s' show ?thesis by auto
qed

end
