(* ===== verification/Page_Query.thy ===== *)
theory Page_Query
  imports Decimal "HOL-Library.Product_Lexorder"
begin

text \<open>
  Paging through the tables of the history database (\<open>internal/db2/page_query.go\<close>, and the pages of
  effects in \<open>internal/db2/history/effect.go\<close>): the cursor, the order and the limit of a request, what they
  add to a query, and the pages a client sees that follows the cursor of the last row. A query is the
  condition, the order and the limit it has collected (\<open>select\<close>), and \<open>run_select\<close> is its result on the
  rows of a table. The collation of text columns and the TOID package are parameters.
\<close>

subsection \<open>Page queries\<close>

record PageQuery =
  Cursor :: string
  Order :: string
  Limit :: u64

datatype page_error =
    ErrInvalidOrder
  | ErrInvalidLimit
  | ErrInvalidCursor
  | Unparseable string
  | PagingOrder string

definition OrderAscending :: string where
  "OrderAscending = ''asc''"

definition OrderDescending :: string where
  "OrderDescending = ''desc''"

definition DefaultPairSep :: string where
  "DefaultPairSep = ''-''"

definition MaxPageSize :: u64 where
  "MaxPageSize = 200"

definition MaxInt64 :: int where
  "MaxInt64 = 2 ^ 63 - 1"

definition MaxInt32 :: int where
  "MaxInt32 = 2 ^ 31 - 1"

definition CursorInt64 :: "PageQuery \<Rightarrow> page_error + int" where
  "CursorInt64 p =
     (if Cursor p = [] then
        if Order p = OrderAscending then Inr 0
        else if Order p = OrderDescending then Inr MaxInt64
        else Inl ErrInvalidOrder
      else case ParseInt 64 (Cursor p) of
          None \<Rightarrow> Inl ErrInvalidCursor
        | Some i \<Rightarrow> if i < 0 then Inl ErrInvalidCursor else Inr i)"

text \<open>\<open>strings.SplitN(s, sep, 2)\<close> for a separator that is not empty.\<close>

fun SplitN2 :: "string \<Rightarrow> string \<Rightarrow> string list" where
  "SplitN2 sep [] = [[]]"
| "SplitN2 sep (c # cs) =
     (if take (length sep) (c # cs) = sep then [[], drop (length sep) (c # cs)]
      else case SplitN2 sep cs of
          [] \<Rightarrow> [[c]]
        | part # parts \<Rightarrow> (c # part) # parts)"

definition CursorInt64Pair :: "string \<Rightarrow> PageQuery \<Rightarrow> page_error + int \<times> int" where
  "CursorInt64Pair sep p =
     (if Cursor p = [] then
        if Order p = OrderAscending then Inr (0, 0)
        else if Order p = OrderDescending then Inr (MaxInt64, MaxInt64)
        else Inl ErrInvalidOrder
      else
        let parts = SplitN2 sep (Cursor p);
            parts = (if length parts \<noteq> 2 then parts @ [Int_String MaxInt64] else parts) in
        case ParseInt 64 (parts ! 0) of
          None \<Rightarrow> Inl (Unparseable ''first component unparseable'')
        | Some l \<Rightarrow> (case ParseInt 64 (parts ! 1) of
              None \<Rightarrow> Inl (Unparseable ''second component unparseable'')
            | Some r \<Rightarrow> if l < 0 \<or> r < 0 then Inl ErrInvalidCursor else Inr (l, r)))"

definition Invert :: "PageQuery \<Rightarrow> PageQuery" where
  "Invert p =
     (if Order p = OrderAscending then p\<lparr>Order := OrderDescending\<rparr>
      else if Order p = OrderDescending then p\<lparr>Order := OrderAscending\<rparr>
      else p)"

definition NewPageQuery :: "string \<Rightarrow> bool \<Rightarrow> string \<Rightarrow> u64 \<Rightarrow> page_error + PageQuery" where
  "NewPageQuery cursor validateCursor order limit =
     (if order \<notin> {[], OrderAscending, OrderDescending} then Inl ErrInvalidOrder
      else
        let p = \<lparr>Cursor = cursor, Order = (if order = [] then OrderAscending else order), Limit = 0\<rparr> in
        if validateCursor \<and> (case CursorInt64Pair DefaultPairSep p of Inl e \<Rightarrow> True | Inr lr \<Rightarrow> False)
        then Inl ErrInvalidCursor
        else if limit = 0 then Inl ErrInvalidLimit
        else if MaxPageSize < limit then Inl ErrInvalidLimit
        else Inr (p\<lparr>Limit := limit\<rparr>))"

text \<open>\<open>MustPageQuery\<close>; \<open>None\<close> is its panic.\<close>

definition MustPageQuery :: "string \<Rightarrow> bool \<Rightarrow> string \<Rightarrow> u64 \<Rightarrow> PageQuery option" where
  "MustPageQuery cursor validateCursor order limit = (case NewPageQuery cursor validateCursor order limit of
       Inl e \<Rightarrow> None
     | Inr p \<Rightarrow> Some p)"

subsection \<open>Queries\<close>

text \<open>The ordering a query has: none yet, or that of its key column, ascending or descending.\<close>

datatype ordering = Unordered | Ascending | Descending

record 'r select =
  sel_where :: "'r \<Rightarrow> bool"
  sel_order :: ordering
  sel_limit :: "u64 option"

definition selectAll :: "'r select" where
  "selectAll = \<lparr>sel_where = (\<lambda>r. True), sel_order = Unordered, sel_limit = None\<rparr>"

definition and_where :: "('r \<Rightarrow> bool) \<Rightarrow> 'r select \<Rightarrow> 'r select" where
  "and_where c sql = sql\<lparr>sel_where := (\<lambda>r. sel_where sql r \<and> c r)\<rparr>"

definition run_select :: "('r \<Rightarrow> 'k::linorder) \<Rightarrow> 'r select \<Rightarrow> 'r list \<Rightarrow> 'r list" where
  "run_select col sql rows =
     (let found = filter (sel_where sql) rows;
          ordered = (case sel_order sql of
              Unordered \<Rightarrow> found
            | Ascending \<Rightarrow> sort_key col found
            | Descending \<Rightarrow> rev (sort_key col found)) in
      case sel_limit sql of None \<Rightarrow> ordered | Some n \<Rightarrow> take (unat n) ordered)"

text \<open>The cursor is \<open>None\<close> for the empty string.\<close>

definition ApplyToUsingCursor ::
    "PageQuery \<Rightarrow> ('r \<Rightarrow> 'k::linorder) \<Rightarrow> 'k option \<Rightarrow> 'r select \<Rightarrow> page_error + 'r select" where
  "ApplyToUsingCursor p col cursor sql =
     (let sql = sql\<lparr>sel_limit := Some (Limit p)\<rparr> in
      if Order p = ''asc'' then (case cursor of
          None \<Rightarrow> Inr (sql\<lparr>sel_order := Ascending\<rparr>)
        | Some c \<Rightarrow> Inr ((and_where (\<lambda>r. c < col r) sql)\<lparr>sel_order := Ascending\<rparr>))
      else if Order p = ''desc'' then (case cursor of
          None \<Rightarrow> Inr (sql\<lparr>sel_order := Descending\<rparr>)
        | Some c \<Rightarrow> Inr ((and_where (\<lambda>r. col r < c) sql)\<lparr>sel_order := Descending\<rparr>))
      else Inl (PagingOrder (Order p)))"

definition ApplyTo :: "PageQuery \<Rightarrow> ('r \<Rightarrow> int) \<Rightarrow> 'r select \<Rightarrow> page_error + 'r select" where
  "ApplyTo p col sql = (case CursorInt64 p of
       Inl e \<Rightarrow> Inl e
     | Inr cursor \<Rightarrow> ApplyToUsingCursor p col (Some cursor) sql)"

definition ApplyRawTo :: "(string \<Rightarrow> 'k::linorder) \<Rightarrow> PageQuery \<Rightarrow> ('r \<Rightarrow> 'k) \<Rightarrow> 'r select \<Rightarrow> page_error + 'r select" where
  "ApplyRawTo collate p col sql =
     ApplyToUsingCursor p col (if Cursor p = [] then None else Some (collate (Cursor p))) sql"

subsection \<open>Pages of effects\<close>

record effect_row =
  HistoryAccountID :: int
  HistoryOperationID :: int
  EffectOrder :: int

definition effect_key :: "effect_row \<Rightarrow> int \<times> int" where
  "effect_key r = (HistoryOperationID r, EffectOrder r)"

definition PagingToken :: "effect_row \<Rightarrow> string" where
  "PagingToken r = Int_String (HistoryOperationID r) @ ''-'' @ Int_String (EffectOrder r)"

text \<open>
  What is used of the TOID package: the identifiers \<open>AfterLedger(n)\<close> and \<open>ID{LedgerSequence: n}\<close>, and the one that
  follows an operation or a transaction.
\<close>

record toid_api =
  AfterLedger :: "int \<Rightarrow> int"
  LedgerID :: "int \<Rightarrow> int"
  IncOperationOrder :: "int \<Rightarrow> int"
  IncTransactionOrder :: "int \<Rightarrow> int"

definition parseEffectsCursor :: "PageQuery \<Rightarrow> page_error + int \<times> int" where
  "parseEffectsCursor page = (case CursorInt64Pair DefaultPairSep page of
       Inl e \<Rightarrow> Inl e
     | Inr (op, idx) \<Rightarrow> Inr (op, if MaxInt32 < idx then MaxInt32 else idx))"

definition genesisLedger :: int where
  "genesisLedger = 2"

definition lowestLedgerBound :: "toid_api \<Rightarrow> int \<Rightarrow> int" where
  "lowestLedgerBound toid oldestLedger =
     (if oldestLedger \<le> genesisLedger then 0 else AfterLedger toid (oldestLedger - 1))"

definition above_lowest :: "toid_api \<Rightarrow> int \<Rightarrow> effect_row select \<Rightarrow> effect_row select" where
  "above_lowest toid oldestLedger query =
     (let lowerBound = lowestLedgerBound toid oldestLedger in
      if 0 < lowerBound then and_where (\<lambda>r. lowerBound < HistoryOperationID r) query else query)"

text \<open>The query without other constraints, which compares rows of the two columns.\<close>

definition Effects :: "toid_api \<Rightarrow> PageQuery \<Rightarrow> int \<Rightarrow> effect_row list \<Rightarrow> page_error + effect_row list" where
  "Effects toid page oldestLedger rows = (case parseEffectsCursor page of
       Inl e \<Rightarrow> Inl e
     | Inr (op, idx) \<Rightarrow>
         let query =
           (if Order page = ''asc''
            then (and_where (\<lambda>r. (op, idx) < effect_key r) selectAll)\<lparr>sel_order := Ascending\<rparr>
            else if Order page = ''desc''
            then (and_where (\<lambda>r. effect_key r < (op, idx)) (above_lowest toid oldestLedger selectAll))\<lparr>sel_order := Descending\<rparr>
            else selectAll) in
         Inr (run_select effect_key (query\<lparr>sel_limit := Some (Limit page)\<rparr>) rows))"

definition selectEffectsPage ::
    "toid_api \<Rightarrow> effect_row select \<Rightarrow> PageQuery \<Rightarrow> int \<Rightarrow> effect_row list \<Rightarrow> page_error + effect_row list" where
  "selectEffectsPage toid query page oldestLedger rows = (case parseEffectsCursor page of
       Inl e \<Rightarrow> Inl e
     | Inr (op, idx) \<Rightarrow>
         let query =
           (if Order page = ''asc''
            then (and_where (\<lambda>r. op \<le> HistoryOperationID r \<and>
                (op < HistoryOperationID r \<or> HistoryOperationID r = op \<and> idx < EffectOrder r)) query)\<lparr>sel_order := Ascending\<rparr>
            else if Order page = ''desc''
            then (and_where (\<lambda>r. HistoryOperationID r \<le> op \<and>
                (HistoryOperationID r < op \<or> HistoryOperationID r = op \<and> EffectOrder r < idx))
                  (above_lowest toid oldestLedger query))\<lparr>sel_order := Descending\<rparr>
            else query) in
         Inr (run_select effect_key (query\<lparr>sel_limit := Some (Limit page)\<rparr>) rows))"

text \<open>
  The pages of the effects of an account, a ledger, an operation and a transaction. The row that is looked
  up first is an argument, with the error of the lookup.
\<close>

definition EffectsForAccount ::
    "toid_api \<Rightarrow> page_error + int \<Rightarrow> PageQuery \<Rightarrow> int \<Rightarrow> effect_row list \<Rightarrow> page_error + effect_row list" where
  "EffectsForAccount toid account page oldestLedger rows = (case account of
       Inl e \<Rightarrow> Inl e
     | Inr accountID \<Rightarrow> selectEffectsPage toid (and_where (\<lambda>r. HistoryAccountID r = accountID) selectAll) page oldestLedger rows)"

definition between :: "int \<Rightarrow> int \<Rightarrow> effect_row select" where
  "between from until = and_where (\<lambda>r. from \<le> HistoryOperationID r \<and> HistoryOperationID r < until) selectAll"

definition EffectsForLedger ::
    "toid_api \<Rightarrow> page_error + unit \<Rightarrow> int \<Rightarrow> PageQuery \<Rightarrow> effect_row list \<Rightarrow> page_error + effect_row list" where
  "EffectsForLedger toid ledger seq page rows = (case ledger of
       Inl e \<Rightarrow> Inl e
     | Inr _ \<Rightarrow> selectEffectsPage toid (between (LedgerID toid seq) (LedgerID toid (seq + 1))) page 0 rows)"

definition EffectsForOperation ::
    "toid_api \<Rightarrow> int \<Rightarrow> PageQuery \<Rightarrow> effect_row list \<Rightarrow> page_error + effect_row list" where
  "EffectsForOperation toid opID page rows = selectEffectsPage toid (between opID (IncOperationOrder toid opID)) page 0 rows"

definition EffectsForTransaction ::
    "toid_api \<Rightarrow> page_error + int \<Rightarrow> PageQuery \<Rightarrow> effect_row list \<Rightarrow> page_error + effect_row list" where
  "EffectsForTransaction toid tx page rows = (case tx of
       Inl e \<Rightarrow> Inl e
     | Inr txID \<Rightarrow> selectEffectsPage toid (between txID (IncTransactionOrder toid txID)) page 0 rows)"

text \<open>
  The effects of a liquidity pool: first the operations of the pool from the cursor on, as many as the
  page may have rows, then the page among their effects. \<open>poolOperations\<close> are the operations of the pool in
  \<open>history_operation_liquidity_pools\<close>.
\<close>

definition EffectsForLiquidityPool ::
    "toid_api \<Rightarrow> int list \<Rightarrow> PageQuery \<Rightarrow> int \<Rightarrow> effect_row list \<Rightarrow> page_error + effect_row list" where
  "EffectsForLiquidityPool toid poolOperations page oldestLedger rows =
     (case CursorInt64Pair DefaultPairSep page of
        Inl e \<Rightarrow> Inl e
      | Inr (op, idx) \<Rightarrow>
          if Order page \<notin> {''asc'', ''desc''} then Inl (PagingOrder (Order page))
          else
            let sql = (if Order page = ''asc''
                  then (and_where (\<lambda>o'. op \<le> o') selectAll)\<lparr>sel_order := Ascending, sel_limit := Some (Limit page)\<rparr>
                  else (and_where (\<lambda>o'. o' \<le> op) selectAll)\<lparr>sel_order := Descending, sel_limit := Some (Limit page)\<rparr>);
                ids = run_select (\<lambda>o'. o') sql poolOperations in
            selectEffectsPage toid (and_where (\<lambda>r. HistoryOperationID r \<in> set ids) selectAll) page oldestLedger rows)"

subsection \<open>Following the cursor\<close>

text \<open>A client that asks for pages until one is empty, each time with the cursor of the last row it saw.\<close>

fun walk :: "(string \<Rightarrow> 'r list) \<Rightarrow> ('r \<Rightarrow> string) \<Rightarrow> string \<Rightarrow> nat \<Rightarrow> 'r list list" where
  "walk page token cursor 0 = []"
| "walk page token cursor (Suc n) =
     (let rs = page cursor in if rs = [] then [] else rs # walk page token (token (last rs)) n)"

locale paged_query =
  fixes ok :: "'q \<Rightarrow> bool" and all_rows :: "'q \<Rightarrow> 'r list" and page :: "'q \<Rightarrow> string \<Rightarrow> 'r list"
    and token :: "'r \<Rightarrow> string" and size :: "'q \<Rightarrow> nat"
  assumes size_pos: "\<And>q. ok q \<Longrightarrow> 0 < size q"
    and first_page: "\<And>q. ok q \<Longrightarrow> page q [] = take (size q) (all_rows q)"
    and next_page: "\<And>q ys r zs. ok q \<Longrightarrow> all_rows q = ys @ r # zs \<Longrightarrow> page q (token r) = take (size q) zs"
begin

lemma walk_rest:
  assumes "ok q" "all_rows q = xs @ zs" "page q cursor = take (size q) zs" "length zs \<le> n"
  shows "concat (walk (page q) token cursor (Suc n)) = zs \<and>
    (\<forall>rs\<in>set (walk (page q) token cursor (Suc n)). rs \<noteq> [] \<and> length rs \<le> size q)"
  using assms(2-)
proof (induction n arbitrary: xs zs cursor)
  case 0
  then show ?case by simp
next
  case (Suc n)
  show ?case
  proof (cases zs)
    case Nil
    with Suc.prems show ?thesis by simp
  next
    case (Cons z zs')
    let ?rs = "take (size q) zs" and ?rest = "drop (size q) zs"
    have ne: "?rs \<noteq> []" using Cons size_pos [OF assms(1)] by simp
    have "all_rows q = xs @ (butlast ?rs @ [last ?rs]) @ ?rest"
      unfolding append_butlast_last_id [OF ne] append_take_drop_id by (rule Suc.prems(1))
    then have "all_rows q = (xs @ butlast ?rs) @ last ?rs # ?rest" by simp
    from next_page [OF assms(1) this] have next': "page q (token (last ?rs)) = take (size q) ?rest" .
    have "all_rows q = (xs @ ?rs) @ ?rest" using Suc.prems(1) by simp
    moreover have "length ?rest \<le> n" using Suc.prems(3) Cons size_pos [OF assms(1)] by simp
    ultimately have ih: "concat (walk (page q) token (token (last ?rs)) (Suc n)) = ?rest \<and>
        (\<forall>rs\<in>set (walk (page q) token (token (last ?rs)) (Suc n)). rs \<noteq> [] \<and> length rs \<le> size q)"
      using Suc.IH [OF _ next'] by blast
    have "walk (page q) token cursor (Suc (Suc n)) = ?rs # walk (page q) token (token (last ?rs)) (Suc n)"
      using ne Suc.prems(2) by (subst walk.simps) (simp add: Let_def del: walk.simps)
    with ih ne show ?thesis by (simp del: walk.simps)
  qed
qed

lemma walk_all:
  assumes "ok q" "length (all_rows q) \<le> n"
  shows "concat (walk (page q) token [] (Suc n)) = all_rows q \<and>
    (\<forall>rs\<in>set (walk (page q) token [] (Suc n)). rs \<noteq> [] \<and> length rs \<le> size q)"
  by (rule walk_rest [OF assms(1), of "[]"]) (use first_page [OF assms(1)] assms(2) in simp_all)

end

lemma filter_above:
  assumes "sorted (map f (ys @ r # zs))" "distinct (map f (ys @ r # zs))"
  shows "filter (\<lambda>x. f r < f x) (ys @ r # zs) = zs" "filter (\<lambda>x. f x < f r) (ys @ r # zs) = ys"
proof -
  have "\<forall>y\<in>set ys. f y \<le> f r" "\<forall>z\<in>set zs. f r \<le> f z" using assms(1) by (simp_all add: sorted_append)
  moreover have "f r \<notin> f ` set ys" "f r \<notin> f ` set zs" using assms(2) by auto
  ultimately have "\<forall>y\<in>set ys. f y < f r" "\<forall>z\<in>set zs. f r < f z" by (metis imageI le_neq_trans)+
  then show "filter (\<lambda>x. f r < f x) (ys @ r # zs) = zs" "filter (\<lambda>x. f x < f r) (ys @ r # zs) = ys"
    by (auto simp: filter_id_conv filter_empty_conv)
qed

text \<open>A key-ordered page after a row of the ordered table is the next stretch of that table.\<close>

lemma page_after:
  assumes "distinct (map f rows)"
  shows "sort_key f rows = ys @ r # zs \<Longrightarrow> sort_key f (filter (\<lambda>x. f r < f x) rows) = zs"
    and "rev (sort_key f rows) = ys @ r # zs \<Longrightarrow> rev (sort_key f (filter (\<lambda>x. f x < f r) rows)) = zs"
proof -
  have d: "distinct (map f (sort_key f rows))" using assms by (simp add: distinct_map)
  show "sort_key f (filter (\<lambda>x. f r < f x) rows) = zs" if e: "sort_key f rows = ys @ r # zs"
    using filter_above(1) [of f ys r zs] d sorted_sort_key [of f rows] unfolding filter_sort [symmetric] e by blast
  show "rev (sort_key f (filter (\<lambda>x. f x < f r) rows)) = zs" if "rev (sort_key f rows) = ys @ r # zs"
  proof -
    have e: "sort_key f rows = rev zs @ r # rev ys" using arg_cong [OF that, of rev] by simp
    show ?thesis
      using filter_above(2) [of f "rev zs" r "rev ys"] d sorted_sort_key [of f rows] unfolding filter_sort [symmetric] e by simp
  qed
qed

subsection \<open>Cursors are read back\<close>

lemma ParseInt_String: "0 \<le> i \<Longrightarrow> i \<le> MaxInt64 \<Longrightarrow> ParseInt 64 (Int_String i) = Some i"
  by (simp add: ParseInt_def MaxInt64_def)

lemma Int_String_not_Nil: "Int_String i \<noteq> []"
  using Int_SetString_String [of i] by (auto simp: Int_SetString_def)

lemma SplitN2_none: "CHR ''-'' \<notin> set xs \<Longrightarrow> SplitN2 ''-'' (xs @ CHR ''-'' # ys) = [xs, ys]"
  by (induction xs) auto

lemma Int_String_no_sep: "0 \<le> i \<Longrightarrow> CHR ''-'' \<notin> set (Int_String i)"
proof
  assume "0 \<le> i" "CHR ''-'' \<in> set (Int_String i)"
  then have "CHR ''-'' \<in> digit_char ` {..<10}" using nat_string_digits [of "nat i"] by (auto simp: Int_String_def)
  then obtain d where "d < 10" "digit_char d = CHR ''-''" by auto
  with digit_char_not_sign [of d] show False by blast
qed

lemma CursorInt64_token:
  "0 \<le> i \<Longrightarrow> i \<le> MaxInt64 \<Longrightarrow> CursorInt64 (p\<lparr>Cursor := Int_String i\<rparr>) = Inr i"
  by (simp add: CursorInt64_def Int_String_not_Nil ParseInt_String)

lemma CursorInt64Pair_token:
  assumes "0 \<le> l" "l \<le> MaxInt64" "0 \<le> r" "r \<le> MaxInt64"
  shows "CursorInt64Pair DefaultPairSep (p\<lparr>Cursor := Int_String l @ CHR ''-'' # Int_String r\<rparr>) = Inr (l, r)"
  using assms by (simp add: CursorInt64Pair_def DefaultPairSep_def Int_String_not_Nil SplitN2_none Int_String_no_sep ParseInt_String)

subsection \<open>Pages by identifier\<close>

definition id_page :: "PageQuery \<times> int list \<Rightarrow> string \<Rightarrow> int list" where
  "id_page q cursor = (case q of (p, ids) \<Rightarrow>
     (case ApplyTo (p\<lparr>Cursor := cursor\<rparr>) (\<lambda>i. i) selectAll of Inl e \<Rightarrow> [] | Inr sql \<Rightarrow> run_select (\<lambda>i. i) sql ids))"

definition id_rows :: "PageQuery \<times> int list \<Rightarrow> int list" where
  "id_rows q = (case q of (p, ids) \<Rightarrow> if Order p = OrderAscending then sort_key (\<lambda>i. i) ids else rev (sort_key (\<lambda>i. i) ids))"

definition page_ok :: "PageQuery \<Rightarrow> bool" where
  "page_ok p \<longleftrightarrow> (Order p = OrderAscending \<or> Order p = OrderDescending) \<and> 0 < Limit p \<and> Limit p \<le> MaxPageSize"

definition id_ok :: "PageQuery \<times> int list \<Rightarrow> bool" where
  "id_ok q = (case q of (p, ids) \<Rightarrow> page_ok p \<and> distinct ids \<and> (\<forall>i\<in>set ids. 0 < i \<and> i < MaxInt64))"

lemma orders [simp]: "OrderDescending \<noteq> OrderAscending" "OrderAscending = ''asc''" "OrderDescending = ''desc''"
  by (simp_all add: OrderAscending_def OrderDescending_def)

lemma unat_positive: "0 < (l :: u64) \<Longrightarrow> 0 < unat l"
  by (simp add: unat_gt_0)

lemma id_page_at:
  assumes "page_ok p" "CursorInt64 (p\<lparr>Cursor := cursor\<rparr>) = Inr c"
  shows "id_page (p, ids) cursor = take (unat (Limit p))
    (if Order p = OrderAscending then sort_key (\<lambda>i. i) (filter (\<lambda>i. c < i) ids) else rev (sort_key (\<lambda>i. i) (filter (\<lambda>i. i < c) ids)))"
  using assms by (auto simp: id_page_def ApplyTo_def ApplyToUsingCursor_def run_select_def and_where_def selectAll_def page_ok_def)

interpretation ids: paged_query id_ok id_rows id_page Int_String "\<lambda>q. unat (Limit (fst q))"
proof
  fix q assume ok: "id_ok q"
  obtain p ids where q: "q = (p, ids)" by (cases q)
  have p: "page_ok p" and d: "distinct (map (\<lambda>i. i) ids)" and bd: "\<forall>i\<in>set ids. 0 < i \<and> i < MaxInt64"
    using ok by (auto simp: q id_ok_def)
  show "0 < unat (Limit (fst q))" using p unat_positive by (simp add: q page_ok_def)
  have "CursorInt64 (p\<lparr>Cursor := []\<rparr>) = Inr (if Order p = OrderAscending then 0 else MaxInt64)"
    using p by (auto simp: CursorInt64_def page_ok_def)
  moreover have "filter (\<lambda>i. 0 < i) ids = ids" "filter (\<lambda>i. i < MaxInt64) ids = ids" using bd by (simp_all add: filter_id_conv)
  ultimately show "id_page q [] = take (unat (Limit (fst q))) (id_rows q)"
    unfolding q by (simp add: id_page_at [OF p] id_rows_def)
  fix ys r zs assume e: "id_rows q = ys @ r # zs"
  have "r \<in> set (id_rows q)" using e by simp
  then have "r \<in> set ids" by (simp add: q id_rows_def split: if_splits)
  then have "CursorInt64 (p\<lparr>Cursor := Int_String r\<rparr>) = Inr r" using bd by (intro CursorInt64_token) auto
  from id_page_at [OF p this, of ids] show "id_page q (Int_String r) = take (unat (Limit (fst q))) zs"
    using e page_after [OF d] unfolding q id_rows_def by (simp split: if_splits)
qed

subsection \<open>Pages of effects\<close>

type_synonym effect_query = "toid_api \<times> PageQuery \<times> int \<times> effect_row list"

definition effect_page :: "effect_query \<Rightarrow> string \<Rightarrow> effect_row list" where
  "effect_page q cursor = (case q of (toid, p, oldest, rows) \<Rightarrow>
     (case Effects toid (p\<lparr>Cursor := cursor\<rparr>) oldest rows of Inl e \<Rightarrow> [] | Inr rs \<Rightarrow> rs))"

definition retained :: "toid_api \<Rightarrow> int \<Rightarrow> effect_row \<Rightarrow> bool" where
  "retained toid oldest r \<longleftrightarrow> lowestLedgerBound toid oldest \<le> 0 \<or> lowestLedgerBound toid oldest < HistoryOperationID r"

definition effect_rows :: "effect_query \<Rightarrow> effect_row list" where
  "effect_rows q = (case q of (toid, p, oldest, rows) \<Rightarrow>
     if Order p = OrderAscending then sort_key effect_key rows
     else rev (sort_key effect_key (filter (retained toid oldest) rows)))"

definition effects_ok :: "effect_query \<Rightarrow> bool" where
  "effects_ok q = (case q of (toid, p, oldest, rows) \<Rightarrow> page_ok p \<and> distinct (map effect_key rows) \<and>
     (\<forall>r\<in>set rows. 0 < HistoryOperationID r \<and> HistoryOperationID r < MaxInt64 \<and> 0 \<le> EffectOrder r \<and> EffectOrder r \<le> MaxInt32))"

lemma effect_page_at:
  assumes "page_ok p" "parseEffectsCursor (p\<lparr>Cursor := cursor\<rparr>) = Inr c"
  shows "effect_page (toid, p, oldest, rows) cursor = take (unat (Limit p))
    (if Order p = OrderAscending then sort_key effect_key (filter (\<lambda>r. c < effect_key r) rows)
     else rev (sort_key effect_key (filter (\<lambda>r. effect_key r < c) (filter (retained toid oldest) rows))))"
proof -
  have "filter (sel_where (and_where (\<lambda>r. effect_key r < c) (above_lowest toid oldest selectAll))) rows =
      filter (\<lambda>r. effect_key r < c) (filter (retained toid oldest) rows)"
    by (auto simp: above_lowest_def and_where_def selectAll_def retained_def Let_def not_less conj_commute intro!: filter_cong)
  with assms show ?thesis
    by (auto simp: effect_page_def Effects_def run_select_def page_ok_def and_where_def selectAll_def split_beta Let_def)
qed

lemma parseEffectsCursor_token:
  assumes "0 < HistoryOperationID r" "HistoryOperationID r < MaxInt64" "0 \<le> EffectOrder r" "EffectOrder r \<le> MaxInt32"
  shows "parseEffectsCursor (p\<lparr>Cursor := PagingToken r\<rparr>) = Inr (effect_key r)"
proof -
  have "EffectOrder r \<le> MaxInt64" using assms(4) by (simp add: MaxInt32_def MaxInt64_def)
  with assms show ?thesis by (simp add: parseEffectsCursor_def PagingToken_def effect_key_def CursorInt64Pair_token)
qed

interpretation effects: paged_query effects_ok effect_rows effect_page PagingToken "\<lambda>(toid, p, oldest, rows). unat (Limit p)"
proof
  fix q assume ok: "effects_ok q"
  obtain toid p oldest rows where q: "q = (toid, p, oldest, rows)" by (cases q)
  have p: "page_ok p" and d: "distinct (map effect_key rows)" and bd: "\<forall>r\<in>set rows. 0 < HistoryOperationID r \<and>
      HistoryOperationID r < MaxInt64 \<and> 0 \<le> EffectOrder r \<and> EffectOrder r \<le> MaxInt32"
    using ok by (auto simp: q effects_ok_def)
  show "0 < (case q of (toid, p, oldest, rows) \<Rightarrow> unat (Limit p))" using p unat_positive by (simp add: q page_ok_def)
  have "parseEffectsCursor (p\<lparr>Cursor := []\<rparr>) = Inr (if Order p = OrderAscending then (0, 0) else (MaxInt64, MaxInt32))"
    using p by (auto simp: parseEffectsCursor_def CursorInt64Pair_def page_ok_def MaxInt32_def MaxInt64_def)
  moreover have "filter (\<lambda>r. (0, 0) < effect_key r) rows = rows"
    by (rule filter_True) (use bd in \<open>auto simp: effect_key_def less_prod_simp\<close>)
  moreover have "filter (\<lambda>r. effect_key r < (MaxInt64, MaxInt32)) (filter (retained toid oldest) rows) = filter (retained toid oldest) rows"
    by (rule filter_True) (use bd in \<open>auto simp: effect_key_def less_prod_simp\<close>)
  ultimately show "effect_page q [] = take (case q of (toid, p, oldest, rows) \<Rightarrow> unat (Limit p)) (effect_rows q)"
    unfolding q by (simp add: effect_page_at [OF p] effect_rows_def)
  fix ys r zs assume e: "effect_rows q = ys @ r # zs"
  have "r \<in> set (effect_rows q)" using e by simp
  then have "r \<in> set rows" by (simp add: q effect_rows_def split: if_splits)
  then have "parseEffectsCursor (p\<lparr>Cursor := PagingToken r\<rparr>) = Inr (effect_key r)" using bd by (intro parseEffectsCursor_token) auto
  moreover have "distinct (map effect_key (filter (retained toid oldest) rows))" using d by (simp add: distinct_map_filter)
  ultimately show "effect_page q (PagingToken r) = take (case q of (toid, p, oldest, rows) \<Rightarrow> unat (Limit p)) zs"
    using e page_after [OF d] page_after(2) [of effect_key "filter (retained toid oldest) rows"] unfolding q effect_rows_def
    by (simp add: effect_page_at [OF p] split: if_splits)
qed

subsection \<open>Properties\<close>

lemma NewPageQuery_iff:
  "NewPageQuery cursor validate order limit = Inr p \<longleftrightarrow>
     page_ok p \<and> Limit p = limit \<and> Cursor p = cursor \<and> Order p = (if order = [] then OrderAscending else order) \<and>
     (validate \<longrightarrow> (\<exists>l r. CursorInt64Pair DefaultPairSep p = Inr (l, r) \<and> 0 \<le> l \<and> l \<le> MaxInt64 \<and> 0 \<le> r \<and> r \<le> MaxInt64))"
proof -
  have bound: "0 \<le> fst lr \<and> fst lr \<le> MaxInt64 \<and> 0 \<le> snd lr \<and> snd lr \<le> MaxInt64"
    if "CursorInt64Pair DefaultPairSep q = Inr lr" for q lr
    using that by (auto simp: CursorInt64Pair_def ParseInt_def MaxInt64_def Let_def split: if_splits option.splits)
  have same: "CursorInt64Pair sep (q\<lparr>Limit := l\<rparr>) = CursorInt64Pair sep q" for sep q l by (simp add: CursorInt64Pair_def)
  have valid: "(case CursorInt64Pair DefaultPairSep q of Inl e \<Rightarrow> False | Inr lr \<Rightarrow> True) \<longleftrightarrow>
      (\<exists>l r. CursorInt64Pair DefaultPairSep q = Inr (l, r) \<and> 0 \<le> l \<and> l \<le> MaxInt64 \<and> 0 \<le> r \<and> r \<le> MaxInt64)" for q
    using bound [of q] by (auto split: sum.split)
  let ?q = "\<lparr>Cursor = cursor, Order = (if order = [] then OrderAscending else order), Limit = limit\<rparr>"
  have "CursorInt64Pair DefaultPairSep (?q\<lparr>Limit := 0\<rparr>) = CursorInt64Pair DefaultPairSep ?q" by (rule same)
  then have "NewPageQuery cursor validate order limit = Inr p \<longleftrightarrow> order \<in> {[], OrderAscending, OrderDescending} \<and>
      (validate \<longrightarrow> (case CursorInt64Pair DefaultPairSep ?q of Inl e \<Rightarrow> False | Inr lr \<Rightarrow> True)) \<and>
      0 < limit \<and> limit \<le> MaxPageSize \<and> p = ?q"
    by (auto simp: NewPageQuery_def Let_def not_less word_gt_0 split: sum.split)
  also have "\<dots> \<longleftrightarrow> page_ok p \<and> p = ?q \<and> (validate \<longrightarrow> (case CursorInt64Pair DefaultPairSep p of Inl e \<Rightarrow> False | Inr lr \<Rightarrow> True))"
    by (auto simp: page_ok_def)
  finally show ?thesis unfolding valid by (cases p) auto
qed

text \<open>
  The query for all effects, which compares the pair of columns with the cursor, returns the same page
  as the query the other effect requests use, which compares the columns one after the other.
\<close>

theorem Effects_same_as_generic_page:
  "Effects toid page oldestLedger rows = selectEffectsPage toid selectAll page oldestLedger rows"
proof -
  have lt: "(op, idx) < effect_key r \<longleftrightarrow> op \<le> HistoryOperationID r \<and> (op < HistoryOperationID r \<or> HistoryOperationID r = op \<and> idx < EffectOrder r)"
    "effect_key r < (op, idx) \<longleftrightarrow> HistoryOperationID r \<le> op \<and> (HistoryOperationID r < op \<or> HistoryOperationID r = op \<and> EffectOrder r < idx)"
    for op idx r by (auto simp: effect_key_def)
  show ?thesis unfolding Effects_def selectEffectsPage_def lt ..
qed

definition follow_effects :: "toid_api \<Rightarrow> PageQuery \<Rightarrow> int \<Rightarrow> effect_row list \<Rightarrow> nat \<Rightarrow> effect_row list list" where
  "follow_effects toid p oldest rows n =
     walk (\<lambda>cursor. case Effects toid (p\<lparr>Cursor := cursor\<rparr>) oldest rows of Inl e \<Rightarrow> [] | Inr rs \<Rightarrow> rs) PagingToken [] n"

text \<open>
  C32. Following the cursors visits everything once. Whatever the order and the limit of a page query
  that \<open>NewPageQuery\<close> accepted, a client that starts without a cursor and continues with the paging token of
  the last effect it saw gets, page by page, all the effects in the order asked for, none twice: those of
  the table when the order is ascending, those above the retention bound when it is descending. No page is
  empty or longer than the limit, which is at most the maximum, and there are no more pages than effects. The table has each pair
  of operation and order once, with identifiers that are positive and below the greatest integer.
\<close>

theorem effect_pages_visit_all:
  assumes "NewPageQuery [] validate order limit = Inr p" "distinct (map effect_key rows)"
    and "\<forall>r\<in>set rows. 0 < HistoryOperationID r \<and> HistoryOperationID r < MaxInt64 \<and> 0 \<le> EffectOrder r \<and> EffectOrder r \<le> MaxInt32"
    and "length rows \<le> n"
  shows "concat (follow_effects toid p oldest rows (Suc n)) = (if Order p = OrderAscending then sort_key effect_key rows
      else rev (sort_key effect_key (filter (\<lambda>r. lowestLedgerBound toid oldest \<le> 0 \<or> lowestLedgerBound toid oldest < HistoryOperationID r) rows))) \<and>
    (\<forall>rs\<in>set (follow_effects toid p oldest rows (Suc n)). rs \<noteq> [] \<and> length rs \<le> unat limit) \<and> unat limit \<le> 200"
proof -
  have p: "page_ok p" "Limit p = limit" using assms(1) unfolding NewPageQuery_iff by simp_all
  then have max: "unat limit \<le> 200" by (simp add: page_ok_def MaxPageSize_def word_le_nat_alt)
  let ?q = "(toid, p, oldest, rows)"
  have ok: "effects_ok ?q" using p assms(2,3) by (simp add: effects_ok_def)
  have len: "length (effect_rows ?q) \<le> n"
    using le_trans [OF length_filter_le [of "retained toid oldest" rows] assms(4)] assms(4) by (simp add: effect_rows_def)
  have page: "effect_page ?q = (\<lambda>cursor. case Effects toid (p\<lparr>Cursor := cursor\<rparr>) oldest rows of Inl e \<Rightarrow> [] | Inr rs \<Rightarrow> rs)"
    by (simp add: effect_page_def fun_eq_iff)
  have all: "effect_rows ?q = (if Order p = OrderAscending then sort_key effect_key rows
      else rev (sort_key effect_key (filter (\<lambda>r. lowestLedgerBound toid oldest \<le> 0 \<or> lowestLedgerBound toid oldest < HistoryOperationID r) rows)))"
    by (simp add: effect_rows_def retained_def [abs_def])
  show ?thesis using effects.walk_all [OF ok len] max unfolding page all follow_effects_def prod.case p(2) by blast
qed

definition demo_toid :: toid_api where
  "demo_toid = \<lparr>AfterLedger = (\<lambda>n. (n + 1) * 4294967296 - 1), LedgerID = (\<lambda>n. n * 4294967296),
     IncOperationOrder = (\<lambda>i. i + 1), IncTransactionOrder = (\<lambda>i. i + 4096)\<rparr>"

definition demo_effects :: "effect_row list" where
  "demo_effects = [\<lparr>HistoryAccountID = 1, HistoryOperationID = 9, EffectOrder = 1\<rparr>,
     \<lparr>HistoryAccountID = 2, HistoryOperationID = 5, EffectOrder = 2\<rparr>, \<lparr>HistoryAccountID = 1, HistoryOperationID = 5, EffectOrder = 1\<rparr>]"

theorem effect_pages_visit_all_witness:
  "concat (follow_effects demo_toid \<lparr>Cursor = [], Order = ''asc'', Limit = 2\<rparr> 0 demo_effects 4) = sort_key effect_key demo_effects"
proof -
  have new: "NewPageQuery [] True [] 2 = Inr \<lparr>Cursor = [], Order = ''asc'', Limit = 2\<rparr>" by code_simp
  have rows: "distinct (map effect_key demo_effects)" "length demo_effects \<le> 3"
    "\<forall>r\<in>set demo_effects. 0 < HistoryOperationID r \<and> HistoryOperationID r < MaxInt64 \<and> 0 \<le> EffectOrder r \<and> EffectOrder r \<le> MaxInt32"
    by (simp_all add: demo_effects_def effect_key_def MaxInt64_def MaxInt32_def)
  show ?thesis using effect_pages_visit_all [OF new rows(1,3,2), of demo_toid 0] by (simp add: numeral_eq_Suc)
qed

text \<open>
  The effects of a liquidity pool are not visited this way. With a limit of one the first query finds only the
  operation the cursor points into, and when the client has seen all its effects the next page is empty,
  although a later operation of the pool has effects.
\<close>

theorem liquidity_pool_pages_stop_early:
  "EffectsForLiquidityPool demo_toid [5, 9] \<lparr>Cursor = ''5-2'', Order = ''asc'', Limit = 1\<rparr> 0 demo_effects = Inr []"
  by code_simp

end
