(* ===== verification/Backlog_Limiter.thy ===== *)
theory Backlog_Limiter
  imports Prelude
begin

text \<open>
  The backlog queue limiter of the RPC server (\<open>suban-rpc/.../network/backlogQ.go\<close>): a counter of the
  requests in flight, kept with atomic additions by the goroutines that serve them. The limiter is
  modelled at the granularity of its atomic operations: a step is one of them, executed by any of the
  goroutines, so that all interleavings of any number of requests are covered. The counter is a
  64-bit word, and subtracting one is adding \<open>^uint64(0)\<close>.
\<close>

definition RequestBacklogQueueNoLimit :: u64 where
  "RequestBacklogQueueNoLimit = - 1"

record backlogQLimiter =
  pending :: u64
  inFlightGauge :: int
  limitReached :: u64

datatype reply = Downstream | StatusServiceUnavailable | QueueLimitError

text \<open>
  Where a request is: \<open>Arrived\<close> before the addition; \<open>OverLimit\<close> after an addition that found the queue
  full, \<open>Refused\<close> once it has been taken back; \<open>Admitted\<close> before the gauge is incremented, \<open>Serving\<close> in
  the downstream handler, \<open>Served\<close>, \<open>Uncounted\<close> and \<open>Ungauged\<close> through the deferred function.
\<close>

datatype request_pc = Arrived | OverLimit | Refused | Admitted | Serving | Served | Uncounted | Ungauged | Replied reply

fun limiter_step :: "reply \<Rightarrow> u64 \<Rightarrow> request_pc \<Rightarrow> backlogQLimiter \<Rightarrow> request_pc \<times> backlogQLimiter" where
  "limiter_step refusal limit Arrived q =
     (if limit = RequestBacklogQueueNoLimit then (Replied Downstream, q)
      else let newPending = pending q + 1 in
           (if limit < newPending then OverLimit else Admitted, q\<lparr>pending := newPending\<rparr>))"
| "limiter_step refusal limit OverLimit q = (Refused, q\<lparr>pending := pending q + (- 1)\<rparr>)"
| "limiter_step refusal limit Refused q =
     (Replied refusal, if limitReached q = 0 then q\<lparr>limitReached := 1\<rparr> else q)"
| "limiter_step refusal limit Admitted q = (Serving, q\<lparr>inFlightGauge := inFlightGauge q + 1\<rparr>)"
| "limiter_step refusal limit Serving q = (Served, q)"
| "limiter_step refusal limit Served q = (Uncounted, q\<lparr>pending := pending q + (- 1)\<rparr>)"
| "limiter_step refusal limit Uncounted q = (Ungauged, q\<lparr>inFlightGauge := inFlightGauge q - 1\<rparr>)"
| "limiter_step refusal limit Ungauged q = (Replied Downstream, q\<lparr>limitReached := 0\<rparr>)"
| "limiter_step refusal limit (Replied r) q = (Replied r, q)"

definition BacklogHTTPQLimiter_ServeHTTP :: "u64 \<Rightarrow> request_pc \<Rightarrow> backlogQLimiter \<Rightarrow> request_pc \<times> backlogQLimiter" where
  "BacklogHTTPQLimiter_ServeHTTP = limiter_step StatusServiceUnavailable"

definition BacklogJrpcQLimiter_Handle :: "u64 \<Rightarrow> request_pc \<Rightarrow> backlogQLimiter \<Rightarrow> request_pc \<times> backlogQLimiter" where
  "BacklogJrpcQLimiter_Handle = limiter_step QueueLimitError"

definition MakeBacklogQueueLimiter :: backlogQLimiter where
  "MakeBacklogQueueLimiter = \<lparr>pending = 0, inFlightGauge = 0, limitReached = 0\<rparr>"

text \<open>
  The requests of the server, one program counter each: a request arrives (a machine holds fewer than
  \<open>2 ^ 64\<close> goroutines), one of them executes its next operation, or a request that was replied to is gone.
\<close>

type_synonym limiter_state = "request_pc list \<times> backlogQLimiter"

inductive limiter_run :: "reply \<Rightarrow> u64 \<Rightarrow> limiter_state \<Rightarrow> limiter_state \<Rightarrow> bool" for refusal limit where
  request_arrives: "Suc (length pcs) < 2 ^ 64 \<Longrightarrow> limiter_run refusal limit (pcs, q) (pcs @ [Arrived], q)"
| request_steps: "i < length pcs \<Longrightarrow> limiter_step refusal limit (pcs ! i) q = (pc', q') \<Longrightarrow>
    limiter_run refusal limit (pcs, q) (pcs[i := pc'], q')"
| request_gone: "limiter_run refusal limit (xs @ Replied r # ys, q) (xs @ ys, q)"

subsection \<open>Counting requests\<close>

definition counted :: "request_pc \<Rightarrow> bool" where
  "counted pc \<longleftrightarrow> pc \<in> {OverLimit, Admitted, Serving, Served}"

definition admitted :: "request_pc \<Rightarrow> bool" where
  "admitted pc \<longleftrightarrow> pc \<in> {Admitted, Serving, Served}"

definition gauged :: "request_pc \<Rightarrow> bool" where
  "gauged pc \<longleftrightarrow> pc \<in> {Serving, Served, Uncounted}"

abbreviation number :: "(request_pc \<Rightarrow> bool) \<Rightarrow> request_pc list \<Rightarrow> nat" where
  "number P pcs \<equiv> length (filter P pcs)"

lemma number_update:
  "i < length pcs \<Longrightarrow> number P (pcs[i := pc]) + (if P (pcs ! i) then 1 else 0) = number P pcs + (if P pc then 1 else 0)"
proof (induction pcs arbitrary: i)
  case (Cons p pcs)
  then show ?case by (cases i) auto
qed simp

lemma number_pos: "i < length pcs \<Longrightarrow> P (pcs ! i) \<Longrightarrow> 0 < number P pcs"
  by (metis filter_empty_conv length_greater_0_conv nth_mem)

definition limiter_inv :: "u64 \<Rightarrow> limiter_state \<Rightarrow> bool" where
  "limiter_inv limit s \<longleftrightarrow> (case s of (pcs, q) \<Rightarrow>
     length pcs < 2 ^ 64 \<and> unat (pending q) = number counted pcs \<and>
     inFlightGauge q = int (number gauged pcs) \<and> number admitted pcs \<le> unat limit)"

lemma pred_word: "0 < unat (w :: u64) \<Longrightarrow> unat (w + (- 1)) = unat w - 1"
  using unat_minus_one [of w] by (simp add: unat_gt_0)

lemma admitted_counted: "number admitted pcs \<le> number counted pcs"
  by (induction pcs) (auto simp: admitted_def counted_def)

lemma limiter_inv_request:
  assumes "limiter_inv limit (pcs, q)" and "i < length pcs" and "limiter_step refusal limit (pcs ! i) q = (pc', q')"
  shows "limiter_inv limit (pcs[i := pc'], q')"
proof -
  let ?pc = "pcs ! i"
  note c = number_update [OF assms(2), of counted pc'] and a = number_update [OF assms(2), of admitted pc']
    and g = number_update [OF assms(2), of gauged pc']
  note pos = number_pos [OF assms(2), of counted]
  have len: "length pcs < 2 ^ 64" and pen: "unat (pending q) = number counted pcs"
    and gau: "inFlightGauge q = int (number gauged pcs)" and adm: "number admitted pcs \<le> unat limit"
    using assms(1) by (auto simp: limiter_inv_def)
  have less: "number counted pcs < length pcs" if "\<not> counted ?pc"
    using length_filter_less [of ?pc pcs counted] that assms(2) by simp
  have inc: "unat (pending q + 1) = Suc (number counted pcs)" if "\<not> counted ?pc"
    using unat_add_no_wrap [of "pending q" 1] pen less [OF that] len by simp
  have dec: "unat (pending q + (- 1)) = number counted pcs - 1" if "counted ?pc"
    using pred_word [of "pending q"] pos [OF that] pen by simp
  show ?thesis
    using assms(3) c a g pen gau adm len inc dec admitted_counted [of pcs]
    by (cases ?pc) (auto simp: limiter_inv_def counted_def admitted_def gauged_def Let_def not_less word_le_nat_alt
        split: if_splits)
qed

lemma limiter_inv_step:
  assumes "limiter_run refusal limit s s'" and "limiter_inv limit s"
  shows "limiter_inv limit s'"
  using assms
proof (induction rule: limiter_run.induct)
  case (request_steps i pcs q pc' q')
  then show ?case by (intro limiter_inv_request)
qed (auto simp: limiter_inv_def counted_def admitted_def gauged_def)

lemma limiter_inv_reachable:
  "(limiter_run refusal limit)\<^sup>*\<^sup>* ([], MakeBacklogQueueLimiter) s \<Longrightarrow> limiter_inv limit s"
proof (induction rule: rtranclp_induct)
  case base
  then show ?case by (simp add: limiter_inv_def MakeBacklogQueueLimiter_def)
qed (rule limiter_inv_step)

text \<open>
  C37. The backlog limit holds under every interleaving: however the atomic operations of concurrent
  requests interleave, at most \<open>limit\<close> requests are in the downstream handler (or on their way in or
  out) at any time, the counter is exactly the number of requests that have added themselves and not
  yet taken themselves out, without wrapping, and the gauge is the number of requests it counts. When
  all requests have been replied to, counter and gauge are back at 0.
\<close>

theorem backlog_limit_respected:
  assumes "(limiter_run refusal limit)\<^sup>*\<^sup>* ([], MakeBacklogQueueLimiter) (pcs, q)"
  shows "length (filter (\<lambda>pc. pc \<in> {Admitted, Serving, Served}) pcs) \<le> unat limit \<and>
    unat (pending q) = length (filter (\<lambda>pc. pc \<in> {OverLimit, Admitted, Serving, Served}) pcs) \<and>
    inFlightGauge q = int (length (filter (\<lambda>pc. pc \<in> {Serving, Served, Uncounted}) pcs)) \<and>
    ((\<forall>pc \<in> set pcs. \<exists>r. pc = Replied r) \<longrightarrow> pending q = 0 \<and> inFlightGauge q = 0)"
proof -
  note inv = limiter_inv_reachable [OF assms, unfolded limiter_inv_def counted_def [abs_def] admitted_def [abs_def]
      gauged_def [abs_def] prod.case]
  have "number (\<lambda>pc. pc \<in> S) pcs = 0" if "\<forall>pc \<in> set pcs. \<exists>r. pc = Replied r" and "\<forall>r. Replied r \<notin> S" for S
    using that by (auto simp: filter_empty_conv)
  from this [of "{OverLimit, Admitted, Serving, Served}"] this [of "{Serving, Served, Uncounted}"] inv
  show ?thesis by (auto simp: unat_eq_0)
qed

lemma limiter_alone:
  assumes "limit \<noteq> RequestBacklogQueueNoLimit" and "0 < limit"
  shows "(limiter_run refusal limit)\<^sup>*\<^sup>* ([], MakeBacklogQueueLimiter) ([Admitted], MakeBacklogQueueLimiter\<lparr>pending := 1\<rparr>)"
proof -
  have "limiter_run refusal limit ([], MakeBacklogQueueLimiter) ([Arrived], MakeBacklogQueueLimiter)"
    using request_arrives [of "[]"] by simp
  moreover have "\<not> limit < 1" using assms(2) by (simp add: word_less_nat_alt)
  then have "limiter_run refusal limit ([Arrived], MakeBacklogQueueLimiter) ([Admitted], MakeBacklogQueueLimiter\<lparr>pending := 1\<rparr>)"
    using request_steps [of 0 "[Arrived]" refusal limit MakeBacklogQueueLimiter Admitted "MakeBacklogQueueLimiter\<lparr>pending := 1\<rparr>"] assms
    by (simp add: MakeBacklogQueueLimiter_def)
  ultimately show ?thesis by (meson converse_rtranclp_into_rtranclp rtranclp.rtrancl_refl)
qed

theorem backlog_limit_respected_witness:
  "\<exists>pcs q. (limiter_run StatusServiceUnavailable 1)\<^sup>*\<^sup>* ([], MakeBacklogQueueLimiter) (pcs, q) \<and> pcs = [Admitted] \<and>
     length (filter (\<lambda>pc. pc \<in> {Admitted, Serving, Served}) pcs) \<le> unat (1 :: u64) \<and> unat (pending q) = 1"
proof -
  have run: "(limiter_run StatusServiceUnavailable 1)\<^sup>*\<^sup>* ([], MakeBacklogQueueLimiter) ([Admitted], MakeBacklogQueueLimiter\<lparr>pending := 1\<rparr>)"
    by (rule limiter_alone) (simp_all add: RequestBacklogQueueNoLimit_def)
  from backlog_limit_respected [OF run] run show ?thesis by fastforce
qed

text \<open>
  Refusals are justified: a request is refused only when the queue is full, that is, when at least
  \<open>limit\<close> other requests are counted at the moment of its addition; and a limiter without a limit hands
  every request straight to the downstream handler and never counts one.
\<close>

theorem backlog_refuses_only_when_full:
  assumes "(limiter_run refusal limit)\<^sup>*\<^sup>* ([], MakeBacklogQueueLimiter) (pcs, q)" and "i < length pcs" and "pcs ! i = Arrived"
  shows "if limit = RequestBacklogQueueNoLimit
    then limiter_step refusal limit Arrived q = (Replied Downstream, q)
    else fst (limiter_step refusal limit Arrived q) = OverLimit \<longleftrightarrow>
      unat limit \<le> length (filter (\<lambda>pc. pc \<in> {OverLimit, Admitted, Serving, Served}) pcs)"
proof -
  have inv: "length pcs < 2 ^ 64" "unat (pending q) = number counted pcs"
    using limiter_inv_reachable [OF assms(1)] by (auto simp: limiter_inv_def)
  have "number counted pcs < length pcs"
    using length_filter_less [of Arrived pcs counted] assms(2,3) by (metis counted_def insertE nth_mem request_pc.distinct(1,5,7,9) singletonD)
  then have "unat (pending q + 1) = Suc (number counted pcs)"
    using unat_add_no_wrap [of "pending q" 1] inv by simp
  then show ?thesis by (auto simp: Let_def word_less_nat_alt counted_def [abs_def] less_Suc_eq_le)
qed

theorem backlog_refuses_only_when_full_witness:
  "fst (limiter_step StatusServiceUnavailable 0 Arrived MakeBacklogQueueLimiter) = OverLimit"
proof -
  have "(limiter_run StatusServiceUnavailable 0)\<^sup>*\<^sup>* ([], MakeBacklogQueueLimiter) ([Arrived], MakeBacklogQueueLimiter)"
    using request_arrives [of "[]"] by auto
  from backlog_refuses_only_when_full [OF this, of 0] show ?thesis by (simp add: RequestBacklogQueueNoLimit_def)
qed

end
