(* ===== verification/Duration_Limiter.thy ===== *)
theory Duration_Limiter
  imports Prelude
begin

text \<open>
  The request duration limiters of the RPC server
  (\<open>suban-rpc/.../network/requestdurationlimiter.go\<close>): the buffered response writer, and the select
  loops that wait for the warning timer, the limit timer and the end of the request. A run of a loop is
  given by the sequence of events it receives; a channel that is \<open>nil\<close> never delivers one. A loop that has
  received no event that ends it is still waiting, which is the value \<open>None\<close>. Durations are integers.
\<close>

definition maxDuration :: int where
  "maxDuration = 2 ^ 63 - 1"

record requestDurationLimiter =
  warningThreshold :: int
  limitThreshold :: int

definition MakeRequestDurationLimiter :: "int \<Rightarrow> int \<Rightarrow> requestDurationLimiter" where
  "MakeRequestDurationLimiter warning limit =
     \<lparr>warningThreshold = (if limit < warning then limit else warning), limitThreshold = limit\<rparr>"

definition has_warningCh :: "requestDurationLimiter \<Rightarrow> bool" where
  "has_warningCh q \<longleftrightarrow> warningThreshold q \<noteq> 0 \<and> warningThreshold q < limitThreshold q"

definition has_limitCh :: "requestDurationLimiter \<Rightarrow> bool" where
  "has_limitCh q \<longleftrightarrow> limitThreshold q \<noteq> 0"

record counters =
  warningCounter :: nat
  limitCounter :: nat

datatype 'r event = WarningFired | LimitFired | Completed 'r

subsection \<open>Response writers\<close>

type_synonym bytes = "8 word list"
type_synonym header = "string \<rightharpoonup> string list"

text \<open>
  The writer of \<open>net/http\<close>: the first status is the one that is sent, together with the headers at that
  moment; a body without a status sends 200, and so does a handler that returns without either.
\<close>

record responseWriter =
  rwHeader :: header
  rwStatus :: int
  rwSent :: "header option"
  rwBody :: bytes

definition rw_WriteHeader :: "int \<Rightarrow> responseWriter \<Rightarrow> responseWriter" where
  "rw_WriteHeader code rw = (if rwStatus rw \<noteq> 0 then rw else rw\<lparr>rwStatus := code, rwSent := Some (rwHeader rw)\<rparr>)"

definition rw_Write :: "bytes \<Rightarrow> responseWriter \<Rightarrow> responseWriter" where
  "rw_Write buf rw = (let rw' = rw_WriteHeader 200 rw in rw'\<lparr>rwBody := rwBody rw' @ buf\<rparr>)"

definition rw_finish :: "responseWriter \<Rightarrow> int \<times> header \<times> bytes" where
  "rw_finish rw = (let rw' = rw_WriteHeader 200 rw in (rwStatus rw', the (rwSent rw'), rwBody rw'))"

record bufferedResponseWriter =
  bwHeader :: header
  buffer :: bytes
  statusCode :: int

definition makeBufferedResponseWriter :: "responseWriter \<Rightarrow> bufferedResponseWriter" where
  "makeBufferedResponseWriter rw = \<lparr>bwHeader = Map.empty ++ rwHeader rw, buffer = [], statusCode = 0\<rparr>"

definition bw_Write :: "bytes \<Rightarrow> bufferedResponseWriter \<Rightarrow> bufferedResponseWriter" where
  "bw_Write buf w = w\<lparr>buffer := buffer w @ buf\<rparr>"

definition bw_WriteHeader :: "int \<Rightarrow> bufferedResponseWriter \<Rightarrow> bufferedResponseWriter" where
  "bw_WriteHeader code w = w\<lparr>statusCode := code\<rparr>"

definition bw_WriteOut :: "bool \<Rightarrow> bufferedResponseWriter \<Rightarrow> responseWriter \<Rightarrow> responseWriter" where
  "bw_WriteOut ctxErr w rw =
     (let rw1 = rw\<lparr>rwHeader := Map.empty ++ bwHeader w\<rparr>;
          rw2 = (if statusCode w \<noteq> 0 then rw_WriteHeader (statusCode w) rw1 else rw1) in
      if buffer w = [] then rw2
      else if ctxErr then rw2 else rw_Write (buffer w) rw2)"

text \<open>What a downstream handler does with the writer it is given.\<close>

datatype write_op = SetHeader string "string list" | CallWriteHeader int | CallWrite bytes

fun direct_op :: "write_op \<Rightarrow> responseWriter \<Rightarrow> responseWriter" where
  "direct_op (SetHeader k v) rw = rw\<lparr>rwHeader := (rwHeader rw)(k \<mapsto> v)\<rparr>"
| "direct_op (CallWriteHeader c) rw = rw_WriteHeader c rw"
| "direct_op (CallWrite b) rw = rw_Write b rw"

fun buffered_op :: "write_op \<Rightarrow> bufferedResponseWriter \<Rightarrow> bufferedResponseWriter" where
  "buffered_op (SetHeader k v) w = w\<lparr>bwHeader := (bwHeader w)(k \<mapsto> v)\<rparr>"
| "buffered_op (CallWriteHeader c) w = bw_WriteHeader c w"
| "buffered_op (CallWrite b) w = bw_Write b w"

definition run_direct :: "write_op list \<Rightarrow> responseWriter \<Rightarrow> responseWriter" where
  "run_direct ops rw = fold direct_op ops rw"

definition run_buffered :: "write_op list \<Rightarrow> bufferedResponseWriter \<Rightarrow> bufferedResponseWriter" where
  "run_buffered ops w = fold buffered_op ops w"

subsection \<open>The HTTP limiter\<close>

text \<open>
  \<open>Completed errStrings\<close> carries the call stack of a panic, which is empty when the handler returned. The
  result is the writer of the client. \<open>ctxErr\<close> says whether the client's context is done.
\<close>

fun http_loop :: "requestDurationLimiter \<Rightarrow> bool \<Rightarrow> write_op list \<Rightarrow> responseWriter \<Rightarrow> bool \<Rightarrow>
    string list event list \<Rightarrow> counters \<Rightarrow> (responseWriter \<times> counters) option" where
  "http_loop q ctxErr ops res warn [] c = None"
| "http_loop q ctxErr ops res warn (WarningFired # es) c =
     http_loop q ctxErr ops res (warn \<or> has_warningCh q) es c"
| "http_loop q ctxErr ops res warn (LimitFired # es) c =
     (if has_limitCh q
      then Some (if ctxErr then res else rw_WriteHeader 504 res, c\<lparr>limitCounter := Suc (limitCounter c)\<rparr>)
      else http_loop q ctxErr ops res warn es c)"
| "http_loop q ctxErr ops res warn (Completed errStrings # es) c =
     (let c' = (if warn then c\<lparr>warningCounter := Suc (warningCounter c)\<rparr> else c) in
      Some (if errStrings = [] then bw_WriteOut ctxErr (run_buffered ops (makeBufferedResponseWriter res)) res
            else rw_WriteHeader 500 res, c'))"

text \<open>
  The handler gets the context of the client, or one that ends after the limit, which for a limit of 0 is done from the start; what it writes may depend on that, so that the handler is a function of the time it has.
\<close>

definition httpRequestDurationLimiter_ServeHTTP :: "requestDurationLimiter \<Rightarrow> bool \<Rightarrow> (int option \<Rightarrow> write_op list) \<Rightarrow>
    string list event list \<Rightarrow> responseWriter \<Rightarrow> counters \<Rightarrow> (responseWriter \<times> counters) option" where
  "httpRequestDurationLimiter_ServeHTTP q ctxErr handler es res c =
     (if limitThreshold q = maxDuration then Some (run_direct (handler None) res, c)
      else http_loop q ctxErr (handler (Some (limitThreshold q))) res False es c)"

subsection \<open>The JSON-RPC limiter\<close>

datatype 'a rpc_result =
    RpcResult 'a
  | ErrRequestExceededProcessingLimitThreshold
  | ErrFailToProcessDueToInternalIssue
  | ErrContext

text \<open>\<open>Completed None\<close> is the channel closed without a value, after a panic of the handler.\<close>

fun rpc_loop :: "requestDurationLimiter \<Rightarrow> bool \<Rightarrow> bool \<Rightarrow> 'a option event list \<Rightarrow> counters \<Rightarrow>
    ('a rpc_result \<times> counters) option" where
  "rpc_loop q ctxErr warn [] c = None"
| "rpc_loop q ctxErr warn (WarningFired # es) c = rpc_loop q ctxErr (warn \<or> has_warningCh q) es c"
| "rpc_loop q ctxErr warn (LimitFired # es) c =
     (if has_limitCh q
      then Some (if ctxErr then ErrContext else ErrRequestExceededProcessingLimitThreshold,
                 c\<lparr>limitCounter := Suc (limitCounter c)\<rparr>)
      else rpc_loop q ctxErr warn es c)"
| "rpc_loop q ctxErr warn (Completed r # es) c =
     (let c' = (if warn then c\<lparr>warningCounter := Suc (warningCounter c)\<rparr> else c) in
      Some (case r of Some d \<Rightarrow> RpcResult d | None \<Rightarrow> ErrFailToProcessDueToInternalIssue, c'))"

definition RPCRequestDurationLimiter_Handle :: "requestDurationLimiter \<Rightarrow> bool \<Rightarrow> 'a \<Rightarrow>
    'a option event list \<Rightarrow> counters \<Rightarrow> ('a rpc_result \<times> counters) option" where
  "RPCRequestDurationLimiter_Handle q ctxErr direct es c =
     (if limitThreshold q = maxDuration then Some (RpcResult direct, c)
      else rpc_loop q ctxErr False es c)"

subsection \<open>Buffering is transparent\<close>

lemma run_headers:
  "\<forall>op \<in> set hs. \<exists>k v. op = SetHeader k v \<Longrightarrow>
     run_direct hs rw = rw\<lparr>rwHeader := fold (\<lambda>op h. case op of SetHeader k v \<Rightarrow> h(k \<mapsto> v) | _ \<Rightarrow> h) hs (rwHeader rw)\<rparr> \<and>
     run_buffered hs w = w\<lparr>bwHeader := fold (\<lambda>op h. case op of SetHeader k v \<Rightarrow> h(k \<mapsto> v) | _ \<Rightarrow> h) hs (bwHeader w)\<rparr>"
  unfolding run_direct_def run_buffered_def by (induction hs arbitrary: rw w) auto

lemma run_writes_direct:
  assumes "\<forall>op \<in> set ws. \<exists>b. op = CallWrite b" and "ws \<noteq> []"
  shows "run_direct ws rw = rw_Write (concat (map (\<lambda>op. case op of CallWrite b \<Rightarrow> b | _ \<Rightarrow> []) ws)) rw"
  using assms
proof (induction ws arbitrary: rw rule: rev_induct)
  case (snoc op ws)
  then obtain b where b: "op = CallWrite b" by auto
  show ?case
  proof (cases "ws = []")
    case True
    with b show ?thesis by (simp add: run_direct_def)
  next
    case False
    with snoc have "run_direct ws rw = rw_Write (concat (map (\<lambda>op. case op of CallWrite b \<Rightarrow> b | _ \<Rightarrow> []) ws)) rw" by simp
    with b show ?thesis by (simp add: run_direct_def rw_Write_def rw_WriteHeader_def Let_def)
  qed
qed simp

lemma run_writes_buffered:
  "\<forall>op \<in> set ws. \<exists>b. op = CallWrite b \<Longrightarrow>
     run_buffered ws w = w\<lparr>buffer := buffer w @ concat (map (\<lambda>op. case op of CallWrite b \<Rightarrow> b | _ \<Rightarrow> []) ws)\<rparr>"
  unfolding run_buffered_def by (induction ws arbitrary: w) (auto simp: bw_Write_def)

definition fresh_writer :: "header \<Rightarrow> responseWriter" where
  "fresh_writer h = \<lparr>rwHeader = h, rwStatus = 0, rwSent = None, rwBody = []\<rparr>"

text \<open>A handler that sets headers, then at most one status, then writes the body.\<close>

definition orderly :: "write_op list \<Rightarrow> bool" where
  "orderly ops \<longleftrightarrow> (\<exists>hs st ws. ops = hs @ st @ ws \<and> (\<forall>op \<in> set hs. \<exists>k v. op = SetHeader k v) \<and>
     (st = [] \<or> (\<exists>c. c \<noteq> 0 \<and> st = [CallWriteHeader c])) \<and> (\<forall>op \<in> set ws. \<exists>b. op = CallWrite b))"

lemma run_direct_append: "run_direct (xs @ ys) rw = run_direct ys (run_direct xs rw)"
  by (simp add: run_direct_def)

lemma run_buffered_append: "run_buffered (xs @ ys) w = run_buffered ys (run_buffered xs w)"
  by (simp add: run_buffered_def)

lemma buffering_transparent:
  assumes "orderly ops"
  shows "rw_finish (bw_WriteOut ctxErr (run_buffered ops (makeBufferedResponseWriter (fresh_writer h))) (fresh_writer h)) =
    (case rw_finish (run_direct ops (fresh_writer h)) of (status, header, body) \<Rightarrow> (status, header, if ctxErr then [] else body))"
proof -
  obtain hs st ws where ops: "ops = hs @ st @ ws" and hs: "\<forall>op \<in> set hs. \<exists>k v. op = SetHeader k v"
    and st: "st = [] \<or> (\<exists>c. c \<noteq> 0 \<and> st = [CallWriteHeader c])" and ws: "\<forall>op \<in> set ws. \<exists>b. op = CallWrite b"
    using assms unfolding orderly_def by blast
  have "ws = [] \<or> run_direct ws rw = rw_Write (concat (map (\<lambda>op. case op of CallWrite b \<Rightarrow> b | _ \<Rightarrow> []) ws)) rw" for rw
    using run_writes_direct [OF ws] by blast
  then show ?thesis
    using st run_headers [OF hs] run_writes_buffered [OF ws]
    by (cases "ws = []")
       (auto simp: ops run_direct_append run_buffered_append fresh_writer_def makeBufferedResponseWriter_def
         bw_WriteOut_def rw_finish_def rw_WriteHeader_def rw_Write_def run_direct_def [of "[]"] run_buffered_def [of "[]"]
         run_direct_def [of "[_]"] run_buffered_def [of "[_]"] bw_WriteHeader_def Let_def)
qed

subsection \<open>What the client gets\<close>

text \<open>An event that ends the loop.\<close>

definition ends :: "requestDurationLimiter \<Rightarrow> 'r event \<Rightarrow> bool" where
  "ends q e \<longleftrightarrow> (case e of WarningFired \<Rightarrow> False | LimitFired \<Rightarrow> has_limitCh q | Completed r \<Rightarrow> True)"

lemma http_loop_first:
  assumes "\<forall>x\<in>set pre. \<not> ends q x" "ends q e"
  shows "http_loop q ctxErr ops res warn (pre @ e # post) c = http_loop q ctxErr ops res (warn \<or> has_warningCh q \<and> WarningFired \<in> set pre) [e] c"
  using assms(1)
proof (induction pre arbitrary: warn)
  case Nil
  with assms(2) show ?case by (cases e) (simp_all add: ends_def)
next
  case (Cons x pre)
  then show ?case by (cases x; cases "has_warningCh q") (auto simp: ends_def)
qed

text \<open>
  C38. The HTTP duration limiter answers once, by the first event that can end it, whatever the order in which it receives the events of its timers and of the handler: the handler's response or an error, never a
  mixture. It is assumed that there is a limit below the greatest duration and that the handler sets its headers, then at most one status, then writes the body. When the handler returns first the
  client gets exactly what the handler, with its time-limited context, would have sent without the buffer; if the client's context is done, without the body. When the handler panics first the client gets status 500 with
  nothing of the response, and when the limit, which is not 0, passes first status 504, or nothing at all if its context is done. The limit counter grows by one exactly in the last case, and the warning counter by one
  exactly in the other cases when a warning threshold below the limit passed before.
\<close>

theorem http_limiter_all_or_timeout:
  assumes "q = MakeRequestDurationLimiter w l" "l \<noteq> maxDuration" "orderly (handler (Some l))" "\<forall>x\<in>set pre. \<not> ends q x" "ends q e"
  defines "warned \<equiv> \<lambda>c. if w \<noteq> 0 \<and> w < l \<and> WarningFired \<in> set pre then c\<lparr>warningCounter := Suc (warningCounter c)\<rparr> else c"
  shows "\<exists>res c'. httpRequestDurationLimiter_ServeHTTP q ctxErr handler (pre @ e # post) (fresh_writer h) c = Some (res, c') \<and>
    (case e of
       Completed [] \<Rightarrow> c' = warned c \<and>
         (case rw_finish (run_direct (handler (Some l)) (fresh_writer h)) of (status, header, body) \<Rightarrow> rw_finish res = (status, header, if ctxErr then [] else body))
     | Completed (_ # _) \<Rightarrow> c' = warned c \<and> rw_finish res = (500, h, [])
     | LimitFired \<Rightarrow> l \<noteq> 0 \<and> c' = c\<lparr>limitCounter := Suc (limitCounter c)\<rparr> \<and> (if ctxErr then res = fresh_writer h else rw_finish res = (504, h, []))
     | WarningFired \<Rightarrow> False)"
proof -
  have q: "limitThreshold q = l" "has_limitCh q \<longleftrightarrow> l \<noteq> 0" "has_warningCh q \<longleftrightarrow> w \<noteq> 0 \<and> w < l"
    using assms(1) by (auto simp: MakeRequestDurationLimiter_def has_limitCh_def has_warningCh_def)
  have run: "httpRequestDurationLimiter_ServeHTTP q ctxErr handler (pre @ e # post) (fresh_writer h) c =
      http_loop q ctxErr (handler (Some l)) (fresh_writer h) (has_warningCh q \<and> WarningFired \<in> set pre) [e] c"
    using assms(2) q(1) http_loop_first [OF assms(4,5)] by (simp add: httpRequestDurationLimiter_ServeHTTP_def)
  show ?thesis
  proof (cases e)
    case WarningFired
    with assms(5) show ?thesis by (simp add: ends_def)
  next
    case LimitFired
    with assms(5) q show ?thesis unfolding run by (auto simp: ends_def rw_finish_def rw_WriteHeader_def fresh_writer_def Let_def)
  next
    case (Completed errs)
    have "rw_finish (rw_WriteHeader 500 (fresh_writer h)) = (500, h, [])" by (simp add: rw_finish_def rw_WriteHeader_def fresh_writer_def Let_def)
    with Completed buffering_transparent [OF assms(3), of ctxErr h] q show ?thesis unfolding run
      by (cases errs) (auto simp: warned_def Let_def split: prod.split)
  qed
qed

theorem http_limiter_all_or_timeout_witness:
  "\<exists>res c'. httpRequestDurationLimiter_ServeHTTP (MakeRequestDurationLimiter 5 10) False (\<lambda>_. [CallWriteHeader 201, CallWrite [65]])
       [WarningFired, Completed [], LimitFired] (fresh_writer Map.empty) \<lparr>warningCounter = 0, limitCounter = 0\<rparr> = Some (res, c') \<and>
     rw_finish res = (201, Map.empty, [65]) \<and> c' = \<lparr>warningCounter = 1, limitCounter = 0\<rparr>"
proof -
  have "orderly [CallWriteHeader 201, CallWrite [65]]"
    unfolding orderly_def
    by (intro exI [of _ "[]"] exI [of _ "[CallWriteHeader 201]"] exI [of _ "[CallWrite [65]]"]) auto
  moreover have "rw_finish (run_direct [CallWriteHeader 201, CallWrite [65]] (fresh_writer Map.empty)) = (201, Map.empty, [65])"
    by (simp add: run_direct_def rw_finish_def rw_WriteHeader_def rw_Write_def fresh_writer_def Let_def)
  ultimately show ?thesis
    using http_limiter_all_or_timeout [of "MakeRequestDurationLimiter 5 10" 5 10 "\<lambda>_. [CallWriteHeader 201, CallWrite [65]]" "[WarningFired]" "Completed []" False "[LimitFired]"
        Map.empty "\<lparr>warningCounter = 0, limitCounter = 0\<rparr>"]
    by (auto simp: maxDuration_def ends_def)
qed

text \<open>
  The JSON-RPC duration limiter answers exactly once and by the first decisive event: whatever
  sequence of timer and completion events its select loop receives, once it has received one that can
  end it, it returns; the result is the handler's result (or the internal error of a panic) when the
  completion comes before the limit timer and the threshold error otherwise, at most one of the two
  counters grows, by one, and the limit counter exactly when the request is cut off.
\<close>

theorem rpc_limiter_first_event_decides:
  assumes "limitThreshold q \<noteq> maxDuration" and "\<exists>r. Completed r \<in> set es"
  shows "\<exists>res c'. RPCRequestDurationLimiter_Handle q False d es c = Some (res, c') \<and>
    (case find (\<lambda>e. (e = LimitFired \<and> has_limitCh q) \<or> (\<exists>r. e = Completed r)) es of
       Some (Completed (Some x)) \<Rightarrow> res = RpcResult x \<and> limitCounter c' = limitCounter c
     | Some (Completed None) \<Rightarrow> res = ErrFailToProcessDueToInternalIssue \<and> limitCounter c' = limitCounter c
     | _ \<Rightarrow> res = ErrRequestExceededProcessingLimitThreshold \<and>
         limitCounter c' = Suc (limitCounter c) \<and> warningCounter c' = warningCounter c) \<and>
    warningCounter c' \<in> {warningCounter c, Suc (warningCounter c)} \<and>
    (warningCounter c' \<noteq> warningCounter c \<longrightarrow> WarningFired \<in> set es \<and> has_warningCh q)"
proof -
  have "\<exists>res c'. rpc_loop q False warn es c = Some (res, c') \<and>
    (case find (\<lambda>e. (e = LimitFired \<and> has_limitCh q) \<or> (\<exists>r. e = Completed r)) es of
       Some (Completed (Some x)) \<Rightarrow> res = RpcResult x \<and> limitCounter c' = limitCounter c
     | Some (Completed None) \<Rightarrow> res = ErrFailToProcessDueToInternalIssue \<and> limitCounter c' = limitCounter c
     | _ \<Rightarrow> res = ErrRequestExceededProcessingLimitThreshold \<and>
         limitCounter c' = Suc (limitCounter c) \<and> warningCounter c' = warningCounter c) \<and>
    warningCounter c' \<in> {warningCounter c, Suc (warningCounter c)} \<and>
    (warningCounter c' \<noteq> warningCounter c \<longrightarrow> warn \<or> WarningFired \<in> set es \<and> has_warningCh q)" for warn
    using assms(2)
  proof (induction es arbitrary: warn)
    case (Cons e es)
    show ?case
    proof (cases e)
      case WarningFired
      with Cons.IH [of "warn \<or> has_warningCh q"] Cons.prems show ?thesis by force
    next
      case LimitFired
      with Cons show ?thesis by (cases "has_limitCh q") force+
    next
      case (Completed r)
      then show ?thesis by (auto split: option.split)
    qed
  qed simp
  from this [of False] assms(1) show ?thesis by (simp add: RPCRequestDurationLimiter_Handle_def)
qed

theorem rpc_limiter_first_event_decides_witness:
  "\<exists>res c'. RPCRequestDurationLimiter_Handle (MakeRequestDurationLimiter 5 10) False (0 :: nat)
       [WarningFired, LimitFired, Completed (Some 1)] \<lparr>warningCounter = 0, limitCounter = 0\<rparr> = Some (res, c') \<and>
     res = ErrRequestExceededProcessingLimitThreshold \<and> limitCounter c' = 1"
  using rpc_limiter_first_event_decides [of "MakeRequestDurationLimiter 5 10" "[WarningFired, LimitFired, Completed (Some 1)]"
      "0 :: nat" "\<lparr>warningCounter = 0, limitCounter = 0\<rparr>"]
  by (auto simp: MakeRequestDurationLimiter_def maxDuration_def has_limitCh_def)

end
