(* ===== verification/Rpc_Store.thy ===== *)
theory Rpc_Store
  imports Fee_Window "HOL-Library.AList" "HOL-Library.List_Lexorder" "HOL-Library.Char_ord" "HOL-Library.Product_Lexorder"
begin

text \<open>
  The database of the RPC server (\<open>suban-rpc/.../db/db.go\<close>, \<open>ledger.go\<close>, \<open>transaction.go\<close>, \<open>event.go\<close>): the ledgers of the retention window, the
  index of their transactions by hash, their events, and the cached latest ledger. A write transaction works on a copy of the tables
  that replaces them when it commits. Tables keep the primary keys of the schema; the ledgers have their sequence as the row identifier of SQLite, so
  that they are stored, and read without an order, in that order.
\<close>

subsection \<open>Ledgers\<close>

datatype event_stage = BeforeAllTxs | AfterAllTxs | AfterTx | OtherStage

text \<open>A contract event: the topics and the data of its body, encoded, or \<open>None\<close> for a version that is not known.\<close>

record ContractEvent =
  evContractId :: "string option"
  evType :: int
  evBody :: "(string list \<times> string) option"

record RpcTx =
  rtHash :: string
  rtInnerHash :: "string option"
  rtIndex :: u32
  rtSuccessful :: bool
  rtEvents :: "string + (event_stage \<times> ContractEvent) list \<times> ContractEvent list list"

text \<open>
  A ledger, with what the readers of the SDK return for it: the number of its transactions, the results of the calls of \<open>Read\<close> before the end
  of the file, or the error of opening the reader, and the same for the reader of the fee windows.
\<close>

record Lcm = LedgerCloseMeta +
  CountTransactions :: nat
  TxReader :: "string + (string + RpcTx) list"
  FeeReader :: "fee_error + (fee_error + LedgerTransaction) list"

subsection \<open>Tables\<close>

record TxRow =
  trHash :: string
  trLedgerSequence :: u32
  trApplicationOrder :: u32

record EventRow =
  erId :: string
  erContractId :: "string option"
  erType :: int
  erEvent :: "bool \<times> ContractEvent"
  erCloseTime :: i64
  erTxHash :: string
  erTopics :: "string option list"

record rpc_tables =
  ledger_close_meta :: "Lcm list"
  transactions_t :: "TxRow list"
  events_t :: "EventRow list"

record dbCache =
  latestLedgerSeq :: u32
  latestLedgerCloseTime :: i64

record DB =
  tables :: rpc_tables
  cache :: dbCache

datatype rpc_error = ErrEmptyDB | RpcError string | RpcPanic

definition ResetCache :: "DB \<Rightarrow> DB" where
  "ResetCache d = d\<lparr>cache := \<lparr>latestLedgerSeq = 0, latestLedgerCloseTime = 0\<rparr>\<rparr>"

text \<open>The statements of a write transaction that may fail.\<close>

record write_faults =
  BeginFault :: "string option"
  InsertLedgerFault :: "u32 \<Rightarrow> string option"
  InsertTxFault :: "u32 \<Rightarrow> string option"
  InsertEventFault :: "u32 \<Rightarrow> string option"
  TrimLedgersFault :: "string option"
  TrimTransactionsFault :: "string option"
  TrimEventsFault :: "string option"
  CommitFault :: "string option"
  PostCommitFault :: "string option"

definition no_write_faults :: write_faults where
  "no_write_faults = \<lparr>BeginFault = None, InsertLedgerFault = (\<lambda>_. None), InsertTxFault = (\<lambda>_. None), InsertEventFault = (\<lambda>_. None),
     TrimLedgersFault = None, TrimTransactionsFault = None, TrimEventsFault = None, CommitFault = None, PostCommitFault = None\<rparr>"

definition rpc_exec :: "string option \<Rightarrow> string + 'a \<Rightarrow> rpc_error + 'a" where
  "rpc_exec fault r = (case fault of Some e \<Rightarrow> Inl (RpcError e) | None \<Rightarrow> (case r of Inl e \<Rightarrow> Inl (RpcError e) | Inr x \<Rightarrow> Inr x))"

subsection \<open>Writing a ledger\<close>

definition InsertLedger :: "write_faults \<Rightarrow> Lcm \<Rightarrow> Lcm list \<Rightarrow> rpc_error + Lcm list" where
  "InsertLedger flt ledger t = rpc_exec (InsertLedgerFault flt (LedgerSequence ledger))
     (if LedgerSequence ledger \<in> LedgerSequence ` set t then Inl ''UNIQUE constraint failed'' else Inr (insort_key LedgerSequence ledger t))"

text \<open>The rows of an insert statement, refused when a key is taken.\<close>

definition insert_keyed :: "('r \<Rightarrow> 'k) \<Rightarrow> 'r list \<Rightarrow> 'r list \<Rightarrow> string + 'r list" where
  "insert_keyed key rows t = (if distinct (map key rows) \<and> key ` set rows \<inter> key ` set t = {} then Inr (t @ rows) else Inl ''UNIQUE constraint failed'')"

function insert_chunks :: "string option \<Rightarrow> nat \<Rightarrow> ('r \<Rightarrow> 'k) \<Rightarrow> 'r list \<Rightarrow> 'r list \<Rightarrow> rpc_error + 'r list" where
  "insert_chunks fault n key rows t = (if rows = [] \<or> n = 0 then Inr t
     else case rpc_exec fault (insert_keyed key (take n rows) t) of
         Inl e \<Rightarrow> Inl e
       | Inr t' \<Rightarrow> insert_chunks fault n key (drop n rows) t')"
  by pat_completeness auto
termination by (relation "measure (\<lambda>(fault, n, key, rows, t). length rows)") auto

declare insert_chunks.simps [simp del]

text \<open>
  The transactions of a ledger by their hash, and by the inner hash for a fee bump transaction; as many reads as there are transactions. The map is an association list
  in the order in which it is visited.
\<close>

fun read_lookups :: "nat \<Rightarrow> (string + RpcTx) list \<Rightarrow> (string \<times> RpcTx) list \<Rightarrow> rpc_error + (string \<times> RpcTx) list" where
  "read_lookups 0 rs m = Inr m"
| "read_lookups (Suc n) [] m = Inl (RpcError ''failed reading tx'')"
| "read_lookups (Suc n) (Inl e # rs) m = Inl (RpcError e)"
| "read_lookups (Suc n) (Inr tx # rs) m =
     read_lookups n rs (AList.update (rtHash tx) tx (case rtInnerHash tx of None \<Rightarrow> m | Some h \<Rightarrow> AList.update h tx m))"

definition maxRowsPerBatch :: nat where
  "maxRowsPerBatch = 3000"

definition InsertTransactions :: "write_faults \<Rightarrow> Lcm \<Rightarrow> TxRow list \<Rightarrow> rpc_error + TxRow list" where
  "InsertTransactions flt meta t =
     (if CountTransactions meta = 0 then Inr t
      else case TxReader meta of
          Inl e \<Rightarrow> Inl (RpcError e)
        | Inr rs \<Rightarrow> (case read_lookups (CountTransactions meta) rs [] of
            Inl e \<Rightarrow> Inl e
          | Inr m \<Rightarrow> insert_chunks (InsertTxFault flt (LedgerSequence meta)) maxRowsPerBatch trHash
              (map (\<lambda>(h, tx). \<lparr>trHash = h, trLedgerSequence = LedgerSequence meta, trApplicationOrder = rtIndex tx\<rparr>) m) t))"

subsection \<open>Events\<close>

text \<open>
  The cursor of the SDK's protocol package. What it prints is the identifier of an event; \<open>EventId\<close> is a parameter.
\<close>

record Cursor =
  cuLedger :: u32
  cuTx :: u32
  cuOp :: u32
  cuEvent :: u32

type_synonym event_ids = "Cursor \<Rightarrow> string"

definition TransactionMask :: u32 where
  "TransactionMask = 2 ^ 20 - 1"

definition OperationMask :: u32 where
  "OperationMask = 2 ^ 12 - 1"

record dbEvent =
  deTxHash :: string
  deEvent :: "bool \<times> ContractEvent"
  deCursor :: Cursor

text \<open>The transaction level events; \<open>b\<close> and \<open>a\<close> count over the ledger, \<open>k\<close> over the transaction.\<close>

fun stage_events :: "u32 \<Rightarrow> RpcTx \<Rightarrow> (event_stage \<times> ContractEvent) list \<Rightarrow> u32 \<Rightarrow> u32 \<Rightarrow> u32 \<Rightarrow> rpc_error + dbEvent list \<times> u32 \<times> u32" where
  "stage_events l tx [] b a k = Inr ([], b, a)"
| "stage_events l tx ((stage, ev) # evs) b a k =
     (let mk = (\<lambda>c. \<lparr>deTxHash = rtHash tx, deEvent = (rtSuccessful tx, ev), deCursor = c\<rparr>);
          put = (\<lambda>e r. case r of Inl x \<Rightarrow> Inl x | Inr (es, b', a') \<Rightarrow> Inr (e # es, b', a')) in
      case stage of
        BeforeAllTxs \<Rightarrow> put (mk \<lparr>cuLedger = l, cuTx = 0, cuOp = 0, cuEvent = b\<rparr>) (stage_events l tx evs (b + 1) a k)
      | AfterAllTxs \<Rightarrow> put (mk \<lparr>cuLedger = l, cuTx = TransactionMask, cuOp = 0, cuEvent = a\<rparr>) (stage_events l tx evs b (a + 1) k)
      | AfterTx \<Rightarrow> put (mk \<lparr>cuLedger = l, cuTx = rtIndex tx, cuOp = OperationMask, cuEvent = k\<rparr>) (stage_events l tx evs b a (k + 1))
      | OtherStage \<Rightarrow> Inl (RpcError ''unhandled event phase''))"

definition op_events :: "u32 \<Rightarrow> RpcTx \<Rightarrow> ContractEvent list list \<Rightarrow> dbEvent list" where
  "op_events l tx ops = concat (map (\<lambda>(opIndex, evs). map (\<lambda>(eventIndex, ev).
     \<lparr>deTxHash = rtHash tx, deEvent = (rtSuccessful tx, ev),
      deCursor = \<lparr>cuLedger = l, cuTx = rtIndex tx, cuOp = of_nat opIndex, cuEvent = of_nat eventIndex\<rparr>\<rparr>) (enumerate 0 evs)) (enumerate 0 ops))"

definition MaxTopicCount :: nat where
  "MaxTopicCount = 4"

text \<open>\<open>insertEvents\<close>: the row of an event.\<close>

definition insertEvents :: "event_ids \<Rightarrow> Lcm \<Rightarrow> dbEvent \<Rightarrow> rpc_error + EventRow" where
  "insertEvents ids meta e = (case evBody (snd (deEvent e)) of
       None \<Rightarrow> Inl (RpcError ''unknown event version'')
     | Some (topics, data) \<Rightarrow> Inr \<lparr>erId = ids (deCursor e), erContractId = evContractId (snd (deEvent e)), erType = evType (snd (deEvent e)),
         erEvent = deEvent e, erCloseTime = LedgerCloseTime meta, erTxHash = deTxHash e,
         erTopics = map Some (take MaxTopicCount topics) @ replicate (MaxTopicCount - length topics) None\<rparr>)"

fun event_rows :: "event_ids \<Rightarrow> Lcm \<Rightarrow> dbEvent list \<Rightarrow> rpc_error + EventRow list" where
  "event_rows ids meta [] = Inr []"
| "event_rows ids meta (e # es) = (case insertEvents ids meta e of
       Inl x \<Rightarrow> Inl x
     | Inr r \<Rightarrow> (case event_rows ids meta es of Inl x \<Rightarrow> Inl x | Inr rs \<Rightarrow> Inr (r # rs)))"

definition maxEventsPerBatch :: nat where
  "maxEventsPerBatch = 1000"

text \<open>The loop over the transactions of a ledger, until the reader is at its end.\<close>

fun insert_tx_events :: "write_faults \<Rightarrow> event_ids \<Rightarrow> Lcm \<Rightarrow> (string + RpcTx) list \<Rightarrow> u32 \<Rightarrow> u32 \<Rightarrow> EventRow list \<Rightarrow> rpc_error + EventRow list" where
  "insert_tx_events flt ids meta [] b a t = Inr t"
| "insert_tx_events flt ids meta (Inl e # rs) b a t = Inl (RpcError e)"
| "insert_tx_events flt ids meta (Inr tx # rs) b a t = (case rtEvents tx of
       Inl e \<Rightarrow> Inl (RpcError e)
     | Inr (txEvents, opEvents) \<Rightarrow> (case stage_events (LedgerSequence meta) tx txEvents b a 0 of
         Inl e \<Rightarrow> Inl e
     | Inr (es, b', a') \<Rightarrow> (case event_rows ids meta (es @ op_events (LedgerSequence meta) tx opEvents) of
         Inl e \<Rightarrow> Inl e
     | Inr rows \<Rightarrow> (case insert_chunks (InsertEventFault flt (LedgerSequence meta)) maxEventsPerBatch erId rows t of
         Inl e \<Rightarrow> Inl e
     | Inr t' \<Rightarrow> insert_tx_events flt ids meta rs b' a' t'))))"

definition InsertEvents :: "write_faults \<Rightarrow> event_ids \<Rightarrow> Lcm \<Rightarrow> EventRow list \<Rightarrow> rpc_error + EventRow list" where
  "InsertEvents flt ids meta t =
     (if CountTransactions meta = 0 then Inr t
      else case TxReader meta of Inl e \<Rightarrow> Inl (RpcError e) | Inr rs \<Rightarrow> insert_tx_events flt ids meta rs 0 0 t)"

subsection \<open>Trimming and committing\<close>

definition cutoff :: "u32 \<Rightarrow> u32 \<Rightarrow> u32 option" where
  "cutoff latest retentionWindow = (if latest + 1 \<le> retentionWindow then None else Some (latest + 1 - retentionWindow))"

definition trimLedgers :: "write_faults \<Rightarrow> u32 \<Rightarrow> u32 \<Rightarrow> Lcm list \<Rightarrow> rpc_error + Lcm list" where
  "trimLedgers flt latest retentionWindow t = (case cutoff latest retentionWindow of
       None \<Rightarrow> Inr t
     | Some c \<Rightarrow> rpc_exec (TrimLedgersFault flt) (Inr (filter (\<lambda>l. \<not> LedgerSequence l < c) t)))"

definition trimTransactions :: "write_faults \<Rightarrow> u32 \<Rightarrow> u32 \<Rightarrow> TxRow list \<Rightarrow> rpc_error + TxRow list" where
  "trimTransactions flt latest retentionWindow t = (case cutoff latest retentionWindow of
       None \<Rightarrow> Inr t
     | Some c \<Rightarrow> rpc_exec (TrimTransactionsFault flt) (Inr (filter (\<lambda>r. \<not> trLedgerSequence r < c) t)))"

definition trimEvents :: "write_faults \<Rightarrow> event_ids \<Rightarrow> u32 \<Rightarrow> u32 \<Rightarrow> EventRow list \<Rightarrow> rpc_error + EventRow list" where
  "trimEvents flt ids latest retentionWindow t = (case cutoff latest retentionWindow of
       None \<Rightarrow> Inr t
     | Some c \<Rightarrow> rpc_exec (TrimEventsFault flt)
         (Inr (filter (\<lambda>r. \<not> erId r < ids \<lparr>cuLedger = c, cuTx = 0, cuOp = 0, cuEvent = 0\<rparr>) t)))"

text \<open>
  \<open>Commit\<close>: trim, replace the tables, update the cache, and checkpoint the log, whose failure is returned although the transaction is committed.
\<close>

definition writeTx_Commit :: "write_faults \<Rightarrow> event_ids \<Rightarrow> u32 \<Rightarrow> Lcm \<Rightarrow> rpc_tables \<Rightarrow> DB \<Rightarrow> (rpc_error + unit) \<times> DB" where
  "writeTx_Commit flt ids window meta w d = (let ledgerSeq = LedgerSequence meta in
     case trimLedgers flt ledgerSeq window (ledger_close_meta w) of
       Inl e \<Rightarrow> (Inl e, d)
     | Inr ls \<Rightarrow> (case trimTransactions flt ledgerSeq window (transactions_t w) of
         Inl e \<Rightarrow> (Inl e, d)
     | Inr ts \<Rightarrow> (case trimEvents flt ids ledgerSeq window (events_t w) of
         Inl e \<Rightarrow> (Inl e, d)
     | Inr es \<Rightarrow> (case CommitFault flt of
         Some e \<Rightarrow> (Inl (RpcError e), d)
     | None \<Rightarrow>
         let c = (if latestLedgerSeq (cache d) < ledgerSeq then \<lparr>latestLedgerSeq = ledgerSeq, latestLedgerCloseTime = LedgerCloseTime meta\<rparr> else cache d);
             d' = \<lparr>tables = \<lparr>ledger_close_meta = ls, transactions_t = ts, events_t = es\<rparr>, cache = c\<rparr> in
         (case PostCommitFault flt of Some e \<Rightarrow> (Inl (RpcError e), d') | None \<Rightarrow> (Inr (), d'))))))"

subsection \<open>Reading\<close>

definition lcm_info :: "Lcm \<Rightarrow> LedgerInfo" where
  "lcm_info l = \<lparr>Sequence = LedgerSequence l, CloseTime = LedgerCloseTime l\<rparr>"

definition getLedgerRangeWithCache :: "Lcm list \<Rightarrow> dbCache \<Rightarrow> rpc_error + LedgerRange" where
  "getLedgerRangeWithCache t c = (case filter (\<lambda>l. \<forall>x\<in>set t. LedgerSequence l \<le> LedgerSequence x) t of
       [] \<Rightarrow> Inl ErrEmptyDB
     | l # _ \<Rightarrow> Inr \<lparr>FirstLedger = lcm_info l, LastLedger = \<lparr>Sequence = latestLedgerSeq c, CloseTime = latestLedgerCloseTime c\<rparr>\<rparr>)"

definition getLedgerRangeWithoutCache :: "Lcm list \<Rightarrow> rpc_error + LedgerRange" where
  "getLedgerRangeWithoutCache t = (case sort_key LedgerSequence (filter (\<lambda>l. (\<forall>x\<in>set t. LedgerSequence l \<le> LedgerSequence x) \<or>
         (\<forall>x\<in>set t. LedgerSequence x \<le> LedgerSequence l)) t) of
       [] \<Rightarrow> Inl ErrEmptyDB
     | ls \<Rightarrow> Inr \<lparr>FirstLedger = lcm_info (hd ls), LastLedger = lcm_info (last ls)\<rparr>)"

definition GetLedgerRange :: "DB \<Rightarrow> rpc_error + LedgerRange" where
  "GetLedgerRange d = (if latestLedgerSeq (cache d) \<noteq> 0 then getLedgerRangeWithCache (ledger_close_meta (tables d)) (cache d)
     else getLedgerRangeWithoutCache (ledger_close_meta (tables d)))"

definition getLedgerCountInRange :: "Lcm list \<Rightarrow> u32 \<Rightarrow> u32 \<Rightarrow> u32 \<times> u32 \<times> u32" where
  "getLedgerCountInRange t first_seq end_seq = (let ls = map LedgerSequence (filter (\<lambda>l. first_seq \<le> LedgerSequence l \<and> LedgerSequence l \<le> end_seq) t) in
     if ls = [] then (0, 0, 0) else (of_nat (length ls), fold min ls (hd ls), fold max ls (hd ls)))"

definition getLatestLedgerSequence :: "DB \<Rightarrow> (rpc_error + u32) \<times> DB" where
  "getLatestLedgerSequence d =
     (if latestLedgerSeq (cache d) \<noteq> 0 then (Inr (latestLedgerSeq (cache d)), d)
      else case GetLedgerRange d of
          Inl e \<Rightarrow> (Inl e, d)
        | Inr r \<Rightarrow> (Inr (Sequence (LastLedger r)),
            if latestLedgerSeq (cache d) < Sequence (LastLedger r)
            then d\<lparr>cache := \<lparr>latestLedgerSeq = Sequence (LastLedger r), latestLedgerCloseTime = CloseTime (LastLedger r)\<rparr>\<rparr> else d))"

definition getLedgerFromDB :: "Lcm list \<Rightarrow> u32 \<Rightarrow> rpc_error + Lcm option" where
  "getLedgerFromDB t sequence = (case filter (\<lambda>l. LedgerSequence l = sequence) t of
       [] \<Rightarrow> Inr None
     | [l] \<Rightarrow> Inr (Some l)
     | _ \<Rightarrow> Inl (RpcError ''multiple lcm entries''))"

text \<open>The lookup of a transaction by its hash joins the index with the ledgers; it gives the ledger and the position in it.\<close>

definition getTransactionByHash :: "rpc_tables \<Rightarrow> string \<Rightarrow> (Lcm \<times> u32) option" where
  "getTransactionByHash w h = (case concat (map (\<lambda>r. if trHash r = h
         then map (\<lambda>l. (l, trApplicationOrder r)) (filter (\<lambda>l. LedgerSequence l = trLedgerSequence r) (ledger_close_meta w)) else []) (transactions_t w)) of
       [] \<Rightarrow> None
     | x # _ \<Rightarrow> Some x)"

end
