(* ===== verification/Rpc_Ingest.thy ===== *)
theory Rpc_Ingest
  imports Rpc_Store
begin

text \<open>
  The ingestion service of the RPC server (\<open>suban-rpc/.../ingest/service.go\<close>): one ledger after the other into the store and the fee windows, and, for the
  backfill, ranges of ledgers in one transaction. The ledger backend and the history archive are parameters.
\<close>

record Service =
  svcDB :: DB
  feeWindows :: FeeWindows
  latestIngestedSeq :: u32

record ingest_env =
  historyRetentionWindow :: u32
  eventIds :: event_ids
  backendGetLedger :: "u32 \<Rightarrow> string + Lcm"
  backendPrepareRange :: "u32 \<Rightarrow> string option"
  archiveCurrentLedger :: "string + u32"

definition ingestLedgerCloseMeta :: "write_faults \<Rightarrow> event_ids \<Rightarrow> Lcm \<Rightarrow> rpc_tables \<Rightarrow> rpc_error + rpc_tables" where
  "ingestLedgerCloseMeta flt ids meta w = (case InsertLedger flt meta (ledger_close_meta w) of
       Inl e \<Rightarrow> Inl e
     | Inr ls \<Rightarrow> (case InsertTransactions flt meta (transactions_t w) of
         Inl e \<Rightarrow> Inl e
     | Inr ts \<Rightarrow> (case InsertEvents flt ids meta (events_t w) of
         Inl e \<Rightarrow> Inl e
     | Inr es \<Rightarrow> Inr \<lparr>ledger_close_meta = ls, transactions_t = ts, events_t = es\<rparr>)))"

definition bump_latest :: "u32 \<Rightarrow> Service \<Rightarrow> Service" where
  "bump_latest sequence s = (if latestIngestedSeq s < sequence then s\<lparr>latestIngestedSeq := sequence\<rparr> else s)"

text \<open>One ledger: the fee windows are updated before the transaction commits.\<close>

definition rpc_ingest :: "ingest_env \<Rightarrow> write_faults \<Rightarrow> u32 \<Rightarrow> Service \<Rightarrow> (rpc_error + unit) \<times> Service" where
  "rpc_ingest env flt sequence s = (case backendGetLedger env sequence of
       Inl e \<Rightarrow> (Inl (RpcError e), s)
     | Inr meta \<Rightarrow> (case BeginFault flt of
         Some e \<Rightarrow> (Inl (RpcError e), s)
     | None \<Rightarrow> (case ingestLedgerCloseMeta flt (eventIds env) meta (tables (svcDB s)) of
         Inl e \<Rightarrow> (Inl e, s)
     | Inr w \<Rightarrow> (case IngestFees (FeeReader meta) (LedgerCloseMeta.truncate meta) (feeWindows s) of
         (Inl es, fw) \<Rightarrow> (Inl (RpcError ''fee windows''), s\<lparr>feeWindows := fw\<rparr>)
     | (Inr _, fw) \<Rightarrow> (case writeTx_Commit flt (eventIds env) (historyRetentionWindow env) meta w (svcDB s) of
         (Inl e, d) \<Rightarrow> (Inl e, s\<lparr>feeWindows := fw, svcDB := d\<rparr>)
     | (Inr _, d) \<Rightarrow> (Inr (), bump_latest sequence (s\<lparr>feeWindows := fw, svcDB := d\<rparr>)))))))"

text \<open>
  A range of ledgers in one transaction. A counter at the greatest value wraps, so the loop may not end; without a ledger there is nothing to commit, and
  the zero value panics.
\<close>

partial_function (option) ingestRange_rows ::
  "(u32 \<Rightarrow> string + Lcm) \<Rightarrow> event_ids \<Rightarrow> write_faults \<Rightarrow> u32 \<Rightarrow> u32 \<Rightarrow> Lcm option \<Rightarrow> rpc_tables \<Rightarrow> (rpc_error + Lcm option \<times> rpc_tables) option" where
  "ingestRange_rows backend ids flt seq last_seq latest w =
     (if seq \<le> last_seq then
        (case backend seq of
           Inl e \<Rightarrow> Some (Inl (RpcError e))
         | Inr meta \<Rightarrow> (case ingestLedgerCloseMeta flt ids meta w of
             Inl e \<Rightarrow> Some (Inl e)
           | Inr w' \<Rightarrow> ingestRange_rows backend ids flt (seq + 1) last_seq (Some meta) w'))
      else Some (Inr (latest, w)))"

definition rpc_ingestRange :: "ingest_env \<Rightarrow> (u32 \<Rightarrow> string + Lcm) \<Rightarrow> write_faults \<Rightarrow> u32 \<Rightarrow> u32 \<Rightarrow> Service \<Rightarrow> ((rpc_error + unit) \<times> Service) option" where
  "rpc_ingestRange env backend flt first_seq last_seq s = (case BeginFault flt of
       Some e \<Rightarrow> Some (Inl (RpcError e), s)
     | None \<Rightarrow> (case ingestRange_rows backend (eventIds env) flt first_seq last_seq None (tables (svcDB s)) of
         None \<Rightarrow> None
       | Some (Inl e) \<Rightarrow> Some (Inl e, s)
       | Some (Inr (None, w)) \<Rightarrow> Some (Inl RpcPanic, s)
       | Some (Inr (Some meta, w)) \<Rightarrow> (case writeTx_Commit flt (eventIds env) (historyRetentionWindow env) meta w (svcDB s) of
           (Inl e, d) \<Rightarrow> Some (Inl e, s\<lparr>svcDB := d\<rparr>)
         | (Inr _, d) \<Rightarrow> Some (Inr (), bump_latest last_seq (s\<lparr>svcDB := d\<rparr>)))))"

text \<open>Where to start: after the latest ledger, or at the current ledger of the archive.\<close>

definition getNextLedgerSequence :: "ingest_env \<Rightarrow> Service \<Rightarrow> (rpc_error + u32) \<times> Service" where
  "getNextLedgerSequence env s = (case getLatestLedgerSequence (svcDB s) of
       (r, d) \<Rightarrow> (case (case r of
           Inr cur \<Rightarrow> Inr (cur + 1)
         | Inl ErrEmptyDB \<Rightarrow> (case archiveCurrentLedger env of
               Inl e \<Rightarrow> Inl (RpcError e)
             | Inr root \<Rightarrow> if root = 0 then Inl (RpcError ''cannot start ingestion without history archives'') else Inr root)
         | Inl e \<Rightarrow> Inl e) of
           Inl e \<Rightarrow> (Inl e, s\<lparr>svcDB := d\<rparr>)
         | Inr next \<Rightarrow> (case backendPrepareRange env next of
               Some e \<Rightarrow> (Inl (RpcError e), s\<lparr>svcDB := d\<rparr>)
             | None \<Rightarrow> (Inr next, s\<lparr>svcDB := d\<rparr>))))"

text \<open>
  The service over time: \<open>nextSeq\<close> is the ledger the loop of \<open>run\<close> is at, \<open>None\<close> between two runs. A process that starts again has an
  empty cache and builds its fee windows anew.
\<close>

record rpc_run =
  svc :: Service
  nextSeq :: "u32 option"

inductive rpc_step :: "ingest_env \<Rightarrow> rpc_run \<Rightarrow> rpc_run \<Rightarrow> bool" for env where
  run_begins: "nextSeq r = None \<Longrightarrow> getNextLedgerSequence env (svc r) = (Inr n, s) \<Longrightarrow> rpc_step env r \<lparr>svc = s, nextSeq = Some n\<rparr>"
| run_fails: "nextSeq r = None \<Longrightarrow> getNextLedgerSequence env (svc r) = (Inl e, s) \<Longrightarrow> rpc_step env r \<lparr>svc = s, nextSeq = None\<rparr>"
| ledger_done: "nextSeq r = Some n \<Longrightarrow> rpc_ingest env flt n (svc r) = (Inr (), s) \<Longrightarrow> rpc_step env r \<lparr>svc = s, nextSeq = Some (n + 1)\<rparr>"
| ledger_fails: "nextSeq r = Some n \<Longrightarrow> rpc_ingest env flt n (svc r) = (Inl e, s) \<Longrightarrow> rpc_step env r \<lparr>svc = s, nextSeq = None\<rparr>"
| read_latest: "getLatestLedgerSequence (svcDB (svc r)) = (res, d) \<Longrightarrow> rpc_step env r (r\<lparr>svc := (svc r)\<lparr>svcDB := d\<rparr>\<rparr>)"
| process_starts: "rpc_step env r \<lparr>svc = \<lparr>svcDB = ResetCache (svcDB (svc r)), feeWindows = fw, latestIngestedSeq = 0\<rparr>, nextSeq = None\<rparr>"

text \<open>
  The loop of \<open>run\<close> with one element of the list for each ledger it gets to, until the first error, which it returns, or while it goes on (\<open>None\<close>); and the attempts of \<open>Start\<close>, each of
  which begins with the ledger after the latest.
\<close>

fun run_loop :: "ingest_env \<Rightarrow> write_faults list \<Rightarrow> u32 \<Rightarrow> Service \<Rightarrow> rpc_error option \<times> Service" where
  "run_loop env [] n s = (None, s)"
| "run_loop env (flt # flts) n s = (case rpc_ingest env flt n s of
       (Inl e, s') \<Rightarrow> (Some e, s')
     | (Inr _, s') \<Rightarrow> run_loop env flts (n + 1) s')"

definition service_run :: "ingest_env \<Rightarrow> write_faults list \<Rightarrow> Service \<Rightarrow> rpc_error option \<times> Service" where
  "service_run env flts s = (case getNextLedgerSequence env s of
       (Inl e, s') \<Rightarrow> (Some e, s')
     | (Inr n, s') \<Rightarrow> run_loop env flts n s')"

fun run_attempts :: "ingest_env \<Rightarrow> write_faults list list \<Rightarrow> Service \<Rightarrow> rpc_error option list \<times> Service" where
  "run_attempts env [] s = ([], s)"
| "run_attempts env (flts # rest) s = (case service_run env flts s of
       (r, s') \<Rightarrow> (case run_attempts env rest s' of (rs, s'') \<Rightarrow> (r # rs, s'')))"

end
