(* ===== verification/Rpc_Store_Props.thy ===== *)
theory Rpc_Store_Props
  imports Rpc_Ingest
begin

text \<open>
  What the store keeps true: its ledgers are a range without gaps, inside the retention window; the index of transactions and the events are those of these ledgers;
  the cached latest ledger is the last one.
\<close>

subsection \<open>Ranges\<close>

definition seqs :: "Lcm list \<Rightarrow> nat list" where
  "seqs t = map (\<lambda>l. unat (LedgerSequence l)) t"

definition gapless :: "Lcm list \<Rightarrow> bool" where
  "gapless t \<longleftrightarrow> (\<exists>a. seqs t = [a..<a + length t])"

lemma seqs_simps [simp]: "seqs [] = []" "seqs (x # t) = unat (LedgerSequence x) # seqs t" "seqs (t @ u) = seqs t @ seqs u" "length (seqs t) = length t"
  by (simp_all add: seqs_def)

lemma gapless_Nil [simp]: "gapless []"
  by (simp add: gapless_def)

lemma gaplessI: "seqs t = [a..<b] \<Longrightarrow> gapless t"
  unfolding gapless_def by (rule exI [of _ a]) (metis diff_add_inverse2 diff_is_0_eq le_add_diff_inverse length_upt linorder_le_cases seqs_simps(4) upt_conv_Nil add_0_right)

lemma gaplessE:
  assumes "gapless t"
  obtains a where "seqs t = [a..<a + length t]"
  using assms unfolding gapless_def by blast

lemma insort_key_last: "(\<And>x. x \<in> set t \<Longrightarrow> f x < f a) \<Longrightarrow> insort_key f a t = t @ [a]"
proof (induction t)
  case (Cons x t)
  have "\<not> f a \<le> f x" using Cons.prems [of x] by simp
  with Cons show ?case by simp
qed simp

lemma seqs_word: "unat (LedgerSequence x) \<in> set (seqs t) \<longleftrightarrow> LedgerSequence x \<in> LedgerSequence ` set t"
  by (auto simp: seqs_def image_iff word_unat_eq_iff)

lemma filter_upt_ge: "filter (\<lambda>x. \<not> x < c) [a..<b] = [max a c..<b]"
proof (induction b)
  case (Suc b)
  then show ?case by (cases "a \<le> b") (auto simp: max_def not_less)
qed simp

lemma seqs_filter: "seqs (filter (\<lambda>l. \<not> LedgerSequence l < c) t) = filter (\<lambda>x. \<not> x < unat c) (seqs t)"
  by (induction t) (auto simp: word_less_nat_alt)

lemma seqs_trim: "seqs t = [a..<b] \<Longrightarrow> seqs (filter (\<lambda>l. \<not> LedgerSequence l < c) t) = [max a (unat c)..<b]"
  by (simp add: seqs_filter filter_upt_ge)

subsection \<open>The rows of a ledger\<close>

definition lookups :: "Lcm \<Rightarrow> TxRow list" where
  "lookups meta = (if CountTransactions meta = 0 then [] else case TxReader meta of
       Inl e \<Rightarrow> []
     | Inr rs \<Rightarrow> (case read_lookups (CountTransactions meta) rs [] of
         Inl e \<Rightarrow> []
       | Inr m \<Rightarrow> map (\<lambda>(h, tx). \<lparr>trHash = h, trLedgerSequence = LedgerSequence meta, trApplicationOrder = rtIndex tx\<rparr>) m))"

fun tx_event_rows :: "event_ids \<Rightarrow> Lcm \<Rightarrow> (string + RpcTx) list \<Rightarrow> u32 \<Rightarrow> u32 \<Rightarrow> EventRow list" where
  "tx_event_rows ids meta [] b a = []"
| "tx_event_rows ids meta (Inl e # rs) b a = []"
| "tx_event_rows ids meta (Inr tx # rs) b a = (case rtEvents tx of
       Inl e \<Rightarrow> []
     | Inr (txEvents, opEvents) \<Rightarrow> (case stage_events (LedgerSequence meta) tx txEvents b a 0 of
         Inl e \<Rightarrow> []
     | Inr (es, b', a') \<Rightarrow> (case event_rows ids meta (es @ op_events (LedgerSequence meta) tx opEvents) of
         Inl e \<Rightarrow> []
     | Inr rows \<Rightarrow> rows @ tx_event_rows ids meta rs b' a')))"

definition ledger_event_rows :: "event_ids \<Rightarrow> Lcm \<Rightarrow> EventRow list" where
  "ledger_event_rows ids meta = (if CountTransactions meta = 0 then [] else case TxReader meta of
       Inl e \<Rightarrow> [] | Inr rs \<Rightarrow> tx_event_rows ids meta rs 0 0)"

lemma insert_chunks_rows:
  assumes "insert_chunks fault n key rows t = Inr t'" "n > 0"
  shows "t' = t @ rows" "distinct (map key t) \<Longrightarrow> distinct (map key t')"
proof -
  have "t' = t @ rows \<and> (distinct (map key t) \<longrightarrow> distinct (map key t'))"
    using assms
  proof (induction fault n key rows t rule: insert_chunks.induct)
    case (1 fault n key rows t)
    show ?case
    proof (cases "rows = []")
      case True
      with 1(2) show ?thesis by (simp add: insert_chunks.simps)
    next
      case False
      then obtain t1 where t1: "rpc_exec fault (insert_keyed key (take n rows) t) = Inr t1" "insert_chunks fault n key (drop n rows) t1 = Inr t'"
        using 1(2,3) by (subst (asm) insert_chunks.simps) (auto split: sum.splits)
      have k: "t1 = t @ take n rows" "distinct (map key (take n rows))" "key ` set (take n rows) \<inter> key ` set t = {}"
        using t1(1) by (auto simp: rpc_exec_def insert_keyed_def split: option.splits if_splits)
      have IH: "t' = t1 @ drop n rows" "distinct (map key t1) \<longrightarrow> distinct (map key t')" using 1(1) [OF _ t1] False 1(3) by blast+
      have "distinct (map key t) \<Longrightarrow> distinct (map key t1)" using k by (auto simp: Int_commute)
      with IH k(1) show ?thesis by simp
    qed
  qed
  then show "t' = t @ rows" "distinct (map key t) \<Longrightarrow> distinct (map key t')" by blast+
qed

lemma InsertTransactions_rows:
  assumes "InsertTransactions flt meta t = Inr t'"
  shows "t' = t @ lookups meta" "distinct (map trHash t) \<Longrightarrow> distinct (map trHash t')"
  using assms insert_chunks_rows [of _ maxRowsPerBatch trHash]
  by (auto simp: InsertTransactions_def lookups_def maxRowsPerBatch_def split: if_splits sum.splits)

lemma insert_tx_events_rows:
  "insert_tx_events flt ids meta rs b a t = Inr t' \<Longrightarrow>
    t' = t @ tx_event_rows ids meta rs b a \<and> (distinct (map erId t) \<longrightarrow> distinct (map erId t'))"
proof (induction flt ids meta rs b a t rule: insert_tx_events.induct)
  case (3 flt ids meta tx rs b a t)
  then obtain txEvents opEvents es b' a' rows t1 where x: "rtEvents tx = Inr (txEvents, opEvents)"
    "stage_events (LedgerSequence meta) tx txEvents b a 0 = Inr (es, b', a')"
    "event_rows ids meta (es @ op_events (LedgerSequence meta) tx opEvents) = Inr rows"
    "insert_chunks (InsertEventFault flt (LedgerSequence meta)) maxEventsPerBatch erId rows t = Inr t1"
    "insert_tx_events flt ids meta rs b' a' t1 = Inr t'"
    by (auto split: sum.splits prod.splits)
  have "t1 = t @ rows" "distinct (map erId t) \<Longrightarrow> distinct (map erId t1)"
    using insert_chunks_rows [OF x(4)] by (simp_all add: maxEventsPerBatch_def)
  moreover have "t' = t1 @ tx_event_rows ids meta rs b' a' \<and> (distinct (map erId t1) \<longrightarrow> distinct (map erId t'))"
    using 3(1) [OF x(1) refl x(2) refl refl x(3,4,5)] .
  ultimately have "t' = t @ (rows @ tx_event_rows ids meta rs b' a')" "distinct (map erId t) \<Longrightarrow> distinct (map erId t')" by (simp, blast)
  then show ?case by (simp only: tx_event_rows.simps x sum.case prod.case) blast
qed auto

lemma InsertEvents_rows:
  assumes "InsertEvents flt ids meta t = Inr t'"
  shows "t' = t @ ledger_event_rows ids meta" "distinct (map erId t) \<Longrightarrow> distinct (map erId t')"
  using assms by (auto simp: InsertEvents_def ledger_event_rows_def split: if_splits sum.splits dest: insert_tx_events_rows)

subsection \<open>Event identifiers\<close>

text \<open>
  What the protocol package promises of the printed cursors: they sort as their ledger, transaction, operation and event, as long as the indices are in their range.
\<close>

definition cursor_in_range :: "Cursor \<Rightarrow> bool" where
  "cursor_in_range c \<longleftrightarrow> cuTx c \<le> TransactionMask \<and> cuOp c \<le> OperationMask"

definition cursor_key :: "Cursor \<Rightarrow> u32 \<times> u32 \<times> u32 \<times> u32" where
  "cursor_key c = (cuLedger c, cuTx c, cuOp c, cuEvent c)"

definition event_ids_ok :: "event_ids \<Rightarrow> bool" where
  "event_ids_ok ids \<longleftrightarrow> (\<forall>c d. cursor_in_range c \<and> cursor_in_range d \<longrightarrow> (ids c < ids d \<longleftrightarrow> cursor_key c < cursor_key d))"

text \<open>The indices of the transactions and operations of a ledger are in their range.\<close>

definition tx_in_range :: "RpcTx \<Rightarrow> bool" where
  "tx_in_range tx \<longleftrightarrow> rtIndex tx \<le> TransactionMask \<and>
     (case rtEvents tx of Inl e \<Rightarrow> True | Inr (txEvents, opEvents) \<Rightarrow> length opEvents \<le> unat OperationMask)"

definition valid_ledger :: "Lcm \<Rightarrow> bool" where
  "valid_ledger meta \<longleftrightarrow> (case TxReader meta of Inl e \<Rightarrow> True | Inr rs \<Rightarrow> (\<forall>tx. Inr tx \<in> set rs \<longrightarrow> tx_in_range tx))"

lemma stage_events_cursors:
  "stage_events l tx evs b a k = Inr (es, b', a') \<Longrightarrow> rtIndex tx \<le> TransactionMask \<Longrightarrow> e \<in> set es \<Longrightarrow>
    cuLedger (deCursor e) = l \<and> cursor_in_range (deCursor e)"
proof (induction evs arbitrary: b a k es)
  case (Cons x evs)
  obtain stage ev where x: "x = (stage, ev)" by (cases x)
  show ?case using Cons.prems unfolding x
    by (cases stage) (fastforce simp: Let_def cursor_in_range_def split: sum.splits dest: Cons.IH)+
qed simp

lemma op_events_cursors:
  assumes "e \<in> set (op_events l tx ops)" "rtIndex tx \<le> TransactionMask" "length ops \<le> unat OperationMask"
  shows "cuLedger (deCursor e) = l \<and> cursor_in_range (deCursor e)"
proof -
  obtain i j where i: "i < length ops" "cuOp (deCursor e) = of_nat i" "cuLedger (deCursor e) = l" "cuTx (deCursor e) = rtIndex tx"
    using assms(1) by (auto simp: op_events_def in_set_enumerate_eq)
  have "unat (of_nat i :: u32) \<le> i" by (simp add: unat_of_nat)
  then have "(of_nat i :: u32) \<le> OperationMask" using i(1) assms(3) by (simp add: word_le_nat_alt)
  with i assms(2) show ?thesis by (simp add: cursor_in_range_def)
qed

lemma event_rows_ids:
  "event_rows ids meta es = Inr rows \<Longrightarrow> r \<in> set rows \<Longrightarrow> \<exists>e\<in>set es. erId r = ids (deCursor e)"
  by (induction es arbitrary: rows) (auto simp: insertEvents_def split: sum.splits option.splits)

lemma tx_event_rows_ids:
  "r \<in> set (tx_event_rows ids meta rs b a) \<Longrightarrow> \<forall>tx. Inr tx \<in> set rs \<longrightarrow> tx_in_range tx \<Longrightarrow>
    \<exists>c. erId r = ids c \<and> cuLedger c = LedgerSequence meta \<and> cursor_in_range c"
proof (induction ids meta rs b a rule: tx_event_rows.induct)
  case (3 ids meta tx rs b a)
  obtain txEvents opEvents es b' a' rows where x: "rtEvents tx = Inr (txEvents, opEvents)"
    "stage_events (LedgerSequence meta) tx txEvents b a 0 = Inr (es, b', a')"
    "event_rows ids meta (es @ op_events (LedgerSequence meta) tx opEvents) = Inr rows"
    "r \<in> set rows \<or> r \<in> set (tx_event_rows ids meta rs b' a')"
    using 3(2) by (cases "rtEvents tx") (auto split: sum.split_asm prod.split_asm elim: sym [THEN that [rotated]] intro: that [OF _ sym sym])
  have tx: "rtIndex tx \<le> TransactionMask" "length opEvents \<le> unat OperationMask" using 3(3) x(1) by (auto simp: tx_in_range_def)
  show ?case
  proof (cases "r \<in> set rows")
    case True
    then obtain e where "e \<in> set (es @ op_events (LedgerSequence meta) tx opEvents)" "erId r = ids (deCursor e)" using event_rows_ids [OF x(3)] by blast
    with stage_events_cursors [OF x(2) tx(1)] op_events_cursors [OF _ tx] show ?thesis by fastforce
  next
    case False
    with x(4) 3(1) [OF x(1) refl x(2) refl refl x(3)] 3(3) show ?thesis by simp
  qed
qed simp_all

lemma ledger_event_ids:
  "r \<in> set (ledger_event_rows ids meta) \<Longrightarrow> valid_ledger meta \<Longrightarrow> \<exists>c. erId r = ids c \<and> cuLedger c = LedgerSequence meta \<and> cursor_in_range c"
  by (auto simp: ledger_event_rows_def valid_ledger_def split: if_splits sum.splits dest: tx_event_rows_ids)

lemma event_before:
  assumes "event_ids_ok ids" "valid_ledger meta" "r \<in> set (ledger_event_rows ids meta)"
  shows "erId r < ids \<lparr>cuLedger = n, cuTx = 0, cuOp = 0, cuEvent = 0\<rparr> \<longleftrightarrow> LedgerSequence meta < n"
proof -
  obtain c where c: "erId r = ids c" "cuLedger c = LedgerSequence meta" "cursor_in_range c" using ledger_event_ids [OF assms(3,2)] by blast
  have "cursor_in_range \<lparr>cuLedger = n, cuTx = 0, cuOp = 0, cuEvent = 0\<rparr>" by (simp add: cursor_in_range_def)
  with assms(1) c(3) have "ids c < ids \<lparr>cuLedger = n, cuTx = 0, cuOp = 0, cuEvent = 0\<rparr> \<longleftrightarrow>
      cursor_key c < cursor_key \<lparr>cuLedger = n, cuTx = 0, cuOp = 0, cuEvent = 0\<rparr>" unfolding event_ids_ok_def by blast
  with c show ?thesis by (auto simp: cursor_key_def less_prod_def' less_prod_def less_eq_prod_def)
qed

subsection \<open>The tables\<close>

text \<open>The index and the events are those of the ledgers, in any order.\<close>

definition indexed :: "event_ids \<Rightarrow> rpc_tables \<Rightarrow> bool" where
  "indexed ids w \<longleftrightarrow> (\<forall>l\<in>set (ledger_close_meta w). valid_ledger l) \<and>
     mset (transactions_t w) = mset (concat (map lookups (ledger_close_meta w))) \<and> distinct (map trHash (transactions_t w)) \<and>
     mset (events_t w) = mset (concat (map (ledger_event_rows ids) (ledger_close_meta w))) \<and> distinct (map erId (events_t w))"

lemma lookups_sequence: "r \<in> set (lookups meta) \<Longrightarrow> trLedgerSequence r = LedgerSequence meta"
  by (auto simp: lookups_def split: if_splits sum.splits)

lemma mset_concat_insort: "mset (concat (map f (insort_key k x t))) = mset (f x) + mset (concat (map f t))"
  by (induction t) auto

lemma ingestLedgerCloseMeta_indexed:
  assumes "ingestLedgerCloseMeta flt ids meta w = Inr w'" "indexed ids w" "valid_ledger meta"
  shows "indexed ids w'" "ledger_close_meta w' = insort_key LedgerSequence meta (ledger_close_meta w)"
    "LedgerSequence meta \<notin> LedgerSequence ` set (ledger_close_meta w)"
proof -
  obtain ls ts es where x: "InsertLedger flt meta (ledger_close_meta w) = Inr ls" "InsertTransactions flt meta (transactions_t w) = Inr ts"
    "InsertEvents flt ids meta (events_t w) = Inr es" "w' = \<lparr>ledger_close_meta = ls, transactions_t = ts, events_t = es\<rparr>"
    using assms(1) by (auto simp: ingestLedgerCloseMeta_def split: sum.splits)
  show l: "ledger_close_meta w' = insort_key LedgerSequence meta (ledger_close_meta w)" "LedgerSequence meta \<notin> LedgerSequence ` set (ledger_close_meta w)"
    using x(1,4) by (auto simp: InsertLedger_def rpc_exec_def split: option.splits if_splits)
  show "indexed ids w'"
    using assms(2,3) InsertTransactions_rows [OF x(2)] InsertEvents_rows [OF x(3)] x(4) l(1)
    by (auto simp: indexed_def mset_concat_insort set_insort_key)
qed

text \<open>Everything of ledgers before \<open>c\<close> removed.\<close>

definition drop_before :: "event_ids \<Rightarrow> u32 \<Rightarrow> rpc_tables \<Rightarrow> rpc_tables" where
  "drop_before ids c w = \<lparr>ledger_close_meta = filter (\<lambda>l. \<not> LedgerSequence l < c) (ledger_close_meta w),
     transactions_t = filter (\<lambda>r. \<not> trLedgerSequence r < c) (transactions_t w),
     events_t = filter (\<lambda>r. \<not> erId r < ids \<lparr>cuLedger = c, cuTx = 0, cuOp = 0, cuEvent = 0\<rparr>) (events_t w)\<rparr>"

lemma filter_concat_map:
  assumes "\<And>l r. l \<in> set ls \<Longrightarrow> r \<in> set (f l) \<Longrightarrow> P r \<longleftrightarrow> Q l"
  shows "filter P (concat (map f ls)) = concat (map f (filter Q ls))"
  using assms
proof (induction ls)
  case (Cons l ls)
  have "filter P (f l) = (if Q l then f l else [])" using Cons.prems [of l] by (auto simp: filter_empty_conv intro: filter_True)
  with Cons show ?case by simp
qed simp

lemma drop_before_indexed:
  assumes "event_ids_ok ids" "indexed ids w"
  shows "indexed ids (drop_before ids c w)"
proof -
  let ?L = "ledger_close_meta w" and ?e = "ids \<lparr>cuLedger = c, cuTx = 0, cuOp = 0, cuEvent = 0\<rparr>"
  have v: "\<forall>l\<in>set ?L. valid_ledger l" using assms(2) by (simp add: indexed_def)
  have "filter (\<lambda>r. \<not> trLedgerSequence r < c) (concat (map lookups ?L)) = concat (map lookups (filter (\<lambda>l. \<not> LedgerSequence l < c) ?L))"
    by (rule filter_concat_map) (simp add: lookups_sequence)
  moreover have "filter (\<lambda>r. \<not> erId r < ?e) (concat (map (ledger_event_rows ids) ?L)) =
      concat (map (ledger_event_rows ids) (filter (\<lambda>l. \<not> LedgerSequence l < c) ?L))"
    by (rule filter_concat_map) (use v event_before [OF assms(1)] in auto)
  ultimately show ?thesis using assms(2) v
    by (simp add: indexed_def drop_before_def distinct_map_filter) (metis mset_filter)
qed

text \<open>What a commit leaves: the old database, or the trimmed tables with the cache brought up to date.\<close>

definition trimmed :: "event_ids \<Rightarrow> u32 \<Rightarrow> u32 \<Rightarrow> rpc_tables \<Rightarrow> rpc_tables" where
  "trimmed ids latest window w = (case cutoff latest window of None \<Rightarrow> w | Some c \<Rightarrow> drop_before ids c w)"

definition committed :: "event_ids \<Rightarrow> u32 \<Rightarrow> Lcm \<Rightarrow> rpc_tables \<Rightarrow> DB \<Rightarrow> DB" where
  "committed ids window meta w d = \<lparr>tables = trimmed ids (LedgerSequence meta) window w,
     cache = (if latestLedgerSeq (cache d) < LedgerSequence meta
       then \<lparr>latestLedgerSeq = LedgerSequence meta, latestLedgerCloseTime = LedgerCloseTime meta\<rparr> else cache d)\<rparr>"

lemma writeTx_Commit_cases:
  assumes "writeTx_Commit flt ids window meta w d = (r, d')"
  shows "d' = d \<and> r \<noteq> Inr () \<or> d' = committed ids window meta w d"
  using assms
  by (auto simp: writeTx_Commit_def committed_def trimmed_def drop_before_def trimLedgers_def trimTransactions_def trimEvents_def rpc_exec_def Let_def
      split: option.splits sum.splits if_splits)

lemma trimmed_indexed: "event_ids_ok ids \<Longrightarrow> indexed ids w \<Longrightarrow> indexed ids (trimmed ids latest window w)"
  by (simp add: trimmed_def drop_before_indexed split: option.split)

lemma trimmed_seqs:
  assumes "seqs (ledger_close_meta w) = [a..<b]" "unat latest + 1 < 2 ^ 32"
  shows "seqs (ledger_close_meta (trimmed ids latest window w)) = [max a (unat latest + 1 - unat window)..<b]"
proof -
  have n: "unat (latest + 1) = unat latest + 1" using assms(2) by (simp add: unat_add_no_wrap)
  show ?thesis
  proof (cases "latest + 1 \<le> window")
    case True
    then have "unat latest + 1 - unat window = 0" by (simp add: word_le_nat_alt n)
    with True assms(1) show ?thesis by (simp add: trimmed_def cutoff_def)
  next
    case False
    then have "unat (latest + 1 - window) = unat latest + 1 - unat window" using n by (simp add: unat_sub_no_wrap word_le_nat_alt)
    with False seqs_trim [OF assms(1), of "latest + 1 - window"] show ?thesis by (simp add: trimmed_def cutoff_def drop_before_def)
  qed
qed

subsection \<open>The invariant of the store\<close>

definition cache_ok :: "DB \<Rightarrow> bool" where
  "cache_ok d \<longleftrightarrow> latestLedgerSeq (cache d) = 0 \<or> ledger_close_meta (tables d) \<noteq> [] \<and>
     \<lparr>Sequence = latestLedgerSeq (cache d), CloseTime = latestLedgerCloseTime (cache d)\<rparr> = lcm_info (last (ledger_close_meta (tables d)))"

definition store_ok :: "ingest_env \<Rightarrow> DB \<Rightarrow> bool" where
  "store_ok env d \<longleftrightarrow> indexed (eventIds env) (tables d) \<and> gapless (ledger_close_meta (tables d)) \<and>
     length (ledger_close_meta (tables d)) \<le> unat (historyRetentionWindow env) \<and>
     (\<forall>l\<in>set (ledger_close_meta (tables d)). unat (LedgerSequence l) < 2 ^ 31) \<and> cache_ok d"

text \<open>
  What is assumed of the environment: the identifiers of events sort as they should, some ledgers are retained, and the backend returns the ledger that was asked
  for, whose sequence is a positive 32 bit integer.
\<close>

definition ingest_env_ok :: "ingest_env \<Rightarrow> bool" where
  "ingest_env_ok env \<longleftrightarrow> event_ids_ok (eventIds env) \<and> 0 < historyRetentionWindow env \<and>
     (\<forall>n meta. backendGetLedger env n = Inr meta \<longrightarrow> LedgerSequence meta = n \<and> unat n < 2 ^ 31 \<and> valid_ledger meta)"

text \<open>The ledger \<open>n\<close> can be added at the end.\<close>

definition follows :: "u32 \<Rightarrow> Lcm list \<Rightarrow> bool" where
  "follows n t \<longleftrightarrow> t = [] \<or> unat n = unat (LedgerSequence (last t)) + 1"

lemma last_seqs: "seqs t = [a..<b] \<Longrightarrow> t \<noteq> [] \<Longrightarrow> Suc (unat (LedgerSequence (last t))) = b"
  using last_map [of t "\<lambda>l. unat (LedgerSequence l)"] by (cases "a < b") (auto simp: seqs_def)

lemma gapless_snoc:
  assumes g: "gapless t" and f: "follows (LedgerSequence x) t"
  shows "insort_key LedgerSequence x t = t @ [x]" "gapless (t @ [x])"
proof -
  obtain a where a: "seqs t = [a..<a + length t]" using g by (rule gaplessE)
  have x: "t \<noteq> [] \<Longrightarrow> unat (LedgerSequence x) = a + length t" using last_seqs [OF a] f by (auto simp: follows_def)
  have "unat (LedgerSequence l) < a + length t" if "l \<in> set t" for l
  proof -
    have "unat (LedgerSequence l) \<in> set (seqs t)" using that by (simp add: seqs_def)
    then show ?thesis unfolding a by simp
  qed
  then have "LedgerSequence l < LedgerSequence x" if "l \<in> set t" for l using that x by (cases t) (auto simp: word_less_nat_alt)
  then show "insort_key LedgerSequence x t = t @ [x]" by (rule insort_key_last)
  show "gapless (t @ [x])"
  proof (cases "t = []")
    case True
    then show ?thesis by (intro gaplessI [of _ "unat (LedgerSequence x)" "Suc (unat (LedgerSequence x))"]) simp
  next
    case False
    with a x show ?thesis by (intro gaplessI [of _ a "Suc (a + length t)"]) simp
  qed
qed

lemma last_filter: "xs \<noteq> [] \<Longrightarrow> P (last xs) \<Longrightarrow> last (filter P xs) = last xs"
  by (induction xs rule: rev_induct) simp_all

lemma trimmed_gapless:
  assumes g: "gapless (ledger_close_meta w)" and l: "ledger_close_meta w \<noteq> []" "last (ledger_close_meta w) = meta"
    and n: "unat (LedgerSequence meta) < 2 ^ 31" and win: "0 < window"
  shows "gapless (ledger_close_meta (trimmed ids (LedgerSequence meta) window w))"
    "length (ledger_close_meta (trimmed ids (LedgerSequence meta) window w)) \<le> unat window"
    "ledger_close_meta (trimmed ids (LedgerSequence meta) window w) \<noteq> []"
    "last (ledger_close_meta (trimmed ids (LedgerSequence meta) window w)) = meta"
proof -
  obtain a where a: "seqs (ledger_close_meta w) = [a..<a + length (ledger_close_meta w)]" using g by (rule gaplessE)
  have b: "Suc (unat (LedgerSequence meta)) = a + length (ledger_close_meta w)" using last_seqs [OF a l(1)] l(2) by simp
  have "0 < unat window" using win by (simp add: word_less_nat_alt)
  have t: "seqs (ledger_close_meta (trimmed ids (LedgerSequence meta) window w)) =
      [max a (unat (LedgerSequence meta) + 1 - unat window)..<a + length (ledger_close_meta w)]"
    by (rule trimmed_seqs [OF a]) (use n in simp)
  then show "gapless (ledger_close_meta (trimmed ids (LedgerSequence meta) window w))" by (rule gaplessI)
  have len: "length (ledger_close_meta (trimmed ids (LedgerSequence meta) window w)) =
      a + length (ledger_close_meta w) - max a (unat (LedgerSequence meta) + 1 - unat window)"
    using arg_cong [OF t, of length] by simp
  then show "length (ledger_close_meta (trimmed ids (LedgerSequence meta) window w)) \<le> unat window" using b by simp
  have "0 < length (ledger_close_meta (trimmed ids (LedgerSequence meta) window w))" unfolding len using b l(1) \<open>0 < unat window\<close> by (auto simp: max_def)
  then show "ledger_close_meta (trimmed ids (LedgerSequence meta) window w) \<noteq> []" by simp
  show "last (ledger_close_meta (trimmed ids (LedgerSequence meta) window w)) = meta"
  proof (cases "LedgerSequence meta + 1 \<le> window")
    case True
    then show ?thesis using l by (simp add: trimmed_def cutoff_def)
  next
    case False
    have "unat (LedgerSequence meta + 1) = unat (LedgerSequence meta) + 1" using n by (simp add: unat_add_no_wrap)
    then have "unat (LedgerSequence meta + 1 - window) = unat (LedgerSequence meta) + 1 - unat window" using False by (simp add: unat_sub_no_wrap)
    then have "\<not> LedgerSequence (last (ledger_close_meta w)) < LedgerSequence meta + 1 - window"
      using \<open>0 < unat window\<close> l(2) by (simp add: word_less_nat_alt)
    with False l show ?thesis by (simp add: trimmed_def cutoff_def drop_before_def last_filter)
  qed
qed

lemma committed_ok:
  assumes env: "ingest_env_ok env" and s: "store_ok env d" and f: "follows n (ledger_close_meta (tables d))"
    and b: "backendGetLedger env n = Inr meta" and w: "ingestLedgerCloseMeta flt (eventIds env) meta (tables d) = Inr w"
  shows "store_ok env (committed (eventIds env) (historyRetentionWindow env) meta w d)"
    "last (ledger_close_meta (tables (committed (eventIds env) (historyRetentionWindow env) meta w d))) = meta"
    "ledger_close_meta (tables (committed (eventIds env) (historyRetentionWindow env) meta w d)) \<noteq> []"
proof -
  let ?T = "ledger_close_meta (tables d)" and ?d = "committed (eventIds env) (historyRetentionWindow env) meta w d"
  have m: "LedgerSequence meta = n" "unat n < 2 ^ 31" "valid_ledger meta" and e: "event_ids_ok (eventIds env)" "0 < historyRetentionWindow env"
    using env b by (auto simp: ingest_env_ok_def)
  note i = ingestLedgerCloseMeta_indexed [OF w _ m(3)]
  have ix: "indexed (eventIds env) (tables d)" and g: "gapless ?T" using s by (simp_all add: store_ok_def)
  have l: "ledger_close_meta w = ?T @ [meta]" "gapless (?T @ [meta])" using i(2) [OF ix] gapless_snoc [OF g] f m(1) by simp_all
  note t = trimmed_gapless [of w meta "historyRetentionWindow env" "eventIds env", unfolded l(1), OF l(2) _ _ m(2) [folded m(1)] e(2)]
  have td: "tables ?d = trimmed (eventIds env) (LedgerSequence meta) (historyRetentionWindow env) w" by (simp add: committed_def)
  show last: "last (ledger_close_meta (tables ?d)) = meta" "ledger_close_meta (tables ?d) \<noteq> []" using t(3,4) by (simp_all add: td)
  have "set (ledger_close_meta (tables ?d)) \<subseteq> set (?T @ [meta])"
    unfolding td l(1) [symmetric] by (auto simp: trimmed_def drop_before_def split: option.splits)
  moreover have "cache_ok ?d"
  proof (cases "latestLedgerSeq (cache d) < n")
    case True
    with last m(1) show ?thesis by (simp add: cache_ok_def lcm_info_def) (simp add: committed_def)
  next
    case False
    have "latestLedgerSeq (cache d) = 0"
    proof (rule ccontr)
      assume "latestLedgerSeq (cache d) \<noteq> 0"
      with s have "?T \<noteq> []" "latestLedgerSeq (cache d) = LedgerSequence (last ?T)" by (auto simp: store_ok_def cache_ok_def lcm_info_def)
      with f False show False by (simp add: follows_def word_less_nat_alt)
    qed
    with False m(1) show ?thesis by (simp add: cache_ok_def committed_def)
  qed
  moreover have "indexed (eventIds env) (tables ?d)" unfolding td by (rule trimmed_indexed [OF e(1) i(1) [OF ix]])
  ultimately show "store_ok env ?d" using t(1,2) s m by (auto simp: store_ok_def td)
qed

text \<open>One ledger: the store stays as it is, or has the ledger at its end.\<close>

lemma rpc_ingest_cases:
  assumes "rpc_ingest env flt n s = (r, s')"
  shows "svcDB s' = svcDB s \<and> r \<noteq> Inr () \<or> (\<exists>meta w. backendGetLedger env n = Inr meta \<and>
    ingestLedgerCloseMeta flt (eventIds env) meta (tables (svcDB s)) = Inr w \<and>
    svcDB s' = committed (eventIds env) (historyRetentionWindow env) meta w (svcDB s))"
proof (cases "backendGetLedger env n")
  case (Inr meta)
  show ?thesis
  proof (cases "ingestLedgerCloseMeta flt (eventIds env) meta (tables (svcDB s))")
    case (Inl e)
    with assms Inr show ?thesis by (auto simp: rpc_ingest_def split: option.splits)
  next
    case w: (Inr w)
    obtain r1 fw where f: "IngestFees (FeeReader meta) (LedgerCloseMeta.truncate meta) (feeWindows s) = (r1, fw)"
      by (cases "IngestFees (FeeReader meta) (LedgerCloseMeta.truncate meta) (feeWindows s)")
    obtain r2 d where c: "writeTx_Commit flt (eventIds env) (historyRetentionWindow env) meta w (svcDB s) = (r2, d)"
      by (cases "writeTx_Commit flt (eventIds env) (historyRetentionWindow env) meta w (svcDB s)")
    from writeTx_Commit_cases [OF c] assms Inr w f c show ?thesis
      by (cases r1; cases r2; cases "BeginFault flt") (auto simp: rpc_ingest_def bump_latest_def split: if_splits)
  qed
qed (use assms in \<open>auto simp: rpc_ingest_def\<close>)

lemma rpc_ingest_store:
  assumes env: "ingest_env_ok env" and s: "store_ok env (svcDB s)" and f: "follows n (ledger_close_meta (tables (svcDB s)))"
    and r: "rpc_ingest env flt n s = (r, s')"
  shows "store_ok env (svcDB s')"
    "svcDB s' = svcDB s \<and> r \<noteq> Inr () \<or> ledger_close_meta (tables (svcDB s')) \<noteq> [] \<and> LedgerSequence (last (ledger_close_meta (tables (svcDB s')))) = n \<and> unat n < 2 ^ 31"
proof -
  consider "svcDB s' = svcDB s" "r \<noteq> Inr ()"
    | meta w where "backendGetLedger env n = Inr meta" "ingestLedgerCloseMeta flt (eventIds env) meta (tables (svcDB s)) = Inr w"
      "svcDB s' = committed (eventIds env) (historyRetentionWindow env) meta w (svcDB s)"
    using rpc_ingest_cases [OF r] by blast
  then have "store_ok env (svcDB s') \<and> (svcDB s' = svcDB s \<and> r \<noteq> Inr () \<or>
      ledger_close_meta (tables (svcDB s')) \<noteq> [] \<and> LedgerSequence (last (ledger_close_meta (tables (svcDB s')))) = n \<and> unat n < 2 ^ 31)"
  proof cases
    case 1
    then show ?thesis using s by simp
  next
    case 2
    then have "LedgerSequence meta = n" "unat n < 2 ^ 31" using env by (auto simp: ingest_env_ok_def)
    with committed_ok [OF env s f 2(1,2)] 2(3) show ?thesis by simp
  qed
  then show "store_ok env (svcDB s')"
    "svcDB s' = svcDB s \<and> r \<noteq> Inr () \<or> ledger_close_meta (tables (svcDB s')) \<noteq> [] \<and> LedgerSequence (last (ledger_close_meta (tables (svcDB s')))) = n \<and> unat n < 2 ^ 31"
    by blast+
qed

text \<open>The range of the store, with or without the cache.\<close>

lemma gapless_sorted: "gapless t \<Longrightarrow> sorted (map LedgerSequence t)"
proof -
  assume "gapless t"
  then obtain a where "seqs t = [a..<a + length t]" by (rule gaplessE)
  then have "sorted (map (\<lambda>l. unat (LedgerSequence l)) t)" by (simp add: seqs_def)
  then show ?thesis by (simp add: sorted_map sorted_wrt_map word_le_nat_alt)
qed

lemma gapless_ends:
  assumes "gapless t" "x \<in> set t"
  shows "LedgerSequence (hd t) \<le> LedgerSequence x" "LedgerSequence x \<le> LedgerSequence (last t)"
proof -
  obtain i where i: "i < length t" "x = t ! i" using assms(2) by (auto simp: in_set_conv_nth)
  have s: "sorted (map LedgerSequence t)" by (rule gapless_sorted [OF assms(1)])
  have ne: "t \<noteq> []" using assms(2) by auto
  show "LedgerSequence (hd t) \<le> LedgerSequence x" using sorted_nth_mono [OF s, of 0 i] i ne by (simp add: hd_conv_nth)
  show "LedgerSequence x \<le> LedgerSequence (last t)" using sorted_nth_mono [OF s, of i "length t - 1"] i ne by (simp add: last_conv_nth)
qed

lemma hd_filter: "xs \<noteq> [] \<Longrightarrow> P (hd xs) \<Longrightarrow> filter P xs \<noteq> [] \<and> hd (filter P xs) = hd xs"
  by (cases xs) simp_all

definition store_range :: "Lcm list \<Rightarrow> LedgerRange" where
  "store_range t = \<lparr>FirstLedger = lcm_info (hd t), LastLedger = lcm_info (last t)\<rparr>"

lemma getLedgerRangeWithoutCache_range:
  assumes "gapless t"
  shows "getLedgerRangeWithoutCache t = (if t = [] then Inl ErrEmptyDB else Inr (store_range t))"
proof (cases "t = []")
  case False
  define P where "P l \<longleftrightarrow> (\<forall>x\<in>set t. LedgerSequence l \<le> LedgerSequence x) \<or> (\<forall>x\<in>set t. LedgerSequence x \<le> LedgerSequence l)" for l :: Lcm
  have P: "P (hd t)" "P (last t)" using gapless_ends [OF assms] by (auto simp: P_def)
  have sorted: "sort_key LedgerSequence (filter P t) = filter P t"
    using gapless_sorted [OF assms] by (simp add: sort_key_id_if_sorted sorted_filter)
  have "filter P t \<noteq> []" "hd (filter P t) = hd t" "last (filter P t) = last t" using hd_filter [of t P, OF False P(1)] last_filter [of t P, OF False P(2)] by auto
  with sorted False show ?thesis
    unfolding getLedgerRangeWithoutCache_def P_def [symmetric] store_range_def by (auto split: list.split)
qed (simp add: getLedgerRangeWithoutCache_def)

lemma GetLedgerRange_range:
  assumes "gapless (ledger_close_meta (tables d))" "cache_ok d"
  shows "GetLedgerRange d = (if ledger_close_meta (tables d) = [] then Inl ErrEmptyDB else Inr (store_range (ledger_close_meta (tables d))))"
proof (cases "latestLedgerSeq (cache d) = 0")
  case True
  then show ?thesis by (simp add: GetLedgerRange_def getLedgerRangeWithoutCache_range [OF assms(1)])
next
  case False
  let ?t = "ledger_close_meta (tables d)"
  have ne: "?t \<noteq> []" and l: "\<lparr>Sequence = latestLedgerSeq (cache d), CloseTime = latestLedgerCloseTime (cache d)\<rparr> = lcm_info (last ?t)"
    using False assms(2) by (auto simp: cache_ok_def)
  have h: "filter (\<lambda>l. \<forall>x\<in>set ?t. LedgerSequence l \<le> LedgerSequence x) ?t \<noteq> [] \<and>
      hd (filter (\<lambda>l. \<forall>x\<in>set ?t. LedgerSequence l \<le> LedgerSequence x) ?t) = hd ?t"
    by (rule hd_filter [OF ne]) (use gapless_ends [OF assms(1)] in auto)
  then show ?thesis using False ne l
    by (auto simp: GetLedgerRange_def getLedgerRangeWithCache_def store_range_def split: list.splits)
qed

lemma getLatestLedgerSequence_latest:
  assumes "store_ok env d" "getLatestLedgerSequence d = (r, d')"
  shows "store_ok env d'" "tables d' = tables d"
    "r = (if ledger_close_meta (tables d) = [] then Inl ErrEmptyDB else Inr (LedgerSequence (last (ledger_close_meta (tables d)))))"
proof -
  let ?t = "ledger_close_meta (tables d)"
  have g: "GetLedgerRange d = (if ?t = [] then Inl ErrEmptyDB else Inr (store_range ?t))"
    using assms(1) by (intro GetLedgerRange_range) (simp_all add: store_ok_def)
  have "store_ok env d' \<and> tables d' = tables d \<and> r = (if ?t = [] then Inl ErrEmptyDB else Inr (LedgerSequence (last ?t)))"
  proof (cases "latestLedgerSeq (cache d) = 0")
    case True
    with assms g show ?thesis
      by (auto simp: getLatestLedgerSequence_def store_ok_def cache_ok_def store_range_def lcm_info_def split: if_splits)
  next
    case False
    with assms show ?thesis by (auto simp: getLatestLedgerSequence_def store_ok_def cache_ok_def lcm_info_def)
  qed
  then show "store_ok env d'" "tables d' = tables d" "r = (if ?t = [] then Inl ErrEmptyDB else Inr (LedgerSequence (last ?t)))" by blast+
qed

subsection \<open>The service over time\<close>

definition run_ok :: "ingest_env \<Rightarrow> rpc_run \<Rightarrow> bool" where
  "run_ok env r \<longleftrightarrow> store_ok env (svcDB (svc r)) \<and> (\<forall>n. nextSeq r = Some n \<longrightarrow> follows n (ledger_close_meta (tables (svcDB (svc r)))))"

lemma getNext_follows:
  assumes "store_ok env (svcDB s)" "getNextLedgerSequence env s = (r, s')"
  shows "store_ok env (svcDB s')" "r = Inr n \<Longrightarrow> follows n (ledger_close_meta (tables (svcDB s')))"
    "tables (svcDB s') = tables (svcDB s)" "feeWindows s' = feeWindows s"
proof -
  obtain res d where d: "getLatestLedgerSequence (svcDB s) = (res, d)" by (cases "getLatestLedgerSequence (svcDB s)")
  note l = getLatestLedgerSequence_latest [OF assms(1) d]
  have "(case x of Inl e \<Rightarrow> (Inl e, S) | Inr k \<Rightarrow> (case p k of Some e \<Rightarrow> (Inl (q e), S) | None \<Rightarrow> (Inr k, S))) = (r, s') \<Longrightarrow> s' = S"
    for x :: "rpc_error + u32" and S p and q :: "string \<Rightarrow> rpc_error" by (auto split: sum.splits option.splits)
  then have "s' = s\<lparr>svcDB := d\<rparr>" using assms(2) unfolding getNextLedgerSequence_def d prod.case by blast
  then have s': "svcDB s' = d" "feeWindows s' = feeWindows s" by simp_all
  show "store_ok env (svcDB s')" "tables (svcDB s') = tables (svcDB s)" "feeWindows s' = feeWindows s" using s' l by simp_all
  show "follows n (ledger_close_meta (tables (svcDB s')))" if "r = Inr n"
  proof (cases "ledger_close_meta (tables d) = []")
    case False
    then have res: "res = Inr (LedgerSequence (last (ledger_close_meta (tables d))))" using l by simp
    then have n: "n = LedgerSequence (last (ledger_close_meta (tables d))) + 1"
      using assms(2) d that unfolding getNextLedgerSequence_def by (auto split: option.splits)
    have "unat (LedgerSequence (last (ledger_close_meta (tables d)))) < 2 ^ 31"
      using False l(1) unfolding store_ok_def by (meson last_in_set)
    with n show ?thesis unfolding follows_def s'(1) by (simp add: unat_add_no_wrap)
  qed (simp add: follows_def s'(1))
qed

lemma rpc_step_ok:
  assumes env: "ingest_env_ok env" and step: "rpc_step env r r'" and r: "run_ok env r"
  shows "run_ok env r'"
proof -
  have st: "store_ok env (svcDB (svc r))" using r by (simp add: run_ok_def)
  show ?thesis using step
proof cases
  case (run_begins n s)
  from getNext_follows(1,2) [OF st run_begins(3)] show ?thesis unfolding run_ok_def run_begins(1) by simp
next
  case (run_fails e s)
  from getNext_follows(1) [OF st run_fails(3)] show ?thesis unfolding run_ok_def run_fails(1) by simp
next
  case (ledger_done n flt s)
  then have f: "store_ok env (svcDB (svc r))" "follows n (ledger_close_meta (tables (svcDB (svc r))))" using r by (auto simp: run_ok_def)
  from rpc_ingest_store [OF env f ledger_done(3)] ledger_done(1) show ?thesis by (auto simp: run_ok_def follows_def unat_add_no_wrap)
next
  case (ledger_fails n flt e s)
  then have f: "store_ok env (svcDB (svc r))" "follows n (ledger_close_meta (tables (svcDB (svc r))))" using r by (auto simp: run_ok_def)
  from rpc_ingest_store [OF env f ledger_fails(3)] ledger_fails(1) show ?thesis by (auto simp: run_ok_def)
next
  case (read_latest res d)
  with getLatestLedgerSequence_latest [OF _ read_latest(2)] r show ?thesis by (auto simp: run_ok_def)
next
  case (process_starts fw)
  with r show ?thesis by (auto simp: run_ok_def store_ok_def cache_ok_def ResetCache_def)
qed
qed

text \<open>
  C20. Whatever fails and however often the server is restarted, the database of the RPC server is consistent: its ledgers are a range without gaps, no more than the retention window; the index
  has exactly the transaction hashes of these ledgers and the table of events exactly their events; and the cached latest ledger, when there is one, is the last ledger of the range, with its close
  time. The statement is about any state reachable from an empty database.
\<close>

theorem rpc_store_consistent:
  assumes "ingest_env_ok env" "(rpc_step env)\<^sup>*\<^sup>* \<lparr>svc = \<lparr>svcDB = \<lparr>tables = \<lparr>ledger_close_meta = [], transactions_t = [], events_t = []\<rparr>,
      cache = \<lparr>latestLedgerSeq = 0, latestLedgerCloseTime = 0\<rparr>\<rparr>, feeWindows = fw, latestIngestedSeq = 0\<rparr>, nextSeq = None\<rparr> r"
  shows "store_ok env (svcDB (svc r))"
proof -
  have "run_ok env r" using assms(2)
  proof (induction rule: rtranclp_induct)
    case base
    show ?case by (simp add: run_ok_def store_ok_def indexed_def cache_ok_def)
  next
    case (step y z)
    with rpc_step_ok [OF assms(1)] show ?case by blast
  qed
  then show ?thesis by (simp add: run_ok_def)
qed

end
