(* ===== verification/Rpc_Claims.thy ===== *)
theory Rpc_Claims
  imports Rpc_Store_Props
begin

text \<open>
  A store in use: a witness for the consistency of the store, and what becomes of the retries of the service after a commit has failed.
\<close>

subsection \<open>Identifiers that sort\<close>

definition unary_id :: "nat \<Rightarrow> string" where
  "unary_id n = replicate n (CHR ''1'') @ ''0''"

lemma unary_id_less: "unary_id m @ x < unary_id n @ y \<longleftrightarrow> m < n \<or> m = n \<and> x < y"
proof (induction m arbitrary: n)
  case 0
  then show ?case by (cases n) (simp_all add: unary_id_def)
next
  case (Suc m)
  then show ?case by (cases n) (simp_all add: unary_id_def)
qed

definition unary_ids :: event_ids where
  "unary_ids c = unary_id (unat (cuLedger c)) @ unary_id (unat (cuTx c)) @ unary_id (unat (cuOp c)) @ unary_id (unat (cuEvent c)) @ []"

lemma unary_ids_ok: "event_ids_ok unary_ids"
  by (auto simp: event_ids_ok_def unary_ids_def unary_id_less cursor_key_def word_less_nat_alt less_prod_def less_eq_prod_def
      word_unat_eq_iff le_less simp del: append_Nil2)

definition wit_ledger :: "u32 \<Rightarrow> Lcm" where
  "wit_ledger n = \<lparr>LedgerSequence = n, LedgerCloseTime = 0, CountTransactions = 0, TxReader = Inr [], FeeReader = Inr []\<rparr>"

definition wit_ingest_env :: ingest_env where
  "wit_ingest_env = \<lparr>historyRetentionWindow = 2, eventIds = unary_ids,
     backendGetLedger = (\<lambda>n. if n < 2 ^ 31 then Inr (wit_ledger n) else Inl ''no ledger''), backendPrepareRange = (\<lambda>_. None), archiveCurrentLedger = Inr 5\<rparr>"

lemma wit_ingest_env_ok: "ingest_env_ok wit_ingest_env"
  using unary_ids_ok by (auto simp: ingest_env_ok_def wit_ingest_env_def wit_ledger_def valid_ledger_def word_less_nat_alt split: if_splits)

definition empty_service :: Service where
  "empty_service = \<lparr>svcDB = \<lparr>tables = \<lparr>ledger_close_meta = [], transactions_t = [], events_t = []\<rparr>,
     cache = \<lparr>latestLedgerSeq = 0, latestLedgerCloseTime = 0\<rparr>\<rparr>, feeWindows = NewFeeWindows 1 1 None, latestIngestedSeq = 0\<rparr>"

lemma wit_first:
  "fst (rpc_ingest wit_ingest_env no_write_faults 5 empty_service) = Inr ()"
  "map LedgerSequence (ledger_close_meta (tables (svcDB (snd (rpc_ingest wit_ingest_env no_write_faults 5 empty_service))))) = [5]"
  by code_simp+

lemma wit_begins: "getNextLedgerSequence wit_ingest_env empty_service = (Inr 5, empty_service)"
  by (simp add: getNextLedgerSequence_def getLatestLedgerSequence_def empty_service_def GetLedgerRange_def getLedgerRangeWithoutCache_def wit_ingest_env_def)

theorem rpc_store_consistent_witness:
  "store_ok wit_ingest_env (svcDB (snd (rpc_ingest wit_ingest_env no_write_faults 5 empty_service))) \<and>
   map LedgerSequence (ledger_close_meta (tables (svcDB (snd (rpc_ingest wit_ingest_env no_write_faults 5 empty_service))))) = [5]"
proof -
  let ?s = "snd (rpc_ingest wit_ingest_env no_write_faults 5 empty_service)"
  have "rpc_step wit_ingest_env \<lparr>svc = empty_service, nextSeq = None\<rparr> \<lparr>svc = empty_service, nextSeq = Some 5\<rparr>"
    by (rule run_begins) (simp_all add: wit_begins)
  moreover have "rpc_step wit_ingest_env \<lparr>svc = empty_service, nextSeq = Some 5\<rparr> \<lparr>svc = ?s, nextSeq = Some (5 + 1)\<rparr>"
    by (rule ledger_done [where flt = no_write_faults and n = 5]) (use wit_first(1) in \<open>auto simp: prod_eq_iff\<close>)
  ultimately have "(rpc_step wit_ingest_env)\<^sup>*\<^sup>* \<lparr>svc = empty_service, nextSeq = None\<rparr> \<lparr>svc = ?s, nextSeq = Some (5 + 1)\<rparr>" by simp
  from rpc_store_consistent [OF wit_ingest_env_ok this [unfolded empty_service_def]] wit_first(2) show ?thesis by (simp add: empty_service_def)
qed

subsection \<open>A commit that fails\<close>

text \<open>The classic fee window, which is the first of the two, has the ledger \<open>n\<close> already, and the store does not.\<close>

definition fees_ahead :: "ingest_env \<Rightarrow> u32 \<Rightarrow> Service \<Rightarrow> bool" where
  "fees_ahead env n s \<longleftrightarrow> store_ok env (svcDB s) \<and> ledger_close_meta (tables (svcDB s)) \<noteq> [] \<and> follows n (ledger_close_meta (tables (svcDB s))) \<and>
     (let w = feesPerLedger (ClassicFeeWindow (feeWindows s)) in window_ok w \<and> window_list w \<noteq> [] \<and> LedgerSeq (last (window_list w)) = n)"

lemma AppendLedgerFees_last:
  assumes "window_ok (feesPerLedger fw)" "AppendLedgerFees fw b = Inr fw'"
  shows "window_ok (feesPerLedger fw') \<and> window_list (feesPerLedger fw') \<noteq> [] \<and> last (window_list (feesPerLedger fw')) = b"
proof -
  obtain ev w where w: "Append (feesPerLedger fw) b = Inr (ev, w)" "feesPerLedger fw' = w"
    using assms(2) by (auto simp: AppendLedgerFees_def split: sum.splits prod.splits)
  have "window_list w = (if length (window_list (feesPerLedger fw)) < bcap (feesPerLedger fw) then window_list (feesPerLedger fw) @ [b] else tl (window_list (feesPerLedger fw)) @ [b])"
    using lbw.app_content [OF assms(1) w(1)] by simp
  then show ?thesis using lbw.app_Inr [OF assms(1) w(1)] w(2) by simp
qed

lemma AppendLedgerFees_again:
  assumes "window_ok (feesPerLedger fw)" "window_list (feesPerLedger fw) \<noteq> []" "LedgerSeq (last (window_list (feesPerLedger fw))) = LedgerSeq b"
  shows "\<exists>e. AppendLedgerFees fw b = Inl e"
  using Append_accepts_exactly_next [OF assms(1), of b] assms(2,3) by (simp add: AppendLedgerFees_def)

lemma IngestFees_again:
  assumes "window_ok (feesPerLedger (ClassicFeeWindow fw))" "window_list (feesPerLedger (ClassicFeeWindow fw)) \<noteq> []"
    and "LedgerSeq (last (window_list (feesPerLedger (ClassicFeeWindow fw)))) = LedgerSequence meta" and r: "IngestFees reader meta fw = (r, fw')"
  shows "r \<noteq> Inr () \<and> ClassicFeeWindow fw' = ClassicFeeWindow fw"
proof -
  have "\<exists>e. AppendLedgerFees (ClassicFeeWindow fw) \<lparr>LedgerSeq = LedgerSequence meta, LedgerCloseTimestamp = LedgerCloseTime meta, BucketContent = cs\<rparr> = Inl e" for cs
    using AppendLedgerFees_again [OF assms(1,2)] assms(3) by simp
  then show ?thesis using r by (auto simp: IngestFees_def joinRollback_def Let_def split: sum.splits prod.splits) (metis Inl_Inr_False)+
qed

lemma IngestFees_done:
  assumes "window_ok (feesPerLedger (ClassicFeeWindow fw))" "IngestFees reader meta fw = (Inr (), fw')"
  shows "window_ok (feesPerLedger (ClassicFeeWindow fw')) \<and> window_list (feesPerLedger (ClassicFeeWindow fw')) \<noteq> [] \<and>
    LedgerSeq (last (window_list (feesPerLedger (ClassicFeeWindow fw')))) = LedgerSequence meta"
  using assms(2) by (auto simp: IngestFees_def joinRollback_def Let_def split: sum.splits prod.splits dest!: AppendLedgerFees_last [OF assms(1)])

lemma fees_ahead_next:
  assumes "fees_ahead env n s" "getNextLedgerSequence env s = (r, s')"
  shows "fees_ahead env n s'" "tables (svcDB s') = tables (svcDB s)" "r = Inr m \<Longrightarrow> m = n"
proof -
  note g = getNext_follows [OF _ assms(2)]
  show "fees_ahead env n s'" "tables (svcDB s') = tables (svcDB s)" using assms(1) g(1,3,4) by (auto simp: fees_ahead_def)
  show "m = n" if "r = Inr m" using g(2,3) that assms(1) by (auto simp: fees_ahead_def follows_def word_unat_eq_iff)
qed

lemma fees_ahead_ingest:
  assumes env: "ingest_env_ok env" and s: "fees_ahead env n s" and r: "rpc_ingest env flt n s = (r, s')"
  shows "fees_ahead env n s'" "tables (svcDB s') = tables (svcDB s)" "r \<noteq> Inr ()"
proof -
  have "svcDB s' = svcDB s \<and> ClassicFeeWindow (feeWindows s') = ClassicFeeWindow (feeWindows s) \<and> r \<noteq> Inr ()"
  proof (cases "backendGetLedger env n")
    case (Inr meta)
    then have "LedgerSequence meta = n" using env by (auto simp: ingest_env_ok_def)
    then have "LedgerSequence (LedgerCloseMeta.truncate meta) = n" by (simp add: LedgerCloseMeta.truncate_def)
    with s have i: "IngestFees (FeeReader meta) (LedgerCloseMeta.truncate meta) (feeWindows s) = (x, fw) \<Longrightarrow>
        x \<noteq> Inr () \<and> ClassicFeeWindow fw = ClassicFeeWindow (feeWindows s)" for x fw
      using IngestFees_again [of "feeWindows s"] by (auto simp: fees_ahead_def Let_def)
    obtain x fw where x: "IngestFees (FeeReader meta) (LedgerCloseMeta.truncate meta) (feeWindows s) = (x, fw)" by (metis surj_pair)
    from r Inr x i [OF x] show ?thesis by (cases x) (auto simp: rpc_ingest_def split: option.splits sum.splits)
  qed (use r in \<open>auto simp: rpc_ingest_def\<close>)
  with s show "fees_ahead env n s'" "tables (svcDB s') = tables (svcDB s)" "r \<noteq> Inr ()" by (auto simp: fees_ahead_def)
qed

lemma fees_ahead_run:
  assumes env: "ingest_env_ok env" and s: "fees_ahead env n s" and r: "service_run env flts s = (r, s')"
  shows "fees_ahead env n s'" "tables (svcDB s') = tables (svcDB s)" "flts \<noteq> [] \<Longrightarrow> r \<noteq> None"
proof -
  obtain g s1 where g: "getNextLedgerSequence env s = (g, s1)" by (metis surj_pair)
  note n = fees_ahead_next [OF s g]
  have "fees_ahead env n s' \<and> tables (svcDB s') = tables (svcDB s) \<and> (flts \<noteq> [] \<longrightarrow> r \<noteq> None)"
  proof (cases g)
    case (Inl e)
    with g r n(1,2) show ?thesis by (auto simp: service_run_def)
  next
    case (Inr m)
    then have m: "m = n" by (rule n(3))
    show ?thesis
    proof (cases flts)
      case Nil
      with g r n(1,2) Inr show ?thesis by (auto simp: service_run_def)
    next
      case (Cons flt rest)
      obtain x s2 where x: "rpc_ingest env flt n s1 = (x, s2)" by (metis surj_pair)
      note i = fees_ahead_ingest [OF env n(1) x]
      then obtain e where "x = Inl e" by (cases x) auto
      with g r Inr m Cons x have "r = Some e" "s' = s2" by (simp_all add: service_run_def)
      with i(1,2) n(2) show ?thesis by simp
    qed
  qed
  then show "fees_ahead env n s'" "tables (svcDB s') = tables (svcDB s)" "flts \<noteq> [] \<Longrightarrow> r \<noteq> None" by blast+
qed

lemma fees_ahead_attempts:
  assumes env: "ingest_env_ok env"
  shows "fees_ahead env n s \<Longrightarrow> run_attempts env fltss s = (rs, s') \<Longrightarrow> [] \<notin> set fltss \<Longrightarrow>
    None \<notin> set rs \<and> tables (svcDB s') = tables (svcDB s)"
proof (induction fltss arbitrary: s rs s')
  case (Cons flts fltss)
  obtain r s1 where r: "service_run env flts s = (r, s1)" by (metis surj_pair)
  obtain rs1 s2 where rs: "run_attempts env fltss s1 = (rs1, s2)" by (metis surj_pair)
  have "None \<notin> set rs1 \<and> tables (svcDB s2) = tables (svcDB s1)" using Cons.IH [OF fees_ahead_run(1) [OF env Cons.prems(1) r] rs] Cons.prems(3) by simp
  with fees_ahead_run(2,3) [OF env Cons.prems(1) r] Cons.prems(2,3) r rs show ?case by auto
qed simp

lemma run_attempts_length: "run_attempts env fltss s = (rs, s') \<Longrightarrow> length rs = length fltss"
  by (induction fltss arbitrary: s rs) (auto split: prod.splits)

text \<open>
  C21. A write transaction that could not be committed once is never written by the same process: the fees of its ledger are added to the fee windows before the commit, and are not taken out again when
  the commit fails, so that every later attempt of the service at the same ledger is refused by the fee windows as not contiguous. All attempts fail, whatever the database does, and the tables stay
  as they are.
\<close>

theorem failed_commit_blocks_retries:
  assumes env: "ingest_env_ok env" and s: "store_ok env (svcDB s)" "ledger_close_meta (tables (svcDB s)) \<noteq> []"
      "follows n (ledger_close_meta (tables (svcDB s)))" "window_ok (feesPerLedger (ClassicFeeWindow (feeWindows s)))"
    and meta: "backendGetLedger env n = Inr meta" "ingestLedgerCloseMeta flt (eventIds env) meta (tables (svcDB s)) = Inr w"
      "fst (IngestFees (FeeReader meta) (LedgerCloseMeta.truncate meta) (feeWindows s)) = Inr ()" "BeginFault flt = None"
    and fails: "writeTx_Commit flt (eventIds env) (historyRetentionWindow env) meta w (svcDB s) = (Inl e, svcDB s)"
    and attempts: "run_attempts env fltss (snd (rpc_ingest env flt n s)) = (rs, s')" "[] \<notin> set fltss"
  shows "fst (rpc_ingest env flt n s) = Inl e \<and> length rs = length fltss \<and> None \<notin> set rs \<and> tables (svcDB s') = tables (svcDB s)"
proof -
  obtain fw where fw: "IngestFees (FeeReader meta) (LedgerCloseMeta.truncate meta) (feeWindows s) = (Inr (), fw)"
    using meta(3) by (metis fst_conv surj_pair)
  have i: "rpc_ingest env flt n s = (Inl e, s\<lparr>feeWindows := fw, svcDB := svcDB s\<rparr>)"
    using meta fw fails by (simp add: rpc_ingest_def)
  have "LedgerSequence (LedgerCloseMeta.truncate meta) = n"
    using env meta(1) by (auto simp: ingest_env_ok_def LedgerCloseMeta.truncate_def)
  with IngestFees_done [OF s(4) fw] have "fees_ahead env n (snd (rpc_ingest env flt n s))" using s(1-3) i by (simp add: fees_ahead_def Let_def)
  from fees_ahead_attempts [OF env this attempts] i run_attempts_length [OF attempts(1)] show ?thesis by simp
qed

definition wit_service :: Service where
  "wit_service = snd (rpc_ingest wit_ingest_env no_write_faults 5 empty_service)"

definition wit_commit_fails :: write_faults where
  "wit_commit_fails = no_write_faults\<lparr>CommitFault := Some ''disk is full''\<rparr>"

lemma wit_service_store:
  "store_ok wit_ingest_env (svcDB wit_service)" "ledger_close_meta (tables (svcDB wit_service)) = [wit_ledger 5]"
proof -
  have "follows 5 (ledger_close_meta (tables (svcDB empty_service)))" "store_ok wit_ingest_env (svcDB empty_service)"
    by (simp_all add: empty_service_def follows_def store_ok_def indexed_def cache_ok_def)
  from rpc_ingest_store(1) [OF wit_ingest_env_ok this(2,1), of no_write_faults "fst (rpc_ingest wit_ingest_env no_write_faults 5 empty_service)"]
  show "store_ok wit_ingest_env (svcDB wit_service)" by (simp add: wit_service_def)
  show "ledger_close_meta (tables (svcDB wit_service)) = [wit_ledger 5]" by code_simp
qed

lemma wit_service_fees: "window_ok (feesPerLedger (ClassicFeeWindow (feeWindows wit_service)))"
proof -
  have "window_ok (feesPerLedger (ClassicFeeWindow (feeWindows empty_service)))"
    using window_ok_New [of 1] by (simp add: empty_service_def NewFeeWindows_def NewFeeWindow_def)
  moreover have "IngestFees (FeeReader (wit_ledger 5)) (LedgerCloseMeta.truncate (wit_ledger 5)) (feeWindows empty_service) = (Inr (), feeWindows wit_service)"
    by code_simp
  ultimately show ?thesis using IngestFees_done by blast
qed

lemma wit_commit_steps:
  "ingestLedgerCloseMeta wit_commit_fails unary_ids (wit_ledger 6) (tables (svcDB wit_service)) =
     Inr \<lparr>ledger_close_meta = [wit_ledger 5, wit_ledger 6], transactions_t = [], events_t = []\<rparr>"
  "fst (IngestFees (FeeReader (wit_ledger 6)) (LedgerCloseMeta.truncate (wit_ledger 6)) (feeWindows wit_service)) = Inr ()"
  "writeTx_Commit wit_commit_fails unary_ids 2 (wit_ledger 6) \<lparr>ledger_close_meta = [wit_ledger 5, wit_ledger 6], transactions_t = [], events_t = []\<rparr> (svcDB wit_service) =
     (Inl (RpcError ''disk is full''), svcDB wit_service)"
  by code_simp+

theorem failed_commit_blocks_retries_witness:
  "fst (rpc_ingest wit_ingest_env wit_commit_fails 6 wit_service) = Inl (RpcError ''disk is full'') \<and>
   None \<notin> set (fst (run_attempts wit_ingest_env (replicate 5 [no_write_faults]) (snd (rpc_ingest wit_ingest_env wit_commit_fails 6 wit_service))))"
proof -
  obtain rs s' where r: "run_attempts wit_ingest_env (replicate 5 [no_write_faults]) (snd (rpc_ingest wit_ingest_env wit_commit_fails 6 wit_service)) = (rs, s')"
    by (metis surj_pair)
  have "backendGetLedger wit_ingest_env 6 = Inr (wit_ledger 6)" "BeginFault wit_commit_fails = None" "follows 6 [wit_ledger 5]"
    by (simp_all add: wit_ingest_env_def wit_commit_fails_def no_write_faults_def follows_def wit_ledger_def)
  with failed_commit_blocks_retries [OF wit_ingest_env_ok wit_service_store(1) _ _ wit_service_fees _ _ wit_commit_steps(2) _ _ r, of
      "\<lparr>ledger_close_meta = [wit_ledger 5, wit_ledger 6], transactions_t = [], events_t = []\<rparr>" "RpcError ''disk is full''"]
    wit_commit_steps(1,3) wit_service_store(2) r
  show ?thesis by (simp add: wit_ingest_env_def)
qed

end
