(* ===== verification/Backfill.thy ===== *)
theory Backfill
  imports Rpc_Store_Props
begin

text \<open>
  Filling the database of the RPC server from a datastore before ingestion starts (\<open>suban-rpc/.../ingest/backfill.go\<close>): backwards to the left edge of the retention
  window, and forwards to the newest checkpoint. The datastore, its backends and the alignment to checkpoints are parameters; what the calls to them return is indexed by a counter, so
  that the datastore may grow, and calls may fail, between two of them.
\<close>

subsection \<open>State\<close>

record LedgerSeqRange =
  First :: u32
  Last :: u32

definition Empty :: "LedgerSeqRange \<Rightarrow> bool" where
  "Empty r \<longleftrightarrow> First r = 0 \<and> Last r = 0"

record BackfillMeta =
  dsFirst :: u32
  dbSequences :: LedgerSeqRange
  isNewDb :: bool

record fillBounds =
  backfill :: LedgerSeqRange
  frontfill :: LedgerSeqRange
  nBackfill :: u32

definition needBackfillPhase :: "fillBounds \<Rightarrow> bool" where
  "needBackfillPhase bounds \<longleftrightarrow> \<not> Empty (backfill bounds)"

definition ChunkSize :: u32 where
  "ChunkSize = 17280 div 18"

record ledger_source =
  srcPrepareRange :: "u32 \<Rightarrow> u32 \<Rightarrow> string option"
  srcGetLedger :: "u32 \<Rightarrow> string + Lcm"

record fill_env =
  fillIngest :: ingest_env
  findOldest :: "string + u32"
  findLatest :: "nat \<Rightarrow> string + u32"
  prevCheckpoint :: "u32 \<Rightarrow> u32"
  makeBackend :: "nat \<Rightarrow> string + ledger_source"
  chunkFaults :: "nat \<Rightarrow> write_faults"

record fill_run =
  fillSvc :: Service
  fillMeta :: BackfillMeta
  polled :: nat
  backendsMade :: nat
  chunksTried :: nat

type_synonym 'a filled = "((rpc_error + 'a) \<times> fill_run) option"

subsection \<open>Operations\<close>

definition NewBackfillMeta :: "fill_env \<Rightarrow> DB \<Rightarrow> rpc_error + BackfillMeta" where
  "NewBackfillMeta E d = (case (case GetLedgerRange d of
         Inl ErrEmptyDB \<Rightarrow> Inr (\<lparr>First = 0, Last = 0\<rparr>, True)
       | Inl e \<Rightarrow> Inl e
       | Inr r \<Rightarrow> Inr (\<lparr>First = Sequence (FirstLedger r), Last = Sequence (LastLedger r)\<rparr>, False)) of
       Inl e \<Rightarrow> Inl e
     | Inr (sequences, dbIsEmpty) \<Rightarrow> (case findOldest E of
         Inl e \<Rightarrow> Inl (RpcError e)
       | Inr minWritten \<Rightarrow> Inr \<lparr>dsFirst = minWritten, dbSequences = sequences, isNewDb = dbIsEmpty\<rparr>))"

definition poll_latest :: "fill_env \<Rightarrow> fill_run \<Rightarrow> (rpc_error + u32) \<times> fill_run" where
  "poll_latest E st = ((case findLatest E (polled st) of Inl e \<Rightarrow> Inl (RpcError e) | Inr t \<Rightarrow> Inr t), st\<lparr>polled := Suc (polled st)\<rparr>)"

definition setBounds :: "fill_env \<Rightarrow> u32 \<Rightarrow> fill_run \<Rightarrow> (rpc_error + fillBounds) \<times> fill_run" where
  "setBounds E retentionWindow st = (case poll_latest E st of
       (Inl e, st') \<Rightarrow> (Inl e, st')
     | (Inr tip, st') \<Rightarrow>
         let n = min retentionWindow tip;
             b = fillMeta st';
             fillStartMin = (if n + 1 \<le> tip then max (tip - n + 1) (dsFirst b) else dsFirst b);
             minDb = First (dbSequences b); maxDb = Last (dbSequences b);
             none = \<lparr>First = 0, Last = 0\<rparr> in
         if isNewDb b then (Inr \<lparr>backfill = none, frontfill = \<lparr>First = fillStartMin, Last = 0\<rparr>, nBackfill = n\<rparr>, st')
         else if minDb \<le> fillStartMin then (Inr \<lparr>backfill = none, frontfill = \<lparr>First = maxDb + 1, Last = 0\<rparr>, nBackfill = n\<rparr>, st')
         else if tip < minDb then (Inl (RpcError ''current datastore tip is older than local DB minimum ledger''), st')
         else (Inr \<lparr>backfill = \<lparr>First = fillStartMin, Last = minDb - 1\<rparr>, frontfill = \<lparr>First = maxDb + 1, Last = 0\<rparr>, nBackfill = n\<rparr>, st'))"

definition ingest_chunk :: "fill_env \<Rightarrow> ledger_source \<Rightarrow> u32 \<Rightarrow> u32 \<Rightarrow> fill_run \<Rightarrow> unit filled" where
  "ingest_chunk E src lChunk rChunk st =
     (case rpc_ingestRange (fillIngest E) (srcGetLedger src) (chunkFaults E (chunksTried st)) lChunk rChunk (fillSvc st) of
        None \<Rightarrow> None
      | Some (r, s) \<Rightarrow> Some (r, st\<lparr>fillSvc := s, chunksTried := Suc (chunksTried st)\<rparr>))"

text \<open>The loop of \<open>backfillChunks\<close>: from the newest chunk to the oldest, each with a backend of its own; it returns the left bound.\<close>

definition left_chunk :: "u32 \<Rightarrow> u32 \<Rightarrow> u32" where
  "left_chunk l r = (if l + ChunkSize - 1 \<le> r then max l (r - ChunkSize + 1) else l)"

lemma ChunkSize_eq: "ChunkSize = 960"
  by (simp add: ChunkSize_def)

lemma left_chunk_bounds: "l \<le> r \<Longrightarrow> l \<le> left_chunk l r \<and> left_chunk l r \<le> r"
proof -
  assume "l \<le> r"
  moreover have "r - ChunkSize + 1 \<le> r" if "l + ChunkSize - 1 \<le> r"
  proof -
    have "959 \<le> unat r"
    proof (cases "unat l + 959 < 2 ^ 32")
      case True
      then have "unat (l + 959) = unat l + 959" by (simp add: unat_add_no_wrap)
      moreover have "unat (l + 959) \<le> unat r" using that by (simp add: word_le_nat_alt ChunkSize_eq add.commute)
      ultimately show ?thesis by simp
    next
      case False
      with \<open>l \<le> r\<close> show ?thesis by (simp add: word_le_nat_alt)
    qed
    then have "unat (r - 959) = unat r - 959" by (simp add: unat_sub_no_wrap word_le_nat_alt)
    then show ?thesis by (simp add: word_le_nat_alt ChunkSize_eq)
  qed
  ultimately show ?thesis by (auto simp: left_chunk_def)
qed

function backfill_loop :: "fill_env \<Rightarrow> u32 \<Rightarrow> nat \<Rightarrow> u32 \<Rightarrow> u32 \<Rightarrow> fill_run \<Rightarrow> u32 filled" where
  "backfill_loop E n i lBound rChunk st =
     (if \<not> lBound \<le> rChunk then Some (Inr lBound, st)
      else let lChunk = left_chunk lBound rChunk in
       case makeBackend E (backendsMade st) of
         Inl e \<Rightarrow> Some (Inl (RpcError e), st)
       | Inr src \<Rightarrow> (case srcPrepareRange src lChunk rChunk of
           Some e \<Rightarrow> Some (Inl (RpcError e), st\<lparr>backendsMade := Suc (backendsMade st)\<rparr>)
       | None \<Rightarrow> (case ingest_chunk E src lChunk rChunk (st\<lparr>backendsMade := Suc (backendsMade st)\<rparr>) of
           None \<Rightarrow> None
       | Some (Inl e, st1) \<Rightarrow> Some (Inl e, st1)
       | Some (Inr _, st1) \<Rightarrow>
           if lChunk \<le> lBound then Some (Inr lBound, st1)
           else if 0 < i \<and> i mod 10 = 0 then (case poll_latest E st1 of
               (Inl e, st2) \<Rightarrow> Some (Inl e, st2)
             | (Inr tip, st2) \<Rightarrow> backfill_loop E n (Suc i) (max (tip - n + 1) (dsFirst (fillMeta st1))) (lChunk - 1) st2)
           else backfill_loop E n (Suc i) lBound (lChunk - 1) st1)))"
  by pat_completeness auto
termination
proof (relation "measure (\<lambda>(E, n, i, l, r, st). unat r)", goal_cases)
  case 1
  then show ?case by simp
next
  case (2 E n i l r st)
  have "unat (left_chunk l r - 1) < unat r" if "l \<le> r" "\<not> left_chunk l r \<le> l"
    using left_chunk_bounds [OF that(1)] that(2) by (simp add: word_less_nat_alt word_le_nat_alt unat_sub_no_wrap)
  with 2 show ?case by auto
next
  case (3 E n i l r st)
  have "unat (left_chunk l r - 1) < unat r" if "l \<le> r" "\<not> left_chunk l r \<le> l"
    using left_chunk_bounds [OF that(1)] that(2) by (simp add: word_less_nat_alt word_le_nat_alt unat_sub_no_wrap)
  with 3 show ?case by auto
qed

declare backfill_loop.simps [simp del]

definition backfillChunks :: "fill_env \<Rightarrow> fillBounds \<Rightarrow> fill_run \<Rightarrow> fillBounds filled" where
  "backfillChunks E bounds st = (case backfill_loop E (nBackfill bounds) 0 (First (backfill bounds)) (Last (backfill bounds)) st of
       None \<Rightarrow> None
     | Some (Inl e, st') \<Rightarrow> Some (Inl e, st')
     | Some (Inr l, st') \<Rightarrow> Some (Inr (bounds\<lparr>backfill := (backfill bounds)\<lparr>First := l\<rparr>\<rparr>), st'))"

definition runBackfill :: "fill_env \<Rightarrow> fillBounds \<Rightarrow> fill_run \<Rightarrow> fillBounds filled" where
  "runBackfill E bounds st = (if needBackfillPhase bounds then (case backfillChunks E bounds st of
         None \<Rightarrow> None
       | Some (Inl e, st') \<Rightarrow> Some (Inl e, st')
       | Some (Inr bounds', st') \<Rightarrow> Some (Inr bounds',
           st'\<lparr>fillMeta := (fillMeta st')\<lparr>dbSequences := (dbSequences (fillMeta st'))\<lparr>First := First (backfill bounds')\<rparr>\<rparr>\<rparr>))
     else Some (Inr bounds, st))"

text \<open>The loop of \<open>frontfillChunks\<close>; its counter may wrap at the end of the range of 32 bits.\<close>

partial_function (option) frontfill_loop :: "fill_env \<Rightarrow> ledger_source \<Rightarrow> u32 \<Rightarrow> u32 \<Rightarrow> fill_run \<Rightarrow> unit filled" where
  "frontfill_loop E src lChunk rBound st =
     (if lChunk \<le> rBound then (case ingest_chunk E src lChunk (min rBound (lChunk + ChunkSize - 1)) st of
         None \<Rightarrow> None
       | Some (r, st') \<Rightarrow> (case r of Inl e \<Rightarrow> Some (Inl e, st') | Inr _ \<Rightarrow> frontfill_loop E src (lChunk + ChunkSize) rBound st'))
      else Some (Inr (), st))"

definition frontfillChunks :: "fill_env \<Rightarrow> fillBounds \<Rightarrow> fill_run \<Rightarrow> unit filled" where
  "frontfillChunks E bounds st = (let lBound = First (frontfill bounds); rBound = Last (frontfill bounds) in
     if rBound < lBound then Some (Inr (), st)
     else case makeBackend E (backendsMade st) of
         Inl e \<Rightarrow> Some (Inl (RpcError e), st)
       | Inr src \<Rightarrow> let st1 = st\<lparr>backendsMade := Suc (backendsMade st)\<rparr> in (case srcPrepareRange src lBound rBound of
           Some e \<Rightarrow> Some (Inl (RpcError e), st1)
         | None \<Rightarrow> frontfill_loop E src lBound rBound st1))"

fun frontfill_iterations :: "fill_env \<Rightarrow> nat \<Rightarrow> fillBounds \<Rightarrow> fill_run \<Rightarrow> fillBounds filled" where
  "frontfill_iterations E 0 bounds st = Some (Inr bounds, st)"
| "frontfill_iterations E (Suc k) bounds st = (case poll_latest E st of
       (Inl e, st1) \<Rightarrow> Some (Inl e, st1)
     | (Inr tip, st1) \<Rightarrow>
         let cp = prevCheckpoint E tip; bounds1 = bounds\<lparr>frontfill := (frontfill bounds)\<lparr>Last := cp\<rparr>\<rparr> in
         (case (if First (frontfill bounds1) < Last (frontfill bounds1) then frontfillChunks E bounds1 st1 else Some (Inr (), st1)) of
            None \<Rightarrow> None
          | Some (Inl e, st2) \<Rightarrow> Some (Inl e, st2)
          | Some (Inr _, st2) \<Rightarrow> frontfill_iterations E k (bounds1\<lparr>frontfill := (frontfill bounds1)\<lparr>First := Last (frontfill bounds1) + 1\<rparr>\<rparr>) st2))"

definition runFrontfill :: "fill_env \<Rightarrow> fillBounds \<Rightarrow> fill_run \<Rightarrow> fillBounds filled" where
  "runFrontfill E bounds st = (case frontfill_iterations E (if needBackfillPhase bounds then 1 else 2) bounds st of
       None \<Rightarrow> None
     | Some (Inl e, st') \<Rightarrow> Some (Inl e, st')
     | Some (Inr bounds', st') \<Rightarrow> Some (Inr bounds', st'\<lparr>fillMeta := (fillMeta st')\<lparr>dbSequences := (dbSequences (fillMeta st'))
         \<lparr>Last := max (First (frontfill bounds') - 1) (Last (dbSequences (fillMeta st')))\<rparr>\<rparr>\<rparr>))"

definition verifyDbGapless :: "DB \<Rightarrow> rpc_error + u32 \<times> u32" where
  "verifyDbGapless d = (case GetLedgerRange d of
       Inl ErrEmptyDB \<Rightarrow> Inr (0, 0)
     | Inl e \<Rightarrow> Inl e
     | Inr rng \<Rightarrow>
         let minDb = Sequence (FirstLedger rng); maxDb = Sequence (LastLedger rng) in
         (case getLedgerCountInRange (ledger_close_meta (tables d)) minDb maxDb of (n, sequencesMin, sequencesMax) \<Rightarrow>
            if n \<noteq> maxDb - minDb + 1 then Inl (RpcError ''db verify: gap detected in local DB'') else Inr (sequencesMin, sequencesMax)))"

definition ledgerThreshold :: u32 where
  "ledgerThreshold = 384"

text \<open>\<open>verifyBounds\<close> only warns; the model returns whether it does.\<close>

definition verifyBounds :: "u32 \<Rightarrow> u32 \<Rightarrow> u32 \<Rightarrow> bool" where
  "verifyBounds n minSeq maxSeq \<longleftrightarrow> maxSeq - minSeq + 1 + ledgerThreshold < n"

text \<open>The value of a run that succeeds is whether it warned.\<close>

definition RunBackfill :: "fill_env \<Rightarrow> fill_run \<Rightarrow> bool filled" where
  "RunBackfill E st = (case verifyDbGapless (svcDB (fillSvc st)) of
       Inl e \<Rightarrow> Some (Inl e, st)
     | Inr _ \<Rightarrow> (case setBounds E (historyRetentionWindow (fillIngest E)) st of
       (Inl e, st1) \<Rightarrow> Some (Inl e, st1)
     | (Inr bounds, st1) \<Rightarrow> (case runBackfill E bounds st1 of
       None \<Rightarrow> None
     | Some (Inl e, st2) \<Rightarrow> Some (Inl e, st2)
     | Some (Inr bounds2, st2) \<Rightarrow> (case runFrontfill E bounds2 st2 of
       None \<Rightarrow> None
     | Some (Inl e, st3) \<Rightarrow> Some (Inl e, st3)
     | Some (Inr bounds3, st3) \<Rightarrow> (case verifyDbGapless (svcDB (fillSvc st3)) of
       Inl e \<Rightarrow> Some (Inl e, st3)
     | Inr (minSeq, maxSeq) \<Rightarrow> Some (Inr (verifyBounds (nBackfill bounds3) minSeq maxSeq), st3))))))"

end
