(* ===== verification/Backfill_Props.thy ===== *)
theory Backfill_Props
  imports Backfill
begin

text \<open>
  What filling does to the database: it stays a range of ledgers without gaps with exactly their transactions and events, the fill returns, and a fill without error leaves the ledgers of the
  retention window; and the race in which the forward phase skips a ledger.
\<close>

subsection \<open>Ledgers by sequence\<close>

definition by_sequence :: "Lcm list \<Rightarrow> bool" where
  "by_sequence t \<longleftrightarrow> sorted (seqs t) \<and> distinct (seqs t)"

lemma seqs_insort: "seqs (insort_key LedgerSequence x t) = insort (unat (LedgerSequence x)) (seqs t)"
  by (induction t) (simp_all add: word_le_nat_alt)

lemma by_sequence_insort: "by_sequence t \<Longrightarrow> LedgerSequence x \<notin> LedgerSequence ` set t \<Longrightarrow> by_sequence (insort_key LedgerSequence x t)"
  using seqs_word [of x t] by (simp add: by_sequence_def seqs_insort sorted_insort distinct_insort)

lemma by_sequence_upt: "seqs t = [a..<b] \<Longrightarrow> by_sequence t"
  by (simp add: by_sequence_def)

lemma by_sequence_range: "by_sequence t \<Longrightarrow> set (seqs t) = {a..<b} \<Longrightarrow> seqs t = [a..<b]"
  unfolding by_sequence_def by (rule sorted_distinct_set_unique) simp_all

lemma by_sequence_unique: "by_sequence t \<Longrightarrow> x \<in> set t \<Longrightarrow> y \<in> set t \<Longrightarrow> LedgerSequence x = LedgerSequence y \<Longrightarrow> x = y"
  unfolding by_sequence_def seqs_def by (metis (no_types, lifting) distinct_map inj_onD)

definition source_ok :: "(u32 \<Rightarrow> string + Lcm) \<Rightarrow> bool" where
  "source_ok backend \<longleftrightarrow> (\<forall>n meta. backend n = Inr meta \<longrightarrow> LedgerSequence meta = n \<and> unat n < 2 ^ 31 \<and> valid_ledger meta)"

text \<open>A range of ledgers in one transaction ends, and what it adds.\<close>

definition rows_added :: "event_ids \<Rightarrow> nat set \<Rightarrow> rpc_tables \<Rightarrow> rpc_tables \<Rightarrow> bool" where
  "rows_added ids S w w' \<longleftrightarrow> indexed ids w' \<and> by_sequence (ledger_close_meta w') \<and>
     set (seqs (ledger_close_meta w')) = set (seqs (ledger_close_meta w)) \<union> S \<and> set (ledger_close_meta w) \<subseteq> set (ledger_close_meta w')"

lemma rows_added_trans: "rows_added ids S w w1 \<Longrightarrow> rows_added ids S' w1 w2 \<Longrightarrow> rows_added ids (S \<union> S') w w2"
  unfolding rows_added_def by auto

lemma ingestLedgerCloseMeta_added:
  assumes "ingestLedgerCloseMeta flt ids meta w = Inr w'" "indexed ids w" "by_sequence (ledger_close_meta w)" "valid_ledger meta"
  shows "rows_added ids {unat (LedgerSequence meta)} w w' \<and> meta \<in> set (ledger_close_meta w')"
  using ingestLedgerCloseMeta_indexed [OF assms(1,2,4)] by_sequence_insort [OF assms(3), of meta]
  by (auto simp: rows_added_def seqs_insort set_insort_key)

lemma ingestRange_rows_added:
  assumes src: "source_ok backend" and l: "unat last_seq < 2 ^ 31"
  shows "unat seq \<le> unat last_seq + 1 \<Longrightarrow> indexed ids w \<Longrightarrow> by_sequence (ledger_close_meta w) \<Longrightarrow>
    \<exists>res. ingestRange_rows backend ids flt seq last_seq latest w = Some res \<and>
      (\<forall>latest' w'. res = Inr (latest', w') \<longrightarrow> rows_added ids {unat seq..unat last_seq} w w' \<and>
        (if seq \<le> last_seq then \<exists>meta. latest' = Some meta \<and> LedgerSequence meta = last_seq \<and> meta \<in> set (ledger_close_meta w') else latest' = latest))"
proof (induction "unat last_seq + 1 - unat seq" arbitrary: seq latest w)
  case 0
  then have "\<not> seq \<le> last_seq" "{unat seq..unat last_seq} = {}" by (simp_all add: word_le_nat_alt)
  with 0 show ?case by (subst ingestRange_rows.simps) (simp add: rows_added_def)
next
  case (Suc m)
  then have le: "seq \<le> last_seq" by (simp add: word_le_nat_alt)
  have s1: "unat (seq + 1) = unat seq + 1" using le l by (simp add: unat_add_no_wrap word_le_nat_alt)
  show ?case
  proof (cases "backend seq")
    case (Inl e)
    with le show ?thesis by (subst ingestRange_rows.simps) simp
  next
    case (Inr meta)
    then have meta: "LedgerSequence meta = seq" "valid_ledger meta" using src by (auto simp: source_ok_def)
    show ?thesis
    proof (cases "ingestLedgerCloseMeta flt ids meta w")
      case (Inl e)
      with le Inr show ?thesis by (subst ingestRange_rows.simps) simp
    next
      case w1: (Inr w1)
      have a: "rows_added ids {unat seq} w w1" "meta \<in> set (ledger_close_meta w1)"
        using ingestLedgerCloseMeta_added [OF w1 Suc.prems(2,3) meta(2)] meta(1) by simp_all
      have "m = unat last_seq + 1 - unat (seq + 1)" "unat (seq + 1) \<le> unat last_seq + 1" using Suc(2) s1 le by (simp_all add: word_le_nat_alt)
      from Suc(1) [OF this, of w1 "Some meta"] a(1) obtain res
        where res: "ingestRange_rows backend ids flt (seq + 1) last_seq (Some meta) w1 = Some res"
          and out: "\<And>latest' w'. res = Inr (latest', w') \<Longrightarrow> rows_added ids {unat (seq + 1)..unat last_seq} w1 w' \<and>
            (if seq + 1 \<le> last_seq then \<exists>meta. latest' = Some meta \<and> LedgerSequence meta = last_seq \<and> meta \<in> set (ledger_close_meta w') else latest' = Some meta)"
        unfolding rows_added_def by blast
      have step: "ingestRange_rows backend ids flt seq last_seq latest w = Some res"
        using le Inr w1 res by (subst ingestRange_rows.simps) simp
      have "{unat seq} \<union> {unat (seq + 1)..unat last_seq} = {unat seq..unat last_seq}" using s1 le by (auto simp: word_le_nat_alt)
      with rows_added_trans [OF a(1)] have "rows_added ids {unat (seq + 1)..unat last_seq} w1 w' \<Longrightarrow> rows_added ids {unat seq..unat last_seq} w w'" for w' by metis
      moreover have "seq = last_seq \<and> meta \<in> set (ledger_close_meta w')" if "\<not> seq + 1 \<le> last_seq" "rows_added ids {unat (seq + 1)..unat last_seq} w1 w'" for w'
        using that s1 le a(2) by (auto simp: word_le_nat_alt rows_added_def word_unat_eq_iff)
      ultimately have "rows_added ids {unat seq..unat last_seq} w w' \<and> (\<exists>meta. latest' = Some meta \<and> LedgerSequence meta = last_seq \<and> meta \<in> set (ledger_close_meta w'))"
        if "res = Inr (latest', w')" for latest' w' using out [OF that] meta(1) by (metis (full_types))
      with step le show ?thesis by auto
    qed
  qed
qed

subsection \<open>One chunk\<close>

text \<open>The database has the ledgers from \<open>a\<close> on and before \<open>b\<close>, their transactions and events, and the cache has the last one.\<close>

definition fill_inv :: "ingest_env \<Rightarrow> nat \<Rightarrow> nat \<Rightarrow> DB \<Rightarrow> bool" where
  "fill_inv env a b d \<longleftrightarrow> indexed (eventIds env) (tables d) \<and> seqs (ledger_close_meta (tables d)) = [a..<b] \<and> b \<le> 2 ^ 31 \<and>
     (if a < b then latestLedgerSeq (cache d) \<noteq> 0 \<and>
        \<lparr>Sequence = latestLedgerSeq (cache d), CloseTime = latestLedgerCloseTime (cache d)\<rparr> = lcm_info (last (ledger_close_meta (tables d)))
      else latestLedgerSeq (cache d) = 0)"

text \<open>The range of ledgers \<open>f\<close> to \<open>l\<close> can be added without a gap, and the range that it gives after trimming.\<close>

definition adjacent :: "nat \<Rightarrow> nat \<Rightarrow> u32 \<Rightarrow> u32 \<Rightarrow> bool" where
  "adjacent a b f l \<longleftrightarrow> f \<le> l \<and> 0 < l \<and> unat l < 2 ^ 31 \<and> (b \<le> a \<or> unat f = b \<or> unat l + 1 = a)"

definition joined_first :: "nat \<Rightarrow> nat \<Rightarrow> u32 \<Rightarrow> nat" where
  "joined_first a b f = (if a < b then min a (unat f) else unat f)"

definition joined_end :: "nat \<Rightarrow> nat \<Rightarrow> u32 \<Rightarrow> nat" where
  "joined_end a b l = (if a < b then max b (unat l + 1) else unat l + 1)"

lemma joined_range:
  assumes "adjacent a b f l"
  shows "{a..<b} \<union> {unat f..unat l} = {joined_first a b f..<joined_end a b l}" "joined_first a b f \<le> unat l" "unat l < joined_end a b l"
    "b \<le> 2 ^ 31 \<Longrightarrow> joined_end a b l \<le> 2 ^ 31"
  using assms by (auto simp: adjacent_def joined_first_def joined_end_def word_le_nat_alt)

lemma last_ledger:
  assumes "seqs t = [a..<b]" "x \<in> set t" "unat (LedgerSequence x) + 1 = b"
  shows "t \<noteq> [] \<and> last t = x"
proof
  show ne: "t \<noteq> []" using assms(2) by auto
  have "unat (LedgerSequence (last t)) = unat (LedgerSequence x)" using last_seqs [OF assms(1) ne] assms(3) by simp
  then show "last t = x" using by_sequence_unique [OF by_sequence_upt [OF assms(1)] last_in_set [OF ne] assms(2)] by (simp add: word_unat_eq_iff)
qed

lemma trimmed_kept: "x \<in> set (ledger_close_meta w) \<Longrightarrow> unat latest + 1 - unat window \<le> unat (LedgerSequence x) \<Longrightarrow> unat latest + 1 < 2 ^ 32 \<Longrightarrow>
    x \<in> set (ledger_close_meta (trimmed ids latest window w))"
proof -
  assume x: "x \<in> set (ledger_close_meta w)" "unat latest + 1 - unat window \<le> unat (LedgerSequence x)" "unat latest + 1 < 2 ^ 32"
  have n: "unat (latest + 1) = unat latest + 1" using x(3) by (simp add: unat_add_no_wrap)
  show ?thesis
  proof (cases "latest + 1 \<le> window")
    case False
    then have "unat (latest + 1 - window) = unat latest + 1 - unat window" using n by (simp add: unat_sub_no_wrap word_le_nat_alt)
    with False x show ?thesis by (simp add: trimmed_def cutoff_def drop_before_def word_less_nat_alt)
  qed (use x in \<open>simp add: trimmed_def cutoff_def\<close>)
qed

lemma seqs_not_empty: "seqs t = [a..<b] \<Longrightarrow> a < b \<Longrightarrow> t \<noteq> []"
  by (metis seqs_simps(4) length_0_conv length_upt zero_less_diff less_irrefl)

lemma committed_fill:
  assumes env: "event_ids_ok (eventIds env)" "0 < historyRetentionWindow env" and inv: "fill_inv env a b d" and adj: "adjacent a b f l"
    and w: "rows_added (eventIds env) {unat f..unat l} (tables d) w" and meta: "LedgerSequence meta = l" "meta \<in> set (ledger_close_meta w)"
  shows "fill_inv env (max (joined_first a b f) (unat l + 1 - unat (historyRetentionWindow env))) (joined_end a b l)
    (committed (eventIds env) (historyRetentionWindow env) meta w d)"
proof -
  let ?d = "committed (eventIds env) (historyRetentionWindow env) meta w d" and ?a = "max (joined_first a b f) (unat l + 1 - unat (historyRetentionWindow env))"
  have l: "unat l < 2 ^ 31" "0 < unat (historyRetentionWindow env)" using adj env(2) by (simp_all add: adjacent_def word_less_nat_alt)
  note j = joined_range [OF adj]
  have dd: "seqs (ledger_close_meta (tables d)) = [a..<b]" "b \<le> 2 ^ 31" using inv by (simp_all add: fill_inv_def)
  have sw: "seqs (ledger_close_meta w) = [joined_first a b f..<joined_end a b l]"
    by (rule by_sequence_range) (use w dd(1) j(1) in \<open>simp_all add: rows_added_def\<close>)
  have t: "tables ?d = trimmed (eventIds env) l (historyRetentionWindow env) w" by (simp add: committed_def meta)
  have s: "seqs (ledger_close_meta (tables ?d)) = [?a..<joined_end a b l]" unfolding t by (rule trimmed_seqs [OF sw]) (use l in simp)
  have kept: "x \<in> set (ledger_close_meta (tables ?d))" if "x \<in> set (ledger_close_meta w)" "unat l \<le> unat (LedgerSequence x)" for x
    unfolding t by (rule trimmed_kept [OF that(1)]) (use that l in simp_all)
  have ne: "?a < joined_end a b l" using j(2,3) l by simp
  have "latestLedgerSeq (cache ?d) \<noteq> 0 \<and> \<lparr>Sequence = latestLedgerSeq (cache ?d), CloseTime = latestLedgerCloseTime (cache ?d)\<rparr> = lcm_info (last (ledger_close_meta (tables ?d)))"
  proof (cases "a < b \<and> unat l + 1 = a")
    case True
    let ?x = "last (ledger_close_meta (tables d))"
    have ne: "ledger_close_meta (tables d) \<noteq> []" using True seqs_not_empty [OF dd(1)] by simp
    have x: "unat (LedgerSequence ?x) + 1 = b" using last_seqs [OF dd(1) ne] by simp
    have "joined_end a b l = b" using True by (simp add: joined_end_def)
    moreover have "?x \<in> set (ledger_close_meta (tables ?d))"
      by (rule kept) (use ne w x True last_in_set [OF ne] in \<open>auto simp: rows_added_def simp del: last_in_set\<close>)
    ultimately have "last (ledger_close_meta (tables ?d)) = ?x" using last_ledger [OF s] x by simp
    moreover have c: "\<lparr>Sequence = latestLedgerSeq (cache d), CloseTime = latestLedgerCloseTime (cache d)\<rparr> = lcm_info ?x" "latestLedgerSeq (cache d) \<noteq> 0"
      using inv True by (simp_all add: fill_inv_def)
    then have "\<not> latestLedgerSeq (cache d) < l" using x True by (simp add: lcm_info_def word_less_nat_alt)
    ultimately show ?thesis using c meta(1) by (simp add: committed_def)
  next
    case False
    then have e: "joined_end a b l = unat l + 1" using adj by (auto simp: adjacent_def joined_end_def word_le_nat_alt)
    have "latestLedgerSeq (cache d) < l"
    proof (cases "a < b")
      case True
      then have "ledger_close_meta (tables d) \<noteq> []" by (rule seqs_not_empty [OF dd(1)])
      from last_seqs [OF dd(1) this] True inv False adj show ?thesis by (auto simp: fill_inv_def lcm_info_def adjacent_def word_less_nat_alt word_le_nat_alt)
    qed (use inv adj in \<open>simp add: fill_inv_def adjacent_def\<close>)
    moreover have "last (ledger_close_meta (tables ?d)) = meta" using last_ledger [OF s kept [OF meta(2)]] e meta(1) by simp
    ultimately show ?thesis using meta(1) adj by (auto simp: committed_def lcm_info_def adjacent_def)
  qed
  moreover have "indexed (eventIds env) (tables ?d)" unfolding t using w by (intro trimmed_indexed [OF env(1)]) (simp add: rows_added_def)
  ultimately show ?thesis using s ne j(4) [OF dd(2)] by (simp add: fill_inv_def)
qed

lemma rpc_ingestRange_fill:
  assumes env: "event_ids_ok (eventIds env)" "0 < historyRetentionWindow env" "source_ok backend" and inv: "fill_inv env a b (svcDB s)" and adj: "adjacent a b f l"
  shows "\<exists>r s'. rpc_ingestRange env backend flt f l s = Some (r, s') \<and> (r \<noteq> Inr () \<and> fill_inv env a b (svcDB s') \<or>
    fill_inv env (max (joined_first a b f) (unat l + 1 - unat (historyRetentionWindow env))) (joined_end a b l) (svcDB s'))"
proof -
  have l: "unat l < 2 ^ 31" "unat f \<le> unat l + 1" "f \<le> l" using adj by (simp_all add: adjacent_def word_le_nat_alt)
  have i: "indexed (eventIds env) (tables (svcDB s))" "by_sequence (ledger_close_meta (tables (svcDB s)))" using inv by_sequence_upt by (auto simp: fill_inv_def)
  obtain res where res: "ingestRange_rows backend (eventIds env) flt f l None (tables (svcDB s)) = Some res"
    and out: "\<And>latest w. res = Inr (latest, w) \<Longrightarrow> rows_added (eventIds env) {unat f..unat l} (tables (svcDB s)) w \<and>
      (\<exists>meta. latest = Some meta \<and> LedgerSequence meta = l \<and> meta \<in> set (ledger_close_meta w))"
    using ingestRange_rows_added [OF env(3) l(1,2) i] l(3) by metis
  show ?thesis
  proof (cases "BeginFault flt")
    case None
    show ?thesis
    proof (cases res)
      case (Inl e)
      with None res inv show ?thesis by (simp add: rpc_ingestRange_def)
    next
      case (Inr p)
      then obtain latest w where p: "res = Inr (latest, w)" by (cases p) simp
      obtain meta where meta: "latest = Some meta" "LedgerSequence meta = l" "meta \<in> set (ledger_close_meta w)"
        and a: "rows_added (eventIds env) {unat f..unat l} (tables (svcDB s)) w" using out [OF p] by blast
      obtain r d where c: "writeTx_Commit flt (eventIds env) (historyRetentionWindow env) meta w (svcDB s) = (r, d)" by (metis surj_pair)
      have "r \<noteq> Inr () \<and> d = svcDB s \<or> fill_inv env (max (joined_first a b f) (unat l + 1 - unat (historyRetentionWindow env))) (joined_end a b l) d"
        using writeTx_Commit_cases [OF c] committed_fill [OF env(1,2) inv adj a meta(2,3)] by blast
      with None res p meta(1) c inv show ?thesis by (cases r) (auto simp: rpc_ingestRange_def bump_latest_def)
    qed
  qed (use inv in \<open>simp add: rpc_ingestRange_def\<close>)
qed

subsection \<open>Backwards\<close>

text \<open>
  What is assumed of the datastore: its backends return the ledger that was asked for, with a sequence that is a positive 32 bit integer, its newest ledger does not go back,
  its oldest has a positive sequence, and the checkpoint before a ledger is not after it.
\<close>

definition fill_env_ok :: "fill_env \<Rightarrow> bool" where
  "fill_env_ok E \<longleftrightarrow> event_ids_ok (eventIds (fillIngest E)) \<and> 0 < historyRetentionWindow (fillIngest E) \<and>
     (\<forall>k src. makeBackend E k = Inr src \<longrightarrow> source_ok (srcGetLedger src)) \<and>
     (\<forall>k t. findLatest E k = Inr t \<longrightarrow> unat t < 2 ^ 31) \<and> (\<forall>k k' t t'. k \<le> k' \<and> findLatest E k = Inr t \<and> findLatest E k' = Inr t' \<longrightarrow> t \<le> t') \<and>
     (\<forall>t. prevCheckpoint E t \<le> t) \<and> (\<forall>t. findOldest E = Inr t \<longrightarrow> 0 < t)"

abbreviation fill_window :: "fill_env \<Rightarrow> u32" where
  "fill_window E \<equiv> historyRetentionWindow (fillIngest E)"

abbreviation fill_db :: "fill_run \<Rightarrow> DB" where
  "fill_db st \<equiv> svcDB (fillSvc st)"

text \<open>The left edge of what is to be filled when the newest ledger is \<open>t\<close>.\<close>

definition left_edge :: "u32 \<Rightarrow> u32 \<Rightarrow> u32 \<Rightarrow> nat" where
  "left_edge n ds t = max (unat t - unat n + 1) (unat ds)"

definition edge_ok :: "fill_env \<Rightarrow> u32 \<Rightarrow> u32 \<Rightarrow> u32 \<Rightarrow> nat \<Rightarrow> u32 \<Rightarrow> bool" where
  "edge_ok E tip n ds p l \<longleftrightarrow> n \<le> tip \<and> n \<le> fill_window E \<and> unat tip < 2 ^ 31 \<and> 0 < ds \<and> 0 < l \<and> unat tip + 1 - unat (fill_window E) \<le> unat l \<and>
     (\<forall>k t. p \<le> k \<and> findLatest E k = Inr t \<longrightarrow> tip \<le> t \<and> unat l \<le> left_edge n ds t)"

lemma left_edge_word:
  assumes "n \<le> t" "unat t < 2 ^ 31"
  shows "unat (max (t - n + 1) ds) = left_edge n ds t"
proof -
  have "unat (t - n) = unat t - unat n" using assms(1) by (simp add: unat_sub_no_wrap word_le_nat_alt)
  then have "unat (t - n + 1) = unat t - unat n + 1" using assms(2) by (simp add: unat_add_no_wrap)
  then show ?thesis by (auto simp: left_edge_def max_def word_le_nat_alt)
qed

lemma left_edge_mono: "t \<le> t' \<Longrightarrow> left_edge n ds t \<le> left_edge n ds t'"
  by (auto simp: left_edge_def word_le_nat_alt)

lemma edge_later: "edge_ok E tip n ds p l \<Longrightarrow> p \<le> p' \<Longrightarrow> edge_ok E tip n ds p' l"
  unfolding edge_ok_def by (meson le_trans)

lemma edge_moved:
  assumes E: "fill_env_ok E" and e: "edge_ok E tip n ds p l" and t: "findLatest E p = Inr t"
  shows "edge_ok E tip n ds (Suc p) (max (t - n + 1) ds)"
proof -
  have t31: "unat t < 2 ^ 31" and mono: "p \<le> k \<Longrightarrow> findLatest E k = Inr t' \<Longrightarrow> t \<le> t'" for k t' using E t by (auto simp: fill_env_ok_def)
  have tip: "tip \<le> t" "n \<le> tip" "n \<le> fill_window E" "0 < ds" using e t by (auto simp: edge_ok_def)
  then have w: "unat (max (t - n + 1) ds) = left_edge n ds t" by (intro left_edge_word t31) (simp add: word_le_nat_alt)
  moreover have "unat tip + 1 - unat (fill_window E) \<le> left_edge n ds t" "0 < left_edge n ds t" using tip by (auto simp: left_edge_def word_le_nat_alt)
  ultimately have "0 < max (t - n + 1) ds" "unat tip + 1 - unat (fill_window E) \<le> unat (max (t - n + 1) ds)" by (simp_all add: word_less_nat_alt)
  with w e left_edge_mono [OF mono] show ?thesis unfolding edge_ok_def by (metis Suc_leD)
qed

lemma ingest_chunk_fill:
  assumes E: "fill_env_ok E" and src: "makeBackend E k = Inr src" and inv: "fill_inv (fillIngest E) a b (fill_db st)" and adj: "adjacent a b f l"
  shows "\<exists>r st'. ingest_chunk E src f l st = Some (r, st') \<and> fillMeta st' = fillMeta st \<and> polled st' = polled st \<and>
    (r \<noteq> Inr () \<and> fill_inv (fillIngest E) a b (fill_db st') \<or>
     fill_inv (fillIngest E) (max (joined_first a b f) (unat l + 1 - unat (fill_window E))) (joined_end a b l) (fill_db st'))"
proof -
  have e: "event_ids_ok (eventIds (fillIngest E))" "0 < fill_window E" "source_ok (srcGetLedger src)" using E src by (auto simp: fill_env_ok_def)
  from rpc_ingestRange_fill [OF e inv adj, of "chunkFaults E (chunksTried st)"] show ?thesis
    by (auto simp: ingest_chunk_def)
qed

text \<open>What the loop leaves, when it starts before ledger \<open>r + 1\<close>: the range has grown to the left, and without an error up to the left edge.\<close>

definition backfilled :: "fill_env \<Rightarrow> u32 \<Rightarrow> u32 \<Rightarrow> nat \<Rightarrow> u32 \<Rightarrow> fill_run \<Rightarrow> u32 filled \<Rightarrow> bool" where
  "backfilled E tip n b r st out \<longleftrightarrow> (\<exists>res st' a'. out = Some (res, st') \<and> a' \<le> unat r + 1 \<and> fill_inv (fillIngest E) a' b (fill_db st') \<and>
     fillMeta st' = fillMeta st \<and> polled st \<le> polled st' \<and> (\<forall>l'. res = Inr l' \<longrightarrow> a' \<le> unat l' \<and> edge_ok E tip n (dsFirst (fillMeta st)) (polled st') l'))"

lemma backfilledI:
  "out = Some (res, st') \<Longrightarrow> a' \<le> unat r + 1 \<Longrightarrow> fill_inv (fillIngest E) a' b (fill_db st') \<Longrightarrow> fillMeta st' = fillMeta st \<Longrightarrow> polled st \<le> polled st' \<Longrightarrow>
    (\<And>l'. res = Inr l' \<Longrightarrow> a' \<le> unat l' \<and> edge_ok E tip n (dsFirst (fillMeta st)) (polled st') l') \<Longrightarrow> backfilled E tip n b r st out"
  unfolding backfilled_def by blast

lemma backfilled_later:
  assumes "backfilled E tip n b r' st' out" "r' \<le> r" "fillMeta st' = fillMeta st" "polled st \<le> polled st'"
  shows "backfilled E tip n b r st out"
proof -
  obtain res st'' a' where "out = Some (res, st'')" "a' \<le> unat r' + 1" "fill_inv (fillIngest E) a' b (fill_db st'')" "fillMeta st'' = fillMeta st'" "polled st' \<le> polled st''"
    and "\<And>l'. res = Inr l' \<Longrightarrow> a' \<le> unat l' \<and> edge_ok E tip n (dsFirst (fillMeta st')) (polled st'') l'"
    using assms(1) unfolding backfilled_def by blast
  with assms(2-) show ?thesis by (intro backfilledI [of out res st'' a']) (simp_all add: word_le_nat_alt)
qed

text \<open>One chunk: the loop ends, or goes on with the chunk before it.\<close>

definition fill_ready :: "fill_env \<Rightarrow> u32 \<Rightarrow> u32 \<Rightarrow> nat \<Rightarrow> u32 \<Rightarrow> u32 \<Rightarrow> fill_run \<Rightarrow> bool" where
  "fill_ready E tip n b l r st \<longleftrightarrow> fill_inv (fillIngest E) (unat r + 1) b (fill_db st) \<and> unat r + 1 < b \<and> r < tip \<and> edge_ok E tip n (dsFirst (fillMeta st)) (polled st) l"

lemma left_chunk_joins:
  assumes "fill_ready E tip n b l r st" "l \<le> r"
  shows "adjacent (unat r + 1) b (left_chunk l r) r" "joined_end (unat r + 1) b r = b"
    "max (joined_first (unat r + 1) b (left_chunk l r)) (unat r + 1 - unat (fill_window E)) = unat (left_chunk l r)"
  using left_chunk_bounds [OF assms(2)] assms
  by (auto simp: fill_ready_def edge_ok_def adjacent_def joined_first_def joined_end_def word_less_nat_alt word_le_nat_alt)

lemma backfill_goes_on:
  assumes E: "fill_env_ok E" and lr: "l \<le> r" and rd: "fill_ready E tip n b l r st" and src: "makeBackend E (backendsMade st) = Inr src" "srcPrepareRange src (left_chunk l r) r = None"
    and x: "ingest_chunk E src (left_chunk l r) r (st\<lparr>backendsMade := Suc (backendsMade st)\<rparr>) = Some (Inr (), st2)" "fillMeta st2 = fillMeta st" "polled st2 = polled st"
    and i2: "fill_inv (fillIngest E) (unat (left_chunk l r)) b (fill_db st2)"
  shows "backfilled E tip n b r st (backfill_loop E n i l r st) \<or> (\<exists>l' st'. backfill_loop E n i l r st = backfill_loop E n (Suc i) l' (left_chunk l r - 1) st' \<and>
    fill_ready E tip n b l' (left_chunk l r - 1) st' \<and> left_chunk l r - 1 < r \<and> fillMeta st' = fillMeta st \<and> polled st \<le> polled st')"
proof -
  let ?c = "left_chunk l r"
  have c: "?c \<le> r" using left_chunk_bounds [OF lr] by simp
  have edge: "edge_ok E tip n (dsFirst (fillMeta st)) (polled st) l" and r: "r < tip" "unat r + 1 < b" using rd by (simp_all add: fill_ready_def)
  show ?thesis
  proof (cases "?c \<le> l")
    case True
    have "backfill_loop E n i l r st = Some (Inr l, st2)" using lr src x True by (subst backfill_loop.simps) (simp add: Let_def)
    then have "backfilled E tip n b r st (backfill_loop E n i l r st)"
      by (rule backfilledI [OF _ _ i2]) (use c x True edge in \<open>auto simp: word_le_nat_alt\<close>)
    then show ?thesis ..
  next
    case False
    have d: "unat (?c - 1) + 1 = unat ?c" "?c - 1 < r" using False c by (simp_all add: word_less_nat_alt word_le_nat_alt unat_sub_no_wrap)
    have ready: "fill_ready E tip n b l' (?c - 1) st'" if "fillSvc st' = fillSvc st2" "edge_ok E tip n (dsFirst (fillMeta st')) (polled st') l'" for l' st'
      using that i2 d r by (simp add: fill_ready_def word_less_nat_alt)
    show ?thesis
    proof (cases "0 < i \<and> i mod 10 = 0")
      case no: False
      have "backfill_loop E n i l r st = backfill_loop E n (Suc i) l (?c - 1) st2" using lr src x False no by (subst backfill_loop.simps) (auto simp: Let_def)
      with ready [of st2 l] edge x d(2) show ?thesis by (intro disjI2 exI [of _ l] exI [of _ st2]) simp
    next
      case refresh: True
      show ?thesis
      proof (cases "findLatest E (polled st2)")
        case (Inl e)
        have "backfill_loop E n i l r st = Some (Inl (RpcError e), st2\<lparr>polled := Suc (polled st2)\<rparr>)"
          using lr src x False refresh Inl by (subst backfill_loop.simps) (simp add: Let_def poll_latest_def)
        then have "backfilled E tip n b r st (backfill_loop E n i l r st)"
          by (rule backfilledI [of _ _ _ "unat ?c"]) (use c x i2 in \<open>auto simp: word_le_nat_alt\<close>)
        then show ?thesis ..
      next
        case t: (Inr t)
        let ?l = "max (t - n + 1) (dsFirst (fillMeta st2))" and ?st3 = "st2\<lparr>polled := Suc (polled st2)\<rparr>"
        have "backfill_loop E n i l r st = backfill_loop E n (Suc i) ?l (?c - 1) ?st3"
          using lr src x False refresh t by (subst backfill_loop.simps) (simp add: Let_def poll_latest_def)
        moreover have "fill_ready E tip n b ?l (?c - 1) ?st3" by (rule ready) (use edge_moved [OF E edge] t x in simp_all)
        ultimately show ?thesis using x d(2) by (intro disjI2 exI [of _ ?l] exI [of _ ?st3]) simp
      qed
    qed
  qed
qed

lemma backfill_loop_fill:
  assumes E: "fill_env_ok E"
  shows "fill_ready E tip n b l r st \<Longrightarrow> backfilled E tip n b r st (backfill_loop E n i l r st)"
proof (induction "unat r" arbitrary: r i l st rule: less_induct)
  case less
  have inv: "fill_inv (fillIngest E) (unat r + 1) b (fill_db st)" using less.prems by (simp add: fill_ready_def)
  consider "\<not> l \<le> r" | e where "l \<le> r" "makeBackend E (backendsMade st) = Inl e"
    | src e where "l \<le> r" "makeBackend E (backendsMade st) = Inr src" "srcPrepareRange src (left_chunk l r) r = Some e"
    | src where "l \<le> r" "makeBackend E (backendsMade st) = Inr src" "srcPrepareRange src (left_chunk l r) r = None"
    by (metis option.exhaust sum.exhaust)
  then show ?case
  proof cases
    case 1
    have "backfill_loop E n i l r st = Some (Inr l, st)" using 1 by (subst backfill_loop.simps) simp
    then show ?thesis by (rule backfilledI [OF _ _ inv]) (use 1 less.prems in \<open>auto simp: fill_ready_def word_le_nat_alt\<close>)
  next
    case 2
    have "backfill_loop E n i l r st = Some (Inl (RpcError e), st)" using 2 by (subst backfill_loop.simps) (simp add: Let_def)
    then show ?thesis by (rule backfilledI [OF _ _ inv]) simp_all
  next
    case 3
    have "backfill_loop E n i l r st = Some (Inl (RpcError e), st\<lparr>backendsMade := Suc (backendsMade st)\<rparr>)" using 3 by (subst backfill_loop.simps) (simp add: Let_def)
    then show ?thesis by (rule backfilledI [where a' = "unat r + 1"]) (use inv in simp_all)
  next
    case 4
    note j = left_chunk_joins [OF less.prems 4(1)]
    obtain x st2 where x: "ingest_chunk E src (left_chunk l r) r (st\<lparr>backendsMade := Suc (backendsMade st)\<rparr>) = Some (x, st2)" "fillMeta st2 = fillMeta st" "polled st2 = polled st"
      and i2: "x \<noteq> Inr () \<and> fill_inv (fillIngest E) (unat r + 1) b (fill_db st2) \<or> fill_inv (fillIngest E) (unat (left_chunk l r)) b (fill_db st2)"
      using ingest_chunk_fill [OF E 4(2) _ j(1), of "st\<lparr>backendsMade := Suc (backendsMade st)\<rparr>"] inv unfolding j(2,3) by auto
    have c: "unat (left_chunk l r) \<le> unat r + 1" using left_chunk_bounds [OF 4(1)] by (simp add: word_le_nat_alt)
    show ?thesis
    proof (cases x)
      case (Inl e)
      have "backfill_loop E n i l r st = Some (Inl e, st2)" using 4 x Inl by (subst backfill_loop.simps) (simp add: Let_def)
      with i2 c x show ?thesis by (auto intro: backfilledI)
    next
      case (Inr u)
      with x have x': "ingest_chunk E src (left_chunk l r) r (st\<lparr>backendsMade := Suc (backendsMade st)\<rparr>) = Some (Inr (), st2)" by simp
      from Inr i2 have "fill_inv (fillIngest E) (unat (left_chunk l r)) b (fill_db st2)" by auto
      from backfill_goes_on [OF E 4(1) less.prems 4(2,3) x' x(2,3) this, of i] show ?thesis
        using less.hyps backfilled_later unfolding word_less_nat_alt [symmetric] by (metis less_imp_le)
    qed
  qed
qed

subsection \<open>Forwards\<close>

definition front_first :: "nat \<Rightarrow> nat \<Rightarrow> u32 \<Rightarrow> nat" where
  "front_first a b f = (if a < b then a else unat f)"

text \<open>The ledgers before the chunk are in the database, or the database is empty.\<close>

lemma front_chunk:
  assumes "a < b \<Longrightarrow> unat l = b" "0 < l" "l \<le> r" "unat r < 2 ^ 31"
  shows "adjacent a b l (min r (l + ChunkSize - 1))" "joined_first a b l = front_first a b l" "joined_end a b (min r (l + ChunkSize - 1)) = unat (min r (l + ChunkSize - 1)) + 1"
    "unat (min r (l + ChunkSize - 1)) = min (unat r) (unat l + 959)" "unat (l + ChunkSize) = unat l + 960"
proof -
  have u: "unat (l + 959) = unat l + 959" using assms(3,4) by (simp add: unat_add_no_wrap word_le_nat_alt)
  show m: "unat (min r (l + ChunkSize - 1)) = min (unat r) (unat l + 959)" using u by (auto simp: ChunkSize_eq min_def word_le_nat_alt add.commute)
  show "unat (l + ChunkSize) = unat l + 960" using assms(3,4) by (simp add: unat_add_no_wrap ChunkSize_eq word_le_nat_alt)
  have lm: "unat l \<le> unat (min r (l + ChunkSize - 1))" "unat (min r (l + ChunkSize - 1)) < 2 ^ 31" "0 < unat l" using m assms(2-4) by (auto simp: word_le_nat_alt word_less_nat_alt)
  then show "adjacent a b l (min r (l + ChunkSize - 1))" using assms(1) by (auto simp: adjacent_def word_le_nat_alt word_less_nat_alt)
  show "joined_first a b l = front_first a b l" using assms(1) by (auto simp: joined_first_def front_first_def)
  show "joined_end a b (min r (l + ChunkSize - 1)) = unat (min r (l + ChunkSize - 1)) + 1" using assms(1) lm by (auto simp: joined_end_def)
qed

lemma frontfill_loop_fill:
  assumes E: "fill_env_ok E" and src: "makeBackend E k = Inr src" and r: "unat r < 2 ^ 31"
  shows "fill_inv (fillIngest E) a b (fill_db st) \<Longrightarrow> (a < b \<Longrightarrow> unat l = b) \<Longrightarrow> 0 < l \<Longrightarrow> l \<le> r \<Longrightarrow>
    \<exists>res st' a' b'. frontfill_loop E src l r st = Some (res, st') \<and> fill_inv (fillIngest E) a' b' (fill_db st') \<and> fillMeta st' = fillMeta st \<and> polled st' = polled st \<and>
      (res = Inr () \<longrightarrow> a' = max (front_first a b l) (unat r + 1 - unat (fill_window E)) \<and> b' = unat r + 1)"
proof (induction "unat r - unat l" arbitrary: l a b st rule: less_induct)
  case less
  let ?r = "min r (l + ChunkSize - 1)" and ?W = "unat (fill_window E)"
  note c = front_chunk [OF less.prems(2,3,4) r]
  obtain x st1 where x: "ingest_chunk E src l ?r st = Some (x, st1)" "fillMeta st1 = fillMeta st" "polled st1 = polled st"
    and inv: "x \<noteq> Inr () \<and> fill_inv (fillIngest E) a b (fill_db st1) \<or>
      fill_inv (fillIngest E) (max (front_first a b l) (unat ?r + 1 - ?W)) (unat ?r + 1) (fill_db st1)"
    using ingest_chunk_fill [OF E src less.prems(1) c(1)] c(2,3) by auto
  show ?case
  proof (cases x)
    case (Inl e)
    with less.prems(4) x inv show ?thesis by (subst frontfill_loop.simps) (auto simp: Let_def)
  next
    case (Inr u)
    with inv have i1: "fill_inv (fillIngest E) (max (front_first a b l) (unat ?r + 1 - ?W)) (unat ?r + 1) (fill_db st1)" by auto
    have step: "frontfill_loop E src l r st = frontfill_loop E src (l + ChunkSize) r st1"
      using less.prems(4) x Inr by (subst frontfill_loop.simps) simp
    show ?thesis
    proof (cases "l + ChunkSize \<le> r")
      case False
      then have "unat ?r = unat r" using c(4,5) by (simp add: word_le_nat_alt)
      with i1 x False show ?thesis unfolding step by (subst frontfill_loop.simps) auto
    next
      case True
      have rr: "unat ?r + 1 = unat (l + ChunkSize)" using True c(4,5) by (simp add: word_le_nat_alt)
      have lt: "max (front_first a b l) (unat ?r + 1 - ?W) < unat ?r + 1"
        using E less.prems(2) c(4) less.prems(4) by (auto simp: fill_env_ok_def front_first_def word_less_nat_alt word_le_nat_alt)
      have m: "unat r - unat (l + ChunkSize) < unat r - unat l" "0 < l + ChunkSize" using True c(5) by (auto simp: word_le_nat_alt word_less_nat_alt)
      have ff: "front_first (max (front_first a b l) (unat ?r + 1 - ?W)) (unat ?r + 1) (l + ChunkSize) = max (front_first a b l) (unat ?r + 1 - ?W)"
        using lt by (simp add: front_first_def)
      have "max (max (front_first a b l) (unat ?r + 1 - ?W)) (unat r + 1 - ?W) = max (front_first a b l) (unat r + 1 - ?W)" using c(4) by auto
      then show ?thesis using less.hyps [OF m(1) i1 rr [symmetric] m(2) True] x(2,3) unfolding step ff by metis
    qed
  qed
qed

text \<open>One iteration of the forward phase, once the newest ledger of the datastore is known.\<close>

definition front_pass :: "fill_env \<Rightarrow> fillBounds \<Rightarrow> u32 \<Rightarrow> fill_run \<Rightarrow> unit filled" where
  "front_pass E bounds cp st = (if First (frontfill bounds) < cp then frontfillChunks E (bounds\<lparr>frontfill := (frontfill bounds)\<lparr>Last := cp\<rparr>\<rparr>) st else Some (Inr (), st))"

lemma front_pass_fill:
  assumes E: "fill_env_ok E" and cp: "unat cp < 2 ^ 31" and inv: "fill_inv (fillIngest E) a b (fill_db st)"
    and f: "a < b \<Longrightarrow> unat (First (frontfill bounds)) = b" "0 < First (frontfill bounds)"
  shows "\<exists>res st' a' b'. front_pass E bounds cp st = Some (res, st') \<and> fill_inv (fillIngest E) a' b' (fill_db st') \<and> fillMeta st' = fillMeta st \<and> polled st' = polled st \<and>
    (res = Inr () \<longrightarrow> (if First (frontfill bounds) < cp
       then a' = max (front_first a b (First (frontfill bounds))) (unat cp + 1 - unat (fill_window E)) \<and> b' = unat cp + 1 else a' = a \<and> b' = b))"
proof (cases "First (frontfill bounds) < cp")
  case False
  then show ?thesis using inv by (auto simp: front_pass_def)
next
  case lt: True
  let ?l = "First (frontfill bounds)" and ?st = "st\<lparr>backendsMade := Suc (backendsMade st)\<rparr>"
  show ?thesis
  proof (cases "makeBackend E (backendsMade st)")
    case (Inl e)
    with lt inv show ?thesis by (auto simp: front_pass_def frontfillChunks_def Let_def)
  next
    case src: (Inr src)
    show ?thesis
    proof (cases "srcPrepareRange src ?l cp")
      case (Some e)
      with lt src inv show ?thesis by (auto simp: front_pass_def frontfillChunks_def Let_def)
    next
      case None
      with lt src have "front_pass E bounds cp st = frontfill_loop E src ?l cp ?st" by (auto simp: front_pass_def frontfillChunks_def Let_def)
      moreover have "fill_inv (fillIngest E) a b (fill_db ?st)" "?l \<le> cp" using inv lt by simp_all
      ultimately show ?thesis using frontfill_loop_fill [OF E src cp, of a b ?st ?l, OF _ f] lt by simp
    qed
  qed
qed

text \<open>
  What an iteration relies on: it starts right after the ledgers of the database, or the database is empty, and the left edge of the newest ledger is not before the first
  ledger of the database; and what it is for.
\<close>

definition front_ready :: "fill_env \<Rightarrow> u32 \<Rightarrow> u32 \<Rightarrow> nat \<Rightarrow> nat \<Rightarrow> u32 \<Rightarrow> nat \<Rightarrow> bool" where
  "front_ready E n ds a b f p \<longleftrightarrow> (a < b \<longrightarrow> unat f = b) \<and> 0 < f \<and> n \<le> fill_window E \<and>
     (\<forall>k t. p \<le> k \<and> findLatest E k = Inr t \<longrightarrow> front_first a b f \<le> left_edge n ds t)"

definition covers :: "fill_env \<Rightarrow> u32 \<Rightarrow> u32 \<Rightarrow> nat \<Rightarrow> nat \<Rightarrow> u32 \<Rightarrow> bool" where
  "covers E n ds a b t \<longleftrightarrow> (\<forall>m. left_edge n ds t \<le> m \<and> m < unat (prevCheckpoint E t) \<longrightarrow> a \<le> m \<and> m < b)"

lemma checkpoint_le: "fill_env_ok E \<Longrightarrow> unat (prevCheckpoint E t) \<le> unat t"
  by (simp add: fill_env_ok_def word_le_nat_alt)

lemma latest_bound: "fill_env_ok E \<Longrightarrow> findLatest E k = Inr t \<Longrightarrow> unat t < 2 ^ 31"
  by (auto simp: fill_env_ok_def)

lemma front_ready_filled:
  assumes E: "fill_env_ok E" and rd: "front_ready E n ds a b f p" and t: "findLatest E p = Inr t" and cp: "f < prevCheckpoint E t"
  defines "a' \<equiv> max (front_first a b f) (unat (prevCheckpoint E t) + 1 - unat (fill_window E))"
  shows "front_ready E n ds a' (unat (prevCheckpoint E t) + 1) (prevCheckpoint E t + 1) (Suc p)" "covers E n ds a' (unat (prevCheckpoint E t) + 1) t"
proof -
  let ?cp = "prevCheckpoint E t"
  have n: "unat n \<le> unat (fill_window E)" and le: "p \<le> k \<Longrightarrow> findLatest E k = Inr t' \<Longrightarrow> front_first a b f \<le> left_edge n ds t'" for k t'
    using rd by (auto simp: front_ready_def word_le_nat_alt)
  have c: "unat ?cp \<le> unat t" "unat (?cp + 1) = unat ?cp + 1" using checkpoint_le [OF E, of t] latest_bound [OF E t] by (simp_all add: unat_add_no_wrap)
  have "unat ?cp + 1 - unat (fill_window E) \<le> left_edge n ds t" using c(1) n by (simp add: left_edge_def)
  moreover have "left_edge n ds t \<le> left_edge n ds t'" if "p \<le> k" "findLatest E k = Inr t'" for k t'
    using E t that by (intro left_edge_mono) (auto simp: fill_env_ok_def)
  ultimately have a': "a' \<le> left_edge n ds t'" if "p \<le> k" "findLatest E k = Inr t'" for k t' using le [OF that] that unfolding a'_def by (meson le_trans max.boundedI)
  have w: "0 < unat (fill_window E)" "front_first a b f < unat ?cp + 1"
    using E cp rd by (auto simp: fill_env_ok_def front_ready_def front_first_def word_less_nat_alt)
  then have "a' < unat ?cp + 1" by (simp add: a'_def)
  with c(2) a' rd show "front_ready E n ds a' (unat ?cp + 1) (?cp + 1) (Suc p)"
    by (auto simp: front_ready_def front_first_def word_less_nat_alt dest: Suc_leD)
  show "covers E n ds a' (unat ?cp + 1) t" using a' [OF order.refl t] by (auto simp: covers_def)
qed

lemma front_ready_skipped:
  assumes "front_ready E n ds a b f p" "findLatest E p = Inr t" "\<not> f < prevCheckpoint E t"
  shows "covers E n ds a b t"
proof -
  have "front_first a b f \<le> left_edge n ds t" "a < b \<longrightarrow> unat f = b" using assms(1,2) by (auto simp: front_ready_def)
  then show ?thesis using assms(3) by (auto simp: covers_def front_first_def word_less_nat_alt split: if_splits)
qed

lemma front_ready_later: "front_ready E n ds a b f p \<Longrightarrow> p \<le> p' \<Longrightarrow> front_ready E n ds a b f p'"
  unfolding front_ready_def by (meson le_trans)

text \<open>The result of the iterations: a consistent database, and when there was no error the ledgers up to the last checkpoint.\<close>

definition frontfilled :: "fill_env \<Rightarrow> u32 \<Rightarrow> u32 \<Rightarrow> fill_run \<Rightarrow> fillBounds filled \<Rightarrow> bool" where
  "frontfilled E n ds st out \<longleftrightarrow> (\<exists>res st' a' b'. out = Some (res, st') \<and> fill_inv (fillIngest E) a' b' (fill_db st') \<and>
     (\<forall>bounds'. res = Inr bounds' \<longrightarrow> (\<exists>t. findLatest E (polled st' - 1) = Inr t \<and> covers E n ds a' b' t)))"

lemma frontfill_iterations_step:
  "frontfill_iterations E (Suc k) bounds st = (case findLatest E (polled st) of
       Inl e \<Rightarrow> Some (Inl (RpcError e), st\<lparr>polled := Suc (polled st)\<rparr>)
     | Inr t \<Rightarrow> (case front_pass E bounds (prevCheckpoint E t) (st\<lparr>polled := Suc (polled st)\<rparr>) of
         None \<Rightarrow> None
       | Some (Inl e, st') \<Rightarrow> Some (Inl e, st')
       | Some (Inr _, st') \<Rightarrow> frontfill_iterations E k (bounds\<lparr>frontfill := \<lparr>First = prevCheckpoint E t + 1, Last = prevCheckpoint E t\<rparr>\<rparr>) st'))"
proof -
  have eq: "bounds\<lparr>frontfill := (frontfill bounds)\<lparr>Last := c\<rparr>,
      frontfill := (frontfill (bounds\<lparr>frontfill := (frontfill bounds)\<lparr>Last := c\<rparr>\<rparr>))\<lparr>First := Last (frontfill (bounds\<lparr>frontfill := (frontfill bounds)\<lparr>Last := c\<rparr>\<rparr>)) + 1\<rparr>\<rparr>
    = bounds\<lparr>frontfill := \<lparr>First = c + 1, Last = c\<rparr>\<rparr>" for c by (cases "frontfill bounds") simp
  show ?thesis unfolding frontfill_iterations.simps Let_def eq by (simp add: poll_latest_def front_pass_def split: sum.split)
qed

declare frontfill_iterations.simps(2) [simp del]

lemma frontfill_last:
  assumes E: "fill_env_ok E" and inv: "fill_inv (fillIngest E) a b (fill_db st)" and rd: "front_ready E n ds a b (First (frontfill bounds)) (polled st)"
  shows "frontfilled E n ds st (frontfill_iterations E (Suc 0) bounds st)"
proof (cases "findLatest E (polled st)")
  case (Inl e)
  with inv show ?thesis by (auto simp: frontfilled_def frontfill_iterations_step)
next
  case t: (Inr t)
  have cp: "unat (prevCheckpoint E t) < 2 ^ 31" using checkpoint_le [OF E, of t] latest_bound [OF E t] by simp
  obtain res st' a' b' where p: "front_pass E bounds (prevCheckpoint E t) (st\<lparr>polled := Suc (polled st)\<rparr>) = Some (res, st')"
    "fill_inv (fillIngest E) a' b' (fill_db st')" "polled st' = Suc (polled st)"
    "res = Inr () \<Longrightarrow> if First (frontfill bounds) < prevCheckpoint E t
       then a' = max (front_first a b (First (frontfill bounds))) (unat (prevCheckpoint E t) + 1 - unat (fill_window E)) \<and> b' = unat (prevCheckpoint E t) + 1 else a' = a \<and> b' = b"
    using front_pass_fill [OF E cp, of a b "st\<lparr>polled := Suc (polled st)\<rparr>" bounds] inv rd by (auto simp: front_ready_def)
  have "covers E n ds a' b' t" if "res = Inr ()"
    using p(4) [OF that] front_ready_filled(2) [OF E rd t] front_ready_skipped [OF rd t] by (auto split: if_splits)
  with p(1-3) t show ?thesis by (cases res) (auto simp: frontfilled_def frontfill_iterations_step)
qed

lemma frontfill_two:
  assumes E: "fill_env_ok E" and inv: "fill_inv (fillIngest E) a b (fill_db st)" and rd: "front_ready E n ds a b (First (frontfill bounds)) (polled st)"
    and steady: "\<And>t t'. findLatest E (polled st) = Inr t \<Longrightarrow> findLatest E (Suc (polled st)) = Inr t' \<Longrightarrow>
      First (frontfill bounds) < prevCheckpoint E t \<or> prevCheckpoint E t' = prevCheckpoint E t"
  shows "frontfilled E n ds st (frontfill_iterations E 2 bounds st)"
proof (cases "findLatest E (polled st)")
  case (Inl e)
  with inv show ?thesis by (auto simp: frontfilled_def numeral_2_eq_2 frontfill_iterations_step)
next
  case t: (Inr t)
  let ?cp = "prevCheckpoint E t"
  have cp: "unat ?cp < 2 ^ 31" using checkpoint_le [OF E, of t] latest_bound [OF E t] by simp
  obtain res st' a' b' where p: "front_pass E bounds ?cp (st\<lparr>polled := Suc (polled st)\<rparr>) = Some (res, st')"
    "fill_inv (fillIngest E) a' b' (fill_db st')" "polled st' = Suc (polled st)"
    "res = Inr () \<Longrightarrow> if First (frontfill bounds) < ?cp
       then a' = max (front_first a b (First (frontfill bounds))) (unat ?cp + 1 - unat (fill_window E)) \<and> b' = unat ?cp + 1 else a' = a \<and> b' = b"
    using front_pass_fill [OF E cp, of a b "st\<lparr>polled := Suc (polled st)\<rparr>" bounds] inv rd by (auto simp: front_ready_def)
  show ?thesis
  proof (cases res)
    case (Inl e)
    with p(1,2) t show ?thesis by (auto simp: frontfilled_def numeral_2_eq_2 frontfill_iterations_step)
  next
    case (Inr u)
    let ?b = "bounds\<lparr>frontfill := \<lparr>First = ?cp + 1, Last = ?cp\<rparr>\<rparr>"
    have step: "frontfill_iterations E 2 bounds st = frontfill_iterations E (Suc 0) ?b st'"
      unfolding numeral_2_eq_2 by (subst frontfill_iterations_step) (simp add: t p(1) Inr)
    show ?thesis
    proof (cases "First (frontfill bounds) < ?cp")
      case True
      with p(4) Inr have ab: "a' = max (front_first a b (First (frontfill bounds))) (unat ?cp + 1 - unat (fill_window E))" "b' = unat ?cp + 1" by auto
      have "front_ready E n ds a' b' (First (frontfill ?b)) (polled st')" using front_ready_filled(1) [OF E rd t True] p(3) ab by simp
      from frontfill_last [OF E p(2) this] show ?thesis unfolding step frontfilled_def .
    next
      case False
      with p(4) Inr have ab: "a' = a" "b' = b" by auto
      show ?thesis
      proof (cases "findLatest E (Suc (polled st))")
        case Inl2: (Inl e)
        with p(2,3) show ?thesis unfolding step by (auto simp: frontfilled_def frontfill_iterations_step)
      next
        case t': (Inr t')
        with steady [OF t t'] False have same: "prevCheckpoint E t' = ?cp" by simp
        have "\<not> ?cp + 1 < ?cp" using cp by (simp add: word_less_nat_alt unat_add_no_wrap)
        then have "frontfill_iterations E (Suc 0) ?b st' = Some (Inr ?b, st'\<lparr>polled := Suc (polled st')\<rparr>)"
          by (subst frontfill_iterations_step) (simp add: t' p(3) front_pass_def same)
        moreover have "covers E n ds a b t'"
          by (rule front_ready_skipped [OF front_ready_later [OF rd, of "Suc (polled st)"] t']) (use False same in simp_all)
        ultimately show ?thesis unfolding step using p(2,3) t' ab by (auto simp: frontfilled_def)
      qed
    qed
  qed
qed

subsection \<open>The whole fill\<close>

lemma fill_inv_range:
  assumes inv: "fill_inv env a b d"
  shows "GetLedgerRange d = (if a < b then Inr (store_range (ledger_close_meta (tables d))) else Inl ErrEmptyDB)"
    "a < b \<Longrightarrow> unat (LedgerSequence (hd (ledger_close_meta (tables d)))) = a" "a < b \<Longrightarrow> unat (LedgerSequence (last (ledger_close_meta (tables d)))) + 1 = b"
proof -
  let ?t = "ledger_close_meta (tables d)"
  have s: "seqs ?t = [a..<b]" using inv by (simp add: fill_inv_def)
  have e: "?t = [] \<longleftrightarrow> \<not> a < b" using s seqs_not_empty [OF s] by (metis upt_eq_Nil_conv linorder_not_less list.map_disc_iff seqs_def)
  have "cache_ok d" using inv e by (auto simp: fill_inv_def cache_ok_def split: if_splits)
  with gaplessI [OF s] show "GetLedgerRange d = (if a < b then Inr (store_range ?t) else Inl ErrEmptyDB)" using e by (simp add: GetLedgerRange_range)
  show "unat (LedgerSequence (hd ?t)) = a" if "a < b" using s e that by (cases ?t) (auto simp: upt_conv_Cons)
  show "unat (LedgerSequence (last ?t)) + 1 = b" if "a < b" using last_seqs [OF s] e that by simp
qed

lemma verifyDbGapless_ok:
  assumes inv: "fill_inv env a b d"
  shows "\<exists>p. verifyDbGapless d = Inr p"
proof (cases "a < b")
  case True
  let ?t = "ledger_close_meta (tables d)" and ?f = "LedgerSequence (hd (ledger_close_meta (tables d)))" and ?l = "LedgerSequence (last (ledger_close_meta (tables d)))"
  note r = fill_inv_range [OF inv]
  have s: "seqs ?t = [a..<b]" "b \<le> 2 ^ 31" using inv by (simp_all add: fill_inv_def)
  have "?t \<noteq> []" by (rule seqs_not_empty [OF s(1) True])
  have all: "filter (\<lambda>x. ?f \<le> LedgerSequence x \<and> LedgerSequence x \<le> ?l) ?t = ?t"
    using gapless_ends [OF gaplessI [OF s(1)]] by (simp add: filter_id_conv)
  have le: "?f \<le> ?l" using gapless_ends(1) [OF gaplessI [OF s(1)]] \<open>?t \<noteq> []\<close> by simp
  have "length ?t = b - a" using arg_cong [OF s(1), of length] by simp
  moreover have "unat (?l - ?f) = b - 1 - a" using le r(2,3) [OF True] by (simp add: unat_sub_no_wrap word_le_nat_alt)
  then have "unat (?l - ?f + 1) = b - a" using s(2) True by (simp add: unat_add_no_wrap)
  ultimately have "of_nat (length ?t) = ?l - ?f + 1" using s(2) by (simp add: word_unat_eq_iff unat_of_nat)
  then show ?thesis using r(1) True all \<open>?t \<noteq> []\<close>
    by (simp add: verifyDbGapless_def store_range_def lcm_info_def getLedgerCountInRange_def Let_def)
qed (use fill_inv_range(1) [OF inv] in \<open>simp add: verifyDbGapless_def\<close>)

lemma NewBackfillMeta_range:
  assumes inv: "fill_inv env a b d" and m: "NewBackfillMeta E d = Inr m"
  shows "findOldest E = Inr (dsFirst m)" "isNewDb m \<longleftrightarrow> \<not> a < b"
    "a < b \<Longrightarrow> unat (First (dbSequences m)) = a" "a < b \<Longrightarrow> unat (Last (dbSequences m)) + 1 = b"
  using m fill_inv_range [OF inv]
  by (auto simp: NewBackfillMeta_def store_range_def lcm_info_def split: sum.splits if_splits)

text \<open>Where the forward phase starts.\<close>

definition front_start :: "fill_env \<Rightarrow> u32 \<Rightarrow> nat \<Rightarrow> nat \<Rightarrow> u32 \<Rightarrow> nat" where
  "front_start E ds a b t = (if a < b then b else left_edge (min (fill_window E) t) ds t)"

lemma setBounds_cases:
  assumes E: "fill_env_ok E" and inv: "fill_inv (fillIngest E) a b (fill_db st)" and m: "NewBackfillMeta E (fill_db st) = Inr (fillMeta st)"
    and t: "findLatest E (polled st) = Inr t"
  defines "n \<equiv> min (fill_window E) t" and "ds \<equiv> dsFirst (fillMeta st)" and "st1 \<equiv> st\<lparr>polled := Suc (polled st)\<rparr>"
  shows "(\<exists>e. setBounds E (fill_window E) st = (Inl e, st1)) \<or>
    (\<exists>bounds. setBounds E (fill_window E) st = (Inr bounds, st1) \<and> nBackfill bounds = n \<and> unat (First (frontfill bounds)) = front_start E ds a b t \<and>
       (\<not> needBackfillPhase bounds \<and> front_ready E n ds a b (First (frontfill bounds)) (Suc (polled st)) \<or>
        needBackfillPhase bounds \<and> unat (Last (backfill bounds)) + 1 = a \<and> a < b \<and> unat (Last (backfill bounds)) < unat t \<and> edge_ok E t n ds (Suc (polled st)) (First (backfill bounds))))"
proof -
  let ?fs = "if n + 1 \<le> t then max (t - n + 1) ds else ds"
  have t31: "unat t < 2 ^ 31" using latest_bound [OF E t] .
  have nt: "n \<le> t" "n \<le> fill_window E" by (simp_all add: n_def)
  note r = NewBackfillMeta_range [OF inv m]
  have ds: "0 < ds" using E r(1) by (auto simp: fill_env_ok_def ds_def)
  have fs: "unat ?fs = left_edge n ds t"
  proof (cases "n + 1 \<le> t")
    case True
    then show ?thesis using left_edge_word [OF nt(1) t31] by simp
  next
    case False
    have "unat (n + 1) = unat n + 1" using nt(1) t31 by (simp add: unat_add_no_wrap word_le_nat_alt)
    then have "unat n = unat t" using False nt(1) by (simp add: word_le_nat_alt)
    then show ?thesis using False ds by (simp add: left_edge_def word_less_nat_alt)
  qed
  have later2: "t \<le> t'" if "Suc (polled st) \<le> k" "findLatest E k = Inr t'" for k t'
    using E t that Suc_leD unfolding fill_env_ok_def by blast
  note later = left_edge_mono [OF later2] later2
  have fpos: "0 < ?fs" using fs ds by (simp add: word_less_nat_alt left_edge_def)
  show ?thesis
  proof (cases "a < b")
    case False
    with fs fpos nt later(1) t r(2) show ?thesis
      by (auto simp: setBounds_def poll_latest_def Let_def n_def [symmetric] ds_def [symmetric] st1_def front_start_def front_ready_def front_first_def needBackfillPhase_def Empty_def)
  next
    case True
    let ?a = "First (dbSequences (fillMeta st))" and ?b = "Last (dbSequences (fillMeta st))"
    have b31: "b \<le> 2 ^ 31" using inv by (simp add: fill_inv_def)
    have ab: "unat ?a = a" "unat ?b + 1 = b" using r(3,4) True by simp_all
    have b1: "unat (?b + 1) = b" "0 < ?b + 1" using ab(2) b31 by (simp_all add: unat_add_no_wrap word_less_nat_alt)
    show ?thesis
    proof (cases "?a \<le> ?fs")
      case small: True
      then have "a \<le> left_edge n ds t" using fs ab(1) by (simp add: word_le_nat_alt)
      then have "front_ready E n ds a b (?b + 1) (Suc (polled st))"
        using b1 nt later(1) True unfolding front_ready_def front_first_def by (auto intro: le_trans)
      with small b1(1) t r(2) True show ?thesis
        by (auto simp: setBounds_def poll_latest_def Let_def n_def [symmetric] ds_def [symmetric] st1_def front_start_def needBackfillPhase_def Empty_def)
    next
      case large: False
      show ?thesis
      proof (cases "t < ?a")
        case old: True
        with large t r(2) True show ?thesis by (auto simp: setBounds_def poll_latest_def Let_def n_def [symmetric] ds_def [symmetric] st1_def)
      next
        case False
        have am: "unat (?a - 1) + 1 = a" using large fs ab(1) by (simp add: unat_sub_no_wrap word_le_nat_alt)
        have "edge_ok E t n ds (Suc (polled st)) ?fs"
          using nt t31 ds fpos fs later by (auto simp: edge_ok_def left_edge_def word_le_nat_alt)
        with large False b1(1) t r(2) True am ab(1) fpos show ?thesis
          by (auto simp: setBounds_def poll_latest_def Let_def n_def [symmetric] ds_def [symmetric] st1_def front_start_def needBackfillPhase_def Empty_def word_less_nat_alt)
      qed
    qed
  qed
qed

lemma runBackfill_fill:
  assumes E: "fill_env_ok E" and inv: "fill_inv (fillIngest E) a b (fill_db st)" and need: "needBackfillPhase bounds" "a < b"
    and l: "unat (Last (backfill bounds)) + 1 = a" "unat (Last (backfill bounds)) < unat t" and edge: "edge_ok E t (nBackfill bounds) (dsFirst (fillMeta st)) (polled st) (First (backfill bounds))"
  shows "\<exists>res st' a'. runBackfill E bounds st = Some (res, st') \<and> fill_inv (fillIngest E) a' b (fill_db st') \<and> a' < b \<and>
    (\<forall>bounds'. res = Inr bounds' \<longrightarrow> needBackfillPhase bounds' \<and> frontfill bounds' = frontfill bounds \<and> nBackfill bounds' = nBackfill bounds \<and>
      (\<forall>k t'. polled st' \<le> k \<and> findLatest E k = Inr t' \<longrightarrow> a' \<le> left_edge (nBackfill bounds) (dsFirst (fillMeta st)) t'))"
proof -
  have "fill_ready E t (nBackfill bounds) b (First (backfill bounds)) (Last (backfill bounds)) st"
    using inv need(2) l edge by (simp add: fill_ready_def word_less_nat_alt)
  from backfill_loop_fill [OF E this, of 0] obtain res st' a' where out:
    "backfill_loop E (nBackfill bounds) 0 (First (backfill bounds)) (Last (backfill bounds)) st = Some (res, st')" "a' \<le> a" "fill_inv (fillIngest E) a' b (fill_db st')"
    "\<And>l'. res = Inr l' \<Longrightarrow> a' \<le> unat l' \<and> edge_ok E t (nBackfill bounds) (dsFirst (fillMeta st)) (polled st') l'"
    unfolding backfilled_def using l(1) by metis
  show ?thesis
  proof (cases res)
    case (Inl e)
    with out need show ?thesis by (auto simp: runBackfill_def backfillChunks_def)
  next
    case (Inr l')
    with out(4) have e: "a' \<le> unat l'" "edge_ok E t (nBackfill bounds) (dsFirst (fillMeta st)) (polled st') l'" by blast+
    then have l': "0 < l'" and le: "\<And>k t'. polled st' \<le> k \<Longrightarrow> findLatest E k = Inr t' \<Longrightarrow> a' \<le> left_edge (nBackfill bounds) (dsFirst (fillMeta st)) t'"
      unfolding edge_ok_def by (blast intro: le_trans)+
    let ?b = "bounds\<lparr>backfill := (backfill bounds)\<lparr>First := l'\<rparr>\<rparr>"
    obtain st'' where "runBackfill E bounds st = Some (Inr ?b, st'')" "fill_db st'' = fill_db st'" "polled st'' = polled st'"
      using out(1) need(1) Inr by (simp add: runBackfill_def backfillChunks_def)
    moreover have "needBackfillPhase ?b" using l' by (auto simp: needBackfillPhase_def Empty_def)
    moreover have "a' < b" using out(2) need(2) by simp
    ultimately show ?thesis using out(3) le by (intro exI [of _ "Inr ?b"] exI [of _ st''] exI [of _ a']) auto
  qed
qed

lemma runFrontfill_fill:
  assumes "frontfilled E n ds st (frontfill_iterations E (if needBackfillPhase bounds then 1 else 2) bounds st)"
  shows "frontfilled E n ds st (runFrontfill E bounds st)"
proof -
  obtain res st' a' b' where out: "frontfill_iterations E (if needBackfillPhase bounds then 1 else 2) bounds st = Some (res, st')" "fill_inv (fillIngest E) a' b' (fill_db st')"
    "\<And>bounds'. res = Inr bounds' \<Longrightarrow> \<exists>t. findLatest E (polled st' - 1) = Inr t \<and> covers E n ds a' b' t"
    using assms unfolding frontfilled_def by blast
  then obtain st'' where "runFrontfill E bounds st = Some (res, st'')" "fill_db st'' = fill_db st'" "polled st'' = polled st'"
    by (cases res) (simp_all add: runFrontfill_def)
  with out(2,3) show ?thesis unfolding frontfilled_def by metis
qed

text \<open>What a fill of the database in state \<open>st\<close> gives.\<close>

definition filled_window :: "fill_env \<Rightarrow> fill_run \<Rightarrow> bool filled \<Rightarrow> bool" where
  "filled_window E st out \<longleftrightarrow> (\<exists>res st' a' b'. out = Some (res, st') \<and> fill_inv (fillIngest E) a' b' (fill_db st') \<and>
     (\<forall>warned. res = Inr warned \<longrightarrow> (\<exists>t0 t. findLatest E (polled st) = Inr t0 \<and> findLatest E (polled st' - 1) = Inr t \<and>
        covers E (min (fill_window E) t0) (dsFirst (fillMeta st)) a' b' t)))"

lemma RunBackfill_ends:
  assumes v: "verifyDbGapless (fill_db st) = Inr q" and b: "setBounds E (fill_window E) st = (Inr bounds, st1)" "runBackfill E bounds st1 = Some (Inr bounds2, st2)"
    and t: "findLatest E (polled st) = Inr t0" and f: "frontfilled E (min (fill_window E) t0) (dsFirst (fillMeta st)) st2 (runFrontfill E bounds2 st2)"
  shows "filled_window E st (RunBackfill E st)"
proof -
  obtain res st' a' b' where out: "runFrontfill E bounds2 st2 = Some (res, st')" "fill_inv (fillIngest E) a' b' (fill_db st')"
    "\<And>bounds'. res = Inr bounds' \<Longrightarrow> \<exists>t. findLatest E (polled st' - 1) = Inr t \<and> covers E (min (fill_window E) t0) (dsFirst (fillMeta st)) a' b' t"
    using f unfolding frontfilled_def by blast
  obtain p where p: "verifyDbGapless (fill_db st') = Inr p" using verifyDbGapless_ok [OF out(2)] by blast
  obtain res' where "RunBackfill E st = Some (res', st')" "res' = Inr w \<Longrightarrow> \<exists>bounds'. res = Inr bounds'" for w
    using v b out(1) p by (cases res; cases p) (auto simp: RunBackfill_def)
  with out(2,3) t show ?thesis unfolding filled_window_def by metis
qed

text \<open>
  C22. Filling the database from the datastore always returns, and whatever fails it leaves a range of ledgers without a gap, with exactly their transactions and events. When it returns without an error, every
  ledger from the left edge of the retention window, or the oldest of the datastore, to the newest checkpoint (excluded) is in the database, although the datastore grows in the meantime. It is assumed that the
  first of the two forward iterations has something to fill, or that no checkpoint is reached between them.
\<close>

theorem RunBackfill_fills_window:
  assumes E: "fill_env_ok E" and m: "NewBackfillMeta E (svcDB (fillSvc st)) = Inr (fillMeta st)" and inv: "fill_inv (fillIngest E) a b (svcDB (fillSvc st))"
    and steady: "\<And>t0 t t'. findLatest E (polled st) = Inr t0 \<Longrightarrow> findLatest E (polled st + 1) = Inr t \<Longrightarrow> findLatest E (polled st + 2) = Inr t' \<Longrightarrow>
      front_start E (dsFirst (fillMeta st)) a b t0 < unat (prevCheckpoint E t) \<or> prevCheckpoint E t' = prevCheckpoint E t"
  shows "filled_window E st (RunBackfill E st)"
proof -
  obtain q where v: "verifyDbGapless (fill_db st) = Inr q" using verifyDbGapless_ok [OF inv] by blast
  let ?st1 = "st\<lparr>polled := Suc (polled st)\<rparr>" and ?ds = "dsFirst (fillMeta st)"
  show ?thesis
  proof (cases "findLatest E (polled st)")
    case (Inl e)
    then show ?thesis using v inv by (auto simp: filled_window_def RunBackfill_def setBounds_def poll_latest_def)
  next
    case t0: (Inr t0)
    let ?n = "min (fill_window E) t0"
    have inv1: "fill_inv (fillIngest E) a b (fill_db ?st1)" using inv by simp
    from setBounds_cases [OF E inv m t0] show ?thesis
    proof (elim disjE exE conjE)
      fix e assume "setBounds E (fill_window E) st = (Inl e, ?st1)"
      then show ?thesis using v inv by (auto simp: filled_window_def RunBackfill_def)
    next
      fix bounds assume b: "setBounds E (fill_window E) st = (Inr bounds, ?st1)" "unat (First (frontfill bounds)) = front_start E ?ds a b t0"
        and front: "\<not> needBackfillPhase bounds" "front_ready E ?n ?ds a b (First (frontfill bounds)) (Suc (polled st))"
      have "frontfilled E ?n ?ds ?st1 (frontfill_iterations E 2 bounds ?st1)"
        by (rule frontfill_two [OF E inv1]) (use front b(2) steady t0 in \<open>auto simp: word_less_nat_alt\<close>)
      then have "frontfilled E ?n ?ds ?st1 (runFrontfill E bounds ?st1)" using front(1) by (intro runFrontfill_fill) simp
      moreover have "runBackfill E bounds ?st1 = Some (Inr bounds, ?st1)" using front(1) by (simp add: runBackfill_def)
      ultimately show ?thesis using RunBackfill_ends [OF v b(1) _ t0] by blast
    next
      fix bounds assume b: "setBounds E (fill_window E) st = (Inr bounds, ?st1)" "nBackfill bounds = ?n" "unat (First (frontfill bounds)) = front_start E ?ds a b t0"
        and need: "needBackfillPhase bounds" "unat (Last (backfill bounds)) + 1 = a" "a < b" "unat (Last (backfill bounds)) < unat t0"
          "edge_ok E t0 ?n ?ds (Suc (polled st)) (First (backfill bounds))"
      obtain res st2 a2 where r: "runBackfill E bounds ?st1 = Some (res, st2)" and i2: "fill_inv (fillIngest E) a2 b (fill_db st2)" "a2 < b"
        and ok: "\<And>bounds'. res = Inr bounds' \<Longrightarrow> needBackfillPhase bounds' \<and> frontfill bounds' = frontfill bounds \<and>
          (\<forall>k t'. polled st2 \<le> k \<and> findLatest E k = Inr t' \<longrightarrow> a2 \<le> left_edge ?n ?ds t')"
        using runBackfill_fill [OF E inv1 need(1,3,2,4)] need(5) b(2) by auto
      show ?thesis
      proof (cases res)
        case (Inl e)
        then show ?thesis using v b(1) r i2 by (auto simp: filled_window_def RunBackfill_def)
      next
        case (Inr bounds2)
        have f: "unat (First (frontfill bounds2)) = b" using ok [OF Inr] b(3) need(3) by (simp add: front_start_def)
        have "front_ready E ?n ?ds a2 b (First (frontfill bounds2)) (polled st2)"
          using ok [OF Inr] f i2(2) by (auto simp: front_ready_def front_first_def word_less_nat_alt)
        from frontfill_last [OF E i2(1) this] have "frontfilled E ?n ?ds st2 (runFrontfill E bounds2 st2)"
          using ok [OF Inr] by (intro runFrontfill_fill) simp
        then show ?thesis using RunBackfill_ends [OF v b(1) _ t0] r Inr by blast
      qed
    qed
  qed
qed

end
