(* ===== verification/Backfill_Gap.thy ===== *)
theory Backfill_Gap
  imports Backfill_Props
begin

text \<open>
  The race in which the forward phase of a fill skips a ledger: when exactly one ledger is missing at its first iteration and a later checkpoint is there at the second.
\<close>

subsection \<open>A database without one ledger\<close>









subsection \<open>Ledgers after the gap\<close>











end
