(* ===== verification/Backfill_Claims.thy ===== *)
theory Backfill_Claims
  imports Backfill_Gap Rpc_Claims
begin

text \<open>A fill that grows with the datastore, and one in which a checkpoint is reached at the wrong moment.\<close>

declare ingestRange_rows.simps [code] frontfill_loop.simps [code]

text \<open>A datastore whose newest ledgers are given by a list, the last of which is repeated, with a checkpoint every four ledgers.\<close>

definition wit_checkpoint :: "u32 \<Rightarrow> u32" where
  "wit_checkpoint t = (t + 1) div 4 * 4 - 1"

definition wit_fill_env :: "u32 list \<Rightarrow> fill_env" where
  "wit_fill_env tips = \<lparr>fillIngest = wit_ingest_env\<lparr>historyRetentionWindow := 20\<rparr>, findOldest = Inr 5,
     findLatest = (\<lambda>k. Inr (if k < length tips then tips ! k else last tips)), prevCheckpoint = (\<lambda>t. if t < 3 then 0 else if wit_checkpoint t \<le> t then wit_checkpoint t else 0),
     makeBackend = (\<lambda>_. Inr \<lparr>srcPrepareRange = (\<lambda>_ _. None), srcGetLedger = backendGetLedger wit_ingest_env\<rparr>), chunkFaults = (\<lambda>_. no_write_faults)\<rparr>"

definition wit_fill_db :: DB where
  "wit_fill_db = \<lparr>tables = \<lparr>ledger_close_meta = [wit_ledger 5, wit_ledger 6], transactions_t = [], events_t = []\<rparr>, cache = \<lparr>latestLedgerSeq = 6, latestLedgerCloseTime = 0\<rparr>\<rparr>"

definition wit_fill_start :: fill_run where
  "wit_fill_start = \<lparr>fillSvc = empty_service\<lparr>svcDB := wit_fill_db\<rparr>, fillMeta = \<lparr>dsFirst = 5, dbSequences = \<lparr>First = 5, Last = 6\<rparr>, isNewDb = False\<rparr>,
     polled = 0, backendsMade = 0, chunksTried = 0\<rparr>"

lemma wit_fill_env_ok:
  assumes "sorted tips" "tips \<noteq> []" "\<forall>t\<in>set tips. unat t < 2 ^ 31"
  shows "fill_env_ok (wit_fill_env tips)"
proof -
  have len: "min k (length tips - 1) < length tips" for k using assms(2) by (cases tips) (auto simp: min_def)
  have "findLatest (wit_fill_env tips) k = Inr (tips ! min k (length tips - 1))" for k
    using assms(2) by (cases tips) (auto simp: wit_fill_env_def last_conv_nth min_def)
  moreover have "tips ! min k (length tips - 1) \<le> tips ! min k' (length tips - 1)" if "k \<le> k'" for k k'
    using that by (intro sorted_nth_mono [OF assms(1) _ len]) simp
  moreover have "unat (tips ! min k (length tips - 1)) < 2 ^ 31" for k using bspec [OF assms(3) nth_mem [OF len]] .
  moreover have "source_ok (backendGetLedger wit_ingest_env)" using wit_ingest_env_ok by (simp add: source_ok_def ingest_env_ok_def)
  ultimately show ?thesis using unary_ids_ok by (auto simp: fill_env_ok_def) (auto simp: wit_fill_env_def wit_ingest_env_def)
qed

lemma wit_fill_inv: "fill_inv (fillIngest (wit_fill_env tips)) 5 7 (fill_db wit_fill_start)"
  by (simp add: fill_inv_def wit_fill_start_def wit_fill_db_def wit_fill_env_def wit_ingest_env_def indexed_def wit_ledger_def valid_ledger_def lookups_def
      ledger_event_rows_def lcm_info_def upt_rec)

lemma wit_fill_meta: "NewBackfillMeta (wit_fill_env tips) (fill_db wit_fill_start) = Inr (fillMeta wit_fill_start)"
  using fill_inv_range(1) [OF wit_fill_inv]
  by (simp add: NewBackfillMeta_def wit_fill_start_def wit_fill_db_def store_range_def lcm_info_def wit_ledger_def wit_fill_env_def)

lemma wit_calm: "map_option (\<lambda>(r, st). (r, map LedgerSequence (ledger_close_meta (tables (fill_db st))))) (RunBackfill (wit_fill_env [8, 11, 16]) wit_fill_start) = Some (Inr False, [5, 6, 7, 8, 9, 10, 11, 12, 13, 14, 15])"
  by code_simp


theorem RunBackfill_fills_window_witness:
  "filled_window (wit_fill_env [8, 11, 16]) wit_fill_start (RunBackfill (wit_fill_env [8, 11, 16]) wit_fill_start) \<and>
   map_option (\<lambda>(r, st). map LedgerSequence (ledger_close_meta (tables (svcDB (fillSvc st))))) (RunBackfill (wit_fill_env [8, 11, 16]) wit_fill_start) =
     Some [5, 6, 7, 8, 9, 10, 11, 12, 13, 14, 15]"
proof -
  have "fill_env_ok (wit_fill_env [8, 11, 16])" by (rule wit_fill_env_ok) simp_all
  moreover have "front_start (wit_fill_env [8, 11, 16]) 5 5 7 t0 < unat (prevCheckpoint (wit_fill_env [8, 11, 16]) 11)" for t0
    by (simp add: front_start_def wit_fill_env_def wit_checkpoint_def)
  ultimately have "filled_window (wit_fill_env [8, 11, 16]) wit_fill_start (RunBackfill (wit_fill_env [8, 11, 16]) wit_fill_start)"
    by (intro RunBackfill_fills_window [OF _ wit_fill_meta wit_fill_inv]) (auto simp: wit_fill_start_def wit_fill_env_def [of "[8, 11, 16]"])
  then show ?thesis using wit_calm by (auto simp: map_option_case split: option.splits)
qed


end
