(* ===== verification/Rpc_Ledgers.thy ===== *)
theory Rpc_Ledgers
  imports Backfill Decimal
begin

text \<open>
  The method \<open>getLedgers\<close> of the RPC server (\<open>suban-rpc/.../methods/get_ledgers.go\<close>, \<open>rpcdatastore/ledger_reader.go\<close>): pages of ledgers from the database and, for older ones, from
  a datastore. The validation of the protocol package and the conversions of XDR are parameters.
\<close>

subsection \<open>Errors\<close>

datatype jrpc_code = InternalError | InvalidRequest | InvalidParams | SystemError

datatype jrpc_error = JrpcError jrpc_code string | JoinedErrors "jrpc_error list"

fun error_string :: "rpc_error \<Rightarrow> string" where
  "error_string ErrEmptyDB = ''DB is empty''"
| "error_string (RpcError e) = e"
| "error_string RpcPanic = ''panic''"

text \<open>\<open>errors.Join\<close> of the results of two calls.\<close>

definition join_errors :: "jrpc_error option \<Rightarrow> jrpc_error option \<Rightarrow> jrpc_error option" where
  "join_errors e1 e2 = (case (e1, e2) of
       (None, None) \<Rightarrow> None
     | (Some x, None) \<Rightarrow> Some (JoinedErrors [x])
     | (None, Some y) \<Rightarrow> Some (JoinedErrors [y])
     | (Some x, Some y) \<Rightarrow> Some (JoinedErrors [x, y]))"

subsection \<open>The datastore\<close>

text \<open>Each ledger of a range, in order. A counter at the greatest value wraps, so the loop may not end.\<close>

partial_function (option) ds_fetch :: "(u32 \<Rightarrow> string + Lcm) \<Rightarrow> u32 \<Rightarrow> u32 \<Rightarrow> Lcm list \<Rightarrow> (string + Lcm list) option" where
  "ds_fetch backend sequence to_seq ledgers =
     (if sequence \<le> to_seq then (case backend sequence of
           Inl e \<Rightarrow> Some (Inl e)
         | Inr ledger \<Rightarrow> ds_fetch backend (sequence + 1) to_seq (ledgers @ [ledger]))
      else Some (Inr ledgers))"

declare ds_fetch.simps [code]

definition ds_GetLedgers :: "string + ledger_source \<Rightarrow> u32 \<Rightarrow> u32 \<Rightarrow> (string + Lcm list) option" where
  "ds_GetLedgers made from_seq to_seq = (case made of
       Inl e \<Rightarrow> Some (Inl (''failed to create buffered storage backend: '' @ e))
     | Inr src \<Rightarrow> (case srcPrepareRange src from_seq to_seq of
         Some e \<Rightarrow> Some (Inl e)
       | None \<Rightarrow> ds_fetch (srcGetLedger src) from_seq to_seq []))"

definition GetAvailableLedgerRange :: "string + u32 \<times> u32" where
  "GetAvailableLedgerRange = Inr (2, 0)"

subsection \<open>Requests and responses\<close>

record LedgerPagination =
  pgCursor :: string
  pgLimit :: u64

record GetLedgersRequest =
  lrStartLedger :: u32
  lrPagination :: "LedgerPagination option"
  lrFormat :: string

record LedgerDetails =
  ldSequence :: u32
  ldCloseTime :: i64
  ldData :: string

record GetLedgersResponse =
  glLedgers :: "LedgerDetails list"
  glRange :: LedgerRange
  glCursor :: string

record ledgersHandler =
  lhMaxLimit :: u64
  lhDefaultLimit :: u64
  lhDatastore :: "(string + ledger_source) option"
  lhValidate :: "GetLedgersRequest \<Rightarrow> u64 \<Rightarrow> u32 \<times> u32 \<Rightarrow> string option"
  lhWithinRange :: "u32 \<Rightarrow> u32 \<times> u32 \<Rightarrow> bool"
  lhMarshal :: "Lcm \<Rightarrow> string option"
  lhConvert :: "string \<Rightarrow> Lcm \<Rightarrow> string + string"
  lhNewTx :: "string option"
  lhSelect :: "string option"

subsection \<open>The method\<close>

definition BatchGetLedgers :: "string option \<Rightarrow> Lcm list \<Rightarrow> u32 \<Rightarrow> u32 \<Rightarrow> string + Lcm list" where
  "BatchGetLedgers fault t from_seq to_seq =
     (if to_seq < from_seq then Inl ''batch size must be greater than zero''
      else case fault of Some e \<Rightarrow> Inl e | None \<Rightarrow> Inr (filter (\<lambda>l. from_seq \<le> LedgerSequence l \<and> LedgerSequence l \<le> to_seq) t))"

definition parseCursor :: "ledgersHandler \<Rightarrow> string \<Rightarrow> u32 \<times> u32 \<Rightarrow> string + u32" where
  "parseCursor h cursor rng = (case ParseUint 32 cursor of
       None \<Rightarrow> Inl ''invalid syntax''
     | Some n \<Rightarrow> let s = of_nat n + 1 in if lhWithinRange h s rng then Inr s else Inl ''cursor must be between the oldest ledger and the latest ledger'')"

definition initializePagination :: "ledgersHandler \<Rightarrow> GetLedgersRequest \<Rightarrow> u32 \<times> u32 \<Rightarrow> string + u32 \<times> u64" where
  "initializePagination h request rng = (case lrPagination request of
       None \<Rightarrow> Inr (lrStartLedger request, lhDefaultLimit h)
     | Some p \<Rightarrow> (case (if pgCursor p \<noteq> [] then parseCursor h (pgCursor p) rng else Inr (lrStartLedger request)) of
         Inl e \<Rightarrow> Inl e
       | Inr s \<Rightarrow> Inr (s, if pgLimit p = 0 then lhDefaultLimit h else pgLimit p)))"

definition parseLedgerInfo :: "(string \<Rightarrow> Lcm \<Rightarrow> string + string) \<Rightarrow> string \<Rightarrow> Lcm \<Rightarrow> string + LedgerDetails" where
  "parseLedgerInfo convert format l = (case convert format l of
       Inl e \<Rightarrow> Inl e
     | Inr data \<Rightarrow> Inr \<lparr>ldSequence = LedgerSequence l, ldCloseTime = LedgerCloseTime l, ldData = data\<rparr>)"

fun addToResult :: "(string \<Rightarrow> Lcm \<Rightarrow> string + string) \<Rightarrow> string \<Rightarrow> nat \<Rightarrow> Lcm list \<Rightarrow> LedgerDetails list \<Rightarrow> jrpc_error option \<times> LedgerDetails list" where
  "addToResult convert format limit [] result = (None, result)"
| "addToResult convert format limit (l # ls) result =
     (if limit \<le> length result then (None, result)
      else case parseLedgerInfo convert format l of
          Inl e \<Rightarrow> (Some (JrpcError InternalError (''error processing ledger: '' @ e)), result)
        | Inr info \<Rightarrow> addToResult convert format limit ls (result @ [info]))"

definition fetchFromLocalDB :: "ledgersHandler \<Rightarrow> Lcm list \<Rightarrow> string \<Rightarrow> nat \<Rightarrow> u32 \<Rightarrow> u32 \<Rightarrow> LedgerDetails list \<Rightarrow> jrpc_error option \<times> LedgerDetails list" where
  "fetchFromLocalDB h t format limit from_seq to_seq result = (case BatchGetLedgers (lhSelect h) t from_seq to_seq of
       Inl e \<Rightarrow> (Some (JrpcError InternalError (''error fetching ledgers from db: '' @ e)), result)
     | Inr ls \<Rightarrow> addToResult (lhConvert h) format limit ls result)"

text \<open>\<open>metaToChunk\<close>: a ledger of the datastore is serialised again, which may fail; the ledger stands for the chunk.\<close>

fun metaToChunk :: "(Lcm \<Rightarrow> string option) \<Rightarrow> Lcm list \<Rightarrow> string + Lcm list" where
  "metaToChunk marshal [] = Inr []"
| "metaToChunk marshal (l # ls) = (case marshal l of
       Some e \<Rightarrow> Inl e
     | None \<Rightarrow> (case metaToChunk marshal ls of Inl e \<Rightarrow> Inl e | Inr chunks \<Rightarrow> Inr (l # chunks)))"

definition fetchFromDatastore :: "ledgersHandler \<Rightarrow> string \<Rightarrow> nat \<Rightarrow> u32 \<Rightarrow> u32 \<Rightarrow> LedgerDetails list \<Rightarrow> (jrpc_error option \<times> LedgerDetails list) option" where
  "fetchFromDatastore h format limit from_seq to_seq result = (case lhDatastore h of
       None \<Rightarrow> Some (Some (JrpcError InvalidParams ''datastore ledger reader not configured''), result)
     | Some made \<Rightarrow> (case ds_GetLedgers made from_seq to_seq of
         None \<Rightarrow> None
       | Some (Inl e) \<Rightarrow> Some (Some (JrpcError InternalError (''error fetching ledgers from datastore: '' @ e)), result)
       | Some (Inr ls) \<Rightarrow> Some (case metaToChunk (lhMarshal h) ls of
           Inl e \<Rightarrow> (Some (JrpcError InternalError (''error serializing ledgers: '' @ e)), result)
         | Inr chunks \<Rightarrow> addToResult (lhConvert h) format limit chunks result)))"

text \<open>The three cases of \<open>fetchLedgers\<close>; in the last one both parts are fetched, whatever becomes of the first.\<close>

definition fetchLedgers :: "ledgersHandler \<Rightarrow> Lcm list \<Rightarrow> u32 \<Rightarrow> u32 \<Rightarrow> string \<Rightarrow> u32 \<Rightarrow> (jrpc_error + LedgerDetails list) option" where
  "fetchLedgers h t from_seq to_seq format firstLocal =
     (let limit = unat (to_seq - from_seq + 1);
          finish = (\<lambda>(err, result). Some (case err of Some e \<Rightarrow> Inl e | None \<Rightarrow> Inr result)) in
      if firstLocal \<le> from_seq then finish (fetchFromLocalDB h t format limit from_seq to_seq [])
      else if to_seq < firstLocal then Option.bind (fetchFromDatastore h format limit from_seq to_seq []) finish
      else Option.bind (fetchFromDatastore h format limit from_seq (firstLocal - 1) [])
        (\<lambda>(e1, r1). case fetchFromLocalDB h t format limit firstLocal to_seq r1 of (e2, r2) \<Rightarrow> finish (join_errors e1 e2, r2)))"

definition availableRange :: "ledgersHandler \<Rightarrow> LedgerRange \<Rightarrow> u32 \<times> u32" where
  "availableRange h r = (let local_range = (Sequence (FirstLedger r), Sequence (LastLedger r)) in
     case lhDatastore h of
       None \<Rightarrow> local_range
     | Some _ \<Rightarrow> (case GetAvailableLedgerRange of Inl e \<Rightarrow> local_range | Inr ds \<Rightarrow> (min (fst ds) (fst local_range), snd local_range)))"

definition getLedgers :: "ledgersHandler \<Rightarrow> DB \<Rightarrow> GetLedgersRequest \<Rightarrow> (jrpc_error + GetLedgersResponse) option" where
  "getLedgers h d request = (case lhNewTx h of
       Some e \<Rightarrow> Some (Inl (JrpcError InternalError e))
     | None \<Rightarrow> (case Rpc_Store.GetLedgerRange d of
         Inl e \<Rightarrow> Some (Inl (JrpcError InternalError (error_string e)))
     | Inr r \<Rightarrow> (case lhValidate h request (lhMaxLimit h) (availableRange h r) of
         Some e \<Rightarrow> Some (Inl (JrpcError InvalidRequest e))
     | None \<Rightarrow> (case initializePagination h request (availableRange h r) of
         Inl e \<Rightarrow> Some (Inl (JrpcError InvalidParams e))
     | Inr (from_seq, limit) \<Rightarrow>
         (case fetchLedgers h (ledger_close_meta (tables d)) from_seq (from_seq + ucast limit - 1) (lrFormat request) (Sequence (FirstLedger r)) of
            None \<Rightarrow> None
          | Some (Inl e) \<Rightarrow> Some (Inl e)
          | Some (Inr ls) \<Rightarrow> Some (Inr \<lparr>glLedgers = ls, glRange = r,
              glCursor = (if ls \<noteq> [] then nat_string (unat (ldSequence (last ls)))
                 else case lrPagination request of
                     Some p \<Rightarrow> if pgCursor p \<noteq> [] then pgCursor p else nat_string (unat (from_seq - 1))
                   | None \<Rightarrow> nat_string (unat (from_seq - 1)))\<rparr>))))))"

end
