(* ===== verification/Rpc_Transactions.thy ===== *)
theory Rpc_Transactions
  imports Rpc_Ledgers Hex
begin

text \<open>
  The methods \<open>getTransactions\<close> and \<open>getTransaction\<close> of the RPC server (\<open>suban-rpc/.../methods/get_transactions.go\<close>, \<open>get_transaction.go\<close>, \<open>db/transaction.go\<close>): pages of
  transactions from a position in the history on, and a transaction by its hash. The TOID and protocol packages, the transaction reader of the SDK and the encodings are parameters.
\<close>

subsection \<open>Positions\<close>

text \<open>An \<open>int32\<close> is an integer that \<open>i32\<close> brings into its range.\<close>

definition i32 :: "int \<Rightarrow> int" where
  "i32 i = signed_take_bit 31 i"

definition uint32ToInt32 :: "u32 \<Rightarrow> int option" where
  "uint32ToInt32 v = (if uint v < 2 ^ 31 then Some (uint v) else None)"

record toid =
  toLedger :: int
  toTx :: int
  toOp :: int

subsection \<open>Reading transactions\<close>

datatype seek = SeekOk nat | SeekEOF | SeekError string

record tx_pkg =
  tpSeek :: "Lcm \<Rightarrow> int \<Rightarrow> seek"
  tpParseToid :: "int \<Rightarrow> toid"
  tpPrintToid :: "toid \<Rightarrow> string"
  tpEncode :: "RpcTx \<Rightarrow> string + string"
  tpConvert :: "string \<Rightarrow> string \<Rightarrow> string + string"

record RpcTransaction =
  rxHash :: string
  rxApplicationOrder :: int
  rxFeeBump :: bool
  rxSuccessful :: bool
  rxLedger :: LedgerInfo
  rxData :: string

definition ParseTransaction :: "tx_pkg \<Rightarrow> Lcm \<Rightarrow> RpcTx \<Rightarrow> string + RpcTransaction" where
  "ParseTransaction P l tx = (case uint32ToInt32 (rtIndex tx) of
       None \<Rightarrow> Inl ''transaction index exceeds supported range''
     | Some order \<Rightarrow> (case tpEncode P tx of
         Inl e \<Rightarrow> Inl e
       | Inr data \<Rightarrow> Inr \<lparr>rxHash = rtHash tx, rxApplicationOrder = order, rxFeeBump = (rtInnerHash tx \<noteq> None), rxSuccessful = rtSuccessful tx, rxLedger = lcm_info l, rxData = data\<rparr>))"

record TransactionInfo =
  tiHash :: string
  tiApplicationOrder :: int
  tiFeeBump :: bool
  tiLedger :: u32
  tiCloseTime :: i64
  tiSuccess :: bool
  tiData :: string

definition transactionInfo :: "tx_pkg \<Rightarrow> string \<Rightarrow> RpcTransaction \<Rightarrow> string + TransactionInfo" where
  "transactionInfo P format tx = (case tpConvert P format (rxData tx) of
       Inl e \<Rightarrow> Inl e
     | Inr data \<Rightarrow> Inr \<lparr>tiHash = rxHash tx, tiApplicationOrder = rxApplicationOrder tx, tiFeeBump = rxFeeBump tx, tiLedger = Sequence (rxLedger tx),
         tiCloseTime = CloseTime (rxLedger tx), tiSuccess = rxSuccessful tx, tiData = data\<rparr>)"

subsection \<open>A page\<close>

record TxRequest =
  trqStartLedger :: u32
  trqPagination :: "LedgerPagination option"
  trqFormat :: string

record TxResponse =
  trsTransactions :: "TransactionInfo list"
  trsRange :: LedgerRange
  trsCursor :: string

record transactionsHandler =
  thMaxLimit :: u64
  thDefaultLimit :: u64
  thPkg :: tx_pkg
  thIsValid :: "TxRequest \<Rightarrow> u64 \<Rightarrow> u32 \<times> u32 \<Rightarrow> string option"
  thNewTx :: "string option"
  thSelect :: "string option"

definition tx_initializePagination :: "transactionsHandler \<Rightarrow> TxRequest \<Rightarrow> jrpc_error + toid \<times> u64" where
  "tx_initializePagination h request = (case uint32ToInt32 (trqStartLedger request) of
       None \<Rightarrow> Inl (JrpcError InvalidParams ''startLedger exceeds supported range'')
     | Some l \<Rightarrow> let from_pos = \<lparr>toLedger = l, toTx = 1, toOp = 1\<rparr> in
         (case trqPagination request of
            None \<Rightarrow> Inr (from_pos, thDefaultLimit h)
          | Some p \<Rightarrow> (case (if pgCursor p \<noteq> [] then map_option (\<lambda>i. let t = tpParseToid (thPkg h) i in t\<lparr>toTx := i32 (toTx t + 1)\<rparr>) (ParseInt 64 (pgCursor p)) else Some from_pos) of
              None \<Rightarrow> Inl (JrpcError InvalidParams ''invalid syntax'')
            | Some t \<Rightarrow> Inr (t, if 0 < pgLimit p then pgLimit p else thDefaultLimit h))))"

definition fetchLedgerData :: "transactionsHandler \<Rightarrow> Lcm list \<Rightarrow> u32 \<Rightarrow> jrpc_error + Lcm" where
  "fetchLedgerData h t seq = (case thSelect h of
       Some e \<Rightarrow> Inl (JrpcError InternalError e)
     | None \<Rightarrow> (case getLedgerFromDB t seq of
         Inl e \<Rightarrow> Inl (JrpcError InternalError (error_string e))
       | Inr None \<Rightarrow> Inl (JrpcError InvalidParams ''database does not contain metadata for ledger'')
       | Inr (Some l) \<Rightarrow> Inr l))"

text \<open>
  The loop over the transactions of a ledger: \<open>reads\<close> are the results of the reader from its position on, \<open>i\<close> the index of the transaction. It returns the order of the cursor, and
  whether the page is full.
\<close>

fun process_txs :: "tx_pkg \<Rightarrow> string \<Rightarrow> Lcm \<Rightarrow> nat \<Rightarrow> int \<Rightarrow> (string + RpcTx) list \<Rightarrow> int \<Rightarrow> nat \<Rightarrow> TransactionInfo list \<Rightarrow> jrpc_error + int \<times> bool \<times> TransactionInfo list" where
  "process_txs P format l limit i reads order 0 txns = Inr (order, False, txns)"
| "process_txs P format l limit i [] order (Suc k) txns = Inr (i32 i, False, txns)"
| "process_txs P format l limit i (Inl e # rs) order (Suc k) txns = Inl (JrpcError InvalidParams e)"
| "process_txs P format l limit i (Inr tx # rs) order (Suc k) txns = (case ParseTransaction P l tx of
       Inl e \<Rightarrow> Inl (JrpcError InternalError e)
     | Inr t \<Rightarrow> (case transactionInfo P format t of
         Inl e \<Rightarrow> Inl (JrpcError InternalError e)
       | Inr info \<Rightarrow> let txns' = txns @ [info] in
           if limit \<le> length txns' then Inr (i32 i, True, txns')
           else process_txs P format l limit (i + 1) rs (i32 i) k txns'))"

definition processTransactionsInLedger ::
  "tx_pkg \<Rightarrow> Lcm \<Rightarrow> toid \<Rightarrow> TransactionInfo list \<Rightarrow> u64 \<Rightarrow> string \<Rightarrow> jrpc_error + toid \<times> bool \<times> TransactionInfo list" where
  "processTransactionsInLedger P l from_pos txns limit format =
     (if 2 ^ 63 \<le> unat limit then Inl (JrpcError InvalidParams ''value out of range'')
      else case TxReader l of
        Inl e \<Rightarrow> Inl (JrpcError InternalError e)
      | Inr reads \<Rightarrow> (case uint32ToInt32 (LedgerSequence l) of
          None \<Rightarrow> Inl (JrpcError InternalError ''ledger sequence exceeds supported range'')
        | Some seq \<Rightarrow>
            (case (if seq = toLedger from_pos then (case tpSeek P l (toTx from_pos - 1) of
                     SeekError e \<Rightarrow> Inl e | SeekEOF \<Rightarrow> Inr (toTx from_pos, reads) | SeekOk k \<Rightarrow> Inr (toTx from_pos, drop k reads))
                   else Inr (1, reads)) of
               Inl e \<Rightarrow> Inl (JrpcError InternalError e)
             | Inr (startTxIdx, rest) \<Rightarrow>
                 (case process_txs P format l (unat limit) startTxIdx rest 0 (nat (int (CountTransactions l) + 1 - startTxIdx)) txns of
                    Inl e \<Rightarrow> Inl e
                  | Inr (order, full, txns') \<Rightarrow> Inr (\<lparr>toLedger = seq, toTx = order, toOp = 1\<rparr>, full, txns')))))"

text \<open>The loop over the ledgers, up to the latest one.\<close>

partial_function (option) process_ledgers ::
  "transactionsHandler \<Rightarrow> Lcm list \<Rightarrow> toid \<Rightarrow> u64 \<Rightarrow> string \<Rightarrow> int \<Rightarrow> int \<Rightarrow> toid \<Rightarrow> TransactionInfo list \<Rightarrow> (jrpc_error + toid \<times> TransactionInfo list) option" where
  "process_ledgers h t from_pos limit format seq last_seq cursor txns =
     (if \<not> seq \<le> last_seq then Some (Inr (cursor, txns))
      else if seq < 0 then Some (Inl (JrpcError InvalidParams ''cursor ledger sequence cannot be negative''))
      else (case fetchLedgerData h t (word_of_int seq) of
          Inl e \<Rightarrow> Some (Inl e)
        | Inr l \<Rightarrow> (case processTransactionsInLedger (thPkg h) l from_pos txns limit format of
            Inl e \<Rightarrow> Some (Inl e)
          | Inr (cursor', full, txns') \<Rightarrow> if full then Some (Inr (cursor', txns'))
              else process_ledgers h t from_pos limit format (i32 (seq + 1)) last_seq cursor' txns')))"

declare process_ledgers.simps [code]

definition getTransactionsByLedgerSequence :: "transactionsHandler \<Rightarrow> DB \<Rightarrow> TxRequest \<Rightarrow> (jrpc_error + TxResponse) option" where
  "getTransactionsByLedgerSequence h d request = (case thNewTx h of
       Some e \<Rightarrow> Some (Inl (JrpcError InternalError e))
     | None \<Rightarrow> (case Rpc_Store.GetLedgerRange d of
         Inl e \<Rightarrow> Some (Inl (JrpcError InternalError (error_string e)))
     | Inr r \<Rightarrow> (case thIsValid h request (thMaxLimit h) (Sequence (FirstLedger r), Sequence (LastLedger r)) of
         Some e \<Rightarrow> Some (Inl (JrpcError InvalidRequest e))
     | None \<Rightarrow> (case tx_initializePagination h request of
         Inl e \<Rightarrow> Some (Inl e)
     | Inr (from_pos, limit) \<Rightarrow>
         (case process_ledgers h (ledger_close_meta (tables d)) from_pos limit (trqFormat request) (toLedger from_pos) (i32 (uint (Sequence (LastLedger r)))) \<lparr>toLedger = 0, toTx = 0, toOp = 0\<rparr> [] of
            None \<Rightarrow> None
          | Some (Inl e) \<Rightarrow> Some (Inl e)
          | Some (Inr (cursor, txns)) \<Rightarrow> Some (Inr \<lparr>trsTransactions = txns, trsRange = r, trsCursor = tpPrintToid (thPkg h) cursor\<rparr>))))))"

subsection \<open>A transaction by its hash\<close>

datatype tx_lookup_error = ErrNoTransaction | TxLookupError string

definition db_getTransactionByHash :: "tx_pkg \<Rightarrow> rpc_tables \<Rightarrow> string \<Rightarrow> tx_lookup_error + Lcm \<times> RpcTx" where
  "db_getTransactionByHash P w h = (case getTransactionByHash w h of
       None \<Rightarrow> Inl ErrNoTransaction
     | Some (l, txIndex) \<Rightarrow> (case TxReader l of
         Inl e \<Rightarrow> Inl (TxLookupError (''failed to create ledger reader: '' @ e))
       | Inr reads \<Rightarrow> (case tpSeek P l (uint txIndex - 1) of
           SeekError e \<Rightarrow> Inl (TxLookupError e)
         | SeekEOF \<Rightarrow> Inl (TxLookupError ''EOF'')
         | SeekOk k \<Rightarrow> (case drop k reads of
             [] \<Rightarrow> Inl (TxLookupError ''EOF'')
           | Inl e # _ \<Rightarrow> Inl (TxLookupError e)
           | Inr tx # _ \<Rightarrow> Inr (l, tx)))))"

definition db_GetTransaction :: "tx_pkg \<Rightarrow> rpc_tables \<Rightarrow> string \<Rightarrow> tx_lookup_error + RpcTransaction" where
  "db_GetTransaction P w h = (case db_getTransactionByHash P w h of
       Inl e \<Rightarrow> Inl e
     | Inr (l, tx) \<Rightarrow> (case ParseTransaction P l tx of Inl e \<Rightarrow> Inl (TxLookupError e) | Inr t \<Rightarrow> Inr t))"

datatype tx_status = TxNotFound | TxFailed | TxSuccess

record GetTxResponse =
  gtStatus :: tx_status
  gtRange :: LedgerRange
  gtHash :: string
  gtInfo :: "TransactionInfo option"

text \<open>The bytes of a hash as it is stored.\<close>

definition hash_string :: "8 word list \<Rightarrow> string" where
  "hash_string bs = map (\<lambda>b. char_of (unat b)) bs"

text \<open>
  \<open>GetTransaction\<close>: the transaction is read first (from \<open>d\<close>), and then the range of ledgers (from \<open>d'\<close>); ledgers may be ingested in between.
\<close>

definition GetTransaction :: "tx_pkg \<Rightarrow> (string \<Rightarrow> string option) \<Rightarrow> DB \<Rightarrow> DB \<Rightarrow> string \<Rightarrow> string \<Rightarrow> jrpc_error + GetTxResponse" where
  "GetTransaction P isValidFormat d d' hash format = (case isValidFormat format of
       Some e \<Rightarrow> Inl (JrpcError InvalidParams e)
     | None \<Rightarrow>
       if length hash div 2 \<noteq> 32 then Inl (JrpcError InvalidParams ''unexpected hash length'')
       else case hex_decode hash of
         None \<Rightarrow> Inl (JrpcError InvalidParams ''incorrect hash'')
       | Some h \<Rightarrow> (case Rpc_Store.GetLedgerRange d' of
         Inl e \<Rightarrow> Inl (JrpcError InternalError (''unable to get ledger range: '' @ error_string e))
     | Inr r \<Rightarrow> (case db_GetTransaction P (tables d) (hash_string h) of
         Inl ErrNoTransaction \<Rightarrow> Inr \<lparr>gtStatus = TxNotFound, gtRange = r, gtHash = hash, gtInfo = None\<rparr>
       | Inl (TxLookupError e) \<Rightarrow> Inl (JrpcError InternalError e)
       | Inr t \<Rightarrow> (case transactionInfo P format t of
           Inl e \<Rightarrow> Inl (JrpcError InternalError e)
         | Inr info \<Rightarrow> Inr \<lparr>gtStatus = (if rxSuccessful t then TxSuccess else TxFailed), gtRange = r, gtHash = hash, gtInfo = Some info\<rparr>))))"

end
