(* ===== verification/Rpc_Ledger_Pages.thy ===== *)
theory Rpc_Ledger_Pages
  imports Rpc_Ledgers Page_Query Rpc_Claims
begin

text \<open>The pages of \<open>getLedgers\<close>, over the database and the datastore, visit every ledger once.\<close>

subsection \<open>Ranges of ledgers\<close>

text \<open>
  A query: the handler, the database, and all ledgers that the handler serves, those of the database and, with a datastore, older ones; where a client starts, and the limit and format it
  asks for.
\<close>

record ledgers_query =
  qHandler :: ledgersHandler
  qDB :: DB
  qWhole :: "Lcm list"
  qStart :: u32
  qLimit :: u64
  qFormat :: string

definition seq_from :: "u32 \<Rightarrow> Lcm list \<Rightarrow> Lcm list" where
  "seq_from n t = filter (\<lambda>l. n \<le> LedgerSequence l) t"

definition seq_between :: "u32 \<Rightarrow> u32 \<Rightarrow> Lcm list \<Rightarrow> Lcm list" where
  "seq_between a b t = filter (\<lambda>l. a \<le> LedgerSequence l \<and> LedgerSequence l \<le> b) t"

text \<open>What the protocol package promises: a request for a page within the limit, whose start is in range or given by a cursor, is valid.\<close>

definition protocol_ok :: "ledgersHandler \<Rightarrow> string \<Rightarrow> bool" where
  "protocol_ok h format \<longleftrightarrow> (\<forall>s rng. lhWithinRange h s rng \<longleftrightarrow> fst rng \<le> s \<and> s \<le> snd rng) \<and>
     (\<forall>s cursor limit rng. limit \<le> lhMaxLimit h \<and> (cursor = [] \<and> lhWithinRange h s rng \<or> cursor \<noteq> [] \<and> s = 0) \<longrightarrow>
        lhValidate h \<lparr>lrStartLedger = s, lrPagination = Some \<lparr>pgCursor = cursor, pgLimit = limit\<rparr>, lrFormat = format\<rparr> (lhMaxLimit h) rng = None)"

lemma protocol_valid:
  "protocol_ok h format \<Longrightarrow> limit \<le> lhMaxLimit h \<Longrightarrow> cursor = [] \<and> lhWithinRange h s rng \<or> cursor \<noteq> [] \<and> s = 0 \<Longrightarrow>
    lhValidate h \<lparr>lrStartLedger = s, lrPagination = Some \<lparr>pgCursor = cursor, pgLimit = limit\<rparr>, lrFormat = format\<rparr> (lhMaxLimit h) rng = None"
  unfolding protocol_ok_def by (elim conjE allE [of _ s] allE [of _ cursor] allE [of _ limit] allE [of _ rng]) simp

definition source_has :: "ledgersHandler \<Rightarrow> Lcm list \<Rightarrow> bool" where
  "source_has h ls \<longleftrightarrow> (\<exists>src. lhDatastore h = Some (Inr src) \<and> (\<forall>a b. srcPrepareRange src a b = None) \<and> (\<forall>l\<in>set ls. srcGetLedger src (LedgerSequence l) = Inr l \<and> lhMarshal h l = None))"

text \<open>The details of a ledger that can be converted.\<close>

definition details :: "ledgersHandler \<Rightarrow> string \<Rightarrow> Lcm \<Rightarrow> LedgerDetails" where
  "details h format l = \<lparr>ldSequence = LedgerSequence l, ldCloseTime = LedgerCloseTime l, ldData = (case lhConvert h format l of Inr x \<Rightarrow> x | Inl e \<Rightarrow> [])\<rparr>"

definition query_ok :: "ledgers_query \<Rightarrow> bool" where
  "query_ok q \<longleftrightarrow> (let h = qHandler q; t = ledger_close_meta (tables (qDB q)); whole = qWhole q; first = LedgerSequence (hd t) in
     t \<noteq> [] \<and> gapless whole \<and> cache_ok (qDB q) \<and> (\<forall>l\<in>set whole. 2 \<le> LedgerSequence l \<and> unat (LedgerSequence l) < 2 ^ 31) \<and>
     t = seq_from first whole \<and> (hd whole \<noteq> hd t \<longrightarrow> source_has h whole) \<and> qStart q \<in> LedgerSequence ` set whole \<and>
     0 < qLimit q \<and> qLimit q \<le> lhMaxLimit h \<and> unat (lhMaxLimit h) < 2 ^ 31 \<and> protocol_ok h (qFormat q) \<and> lhNewTx h = None \<and> lhSelect h = None \<and>
     (\<forall>l\<in>set whole. \<exists>x. lhConvert h (qFormat q) l = Inr x))"

lemma seqs_Cons: "seqs (x # t) = [lo..<b] \<Longrightarrow> unat (LedgerSequence x) = lo \<and> seqs t = [Suc lo..<b]"
  using upt_eq_Cons_conv [of lo b "unat (LedgerSequence x)" "seqs t"] by auto

lemma seqs_filter_ge: "seqs t = [lo..<b] \<Longrightarrow> filter (\<lambda>l. c \<le> unat (LedgerSequence l)) t = drop (c - lo) t"
proof (induction t arbitrary: lo)
  case (Cons x t)
  note x = conjunct1 [OF seqs_Cons [OF Cons.prems]] conjunct2 [OF seqs_Cons [OF Cons.prems]]
  have "filter (\<lambda>l. c \<le> unat (LedgerSequence l)) t = drop (c - Suc lo) t" by (rule Cons.IH [OF x(2)])
  with x(1) show ?case by (cases "c \<le> lo") (auto simp: Suc_diff_Suc [symmetric])
qed simp

lemma seqs_filter_le: "seqs t = [lo..<b] \<Longrightarrow> filter (\<lambda>l. unat (LedgerSequence l) \<le> e) t = take (e + 1 - lo) t"
proof (induction t arbitrary: lo)
  case (Cons x t)
  note x = conjunct1 [OF seqs_Cons [OF Cons.prems]] conjunct2 [OF seqs_Cons [OF Cons.prems]]
  have "filter (\<lambda>l. unat (LedgerSequence l) \<le> e) t = take (e + 1 - Suc lo) t" by (rule Cons.IH [OF x(2)])
  with x(1) show ?case by (cases "lo \<le> e") (auto simp: Suc_diff_le)
qed simp

lemma seqs_drop: "seqs t = [lo..<b] \<Longrightarrow> seqs (drop k t) = [lo + k..<b]"
  by (simp add: seqs_def drop_map [symmetric] flip: drop_upt)

lemma seq_between_take:
  assumes "seqs t = [lo..<b]" "lo \<le> unat f"
  shows "seq_between f e t = take (unat e + 1 - unat f) (seq_from f t)"
proof -
  have d: "seq_from f t = drop (unat f - lo) t" using seqs_filter_ge [OF assms(1)] by (simp add: seq_from_def word_le_nat_alt)
  have "seq_between f e t = filter (\<lambda>l. unat (LedgerSequence l) \<le> unat e) (seq_from f t)" by (simp add: seq_between_def seq_from_def word_le_nat_alt conj_commute)
  also have "\<dots> = take (unat e + 1 - unat f) (seq_from f t)"
    unfolding d using seqs_filter_le [OF seqs_drop [OF assms(1)], of "unat e" "unat f - lo"] assms(2) by simp
  finally show ?thesis .
qed

lemma seq_from_step:
  assumes "seqs t = [lo..<b]" "lo \<le> unat f" "unat f < b" "b \<le> 2 ^ 31"
  shows "\<exists>l. l \<in> set t \<and> LedgerSequence l = f \<and> seq_from f t = l # seq_from (f + 1) t"
proof -
  have f1: "unat (f + 1) = unat f + 1" using assms(3,4) by (simp add: unat_add_no_wrap)
  have d: "seq_from f t = drop (unat f - lo) t" "seq_from (f + 1) t = drop (Suc (unat f - lo)) t"
    using seqs_filter_ge [OF assms(1)] assms(2) by (simp_all add: seq_from_def word_le_nat_alt f1 Suc_diff_le)
  have k: "unat f - lo < length t" using arg_cong [OF assms(1), of length] assms(2,3) by simp
  have "unat (LedgerSequence (t ! (unat f - lo))) = [lo..<b] ! (unat f - lo)" using k by (simp flip: assms(1) add: seqs_def)
  also have "\<dots> = unat f" using k assms(2,3) by (simp add: nth_upt)
  finally have "LedgerSequence (t ! (unat f - lo)) = f" by (simp add: word_unat_eq_iff)
  with k d show ?thesis by (metis Cons_nth_drop_Suc nth_mem)
qed

lemma ds_fetch_between:
  assumes t: "seqs t = [lo..<b]" "b \<le> 2 ^ 31" and src: "\<And>l. l \<in> set t \<Longrightarrow> get (LedgerSequence l) = Inr l"
  shows "lo \<le> unat f \<Longrightarrow> unat e < b \<Longrightarrow> ds_fetch get f e acc = Some (Inr (acc @ seq_between f e t))"
proof (induction "unat e + 1 - unat f" arbitrary: f acc)
  case 0
  then have "\<not> f \<le> e" "unat e + 1 - unat f = 0" by (simp_all add: word_le_nat_alt)
  then show ?case using seq_between_take [OF t(1) 0(2)] by (subst ds_fetch.simps) simp
next
  case (Suc k)
  then have fe: "unat f \<le> unat e" by simp
  obtain l where l: "l \<in> set t" "LedgerSequence l = f" "seq_from f t = l # seq_from (f + 1) t" using seq_from_step [OF t(1) Suc(3) _ t(2)] fe Suc(4) by auto
  have f1: "unat (f + 1) = unat f + 1" using fe Suc(4) t(2) by (simp add: unat_add_no_wrap)
  have "ds_fetch get f e acc = ds_fetch get (f + 1) e (acc @ [l])" using fe src [OF l(1)] l(2) by (subst ds_fetch.simps) (simp add: word_le_nat_alt)
  also have "\<dots> = Some (Inr ((acc @ [l]) @ seq_between (f + 1) e t))" by (rule Suc(1)) (use Suc(2-4) f1 in simp_all)
  also have "(acc @ [l]) @ seq_between (f + 1) e t = acc @ seq_between f e t"
    using seq_between_take [OF t(1) Suc(3)] seq_between_take [OF t(1), of "f + 1"] l(3) f1 Suc(3) fe by (simp add: Suc_diff_le)
  finally show ?case .
qed

lemma metaToChunk_all: "\<forall>l\<in>set ls. marshal l = None \<Longrightarrow> metaToChunk marshal ls = Inr ls"
  by (induction ls) simp_all

lemma addToResult_all:
  "length result + length ls \<le> limit \<Longrightarrow> \<forall>l\<in>set ls. \<exists>x. lhConvert h format l = Inr x \<Longrightarrow>
    addToResult (lhConvert h) format limit ls result = (None, result @ map (details h format) ls)"
proof (induction ls arbitrary: result)
  case (Cons l ls)
  then obtain x where "lhConvert h format l = Inr x" by auto
  with Cons show ?case by (auto simp: parseLedgerInfo_def details_def)
qed simp

subsection \<open>One page\<close>

lemma query_range:
  assumes "query_ok q"
  obtains lo b where "seqs (qWhole q) = [lo..<b]" "b \<le> 2 ^ 31" "2 \<le> lo" "lo \<le> unat (LedgerSequence (hd (ledger_close_meta (tables (qDB q)))))"
    "unat (LedgerSequence (hd (ledger_close_meta (tables (qDB q))))) < b" "unat (LedgerSequence (last (ledger_close_meta (tables (qDB q))))) + 1 = b"
    "GetLedgerRange (qDB q) = Inr (store_range (ledger_close_meta (tables (qDB q))))" "lo \<le> unat (qStart q)" "unat (qStart q) < b"
    "hd (qWhole q) \<noteq> hd (ledger_close_meta (tables (qDB q))) \<longleftrightarrow> lo < unat (LedgerSequence (hd (ledger_close_meta (tables (qDB q)))))"
proof -
  let ?t = "ledger_close_meta (tables (qDB q))" and ?w = "qWhole q"
  have q: "?t \<noteq> []" "gapless ?w" "cache_ok (qDB q)" "\<forall>l\<in>set ?w. 2 \<le> LedgerSequence l \<and> unat (LedgerSequence l) < 2 ^ 31"
    "?t = seq_from (LedgerSequence (hd ?t)) ?w" "qStart q \<in> LedgerSequence ` set ?w" using assms by (simp_all add: query_ok_def Let_def)
  obtain lo where lo: "seqs ?w = [lo..<lo + length ?w]" using q(2) by (rule gaplessE)
  have mem: "hd ?t \<in> set ?w" "last ?t \<in> set ?w" using q(1,5) unfolding seq_from_def by (metis filter_is_subset hd_in_set last_in_set subsetD)+
  have ne: "?w \<noteq> []" using mem by auto
  have set: "lo \<le> unat (LedgerSequence l) \<and> unat (LedgerSequence l) < lo + length ?w" if "l \<in> set ?w" for l
  proof -
    have "unat (LedgerSequence l) \<in> set (seqs ?w)" using that by (simp add: seqs_def)
    then show ?thesis unfolding lo by simp
  qed
  have hdw: "unat (LedgerSequence (hd ?w)) = lo" using seqs_Cons [of "hd ?w" "tl ?w" lo] lo ne by auto
  have b: "unat (LedgerSequence (last ?w)) + 1 = lo + length ?w" using last_seqs [OF lo ne] by simp
  have t: "seqs ?t = [max lo (unat (LedgerSequence (hd ?t)))..<lo + length ?w]"
  proof -
    have "?t = drop (unat (LedgerSequence (hd ?t)) - lo) ?w"
      by (subst q(5)) (use seqs_filter_ge [OF lo, of "unat (LedgerSequence (hd ?t))"] in \<open>simp add: seq_from_def word_le_nat_alt\<close>)
    then have "seqs ?t = [lo + (unat (LedgerSequence (hd ?t)) - lo)..<lo + length ?w]" using seqs_drop [OF lo] by metis
    then show ?thesis by (simp add: max_def)
  qed
  show thesis
  proof (rule that [OF lo])
    show "lo + length ?w \<le> 2 ^ 31" using q(4) b ne by (metis last_in_set less_eq_Suc_le Suc_eq_plus1)
    have "2 \<le> LedgerSequence (hd ?w)" using q(4) ne by simp
    then show "2 \<le> lo" using hdw by (simp add: word_le_nat_alt)
    show "lo \<le> unat (LedgerSequence (hd ?t))" "unat (LedgerSequence (hd ?t)) < lo + length ?w" using set [OF mem(1)] by simp_all
    show "unat (LedgerSequence (last ?t)) + 1 = lo + length ?w" using last_seqs [OF t q(1)] by simp
    show "GetLedgerRange (qDB q) = Inr (store_range ?t)" using GetLedgerRange_range [OF gaplessI [OF t] q(3)] q(1) by simp
    show "lo \<le> unat (qStart q)" "unat (qStart q) < lo + length ?w" using q(6) set by auto
    show "hd ?w \<noteq> hd ?t \<longleftrightarrow> lo < unat (LedgerSequence (hd ?t))"
    proof
      assume "lo < unat (LedgerSequence (hd ?t))" then show "hd ?w \<noteq> hd ?t" using hdw by auto
    next
      assume "hd ?w \<noteq> hd ?t"
      moreover have "seq_from (LedgerSequence (hd ?t)) ?w = ?w" if "unat (LedgerSequence (hd ?t)) = lo"
        using seqs_filter_ge [OF lo, of lo] that by (simp add: seq_from_def word_le_nat_alt)
      ultimately show "lo < unat (LedgerSequence (hd ?t))" using q(5) set [OF mem(1)] by (metis le_neq_implies_less)
    qed
  qed
qed

lemma seq_between_split:
  assumes "seqs t = [lo..<b]" "lo \<le> unat f" "f < m" "m \<le> e"
  shows "seq_between f (m - 1) t @ seq_between m e t = seq_between f e t"
proof -
  have m: "unat (m - 1) = unat m - 1" using assms(3) by (simp add: unat_sub_no_wrap word_less_nat_alt word_le_nat_alt)
  have d: "seq_from m t = drop (unat m - unat f) (seq_from f t)"
    using seqs_filter_ge [OF assms(1)] assms(2,3) by (simp add: seq_from_def word_le_nat_alt word_less_nat_alt)
  have "unat e + 1 - unat f = (unat m - unat f) + (unat e + 1 - unat m)" "unat (m - 1) + 1 - unat f = unat m - unat f"
    using assms(3,4) m by (simp_all add: word_le_nat_alt word_less_nat_alt)
  moreover have "lo \<le> unat m" using assms(2,3) by (simp add: word_less_nat_alt)
  ultimately show ?thesis unfolding seq_between_take [OF assms(1,2)] seq_between_take [OF assms(1) \<open>lo \<le> unat m\<close>] d by (simp only: take_add)
qed

lemma length_between: "seqs t = [lo..<b] \<Longrightarrow> lo \<le> unat f \<Longrightarrow> length (seq_between f e t) \<le> unat e + 1 - unat f"
  by (simp add: seq_between_take)

lemma fetchLedgers_between:
  assumes q: "query_ok q" and f: "f \<in> LedgerSequence ` set (qWhole q)" "f \<le> e" "unat e < 2 ^ 32 - 1"
  shows "fetchLedgers (qHandler q) (ledger_close_meta (tables (qDB q))) f e (qFormat q) (LedgerSequence (hd (ledger_close_meta (tables (qDB q))))) =
    Some (Inr (map (details (qHandler q) (qFormat q)) (seq_between f e (qWhole q))))"
proof -
  let ?h = "qHandler q" and ?t = "ledger_close_meta (tables (qDB q))" and ?w = "qWhole q"
  let ?first = "LedgerSequence (hd ?t)"
  obtain lo b where r: "seqs ?w = [lo..<b]" "b \<le> 2 ^ 31" "lo \<le> unat ?first" "unat ?first < b" "hd ?w \<noteq> hd ?t \<longleftrightarrow> lo < unat ?first"
    by (rule query_range [OF q])
  have qq: "?t = seq_from ?first ?w" "hd ?w \<noteq> hd ?t \<Longrightarrow> source_has ?h ?w" "\<forall>l\<in>set ?w. \<exists>x. lhConvert ?h (qFormat q) l = Inr x" "lhSelect ?h = None"
    using q by (simp_all add: query_ok_def Let_def)
  have "unat f \<in> set (seqs ?w)" using f(1) by (auto simp: seqs_def)
  then have lf: "lo \<le> unat f" "unat f < b" unfolding r(1) by simp_all
  have fe: "unat (e - f + 1) = unat e + 1 - unat f" using f(2,3) by (simp add: unat_add_no_wrap unat_sub_no_wrap word_le_nat_alt)
  have conv: "\<forall>l\<in>set (seq_between x y ?w). \<exists>z. lhConvert ?h (qFormat q) l = Inr z" for x y using qq(3) by (simp add: seq_between_def)
  have len: "length (seq_between x y ?w) \<le> unat e + 1 - unat f" if "lo \<le> unat x" "unat f \<le> unat x" "unat y \<le> unat e" for x y
    using length_between [OF r(1) that(1), of y] that by simp
  have loc: "filter (\<lambda>l. x \<le> LedgerSequence l \<and> LedgerSequence l \<le> e) ?t = seq_between x e ?w" if "?first \<le> x" for x
    by (subst qq(1)) (use that in \<open>auto simp: seq_from_def seq_between_def intro: filter_cong\<close>)
  show ?thesis
  proof (cases "?first \<le> f")
    case True
    then show ?thesis using addToResult_all [OF _ conv, of "[]" f e "unat e + 1 - unat f"] len [of f e] lf f(2) qq(4) fe
      by (simp add: fetchLedgers_def fetchFromLocalDB_def BatchGetLedgers_def loc Let_def)
  next
    case False
    then have "source_has ?h ?w" using qq(2) r(5) lf by (simp add: word_le_nat_alt)
    then obtain src where src: "lhDatastore ?h = Some (Inr src)" "\<And>a b. srcPrepareRange src a b = None" "\<And>l. l \<in> set ?w \<Longrightarrow> srcGetLedger src (LedgerSequence l) = Inr l"
      "\<forall>l\<in>set ?w. lhMarshal ?h l = None"
      unfolding source_has_def by blast
    have chunks: "metaToChunk (lhMarshal ?h) (seq_between x y ?w) = Inr (seq_between x y ?w)" for x y
      using src(4) by (intro metaToChunk_all) (simp add: seq_between_def)
    have ds: "fetchFromDatastore ?h (qFormat q) (unat e + 1 - unat f) f y [] = Some (None, map (details ?h (qFormat q)) (seq_between f y ?w))" if "unat y < b" "unat y \<le> unat e" for y
      using addToResult_all [OF _ conv, of "[]" f y "unat e + 1 - unat f"] len [of f y] lf that ds_fetch_between [OF r(1,2) src(3) lf(1) that(1)]
      by (simp add: fetchFromDatastore_def src(1,2) ds_GetLedgers_def chunks)
    show ?thesis
    proof (cases "e < ?first")
      case True
      then show ?thesis using False ds [of e] r(4) fe by (simp add: fetchLedgers_def Let_def word_less_nat_alt)
    next
      case le: False
      have m: "f < ?first" "?first \<le> e" using False le by simp_all
      have m1: "unat (?first - 1) < b" "unat (?first - 1) \<le> unat e"
        using m r(4) by (simp_all add: unat_sub_no_wrap word_less_nat_alt word_le_nat_alt)
      note sp = seq_between_split [OF r(1) lf(1) m]
      have "length (map (details ?h (qFormat q)) (seq_between f (?first - 1) ?w)) + length (seq_between ?first e ?w) \<le> unat e + 1 - unat f"
        using arg_cong [OF sp, of length] len [of f e] lf by simp
      from addToResult_all [OF this conv] show ?thesis using False le ds [OF m1] fe qq(4)
        by (simp add: fetchLedgers_def fetchFromLocalDB_def BatchGetLedgers_def loc Let_def join_errors_def flip: sp)
    qed
  qed
qed

subsection \<open>Following the cursor\<close>

definition ledgers_request :: "ledgers_query \<Rightarrow> string \<Rightarrow> GetLedgersRequest" where
  "ledgers_request q cursor = \<lparr>lrStartLedger = (if cursor = [] then qStart q else 0), lrPagination = Some \<lparr>pgCursor = cursor, pgLimit = qLimit q\<rparr>, lrFormat = qFormat q\<rparr>"

definition ledgers_page :: "ledgers_query \<Rightarrow> string \<Rightarrow> LedgerDetails list" where
  "ledgers_page q cursor = (case getLedgers (qHandler q) (qDB q) (ledgers_request q cursor) of Some (Inr r) \<Rightarrow> glLedgers r | _ \<Rightarrow> [])"

definition ledgers_served :: "ledgers_query \<Rightarrow> LedgerDetails list" where
  "ledgers_served q = map (details (qHandler q) (qFormat q)) (seq_from (qStart q) (qWhole q))"

definition ledger_token :: "LedgerDetails \<Rightarrow> string" where
  "ledger_token l = nat_string (unat (ldSequence l))"

text \<open>The page that starts with ledger \<open>f\<close>.\<close>

lemma ledgers_page_from:
  assumes q: "query_ok q" and f: "f \<in> LedgerSequence ` set (qWhole q)"
    and p: "initializePagination (qHandler q) (ledgers_request q cursor) (availableRange (qHandler q) (store_range (ledger_close_meta (tables (qDB q))))) = Inr (f, qLimit q)"
    and v: "lhValidate (qHandler q) (ledgers_request q cursor) (lhMaxLimit (qHandler q)) (availableRange (qHandler q) (store_range (ledger_close_meta (tables (qDB q))))) = None"
  shows "ledgers_page q cursor = take (unat (qLimit q)) (map (details (qHandler q) (qFormat q)) (seq_from f (qWhole q)))"
proof -
  obtain lo b where r: "seqs (qWhole q) = [lo..<b]" "b \<le> 2 ^ 31" "GetLedgerRange (qDB q) = Inr (store_range (ledger_close_meta (tables (qDB q))))"
    by (rule query_range [OF q])
  have k: "0 < qLimit q" "unat (qLimit q) < 2 ^ 31" "lhNewTx (qHandler q) = None" using q by (auto simp: query_ok_def Let_def word_le_nat_alt)
  let ?k = "ucast (qLimit q) :: u32" and ?e = "f + ucast (qLimit q) - 1"
  have uk: "unat ?k = unat (qLimit q)" using k(2) by (simp add: unsigned_ucast_eq take_bit_nat_eq_self)
  have "unat f \<in> set (seqs (qWhole q))" using f by (auto simp: seqs_def)
  then have lf: "lo \<le> unat f" "unat f < b" unfolding r(1) by simp_all
  have kp: "0 < unat (qLimit q)" using k(1) by (simp add: word_less_nat_alt)
  have "unat (f + ?k) = unat f + unat (qLimit q)" using uk lf r(2) k(2) by (simp add: unat_add_no_wrap)
  then have e: "unat ?e = unat f + unat (qLimit q) - 1" using kp by (simp add: unat_sub_no_wrap word_le_nat_alt)
  have "f \<le> ?e" "unat ?e < 2 ^ 32 - 1" using e kp lf r(2) k(2) by (simp_all add: word_le_nat_alt)
  from fetchLedgers_between [OF q f this] have "ledgers_page q cursor = map (details (qHandler q) (qFormat q)) (seq_between f ?e (qWhole q))"
    using r(3) k(3) p v by (simp add: ledgers_page_def getLedgers_def store_range_def lcm_info_def ledgers_request_def)
  also have "seq_between f ?e (qWhole q) = take (unat (qLimit q)) (seq_from f (qWhole q))" using seq_between_take [OF r(1) lf(1), of ?e] e kp by simp
  finally show ?thesis by (simp add: take_map)
qed

lemma seq_from_tail:
  assumes "seqs t = [lo..<b]" "b \<le> 2 ^ 31" "seq_from f t = xs @ l # ys"
  shows "l \<in> set t" "ys = seq_from (LedgerSequence l + 1) t" "ys \<noteq> [] \<longleftrightarrow> unat (LedgerSequence l) + 1 < b"
proof -
  have in_from: "l \<in> set (seq_from f t)" using assms(3) by simp
  then show l: "l \<in> set t" by (simp add: seq_from_def)
  have fl: "f \<le> LedgerSequence l" using in_from by (simp add: seq_from_def)
  have "unat (LedgerSequence l) \<in> set (seqs t)" using l by (auto simp: seqs_def)
  then have lb: "lo \<le> unat (LedgerSequence l)" "unat (LedgerSequence l) < b" unfolding assms(1) by simp_all
  have l1: "unat (LedgerSequence l + 1) = unat (LedgerSequence l) + 1" using lb(2) assms(2) by (simp add: unat_add_no_wrap)
  have "drop (unat f - lo) t = xs @ l # ys" using seqs_filter_ge [OF assms(1), of "unat f"] assms(3) by (simp add: seq_from_def word_le_nat_alt)
  with seqs_drop [OF assms(1), of "unat f - lo"] have s: "seqs (xs @ l # ys) = [lo + (unat f - lo)..<b]" by simp
  have ll: "unat (LedgerSequence l) = lo + (unat f - lo) + length xs" "seqs ys = [unat (LedgerSequence l) + 1..<b]"
  proof -
    have "seqs (l # ys) = [lo + (unat f - lo) + length xs..<b]" using seqs_drop [OF s, of "length xs"] by simp
    from seqs_Cons [OF this] show "unat (LedgerSequence l) = lo + (unat f - lo) + length xs" "seqs ys = [unat (LedgerSequence l) + 1..<b]" by auto
  qed
  have "seq_from (LedgerSequence l + 1) t = filter (\<lambda>x. LedgerSequence l + 1 \<le> LedgerSequence x) (seq_from f t)"
    using fl l1 by (auto simp: seq_from_def word_le_nat_alt intro!: filter_cong)
  also have "\<dots> = drop (unat (LedgerSequence l) + 1 - (lo + (unat f - lo))) (xs @ l # ys)"
    unfolding assms(3) using seqs_filter_ge [OF s, of "unat (LedgerSequence l) + 1"] l1 by (simp add: word_le_nat_alt)
  also have "\<dots> = ys" using ll(1) by simp
  finally show "ys = seq_from (LedgerSequence l + 1) t" ..
  show "ys \<noteq> [] \<longleftrightarrow> unat (LedgerSequence l) + 1 < b" using arg_cong [OF ll(2), of length] by (cases ys) auto
qed

interpretation ledger_pages: paged_query query_ok ledgers_served ledgers_page ledger_token "\<lambda>q. unat (qLimit q)"
proof
  fix q assume q: "query_ok q"
  let ?h = "qHandler q" and ?t = "ledger_close_meta (tables (qDB q))"
  let ?av = "availableRange ?h (store_range ?t)"
  have k: "qLimit q \<noteq> 0" "qLimit q \<le> lhMaxLimit ?h" "protocol_ok ?h (qFormat q)" "qStart q \<in> LedgerSequence ` set (qWhole q)" "hd (qWhole q) \<noteq> hd ?t \<Longrightarrow> source_has ?h (qWhole q)"
    using q by (auto simp: query_ok_def Let_def)
  obtain lo b where r: "seqs (qWhole q) = [lo..<b]" "b \<le> 2 ^ 31" "2 \<le> lo" "lo \<le> unat (LedgerSequence (hd ?t))" "unat (LedgerSequence (last ?t)) + 1 = b"
    "hd (qWhole q) \<noteq> hd ?t \<longleftrightarrow> lo < unat (LedgerSequence (hd ?t))" "lo \<le> unat (qStart q)" "unat (qStart q) < b"
    "GetLedgerRange (qDB q) = Inr (store_range ?t)" by (rule query_range [OF q])
  have w: "lhWithinRange ?h s ?av \<longleftrightarrow> unat s < b" if "lo \<le> unat s" for s
    using k(3,5) r(3-6) that by (cases "lo < unat (LedgerSequence (hd ?t))")
      (auto simp: protocol_ok_def availableRange_def GetAvailableLedgerRange_def store_range_def lcm_info_def Let_def source_has_def word_le_nat_alt min_def split: option.split)
  show "0 < unat (qLimit q)" using k(1) by (simp add: unat_gt_0)
  show "ledgers_page q [] = take (unat (qLimit q)) (ledgers_served q)"
    unfolding ledgers_served_def
  proof (rule ledgers_page_from [OF q k(4)])
    show "initializePagination ?h (ledgers_request q []) ?av = Inr (qStart q, qLimit q)" using k(1) by (simp add: initializePagination_def ledgers_request_def)
    show "lhValidate ?h (ledgers_request q []) (lhMaxLimit ?h) ?av = None" unfolding ledgers_request_def using w [OF r(7)] r(8) by (intro protocol_valid [OF k(3,2)]) simp
  qed
  fix ys x zs assume "ledgers_served q = ys @ x # zs"
  then obtain ls1 l ls2 where ls: "seq_from (qStart q) (qWhole q) = ls1 @ l # ls2" "x = details ?h (qFormat q) l" "zs = map (details ?h (qFormat q)) ls2"
    unfolding ledgers_served_def by (auto simp: map_eq_append_conv map_eq_Cons_conv)
  note tl = seq_from_tail [OF r(1,2) ls(1)]
  have "unat (LedgerSequence l) \<in> set (seqs (qWhole q))" using tl(1) by (auto simp: seqs_def)
  then have lb: "lo \<le> unat (LedgerSequence l)" "unat (LedgerSequence l) < b" unfolding r(1) by simp_all
  have l1: "unat (LedgerSequence l + 1) = unat (LedgerSequence l) + 1" using lb(2) r(2) by (simp add: unat_add_no_wrap)
  have tok: "ledger_token x \<noteq> []" "ParseUint 32 (ledger_token x) = Some (unat (LedgerSequence l))"
    using nat_string_Cons [of "unat (LedgerSequence l)"] by (auto simp: ledger_token_def ls(2) details_def ParseUint_def) (use lb(2) r(2) in simp)
  have v: "lhValidate ?h (ledgers_request q (ledger_token x)) (lhMaxLimit ?h) ?av = None" unfolding ledgers_request_def using tok(1) by (intro protocol_valid [OF k(3,2)]) simp
  show "ledgers_page q (ledger_token x) = take (unat (qLimit q)) zs"
  proof (cases "ls2 = []")
    case False
    then have in_range: "unat (LedgerSequence l) + 1 < b" using tl(3) by simp
    have "initializePagination ?h (ledgers_request q (ledger_token x)) ?av = Inr (LedgerSequence l + 1, qLimit q)"
      using tok k(1) w [of "LedgerSequence l + 1"] in_range l1 lb by (simp add: initializePagination_def ledgers_request_def parseCursor_def Let_def)
    moreover have "LedgerSequence l + 1 \<in> LedgerSequence ` set (qWhole q)"
      using False tl(2) seq_from_step [OF r(1) _ _ r(2), of "LedgerSequence l + 1"] l1 lb in_range by force
    ultimately show ?thesis unfolding ls(3) tl(2) using ledgers_page_from [OF q _ _ v] by (simp add: take_map)
  next
    case True
    then have "\<not> lhWithinRange ?h (LedgerSequence l + 1) ?av" using w [of "LedgerSequence l + 1"] tl(3) l1 lb by simp
    then have "\<exists>e. initializePagination ?h (ledgers_request q (ledger_token x)) ?av = Inl e"
      using tok by (simp add: initializePagination_def ledgers_request_def parseCursor_def Let_def)
    then have "ledgers_page q (ledger_token x) = []"
      using v r(9) by (auto simp: ledgers_page_def getLedgers_def split: option.split)
    then show ?thesis using True ls(3) by simp
  qed
qed

text \<open>A client that follows the cursors of the responses, until a page is empty or the method answers with an error.\<close>

fun follow_ledgers :: "ledgers_query \<Rightarrow> string \<Rightarrow> nat \<Rightarrow> LedgerDetails list list" where
  "follow_ledgers q cursor 0 = []"
| "follow_ledgers q cursor (Suc n) = (case getLedgers (qHandler q) (qDB q) (ledgers_request q cursor) of
       Some (Inr r) \<Rightarrow> if glLedgers r = [] then [] else glLedgers r # follow_ledgers q (glCursor r) n
     | _ \<Rightarrow> [])"

lemma getLedgers_cursor:
  assumes "getLedgers h d request = Some (Inr r)" "glLedgers r \<noteq> []"
  shows "glCursor r = ledger_token (last (glLedgers r))"
  using assms by (auto simp: getLedgers_def ledger_token_def split: option.splits sum.splits)

lemma follow_ledgers_walk: "follow_ledgers q cursor n = walk (ledgers_page q) ledger_token cursor n"
  by (induction n arbitrary: cursor) (auto simp: ledgers_page_def Let_def getLedgers_cursor split: option.split sum.split)

text \<open>
  C28. A client that asks for the ledgers from one that is available on, and goes on with the cursor of each response, gets every ledger up to the latest exactly once, in order, and never more than
  its limit at a time; pages that lie in the datastore, in the database or across the border between them fit together. It is assumed that the datastore answers for the ledgers that are not in the database, and that
  every ledger can be serialised and converted.
\<close>

theorem ledger_pages_visit_all:
  assumes "query_ok q" "length (ledgers_served q) \<le> n"
  shows "concat (follow_ledgers q [] (Suc n)) = ledgers_served q \<and> (\<forall>rs\<in>set (follow_ledgers q [] (Suc n)). rs \<noteq> [] \<and> length rs \<le> unat (qLimit q))"
  unfolding follow_ledgers_walk by (rule ledger_pages.walk_all [OF assms])

definition wit_ledgers_query :: ledgers_query where
  "wit_ledgers_query = \<lparr>qHandler = \<lparr>lhMaxLimit = 3, lhDefaultLimit = 1,
       lhDatastore = Some (Inr \<lparr>srcPrepareRange = (\<lambda>_ _. None), srcGetLedger = backendGetLedger wit_ingest_env\<rparr>),
       lhValidate = (\<lambda>r m rng. case lrPagination r of None \<Rightarrow> None | Some p \<Rightarrow> if m < pgLimit p then Some ''limit'' else None),
       lhWithinRange = (\<lambda>s rng. fst rng \<le> s \<and> s \<le> snd rng), lhMarshal = (\<lambda>_. None), lhConvert = (\<lambda>_ l. Inr (nat_string (unat (LedgerSequence l)))), lhNewTx = None, lhSelect = None\<rparr>,
     qDB = \<lparr>tables = \<lparr>ledger_close_meta = [wit_ledger 5, wit_ledger 6], transactions_t = [], events_t = []\<rparr>, cache = \<lparr>latestLedgerSeq = 6, latestLedgerCloseTime = 0\<rparr>\<rparr>,
     qWhole = [wit_ledger 2, wit_ledger 3, wit_ledger 4, wit_ledger 5, wit_ledger 6], qStart = 3, qLimit = 3, qFormat = []\<rparr>"

lemma wit_ledgers_query_ok: "query_ok wit_ledgers_query"
proof -
  have "gapless (qWhole wit_ledgers_query)" by (rule gaplessI [of _ 2 7]) (simp add: wit_ledgers_query_def wit_ledger_def upt_rec)
  moreover have "protocol_ok (qHandler wit_ledgers_query) []" by (auto simp: protocol_ok_def wit_ledgers_query_def)
  ultimately show ?thesis
    by (simp add: query_ok_def wit_ledgers_query_def Let_def cache_ok_def lcm_info_def wit_ledger_def seq_from_def source_has_def wit_ingest_env_def)
qed

theorem ledger_pages_visit_all_witness:
  "map ldSequence (concat (follow_ledgers wit_ledgers_query [] 5)) = [3, 4, 5, 6] \<and>
   list_all (\<lambda>rs. rs \<noteq> [] \<and> length rs \<le> 3) (follow_ledgers wit_ledgers_query [] 5)"
proof -
  have served: "map ldSequence (ledgers_served wit_ledgers_query) = [3, 4, 5, 6]"
    by (simp add: ledgers_served_def wit_ledgers_query_def seq_from_def wit_ledger_def details_def)
  then have "length (ledgers_served wit_ledgers_query) \<le> 4" using length_map [of ldSequence "ledgers_served wit_ledgers_query"] by simp
  from ledger_pages_visit_all [OF wit_ledgers_query_ok this] served show ?thesis by (simp add: wit_ledgers_query_def list_all_iff del: follow_ledgers.simps)
qed

end
