(* ===== verification/Rpc_Transaction_Pages.thy ===== *)
theory Rpc_Transaction_Pages
  imports Rpc_Transactions Rpc_Ledger_Pages
begin

text \<open>
  The pages of \<open>getTransactions\<close> visit every transaction once, the cursor that goes back at the end of the latest ledger, and the transactions that \<open>getTransaction\<close> finds.
\<close>

subsection \<open>What is assumed of the packages\<close>

text \<open>
  The reader of a ledger returns its transactions in order, numbered from one, and can seek to each of them; a transaction can be encoded; a position that was printed is read back.
\<close>

definition ledger_txs :: "Lcm \<Rightarrow> RpcTx list" where
  "ledger_txs l = (case TxReader l of Inl e \<Rightarrow> [] | Inr rs \<Rightarrow> concat (map (\<lambda>r. case r of Inl e \<Rightarrow> [] | Inr tx \<Rightarrow> [tx]) rs))"

definition reader_ok :: "tx_pkg \<Rightarrow> Lcm \<Rightarrow> bool" where
  "reader_ok P l \<longleftrightarrow> TxReader l = Inr (map Inr (ledger_txs l)) \<and> CountTransactions l = length (ledger_txs l) \<and> length (ledger_txs l) < 2 ^ 31 - 1 \<and>
     (\<forall>k<length (ledger_txs l). rtIndex (ledger_txs l ! k) = of_nat (k + 1)) \<and>
     (\<forall>i. tpSeek P l i = (if 0 \<le> i \<and> i < int (length (ledger_txs l)) then SeekOk (nat i) else SeekEOF))"

definition encodes :: "tx_pkg \<Rightarrow> string \<Rightarrow> Lcm \<Rightarrow> bool" where
  "encodes P format l \<longleftrightarrow> (\<forall>tx\<in>set (ledger_txs l). \<exists>x y. tpEncode P tx = Inr x \<and> tpConvert P format x = Inr y)"

definition toid_in_range :: "toid \<Rightarrow> bool" where
  "toid_in_range t \<longleftrightarrow> 0 \<le> toLedger t \<and> toLedger t < 2 ^ 31 \<and> 0 \<le> toTx t \<and> toTx t < 2 ^ 20 \<and> 0 \<le> toOp t \<and> toOp t < 2 ^ 12"

definition toids_ok :: "tx_pkg \<Rightarrow> bool" where
  "toids_ok P \<longleftrightarrow> (\<forall>t. toid_in_range t \<longrightarrow> map_option (tpParseToid P) (ParseInt 64 (tpPrintToid P t)) = Some t \<and> tpPrintToid P t \<noteq> [])"

subsection \<open>One ledger\<close>

definition info_of :: "tx_pkg \<Rightarrow> string \<Rightarrow> Lcm \<Rightarrow> RpcTx \<Rightarrow> TransactionInfo" where
  "info_of P format l tx = \<lparr>tiHash = rtHash tx, tiApplicationOrder = uint (rtIndex tx), tiFeeBump = (rtInnerHash tx \<noteq> None), tiLedger = LedgerSequence l,
     tiCloseTime = LedgerCloseTime l, tiSuccess = rtSuccessful tx,
     tiData = (case tpEncode P tx of Inl e \<Rightarrow> [] | Inr x \<Rightarrow> (case tpConvert P format x of Inl e \<Rightarrow> [] | Inr y \<Rightarrow> y))\<rparr>"

definition infos :: "tx_pkg \<Rightarrow> string \<Rightarrow> Lcm \<Rightarrow> TransactionInfo list" where
  "infos P format l = map (info_of P format l) (ledger_txs l)"

definition tx_fits :: "tx_pkg \<Rightarrow> string \<Rightarrow> RpcTx \<Rightarrow> bool" where
  "tx_fits P format tx \<longleftrightarrow> uint (rtIndex tx) < 2 ^ 31 \<and> (\<exists>x y. tpEncode P tx = Inr x \<and> tpConvert P format x = Inr y)"

lemma tx_fits_info:
  assumes "tx_fits P format tx"
  obtains t where "ParseTransaction P l tx = Inr t" "transactionInfo P format t = Inr (info_of P format l tx)"
  using assms by (auto simp: tx_fits_def ParseTransaction_def transactionInfo_def uint32ToInt32_def info_of_def lcm_info_def)

lemma i32_small: "0 \<le> i \<Longrightarrow> i < 2 ^ 31 \<Longrightarrow> i32 i = i"
  by (simp add: i32_def signed_take_bit_int_eq_self)

lemma uint_bound: "unat x < n \<Longrightarrow> uint x < int n" for x :: u32
  using of_nat_less_iff [of "unat x" n, where 'a = int] by simp

lemma process_txs_page:
  "\<forall>tx\<in>set txs. tx_fits P format tx \<Longrightarrow> length txns < limit \<Longrightarrow> 0 \<le> i \<Longrightarrow> i + int (length txs) < 2 ^ 31 \<Longrightarrow>
    process_txs P format l limit i (map Inr txs) order (length txs) txns =
      (if limit \<le> length txns + length txs then Inr (i + int (limit - length txns) - 1, True, txns @ map (info_of P format l) (take (limit - length txns) txs))
       else Inr (if txs = [] then order else i + int (length txs) - 1, False, txns @ map (info_of P format l) txs))"
proof (induction txs arbitrary: i order txns)
  case (Cons tx txs)
  have i: "i32 i = i" using Cons.prems(3,4) by (intro i32_small) simp_all
  have "tx_fits P format tx" using Cons.prems(1) by simp
  then obtain t where t: "ParseTransaction P l tx = Inr t" "transactionInfo P format t = Inr (info_of P format l tx)" by (rule tx_fits_info [of P format tx l])
  show ?case
  proof (cases "limit \<le> length (txns @ [info_of P format l tx])")
    case True
    then have "limit - length txns = 1" using Cons.prems(2) by simp
    with True t i show ?thesis by (simp add: Let_def)
  next
    case False
    have k: "limit - length txns = Suc (limit - length (txns @ [info_of P format l tx]))" using False by simp
    have "process_txs P format l limit i (map Inr (tx # txs)) order (length (tx # txs)) txns =
        process_txs P format l limit (i + 1) (map Inr txs) i (length txs) (txns @ [info_of P format l tx])" using False t i by (simp add: Let_def)
    also have "\<dots> = (if limit \<le> length (txns @ [info_of P format l tx]) + length txs
         then Inr (i + 1 + int (limit - length (txns @ [info_of P format l tx])) - 1, True, (txns @ [info_of P format l tx]) @ map (info_of P format l) (take (limit - length (txns @ [info_of P format l tx])) txs))
         else Inr (if txs = [] then i else i + 1 + int (length txs) - 1, False, (txns @ [info_of P format l tx]) @ map (info_of P format l) txs))"
      by (rule Cons.IH) (use Cons.prems False in auto)
    finally show ?thesis unfolding k by (cases txs) auto
  qed
qed simp

text \<open>The transactions of a ledger that a page starting at \<open>p\<close> may have.\<close>

definition infos_from :: "tx_pkg \<Rightarrow> string \<Rightarrow> toid \<Rightarrow> Lcm \<Rightarrow> TransactionInfo list" where
  "infos_from P format p l = (if uint (LedgerSequence l) = toLedger p then drop (nat (toTx p - 1)) (infos P format l) else infos P format l)"

lemma fits_txs:
  assumes "reader_ok P l" "encodes P format l" "tx \<in> set (ledger_txs l)"
  shows "tx_fits P format tx"
proof -
  obtain k where k: "k < length (ledger_txs l)" "tx = ledger_txs l ! k" using assms(3) by (auto simp: in_set_conv_nth)
  then have "rtIndex tx = of_nat (k + 1)" "k + 1 < 2 ^ 31" using assms(1) by (auto simp: reader_ok_def)
  then have "unat (rtIndex tx) = k + 1" using of_nat_inverse [of "k + 1" "rtIndex tx"] by simp
  then have "uint (rtIndex tx) < 2 ^ 31" using uint_bound [of "rtIndex tx" "2 ^ 31"] \<open>k + 1 < 2 ^ 31\<close> by simp
  with assms(2,3) show ?thesis by (auto simp: tx_fits_def encodes_def)
qed

lemma info_position:
  assumes "reader_ok P l" "k < length (ledger_txs l)"
  shows "tiLedger (infos P format l ! k) = LedgerSequence l" "tiApplicationOrder (infos P format l ! k) = int (k + 1)"
proof -
  have i: "rtIndex (ledger_txs l ! k) = of_nat (k + 1)" "k + 1 < 2 ^ 31" using assms by (auto simp: reader_ok_def)
  then have "unat (rtIndex (ledger_txs l ! k)) = k + 1" using of_nat_inverse [of "k + 1" "rtIndex (ledger_txs l ! k)"] by simp
  from arg_cong [OF this, of int] have "uint (rtIndex (ledger_txs l ! k)) = int (k + 1)" by simp
  with assms(2) show "tiLedger (infos P format l ! k) = LedgerSequence l" "tiApplicationOrder (infos P format l ! k) = int (k + 1)" by (simp_all add: infos_def info_of_def)
qed

text \<open>The position of a transaction, which is the cursor of a page that ends with it.\<close>

definition tx_pos :: "TransactionInfo \<Rightarrow> toid" where
  "tx_pos i = \<lparr>toLedger = uint (tiLedger i), toTx = tiApplicationOrder i, toOp = 1\<rparr>"

lemma processTransactionsInLedger_page:
  assumes r: "reader_ok P l" "encodes P format l" and p: "1 \<le> toTx p" "uint (LedgerSequence l) < 2 ^ 31" "length txns < unat limit" "unat limit < 2 ^ 63"
  shows "\<exists>c full. processTransactionsInLedger P l p txns limit format = Inr (c, full, take (unat limit) (txns @ infos_from P format p l)) \<and>
    full = (unat limit \<le> length txns + length (infos_from P format p l)) \<and> toLedger c = uint (LedgerSequence l) \<and> toOp c = 1 \<and> (infos_from P format p l = [] \<longrightarrow> toTx c = 0) \<and>
    (full \<longrightarrow> c = tx_pos (last (take (unat limit) (txns @ infos_from P format p l))))"
proof -
  let ?n = "length (ledger_txs l)"
  have rd: "TxReader l = Inr (map Inr (ledger_txs l))" "CountTransactions l = ?n" "?n < 2 ^ 31 - 1"
    "\<And>i. tpSeek P l i = (if 0 \<le> i \<and> i < int ?n then SeekOk (nat i) else SeekEOF)" using r(1) by (simp_all add: reader_ok_def)
  define k where "k = (if uint (LedgerSequence l) = toLedger p then nat (toTx p - 1) else 0)"
  have inf: "infos_from P format p l = map (info_of P format l) (drop k (ledger_txs l))" by (simp add: infos_from_def infos_def k_def drop_map)
  have fits: "\<forall>tx\<in>set (drop k (ledger_txs l)). tx_fits P format tx" using fits_txs [OF r] by (auto dest: in_set_dropD)
  have "\<exists>order full. process_txs P format l (unat limit) (int k + 1) (map Inr (drop k (ledger_txs l))) 0 (?n - k) txns =
      Inr (order, full, take (unat limit) (txns @ infos_from P format p l)) \<and> full = (unat limit \<le> length txns + length (infos_from P format p l)) \<and> (infos_from P format p l = [] \<longrightarrow> order = 0) \<and>
      (full \<longrightarrow> order = int k + int (unat limit - length txns))"
  proof (cases "k \<le> ?n")
    case True
    have "int k + 1 + int (length (drop k (ledger_txs l))) < 2 ^ 31" using True rd(3) by simp
    from process_txs_page [OF fits p(3) _ this, of l 0] show ?thesis using p(3) unfolding inf by (auto simp: take_map)
  next
    case False
    with p(3) show ?thesis unfolding inf by (intro exI [of _ 0] exI [of _ False]) simp
  qed
  then obtain order full where pr: "process_txs P format l (unat limit) (int k + 1) (map Inr (drop k (ledger_txs l))) 0 (?n - k) txns =
      Inr (order, full, take (unat limit) (txns @ infos_from P format p l))" "full = (unat limit \<le> length txns + length (infos_from P format p l))"
      "infos_from P format p l = [] \<longrightarrow> order = 0" "full \<longrightarrow> order = int k + int (unat limit - length txns)" by blast
  have last: "tx_pos (last (take (unat limit) (txns @ infos_from P format p l))) = \<lparr>toLedger = uint (LedgerSequence l), toTx = order, toOp = 1\<rparr>" if full
  proof -
    let ?m = "unat limit - length txns"
    have m: "0 < ?m" "?m \<le> ?n - k" using p(3) that pr(2) by (simp_all add: inf)
    have "last (take (unat limit) (txns @ infos_from P format p l)) = infos P format l ! (k + (?m - 1))"
      using m by (simp add: inf infos_def last_conv_nth)
    moreover have "k + (?m - 1) < ?n" using m by linarith
    moreover have "int (k + (?m - 1) + 1) = order" using m that pr(4) by simp
    ultimately show ?thesis using info_position [OF r(1), of "k + (?m - 1)" format] by (simp add: tx_pos_def)
  qed
  have nk: "nat (int ?n + 1 - (int k + 1)) = ?n - k" by simp
  have "processTransactionsInLedger P l p txns limit format = (case process_txs P format l (unat limit) (int k + 1) (map Inr (drop k (ledger_txs l))) 0 (?n - k) txns of
      Inl e \<Rightarrow> Inl e | Inr (order, full, txns') \<Rightarrow> Inr (\<lparr>toLedger = uint (LedgerSequence l), toTx = order, toOp = 1\<rparr>, full, txns'))"
  proof (cases "uint (LedgerSequence l) = toLedger p \<and> \<not> k < ?n")
    case True
    then have "?n - k = 0" "toTx p - 1 = int k" "nat (int ?n + 1 - toTx p) = 0" using p(1) by (auto simp: k_def)
    with True p rd show ?thesis by (simp add: processTransactionsInLedger_def uint32ToInt32_def)
  next
    case False
    then have "uint (LedgerSequence l) = toLedger p \<Longrightarrow> toTx p - 1 = int k \<and> toTx p = int k + 1 \<and> k < ?n" using p(1) by (auto simp: k_def)
    moreover have "uint (LedgerSequence l) \<noteq> toLedger p \<Longrightarrow> k = 0" by (simp add: k_def)
    ultimately show ?thesis using p rd nk by (cases "uint (LedgerSequence l) = toLedger p") (auto simp: processTransactionsInLedger_def uint32ToInt32_def drop_map split: sum.split)
  qed
  with pr last show ?thesis by simp
qed

lemma getLedgerFromDB_found:
  assumes "gapless t" "l \<in> set t"
  shows "getLedgerFromDB t (LedgerSequence l) = Inr (Some l)"
proof -
  have "distinct (seqs t)" using assms(1) by (auto simp: gapless_def)
  then have d: "distinct (map LedgerSequence t)" unfolding seqs_def by (metis (no_types, lifting) distinct_map comp_inj_on_iff inj_on_imageI2 map_map comp_apply map_cong)
  have "filter (\<lambda>x. LedgerSequence x = LedgerSequence l) t = [l]" using assms(2) d
  proof (induction t)
    case (Cons x t)
    then show ?case by (cases "x = l") (auto simp: filter_empty_conv, metis imageI)
  qed simp
  then show ?thesis by (simp add: getLedgerFromDB_def)
qed

subsection \<open>The ledgers\<close>

definition txs_handler_ok :: "transactionsHandler \<Rightarrow> string \<Rightarrow> Lcm list \<Rightarrow> bool" where
  "txs_handler_ok h format t \<longleftrightarrow> gapless t \<and> (\<forall>l\<in>set t. reader_ok (thPkg h) l \<and> encodes (thPkg h) format l \<and> unat (LedgerSequence l) < 2 ^ 31 - 1) \<and>
     thSelect h = None \<and> toids_ok (thPkg h)"

lemma fetchLedgerData_found:
  assumes "txs_handler_ok h format t" "l \<in> set t"
  shows "fetchLedgerData h t (word_of_int (int (unat (LedgerSequence l)))) = Inr l"
  using getLedgerFromDB_found [OF _ assms(2)] assms(1) by (simp add: txs_handler_ok_def fetchLedgerData_def)

lemma process_ledgers_page:
  assumes h: "txs_handler_ok h format t" and p: "1 \<le> toTx p" "unat limit < 2 ^ 63"
  shows "set ls \<subseteq> set t \<Longrightarrow> seqs ls = [s..<b] \<Longrightarrow> s \<le> b \<Longrightarrow> b < 2 ^ 31 \<Longrightarrow> length txns < unat limit \<Longrightarrow>
    \<exists>c. process_ledgers h t p limit format (int s) (int b - 1) cursor txns = Some (Inr (c, take (unat limit) (txns @ concat (map (infos_from (thPkg h) format p) ls)))) \<and>
      (unat limit \<le> length (txns @ concat (map (infos_from (thPkg h) format p) ls)) \<longrightarrow> c = tx_pos (last (take (unat limit) (txns @ concat (map (infos_from (thPkg h) format p) ls)))))"
proof (induction ls arbitrary: s cursor txns)
  case Nil
  have "length [s..<b] = 0" using Nil.prems(2) by (metis seqs_simps(1) list.size(3))
  then have "s = b" using Nil.prems(3) by simp
  with Nil show ?case by (subst process_ledgers.simps) simp
next
  case (Cons l ls)
  have l: "unat (LedgerSequence l) = s" "seqs ls = [Suc s..<b]" using seqs_Cons [OF Cons.prems(2)] by simp_all
  have sb: "s < b" using arg_cong [OF Cons.prems(2), of length] by simp
  have lt: "l \<in> set t" using Cons.prems(1) by simp
  have i: "i32 (int s + 1) = int (Suc s)" using i32_small [of "int s + 1"] sb Cons.prems(4) by simp
  note f = fetchLedgerData_found [OF h lt, unfolded l(1)]
  have r: "reader_ok (thPkg h) l" "encodes (thPkg h) format l" "uint (LedgerSequence l) < 2 ^ 31"
    using h lt uint_bound [of "LedgerSequence l" "2 ^ 31 - 1"] by (auto simp: txs_handler_ok_def)
  let ?inf = "infos_from (thPkg h) format p l"
  obtain c full where pr: "processTransactionsInLedger (thPkg h) l p txns limit format = Inr (c, full, take (unat limit) (txns @ ?inf))" "full = (unat limit \<le> length txns + length ?inf)"
      "full \<longrightarrow> c = tx_pos (last (take (unat limit) (txns @ ?inf)))"
    using processTransactionsInLedger_page [OF r(1,2) p(1) r(3) Cons.prems(5) p(2)] by blast
  show ?case
  proof (cases full)
    case True
    have "process_ledgers h t p limit format (int s) (int b - 1) cursor txns = Some (Inr (c, take (unat limit) (txns @ ?inf)))"
      using sb f pr(1) True by (subst process_ledgers.simps) simp
    moreover have "take (unat limit) (txns @ ?inf) = take (unat limit) (txns @ concat (map (infos_from (thPkg h) format p) (l # ls)))" using True pr(2) by simp
    ultimately show ?thesis using True pr(3) by (auto simp del: take_append)
  next
    case False
    then have all: "take (unat limit) (txns @ ?inf) = txns @ ?inf" using pr(2) by simp
    have "process_ledgers h t p limit format (int s) (int b - 1) cursor txns = process_ledgers h t p limit format (int (Suc s)) (int b - 1) c (txns @ ?inf)"
      using sb f pr(1) False i all by (subst process_ledgers.simps) simp
    moreover have "\<exists>c'. process_ledgers h t p limit format (int (Suc s)) (int b - 1) c (txns @ ?inf) =
        Some (Inr (c', take (unat limit) ((txns @ ?inf) @ concat (map (infos_from (thPkg h) format p) ls)))) \<and>
        (unat limit \<le> length ((txns @ ?inf) @ concat (map (infos_from (thPkg h) format p) ls)) \<longrightarrow>
          c' = tx_pos (last (take (unat limit) ((txns @ ?inf) @ concat (map (infos_from (thPkg h) format p) ls)))))"
      by (rule Cons.IH) (use Cons.prems l(2) sb False pr(2) in auto)
    ultimately show ?thesis by simp
  qed
qed

subsection \<open>Following the cursor\<close>

record txs_query =
  xHandler :: transactionsHandler
  xDB :: DB
  xStart :: u32
  xLimit :: u64
  xFormat :: string

definition txs_request :: "txs_query \<Rightarrow> string \<Rightarrow> TxRequest" where
  "txs_request q cursor = \<lparr>trqStartLedger = (if cursor = [] then xStart q else 0), trqPagination = Some \<lparr>pgCursor = cursor, pgLimit = xLimit q\<rparr>, trqFormat = xFormat q\<rparr>"

text \<open>What the protocol package promises: a request for a page within the limit, whose start is in range or given by a cursor, is valid.\<close>

definition tx_protocol_ok :: "transactionsHandler \<Rightarrow> string \<Rightarrow> bool" where
  "tx_protocol_ok h format \<longleftrightarrow> (\<forall>s cursor limit rng. limit \<le> thMaxLimit h \<and> (cursor = [] \<and> fst rng \<le> s \<and> s \<le> snd rng \<or> cursor \<noteq> [] \<and> s = 0) \<longrightarrow>
     thIsValid h \<lparr>trqStartLedger = s, trqPagination = Some \<lparr>pgCursor = cursor, pgLimit = limit\<rparr>, trqFormat = format\<rparr> (thMaxLimit h) rng = None)"

lemma tx_protocol_valid:
  "tx_protocol_ok h format \<Longrightarrow> limit \<le> thMaxLimit h \<Longrightarrow> cursor = [] \<and> fst rng \<le> s \<and> s \<le> snd rng \<or> cursor \<noteq> [] \<and> s = 0 \<Longrightarrow>
    thIsValid h \<lparr>trqStartLedger = s, trqPagination = Some \<lparr>pgCursor = cursor, pgLimit = limit\<rparr>, trqFormat = format\<rparr> (thMaxLimit h) rng = None"
  unfolding tx_protocol_ok_def by (elim allE [of _ s] allE [of _ cursor] allE [of _ limit] allE [of _ rng]) simp

definition txs_ok :: "tx_pkg \<Rightarrow> txs_query \<Rightarrow> bool" where
  "txs_ok P q \<longleftrightarrow> (let h = xHandler q; t = ledger_close_meta (tables (xDB q)) in
     thPkg h = P \<and> t \<noteq> [] \<and> cache_ok (xDB q) \<and> txs_handler_ok h (xFormat q) t \<and> (\<forall>l\<in>set t. length (ledger_txs l) + 1 < 2 ^ 20) \<and> xStart q \<in> LedgerSequence ` set t \<and>
     0 < xLimit q \<and> xLimit q \<le> thMaxLimit h \<and> unat (thMaxLimit h) < 2 ^ 63 \<and> tx_protocol_ok h (xFormat q) \<and> thNewTx h = None)"

definition txs_page :: "txs_query \<Rightarrow> string \<Rightarrow> TransactionInfo list" where
  "txs_page q cursor = (case getTransactionsByLedgerSequence (xHandler q) (xDB q) (txs_request q cursor) of Some (Inr r) \<Rightarrow> trsTransactions r | _ \<Rightarrow> [])"

definition txs_served :: "txs_query \<Rightarrow> TransactionInfo list" where
  "txs_served q = concat (map (infos (thPkg (xHandler q)) (xFormat q)) (seq_from (xStart q) (ledger_close_meta (tables (xDB q)))))"

definition tx_token :: "tx_pkg \<Rightarrow> TransactionInfo \<Rightarrow> string" where
  "tx_token P i = tpPrintToid P (tx_pos i)"

text \<open>A request with a cursor gives a page, with the position of its last transaction as the new cursor when the page is full.\<close>

definition txs_answer :: "txs_query \<Rightarrow> string \<Rightarrow> TransactionInfo list \<Rightarrow> bool" where
  "txs_answer q cursor rows \<longleftrightarrow> (\<exists>r. getTransactionsByLedgerSequence (xHandler q) (xDB q) (txs_request q cursor) = Some (Inr r) \<and> trsTransactions r = rows \<and>
     (length rows = unat (xLimit q) \<longrightarrow> trsCursor r = tx_token (thPkg (xHandler q)) (last rows)))"

lemma txs_answer_page: "txs_answer q cursor rows \<Longrightarrow> txs_page q cursor = rows"
  by (auto simp: txs_answer_def txs_page_def)

lemma txs_query_range:
  assumes "txs_ok P q"
  obtains a b where "seqs (ledger_close_meta (tables (xDB q))) = [a..<b]" "b < 2 ^ 31" "a \<le> unat (xStart q)" "unat (xStart q) < b" "a < b"
    "unat (LedgerSequence (hd (ledger_close_meta (tables (xDB q))))) = a" "unat (LedgerSequence (last (ledger_close_meta (tables (xDB q))))) + 1 = b"
    "GetLedgerRange (xDB q) = Inr (store_range (ledger_close_meta (tables (xDB q))))"
proof -
  let ?t = "ledger_close_meta (tables (xDB q))"
  have q: "?t \<noteq> []" "gapless ?t" "cache_ok (xDB q)" "\<forall>l\<in>set ?t. unat (LedgerSequence l) < 2 ^ 31 - 1" "xStart q \<in> LedgerSequence ` set ?t"
    using assms by (auto simp: txs_ok_def Let_def txs_handler_ok_def)
  obtain a where a: "seqs ?t = [a..<a + length ?t]" using q(2) by (rule gaplessE)
  have "unat (xStart q) \<in> set (seqs ?t)" using q(5) by (auto simp: seqs_def)
  then have s: "a \<le> unat (xStart q)" "unat (xStart q) < a + length ?t" unfolding a by simp_all
  have h: "unat (LedgerSequence (hd ?t)) = a" using seqs_Cons [of "hd ?t" "tl ?t" a] a q(1) by auto
  have l: "unat (LedgerSequence (last ?t)) + 1 = a + length ?t" using last_seqs [OF a q(1)] by simp
  have "unat (LedgerSequence (last ?t)) < 2 ^ 31 - 1" using q(1,4) by simp
  then have "a + length ?t < 2 ^ 31" using l by simp
  from that [OF a this s _ h l] show thesis using GetLedgerRange_range [OF q(2,3)] q(1) by simp
qed

text \<open>The page that starts at position \<open>p\<close>.\<close>

lemma txs_page_from:
  assumes q: "txs_ok P q" and p: "tx_initializePagination (xHandler q) (txs_request q cursor) = Inr (p, xLimit q)" "1 \<le> toTx p"
    and f: "toLedger p = int (unat f)" "f \<in> LedgerSequence ` set (ledger_close_meta (tables (xDB q)))"
  shows "txs_answer q cursor (take (unat (xLimit q)) (concat (map (infos_from P (xFormat q) p) (seq_from f (ledger_close_meta (tables (xDB q)))))))"
proof -
  let ?t = "ledger_close_meta (tables (xDB q))"
  obtain a b where r: "seqs ?t = [a..<b]" "b < 2 ^ 31" "a \<le> unat (xStart q)" "unat (xStart q) < b" "unat (LedgerSequence (hd ?t)) = a"
    "unat (LedgerSequence (last ?t)) + 1 = b" "GetLedgerRange (xDB q) = Inr (store_range ?t)" by (rule txs_query_range [OF q])
  have h: "thPkg (xHandler q) = P" "txs_handler_ok (xHandler q) (xFormat q) ?t" "0 < xLimit q" "xLimit q \<le> thMaxLimit (xHandler q)" "unat (thMaxLimit (xHandler q)) < 2 ^ 63"
    "tx_protocol_ok (xHandler q) (xFormat q)" "thNewTx (xHandler q) = None" using q by (simp_all add: txs_ok_def Let_def)
  have lim: "0 < unat (xLimit q)" "unat (xLimit q) < 2 ^ 63" using h(3-5) by (simp_all add: word_less_nat_alt word_le_nat_alt)
  have valid: "thIsValid (xHandler q) (txs_request q cursor) (thMaxLimit (xHandler q)) (LedgerSequence (hd ?t), LedgerSequence (last ?t)) = None"
    unfolding txs_request_def by (rule tx_protocol_valid [OF h(6,4)]) (use r(3-6) in \<open>simp add: word_le_nat_alt\<close>)
  have "unat f \<in> set (seqs ?t)" using f(2) by (auto simp: seqs_def)
  then have fb: "a \<le> unat f" "unat f < b" unfolding r(1) by simp_all
  have s: "seqs (seq_from f ?t) = [unat f..<b]"
    using seqs_drop [OF r(1), of "unat f - a"] seqs_filter_ge [OF r(1), of "unat f"] fb(1) by (simp add: seq_from_def word_le_nat_alt)
  have last: "i32 (uint (LedgerSequence (last ?t))) = int b - 1" 
  proof -
    have "uint (LedgerSequence (last ?t)) = int b - 1" using arg_cong [OF r(6), of int] by simp
    then show ?thesis using i32_small [of "int b - 1"] r(2,6) by simp
  qed
  have "set (seq_from f ?t) \<subseteq> set ?t" by (auto simp: seq_from_def)
  note pl = process_ledgers_page [OF h(2) p(2) lim(2) this s less_imp_le [OF fb(2)] r(2), of "[]" "\<lparr>toLedger = 0, toTx = 0, toOp = 0\<rparr>"]
  obtain c where c: "process_ledgers (xHandler q) ?t p (xLimit q) (xFormat q) (int (unat f)) (int b - 1) \<lparr>toLedger = 0, toTx = 0, toOp = 0\<rparr> [] =
      Some (Inr (c, take (unat (xLimit q)) (concat (map (infos_from P (xFormat q) p) (seq_from f ?t)))))"
      "unat (xLimit q) \<le> length (concat (map (infos_from P (xFormat q) p) (seq_from f ?t))) \<longrightarrow>
        c = tx_pos (last (take (unat (xLimit q)) (concat (map (infos_from P (xFormat q) p) (seq_from f ?t)))))" using pl lim(1) h(1) by auto
  show ?thesis using r(7) h(1,7) valid p(1) f(1) last c
    by (simp add: txs_answer_def tx_token_def getTransactionsByLedgerSequence_def store_range_def lcm_info_def txs_request_def)
qed

lemma concat_split:
  "concat (map f ls) = ys @ r # zs \<Longrightarrow> \<exists>ls1 l ls2 k. ls = ls1 @ l # ls2 \<and> k < length (f l) \<and> r = f l ! k \<and> zs = drop (Suc k) (f l) @ concat (map f ls2)"
proof (induction ls arbitrary: ys)
  case (Cons l ls)
  have "f l @ concat (map f ls) = ys @ r # zs" using Cons.prems by simp
  then consider us where "f l = ys @ r # us" "us @ concat (map f ls) = zs" | us where "concat (map f ls) = us @ r # zs"
    by (auto simp: append_eq_append_conv2 append_eq_Cons_conv)
  then show ?case
  proof cases
    case 1
    then show ?thesis by (intro exI [of _ "[]"] exI [of _ l] exI [of _ ls] exI [of _ "length ys"]) simp
  next
    case 2
    from Cons.IH [OF this] show ?thesis by (metis append_Cons)
  qed
qed simp

lemma txs_page_token:
  assumes q: "txs_ok P q" and l: "l \<in> set (ledger_close_meta (tables (xDB q)))" and k: "k \<le> length (ledger_txs l)"
  defines "p \<equiv> \<lparr>toLedger = uint (LedgerSequence l), toTx = int k, toOp = 1\<rparr>"
  shows "tx_initializePagination (xHandler q) (txs_request q (tpPrintToid P p)) = Inr (p\<lparr>toTx := int k + 1\<rparr>, xLimit q)" "tpPrintToid P p \<noteq> []"
    "txs_answer q (tpPrintToid P p) (take (unat (xLimit q)) (concat (map (infos_from P (xFormat q) (p\<lparr>toTx := int k + 1\<rparr>)) (seq_from (LedgerSequence l) (ledger_close_meta (tables (xDB q)))))))"
proof -
  have h: "thPkg (xHandler q) = P" "0 < xLimit q" "length (ledger_txs l) + 1 < 2 ^ 20" "toids_ok P" "unat (LedgerSequence l) < 2 ^ 31 - 1"
    using q l by (auto simp: txs_ok_def Let_def txs_handler_ok_def)
  have "uint (LedgerSequence l) < 2 ^ 31" using uint_bound [of "LedgerSequence l" "2 ^ 31 - 1"] h(5) by simp
  then have "toid_in_range p" using h(3) k by (simp add: toid_in_range_def p_def)
  then have tp: "map_option (tpParseToid P) (ParseInt 64 (tpPrintToid P p)) = Some p" and ne: "tpPrintToid P p \<noteq> []" using h(4) by (auto simp: toids_ok_def)
  show "tpPrintToid P p \<noteq> []" by (rule ne)
  have "i32 (int k + 1) = int k + 1" using i32_small [of "int k + 1"] h(3) k by simp
  with tp ne h(1,2) show init: "tx_initializePagination (xHandler q) (txs_request q (tpPrintToid P p)) = Inr (p\<lparr>toTx := int k + 1\<rparr>, xLimit q)"
    by (auto simp: tx_initializePagination_def txs_request_def uint32ToInt32_def p_def Let_def)
  show "txs_answer q (tpPrintToid P p) (take (unat (xLimit q)) (concat (map (infos_from P (xFormat q) (p\<lparr>toTx := int k + 1\<rparr>)) (seq_from (LedgerSequence l) (ledger_close_meta (tables (xDB q)))))))"
    by (rule txs_page_from [OF q init]) (use l in \<open>simp_all add: p_def\<close>)
qed

lemma seq_from_distinct:
  assumes "seqs t = [a..<b]" "seq_from f t = l # ls" "x \<in> set ls"
  shows "LedgerSequence x \<noteq> LedgerSequence l"
proof -
  have "seq_from f t = drop (unat f - a) t" using seqs_filter_ge [OF assms(1), of "unat f"] by (simp add: seq_from_def word_le_nat_alt)
  with seqs_drop [OF assms(1), of "unat f - a"] assms(2) have "seqs (l # ls) = [a + (unat f - a)..<b]" by simp
  then have "distinct (seqs (l # ls))" by (metis distinct_upt)
  then have "unat (LedgerSequence l) \<notin> set (seqs ls)" by simp
  moreover have "unat (LedgerSequence x) \<in> set (seqs ls)" using assms(3) by (simp add: seqs_def)
  ultimately show ?thesis by metis
qed

lemma infos_from_first:
  assumes "seqs t = [a..<b]" "seq_from (LedgerSequence l) t = l # ls"
  shows "concat (map (infos_from P format \<lparr>toLedger = uint (LedgerSequence l), toTx = int k + 1, toOp = n\<rparr>) (l # ls)) = drop k (infos P format l) @ concat (map (infos P format) ls)"
proof -
  have "infos_from P format \<lparr>toLedger = uint (LedgerSequence l), toTx = int k + 1, toOp = n\<rparr> x = infos P format x" if "x \<in> set ls" for x
    using seq_from_distinct [OF assms that] by (simp add: infos_from_def word_uint_eq_iff)
  then have "map (infos_from P format \<lparr>toLedger = uint (LedgerSequence l), toTx = int k + 1, toOp = n\<rparr>) ls = map (infos P format) ls" by (intro map_cong refl)
  moreover have "infos_from P format \<lparr>toLedger = uint (LedgerSequence l), toTx = int k + 1, toOp = n\<rparr> l = drop k (infos P format l)" by (simp add: infos_from_def)
  ultimately show ?thesis by (simp only: list.map concat.simps)
qed

lemma txs_answer_first:
  assumes "txs_ok P q"
  shows "txs_answer q [] (take (unat (xLimit q)) (txs_served q))"
proof -
  let ?t = "ledger_close_meta (tables (xDB q))" and ?p = "\<lparr>toLedger = uint (xStart q), toTx = 1, toOp = 1\<rparr>"
  have k: "xLimit q \<noteq> 0" "thPkg (xHandler q) = P" "xStart q \<in> LedgerSequence ` set ?t" using assms by (auto simp: txs_ok_def Let_def)
  obtain b where r: "b < 2 ^ 31" "unat (xStart q) < b" by (rule txs_query_range [OF assms])
  have "uint (xStart q) < 2 ^ 31" using uint_bound [of "xStart q" "2 ^ 31"] r by simp
  then have "tx_initializePagination (xHandler q) (txs_request q []) = Inr (?p, xLimit q)"
    using k(1) by (simp add: tx_initializePagination_def txs_request_def uint32ToInt32_def word_gt_0)
  from txs_page_from [OF assms this _ _ k(3)] have "txs_answer q [] (take (unat (xLimit q)) (concat (map (infos_from P (xFormat q) ?p) (seq_from (xStart q) ?t))))" by simp
  moreover have "infos_from P (xFormat q) ?p = infos P (xFormat q)" by (rule ext) (simp add: infos_from_def)
  ultimately show ?thesis using k(2) by (simp add: txs_served_def)
qed

lemma seq_from_self:
  assumes "seqs t = [a..<b]" "b \<le> 2 ^ 31" "seq_from f t = xs @ l # ys"
  shows "seq_from (LedgerSequence l) t = l # ys"
proof -
  note tl = seq_from_tail [OF assms]
  have "unat (LedgerSequence l) \<in> set (seqs t)" using tl(1) by (auto simp: seqs_def)
  then have lb: "a \<le> unat (LedgerSequence l)" "unat (LedgerSequence l) < b" unfolding assms(1) by simp_all
  obtain l' where l': "l' \<in> set t" "LedgerSequence l' = LedgerSequence l" "seq_from (LedgerSequence l) t = l' # ys"
    using seq_from_step [OF assms(1) lb assms(2)] tl(2) by metis
  then have "l' = l" using getLedgerFromDB_found [OF gaplessI [OF assms(1)] tl(1)] getLedgerFromDB_found [OF gaplessI [OF assms(1)] l'(1)] by simp
  with l'(3) show ?thesis by simp
qed

lemma txs_answer_next:
  assumes q: "txs_ok P q" and s: "txs_served q = ys @ x # zs"
  shows "txs_answer q (tx_token P x) (take (unat (xLimit q)) zs)"
proof -
  let ?t = "ledger_close_meta (tables (xDB q))"
  have k: "thPkg (xHandler q) = P" "\<forall>l\<in>set ?t. reader_ok P l" using q by (auto simp: txs_ok_def Let_def txs_handler_ok_def)
  obtain a b where r: "seqs ?t = [a..<b]" "b < 2 ^ 31" by (rule txs_query_range [OF q])
  obtain ls1 l ls2 i where ls: "seq_from (xStart q) ?t = ls1 @ l # ls2" "i < length (infos P (xFormat q) l)" "x = infos P (xFormat q) l ! i"
    "zs = drop (Suc i) (infos P (xFormat q) l) @ concat (map (infos P (xFormat q)) ls2)"
    using concat_split [of "infos P (xFormat q)" "seq_from (xStart q) ?t" ys x zs] s unfolding txs_served_def k(1) by auto
  have l: "l \<in> set ?t" using seq_from_tail(1) [OF r(1) less_imp_le [OF r(2)] ls(1)] .
  have rd: "reader_ok P l" "i < length (ledger_txs l)" using k(2) l ls(2) by (auto simp: infos_def)
  note from_l = seq_from_self [OF r(1) less_imp_le [OF r(2)] ls(1)]
  have tok: "tx_token P x = tpPrintToid P \<lparr>toLedger = uint (LedgerSequence l), toTx = int (i + 1), toOp = 1\<rparr>"
    using info_position [OF rd, of "xFormat q"] by (simp add: tx_token_def tx_pos_def ls(3))
  have "i + 1 \<le> length (ledger_txs l)" using rd(2) by simp
  from txs_page_token(3) [OF q l this] infos_from_first [OF r(1) from_l, of P "xFormat q" "i + 1" 1] show ?thesis
    unfolding tok from_l ls(4) by (simp del: take_append list.map concat.simps)
qed

interpretation tx_pages: paged_query "txs_ok P" txs_served txs_page "tx_token P" "\<lambda>q. unat (xLimit q)" for P
proof
  fix q assume q: "txs_ok P q"
  show "0 < unat (xLimit q)" using q by (simp add: txs_ok_def Let_def word_less_nat_alt)
  show "txs_page q [] = take (unat (xLimit q)) (txs_served q)" by (rule txs_answer_page [OF txs_answer_first [OF q]])
  show "txs_page q (tx_token P x) = take (unat (xLimit q)) zs" if "txs_served q = ys @ x # zs" for ys x zs
    by (rule txs_answer_page [OF txs_answer_next [OF q that]])
qed

text \<open>
  C26. A client that asks for the transactions from a ledger on, and goes on with the position of the last transaction it got as the cursor, gets every transaction of the ledgers up to the latest exactly
  once, in order, and never more than its limit at a time, however the transactions spread over ledgers, empty ones included. That position is the cursor which the response to a full page carries, both for the first
  request and for every later one.
\<close>

theorem transaction_pages_visit_all:
  assumes "txs_ok P q" "length (txs_served q) \<le> n"
  shows "concat (walk (txs_page q) (tx_token P) [] (Suc n)) = txs_served q \<and>
    (\<forall>rs\<in>set (walk (txs_page q) (tx_token P) [] (Suc n)). rs \<noteq> [] \<and> length rs \<le> unat (xLimit q)) \<and>
    txs_answer q [] (take (unat (xLimit q)) (txs_served q)) \<and>
    (\<forall>i<length (txs_served q). txs_answer q (tx_token P (txs_served q ! i)) (take (unat (xLimit q)) (drop (Suc i) (txs_served q))))"
  using tx_pages.walk_all [OF assms] txs_answer_first [OF assms(1)] txs_answer_next [OF assms(1)] id_take_nth_drop by blast

text \<open>The cursor at the end.\<close>

lemma process_ledgers_last:
  assumes h: "txs_handler_ok h format t" and l: "l \<in> set t" and p: "toLedger p = uint (LedgerSequence l)" "toTx p = int (length (ledger_txs l)) + 1"
    and n: "0 < unat limit" "unat limit < 2 ^ 63"
  shows "process_ledgers h t p limit format (uint (LedgerSequence l)) (uint (LedgerSequence l)) cursor [] = Some (Inr (\<lparr>toLedger = uint (LedgerSequence l), toTx = 0, toOp = 1\<rparr>, []))"
proof -
  have b: "unat (LedgerSequence l) < 2 ^ 31 - 1" "reader_ok (thPkg h) l" "encodes (thPkg h) format l" using h l by (auto simp: txs_handler_ok_def)
  have u: "uint (LedgerSequence l) < 2 ^ 31 - 1" using uint_bound [of "LedgerSequence l" "2 ^ 31 - 1"] b(1) by simp
  have none: "infos_from (thPkg h) format p l = []" using p by (simp add: infos_from_def infos_def)
  have "1 \<le> toTx p" "uint (LedgerSequence l) < 2 ^ 31" "length ([] :: TransactionInfo list) < unat limit" using p(2) u n(1) by simp_all
  from processTransactionsInLedger_page [OF b(2,3) this n(2)] none n(1) obtain c where
    c: "processTransactionsInLedger (thPkg h) l p [] limit format = Inr (c, False, [])" "toLedger c = uint (LedgerSequence l)" "toOp c = 1" "toTx c = 0" by auto
  have c': "c = \<lparr>toLedger = uint (LedgerSequence l), toTx = 0, toOp = 1\<rparr>" using c(2-4) by simp
  have "i32 (uint (LedgerSequence l) + 1) = uint (LedgerSequence l) + 1" using i32_small [of "uint (LedgerSequence l) + 1"] u by simp
  with fetchLedgerData_found [OF h l] c(1) show ?thesis unfolding c' by (subst process_ledgers.simps) (simp, subst process_ledgers.simps, simp)
qed

text \<open>
  C27. A client that has read up to the last transaction of the latest ledger and polls for more gets no transactions, but the cursor in that response lies before the first transaction of the latest ledger: the
  client that goes on with it, as the method means it to, gets the transactions of this ledger a second time.
\<close>

theorem empty_page_cursor_goes_back:
  fixes q :: txs_query
  defines "l \<equiv> last (ledger_close_meta (tables (xDB q)))"
  assumes "txs_ok P q" "ledger_txs l \<noteq> []"
  shows "\<exists>r. getTransactionsByLedgerSequence (xHandler q) (xDB q) (txs_request q (tx_token P (last (txs_served q)))) = Some (Inr r) \<and> trsTransactions r = [] \<and>
    txs_answer q (trsCursor r) (take (unat (xLimit q)) (infos P (xFormat q) l))"
proof -
  let ?t = "ledger_close_meta (tables (xDB q))" and ?k = "length (ledger_txs l)"
  have h: "thPkg (xHandler q) = P" "txs_handler_ok (xHandler q) (xFormat q) ?t" "0 < xLimit q" "xLimit q \<le> thMaxLimit (xHandler q)" "unat (thMaxLimit (xHandler q)) < 2 ^ 63"
    "tx_protocol_ok (xHandler q) (xFormat q)" "thNewTx (xHandler q) = None" "?t \<noteq> []" using assms(2) by (simp_all add: txs_ok_def Let_def)
  have l: "l \<in> set ?t" using h(8) by (simp add: l_def)
  then have rd: "reader_ok P l" using h(1,2) by (auto simp: txs_handler_ok_def)
  obtain a b where r: "seqs ?t = [a..<b]" "b < 2 ^ 31" "a \<le> unat (xStart q)" "unat (xStart q) < b" "unat (LedgerSequence (hd ?t)) = a"
    "unat (LedgerSequence l) + 1 = b" "GetLedgerRange (xDB q) = Inr (store_range ?t)" unfolding l_def by (rule txs_query_range [OF assms(2)])
  have "xStart q \<le> LedgerSequence l" using r(4,6) by (simp add: word_le_nat_alt)
  then have "seq_from (xStart q) (butlast ?t @ [l]) = filter (\<lambda>x. xStart q \<le> LedgerSequence x) (butlast ?t) @ l # []" by (simp add: seq_from_def)
  then have sf: "seq_from (xStart q) ?t = filter (\<lambda>x. xStart q \<le> LedgerSequence x) (butlast ?t) @ l # []" using append_butlast_last_id [OF h(8)] by (simp add: l_def)
  have k: "?k - 1 < ?k" "?k \<le> ?k" using assms(3) by simp_all
  have "infos P (xFormat q) l \<noteq> []" using assms(3) by (simp add: infos_def)
  then have "last (txs_served q) = last (infos P (xFormat q) l)" by (simp add: txs_served_def sf h(1))
  then have "last (txs_served q) = infos P (xFormat q) l ! (?k - 1)" using assms(3) by (simp add: infos_def last_conv_nth)
  then have tok: "tx_token P (last (txs_served q)) = tpPrintToid P \<lparr>toLedger = uint (LedgerSequence l), toTx = int ?k, toOp = 1\<rparr>"
    using info_position [OF rd k(1), of "xFormat q"] assms(3) by (simp add: tx_token_def tx_pos_def)
  note init = txs_page_token(1) [OF assms(2) l k(2)]
  have lim: "0 < unat (xLimit q)" "unat (xLimit q) < 2 ^ 63" using h(3-5) by (simp_all add: word_less_nat_alt word_le_nat_alt)
  have ne: "tx_token P (last (txs_served q)) \<noteq> []" "i32 (uint (LedgerSequence l)) = uint (LedgerSequence l)"
    using txs_page_token(2) [OF assms(2) l k(2)] tok i32_small [of "uint (LedgerSequence l)"] uint_bound [of "LedgerSequence l" "2 ^ 31"] r(2,6) by simp_all
  have valid: "thIsValid (xHandler q) (txs_request q (tx_token P (last (txs_served q)))) (thMaxLimit (xHandler q)) (LedgerSequence (hd ?t), LedgerSequence l) = None"
    unfolding txs_request_def by (rule tx_protocol_valid [OF h(6,4)]) (use ne(1) in simp)
  let ?p = "\<lparr>toLedger = uint (LedgerSequence l), toTx = int ?k + 1, toOp = 1\<rparr>"
  have "process_ledgers (xHandler q) ?t ?p (xLimit q) (xFormat q) (uint (LedgerSequence l)) (uint (LedgerSequence l)) \<lparr>toLedger = 0, toTx = 0, toOp = 0\<rparr> [] =
      Some (Inr (\<lparr>toLedger = uint (LedgerSequence l), toTx = 0, toOp = 1\<rparr>, []))" by (rule process_ledgers_last [OF h(2) l _ _ lim]) simp_all
  then have "getTransactionsByLedgerSequence (xHandler q) (xDB q) (txs_request q (tx_token P (last (txs_served q)))) =
      Some (Inr \<lparr>trsTransactions = [], trsRange = store_range ?t, trsCursor = tpPrintToid P \<lparr>toLedger = uint (LedgerSequence l), toTx = int 0, toOp = 1\<rparr>\<rparr>)"
    using r(7) h(1,7) valid init ne(2) unfolding tok
    by (simp add: getTransactionsByLedgerSequence_def store_range_def lcm_info_def txs_request_def flip: l_def)
  moreover have "txs_answer q (tpPrintToid P \<lparr>toLedger = uint (LedgerSequence l), toTx = int 0, toOp = 1\<rparr>) (take (unat (xLimit q)) (infos P (xFormat q) l))"
    using txs_page_token(3) [OF assms(2) l, of 0] seq_from_self [OF r(1) less_imp_le [OF r(2)] sf] by (simp add: infos_from_def)
  ultimately show ?thesis by simp
qed

subsection \<open>A query\<close>

text \<open>
  Three ledgers, of which the second is empty. Positions are packed into one number as the TOID package does, with 32 bits for the ledger, 20 for the transaction and 12 for the operation.
\<close>

definition pack_toid :: "toid \<Rightarrow> string" where
  "pack_toid t = Int_String (toLedger t * 2 ^ 32 + toTx t * 2 ^ 12 + toOp t)"

definition unpack_toid :: "int \<Rightarrow> toid" where
  "unpack_toid i = \<lparr>toLedger = i div 2 ^ 32, toTx = i div 2 ^ 12 mod 2 ^ 20, toOp = i mod 2 ^ 12\<rparr>"

lemma unpack_pack: "toid_in_range t \<Longrightarrow> map_option unpack_toid (ParseInt 64 (pack_toid t)) = Some t"
proof -
  assume "toid_in_range t"
  then obtain l x p where t: "t = \<lparr>toLedger = l, toTx = x, toOp = p\<rparr>" "0 \<le> l" "0 \<le> x" "x < 2 ^ 20" "0 \<le> p" "p < 2 ^ 12" "l < 2 ^ 31" by (cases t) (simp add: toid_in_range_def)
  have "(l * 2 ^ 32 + x * 2 ^ 12 + p) div 2 ^ 12 = l * 2 ^ 20 + x" using t(5,6) by simp
  moreover have "(l * 2 ^ 32 + x * 2 ^ 12 + p) div 2 ^ 32 = (l * 2 ^ 32 + x * 2 ^ 12 + p) div 2 ^ 12 div 2 ^ 20" by (simp add: zdiv_zmult2_eq [symmetric])
  moreover have "(p + (l * 2 ^ 20 + x) * 2 ^ 12) mod 2 ^ 12 = p" using t(5,6) by (subst mod_mult_self1) simp
  then have "(l * 2 ^ 32 + x * 2 ^ 12 + p) mod 2 ^ 12 = p" by (simp add: algebra_simps)
  moreover have "ParseInt 64 (Int_String (l * 2 ^ 32 + x * 2 ^ 12 + p)) = Some (l * 2 ^ 32 + x * 2 ^ 12 + p)" using t by (simp add: ParseInt_def)
  ultimately show ?thesis using t by (simp add: pack_toid_def unpack_toid_def)
qed

definition wit_tx :: "nat \<Rightarrow> RpcTx" where
  "wit_tx k = \<lparr>rtHash = nat_string k, rtInnerHash = None, rtIndex = of_nat k, rtSuccessful = True, rtEvents = Inr ([], [])\<rparr>"

definition wit_tx_ledger :: "u32 \<Rightarrow> nat \<Rightarrow> Lcm" where
  "wit_tx_ledger n k = \<lparr>LedgerSequence = n, LedgerCloseTime = 0, CountTransactions = k, TxReader = Inr (map (Inr \<circ> wit_tx) [1..<k + 1]), FeeReader = Inr []\<rparr>"

definition wit_tx_pkg :: tx_pkg where
  "wit_tx_pkg = \<lparr>tpSeek = (\<lambda>l i. if 0 \<le> i \<and> i < int (length (ledger_txs l)) then SeekOk (nat i) else SeekEOF), tpParseToid = unpack_toid, tpPrintToid = pack_toid,
     tpEncode = (\<lambda>tx. Inr (rtHash tx)), tpConvert = (\<lambda>_ x. Inr x)\<rparr>"

definition wit_txs_query :: txs_query where
  "wit_txs_query = \<lparr>xHandler = \<lparr>thMaxLimit = 2, thDefaultLimit = 1, thPkg = wit_tx_pkg,
       thIsValid = (\<lambda>r m rng. case trqPagination r of None \<Rightarrow> None | Some p \<Rightarrow> if m < pgLimit p then Some ''limit'' else None), thNewTx = None, thSelect = None\<rparr>,
     xDB = \<lparr>tables = \<lparr>ledger_close_meta = [wit_tx_ledger 5 3, wit_tx_ledger 6 0, wit_tx_ledger 7 2], transactions_t = [], events_t = []\<rparr>,
       cache = \<lparr>latestLedgerSeq = 7, latestLedgerCloseTime = 0\<rparr>\<rparr>,
     xStart = 5, xLimit = 2, xFormat = []\<rparr>"

lemma wit_tx_ledger_txs: "ledger_txs (wit_tx_ledger n k) = map wit_tx [1..<k + 1]"
proof -
  have "concat (map (\<lambda>r. case r of Inl e \<Rightarrow> [] | Inr tx \<Rightarrow> [tx]) (map (Inr \<circ> wit_tx) js :: (string + RpcTx) list)) = map wit_tx js" for js by (induction js) simp_all
  then show ?thesis by (simp only: ledger_txs_def wit_tx_ledger_def Lcm.simps sum.case)
qed

lemma wit_reader_ok: "k < 2 ^ 31 - 1 \<Longrightarrow> reader_ok wit_tx_pkg (wit_tx_ledger n k)"
  unfolding reader_ok_def wit_tx_ledger_txs wit_tx_pkg_def by (simp add: wit_tx_ledger_txs del: upt_Suc) (simp add: wit_tx_ledger_def wit_tx_def del: upt_Suc)

lemma wit_txs_query_ok: "txs_ok wit_tx_pkg wit_txs_query"
proof -
  have "gapless (ledger_close_meta (tables (xDB wit_txs_query)))" by (rule gaplessI [of _ 5 8]) (simp add: wit_txs_query_def wit_tx_ledger_def upt_rec)
  moreover have "tx_protocol_ok (xHandler wit_txs_query) []" by (auto simp: tx_protocol_ok_def wit_txs_query_def)
  moreover have "toids_ok wit_tx_pkg"
    unfolding toids_ok_def
  proof (intro allI impI conjI)
    fix t assume t: "toid_in_range t"
    then show "map_option (tpParseToid wit_tx_pkg) (ParseInt 64 (tpPrintToid wit_tx_pkg t)) = Some t" using unpack_pack by (simp add: wit_tx_pkg_def)
    show "tpPrintToid wit_tx_pkg t \<noteq> []" using nat_string_Cons by (auto simp: wit_tx_pkg_def pack_toid_def Int_String_def) (metis list.distinct(1))
  qed
  moreover have "encodes wit_tx_pkg [] (wit_tx_ledger n k)" for n k by (simp add: encodes_def wit_tx_pkg_def)
  ultimately show ?thesis using wit_reader_ok [of 3 5] wit_reader_ok [of 0 6] wit_reader_ok [of 2 7]
    by (simp add: txs_ok_def txs_handler_ok_def wit_txs_query_def Let_def cache_ok_def lcm_info_def wit_tx_ledger_txs) (simp add: wit_tx_ledger_def)
qed

lemma wit_txs_served: "map (\<lambda>i. (tiLedger i, tiHash i)) (txs_served wit_txs_query) = [(5, ''1''), (5, ''2''), (5, ''3''), (7, ''1''), (7, ''2'')]"
  by code_simp

theorem transaction_pages_visit_all_witness:
  "map (\<lambda>i. (tiLedger i, tiHash i)) (concat (walk (txs_page wit_txs_query) (tx_token wit_tx_pkg) [] 6)) = [(5, ''1''), (5, ''2''), (5, ''3''), (7, ''1''), (7, ''2'')] \<and>
   list_all (\<lambda>rs. rs \<noteq> [] \<and> length rs \<le> 2) (walk (txs_page wit_txs_query) (tx_token wit_tx_pkg) [] 6)"
proof -
  have "length (txs_served wit_txs_query) \<le> 5" using arg_cong [OF wit_txs_served, of length] by simp
  from transaction_pages_visit_all [OF wit_txs_query_ok this] wit_txs_served show ?thesis by (simp add: wit_txs_query_def list_all_iff del: walk.simps)
qed

theorem empty_page_cursor_goes_back_witness:
  "\<exists>r. getTransactionsByLedgerSequence (xHandler wit_txs_query) (xDB wit_txs_query) (txs_request wit_txs_query (tx_token wit_tx_pkg (last (txs_served wit_txs_query)))) = Some (Inr r) \<and>
     trsTransactions r = [] \<and> txs_answer wit_txs_query (trsCursor r) (infos wit_tx_pkg [] (wit_tx_ledger 7 2))"
proof -
  have l: "last (ledger_close_meta (tables (xDB wit_txs_query))) = wit_tx_ledger 7 2" "xFormat wit_txs_query = []" "unat (xLimit wit_txs_query) = 2" by (simp_all add: wit_txs_query_def)
  have "ledger_txs (wit_tx_ledger 7 2) \<noteq> []" "length (infos wit_tx_pkg [] (wit_tx_ledger 7 2)) = 2" by (simp_all add: infos_def wit_tx_ledger_txs)
  then show ?thesis using empty_page_cursor_goes_back [OF wit_txs_query_ok] unfolding l by simp
qed

end
