(* ===== verification/Rpc_Events.thy ===== *)
theory Rpc_Events
  imports Rpc_Ledgers
begin

text \<open>
  The method \<open>getEvents\<close> of the RPC server (\<open>suban-rpc/.../methods/get_events.go\<close>, \<open>db/event.go\<close>): the events of a range of ledgers that match one of the filters of the request. The
  protocol package (validation, matching, cursors), the addresses, the clock format and the encodings are parameters.
\<close>

subsection \<open>Requests\<close>

text \<open>A segment of a topic: a wildcard, or a value, encoded, or the error of encoding it.\<close>

record SegmentFilter =
  sgWildcard :: "string option"
  sgScVal :: "(string + string) option"

record EventFilter =
  efEventType :: "string list"
  efContractIDs :: "string list"
  efTopics :: "SegmentFilter list list"

record EventPagination =
  epCursor :: "Cursor option"
  epLimit :: u64

record GetEventsRequest =
  grStartLedger :: u32
  grEndLedger :: u32
  grFilters :: "EventFilter list"
  grPagination :: "EventPagination option"
  grFormat :: string

record EventInfo =
  eiType :: string
  eiLedger :: int
  eiLedgerClosedAt :: string
  eiContractID :: string
  eiID :: string
  eiInSuccessfulContractCall :: bool
  eiTransactionHash :: string
  eiOpIndex :: u32
  eiTxIndex :: u32
  eiTopicXDR :: "string list"
  eiValueXDR :: string
  eiTopicJSON :: "string list"
  eiValueJSON :: string

record GetEventsResponse =
  gesEvents :: "EventInfo list"
  gesCursor :: string
  gesRange :: LedgerRange

record events_pkg =
  ekValid :: "GetEventsRequest \<Rightarrow> u64 \<Rightarrow> string option"
  ekMatches :: "EventFilter list \<Rightarrow> bool \<times> ContractEvent \<Rightarrow> bool"
  ekIds :: event_ids
  ekParseCursor :: "string \<Rightarrow> Cursor option"
  ekMaxCursor :: Cursor
  ekDecode :: "string \<Rightarrow> string option"
  ekEncode :: "string \<Rightarrow> string option"
  ekTypeXDR :: "string \<Rightarrow> int option"
  ekTypeName :: "int \<Rightarrow> string option"
  ekFormatTime :: "i64 \<Rightarrow> string"
  ekHexString :: "string \<Rightarrow> string"
  ekJSON :: "string \<Rightarrow> string + string"
  ekBase64 :: "string \<Rightarrow> string + string"

record eventsRPCHandler =
  evhPkg :: events_pkg
  evhMaxLimit :: u64
  evhDefaultLimit :: u64
  evhQueryFault :: "string option"
  evhRowFault :: "EventRow \<Rightarrow> string option"
  evhRowsErr :: "string option"

definition LedgerScanLimit :: u32 where
  "LedgerScanLimit = 10000"

subsection \<open>The filters of the query\<close>

fun combine_ids :: "(string \<Rightarrow> string option) \<Rightarrow> string list \<Rightarrow> string list \<Rightarrow> string list \<Rightarrow> string + string list" where
  "combine_ids decode [] seen ids = Inr ids"
| "combine_ids decode (c # cs) seen ids =
     (if c \<in> set seen then combine_ids decode cs seen ids
      else case decode c of
        None \<Rightarrow> Inl (''invalid contract ID: '' @ c)
      | Some i \<Rightarrow> combine_ids decode cs (c # seen) (ids @ [i]))"

definition combineContractIDs :: "events_pkg \<Rightarrow> EventFilter list \<Rightarrow> string + string list" where
  "combineContractIDs P filters = combine_ids (ekDecode P) (concat (map efContractIDs filters)) [] []"

text \<open>A type that the map of the protocol package does not have is read as zero.\<close>

definition combineEventTypes :: "events_pkg \<Rightarrow> EventFilter list \<Rightarrow> int list" where
  "combineEventTypes P filters = remdups (map (\<lambda>t. case ekTypeXDR P t of None \<Rightarrow> 0 | Some x \<Rightarrow> x) (concat (map efEventType filters)))"

record TopicCondition =
  tcColumn :: nat
  tcValue :: string

fun topic_conditions :: "nat \<Rightarrow> SegmentFilter list \<Rightarrow> string + TopicCondition list" where
  "topic_conditions i [] = Inr []"
| "topic_conditions i (s # ss) =
     (if sgWildcard s \<noteq> None then topic_conditions (i + 1) ss
      else case sgScVal s of
        None \<Rightarrow> topic_conditions (i + 1) ss
      | Some (Inl e) \<Rightarrow> Inl (''failed to marshal segment: '' @ e)
      | Some (Inr v) \<Rightarrow> (case topic_conditions (i + 1) ss of Inl e \<Rightarrow> Inl e | Inr cs \<Rightarrow> Inr (\<lparr>tcColumn = i + 1, tcValue = v\<rparr> # cs)))"

text \<open>The topics of one filter; \<open>None\<close> when one of them is all wildcards.\<close>

fun filter_topics :: "SegmentFilter list list \<Rightarrow> TopicCondition list list \<Rightarrow> string + TopicCondition list list option" where
  "filter_topics [] acc = Inr (Some acc)"
| "filter_topics (t # ts) acc = (case topic_conditions 0 t of
       Inl e \<Rightarrow> Inl e
     | Inr [] \<Rightarrow> Inr None
     | Inr cs \<Rightarrow> filter_topics ts (acc @ [cs]))"

fun combine_topics :: "EventFilter list \<Rightarrow> TopicCondition list list \<Rightarrow> string + TopicCondition list list" where
  "combine_topics [] acc = Inr acc"
| "combine_topics (f # fs) acc =
     (if efTopics f = [] then Inr []
      else case filter_topics (efTopics f) acc of
        Inl e \<Rightarrow> Inl e
      | Inr None \<Rightarrow> Inr []
      | Inr (Some acc') \<Rightarrow> combine_topics fs acc')"

definition combineTopics :: "EventFilter list \<Rightarrow> string + TopicCondition list list" where
  "combineTopics filters = combine_topics filters []"

subsection \<open>The query\<close>

definition topic_matches :: "TopicCondition \<Rightarrow> EventRow \<Rightarrow> bool" where
  "topic_matches c r \<longleftrightarrow> erTopics r ! (tcColumn c - 1) = Some (tcValue c)"

definition event_where :: "string \<Rightarrow> string \<Rightarrow> string list \<Rightarrow> TopicCondition list list \<Rightarrow> int list \<Rightarrow> EventRow \<Rightarrow> bool" where
  "event_where start_id end_id contractIDs topics eventTypes r \<longleftrightarrow> start_id \<le> erId r \<and> erId r < end_id \<and>
     (contractIDs = [] \<or> erContractId r \<in> Some ` set contractIDs) \<and>
     (eventTypes = [] \<or> erType r \<in> set eventTypes) \<and>
     (let ors = filter (\<lambda>cs. cs \<noteq> []) topics in ors = [] \<or> list_ex (list_all (\<lambda>c. topic_matches c r)) ors)"

text \<open>The rows, until the scanner has enough.\<close>

fun scan_rows :: "(string \<Rightarrow> Cursor option) \<Rightarrow> (EventRow \<Rightarrow> string option) \<Rightarrow> string option \<Rightarrow> (EventRow \<Rightarrow> Cursor \<Rightarrow> 's \<Rightarrow> bool \<times> 's) \<Rightarrow> EventRow list \<Rightarrow> 's \<Rightarrow> string + 's" where
  "scan_rows parse fault rows_err scanner [] s = (case rows_err of Some e \<Rightarrow> Inl e | None \<Rightarrow> Inr s)"
| "scan_rows parse fault rows_err scanner (r # rs) s = (case fault r of
       Some e \<Rightarrow> Inl e
     | None \<Rightarrow> (case parse (erId r) of
         None \<Rightarrow> Inl ''failed to parse cursor''
       | Some c \<Rightarrow> (case scanner r c s of (goes_on, s') \<Rightarrow> if goes_on then scan_rows parse fault rows_err scanner rs s' else Inr s')))"

definition GetEvents ::
  "eventsRPCHandler \<Rightarrow> EventRow list \<Rightarrow> Cursor \<Rightarrow> Cursor \<Rightarrow> string list \<Rightarrow> TopicCondition list list \<Rightarrow> int list \<Rightarrow> (EventRow \<Rightarrow> Cursor \<Rightarrow> 's \<Rightarrow> bool \<times> 's) \<Rightarrow> 's \<Rightarrow> string + 's" where
  "GetEvents h t start_c end_c contractIDs topics eventTypes scanner s = (let P = evhPkg h in
     if None \<in> set (map (ekEncode P) contractIDs) then Inl ''failed to encode contract id''
     else case evhQueryFault h of
       Some e \<Rightarrow> Inl e
     | None \<Rightarrow> if list_ex (list_ex (\<lambda>c. MaxTopicCount < tcColumn c)) topics then Inl ''no such column''
         else scan_rows (ekParseCursor P) (evhRowFault h) (evhRowsErr h) scanner
                (sort_key erId (filter (event_where (ekIds P start_c) (ekIds P end_c) contractIDs topics eventTypes) t)) s)"

subsection \<open>The response\<close>

fun convert_all :: "(string \<Rightarrow> string + string) \<Rightarrow> string list \<Rightarrow> string + string list" where
  "convert_all f [] = Inr []"
| "convert_all f (x # xs) = (case f x of Inl e \<Rightarrow> Inl e | Inr y \<Rightarrow> (case convert_all f xs of Inl e \<Rightarrow> Inl e | Inr ys \<Rightarrow> Inr (y # ys)))"

text \<open>\<open>eventInfoForEvent\<close>; \<open>None\<close> is the panic of \<open>strkey.MustEncode\<close>.\<close>

definition eventInfoForEvent :: "events_pkg \<Rightarrow> bool \<times> ContractEvent \<Rightarrow> Cursor \<Rightarrow> string \<Rightarrow> string \<Rightarrow> string \<Rightarrow> (string + EventInfo) option" where
  "eventInfoForEvent P event cursor ledgerClosedAt txHash format = (case evBody (snd event) of
       None \<Rightarrow> Some (Inl ''unknown event version'')
     | Some (topics, data) \<Rightarrow> (case ekTypeName P (evType (snd event)) of
         None \<Rightarrow> Some (Inl ''unknown XDR ContractEventType type'')
     | Some eventType \<Rightarrow> if \<not> uint (cuLedger cursor) < 2 ^ 31 then Some (Inl ''ledger sequence exceeds supported range'')
       else (let info = \<lparr>eiType = eventType, eiLedger = uint (cuLedger cursor), eiLedgerClosedAt = ledgerClosedAt, eiContractID = [], eiID = ekIds P cursor,
                 eiInSuccessfulContractCall = fst event, eiTransactionHash = txHash, eiOpIndex = cuOp cursor, eiTxIndex = cuTx cursor,
                 eiTopicXDR = [], eiValueXDR = [], eiTopicJSON = [], eiValueJSON = []\<rparr>;
               conv = (if format = ''json'' then ekJSON P else ekBase64 P)
         in case convert_all conv topics of
              Inl e \<Rightarrow> Some (Inl e)
            | Inr ts \<Rightarrow> (case conv data of
                Inl e \<Rightarrow> Some (Inl e)
              | Inr v \<Rightarrow> (let info' = (if format = ''json'' then info\<lparr>eiTopicJSON := ts, eiValueJSON := v\<rparr> else info\<lparr>eiTopicXDR := ts, eiValueXDR := v\<rparr>) in
                  case evContractId (snd event) of
                    None \<Rightarrow> Some (Inr info')
                  | Some c \<Rightarrow> (case ekEncode P c of None \<Rightarrow> None | Some s \<Rightarrow> Some (Inr (info'\<lparr>eiContractID := s\<rparr>))))))))"

definition entry_info :: "events_pkg \<Rightarrow> string \<Rightarrow> EventRow \<times> Cursor \<Rightarrow> (string + EventInfo) option" where
  "entry_info P format e = (case e of (r, c) \<Rightarrow> eventInfoForEvent P (erEvent r) c (ekFormatTime P (erCloseTime r)) (ekHexString P (erTxHash r)) format)"

fun entry_infos :: "events_pkg \<Rightarrow> string \<Rightarrow> (EventRow \<times> Cursor) list \<Rightarrow> (string + EventInfo list) option" where
  "entry_infos P format [] = Some (Inr [])"
| "entry_infos P format (e # es) = (case entry_info P format e of
       None \<Rightarrow> None
     | Some (Inl x) \<Rightarrow> Some (Inl (''could not parse event: '' @ x))
     | Some (Inr i) \<Rightarrow> (case entry_infos P format es of
         None \<Rightarrow> None
       | Some (Inl x) \<Rightarrow> Some (Inl x)
       | Some (Inr is') \<Rightarrow> Some (Inr (i # is'))))"

text \<open>The scanner of \<open>getEvents\<close> collects the entries that match, up to the limit.\<close>

definition event_scanner :: "events_pkg \<Rightarrow> EventFilter list \<Rightarrow> nat \<Rightarrow> EventRow \<Rightarrow> Cursor \<Rightarrow> (EventRow \<times> Cursor) list \<Rightarrow> bool \<times> (EventRow \<times> Cursor) list" where
  "event_scanner P filters limit r c found = (let found' = (if ekMatches P filters (erEvent r) then found @ [(r, c)] else found) in (length found' < limit, found'))"

definition events_start :: "GetEventsRequest \<Rightarrow> Cursor" where
  "events_start request = (case Option.bind (grPagination request) epCursor of
       None \<Rightarrow> \<lparr>cuLedger = grStartLedger request, cuTx = 0, cuOp = 0, cuEvent = 0\<rparr>
     | Some c \<Rightarrow> c\<lparr>cuEvent := cuEvent c + 1\<rparr>)"

definition events_limit :: "eventsRPCHandler \<Rightarrow> GetEventsRequest \<Rightarrow> u64" where
  "events_limit h request = (case grPagination request of None \<Rightarrow> evhDefaultLimit h | Some p \<Rightarrow> if 0 < epLimit p then epLimit p else evhDefaultLimit h)"

definition events_end :: "GetEventsRequest \<Rightarrow> LedgerRange \<Rightarrow> u32" where
  "events_end request r = (let e = min (Sequence (LastLedger r) + 1) (cuLedger (events_start request) + LedgerScanLimit) in
     if grEndLedger request \<noteq> 0 then min (grEndLedger request) e else e)"

text \<open>\<open>getEvents\<close>; \<open>None\<close> is a panic, also that of reading the last of no events when the limit is zero.\<close>

definition getEvents :: "eventsRPCHandler \<Rightarrow> DB \<Rightarrow> GetEventsRequest \<Rightarrow> (jrpc_error + GetEventsResponse) option" where
  "getEvents h d request = (let P = evhPkg h in case ekValid P request (evhMaxLimit h) of
       Some e \<Rightarrow> Some (Inl (JrpcError InvalidParams e))
     | None \<Rightarrow> (case Rpc_Store.GetLedgerRange d of
         Inl e \<Rightarrow> Some (Inl (JrpcError InternalError (error_string e)))
     | Inr rng \<Rightarrow>
       let start_c = events_start request; limit = events_limit h request; endLedger = events_end request rng;
           end_c = \<lparr>cuLedger = endLedger, cuTx = 0, cuOp = 0, cuEvent = 0\<rparr> in
       if cuLedger start_c < Sequence (FirstLedger rng) \<or> Sequence (LastLedger rng) < cuLedger start_c
       then Some (Inl (JrpcError InvalidRequest ''startLedger must be within the ledger range''))
       else (case combineContractIDs P (grFilters request) of
         Inl e \<Rightarrow> Some (Inl (JrpcError InvalidParams e))
     | Inr contractIDs \<Rightarrow> (case combineTopics (grFilters request) of
         Inl e \<Rightarrow> Some (Inl (JrpcError InvalidParams e))
     | Inr topics \<Rightarrow>
        (case GetEvents h (events_t (tables d)) start_c end_c contractIDs topics (combineEventTypes P (grFilters request)) (event_scanner P (grFilters request) (unat limit)) [] of
         Inl e \<Rightarrow> Some (Inl (JrpcError InvalidRequest e))
     | Inr found \<Rightarrow> (case entry_infos P (grFormat request) found of
         None \<Rightarrow> None
       | Some (Inl e) \<Rightarrow> Some (Inl (JrpcError SystemError e))
       | Some (Inr results) \<Rightarrow> if length results = unat limit \<and> results = [] then None else Some (Inr \<lparr>gesEvents = results,
           gesCursor = (if length results = unat limit then eiID (last results) else ekIds P ((ekMaxCursor P)\<lparr>cuLedger := endLedger - 1\<rparr>)),
           gesRange = rng\<rparr>)))))))"

end
