(* ===== verification/Rpc_Event_Pages.thy ===== *)
theory Rpc_Event_Pages
  imports Rpc_Events Rpc_Claims
begin

text \<open>
  The pages of \<open>getEvents\<close>: a client that follows the cursors gets every event that matches, also across the windows of ledgers in which the method searches, and the events that are lost when
  only some of the filters name contracts.
\<close>

subsection \<open>The condition of the query keeps what matches\<close>

text \<open>
  What the protocol package promises of matching: an event that matches, when there are filters, has the type, the contract and the topics that one of them asks for.
\<close>

definition topic_fits :: "SegmentFilter list \<Rightarrow> string list \<Rightarrow> bool" where
  "topic_fits segs topics \<longleftrightarrow> (\<forall>i<length segs. sgWildcard (segs ! i) = None \<longrightarrow> (\<forall>v. sgScVal (segs ! i) = Some (Inr v) \<longrightarrow> i < length topics \<and> topics ! i = v))"

definition filter_fits :: "events_pkg \<Rightarrow> EventFilter \<Rightarrow> ContractEvent \<Rightarrow> bool" where
  "filter_fits P f ev \<longleftrightarrow> (efEventType f = [] \<or> Some (evType ev) \<in> ekTypeXDR P ` set (efEventType f)) \<and>
     (efContractIDs f = [] \<or> evContractId ev \<noteq> None \<and> evContractId ev \<in> ekDecode P ` set (efContractIDs f)) \<and>
     (efTopics f = [] \<or> (\<exists>segs\<in>set (efTopics f). \<exists>topics data. evBody ev = Some (topics, data) \<and> topic_fits segs topics))"

definition matches_sound :: "events_pkg \<Rightarrow> EventFilter list \<Rightarrow> bool" where
  "matches_sound P filters \<longleftrightarrow> (\<forall>b ev. ekMatches P filters (b, ev) \<longrightarrow> filters = [] \<or> (\<exists>f\<in>set filters. filter_fits P f ev))"

text \<open>All filters name contracts or none does, and the same of types.\<close>

definition uniform :: "EventFilter list \<Rightarrow> bool" where
  "uniform filters \<longleftrightarrow> ((\<forall>f\<in>set filters. efContractIDs f = []) \<or> (\<forall>f\<in>set filters. efContractIDs f \<noteq> [])) \<and>
     ((\<forall>f\<in>set filters. efEventType f = []) \<or> (\<forall>f\<in>set filters. efEventType f \<noteq> []))"

text \<open>The columns of a row are those of its event.\<close>

definition row_fits :: "EventRow \<Rightarrow> bool" where
  "row_fits r \<longleftrightarrow> (\<exists>topics data. evBody (snd (erEvent r)) = Some (topics, data) \<and> erContractId r = evContractId (snd (erEvent r)) \<and> erType r = evType (snd (erEvent r)) \<and>
     erTopics r = map Some (take MaxTopicCount topics) @ replicate (MaxTopicCount - length topics) None)"

lemma event_rows_fit: "event_rows ids meta es = Inr rows \<Longrightarrow> r \<in> set rows \<Longrightarrow> row_fits r"
  by (induction es arbitrary: rows) (auto simp: insertEvents_def row_fits_def split: sum.splits option.splits)

lemma tx_event_rows_fit: "r \<in> set (tx_event_rows ids meta rs b a) \<Longrightarrow> row_fits r"
proof (induction ids meta rs b a rule: tx_event_rows.induct)
  case (3 ids meta tx rs b a)
  obtain txEvents opEvents es b' a' rows where x: "rtEvents tx = Inr (txEvents, opEvents)"
    "stage_events (LedgerSequence meta) tx txEvents b a 0 = Inr (es, b', a')"
    "event_rows ids meta (es @ op_events (LedgerSequence meta) tx opEvents) = Inr rows"
    "r \<in> set rows \<or> r \<in> set (tx_event_rows ids meta rs b' a')"
    using 3(2) by (cases "rtEvents tx") (auto split: sum.split_asm prod.split_asm elim: sym [THEN that [rotated]] intro: that [OF _ sym sym])
  with 3(1) [OF x(1) refl x(2) refl refl x(3)] event_rows_fit [OF x(3)] show ?case by blast
qed simp_all

lemma indexed_rows:
  assumes "indexed ids w" "r \<in> set (events_t w)"
  obtains l c where "l \<in> set (ledger_close_meta w)" "row_fits r" "erId r = ids c" "cuLedger c = LedgerSequence l" "cursor_in_range c"
proof -
  have "set (events_t w) = set (concat (map (ledger_event_rows ids) (ledger_close_meta w)))" using assms(1) by (intro mset_eq_setD) (simp add: indexed_def)
  then obtain l where l: "l \<in> set (ledger_close_meta w)" "r \<in> set (ledger_event_rows ids l)" "valid_ledger l" using assms by (auto simp: indexed_def)
  have "row_fits r" using l(2) by (auto simp: ledger_event_rows_def split: if_splits sum.splits dest: tx_event_rows_fit)
  with ledger_event_ids [OF l(2,3)] l(1) that show thesis by blast
qed

lemma combine_ids_set:
  "combine_ids decode cs seen ids = Inr ids' \<Longrightarrow> Some ` set ids' = Some ` set ids \<union> decode ` (set cs - set seen)"
proof (induction decode cs seen ids rule: combine_ids.induct)
  case (2 decode c cs seen ids)
  show ?case
  proof (cases "c \<in> set seen")
    case True
    with 2 show ?thesis by auto
  next
    case False
    then obtain i where i: "decode c = Some i" "combine_ids decode cs (c # seen) (ids @ [i]) = Inr ids'" using 2(3) by (auto split: option.splits)
    have "set (c # cs) - set seen = insert c (set cs - set (c # seen))" using False by auto
    with 2(2) [OF False i] i(1) show ?thesis by simp
  qed
qed simp

lemma topic_conditions_from:
  "topic_conditions i ss = Inr cs \<Longrightarrow> c \<in> set cs \<Longrightarrow> \<exists>j<length ss. tcColumn c = i + j + 1 \<and> sgWildcard (ss ! j) = None \<and> sgScVal (ss ! j) = Some (Inr (tcValue c))"
proof (induction i ss arbitrary: cs rule: topic_conditions.induct)
  case (2 i s ss)
  have step: "\<exists>j<length (s # ss). tcColumn c = i + j + 1 \<and> sgWildcard ((s # ss) ! j) = None \<and> sgScVal ((s # ss) ! j) = Some (Inr (tcValue c))"
    if ex: "\<exists>j<length ss. tcColumn c = i + 1 + j + 1 \<and> sgWildcard (ss ! j) = None \<and> sgScVal (ss ! j) = Some (Inr (tcValue c))"
  proof -
    obtain j where "j < length ss" "tcColumn c = i + 1 + j + 1" "sgWildcard (ss ! j) = None" "sgScVal (ss ! j) = Some (Inr (tcValue c))" using ex by blast
    then show ?thesis by (intro exI [of _ "Suc j"]) simp
  qed
  show ?case
  proof (cases "sgWildcard s \<noteq> None \<or> sgScVal s = None")
    case True
    with 2 show ?thesis by (intro step) (auto split: if_splits)
  next
    case False
    then obtain v cs' where v: "sgWildcard s = None" "sgScVal s = Some (Inr v)" "topic_conditions (i + 1) ss = Inr cs'" "cs = \<lparr>tcColumn = i + 1, tcValue = v\<rparr> # cs'"
      using 2(4) by (auto split: sum.splits)
    show ?thesis
    proof (cases "c \<in> set cs'")
      case True
      with 2(3) [of "Inr v" v] v show ?thesis by (intro step) auto
    next
      case False
      with 2(5) v show ?thesis by (intro exI [of _ 0]) auto
    qed
  qed
qed simp

lemma filter_topics_all:
  "filter_topics ts acc = Inr (Some acc') \<Longrightarrow> set acc \<subseteq> set acc' \<and> (\<forall>t\<in>set ts. \<exists>cs\<in>set acc'. topic_conditions 0 t = Inr cs \<and> cs \<noteq> [])"
  by (induction ts acc rule: filter_topics.induct) (auto split: sum.splits list.splits)

lemma combine_topics_all:
  "combine_topics fs acc = Inr topics \<Longrightarrow> topics \<noteq> [] \<Longrightarrow> set acc \<subseteq> set topics \<and> (\<forall>f\<in>set fs. efTopics f \<noteq> [] \<and> (\<forall>t\<in>set (efTopics f). \<exists>cs\<in>set topics. topic_conditions 0 t = Inr cs \<and> cs \<noteq> []))"
proof (induction fs acc rule: combine_topics.induct)
  case (2 f fs acc)
  then obtain acc' where a: "efTopics f \<noteq> []" "filter_topics (efTopics f) acc = Inr (Some acc')" "combine_topics fs acc' = Inr topics"
    by (auto split: if_splits sum.splits option.splits)
  from filter_topics_all [OF a(2)] 2(1) [OF a(1,2) refl a(3) 2(3)] a(1) show ?case by (simp, blast)
qed simp

text \<open>The condition that is added to the range of identifiers holds of every row that matches.\<close>

lemma event_where_matches:
  assumes "row_fits r" "matches_sound P filters" "uniform filters" "ekMatches P filters (erEvent r)"
    and c: "combineContractIDs P filters = Inr contractIDs" "combineTopics filters = Inr topics" "\<forall>cs\<in>set topics. \<forall>c\<in>set cs. tcColumn c \<le> MaxTopicCount"
  shows "event_where a b contractIDs topics (combineEventTypes P filters) r \<longleftrightarrow> a \<le> erId r \<and> erId r < b"
proof (cases "filters = []")
  case True
  with c show ?thesis by (simp add: event_where_def combineContractIDs_def combineTopics_def combineEventTypes_def)
next
  case False
  let ?ev = "snd (erEvent r)"
  obtain f where f: "f \<in> set filters" "filter_fits P f ?ev" using assms(2,4) False by (cases "erEvent r") (auto simp: matches_sound_def)
  obtain ts data where body: "evBody ?ev = Some (ts, data)" "erContractId r = evContractId ?ev" "erType r = evType ?ev"
    "erTopics r = map Some (take MaxTopicCount ts) @ replicate (MaxTopicCount - length ts) None" using assms(1) by (auto simp: row_fits_def)
  have ids: "contractIDs = [] \<or> erContractId r \<in> Some ` set contractIDs"
  proof (cases "\<forall>f\<in>set filters. efContractIDs f = []")
    case True
    then have "concat (map efContractIDs filters) = []" by simp
    with c(1) show ?thesis by (simp only: combineContractIDs_def combine_ids.simps) simp
  next
    case ne: False
    then have "efContractIDs f \<noteq> []" using assms(3) f(1) by (auto simp: uniform_def)
    then show ?thesis using f combine_ids_set [OF c(1) [unfolded combineContractIDs_def]] body(2) by (auto simp: filter_fits_def)
  qed
  have types: "combineEventTypes P filters = [] \<or> erType r \<in> set (combineEventTypes P filters)"
  proof (cases "\<forall>f\<in>set filters. efEventType f = []")
    case False
    then have "efEventType f \<noteq> []" using assms(3) f(1) by (auto simp: uniform_def)
    then obtain t where "t \<in> set (efEventType f)" "ekTypeXDR P t = Some (evType ?ev)" using f(2) by (auto simp: filter_fits_def image_iff)
    then show ?thesis using f(1) body(3) by (force simp: combineEventTypes_def)
  qed (simp add: combineEventTypes_def)
  have "list_ex (list_all (\<lambda>c. topic_matches c r)) (filter (\<lambda>cs. cs \<noteq> []) topics)" if ne: "filter (\<lambda>cs. cs \<noteq> []) topics \<noteq> []"
  proof -
    have "topics \<noteq> []" using ne by auto
    from combine_topics_all [OF c(2) [unfolded combineTopics_def] this] f(1) have
      t: "efTopics f \<noteq> []" "\<forall>t\<in>set (efTopics f). \<exists>cs\<in>set topics. topic_conditions 0 t = Inr cs \<and> cs \<noteq> []" by auto
    then obtain segs where segs: "segs \<in> set (efTopics f)" "topic_fits segs ts" using f(2) body(1) by (auto simp: filter_fits_def)
    then obtain cs where cs: "cs \<in> set topics" "topic_conditions 0 segs = Inr cs" "cs \<noteq> []" using t(2) by blast
    have m: "topic_matches c r" if c_in: "c \<in> set cs" for c
    proof -
      obtain j where j: "j < length segs" "tcColumn c = j + 1" "sgWildcard (segs ! j) = None" "sgScVal (segs ! j) = Some (Inr (tcValue c))"
        using topic_conditions_from [OF cs(2) c_in] by auto
      then have "j < length ts" "ts ! j = tcValue c" using segs(2) by (auto simp: topic_fits_def)
      moreover have "j < MaxTopicCount" using c(3) cs(1) c_in j(2) by fastforce
      ultimately show ?thesis using j(2) by (simp add: topic_matches_def body(4) nth_append)
    qed
    then show ?thesis using cs(1,3) by (auto simp: list_ex_iff list_all_iff)
  qed
  with ids types show ?thesis by (auto simp: event_where_def Let_def)
qed

subsection \<open>A page\<close>

definition cursor_of :: "events_pkg \<Rightarrow> EventRow \<Rightarrow> Cursor" where
  "cursor_of P r = (case ekParseCursor P (erId r) of None \<Rightarrow> \<lparr>cuLedger = 0, cuTx = 0, cuOp = 0, cuEvent = 0\<rparr> | Some c \<Rightarrow> c)"

definition row_info :: "events_pkg \<Rightarrow> string \<Rightarrow> EventRow \<Rightarrow> EventInfo option" where
  "row_info P format r = (case entry_info P format (r, cursor_of P r) of Some (Inr i) \<Rightarrow> Some i | _ \<Rightarrow> None)"

lemma scan_rows_events:
  assumes "\<forall>r\<in>set rs. fault r = None \<and> parse (erId r) = Some (cur r)" "length found < limit"
  shows "scan_rows parse fault None (event_scanner P filters limit) rs found =
    Inr (take limit (found @ map (\<lambda>r. (r, cur r)) (filter (\<lambda>r. ekMatches P filters (erEvent r)) rs)))"
  using assms
proof (induction rs arbitrary: found)
  case (Cons r rs)
  let ?found = "if ekMatches P filters (erEvent r) then found @ [(r, cur r)] else found"
  have "scan_rows parse fault None (event_scanner P filters limit) (r # rs) found =
      (if length ?found < limit then scan_rows parse fault None (event_scanner P filters limit) rs ?found else Inr ?found)"
    using Cons.prems(1) by (simp add: event_scanner_def Let_def)
  moreover obtain m where "limit = length found + Suc m" using Cons.prems(2) less_imp_Suc_add by auto
  ultimately show ?case using Cons.IH [of ?found] Cons.prems by (cases m) (auto simp: not_less)
qed simp

lemma entry_infos_all:
  assumes "\<forall>r\<in>set rs. row_info P format r = Some (f r)"
  shows "entry_infos P format (map (\<lambda>r. (r, cursor_of P r)) rs) = Some (Inr (map f rs))"
  using assms by (induction rs) (auto simp: row_info_def split: option.splits sum.splits)

lemma row_info_id: "row_info P format r = Some i \<Longrightarrow> eiID i = ekIds P (cursor_of P r)"
  by (auto simp: row_info_def entry_info_def eventInfoForEvent_def Let_def split: option.splits sum.splits prod.splits if_splits)

subsection \<open>Following the cursor\<close>

record events_query =
  vHandler :: eventsRPCHandler
  vDB :: DB
  vFilters :: "EventFilter list"
  vStart :: u32
  vLimit :: u64
  vFormat :: string

definition events_request :: "events_query \<Rightarrow> Cursor option \<Rightarrow> GetEventsRequest" where
  "events_request q c = \<lparr>grStartLedger = (case c of None \<Rightarrow> vStart q | Some _ \<Rightarrow> 0), grEndLedger = 0, grFilters = vFilters q,
     grPagination = Some \<lparr>epCursor = c, epLimit = vLimit q\<rparr>, grFormat = vFormat q\<rparr>"

text \<open>The client reads the cursor of a response and sends it with the next request.\<close>

fun events_walk :: "events_query \<Rightarrow> Cursor option \<Rightarrow> nat \<Rightarrow> EventInfo list list" where
  "events_walk q c 0 = []"
| "events_walk q c (Suc n) = (case getEvents (vHandler q) (vDB q) (events_request q c) of
       Some (Inr r) \<Rightarrow> gesEvents r # (case ekParseCursor (evhPkg (vHandler q)) (gesCursor r) of None \<Rightarrow> [] | Some c' \<Rightarrow> events_walk q (Some c') n)
     | _ \<Rightarrow> [])"

definition events_ok :: "events_query \<Rightarrow> bool" where
  "events_ok q \<longleftrightarrow> (let h = vHandler q; P = evhPkg h; w = tables (vDB q); t = ledger_close_meta w in
     t \<noteq> [] \<and> gapless t \<and> cache_ok (vDB q) \<and> indexed (ekIds P) w \<and> (\<forall>l\<in>set t. unat (LedgerSequence l) < 2 ^ 31) \<and> vStart q \<in> LedgerSequence ` set t \<and>
     event_ids_ok (ekIds P) \<and> (\<forall>c. cursor_in_range c \<longrightarrow> ekParseCursor P (ekIds P c) = Some c) \<and>
     cuTx (ekMaxCursor P) = TransactionMask \<and> cuOp (ekMaxCursor P) = OperationMask \<and>
     (\<forall>r\<in>set (events_t w). \<not> (cuTx (cursor_of P r) = TransactionMask \<and> cuOp (cursor_of P r) = OperationMask) \<and> cuEvent (cursor_of P r) + 1 \<noteq> 0 \<and> row_info P (vFormat q) r \<noteq> None) \<and>
     uniform (vFilters q) \<and> matches_sound P (vFilters q) \<and>
     (\<exists>contractIDs. combineContractIDs P (vFilters q) = Inr contractIDs \<and> None \<notin> set (map (ekEncode P) contractIDs)) \<and>
     (\<exists>topics. combineTopics (vFilters q) = Inr topics \<and> (\<forall>cs\<in>set topics. \<forall>c\<in>set cs. tcColumn c \<le> MaxTopicCount)) \<and>
     (\<forall>c. ekValid P (events_request q c) (evhMaxLimit h) = None) \<and> 0 < vLimit q \<and>
     evhQueryFault h = None \<and> (\<forall>r. evhRowFault h r = None) \<and> evhRowsErr h = None)"

text \<open>The rows that match, in the order of their identifiers, and those from a cursor on.\<close>

definition matching :: "events_query \<Rightarrow> EventRow list" where
  "matching q = filter (\<lambda>r. ekMatches (evhPkg (vHandler q)) (vFilters q) (erEvent r)) (sort_key erId (events_t (tables (vDB q))))"

definition row_key :: "events_query \<Rightarrow> EventRow \<Rightarrow> u32 \<times> u32 \<times> u32 \<times> u32" where
  "row_key q r = cursor_key (cursor_of (evhPkg (vHandler q)) r)"

definition matching_from :: "events_query \<Rightarrow> Cursor \<Rightarrow> EventRow list" where
  "matching_from q p = filter (\<lambda>r. cursor_key p \<le> row_key q r) (matching q)"

definition events_served :: "events_query \<Rightarrow> EventInfo list" where
  "events_served q = map (\<lambda>r. the (row_info (evhPkg (vHandler q)) (vFormat q) r))
     (matching_from q \<lparr>cuLedger = vStart q, cuTx = 0, cuOp = 0, cuEvent = 0\<rparr>)"

lemma rows_cursor:
  assumes "indexed (ekIds P) w" "\<forall>c. cursor_in_range c \<longrightarrow> ekParseCursor P (ekIds P c) = Some c" "r \<in> set (events_t w)"
  shows "erId r = ekIds P (cursor_of P r)" "ekParseCursor P (erId r) = Some (cursor_of P r)" "cursor_in_range (cursor_of P r)" "row_fits r"
    "cuLedger (cursor_of P r) \<in> LedgerSequence ` set (ledger_close_meta w)"
proof -
  obtain l c where c: "l \<in> set (ledger_close_meta w)" "row_fits r" "erId r = ekIds P c" "cuLedger c = LedgerSequence l" "cursor_in_range c"
    using indexed_rows [OF assms(1,3)] by metis
  then have "ekParseCursor P (erId r) = Some c" "cursor_of P r = c" using assms(2) by (simp_all add: cursor_of_def)
  with c show "erId r = ekIds P (cursor_of P r)" "ekParseCursor P (erId r) = Some (cursor_of P r)" "cursor_in_range (cursor_of P r)" "row_fits r"
    "cuLedger (cursor_of P r) \<in> LedgerSequence ` set (ledger_close_meta w)" by auto
qed

lemma events_ok_rows:
  assumes "events_ok q" "r \<in> set (events_t (tables (vDB q)))"
  shows "erId r = ekIds (evhPkg (vHandler q)) (cursor_of (evhPkg (vHandler q)) r)" "ekParseCursor (evhPkg (vHandler q)) (erId r) = Some (cursor_of (evhPkg (vHandler q)) r)"
    "cursor_in_range (cursor_of (evhPkg (vHandler q)) r)" "row_fits r" "cuLedger (cursor_of (evhPkg (vHandler q)) r) \<in> LedgerSequence ` set (ledger_close_meta (tables (vDB q)))"
  using rows_cursor [of "evhPkg (vHandler q)" "tables (vDB q)", OF _ _ assms(2)] assms(1) by (simp_all add: events_ok_def Let_def)

lemma ids_le: "event_ids_ok ids \<Longrightarrow> cursor_in_range c \<Longrightarrow> cursor_in_range d \<Longrightarrow> ids c \<le> ids d \<longleftrightarrow> cursor_key c \<le> cursor_key d"
  unfolding event_ids_ok_def by (metis not_less)

lemma matching_sorted:
  assumes "events_ok q"
  shows "sorted_wrt (<) (map (row_key q) (matching q))"
proof -
  let ?P = "evhPkg (vHandler q)" and ?t = "events_t (tables (vDB q))"
  have ids: "event_ids_ok (ekIds ?P)" "distinct (map erId ?t)" using assms by (simp_all add: events_ok_def Let_def indexed_def)
  have "distinct (map erId (sort_key erId ?t))" using ids(2) by (simp add: distinct_map)
  then have "sorted_wrt (<) (map erId (sort_key erId ?t))" by (simp add: strict_sorted_iff)
  then have "sorted_wrt (\<lambda>r s. erId r < erId s) (sort_key erId ?t)" by (simp add: sorted_wrt_map)
  then have "sorted_wrt (\<lambda>r s. erId r < erId s) (matching q)" by (simp add: matching_def sorted_wrt_filter)
  then have "sorted_wrt (\<lambda>r s. row_key q r < row_key q s) (matching q)"
  proof (rule sorted_wrt_mono_rel [rotated])
    fix r s assume "r \<in> set (matching q)" "s \<in> set (matching q)" "erId r < erId s"
    moreover from this have "r \<in> set ?t" "s \<in> set ?t" by (simp_all add: matching_def)
    ultimately show "row_key q r < row_key q s"
      using events_ok_rows [OF assms, of r] events_ok_rows [OF assms, of s] ids(1) unfolding event_ids_ok_def row_key_def by metis
  qed
  then show ?thesis by (simp add: sorted_wrt_map)
qed

definition page_end :: "events_query \<Rightarrow> Cursor \<Rightarrow> u32" where
  "page_end q p = min (LedgerSequence (last (ledger_close_meta (tables (vDB q)))) + 1) (cuLedger p + LedgerScanLimit)"

definition window :: "events_query \<Rightarrow> Cursor \<Rightarrow> EventRow list" where
  "window q p = filter (\<lambda>r. cuLedger (cursor_of (evhPkg (vHandler q)) r) < page_end q p) (matching_from q p)"

lemma key_before: "cursor_key c < cursor_key \<lparr>cuLedger = n, cuTx = 0, cuOp = 0, cuEvent = 0\<rparr> \<longleftrightarrow> cuLedger c < n"
  by (auto simp: cursor_key_def less_prod_def' less_prod_def less_eq_prod_def)

lemma gapless_bounds:
  assumes "gapless t"
  shows "n \<in> LedgerSequence ` set t \<longleftrightarrow> t \<noteq> [] \<and> LedgerSequence (hd t) \<le> n \<and> n \<le> LedgerSequence (last t)"
proof (cases "t = []")
  case False
  obtain a where a: "seqs t = [a..<a + length t]" using assms by (rule gaplessE)
  have h: "unat (LedgerSequence (hd t)) = a" using False nth_map [of 0 t "\<lambda>l. unat (LedgerSequence l)"] arg_cong [OF a, of "\<lambda>xs. xs ! 0"] by (simp add: seqs_def hd_conv_nth)
  have l: "Suc (unat (LedgerSequence (last t))) = a + length t" using last_seqs [OF a False] .
  have "n \<in> LedgerSequence ` set t \<longleftrightarrow> unat n \<in> set (seqs t)" by (auto simp: seqs_def) (metis imageI word_unat_eq_iff)
  also have "\<dots> \<longleftrightarrow> a \<le> unat n \<and> unat n < a + length t" unfolding a by simp
  also have "\<dots> \<longleftrightarrow> LedgerSequence (hd t) \<le> n \<and> n \<le> LedgerSequence (last t)" using h l by (auto simp: word_le_nat_alt)
  finally show ?thesis using False by simp
qed simp

lemma window_rows:
  assumes q: "events_ok q" and p: "cursor_in_range p" and f: "combineContractIDs (evhPkg (vHandler q)) (vFilters q) = Inr contractIDs" "combineTopics (vFilters q) = Inr topics"
    "\<forall>cs\<in>set topics. \<forall>c\<in>set cs. tcColumn c \<le> MaxTopicCount"
  defines "P \<equiv> evhPkg (vHandler q)"
  shows "filter (\<lambda>r. ekMatches P (vFilters q) (erEvent r)) (sort_key erId (filter
      (event_where (ekIds P p) (ekIds P \<lparr>cuLedger = page_end q p, cuTx = 0, cuOp = 0, cuEvent = 0\<rparr>) contractIDs topics (combineEventTypes P (vFilters q))) (events_t (tables (vDB q))))) = window q p"
proof -
  let ?E = "\<lparr>cuLedger = page_end q p, cuTx = 0, cuOp = 0, cuEvent = 0\<rparr>"
  have ok: "event_ids_ok (ekIds P)" "uniform (vFilters q)" "matches_sound P (vFilters q)" using q by (auto simp: events_ok_def Let_def P_def)
  have "event_where (ekIds P p) (ekIds P ?E) contractIDs topics (combineEventTypes P (vFilters q)) r \<longleftrightarrow> cursor_key p \<le> row_key q r \<and> cuLedger (cursor_of P r) < page_end q p"
    if "r \<in> set (events_t (tables (vDB q)))" "ekMatches P (vFilters q) (erEvent r)" for r
  proof -
    note r = events_ok_rows [OF q that(1), folded P_def]
    have "event_where (ekIds P p) (ekIds P ?E) contractIDs topics (combineEventTypes P (vFilters q)) r \<longleftrightarrow> ekIds P p \<le> erId r \<and> erId r < ekIds P ?E"
      by (rule event_where_matches [OF r(4) ok(3,2) that(2) f(1) [folded P_def] f(2,3)])
    moreover have "ekIds P p \<le> erId r \<longleftrightarrow> cursor_key p \<le> row_key q r" using ids_le [OF ok(1) p r(3)] r(1) by (simp add: row_key_def P_def)
    moreover have "erId r < ekIds P ?E \<longleftrightarrow> cuLedger (cursor_of P r) < page_end q p"
      using ids_le [OF ok(1) _ r(3), of ?E] key_before [of "cursor_of P r" "page_end q p"] r(1) by (simp add: cursor_in_range_def flip: not_le)
    ultimately show ?thesis by blast
  qed
  then show ?thesis unfolding filter_sort [symmetric] window_def matching_from_def matching_def by (auto simp: P_def intro!: filter_cong)
qed

lemma events_page:
  assumes q: "events_ok q" and p: "events_start (events_request q c) = p" "cursor_in_range p" "cuLedger p \<in> LedgerSequence ` set (ledger_close_meta (tables (vDB q)))"
  defines "P \<equiv> evhPkg (vHandler q)" and "rows \<equiv> take (unat (vLimit q)) (window q p)"
  shows "\<exists>rng. getEvents (vHandler q) (vDB q) (events_request q c) = Some (Inr \<lparr>gesEvents = map (\<lambda>r. the (row_info P (vFormat q) r)) rows,
    gesCursor = (if length rows = unat (vLimit q) then ekIds P (cursor_of P (last rows)) else ekIds P ((ekMaxCursor P)\<lparr>cuLedger := page_end q p - 1\<rparr>)), gesRange = rng\<rparr>)"
proof -
  let ?h = "vHandler q" and ?d = "vDB q" and ?t = "ledger_close_meta (tables (vDB q))" and ?E = "\<lparr>cuLedger = page_end q p, cuTx = 0, cuOp = 0, cuEvent = 0\<rparr>"
  have ok: "?t \<noteq> []" "gapless ?t" "cache_ok ?d" "event_ids_ok (ekIds P)" "\<forall>r\<in>set (events_t (tables ?d)). row_info P (vFormat q) r \<noteq> None"
    "uniform (vFilters q)" "matches_sound P (vFilters q)" "ekValid P (events_request q c) (evhMaxLimit ?h) = None" "0 < vLimit q"
    "evhQueryFault ?h = None" "\<And>r. evhRowFault ?h r = None" "evhRowsErr ?h = None" using q by (auto simp: events_ok_def Let_def P_def)
  obtain contractIDs topics where f: "combineContractIDs P (vFilters q) = Inr contractIDs" "None \<notin> set (map (ekEncode P) contractIDs)" "combineTopics (vFilters q) = Inr topics"
    "\<forall>cs\<in>set topics. \<forall>c\<in>set cs. tcColumn c \<le> MaxTopicCount" using q by (auto simp: events_ok_def Let_def P_def)
  have rng: "GetLedgerRange ?d = Inr (store_range ?t)" using GetLedgerRange_range [OF ok(2,3)] ok(1) by simp
  have in_range: "\<not> cuLedger p < LedgerSequence (hd ?t)" "\<not> LedgerSequence (last ?t) < cuLedger p" using gapless_bounds [OF ok(2), of "cuLedger p"] p(3) by (simp_all add: not_less)
  have cols: "\<not> list_ex (list_ex (\<lambda>c. MaxTopicCount < tcColumn c)) topics" using f(4) by (fastforce simp: list_ex_iff)
  let ?scan = "sort_key erId (filter (event_where (ekIds P p) (ekIds P ?E) contractIDs topics (combineEventTypes P (vFilters q))) (events_t (tables ?d)))"
  have "scan_rows (ekParseCursor P) (evhRowFault ?h) None (event_scanner P (vFilters q) (unat (vLimit q))) ?scan [] =
      Inr (take (unat (vLimit q)) ([] @ map (\<lambda>r. (r, cursor_of P r)) (filter (\<lambda>r. ekMatches P (vFilters q) (erEvent r)) ?scan)))"
    by (rule scan_rows_events) (use ok(9,11) events_ok_rows(2) [OF q] in \<open>auto simp: P_def word_less_nat_alt\<close>)
  also have "filter (\<lambda>r. ekMatches P (vFilters q) (erEvent r)) ?scan = window q p" unfolding P_def by (rule window_rows [OF q p(2) f(1) [unfolded P_def] f(3,4)])
  finally have get: "GetEvents ?h (events_t (tables ?d)) p ?E contractIDs topics (combineEventTypes P (vFilters q)) (event_scanner P (vFilters q) (unat (vLimit q))) [] =
      Inr (map (\<lambda>r. (r, cursor_of P r)) rows)" using f(2) ok(10,12) cols by (simp add: GetEvents_def P_def [symmetric] rows_def take_map)
  have sub: "set rows \<subseteq> set (events_t (tables ?d))" by (auto simp: rows_def window_def matching_from_def matching_def dest: in_set_takeD)
  then have some: "\<forall>r\<in>set rows. row_info P (vFormat q) r = Some (the (row_info P (vFormat q) r))" using ok(5) by auto
  have lim: "events_limit ?h (events_request q c) = vLimit q" "unat (vLimit q) \<noteq> 0" using ok(9) by (simp_all add: events_limit_def events_request_def unat_eq_zero)
  have fin: "events_end (events_request q c) (store_range ?t) = page_end q p" by (simp add: events_end_def p(1) page_end_def store_range_def lcm_info_def Let_def) (simp add: events_request_def)
  have fmt: "grFilters (events_request q c) = vFilters q" "grFormat (events_request q c) = vFormat q" by (simp_all add: events_request_def)
  have last_id: "eiID (last (map (\<lambda>r. the (row_info P (vFormat q) r)) rows)) = ekIds P (cursor_of P (last rows))" if "rows \<noteq> []"
    using some row_info_id [of P "vFormat q" "last rows"] that by (simp add: last_map)
  have fl: "Sequence (FirstLedger (store_range ?t)) = LedgerSequence (hd ?t)" "Sequence (LastLedger (store_range ?t)) = LedgerSequence (last ?t)" by (simp_all add: store_range_def lcm_info_def)
  show ?thesis
    using ok(8) rng in_range f(1,3) get entry_infos_all [OF some] lim last_id
    by (auto simp: getEvents_def P_def [symmetric] p(1) fin fmt fl Let_def)
qed

subsection \<open>The next page\<close>

lemma filter_split: "sorted_wrt (\<lambda>x y. Q y \<longrightarrow> Q x) xs \<Longrightarrow> xs = filter Q xs @ filter (\<lambda>x. \<not> Q x) xs"
  by (induction xs) (auto simp: filter_empty_conv)

lemma filter_after: "sorted_wrt (\<lambda>x y. f x < f y) (xs @ x # ys) \<Longrightarrow> filter (\<lambda>y. f x < f y) (xs @ x # ys) = ys" for f :: "'a \<Rightarrow> 'b :: linorder"
  by (fastforce simp: sorted_wrt_append filter_empty_conv intro!: filter_True)

lemma matching_from_sorted: "events_ok q \<Longrightarrow> sorted_wrt (\<lambda>r s. row_key q r < row_key q s) (matching_from q p)"
  using matching_sorted [of q] by (simp add: matching_from_def sorted_wrt_map sorted_wrt_filter)

lemma window_prefix:
  assumes "events_ok q"
  shows "matching_from q p = window q p @ filter (\<lambda>r. \<not> cuLedger (cursor_of (evhPkg (vHandler q)) r) < page_end q p) (matching_from q p)"
  unfolding window_def
proof (rule filter_split, rule sorted_wrt_mono_rel [OF _ matching_from_sorted [OF assms]])
  fix r s assume "row_key q r < row_key q s"
  then show "cuLedger (cursor_of (evhPkg (vHandler q)) s) < page_end q p \<longrightarrow> cuLedger (cursor_of (evhPkg (vHandler q)) r) < page_end q p"
    by (auto simp: row_key_def cursor_key_def less_prod_def less_eq_prod_def)
qed

lemma key_next: "cuEvent c + 1 \<noteq> 0 \<Longrightarrow> cursor_key (c\<lparr>cuEvent := cuEvent c + 1\<rparr>) \<le> cursor_key d \<longleftrightarrow> cursor_key c < cursor_key d"
  using unatSuc [of "cuEvent c"] by (auto simp: cursor_key_def less_prod_def less_eq_prod_def word_le_nat_alt word_less_nat_alt add.commute)

lemma matching_from_next:
  assumes q: "events_ok q" and s: "matching_from q p = xs @ r # ys"
  defines "c \<equiv> cursor_of (evhPkg (vHandler q)) r"
  shows "matching_from q (c\<lparr>cuEvent := cuEvent c + 1\<rparr>) = ys"
proof -
  have "r \<in> set (matching_from q p)" using s by simp
  then have r: "r \<in> set (matching q)" "cursor_key p \<le> row_key q r" by (simp_all add: matching_from_def)
  then have "r \<in> set (events_t (tables (vDB q)))" by (simp add: matching_def)
  then have "cuEvent c + 1 \<noteq> 0" using q by (auto simp: events_ok_def Let_def c_def)
  then have "matching_from q (c\<lparr>cuEvent := cuEvent c + 1\<rparr>) = filter (\<lambda>x. row_key q r < row_key q x) (matching q)"
    by (simp add: matching_from_def key_next row_key_def flip: c_def)
  also have "\<dots> = filter (\<lambda>x. row_key q r < row_key q x) (matching_from q p)" using r(2) by (auto simp: matching_from_def intro!: filter_cong)
  also have "\<dots> = ys" using filter_after [of "row_key q" xs r ys] matching_from_sorted [OF q, of p] unfolding s by simp
  finally show ?thesis .
qed

lemma matching_from_end:
  assumes q: "events_ok q" and m: "cuTx m = TransactionMask" "cuOp m = OperationMask" "cuLedger m + 1 = page_end q p" and p: "cuLedger p < page_end q p"
  shows "matching_from q m = filter (\<lambda>r. \<not> cuLedger (cursor_of (evhPkg (vHandler q)) r) < page_end q p) (matching_from q p)"
proof -
  let ?P = "evhPkg (vHandler q)"
  have "cursor_key m \<le> row_key q r \<longleftrightarrow> cursor_key p \<le> row_key q r \<and> \<not> cuLedger (cursor_of ?P r) < page_end q p" if "r \<in> set (matching q)" for r
  proof -
    have r: "r \<in> set (events_t (tables (vDB q)))" using that by (simp add: matching_def)
    let ?c = "cursor_of ?P r"
    have c: "cuTx ?c \<le> TransactionMask" "cuOp ?c \<le> OperationMask" "\<not> (cuTx ?c = TransactionMask \<and> cuOp ?c = OperationMask)"
      using events_ok_rows(3) [OF q r] q r by (auto simp: cursor_in_range_def events_ok_def Let_def)
    have "unat (cuLedger m) + 1 = unat (page_end q p)" using m(3) p unatSuc [of "cuLedger m"] by (metis add.commute plus_1_eq_Suc word_not_simps(1))
    then have "cuLedger m < cuLedger ?c \<longleftrightarrow> \<not> cuLedger ?c < page_end q p" by (auto simp: word_less_nat_alt)
    moreover have "cursor_key m \<le> cursor_key ?c \<longleftrightarrow> cuLedger m < cuLedger ?c" using c m(1,2) by (auto simp: cursor_key_def less_eq_prod_def less_prod_def)
    moreover have "cursor_key p \<le> cursor_key ?c" if "\<not> cuLedger ?c < page_end q p" using p that by (auto simp: cursor_key_def less_eq_prod_def less_prod_def)
    ultimately show ?thesis by (auto simp: row_key_def)
  qed
  then show ?thesis by (auto simp: matching_from_def intro!: filter_cong)
qed

lemma page_end_bounds:
  assumes q: "events_ok q" and p: "cuLedger p \<in> LedgerSequence ` set (ledger_close_meta (tables (vDB q)))"
  defines "t \<equiv> ledger_close_meta (tables (vDB q))"
  shows "cuLedger p < page_end q p" "page_end q p - 1 \<in> LedgerSequence ` set t"
    "page_end q p - 1 = LedgerSequence (last t) \<or> unat (cuLedger p) < unat (page_end q p - 1) \<and> unat (page_end q p - 1) \<le> unat (LedgerSequence (last t))"
proof -
  have ok: "gapless t" "t \<noteq> []" "unat (LedgerSequence (last t)) < 2 ^ 31" using q by (auto simp: events_ok_def Let_def t_def)
  note g = gapless_bounds [OF ok(1)]
  have pl: "LedgerSequence (hd t) \<le> cuLedger p" "cuLedger p \<le> LedgerSequence (last t)" using g [of "cuLedger p"] p by (simp_all add: t_def)
  have u: "unat (LedgerSequence (last t) + 1) = unat (LedgerSequence (last t)) + 1" "unat (cuLedger p + LedgerScanLimit) = unat (cuLedger p) + 10000"
    using ok(3) pl(2) by (simp_all add: LedgerScanLimit_def unat_add_no_wrap word_le_nat_alt)
  have e: "unat (page_end q p) = min (unat (LedgerSequence (last t)) + 1) (unat (cuLedger p) + 10000)"
    using u by (auto simp: page_end_def min_def word_le_nat_alt t_def)
  then show pe: "cuLedger p < page_end q p" using pl(2) by (simp add: word_less_nat_alt word_le_nat_alt)
  then have "1 \<le> page_end q p" by (auto simp: word_le_nat_alt word_less_nat_alt)
  then have e1: "unat (page_end q p - 1) = min (unat (LedgerSequence (last t))) (unat (cuLedger p) + 9999)" using e by (simp add: unat_sub_no_wrap min_def)
  then show "page_end q p - 1 \<in> LedgerSequence ` set t" using g [of "page_end q p - 1"] ok(2) pl by (auto simp: word_le_nat_alt)
  show "page_end q p - 1 = LedgerSequence (last t) \<or> unat (cuLedger p) < unat (page_end q p - 1) \<and> unat (page_end q p - 1) \<le> unat (LedgerSequence (last t))"
    using e1 by (auto simp: min_def word_unat_eq_iff split: if_splits)
qed

text \<open>A request gives the first of the remaining events, and its cursor leaves the others, fewer of them or in fewer ledgers.\<close>

definition events_left :: "events_query \<Rightarrow> Cursor \<Rightarrow> nat" where
  "events_left q p = length (matching_from q p) + (unat (LedgerSequence (last (ledger_close_meta (tables (vDB q))))) - unat (cuLedger p))"

definition start_ok :: "events_query \<Rightarrow> Cursor \<Rightarrow> bool" where
  "start_ok q p \<longleftrightarrow> cursor_in_range p \<and> cuLedger p \<in> LedgerSequence ` set (ledger_close_meta (tables (vDB q)))"

lemma events_step:
  assumes q: "events_ok q" and p: "events_start (events_request q c) = p" "start_ok q p"
  defines "P \<equiv> evhPkg (vHandler q)"
  obtains resp rows c' p' where "getEvents (vHandler q) (vDB q) (events_request q c) = Some (Inr resp)" "gesEvents resp = map (\<lambda>r. the (row_info P (vFormat q) r)) rows"
    "ekParseCursor P (gesCursor resp) = Some c'" "events_start (events_request q (Some c')) = p'" "start_ok q p'" "length rows \<le> unat (vLimit q)"
    "matching_from q p = rows @ matching_from q p'" "matching_from q p' = [] \<or> events_left q p' < events_left q p"
proof -
  let ?t = "ledger_close_meta (tables (vDB q))"
  define rows where "rows = take (unat (vLimit q)) (window q p)"
  have ok: "\<And>c. cursor_in_range c \<Longrightarrow> ekParseCursor P (ekIds P c) = Some c" "cuTx (ekMaxCursor P) = TransactionMask" "cuOp (ekMaxCursor P) = OperationMask" "0 < unat (vLimit q)" "gapless ?t"
    using q by (simp_all add: events_ok_def Let_def P_def word_less_nat_alt)
  have p': "cursor_in_range p" "cuLedger p \<in> LedgerSequence ` set ?t" using p(2) by (simp_all add: start_ok_def)
  obtain rng where g: "getEvents (vHandler q) (vDB q) (events_request q c) = Some (Inr \<lparr>gesEvents = map (\<lambda>r. the (row_info P (vFormat q) r)) rows,
    gesCursor = (if length rows = unat (vLimit q) then ekIds P (cursor_of P (last rows)) else ekIds P ((ekMaxCursor P)\<lparr>cuLedger := page_end q p - 1\<rparr>)), gesRange = rng\<rparr>)"
    using events_page [OF q p(1) p'] unfolding P_def rows_def by blast
  note next_of = that [OF g]
  have start: "events_start (events_request q (Some c')) = c'\<lparr>cuEvent := cuEvent c' + 1\<rparr>" for c' by (simp add: events_start_def events_request_def)
  note pre = window_prefix [OF q, of p]
  show thesis
  proof (cases "length rows = unat (vLimit q)")
    case True
    let ?r = "last rows" and ?k = "unat (vLimit q)"
    have "rows \<noteq> []" using True ok(4) by auto
    then have "rows = butlast rows @ [?r]" by simp
    moreover have "take ?k (matching_from q p) = rows" using True by (subst pre) (simp add: rows_def)
    ultimately have s: "matching_from q p = butlast rows @ ?r # drop ?k (matching_from q p)" by (metis append_Cons append_Nil append_assoc append_take_drop_id)
    then have "?r \<in> set (matching_from q p)" by (metis in_set_conv_decomp)
    then have r: "?r \<in> set (events_t (tables (vDB q)))" "cursor_key p \<le> row_key q ?r" by (simp_all add: matching_from_def matching_def)
    note rr = events_ok_rows [OF q r(1), folded P_def]
    let ?c = "cursor_of P ?r"
    let ?p = "?c\<lparr>cuEvent := cuEvent ?c + 1\<rparr>"
    have rest: "matching_from q ?p = drop ?k (matching_from q p)" using matching_from_next [OF q s] by (simp add: P_def)
    have "cuLedger p \<le> cuLedger ?c" using r(2) by (auto simp: row_key_def cursor_key_def less_eq_prod_def less_prod_def P_def)
    moreover have "length (drop ?k (matching_from q p)) < length (matching_from q p)" using ok(4) arg_cong [OF s, of length] by simp
    ultimately have "events_left q ?p < events_left q p" by (simp add: events_left_def rest word_le_nat_alt)
    then show thesis using next_of [of rows ?c ?p] True ok(1) [OF rr(3)] rr(3,5) start rest \<open>take ?k (matching_from q p) = rows\<close> append_take_drop_id [of ?k "matching_from q p"]
      by (simp add: start_ok_def cursor_in_range_def)
  next
    case False
    then have rows: "rows = window q p" by (simp add: rows_def)
    let ?m = "(ekMaxCursor P)\<lparr>cuLedger := page_end q p - 1\<rparr>"
    let ?p = "?m\<lparr>cuEvent := cuEvent ?m + 1\<rparr>"
    note b = page_end_bounds [OF q p'(2)]
    have rng: "cursor_in_range ?m" "cursor_in_range ?p" using ok(2,3) by (simp_all add: cursor_in_range_def)
    have rest: "matching_from q ?p = filter (\<lambda>r. \<not> cuLedger (cursor_of P r) < page_end q p) (matching_from q p)"
      unfolding P_def by (rule matching_from_end [OF q _ _ _ b(1)]) (use ok(2,3) in \<open>simp_all add: P_def\<close>)
    have "matching_from q ?p = [] \<or> events_left q ?p < events_left q p"
    proof (cases "page_end q p - 1 = LedgerSequence (last ?t)")
      case True
      have "matching_from q ?p = []" unfolding rest
      proof (rule filter_False, rule ballI)
        fix r assume "r \<in> set (matching_from q p)"
        then have "r \<in> set (events_t (tables (vDB q)))" by (simp add: matching_from_def matching_def)
        from events_ok_rows(5) [OF q this] gapless_bounds [OF ok(5)] have "cuLedger (cursor_of P r) \<le> page_end q p - 1" unfolding True P_def by auto
        then show "\<not> \<not> cuLedger (cursor_of P r) < page_end q p" using b(1) by unat_arith
      qed
      then show ?thesis ..
    next
      case False
      then have "unat (cuLedger p) < unat (page_end q p - 1)" "unat (page_end q p - 1) \<le> unat (LedgerSequence (last ?t))" using b(3) by blast+
      moreover have "length (matching_from q ?p) \<le> length (matching_from q p)" unfolding rest by simp
      ultimately have "events_left q ?p < events_left q p" unfolding events_left_def by simp
      then show ?thesis ..
    qed
    moreover have "matching_from q p = rows @ matching_from q ?p" by (subst rest) (unfold rows P_def, rule pre)
    moreover have "length rows \<le> unat (vLimit q)" by (simp add: rows_def)
    ultimately show thesis using next_of [of rows ?m ?p] False ok(1) [OF rng(1)] rng(2) b(2) start by (simp add: start_ok_def)
  qed
qed

lemma events_walk_all:
  assumes "events_ok q"
  shows "events_start (events_request q c) = p \<Longrightarrow> start_ok q p \<Longrightarrow> matching_from q p = [] \<or> events_left q p < n \<Longrightarrow>
    concat (events_walk q c n) = map (\<lambda>r. the (row_info (evhPkg (vHandler q)) (vFormat q) r)) (matching_from q p) \<and> (\<forall>es\<in>set (events_walk q c n). length es \<le> unat (vLimit q))"
proof (induction n arbitrary: c p)
  case (Suc n)
  obtain resp rows c' p' where st: "getEvents (vHandler q) (vDB q) (events_request q c) = Some (Inr resp)" "gesEvents resp = map (\<lambda>r. the (row_info (evhPkg (vHandler q)) (vFormat q) r)) rows"
    "ekParseCursor (evhPkg (vHandler q)) (gesCursor resp) = Some c'" "events_start (events_request q (Some c')) = p'" "start_ok q p'" "length rows \<le> unat (vLimit q)"
    "matching_from q p = rows @ matching_from q p'" "matching_from q p' = [] \<or> events_left q p' < events_left q p" by (rule events_step [OF assms Suc.prems(1,2)])
  have "matching_from q p' = [] \<or> events_left q p' < n" using st(7,8) Suc.prems(3) by auto
  from Suc.IH [OF st(4,5) this] st(1-3,6,7) show ?case by simp
qed auto

text \<open>
  C24. A client that asks for the events from a ledger on and goes on with the cursor of each response gets every event up to the latest ledger that matches its filters exactly once, in the order of their identifiers, and
  never more than its limit at a time: no event is lost or repeated at the end of a full page, nor at the end of a window of 10000 ledgers, whose cursor leads past all events of the last ledger of the window, and
  the condition that the database query adds drops no event that matches. It is assumed that the filters either all name contracts or none does, and the same of event types (without this it is false, as the next
  property shows), that every row can be read and converted, and that no event has the last cursor of its ledger.
\<close>

theorem event_pages_visit_all:
  assumes "events_ok q" "length (events_served q) + unat (LedgerSequence (last (ledger_close_meta (tables (vDB q))))) - unat (vStart q) < n"
  shows "concat (events_walk q None n) = events_served q \<and> (\<forall>es\<in>set (events_walk q None n). length es \<le> unat (vLimit q))"
proof -
  let ?p = "\<lparr>cuLedger = vStart q, cuTx = 0, cuOp = 0, cuEvent = 0\<rparr>"
  have start: "events_start (events_request q None) = ?p" "start_ok q ?p" using assms(1) by (simp_all add: events_start_def events_request_def start_ok_def cursor_in_range_def events_ok_def Let_def)
  moreover have "events_left q ?p < n"
  proof -
    have "vStart q \<le> LedgerSequence (last (ledger_close_meta (tables (vDB q))))" using assms(1) gapless_bounds by (auto simp: events_ok_def Let_def)
    with assms(2) show ?thesis by (simp add: events_left_def events_served_def word_le_nat_alt)
  qed
  ultimately show ?thesis unfolding events_served_def using events_walk_all [OF assms(1) start] by blast
qed

subsection \<open>Filters with and without contracts\<close>

lemma scan_rows_found:
  "scan_rows parse fault err (event_scanner P filters limit) rs found = Inr found' \<Longrightarrow> (r, c) \<in> set found' \<Longrightarrow> (r, c) \<in> set found \<or> r \<in> set rs \<and> parse (erId r) = Some c"
proof (induction rs arbitrary: found)
  case (Cons x rs)
  then obtain cx where cx: "parse (erId x) = Some cx" by (auto split: option.splits)
  let ?found = "if ekMatches P filters (erEvent x) then found @ [(x, cx)] else found"
  have "found' = ?found \<or> scan_rows parse fault err (event_scanner P filters limit) rs ?found = Inr found'"
    using Cons.prems(1) cx event_scanner_def [of P filters limit x cx found] by (auto simp: Let_def split: option.splits if_splits)
  then show ?case using Cons.IH [of ?found] Cons.prems(2) cx by (auto split: if_splits)
qed (auto split: option.splits)

lemma entry_infos_ids:
  "entry_infos P format es = Some (Inr infos) \<Longrightarrow> i \<in> set infos \<Longrightarrow> \<exists>r c. (r, c) \<in> set es \<and> eiID i = ekIds P c"
proof (induction es arbitrary: infos)
  case (Cons e es)
  obtain r c where e: "e = (r, c)" by (cases e)
  obtain x xs where x: "entry_info P format e = Some (Inr x)" "entry_infos P format es = Some (Inr xs)" "infos = x # xs"
    using Cons.prems(1) by (auto split: option.splits sum.splits)
  have "eiID x = ekIds P c" using x(1) by (auto simp: e entry_info_def eventInfoForEvent_def Let_def split: option.splits sum.splits prod.splits if_splits)
  then show ?case using Cons.IH [OF x(2)] Cons.prems(2) x(3) e by auto
qed simp

text \<open>
  C25. When one filter of a request names contracts, an event of a contract that no filter names is never returned, even though it matches another filter of the request that names no contract, and
  so asks for the events of all contracts: the query keeps the events of the contracts that some filter names.
\<close>

theorem mixed_filters_lose_events:
  assumes "indexed (ekIds (evhPkg h)) (tables d)" "\<forall>c. cursor_in_range c \<longrightarrow> ekParseCursor (evhPkg h) (ekIds (evhPkg h) c) = Some c"
    and "f \<in> set (grFilters request)" "efContractIDs f \<noteq> []"
    and "r \<in> set (events_t (tables d))" "ekMatches (evhPkg h) (grFilters request) (erEvent r)"
    and "erContractId r \<notin> ekDecode (evhPkg h) ` set (concat (map efContractIDs (grFilters request)))"
    and "getEvents h d request = Some (Inr resp)"
  shows "erId r \<notin> eiID ` set (gesEvents resp)"
proof
  let ?P = "evhPkg h" and ?t = "events_t (tables d)"
  assume "erId r \<in> eiID ` set (gesEvents resp)"
  then obtain i where i: "i \<in> set (gesEvents resp)" "eiID i = erId r" by auto
  obtain p e contractIDs topics found where g: "combineContractIDs ?P (grFilters request) = Inr contractIDs"
    "GetEvents h ?t p e contractIDs topics (combineEventTypes ?P (grFilters request)) (event_scanner ?P (grFilters request) (unat (events_limit h request))) [] = Inr found"
    "entry_infos ?P (grFormat request) found = Some (Inr (gesEvents resp))"
    using assms(8) by (auto simp: getEvents_def Let_def split: option.splits sum.splits if_splits)
  obtain r' c where rc: "(r', c) \<in> set found" "eiID i = ekIds ?P c" using entry_infos_ids [OF g(3) i(1)] by blast
  have "r' \<in> set ?t \<and> ekParseCursor ?P (erId r') = Some c \<and> (contractIDs = [] \<or> erContractId r' \<in> Some ` set contractIDs)"
    using g(2) rc(1) scan_rows_found [of "ekParseCursor ?P"] by (fastforce simp: GetEvents_def Let_def event_where_def split: if_splits option.splits)
  then have r': "r' \<in> set ?t" "ekParseCursor ?P (erId r') = Some c" "contractIDs = [] \<or> erContractId r' \<in> Some ` set contractIDs" by blast+
  have "erId r' = ekIds ?P c" using rows_cursor(1,2) [OF assms(1,2) r'(1)] r'(2) by simp
  then have "erId r' = erId r" using rc(2) i(2) by simp
  moreover have "inj_on erId (set ?t)" using assms(1) by (auto simp: indexed_def distinct_map)
  ultimately have "r' = r" using r'(1) assms(5) by (auto dest: inj_onD)
  moreover have ids: "Some ` set contractIDs = ekDecode ?P ` set (concat (map efContractIDs (grFilters request)))" using combine_ids_set [OF g(1) [unfolded combineContractIDs_def]] by simp
  moreover have "contractIDs \<noteq> []"
  proof
    assume "contractIDs = []"
    then have "set (concat (map efContractIDs (grFilters request))) = {}" using ids by (metis empty_set image_is_empty)
    with assms(3,4) show False by auto
  qed
  ultimately show False using r'(3) assms(7) by simp
qed

subsection \<open>A query\<close>

text \<open>Events of two contracts in two ledgers; cursors are printed in unary, and read back.\<close>

fun ones :: "string \<Rightarrow> (nat \<times> string) option" where
  "ones [] = None"
| "ones (x # xs) = (if x = CHR ''1'' then map_option (\<lambda>(n, ys). (Suc n, ys)) (ones xs) else Some (0, xs))"

lemma ones_unary: "ones (unary_id n @ xs) = Some (n, xs)"
  by (induction n) (simp_all add: unary_id_def)

definition parse_unary :: "string \<Rightarrow> Cursor option" where
  "parse_unary s = Option.bind (ones s) (\<lambda>(l, s). Option.bind (ones s) (\<lambda>(x, s). Option.bind (ones s) (\<lambda>(p, s). Option.bind (ones s) (\<lambda>(e, _).
     Some \<lparr>cuLedger = of_nat l, cuTx = of_nat x, cuOp = of_nat p, cuEvent = of_nat e\<rparr>))))"

lemma parse_unary_ids: "parse_unary (unary_ids c) = Some c"
  by (cases c) (simp add: parse_unary_def unary_ids_def ones_unary del: append_Nil2)

definition wit_matches :: "EventFilter list \<Rightarrow> bool \<times> ContractEvent \<Rightarrow> bool" where
  "wit_matches filters e \<longleftrightarrow> filters = [] \<or> list_ex (\<lambda>f. efEventType f = [] \<and> efTopics f = [] \<and> (efContractIDs f = [] \<or> evContractId (snd e) \<in> Some ` set (efContractIDs f))) filters"

definition wit_events_pkg :: events_pkg where
  "wit_events_pkg = \<lparr>ekValid = (\<lambda>_ _. None), ekMatches = wit_matches, ekIds = unary_ids, ekParseCursor = parse_unary,
     ekMaxCursor = \<lparr>cuLedger = 0, cuTx = TransactionMask, cuOp = OperationMask, cuEvent = 2 ^ 32 - 1\<rparr>, ekDecode = Some, ekEncode = Some, ekTypeXDR = (\<lambda>_. None),
     ekTypeName = (\<lambda>_. Some ''contract''), ekFormatTime = (\<lambda>_. []), ekHexString = (\<lambda>h. h), ekJSON = Inr, ekBase64 = Inr\<rparr>"

definition wit_events_handler :: eventsRPCHandler where
  "wit_events_handler = \<lparr>evhPkg = wit_events_pkg, evhMaxLimit = 10, evhDefaultLimit = 10, evhQueryFault = None, evhRowFault = (\<lambda>_. None), evhRowsErr = None\<rparr>"

definition wit_event :: "string \<Rightarrow> ContractEvent" where
  "wit_event c = \<lparr>evContractId = Some c, evType = 1, evBody = Some ([''t''], ''v'')\<rparr>"

definition wit_event_ledger :: "u32 \<Rightarrow> string list \<Rightarrow> Lcm" where
  "wit_event_ledger n cs = \<lparr>LedgerSequence = n, LedgerCloseTime = 0, CountTransactions = 1,
     TxReader = Inr [Inr \<lparr>rtHash = unary_id (unat n), rtInnerHash = None, rtIndex = 1, rtSuccessful = True, rtEvents = Inr ([], [map wit_event cs])\<rparr>], FeeReader = Inr []\<rparr>"

definition wit_event_ledgers :: "Lcm list" where
  "wit_event_ledgers = [wit_event_ledger 5 [''A'', ''B''], wit_event_ledger 6 [''C'', ''A'']]"

definition wit_events_db :: DB where
  "wit_events_db = \<lparr>tables = \<lparr>ledger_close_meta = wit_event_ledgers, transactions_t = concat (map lookups wit_event_ledgers),
      events_t = concat (map (ledger_event_rows unary_ids) wit_event_ledgers)\<rparr>, cache = \<lparr>latestLedgerSeq = 6, latestLedgerCloseTime = 0\<rparr>\<rparr>"

definition wit_filter :: "string list \<Rightarrow> EventFilter" where
  "wit_filter cs = \<lparr>efEventType = [], efContractIDs = cs, efTopics = []\<rparr>"

definition wit_events_query :: events_query where
  "wit_events_query = \<lparr>vHandler = wit_events_handler, vDB = wit_events_db, vFilters = [wit_filter [''A''], wit_filter [''B'']], vStart = 5, vLimit = 2, vFormat = []\<rparr>"

lemma wit_indexed: "indexed (ekIds wit_events_pkg) (tables wit_events_db)"
proof -
  have "distinct (map trHash (transactions_t (tables wit_events_db)))" "distinct (map erId (events_t (tables wit_events_db)))" by code_simp+
  then show ?thesis by (simp add: indexed_def wit_events_db_def wit_events_pkg_def)
    (simp add: wit_event_ledgers_def wit_event_ledger_def valid_ledger_def tx_in_range_def TransactionMask_def OperationMask_def)
qed

lemma wit_event_rows:
  "\<forall>r\<in>set (events_t (tables wit_events_db)). \<not> (cuTx (cursor_of wit_events_pkg r) = TransactionMask \<and> cuOp (cursor_of wit_events_pkg r) = OperationMask) \<and>
     cuEvent (cursor_of wit_events_pkg r) + 1 \<noteq> 0 \<and> row_info wit_events_pkg [] r \<noteq> None"
  by code_simp

lemma wit_events_query_ok: "events_ok wit_events_query"
proof -
  have "gapless wit_event_ledgers" by (rule gaplessI [of _ 5 7]) (simp add: wit_event_ledgers_def wit_event_ledger_def upt_rec)
  moreover have "matches_sound wit_events_pkg (vFilters wit_events_query)"
    by (auto simp: matches_sound_def wit_events_query_def wit_events_pkg_def wit_matches_def wit_filter_def filter_fits_def)
  moreover have "uniform (vFilters wit_events_query)" "combineContractIDs wit_events_pkg (vFilters wit_events_query) = Inr [''A'', ''B'']" "combineTopics (vFilters wit_events_query) = Inr []" by code_simp+
  moreover have "cache_ok wit_events_db" by (simp add: cache_ok_def wit_events_db_def wit_event_ledgers_def wit_event_ledger_def lcm_info_def)
  ultimately show ?thesis using wit_indexed wit_event_rows unary_ids_ok parse_unary_ids
    by (simp add: events_ok_def Let_def wit_events_query_def wit_events_handler_def)
      (simp add: wit_events_db_def wit_events_pkg_def wit_event_ledgers_def wit_event_ledger_def)
qed

theorem event_pages_visit_all_witness:
  "map (\<lambda>i. (eiLedger i, eiContractID i)) (concat (events_walk wit_events_query None 5)) = [(5, ''A''), (5, ''B''), (6, ''A'')] \<and>
   list_all (\<lambda>es. length es \<le> 2) (events_walk wit_events_query None 5)"
proof -
  have s: "map (\<lambda>i. (eiLedger i, eiContractID i)) (events_served wit_events_query) = [(5, ''A''), (5, ''B''), (6, ''A'')]" by code_simp
  have "unat (LedgerSequence (last (ledger_close_meta (tables (vDB wit_events_query))))) = 6" "unat (vStart wit_events_query) = 5" by code_simp+
  then have "length (events_served wit_events_query) + unat (LedgerSequence (last (ledger_close_meta (tables (vDB wit_events_query))))) - unat (vStart wit_events_query) < 5"
    using arg_cong [OF s, of length] by simp
  from event_pages_visit_all [OF wit_events_query_ok this] s show ?thesis by (simp add: list_all_iff wit_events_query_def del: events_walk.simps)
qed

definition wit_mixed_request :: GetEventsRequest where
  "wit_mixed_request = \<lparr>grStartLedger = 5, grEndLedger = 0, grFilters = [wit_filter [''A''], wit_filter []], grPagination = Some \<lparr>epCursor = None, epLimit = 2\<rparr>, grFormat = []\<rparr>"

theorem mixed_filters_lose_events_witness:
  "let rows = events_t (tables wit_events_db); r = rows ! 1 in
   ekMatches wit_events_pkg (grFilters wit_mixed_request) (erEvent r) \<and> erContractId r = Some ''B'' \<and>
   (case getEvents wit_events_handler wit_events_db wit_mixed_request of Some (Inr resp) \<Rightarrow> map eiContractID (gesEvents resp) = [''A'', ''A''] \<and> erId r \<notin> eiID ` set (gesEvents resp) | _ \<Rightarrow> False)"
proof -
  let ?r = "events_t (tables wit_events_db) ! 1"
  have g: "case getEvents wit_events_handler wit_events_db wit_mixed_request of Some (Inr resp) \<Rightarrow> map eiContractID (gesEvents resp) = [''A'', ''A''] | _ \<Rightarrow> False" by code_simp
  have m: "ekMatches wit_events_pkg (grFilters wit_mixed_request) (erEvent ?r)" "erContractId ?r = Some ''B''" "1 < length (events_t (tables wit_events_db))" by code_simp+
  have f: "wit_filter [''A''] \<in> set (grFilters wit_mixed_request)" "efContractIDs (wit_filter [''A'']) \<noteq> []"
    "Some ''B'' \<notin> ekDecode wit_events_pkg ` set (concat (map efContractIDs (grFilters wit_mixed_request)))" by (simp_all add: wit_mixed_request_def wit_filter_def wit_events_pkg_def)
  have h: "evhPkg wit_events_handler = wit_events_pkg" "ekParseCursor wit_events_pkg = parse_unary" "ekIds wit_events_pkg = unary_ids" by (simp_all add: wit_events_handler_def wit_events_pkg_def)
  obtain resp where resp: "getEvents wit_events_handler wit_events_db wit_mixed_request = Some (Inr resp)" "map eiContractID (gesEvents resp) = [''A'', ''A'']"
    using g by (auto split: option.splits sum.splits)
  have "erId ?r \<notin> eiID ` set (gesEvents resp)"
    by (rule mixed_filters_lose_events [OF _ _ f(1,2) nth_mem [OF m(3)] _ _ resp(1)]) (use m f(3) wit_indexed parse_unary_ids in \<open>simp_all add: h\<close>)
  with m resp show ?thesis by simp
qed

end
