(* ===== verification/Lookup_Loader.thy ===== *)
theory Lookup_Loader
  imports Prelude "HOL-Library.List_Lexorder" "HOL-Library.Char_ord"
begin

text \<open>
  The loaders of the lookup tables (\<open>db2/history/loader.go\<close>, \<open>account_loader.go\<close>, \<open>asset_loader.go\<close>, \<open>claimable_balance_loader.go\<close>, \<open>liquidity_pool_loader.go\<close>): the processors register the
  keys of a batch, one execution finds or makes a row for each of them, and the futures that were handed out give their identifiers. The table keeps its keys unique and takes identifiers from a sequence.
\<close>

subsection \<open>Lookup tables\<close>

record 'k lookup_table =
  lt_rows :: "(int \<times> 'k) list"
  lt_next :: int

text \<open>\<open>INSERT ... ON CONFLICT DO NOTHING RETURNING *\<close>: the sequence also moves on for a row that is not inserted.\<close>

fun bulkInsert :: "'k list \<Rightarrow> 'k lookup_table \<Rightarrow> (int \<times> 'k) list \<times> 'k lookup_table" where
  "bulkInsert [] t = ([], t)"
| "bulkInsert (k # ks) t =
     (let i = lt_next t in
      if k \<in> snd ` set (lt_rows t) then bulkInsert ks (t\<lparr>lt_next := i + 1\<rparr>)
      else case bulkInsert ks (t\<lparr>lt_rows := lt_rows t @ [(i, k)], lt_next := i + 1\<rparr>) of (rs, t') \<Rightarrow> ((i, k) # rs, t'))"

definition bulkGet :: "'k list \<Rightarrow> 'k lookup_table \<Rightarrow> (int \<times> 'k) list" where
  "bulkGet ks t = filter (\<lambda>(i, k). k \<in> set ks) (lt_rows t)"

subsection \<open>The loader\<close>

datatype ConcurrencyMode = NoMode | ConcurrentInserts | ConcurrentDeletes

record LoaderStats =
  Total :: int
  Inserted :: int

text \<open>The order of the keys is that of the strings of \<open>l_rank\<close>.\<close>

record 'k loader =
  l_sealed :: bool
  l_set :: "'k list"
  l_ids :: "'k \<Rightarrow> int option"
  l_stats :: LoaderStats
  l_rank :: "'k \<Rightarrow> string"
  l_mode :: ConcurrencyMode

definition new_loader :: "('k \<Rightarrow> string) \<Rightarrow> ConcurrencyMode \<Rightarrow> 'k loader" where
  "new_loader rank mode = \<lparr>l_sealed = False, l_set = [], l_ids = Map.empty, l_stats = \<lparr>Total = 0, Inserted = 0\<rparr>, l_rank = rank, l_mode = mode\<rparr>"

definition NewAccountLoader :: "ConcurrencyMode \<Rightarrow> string loader" where
  "NewAccountLoader mode = new_loader (\<lambda>address. address) mode"

definition NewClaimableBalanceLoader :: "ConcurrencyMode \<Rightarrow> string loader" where
  "NewClaimableBalanceLoader mode = new_loader (\<lambda>balance. balance) mode"

definition NewLiquidityPoolLoader :: "ConcurrencyMode \<Rightarrow> string loader" where
  "NewLiquidityPoolLoader mode = new_loader (\<lambda>pool. pool) mode"

record AssetKey =
  akType :: string
  akCode :: string
  akIssuer :: string

definition AssetKey_String :: "AssetKey \<Rightarrow> string" where
  "AssetKey_String key = (if akType key = ''native'' then akType key else akType key @ ''/'' @ akCode key @ ''/'' @ akIssuer key)"

definition NewAssetLoader :: "ConcurrencyMode \<Rightarrow> AssetKey loader" where
  "NewAssetLoader mode = new_loader AssetKey_String mode"

text \<open>\<open>GetFuture\<close>; \<open>None\<close> is the panic of a loader that was executed.\<close>

definition GetFuture :: "'k loader \<Rightarrow> 'k \<Rightarrow> 'k loader option" where
  "GetFuture l key = (if l_sealed l then None else Some (l\<lparr>l_set := List.insert key (l_set l)\<rparr>))"

definition GetNow :: "'k loader \<Rightarrow> 'k \<Rightarrow> string + int" where
  "GetNow l key = (if \<not> l_sealed l then Inl ''invalid loader state''
     else case l_ids l key of None \<Rightarrow> Inl ''loader key was not found'' | Some i \<Rightarrow> Inr i)"

definition filter_keys :: "'k loader \<Rightarrow> 'k list \<Rightarrow> 'k list" where
  "filter_keys l keys = filter (\<lambda>k. l_ids l k = None) keys"

definition updateMap :: "'k loader \<Rightarrow> (int \<times> 'k) list \<Rightarrow> 'k loader" where
  "updateMap l rows = fold (\<lambda>(i, k) l. l\<lparr>l_ids := (l_ids l)(k \<mapsto> i)\<rparr>) rows l"

definition loader_insert :: "string option \<Rightarrow> 'k list \<Rightarrow> 'k loader \<Rightarrow> 'k lookup_table \<Rightarrow> (string + int) \<times> 'k loader \<times> 'k lookup_table" where
  "loader_insert fault keys l t = (let keys' = filter_keys l keys in
     if keys' = [] then (Inr 0, l, t)
     else case fault of Some e \<Rightarrow> (Inl e, l, t)
       | None \<Rightarrow> (case bulkInsert keys' t of (rows, t') \<Rightarrow> (Inr (int (length rows)), updateMap l rows, t')))"

definition loader_query :: "string option \<Rightarrow> 'k list \<Rightarrow> 'k loader \<Rightarrow> 'k lookup_table \<Rightarrow> (string + int) \<times> 'k loader" where
  "loader_query fault keys l t = (let keys' = filter_keys l keys in
     if keys' = [] then (Inr 0, l)
     else case fault of Some e \<Rightarrow> (Inl e, l)
       | None \<Rightarrow> (let rows = bulkGet keys' t in (Inr (int (length rows)), updateMap l rows)))"

text \<open>
  \<open>Exec\<close>. Each of the two statements may fail, and other transactions may change the table between them; \<open>between\<close> is what this transaction then sees.
\<close>

record exec_env =
  InsertFault :: "string option"
  QueryFault :: "string option"

definition Exec :: "exec_env \<Rightarrow> ('k lookup_table \<Rightarrow> 'k lookup_table) \<Rightarrow> 'k loader \<Rightarrow> 'k lookup_table \<Rightarrow> string option \<times> 'k loader \<times> 'k lookup_table" where
  "Exec E between l0 t = (let l = l0\<lparr>l_sealed := True\<rparr> in
     if l_set l = [] then (None, l, t)
     else let keys = sort_key (l_rank l) (l_set l);
              add = (\<lambda>total inserted l. l\<lparr>l_stats := \<lparr>Total = Total (l_stats l) + total, Inserted = Inserted (l_stats l) + inserted\<rparr>\<rparr>) in
       case l_mode l of
         ConcurrentInserts \<Rightarrow> (case loader_insert (InsertFault E) keys l t of
             (Inl e, l1, t1) \<Rightarrow> (Some e, l1, t1)
           | (Inr n, l1, t1) \<Rightarrow> (let t2 = between t1 in
               case loader_query (QueryFault E) keys (add n n l1) t2 of
                 (Inl e, l2) \<Rightarrow> (Some e, l2, t2)
               | (Inr m, l2) \<Rightarrow> (None, add m 0 l2, t2)))
       | ConcurrentDeletes \<Rightarrow> (case loader_query (QueryFault E) keys l t of
             (Inl e, l1) \<Rightarrow> (Some e, l1, t)
           | (Inr n, l1) \<Rightarrow> (case loader_insert (InsertFault E) keys (add n 0 l1) (between t) of
                 (Inl e, l2, t2) \<Rightarrow> (Some e, l2, t2)
               | (Inr m, l2, t2) \<Rightarrow> (None, add m m l2, t2)))
       | NoMode \<Rightarrow> (Some ''concurrency mode is invalid'', l, t))"

subsection \<open>Rows for all keys\<close>

definition table_ok :: "'k lookup_table \<Rightarrow> bool" where
  "table_ok t \<longleftrightarrow> distinct (map fst (lt_rows t)) \<and> distinct (map snd (lt_rows t)) \<and> (\<forall>r\<in>set (lt_rows t). fst r < lt_next t)"

lemma bulkInsert_rows:
  "bulkInsert ks t = (rs, t') \<Longrightarrow> table_ok t \<Longrightarrow>
    table_ok t' \<and> lt_rows t' = lt_rows t @ rs \<and> set (map snd rs) = set ks - snd ` set (lt_rows t)"
proof (induction ks arbitrary: t rs)
  case (Cons k ks)
  show ?case
  proof (cases "k \<in> snd ` set (lt_rows t)")
    case True
    then have b: "bulkInsert ks (t\<lparr>lt_next := lt_next t + 1\<rparr>) = (rs, t')" using Cons.prems(1) by (simp add: Let_def)
    have "table_ok (t\<lparr>lt_next := lt_next t + 1\<rparr>)" using Cons.prems(2) by (auto simp: table_ok_def intro: less_trans [of _ "lt_next t"])
    from Cons.IH [OF b this] True show ?thesis by auto
  next
    case False
    let ?t = "t\<lparr>lt_rows := lt_rows t @ [(lt_next t, k)], lt_next := lt_next t + 1\<rparr>"
    obtain rs1 where rs1: "bulkInsert ks ?t = (rs1, t')" "rs = (lt_next t, k) # rs1" using Cons.prems(1) False by (auto simp: Let_def split: prod.splits)
    have "table_ok ?t" using Cons.prems(2) False by (fastforce simp: table_ok_def)
    from Cons.IH [OF rs1(1) this] rs1(2) False show ?thesis by auto
  qed
qed simp

lemma updateMap_simps [simp]:
  "updateMap l [] = l" "updateMap l ((i, k) # rows) = updateMap (l\<lparr>l_ids := (l_ids l)(k \<mapsto> i)\<rparr>) rows"
  by (simp_all add: updateMap_def)

lemma updateMap_fields [simp]:
  "l_sealed (updateMap l rows) = l_sealed l" "l_set (updateMap l rows) = l_set l" "l_stats (updateMap l rows) = l_stats l" "l_rank (updateMap l rows) = l_rank l" "l_mode (updateMap l rows) = l_mode l"
  by (induction rows arbitrary: l) auto

lemma updateMap_other: "k \<notin> snd ` set rows \<Longrightarrow> l_ids (updateMap l rows) k = l_ids l k"
  by (induction rows arbitrary: l) auto

lemma updateMap_row: "distinct (map snd rows) \<Longrightarrow> (i, k) \<in> set rows \<Longrightarrow> l_ids (updateMap l rows) k = Some i"
proof (induction rows arbitrary: l)
  case (Cons r rows)
  obtain j k' where r: "r = (j, k')" by (cases r)
  show ?case using Cons by (cases "(i, k) \<in> set rows") (auto simp: r updateMap_other)
qed simp

text \<open>The identifiers that a loader knows are those of the table.\<close>

definition ids_of :: "'k loader \<Rightarrow> 'k lookup_table \<Rightarrow> bool" where
  "ids_of l t \<longleftrightarrow> (\<forall>k i. l_ids l k = Some i \<longrightarrow> (i, k) \<in> set (lt_rows t))"

lemma updateMap_ids_of:
  assumes "ids_of l t" "set (lt_rows t) \<subseteq> set (lt_rows t')" "set rows \<subseteq> set (lt_rows t')" "distinct (map snd rows)"
  shows "ids_of (updateMap l rows) t'" "\<And>k. l_ids (updateMap l rows) k = None \<longleftrightarrow> l_ids l k = None \<and> k \<notin> snd ` set rows"
proof -
  have "(i, k) \<in> set (lt_rows t')" if "l_ids (updateMap l rows) k = Some i" for i k
  proof (cases "k \<in> snd ` set rows")
    case True
    then obtain j where "(j, k) \<in> set rows" by force
    with that assms(3,4) show ?thesis by (auto simp: updateMap_row)
  next
    case False
    with that assms(1,2) show ?thesis by (auto simp: updateMap_other ids_of_def)
  qed
  then show "ids_of (updateMap l rows) t'" by (simp add: ids_of_def)
  show "l_ids (updateMap l rows) k = None \<longleftrightarrow> l_ids l k = None \<and> k \<notin> snd ` set rows" for k
    using assms(4) by (cases "k \<in> snd ` set rows") (auto simp: updateMap_other updateMap_row)
qed

lemma length_map_snd: "distinct (map snd rs) \<Longrightarrow> length rs = card (snd ` set rs)"
  using distinct_card [of "map snd rs"] by simp

lemma loader_insert_spec:
  assumes "loader_insert None keys l t = (r, l', t')" "table_ok t" "ids_of l t"
  shows "table_ok t'" "ids_of l' t'" "set (lt_rows t) \<subseteq> set (lt_rows t')" "snd ` set (lt_rows t') = snd ` set (lt_rows t) \<union> {k \<in> set keys. l_ids l k = None}"
    "r = Inr (int (card ({k \<in> set keys. l_ids l k = None} - snd ` set (lt_rows t))))" "\<And>k. l_ids l' k = None \<longleftrightarrow> l_ids l k = None \<and> k \<notin> set keys - snd ` set (lt_rows t)"
    "l_sealed l' = l_sealed l" "l_stats l' = l_stats l" "l_set l' = l_set l"
proof -
  let ?keys = "filter_keys l keys"
  obtain rs t1 where b: "bulkInsert ?keys t = (rs, t1)" by (cases "bulkInsert ?keys t")
  note br = bulkInsert_rows [OF b assms(2)]
  have e: "r = Inr (int (length rs)) \<and> l' = updateMap l rs \<and> t' = t1" using assms(1) b by (auto simp: loader_insert_def Let_def split: if_splits)
  have ks: "snd ` set rs = {k \<in> set keys. l_ids l k = None} - snd ` set (lt_rows t)" using br by (auto simp: filter_keys_def)
  have d: "distinct (map snd rs)" using br by (auto simp: table_ok_def)
  note u = updateMap_ids_of [OF assms(3), of t1 rs, OF _ _ d]
  have sub: "set (lt_rows t) \<subseteq> set (lt_rows t1)" "set rs \<subseteq> set (lt_rows t1)" using br by auto
  show "table_ok t'" "set (lt_rows t) \<subseteq> set (lt_rows t')" "ids_of l' t'" using e br sub u(1) by auto
  show "snd ` set (lt_rows t') = snd ` set (lt_rows t) \<union> {k \<in> set keys. l_ids l k = None}" using e br ks by (auto simp: image_Un)
  show "r = Inr (int (card ({k \<in> set keys. l_ids l k = None} - snd ` set (lt_rows t))))" using e ks length_map_snd [OF d] by simp
  show "l_ids l' k = None \<longleftrightarrow> l_ids l k = None \<and> k \<notin> set keys - snd ` set (lt_rows t)" for k using e u(2) [OF sub] ks by auto
  show "l_sealed l' = l_sealed l" "l_stats l' = l_stats l" "l_set l' = l_set l" using e by simp_all
qed

lemma loader_query_spec:
  assumes "loader_query None keys l t = (r, l')" "table_ok t" "ids_of l t"
  shows "ids_of l' t" "r = Inr (int (card ({k \<in> set keys. l_ids l k = None} \<inter> snd ` set (lt_rows t))))"
    "\<And>k. l_ids l' k = None \<longleftrightarrow> l_ids l k = None \<and> k \<notin> set keys \<inter> snd ` set (lt_rows t)" "l_sealed l' = l_sealed l" "l_stats l' = l_stats l" "l_set l' = l_set l"
proof -
  let ?rs = "bulkGet (filter_keys l keys) t"
  have e: "r = Inr (int (length ?rs)) \<and> l' = updateMap l ?rs" using assms(1) by (auto simp: loader_query_def Let_def bulkGet_def split: if_splits)
  have ks: "snd ` set ?rs = {k \<in> set keys. l_ids l k = None} \<inter> snd ` set (lt_rows t)" by (force simp: bulkGet_def filter_keys_def)
  have d: "distinct (map snd ?rs)" using assms(2) distinct_map_filter by (auto simp: table_ok_def bulkGet_def)
  have "set ?rs \<subseteq> set (lt_rows t)" by (auto simp: bulkGet_def)
  note u = updateMap_ids_of [OF assms(3) _ this d]
  show "ids_of l' t" "l_sealed l' = l_sealed l" "l_stats l' = l_stats l" "l_set l' = l_set l" using e u(1) by auto
  show "r = Inr (int (card ({k \<in> set keys. l_ids l k = None} \<inter> snd ` set (lt_rows t))))" using e ks length_map_snd [OF d] by simp
  show "l_ids l' k = None \<longleftrightarrow> l_ids l k = None \<and> k \<notin> set keys \<inter> snd ` set (lt_rows t)" for k using e u(2) ks by auto
qed

text \<open>
  What the modes allow others to do between the statements: with concurrent inserts, rows are only added; with concurrent deletes, rows are only removed, and not those that the query has locked.
\<close>

definition mode_allows :: "ConcurrencyMode \<Rightarrow> 'k set \<Rightarrow> 'k lookup_table \<Rightarrow> 'k lookup_table \<Rightarrow> bool" where
  "mode_allows mode ks t t' \<longleftrightarrow> table_ok t' \<and> (case mode of
       ConcurrentInserts \<Rightarrow> set (lt_rows t) \<subseteq> set (lt_rows t')
     | ConcurrentDeletes \<Rightarrow> set (lt_rows t') \<subseteq> set (lt_rows t) \<and> (\<forall>r\<in>set (lt_rows t). snd r \<in> ks \<longrightarrow> r \<in> set (lt_rows t'))
     | NoMode \<Rightarrow> False)"

definition fresh_loader :: "'k loader \<Rightarrow> bool" where
  "fresh_loader l \<longleftrightarrow> \<not> l_sealed l \<and> l_ids l = Map.empty \<and> l_stats l = \<lparr>Total = 0, Inserted = 0\<rparr> \<and> distinct (l_set l)"

lemma ids_of_more: "ids_of l t \<Longrightarrow> set (lt_rows t) \<subseteq> set (lt_rows t') \<Longrightarrow> ids_of l t'"
  by (auto simp: ids_of_def)

lemma ids_of_stats [simp]: "ids_of (l\<lparr>l_stats := x\<rparr>) t = ids_of l t"
  by (simp add: ids_of_def)

text \<open>A loader whose keys all have rows.\<close>

lemma GetNow_resolved:
  assumes "ids_of l t" "l_sealed l" "\<And>k. k \<in> K \<Longrightarrow> l_ids l k \<noteq> None"
  shows "\<forall>k\<in>K. \<exists>i. GetNow l k = Inr i \<and> (i, k) \<in> set (lt_rows t)"
  using assms by (fastforce simp: GetNow_def ids_of_def)

lemma Exec_inserts:
  assumes l: "fresh_loader l" "l_mode l = ConcurrentInserts" "l_set l \<noteq> []" and t: "table_ok t" "\<And>t1. table_ok t1 \<Longrightarrow> table_ok (between t1) \<and> set (lt_rows t1) \<subseteq> set (lt_rows (between t1))"
    and E: "InsertFault E = None" "QueryFault E = None"
  shows "\<exists>l' t'. Exec E between l t = (None, l', t') \<and> table_ok t' \<and> Total (l_stats l') = int (length (l_set l)) \<and> (\<forall>k\<in>set (l_set l). \<exists>i. GetNow l' k = Inr i \<and> (i, k) \<in> set (lt_rows t'))"
proof -
  let ?keys = "sort_key (l_rank l) (l_set l)" and ?K = "set (l_set l)" and ?l = "l\<lparr>l_sealed := True\<rparr>"
  have f: "l_ids l = Map.empty" "l_stats l = \<lparr>Total = 0, Inserted = 0\<rparr>" "distinct (l_set l)" using l(1) by (simp_all add: fresh_loader_def)
  obtain r l1 t1 where i: "loader_insert None ?keys ?l t = (r, l1, t1)" by (metis prod_cases3)
  have "ids_of ?l t" using f(1) by (simp add: ids_of_def)
  note s1 = loader_insert_spec [OF i t(1) this]
  let ?n = "int (card (?K - snd ` set (lt_rows t)))"
  let ?l1 = "l1\<lparr>l_stats := \<lparr>Total = ?n, Inserted = ?n\<rparr>\<rparr>"
  have r: "r = Inr ?n" using s1(5) f(1) by simp
  have t2: "table_ok (between t1)" "set (lt_rows t1) \<subseteq> set (lt_rows (between t1))" using t(2) [OF s1(1)] by auto
  obtain r2 l2 where q: "loader_query None ?keys ?l1 (between t1) = (r2, l2)" by (metis prod.exhaust)
  have "ids_of ?l1 (between t1)" using ids_of_more [OF s1(2) t2(2)] by simp
  note s2 = loader_query_spec [OF q t2(1) this]
  have n1: "l_ids l1 k = None \<longleftrightarrow> k \<notin> ?K - snd ` set (lt_rows t)" for k using s1(6) f(1) by simp
  have rows: "?K \<subseteq> snd ` set (lt_rows (between t1))" using s1(4) t2(2) f(1) by auto
  then have "{k \<in> ?K. l_ids l1 k = None} \<inter> snd ` set (lt_rows (between t1)) = ?K \<inter> snd ` set (lt_rows t)" using n1 by auto
  then have r2: "r2 = Inr (int (card (?K \<inter> snd ` set (lt_rows t))))" using s2(2) by simp
  have "card (?K - snd ` set (lt_rows t)) + card (?K \<inter> snd ` set (lt_rows t)) = length (l_set l)"
    using card_Diff_subset_Int [of ?K "snd ` set (lt_rows t)"] card_mono [of ?K "?K \<inter> snd ` set (lt_rows t)"] distinct_card [OF f(3)] by simp
  then have tot: "?n + int (card (?K \<inter> snd ` set (lt_rows t))) = int (length (l_set l))" by simp
  let ?l2 = "l2\<lparr>l_stats := \<lparr>Total = ?n + int (card (?K \<inter> snd ` set (lt_rows t))), Inserted = ?n + 0\<rparr>\<rparr>"
  have st: "l_stats l1 = \<lparr>Total = 0, Inserted = 0\<rparr>" "l_stats l2 = \<lparr>Total = ?n, Inserted = ?n\<rparr>" "l_sealed ?l2" using s1(7,8) s2(4,5) f(2) by simp_all
  have "Exec E between l t = (None, ?l2, between t1)" using l(2,3) E i r q r2 st by (simp add: Exec_def Let_def)
  moreover have "\<forall>k\<in>?K. \<exists>i. GetNow ?l2 k = Inr i \<and> (i, k) \<in> set (lt_rows (between t1))"
  proof (rule GetNow_resolved)
    show "ids_of ?l2 (between t1)" using s2(1) by simp
    show "l_ids ?l2 k \<noteq> None" if "k \<in> ?K" for k using that s2(3) [of k] rows by auto
  qed (rule st(3))
  ultimately show ?thesis using t2(1) tot by auto
qed

lemma Exec_deletes:
  assumes l: "fresh_loader l" "l_mode l = ConcurrentDeletes" "l_set l \<noteq> []" and t: "table_ok t" "table_ok (between t)" "set (lt_rows (between t)) \<subseteq> set (lt_rows t)"
      "\<And>r. r \<in> set (lt_rows t) \<Longrightarrow> snd r \<in> set (l_set l) \<Longrightarrow> r \<in> set (lt_rows (between t))"
    and E: "InsertFault E = None" "QueryFault E = None"
  shows "\<exists>l' t'. Exec E between l t = (None, l', t') \<and> table_ok t' \<and> Total (l_stats l') = int (length (l_set l)) \<and> (\<forall>k\<in>set (l_set l). \<exists>i. GetNow l' k = Inr i \<and> (i, k) \<in> set (lt_rows t'))"
proof -
  let ?keys = "sort_key (l_rank l) (l_set l)" and ?K = "set (l_set l)" and ?l = "l\<lparr>l_sealed := True\<rparr>"
  have f: "l_ids l = Map.empty" "l_stats l = \<lparr>Total = 0, Inserted = 0\<rparr>" "distinct (l_set l)" using l(1) by (simp_all add: fresh_loader_def)
  obtain r l1 where q: "loader_query None ?keys ?l t = (r, l1)" by (metis prod.exhaust)
  have "ids_of ?l t" using f(1) by (simp add: ids_of_def)
  note s1 = loader_query_spec [OF q t(1) this]
  let ?n = "int (card (?K \<inter> snd ` set (lt_rows t)))"
  let ?l1 = "l1\<lparr>l_stats := \<lparr>Total = ?n, Inserted = 0\<rparr>\<rparr>"
  have r: "r = Inr ?n" using s1(2) f(1) by simp
  have n1: "l_ids l1 k = None \<longleftrightarrow> k \<notin> ?K \<inter> snd ` set (lt_rows t)" for k using s1(3) f(1) by simp
  have locked: "ids_of ?l1 (between t)" unfolding ids_of_def
  proof (intro allI impI)
    fix k i assume "l_ids ?l1 k = Some i"
    then have "(i, k) \<in> set (lt_rows t)" "k \<in> ?K" using s1(1) n1 [of k] by (auto simp: ids_of_def)
    then show "(i, k) \<in> set (lt_rows (between t))" using t(4) by auto
  qed
  have kept: "?K \<inter> snd ` set (lt_rows (between t)) = ?K \<inter> snd ` set (lt_rows t)" using t(3,4) by force
  obtain r2 l2 t2 where i: "loader_insert None ?keys ?l1 (between t) = (r2, l2, t2)" by (metis prod_cases3)
  note s2 = loader_insert_spec [OF i t(2) locked]
  have "{k \<in> ?K. l_ids l1 k = None} - snd ` set (lt_rows (between t)) = ?K - snd ` set (lt_rows t)" using n1 kept by auto
  then have r2: "r2 = Inr (int (card (?K - snd ` set (lt_rows t))))" using s2(5) by simp
  let ?m = "int (card (?K - snd ` set (lt_rows t)))"
  have "card (?K - snd ` set (lt_rows t)) + card (?K \<inter> snd ` set (lt_rows t)) = length (l_set l)"
    using card_Diff_subset_Int [of ?K "snd ` set (lt_rows t)"] card_mono [of ?K "?K \<inter> snd ` set (lt_rows t)"] distinct_card [OF f(3)] by simp
  then have tot: "?n + ?m = int (length (l_set l))" by simp
  let ?l2 = "l2\<lparr>l_stats := \<lparr>Total = ?n + ?m, Inserted = 0 + ?m\<rparr>\<rparr>"
  have st: "l_stats l1 = \<lparr>Total = 0, Inserted = 0\<rparr>" "l_stats l2 = \<lparr>Total = ?n, Inserted = 0\<rparr>" "l_sealed ?l2" using s1(4,5) s2(7,8) f(2) by simp_all
  have "Exec E between l t = (None, ?l2, t2)" using l(2,3) E i r q r2 st by (simp add: Exec_def Let_def)
  moreover have "\<forall>k\<in>?K. \<exists>i. GetNow ?l2 k = Inr i \<and> (i, k) \<in> set (lt_rows t2)"
  proof (rule GetNow_resolved)
    show "ids_of ?l2 t2" using s2(2) by simp
    show "l_ids ?l2 k \<noteq> None" if "k \<in> ?K" for k using that s2(6) [of k] n1 [of k] kept by auto
  qed (rule st(3))
  ultimately show ?thesis using s2(1) tot by auto
qed

text \<open>
  C17. When a loader is executed and no statement fails, every key that was registered has an identifier, which is that of its row in the table; the loader counts each key once, and no other row of the table has the same key or
  the same identifier. This holds whatever other loaders insert between the statements in the mode for concurrent inserts, and whatever rows the reaper of the lookup tables deletes in the mode for concurrent deletes.
\<close>

theorem Exec_resolves_all_keys:
  assumes "fresh_loader l" "table_ok t" "\<forall>t1. table_ok t1 \<longrightarrow> mode_allows (l_mode l) (set (l_set l)) t1 (between t1)" "InsertFault E = None" "QueryFault E = None"
  shows "\<exists>l' t'. Exec E between l t = (None, l', t') \<and> table_ok t' \<and> Total (l_stats l') = int (length (l_set l)) \<and>
    (\<forall>k\<in>set (l_set l). \<exists>i. GetNow l' k = Inr i \<and> (i, k) \<in> set (lt_rows t'))"
proof (cases "l_set l = []")
  case True
  with assms(1,2) show ?thesis by (simp add: Exec_def Let_def fresh_loader_def)
next
  case False
  show ?thesis
  proof (cases "l_mode l")
    case NoMode
    with assms(2,3) show ?thesis by (simp add: mode_allows_def)
  next
    case ConcurrentInserts
    with False assms show ?thesis by (intro Exec_inserts) (simp_all add: mode_allows_def)
  next
    case ConcurrentDeletes
    with False assms show ?thesis by (intro Exec_deletes) (simp_all add: mode_allows_def)
  qed
qed

text \<open>A reaper deletes the row of a key that is not registered while the loader runs.\<close>

definition wit_lookup_table :: "string lookup_table" where
  "wit_lookup_table = \<lparr>lt_rows = [(1, ''A''), (2, ''B''), (3, ''C'')], lt_next = 4\<rparr>"

definition wit_delete :: "string lookup_table \<Rightarrow> string lookup_table" where
  "wit_delete t = t\<lparr>lt_rows := filter (\<lambda>r. snd r \<noteq> ''C'') (lt_rows t)\<rparr>"

definition wit_loader :: "string loader" where
  "wit_loader = (NewAccountLoader ConcurrentDeletes)\<lparr>l_set := [''D'', ''A'']\<rparr>"

theorem Exec_resolves_all_keys_witness:
  "\<exists>l' t'. Exec \<lparr>InsertFault = None, QueryFault = None\<rparr> wit_delete wit_loader wit_lookup_table = (None, l', t') \<and> table_ok t' \<and> Total (l_stats l') = 2 \<and>
     (\<exists>i. GetNow l' ''A'' = Inr i \<and> (i, ''A'') \<in> set (lt_rows t')) \<and> (\<exists>i. GetNow l' ''D'' = Inr i \<and> (i, ''D'') \<in> set (lt_rows t'))"
proof -
  have l: "fresh_loader wit_loader" "table_ok wit_lookup_table" "set (l_set wit_loader) = {''D'', ''A''}" "length (l_set wit_loader) = 2"
    by (simp_all add: fresh_loader_def wit_loader_def NewAccountLoader_def new_loader_def table_ok_def wit_lookup_table_def)
  have "\<forall>t1. table_ok t1 \<longrightarrow> mode_allows (l_mode wit_loader) (set (l_set wit_loader)) t1 (wit_delete t1)"
    by (auto simp: mode_allows_def table_ok_def wit_delete_def wit_loader_def NewAccountLoader_def new_loader_def distinct_map_filter)
  from Exec_resolves_all_keys [OF l(1,2) this, of "\<lparr>InsertFault = None, QueryFault = None\<rparr>"] show ?thesis unfolding l(3,4) by auto
qed

end
