(* ===== verification/Lookup_Reaper.thy ===== *)
theory Lookup_Reaper
  imports Lookup_Loader Decimal
begin

text \<open>
  The reaper of the lookup tables (\<open>ingest/reap.go\<close>, \<open>db2/history/main.go\<close>, \<open>key_value.go\<close>): in batches, and going on where the last run ended, it deletes the rows of the lookup tables that no row of the history refers to any more.
\<close>

subsection \<open>Lookup tables and the history\<close>

text \<open>The identifiers of the rows of each lookup table, the identifiers that each column of the history tables has, and the key value store.\<close>

record lookup_db =
  lk_rows :: "string \<Rightarrow> int list"
  hist_refs :: "string \<times> string \<Rightarrow> int list"
  lk_kv :: "string \<Rightarrow> string option"

definition historyLookupTables :: "string \<Rightarrow> (string \<times> string) list" where
  "historyLookupTables table =
     (if table = ''history_accounts'' then
        [(''history_transaction_participants'', ''history_account_id''), (''history_effects'', ''history_account_id''), (''history_operation_participants'', ''history_account_id''),
         (''history_trades'', ''base_account_id''), (''history_trades'', ''counter_account_id'')]
      else if table = ''history_assets'' then
        [(''history_trades'', ''base_asset_id''), (''history_trades'', ''counter_asset_id''), (''history_trades_60000'', ''base_asset_id''), (''history_trades_60000'', ''counter_asset_id'')]
      else if table = ''history_claimable_balances'' then
        [(''history_transaction_claimable_balances'', ''history_claimable_balance_id''), (''history_operation_claimable_balances'', ''history_claimable_balance_id'')]
      else if table = ''history_liquidity_pools'' then
        [(''history_transaction_liquidity_pools'', ''history_liquidity_pool_id''), (''history_operation_liquidity_pools'', ''history_liquidity_pool_id'')]
      else [])"

definition referenced :: "lookup_db \<Rightarrow> string \<Rightarrow> int \<Rightarrow> bool" where
  "referenced d table i \<longleftrightarrow> list_ex (\<lambda>p. i \<in> set (hist_refs d p)) (historyLookupTables table)"

record reap_faults =
  OffsetFault :: "string option"
  NewOffsetFault :: "string option"
  OrphansFault :: "string option"
  ReapBeginFault :: "string option"
  UpdateOffsetFault :: "string option"
  DeleteRowsFault :: "string option"
  ReapCommitFault :: "string option"

subsection \<open>Finding and deleting\<close>

definition lookupTableReapOffsetSuffix :: string where
  "lookupTableReapOffsetSuffix = ''_reap_offset''"

definition getLookupTableReapOffset :: "reap_faults \<Rightarrow> lookup_db \<Rightarrow> string \<Rightarrow> string + int" where
  "getLookupTableReapOffset flt d table = (case OffsetFault flt of
       Some e \<Rightarrow> Inl e
     | None \<Rightarrow> (case lk_kv d (table @ lookupTableReapOffsetSuffix) of
         None \<Rightarrow> Inr 0
       | Some text' \<Rightarrow> (case ParseInt 64 text' of None \<Rightarrow> Inl (''invalid offset: '' @ text') | Some i \<Rightarrow> Inr i)))"

definition updateLookupTableReapOffset :: "lookup_db \<Rightarrow> string \<Rightarrow> int \<Rightarrow> lookup_db" where
  "updateLookupTableReapOffset d table offset = d\<lparr>lk_kv := (lk_kv d)(table @ lookupTableReapOffsetSuffix \<mapsto> Int_String offset)\<rparr>"

text \<open>The rows from an offset on, in the order of their identifiers.\<close>

definition rows_from :: "int list \<Rightarrow> int \<Rightarrow> int list" where
  "rows_from rows offset = sort (filter (\<lambda>i. offset \<le> i) rows)"

definition FindLookupTableRowsToReap :: "reap_faults \<Rightarrow> lookup_db \<Rightarrow> string \<Rightarrow> nat \<Rightarrow> string + int list \<times> int" where
  "FindLookupTableRowsToReap flt d table batchSize = (case getLookupTableReapOffset flt d table of
       Inl e \<Rightarrow> Inl (''could not obtain offsets: '' @ e)
     | Inr offset \<Rightarrow> (case NewOffsetFault flt of
         Some e \<Rightarrow> Inl e
       | None \<Rightarrow> (let rows = rows_from (lk_rows d table) offset;
                     newOffset = (if batchSize < length rows then rows ! batchSize else 0) in
           case OrphansFault flt of
             Some e \<Rightarrow> Inl (''could not query orphaned rows: '' @ e)
           | None \<Rightarrow> Inr (filter (\<lambda>i. \<not> referenced d table i) (take batchSize rows), newOffset))))"

definition deleteLookupTableRows :: "lookup_db \<Rightarrow> string \<Rightarrow> int list \<Rightarrow> lookup_db \<times> nat" where
  "deleteLookupTableRows d table ids = (let gone = (\<lambda>i. i \<in> set ids \<and> \<not> referenced d table i) in
     (d\<lparr>lk_rows := (lk_rows d)(table := filter (\<lambda>i. \<not> gone i) (lk_rows d table))\<rparr>, length (filter gone (lk_rows d table))))"

definition reapLookupTable :: "reap_faults \<Rightarrow> lookup_db \<Rightarrow> string \<Rightarrow> int list \<Rightarrow> int \<Rightarrow> string + lookup_db \<times> nat" where
  "reapLookupTable flt d table ids newOffset = (case UpdateOffsetFault flt of
       Some e \<Rightarrow> Inl (''error updating offset: '' @ e)
     | None \<Rightarrow> (let d1 = updateLookupTableReapOffset d table newOffset in
         if ids = [] then Inr (d1, 0)
         else case DeleteRowsFault flt of
           Some e \<Rightarrow> Inl (''could not delete orphaned rows: '' @ e)
         | None \<Rightarrow> Inr (deleteLookupTableRows d1 table ids)))"

definition ReapLookupTable :: "reap_faults \<Rightarrow> lookup_db \<Rightarrow> string \<Rightarrow> int list \<Rightarrow> int \<Rightarrow> (string + nat) \<times> lookup_db" where
  "ReapLookupTable flt d table ids newOffset = (case ReapBeginFault flt of
       Some e \<Rightarrow> (Inl (''could not start transaction: '' @ e), d)
     | None \<Rightarrow> (case reapLookupTable flt d table ids newOffset of
         Inl e \<Rightarrow> (Inl e, d)
       | Inr (d', n) \<Rightarrow> (case ReapCommitFault flt of
           Some e \<Rightarrow> (Inl (''could not commit transaction: '' @ e), d)
         | None \<Rightarrow> (Inr n, d'))))"

subsection \<open>A run\<close>

definition reapLookupTablesBatchSize :: nat where
  "reapLookupTablesBatchSize = 1000"

fun reap_tables :: "(string \<Rightarrow> reap_faults) \<Rightarrow> string list \<Rightarrow> lookup_db \<Rightarrow> string option \<times> lookup_db" where
  "reap_tables flt [] d = (None, d)"
| "reap_tables flt (table # ts) d = (case FindLookupTableRowsToReap (flt table) d table reapLookupTablesBatchSize of
       Inl e \<Rightarrow> (Some e, d)
     | Inr (ids, offset) \<Rightarrow> (case ReapLookupTable (flt table) d table ids offset of
         (Inl e, d') \<Rightarrow> (Some e, d')
       | (Inr n, d') \<Rightarrow> reap_tables flt ts d'))"

definition lookup_tables :: "string list" where
  "lookup_tables = [''history_accounts'', ''history_claimable_balances'', ''history_assets'', ''history_liquidity_pools'']"

text \<open>\<open>pending\<close>: a run of this process is under way; \<open>lock\<close>: the error of the lock transaction, or whether it got the lock.\<close>

definition deleteOrphanedRows :: "bool \<Rightarrow> string + bool \<Rightarrow> (string \<Rightarrow> reap_faults) \<Rightarrow> lookup_db \<Rightarrow> string option \<times> lookup_db" where
  "deleteOrphanedRows pending lock flt d =
     (if pending then (None, d)
      else case lock of
        Inl e \<Rightarrow> (Some e, d)
      | Inr acquired \<Rightarrow> if \<not> acquired then (None, d) else reap_tables flt lookup_tables d)"

subsection \<open>One table\<close>

definition no_reap_faults :: reap_faults where
  "no_reap_faults = \<lparr>OffsetFault = None, NewOffsetFault = None, OrphansFault = None, ReapBeginFault = None, UpdateOffsetFault = None, DeleteRowsFault = None, ReapCommitFault = None\<rparr>"

text \<open>What a run does to a table: its rows and its offset.\<close>

definition sweep :: "(int \<Rightarrow> bool) \<Rightarrow> nat \<Rightarrow> int list \<times> int \<Rightarrow> int list \<times> int" where
  "sweep ref batch s = (case s of (rows, offset) \<Rightarrow> let hi = rows_from rows offset in
     (filter (\<lambda>i. \<not> (i \<in> set (take batch hi) \<and> \<not> ref i)) rows, if batch < length hi then hi ! batch else 0))"

definition table_state :: "lookup_db \<Rightarrow> string \<Rightarrow> int list \<times> int \<Rightarrow> bool" where
  "table_state d table s \<longleftrightarrow> lk_rows d table = fst s \<and> getLookupTableReapOffset no_reap_faults d table = Inr (snd s)"

lemma set_rows_from [simp]: "set (rows_from rows offset) = {i \<in> set rows. offset \<le> i}"
  by (auto simp: rows_from_def)

lemma sorted_rows_from [simp]: "sorted (rows_from rows offset)" "distinct rows \<Longrightarrow> distinct (rows_from rows offset)"
  by (simp_all add: rows_from_def)

text \<open>The batch is what lies between the old and the new offset.\<close>

lemma in_batch:
  fixes rows :: "int list"
  assumes "distinct rows" "batch < length (rows_from rows offset)"
  defines "new \<equiv> rows_from rows offset ! batch"
  shows "offset \<le> new" "new \<in> set rows" "\<And>i. i \<in> set (take batch (rows_from rows offset)) \<longleftrightarrow> i \<in> set rows \<and> offset \<le> i \<and> i < new"
    "\<And>i. i \<in> set (drop batch (rows_from rows offset)) \<longleftrightarrow> i \<in> set rows \<and> new \<le> i"
proof -
  let ?hi = "rows_from rows offset"
  have st: "sorted_wrt (<) (take batch ?hi @ new # drop (Suc batch) ?hi)"
    using assms(1,2) id_take_nth_drop [of batch ?hi] by (simp add: strict_sorted_iff new_def)
  then have lo: "\<And>i. i \<in> set (take batch ?hi) \<Longrightarrow> i < new" and hi: "\<And>i. i \<in> set (drop (Suc batch) ?hi) \<Longrightarrow> new < i" by (auto simp: sorted_wrt_append)
  have dr: "drop batch ?hi = new # drop (Suc batch) ?hi" using assms(2) by (simp add: Cons_nth_drop_Suc new_def)
  show o: "offset \<le> new" "new \<in> set rows" using nth_mem [OF assms(2)] by (simp_all add: new_def)
  have parts: "i \<in> set rows \<and> offset \<le> i \<longleftrightarrow> i \<in> set (take batch ?hi) \<or> i \<in> set (drop batch ?hi)" for i
    using set_rows_from [of rows offset] by (metis (mono_tags, lifting) Un_iff append_take_drop_id mem_Collect_eq set_append)
  show "i \<in> set (take batch ?hi) \<longleftrightarrow> i \<in> set rows \<and> offset \<le> i \<and> i < new" for i using parts [of i] lo [of i] hi [of i] by (auto simp: dr)
  show "i \<in> set (drop batch ?hi) \<longleftrightarrow> i \<in> set rows \<and> new \<le> i" for i using parts [of i] lo [of i] hi [of i] o by (auto simp: dr)
qed

lemma rows_from_sweep:
  assumes "distinct rows" "batch < length (rows_from rows offset)"
  shows "rows_from (fst (sweep ref batch (rows, offset))) (snd (sweep ref batch (rows, offset))) = drop batch (rows_from rows offset)"
proof -
  let ?hi = "rows_from rows offset"
  let ?rows = "filter (\<lambda>i. \<not> (i \<in> set (take batch ?hi) \<and> \<not> ref i)) rows"
  note b = in_batch [OF assms]
  have "set (rows_from ?rows (?hi ! batch)) = set (drop batch ?hi)" using b(3,4) by auto
  then have "rows_from ?rows (?hi ! batch) = drop batch ?hi"
    using assms(1) by (intro sorted_distinct_set_unique) (simp_all add: sorted_wrt_drop)
  then show ?thesis using assms(2) by (simp add: sweep_def Let_def)
qed

text \<open>The sweeps up to the one that starts over delete all orphans from the offset on.\<close>

lemma sweep_to_end:
  assumes "0 < batch"
  shows "distinct rows \<Longrightarrow> \<exists>m\<le>length (rows_from rows offset) + 1. (sweep ref batch ^^ m) (rows, offset) = (filter (\<lambda>i. offset \<le> i \<longrightarrow> ref i) rows, 0)"
proof (induction "length (rows_from rows offset)" arbitrary: rows offset rule: less_induct)
  case less
  let ?hi = "rows_from rows offset"
  show ?case
  proof (cases "batch < length ?hi")
    case False
    then have "sweep ref batch (rows, offset) = (filter (\<lambda>i. offset \<le> i \<longrightarrow> ref i) rows, 0)" by (auto simp: sweep_def Let_def intro!: filter_cong)
    then show ?thesis by (intro exI [of _ 1]) simp
  next
    case True
    note b = in_batch [OF less.prems True]
    obtain rows1 new where s: "sweep ref batch (rows, offset) = (rows1, new)" by (cases "sweep ref batch (rows, offset)")
    then have r1: "rows1 = filter (\<lambda>i. \<not> (i \<in> set (take batch ?hi) \<and> \<not> ref i)) rows" "new = ?hi ! batch" using True by (simp_all add: sweep_def Let_def)
    have from1: "rows_from rows1 new = drop batch ?hi" using rows_from_sweep [OF less.prems True, of ref] s by simp
    then have "length (rows_from rows1 new) < length ?hi" using True assms by simp
    from less.hyps [OF this] obtain m where m: "m \<le> length (rows_from rows1 new) + 1" "(sweep ref batch ^^ m) (rows1, new) = (filter (\<lambda>i. new \<le> i \<longrightarrow> ref i) rows1, 0)"
      using less.prems r1(1) by auto
    have "filter (\<lambda>i. new \<le> i \<longrightarrow> ref i) rows1 = filter (\<lambda>i. \<not> (i \<in> set (take batch ?hi) \<and> \<not> ref i) \<and> (new \<le> i \<longrightarrow> ref i)) rows"
      unfolding r1(1) filter_filter by (rule filter_cong) blast+
    also have "\<dots> = filter (\<lambda>i. offset \<le> i \<longrightarrow> ref i) rows"
    proof (rule filter_cong [OF refl])
      fix i assume "i \<in> set rows"
      then show "(\<not> (i \<in> set (take batch ?hi) \<and> \<not> ref i) \<and> (new \<le> i \<longrightarrow> ref i)) = (offset \<le> i \<longrightarrow> ref i)" using b(1) unfolding b(3) r1(2) by linarith
    qed
    finally have "filter (\<lambda>i. new \<le> i \<longrightarrow> ref i) rows1 = filter (\<lambda>i. offset \<le> i \<longrightarrow> ref i) rows" .
    with m(2) s have "(sweep ref batch ^^ Suc m) (rows, offset) = (filter (\<lambda>i. offset \<le> i \<longrightarrow> ref i) rows, 0)" by (simp add: funpow_Suc_right del: funpow.simps)
    moreover have "Suc m \<le> length ?hi + 1" using m(1) from1 True assms by simp
    ultimately show ?thesis by blast
  qed
qed

lemma sweep_clean: "\<forall>i\<in>set rows. ref i \<Longrightarrow> fst ((sweep ref batch ^^ n) (rows, offset)) = rows"
proof (induction n arbitrary: offset)
  case (Suc n)
  have "fst (sweep ref batch (rows, offset)) = rows" using Suc.prems by (auto simp: sweep_def Let_def)
  then obtain o' where "sweep ref batch (rows, offset) = (rows, o')" by (metis fst_conv surj_pair)
  with Suc show ?case by (simp add: funpow_Suc_right del: funpow.simps)
qed simp

lemma length_rows_from: "length (rows_from rows offset) \<le> length rows"
  by (simp add: rows_from_def)

lemma sweeps_all:
  assumes "0 < batch" "distinct rows" "\<forall>i\<in>set rows. 0 \<le> i" "2 * (length rows + 1) \<le> n"
  shows "fst ((sweep ref batch ^^ n) (rows, offset)) = filter ref rows"
proof -
  obtain m1 where m1: "m1 \<le> length rows + 1" "(sweep ref batch ^^ m1) (rows, offset) = (filter (\<lambda>i. offset \<le> i \<longrightarrow> ref i) rows, 0)"
    using sweep_to_end [OF assms(1,2), of offset ref] length_rows_from [of rows offset] by (meson add_le_mono1 le_trans)
  let ?rows = "filter (\<lambda>i. offset \<le> i \<longrightarrow> ref i) rows"
  have "distinct ?rows" using assms(2) by simp
  from sweep_to_end [OF assms(1) this, of 0 ref] obtain m2 where m2: "m2 \<le> length (rows_from ?rows 0) + 1" "(sweep ref batch ^^ m2) (?rows, 0) = (filter (\<lambda>i. 0 \<le> i \<longrightarrow> ref i) ?rows, 0)" by blast
  have "filter (\<lambda>i. 0 \<le> i \<longrightarrow> ref i) ?rows = filter ref rows" using assms(3) by (auto intro!: filter_cong)
  then have two: "(sweep ref batch ^^ (m2 + m1)) (rows, offset) = (filter ref rows, 0)" using m1(2) m2(2) by (simp add: funpow_add)
  have "m2 \<le> length rows + 1" using m2(1) length_rows_from [of ?rows 0] length_filter_le [of _ rows] by (meson add_le_mono1 le_trans)
  then have "n = (n - (m2 + m1)) + (m2 + m1)" using m1(1) assms(4) by simp
  then have "(sweep ref batch ^^ n) (rows, offset) = (sweep ref batch ^^ (n - (m2 + m1))) (filter ref rows, 0)" using two by (metis comp_apply funpow_add)
  then show ?thesis using sweep_clean [of "filter ref rows" ref] by simp
qed

subsection \<open>All tables\<close>

definition ids_ok :: "int list \<Rightarrow> bool" where
  "ids_ok rows \<longleftrightarrow> distinct rows \<and> (\<forall>i\<in>set rows. 0 \<le> i \<and> i < 2 ^ 63)"

lemma getLookupTableReapOffset_kv: "getLookupTableReapOffset no_reap_faults d table = (case lk_kv d (table @ lookupTableReapOffsetSuffix) of
    None \<Rightarrow> Inr 0 | Some x \<Rightarrow> (case ParseInt 64 x of None \<Rightarrow> Inl (''invalid offset: '' @ x) | Some i \<Rightarrow> Inr i))"
  by (simp add: getLookupTableReapOffset_def no_reap_faults_def)

lemma reap_table_step:
  assumes "table_state d table s" "ids_ok (fst s)"
  obtains ids offset n d' where "FindLookupTableRowsToReap no_reap_faults d table b = Inr (ids, offset)" "ReapLookupTable no_reap_faults d table ids offset = (Inr n, d')"
    "table_state d' table (sweep (referenced d table) b s)" "hist_refs d' = hist_refs d" "\<And>t x. t \<noteq> table \<Longrightarrow> table_state d' t x = table_state d t x"
proof -
  obtain rows offset where s: "s = (rows, offset)" by (cases s)
  let ?hi = "rows_from rows offset"
  let ?ids = "filter (\<lambda>i. \<not> referenced d table i) (take b ?hi)" and ?new = "if b < length ?hi then ?hi ! b else 0"
  let ?d1 = "updateLookupTableReapOffset d table ?new"
  have st: "lk_rows d table = rows" "getLookupTableReapOffset no_reap_faults d table = Inr offset" "ids_ok rows" using assms s by (simp_all add: table_state_def)
  have f: "FindLookupTableRowsToReap no_reap_faults d table b = Inr (?ids, ?new)" using st by (simp add: FindLookupTableRowsToReap_def no_reap_faults_def Let_def)
  have ref: "referenced ?d1 table = referenced d table" by (rule ext) (simp add: referenced_def updateLookupTableReapOffset_def)
  let ?d2 = "?d1\<lparr>lk_rows := (lk_rows d)(table := filter (\<lambda>i. \<not> (i \<in> set ?ids \<and> \<not> referenced d table i)) rows)\<rparr>"
  have rows1: "lk_rows ?d1 = lk_rows d" by (simp add: updateLookupTableReapOffset_def)
  have same: "?d2 = ?d1" if "?ids = []" using that st(1) rows1 by (simp add: fun_upd_idem)
  obtain n where re: "ReapLookupTable no_reap_faults d table ?ids ?new = (Inr n, ?d2)"
  proof (cases "?ids = []")
    case True
    then have "ReapLookupTable no_reap_faults d table ?ids ?new = (Inr 0, ?d1)" by (simp add: ReapLookupTable_def reapLookupTable_def no_reap_faults_def)
    then show thesis using that same [OF True] by simp
  next
    case False
    then have "ReapLookupTable no_reap_faults d table ?ids ?new = (case deleteLookupTableRows ?d1 table ?ids of (d', n) \<Rightarrow> (Inr n, d'))"
      by (simp add: ReapLookupTable_def reapLookupTable_def no_reap_faults_def Let_def split: prod.split del: set_filter)
    then show thesis using that ref rows1 st(1) by (simp add: deleteLookupTableRows_def Let_def)
  qed
  have "?new \<in> insert 0 (set rows)" using nth_mem [of b ?hi] by auto
  then have "0 \<le> ?new" "?new < 2 ^ 63" using st(3) by (auto simp: ids_ok_def)
  then have "ParseInt 64 (Int_String ?new) = Some ?new" by (simp add: ParseInt_def)
  then have off: "getLookupTableReapOffset no_reap_faults ?d2 table = Inr ?new" by (simp add: getLookupTableReapOffset_kv updateLookupTableReapOffset_def)
  have "filter (\<lambda>i. \<not> (i \<in> set ?ids \<and> \<not> referenced d table i)) rows = filter (\<lambda>i. \<not> (i \<in> set (take b ?hi) \<and> \<not> referenced d table i)) rows" by (rule filter_cong) auto
  then have "table_state ?d2 table (sweep (referenced d table) b s)" using off by (simp add: table_state_def s sweep_def Let_def)
  moreover have "hist_refs ?d2 = hist_refs d" by (simp add: updateLookupTableReapOffset_def)
  moreover have "table_state ?d2 t x = table_state d t x" if "t \<noteq> table" for t x
    using that by (simp add: table_state_def getLookupTableReapOffset_kv updateLookupTableReapOffset_def)
  ultimately show thesis using that [OF f re] by blast
qed

lemma referenced_hist: "hist_refs d' = hist_refs d \<Longrightarrow> referenced d' = referenced d"
  by (intro ext) (simp add: referenced_def)

lemma reap_tables_sweeps:
  "distinct ts \<Longrightarrow> \<forall>t\<in>set ts. table_state d t (S t) \<and> ids_ok (fst (S t)) \<Longrightarrow>
    \<exists>d'. reap_tables (\<lambda>_. no_reap_faults) ts d = (None, d') \<and> hist_refs d' = hist_refs d \<and>
      (\<forall>t\<in>set ts. table_state d' t (sweep (referenced d t) reapLookupTablesBatchSize (S t))) \<and> (\<forall>t x. t \<notin> set ts \<longrightarrow> table_state d' t x = table_state d t x)"
proof (induction ts arbitrary: d)
  case (Cons table ts)
  have "table_state d table (S table)" "ids_ok (fst (S table))" using Cons.prems(2) by simp_all
  then obtain ids offset n d1 where st: "FindLookupTableRowsToReap no_reap_faults d table reapLookupTablesBatchSize = Inr (ids, offset)" "ReapLookupTable no_reap_faults d table ids offset = (Inr n, d1)"
    "table_state d1 table (sweep (referenced d table) reapLookupTablesBatchSize (S table))" "hist_refs d1 = hist_refs d" "\<And>t x. t \<noteq> table \<Longrightarrow> table_state d1 t x = table_state d t x"
    using reap_table_step [of d table "S table" reapLookupTablesBatchSize] by metis
  have "\<forall>t\<in>set ts. table_state d1 t (S t) \<and> ids_ok (fst (S t))" using Cons.prems st(5) by (metis distinct.simps(2) list.set_intros(2))
  then obtain d2 where d2: "reap_tables (\<lambda>_. no_reap_faults) ts d1 = (None, d2)" "hist_refs d2 = hist_refs d1"
    "\<forall>t\<in>set ts. table_state d2 t (sweep (referenced d1 t) reapLookupTablesBatchSize (S t))" "\<forall>t x. t \<notin> set ts \<longrightarrow> table_state d2 t x = table_state d1 t x"
    using Cons.IH [of d1] Cons.prems(1) by auto
  have "table_state d2 table (sweep (referenced d table) reapLookupTablesBatchSize (S table))" using d2(4) st(3) Cons.prems(1) by (metis distinct.simps(2))
  then show ?case using st d2 referenced_hist [OF st(4)] by auto
qed simp

definition reap_run :: "lookup_db \<Rightarrow> lookup_db" where
  "reap_run d = snd (deleteOrphanedRows False (Inr True) (\<lambda>_. no_reap_faults) d)"

lemma ids_ok_sweep: "ids_ok (fst s) \<Longrightarrow> ids_ok (fst (sweep ref b s))"
  by (cases s) (auto simp: ids_ok_def sweep_def Let_def)

lemma reap_runs_sweep:
  assumes "\<forall>t\<in>set lookup_tables. table_state d t (S t) \<and> ids_ok (fst (S t))"
  shows "hist_refs ((reap_run ^^ n) d) = hist_refs d \<and> (\<forall>t\<in>set lookup_tables. table_state ((reap_run ^^ n) d) t ((sweep (referenced d t) reapLookupTablesBatchSize ^^ n) (S t)) \<and>
    ids_ok (fst ((sweep (referenced d t) reapLookupTablesBatchSize ^^ n) (S t))))"
proof (induction n)
  case (Suc n)
  let ?d = "(reap_run ^^ n) d" and ?S = "\<lambda>t. (sweep (referenced d t) reapLookupTablesBatchSize ^^ n) (S t)"
  have IH: "hist_refs ?d = hist_refs d" "\<forall>t\<in>set lookup_tables. table_state ?d t (?S t) \<and> ids_ok (fst (?S t))" using Suc.IH by auto
  have "distinct lookup_tables" by (simp add: lookup_tables_def)
  from reap_tables_sweeps [OF this IH(2)] obtain d' where d': "reap_tables (\<lambda>_. no_reap_faults) lookup_tables ?d = (None, d')" "hist_refs d' = hist_refs ?d"
    "\<forall>t\<in>set lookup_tables. table_state d' t (sweep (referenced ?d t) reapLookupTablesBatchSize (?S t))" by blast
  have "reap_run ?d = d'" using d'(1) by (simp add: reap_run_def deleteOrphanedRows_def)
  with d'(2,3) IH referenced_hist [OF IH(1)] show ?case by (simp add: ids_ok_sweep)
qed (use assms in simp)

text \<open>
  C19. Runs of the reaper that nobody interferes with come to an end with every lookup table having exactly the rows that some row of the history refers to: wherever the stored offsets are, after twice as many runs as a table has rows (plus
  two) no orphan is left in it, however the batches lie and although every deletion moves the rows that the offset counts over, and no row that is referred to is ever deleted.
\<close>

theorem lookup_reaper_sweeps:
  assumes "\<forall>t\<in>set lookup_tables. ids_ok (lk_rows d t) \<and> (\<exists>offset. getLookupTableReapOffset no_reap_faults d t = Inr offset)" "table \<in> set lookup_tables" "2 * (length (lk_rows d table) + 1) \<le> n"
  shows "lk_rows ((reap_run ^^ n) d) table = filter (referenced d table) (lk_rows d table)"
proof -
  obtain off where off: "\<forall>t\<in>set lookup_tables. getLookupTableReapOffset no_reap_faults d t = Inr (off t)" using assms(1) by metis
  let ?S = "\<lambda>t. (lk_rows d t, off t)"
  have "\<forall>t\<in>set lookup_tables. table_state d t (?S t) \<and> ids_ok (fst (?S t))" using assms(1) off by (simp add: table_state_def)
  from reap_runs_sweep [OF this, of n] assms(2) have "lk_rows ((reap_run ^^ n) d) table = fst ((sweep (referenced d table) reapLookupTablesBatchSize ^^ n) (?S table))"
    by (simp add: table_state_def)
  also have "\<dots> = filter (referenced d table) (lk_rows d table)" by (rule sweeps_all) (use assms in \<open>auto simp: ids_ok_def reapLookupTablesBatchSize_def\<close>)
  finally show ?thesis .
qed

definition wit_lookup_db :: lookup_db where
  "wit_lookup_db = \<lparr>lk_rows = (\<lambda>t. if t = ''history_assets'' then [5, 1, 3] else []),
     hist_refs = (\<lambda>p. if p = (''history_trades_60000'', ''base_asset_id'') then [3] else []), lk_kv = [''history_assets_reap_offset'' \<mapsto> ''4'']\<rparr>"

theorem lookup_reaper_sweeps_witness:
  "lk_rows ((reap_run ^^ 8) wit_lookup_db) ''history_assets'' = [3]"
proof -
  have "getLookupTableReapOffset no_reap_faults wit_lookup_db ''history_accounts'' = Inr 0" "getLookupTableReapOffset no_reap_faults wit_lookup_db ''history_claimable_balances'' = Inr 0"
    "getLookupTableReapOffset no_reap_faults wit_lookup_db ''history_assets'' = Inr 4" "getLookupTableReapOffset no_reap_faults wit_lookup_db ''history_liquidity_pools'' = Inr 0" by code_simp+
  then have "\<forall>t\<in>set lookup_tables. ids_ok (lk_rows wit_lookup_db t) \<and> (\<exists>offset. getLookupTableReapOffset no_reap_faults wit_lookup_db t = Inr offset)"
    by (simp add: lookup_tables_def ids_ok_def wit_lookup_db_def)
  from lookup_reaper_sweeps [OF this, of "''history_assets''" 8] show ?thesis
    by (simp add: lookup_tables_def wit_lookup_db_def referenced_def historyLookupTables_def)
qed

end
