(* ===== verification/Lookup_Race.thy ===== *)
theory Lookup_Race
  imports Lookup_Reaper
begin

text \<open>
  Ingestion and the reaper of a lookup table at the same time (\<open>db2/history/loader.go\<close>, \<open>db2/history/main.go\<close>): the loader of the ingestion locks the rows that it finds until its transaction ends, and the statement of the reaper that
  deletes rows waits for these locks.
\<close>

subsection \<open>Interleavings\<close>

text \<open>An ingestion transaction: its loader after \<open>Exec\<close>, the rows it has inserted, where it left the sequence, and the references it has written.\<close>

record 'k ingest_tx =
  itLoader :: "'k loader"
  itNew :: "(int \<times> 'k) list"
  itNext :: int
  itRefs :: "int list"

text \<open>
  The committed rows of the table, the committed references to them, the ingestion transaction, if there is one, and the statement of the reaper: the rows that it means to delete, and the references that were committed when it began.
\<close>

record 'k lookup_conc =
  cTable :: "'k lookup_table"
  cRefs :: "int list"
  cIngest :: "'k ingest_tx option"
  cReap :: "(int list \<times> int list) option"

definition row_locked :: "'k lookup_conc \<Rightarrow> int \<Rightarrow> bool" where
  "row_locked s i \<longleftrightarrow> (case cIngest s of None \<Rightarrow> False | Some g \<Rightarrow> Some i \<in> range (l_ids (itLoader g)))"

text \<open>
  The steps. A statement that waits for locks may look for references as of its beginning, as the database does at the isolation level of these transactions (\<open>READ COMMITTED\<close>), or, with \<open>late\<close>, after it has got the locks. A rollback leaves
  the sequence where it is.
\<close>

inductive lookup_step :: "bool \<Rightarrow> 'k lookup_conc \<Rightarrow> 'k lookup_conc \<Rightarrow> bool" for late where
  IngestExec: "cIngest s = None \<Longrightarrow> fresh_loader l \<Longrightarrow> l_mode l = ConcurrentDeletes \<Longrightarrow>
     Exec \<lparr>InsertFault = None, QueryFault = None\<rparr> (\<lambda>t. t) l (cTable s) = (None, l', t') \<Longrightarrow>
     lookup_step late s (s\<lparr>cIngest := Some \<lparr>itLoader = l', itNew = drop (length (lt_rows (cTable s))) (lt_rows t'), itNext = lt_next t', itRefs = []\<rparr>\<rparr>)"
| IngestWrite: "cIngest s = Some g \<Longrightarrow> GetNow (itLoader g) k = Inr i \<Longrightarrow> lookup_step late s (s\<lparr>cIngest := Some (g\<lparr>itRefs := i # itRefs g\<rparr>)\<rparr>)"
| IngestCommit: "cIngest s = Some g \<Longrightarrow>
     lookup_step late s (s\<lparr>cTable := \<lparr>lt_rows = lt_rows (cTable s) @ itNew g, lt_next = itNext g\<rparr>, cRefs := itRefs g @ cRefs s, cIngest := None\<rparr>)"
| IngestRollback: "cIngest s = Some g \<Longrightarrow> lookup_step late s (s\<lparr>cTable := (cTable s)\<lparr>lt_next := itNext g\<rparr>, cIngest := None\<rparr>)"
| ReapStart: "cReap s = None \<Longrightarrow> lookup_step late s (s\<lparr>cReap := Some (ids, cRefs s)\<rparr>)"
| ReapFinish: "cReap s = Some (ids, snapshot) \<Longrightarrow> \<forall>i\<in>set ids. \<not> row_locked s i \<Longrightarrow>
     lookup_step late s (s\<lparr>cTable := (cTable s)\<lparr>lt_rows := filter (\<lambda>r. \<not> (fst r \<in> set ids \<and> fst r \<notin> set (if late then cRefs s else snapshot))) (lt_rows (cTable s))\<rparr>, cReap := None\<rparr>)"
| HistoryReap: "lookup_step late s (s\<lparr>cRefs := filter keep (cRefs s)\<rparr>)"

text \<open>No transaction is open, and every reference has its row.\<close>

definition lookup_quiet :: "'k lookup_conc \<Rightarrow> bool" where
  "lookup_quiet s \<longleftrightarrow> cIngest s = None \<and> cReap s = None \<and> table_ok (cTable s) \<and> set (cRefs s) \<subseteq> fst ` set (lt_rows (cTable s))"

subsection \<open>Executing the loader\<close>

lemma loader_insert_appends: "loader_insert None keys l t = (r, l', t') \<Longrightarrow> table_ok t \<Longrightarrow> lt_rows t' = lt_rows t @ drop (length (lt_rows t)) (lt_rows t')"
proof -
  assume "loader_insert None keys l t = (r, l', t')" "table_ok t"
  moreover obtain rs t1 where b: "bulkInsert (filter_keys l keys) t = (rs, t1)" by (cases "bulkInsert (filter_keys l keys) t")
  ultimately have "t' = t1" "lt_rows t1 = lt_rows t @ rs" using bulkInsert_rows [OF b] by (auto simp: loader_insert_def Let_def split: if_splits)
  then show ?thesis by simp
qed

lemma Exec_deletes_alone:
  assumes l: "fresh_loader l" "l_mode l = ConcurrentDeletes" and t: "table_ok t" and e: "Exec \<lparr>InsertFault = None, QueryFault = None\<rparr> (\<lambda>t. t) l t = (None, l', t')"
  shows "table_ok t'" "ids_of l' t'" "lt_rows t' = lt_rows t @ drop (length (lt_rows t)) (lt_rows t')"
proof -
  let ?l = "l\<lparr>l_sealed := True\<rparr>" and ?keys = "sort_key (l_rank l) (l_set l)"
  have f: "ids_of ?l t" using l(1) by (simp add: fresh_loader_def ids_of_def)
  have "table_ok t' \<and> ids_of l' t' \<and> lt_rows t' = lt_rows t @ drop (length (lt_rows t)) (lt_rows t')"
  proof (cases "l_set l = []")
    case True
    with e f t show ?thesis by (auto simp: Exec_def Let_def)
  next
    case False
    obtain r l1 where q: "loader_query None ?keys ?l t = (r, l1)" by (metis prod.exhaust)
    note s1 = loader_query_spec [OF q t f]
    obtain n where n: "r = Inr n" using s1(2) by blast
    let ?l1 = "l1\<lparr>l_stats := \<lparr>Total = Total (l_stats l1) + n, Inserted = Inserted (l_stats l1) + 0\<rparr>\<rparr>"
    obtain r2 l2 t2 where i: "loader_insert None ?keys ?l1 t = (r2, l2, t2)" by (metis prod_cases3)
    have "ids_of ?l1 t" using s1(1) by simp
    note s2 = loader_insert_spec [OF i t this]
    obtain m where m: "r2 = Inr m" using s2(5) by blast
    have "t' = t2" "ids_of l' t2 = ids_of l2 t2" using e l(2) False q i n m by (auto simp: Exec_def Let_def)
    with s2(1,2) loader_insert_appends [OF i t] show ?thesis by simp
  qed
  then show "table_ok t'" "ids_of l' t'" "lt_rows t' = lt_rows t @ drop (length (lt_rows t)) (lt_rows t')" by blast+
qed

subsection \<open>Looking after the locks\<close>

text \<open>What the rows and the loader have to do with each other while a transaction is open.\<close>

definition lookup_inv :: "'k lookup_conc \<Rightarrow> bool" where
  "lookup_inv s \<longleftrightarrow> table_ok (cTable s) \<and> set (cRefs s) \<subseteq> fst ` set (lt_rows (cTable s)) \<and>
     (case cIngest s of None \<Rightarrow> True | Some g \<Rightarrow>
        table_ok \<lparr>lt_rows = lt_rows (cTable s) @ itNew g, lt_next = itNext g\<rparr> \<and> ids_of (itLoader g) \<lparr>lt_rows = lt_rows (cTable s) @ itNew g, lt_next = itNext g\<rparr> \<and>
        Some ` set (itRefs g) \<subseteq> range (l_ids (itLoader g)))"

lemma table_ok_filter: "table_ok t \<Longrightarrow> table_ok (t\<lparr>lt_rows := filter P (lt_rows t)\<rparr>)"
  by (auto simp: table_ok_def distinct_map_filter)

lemma table_ok_filter_append: "table_ok \<lparr>lt_rows = xs @ ys, lt_next = n\<rparr> \<Longrightarrow> table_ok \<lparr>lt_rows = filter P xs @ ys, lt_next = n\<rparr>"
  by (auto simp: table_ok_def distinct_map_filter)

lemma table_ok_prefix: "table_ok \<lparr>lt_rows = xs @ ys, lt_next = n\<rparr> \<Longrightarrow> table_ok \<lparr>lt_rows = xs, lt_next = n\<rparr>"
  by (auto simp: table_ok_def)

lemma lookup_step_inv:
  assumes "lookup_step True s s'" "lookup_inv s"
  shows "lookup_inv s'"
  using assms(1)
proof cases
  case (IngestExec l l' t')
  have "table_ok (cTable s)" using assms(2) by (simp add: lookup_inv_def)
  note ex = Exec_deletes_alone [OF IngestExec(3,4) this IngestExec(5)]
  have "\<lparr>lt_rows = lt_rows (cTable s) @ drop (length (lt_rows (cTable s))) (lt_rows t'), lt_next = lt_next t'\<rparr> = t'" using ex(3) by (cases t') simp
  with ex(1,2) assms(2) IngestExec(1) show ?thesis by (simp add: lookup_inv_def)
next
  case (IngestWrite g k i)
  have "Some i \<in> range (l_ids (itLoader g))" using IngestWrite(3) by (auto simp: GetNow_def split: if_splits option.splits) (metis rangeI)
  with assms(2) IngestWrite(1,2) show ?thesis by (simp add: lookup_inv_def)
next
  case (IngestCommit g)
  have "set (itRefs g) \<subseteq> fst ` set (lt_rows (cTable s) @ itNew g)"
  proof
    fix i assume "i \<in> set (itRefs g)"
    then have "Some i \<in> range (l_ids (itLoader g))" using assms(2) IngestCommit(2) by (auto simp: lookup_inv_def)
    then obtain k where "l_ids (itLoader g) k = Some i" by (metis rangeE)
    then have "(i, k) \<in> set (lt_rows (cTable s) @ itNew g)" using assms(2) IngestCommit(2) by (simp add: lookup_inv_def ids_of_def)
    then show "i \<in> fst ` set (lt_rows (cTable s) @ itNew g)" by force
  qed
  with assms(2) IngestCommit show ?thesis by (auto simp: lookup_inv_def)
next
  case (IngestRollback g)
  then have "table_ok \<lparr>lt_rows = lt_rows (cTable s), lt_next = itNext g\<rparr>" using assms(2) table_ok_prefix by (auto simp: lookup_inv_def)
  then have "table_ok ((cTable s)\<lparr>lt_next := itNext g\<rparr>)" by (simp add: table_ok_def)
  then show ?thesis using assms(2) IngestRollback by (simp add: lookup_inv_def)
next
  case (ReapStart ids)
  with assms(2) show ?thesis by (auto simp: lookup_inv_def split: option.splits)
next
  case (ReapFinish ids snapshot)
  let ?keep = "\<lambda>r :: int \<times> 'a. \<not> (fst r \<in> set ids \<and> fst r \<notin> set (cRefs s))"
  have refs: "set (cRefs s) \<subseteq> fst ` set (filter ?keep (lt_rows (cTable s)))" using assms(2) by (force simp: lookup_inv_def)
  show ?thesis
  proof (cases "cIngest s")
    case None
    with refs assms(2) ReapFinish(1) show ?thesis by (simp add: lookup_inv_def table_ok_filter)
  next
    case (Some g)
    have "ids_of (itLoader g) \<lparr>lt_rows = filter ?keep (lt_rows (cTable s)) @ itNew g, lt_next = itNext g\<rparr>" unfolding ids_of_def
    proof (intro allI impI)
      fix k i assume k: "l_ids (itLoader g) k = Some i"
      then have "row_locked s i" using Some by (auto simp: row_locked_def) (metis rangeI)
      then have "i \<notin> set ids" using ReapFinish(3) by blast
      moreover have "(i, k) \<in> set (lt_rows (cTable s) @ itNew g)" using k assms(2) Some by (simp add: lookup_inv_def ids_of_def)
      ultimately show "(i, k) \<in> set (lt_rows \<lparr>lt_rows = filter ?keep (lt_rows (cTable s)) @ itNew g, lt_next = itNext g\<rparr>)" by auto
    qed
    with refs assms(2) ReapFinish(1) Some show ?thesis by (simp add: lookup_inv_def table_ok_filter table_ok_filter_append)
  qed
next
  case (HistoryReap keep)
  with assms(2) show ?thesis by (auto simp: lookup_inv_def split: option.splits)
qed

text \<open>
  If the statement that deletes rows looked for references only after it has got the locks, then no interleaving of ingestion, the reaper of the history and the reaper of the lookup table would leave a row of the history without the
  row of the lookup table that it refers to: the locks that the loader takes, and holds until its transaction ends, are enough.
\<close>

theorem lookup_locks_suffice:
  assumes "lookup_quiet s0" "(lookup_step True)\<^sup>*\<^sup>* s0 s"
  shows "set (cRefs s) \<subseteq> fst ` set (lt_rows (cTable s))"
proof -
  have "lookup_inv s" using assms(2)
  proof (induction rule: rtranclp_induct)
    case base
    show ?case using assms(1) by (simp add: lookup_quiet_def lookup_inv_def)
  qed (rule lookup_step_inv)
  then show ?thesis by (simp add: lookup_inv_def)
qed

subsection \<open>The race\<close>

lemma Exec_one_key:
  assumes "table_ok t" "(i, k) \<in> set (lt_rows t)"
  obtains l' where "Exec \<lparr>InsertFault = None, QueryFault = None\<rparr> (\<lambda>t. t) ((new_loader rank ConcurrentDeletes)\<lparr>l_set := [k]\<rparr>) t = (None, l', t)" "GetNow l' k = Inr i"
proof -
  let ?l = "(new_loader rank ConcurrentDeletes)\<lparr>l_set := [k], l_sealed := True\<rparr>"
  have "inj_on snd (set (lt_rows t))" using assms(1) by (auto simp: table_ok_def distinct_map)
  then have one: "r = (i, k)" if "r \<in> set (lt_rows t)" "snd r = k" for r using that assms(2) by (metis inj_onD snd_conv)
  have "distinct (bulkGet [k] t)" using assms(1) by (auto simp: table_ok_def distinct_map bulkGet_def)
  moreover have "set (bulkGet [k] t) = {(i, k)}"
  proof
    show "set (bulkGet [k] t) \<subseteq> {(i, k)}" using one by (fastforce simp: bulkGet_def)
    show "{(i, k)} \<subseteq> set (bulkGet [k] t)" using assms(2) by (simp add: bulkGet_def)
  qed
  ultimately have "length (bulkGet [k] t) = 1" using distinct_card [of "bulkGet [k] t"] by simp
  then obtain y where y: "bulkGet [k] t = [y]" by (cases "bulkGet [k] t") auto
  with \<open>set (bulkGet [k] t) = {(i, k)}\<close> have g: "bulkGet [k] t = [(i, k)]" by simp
  have "loader_query None [k] ?l t = (Inr 1, updateMap ?l [(i, k)])" by (simp add: loader_query_def filter_keys_def new_loader_def g)
  then show thesis using that
    by (simp add: Exec_def loader_insert_def filter_keys_def new_loader_def GetNow_def Let_def)
qed

text \<open>
  C18. At the isolation level of these transactions, where a statement looks for references as of its beginning, the locks are not enough: for every row that no row of the history refers to there is an interleaving in which ingestion uses the
  row, and the statement that deletes it, having waited for the end of that transaction, deletes it all the same; all transactions are then over, and rows of the history refer to a row that is gone.
\<close>

theorem lookup_reaper_race:
  fixes s0 :: "'k lookup_conc"
  assumes "lookup_quiet s0" "(i, k) \<in> set (lt_rows (cTable s0))" "i \<notin> set (cRefs s0)"
  shows "\<exists>s. (lookup_step False)\<^sup>*\<^sup>* s0 s \<and> cIngest s = None \<and> cReap s = None \<and> i \<in> set (cRefs s) \<and> i \<notin> fst ` set (lt_rows (cTable s))"
proof -
  let ?t = "cTable s0" and ?l = "(new_loader (\<lambda>_. []) ConcurrentDeletes)\<lparr>l_set := [k]\<rparr>"
  have q: "cIngest s0 = None" "cReap s0 = None" "table_ok ?t" using assms(1) by (simp_all add: lookup_quiet_def)
  obtain l' where l': "Exec \<lparr>InsertFault = None, QueryFault = None\<rparr> (\<lambda>t. t) ?l ?t = (None, l', ?t)" "GetNow l' k = Inr i" by (rule Exec_one_key [OF q(3) assms(2)])
  let ?g = "\<lparr>itLoader = l', itNew = [], itNext = lt_next ?t, itRefs = []\<rparr>"
  let ?s1 = "s0\<lparr>cIngest := Some ?g\<rparr>"
  let ?s2 = "?s1\<lparr>cReap := Some ([i], cRefs ?s1)\<rparr>"
  let ?s3 = "?s2\<lparr>cIngest := Some (?g\<lparr>itRefs := i # itRefs ?g\<rparr>)\<rparr>"
  let ?s4 = "?s3\<lparr>cTable := \<lparr>lt_rows = lt_rows (cTable ?s3) @ itNew ?g, lt_next = itNext ?g\<rparr>, cRefs := [i] @ cRefs ?s3, cIngest := None\<rparr>"
  let ?s5 = "?s4\<lparr>cTable := (cTable ?s4)\<lparr>lt_rows := filter (\<lambda>r. \<not> (fst r \<in> set [i] \<and> fst r \<notin> set (if False then cRefs ?s4 else cRefs s0))) (lt_rows (cTable ?s4))\<rparr>, cReap := None\<rparr>"
  have "lookup_step False s0 ?s1" using IngestExec [of s0 ?l l' ?t False] q(1) l'(1) by (simp add: fresh_loader_def new_loader_def)
  moreover have "lookup_step False ?s1 ?s2" by (rule ReapStart) (simp add: q(2))
  moreover have "lookup_step False ?s2 ?s3" by (rule IngestWrite [where k = k]) (simp_all add: l'(2))
  moreover have "lookup_step False ?s3 ?s4" using IngestCommit [of ?s3 "?g\<lparr>itRefs := [i]\<rparr>" False] by simp
  moreover have "lookup_step False ?s4 ?s5" by (rule ReapFinish) (simp_all add: row_locked_def)
  ultimately have "(lookup_step False)\<^sup>*\<^sup>* s0 ?s5" by (meson converse_rtranclp_into_rtranclp rtranclp.rtrancl_refl)
  moreover have "i \<notin> fst ` set (lt_rows (cTable ?s5))" using assms(3) by auto
  ultimately show ?thesis by (intro exI [of _ ?s5]) simp
qed

definition wit_conc :: "string lookup_conc" where
  "wit_conc = \<lparr>cTable = wit_lookup_table, cRefs = [2, 3], cIngest = None, cReap = None\<rparr>"

lemma wit_conc_quiet: "lookup_quiet wit_conc"
  by (simp add: lookup_quiet_def wit_conc_def wit_lookup_table_def table_ok_def)

theorem lookup_reaper_race_witness:
  "\<exists>s. (lookup_step False)\<^sup>*\<^sup>* wit_conc s \<and> cIngest s = None \<and> cReap s = None \<and> 1 \<in> set (cRefs s) \<and> 1 \<notin> fst ` set (lt_rows (cTable s))"
  by (rule lookup_reaper_race [OF wit_conc_quiet, of 1 "''A''"]) (simp_all add: wit_conc_def wit_lookup_table_def)

theorem lookup_locks_suffice_witness:
  "\<exists>s. (lookup_step True)\<^sup>*\<^sup>* wit_conc s \<and> cReap s = Some ([1], [2, 3]) \<and> list_all (\<lambda>i. i \<in> fst ` set (lt_rows (cTable s))) (cRefs s)"
proof -
  let ?s = "wit_conc\<lparr>cReap := Some ([1], cRefs wit_conc)\<rparr>"
  have "lookup_step True wit_conc ?s" by (rule ReapStart) (simp add: wit_conc_def)
  then have "(lookup_step True)\<^sup>*\<^sup>* wit_conc ?s" by blast
  with lookup_locks_suffice [OF wit_conc_quiet this] show ?thesis by (intro exI [of _ ?s]) (auto simp: wit_conc_def list_all_iff)
qed

end
