(* ===== verification/Spec2Isabelle.thy ===== *)
theory Spec2Isabelle
  imports Bucket_Window Fee_Window Fsm_Claims Reaper Parallel Txsub_Props Contract_Stats_Props Order_Book_Claims Stats_Check State_Read_Back Page_Query
    Backlog_Limiter Duration_Limiter Rpc_Claims Backfill_Claims Rpc_Transaction_Pages Rpc_Event_Pages Lookup_Race
begin

text \<open>
  A verification development for Horizon, the API server of the Stellar network (Go, under
  \<open>src/internal\<close>), and for the RPC server beside it (\<open>src/suban-rpc/cmd/stellar-rpc/internal\<close>).

  The program and the theories.

  Horizon ingests ledgers into a Postgres database and serves them. The ingestion system is a state
  machine that decides from the database and from the state of stellar-core what to do next, and runs the
  processors on each ledger inside a transaction; several instances share one database through a lock on
  the last ingested ledger. Around it are the reingestion commands, the reaper of old history, the in memory
  order book, the submission of transactions, and the queries of the API. The RPC server keeps recent ledgers
  in windows and limits the requests it serves.

  \<^item> \<open>Prelude\<close>: integer widths, the combinator for \<open>if err != nil\<close>, facts on words and lists. \<open>Decimal\<close>: decimal
    numerals as Go prints and reads them. \<open>Hex\<close>: hexadecimal strings.
  \<^item> \<open>Ingest_Db\<close> (\<open>db2/history/key_value.go\<close>, \<open>main.go\<close>, \<open>ledger.go\<close>): the database session of the ingestion system, with its
    transaction, the lock, and a fault for every call. \<open>Processor_Runner\<close> (\<open>ingest/processor_runner.go\<close>): the order in which
    state and history are written.
  \<^item> \<open>Fsm\<close> (\<open>ingest/fsm*.go\<close>, \<open>db_state.go\<close>, \<open>loadtest.go\<close>): one definition per node, and the driver loop. \<open>Fsm_Inv\<close> and \<open>Fsm_Ranges\<close>
    say what one run of a node does to the database under any faults; \<open>Fsm_Props\<close>, \<open>Fsm_Live\<close> and \<open>Fsm_Claims\<close> draw the
    consequences: reachable databases are consistent and free of gaps, nothing panics or leaks a transaction,
    an instance with answering services builds the state and then ingests every ledger, a load test can
    be undone and excludes other instances.
  \<^item> \<open>Reaper\<close> (\<open>ingest/reap.go\<close>): the retention window, and the ledgers that are left when the history has a gap and its rows are not in order. \<open>Parallel\<close> (\<open>ingest/main.go\<close>, \<open>parallel.go\<close>): reingestion of ranges, one after
    the other or by workers under every interleaving.
  \<^item> \<open>Lookup_Loader\<close> (\<open>db2/history/loader.go\<close> and the four loaders): the identifiers of accounts, assets, balances and pools that the history tables refer to, with what other
    transactions may do while they are looked up. \<open>Lookup_Reaper\<close> (\<open>ingest/reap.go\<close>, \<open>db2/history/main.go\<close>): the deletion of the identifiers that nothing refers to any more, and that it
    leaves none of them. \<open>Lookup_Race\<close>: both at the same time as a step relation, with the locks that the statements take; a row can be deleted that ingestion has begun to use.
  \<^item> \<open>Asset_Stats\<close> and \<open>Contract_Stats\<close> (\<open>ingest/processors/asset_stats_*.go\<close>, \<open>contract_asset_stats.go\<close>, \<open>db2/history/asset_stats.go\<close>): the
    deltas a ledger adds to the statistics of assets and the statements that apply them. \<open>Asset_Stats_Props\<close>: the table is
    an aggregate of the ledger, and stays so. \<open>Contract_Stats_Props\<close>: the statistics of contracts are an aggregate of the balances
    table, and two orders of statements in which they are not.
  \<^item> \<open>Order_Book\<close> (\<open>ingest/orderbook.go\<close>, \<open>processors/offers_processor.go\<close>, \<open>liquidity_pools_change_processor.go\<close>, \<open>db2/history/offers.go\<close>,
    \<open>liquidity_pools.go\<close>): from the changes of a ledger through tables that keep deleted rows for a while to the graph of the
    path finder. \<open>Order_Book_Props\<close> has the theory of such tables as the locale \<open>tombstones\<close>, used for offers and for pools;
    \<open>Order_Book_Claims\<close> the whole system as a step relation and that the graph follows the ledger.
  \<^item> \<open>State_Tables\<close> (\<open>processors/accounts_processor.go\<close>, \<open>signers_processor.go\<close>, \<open>account_data_processor.go\<close>, \<open>trust_lines_processor.go\<close>,
    \<open>claimable_balances_change_processor.go\<close> and their statements): the rows of the other state tables and the batches that write them.
    \<open>Keyed_Table\<close> and \<open>Batch_Table\<close> have the theory of a table with a key and of a batch of statements on it; \<open>State_Tables_Props\<close> the locale
    \<open>entry_table\<close> of a table whose rows are computed from ledger entries, which \<open>Entry_Tables\<close> and \<open>Balance_Tables\<close> interpret for accounts,
    data, trust lines and balances; \<open>Signer_Table\<close> has the difference of signers; \<open>State_Tables_Claims\<close> that all the tables follow the ledger.
  \<^item> \<open>State_Verifier\<close> (\<open>ingest/verify.go\<close>): the comparison of all tables with a checkpoint. \<open>State_Verifier_Props\<close>: what a verified state is;
    \<open>Stats_Check\<close>: what the check of the statistics compares, and what it does not; \<open>State_Read_Back\<close>: that the rows the processors write
    read back as the entries they were written from.
  \<^item> \<open>Page_Query\<close> (\<open>db2/page_query.go\<close>, \<open>db2/history/effect.go\<close>): cursors and pages; the locale \<open>paged_query\<close> says what a page
    promises and that following the cursor visits everything once; it is interpreted for integer keys and for effects, where the cursors are the paging tokens of the rows.
  \<^item> \<open>Codes\<close> (\<open>codes/main.go\<close>): the strings of results. \<open>Submission_List\<close>, \<open>Txsub\<close>, \<open>Txsub_Props\<close> (\<open>txsub/*.go\<close>): the channels of the
    waiting submissions, \<open>Submit\<close> and \<open>Tick\<close>, and that every submission is answered exactly once.
  \<^item> \<open>Bucket_Window\<close>, \<open>Fee_Window\<close>, \<open>Backlog_Limiter\<close>, \<open>Duration_Limiter\<close> (RPC: \<open>ledgerbucketwindow\<close>, \<open>feewindow\<close>, \<open>network\<close>): the circular buffer
    as a refinement of a list of ledgers, the distributions of fees, the counter of pending requests under every
    interleaving of atomic operations, and the loops that wait for a response or a timeout, over any sequence of the events they receive. What a handler writes is a function of the time
    its context has.
  \<^item> \<open>Rpc_Store\<close>, \<open>Rpc_Ingest\<close> (RPC: \<open>db/*.go\<close>, \<open>ingest/service.go\<close>): the SQLite tables of ledgers, transactions and events with their write
    transactions, and the service that fills them. \<open>Rpc_Store_Props\<close>: the tables are a range of ledgers with exactly their transactions and
    events, after any failures and restarts. \<open>Rpc_Claims\<close>: what becomes of the retries of the service after a commit has failed.
  \<^item> \<open>Backfill\<close> (RPC: \<open>ingest/backfill.go\<close>): filling the tables from a datastore, backwards and forwards. \<open>Backfill_Props\<close>: a fill ends, keeps the range free of
    gaps and fills the retention window up to the newest checkpoint (excluded), if the first of its two forward iterations has something to fill or no checkpoint is reached between them. \<open>Backfill_Gap\<close>: the race in
    which it leaves a gap, when this is not so. \<open>Backfill_Claims\<close>: both on a concrete datastore.
  \<^item> \<open>Rpc_Ledgers\<close>, \<open>Rpc_Transactions\<close>, \<open>Rpc_Events\<close> (RPC: \<open>methods/get_ledgers.go\<close>, \<open>get_transactions.go\<close>, \<open>get_transaction.go\<close>, \<open>get_events.go\<close>): the methods that read
    the tables. \<open>Rpc_Ledger_Pages\<close>, \<open>Rpc_Transaction_Pages\<close>, \<open>Rpc_Event_Pages\<close>: a client that follows the cursors gets everything once and in order; what goes wrong at the end of the
    transactions, and with filters of which only some name contracts. The first two interpret the locale of \<open>Page_Query\<close>.

  Conventions.

  Integers have their width wherever the code computes with them. An error is a value (\<open>Inl\<close>, or the
  error component of a transition), and every call that can fail has a fault in the environment of the
  model, so a theorem that does not speak of faults holds whatever fails. Panics, a send that blocks for ever and a
  loop that does not end are values too (\<open>None\<close>, \<open>chan_fault\<close>); that a value is never one of them is a theorem. The two
  fuel arguments are the number of iterations of a driver that runs for ever (\<open>Fsm_Live\<close>) and the number of pages a
  client fetches (\<open>Page_Query\<close>), for which enough is stated. Code that is not in the repository is a parameter: the SDK's backend,
  change reader and order book graph, the XDR, TOID and contract packages, stellar-core. What is assumed of a
  parameter is a named hypothesis, and a witness instantiates it. Goroutines are step relations whose steps are the
  atomic operations or the critical sections of the code. A map is visited in an order that is an argument.
  SQL statements are functions on lists of rows that keep the unique columns of the schema; the isolation of
  transactions is taken for granted, and so is that a failed transaction leaves no trace;
  only \<open>Lookup_Race\<close> speaks of statements of two transactions that wait for each other.

  The bounds of some statements.

  The state machine is followed over runs of the nodes of online instances and of reingestion without force, and over load test
  snapshots and restores. Forced reingestion is described on its own (\<open>Fsm_Claims\<close>); the verification of a range and the stress test are modelled
  but no part of the reachable databases. All steps read the ledgers of one network: the synthetic backend and the fixtures that a
  load test may use (\<open>ingest/main.go\<close>) are not covered. The service of the RPC server (\<open>rpc_step\<close>) starts without the optional fill from a datastore,
  which is treated in \<open>Backfill\<close>, and has the same retention window after every restart. A fill that leaves a gap is therefore no part of its
  steps.

  What is not modelled.

  Logging, metrics and tracing. The rendering and routing of the HTTP API, and the other queries of the
  history package. The processors of operations, effects and trades, which enter the ingestion only through what they write. The
  captive core, whose work is in the SDK. The rebuilding of the state while the order book stream runs: its
  theorems speak of the time between two rebuilds. Generated code (\<open>db2/schema/bindata.go\<close>), flags and configuration. Of the
  RPC server: the methods that hand a request to stellar-core or to the simulation, the preflight library.

  What is next.

  Trades and their aggregation; on the side of the RPC server the methods that stellar-core answers.
\<close>

end
